(* ===== verification/Exo_Prelude.thy ===== *)
theory Exo_Prelude
  imports Main "HOL-Library.Word" "HOL-Library.Char_ord" "HOL-Library.Multiset"
begin

unbundle bit_operations_syntax

text \<open>
  What the component theories share: bytes and C strings, the parts of the C library the
  sources call (\<open>memcmp\<close>, \<open>strchr\<close>-style column splitting, \<open>strtok_r\<close>, \<open>qsort\<close>, the
  \<open>ctype\<close> tests in the C locale), and generic lemmas on lists and words.

  A byte is a \<^typ>\<open>char\<close>; a byte buffer (pointer and length) is a \<^typ>\<open>string\<close>. A C string
  is the part of a buffer before its first NUL, \<open>cstr\<close>. Casts to \<open>unsigned char\<close> and
  \<open>uint8_t\<close> are \<open>byte_of\<close>, which keeps the low eight bits.
\<close>

named_theorems exo_codec \<open>round-trip equations of encoders and decoders\<close>
named_theorems exo_len \<open>lengths of encoded objects\<close>

type_synonym u8 = "8 word"
type_synonym u32 = "32 word"
type_synonym u64 = "64 word"
type_synonym bytes = string

subsection \<open>Bytes\<close>

definition byte_of :: "'a::len word \<Rightarrow> char" where
  "byte_of w = char_of (unat w)"

abbreviation nul :: char where "nul \<equiv> CHR 0x00"
abbreviation tab :: char where "tab \<equiv> CHR 0x09"
abbreviation nl :: char where "nl \<equiv> CHR 0x0A"
abbreviation cr :: char where "cr \<equiv> CHR 0x0D"
abbreviation quot :: char where "quot \<equiv> CHR 0x22"
abbreviation bslash :: char where "bslash \<equiv> CHR 0x5C"

definition cstr :: "bytes \<Rightarrow> string" where
  "cstr s = takeWhile (\<lambda>c. c \<noteq> nul) s"

lemma of_char_lt_256: "(of_char c :: nat) < 256"
  by (rule nat_of_char_less_256)

lemma of_char_word_nat: "(of_char c :: 'a::len word) = of_nat (of_char c)"
  by (simp add: of_nat_of_char)

lemma of_char_byte_of [exo_codec]:
  "(of_char (byte_of (w :: 'a::len word)) :: 'b::len word) = of_nat (unat w mod 256)"
  by (simp add: byte_of_def of_char_word_nat)

lemma byte_of_of_char [exo_codec]:
  "8 \<le> LENGTH('a) \<Longrightarrow> byte_of (of_char c :: 'a::len word) = c"
proof -
  assume len: "8 \<le> LENGTH('a)"
  have "(256::nat) \<le> 2 ^ LENGTH('a)"
    using power_increasing [OF len, of "2::nat"] by simp
  then have "unat (of_char c :: 'a word) = of_char c"
    by (simp add: of_char_word_nat unat_of_nat take_bit_nat_eq_self_iff
          order_less_le_trans [OF of_char_lt_256])
  then show ?thesis by (simp add: byte_of_def)
qed

lemma unat_of_char:
  "8 \<le> LENGTH('a) \<Longrightarrow> unat (of_char c :: 'a::len word) = of_char c"
proof -
  assume len: "8 \<le> LENGTH('a)"
  have "(256::nat) \<le> 2 ^ LENGTH('a)"
    using power_increasing [OF len, of "2::nat"] by simp
  then show ?thesis
    by (simp add: of_char_word_nat unat_of_nat take_bit_nat_eq_self_iff
          order_less_le_trans [OF of_char_lt_256])
qed

lemma of_char_byte_of_u32 [exo_codec]: "(of_char (byte_of (w :: u32)) :: u32) = w AND 255"
proof -
  have "w AND 255 = take_bit 8 w" by (simp add: take_bit_eq_mask mask_numeral)
  then show ?thesis
    by (simp add: byte_of_def of_char_word_nat unsigned_of_nat take_bit_eq_mod
          word_unat_eq_iff unat_mod)
qed

lemma unat_u8 [simp]: "unat (w :: u8) < 256"
proof -
  have "unat w < 2 ^ LENGTH(8)" by (rule unsigned_less)
  then show ?thesis by simp
qed

lemma unat_u8_mod [simp]: "unat (w :: u8) mod 256 = unat w"
  by (simp add: mod_less)

lemma bit_below:
  "(w :: 'a::len word) < 2 ^ k \<Longrightarrow> k < LENGTH('a) \<Longrightarrow> bit w n \<Longrightarrow> n < k"
  by (metis bit_take_bit_iff less_mask_eq take_bit_eq_mask)

text \<open>The bit positions of a 32-bit word, for equations checked bit by bit.\<close>

lemma less_32_iff: "n < 32 \<longleftrightarrow> n \<in> set [0, 1, 2, 3, 4, 5, 6, 7, 8, 9, 10, 11, 12, 13, 14, 15, 16,
    17, 18, 19, 20, 21, 22, 23, 24, 25, 26, 27, 28, 29, 30, 31 :: nat]"
  by simp arith

lemma cstr_id: "nul \<notin> set s \<Longrightarrow> cstr s = s"
  unfolding cstr_def by (subst takeWhile_eq_all_conv) auto

lemma cstr_no_nul: "nul \<notin> set (cstr s)"
  by (auto simp: cstr_def dest: set_takeWhileD)

subsection \<open>The character classes of the C locale\<close>

definition isdigit :: "char \<Rightarrow> bool" where
  "isdigit c \<longleftrightarrow> CHR ''0'' \<le> c \<and> c \<le> CHR ''9''"

definition isupper :: "char \<Rightarrow> bool" where
  "isupper c \<longleftrightarrow> CHR ''A'' \<le> c \<and> c \<le> CHR ''Z''"

definition islower :: "char \<Rightarrow> bool" where
  "islower c \<longleftrightarrow> CHR ''a'' \<le> c \<and> c \<le> CHR ''z''"

definition isalnum :: "char \<Rightarrow> bool" where
  "isalnum c \<longleftrightarrow> isdigit c \<or> isupper c \<or> islower c"

definition isspace :: "char \<Rightarrow> bool" where
  "isspace c \<longleftrightarrow> c = CHR '' '' \<or> (tab \<le> c \<and> c \<le> cr)"

definition tolower :: "char \<Rightarrow> char" where
  "tolower c = (if isupper c then char_of ((of_char c :: nat) + 32) else c)"

definition digit_val :: "char \<Rightarrow> nat" where
  "digit_val c = of_char c - 48"

lemmas ctype_defs = isdigit_def isupper_def islower_def isalnum_def isspace_def tolower_def

subsection \<open>Comparison and sorting of buffers\<close>

text \<open>
  \<open>memcmp\<close> on buffers of equal length: the sign of the first difference, bytes compared
  as unsigned values (\<^theory_text>\<open>Char_ord\<close> orders characters so).
\<close>

fun memcmp :: "bytes \<Rightarrow> bytes \<Rightarrow> int" where
  "memcmp (x # xs) (y # ys) = (if x < y then -1 else if y < x then 1 else memcmp xs ys)"
| "memcmp _ _ = 0"

lemma memcmp_eq_0: "length xs = length ys \<Longrightarrow> memcmp xs ys = 0 \<longleftrightarrow> xs = ys"
  by (induction xs ys rule: memcmp.induct) auto

lemma memcmp_refl [simp]: "memcmp xs xs = 0"
  by (induction xs) auto

text \<open>
  \<open>qsort\<close> with a comparator returns the elements in an order the comparator accepts; where
  the comparator is a total order on the elements the result is unique. The model is
  insertion sort by the comparator.
\<close>

fun insert_by :: "('a \<Rightarrow> 'a \<Rightarrow> int) \<Rightarrow> 'a \<Rightarrow> 'a list \<Rightarrow> 'a list" where
  "insert_by cmp x [] = [x]"
| "insert_by cmp x (y # ys) = (if cmp x y \<le> 0 then x # y # ys else y # insert_by cmp x ys)"

fun qsort :: "('a \<Rightarrow> 'a \<Rightarrow> int) \<Rightarrow> 'a list \<Rightarrow> 'a list" where
  "qsort cmp [] = []"
| "qsort cmp (x # xs) = insert_by cmp x (qsort cmp xs)"

lemma mset_insert_by [simp]: "mset (insert_by cmp x xs) = add_mset x (mset xs)"
  by (induction xs) auto

lemma mset_qsort [simp]: "mset (qsort cmp xs) = mset xs"
  by (induction xs) auto

lemma set_qsort [simp]: "set (qsort cmp xs) = set xs"
  by (metis mset_qsort set_mset_mset)

lemma length_qsort [simp]: "length (qsort cmp xs) = length xs"
  by (metis mset_qsort size_mset)

text \<open>
  A comparator that decides a total order: what every comparator the store hands to
  \<open>qsort\<close> promises. Its clients are sorting and binary search.
\<close>

locale comparator =
  fixes cmp :: "'a \<Rightarrow> 'a \<Rightarrow> int" and dom :: "'a set"
  assumes cmp_flip: "x \<in> dom \<Longrightarrow> y \<in> dom \<Longrightarrow> cmp x y \<le> 0 \<longleftrightarrow> 0 \<le> cmp y x"
    and cmp_trans: "x \<in> dom \<Longrightarrow> y \<in> dom \<Longrightarrow> z \<in> dom \<Longrightarrow>
          cmp x y \<le> 0 \<Longrightarrow> cmp y z \<le> 0 \<Longrightarrow> cmp x z \<le> 0"
begin

lemma cmp_linear: "x \<in> dom \<Longrightarrow> y \<in> dom \<Longrightarrow> cmp x y \<le> 0 \<or> cmp y x \<le> 0"
  using cmp_flip [of x y] by linarith

lemma sorted_insert_by:
  assumes "sorted_wrt (\<lambda>a b. cmp a b \<le> 0) xs" "x \<in> dom" "set xs \<subseteq> dom"
  shows "sorted_wrt (\<lambda>a b. cmp a b \<le> 0) (insert_by cmp x xs)"
  using assms
proof (induction xs)
  case Nil
  then show ?case by simp
next
  case (Cons y ys)
  have set: "set (insert_by cmp x ys) = insert x (set ys)"
    by (metis mset_insert_by set_mset_add_mset_insert set_mset_mset)
  have yx: "cmp y x \<le> 0" if "\<not> cmp x y \<le> 0"
    using that cmp_linear [of x y] Cons.prems by auto
  show ?case
    using Cons yx by (auto simp: set intro: cmp_trans)
qed

lemma sorted_qsort:
  "set xs \<subseteq> dom \<Longrightarrow> sorted_wrt (\<lambda>a b. cmp a b \<le> 0) (qsort cmp xs)"
  by (induction xs) (auto intro!: sorted_insert_by)

end

subsection \<open>Binary search\<close>

text \<open>
  The loop \<open>while (lo < hi) { mid = (lo + hi) / 2; if (below mid) lo = mid + 1; else hi = mid; }\<close>
  that the store uses for its sorted key array.
\<close>

function lower_bound :: "(nat \<Rightarrow> bool) \<Rightarrow> nat \<Rightarrow> nat \<Rightarrow> nat" where
  "lower_bound below lo hi =
     (if lo < hi
      then (let mid = (lo + hi) div 2
            in if below mid then lower_bound below (mid + 1) hi else lower_bound below lo mid)
      else lo)"
  by pat_completeness auto
termination
  by (relation "measure (\<lambda>(b, lo, hi). hi - lo)") auto

declare lower_bound.simps [simp del]

lemma lower_bound_spec:
  assumes "lo \<le> hi"
    and "\<And>i j. i < j \<Longrightarrow> j < hi \<Longrightarrow> below j \<Longrightarrow> below i"
    and "\<And>i. i < lo \<Longrightarrow> below i"
  shows "lower_bound below lo hi \<le> hi"
    and "\<forall>i < lower_bound below lo hi. below i"
    and "\<forall>i. lower_bound below lo hi \<le> i \<and> i < hi \<longrightarrow> \<not> below i"
proof -
  have "lower_bound below lo hi \<le> hi \<and> (\<forall>i < lower_bound below lo hi. below i) \<and>
        (\<forall>i. lower_bound below lo hi \<le> i \<and> i < hi \<longrightarrow> \<not> below i)"
    using assms
  proof (induction below lo hi rule: lower_bound.induct)
    case (1 below lo hi)
    let ?mid = "(lo + hi) div 2"
    show ?case
    proof (cases "lo < hi")
      case True
      then have mid: "?mid < hi" "lo \<le> ?mid" by auto
      show ?thesis
      proof (cases "below ?mid")
        case bm: True
        have below_low: "below i" if "i < ?mid + 1" for i
          using that bm 1(4) [of i ?mid] mid by (cases "i = ?mid") auto
        have "lower_bound below (?mid + 1) hi \<le> hi \<and>
              (\<forall>i < lower_bound below (?mid + 1) hi. below i) \<and>
              (\<forall>i. lower_bound below (?mid + 1) hi \<le> i \<and> i < hi \<longrightarrow> \<not> below i)"
          by (rule 1(1) [OF True refl bm]) (use mid 1(4) below_low in auto)
        then show ?thesis using True bm by (simp add: lower_bound.simps [of below lo hi])
      next
        case bm: False
        have ih: "lower_bound below lo ?mid \<le> ?mid \<and>
              (\<forall>i < lower_bound below lo ?mid. below i) \<and>
              (\<forall>i. lower_bound below lo ?mid \<le> i \<and> i < ?mid \<longrightarrow> \<not> below i)"
          by (rule 1(2) [OF True refl bm])
             (use mid 1(4) 1(5) in \<open>auto dest: order_less_trans\<close>)
        have above: "\<not> below i" if "?mid \<le> i" "i < hi" for i
          using that bm 1(4) [of ?mid i] by (cases "i = ?mid") auto
        have eq: "lower_bound below lo hi = lower_bound below lo ?mid"
          using True bm by (simp add: lower_bound.simps [of below lo hi])
        have "\<not> below i" if "lower_bound below lo ?mid \<le> i" "i < hi" for i
          using that ih above [of i] by (cases "i < ?mid") auto
        then show ?thesis
          using ih mid unfolding eq by (meson order.strict_trans1 order_less_imp_le)
      qed
    next
      case False
      then have eq: "lower_bound below lo hi = lo"
        by (simp add: lower_bound.simps [of below lo hi])
      show ?thesis using False 1(3,5) unfolding eq by auto
    qed
  qed
  then show "lower_bound below lo hi \<le> hi"
    and "\<forall>i < lower_bound below lo hi. below i"
    and "\<forall>i. lower_bound below lo hi \<le> i \<and> i < hi \<longrightarrow> \<not> below i" by auto
qed

end
