(* ===== verification/Exo_Bytes.thy ===== *)
theory Exo_Bytes
  imports Exo_Prelude
begin

unbundle bit_operations_syntax

text \<open>
  Binary encodings: the little-endian integers of the store's record header
  (\<open>put_u32\<close> .. \<open>get_u64\<close> of \<open>src/store.c\<close>), CRC-32 and base64 (\<open>src/util.c\<close>).
\<close>

subsection \<open>Little-endian integers\<close>

definition put_u32 :: "u32 \<Rightarrow> bytes" where
  "put_u32 v = [byte_of v, byte_of (drop_bit 8 v), byte_of (drop_bit 16 v), byte_of (drop_bit 24 v)]"

definition get_u32 :: "bytes \<Rightarrow> u32" where
  "get_u32 p = of_char (p ! 0) OR push_bit 8 (of_char (p ! 1)) OR
               push_bit 16 (of_char (p ! 2)) OR push_bit 24 (of_char (p ! 3))"

definition put_u64 :: "u64 \<Rightarrow> bytes" where
  "put_u64 v = map (\<lambda>i. byte_of (drop_bit (8 * i) v)) [0, 1, 2, 3, 4, 5, 6, 7]"

definition get_u64 :: "bytes \<Rightarrow> u64" where
  "get_u64 p = fold (\<lambda>i v. push_bit 8 v OR of_char (p ! i)) [7, 6, 5, 4, 3, 2, 1, 0] 0"

lemma of_char_byte_of_u64 [exo_codec]: "(of_char (byte_of (w :: u64)) :: u64) = w AND 255"
proof -
  have "w AND 255 = take_bit 8 w" by (simp add: take_bit_eq_mask mask_numeral)
  then show ?thesis
    by (simp add: byte_of_def of_char_word_nat unsigned_of_nat take_bit_eq_mod
          word_unat_eq_iff unat_mod)
qed

lemma mask8: "(255 :: 'a::len word) = mask 8"
  by (simp add: mask_numeral)

lemma get_put_u32 [exo_codec]: "get_u32 (put_u32 v @ r) = v"
proof (rule bit_word_eqI)
  fix n assume "n < LENGTH(32)"
  then show "bit (get_u32 (put_u32 v @ r)) n = bit v n"
    by (cases "24 \<le> n"; cases "16 \<le> n"; cases "8 \<le> n")
       (auto simp: get_u32_def put_u32_def of_char_byte_of_u32 mask8 bit_simps)
qed

lemma length_put_u32 [simp, exo_len]: "length (put_u32 v) = 4"
  by (simp add: put_u32_def)

lemma length_put_u64 [simp, exo_len]: "length (put_u64 v) = 8"
  by (simp add: put_u64_def)

lemma bit_le_step:
  "n < 64 \<Longrightarrow> bit (push_bit 8 v OR (w AND 255) :: u64) n = (if n < 8 then bit w n else bit v (n - 8))"
  by (auto simp: mask8 bit_simps)

lemma nth_put_u64:
  "(put_u64 v @ r) ! 0 = byte_of v" "(put_u64 v @ r) ! 1 = byte_of (drop_bit 8 v)"
  "(put_u64 v @ r) ! 2 = byte_of (drop_bit 16 v)" "(put_u64 v @ r) ! 3 = byte_of (drop_bit 24 v)"
  "(put_u64 v @ r) ! 4 = byte_of (drop_bit 32 v)" "(put_u64 v @ r) ! 5 = byte_of (drop_bit 40 v)"
  "(put_u64 v @ r) ! 6 = byte_of (drop_bit 48 v)" "(put_u64 v @ r) ! 7 = byte_of (drop_bit 56 v)"
  by (simp_all add: put_u64_def)

lemma get_put_u64 [exo_codec]: "get_u64 (put_u64 v @ r) = v"
proof (rule bit_word_eqI)
  fix n assume n: "n < LENGTH(64)"
  then have m: "n < 64" "n - 8 < 64" "n - 8 - 8 < 64" "n - 8 - 8 - 8 < 64" "n - 8 - 8 - 8 - 8 < 64"
    "n - 8 - 8 - 8 - 8 - 8 < 64" "n - 8 - 8 - 8 - 8 - 8 - 8 < 64"
    "n - 8 - 8 - 8 - 8 - 8 - 8 - 8 < 64" by simp_all
  have "bit (get_u64 (put_u64 v @ r)) n =
    (if n < 8 then bit v n else if n - 8 < 8 then bit v (8 + (n - 8))
     else if n - 8 - 8 < 8 then bit v (16 + (n - 8 - 8))
     else if n - 8 - 8 - 8 < 8 then bit v (24 + (n - 8 - 8 - 8))
     else if n - 8 - 8 - 8 - 8 < 8 then bit v (32 + (n - 8 - 8 - 8 - 8))
     else if n - 8 - 8 - 8 - 8 - 8 < 8 then bit v (40 + (n - 8 - 8 - 8 - 8 - 8))
     else if n - 8 - 8 - 8 - 8 - 8 - 8 < 8 then bit v (48 + (n - 8 - 8 - 8 - 8 - 8 - 8))
     else if n - 8 - 8 - 8 - 8 - 8 - 8 - 8 < 8 then bit v (56 + (n - 8 - 8 - 8 - 8 - 8 - 8 - 8))
     else bit (0 :: u64) (n - 8 - 8 - 8 - 8 - 8 - 8 - 8 - 8))"
    unfolding get_u64_def fold_simps id_apply comp_def nth_put_u64 of_char_byte_of_u64
    by (simp only: fold_simps nth_put_u64 of_char_byte_of_u64 bit_le_step [OF m(1)]
        bit_le_step [OF m(2)] bit_le_step [OF m(3)] bit_le_step [OF m(4)] bit_le_step [OF m(5)]
        bit_le_step [OF m(6)] bit_le_step [OF m(7)] bit_le_step [OF m(8)] bit_drop_bit_eq comp_apply)
  also have "\<dots> = bit v n" using n by simp
  finally show "bit (get_u64 (put_u64 v @ r)) n = bit v n" .
qed

subsection \<open>CRC-32\<close>

definition crc_step :: "u32 \<Rightarrow> u32" where
  "crc_step c = (if c AND 1 \<noteq> 0 then 0xEDB88320 XOR drop_bit 1 c else drop_bit 1 c)"

text \<open>Entry \<open>i\<close> of \<open>crc_table\<close>: eight steps from \<open>i\<close>.\<close>

definition crc_table :: "u32 \<Rightarrow> u32" where
  "crc_table i = (crc_step ^^ 8) i"

definition crc32_init :: u32 where "crc32_init = 0xFFFFFFFF"

definition crc32_byte :: "char \<Rightarrow> u32 \<Rightarrow> u32" where
  "crc32_byte c crc = crc_table ((crc XOR of_char c) AND 0xFF) XOR drop_bit 8 crc"

definition crc32_update :: "u32 \<Rightarrow> bytes \<Rightarrow> u32" where
  "crc32_update crc data = fold crc32_byte data crc"

definition crc32_final :: "u32 \<Rightarrow> u32" where
  "crc32_final crc = crc XOR 0xFFFFFFFF"

definition crc32_bytes :: "bytes \<Rightarrow> u32" where
  "crc32_bytes data = crc32_final (crc32_update crc32_init data)"

text \<open>The reference: the polynomial division one bit at a time, without a table.\<close>

definition crc32_ref :: "bytes \<Rightarrow> u32" where
  "crc32_ref data = fold (\<lambda>c crc. (crc_step ^^ 8) (crc XOR of_char c)) data 0xFFFFFFFF XOR 0xFFFFFFFF"

lemma and_1_iff: "c AND 1 \<noteq> 0 \<longleftrightarrow> bit (c :: u32) 0"
  by (simp add: bit_iff_odd and_one_eq odd_iff_mod_2_eq_one)

lemma crc_step_alt: "crc_step c = (if bit c 0 then 0xEDB88320 else 0) XOR drop_bit 1 c"
  unfolding crc_step_def and_1_iff by simp

lemma crc_step_xor: "crc_step (x XOR y) = crc_step x XOR crc_step y"
  by (simp add: crc_step_alt drop_bit_xor bit_xor_iff ac_simps)

lemma crc_steps_xor: "(crc_step ^^ n) (x XOR y) = (crc_step ^^ n) x XOR (crc_step ^^ n) y"
  by (induction n) (simp_all add: crc_step_xor)

text \<open>Eight steps on a word whose low byte is zero only shift it.\<close>

lemma crc_step_even: "\<not> bit c 0 \<Longrightarrow> crc_step c = drop_bit 1 c"
  by (simp add: crc_step_alt)

lemma crc_steps_shift: "(\<forall>i < n. \<not> bit c i) \<Longrightarrow> (crc_step ^^ n) c = drop_bit n c"
proof (induction n)
  case (Suc n)
  then have "(crc_step ^^ n) c = drop_bit n c" "\<not> bit (drop_bit n c) 0"
    by (simp_all add: bit_drop_bit_eq)
  then have "(crc_step ^^ Suc n) c = drop_bit 1 (drop_bit n c)" by (simp add: crc_step_even)
  then show ?case by (simp only: drop_bit_drop_bit plus_1_eq_Suc)
qed simp

lemma crc32_byte_steps: "crc32_byte c crc = (crc_step ^^ 8) (crc XOR of_char c)"
proof -
  let ?x = "crc XOR of_char c"
  have split: "?x = (?x AND mask 8) XOR (?x AND NOT (mask 8))"
    by (rule bit_word_eqI) (auto simp: bit_simps)
  have "drop_bit 8 (of_char c :: u32) = 0"
  proof -
    have "(of_char c :: u32) < 2 ^ 8"
      using of_char_lt_256 [of c] by (simp add: word_less_nat_alt unat_of_char)
    then have "\<not> bit (of_char c :: u32) (8 + n)" for n
      using bit_below [of "of_char c :: u32" 8 "8 + n"] by auto
    then show ?thesis by (intro bit_word_eqI) (simp add: bit_drop_bit_eq)
  qed
  then have hi: "drop_bit 8 (?x AND NOT (mask 8)) = drop_bit 8 crc"
    by (intro bit_word_eqI)
       (auto simp: bit_simps bit_eq_iff [of "drop_bit 8 (of_char c)"] dest: bit_imp_le_length)
  have "(crc_step ^^ 8) ?x = (crc_step ^^ 8) (?x AND mask 8) XOR (crc_step ^^ 8) (?x AND NOT (mask 8))"
    by (subst split) (rule crc_steps_xor)
  also have "(crc_step ^^ 8) (?x AND NOT (mask 8)) = drop_bit 8 (?x AND NOT (mask 8))"
    by (rule crc_steps_shift) (simp add: bit_simps)
  also note hi
  finally show ?thesis by (simp add: crc32_byte_def crc_table_def mask8)
qed

lemma xor_cancel: "a XOR x = a XOR y \<Longrightarrow> x = (y :: 'a::len word)"
proof -
  assume "a XOR x = a XOR y"
  then have "a XOR (a XOR x) = a XOR (a XOR y)" by simp
  then show ?thesis by (simp flip: xor.assoc)
qed

lemma crc_step_inj: "crc_step x = crc_step y \<Longrightarrow> x = y"
proof -
  assume eq: "crc_step x = crc_step y"
  have b31: "bit (crc_step c) 31 = bit c 0" for c
    by (auto simp: crc_step_alt bit_simps dest: bit_imp_le_length)
  then have b0: "bit x 0 = bit y 0" using eq by metis
  then have "drop_bit 1 x = drop_bit 1 y" using eq
    by (auto simp: crc_step_alt dest: xor_cancel split: if_splits)
  moreover have "bit (drop_bit 1 w) n = bit w (Suc n)" for w :: u32 and n
    by (simp add: bit_drop_bit_eq)
  ultimately have suc: "bit x (Suc n) = bit y (Suc n)" for n by metis
  show "x = y"
  proof (rule bit_word_eqI)
    fix n show "bit x n = bit y n" using b0 suc by (cases n) simp_all
  qed
qed

lemma crc_steps_inj: "(crc_step ^^ n) x = (crc_step ^^ n) y \<Longrightarrow> x = y"
  by (induction n) (auto dest: crc_step_inj)

lemma crc32_byte_inj: "crc32_byte c x = crc32_byte c y \<Longrightarrow> x = y"
proof -
  assume "crc32_byte c x = crc32_byte c y"
  then have "x XOR of_char c = y XOR of_char c" unfolding crc32_byte_steps by (rule crc_steps_inj)
  then have "(x XOR of_char c) XOR of_char c = (y XOR of_char c) XOR of_char c" by simp
  then show "x = y" by (simp add: xor.assoc)
qed

lemma crc32_byte_char_inj: "crc32_byte c x = crc32_byte d x \<Longrightarrow> c = d"
proof -
  assume "crc32_byte c x = crc32_byte d x"
  then have "x XOR of_char c = x XOR of_char d" unfolding crc32_byte_steps by (rule crc_steps_inj)
  then have "x XOR (x XOR of_char c) = x XOR (x XOR of_char d)" by simp
  then have "(of_char c :: u32) = of_char d" by (simp flip: xor.assoc)
  moreover have "byte_of (of_char e :: u32) = e" for e by (rule byte_of_of_char) simp
  ultimately show "c = d" by metis
qed

lemma crc32_update_inj: "crc32_update x data = crc32_update y data \<Longrightarrow> x = y"
  unfolding crc32_update_def
  by (induction data arbitrary: x y) (auto dest: crc32_byte_inj)

lemma crc32_update_append: "crc32_update crc (a @ b) = crc32_update (crc32_update crc a) b"
  by (simp add: crc32_update_def)

lemma crc32_final_inj: "crc32_final x = crc32_final y \<Longrightarrow> x = y"
proof -
  assume "crc32_final x = crc32_final y"
  then have "(x XOR 0xFFFFFFFF) XOR 0xFFFFFFFF = (y XOR 0xFFFFFFFF) XOR 0xFFFFFFFF"
    unfolding crc32_final_def by simp
  then show "x = y" unfolding xor.assoc by simp
qed

end
