(* ===== verification/Exo_Index.thy ===== *)
theory Exo_Index
  imports Exo_Bytes
begin

unbundle bit_operations_syntax

text \<open>
  The in-memory hash index of \<open>src/store.c\<close>: chained buckets addressed by FNV-1a, doubled
  when three quarters full (\<open>fnv1a\<close>, \<open>find_slot\<close>, \<open>grow\<close>, \<open>upsert\<close> and the unlinking that
  \<open>store_del\<close> and \<open>store_load\<close> inline). The C entry stores \<open>klen\<close> beside the key buffer;
  here it is the length of \<open>ekey\<close>. A slot of type \<open>entry_t **\<close> is a position in a chain:
  reading through it is \<open>chain_find\<close>, writing through it \<open>chain_put\<close>, unlinking
  \<open>chain_del\<close>.
\<close>

record entry =
  ekey :: bytes
  eoff :: nat
  evsize :: nat
  ets :: int
  eexp :: int

record hindex =
  buckets :: "entry list list"
  icount :: nat

definition HDR_SIZE :: nat where "HDR_SIZE = 33"

definition fnv1a :: "bytes \<Rightarrow> u64" where
  "fnv1a k = fold (\<lambda>c h. (h XOR of_char c) * 0x100000001b3) k 0xcbf29ce484222325"

definition bucket_of :: "nat \<Rightarrow> bytes \<Rightarrow> nat" where
  "bucket_of n key = unat (fnv1a key AND of_nat (n - 1))"

fun chain_find :: "bytes \<Rightarrow> entry list \<Rightarrow> entry option" where
  "chain_find key [] = None"
| "chain_find key (e # es) = (if ekey e = key then Some e else chain_find key es)"

fun chain_put :: "bytes \<Rightarrow> entry \<Rightarrow> entry list \<Rightarrow> entry list" where
  "chain_put key v [] = [v]"
| "chain_put key v (e # es) = (if ekey e = key then v # es else e # chain_put key v es)"

fun chain_del :: "bytes \<Rightarrow> entry list \<Rightarrow> entry list" where
  "chain_del key [] = []"
| "chain_del key (e # es) = (if ekey e = key then es else e # chain_del key es)"

definition find_slot :: "hindex \<Rightarrow> bytes \<Rightarrow> entry option" where
  "find_slot ix key = chain_find key (buckets ix ! bucket_of (length (buckets ix)) key)"

text \<open>\<open>grow\<close>: every entry, bucket by bucket, is pushed to the front of its new chain.\<close>

definition rehash :: "nat \<Rightarrow> entry \<Rightarrow> entry list list \<Rightarrow> entry list list" where
  "rehash nn e nb = (let i = bucket_of nn (ekey e) in nb[i := e # nb ! i])"

definition grow :: "hindex \<Rightarrow> hindex" where
  "grow ix =
     (let nn = length (buckets ix) * 2
      in ix\<lparr>buckets := fold (rehash nn) (concat (buckets ix)) (replicate nn [])\<rparr>)"

definition put_entry :: "hindex \<Rightarrow> entry \<Rightarrow> hindex" where
  "put_entry ix v =
     (let i = bucket_of (length (buckets ix)) (ekey v)
      in ix\<lparr>buckets := (buckets ix)[i := chain_put (ekey v) v (buckets ix ! i)],
            icount := (if find_slot ix (ekey v) = None then icount ix + 1 else icount ix)\<rparr>)"

text \<open>\<open>upsert\<close>: the new index and the byte count of the superseded record.\<close>

definition mk_entry :: "bytes \<Rightarrow> nat \<Rightarrow> nat \<Rightarrow> int \<Rightarrow> int \<Rightarrow> entry" where
  "mk_entry key off vlen ts ttl =
     \<lparr>ekey = key, eoff = off, evsize = vlen, ets = ts, eexp = (if ttl \<noteq> 0 then ts + ttl else 0)\<rparr>"

definition rec_bytes :: "entry \<Rightarrow> nat" where
  "rec_bytes e = HDR_SIZE + length (ekey e) + evsize e"

definition upsert :: "hindex \<Rightarrow> bytes \<Rightarrow> nat \<Rightarrow> nat \<Rightarrow> int \<Rightarrow> int \<Rightarrow> hindex \<times> nat" where
  "upsert ix0 key off vlen ts ttl =
     (let ix = (if icount ix0 + 1 > length (buckets ix0) * 3 div 4 then grow ix0 else ix0)
      in (put_entry ix (mk_entry key off vlen ts ttl),
          (case find_slot ix key of None \<Rightarrow> 0 | Some e \<Rightarrow> rec_bytes e)))"

text \<open>The unlink sequence \<open>*slot = e->next; free; s->count--\<close> of a found slot.\<close>

definition del_entry :: "hindex \<Rightarrow> bytes \<Rightarrow> hindex" where
  "del_entry ix key =
     (if find_slot ix key = None then ix
      else let i = bucket_of (length (buckets ix)) key
           in ix\<lparr>buckets := (buckets ix)[i := chain_del key (buckets ix ! i)],
                 icount := icount ix - 1\<rparr>)"

definition empty_index :: hindex where
  "empty_index = \<lparr>buckets = replicate 64 [], icount = 0\<rparr>"

definition entries :: "hindex \<Rightarrow> entry list" where
  "entries ix = concat (buckets ix)"

subsection \<open>Invariant\<close>

text \<open>Every entry hangs in the chain its key hashes to, no chain holds a key twice, and
  \<open>count\<close> is the number of entries.\<close>

definition index_ok :: "hindex \<Rightarrow> bool" where
  "index_ok ix \<longleftrightarrow>
     buckets ix \<noteq> [] \<and>
     (\<forall>b < length (buckets ix). distinct (map ekey (buckets ix ! b)) \<and>
        (\<forall>e \<in> set (buckets ix ! b). bucket_of (length (buckets ix)) (ekey e) = b)) \<and>
     icount ix = length (concat (buckets ix))"

lemma bucket_of_less: "0 < n \<Longrightarrow> bucket_of n key < n"
proof -
  assume n: "0 < n"
  have "unat (fnv1a key AND of_nat (n - 1)) \<le> unat (of_nat (n - 1) :: u64)"
    by (rule word_and_le1 [THEN word_le_nat_alt [THEN iffD1]])
  also have "\<dots> \<le> n - 1" by (simp add: unat_of_nat take_bit_eq_mod)
  finally show ?thesis using n by (simp add: bucket_of_def)
qed

lemma chain_find_put: "ekey v = key \<Longrightarrow>
    chain_find k (chain_put key v es) = (if k = key then Some v else chain_find k es)"
  by (induction es) auto

lemma chain_find_None: "chain_find k es = None \<longleftrightarrow> k \<notin> ekey ` set es"
  by (induction es) auto

lemma chain_find_Some: "chain_find k es = Some e \<Longrightarrow> e \<in> set es \<and> ekey e = k"
  by (induction es) (auto split: if_splits)

lemma chain_find_del: "distinct (map ekey es) \<Longrightarrow>
    chain_find k (chain_del key es) = (if k = key then None else chain_find k es)"
  by (induction es) (auto simp: chain_find_None)

lemma chain_put_set: "set (map ekey (chain_put key v es)) \<subseteq> insert (ekey v) (set (map ekey es))"
  by (induction es) auto

lemma chain_put_set': "e \<in> set (chain_put key v es) \<Longrightarrow> e = v \<or> e \<in> set es"
  by (induction es) (auto split: if_splits)

lemma chain_put_distinct:
  "distinct (map ekey es) \<Longrightarrow> ekey v = key \<Longrightarrow> distinct (map ekey (chain_put key v es))"
proof (induction es)
  case (Cons e es)
  have "ekey e \<notin> ekey ` set (chain_put key v es)" if "ekey e \<noteq> key"
    using that Cons.prems chain_put_set [of key v es] by auto
  then show ?case using Cons by auto
qed simp

lemma chain_del_subset: "set (chain_del key es) \<subseteq> set es"
  by (induction es) auto

lemma chain_del_distinct: "distinct (map ekey es) \<Longrightarrow> distinct (map ekey (chain_del key es))"
  by (induction es) (auto dest: chain_del_subset [THEN subsetD])

lemma chain_put_length:
  "length (chain_put key v es) = (if chain_find key es = None then Suc (length es) else length es)"
  by (induction es) auto

lemma chain_del_length:
  "chain_find key es \<noteq> None \<Longrightarrow> Suc (length (chain_del key es)) = length es"
  by (induction es) (auto split: if_splits)

lemma length_concat_update:
  "i < length xss \<Longrightarrow> length (concat (xss[i := ys])) + length (xss ! i) = length (concat xss) + length ys"
  by (induction xss arbitrary: i) (auto split: nat.splits)

lemma index_ok_empty [simp]: "index_ok empty_index"
  by (simp add: index_ok_def empty_index_def)

lemma find_slot_empty [simp]: "find_slot empty_index k = None"
proof -
  have "bucket_of 64 k < 64" by (rule bucket_of_less) simp
  then show ?thesis by (simp add: find_slot_def empty_index_def)
qed

lemma bucket_in: "index_ok ix \<Longrightarrow> bucket_of (length (buckets ix)) k < length (buckets ix)"
  by (rule bucket_of_less) (simp add: index_ok_def)

lemma find_slot_put:
  "index_ok ix \<Longrightarrow> find_slot (put_entry ix v) k = (if k = ekey v then Some v else find_slot ix k)"
  using bucket_in [of ix k] bucket_in [of ix "ekey v"]
  by (auto simp: find_slot_def put_entry_def Let_def chain_find_put nth_list_update)

lemma index_ok_put: "index_ok ix \<Longrightarrow> index_ok (put_entry ix v)"
proof -
  assume ok: "index_ok ix"
  let ?n = "length (buckets ix)" and ?i = "bucket_of (length (buckets ix)) (ekey v)"
  have i: "?i < ?n" using bucket_in [OF ok] .
  have "length (concat ((buckets ix)[?i := chain_put (ekey v) v (buckets ix ! ?i)])) =
    (if find_slot ix (ekey v) = None then icount ix + 1 else icount ix)"
    using length_concat_update [OF i, of "chain_put (ekey v) v (buckets ix ! ?i)"] ok
    by (auto simp: index_ok_def find_slot_def chain_put_length split: if_splits)
  then show ?thesis
    using ok i by (auto simp: index_ok_def put_entry_def Let_def nth_list_update
      chain_put_distinct dest!: chain_put_set')
qed

lemma find_slot_del:
  "index_ok ix \<Longrightarrow> find_slot (del_entry ix key) k = (if k = key then None else find_slot ix k)"
  using bucket_in [of ix k] bucket_in [of ix key]
  by (auto simp: find_slot_def del_entry_def Let_def chain_find_del nth_list_update index_ok_def)

lemma index_ok_del: "index_ok ix \<Longrightarrow> index_ok (del_entry ix key)"
proof (cases "find_slot ix key = None")
  case False
  assume ok: "index_ok ix"
  let ?n = "length (buckets ix)" and ?i = "bucket_of (length (buckets ix)) key"
  have i: "?i < ?n" using bucket_in [OF ok] .
  have "length (concat ((buckets ix)[?i := chain_del key (buckets ix ! ?i)])) = icount ix - 1"
    using length_concat_update [OF i, of "chain_del key (buckets ix ! ?i)"] ok False
      chain_del_length [of key "buckets ix ! ?i"]
    by (auto simp: index_ok_def find_slot_def)
  then show ?thesis
    using ok i False by (auto simp: index_ok_def del_entry_def Let_def nth_list_update
      chain_del_distinct dest!: chain_del_subset [THEN subsetD])
qed (simp add: del_entry_def)

subsection \<open>Growing\<close>

lemma length_rehash [simp]: "length (rehash nn e nb) = length nb"
  by (simp add: rehash_def Let_def)

lemma length_rehash_fold [simp]: "length (fold (rehash nn) es nb) = length nb"
  by (induction es arbitrary: nb) simp_all

lemma rehash_nth:
  "length nb = nn \<Longrightarrow> b < nn \<Longrightarrow>
   rehash nn e nb ! b = (if bucket_of nn (ekey e) = b then e # nb ! b else nb ! b)"
  by (simp add: rehash_def Let_def nth_list_update)

lemma rehash_find:
  assumes "length nb = nn" "0 < nn"
  shows "chain_find k (rehash nn e nb ! bucket_of nn k) =
    (if ekey e = k then Some e else chain_find k (nb ! bucket_of nn k))"
  using assms bucket_of_less [of nn "ekey e"]
  by (auto simp: rehash_def Let_def nth_list_update)

lemma rehash_fold_find:
  assumes "length nb = nn" "0 < nn" "distinct (map ekey es)"
  shows "chain_find k (fold (rehash nn) es nb ! bucket_of nn k) =
    (case chain_find k es of Some e \<Rightarrow> Some e | None \<Rightarrow> chain_find k (nb ! bucket_of nn k))"
  using assms
proof (induction es arbitrary: nb)
  case (Cons e es)
  then have "chain_find (ekey e) es = None" by (simp add: chain_find_None)
  then show ?case using Cons by (auto simp: rehash_find split: option.splits)
qed simp

lemma rehash_fold_sound:
  assumes "length nb = nn" "0 < nn" "b < nn"
    and "\<And>e. e \<in> set (nb ! b) \<Longrightarrow> bucket_of nn (ekey e) = b"
  shows "e \<in> set (fold (rehash nn) es nb ! b) \<Longrightarrow> bucket_of nn (ekey e) = b"
  using assms
proof (induction es arbitrary: nb)
  case (Cons x es)
  have "y \<in> set (rehash nn x nb ! b) \<Longrightarrow> bucket_of nn (ekey y) = b" for y
    using Cons.prems by (auto simp: rehash_nth split: if_splits)
  then show ?case using Cons.IH [of "rehash nn x nb"] Cons.prems by simp
qed simp

lemma rehash_fold_distinct:
  assumes "length nb = nn" "0 < nn" "b < nn" "distinct (map ekey es)"
    and "distinct (map ekey (nb ! b))" "ekey ` set es \<inter> ekey ` set (nb ! b) = {}"
  shows "distinct (map ekey (fold (rehash nn) es nb ! b))"
  using assms
proof (induction es arbitrary: nb)
  case (Cons x es)
  have "distinct (map ekey (rehash nn x nb ! b))"
    "ekey ` set es \<inter> ekey ` set (rehash nn x nb ! b) = {}"
    using Cons.prems by (auto simp: rehash_nth)
  then show ?case using Cons.IH [of "rehash nn x nb"] Cons.prems by simp
qed simp

lemma rehash_fold_length:
  assumes "length nb = nn" "0 < nn"
  shows "length (concat (fold (rehash nn) es nb)) = length es + length (concat nb)"
  using assms
proof (induction es arbitrary: nb)
  case (Cons x es)
  have "length (concat (rehash nn x nb)) = Suc (length (concat nb))"
    using length_concat_update [of "bucket_of nn (ekey x)" nb "x # nb ! bucket_of nn (ekey x)"]
      Cons.prems bucket_of_less [of nn "ekey x"] by (simp add: rehash_def Let_def)
  then show ?case using Cons.IH [of "rehash nn x nb"] Cons.prems by simp
qed simp

lemma chain_find_append:
  "chain_find k (xs @ ys) = (case chain_find k xs of Some e \<Rightarrow> Some e | None \<Rightarrow> chain_find k ys)"
  by (induction xs) auto

text \<open>Under the invariant the whole index is one chain with distinct keys.\<close>

lemma index_ok_distinct:
  assumes ok: "index_ok ix"
  shows "distinct (map ekey (entries ix))"
proof -
  have "distinct (map ekey (concat bs))"
    if "\<forall>b < length bs. distinct (map ekey (bs ! b)) \<and> (\<forall>e \<in> set (bs ! b). h (ekey e) = b + (k::nat))"
    for bs :: "entry list list" and h :: "bytes \<Rightarrow> nat" and k
    using that
  proof (induction bs arbitrary: k)
    case (Cons c bs)
    have "\<forall>b < length bs. distinct (map ekey (bs ! b)) \<and> (\<forall>e \<in> set (bs ! b). h (ekey e) = b + Suc k)"
      using Cons.prems by fastforce
    note ih = Cons.IH [OF this] and rest = this
    have "h (ekey e) \<noteq> k" if e: "e \<in> set (concat bs)" for e
    proof -
      obtain b where "b < length bs" "e \<in> set (bs ! b)"
        using e by (auto simp: in_set_conv_nth [of _ bs])
      then show ?thesis using rest by auto
    qed
    moreover have "\<forall>e \<in> set c. h (ekey e) = k" "distinct (map ekey c)"
      using Cons.prems by (auto dest: spec [of _ 0])
    ultimately show ?case using ih by force
  qed simp
  from this [of "buckets ix" "bucket_of (length (buckets ix))" 0] show ?thesis
    using ok by (simp add: index_ok_def entries_def)
qed

lemma find_slot_entries:
  assumes ok: "index_ok ix"
  shows "find_slot ix k = chain_find k (entries ix)"
proof -
  let ?b = "bucket_of (length (buckets ix)) k"
  have b: "?b < length (buckets ix)" by (rule bucket_in [OF ok])
  have split: "entries ix = concat (take ?b (buckets ix)) @ buckets ix ! ?b @
      concat (drop (Suc ?b) (buckets ix))"
    unfolding entries_def by (metis b concat.simps(2) concat_append id_take_nth_drop)
  have other: "chain_find k (buckets ix ! i) = None" if "i < length (buckets ix)" "i \<noteq> ?b" for i
    using ok that by (auto simp: index_ok_def chain_find_None)
  have none: "chain_find k (concat bs) = None" if "\<forall>c \<in> set bs. chain_find k c = None" for bs
    using that by (induction bs) (auto simp: chain_find_append)
  have "chain_find k (concat (take ?b (buckets ix))) = None"
    "chain_find k (concat (drop (Suc ?b) (buckets ix))) = None"
    by (rule none; auto simp: in_set_conv_nth other)+
  then show ?thesis
    unfolding split by (simp add: chain_find_append find_slot_def split: option.splits)
qed

lemma entries_find:
  "index_ok ix \<Longrightarrow> e \<in> set (entries ix) \<longleftrightarrow> find_slot ix (ekey e) = Some e"
proof -
  assume ok: "index_ok ix"
  have "e \<in> set es \<longleftrightarrow> chain_find (ekey e) es = Some e" if "distinct (map ekey es)" for es
    using that by (induction es) (auto dest: chain_find_Some)
  then show ?thesis using index_ok_distinct [OF ok] find_slot_entries [OF ok] by simp
qed

lemma find_slot_key: "find_slot ix k = Some e \<Longrightarrow> ekey e = k"
  by (auto simp: find_slot_def dest: chain_find_Some)

lemma find_slot_grow: "index_ok ix \<Longrightarrow> find_slot (grow ix) k = find_slot ix k"
proof -
  assume ok: "index_ok ix"
  then have n: "0 < length (buckets ix) * 2" by (simp add: index_ok_def)
  have "bucket_of (length (buckets ix) * 2) k < length (buckets ix) * 2" by (rule bucket_of_less [OF n])
  then show ?thesis
    using rehash_fold_find [of "replicate (length (buckets ix) * 2) []" "length (buckets ix) * 2"
        "entries ix" k] index_ok_distinct [OF ok] find_slot_entries [OF ok, of k] n
    by (simp add: find_slot_def grow_def Let_def entries_def split: option.splits)
qed

lemma index_ok_grow: "index_ok ix \<Longrightarrow> index_ok (grow ix)"
proof -
  assume ok: "index_ok ix"
  let ?n = "length (buckets ix) * 2"
  have n: "0 < ?n" using ok by (simp add: index_ok_def)
  have d: "distinct (map ekey (concat (buckets ix)))"
    using index_ok_distinct [OF ok] by (simp add: entries_def)
  have "distinct (map ekey (fold (rehash ?n) (concat (buckets ix)) (replicate ?n []) ! b))" if "b < ?n" for b
    using rehash_fold_distinct [OF _ n that d, of "replicate ?n []"] that by simp
  moreover have "bucket_of ?n (ekey e) = b"
    if "b < ?n" "e \<in> set (fold (rehash ?n) (concat (buckets ix)) (replicate ?n []) ! b)" for b e
    using rehash_fold_sound [OF _ n that(1) _ that(2)] that by simp
  moreover have "length (concat (fold (rehash ?n) (concat (buckets ix)) (replicate ?n []))) = icount ix"
    using rehash_fold_length [of "replicate ?n []" ?n "concat (buckets ix)"] n ok
    by (simp add: index_ok_def concat_replicate_trivial)
  moreover have "fold (rehash ?n) (concat (buckets ix)) (replicate ?n []) \<noteq> []"
    using n by (metis length_0_conv length_rehash_fold length_replicate less_numeral_extra(3))
  ultimately show ?thesis by (simp add: index_ok_def grow_def Let_def)
qed

subsection \<open>The index as a map\<close>

lemma mk_entry_simps [simp]:
  "ekey (mk_entry key off vlen ts ttl) = key" "eoff (mk_entry key off vlen ts ttl) = off"
  "evsize (mk_entry key off vlen ts ttl) = vlen" "ets (mk_entry key off vlen ts ttl) = ts"
  by (simp_all add: mk_entry_def)

lemma find_slot_upsert:
  "index_ok ix \<Longrightarrow> find_slot (fst (upsert ix key off vlen ts ttl)) k =
    (if k = key then Some (mk_entry key off vlen ts ttl) else find_slot ix k)"
  by (simp add: upsert_def Let_def find_slot_put index_ok_grow find_slot_grow)

lemma index_ok_upsert: "index_ok ix \<Longrightarrow> index_ok (fst (upsert ix key off vlen ts ttl))"
  by (simp add: upsert_def Let_def index_ok_put index_ok_grow)

lemma snd_upsert:
  "index_ok ix \<Longrightarrow> snd (upsert ix key off vlen ts ttl) =
    (case find_slot ix key of None \<Rightarrow> 0 | Some e \<Rightarrow> rec_bytes e)"
  by (simp add: upsert_def Let_def find_slot_grow)

text \<open>
  What the log relies on: an index is a finite map from keys to entries with the three
  operations of the record handlers.
\<close>

locale entry_map =
  fixes lookup :: "'ix \<Rightarrow> bytes \<Rightarrow> entry option"
    and put :: "'ix \<Rightarrow> bytes \<Rightarrow> nat \<Rightarrow> nat \<Rightarrow> int \<Rightarrow> int \<Rightarrow> 'ix"
    and del :: "'ix \<Rightarrow> bytes \<Rightarrow> 'ix"
    and ok :: "'ix \<Rightarrow> bool"
  assumes lookup_put: "ok ix \<Longrightarrow> lookup (put ix key off vlen ts ttl) =
      (lookup ix)(key \<mapsto> mk_entry key off vlen ts ttl)"
    and lookup_del: "ok ix \<Longrightarrow> lookup (del ix key) = (lookup ix)(key := None)"
    and ok_put: "ok ix \<Longrightarrow> ok (put ix key off vlen ts ttl)"
    and ok_del: "ok ix \<Longrightarrow> ok (del ix key)"
begin

lemma lookup_put_same: "ok ix \<Longrightarrow> lookup (put ix key off vlen ts ttl) key = Some (mk_entry key off vlen ts ttl)"
  by (simp add: lookup_put)

lemma put_put:
  "ok ix \<Longrightarrow> lookup (put (put ix key o1 v1 t1 l1) key o2 v2 t2 l2) = lookup (put ix key o2 v2 t2 l2)"
  by (simp add: lookup_put ok_put)

lemma del_put: "ok ix \<Longrightarrow> lookup (del (put ix key off vlen ts ttl) key) = lookup (del ix key)"
  by (simp add: lookup_put lookup_del ok_put)

lemma put_commute:
  "ok ix \<Longrightarrow> k1 \<noteq> k2 \<Longrightarrow>
   lookup (put (put ix k1 o1 v1 t1 l1) k2 o2 v2 t2 l2) = lookup (put (put ix k2 o2 v2 t2 l2) k1 o1 v1 t1 l1)"
  by (simp add: lookup_put ok_put fun_upd_twist)

text \<open>A sequence of operations; the result depends on the starting map only.\<close>

fun run :: "(bytes \<times> (nat \<times> nat \<times> int \<times> int) option) list \<Rightarrow> 'ix \<Rightarrow> 'ix" where
  "run [] ix = ix"
| "run ((k, Some (off, vl, ts, ttl)) # ops) ix = run ops (put ix k off vl ts ttl)"
| "run ((k, None) # ops) ix = run ops (del ix k)"

lemma ok_run: "ok ix \<Longrightarrow> ok (run ops ix)"
  by (induction ops ix rule: run.induct) (simp_all add: ok_put ok_del)

lemma lookup_run_cong:
  "ok ix \<Longrightarrow> ok iy \<Longrightarrow> lookup ix = lookup iy \<Longrightarrow> lookup (run ops ix) = lookup (run ops iy)"
  by (induction ops ix arbitrary: iy rule: run.induct)
     (simp_all add: ok_put ok_del lookup_put lookup_del)

end

interpretation hix: entry_map find_slot "\<lambda>ix k off vl ts ttl. fst (upsert ix k off vl ts ttl)" del_entry index_ok
  by unfold_locales
     (auto simp: find_slot_upsert find_slot_del index_ok_upsert index_ok_del fun_eq_iff)

end
