(* ===== verification/Exo_Log.thy ===== *)
theory Exo_Log
  imports Exo_Index
begin

unbundle bit_operations_syntax

text \<open>
  The on-disk log of \<open>src/store.c\<close>: the record layout, \<open>write_rec_at\<close>, and the validity check
  that \<open>store_load\<close>, \<open>store_raw_len\<close>, \<open>store_raw_at\<close> and \<open>store_import_raw\<close> share. The log
  file is its bytes; \<open>pread\<close> returns what the file holds, \<open>pwrite\<close> overwrites and extends. A
  write can fail part-way: \<open>budget\<close> is the number of bytes the device still accepts, \<open>None\<close> for
  a device that does not fail.
\<close>

definition MAGIC :: bytes where "MAGIC = ''EXM1''"
definition FLAG_TOMB :: u8 where "FLAG_TOMB = 1"
definition MAX_KEY :: nat where "MAX_KEY = 4096"
definition MAX_VAL :: nat where "MAX_VAL = 8 * 1024 * 1024"

record lrec =
  lflags :: u8
  lts :: int
  lttl :: int
  lkey :: bytes
  lval :: bytes

definition rlen :: "lrec \<Rightarrow> nat" where
  "rlen r = HDR_SIZE + length (lkey r) + length (lval r)"

definition is_tomb :: "lrec \<Rightarrow> bool" where
  "is_tomb r \<longleftrightarrow> lflags r AND FLAG_TOMB \<noteq> 0"

subsection \<open>Encoding\<close>

definition rec_crc :: "bytes \<Rightarrow> bytes \<Rightarrow> u32" where
  "rec_crc key val = crc32_final (crc32_update (crc32_update crc32_init key) val)"

definition enc_hdr :: "lrec \<Rightarrow> bytes" where
  "enc_hdr r =
     MAGIC @ [byte_of (lflags r)] @ put_u64 (word_of_int (lts r)) @
     put_u32 (of_nat (length (lkey r))) @ put_u32 (of_nat (length (lval r))) @
     put_u64 (word_of_int (lttl r)) @ put_u32 (rec_crc (lkey r) (lval r))"

definition enc_rec :: "lrec \<Rightarrow> bytes" where
  "enc_rec r = enc_hdr r @ lkey r @ lval r"

definition pread :: "bytes \<Rightarrow> nat \<Rightarrow> nat \<Rightarrow> bytes" where
  "pread img off n = take n (drop off img)"

definition pwrite :: "bytes \<Rightarrow> nat \<Rightarrow> bytes \<Rightarrow> bytes" where
  "pwrite img off bs =
     take off img @ replicate (off - length img) nul @ bs @ drop (off + length bs) img"

text \<open>One \<open>pwrite\<close> call: the new file, whether all bytes were written, what the device still takes.\<close>

definition dev_write :: "bytes \<Rightarrow> nat \<Rightarrow> bytes \<Rightarrow> nat option \<Rightarrow> bytes \<times> bool \<times> nat option" where
  "dev_write img off bs budget =
     (case budget of
        None \<Rightarrow> (pwrite img off bs, True, None)
      | Some k \<Rightarrow> if length bs \<le> k then (pwrite img off bs, True, Some (k - length bs))
                  else (pwrite img off (take k bs), False, Some 0))"

text \<open>\<open>write_rec_at\<close>: header, key and value at \<open>pos\<close>; the new file, position and success.\<close>

definition write_rec_at :: "bytes \<Rightarrow> nat \<Rightarrow> lrec \<Rightarrow> nat option \<Rightarrow> bytes \<times> nat \<times> bool" where
  "write_rec_at img pos r budget =
     (let klen = length (lkey r); vlen = length (lval r);
          (f1, ok1, b1) = dev_write img pos (enc_hdr r) budget
      in if \<not> ok1 then (f1, pos, False)
         else let (f2, ok2, b2) = (if klen \<noteq> 0 then dev_write f1 (pos + HDR_SIZE) (lkey r) b1 else (f1, True, b1))
              in if \<not> ok2 then (f2, pos, False)
                 else let (f3, ok3, b3) = (if vlen \<noteq> 0 then dev_write f2 (pos + HDR_SIZE + klen) (lval r) b2
                                           else (f2, True, b2))
                      in if \<not> ok3 then (f3, pos, False) else (f3, pos + HDR_SIZE + klen + vlen, True))"

subsection \<open>Decoding\<close>

definition hdr_klen :: "bytes \<Rightarrow> nat" where "hdr_klen hdr = unat (get_u32 (drop 13 hdr))"
definition hdr_vlen :: "bytes \<Rightarrow> nat" where "hdr_vlen hdr = unat (get_u32 (drop 17 hdr))"
definition hdr_ts :: "bytes \<Rightarrow> int" where "hdr_ts hdr = sint (get_u64 (drop 5 hdr))"
definition hdr_ttl :: "bytes \<Rightarrow> int" where "hdr_ttl hdr = sint (get_u64 (drop 21 hdr))"
definition hdr_crc :: "bytes \<Rightarrow> u32" where "hdr_crc hdr = get_u32 (drop 29 hdr)"

text \<open>
  The checks of one round of the \<open>store_load\<close> loop, in its order: room for a header, magic,
  length bounds, room for the record, short reads, CRC.
\<close>

definition rec_at :: "bytes \<Rightarrow> nat \<Rightarrow> nat \<Rightarrow> lrec option" where
  "rec_at img sz pos =
     (if \<not> pos + HDR_SIZE \<le> sz then None
      else let hdr = pread img pos HDR_SIZE
           in if length hdr \<noteq> HDR_SIZE then None
              else if take 4 hdr \<noteq> MAGIC then None
              else let klen = hdr_klen hdr; vlen = hdr_vlen hdr
                   in if klen > MAX_KEY \<or> vlen > MAX_VAL then None
                      else if pos + (HDR_SIZE + klen + vlen) > sz then None
                      else let kbuf = pread img (pos + HDR_SIZE) klen;
                               vbuf = pread img (pos + HDR_SIZE + klen) vlen
                           in if length kbuf \<noteq> klen \<or> (vlen \<noteq> 0 \<and> length vbuf \<noteq> vlen) then None
                              else if rec_crc kbuf vbuf \<noteq> hdr_crc hdr then None
                              else Some \<lparr>lflags = of_char (hdr ! 4), lts = hdr_ts hdr, lttl = hdr_ttl hdr,
                                         lkey = kbuf, lval = vbuf\<rparr>)"

text \<open>The records of the valid prefix with their offsets, and the offset where it ends.\<close>

lemma rec_at_len:
  assumes "rec_at img sz pos = Some r"
  shows "pos + rlen r \<le> sz"
  using assms
  by (auto simp: rec_at_def Let_def rlen_def pread_def split: if_split_asm)

lemma rlen_pos: "0 < rlen r"
  by (simp add: rlen_def HDR_SIZE_def)

function scan :: "bytes \<Rightarrow> nat \<Rightarrow> nat \<Rightarrow> (nat \<times> lrec) list" where
  "scan img sz pos =
     (case rec_at img sz pos of None \<Rightarrow> [] | Some r \<Rightarrow> (pos, r) # scan img sz (pos + rlen r))"
  by pat_completeness auto
termination
proof (relation "measure (\<lambda>(f, sz, pos). sz - pos)", goal_cases)
  case (2 img sz pos r)
  then show ?case using rec_at_len [of img sz pos r] rlen_pos [of r] by simp
qed simp

declare scan.simps [simp del]

fun placed :: "nat \<Rightarrow> lrec list \<Rightarrow> (nat \<times> lrec) list" where
  "placed pos [] = []"
| "placed pos (r # rs) = (pos, r) # placed (pos + rlen r) rs"

definition log_bytes :: "lrec list \<Rightarrow> bytes" where
  "log_bytes rs = concat (map enc_rec rs)"

subsection \<open>Round trip\<close>

definition int64 :: "int \<Rightarrow> bool" where
  "int64 i \<longleftrightarrow> - (2 ^ 63) \<le> i \<and> i < 2 ^ 63"

definition rec_ok :: "lrec \<Rightarrow> bool" where
  "rec_ok r \<longleftrightarrow> length (lkey r) \<le> MAX_KEY \<and> length (lval r) \<le> MAX_VAL \<and> int64 (lts r) \<and> int64 (lttl r)"

lemma length_enc_hdr [simp, exo_len]: "length (enc_hdr r) = HDR_SIZE"
  by (simp add: enc_hdr_def MAGIC_def HDR_SIZE_def)

lemma length_enc_rec [simp, exo_len]: "length (enc_rec r) = rlen r"
  by (simp add: enc_rec_def rlen_def)

lemma length_log_bytes_snoc: "length (log_bytes (rs @ [r])) = length (log_bytes rs) + rlen r"
  by (simp add: log_bytes_def)

lemma log_bytes_append: "log_bytes (rs @ rs') = log_bytes rs @ log_bytes rs'"
  by (simp add: log_bytes_def)

lemma sint_word_of_int64: "int64 i \<Longrightarrow> sint (word_of_int i :: u64) = i"
  by (simp add: int64_def sint_sbintrunc' signed_take_bit_int_eq_self_iff)

text \<open>The header fields lie at the offsets the reader uses.\<close>

lemma enc_hdr_fields:
  "take 4 (enc_hdr r) = MAGIC"
  "enc_hdr r ! 4 = byte_of (lflags r)"
  "get_u64 (drop 5 (enc_hdr r)) = word_of_int (lts r)"
  "get_u32 (drop 13 (enc_hdr r)) = of_nat (length (lkey r))"
  "get_u32 (drop 17 (enc_hdr r)) = of_nat (length (lval r))"
  "get_u64 (drop 21 (enc_hdr r)) = word_of_int (lttl r)"
  "get_u32 (drop 29 (enc_hdr r)) = rec_crc (lkey r) (lval r)"
  using get_put_u32 [of "rec_crc (lkey r) (lval r)" "[]"]
  by (simp_all add: enc_hdr_def MAGIC_def get_put_u64 get_put_u32 nth_append)

lemma enc_hdr_lens:
  "length (lkey r) \<le> MAX_KEY \<Longrightarrow> hdr_klen (enc_hdr r) = length (lkey r)"
  "length (lval r) < 2 ^ 32 \<Longrightarrow> hdr_vlen (enc_hdr r) = length (lval r)"
  by (simp_all add: hdr_klen_def hdr_vlen_def enc_hdr_fields unat_of_nat take_bit_nat_eq_self_iff
      MAX_KEY_def)

lemma pread_mid: "length xs = n \<Longrightarrow> pread (pre @ xs @ post) (length pre) n = xs"
  by (simp add: pread_def)

lemma of_char_byte_of_u8: "(of_char (byte_of (w :: u8)) :: u8) = w"
proof -
  have "unat w < 2 ^ LENGTH(8)" by (rule unsigned_less)
  then have "unat w < 256" by simp
  then show ?thesis by (simp add: byte_of_def of_char_word_nat word_unat_eq_iff unat_of_nat)
qed

lemma rec_at_enc:
  assumes ok: "rec_ok r" and sz: "length pre + rlen r \<le> sz"
  shows "rec_at (pre @ enc_rec r @ post) sz (length pre) = Some r"
proof -
  let ?f = "pre @ enc_rec r @ post"
  have hdr: "pread ?f (length pre) HDR_SIZE = enc_hdr r"
    by (simp add: enc_rec_def pread_mid)
  have k: "pread ?f (length pre + HDR_SIZE) (length (lkey r)) = lkey r"
    using pread_mid [of "lkey r" _ "pre @ enc_hdr r" "lval r @ post"] by (simp add: enc_rec_def)
  have v: "pread ?f (length pre + HDR_SIZE + length (lkey r)) (length (lval r)) = lval r"
    using pread_mid [of "lval r" _ "pre @ enc_hdr r @ lkey r" post] by (simp add: enc_rec_def add.assoc)
  have kl: "hdr_klen (enc_hdr r) = length (lkey r)" and vl: "hdr_vlen (enc_hdr r) = length (lval r)"
    using ok by (auto simp: rec_ok_def MAX_VAL_def intro!: enc_hdr_lens)
  have f: "hdr_ts (enc_hdr r) = lts r" "hdr_ttl (enc_hdr r) = lttl r"
    "hdr_crc (enc_hdr r) = rec_crc (lkey r) (lval r)" "of_char (enc_hdr r ! 4) = lflags r"
    using ok by (simp_all add: rec_ok_def hdr_ts_def hdr_ttl_def hdr_crc_def enc_hdr_fields
      sint_word_of_int64 of_char_byte_of_u8)
  show ?thesis
    using ok sz by (simp add: rec_at_def hdr k v kl vl f enc_hdr_fields(1) Let_def rlen_def rec_ok_def)
qed

text \<open>A record cut short anywhere is not accepted.\<close>

lemma rec_at_torn:
  assumes len: "length (lkey r) \<le> MAX_KEY" "length (lval r) < 2 ^ 32" and k: "k < rlen r"
  shows "rec_at (pre @ take k (enc_rec r)) (length pre + k) (length pre) = None"
proof (cases "k < HDR_SIZE")
  case False
  then have "take k (enc_rec r) = enc_hdr r @ take (k - HDR_SIZE) (lkey r @ lval r)"
    by (simp add: enc_rec_def)
  then have "pread (pre @ take k (enc_rec r)) (length pre) HDR_SIZE = enc_hdr r"
    by (simp add: pread_mid)
  then show ?thesis using k by (simp add: rec_at_def Let_def enc_hdr_lens(1) [OF len(1)] enc_hdr_lens(2) [OF len(2)] rlen_def)
qed (simp add: rec_at_def)

lemma scan_enc:
  assumes "\<forall>r \<in> set rs. rec_ok r"
    and "rec_at (pre @ log_bytes rs @ tail) sz (length pre + length (log_bytes rs)) = None"
    and "length pre + length (log_bytes rs) \<le> sz"
  shows "scan (pre @ log_bytes rs @ tail) sz (length pre) = placed (length pre) rs"
  using assms
proof (induction rs arbitrary: pre)
  case Nil
  then show ?case by (simp add: scan.simps log_bytes_def)
next
  case (Cons r rs)
  have f: "pre @ log_bytes (r # rs) @ tail = pre @ enc_rec r @ log_bytes rs @ tail"
    by (simp add: log_bytes_def)
  have "rec_at (pre @ enc_rec r @ log_bytes rs @ tail) sz (length pre) = Some r"
    using Cons.prems by (intro rec_at_enc) (auto simp: log_bytes_def)
  then have "scan (pre @ log_bytes (r # rs) @ tail) sz (length pre) =
    (length pre, r) # scan (pre @ log_bytes (r # rs) @ tail) sz (length pre + rlen r)"
    by (subst scan.simps) (simp add: f)
  moreover have "scan ((pre @ enc_rec r) @ log_bytes rs @ tail) sz (length (pre @ enc_rec r)) =
    placed (length (pre @ enc_rec r)) rs"
    using Cons.prems by (intro Cons.IH) (auto simp: log_bytes_def add.assoc)
  ultimately show ?case by (simp add: log_bytes_def)
qed

lemma placed_append: "placed pos (rs @ rs') = placed pos rs @ placed (pos + length (log_bytes rs)) rs'"
  by (induction rs arbitrary: pos) (simp_all add: log_bytes_def add.assoc)

lemma rec_at_end: "rec_at img (length img) (length img) = None"
  by (simp add: rec_at_def HDR_SIZE_def)

subsection \<open>Writing\<close>

lemma pwrite_end: "pwrite img (length img) bs = img @ bs"
  by (simp add: pwrite_def)

lemma dev_write_end:
  "dev_write img (length img) bs (Some k) =
    (if length bs \<le> k then (img @ bs, True, Some (k - length bs)) else (img @ take k bs, False, Some 0))"
  "dev_write img (length img) bs None = (img @ bs, True, None)"
  by (simp_all add: dev_write_def pwrite_end)

lemma write_rec_ok:
  "write_rec_at img (length img) r None = (img @ enc_rec r, length img + rlen r, True)"
proof -
  let ?f1 = "img @ enc_hdr r"
  have 1: "dev_write img (length img) (enc_hdr r) None = (?f1, True, None)"
    by (rule dev_write_end)
  have 2: "dev_write ?f1 (length img + HDR_SIZE) (lkey r) None = (?f1 @ lkey r, True, None)"
    using dev_write_end(2) [of ?f1 "lkey r"] by simp
  have 3: "dev_write (?f1 @ lkey r) (length img + HDR_SIZE + length (lkey r)) (lval r) None =
      (?f1 @ lkey r @ lval r, True, None)"
    using dev_write_end(2) [of "?f1 @ lkey r" "lval r"] by (simp add: add.assoc)
  show ?thesis
    using 1 2 3 by (auto simp: write_rec_at_def Let_def enc_rec_def rlen_def add.assoc)
qed

text \<open>A device that stops after \<open>k\<close> bytes leaves exactly the first \<open>k\<close> bytes of the record.\<close>

lemma write_rec_torn:
  assumes "k < rlen r"
  shows "write_rec_at img (length img) r (Some k) = (img @ take k (enc_rec r), length img, False)"
proof (cases "k < HDR_SIZE")
  case True
  then show ?thesis
    by (simp add: write_rec_at_def Let_def dev_write_end enc_rec_def)
next
  case h: False
  let ?f1 = "img @ enc_hdr r" and ?k1 = "k - HDR_SIZE"
  have 1: "dev_write img (length img) (enc_hdr r) (Some k) = (?f1, True, Some ?k1)"
    using h by (simp add: dev_write_end)
  have 2: "dev_write ?f1 (length img + HDR_SIZE) (lkey r) (Some ?k1) =
    (if length (lkey r) \<le> ?k1 then (?f1 @ lkey r, True, Some (?k1 - length (lkey r)))
     else (?f1 @ take ?k1 (lkey r), False, Some 0))"
    using dev_write_end(1) [of ?f1 "lkey r" ?k1] by simp
  have 3: "dev_write (?f1 @ lkey r) (length img + HDR_SIZE + length (lkey r)) (lval r)
      (Some (?k1 - length (lkey r))) = (?f1 @ lkey r @ take (?k1 - length (lkey r)) (lval r), False, Some 0)"
    if "length (lkey r) \<le> ?k1"
    using dev_write_end(1) [of "?f1 @ lkey r" "lval r" "?k1 - length (lkey r)"] that assms h
    by (auto simp: rlen_def add.assoc)
  show ?thesis
    using 1 2 3 h assms by (auto simp: write_rec_at_def Let_def enc_rec_def rlen_def)
qed

end
