(* ===== verification/Exo_Vec.thy ===== *)
theory Exo_Vec
  imports Exo_Prelude
begin

unbundle bit_operations_syntax

text \<open>
  Sparse vectors (exovec): the local text embedding, its stored form and the in-memory vector
  index (\<open>vec_hash\<close>, \<open>vec_embed\<close>, \<open>vec_encode\<close>, \<open>vec_parse\<close> in \<open>src/util.c\<close>, \<open>vec_index_*\<close>
  and the inner loops of \<open>store_vec_sim\<close> in \<open>src/store.c\<close>). The parallel arrays
  \<open>idx\<close>/\<open>val\<close> with their length \<open>nnz\<close> are one list of pairs. The double-precision dot product
  and norm are sums of at most 256 products of bytes, below \<open>2^24\<close>, so every intermediate
  double is an exact integer and they are natural numbers here.
\<close>

type_synonym vec = "(u8 \<times> u8) list"

subsection \<open>Embedding\<close>

definition vec_hash :: "bytes \<Rightarrow> u64" where
  "vec_hash p = fold (\<lambda>c h. (h XOR of_char c) * 0x100000001b3) p 0xcbf29ce484222325"

definition vec_dim_of :: "bytes \<Rightarrow> nat" where
  "vec_dim_of p = unat (vec_hash p AND 255)"

text \<open>The maximal runs of alphanumeric bytes.\<close>

function vec_words :: "bytes \<Rightarrow> bytes list" where
  "vec_words [] = []"
| "vec_words (c # r) =
     (if \<not> isalnum c then vec_words r
      else takeWhile isalnum (c # r) # vec_words (dropWhile isalnum (c # r)))"
  by pat_completeness auto
termination
  by (relation "measure length") (auto simp: le_imp_less_Suc length_dropWhile_le)

fun trigrams :: "bytes \<Rightarrow> bytes list" where
  "trigrams (a # b # c # r) = [tolower a, tolower b, tolower c] # trigrams (b # c # r)"
| "trigrams _ = []"

definition word_grams :: "bytes \<Rightarrow> bytes list" where
  "word_grams w = (if length w < 3 then [map tolower w] else trigrams w)"

definition vec_bump :: "bytes \<Rightarrow> u32 list \<Rightarrow> u32 list" where
  "vec_bump g counts = counts[vec_dim_of g := counts ! vec_dim_of g + 1]"

definition vec_counts :: "bytes \<Rightarrow> u32 list" where
  "vec_counts text = fold vec_bump (concat (map word_grams (vec_words text))) (replicate 256 0)"

definition clamp8 :: "u32 \<Rightarrow> u8" where
  "clamp8 n = (if n > 255 then 255 else of_nat (unat n))"

text \<open>The second loop; \<open>n\<close> is a \<open>uint8_t\<close>, so with all 256 counts nonzero it ends at 0.\<close>

definition vec_pairs :: "u32 list \<Rightarrow> vec" where
  "vec_pairs counts = map (\<lambda>d. (of_nat d, clamp8 (counts ! d))) (filter (\<lambda>d. counts ! d \<noteq> 0) [0..<256])"

definition vec_embed :: "bytes \<Rightarrow> vec" where
  "vec_embed text =
     (let ps = vec_pairs (vec_counts text); n = (of_nat (length ps) :: u8)
      in take (unat n) ps)"

subsection \<open>Stored form\<close>

definition vec_encode :: "vec \<Rightarrow> bytes" where
  "vec_encode v =
     (let nnz = (of_nat (length v) :: u8)
      in [CHR ''V'', char_of (256 mod 256 :: nat), char_of (256 div 256 :: nat),
          byte_of nnz, nul, nul, nul] @
         concat (map (\<lambda>(i, x). [byte_of i, byte_of x]) (take (unat nnz) v)))"

fun vec_pairs_at :: "nat \<Rightarrow> bytes \<Rightarrow> vec" where
  "vec_pairs_at (Suc n) (a # b # r) = (of_char a, of_char b) # vec_pairs_at n r"
| "vec_pairs_at _ _ = []"

definition vec_parse :: "bytes \<Rightarrow> vec option" where
  "vec_parse v =
     (if length v < 7 \<or> v ! 0 \<noteq> CHR ''V'' then None
      else let dim = (of_char (v ! 1) OR push_bit 8 (of_char (v ! 2)) :: u32)
           in if dim \<noteq> 256 then None
              else let nnz = (of_char (v ! 3) OR push_bit 8 (of_char (v ! 4)) OR
                              push_bit 16 (of_char (v ! 5)) OR push_bit 24 (of_char (v ! 6)) :: u32)
                   in if nnz > 256 \<or> length v \<noteq> 7 + unat nnz * 2 then None
                      else Some (take (unat (ucast nnz :: u8)) (vec_pairs_at (unat nnz) (drop 7 v))))"

subsection \<open>The vector index\<close>

record vec_ent =
  vkey :: bytes
  vvec :: vec
  vexp :: int

definition is_vec_key :: "bytes \<Rightarrow> bool" where
  "is_vec_key key \<longleftrightarrow> length key > 4 \<and> take 4 key = ''vec:''"

fun vec_replace :: "vec_ent \<Rightarrow> vec_ent list \<Rightarrow> vec_ent list" where
  "vec_replace e [] = [e]"
| "vec_replace e (x # xs) = (if vkey x = vkey e then e # xs else x # vec_replace e xs)"

definition vec_index_add :: "vec_ent list \<Rightarrow> bytes \<Rightarrow> bytes \<Rightarrow> int \<Rightarrow> vec_ent list" where
  "vec_index_add vs key val expires =
     (if \<not> is_vec_key key then vs
      else (case vec_parse val of
              None \<Rightarrow> vs
            | Some v \<Rightarrow> vec_replace \<lparr>vkey = key, vvec = v, vexp = expires\<rparr> vs))"

text \<open>The entry at the found position is replaced by the last one.\<close>

fun vec_pos :: "bytes \<Rightarrow> vec_ent list \<Rightarrow> nat option" where
  "vec_pos key [] = None"
| "vec_pos key (x # xs) = (if vkey x = key then Some 0 else map_option Suc (vec_pos key xs))"

definition vec_index_del :: "vec_ent list \<Rightarrow> bytes \<Rightarrow> vec_ent list" where
  "vec_index_del vs key =
     (if \<not> is_vec_key key then vs
      else (case vec_pos key vs of
              None \<Rightarrow> vs
            | Some i \<Rightarrow> butlast (vs[i := last vs])))"

definition vec_find :: "vec_ent list \<Rightarrow> bytes \<Rightarrow> vec_ent option" where
  "vec_find vs key = find (\<lambda>e. vkey e = key) vs"

text \<open>The merge of two index-sorted vectors and the squared norm of \<open>store_vec_sim\<close>.\<close>

fun vec_dot :: "vec \<Rightarrow> vec \<Rightarrow> nat" where
  "vec_dot ((i, x) # a) ((j, y) # b) =
     (if i < j then vec_dot a ((j, y) # b)
      else if j < i then vec_dot ((i, x) # a) b
      else unat x * unat y + vec_dot a b)"
| "vec_dot _ _ = 0"

definition vec_norm2 :: "vec \<Rightarrow> nat" where
  "vec_norm2 v = sum_list (map (\<lambda>(i, x). unat x * unat x) v)"

text \<open>The abstract vector: the component of each of the 256 dimensions.\<close>

definition vec_at :: "vec \<Rightarrow> u8 \<Rightarrow> nat" where
  "vec_at v i = (case map_of v i of None \<Rightarrow> 0 | Some x \<Rightarrow> unat x)"

definition vec_ok :: "vec \<Rightarrow> bool" where
  "vec_ok v \<longleftrightarrow> sorted_wrt (<) (map fst v) \<and> (\<forall>(i, x) \<in> set v. x \<noteq> 0)"

subsection \<open>Stored form: round trip\<close>

lemma vec_pairs_at_concat:
  "vec_pairs_at (length v) (concat (map (\<lambda>(i, x). [byte_of i, byte_of x]) v)) = v"
  by (induction v) (auto simp: of_char_byte_of word_unat_eq_iff unat_of_nat)

lemma length_pairs_bytes: "length (concat (map (\<lambda>(i, x). [byte_of i, byte_of x]) v)) = length v * 2"
  by (induction v) auto

lemma vec_parse_encode [exo_codec]:
  assumes len: "length v < 256"
  shows "vec_parse (vec_encode v) = Some v"
proof -
  let ?nnz = "of_nat (length v) :: u8"
  have n: "unat ?nnz = length v" using len by (simp add: unat_of_nat take_bit_nat_eq_self_iff)
  have b: "(of_char (byte_of ?nnz) :: u32) = of_nat (length v)"
    using len by (simp add: of_char_byte_of n)
  have u: "unat (of_nat (length v) :: u32) = length v"
    using len by (simp add: unat_of_nat take_bit_nat_eq_self_iff)
  have c: "unat (ucast (of_nat (length v) :: u32) :: u8) = length v"
    using len by (simp add: unsigned_ucast_eq u take_bit_nat_eq_self_iff)
  have le: "\<not> (of_nat (length v) :: u32) > 256"
    using len by (simp add: word_less_nat_alt u)
  have z: "(of_char nul :: u32) = 0" by code_simp
  have dim: "(of_char (char_of (0 :: nat)) OR push_bit 8 (of_char (char_of (1 :: nat))) :: u32) = 256"
    by code_simp
  show ?thesis
    using c by (simp add: vec_encode_def vec_parse_def Let_def n b z dim [unfolded One_nat_def] u le length_pairs_bytes
      vec_pairs_at_concat)
qed

subsection \<open>The embedding is a well-formed vector\<close>

lemma map_fst_vec_pairs:
  "map fst (vec_pairs counts) = map of_nat (filter (\<lambda>d. counts ! d \<noteq> 0) [0..<256])"
  by (simp add: vec_pairs_def comp_def)

lemma of_nat_less_u8: "i < j \<Longrightarrow> j < 256 \<Longrightarrow> (of_nat i :: u8) < of_nat j"
  by (simp add: word_less_nat_alt unat_of_nat take_bit_nat_eq_self_iff)

lemma unat_clamp8: "unat (clamp8 n) = min 255 (unat n)"
  by (auto simp: clamp8_def word_less_nat_alt unsigned_ucast_eq take_bit_nat_eq_self_iff)

lemma clamp8_nonzero: "n \<noteq> 0 \<Longrightarrow> clamp8 n \<noteq> 0"
proof
  assume "n \<noteq> 0" and z: "clamp8 n = 0"
  then have "0 < unat n" by (simp add: unat_gt_0)
  then show False using unat_clamp8 [of n] z by simp
qed

lemma sorted_of_nat_u8:
  "sorted_wrt (<) ds \<Longrightarrow> set ds \<subseteq> {..<256} \<Longrightarrow> sorted_wrt (<) (map of_nat ds :: u8 list)"
  by (induction ds) (auto intro!: of_nat_less_u8)

lemma vec_pairs_ok: "vec_ok (vec_pairs counts)"
proof -
  have "sorted_wrt (<) (map of_nat (filter (\<lambda>d. counts ! d \<noteq> 0) [0..<256]) :: u8 list)"
    by (intro sorted_of_nat_u8 sorted_wrt_filter) (auto simp del: upt.simps intro: sorted_wrt_upt)
  then show ?thesis
    unfolding vec_ok_def map_fst_vec_pairs by (auto simp: vec_pairs_def clamp8_nonzero simp del: upt.simps)
qed

lemma vec_ok_take: "vec_ok v \<Longrightarrow> vec_ok (take n v)"
  by (auto simp: vec_ok_def take_map [symmetric] sorted_wrt_take dest: in_set_takeD)

lemma vec_embed_ok: "vec_ok (vec_embed text)"
  by (simp add: vec_embed_def Let_def vec_pairs_ok vec_ok_take)

lemma vec_embed_full:
  "length (vec_pairs (vec_counts text)) < 256 \<Longrightarrow> vec_embed text = vec_pairs (vec_counts text)"
  by (simp add: vec_embed_def Let_def unat_of_nat take_bit_nat_eq_self_iff)

lemma map_of_vec_pairs:
  assumes "d < 256"
  shows "map_of (vec_pairs counts) (of_nat d) =
    (if counts ! d = 0 then None else Some (clamp8 (counts ! d)))"
proof -
  have inj: "(of_nat d :: u8) = of_nat e \<longleftrightarrow> d = e" if "e < 256" for e
    using that assms by (simp add: word_unat_eq_iff unat_of_nat take_bit_nat_eq_self_iff)
  have "map_of (map (\<lambda>d. (of_nat d :: u8, f d)) xs) (of_nat d) = (if d \<in> set xs then Some (f d) else None)"
    if "set xs \<subseteq> {..<256}" for xs and f :: "nat \<Rightarrow> u8"
    using that by (induction xs) (auto simp: inj)
  note * = this
  have "set (filter (\<lambda>d. counts ! d \<noteq> 0) [0..<256]) \<subseteq> {..<256}" by auto
  from * [OF this, of "\<lambda>d. clamp8 (counts ! d)"]
  show ?thesis unfolding vec_pairs_def using assms by (simp del: upt.simps)
qed

lemma vec_embed_count:
  assumes "length (vec_pairs (vec_counts text)) < 256" "d < 256"
  shows "vec_at (vec_embed text) (of_nat d) = min 255 (unat (vec_counts text ! d))"
  using assms by (simp add: vec_embed_full vec_at_def map_of_vec_pairs unat_clamp8)

subsection \<open>The merge computes the inner product\<close>

lemma vec_at_Nil [simp]: "vec_at [] k = 0"
  by (simp add: vec_at_def)

lemma vec_at_Cons: "vec_at ((i, x) # v) k = (if k = i then unat x else vec_at v k)"
  by (simp add: vec_at_def)

lemma vec_at_below: "sorted_wrt (<) (map fst ((i, x) # v)) \<Longrightarrow> k \<le> i \<Longrightarrow> vec_at v k = 0"
  by (auto simp: vec_at_def dest!: map_of_SomeD split: option.splits)

lemma sum_vec_at_Cons:
  fixes f :: "u8 \<Rightarrow> nat"
  assumes "vec_at v i = 0"
  shows "(\<Sum>k \<in> UNIV. vec_at ((i, x) # v) k * f k) = unat x * f i + (\<Sum>k \<in> UNIV. vec_at v k * f k)"
proof -
  have "vec_at ((i, x) # v) k * f k = (if k = i then unat x * f i else 0) + vec_at v k * f k" for k
    using assms by (simp add: vec_at_Cons)
  then show ?thesis by (simp add: sum.distrib)
qed

lemma vec_dot_sum:
  "sorted_wrt (<) (map fst a) \<Longrightarrow> sorted_wrt (<) (map fst b) \<Longrightarrow>
   vec_dot a b = (\<Sum>k \<in> UNIV. vec_at a k * vec_at b k)"
proof (induction a b rule: vec_dot.induct)
  case (1 i x a j y b)
  have a: "vec_at a i = 0" and b: "vec_at b j = 0" using 1(4,5) vec_at_below by blast+
  have sa: "(\<Sum>k \<in> UNIV. vec_at ((i, x) # a) k * f k) = unat x * f i + (\<Sum>k \<in> UNIV. vec_at a k * f k)"
    for f by (rule sum_vec_at_Cons [OF a])
  have sb: "(\<Sum>k \<in> UNIV. f k * vec_at ((j, y) # b) k) = f j * unat y + (\<Sum>k \<in> UNIV. f k * vec_at b k)"
    for f using sum_vec_at_Cons [OF b, of y f] by (simp add: mult.commute)
  consider "i < j" | "j < i" | "i = j" by fastforce
  then show ?case
  proof cases
    case lt: 1
    have "vec_at ((j, y) # b) i = 0"
      using lt vec_at_below [OF 1(5), of i] by (auto simp: vec_at_Cons)
    moreover have "vec_dot a ((j, y) # b) = (\<Sum>k \<in> UNIV. vec_at a k * vec_at ((j, y) # b) k)"
      using lt 1(4,5) by (intro 1(1)) auto
    ultimately show ?thesis using lt by (simp add: sa)
  next
    case gt: 2
    have "vec_at ((i, x) # a) j = 0"
      using gt vec_at_below [OF 1(4), of j] by (auto simp: vec_at_Cons)
    moreover have "vec_dot ((i, x) # a) b = (\<Sum>k \<in> UNIV. vec_at ((i, x) # a) k * vec_at b k)"
      using gt 1(4,5) by (intro 1(2)) auto
    moreover have "\<not> i < j" using gt by simp
    ultimately show ?thesis using gt by (simp add: sb)
  next
    case eq: 3
    have "vec_dot a b = (\<Sum>k \<in> UNIV. vec_at a k * vec_at b k)"
      using eq 1(4,5) by (intro 1(3)) auto
    moreover have "vec_at ((j, y) # b) i = unat y" using eq by (simp add: vec_at_Cons)
    ultimately show ?thesis
      using eq a sa [of "vec_at ((j, y) # b)"] sb [of "vec_at a"] by simp
  qed
qed auto

subsection \<open>The index is a map from keys to vectors\<close>

definition vecs_ok :: "vec_ent list \<Rightarrow> bool" where
  "vecs_ok vs \<longleftrightarrow> distinct (map vkey vs) \<and> (\<forall>e \<in> set vs. is_vec_key (vkey e))"

lemma vec_find_replace:
  "vec_find (vec_replace e vs) k = (if k = vkey e then Some e else vec_find vs k)"
  by (induction vs) (auto simp: vec_find_def)

lemma vkeys_replace:
  "map vkey (vec_replace e vs) =
    (if vkey e \<in> vkey ` set vs then map vkey vs else map vkey vs @ [vkey e])"
  by (induction vs) auto

lemma set_vec_replace: "x \<in> set (vec_replace e vs) \<Longrightarrow> x = e \<or> x \<in> set vs"
  by (induction vs) (auto split: if_split_asm)

lemma vecs_ok_add: "vecs_ok vs \<Longrightarrow> vecs_ok (vec_index_add vs key val ex)"
  by (auto simp: vecs_ok_def vec_index_add_def vkeys_replace split: option.split dest!: set_vec_replace)

lemma vec_pos_Some: "vec_pos key vs = Some i \<Longrightarrow> i < length vs \<and> vkey (vs ! i) = key"
  by (induction vs arbitrary: i) (auto split: if_split_asm)

lemma vec_pos_None: "vec_pos key vs = None \<longleftrightarrow> key \<notin> vkey ` set vs"
  by (induction vs) auto

lemma vec_find_None: "vec_find vs k = None \<longleftrightarrow> k \<notin> vkey ` set vs"
  by (auto simp: vec_find_def find_None_iff)

lemma vec_find_mset:
  assumes d: "distinct (map vkey vs)" and m: "mset vs = mset ws"
  shows "vec_find vs k = vec_find ws k"
proof -
  have d': "distinct (map vkey ws)" using d m by (metis mset_eq_imp_distinct_iff mset_map)
  have f: "vec_find xs k = Some e \<longleftrightarrow> e \<in> set xs \<and> vkey e = k" if "distinct (map vkey xs)" for xs e
    using that by (induction xs) (auto simp: vec_find_def)
  have "set vs = set ws" using m by (rule mset_eq_setD)
  then show ?thesis using f [OF d] f [OF d'] by (metis not_Some_eq)
qed

text \<open>Removal moves the last entry into the hole: the other entries are kept, in another order.\<close>

lemma mset_swap_remove:
  assumes "i < length vs"
  shows "add_mset (vs ! i) (mset (butlast (vs[i := last vs]))) = mset vs"
proof (cases vs rule: rev_cases)
  case (snoc us u)
  show ?thesis
  proof (cases "i = length us")
    case False
    then have "i < length us" using assms snoc by simp
    then show ?thesis
      using snoc by (simp add: list_update_append nth_append mset_update)
  qed (use snoc in \<open>simp add: list_update_append nth_append\<close>)
qed (use assms in simp)

lemma vec_find_del:
  assumes ok: "vecs_ok vs"
  shows "vecs_ok (vec_index_del vs key)"
    and "vec_find (vec_index_del vs key) k = (if k = key then None else vec_find vs k)"
proof -
  have "vecs_ok (vec_index_del vs key) \<and>
      vec_find (vec_index_del vs key) k = (if k = key then None else vec_find vs k)"
  proof (cases "vec_pos key vs")
    case None
    then have "key \<notin> vkey ` set vs" by (simp add: vec_pos_None)
    then show ?thesis using ok None by (auto simp: vec_index_del_def vec_find_None)
  next
    case (Some i)
    then have i: "i < length vs" "vkey (vs ! i) = key" using vec_pos_Some by auto
    let ?ws = "butlast (vs[i := last vs])"
    have m: "mset (vs ! i # ?ws) = mset vs" using mset_swap_remove [OF i(1)] by simp
    have d: "distinct (map vkey (vs ! i # ?ws))"
      using ok m unfolding vecs_ok_def by (metis mset_eq_imp_distinct_iff mset_map)
    have kx: "is_vec_key key" using ok i unfolding vecs_ok_def by (metis nth_mem)
    have s: "set ?ws \<subseteq> set vs" using mset_eq_setD [OF m] by auto
    have "vec_find (vs ! i # ?ws) k = vec_find vs k" by (rule vec_find_mset [OF d m])
    then have "vec_find ?ws k = vec_find vs k" if "k \<noteq> key" using that i by (simp add: vec_find_def)
    moreover have "vec_find ?ws key = None" using d i by (auto simp: vec_find_None)
    moreover have "vecs_ok ?ws" using d s ok by (auto simp: vecs_ok_def)
    ultimately show ?thesis using Some kx by (simp add: vec_index_del_def)
  qed
  then show "vecs_ok (vec_index_del vs key)"
    and "vec_find (vec_index_del vs key) k = (if k = key then None else vec_find vs k)" by auto
qed

lemma vec_find_add:
  "vec_find (vec_index_add vs key val ex) k =
    (case vec_parse val of
       Some v \<Rightarrow> if is_vec_key key \<and> k = key then Some \<lparr>vkey = key, vvec = v, vexp = ex\<rparr> else vec_find vs k
     | None \<Rightarrow> vec_find vs k)"
  by (auto simp: vec_index_add_def vec_find_replace split: option.split)

text \<open>A text that meets every dimension embeds to the empty vector: the count wraps.\<close>

lemma vec_embed_wrap: "length (vec_pairs (vec_counts text)) = 256 \<Longrightarrow> vec_embed text = []"
  by (simp add: vec_embed_def Let_def)

end
