(* ===== verification/Exo_Kix.thy ===== *)
theory Exo_Kix
  imports Exo_Index
begin

text \<open>
  The sorted candidate array for prefix queries of \<open>src/store.c\<close> (\<open>kix_cmp\<close>, \<open>kix_key_cmp\<close>,
  \<open>kix_insert\<close>, \<open>kix_remove\<close>, \<open>kix_rebuild\<close>) and the range search \<open>store_query\<close> does on it.
  A \<open>struct kix\<close> is its key. The theorems: the comparator is the byte-wise lexicographic
  order, the array stays strictly sorted, and the search finds exactly the keys with a prefix.
\<close>

definition kix_cmp :: "bytes \<Rightarrow> bytes \<Rightarrow> int" where
  "kix_cmp x y =
     (let n = min (length x) (length y); c = memcmp (take n x) (take n y)
      in if c \<noteq> 0 then (if c < 0 then -1 else 1)
         else if length x \<noteq> length y then (if length x < length y then -1 else 1)
         else 0)"

definition kix_key_cmp :: "bytes \<Rightarrow> bytes \<Rightarrow> int" where
  "kix_key_cmp e key =
     (let n = min (length e) (length key); c = memcmp (take n e) (take n key)
      in if c \<noteq> 0 then (if c < 0 then -1 else 1)
         else if length e \<noteq> length key then (if length e < length key then -1 else 1)
         else 0)"

definition kix_pos :: "bytes list \<Rightarrow> bytes \<Rightarrow> nat" where
  "kix_pos ks key = lower_bound (\<lambda>i. kix_key_cmp (ks ! i) key < 0) 0 (length ks)"

definition kix_insert :: "bytes list \<Rightarrow> bytes \<Rightarrow> bytes list" where
  "kix_insert ks key =
     (let lo = kix_pos ks key
      in if lo < length ks \<and> kix_key_cmp (ks ! lo) key = 0 then ks
         else take lo ks @ key # drop lo ks)"

definition kix_remove :: "bytes list \<Rightarrow> bytes \<Rightarrow> bytes list" where
  "kix_remove ks key =
     (let lo = kix_pos ks key
      in if lo \<ge> length ks \<or> kix_key_cmp (ks ! lo) key \<noteq> 0 then ks
         else take lo ks @ drop (Suc lo) ks)"

definition kix_rebuild :: "hindex \<Rightarrow> bytes list" where
  "kix_rebuild ix = qsort kix_cmp (map ekey (concat (buckets ix)))"

text \<open>The first candidate at or above the prefix, and the walk while the prefix matches.\<close>

definition kix_range_lo :: "bytes list \<Rightarrow> bytes \<Rightarrow> nat" where
  "kix_range_lo ks prefix =
     lower_bound (\<lambda>i. let m = ks ! i; n = min (length m) (length prefix);
                          c = memcmp (take n m) (take n prefix)
                      in c < 0 \<or> (c = 0 \<and> length m < length prefix)) 0 (length ks)"

definition has_prefix :: "bytes \<Rightarrow> bytes \<Rightarrow> bool" where
  "has_prefix prefix k \<longleftrightarrow> \<not> (length k < length prefix \<or> memcmp (take (length prefix) k) prefix \<noteq> 0)"

definition kix_range :: "bytes list \<Rightarrow> bytes \<Rightarrow> bytes list" where
  "kix_range ks prefix = takeWhile (has_prefix prefix) (drop (kix_range_lo ks prefix) ks)"

subsection \<open>The order\<close>

fun lex_lt :: "bytes \<Rightarrow> bytes \<Rightarrow> bool" where
  "lex_lt _ [] = False"
| "lex_lt [] (_ # _) = True"
| "lex_lt (x # xs) (y # ys) = (x < y \<or> (x = y \<and> lex_lt xs ys))"

lemma lex_lt_irrefl [simp]: "\<not> lex_lt x x"
  by (induction x) auto

lemma lex_lt_trans: "lex_lt x y \<Longrightarrow> lex_lt y z \<Longrightarrow> lex_lt x z"
proof (induction x z arbitrary: y rule: lex_lt.induct)
  case (2 z zs)
  then show ?case by (cases y) auto
next
  case (3 x xs z zs)
  then show ?case by (cases y) auto
qed auto

lemma lex_lt_linear: "lex_lt x y \<or> x = y \<or> lex_lt y x"
proof (induction x y rule: lex_lt.induct)
  case (1 x)
  then show ?case by (cases x) auto
next
  case (3 x xs y ys)
  then show ?case using less_linear [of x y] by auto
qed simp

lemma lex_lt_append: "lex_lt p (p @ c # r)"
  by (induction p) auto

lemma kix_cmp_Cons:
  "kix_cmp (x # xs) (y # ys) = (if x < y then -1 else if y < x then 1 else kix_cmp xs ys)"
  by (simp add: kix_cmp_def Let_def)

lemma kix_cmp_lex: "kix_cmp x y = (if lex_lt x y then -1 else if x = y then 0 else 1)"
proof (induction x y rule: lex_lt.induct)
  case (1 x)
  then show ?case by (cases x) (auto simp: kix_cmp_def)
next
  case (2 y ys)
  then show ?case by (simp add: kix_cmp_def)
next
  case (3 x xs y ys)
  then show ?case by (auto simp: kix_cmp_Cons)
qed

lemma kix_key_cmp_eq: "kix_key_cmp = kix_cmp"
  by (simp add: kix_key_cmp_def kix_cmp_def fun_eq_iff)

interpretation kx: comparator kix_cmp UNIV
proof unfold_locales
  fix x y z :: bytes
  show "kix_cmp x y \<le> 0 \<longleftrightarrow> 0 \<le> kix_cmp y x"
    using lex_lt_linear [of x y] lex_lt_trans [of x y x] by (auto simp: kix_cmp_lex)
  show "kix_cmp x y \<le> 0 \<Longrightarrow> kix_cmp y z \<le> 0 \<Longrightarrow> kix_cmp x z \<le> 0"
    using lex_lt_trans [of x y z] by (auto simp: kix_cmp_lex split: if_split_asm)
qed

subsection \<open>The array\<close>

abbreviation ksorted :: "bytes list \<Rightarrow> bool" where
  "ksorted ks \<equiv> sorted_wrt lex_lt ks"

lemma ksorted_distinct: "ksorted ks \<Longrightarrow> distinct ks"
  by (induction ks) auto

lemma ksorted_nth: "ksorted ks \<Longrightarrow> i < j \<Longrightarrow> j < length ks \<Longrightarrow> lex_lt (ks ! i) (ks ! j)"
  by (simp add: sorted_wrt_iff_nth_less)

lemma kix_pos_spec:
  assumes s: "ksorted ks"
  shows "kix_pos ks key \<le> length ks"
    and "\<And>k. k \<in> set (take (kix_pos ks key) ks) \<Longrightarrow> lex_lt k key"
    and "\<And>k. k \<in> set (drop (kix_pos ks key) ks) \<Longrightarrow> \<not> lex_lt k key"
proof -
  let ?P = "\<lambda>i. kix_key_cmp (ks ! i) key < 0"
  have P: "?P i \<longleftrightarrow> lex_lt (ks ! i) key" for i by (simp add: kix_key_cmp_eq kix_cmp_lex)
  have mono: "?P i" if "i < j" "j < length ks" "?P j" for i j
    using that ksorted_nth [OF s, of i j] lex_lt_trans unfolding P by blast
  note lb = lower_bound_spec [of 0 "length ks" ?P, OF _ mono]
  show "kix_pos ks key \<le> length ks" unfolding kix_pos_def by (rule lb(1)) auto
  have lo: "\<forall>i < kix_pos ks key. ?P i" unfolding kix_pos_def by (rule lb(2)) auto
  have hi: "\<forall>i. kix_pos ks key \<le> i \<and> i < length ks \<longrightarrow> \<not> ?P i" unfolding kix_pos_def by (rule lb(3)) auto
  show "k \<in> set (take (kix_pos ks key) ks) \<Longrightarrow> lex_lt k key" for k
    using lo by (auto simp: in_set_conv_nth P)
  show "k \<in> set (drop (kix_pos ks key) ks) \<Longrightarrow> \<not> lex_lt k key" for k
    using hi by (auto simp: in_set_conv_nth P)
qed

text \<open>The found position splits the array at the key.\<close>

lemma kix_split:
  assumes s: "ksorted ks"
  obtains "key \<in> set ks" "kix_pos ks key < length ks" "ks ! kix_pos ks key = key"
  | "key \<notin> set ks" "\<not> (kix_pos ks key < length ks \<and> ks ! kix_pos ks key = key)"
proof (cases "key \<in> set ks")
  case True
  let ?p = "kix_pos ks key"
  have "key \<notin> set (take ?p ks)" using kix_pos_spec(2) [OF s, of key key] by auto
  then have d: "key \<in> set (drop ?p ks)" using True by (metis Un_iff append_take_drop_id set_append)
  then have p: "?p < length ks" by (cases "?p < length ks") auto
  then have dr: "drop ?p ks = ks ! ?p # drop (Suc ?p) ks" by (simp add: Cons_nth_drop_Suc)
  have "ks ! ?p = key"
  proof (rule ccontr)
    assume "ks ! ?p \<noteq> key"
    then have "key \<in> set (drop (Suc ?p) ks)" using d dr by simp
    moreover have "ksorted (drop ?p ks)" using s by (rule sorted_wrt_drop)
    ultimately have "lex_lt (ks ! ?p) key" using dr by simp
    moreover have "ks ! ?p \<in> set (drop ?p ks)" using dr by simp
    ultimately show False using kix_pos_spec(3) [OF s, of "ks ! ?p" key] by simp
  qed
  then show ?thesis using True p that by blast
next
  case False
  then have "\<not> (kix_pos ks key < length ks \<and> ks ! kix_pos ks key = key)" using nth_mem by force
  then show ?thesis using False that(2) by blast
qed

lemma kix_insert_set:
  assumes s: "ksorted ks"
  shows "set (kix_insert ks key) = insert key (set ks)"
proof -
  have z: "kix_key_cmp (ks ! i) key = 0 \<longleftrightarrow> ks ! i = key" for i
    by (auto simp: kix_key_cmp_eq kix_cmp_lex)
  have sp: "set (take n ks) \<union> set (drop n ks) = set ks" for n by (metis append_take_drop_id set_append)
  show ?thesis
  proof (rule kix_split [OF s, of key])
    assume "\<not> (kix_pos ks key < length ks \<and> ks ! kix_pos ks key = key)"
    then show ?thesis using sp [of "kix_pos ks key"] by (auto simp: kix_insert_def Let_def z)
  qed (auto simp: kix_insert_def Let_def z)
qed

lemma kix_insert_sorted:
  assumes s: "ksorted ks"
  shows "ksorted (kix_insert ks key)"
proof -
  have z: "kix_key_cmp (ks ! i) key = 0 \<longleftrightarrow> ks ! i = key" for i
    by (auto simp: kix_key_cmp_eq kix_cmp_lex)
  let ?p = "kix_pos ks key"
  show ?thesis
  proof (cases "key \<in> set ks")
    case True
    then show ?thesis using s by (auto simp: kix_insert_def Let_def z intro: kix_split [OF s, of key])
  next
    case False
    have "lex_lt key k" if "k \<in> set (drop ?p ks)" for k
      using that False kix_pos_spec(3) [OF s that] lex_lt_linear [of k key] in_set_dropD by fastforce
    moreover have "lex_lt a b" if "a \<in> set (take ?p ks)" "b \<in> set (drop ?p ks)" for a b
      using s that by (metis append_take_drop_id sorted_wrt_append)
    ultimately have "ksorted (take ?p ks @ key # drop ?p ks)"
      using s kix_pos_spec(2) [OF s] by (auto simp: sorted_wrt_append sorted_wrt_take sorted_wrt_drop)
    then show ?thesis using s by (simp add: kix_insert_def Let_def)
  qed
qed

lemma kix_remove_set:
  assumes s: "ksorted ks"
  shows "set (kix_remove ks key) = set ks - {key}" and "ksorted (kix_remove ks key)"
proof -
  have z: "kix_key_cmp (ks ! i) key = 0 \<longleftrightarrow> ks ! i = key" for i
    by (auto simp: kix_key_cmp_eq kix_cmp_lex)
  let ?p = "kix_pos ks key"
  have "set (kix_remove ks key) = set ks - {key} \<and> ksorted (kix_remove ks key)"
  proof (rule kix_split [OF s, of key])
    assume p: "?p < length ks" "ks ! ?p = key" and k: "key \<in> set ks"
    have sp: "ks = take ?p ks @ key # drop (Suc ?p) ks" using p by (metis id_take_nth_drop)
    have d: "distinct (take ?p ks @ key # drop (Suc ?p) ks)" using ksorted_distinct [OF s] sp by simp
    have "set ks = insert key (set (take ?p ks @ drop (Suc ?p) ks))" by (subst sp) auto
    moreover have "ksorted (take ?p ks @ drop (Suc ?p) ks)"
    proof -
      have "ksorted (take ?p ks @ key # drop (Suc ?p) ks)" using s sp by simp
      then show ?thesis by (auto simp: sorted_wrt_append)
    qed
    ultimately show ?thesis using p d by (auto simp: kix_remove_def Let_def z)
  next
    assume "key \<notin> set ks" "\<not> (?p < length ks \<and> ks ! ?p = key)"
    then show ?thesis using s by (auto simp: kix_remove_def Let_def z)
  qed
  then show "set (kix_remove ks key) = set ks - {key}" and "ksorted (kix_remove ks key)" by auto
qed

lemma kix_rebuild_ok:
  assumes ok: "index_ok ix"
  shows "ksorted (kix_rebuild ix)" and "set (kix_rebuild ix) = ekey ` set (entries ix)"
proof -
  let ?ks = "map ekey (concat (buckets ix))"
  have le: "sorted_wrt (\<lambda>a b. kix_cmp a b \<le> 0) (kix_rebuild ix)"
    unfolding kix_rebuild_def by (rule kx.sorted_qsort) simp
  have "distinct ?ks" using index_ok_distinct [OF ok] by (simp add: entries_def)
  then have d: "distinct (kix_rebuild ix)"
    unfolding kix_rebuild_def by (metis mset_eq_imp_distinct_iff mset_qsort)
  show "ksorted (kix_rebuild ix)"
    using le d by (auto simp: sorted_wrt_iff_nth_less kix_cmp_lex nth_eq_iff_index_eq split: if_split_asm)
  show "set (kix_rebuild ix) = ekey ` set (entries ix)"
    by (simp add: kix_rebuild_def entries_def)
qed

subsection \<open>The prefix range\<close>

lemma has_prefix_iff: "has_prefix p k \<longleftrightarrow> take (length p) k = p"
proof -
  have "memcmp (take (length p) k) p = 0 \<longleftrightarrow> take (length p) k = p" if "length p \<le> length k"
    using that by (intro memcmp_eq_0) simp
  moreover have "length p \<le> length k" if "take (length p) k = p"
    using that by (metis length_take min.cobounded1)
  ultimately show ?thesis by (auto simp: has_prefix_def not_less)
qed

lemma below_prefix_lex:
  "(let n = min (length m) (length p); c = memcmp (take n m) (take n p)
    in c < 0 \<or> (c = 0 \<and> length m < length p)) \<longleftrightarrow> lex_lt m p"
proof -
  have "(let n = min (length m) (length p); c = memcmp (take n m) (take n p)
    in c < 0 \<or> (c = 0 \<and> length m < length p)) \<longleftrightarrow> kix_cmp m p < 0"
    by (auto simp: kix_cmp_def Let_def)
  then show ?thesis by (simp add: kix_cmp_lex)
qed

lemma prefix_ge: "take (length p) k = p \<Longrightarrow> \<not> lex_lt k p"
proof -
  assume "take (length p) k = p"
  then obtain r where "k = p @ r" by (metis append_take_drop_id)
  then show ?thesis using lex_lt_append [of p] lex_lt_trans by (cases r) fastforce+
qed

text \<open>A key at or above the prefix that does not carry it is above every key that does.\<close>

lemma above_prefix: "\<not> lex_lt k p \<Longrightarrow> take (length p) k \<noteq> p \<Longrightarrow> lex_lt (p @ r) k"
  by (induction k p rule: lex_lt.induct) auto

lemma kix_range_set:
  assumes s: "ksorted ks"
  shows "set (kix_range ks p) = {k \<in> set ks. take (length p) k = p}" and "ksorted (kix_range ks p)"
proof -
  let ?lo = "kix_range_lo ks p" and ?P = "\<lambda>i. lex_lt (ks ! i) p"
  have lo_def: "?lo = lower_bound ?P 0 (length ks)" by (simp add: kix_range_lo_def below_prefix_lex)
  have mono: "?P i" if "i < j" "j < length ks" "?P j" for i j
    using that ksorted_nth [OF s, of i j] lex_lt_trans by blast
  note lb = lower_bound_spec [of 0 "length ks" ?P, OF _ mono]
  have lo: "\<forall>i < ?lo. ?P i" unfolding lo_def by (rule lb(2)) auto
  have hi: "\<forall>i. ?lo \<le> i \<and> i < length ks \<longrightarrow> \<not> ?P i" unfolding lo_def by (rule lb(3)) auto
  have low: "take (length p) k \<noteq> p" if "k \<in> set (take ?lo ks)" for k
    using that lo prefix_ge [of p k] by (auto simp: in_set_conv_nth)
  have high: "\<not> lex_lt k p" if "k \<in> set (drop ?lo ks)" for k
    using that hi by (auto simp: in_set_conv_nth)
  have walk: "set (takeWhile (has_prefix p) xs) = {k \<in> set xs. take (length p) k = p}"
    if "ksorted xs" "\<forall>k \<in> set xs. \<not> lex_lt k p" for xs
    using that
  proof (induction xs)
    case (Cons x xs)
    show ?case
    proof (cases "take (length p) x = p")
      case True
      then show ?thesis using Cons by (auto simp: has_prefix_iff)
    next
      case False
      have "take (length p) k \<noteq> p" if k: "k \<in> set xs" for k
      proof
        assume "take (length p) k = p"
        then obtain r where "k = p @ r" by (metis append_take_drop_id)
        then have "lex_lt k x" using above_prefix [of x p r] False Cons.prems by simp
        moreover have "lex_lt x k" using Cons.prems k by simp
        ultimately show False using lex_lt_trans lex_lt_irrefl by blast
      qed
      then show ?thesis using False by (auto simp: has_prefix_iff)
    qed
  qed simp
  have "set ks = set (take ?lo ks) \<union> set (drop ?lo ks)" by (metis append_take_drop_id set_append)
  moreover have "set (kix_range ks p) = {k \<in> set (drop ?lo ks). take (length p) k = p}"
    unfolding kix_range_def using s high by (intro walk) (auto simp: sorted_wrt_drop)
  ultimately show "set (kix_range ks p) = {k \<in> set ks. take (length p) k = p}" using low by auto
  show "ksorted (kix_range ks p)"
    unfolding kix_range_def using s by (metis sorted_wrt_append sorted_wrt_drop takeWhile_dropWhile_id)
qed

end
