(* ===== verification/Exo_Store.thy ===== *)
theory Exo_Store
  imports Exo_Log Exo_Vec Exo_Kix
begin

text \<open>
  The store of \<open>src/store.c\<close>: its state and every operation that reads or changes it, in the
  order of the source. The store mutex is held for the whole of each operation, so an
  operation is a function from the state before to the state after.

  What the operations ask of the world is one record: the successive clock readings
  (\<open>now_ms\<close> is called up to three times in an operation), and how each system call ends. A
  healthy environment at time \<open>t\<close> is \<open>healthy t\<close>. Offsets and counters are \<open>uint64_t\<close> in C and
  naturals here; logs stay far below \<open>2^57\<close> bytes. A failed \<open>open\<close> of the log itself, or a
  failed reopen after a rename, ends the process and is not modelled.
\<close>

record world =
  w_ts :: int                       \<comment> \<open>the reading stored as the record's write time\<close>
  w_now :: int                      \<comment> \<open>the reading \<open>expired\<close> compares with\<close>
  w_cnow :: int                     \<comment> \<open>the reading \<open>compact\<close> takes\<close>
  w_write :: "nat option"           \<comment> \<open>bytes the log device still takes\<close>
  w_sync :: bool                    \<comment> \<open>\<open>fdatasync\<close> of the log\<close>
  w_trunc :: bool                   \<comment> \<open>\<open>ftruncate\<close> of the log\<close>
  w_topen :: bool                   \<comment> \<open>\<open>open\<close> of the temporary file\<close>
  w_twrite :: "nat \<Rightarrow> nat option"   \<comment> \<open>per record written to the temporary file\<close>
  w_tsync :: bool                   \<comment> \<open>\<open>fdatasync\<close> of the temporary file\<close>
  w_rename :: bool                  \<comment> \<open>\<open>rename\<close> over the log\<close>

definition healthy :: "int \<Rightarrow> world" where
  "healthy t = \<lparr>w_ts = t, w_now = t, w_cnow = t, w_write = None, w_sync = True, w_trunc = True,
     w_topen = True, w_twrite = (\<lambda>_. None), w_tsync = True, w_rename = True\<rparr>"

record store =
  simg :: bytes            \<comment> \<open>the file behind \<open>fd\<close>\<close>
  ssize :: nat
  sidx :: hindex
  sdead :: nat
  sopened :: int
  nreads :: nat
  nwrites :: nat
  ndeletes :: nat
  nmisses :: nat
  svecs :: "vec_ent list"
  skix :: "bytes list"
  skix_dirty :: bool

definition MAX_QUERY :: nat where "MAX_QUERY = 10000"
definition COMPACT_MIN_BYTES :: nat where "COMPACT_MIN_BYTES = 64 * 1024 * 1024"
definition COMPACT_DEAD_PCT :: nat where "COMPACT_DEAD_PCT = 33"

definition expired :: "int \<Rightarrow> entry \<Rightarrow> bool" where
  "expired now e \<longleftrightarrow> eexp e \<noteq> 0 \<and> now > eexp e"

definition read_val :: "bytes \<Rightarrow> entry \<Rightarrow> bytes option" where
  "read_val img e =
     (let v = pread img (eoff e + HDR_SIZE + length (ekey e)) (evsize e)
      in if length v \<noteq> evsize e then None else Some v)"

subsection \<open>Loading\<close>

text \<open>What a round of the \<open>store_load\<close> loop does with a valid record.\<close>

definition apply_rec :: "store \<Rightarrow> nat \<Rightarrow> lrec \<Rightarrow> store" where
  "apply_rec s pos r =
     (if is_tomb r then
        (case find_slot (sidx s) (lkey r) of
           None \<Rightarrow> s
         | Some e \<Rightarrow> s\<lparr>svecs := vec_index_del (svecs s) (lkey r),
                       sdead := sdead s + rec_bytes e,
                       sidx := del_entry (sidx s) (lkey r)\<rparr>)
      else (let (ix, dead) = upsert (sidx s) (lkey r) pos (length (lval r)) (lts r) (lttl r)
            in s\<lparr>sidx := ix, sdead := sdead s + dead,
                 svecs := vec_index_add (svecs s) (lkey r) (lval r)
                            (if lttl r \<noteq> 0 then lts r + lttl r else 0)\<rparr>))"

lemma apply_rec_frame [simp]:
  "simg (apply_rec s pos r) = simg s" "ssize (apply_rec s pos r) = ssize s"
  "skix (apply_rec s pos r) = skix s" "skix_dirty (apply_rec s pos r) = skix_dirty s"
  "nreads (apply_rec s pos r) = nreads s" "nwrites (apply_rec s pos r) = nwrites s"
  "ndeletes (apply_rec s pos r) = ndeletes s" "nmisses (apply_rec s pos r) = nmisses s"
  "sopened (apply_rec s pos r) = sopened s"
  by (simp_all add: apply_rec_def Let_def split: option.split prod.split)

function load_loop :: "store \<Rightarrow> nat \<Rightarrow> store \<times> nat" where
  "load_loop s pos =
     (case rec_at (simg s) (ssize s) pos of
        None \<Rightarrow> (s, pos)
      | Some r \<Rightarrow> load_loop (apply_rec s pos r) (pos + rlen r))"
  by pat_completeness auto
termination
proof (relation "measure (\<lambda>(s, pos). ssize s - pos)", goal_cases)
  case (2 s pos r)
  then show ?case using rec_at_len [of "simg s" "ssize s" pos r] rlen_pos [of r] by simp
qed simp

declare load_loop.simps [simp del]

definition store_load :: "store \<Rightarrow> bool \<Rightarrow> store" where
  "store_load s trunc_ok =
     (let s1 = s\<lparr>svecs := [], skix_dirty := True, ssize := length (simg s)\<rparr>;
          (s2, good) = load_loop s1 0
      in if good \<noteq> ssize s2
         then s2\<lparr>simg := (if trunc_ok then take good (simg s2) else simg s2), ssize := good\<rparr>
         else s2)"

subsection \<open>Compaction\<close>

text \<open>
  The nested loop over the buckets. The state is the temporary file, its write position and
  the number of records tried so far. Offsets in the index change as records are written.
\<close>

definition compact_rec :: "entry \<Rightarrow> bytes \<Rightarrow> lrec" where
  "compact_rec e v = \<lparr>lflags = 0, lts = ets e, lttl = (if eexp e \<noteq> 0 then eexp e - ets e else 0),
     lkey = ekey e, lval = v\<rparr>"

fun compact_chain :: "bytes \<Rightarrow> int \<Rightarrow> (nat \<Rightarrow> nat option) \<Rightarrow> entry list \<Rightarrow> bytes \<times> nat \<times> nat
    \<Rightarrow> entry list \<times> (bytes \<times> nat \<times> nat)" where
  "compact_chain img now bud [] st = ([], st)"
| "compact_chain img now bud (e # es) (tmp, pos, n) =
     (if expired now e then
        (let (es', st') = compact_chain img now bud es (tmp, pos, n) in (e # es', st'))
      else (case read_val img e of
              None \<Rightarrow> (let (es', st') = compact_chain img now bud es (tmp, pos, n) in (e # es', st'))
            | Some v \<Rightarrow>
                (let (tmp', pos', ok) = write_rec_at tmp pos (compact_rec e v) (bud n);
                     e' = (if ok then e\<lparr>eoff := pos\<rparr> else e);
                     (es', st') = compact_chain img now bud es (tmp', pos', Suc n)
                 in (e' # es', st'))))"

fun compact_buckets :: "bytes \<Rightarrow> int \<Rightarrow> (nat \<Rightarrow> nat option) \<Rightarrow> entry list list \<Rightarrow> bytes \<times> nat \<times> nat
    \<Rightarrow> entry list list \<times> (bytes \<times> nat \<times> nat)" where
  "compact_buckets img now bud [] st = ([], st)"
| "compact_buckets img now bud (b # bs) st =
     (let (b', st1) = compact_chain img now bud b st;
          (bs', st2) = compact_buckets img now bud bs st1
      in (b' # bs', st2))"

definition compact :: "store \<Rightarrow> world \<Rightarrow> store" where
  "compact s w =
     (if \<not> w_topen w then s
      else let (bs, tmp, pos, n) = compact_buckets (simg s) (w_cnow w) (w_twrite w) (buckets (sidx s)) ([], 0, 0);
               s1 = s\<lparr>sidx := (sidx s)\<lparr>buckets := bs\<rparr>\<rparr>
           in if \<not> w_rename w then s1
              else s1\<lparr>simg := tmp, ssize := pos, sdead := 0\<rparr>)"

definition maybe_compact :: "store \<Rightarrow> world \<Rightarrow> store" where
  "maybe_compact s w =
     (if ssize s < COMPACT_MIN_BYTES then s
      else if sdead s * 100 < ssize s * COMPACT_DEAD_PCT then s
      else compact s w)"

subsection \<open>Opening, clearing\<close>

definition store_open :: "bytes \<Rightarrow> world \<Rightarrow> store" where
  "store_open img w =
     store_load \<lparr>simg = img, ssize = 0, sidx = empty_index, sdead = 0, sopened = w_now w,
       nreads = 0, nwrites = 0, ndeletes = 0, nmisses = 0, svecs = [], skix = [], skix_dirty = False\<rparr>
       (w_trunc w)"

definition clear_index :: "store \<Rightarrow> store" where
  "clear_index s =
     s\<lparr>sidx := \<lparr>buckets = replicate (length (buckets (sidx s))) [], icount = 0\<rparr>, svecs := [], skix := []\<rparr>"

text \<open>What \<open>store_close\<close> leaves behind is the file.\<close>

definition store_close :: "store \<Rightarrow> bytes" where
  "store_close s = simg s"

definition store_reset :: "store \<Rightarrow> world \<Rightarrow> store" where
  "store_reset s w =
     (let s1 = clear_index s;
          s2 = s1\<lparr>simg := (if w_trunc w then [] else simg s1), ssize := 0, sdead := 0, skix_dirty := True\<rparr>
      in store_load s2 (w_trunc w))"

subsection \<open>Replication\<close>

text \<open>The header of a raw record: key and value length, \<open>None\<close> for a rejected header.\<close>

definition raw_hdr :: "bytes \<Rightarrow> (nat \<times> nat) option" where
  "raw_hdr hdr =
     (if take 4 hdr \<noteq> MAGIC then None
      else if hdr_klen hdr > MAX_KEY \<or> hdr_vlen hdr > MAX_VAL then None
      else Some (hdr_klen hdr, hdr_vlen hdr))"

definition store_raw_len :: "store \<Rightarrow> nat \<Rightarrow> int" where
  "store_raw_len s off =
     (if off \<ge> ssize s then 0
      else let hdr = pread (simg s) off HDR_SIZE
           in if length hdr \<noteq> HDR_SIZE then -1
              else (case raw_hdr hdr of
                      None \<Rightarrow> -1
                    | Some (klen, vlen) \<Rightarrow>
                        let reclen = HDR_SIZE + klen + vlen
                        in if off + reclen > ssize s then -1 else int reclen))"

text \<open>The result code and the bytes copied to the caller's buffer.\<close>

definition store_raw_at :: "store \<Rightarrow> nat \<Rightarrow> nat \<Rightarrow> int \<times> bytes" where
  "store_raw_at s off cap =
     (if off \<ge> ssize s then (0, [])
      else let hdr = pread (simg s) off HDR_SIZE
           in if length hdr \<noteq> HDR_SIZE then (-1, [])
              else (case raw_hdr hdr of
                      None \<Rightarrow> (-1, [])
                    | Some (klen, vlen) \<Rightarrow>
                        let reclen = HDR_SIZE + klen + vlen
                        in if off + reclen > ssize s \<or> reclen > cap then (-1, [])
                           else let b = pread (simg s) off reclen
                                in if length b \<noteq> reclen then (-1, [])
                                   else if rec_crc (take klen (drop HDR_SIZE b))
                                             (take vlen (drop (HDR_SIZE + klen) b)) \<noteq> hdr_crc hdr then (-1, [])
                                   else (int reclen, b)))"

text \<open>The checks of \<open>store_import_raw\<close> before it takes the lock.\<close>

definition import_check :: "bytes \<Rightarrow> lrec option" where
  "import_check rec =
     (if length rec < HDR_SIZE then None
      else (case raw_hdr rec of
              None \<Rightarrow> None
            | Some (klen, vlen) \<Rightarrow>
                if length rec \<noteq> HDR_SIZE + klen + vlen then None
                else let fl = of_char (rec ! 4) :: u8;
                         key = take klen (drop HDR_SIZE rec);
                         val = take vlen (drop (HDR_SIZE + klen) rec)
                     in if fl AND FLAG_TOMB \<noteq> 0 \<and> vlen \<noteq> 0 then None
                        else if rec_crc key val \<noteq> hdr_crc rec then None
                        else Some \<lparr>lflags = fl, lts = hdr_ts rec, lttl = hdr_ttl rec,
                                   lkey = key, lval = val\<rparr>))"

definition store_import_raw :: "store \<Rightarrow> bytes \<Rightarrow> world \<Rightarrow> store \<times> int" where
  "store_import_raw s rec w =
     (case import_check rec of
        None \<Rightarrow> (s, -1)
      | Some r \<Rightarrow>
          let base = ssize s; (img, ok, b) = dev_write (simg s) base rec (w_write w);
              s1 = s\<lparr>simg := img\<rparr>
          in if \<not> ok then (s1, -1)
             else let s2 = s1\<lparr>ssize := base + length rec\<rparr>
                  in if \<not> w_sync w then (s2, -1)
                     else let s3 = apply_rec s2 base r;
                              s4 = (if is_tomb r
                                    then s3\<lparr>skix := kix_remove (skix s3) (lkey r), ndeletes := ndeletes s3 + 1\<rparr>
                                    else s3\<lparr>skix := kix_insert (skix s3) (lkey r), nwrites := nwrites s3 + 1\<rparr>)
                          in (maybe_compact s4 w, 0))"

subsection \<open>Keys\<close>

definition kix_ensure :: "store \<Rightarrow> store" where
  "kix_ensure s = (if skix_dirty s then s\<lparr>skix := kix_rebuild (sidx s), skix_dirty := False\<rparr> else s)"

text \<open>The value an appending write stores: old value, a newline unless it ends in one, new value.\<close>

definition merge_append :: "store \<Rightarrow> bytes \<Rightarrow> bytes \<Rightarrow> int \<Rightarrow> bytes" where
  "merge_append s key val now =
     (case find_slot (sidx s) key of
        None \<Rightarrow> val
      | Some e \<Rightarrow>
          if expired now e then val
          else (case read_val (simg s) e of
                  None \<Rightarrow> val
                | Some old \<Rightarrow> old @ (if old \<noteq> [] \<and> last old \<noteq> nl then [nl] else []) @ val))"

definition clamp_ttl :: "int \<Rightarrow> int" where
  "clamp_ttl ttl = (if ttl < 0 \<or> ttl > 315360000 then 0 else ttl)"

definition store_set :: "store \<Rightarrow> bytes \<Rightarrow> bytes \<Rightarrow> int \<Rightarrow> bool \<Rightarrow> world \<Rightarrow> store \<times> int" where
  "store_set s key val ttl_sec app w =
     (if key = [] \<or> length key > MAX_KEY \<or> length val > MAX_VAL then (s, -1)
      else let ttl = clamp_ttl ttl_sec; ts = w_ts w;
               wv = (if app then merge_append s key val (w_now w) else val);
               base = ssize s;
               r = \<lparr>lflags = 0, lts = ts, lttl = ttl * 1000, lkey = key, lval = wv\<rparr>;
               (img, pos, ok) = write_rec_at (simg s) base r (w_write w);
               s1 = s\<lparr>simg := img, ssize := pos\<rparr>
           in if \<not> ok then (s1, -1)
              else let (ix, dead) = upsert (sidx s1) key base (length wv) ts (ttl * 1000);
                       s2 = s1\<lparr>sidx := ix, sdead := sdead s1 + dead,
                               svecs := vec_index_add (svecs s1) key wv (if ttl \<noteq> 0 then ts + ttl * 1000 else 0),
                               skix := kix_insert (skix s1) key, nwrites := nwrites s1 + 1\<rparr>
                   in (maybe_compact s2 w, 0))"

definition store_sync :: "store \<Rightarrow> world \<Rightarrow> int" where
  "store_sync s w = (if w_sync w then 0 else -1)"

definition store_get :: "store \<Rightarrow> bytes \<Rightarrow> int \<Rightarrow> store \<times> (bytes \<times> int) option" where
  "store_get s key now =
     (case find_slot (sidx s) key of
        None \<Rightarrow> (s\<lparr>nmisses := nmisses s + 1\<rparr>, None)
      | Some e \<Rightarrow>
          if expired now e then (s\<lparr>nmisses := nmisses s + 1\<rparr>, None)
          else (s\<lparr>nreads := nreads s + 1\<rparr>, map_option (\<lambda>v. (v, ets e)) (read_val (simg s) e)))"

definition store_del :: "store \<Rightarrow> bytes \<Rightarrow> world \<Rightarrow> store \<times> int" where
  "store_del s key w =
     (if key = [] \<or> length key > MAX_KEY then (s, -1)
      else let (s1, existed) =
                 (case find_slot (sidx s) key of
                    None \<Rightarrow> (s, False)
                  | Some e \<Rightarrow> (s\<lparr>sdead := sdead s + rec_bytes e, sidx := del_entry (sidx s) key\<rparr>,
                               \<not> expired (w_now w) e));
               s2 = s1\<lparr>svecs := vec_index_del (svecs s1) key, skix := kix_remove (skix s1) key\<rparr>;
               r = \<lparr>lflags = FLAG_TOMB, lts = w_ts w, lttl = 0, lkey = key, lval = []\<rparr>;
               (img, pos, ok) = write_rec_at (simg s2) (ssize s2) r (w_write w);
               s3 = s2\<lparr>simg := img, ssize := pos, ndeletes := ndeletes s2 + 1\<rparr>
           in (maybe_compact s3 w, if ok then (if existed then 1 else 0) else -1))"

subsection \<open>Counters, snapshot, restore\<close>

definition store_count :: "store \<Rightarrow> nat" where
  "store_count s = icount (sidx s)"

definition store_stats :: "store \<Rightarrow> nat \<times> nat \<times> nat \<times> nat \<times> nat \<times> nat \<times> nat \<times> int" where
  "store_stats s = (icount (sidx s), ssize s, sdead s, nreads s, nwrites s, ndeletes s, nmisses s, sopened s)"

text \<open>The callback gets its context, a key and a value; its second result is "go on".\<close>

fun snap_loop :: "bytes \<Rightarrow> int \<Rightarrow> ('c \<Rightarrow> bytes \<Rightarrow> bytes \<Rightarrow> 'c \<times> bool) \<Rightarrow> 'c \<Rightarrow> entry list \<Rightarrow> 'c \<times> int" where
  "snap_loop img now fn ctx [] = (ctx, 0)"
| "snap_loop img now fn ctx (e # es) =
     (if expired now e then snap_loop img now fn ctx es
      else (case read_val img e of
              None \<Rightarrow> snap_loop img now fn ctx es
            | Some v \<Rightarrow> (let (ctx', go) = fn ctx (ekey e) v
                         in if \<not> go then (ctx', -1) else snap_loop img now fn ctx' es)))"

definition store_snapshot :: "store \<Rightarrow> int \<Rightarrow> ('c \<Rightarrow> bytes \<Rightarrow> bytes \<Rightarrow> 'c \<times> bool) \<Rightarrow> 'c \<Rightarrow> 'c \<times> int" where
  "store_snapshot s now fn ctx = snap_loop (simg s) now fn ctx (concat (buckets (sidx s)))"

fun restore_write :: "(nat \<Rightarrow> nat option) \<Rightarrow> int \<Rightarrow> (bytes \<times> bytes) list \<Rightarrow> bytes \<Rightarrow> nat \<Rightarrow> nat \<Rightarrow> bytes \<times> bool" where
  "restore_write bud ts [] tmp pos i = (tmp, True)"
| "restore_write bud ts ((k, v) # kvs) tmp pos i =
     (let (tmp', pos', ok) = write_rec_at tmp pos \<lparr>lflags = 0, lts = ts, lttl = 0, lkey = k, lval = v\<rparr> (bud i)
      in if \<not> ok then (tmp', False) else restore_write bud ts kvs tmp' pos' (Suc i))"

definition kv_ok :: "bytes \<times> bytes \<Rightarrow> bool" where
  "kv_ok kv \<longleftrightarrow> \<not> (fst kv = [] \<or> length (fst kv) > MAX_KEY \<or> length (snd kv) > MAX_VAL)"

definition store_restore :: "store \<Rightarrow> (bytes \<times> bytes) list \<Rightarrow> world \<Rightarrow> store \<times> int" where
  "store_restore s kvs w =
     (if \<not> list_all kv_ok kvs then (s, -1)
      else if \<not> w_topen w then (s, -1)
      else let (tmp, ok) = restore_write (w_twrite w) (w_ts w) kvs [] 0 0
           in if \<not> ok \<or> \<not> w_tsync w then (s, -1)
              else if \<not> w_rename w then (s, -1)
              else let s1 = s\<lparr>simg := tmp,
                              sidx := \<lparr>buckets = replicate (length (buckets (sidx s))) [], icount = 0\<rparr>,
                              sdead := 0, ssize := 0\<rparr>;
                       s2 = store_load s1 (w_trunc w)
                   in (s2\<lparr>nwrites := nwrites s2 + length kvs, skix_dirty := True\<rparr>, int (length kvs)))"

end
