(* ===== verification/Exo_Replay.thy ===== *)
theory Exo_Replay
  imports Exo_Store
begin

text \<open>
  What a log means: replaying its records gives a map from keys to entries. The lemmas show
  that \<open>store_load\<close> computes this map, that an entry of the map points at a readable value,
  and how the map grows when a record is appended. \<open>agree t ix m\<close> relates an index to the
  map of its log: they give the same entry for a key unless both sides are absent or expired
  at \<open>t\<close>, the time of the last compaction, which drops expired records from the log but
  keeps their entries.
\<close>

definition replay_rec :: "nat \<Rightarrow> lrec \<Rightarrow> (bytes \<Rightarrow> entry option) \<Rightarrow> (bytes \<Rightarrow> entry option)" where
  "replay_rec pos r m =
     (if is_tomb r then m(lkey r := None)
      else m(lkey r \<mapsto> mk_entry (lkey r) pos (length (lval r)) (lts r) (lttl r)))"

fun replay :: "nat \<Rightarrow> lrec list \<Rightarrow> (bytes \<Rightarrow> entry option) \<Rightarrow> (bytes \<Rightarrow> entry option)" where
  "replay pos [] m = m"
| "replay pos (r # rs) m = replay (pos + rlen r) rs (replay_rec pos r m)"

lemma log_bytes_Nil [simp]: "log_bytes [] = []"
  by (simp add: log_bytes_def)

lemma log_bytes_Cons [simp]: "log_bytes (r # rs) = enc_rec r @ log_bytes rs"
  by (simp add: log_bytes_def)

lemma replay_append:
  "replay pos (rs @ rs') m = replay (pos + length (log_bytes rs)) rs' (replay pos rs m)"
  by (induction rs arbitrary: pos m) (simp_all add: add.assoc)

lemma replay_other: "k \<notin> lkey ` set rs \<Longrightarrow> replay pos rs m k = m k"
  by (induction rs arbitrary: pos m) (auto simp: replay_rec_def)

lemma replay_touched: "k \<in> lkey ` set rs \<Longrightarrow> replay pos rs m k = replay pos rs m' k"
proof (induction rs arbitrary: pos m m')
  case (Cons r rs)
  show ?case
  proof (cases "k \<in> lkey ` set rs")
    case False
    then show ?thesis using Cons.prems by (auto simp: replay_other replay_rec_def)
  qed (simp add: Cons.IH [of "pos + rlen r" "replay_rec pos r m" "replay_rec pos r m'"])
qed simp

text \<open>Every entry of the replayed map stems from a record of the log, at its offset.\<close>

lemma replay_source:
  "replay (length (log_bytes pre)) rs m k = Some e \<Longrightarrow> m k \<noteq> Some e \<Longrightarrow>
   \<exists>xs r ys. pre @ rs = xs @ r # ys \<and> lkey r = k \<and> \<not> is_tomb r \<and>
     e = mk_entry k (length (log_bytes xs)) (length (lval r)) (lts r) (lttl r)"
proof (induction rs arbitrary: pre m)
  case (Cons r rs)
  let ?m = "replay_rec (length (log_bytes pre)) r m"
  have step: "replay (length (log_bytes (pre @ [r]))) rs ?m k = Some e"
    using Cons.prems by (simp add: log_bytes_append)
  show ?case
  proof (cases "?m k = Some e")
    case True
    then have "lkey r = k \<and> \<not> is_tomb r \<and> e = mk_entry k (length (log_bytes pre)) (length (lval r)) (lts r) (lttl r)"
      using Cons.prems by (auto simp: replay_rec_def split: if_split_asm)
    then show ?thesis by blast
  next
    case False
    from Cons.IH [OF step this] show ?thesis by simp
  qed
qed simp

lemma read_val_of_log:
  assumes "img = log_bytes xs @ enc_rec r @ tail"
  shows "read_val img (mk_entry (lkey r) (length (log_bytes xs)) (length (lval r)) ts ttl) = Some (lval r)"
proof -
  have "pread img (length (log_bytes xs) + HDR_SIZE + length (lkey r)) (length (lval r)) = lval r"
    using pread_mid [of "lval r" "length (lval r)" "log_bytes xs @ enc_hdr r @ lkey r" tail] assms
    by (simp add: enc_rec_def add.assoc)
  then show ?thesis by (simp add: read_val_def Let_def)
qed

lemma replay_readable:
  assumes "replay 0 rs Map.empty k = Some e"
  shows "\<exists>r \<in> set rs. lkey r = k \<and> \<not> is_tomb r \<and> ekey e = k \<and>
    ets e = lts r \<and> eexp e = (if lttl r \<noteq> 0 then lts r + lttl r else 0) \<and>
    read_val (log_bytes rs @ tail) e = Some (lval r)"
proof -
  obtain xs r ys where *: "rs = xs @ r # ys" "lkey r = k" "\<not> is_tomb r"
      "e = mk_entry k (length (log_bytes xs)) (length (lval r)) (lts r) (lttl r)"
    using replay_source [of "[]" rs Map.empty k e] assms by auto
  have "read_val (log_bytes rs @ tail) e = Some (lval r)"
    using read_val_of_log [of _ xs r "log_bytes ys @ tail" "lts r" "lttl r"] * by (simp add: log_bytes_append)
  moreover have "eexp e = (if lttl r \<noteq> 0 then lts r + lttl r else 0)" using * by (simp add: mk_entry_def)
  ultimately show ?thesis using * by (intro bexI [of _ r]) auto
qed

subsection \<open>Loading computes the replayed map\<close>

lemma apply_rec_index:
  assumes "index_ok (sidx s)"
  shows "index_ok (sidx (apply_rec s pos r))"
    and "find_slot (sidx (apply_rec s pos r)) = replay_rec pos r (find_slot (sidx s))"
  using assms
  by (auto simp: apply_rec_def replay_rec_def fun_eq_iff find_slot_upsert index_ok_upsert find_slot_del
      index_ok_del split: option.split prod.split)
     (metis fst_conv find_slot_upsert index_ok_upsert)+

lemma load_loop_placed:
  assumes "index_ok (sidx s)" "\<forall>r \<in> set rs. rec_ok r"
    and "simg s = log_bytes pre @ log_bytes rs @ tail"
    and "rec_at (simg s) (ssize s) (length (log_bytes pre) + length (log_bytes rs)) = None"
    and "length (log_bytes pre) + length (log_bytes rs) \<le> ssize s"
  shows "\<exists>s'. load_loop s (length (log_bytes pre)) = (s', length (log_bytes pre) + length (log_bytes rs)) \<and>
    index_ok (sidx s') \<and> find_slot (sidx s') = replay (length (log_bytes pre)) rs (find_slot (sidx s)) \<and>
    simg s' = simg s \<and> ssize s' = ssize s \<and> skix s' = skix s \<and> skix_dirty s' = skix_dirty s"
  using assms
proof (induction rs arbitrary: s pre)
  case Nil
  then show ?case by (simp add: load_loop.simps)
next
  case (Cons r rs)
  let ?p = "length (log_bytes pre)" and ?s = "apply_rec s (length (log_bytes pre)) r"
  have "rec_at (simg s) (ssize s) ?p = Some r"
    using Cons.prems rec_at_enc [of r "log_bytes pre" "ssize s" "log_bytes rs @ tail"] by simp
  then have step: "load_loop s ?p = load_loop ?s (?p + rlen r)" by (simp add: load_loop.simps)
  have p': "?p + rlen r = length (log_bytes (pre @ [r]))" by (simp add: log_bytes_append)
  have "\<exists>s'. load_loop ?s (length (log_bytes (pre @ [r]))) =
      (s', length (log_bytes (pre @ [r])) + length (log_bytes rs)) \<and>
    index_ok (sidx s') \<and>
    find_slot (sidx s') = replay (length (log_bytes (pre @ [r]))) rs (find_slot (sidx ?s)) \<and>
    simg s' = simg ?s \<and> ssize s' = ssize ?s \<and> skix s' = skix ?s \<and> skix_dirty s' = skix_dirty ?s"
    using Cons.prems by (intro Cons.IH) (simp_all add: apply_rec_index log_bytes_append add.assoc)
  then show ?case
    unfolding step p' using Cons.prems by (simp add: apply_rec_index log_bytes_append add.assoc)
qed

text \<open>
  Loading a log that is a sequence of good records followed by bytes that are not a record:
  the index is the replayed map, and the file is cut back to the good records.
\<close>

lemma store_load_log:
  assumes ok: "index_ok (sidx s)" "find_slot (sidx s) = Map.empty" "\<forall>r \<in> set rs. rec_ok r"
    and img: "simg s = log_bytes rs @ tail"
    and bad: "rec_at (simg s) (length (simg s)) (length (log_bytes rs)) = None"
  shows "index_ok (sidx (store_load s True))"
    and "find_slot (sidx (store_load s True)) = replay 0 rs Map.empty"
    and "simg (store_load s True) = log_bytes rs"
    and "ssize (store_load s True) = length (log_bytes rs)"
    and "skix_dirty (store_load s True)"
proof -
  let ?s1 = "s\<lparr>svecs := [], skix_dirty := True, ssize := length (simg s)\<rparr>"
  obtain s' where *: "load_loop ?s1 0 = (s', length (log_bytes rs))"
      "index_ok (sidx s')" "find_slot (sidx s') = replay 0 rs (find_slot (sidx s))"
      "simg s' = simg s" "ssize s' = length (simg s)" "skix_dirty s'"
    using load_loop_placed [of ?s1 rs "[]" tail] assms by auto
  then show "index_ok (sidx (store_load s True))"
    and "find_slot (sidx (store_load s True)) = replay 0 rs Map.empty"
    and "simg (store_load s True) = log_bytes rs"
    and "ssize (store_load s True) = length (log_bytes rs)"
    and "skix_dirty (store_load s True)"
    using ok(2) img by (auto simp: store_load_def Let_def)
qed

subsection \<open>Agreement of index and log\<close>

definition stale :: "int \<Rightarrow> entry option \<Rightarrow> bool" where
  "stale t x = (case x of None \<Rightarrow> True | Some e \<Rightarrow> expired t e)"

definition agree :: "int \<Rightarrow> hindex \<Rightarrow> (bytes \<Rightarrow> entry option) \<Rightarrow> bool" where
  "agree t ix m \<longleftrightarrow> (\<forall>k. find_slot ix k = m k \<or> (stale t (find_slot ix k) \<and> stale t (m k)))"

lemma expired_mono: "expired t e \<Longrightarrow> t \<le> u \<Longrightarrow> expired u e"
  by (auto simp: expired_def)

lemma stale_mono: "stale t x \<Longrightarrow> t \<le> u \<Longrightarrow> stale u x"
  by (auto simp: stale_def expired_mono split: option.split_asm)

lemma agree_mono: "agree t ix m \<Longrightarrow> t \<le> u \<Longrightarrow> agree u ix m"
  unfolding agree_def by (meson stale_mono)

lemma agree_live: "agree t ix m \<Longrightarrow> find_slot ix k = Some e \<Longrightarrow> \<not> expired t e \<Longrightarrow> m k = Some e"
  unfolding agree_def stale_def by (metis option.simps(5))

lemma agree_put:
  "agree t ix m \<Longrightarrow> find_slot ix' = (find_slot ix)(k := x) \<Longrightarrow> agree t ix' (m(k := x))"
  by (auto simp: agree_def)

lemma agree_refl: "find_slot ix = m \<Longrightarrow> agree t ix m"
  by (simp add: agree_def)

text \<open>The store invariant: the log is a sequence of good records, and the index agrees with it.\<close>

definition store_inv :: "int \<Rightarrow> lrec list \<Rightarrow> store \<Rightarrow> bool" where
  "store_inv t rs s \<longleftrightarrow>
     index_ok (sidx s) \<and> (\<forall>r \<in> set rs. rec_ok r) \<and>
     ssize s = length (log_bytes rs) \<and> take (ssize s) (simg s) = log_bytes rs \<and>
     agree t (sidx s) (replay 0 rs Map.empty)"

text \<open>The abstract store: live keys with value, write time and expiry.\<close>

definition view :: "store \<Rightarrow> int \<Rightarrow> bytes \<Rightarrow> (bytes \<times> int \<times> int) option" where
  "view s now k =
     (case find_slot (sidx s) k of
        None \<Rightarrow> None
      | Some e \<Rightarrow> if expired now e then None
                  else map_option (\<lambda>v. (v, ets e, eexp e)) (read_val (simg s) e))"

text \<open>The abstract meaning of a log, without offsets.\<close>

definition live_rec :: "int \<Rightarrow> lrec \<Rightarrow> (bytes \<times> int \<times> int) option" where
  "live_rec now r =
     (let ex = (if lttl r \<noteq> 0 then lts r + lttl r else 0)
      in if is_tomb r \<or> (ex \<noteq> 0 \<and> now > ex) then None else Some (lval r, lts r, ex))"

fun log_view :: "lrec list \<Rightarrow> int \<Rightarrow> bytes \<Rightarrow> (bytes \<times> int \<times> int) option" where
  "log_view [] now k = None"
| "log_view (r # rs) now k =
     (if k \<in> lkey ` set rs then log_view rs now k
      else if lkey r = k then live_rec now r else None)"

lemma log_view_other: "k \<notin> lkey ` set rs \<Longrightarrow> log_view rs now k = None"
  by (induction rs) auto

lemma log_view_snoc:
  "log_view (rs @ [r]) now = (log_view rs now)(lkey r := live_rec now r)"
proof (induction rs)
  case (Cons x rs)
  then show ?case by (auto simp: fun_eq_iff log_view_other)
qed (simp add: fun_eq_iff)

lemma log_view_append_other: "k \<notin> lkey ` set rs' \<Longrightarrow> log_view (rs @ rs') now k = log_view rs now k"
  by (induction rs) (auto simp: log_view_other)

lemma replay_log_view:
  "log_view rs now k =
    (case replay 0 rs Map.empty k of
       None \<Rightarrow> None
     | Some e \<Rightarrow> if expired now e then None
                 else map_option (\<lambda>v. (v, ets e, eexp e)) (read_val (log_bytes rs @ tail) e))"
proof (induction rs arbitrary: tail rule: rev_induct)
  case (snoc r rs)
  let ?e = "mk_entry (lkey r) (length (log_bytes rs)) (length (lval r)) (lts r) (lttl r)"
  have rv: "read_val (log_bytes rs @ enc_rec r @ tail) ?e = Some (lval r)" by (rule read_val_of_log) simp
  have ee: "eexp ?e = (if lttl r \<noteq> 0 then lts r + lttl r else 0)" by (simp add: mk_entry_def)
  show ?case
  proof (cases "k = lkey r")
    case True
    then show ?thesis
      using rv ee by (auto simp: log_view_snoc replay_append replay_rec_def live_rec_def log_bytes_append
          expired_def Let_def)
  next
    case False
    have img: "log_bytes (rs @ [r]) @ tail = log_bytes rs @ enc_rec r @ tail"
      by (simp add: log_bytes_append)
    show ?thesis
      using snoc [of "enc_rec r @ tail"] False unfolding img
      by (simp add: log_view_snoc replay_append replay_rec_def)
  qed
qed simp

text \<open>Under the invariant, and from the last compaction on, the store shows what its log means.\<close>

lemma view_log:
  assumes inv: "store_inv t rs s" and now: "t \<le> now"
  shows "view s now = log_view rs now"
proof
  fix k
  obtain tail where img: "simg s = log_bytes rs @ tail"
    using inv by (metis append_take_drop_id store_inv_def)
  have a: "agree now (sidx s) (replay 0 rs Map.empty)"
    using inv now agree_mono unfolding store_inv_def by blast
  then consider "find_slot (sidx s) k = replay 0 rs Map.empty k"
    | "stale now (find_slot (sidx s) k)" "stale now (replay 0 rs Map.empty k)"
    unfolding agree_def by blast
  then show "view s now k = log_view rs now k"
  proof cases
    case 1
    then show ?thesis unfolding view_def replay_log_view [of rs now k tail] img by simp
  next
    case 2
    then show ?thesis
      unfolding view_def replay_log_view [of rs now k tail] by (auto simp: stale_def split: option.splits)
  qed
qed

end
