(* ===== verification/Exo_Store_Inv.thy ===== *)
theory Exo_Store_Inv
  imports Exo_Replay
begin

text \<open>
  Every operation of the store keeps its invariant and changes the abstract map the way its
  name says. The first part is about single writes at the end of the log, also torn ones; the
  second about compaction; the third has one lemma per operation.
\<close>

subsection \<open>Writes\<close>

lemma pwrite_pwrite:
  "off \<le> length img \<Longrightarrow> pwrite (pwrite img off a) (off + length a) b = pwrite img off (a @ b)"
  by (simp add: pwrite_def ac_simps min_def)

lemma pwrite_Nil: "off \<le> length img \<Longrightarrow> pwrite img off [] = img"
  by (simp add: pwrite_def)

lemma length_pwrite_ge: "off \<le> length img \<Longrightarrow> off + length bs \<le> length (pwrite img off bs)"
  by (simp add: pwrite_def)

lemma take_pwrite: "off \<le> length img \<Longrightarrow> take off (pwrite img off bs) = take off img"
  by (simp add: pwrite_def)

lemma take_pwrite_full:
  "off \<le> length img \<Longrightarrow> take (off + length bs) (pwrite img off bs) = take off img @ bs"
  by (simp add: pwrite_def)

lemma dev_write_pwrite:
  "dev_write img off bs bud =
    (if case bud of None \<Rightarrow> True | Some k \<Rightarrow> length bs \<le> k
     then (pwrite img off bs, True, map_option (\<lambda>k. k - length bs) bud)
     else (pwrite img off (take (the bud) bs), False, Some 0))"
  by (simp add: dev_write_def split: option.split)

definition fits :: "nat option \<Rightarrow> nat \<Rightarrow> bool" where
  "fits bud n \<longleftrightarrow> (case bud of None \<Rightarrow> True | Some k \<Rightarrow> n \<le> k)"

lemma write_rec_at_eq:
  assumes pos: "pos \<le> length img"
  shows "write_rec_at img pos r bud =
    (if fits bud (rlen r) then (pwrite img pos (enc_rec r), pos + rlen r, True)
     else (pwrite img pos (take (the bud) (enc_rec r)), pos, False))"
proof -
  let ?h = "enc_hdr r" and ?k = "lkey r" and ?v = "lval r"
  have 1: "pwrite (pwrite img pos ?h) (pos + HDR_SIZE) bs = pwrite img pos (?h @ bs)" for bs
    using pwrite_pwrite [OF pos, of ?h bs] by simp
  have 2: "pwrite (pwrite img pos (?h @ ?k)) (pos + HDR_SIZE + length ?k) bs = pwrite img pos (?h @ ?k @ bs)" for bs
    using pwrite_pwrite [OF pos, of "?h @ ?k" bs] by (simp add: add.assoc)
  show ?thesis
  proof (cases bud)
    case None
    then show ?thesis
      using 2 [of "?v"] by (auto simp: write_rec_at_def Let_def dev_write_pwrite fits_def 1 2 enc_rec_def rlen_def add.assoc)
  next
    case (Some n)
    consider "n < HDR_SIZE" | "HDR_SIZE \<le> n" "n < HDR_SIZE + length ?k"
      | "HDR_SIZE + length ?k \<le> n" "n < rlen r" | "rlen r \<le> n" unfolding rlen_def by linarith
    then show ?thesis
    proof cases
      case 1
      then show ?thesis using Some
        by (simp add: write_rec_at_def Let_def dev_write_pwrite fits_def enc_rec_def rlen_def)
    next
      case 2
      then have "?k \<noteq> []" by auto
      then show ?thesis using Some 2 \<open>\<And>bs. pwrite (pwrite img pos ?h) (pos + HDR_SIZE) bs = pwrite img pos (?h @ bs)\<close>
        by (auto simp: write_rec_at_def Let_def dev_write_pwrite fits_def enc_rec_def rlen_def)
    next
      case 3
      then have "?v \<noteq> []" by (auto simp: rlen_def)
      then show ?thesis using Some 3 1 2
        by (auto simp: write_rec_at_def Let_def dev_write_pwrite fits_def enc_rec_def rlen_def)
    next
      case 4
      then show ?thesis using Some 1 2
        by (auto simp: write_rec_at_def Let_def dev_write_pwrite fits_def enc_rec_def rlen_def add.assoc)
    qed
  qed
qed

lemma store_inv_len: "store_inv t rs s \<Longrightarrow> ssize s \<le> length (simg s)"
  unfolding store_inv_def by (metis length_take min.cobounded1 min.commute)

text \<open>Appending a record: what each writing operation has to show.\<close>

lemma store_inv_snoc:
  assumes inv: "store_inv t rs s" and r: "rec_ok r"
    and ix: "index_ok (sidx s')" "find_slot (sidx s') = replay_rec (ssize s) r (find_slot (sidx s))"
    and sz: "ssize s' = ssize s + rlen r"
    and img: "take (ssize s') (simg s') = take (ssize s) (simg s) @ enc_rec r"
  shows "store_inv t (rs @ [r]) s'"
proof -
  have "agree t (sidx s') (replay 0 (rs @ [r]) Map.empty)"
    using inv ix(2) by (auto simp: store_inv_def agree_def replay_append replay_rec_def)
  moreover have "take (ssize s) (simg s) = log_bytes rs" "ssize s = length (log_bytes rs)"
    using inv unfolding store_inv_def by blast+
  then have "take (ssize s') (simg s') = log_bytes (rs @ [r])" "ssize s' = length (log_bytes (rs @ [r]))"
    using img sz by (simp_all add: log_bytes_append)
  ultimately show ?thesis
    using inv r ix(1) by (simp add: store_inv_def)
qed

subsection \<open>Compaction\<close>

definition compact_recs :: "bytes \<Rightarrow> int \<Rightarrow> entry list \<Rightarrow> lrec list" where
  "compact_recs img now es =
     map (\<lambda>e. compact_rec e (the (read_val img e))) (filter (\<lambda>e. \<not> expired now e) es)"

text \<open>What compaction needs of a live entry: its value can be read and makes a valid record.\<close>

definition readable :: "bytes \<Rightarrow> entry \<Rightarrow> bool" where
  "readable img e \<longleftrightarrow> (eexp e \<noteq> 0 \<longrightarrow> eexp e \<noteq> ets e) \<and>
     (\<exists>v. read_val img e = Some v \<and> rec_ok (compact_rec e v))"

lemma read_val_length: "read_val img e = Some v \<Longrightarrow> length v = evsize e"
  by (auto simp: read_val_def Let_def split: if_split_asm)

lemma compact_recs_keys: "lkey ` set (compact_recs img now es) \<subseteq> ekey ` set es"
  by (auto simp: compact_recs_def compact_rec_def)

lemma replay_compact_rec:
  assumes "readable img e"
  shows "replay_rec pos (compact_rec e (the (read_val img e))) m = m(ekey e \<mapsto> e\<lparr>eoff := pos\<rparr>)"
  using assms read_val_length [of img e]
  by (cases e) (auto simp: replay_rec_def compact_rec_def is_tomb_def FLAG_TOMB_def mk_entry_def readable_def)

lemma compact_chain_healthy:
  assumes "\<forall>e \<in> set es. \<not> expired now e \<longrightarrow> readable img e" "distinct (map ekey es)"
  shows "\<exists>es' n'. compact_chain img now (\<lambda>_. None) es (log_bytes rs0, length (log_bytes rs0), n) =
      (es', (log_bytes (rs0 @ compact_recs img now es), length (log_bytes (rs0 @ compact_recs img now es)), n')) \<and>
    map ekey es' = map ekey es \<and>
    (\<forall>k. chain_find k es' =
      (case chain_find k es of
         None \<Rightarrow> None
       | Some e \<Rightarrow> if expired now e then Some e
                   else replay (length (log_bytes rs0)) (compact_recs img now es) Map.empty k))"
  using assms
proof (induction es arbitrary: rs0 n)
  case Nil
  then show ?case by (simp add: compact_recs_def)
next
  case (Cons e es)
  show ?case
  proof (cases "expired now e")
    case True
    then have recs: "compact_recs img now (e # es) = compact_recs img now es" by (simp add: compact_recs_def)
    obtain es' n' where ih: "compact_chain img now (\<lambda>_. None) es (log_bytes rs0, length (log_bytes rs0), n) =
        (es', (log_bytes (rs0 @ compact_recs img now es), length (log_bytes (rs0 @ compact_recs img now es)), n'))"
      "map ekey es' = map ekey es"
      "\<forall>k. chain_find k es' = (case chain_find k es of None \<Rightarrow> None
        | Some e \<Rightarrow> if expired now e then Some e
                    else replay (length (log_bytes rs0)) (compact_recs img now es) Map.empty k)"
      using Cons.IH [of rs0 n] Cons.prems by auto
    show ?thesis unfolding recs using ih True by simp
  next
    case False
    then have rd: "readable img e" using Cons.prems by simp
    then obtain v where v: "read_val img e = Some v" "rec_ok (compact_rec e v)" by (auto simp: readable_def)
    let ?r = "compact_rec e v" and ?p = "length (log_bytes rs0)"
    have recs: "compact_recs img now (e # es) = ?r # compact_recs img now es"
      using False v by (simp add: compact_recs_def)
    have w: "write_rec_at (log_bytes rs0) ?p ?r None = (log_bytes (rs0 @ [?r]), length (log_bytes (rs0 @ [?r])), True)"
      by (simp add: write_rec_ok log_bytes_append)
    obtain es' n' where ih: "compact_chain img now (\<lambda>_. None) es
          (log_bytes (rs0 @ [?r]), length (log_bytes (rs0 @ [?r])), Suc n) =
        (es', (log_bytes ((rs0 @ [?r]) @ compact_recs img now es),
               length (log_bytes ((rs0 @ [?r]) @ compact_recs img now es)), n'))"
      "map ekey es' = map ekey es"
      "\<forall>k. chain_find k es' = (case chain_find k es of None \<Rightarrow> None
        | Some e \<Rightarrow> if expired now e then Some e
                    else replay (length (log_bytes (rs0 @ [?r]))) (compact_recs img now es) Map.empty k)"
      using Cons.IH [of "rs0 @ [?r]" "Suc n"] Cons.prems by auto
    have nk: "ekey e \<notin> lkey ` set (compact_recs img now es)"
      using compact_recs_keys [of img now es] Cons.prems(2) by auto
    have rr: "replay_rec ?p ?r Map.empty = [ekey e \<mapsto> e\<lparr>eoff := ?p\<rparr>]"
      using replay_compact_rec [OF rd] v by simp
    have rep: "replay ?p (?r # compact_recs img now es) Map.empty k =
        (if k = ekey e then Some (e\<lparr>eoff := ?p\<rparr>)
         else replay (length (log_bytes (rs0 @ [?r]))) (compact_recs img now es) Map.empty k)" for k
    proof (cases "k \<in> lkey ` set (compact_recs img now es)")
      case True
      then have "k \<noteq> ekey e" using nk by metis
      then show ?thesis
        using replay_touched [OF True, of "?p + rlen ?r" "replay_rec ?p ?r Map.empty" Map.empty]
        by (simp add: log_bytes_append)
    next
      case False
      then show ?thesis by (simp add: replay_other rr)
    qed
    have cf: "chain_find k es' = None" if "k = ekey e" for k
      using that ih(2) Cons.prems(2) by (simp add: chain_find_None) (metis image_set list.set_map)
    have "compact_chain img now (\<lambda>_. None) (e # es) (log_bytes rs0, ?p, n) =
        (e\<lparr>eoff := ?p\<rparr> # es', (log_bytes ((rs0 @ [?r]) @ compact_recs img now es),
               length (log_bytes ((rs0 @ [?r]) @ compact_recs img now es)), n'))"
      using v False by (simp add: w ih(1))
    moreover have "chain_find k (e\<lparr>eoff := ?p\<rparr> # es') = (case chain_find k (e # es) of None \<Rightarrow> None
        | Some e \<Rightarrow> if expired now e then Some e
                    else replay ?p (?r # compact_recs img now es) Map.empty k)" for k
      using ih(3) False rep [of k] cf [of k] by (simp split: option.split)
    ultimately show ?thesis
      unfolding recs using ih(2) by simp
  qed
qed

lemma compact_chain_append:
  "compact_chain img now bud (xs @ ys) st =
    (let (xs', st1) = compact_chain img now bud xs st; (ys', st2) = compact_chain img now bud ys st1
     in (xs' @ ys', st2))"
proof (induction xs arbitrary: st)
  case (Cons e xs)
  obtain tmp pos n where st: "st = (tmp, pos, n)" by (cases st)
  show ?case
  proof (cases "expired now e")
    case False
    then show ?thesis
      using Cons st by (cases "read_val img e") (simp_all add: Let_def split_beta)
  qed (simp add: Cons st Let_def split_beta)
qed (simp add: Let_def)

lemma compact_chain_keys: "map ekey (fst (compact_chain img now bud es st)) = map ekey es"
proof (induction es arbitrary: st)
  case (Cons e es)
  obtain tmp pos n where st: "st = (tmp, pos, n)" by (cases st)
  show ?case
  proof (cases "expired now e")
    case False
    then show ?thesis
      using Cons st by (cases "read_val img e") (simp_all add: Let_def split_beta)
  qed (simp add: Cons st Let_def split_beta)
qed simp

lemma compact_buckets_chain:
  "compact_chain img now bud (concat bs) st =
    (concat (fst (compact_buckets img now bud bs st)), snd (compact_buckets img now bud bs st))"
  by (induction bs arbitrary: st) (simp_all add: Let_def compact_chain_append split_beta)

lemma compact_buckets_keys:
  "map (map ekey) (fst (compact_buckets img now bud bs st)) = map (map ekey) bs"
  by (induction bs arbitrary: st) (simp_all add: Let_def compact_chain_keys split_beta)

lemma index_ok_cong:
  assumes keys: "map (map ekey) bs = map (map ekey) (buckets ix)" and ok: "index_ok ix"
  shows "index_ok (ix\<lparr>buckets := bs\<rparr>)"
proof -
  have len: "length bs = length (buckets ix)" using arg_cong [OF keys, of length] by simp
  have b: "map ekey (bs ! i) = map ekey (buckets ix ! i)" if "i < length bs" for i
    using keys that len by (metis nth_map)
  have k: "ekey ` set (bs ! i) = ekey ` set (buckets ix ! i)" if "i < length bs" for i
    using b [OF that] by (metis list.set_map)
  have "map length bs = map length (buckets ix)"
    using arg_cong [OF keys, of "map length"] by (simp add: comp_def)
  then have "length (concat bs) = length (concat (buckets ix))" by (simp add: length_concat)
  moreover have "bs \<noteq> []" using ok len by (auto simp: index_ok_def)
  moreover have "bucket_of (length bs) (ekey e) = i" if "i < length bs" "e \<in> set (bs ! i)" for i e
  proof -
    have "ekey e \<in> ekey ` set (buckets ix ! i)" using that k by blast
    then show ?thesis using ok len that by (auto simp: index_ok_def)
  qed
  ultimately show ?thesis using ok len b by (auto simp: index_ok_def)
qed

lemma log_view_find:
  "distinct (map lkey rs) \<Longrightarrow>
   log_view rs now k = (case find (\<lambda>r. lkey r = k) rs of None \<Rightarrow> None | Some r \<Rightarrow> live_rec now r)"
  by (induction rs) (auto simp: log_view_other)

lemma find_compact_recs:
  assumes "distinct (map ekey es)"
  shows "find (\<lambda>r. lkey r = k) (compact_recs img now es) =
    (case chain_find k es of
       None \<Rightarrow> None
     | Some e \<Rightarrow> if expired now e then None else Some (compact_rec e (the (read_val img e))))"
  using assms
proof (induction es)
  case (Cons e es)
  have "ekey e \<notin> lkey ` set (compact_recs img now es)"
    using Cons.prems compact_recs_keys [of img now es] by auto
  then have "find (\<lambda>r. lkey r = ekey e) (compact_recs img now es) = None"
    unfolding find_None_iff by (metis imageI)
  moreover have "lkey (compact_rec e v) = ekey e" for v by (simp add: compact_rec_def)
  ultimately show ?case using Cons by (auto simp: compact_recs_def)
qed (simp add: compact_recs_def)

lemma live_compact_rec:
  assumes "readable img e" "\<not> expired now e" "now \<le> u"
  shows "live_rec u (compact_rec e v) = (if expired u e then None else Some (v, ets e, eexp e))"
  using assms by (auto simp: live_rec_def compact_rec_def is_tomb_def FLAG_TOMB_def Let_def expired_def readable_def)

definition compact_fine :: "world \<Rightarrow> bool" where
  "compact_fine w \<longleftrightarrow> w_twrite w = (\<lambda>_. None) \<and> w_rename w"

lemma rec_ok_compact:
  assumes "r \<in> set rs" "\<forall>r \<in> set rs. rec_ok r" "ekey e = lkey r" "ets e = lts r"
    "eexp e = (if lttl r \<noteq> 0 then lts r + lttl r else 0)"
  shows "rec_ok (compact_rec e (lval r)) \<and> (eexp e \<noteq> 0 \<longrightarrow> eexp e \<noteq> ets e)"
  using assms by (auto simp: rec_ok_def compact_rec_def int64_def)

lemma live_readable:
  assumes inv: "store_inv t rs s" and now: "t \<le> now"
    and e: "e \<in> set (entries (sidx s))" "\<not> expired now e"
  shows "readable (simg s) e"
proof -
  obtain tail where img: "simg s = log_bytes rs @ tail"
    using inv by (metis append_take_drop_id store_inv_def)
  have "find_slot (sidx s) (ekey e) = Some e"
    using inv e entries_find unfolding store_inv_def by blast
  moreover have "\<not> expired t e" using e(2) now expired_mono by blast
  ultimately have "replay 0 rs Map.empty (ekey e) = Some e"
    using inv agree_live unfolding store_inv_def by blast
  then obtain r where r: "r \<in> set rs" "ekey e = lkey r" "ets e = lts r"
      "eexp e = (if lttl r \<noteq> 0 then lts r + lttl r else 0)" "read_val (simg s) e = Some (lval r)"
    using replay_readable [of rs "ekey e" e tail] img by auto
  then show ?thesis using rec_ok_compact [OF r(1) _ r(2-4)] inv by (auto simp: readable_def store_inv_def)
qed

lemma compact_inv:
  assumes inv: "store_inv t rs s" and now: "t \<le> w_cnow w" and fine: "compact_fine w"
  shows "\<exists>rs'. store_inv (w_cnow w) rs' (compact s w) \<and> (\<forall>u \<ge> w_cnow w. log_view rs' u = log_view rs u)"
proof (cases "w_topen w")
  case False
  then have "store_inv (w_cnow w) rs (compact s w)"
    using inv now agree_mono by (auto simp: compact_def store_inv_def)
  then show ?thesis by blast
next
  case True
  let ?now = "w_cnow w" and ?es = "entries (sidx s)" and ?img = "simg s"
  let ?recs = "compact_recs ?img ?now ?es"
  have ok: "index_ok (sidx s)" using inv by (simp add: store_inv_def)
  have d: "distinct (map ekey ?es)" by (rule index_ok_distinct [OF ok])
  have rd: "\<forall>e \<in> set ?es. \<not> expired ?now e \<longrightarrow> readable ?img e" using live_readable [OF inv now] by blast
  obtain es' n' where ch: "compact_chain ?img ?now (\<lambda>_. None) ?es ([], 0, 0) =
      (es', (log_bytes ?recs, length (log_bytes ?recs), n'))"
    and fnd0: "\<forall>k. chain_find k es' = (case chain_find k ?es of None \<Rightarrow> None
       | Some e \<Rightarrow> if expired ?now e then Some e
                   else replay (length (log_bytes [])) ?recs Map.empty k)"
    using compact_chain_healthy [OF rd d, of "[]" 0] unfolding append_Nil log_bytes_Nil list.size by blast
  have fnd: "chain_find k es' = (case chain_find k ?es of None \<Rightarrow> None
       | Some e \<Rightarrow> if expired ?now e then Some e else replay 0 ?recs Map.empty k)" for k
    using fnd0 by (simp split: option.split)
  obtain bs st where bs: "compact_buckets ?img ?now (\<lambda>_. None) (buckets (sidx s)) ([], 0, 0) = (bs, st)"
    by (rule prod.exhaust)
  have cb: "concat bs = es'" "st = (log_bytes ?recs, length (log_bytes ?recs), n')"
    using compact_buckets_chain [of ?img ?now "\<lambda>_. None" "buckets (sidx s)" "([], 0, 0)"] ch bs
    by (auto simp: entries_def)
  have keys: "map (map ekey) bs = map (map ekey) (buckets (sidx s))"
    using compact_buckets_keys [of ?img ?now "\<lambda>_. None" "buckets (sidx s)" "([], 0, 0)"] bs by simp
  let ?ix = "(sidx s)\<lparr>buckets := bs\<rparr>"
  have ok': "index_ok ?ix" by (rule index_ok_cong [OF keys ok])
  have fs: "find_slot ?ix k = (case find_slot (sidx s) k of None \<Rightarrow> None
       | Some e \<Rightarrow> if expired ?now e then Some e else replay 0 ?recs Map.empty k)" for k
    using fnd [of k] cb find_slot_entries [OF ok', of k] find_slot_entries [OF ok, of k]
    by (simp add: entries_def)
  have fnd2: "find (\<lambda>r. lkey r = k) ?recs = (case find_slot (sidx s) k of None \<Rightarrow> None
       | Some e \<Rightarrow> if expired ?now e then None else Some (compact_rec e (the (read_val ?img e))))" for k
    using find_compact_recs [OF d, of k] by (simp add: find_slot_entries [OF ok])
  have none: "replay 0 ?recs Map.empty k = None" if "find (\<lambda>r. lkey r = k) ?recs = None" for k
    using that by (subst replay_other) (auto simp: find_None_iff)
  have "agree ?now ?ix (replay 0 ?recs Map.empty)"
    unfolding agree_def
  proof
    fix k
    show "find_slot ?ix k = replay 0 ?recs Map.empty k \<or>
        stale ?now (find_slot ?ix k) \<and> stale ?now (replay 0 ?recs Map.empty k)"
      using fs [of k] fnd2 [of k] none [of k] by (auto simp: stale_def split: option.splits if_splits)
  qed
  moreover have "\<forall>r \<in> set ?recs. rec_ok r" using rd by (auto simp: compact_recs_def readable_def)
  moreover have c: "compact s w = s\<lparr>sidx := ?ix, simg := log_bytes ?recs, ssize := length (log_bytes ?recs), sdead := 0\<rparr>"
    using True fine bs cb by (simp add: compact_def compact_fine_def)
  ultimately have "store_inv ?now ?recs (compact s w)"
    using ok' by (simp add: store_inv_def)
  moreover have "log_view ?recs u = log_view rs u" if u: "?now \<le> u" for u
  proof
    fix k
    have "distinct (map lkey ?recs)"
    proof -
      have "map lkey ?recs = map ekey (filter (\<lambda>e. \<not> expired ?now e) ?es)"
        by (simp add: compact_recs_def compact_rec_def)
      then show ?thesis using d by (simp add: distinct_map_filter)
    qed
    then have "log_view ?recs u k = (case find_slot (sidx s) k of None \<Rightarrow> None
       | Some e \<Rightarrow> if expired ?now e then None else live_rec u (compact_rec e (the (read_val ?img e))))"
      by (simp add: log_view_find fnd2 split: option.split)
    also have "\<dots> = view s u k"
    proof (cases "find_slot (sidx s) k")
      case (Some e)
      then have "e \<in> set ?es" using find_slot_key entries_find [OF ok] by (metis (no_types))
      then show ?thesis
        using Some u rd live_compact_rec [of ?img e ?now u "the (read_val ?img e)"]
        by (auto simp: view_def readable_def dest: expired_mono)
    qed (simp add: view_def)
    also have "\<dots> = log_view rs u k" using view_log [OF inv, of u] now u by simp
    finally show "log_view ?recs u k = log_view rs u k" .
  qed
  ultimately show ?thesis by blast
qed

lemma maybe_compact_inv:
  assumes "store_inv t rs s" "t \<le> w_cnow w" "compact_fine w"
  shows "\<exists>rs'. store_inv (w_cnow w) rs' (maybe_compact s w) \<and> (\<forall>u \<ge> w_cnow w. log_view rs' u = log_view rs u)"
proof (cases "maybe_compact s w = s")
  case True
  then have "store_inv (w_cnow w) rs (maybe_compact s w)"
    using assms agree_mono by (auto simp: store_inv_def)
  then show ?thesis by blast
next
  case False
  then have "maybe_compact s w = compact s w" by (auto simp: maybe_compact_def split: if_split_asm)
  then show ?thesis using compact_inv [OF assms] by simp
qed

end
