(* ===== verification/Exo_Store_Ops.thy ===== *)
theory Exo_Store_Ops
  imports Exo_Store_Inv
begin

text \<open>
  One lemma per store operation: the invariant it keeps and the log it leaves, on success and
  on failure of the device; the auxiliary invariant of the prefix array and the vector index;
  and the refinement of the store by a plain map from keys to values with a write time and an
  expiry, over any sequence of operations with a clock that does not run backwards.
\<close>

subsection \<open>The log after each operation\<close>

definition set_value :: "store \<Rightarrow> bytes \<Rightarrow> bytes \<Rightarrow> bool \<Rightarrow> world \<Rightarrow> bytes" where
  "set_value s key val app w = (if app then merge_append s key val (w_now w) else val)"

definition set_rec :: "bytes \<Rightarrow> bytes \<Rightarrow> int \<Rightarrow> int \<Rightarrow> lrec" where
  "set_rec key val ttl_sec ts = \<lparr>lflags = 0, lts = ts, lttl = clamp_ttl ttl_sec * 1000, lkey = key, lval = val\<rparr>"

definition del_rec :: "bytes \<Rightarrow> int \<Rightarrow> lrec" where
  "del_rec key ts = \<lparr>lflags = FLAG_TOMB, lts = ts, lttl = 0, lkey = key, lval = []\<rparr>"

definition key_ok :: "bytes \<Rightarrow> bool" where
  "key_ok key \<longleftrightarrow> key \<noteq> [] \<and> length key \<le> MAX_KEY"

definition follows :: "lrec list \<Rightarrow> int \<Rightarrow> lrec list \<Rightarrow> bool" where
  "follows rs' t rs \<longleftrightarrow> (\<forall>u \<ge> t. log_view rs' u = log_view rs u)"

lemma clamp_ttl_bounds: "0 \<le> clamp_ttl ttl" "clamp_ttl ttl \<le> 315360000"
  by (auto simp: clamp_ttl_def)

lemma rec_ok_set:
  "key_ok key \<Longrightarrow> length val \<le> MAX_VAL \<Longrightarrow> int64 ts \<Longrightarrow> rec_ok (set_rec key val ttl ts)"
  using clamp_ttl_bounds [of ttl] by (simp add: key_ok_def rec_ok_def set_rec_def int64_def)

lemma rec_ok_del: "key_ok key \<Longrightarrow> int64 ts \<Longrightarrow> rec_ok (del_rec key ts)"
  by (simp add: key_ok_def rec_ok_def del_rec_def int64_def MAX_VAL_def)

lemma tomb_simps [simp]: "is_tomb (del_rec key ts)" "\<not> is_tomb (set_rec key val ttl ts)"
  by (simp_all add: is_tomb_def del_rec_def set_rec_def FLAG_TOMB_def)

lemma rlen_set [simp]: "rlen (set_rec key val ttl ts) = HDR_SIZE + length key + length val"
  by (simp add: rlen_def set_rec_def)

lemma rlen_del [simp]: "rlen (del_rec key ts) = HDR_SIZE + length key"
  by (simp add: rlen_def del_rec_def)

lemma take_write_rec:
  assumes "store_inv t rs s"
  shows "take (ssize s + rlen r) (pwrite (simg s) (ssize s) (enc_rec r)) = take (ssize s) (simg s) @ enc_rec r"
    and "take (ssize s) (pwrite (simg s) (ssize s) bs) = take (ssize s) (simg s)"
  using store_inv_len [OF assms] take_pwrite_full [of "ssize s" "simg s" "enc_rec r"]
  by (simp_all add: take_pwrite)

text \<open>A file is clean when it ends with the last record. Compaction writes clean files.\<close>

definition clean :: "store \<Rightarrow> bool" where
  "clean s \<longleftrightarrow> length (simg s) = ssize s"

lemma compact_clean:
  assumes "store_inv t rs s" "clean s" "t \<le> w_cnow w" "compact_fine w"
  shows "clean (maybe_compact s w)"
proof -
  obtain rs' where rs': "store_inv (w_cnow w) rs' (compact s w)" using compact_inv assms by blast
  have "clean (compact s w)"
  proof (cases "w_topen w")
    case True
    let ?es = "entries (sidx s)" and ?now = "w_cnow w"
    have ok: "index_ok (sidx s)" using assms(1) by (simp add: store_inv_def)
    have "\<forall>e \<in> set ?es. \<not> expired ?now e \<longrightarrow> readable (simg s) e"
      using live_readable assms by blast
    from compact_chain_healthy [OF this index_ok_distinct [OF ok], of "[]" 0]
    obtain es' n' where "compact_chain (simg s) ?now (\<lambda>_. None) ?es ([], 0, 0) =
      (es', (log_bytes (compact_recs (simg s) ?now ?es), length (log_bytes (compact_recs (simg s) ?now ?es)), n'))"
      unfolding append_Nil log_bytes_Nil list.size by blast
    then have "snd (compact_buckets (simg s) ?now (\<lambda>_. None) (buckets (sidx s)) ([], 0, 0)) =
      (log_bytes (compact_recs (simg s) ?now ?es), length (log_bytes (compact_recs (simg s) ?now ?es)), n')"
      using compact_buckets_chain [of "simg s" ?now "\<lambda>_. None" "buckets (sidx s)" "([], 0, 0)"]
      by (simp add: entries_def)
    then show ?thesis
      using True assms(4) by (simp add: compact_def compact_fine_def clean_def split_beta)
  qed (use assms(2) in \<open>simp add: compact_def\<close>)
  then show ?thesis using assms(2) by (simp add: maybe_compact_def)
qed

lemma length_pwrite_end: "off = length img \<Longrightarrow> length (pwrite img off bs) = off + length bs"
  by (simp add: pwrite_def)

lemma store_set_ok:
  assumes inv: "store_inv t rs s" and key: "key_ok key" and val: "length val \<le> MAX_VAL"
    and merged: "length (set_value s key val app w) \<le> MAX_VAL"
    and fit: "fits (w_write w) (HDR_SIZE + length key + length (set_value s key val app w))"
    and ts: "int64 (w_ts w)" and now: "t \<le> w_cnow w" and fine: "compact_fine w"
  shows "snd (store_set s key val ttl app w) = 0"
    and "\<exists>rs'. store_inv (w_cnow w) rs' (fst (store_set s key val ttl app w)) \<and>
      follows rs' (w_cnow w) (rs @ [set_rec key (set_value s key val app w) ttl (w_ts w)])"
    and "clean s \<Longrightarrow> clean (fst (store_set s key val ttl app w))"
proof -
  let ?v = "set_value s key val app w"
  let ?r = "set_rec key ?v ttl (w_ts w)"
  have chk: "\<not> (key = [] \<or> length key > MAX_KEY \<or> length val > MAX_VAL)"
    using key val by (auto simp: key_ok_def)
  have w: "write_rec_at (simg s) (ssize s) ?r (w_write w) =
      (pwrite (simg s) (ssize s) (enc_rec ?r), ssize s + rlen ?r, True)"
    using fit store_inv_len [OF inv] by (simp add: write_rec_at_eq)
  let ?u = "upsert (sidx s) key (ssize s) (length ?v) (w_ts w) (clamp_ttl ttl * 1000)"
  define s2 where "s2 = s\<lparr>simg := pwrite (simg s) (ssize s) (enc_rec ?r), ssize := ssize s + rlen ?r,
      sidx := fst ?u, sdead := sdead s + snd ?u,
      svecs := vec_index_add (svecs s) key ?v (if clamp_ttl ttl \<noteq> 0 then w_ts w + clamp_ttl ttl * 1000 else 0),
      skix := kix_insert (skix s) key, nwrites := nwrites s + 1\<rparr>"
  have eq: "store_set s key val ttl app w = (maybe_compact s2 w, 0)"
    using chk w unfolding store_set_def Let_def
    by (simp add: set_value_def [symmetric] set_rec_def s2_def split_beta)
  have ok: "index_ok (sidx s)" using inv by (simp add: store_inv_def)
  have inv2: "store_inv t (rs @ [?r]) s2"
  proof (rule store_inv_snoc [OF inv])
    show "rec_ok ?r" using key merged ts by (rule rec_ok_set)
    show "index_ok (sidx s2)" using ok by (simp add: s2_def index_ok_upsert)
    show "find_slot (sidx s2) = replay_rec (ssize s) ?r (find_slot (sidx s))"
      using hix.lookup_put [OF ok] by (simp add: s2_def replay_rec_def) (simp add: set_rec_def)
    show "take (ssize s2) (simg s2) = take (ssize s) (simg s) @ enc_rec ?r"
      using take_write_rec(1) [OF inv, of ?r] by (simp add: s2_def)
  qed (simp add: s2_def)
  from maybe_compact_inv [OF inv2 now fine]
  show "\<exists>rs'. store_inv (w_cnow w) rs' (fst (store_set s key val ttl app w)) \<and>
      follows rs' (w_cnow w) (rs @ [?r])"
    by (simp add: eq follows_def)
  show "snd (store_set s key val ttl app w) = 0" by (simp add: eq)
  show "clean (fst (store_set s key val ttl app w))" if "clean s"
    using compact_clean [OF inv2 _ now fine] that by (simp add: eq s2_def clean_def length_pwrite_end)
qed

text \<open>A set that does not fit on the device changes nothing that can be seen, now or later.\<close>

lemma store_set_fails:
  assumes inv: "store_inv t rs s" and key: "key_ok key" and val: "length val \<le> MAX_VAL"
    and full: "\<not> fits (w_write w) (HDR_SIZE + length key + length (set_value s key val app w))"
  shows "store_set s key val ttl app w =
    (s\<lparr>simg := pwrite (simg s) (ssize s)
        (take (the (w_write w)) (enc_rec (set_rec key (set_value s key val app w) ttl (w_ts w))))\<rparr>, -1)"
    and "store_inv t rs (fst (store_set s key val ttl app w))"
proof -
  let ?v = "set_value s key val app w"
  let ?r = "set_rec key ?v ttl (w_ts w)"
  have chk: "\<not> (key = [] \<or> length key > MAX_KEY \<or> length val > MAX_VAL)"
    using key val by (auto simp: key_ok_def)
  have w: "write_rec_at (simg s) (ssize s) ?r (w_write w) =
      (pwrite (simg s) (ssize s) (take (the (w_write w)) (enc_rec ?r)), ssize s, False)"
    using full store_inv_len [OF inv] by (simp add: write_rec_at_eq)
  show eq: "store_set s key val ttl app w =
    (s\<lparr>simg := pwrite (simg s) (ssize s) (take (the (w_write w)) (enc_rec ?r))\<rparr>, -1)"
    using chk w unfolding store_set_def Let_def
    by (simp add: set_value_def [symmetric] set_rec_def)
  show "store_inv t rs (fst (store_set s key val ttl app w))"
    unfolding eq using inv take_write_rec(2) [OF inv] by (auto simp: store_inv_def)
qed

lemma store_del_ok:
  assumes inv: "store_inv t rs s" and key: "key_ok key"
    and fit: "fits (w_write w) (HDR_SIZE + length key)"
    and ts: "int64 (w_ts w)" and now: "t \<le> w_cnow w" and fine: "compact_fine w"
  shows "snd (store_del s key w) =
      (case find_slot (sidx s) key of None \<Rightarrow> 0 | Some e \<Rightarrow> if expired (w_now w) e then 0 else 1)"
    and "\<exists>rs'. store_inv (w_cnow w) rs' (fst (store_del s key w)) \<and>
      follows rs' (w_cnow w) (rs @ [del_rec key (w_ts w)])"
    and "clean s \<Longrightarrow> clean (fst (store_del s key w))"
proof -
  let ?r = "del_rec key (w_ts w)"
  have chk: "\<not> (key = [] \<or> length key > MAX_KEY)" using key by (auto simp: key_ok_def)
  have w: "write_rec_at (simg s) (ssize s) ?r (w_write w) =
      (pwrite (simg s) (ssize s) (enc_rec ?r), ssize s + rlen ?r, True)"
    using fit store_inv_len [OF inv] by (simp add: write_rec_at_eq)
  define s2 where "s2 = (case find_slot (sidx s) key of None \<Rightarrow> s
      | Some e \<Rightarrow> s\<lparr>sdead := sdead s + rec_bytes e, sidx := del_entry (sidx s) key\<rparr>)
      \<lparr>svecs := vec_index_del (svecs s) key, skix := kix_remove (skix s) key,
       simg := pwrite (simg s) (ssize s) (enc_rec ?r), ssize := ssize s + rlen ?r, ndeletes := ndeletes s + 1\<rparr>"
  have eq: "store_del s key w = (maybe_compact s2 w,
      (case find_slot (sidx s) key of None \<Rightarrow> 0 | Some e \<Rightarrow> if expired (w_now w) e then 0 else 1))"
    using chk w unfolding store_del_def Let_def
    by (cases "find_slot (sidx s) key") (simp_all add: del_rec_def s2_def)
  have ok: "index_ok (sidx s)" using inv by (simp add: store_inv_def)
  have s2i: "sidx s2 = (if find_slot (sidx s) key = None then sidx s else del_entry (sidx s) key)"
    by (simp add: s2_def split: option.split)
  have inv2: "store_inv t (rs @ [?r]) s2"
  proof (rule store_inv_snoc [OF inv])
    show "rec_ok ?r" using key ts by (rule rec_ok_del)
    show "index_ok (sidx s2)" using ok by (simp add: s2i index_ok_del)
    show "find_slot (sidx s2) = replay_rec (ssize s) ?r (find_slot (sidx s))"
      using hix.lookup_del [OF ok, of key]
      by (auto simp: s2i replay_rec_def del_rec_def is_tomb_def FLAG_TOMB_def fun_eq_iff)
    show "take (ssize s2) (simg s2) = take (ssize s) (simg s) @ enc_rec ?r"
      using take_write_rec(1) [OF inv, of ?r] by (simp add: s2_def)
  qed (simp add: s2_def)
  from maybe_compact_inv [OF inv2 now fine]
  show "\<exists>rs'. store_inv (w_cnow w) rs' (fst (store_del s key w)) \<and> follows rs' (w_cnow w) (rs @ [?r])"
    by (simp add: eq follows_def)
  show "snd (store_del s key w) =
      (case find_slot (sidx s) key of None \<Rightarrow> 0 | Some e \<Rightarrow> if expired (w_now w) e then 0 else 1)"
    by (simp add: eq)
  show "clean (fst (store_del s key w))" if "clean s"
    using compact_clean [OF inv2 _ now fine] that by (simp add: eq s2_def clean_def length_pwrite_end)
qed

lemma store_get_view:
  "snd (store_get s key now) = map_option (\<lambda>(v, ts, ex). (v, ts)) (view s now key)"
  by (auto simp: store_get_def view_def map_option_case split: option.split)

lemma store_get_frame:
  "store_inv t rs (fst (store_get s key now)) = store_inv t rs s"
  "view (fst (store_get s key now)) = view s"
  by (auto simp: store_get_def store_inv_def view_def fun_eq_iff split: option.split)

subsection \<open>Files: open, restore, reset\<close>

lemma clean_img: "store_inv t rs s \<Longrightarrow> clean s \<Longrightarrow> simg s = log_bytes rs"
  by (metis clean_def order_refl store_inv_def take_all)

lemma store_load_inv:
  assumes "index_ok (sidx s)" "find_slot (sidx s) = Map.empty" "\<forall>r \<in> set rs. rec_ok r"
    and "simg s = log_bytes rs @ tail"
    and "rec_at (simg s) (length (simg s)) (length (log_bytes rs)) = None"
  shows "store_inv t rs (store_load s True)" and "clean (store_load s True)"
  using store_load_log [OF assms] assms(3) by (simp_all add: store_inv_def clean_def agree_refl)

lemma find_slot_no_entry:
  assumes ok: "index_ok ix" and none: "concat (buckets ix) = []"
  shows "find_slot ix k = None"
  unfolding find_slot_entries [OF ok] entries_def none by simp

lemma index_ok_cleared:
  "0 < n \<Longrightarrow> index_ok \<lparr>buckets = replicate n [], icount = 0\<rparr>"
  "0 < n \<Longrightarrow> find_slot \<lparr>buckets = replicate n [], icount = 0\<rparr> = Map.empty"
proof -
  show ok: "0 < n \<Longrightarrow> index_ok \<lparr>buckets = replicate n [], icount = 0\<rparr>"
    by (auto simp: index_ok_def length_concat sum_list_replicate)
  have "concat (replicate n []) = []" by (induction n) auto
  then show "0 < n \<Longrightarrow> find_slot \<lparr>buckets = replicate n [], icount = 0\<rparr> = Map.empty"
    using find_slot_no_entry [OF ok] by (auto simp: fun_eq_iff)
qed

text \<open>Opening a log with a rejected tail: the records before it survive, the tail is cut off.\<close>

lemma store_open_log:
  assumes "\<forall>r \<in> set rs. rec_ok r"
    and "rec_at (log_bytes rs @ tail) (length (log_bytes rs @ tail)) (length (log_bytes rs)) = None"
    and "w_trunc w"
  shows "store_inv t rs (store_open (log_bytes rs @ tail) w)" and "clean (store_open (log_bytes rs @ tail) w)"
  unfolding store_open_def using assms by (simp_all add: store_load_inv fun_eq_iff)

lemma store_open_clean:
  assumes "\<forall>r \<in> set rs. rec_ok r" "w_trunc w"
  shows "store_inv t rs (store_open (log_bytes rs) w)" and "clean (store_open (log_bytes rs) w)"
  using store_open_log(1) [of rs "[]" w t] store_open_log(2) [of rs "[]" w] assms by (simp_all add: rec_at_end)

lemma store_set_fails_reopen:
  assumes inv: "store_inv t rs s" and cl: "clean s" and key: "key_ok key" and val: "length val \<le> MAX_VAL"
    and len: "length (set_value s key val app w) < 2 ^ 32"
    and full: "\<not> fits (w_write w) (HDR_SIZE + length key + length (set_value s key val app w))"
  shows "snd (store_set s key val ttl app w) = -1 \<and>
    (\<forall>u \<ge> t. view (fst (store_set s key val ttl app w)) u = view s u) \<and>
    store_inv t rs (store_open (store_close (fst (store_set s key val ttl app w))) (healthy t'))"
proof -
  let ?r = "set_rec key (set_value s key val app w) ttl (w_ts w)" and ?k = "the (w_write w)"
  let ?s' = "fst (store_set s key val ttl app w)"
  note f = store_set_fails [OF inv key val full, of ttl]
  have eq: "?s' = s\<lparr>simg := pwrite (simg s) (ssize s) (take ?k (enc_rec ?r))\<rparr>" using f(1) by simp
  have img: "simg s = log_bytes rs" "ssize s = length (log_bytes rs)"
    using clean_img [OF inv cl] inv by (simp_all add: store_inv_def)
  have k: "?k < rlen ?r" using full by (auto simp: fits_def split: option.split_asm)
  have close: "store_close ?s' = log_bytes rs @ take ?k (enc_rec ?r)"
    by (simp add: store_close_def eq img pwrite_def)
  have "rec_at (log_bytes rs @ take ?k (enc_rec ?r)) (length (log_bytes rs @ take ?k (enc_rec ?r)))
      (length (log_bytes rs)) = None"
    using rec_at_torn [of ?r ?k "log_bytes rs"] k key len by (simp add: key_ok_def set_rec_def)
  then have "store_inv t rs (store_open (store_close ?s') (healthy t'))"
    unfolding close using inv by (intro store_open_log(1)) (auto simp: store_inv_def healthy_def)
  moreover have "view ?s' u = view s u" if "t \<le> u" for u
    using view_log [OF inv that] view_log [OF f(2) that] by simp
  ultimately show ?thesis using f(1) by simp
qed

lemma restore_write_ok:
  "restore_write (\<lambda>_. None) ts kvs (log_bytes rs) (length (log_bytes rs)) i =
    (log_bytes (rs @ map (\<lambda>(k, v). \<lparr>lflags = 0, lts = ts, lttl = 0, lkey = k, lval = v\<rparr>) kvs), True)"
proof (induction kvs arbitrary: rs i)
  case (Cons kv kvs)
  obtain k v where kv: "kv = (k, v)" by fastforce
  let ?r = "\<lparr>lflags = 0, lts = ts, lttl = 0, lkey = k, lval = v\<rparr>"
  have "write_rec_at (log_bytes rs) (length (log_bytes rs)) ?r None =
      (log_bytes (rs @ [?r]), length (log_bytes (rs @ [?r])), True)"
    by (simp add: write_rec_ok log_bytes_append)
  then show ?case using Cons [of "rs @ [?r]" "Suc i"] kv by simp
qed simp

lemma restore_set_rec: "\<lparr>lflags = 0, lts = ts, lttl = 0, lkey = k, lval = v\<rparr> = set_rec k v 0 ts"
  by (simp add: set_rec_def clamp_ttl_def)

lemma store_restore_ok:
  assumes kvs: "list_all kv_ok kvs" and ts: "int64 (w_ts w)" and inv: "index_ok (sidx s)"
    and w: "w_topen w" "w_twrite w = (\<lambda>_. None)" "w_tsync w" "w_rename w" "w_trunc w"
  shows "snd (store_restore s kvs w) = int (length kvs)"
    and "store_inv t (map (\<lambda>(k, v). set_rec k v 0 (w_ts w)) kvs) (fst (store_restore s kvs w))"
    and "clean (fst (store_restore s kvs w))"
proof -
  let ?rs = "map (\<lambda>(k, v). set_rec k v 0 (w_ts w)) kvs"
  have rw: "restore_write (w_twrite w) (w_ts w) kvs [] 0 0 = (log_bytes ?rs, True)"
    using restore_write_ok [of "w_ts w" kvs "[]" 0] w(2) by (simp add: restore_set_rec)
  let ?s1 = "s\<lparr>simg := log_bytes ?rs, sidx := \<lparr>buckets = replicate (length (buckets (sidx s))) [], icount = 0\<rparr>,
      sdead := 0, ssize := 0\<rparr>"
  have n: "0 < length (buckets (sidx s))" using inv by (auto simp: index_ok_def)
  have ok: "\<forall>r \<in> set ?rs. rec_ok r"
    using kvs ts by (force simp: list_all_iff kv_ok_def key_ok_def not_less intro!: rec_ok_set)
  have bad: "rec_at (log_bytes ?rs) (length (log_bytes ?rs)) (length (log_bytes ?rs)) = None"
    by (rule rec_at_end)
  have ld: "store_inv t ?rs (store_load ?s1 True)" "clean (store_load ?s1 True)"
    using store_load_inv(1) [of ?s1 ?rs "[]" t] store_load_inv(2) [of ?s1 ?rs "[]"] n ok bad
    by (simp_all add: index_ok_cleared del: log_bytes_Cons)
  have eq: "store_restore s kvs w = ((store_load ?s1 True)\<lparr>nwrites := nwrites (store_load ?s1 True) + length kvs,
      skix_dirty := True\<rparr>, int (length kvs))"
    using kvs w rw by (simp add: store_restore_def Let_def)
  show "snd (store_restore s kvs w) = int (length kvs)" by (simp add: eq)
  show "store_inv t ?rs (fst (store_restore s kvs w))" using ld(1) by (auto simp: eq store_inv_def)
  show "clean (fst (store_restore s kvs w))" using ld(2) by (simp add: eq clean_def)
qed

lemma store_reset_ok:
  assumes inv: "index_ok (sidx s)" and w: "w_trunc w"
  shows "store_inv t [] (store_reset s w)" and "clean (store_reset s w)"
proof -
  have n: "0 < length (buckets (sidx s))" using inv by (auto simp: index_ok_def)
  let ?s = "(clear_index s)\<lparr>simg := [], ssize := 0, sdead := 0, skix_dirty := True\<rparr>"
  have "store_inv t [] (store_load ?s True)" "clean (store_load ?s True)"
    using store_load_inv(1) [of ?s "[]" "[]" t] store_load_inv(2) [of ?s "[]" "[]"] n rec_at_end [of "[]"]
    by (simp_all add: clear_index_def index_ok_cleared)
  then show "store_inv t [] (store_reset s w)" and "clean (store_reset s w)"
    using w by (simp_all add: store_reset_def Let_def)
qed

lemma follows_refl: "follows rs t rs"
  by (simp add: follows_def)

subsection \<open>The prefix array and the vector index\<close>

text \<open>
  The prefix array is sorted, and complete unless it is marked for rebuilding; the vector
  index holds vector keys only, each once, and none the hash index does not have.
\<close>

definition aux_inv :: "store \<Rightarrow> bool" where
  "aux_inv s \<longleftrightarrow> ksorted (skix s) \<and>
     (\<not> skix_dirty s \<longrightarrow> dom (find_slot (sidx s)) \<subseteq> set (skix s)) \<and>
     vecs_ok (svecs s) \<and> vkey ` set (svecs s) \<subseteq> dom (find_slot (sidx s))"

lemma vkeys_add: "vkey ` set (vec_index_add vs key val ex) \<subseteq> insert key (vkey ` set vs)"
  by (auto simp: vec_index_add_def split: option.split_asm if_split_asm dest!: set_vec_replace)

lemma vkeys_del: "vecs_ok vs \<Longrightarrow> vkey ` set (vec_index_del vs key) = vkey ` set vs - {key}"
proof (rule set_eqI)
  fix k
  assume "vecs_ok vs"
  from vec_find_del(2) [OF this, of key k]
  show "k \<in> vkey ` set (vec_index_del vs key) \<longleftrightarrow> k \<in> vkey ` set vs - {key}"
    unfolding Diff_iff insert_iff empty_iff
    using vec_find_None [of "vec_index_del vs key" k] vec_find_None [of vs k]
    by (cases "k = key") simp_all
qed

lemma aux_inv_put:
  assumes "aux_inv s" "find_slot (sidx s') = (find_slot (sidx s))(key \<mapsto> e)"
    "svecs s' = vec_index_add (svecs s) key val ex" "skix s' = kix_insert (skix s) key"
    "skix_dirty s' = skix_dirty s"
  shows "aux_inv s'"
  using assms vkeys_add [of "svecs s" key val ex]
  by (auto simp: aux_inv_def kix_insert_sorted kix_insert_set vecs_ok_add)

lemma aux_inv_del:
  assumes "aux_inv s" "find_slot (sidx s') = (find_slot (sidx s))(key := None)"
    "svecs s' = vec_index_del (svecs s) key" "skix s' = kix_remove (skix s) key"
    "skix_dirty s' = skix_dirty s"
  shows "aux_inv s'"
  using assms vkeys_del [of "svecs s" key]
  by (auto simp: aux_inv_def kix_remove_set vec_find_del)

text \<open>A rebuild makes the array exact.\<close>

lemma kix_ensure_ok:
  assumes "aux_inv s" "index_ok (sidx s)"
  shows "aux_inv (kix_ensure s)" "\<not> skix_dirty (kix_ensure s)" "sidx (kix_ensure s) = sidx s"
    "simg (kix_ensure s) = simg s"
proof -
  have "k \<in> set (kix_rebuild (sidx s))" if "find_slot (sidx s) k = Some e" for k e
    using that assms(2) entries_find find_slot_key [OF that] by (force simp: kix_rebuild_ok(2))
  then have "dom (find_slot (sidx s)) \<subseteq> set (kix_rebuild (sidx s))" by blast
  then show "aux_inv (kix_ensure s)" using assms by (simp add: aux_inv_def kix_ensure_def kix_rebuild_ok(1))
qed (auto simp: kix_ensure_def)

lemma compact_frame:
  "skix (compact s w) = skix s" "skix_dirty (compact s w) = skix_dirty s" "svecs (compact s w) = svecs s"
  by (simp_all add: compact_def Let_def split_beta)

lemma chain_find_keys:
  "map ekey es = map ekey es' \<Longrightarrow> chain_find k es = None \<longleftrightarrow> chain_find k es' = None"
  by (metis chain_find_None list.set_map)

lemma compact_keys:
  assumes ok: "index_ok (sidx s)"
  shows "find_slot (sidx (compact s w)) k = None \<longleftrightarrow> find_slot (sidx s) k = None"
    and "index_ok (sidx (compact s w))"
proof -
  let ?bs = "fst (compact_buckets (simg s) (w_cnow w) (w_twrite w) (buckets (sidx s)) ([], 0, 0))"
  have keys: "map (map ekey) ?bs = map (map ekey) (buckets (sidx s))" by (rule compact_buckets_keys)
  have ok': "index_ok ((sidx s)\<lparr>buckets := ?bs\<rparr>)" by (rule index_ok_cong [OF keys ok])
  have i: "sidx (compact s w) = (if w_topen w then (sidx s)\<lparr>buckets := ?bs\<rparr> else sidx s)"
    by (simp add: compact_def Let_def split_beta)
  show "index_ok (sidx (compact s w))" using ok ok' by (simp add: i)
  have "map ekey (concat ?bs) = map ekey (concat (buckets (sidx s)))"
    using arg_cong [OF keys, of concat] by (simp add: map_concat)
  then show "find_slot (sidx (compact s w)) k = None \<longleftrightarrow> find_slot (sidx s) k = None"
    using chain_find_keys [of "concat ?bs" "concat (buckets (sidx s))" k] ok ok'
    by (simp add: i find_slot_entries entries_def)
qed

lemma aux_inv_compact: "index_ok (sidx s) \<Longrightarrow> aux_inv s \<Longrightarrow> aux_inv (maybe_compact s w)"
proof -
  assume ok: "index_ok (sidx s)" and aux: "aux_inv s"
  have "dom (find_slot (sidx (compact s w))) = dom (find_slot (sidx s))"
    using compact_keys(1) [OF ok] by (auto simp: dom_def)
  then show ?thesis using aux by (simp add: maybe_compact_def aux_inv_def compact_frame)
qed

lemma aux_inv_set:
  assumes ok: "index_ok (sidx s)" and aux: "aux_inv s"
  shows "aux_inv (fst (store_set s key val ttl app w))"
proof -
  define r where "r = set_rec key (set_value s key val app w) ttl (w_ts w)"
  obtain img pos wok where w: "write_rec_at (simg s) (ssize s) r (w_write w) = (img, pos, wok)"
    by (rule prod_cases3)
  let ?s1 = "s\<lparr>simg := img, ssize := pos\<rparr>" and ?v = "set_value s key val app w"
  let ?u = "upsert (sidx s) key (ssize s) (length ?v) (w_ts w) (clamp_ttl ttl * 1000)"
  let ?s2 = "?s1\<lparr>sidx := fst ?u, sdead := sdead s + snd ?u,
      svecs := vec_index_add (svecs s) key ?v (if clamp_ttl ttl \<noteq> 0 then w_ts w + clamp_ttl ttl * 1000 else 0),
      skix := kix_insert (skix s) key, nwrites := nwrites s + 1\<rparr>"
  have res: "fst (store_set s key val ttl app w) \<in> {s, ?s1, maybe_compact ?s2 w}"
    using w unfolding store_set_def Let_def
    by (simp add: set_value_def [symmetric] set_rec_def r_def split_beta)
  have "aux_inv ?s1" using aux by (simp add: aux_inv_def)
  moreover have "aux_inv (maybe_compact ?s2 w)"
  proof (rule aux_inv_compact)
    show "index_ok (sidx ?s2)" using ok by (simp add: index_ok_upsert)
    show "aux_inv ?s2"
      by (rule aux_inv_put [OF aux, of _ key]) (simp_all add: hix.lookup_put [OF ok])
  qed
  ultimately show ?thesis using res aux by (elim insertE emptyE) (simp_all only:)
qed

lemma aux_inv_store_del:
  assumes ok: "index_ok (sidx s)" and aux: "aux_inv s"
  shows "aux_inv (fst (store_del s key w))"
proof -
  define r where "r = del_rec key (w_ts w)"
  define s1 where "s1 = (case find_slot (sidx s) key of None \<Rightarrow> s
      | Some e \<Rightarrow> s\<lparr>sdead := sdead s + rec_bytes e, sidx := del_entry (sidx s) key\<rparr>)"
  have s1: "index_ok (sidx s1)" "find_slot (sidx s1) = (find_slot (sidx s))(key := None)"
      "svecs s1 = svecs s" "skix s1 = skix s" "skix_dirty s1 = skix_dirty s"
    using ok hix.lookup_del [OF ok, of key]
    by (auto simp: s1_def index_ok_del fun_eq_iff split: option.split)
  let ?s2 = "s1\<lparr>svecs := vec_index_del (svecs s1) key, skix := kix_remove (skix s1) key\<rparr>"
  have aux2: "aux_inv ?s2" by (rule aux_inv_del [OF aux, of _ key]) (simp_all add: s1)
  obtain img pos wok where w: "write_rec_at (simg ?s2) (ssize ?s2) r (w_write w) = (img, pos, wok)"
    by (rule prod_cases3)
  let ?s3 = "?s2\<lparr>simg := img, ssize := pos, ndeletes := ndeletes s1 + 1\<rparr>"
  have res: "fst (store_del s key w) \<in> {s, maybe_compact ?s3 w}"
    using w unfolding store_del_def Let_def r_def
    by (cases "find_slot (sidx s) key") (simp_all add: del_rec_def s1_def)
  have "aux_inv (maybe_compact ?s3 w)"
    by (rule aux_inv_compact) (use s1 aux2 in \<open>simp_all add: aux_inv_def\<close>)
  then show ?thesis using res aux by (elim insertE emptyE) (simp_all only:)
qed

lemma aux_inv_apply:
  assumes ok: "index_ok (sidx s)" and aux: "aux_inv s" and dirty: "skix_dirty s"
  shows "aux_inv (apply_rec s pos r)"
proof (cases "is_tomb r")
  case True
  then show ?thesis
    using aux dirty hix.lookup_del [OF ok, of "lkey r"] vkeys_del [of "svecs s" "lkey r"]
    by (auto simp: apply_rec_def aux_inv_def vec_find_del split: option.split)
next
  case False
  let ?ex = "if lttl r \<noteq> 0 then lts r + lttl r else 0"
  have "vkey ` set (svecs s) \<subseteq> dom (find_slot (sidx s))" using aux by (simp add: aux_inv_def)
  then have "vkey ` set (vec_index_add (svecs s) (lkey r) (lval r) ?ex) \<subseteq> insert (lkey r) (dom (find_slot (sidx s)))"
    using vkeys_add [of "svecs s" "lkey r" "lval r" ?ex] by blast
  then show ?thesis
    using False aux dirty
    by (simp add: apply_rec_def aux_inv_def split_beta Let_def hix.lookup_put [OF ok] vecs_ok_add)
qed

lemma aux_inv_load_loop:
  "index_ok (sidx s) \<Longrightarrow> aux_inv s \<Longrightarrow> skix_dirty s \<Longrightarrow>
   aux_inv (fst (load_loop s pos)) \<and> index_ok (sidx (fst (load_loop s pos))) \<and>
   skix_dirty (fst (load_loop s pos))"
proof (induction s pos rule: load_loop.induct)
  case (1 s pos)
  then show ?case
    by (cases "rec_at (simg s) (ssize s) pos")
       (simp_all add: load_loop.simps [of s pos] aux_inv_apply apply_rec_index)
qed

lemma aux_inv_load:
  assumes "index_ok (sidx s)" "ksorted (skix s)"
  shows "aux_inv (store_load s tr)" and "index_ok (sidx (store_load s tr))"
proof -
  let ?s = "s\<lparr>svecs := [], skix_dirty := True, ssize := length (simg s)\<rparr>"
  have "aux_inv ?s" using assms by (simp add: aux_inv_def vecs_ok_def)
  from aux_inv_load_loop [OF _ this, of 0] assms(1)
  have "aux_inv (fst (load_loop ?s 0))" "index_ok (sidx (fst (load_loop ?s 0)))" by auto
  then show "aux_inv (store_load s tr)" and "index_ok (sidx (store_load s tr))"
    by (auto simp: store_load_def Let_def split_beta aux_inv_def)
qed

text \<open>A store opened on an empty file.\<close>

lemma open_empty:
  "store_inv t [] (store_open [] (healthy t))" "clean (store_open [] (healthy t))"
  "index_ok (sidx (store_open [] (healthy t)))" "find_slot (sidx (store_open [] (healthy t))) = Map.empty"
  "aux_inv (store_open [] (healthy t))"
proof -
  have w: "w_trunc (healthy t)" by (simp add: healthy_def)
  show "store_inv t [] (store_open [] (healthy t))" "clean (store_open [] (healthy t))"
    using store_open_clean(1) [of "[]" "healthy t" t] store_open_clean(2) [of "[]" "healthy t"] w by simp_all
  let ?s0 = "\<lparr>simg = [], ssize = 0, sidx = empty_index, sdead = 0, sopened = t, nreads = 0, nwrites = 0,
    ndeletes = 0, nmisses = 0, svecs = [], skix = [], skix_dirty = False\<rparr>"
  have o: "store_open [] (healthy t) = store_load ?s0 True" by (simp add: store_open_def healthy_def)
  show "find_slot (sidx (store_open [] (healthy t))) = Map.empty"
    unfolding o using store_load_log(2) [of ?s0 "[]" "[]"] by (simp add: fun_eq_iff rec_at_def HDR_SIZE_def)
  show "index_ok (sidx (store_open [] (healthy t)))" "aux_inv (store_open [] (healthy t))"
    unfolding o using aux_inv_load [of ?s0 True] by simp_all
qed

end
