(* ===== verification/Exo_Text.thy ===== *)
theory Exo_Text
  imports Exo_Prelude
begin

unbundle bit_operations_syntax

text \<open>
  Text routines shared by the modules: decimal printing and \<open>strtoll\<close>, \<open>strtok_r\<close> and
  column splitting, percent decoding and case-insensitive search (\<open>src/util.c\<close>), the
  one-line escape \<open>esc_line\<close> / \<open>unesc_line\<close> of exosched and exoflow, and the UTF-8 decoder
  with the JSON escape those modules send to exomind.
\<close>

subsection \<open>Decimal numbers\<close>

fun show_nat :: "nat \<Rightarrow> string" where
  "show_nat n = (if n < 10 then [char_of (48 + n)]
                 else show_nat (n div 10) @ [char_of (48 + n mod 10)])"

declare show_nat.simps [simp del]

text \<open>\<open>printf\<close> with \<open>%lld\<close>.\<close>

definition show_int :: "int \<Rightarrow> string" where
  "show_int i = (if i < 0 then CHR ''-'' # show_nat (nat (- i)) else show_nat (nat i))"

definition LLONG_MAX :: int where "LLONG_MAX = 9223372036854775807"
definition LLONG_MIN :: int where "LLONG_MIN = - 9223372036854775808"

text \<open>\<open>%08x\<close> of a 32-bit value.\<close>

definition show_hex8 :: "u32 \<Rightarrow> string" where
  "show_hex8 w = map (\<lambda>k. ''0123456789abcdef'' ! (unat w div 16 ^ k mod 16)) [7, 6, 5, 4, 3, 2, 1, 0]"

definition digits_val :: "string \<Rightarrow> nat" where
  "digits_val ds = foldl (\<lambda>a c. 10 * a + digit_val c) 0 ds"

text \<open>
  \<open>strtoll(s, &end, 10)\<close>: optional white space and sign, then digits; out-of-range values
  saturate. The second component is the rest of the string from \<open>end\<close>, which is the whole
  string when no digit was read.
\<close>

definition clamp_ll :: "int \<Rightarrow> int" where
  "clamp_ll i = max LLONG_MIN (min LLONG_MAX i)"

definition strtoll :: "string \<Rightarrow> int \<times> string" where
  "strtoll s =
     (let t = dropWhile isspace s;
          (neg, u) = (case t of [] \<Rightarrow> (False, [])
                      | c # r \<Rightarrow> if c = CHR ''-'' then (True, r)
                                 else if c = CHR ''+'' then (False, r) else (False, t));
          ds = takeWhile isdigit u
      in if ds = [] then (0, s)
         else (clamp_ll (if neg then - int (digits_val ds) else int (digits_val ds)),
               dropWhile isdigit u))"

definition atoll :: "string \<Rightarrow> int" where
  "atoll s = fst (strtoll s)"

lemma isdigit_char_of: "d < 10 \<Longrightarrow> isdigit (char_of (48 + d :: nat))"
  by (simp add: isdigit_def less_eq_char_def)

lemma digit_val_char_of: "d < 10 \<Longrightarrow> digit_val (char_of (48 + d :: nat)) = d"
  by (simp add: digit_val_def)

lemma digits_val_snoc: "digits_val (ds @ [c]) = 10 * digits_val ds + digit_val c"
  by (simp add: digits_val_def)

lemma digits_val_show_nat [exo_codec]: "digits_val (show_nat n) = n"
proof (induction n rule: show_nat.induct)
  case (1 n)
  show ?case
  proof (cases "n < 10")
    case True
    then show ?thesis
      by (simp add: show_nat.simps [of n] digits_val_def digit_val_char_of)
  next
    case False
    then have "digits_val (show_nat n) = 10 * (n div 10) + digit_val (char_of (48 + n mod 10))"
      using 1 by (simp add: show_nat.simps [of n] digits_val_snoc)
    then show ?thesis by (simp add: digit_val_char_of)
  qed
qed

lemma show_nat_digits: "c \<in> set (show_nat n) \<Longrightarrow> isdigit c"
proof (induction n rule: show_nat.induct)
  case (1 n)
  show ?case
  proof (cases "n < 10")
    case True
    then show ?thesis using 1 by (simp add: show_nat.simps [of n] isdigit_char_of)
  next
    case False
    with 1 show ?thesis
      by (auto simp: show_nat.simps [of n] isdigit_char_of)
  qed
qed

lemma show_nat_nonempty [simp]: "show_nat n \<noteq> []"
  by (simp add: show_nat.simps [of n])

lemma show_nat_hd_digit: "\<exists>d ds. show_nat n = d # ds \<and> isdigit d"
  by (metis list.exhaust list.set_intros(1) show_nat_digits show_nat_nonempty)

lemma isdigit_not_space: "isdigit c \<Longrightarrow> \<not> isspace c"
  by (auto simp: ctype_defs less_eq_char_def)

lemma isdigit_not_sign: "isdigit c \<Longrightarrow> c \<noteq> CHR ''-'' \<and> c \<noteq> CHR ''+''"
  by (auto simp: isdigit_def)

lemma take_digits:
  assumes "rest = [] \<or> \<not> isdigit (hd rest)"
  shows "takeWhile isdigit (show_nat n @ rest) = show_nat n"
    and "dropWhile isdigit (show_nat n @ rest) = rest"
proof -
  have "takeWhile isdigit rest = []" "dropWhile isdigit rest = rest"
    using assms by (cases rest; simp)+
  then show "takeWhile isdigit (show_nat n @ rest) = show_nat n"
    and "dropWhile isdigit (show_nat n @ rest) = rest"
    by (simp_all add: takeWhile_append2 dropWhile_append2 show_nat_digits)
qed

lemma clamp_ll_id: "LLONG_MIN \<le> i \<Longrightarrow> i \<le> LLONG_MAX \<Longrightarrow> clamp_ll i = i"
  by (simp add: clamp_ll_def)

lemma clamp_ll_bounds: "LLONG_MIN \<le> clamp_ll i" "clamp_ll i \<le> LLONG_MAX"
  by (simp_all add: clamp_ll_def LLONG_MIN_def LLONG_MAX_def)

lemma strtoll_show_int [exo_codec]:
  assumes range: "LLONG_MIN \<le> i" "i \<le> LLONG_MAX"
    and rest: "rest = [] \<or> \<not> isdigit (hd rest)"
  shows "strtoll (show_int i @ rest) = (i, rest)"
proof -
  obtain d ds where d: "show_nat (nat \<bar>i\<bar>) = d # ds" "isdigit d"
    using show_nat_hd_digit by blast
  have nsp: "\<not> isspace d" "d \<noteq> CHR ''-''" "d \<noteq> CHR ''+''"
    using d(2) isdigit_not_space isdigit_not_sign by auto
  have msp: "\<not> isspace (CHR ''-'')" by (simp add: isspace_def less_eq_char_def)
  show ?thesis
  proof (cases "i < 0")
    case True
    then have "show_int i = CHR ''-'' # show_nat (nat \<bar>i\<bar>)" by (simp add: show_int_def)
    then show ?thesis
      using True range take_digits [OF rest, of "nat \<bar>i\<bar>"] msp
      by (simp add: strtoll_def digits_val_show_nat clamp_ll_id Let_def)
  next
    case False
    then have eq: "show_int i = show_nat (nat \<bar>i\<bar>)" by (simp add: show_int_def)
    have dw: "dropWhile isspace (show_nat (nat \<bar>i\<bar>) @ rest) = show_nat (nat \<bar>i\<bar>) @ rest"
      using d nsp by simp
    have sg: "(case show_nat (nat \<bar>i\<bar>) @ rest of [] \<Rightarrow> (False, [])
        | c # r \<Rightarrow> if c = CHR ''-'' then (True, r)
          else if c = CHR ''+'' then (False, r) else (False, show_nat (nat \<bar>i\<bar>) @ rest))
        = (False, show_nat (nat \<bar>i\<bar>) @ rest)"
      using d nsp by simp
    show ?thesis
      unfolding strtoll_def eq dw Let_def sg
      using False range take_digits [OF rest, of "nat \<bar>i\<bar>"]
      by (simp add: digits_val_show_nat clamp_ll_id)
  qed
qed

lemma atoll_show_int [exo_codec]:
  "LLONG_MIN \<le> i \<Longrightarrow> i \<le> LLONG_MAX \<Longrightarrow> atoll (show_int i) = i"
  using strtoll_show_int [of i "[]"] by (simp add: atoll_def)

lemma show_int_chars: "c \<in> set (show_int i) \<Longrightarrow> isdigit c \<or> c = CHR ''-''"
  by (auto simp: show_int_def dest: show_nat_digits split: if_splits)

lemma show_int_nonempty [simp]: "show_int i \<noteq> []"
  by (simp add: show_int_def)

subsection \<open>Tokens and columns\<close>

text \<open>
  \<open>strtok_r\<close> called until it returns NULL: the maximal non-empty runs of characters that
  are not delimiters.
\<close>

function strtok_all :: "(char \<Rightarrow> bool) \<Rightarrow> string \<Rightarrow> string list" where
  "strtok_all delim s =
     (case dropWhile delim s of
        [] \<Rightarrow> []
      | c # r \<Rightarrow> (c # takeWhile (\<lambda>x. \<not> delim x) r) # strtok_all delim (dropWhile (\<lambda>x. \<not> delim x) r))"
  by pat_completeness auto
termination
proof (relation "measure (\<lambda>(d, s). length s)", goal_cases)
  case (2 delim s c r)
  have "length (dropWhile (\<lambda>x. \<not> delim x) r) \<le> length r" by (rule length_dropWhile_le)
  also have "length r < length (dropWhile delim s)" using 2 by simp
  also have "\<dots> \<le> length s" by (rule length_dropWhile_le)
  finally show ?case by simp
qed simp

declare strtok_all.simps [simp del]

text \<open>Splitting at every separator, as the \<open>strchr\<close> column loops do; never empty.\<close>

fun split_on :: "char \<Rightarrow> string \<Rightarrow> string list" where
  "split_on c [] = [[]]"
| "split_on c (x # xs) =
     (if x = c then [] # split_on c xs
      else (case split_on c xs of [] \<Rightarrow> [[x]] | w # ws \<Rightarrow> (x # w) # ws))"

fun join_with :: "char \<Rightarrow> string list \<Rightarrow> string" where
  "join_with c [] = []"
| "join_with c [w] = w"
| "join_with c (w # v # ws) = w @ c # join_with c (v # ws)"

lemma split_on_nonempty [simp]: "split_on c s \<noteq> []"
  by (induction s) (auto split: list.splits)

lemma split_on_word: "c \<notin> set w \<Longrightarrow> split_on c w = [w]"
  by (induction w) auto

lemma split_on_append: "c \<notin> set w \<Longrightarrow> split_on c (w @ c # s) = w # split_on c s"
  by (induction w) auto

lemma split_on_join [exo_codec]:
  "ws \<noteq> [] \<Longrightarrow> \<forall>w \<in> set ws. c \<notin> set w \<Longrightarrow> split_on c (join_with c ws) = ws"
  by (induction c ws rule: join_with.induct) (auto simp: split_on_word split_on_append)

lemma dropWhile_not_hd: "xs = [] \<or> \<not> P (hd xs) \<Longrightarrow> dropWhile P xs = xs"
  by (cases xs) auto

lemma strtok_all_line:
  assumes "w \<noteq> []" "\<forall>x \<in> set w. x \<noteq> c"
  shows "strtok_all (\<lambda>x. x = c) (w @ c # s) = w # strtok_all (\<lambda>x. x = c) s"
proof -
  obtain a r where w: "w = a # r" using assms(1) by (cases w) auto
  have "dropWhile (\<lambda>x. x = c) (w @ c # s) = w @ c # s" using assms w by simp
  moreover have "takeWhile (\<lambda>x. \<not> x = c) (r @ c # s) = r"
    using assms w by (simp add: takeWhile_append2)
  moreover have "dropWhile (\<lambda>x. \<not> x = c) (r @ c # s) = c # s"
    using assms w by (simp add: dropWhile_append2)
  moreover have "strtok_all (\<lambda>x. x = c) (c # s) = strtok_all (\<lambda>x. x = c) s"
    by (subst (1 2) strtok_all.simps) simp
  ultimately show ?thesis by (subst strtok_all.simps) (simp add: w)
qed

lemma strtok_all_Nil [simp]: "strtok_all d [] = []"
  by (simp add: strtok_all.simps)

lemma strtok_all_lines [exo_codec]:
  "\<forall>w \<in> set ws. w \<noteq> [] \<and> c \<notin> set w \<Longrightarrow>
   strtok_all (\<lambda>x. x = c) (concat (map (\<lambda>w. w @ [c]) ws)) = ws"
proof (induction ws)
  case Nil
  then show ?case by simp
next
  case (Cons w ws)
  then have "strtok_all (\<lambda>x. x = c) (w @ c # concat (map (\<lambda>w. w @ [c]) ws)) = w # ws"
    by (subst strtok_all_line) auto
  then show ?case by simp
qed

end
