(* ===== verification/Exo_Escape.thy ===== *)
theory Exo_Escape
  imports Exo_Text
begin

unbundle bit_operations_syntax

text \<open>
  Percent decoding, case-insensitive search, escaping and UTF-8: \<open>src/util.c\<close> of exomind and
  the \<open>util.c\<close> that exosched and exoflow each carry. Every routine walks its input once, so
  each is a recursion on the bytes that remain; the pointer arithmetic \<open>end - p\<close> is the
  length of that remainder.
\<close>

subsection \<open>Percent decoding\<close>

definition hexval :: "char \<Rightarrow> int" where
  "hexval c =
     (if CHR ''0'' \<le> c \<and> c \<le> CHR ''9'' then of_char c - 48
      else if CHR ''a'' \<le> c \<and> c \<le> CHR ''f'' then of_char c - 97 + 10
      else if CHR ''A'' \<le> c \<and> c \<le> CHR ''F'' then of_char c - 65 + 10
      else -1)"

text \<open>
  The loop of \<open>url_decode\<close> on a C string: at the end of the string the bytes read past it
  are the terminator, which is no hex digit. The result is the buffer before the final
  terminator; its length is what the function returns.
\<close>

fun url_decode :: "string \<Rightarrow> bytes" where
  "url_decode (c # h1 # h2 # r) =
     (if c = CHR ''%'' \<and> 0 \<le> hexval h1 \<and> 0 \<le> hexval h2
      then char_of (nat (hexval h1 * 16 + hexval h2)) # url_decode r
      else if c = CHR ''+'' then CHR '' '' # url_decode (h1 # h2 # r)
      else c # url_decode (h1 # h2 # r))"
| "url_decode (c # r) = (if c = CHR ''+'' then CHR '' '' else c) # url_decode r"
| "url_decode [] = []"

text \<open>
  \<open>url_encode\<close> of \<open>exocrawl/src/util.c\<close> and, with a bounded output buffer, of
  \<open>exogit/src/github.c\<close>: everything but unreserved characters becomes \<open>%XX\<close>.
\<close>

definition HEX_digit :: "nat \<Rightarrow> char" where
  "HEX_digit d = ''0123456789ABCDEF'' ! d"

definition url_encode_char :: "char \<Rightarrow> string" where
  "url_encode_char c =
     (if isalnum c \<or> c = CHR ''-'' \<or> c = CHR ''_'' \<or> c = CHR ''.'' \<or> c = CHR ''~'' then [c]
      else [CHR ''%'', HEX_digit (of_char c div 16), HEX_digit (of_char c mod 16)])"

definition url_encode :: "string \<Rightarrow> string" where
  "url_encode s = concat (map url_encode_char s)"

definition gh_encode_char :: "char \<Rightarrow> string" where
  "gh_encode_char c =
     (if isupper c \<or> islower c \<or> isdigit c \<or> c = CHR ''-'' \<or> c = CHR ''_'' \<or> c = CHR ''.'' \<or>
         c = CHR ''~'' \<or> c = CHR ''/'' then [c]
      else if c = CHR '' '' then ''%20''
      else [CHR ''%'', HEX_digit (of_char c div 16), HEX_digit (of_char c mod 16)])"

text \<open>The bounded loop: \<open>w\<close> is the number of bytes already written.\<close>

fun gh_url_encode :: "string \<Rightarrow> nat \<Rightarrow> nat \<Rightarrow> string" where
  "gh_url_encode [] cap w = []"
| "gh_url_encode (c # r) cap w =
     (if w + 4 < cap
      then gh_encode_char c @ gh_url_encode r cap (w + length (gh_encode_char c))
      else [])"

lemma less_16_iff: "n < 16 \<longleftrightarrow> n \<in> set [0, 1, 2, 3, 4, 5, 6, 7, 8, 9, 10, 11, 12, 13, 14, 15 :: nat]"
  by simp arith

lemma hexval_HEX_digit [exo_codec]: "d < 16 \<Longrightarrow> hexval (HEX_digit d) = int d"
  unfolding less_16_iff
  by (auto simp: hexval_def HEX_digit_def less_eq_char_def)

lemma url_decode_length: "length (url_decode s) \<le> length s"
  by (induction s rule: url_decode.induct) auto

lemma url_decode_pct [exo_codec]:
  "url_decode (CHR ''%'' # HEX_digit (of_char c div 16) # HEX_digit (of_char c mod 16) # r)
   = c # url_decode r"
proof -
  let ?n = "of_char c :: nat"
  have n: "?n < 256" by (rule of_char_lt_256)
  have "?n div 16 < 16" "?n mod 16 < 16" using n by linarith+
  then have h: "hexval (HEX_digit (?n div 16)) = int (?n div 16)"
    "hexval (HEX_digit (?n mod 16)) = int (?n mod 16)"
    by (simp_all only: hexval_HEX_digit)
  have "nat (int (m div 16) * 16 + int (m mod 16)) = m" for m :: nat
    by (metis div_mult_mod_eq nat_int of_nat_add of_nat_mult of_nat_numeral)
  then show ?thesis by (simp only: url_decode.simps h) simp
qed

lemma url_decode_plain: "c \<noteq> CHR ''%'' \<Longrightarrow> c \<noteq> CHR ''+'' \<Longrightarrow> url_decode (c # r) = c # url_decode r"
  by (cases r rule: url_decode.cases; cases "tl r") auto

lemma url_decode_encode_char: "url_decode (url_encode_char c @ r) = c # url_decode r"
proof (cases "isalnum c \<or> c = CHR ''-'' \<or> c = CHR ''_'' \<or> c = CHR ''.'' \<or> c = CHR ''~''")
  case True
  then have "c \<noteq> CHR ''%''" "c \<noteq> CHR ''+''" by (auto simp: ctype_defs less_eq_char_def)
  with True show ?thesis by (auto simp: url_encode_char_def url_decode_plain)
next
  case False
  then show ?thesis unfolding url_encode_char_def by (simp only: if_False append.simps url_decode_pct)
qed

lemma url_decode_encode [exo_codec]: "url_decode (url_encode s) = s"
  by (induction s) (auto simp: url_encode_def url_decode_encode_char)

lemma char_of_32: "char_of (32 :: nat) = CHR '' ''"
  by code_simp

lemma gh_decode_encode_char: "url_decode (gh_encode_char c @ r) = c # url_decode r"
proof (cases "isupper c \<or> islower c \<or> isdigit c \<or> c = CHR ''-'' \<or> c = CHR ''_'' \<or> c = CHR ''.'' \<or>
         c = CHR ''~'' \<or> c = CHR ''/''")
  case True
  then have "c \<noteq> CHR ''%''" "c \<noteq> CHR ''+''" by (auto simp: ctype_defs less_eq_char_def)
  with True show ?thesis by (auto simp: gh_encode_char_def url_decode_plain)
next
  case False
  show ?thesis
  proof (cases "c = CHR '' ''")
    case True
    then show ?thesis using False by (simp add: gh_encode_char_def hexval_def less_eq_char_def char_of_32)
  next
    case sp: False
    with False show ?thesis
      unfolding gh_encode_char_def by (simp only: if_False append.simps url_decode_pct)
  qed
qed

lemma gh_encode_char_length: "length (gh_encode_char c) \<le> 3"
  by (simp add: gh_encode_char_def)

lemma gh_url_encode_bound: "w < cap \<Longrightarrow> w + length (gh_url_encode s cap w) < cap"
proof (induction s cap w rule: gh_url_encode.induct)
  case (2 c r cap w)
  then show ?case using gh_encode_char_length [of c] by auto
qed simp

lemma gh_url_encode_decode: "\<exists>k \<le> length s. url_decode (gh_url_encode s cap w) = take k s"
proof (induction s cap w rule: gh_url_encode.induct)
  case (2 c r cap w)
  show ?case
  proof (cases "w + 4 < cap")
    case True
    with 2 obtain k where "k \<le> length r"
      "url_decode (gh_url_encode r cap (w + length (gh_encode_char c))) = take k r" by blast
    then show ?thesis
      using True by (intro exI [of _ "Suc k"]) (simp add: gh_decode_encode_char)
  qed auto
qed simp

subsection \<open>Case-insensitive search\<close>

fun ci_match :: "bytes \<Rightarrow> bytes \<Rightarrow> bool" where
  "ci_match hay [] = True"
| "ci_match [] (n # needle) = False"
| "ci_match (h # hay) (n # needle) = (tolower h = tolower n \<and> ci_match hay needle)"

function stristr_from :: "bytes \<Rightarrow> bytes \<Rightarrow> nat \<Rightarrow> bool" where
  "stristr_from hay needle i =
     (if i + length needle \<le> length hay
      then ci_match (drop i hay) needle \<or> stristr_from hay needle (i + 1)
      else False)"
  by pat_completeness auto
termination
  by (relation "measure (\<lambda>(hay, needle, i). length hay + 1 - i)") auto

declare stristr_from.simps [simp del]

definition stristr :: "bytes \<Rightarrow> bytes \<Rightarrow> bool" where
  "stristr hay needle =
     (if needle = [] then True
      else if length hay < length needle then False
      else stristr_from hay needle 0)"

lemma ci_match_iff:
  "ci_match hay needle \<longleftrightarrow>
   length needle \<le> length hay \<and> map tolower (take (length needle) hay) = map tolower needle"
  by (induction hay needle rule: ci_match.induct) auto

lemma stristr_from_iff:
  "stristr_from hay needle i \<longleftrightarrow>
   (\<exists>j \<ge> i. j + length needle \<le> length hay \<and>
     map tolower (take (length needle) (drop j hay)) = map tolower needle)"
proof (induction hay needle i rule: stristr_from.induct)
  case (1 hay needle i)
  show ?case
  proof (cases "i + length needle \<le> length hay")
    case True
    then show ?thesis
      using 1 by (subst stristr_from.simps)
        (auto simp: ci_match_iff Suc_le_eq intro: order_less_imp_le
          dest: le_neq_implies_less)
  next
    case False
    then show ?thesis by (subst stristr_from.simps) auto
  qed
qed

lemma stristr_iff:
  "stristr hay needle \<longleftrightarrow>
   (\<exists>j. j + length needle \<le> length hay \<and>
     map tolower (take (length needle) (drop j hay)) = map tolower needle)"
  by (cases needle) (auto simp: stristr_def stristr_from_iff)

subsection \<open>One-line escapes\<close>

text \<open>\<open>esc_line\<close> of exosched and exoflow; exomind's \<open>escape_line\<close> is the same loop.\<close>

definition esc_char :: "char \<Rightarrow> string" where
  "esc_char c =
     (if c = nl then [bslash, CHR ''n''] else if c = tab then [bslash, CHR ''t'']
      else if c = cr then [bslash, CHR ''r''] else if c = bslash then [bslash, bslash]
      else [c])"

definition esc_line :: "bytes \<Rightarrow> string" where
  "esc_line s = concat (map esc_char s)"

definition escape_line :: "bytes \<Rightarrow> string" where
  "escape_line s = concat (map esc_char s)"

fun unesc_line :: "string \<Rightarrow> string" where
  "unesc_line (a # c # r) =
     (if a = bslash then
        (if c = CHR ''n'' then nl # unesc_line r
         else if c = CHR ''t'' then tab # unesc_line r
         else if c = CHR ''r'' then cr # unesc_line r
         else if c = bslash then bslash # unesc_line r
         else bslash # c # unesc_line r)
      else a # unesc_line (c # r))"
| "unesc_line [a] = [a]"
| "unesc_line [] = []"

lemma unesc_esc_char: "unesc_line (esc_char c @ r) = c # unesc_line r"
  by (cases r) (auto simp: esc_char_def)

lemma unesc_esc_line [exo_codec]: "unesc_line (esc_line s) = s"
  by (induction s) (auto simp: esc_line_def unesc_esc_char)

lemma esc_char_safe: "c \<in> set (esc_char d) \<Longrightarrow> c \<noteq> tab \<and> c \<noteq> nl \<and> c \<noteq> cr"
  by (auto simp: esc_char_def split: if_splits)

lemma esc_line_safe: "c \<in> set (esc_line s) \<Longrightarrow> c \<noteq> tab \<and> c \<noteq> nl \<and> c \<noteq> cr"
  using esc_char_safe by (auto simp: esc_line_def)

lemma esc_line_nul: "nul \<in> set (esc_line s) \<longleftrightarrow> nul \<in> set s"
  by (auto simp: esc_line_def esc_char_def split: if_splits)

lemma esc_char_length: "1 \<le> length (esc_char c) \<and> length (esc_char c) \<le> 2"
  by (simp add: esc_char_def)

lemma esc_line_length: "length (esc_line s) \<le> 2 * length s"
proof (induction s)
  case (Cons c s)
  then show ?case using esc_char_length [of c] by (simp add: esc_line_def)
qed (simp add: esc_line_def)

end
