(* ===== verification/Exo_Query.thy ===== *)
theory Exo_Query
  imports Exo_Store_Ops Exo_Escape
begin

text \<open>
  Queries of \<open>src/store.c\<close>: prefix listing through the sorted key array, and the scans over
  the buckets for listing, notes and search (\<open>store_query\<close>, \<open>key_score\<close>, the comparators).
  A NULL prefix or substring is \<open>None\<close>. \<open>expired\<close> reads the clock at every entry; here one
  reading serves the whole query.
\<close>

datatype qmode = Q_LIST | Q_SEARCH | Q_NOTES

record kv =
  kkey :: bytes
  kval :: bytes
  khas :: bool
  kts :: int
  kscore :: int

definition push_kv :: "bytes \<Rightarrow> bytes option \<Rightarrow> int \<Rightarrow> int \<Rightarrow> kv" where
  "push_kv key val ts score =
     \<lparr>kkey = key, kval = (case val of None \<Rightarrow> [] | Some v \<Rightarrow> v), khas = (val \<noteq> None), kts = ts, kscore = score\<rparr>"

text \<open>\<open>strncasecmp(a, b, n) == 0\<close> where \<open>b\<close> has at least \<open>n\<close> characters before its NUL.\<close>

fun strncaseeq :: "bytes \<Rightarrow> bytes \<Rightarrow> nat \<Rightarrow> bool" where
  "strncaseeq a b 0 = True"
| "strncaseeq (x # a) (y # b) (Suc n) = (tolower x = tolower y \<and> (x = nul \<or> strncaseeq a b n))"
| "strncaseeq [] (y # b) (Suc n) = (y = nul)"
| "strncaseeq (x # a) [] (Suc n) = (x = nul)"
| "strncaseeq [] [] (Suc n) = True"

definition key_score :: "bytes \<Rightarrow> bytes \<Rightarrow> int" where
  "key_score key sub =
     (let slen = length sub; klen = length key
      in if slen = 0 then 0
         else if klen = slen \<and> strncaseeq key sub slen then 100
         else if klen \<ge> slen \<and> strncaseeq key sub slen then 80
         else if stristr key sub then 60
         else 0)"

subsection \<open>Comparators\<close>

definition cmp_list_asc :: "kv \<Rightarrow> kv \<Rightarrow> int" where
  "cmp_list_asc x y =
     (let m = min (length (kkey x)) (length (kkey y)); c = memcmp (take m (kkey x)) (take m (kkey y))
      in if c \<noteq> 0 then c
         else if length (kkey x) < length (kkey y) then -1
         else if length (kkey x) > length (kkey y) then 1 else 0)"

definition cmp_list_desc :: "kv \<Rightarrow> kv \<Rightarrow> int" where
  "cmp_list_desc x y = - cmp_list_asc x y"

definition cmp_notes_desc :: "kv \<Rightarrow> kv \<Rightarrow> int" where
  "cmp_notes_desc x y =
     (if kts x \<noteq> kts y then (if kts x < kts y then 1 else -1) else cmp_list_desc x y)"

definition cmp_search :: "kv \<Rightarrow> kv \<Rightarrow> int" where
  "cmp_search x y =
     (if kscore x \<noteq> kscore y then (if kscore x < kscore y then 1 else -1) else cmp_list_asc x y)"

subsection \<open>The query\<close>

text \<open>The range walk over the sorted keys; the flag is \<open>truncated\<close>.\<close>

fun list_walk :: "hindex \<Rightarrow> int \<Rightarrow> bytes \<Rightarrow> bytes list \<Rightarrow> kv list \<Rightarrow> kv list \<times> bool" where
  "list_walk ix now prefix [] acc = (acc, False)"
| "list_walk ix now prefix (c # cs) acc =
     (if \<not> has_prefix prefix c then (acc, False)
      else if length acc \<ge> MAX_QUERY then (acc, True)
      else (case find_slot ix c of
              None \<Rightarrow> list_walk ix now prefix cs acc
            | Some e \<Rightarrow> if expired now e then list_walk ix now prefix cs acc
                        else list_walk ix now prefix cs (acc @ [push_kv c None (ets e) 0])))"

text \<open>What the bucket scan does with a live entry: the result pushed, if any.\<close>

definition scan_entry :: "bytes \<Rightarrow> qmode \<Rightarrow> bytes option \<Rightarrow> bytes option \<Rightarrow> entry \<Rightarrow> kv option" where
  "scan_entry img mode prefix substr e =
     (case mode of
        Q_LIST \<Rightarrow>
          (case prefix of
             Some p \<Rightarrow> if \<not> has_prefix p (ekey e) then None else Some (push_kv (ekey e) None (ets e) 0)
           | None \<Rightarrow> Some (push_kv (ekey e) None (ets e) 0))
      | Q_NOTES \<Rightarrow>
          if length (ekey e) < 5 \<or> memcmp (take 5 (ekey e)) ''note:'' \<noteq> 0 then None
          else (case read_val img e of
                  None \<Rightarrow> None
                | Some v \<Rightarrow>
                    (case substr of
                       Some sub \<Rightarrow> if \<not> stristr v sub then None else Some (push_kv (ekey e) (Some v) (ets e) 0)
                     | None \<Rightarrow> Some (push_kv (ekey e) (Some v) (ets e) 0)))
      | Q_SEARCH \<Rightarrow>
          (let sub = (case substr of None \<Rightarrow> [] | Some x \<Rightarrow> x); ks = key_score (ekey e) sub
           in (case read_val img e of
                 None \<Rightarrow> None
               | Some v \<Rightarrow> let vm = stristr v sub
                           in if ks = 0 \<and> \<not> vm then None
                              else Some (push_kv (ekey e) (Some v) (ets e) (ks + (if vm then 30 else 0))))))"

fun scan_walk :: "bytes \<Rightarrow> int \<Rightarrow> qmode \<Rightarrow> bytes option \<Rightarrow> bytes option \<Rightarrow> entry list \<Rightarrow> kv list \<Rightarrow> kv list \<times> bool" where
  "scan_walk img now mode prefix substr [] acc = (acc, False)"
| "scan_walk img now mode prefix substr (e # es) acc =
     (if expired now e then scan_walk img now mode prefix substr es acc
      else if length acc \<ge> MAX_QUERY then (acc, True)
      else (case scan_entry img mode prefix substr e of
              None \<Rightarrow> scan_walk img now mode prefix substr es acc
            | Some kv \<Rightarrow> scan_walk img now mode prefix substr es (acc @ [kv])))"

text \<open>The state after the query (the prefix array may have been rebuilt), the results, the flag.\<close>

definition store_query :: "store \<Rightarrow> qmode \<Rightarrow> bytes option \<Rightarrow> bytes option \<Rightarrow> bool \<Rightarrow> int
    \<Rightarrow> store \<times> kv list \<times> bool" where
  "store_query s mode prefix0 substr0 desc now =
     (let prefix = map_option cstr prefix0; substr = map_option cstr substr0
      in if mode = Q_LIST \<and> prefix \<noteq> None then
           let p = the prefix; s' = kix_ensure s;
               (arr, tr) = list_walk (sidx s') now p (drop (kix_range_lo (skix s') p) (skix s')) []
           in (s', qsort (if desc then cmp_list_desc else cmp_list_asc) arr, tr)
         else
           let (arr, tr) = scan_walk (simg s) now mode prefix substr (concat (buckets (sidx s))) []
           in (s, qsort (case mode of
                           Q_SEARCH \<Rightarrow> cmp_search
                         | Q_NOTES \<Rightarrow> cmp_notes_desc
                         | Q_LIST \<Rightarrow> if desc then cmp_list_desc else cmp_list_asc) arr, tr))"

subsection \<open>The comparators are orders\<close>

lemma memcmp_vals: "memcmp a b \<in> {-1, 0, 1}"
  by (induction a b rule: memcmp.induct) auto

lemma cmp_list_asc_kix: "cmp_list_asc x y = kix_cmp (kkey x) (kkey y)"
proof -
  have c: "memcmp a b \<noteq> 0 \<Longrightarrow> memcmp a b = (if memcmp a b < 0 then -1 else 1)" for a b
    using memcmp_vals [of a b] by auto
  show ?thesis
    unfolding cmp_list_asc_def kix_cmp_def Let_def using c by auto
qed

lemma kix_cmp_flip: "kix_cmp y x = - kix_cmp x y"
  using lex_lt_linear [of x y] lex_lt_trans [of x y x] by (auto simp: kix_cmp_lex)

interpretation la: comparator cmp_list_asc UNIV
proof unfold_locales
  fix x y z :: kv
  show "cmp_list_asc x y \<le> 0 \<longleftrightarrow> 0 \<le> cmp_list_asc y x"
    using kix_cmp_flip [of "kkey x" "kkey y"] by (simp add: cmp_list_asc_kix)
  show "cmp_list_asc x y \<le> 0 \<Longrightarrow> cmp_list_asc y z \<le> 0 \<Longrightarrow> cmp_list_asc x z \<le> 0"
    using kx.cmp_trans [of "kkey x" "kkey y" "kkey z"] by (simp add: cmp_list_asc_kix)
qed

interpretation ld: comparator cmp_list_desc UNIV
proof unfold_locales
  fix x y z :: kv
  show "cmp_list_desc x y \<le> 0 \<longleftrightarrow> 0 \<le> cmp_list_desc y x"
    using kix_cmp_flip [of "kkey x" "kkey y"] by (simp add: cmp_list_desc_def cmp_list_asc_kix)
  show "cmp_list_desc x y \<le> 0 \<Longrightarrow> cmp_list_desc y z \<le> 0 \<Longrightarrow> cmp_list_desc x z \<le> 0"
    using la.cmp_trans [of z y x] la.cmp_flip by (simp add: cmp_list_desc_def)
qed

interpretation nd: comparator cmp_notes_desc UNIV
proof unfold_locales
  fix x y z :: kv
  show "cmp_notes_desc x y \<le> 0 \<longleftrightarrow> 0 \<le> cmp_notes_desc y x"
    using ld.cmp_flip [of x y] by (auto simp: cmp_notes_desc_def)
  show "cmp_notes_desc x y \<le> 0 \<Longrightarrow> cmp_notes_desc y z \<le> 0 \<Longrightarrow> cmp_notes_desc x z \<le> 0"
    using ld.cmp_trans [of x y z] by (auto simp: cmp_notes_desc_def split: if_split_asm)
qed

interpretation se: comparator cmp_search UNIV
proof unfold_locales
  fix x y z :: kv
  show "cmp_search x y \<le> 0 \<longleftrightarrow> 0 \<le> cmp_search y x"
    using la.cmp_flip [of x y] by (auto simp: cmp_search_def)
  show "cmp_search x y \<le> 0 \<Longrightarrow> cmp_search y z \<le> 0 \<Longrightarrow> cmp_search x z \<le> 0"
    using la.cmp_trans [of x y z] by (auto simp: cmp_search_def split: if_split_asm)
qed

subsection \<open>Results are complete, bounded and sorted\<close>

lemma strncaseeq_iff:
  assumes "nul \<notin> set (take n b)" "n \<le> length b" "n \<le> length a"
  shows "strncaseeq a b n \<longleftrightarrow> map tolower (take n a) = map tolower (take n b)"
proof -
  have t: "tolower x = tolower nul \<Longrightarrow> x = nul" for x
  proof -
    have "tolower nul = nul" by code_simp
    moreover assume "tolower x = tolower nul"
    ultimately have e: "tolower x = nul" by simp
    show "x = nul"
    proof (cases "isupper x")
      case True
      then have "(of_char x :: nat) \<le> of_char (CHR ''Z'')" by (simp add: isupper_def less_eq_char_def)
      then have "(of_char x :: nat) + 32 < 256" by simp
      then have "of_char (tolower x) = (of_char x :: nat) + 32" using True by (simp add: tolower_def)
      then show ?thesis using e by simp
    qed (use e in \<open>simp add: tolower_def\<close>)
  qed
  show ?thesis
    using assms
  proof (induction a b n rule: strncaseeq.induct)
    case (2 x a y b n)
    then show ?case using t by auto
  qed auto
qed

lemma list_walk_bound:
  "length acc \<le> MAX_QUERY \<Longrightarrow> length (fst (list_walk ix now p cs acc)) \<le> MAX_QUERY"
  by (induction ix now p cs acc rule: list_walk.induct) (auto split: option.split)

lemma scan_walk_bound:
  "length acc \<le> MAX_QUERY \<Longrightarrow> length (fst (scan_walk img now mode prefix substr es acc)) \<le> MAX_QUERY"
  by (induction img now mode prefix substr es acc rule: scan_walk.induct) (auto split: option.split)

definition list_hit :: "hindex \<Rightarrow> int \<Rightarrow> bytes \<Rightarrow> kv option" where
  "list_hit ix now c = (case find_slot ix c of None \<Rightarrow> None
     | Some e \<Rightarrow> if expired now e then None else Some (push_kv c None (ets e) 0))"

lemma list_hit_Some:
  "list_hit ix now k = Some y \<longleftrightarrow>
    (\<exists>e. find_slot ix k = Some e \<and> \<not> expired now e \<and> y = push_kv k None (ets e) 0)"
  by (auto simp: list_hit_def split: option.split)

lemma list_walk_filter:
  "\<not> snd (list_walk ix now p cs acc) \<Longrightarrow>
   fst (list_walk ix now p cs acc) = acc @ List.map_filter (list_hit ix now) (takeWhile (has_prefix p) cs)"
  by (induction ix now p cs acc rule: list_walk.induct)
     (auto simp: list_hit_def List.map_filter_simps split: option.splits if_split_asm)

lemma scan_walk_filter:
  "\<not> snd (scan_walk img now mode prefix substr es acc) \<Longrightarrow>
   fst (scan_walk img now mode prefix substr es acc) =
     acc @ List.map_filter (\<lambda>e. if expired now e then None else scan_entry img mode prefix substr e) es"
  by (induction img now mode prefix substr es acc rule: scan_walk.induct)
     (auto simp: List.map_filter_simps split: option.splits if_split_asm)

lemma set_map_filter: "set (List.map_filter f xs) = {y. \<exists>x \<in> set xs. f x = Some y}"
  by (force simp: List.map_filter_def)

text \<open>Prefix listing: exactly the live keys with the prefix.\<close>

lemma query_list_prefix:
  assumes ok: "index_ok (sidx s)" and aux: "aux_inv s"
    and q: "store_query s Q_LIST (Some p) sub desc now = (s', arr, False)"
  shows "set arr = {push_kv k None (ets e) 0 | k e. take (length (cstr p)) k = cstr p \<and>
      find_slot (sidx s) k = Some e \<and> \<not> expired now e}"
    and "sorted_wrt (\<lambda>a b. (if desc then cmp_list_desc else cmp_list_asc) a b \<le> 0) arr"
    and "distinct arr" and "aux_inv s'" and "sidx s' = sidx s"
proof -
  let ?s = "kix_ensure s" and ?p = "cstr p"
  note ke = kix_ensure_ok [OF aux ok]
  have ks: "ksorted (skix ?s)" and comp: "dom (find_slot (sidx s)) \<subseteq> set (skix ?s)"
    using ke by (auto simp: aux_inv_def)
  let ?cs = "drop (kix_range_lo (skix ?s) ?p) (skix ?s)"
  let ?w = "list_walk (sidx ?s) now ?p ?cs []"
  have eq: "s' = ?s" "arr = qsort (if desc then cmp_list_desc else cmp_list_asc) (fst ?w)" "\<not> snd ?w"
    using q by (auto simp: store_query_def Let_def split_beta)
  have w: "fst ?w = List.map_filter (list_hit (sidx s) now) (kix_range (skix ?s) ?p)"
    using list_walk_filter [OF eq(3)] by (simp add: kix_range_def ke)
  have mem: "k \<in> set (kix_range (skix ?s) ?p) \<longleftrightarrow> k \<in> set (skix ?s) \<and> take (length ?p) k = ?p" for k
    by (simp add: kix_range_set(1) [OF ks])
  show "set arr = {push_kv k None (ets e) 0 | k e. take (length (cstr p)) k = cstr p \<and>
      find_slot (sidx s) k = Some e \<and> \<not> expired now e}"
  proof -
    have "set arr = {y. \<exists>k. (k \<in> set (skix ?s) \<and> take (length ?p) k = ?p) \<and> list_hit (sidx s) now k = Some y}"
      by (auto simp: eq(2) w set_map_filter mem)
    moreover have "find_slot (sidx s) k = Some e \<Longrightarrow> k \<in> set (skix ?s)" for k e using comp by blast
    ultimately show ?thesis unfolding list_hit_Some by blast
  qed
  show "sorted_wrt (\<lambda>a b. (if desc then cmp_list_desc else cmp_list_asc) a b \<le> 0) arr"
    using la.sorted_qsort [of "fst ?w"] ld.sorted_qsort [of "fst ?w"] by (simp add: eq(2))
  have "distinct (List.map_filter (list_hit (sidx s) now) xs)" if "distinct xs" for xs
    using that
    by (induction xs) (auto simp: List.map_filter_simps set_map_filter list_hit_def push_kv_def
        split: option.splits if_split_asm)
  then have "distinct (fst ?w)" using ksorted_distinct [OF kix_range_set(2) [OF ks]] by (simp add: w)
  then show "distinct arr" unfolding eq(2) by (metis mset_eq_imp_distinct_iff mset_qsort)
  show "aux_inv s'" "sidx s' = sidx s" using ke eq(1) by auto
qed

text \<open>The bucket scans: exactly the live entries the mode selects.\<close>

lemma query_scan:
  assumes ok: "index_ok (sidx s)" and mode: "mode \<noteq> Q_LIST \<or> prefix = None"
    and q: "store_query s mode prefix sub desc now = (s', arr, False)"
  shows "s' = s"
    and "set arr = {kv. \<exists>k e. find_slot (sidx s) k = Some e \<and> \<not> expired now e \<and>
      scan_entry (simg s) mode (map_option cstr prefix) (map_option cstr sub) e = Some kv}"
    and "mode = Q_SEARCH \<Longrightarrow> sorted_wrt (\<lambda>a b. cmp_search a b \<le> 0) arr"
    and "mode = Q_NOTES \<Longrightarrow> sorted_wrt (\<lambda>a b. cmp_notes_desc a b \<le> 0) arr"
proof -
  let ?pr = "map_option cstr prefix" and ?sb = "map_option cstr sub"
  let ?w = "scan_walk (simg s) now mode ?pr ?sb (concat (buckets (sidx s))) []"
  have m: "(mode = Q_LIST \<and> ?pr \<noteq> None) = False" using mode by auto
  let ?cmp = "case mode of Q_SEARCH \<Rightarrow> cmp_search | Q_NOTES \<Rightarrow> cmp_notes_desc
    | Q_LIST \<Rightarrow> if desc then cmp_list_desc else cmp_list_asc"
  have "(s, qsort ?cmp (fst ?w), snd ?w) = (s', arr, False)"
    using q unfolding store_query_def Let_def m if_False split_beta .
  then have eq: "s' = s" "arr = qsort ?cmp (fst ?w)" "\<not> snd ?w" by auto
  show "s' = s" by (rule eq)
  have "set arr = {kv. \<exists>e \<in> set (entries (sidx s)). \<not> expired now e \<and>
      scan_entry (simg s) mode ?pr ?sb e = Some kv}"
    using scan_walk_filter [OF eq(3)]
    by (auto simp: eq(2) set_map_filter entries_def split: if_split_asm)
  then show "set arr = {kv. \<exists>k e. find_slot (sidx s) k = Some e \<and> \<not> expired now e \<and>
      scan_entry (simg s) mode ?pr ?sb e = Some kv}"
    using entries_find [OF ok] find_slot_key by blast
  show "mode = Q_SEARCH \<Longrightarrow> sorted_wrt (\<lambda>a b. cmp_search a b \<le> 0) arr"
    using se.sorted_qsort [of "fst ?w"] by (simp add: eq(2))
  show "mode = Q_NOTES \<Longrightarrow> sorted_wrt (\<lambda>a b. cmp_notes_desc a b \<le> 0) arr"
    using nd.sorted_qsort [of "fst ?w"] by (simp add: eq(2))
qed

lemma query_bound: "length (fst (snd (store_query s mode prefix sub desc now))) \<le> MAX_QUERY"
  using list_walk_bound [of "[]"] scan_walk_bound [of "[]"]
  by (simp add: store_query_def Let_def split_beta)

text \<open>On an empty index nothing is found and nothing is cut.\<close>

lemma query_empty_index:
  assumes "index_ok (sidx s)" "aux_inv s" "find_slot (sidx s) = Map.empty"
    and "store_query s mode prefix sub desc now = (s', arr, tr)"
  shows "\<not> tr"
proof -
  have "concat (buckets (sidx s)) = []"
  proof (rule ccontr)
    assume "concat (buckets (sidx s)) \<noteq> []"
    then obtain e where "e \<in> set (entries (sidx s))" by (metis entries_def list.set_sel(1))
    then have "chain_find (ekey e) (entries (sidx s)) \<noteq> None" by (simp add: chain_find_None)
    then show False using find_slot_entries [OF assms(1), of "ekey e"] assms(3) by simp
  qed
  then have none: "scan_walk (simg s) now mode pr sb (concat (buckets (sidx s))) [] = ([], False)" for pr sb
    by (simp only: scan_walk.simps)
  have "list_walk (sidx (kix_ensure s)) now p cs [] = ([], False)" for p cs
  proof (induction cs)
    case (Cons c cs)
    have "sidx (kix_ensure s) = sidx s" by (simp add: kix_ensure_def)
    then show ?case using Cons assms(3) by (simp add: MAX_QUERY_def)
  qed simp
  then show ?thesis
    using assms(4) none by (auto simp: store_query_def Let_def split: if_split_asm)
qed

end
