(* ===== verification/Exo_Replication.thy ===== *)
theory Exo_Replication
  imports Exo_Store_Ops
begin

unbundle bit_operations_syntax

text \<open>
  Shipping the log: \<open>store_raw_len\<close>, \<open>store_raw_at\<close> on the primary and \<open>store_import_raw\<close> on the
  replica. A raw record is accepted exactly when it is the encoding of a good record, reading
  the primary at a record boundary gives that encoding, and importing it appends it.
\<close>

lemma list_by_nth4: "4 \<le> length b \<Longrightarrow> take 4 b = [b ! 0, b ! 1, b ! 2, b ! 3]"
  by (rule nth_equalityI) (auto simp: less_Suc_eq numeral_eq_Suc)

lemma list_by_nth8:
  "8 \<le> length b \<Longrightarrow> take 8 b = [b ! 0, b ! 1, b ! 2, b ! 3, b ! 4, b ! 5, b ! 6, b ! 7]"
  by (rule nth_equalityI) (auto simp: less_Suc_eq numeral_eq_Suc)

lemma bit_of_char_nat: "bit (of_char c :: nat) n \<Longrightarrow> n < 8"
proof -
  assume b: "bit (of_char c :: nat) n"
  have "take_bit 8 (of_char c :: nat) = of_char c"
    using of_char_lt_256 [of c] by (simp add: take_bit_nat_eq_self_iff)
  then show ?thesis using b by (metis bit_take_bit_iff)
qed

lemma bit_of_char: "bit (of_char c :: 'a::len word) n \<longleftrightarrow> n < LENGTH('a) \<and> bit (of_char c :: nat) n"
  by (simp add: of_char_word_nat bit_of_nat_iff)

lemma bit_of_char_high: "8 \<le> n \<Longrightarrow> \<not> bit (of_char c :: nat) n"
  using bit_of_char_nat [of c n] by auto

lemma byte_of_bits:
  assumes "\<And>n. n < 8 \<Longrightarrow> bit (w :: 'a::len word) n = bit (of_char c :: nat) n"
  shows "byte_of w = c"
proof -
  have "take_bit 8 (unat w) = of_char c"
  proof (rule bit_eqI)
    fix n
    show "bit (take_bit 8 (unat w)) n = bit (of_char c :: nat) n"
      using assms [of n] bit_of_char_nat [of c n] by (auto simp: bit_take_bit_iff bit_unsigned_iff)
  qed
  then have "unat w mod 256 = of_char c" by (simp add: take_bit_eq_mod)
  then show ?thesis by (metis byte_of_def char_of_char char_of_mod_256)
qed

lemma put_get_u32 [exo_codec]: "4 \<le> length b \<Longrightarrow> put_u32 (get_u32 b) = take 4 b"
  unfolding list_by_nth4 put_u32_def
  by (auto simp: get_u32_def bit_simps bit_of_char bit_of_char_high intro!: byte_of_bits)

lemma get_u64_bit:
  assumes "r < 8" "q < 8"
  shows "bit (get_u64 p) (8 * q + r) = bit (of_char (p ! q) :: nat) r"
proof -
  have "q \<in> {0, 1, 2, 3, 4, 5, 6, 7}" using assms(2) by auto
  then show ?thesis using assms(1)
    by (elim insertE emptyE) (simp_all add: get_u64_def bit_simps bit_of_char bit_of_char_high)
qed

lemmas get_u64_bits = get_u64_bit [of _ 0, simplified] get_u64_bit [of _ 1, simplified]
  get_u64_bit [of _ 2, simplified] get_u64_bit [of _ 3, simplified] get_u64_bit [of _ 4, simplified]
  get_u64_bit [of _ 5, simplified] get_u64_bit [of _ 6, simplified] get_u64_bit [of _ 7, simplified]

lemma put_get_u64 [exo_codec]: "8 \<le> length b \<Longrightarrow> put_u64 (get_u64 b) = take 8 b"
  unfolding list_by_nth8 put_u64_def
  by (auto simp: bit_simps get_u64_bits intro!: byte_of_bits)

subsection \<open>Accepted raw records are encodings\<close>

lemma take_drop_split: "k \<le> n \<Longrightarrow> n \<le> length xs \<Longrightarrow> take k xs @ take (n - k) (drop k xs) = take n xs"
  by (metis le_add_diff_inverse take_add)

lemma enc_hdr_parse:
  assumes len: "HDR_SIZE \<le> length b" and magic: "take 4 b = MAGIC"
    and kl: "length key = hdr_klen b" and vl: "length val = hdr_vlen b"
    and crc: "rec_crc key val = hdr_crc b"
  shows "enc_hdr \<lparr>lflags = of_char (b ! 4), lts = hdr_ts b, lttl = hdr_ttl b, lkey = key, lval = val\<rparr> =
    take HDR_SIZE b"
proof -
  have n: "33 \<le> length b" using len by (simp add: HDR_SIZE_def)
  have fl: "[byte_of (of_char (b ! 4) :: u8)] = take 1 (drop 4 b)"
    using n by (simp add: byte_of_of_char take_Suc_conv_app_nth)
  have ts: "put_u64 (word_of_int (hdr_ts b)) = take 8 (drop 5 b)"
    and ttl: "put_u64 (word_of_int (hdr_ttl b)) = take 8 (drop 21 b)"
    using n by (simp_all add: hdr_ts_def hdr_ttl_def put_get_u64)
  have k: "put_u32 (of_nat (length key)) = take 4 (drop 13 b)"
    and v: "put_u32 (of_nat (length val)) = take 4 (drop 17 b)"
    and c: "put_u32 (rec_crc key val) = take 4 (drop 29 b)"
    using n by (simp_all add: kl vl crc hdr_klen_def hdr_vlen_def hdr_crc_def put_get_u32)
  have "take 33 b = take 4 b @ take 1 (drop 4 b) @ take 8 (drop 5 b) @ take 4 (drop 13 b) @
      take 4 (drop 17 b) @ take 8 (drop 21 b) @ take 4 (drop 29 b)"
    using take_drop_split [of 4 5 b] take_drop_split [of 5 13 b] take_drop_split [of 13 17 b]
      take_drop_split [of 17 21 b] take_drop_split [of 21 29 b] take_drop_split [of 29 33 b] n
    by (simp flip: append_assoc)
  then show ?thesis
    by (simp only: enc_hdr_def lrec.simps fl ts ttl k v c magic [symmetric] HDR_SIZE_def)
qed

lemma int64_sint: "int64 (sint (w :: u64))"
  using sint_ge [of w] sint_less [of w] by (simp add: int64_def)

text \<open>The records the check accepts are the encodings of good records; tombstones are empty.\<close>

definition raw_ok :: "lrec \<Rightarrow> bool" where
  "raw_ok r \<longleftrightarrow> rec_ok r \<and> (is_tomb r \<longrightarrow> lval r = [])"

lemma import_check_sound:
  assumes "import_check b = Some r"
  shows "b = enc_rec r" and "raw_ok r"
proof -
  let ?k = "hdr_klen b" and ?v = "hdr_vlen b"
  have len: "length b = HDR_SIZE + ?k + ?v" and magic: "take 4 b = MAGIC"
    and bd: "?k \<le> MAX_KEY" "?v \<le> MAX_VAL"
    and crc: "rec_crc (take ?k (drop HDR_SIZE b)) (take ?v (drop (HDR_SIZE + ?k) b)) = hdr_crc b"
    and r: "r = \<lparr>lflags = of_char (b ! 4), lts = hdr_ts b, lttl = hdr_ttl b,
      lkey = take ?k (drop HDR_SIZE b), lval = take ?v (drop (HDR_SIZE + ?k) b)\<rparr>"
    and tomb: "is_tomb r \<longrightarrow> ?v = 0"
    using assms by (auto simp: import_check_def raw_hdr_def Let_def is_tomb_def split: if_split_asm)
  have kl: "length (lkey r) = ?k" and vl: "length (lval r) = ?v" using len by (simp_all add: r)
  have "enc_hdr r = take HDR_SIZE b"
    unfolding r by (rule enc_hdr_parse) (use len magic crc in auto)
  moreover have "lkey r @ lval r = drop HDR_SIZE b"
  proof -
    have "take ?v (drop (HDR_SIZE + ?k) b) = drop ?k (drop HDR_SIZE b)" using len by (simp add: add.commute)
    then have "lkey r @ lval r = take ?k (drop HDR_SIZE b) @ drop ?k (drop HDR_SIZE b)" by (simp add: r)
    then show ?thesis by (simp only: append_take_drop_id)
  qed
  ultimately show "b = enc_rec r" by (simp add: enc_rec_def)
  have "lts r = hdr_ts b" "lttl r = hdr_ttl b" by (simp_all add: r)
  then have "int64 (lts r)" "int64 (lttl r)" by (simp_all add: hdr_ts_def hdr_ttl_def int64_sint)
  moreover have "is_tomb r \<longrightarrow> lval r = []" using tomb vl by (metis length_0_conv)
  ultimately show "raw_ok r" using bd by (simp add: raw_ok_def rec_ok_def kl vl)
qed

lemma import_check_enc:
  assumes ok: "raw_ok r"
  shows "import_check (enc_rec r) = Some r"
proof -
  have bd: "length (lkey r) \<le> MAX_KEY" "length (lval r) \<le> MAX_VAL" "int64 (lts r)" "int64 (lttl r)"
    using ok by (auto simp: raw_ok_def rec_ok_def)
  have sub: "take 4 (enc_rec r) = take 4 (enc_hdr r)" "enc_rec r ! 4 = enc_hdr r ! 4"
    by (simp_all add: enc_rec_def HDR_SIZE_def nth_append)
  have get32: "get_u32 (drop n (enc_rec r)) = get_u32 (drop n (enc_hdr r))" if "n + 4 \<le> 33" for n
    using that by (simp add: get_u32_def enc_rec_def HDR_SIZE_def nth_append)
  have get64: "get_u64 (drop n (enc_rec r)) = get_u64 (drop n (enc_hdr r))" if "n + 8 \<le> 33" for n
    using that by (simp add: get_u64_def enc_rec_def HDR_SIZE_def nth_append)
  have kl: "hdr_klen (enc_rec r) = length (lkey r)" and vl: "hdr_vlen (enc_rec r) = length (lval r)"
    using bd enc_hdr_lens [of r] by (simp_all add: hdr_klen_def hdr_vlen_def get32 MAX_VAL_def)
  have f: "hdr_ts (enc_rec r) = lts r" "hdr_ttl (enc_rec r) = lttl r"
    "hdr_crc (enc_rec r) = rec_crc (lkey r) (lval r)" "(of_char (enc_rec r ! 4) :: u8) = lflags r"
    using bd by (simp_all add: hdr_ts_def hdr_ttl_def hdr_crc_def get32 get64 sub enc_hdr_fields
      sint_word_of_int64 of_char_byte_of_u8)
  have k: "take (length (lkey r)) (drop HDR_SIZE (enc_rec r)) = lkey r"
    and v: "take (length (lval r)) (drop (HDR_SIZE + length (lkey r)) (enc_rec r)) = lval r"
    by (simp_all add: enc_rec_def)
  show ?thesis
    using bd ok
    by (simp add: import_check_def raw_hdr_def sub(1) enc_hdr_fields(1) kl vl f k v Let_def rlen_def raw_ok_def is_tomb_def)
       blast
qed

subsection \<open>Importing appends\<close>

lemma store_import_ok:
  assumes inv: "store_inv t rs s" and chk: "import_check b = Some r"
    and fit: "fits (w_write w) (length b)" and sync: "w_sync w"
    and now: "t \<le> w_cnow w" and fine: "compact_fine w"
  shows "snd (store_import_raw s b w) = 0"
    and "\<exists>rs'. store_inv (w_cnow w) rs' (fst (store_import_raw s b w)) \<and> follows rs' (w_cnow w) (rs @ [r])"
    and "clean s \<Longrightarrow> clean (fst (store_import_raw s b w))"
proof -
  have b: "b = enc_rec r" and r: "rec_ok r" using import_check_sound [OF chk] by (auto simp: raw_ok_def)
  have w: "dev_write (simg s) (ssize s) b (w_write w) =
      (pwrite (simg s) (ssize s) b, True, map_option (\<lambda>k. k - length b) (w_write w))"
    using fit by (auto simp: dev_write_pwrite fits_def split: option.split)
  let ?s2 = "s\<lparr>simg := pwrite (simg s) (ssize s) b, ssize := ssize s + length b\<rparr>"
  define s4 where "s4 = (let s3 = apply_rec ?s2 (ssize s) r
    in if is_tomb r then s3\<lparr>skix := kix_remove (skix s3) (lkey r), ndeletes := ndeletes s3 + 1\<rparr>
       else s3\<lparr>skix := kix_insert (skix s3) (lkey r), nwrites := nwrites s3 + 1\<rparr>)"
  have eq: "store_import_raw s b w = (maybe_compact s4 w, 0)"
    using w sync by (simp add: store_import_raw_def chk Let_def s4_def)
  have ok: "index_ok (sidx ?s2)" using inv by (simp add: store_inv_def)
  have inv4: "store_inv t (rs @ [r]) s4"
  proof (rule store_inv_snoc [OF inv r])
    show "index_ok (sidx s4)" using apply_rec_index(1) [OF ok] by (simp add: s4_def Let_def)
    show "find_slot (sidx s4) = replay_rec (ssize s) r (find_slot (sidx s))"
      using apply_rec_index(2) [OF ok, of "ssize s" r] by (simp add: s4_def Let_def)
    show "take (ssize s4) (simg s4) = take (ssize s) (simg s) @ enc_rec r"
      using take_write_rec(1) [OF inv, of r] b by (simp add: s4_def Let_def)
  qed (simp add: s4_def Let_def b)
  from maybe_compact_inv [OF inv4 now fine]
  show "\<exists>rs'. store_inv (w_cnow w) rs' (fst (store_import_raw s b w)) \<and> follows rs' (w_cnow w) (rs @ [r])"
    by (simp add: eq follows_def)
  show "snd (store_import_raw s b w) = 0" by (simp add: eq)
  show "clean (fst (store_import_raw s b w))" if "clean s"
    using compact_clean [OF inv4 _ now fine] that
    by (simp add: eq s4_def Let_def clean_def length_pwrite_end)
qed

lemma aux_inv_import:
  assumes ok: "index_ok (sidx s)" and aux: "aux_inv s"
  shows "aux_inv (fst (store_import_raw s b w))"
proof (cases "import_check b")
  case (Some r)
  obtain img wok bud where w: "dev_write (simg s) (ssize s) b (w_write w) = (img, wok, bud)"
    by (rule prod_cases3)
  let ?s2 = "s\<lparr>simg := img, ssize := ssize s + length b\<rparr>"
  define s4 where "s4 = (let s3 = apply_rec ?s2 (ssize s) r
    in if is_tomb r then s3\<lparr>skix := kix_remove (skix s3) (lkey r), ndeletes := ndeletes s3 + 1\<rparr>
       else s3\<lparr>skix := kix_insert (skix s3) (lkey r), nwrites := nwrites s3 + 1\<rparr>)"
  have res: "fst (store_import_raw s b w) \<in> {s\<lparr>simg := img\<rparr>, ?s2, maybe_compact s4 w}"
    using w by (simp add: store_import_raw_def Some Let_def s4_def)
  have ok2: "index_ok (sidx ?s2)" using ok by simp
  have i4: "index_ok (sidx s4)" "find_slot (sidx s4) = replay_rec (ssize s) r (find_slot (sidx s))"
    using apply_rec_index [OF ok2, of "ssize s" r] by (simp_all add: s4_def Let_def)
  have vk: "vkey ` set (svecs s) \<subseteq> dom (find_slot (sidx s))" and vo: "vecs_ok (svecs s)"
    using aux by (simp_all add: aux_inv_def)
  have "aux_inv s4"
  proof (cases "is_tomb r")
    case True
    have "vec_index_del (svecs s) (lkey r) = svecs s" if "find_slot (sidx s) (lkey r) = None"
    proof -
      have "lkey r \<notin> vkey ` set (svecs s)" using vk that by auto
      then show ?thesis by (simp add: vec_index_del_def flip: vec_pos_None)
    qed
    then have "svecs s4 = vec_index_del (svecs s) (lkey r)"
      using True by (auto simp: s4_def Let_def apply_rec_def split: option.split)
    then show ?thesis
      using True i4(2) by (intro aux_inv_del [OF aux, of _ "lkey r"])
        (simp_all add: replay_rec_def s4_def Let_def)
  next
    case False
    have "svecs s4 = vec_index_add (svecs s) (lkey r) (lval r) (if lttl r \<noteq> 0 then lts r + lttl r else 0)"
      using False by (simp add: s4_def Let_def apply_rec_def split_beta)
    then show ?thesis
      using False i4(2) by (intro aux_inv_put [OF aux, of _ "lkey r"])
        (simp_all add: replay_rec_def s4_def Let_def)
  qed
  then have "aux_inv (maybe_compact s4 w)" using i4(1) by (intro aux_inv_compact)
  moreover have "aux_inv (s\<lparr>simg := img\<rparr>)" "aux_inv ?s2" using aux by (simp_all add: aux_inv_def)
  ultimately show ?thesis using res by (elim insertE emptyE) (simp_all only:)
qed (use aux in \<open>simp add: store_import_raw_def\<close>)

subsection \<open>Reading the log\<close>

text \<open>At a record boundary the primary hands out the record's encoding.\<close>

lemma store_raw_at_boundary:
  assumes inv: "store_inv t (xs @ r # ys) s" and cap: "rlen r \<le> cap"
  shows "store_raw_at s (length (log_bytes xs)) cap = (int (rlen r), enc_rec r)"
    and "store_raw_len s (length (log_bytes xs)) = int (rlen r)"
proof -
  let ?o = "length (log_bytes xs)"
  have i: "take (ssize s) (simg s) = log_bytes (xs @ r # ys)" "ssize s = length (log_bytes (xs @ r # ys))"
    and ok: "rec_ok r" using inv unfolding store_inv_def by auto
  define tail where "tail = drop (ssize s) (simg s)"
  have "simg s = log_bytes (xs @ r # ys) @ tail" using i(1) by (metis append_take_drop_id tail_def)
  then have img: "simg s = log_bytes xs @ enc_rec r @ log_bytes ys @ tail" by (simp add: log_bytes_append)
  have sz: "ssize s = ?o + rlen r + length (log_bytes ys)" using i(2) by (simp add: log_bytes_append)
  have hdr: "pread (simg s) ?o HDR_SIZE = enc_hdr r"
    using pread_mid [of "enc_hdr r" HDR_SIZE "log_bytes xs"] by (simp add: img enc_rec_def)
  have all: "pread (simg s) ?o (HDR_SIZE + length (lkey r) + length (lval r)) = enc_rec r"
    using pread_mid [of "enc_rec r" "rlen r" "log_bytes xs"] by (simp add: img rlen_def)
  have rh: "raw_hdr (enc_hdr r) = Some (length (lkey r), length (lval r))"
    using ok enc_hdr_lens [of r] by (simp add: raw_hdr_def enc_hdr_fields(1) rec_ok_def MAX_VAL_def)
  have c: "hdr_crc (enc_hdr r) = rec_crc (lkey r) (lval r)" by (simp add: hdr_crc_def enc_hdr_fields)
  show "store_raw_len s ?o = int (rlen r)"
    using sz rlen_pos [of r] by (simp add: store_raw_len_def Let_def hdr rh rlen_def)
  show "store_raw_at s ?o cap = (int (rlen r), enc_rec r)"
    using sz rlen_pos [of r] cap
    by (simp add: store_raw_at_def Let_def hdr rh all c rlen_def) (auto simp: enc_rec_def HDR_SIZE_def)
qed

lemma store_raw_at_end: "ssize s \<le> off \<Longrightarrow> store_raw_at s off cap = (0, []) \<and> store_raw_len s off = 0"
  by (simp add: store_raw_at_def store_raw_len_def)

end
