(* ===== verification/Exo_History.thy ===== *)
theory Exo_History
  imports Exo_Replication
begin

text \<open>
  The specification of the store: a map from keys to values with their write time and expiry.
  A command history run on the store from an empty file shows, at every later time, what the
  same history gives on the map; closing and reopening the file in between changes nothing.
\<close>

type_synonym smap = "bytes \<Rightarrow> (bytes \<times> int \<times> int) option"

datatype cmd =
    CSet bytes bytes int bool
  | CDel bytes
  | CGet bytes
  | CImport bytes
  | CRestore "(bytes \<times> bytes) list"
  | CReset
  | CReopen

fun exec_cmd :: "int \<Rightarrow> cmd \<Rightarrow> store \<Rightarrow> store" where
  "exec_cmd t (CSet k v ttl app) s = fst (store_set s k v ttl app (healthy t))"
| "exec_cmd t (CDel k) s = fst (store_del s k (healthy t))"
| "exec_cmd t (CGet k) s = fst (store_get s k t)"
| "exec_cmd t (CImport b) s = fst (store_import_raw s b (healthy t))"
| "exec_cmd t (CRestore kvs) s = fst (store_restore s kvs (healthy t))"
| "exec_cmd t CReset s = store_reset s (healthy t)"
| "exec_cmd t CReopen s = store_open (store_close s) (healthy t)"

definition live_at :: "int \<Rightarrow> (bytes \<times> int \<times> int) option \<Rightarrow> (bytes \<times> int \<times> int) option" where
  "live_at t x = (case x of None \<Rightarrow> None
     | Some (v, ts, ex) \<Rightarrow> if ex \<noteq> 0 \<and> t > ex then None else Some (v, ts, ex))"

definition spec_value :: "int \<Rightarrow> smap \<Rightarrow> bytes \<Rightarrow> bytes \<Rightarrow> bool \<Rightarrow> bytes" where
  "spec_value t m k v app =
     (if app then (case live_at t (m k) of None \<Rightarrow> v
        | Some (old, ts, ex) \<Rightarrow> old @ (if old \<noteq> [] \<and> last old \<noteq> nl then [nl] else []) @ v)
      else v)"

definition spec_put :: "lrec \<Rightarrow> smap \<Rightarrow> smap" where
  "spec_put r m = m(lkey r := (if is_tomb r then None
     else Some (lval r, lts r, if lttl r \<noteq> 0 then lts r + lttl r else 0)))"

fun spec_cmd :: "int \<Rightarrow> cmd \<Rightarrow> smap \<Rightarrow> smap" where
  "spec_cmd t (CSet k v ttl app) m =
     (if key_ok k \<and> length v \<le> MAX_VAL
      then m(k \<mapsto> (spec_value t m k v app, t, if clamp_ttl ttl \<noteq> 0 then t + clamp_ttl ttl * 1000 else 0))
      else m)"
| "spec_cmd t (CDel k) m = (if key_ok k then m(k := None) else m)"
| "spec_cmd t (CGet k) m = m"
| "spec_cmd t (CImport b) m = (case import_check b of None \<Rightarrow> m | Some r \<Rightarrow> spec_put r m)"
| "spec_cmd t (CRestore kvs) m =
     (if list_all kv_ok kvs then (\<lambda>k. map_option (\<lambda>v. (v, t, 0)) (map_of (rev kvs) k)) else m)"
| "spec_cmd t CReset m = Map.empty"
| "spec_cmd t CReopen m = m"

text \<open>An append whose result would exceed the value limit of the log reader is excluded.\<close>

fun cmd_fits :: "int \<Rightarrow> cmd \<Rightarrow> smap \<Rightarrow> bool" where
  "cmd_fits t (CSet k v ttl app) m = (length (spec_value t m k v app) \<le> MAX_VAL)"
| "cmd_fits t _ m = True"

fun run_cmds :: "(int \<times> cmd) list \<Rightarrow> store \<Rightarrow> store" where
  "run_cmds [] s = s"
| "run_cmds ((t, c) # cs) s = run_cmds cs (exec_cmd t c s)"

fun spec_cmds :: "(int \<times> cmd) list \<Rightarrow> smap \<Rightarrow> smap" where
  "spec_cmds [] m = m"
| "spec_cmds ((t, c) # cs) m = spec_cmds cs (spec_cmd t c m)"

text \<open>The clock does not run backwards and stays in range, and every command fits.\<close>

fun history_ok :: "int \<Rightarrow> (int \<times> cmd) list \<Rightarrow> smap \<Rightarrow> bool" where
  "history_ok t0 [] m \<longleftrightarrow> True"
| "history_ok t0 ((t, c) # cs) m \<longleftrightarrow>
     t0 \<le> t \<and> int64 t \<and> cmd_fits t c m \<and> history_ok t cs (spec_cmd t c m)"

fun last_time :: "int \<Rightarrow> (int \<times> cmd) list \<Rightarrow> int" where
  "last_time t0 [] = t0"
| "last_time t0 ((t, c) # cs) = last_time t cs"

subsection \<open>The simulation\<close>

definition sim :: "int \<Rightarrow> store \<Rightarrow> smap \<Rightarrow> bool" where
  "sim t s m \<longleftrightarrow> (\<exists>rs. store_inv t rs s \<and> clean s \<and> aux_inv s \<and> (\<forall>u \<ge> t. \<forall>k. log_view rs u k = live_at u (m k)))"

lemma healthy_simps [simp]:
  "w_ts (healthy t) = t" "w_now (healthy t) = t" "w_cnow (healthy t) = t" "w_write (healthy t) = None"
  "w_sync (healthy t)" "w_trunc (healthy t)" "w_topen (healthy t)" "w_twrite (healthy t) = (\<lambda>_. None)"
  "w_tsync (healthy t)" "w_rename (healthy t)" "compact_fine (healthy t)" "fits None n"
  by (simp_all add: healthy_def compact_fine_def fits_def)

lemma sim_view: "sim t s m \<Longrightarrow> t \<le> u \<Longrightarrow> view s u = (\<lambda>k. live_at u (m k))"
  by (auto simp: sim_def fun_eq_iff view_log)

lemma sim_mono: "sim t s m \<Longrightarrow> t \<le> t' \<Longrightarrow> sim t' s m"
  unfolding sim_def store_inv_def using agree_mono by (meson order_trans)

lemma live_at_put: "live_at u ((m(k := x)) j) = ((\<lambda>j. live_at u (m j))(k := live_at u x)) j"
  by simp

lemma merge_view:
  "merge_append s k v t = (case view s t k of None \<Rightarrow> v
     | Some (old, ts, ex) \<Rightarrow> old @ (if old \<noteq> [] \<and> last old \<noteq> nl then [nl] else []) @ v)"
  by (simp add: merge_append_def view_def split: option.split)

lemma spec_value_view:
  assumes "sim t s m"
  shows "set_value s k v app (healthy t) = spec_value t m k v app"
  by (simp add: set_value_def spec_value_def merge_view sim_view [OF assms])

lemma live_at_rec: "live_at u (spec_put r m k) = ((\<lambda>k. live_at u (m k))(lkey r := live_rec u r)) k"
  by (auto simp: spec_put_def live_at_def live_rec_def Let_def)

lemma follows_sim:
  assumes f: "follows rs' t (rs @ [r])" and v: "\<forall>u \<ge> t. \<forall>k. log_view rs u k = live_at u (m k)"
    and inv: "store_inv t rs' s'" "clean s'" "aux_inv s'"
  shows "sim t s' (spec_put r m)"
proof -
  have "log_view rs' u k = live_at u (spec_put r m k)" if "t \<le> u" for u k
  proof -
    have "log_view rs u = (\<lambda>k. live_at u (m k))" using v that by auto
    then show ?thesis using f that by (simp add: follows_def log_view_snoc live_at_rec)
  qed
  then show ?thesis using inv unfolding sim_def by blast
qed

lemma spec_put_set: "spec_put (set_rec k v ttl t) m =
    m(k \<mapsto> (v, t, if clamp_ttl ttl \<noteq> 0 then t + clamp_ttl ttl * 1000 else 0))"
  by (simp add: spec_put_def) (simp add: set_rec_def)

lemma spec_put_del: "spec_put (del_rec k t) m = m(k := None)"
  by (simp add: spec_put_def) (simp add: del_rec_def)

lemma exec_sim:
  assumes sim: "sim t0 s m" and t: "t0 \<le> t" "int64 t" and fits: "cmd_fits t c m"
  shows "sim t (exec_cmd t c s) (spec_cmd t c m)"
proof -
  have "sim t s m" using sim t(1) by (rule sim_mono)
  then obtain rs where inv: "store_inv t rs s" "clean s" and aux: "aux_inv s"
    and v: "\<forall>u \<ge> t. \<forall>k. log_view rs u k = live_at u (m k)" by (auto simp: sim_def)
  have ok: "index_ok (sidx s)" and rok: "\<forall>r \<in> set rs. rec_ok r"
    using inv(1) by (auto simp: store_inv_def)
  note sv = spec_value_view [OF \<open>sim t s m\<close>]
  show ?thesis
  proof (cases c)
    case (CSet k v ttl app)
    show ?thesis
    proof (cases "key_ok k \<and> length v \<le> MAX_VAL")
      case True
      have p: "key_ok k" "length v \<le> MAX_VAL" "length (set_value s k v app (healthy t)) \<le> MAX_VAL"
        using True fits CSet by (auto simp: sv)
      note set_ok = store_set_ok [OF inv(1) p, where ttl = ttl, simplified, OF t(2)]
      obtain rs' where rs': "store_inv t rs' (exec_cmd t c s)"
          "follows rs' t (rs @ [set_rec k (spec_value t m k v app) ttl t])"
        using set_ok(2) CSet by (auto simp: sv)
      have "clean (exec_cmd t c s)" "aux_inv (exec_cmd t c s)"
        using set_ok(3) inv(2) aux_inv_set [OF ok aux] CSet by auto
      with follows_sim [OF rs'(2) v rs'(1)]
      show ?thesis using True CSet by (simp add: spec_put_set)
    next
      case False
      then have "exec_cmd t c s = s" using CSet by (auto simp: store_set_def key_ok_def)
      moreover have "spec_cmd t c m = m" using False CSet by auto
      ultimately show ?thesis using \<open>sim t s m\<close> by simp
    qed
  next
    case (CDel k)
    show ?thesis
    proof (cases "key_ok k")
      case True
      note del_ok = store_del_ok [OF inv(1) True, where w = "healthy t", simplified, OF t(2)]
      obtain rs' where rs': "store_inv t rs' (exec_cmd t c s)" "follows rs' t (rs @ [del_rec k t])"
        using del_ok(2) CDel by auto
      have "clean (exec_cmd t c s)" "aux_inv (exec_cmd t c s)"
        using del_ok(3) inv(2) aux_inv_store_del [OF ok aux] CDel by auto
      with follows_sim [OF rs'(2) v rs'(1)] show ?thesis using True CDel by (simp add: spec_put_del)
    next
      case False
      then have "exec_cmd t c s = s" using CDel by (auto simp: store_del_def key_ok_def)
      then show ?thesis using \<open>sim t s m\<close> False CDel by simp
    qed
  next
    case (CGet k)
    have "store_inv t rs (exec_cmd t c s)" using inv(1) CGet store_get_frame(1) by simp
    moreover have "clean (exec_cmd t c s)" "aux_inv (exec_cmd t c s)"
      using inv(2) aux CGet by (auto simp: store_get_def clean_def aux_inv_def split: option.split)
    ultimately show ?thesis using v CGet by (auto simp: sim_def)
  next
    case (CImport b)
    show ?thesis
    proof (cases "import_check b")
      case None
      then show ?thesis using \<open>sim t s m\<close> CImport by (simp add: store_import_raw_def)
    next
      case (Some r)
      note imp = store_import_ok [OF inv(1) Some, where w = "healthy t", simplified]
      obtain rs' where rs': "store_inv t rs' (exec_cmd t c s)" "follows rs' t (rs @ [r])"
        using imp(2) CImport by auto
      have "clean (exec_cmd t c s)" "aux_inv (exec_cmd t c s)"
        using imp(3) inv(2) aux_inv_import [OF ok aux] CImport by auto
      with follows_sim [OF rs'(2) v rs'(1)] show ?thesis using Some CImport by simp
    qed
  next
    case (CRestore kvs)
    show ?thesis
    proof (cases "list_all kv_ok kvs")
      case False
      then show ?thesis using \<open>sim t s m\<close> CRestore by (simp add: store_restore_def)
    next
      case True
      let ?rs = "map (\<lambda>(k, v). set_rec k v 0 t) kvs"
      note res = store_restore_ok [OF True _ ok, where w = "healthy t", simplified, OF t(2)]
      have lv: "log_view ?rs u k = live_at u (map_option (\<lambda>v. (v, t, 0)) (map_of (rev kvs) k))" for u k
      proof (induction kvs rule: rev_induct)
        case (snoc kv kvs)
        obtain k' v' where kv: "kv = (k', v')" by fastforce
        have "live_rec u (set_rec k' v' 0 t) = Some (v', t, 0)"
          by (simp add: live_rec_def Let_def) (simp add: set_rec_def clamp_ttl_def)
        moreover have "lkey (set_rec k' v' 0 t) = k'" by (simp add: set_rec_def)
        ultimately show ?case using snoc kv by (simp add: log_view_snoc live_at_def)
      qed (simp add: live_at_def)
      have "aux_inv (exec_cmd t c s)"
      proof -
        let ?s1 = "s\<lparr>simg := log_bytes ?rs, sidx := \<lparr>buckets = replicate (length (buckets (sidx s))) [], icount = 0\<rparr>,
          sdead := 0, ssize := 0\<rparr>"
        have "0 < length (buckets (sidx s))" using ok by (auto simp: index_ok_def)
        then have "aux_inv (store_load ?s1 True)"
          using aux by (intro aux_inv_load(1)) (simp_all add: index_ok_cleared aux_inv_def)
        moreover have "restore_write (w_twrite (healthy t)) t kvs [] 0 0 = (log_bytes ?rs, True)"
          using restore_write_ok [of t kvs "[]" 0] by (simp add: restore_set_rec)
        ultimately show ?thesis using True CRestore by (simp add: store_restore_def Let_def aux_inv_def)
      qed
      then show ?thesis using res True CRestore lv unfolding sim_def by auto
    qed
  next
    case CReset
    have "aux_inv (store_reset s (healthy t))"
      unfolding store_reset_def Let_def
    proof (rule aux_inv_load(1))
      have "0 < length (buckets (sidx s))" using ok by (auto simp: index_ok_def)
      then show "index_ok (sidx (clear_index s\<lparr>simg := if w_trunc (healthy t) then [] else simg (clear_index s),
          ssize := 0, sdead := 0, skix_dirty := True\<rparr>))"
        by (simp add: clear_index_def index_ok_cleared)
    qed (simp add: clear_index_def)
    then show ?thesis
      using store_reset_ok(1) [OF ok, of "healthy t" t] store_reset_ok(2) [OF ok, of "healthy t"] CReset
      unfolding sim_def by (intro exI [of _ "[]"]) (simp add: live_at_def)
  next
    case CReopen
    have "simg s = log_bytes rs" using clean_img inv by blast
    moreover have "aux_inv (store_open (log_bytes rs) (healthy t))"
      unfolding store_open_def by (rule aux_inv_load(1)) simp_all
    ultimately show ?thesis
      using store_open_clean [OF rok, of "healthy t"] CReopen v unfolding sim_def
      by (intro exI [of _ rs]) (simp add: store_close_def)
  qed
qed

lemma run_sim: "sim t0 s m \<Longrightarrow> history_ok t0 cs m \<Longrightarrow> sim (last_time t0 cs) (run_cmds cs s) (spec_cmds cs m)"
proof (induction cs arbitrary: t0 s m)
  case (Cons tc cs)
  obtain t c where tc: "tc = (t, c)" by fastforce
  have "sim t (exec_cmd t c s) (spec_cmd t c m)"
    using Cons.prems tc by (intro exec_sim) auto
  then show ?case using Cons.IH Cons.prems(2) tc by simp
qed simp

lemma sim_open: "sim t (store_open [] (healthy t)) Map.empty"
proof -
  have "aux_inv (store_open [] (healthy t))"
    unfolding store_open_def by (rule aux_inv_load(1)) simp_all
  then show ?thesis
    using store_open_clean(1) [of "[]" "healthy t" t] store_open_clean(2) [of "[]" "healthy t"] unfolding sim_def by (auto simp: live_at_def)
qed

text \<open>Histories from the empty file refine the map.\<close>

lemma history_refines:
  assumes "history_ok t0 cs Map.empty" "last_time t0 cs \<le> u"
  shows "view (run_cmds cs (store_open [] (healthy t0))) u = (\<lambda>k. live_at u (spec_cmds cs Map.empty k))"
  using sim_view [OF run_sim [OF sim_open assms(1)] assms(2)] .

lemma history_invariant:
  "history_ok t0 cs Map.empty \<Longrightarrow>
   \<exists>rs. store_inv (last_time t0 cs) rs (run_cmds cs (store_open [] (healthy t0))) \<and>
     clean (run_cmds cs (store_open [] (healthy t0))) \<and> aux_inv (run_cmds cs (store_open [] (healthy t0)))"
  using run_sim [OF sim_open, of t0 cs] unfolding sim_def by blast

end
