(* ===== verification/Exo_B64.thy ===== *)
theory Exo_B64
  imports Exo_Bytes
begin

unbundle bit_operations_syntax

text \<open>Base64 as in \<open>src/util.c\<close> (\<open>b64_encode\<close>, \<open>b64_make_dtab\<close>, \<open>b64_decode\<close>).\<close>

definition b64tab :: string where
  "b64tab = ''ABCDEFGHIJKLMNOPQRSTUVWXYZabcdefghijklmnopqrstuvwxyz0123456789+/''"

definition b64_at :: "u32 \<Rightarrow> nat \<Rightarrow> char" where
  "b64_at v k = b64tab ! unat (drop_bit k v AND 63)"

fun b64_encode :: "bytes \<Rightarrow> string" where
  "b64_encode (a # b # c # r) =
     (let v = push_bit 16 (of_char a) OR push_bit 8 (of_char b) OR of_char c
      in b64_at v 18 # b64_at v 12 # b64_at v 6 # b64_at v 0 # b64_encode r)"
| "b64_encode [a, b] =
     (let v = push_bit 16 (of_char a) OR push_bit 8 (of_char b)
      in [b64_at v 18, b64_at v 12, b64_at v 6, CHR ''=''])"
| "b64_encode [a] =
     (let v = push_bit 16 (of_char a)
      in [b64_at v 18, b64_at v 12, CHR ''='', CHR ''=''])"
| "b64_encode [] = []"

text \<open>\<open>b64_make_dtab\<close>: every entry \<open>-1\<close>, then the position of each table character.\<close>

definition b64_dtab :: "char \<Rightarrow> int" where
  "b64_dtab = fold (\<lambda>i f. f(b64tab ! i := int i)) [0..<64] (\<lambda>_. -1)"

definition b64_pad_dtab :: "char \<Rightarrow> int" where
  "b64_pad_dtab c = (if c = CHR ''='' then 0 else b64_dtab c)"

definition b64_group :: "int \<Rightarrow> int \<Rightarrow> int \<Rightarrow> int \<Rightarrow> u32" where
  "b64_group c0 c1 c2 c3 = push_bit 18 (of_int c0) OR push_bit 12 (of_int c1) OR
                           push_bit 6 (of_int c2) OR of_int c3"

fun b64_quads :: "string \<Rightarrow> bytes option" where
  "b64_quads (s0 # s1 # s2 # s3 # r) =
     (let c0 = b64_dtab s0; c1 = b64_dtab s1; c2 = b64_pad_dtab s2; c3 = b64_pad_dtab s3
      in if c0 < 0 \<or> c1 < 0 \<or> (s2 \<noteq> CHR ''='' \<and> c2 < 0) \<or> (s3 \<noteq> CHR ''='' \<and> c3 < 0) \<or>
            (s2 = CHR ''='' \<and> s3 \<noteq> CHR ''='')
         then None
         else (let v = b64_group c0 c1 c2 c3
               in map_option (\<lambda>out.
                    byte_of (drop_bit 16 v) #
                    (if s2 \<noteq> CHR ''='' then [byte_of (drop_bit 8 v)] else []) @
                    (if s3 \<noteq> CHR ''='' then [byte_of v] else []) @ out) (b64_quads r)))"
| "b64_quads [] = Some []"
| "b64_quads _ = None"

definition b64_decode :: "string \<Rightarrow> bytes option" where
  "b64_decode s = (if length s = 0 \<or> length s mod 4 \<noteq> 0 then None else b64_quads s)"

lemma b64_dtab_table: "list_all (\<lambda>i. b64_dtab (b64tab ! i) = int i \<and> b64tab ! i \<noteq> CHR ''='') [0..<64]"
  by code_simp

lemma b64_dtab_nth: "i < 64 \<Longrightarrow> b64_dtab (b64tab ! i) = int i"
  and b64_nth_not_pad: "i < 64 \<Longrightarrow> b64tab ! i \<noteq> CHR ''=''"
  using b64_dtab_table by (auto simp: list_all_iff)

lemma unat_and_63: "unat (w AND 63 :: u32) < 64"
proof -
  have "w AND 63 = take_bit 6 w" by (simp add: take_bit_eq_mask mask_numeral)
  then show ?thesis by (simp only: unsigned_take_bit_eq) (simp add: take_bit_nat_less_exp [of 6, simplified])
qed

lemma b64_dtab_at [simp]: "b64_dtab (b64_at v k) = int (unat (drop_bit k v AND 63))"
  unfolding b64_at_def by (rule b64_dtab_nth [OF unat_and_63])

lemma b64_at_not_pad [simp]: "b64_at v k \<noteq> CHR ''=''"
  unfolding b64_at_def by (rule b64_nth_not_pad [OF unat_and_63])

lemma b64_pad_dtab_at [simp]: "b64_pad_dtab (b64_at v k) = int (unat (drop_bit k v AND 63))"
  by (simp add: b64_pad_dtab_def)

lemma b64_pad_dtab_pad [simp]: "b64_pad_dtab (CHR ''='') = 0"
  by (simp add: b64_pad_dtab_def)

text \<open>The 24 bits of a group survive the four six-bit digits.\<close>

lemma mask6_32: "(63 :: u32) = mask 6"
  by (simp add: mask_numeral)

lemma b64_glue:
  "push_bit 18 (drop_bit 18 v AND 63) OR push_bit 12 (drop_bit 12 v AND 63) OR
   push_bit 6 (drop_bit 6 v AND 63) OR (drop_bit 0 v AND 63) = (v AND mask 24 :: u32)"
  (is "?l = _")
proof (rule bit_word_eqI)
  fix n assume "n < LENGTH(32)"
  then show "bit ?l n = bit (v AND mask 24) n"
    unfolding mask6_32
    by (cases "18 \<le> n"; cases "12 \<le> n"; cases "6 \<le> n"; auto simp: bit_simps)
qed

lemma of_char_bits: "bit (of_char c :: u32) n \<Longrightarrow> n < 8"
proof -
  have "(of_char c :: u32) < 2 ^ 8"
    using of_char_lt_256 [of c] by (simp add: word_less_nat_alt unat_of_char)
  then show "bit (of_char c :: u32) n \<Longrightarrow> n < 8"
    using bit_below [of "of_char c :: u32" 8 n] by simp
qed

lemma byte_of_eqI: "(\<And>n. n < 8 \<Longrightarrow> bit w n = bit (of_char c :: u32) n) \<Longrightarrow> byte_of (w :: u32) = c"
proof -
  assume *: "\<And>n. n < 8 \<Longrightarrow> bit w n = bit (of_char c :: u32) n"
  have "of_char (byte_of w) = (of_char c :: u32)"
    unfolding of_char_byte_of_u32 mask8
  proof (rule bit_word_eqI)
    fix n show "bit (w AND mask 8) n = bit (of_char c :: u32) n"
      using * [of n] of_char_bits [of c n] by (cases "n < 8") (auto simp: bit_simps)
  qed
  then have "byte_of (of_char (byte_of w) :: u32) = byte_of (of_char c :: u32)" by simp
  then show ?thesis by (simp add: byte_of_of_char)
qed

lemma b64_group_bytes:
  assumes "v = push_bit 16 (of_char a) OR push_bit 8 (of_char b) OR (of_char c :: u32)"
  shows "byte_of (drop_bit 16 (v AND mask 24)) = a" "byte_of (drop_bit 8 (v AND mask 24)) = b"
    "byte_of (v AND mask 24) = c"
  by (rule byte_of_eqI; auto simp: assms bit_simps dest: of_char_bits)+

lemma b64_low_zero:
  "drop_bit 0 (push_bit 16 (of_char a) OR push_bit 8 (of_char b) :: u32) AND 63 = 0"
  "drop_bit 6 (push_bit 16 (of_char a) :: u32) AND 63 = 0"
  "drop_bit 0 (push_bit 16 (of_char a) :: u32) AND 63 = 0"
  unfolding mask6_32 by (rule bit_word_eqI, auto simp: bit_simps)+

lemma word_unat_inverse: "of_nat (unat w) = (w :: 'a::len word)"
  by simp

lemma b64_group_at:
  "b64_group (int (unat (drop_bit 18 v AND 63))) (int (unat (drop_bit 12 v AND 63)))
     (int (unat (drop_bit 6 v AND 63))) (int (unat (drop_bit 0 v AND 63))) = v AND mask 24"
  using b64_glue [of v] by (simp only: b64_group_def of_int_of_nat_eq word_unat_inverse)

lemma b64_quads_encode: "b64_quads (b64_encode s) = Some s"
proof (induction s rule: b64_encode.induct)
  case (1 a b c r)
  define v where "v = push_bit 16 (of_char a) OR push_bit 8 (of_char b) OR (of_char c :: u32)"
  have "b64_encode (a # b # c # r) = b64_at v 18 # b64_at v 12 # b64_at v 6 # b64_at v 0 # b64_encode r"
    by (simp only: b64_encode.simps Let_def v_def)
  then show ?case
    using 1 b64_group_bytes [OF v_def] b64_group_at [of v] by (simp add: Let_def)
next
  case (2 a b)
  define v where "v = push_bit 16 (of_char a) OR (push_bit 8 (of_char b) :: u32)"
  have e: "b64_encode [a, b] = [b64_at v 18, b64_at v 12, b64_at v 6, CHR ''='']"
    by (simp only: b64_encode.simps Let_def v_def)
  have v: "v = push_bit 16 (of_char a) OR push_bit 8 (of_char b) OR of_char nul"
    by (simp add: v_def)
  have "int (unat (drop_bit 0 v AND 63)) = 0" unfolding v_def b64_low_zero by simp
  with b64_group_at [of v]
  have "b64_group (int (unat (drop_bit 18 v AND 63))) (int (unat (drop_bit 12 v AND 63)))
     (int (unat (drop_bit 6 v AND 63))) 0 = v AND mask 24" by (simp only:)
  then show ?case unfolding e using b64_group_bytes [OF v] by (simp add: Let_def)
next
  case (3 a)
  define v where "v = (push_bit 16 (of_char a) :: u32)"
  have e: "b64_encode [a] = [b64_at v 18, b64_at v 12, CHR ''='', CHR ''='']"
    by (simp only: b64_encode.simps Let_def v_def)
  have v: "v = push_bit 16 (of_char a) OR push_bit 8 (of_char nul) OR of_char nul"
    by (simp add: v_def)
  have "int (unat (drop_bit 0 v AND 63)) = 0" "int (unat (drop_bit 6 v AND 63)) = 0"
    unfolding v_def b64_low_zero by simp_all
  with b64_group_at [of v]
  have "b64_group (int (unat (drop_bit 18 v AND 63))) (int (unat (drop_bit 12 v AND 63))) 0 0
     = v AND mask 24" by (simp only:)
  then show ?case unfolding e using b64_group_bytes [OF v] by (simp add: Let_def)
qed simp

lemma length_b64_encode [exo_len]: "length (b64_encode s) = (length s + 2) div 3 * 4"
proof (induction s rule: b64_encode.induct)
  case (1 a b c r)
  have "(length (a # b # c # r) + 2) div 3 = Suc ((length r + 2) div 3)"
    by (simp add: div_nat_eqI) 
  then show ?case using 1 by (simp add: Let_def)
qed (simp_all add: Let_def)

lemma b64_decode_encode [exo_codec]: "s \<noteq> [] \<Longrightarrow> b64_decode (b64_encode s) = Some s"
  using b64_quads_encode [of s] length_b64_encode [of s]
  by (cases s) (auto simp: b64_decode_def)

end
