(* ===== verification/Exo_Repl.thy ===== *)
theory Exo_Repl
  imports Exo_History Exo_B64 Exo_Text
begin

text \<open>
  Log replication: the primary's \<open>/repl\<close> reply (\<open>src/http.c\<close>) and the follower's poll
  (\<open>src/main.c\<close>). The primary sends up to 512 raw records or about one MiB from a byte offset,
  base64-encoded, one per line; the follower imports them and starts over on any divergence. The
  reply travels as the parameter of the poll, so any transport failure is a case of it.
\<close>

definition REPL_MAX_RECS :: nat where "REPL_MAX_RECS = 512"
definition REPL_MAX_BYTES :: nat where "REPL_MAX_BYTES = 2 ^ 20"

definition ULLONG_MAX :: nat where "ULLONG_MAX = 2 ^ 64 - 1"

text \<open>\<open>strtoull\<close> in base 10: a minus sign negates modulo \<open>2 ^ 64\<close>, overflow gives the largest value.\<close>

definition strtoull :: "string \<Rightarrow> nat \<times> string" where
  "strtoull s =
     (let t = dropWhile isspace s;
          (neg, u) = (case t of [] \<Rightarrow> (False, [])
                      | c # r \<Rightarrow> if c = CHR ''-'' then (True, r)
                                 else if c = CHR ''+'' then (False, r) else (False, t));
          ds = takeWhile isdigit u; v = digits_val ds
      in if ds = [] then (0, s)
         else (if v > ULLONG_MAX then ULLONG_MAX else if neg \<and> v \<noteq> 0 then 2 ^ 64 - v else v, dropWhile isdigit u))"

subsection \<open>The primary\<close>

text \<open>The loop with the records still allowed; \<open>None\<close> when the very first record is torn.\<close>

fun repl_loop :: "store \<Rightarrow> nat \<Rightarrow> nat \<Rightarrow> nat \<Rightarrow> (string list \<times> nat) option" where
  "repl_loop s 0 off bytes = Some ([], off)"
| "repl_loop s (Suc k) off bytes =
     (if bytes \<ge> REPL_MAX_BYTES then Some ([], off)
      else (let (rc, b) = store_raw_at s off REPL_MAX_BYTES
            in if rc = 0 then Some ([], off)
               else if rc < 0 then (if Suc k = REPL_MAX_RECS then None else Some ([], off))
               else map_option (\<lambda>(ls, nxt). (b64_encode b # ls, nxt)) (repl_loop s k (off + length b) (bytes + length b))))"

definition repl_header :: "nat \<Rightarrow> nat \<Rightarrow> nat \<Rightarrow> string" where
  "repl_header from nxt n = ''repl from '' @ show_nat from @ '' next '' @ show_nat nxt @ '' count '' @ show_nat n"

definition repl_reply :: "store \<Rightarrow> nat \<Rightarrow> int \<times> string" where
  "repl_reply s from =
     (case repl_loop s REPL_MAX_RECS from 0 of
        None \<Rightarrow> (500, ''repl error torn '' @ show_nat from @ [nl])
      | Some (ls, nxt) \<Rightarrow>
          (200, concat (map (\<lambda>l. l @ [nl]) (repl_header from nxt (length ls) # ls))))"

text \<open>The \<open>from\<close> parameter; \<open>None\<close> falls through to the unknown-path answer.\<close>

definition repl_from_param :: "string option \<Rightarrow> nat option" where
  "repl_from_param q =
     (case q of
        None \<Rightarrow> None
      | Some froms \<Rightarrow>
          if froms = [] \<or> hd froms = CHR ''-'' then None
          else (let (v, rest) = strtoull froms in if rest = froms \<or> rest \<noteq> [] then None else Some v))"

subsection \<open>The follower\<close>

record follower =
  f_store :: store
  f_from :: nat
  f_next :: nat
  f_lag :: nat
  f_sync :: int
  f_errors :: nat
  f_resyncs :: nat

definition repl_resync :: "follower \<Rightarrow> world \<Rightarrow> follower" where
  "repl_resync f w = f\<lparr>f_resyncs := f_resyncs f + 1, f_store := store_reset (f_store f) w, f_from := 0, f_next := 0\<rparr>"

definition failed_poll :: "follower \<Rightarrow> follower" where
  "failed_poll f = f\<lparr>f_errors := f_errors f + 1\<rparr>"

text \<open>
  \<open>sscanf\<close> with the format of the header: a space in the format skips any white space, a
  conversion skips white space and needs a number.
\<close>

definition scan_lit :: "string \<Rightarrow> string \<Rightarrow> string option" where
  "scan_lit lit s = (if take (length lit) s = lit then Some (dropWhile isspace (drop (length lit) s)) else None)"

definition scan_num :: "string \<Rightarrow> (nat \<times> string) option" where
  "scan_num s = (let (v, rest) = strtoull s in if rest = s then None else Some (v, dropWhile isspace rest))"

definition scan_header :: "string \<Rightarrow> (nat \<times> nat \<times> int) option" where
  "scan_header l =
     (case scan_lit ''repl'' l of None \<Rightarrow> None | Some a \<Rightarrow>
     (case scan_lit ''from'' a of None \<Rightarrow> None | Some b \<Rightarrow>
     (case scan_num b of None \<Rightarrow> None | Some (pf, c) \<Rightarrow>
     (case scan_lit ''next'' c of None \<Rightarrow> None | Some d \<Rightarrow>
     (case scan_num d of None \<Rightarrow> None | Some (pn, e) \<Rightarrow>
     (case scan_lit ''count'' e of None \<Rightarrow> None | Some g \<Rightarrow>
     (let (v, rest) = strtoll g in if rest = g then None else Some (pf, pn, v))))))))"

text \<open>
  The record loop. Its second result tells whether the poll went bad, which resets the follower;
  \<open>ws\<close> is the world of each import, counted down.
\<close>

fun follow_lines :: "nat \<Rightarrow> string list \<Rightarrow> (nat \<Rightarrow> world) \<Rightarrow> follower \<Rightarrow> follower \<times> bool" where
  "follow_lines 0 ls ws f = (f, False)"
| "follow_lines (Suc k) [] ws f = (repl_resync (failed_poll f) (ws k), True)"
| "follow_lines (Suc k) (l # ls) ws f =
     (case b64_decode l of
        None \<Rightarrow> (repl_resync (failed_poll f) (ws k), True)
      | Some rec \<Rightarrow>
          (let (s', rc) = store_import_raw (f_store f) rec (ws k); f1 = f\<lparr>f_store := s'\<rparr>
           in if rc \<noteq> 0 then (repl_resync (failed_poll f1) (ws k), True)
              else follow_lines k ls ws (f1\<lparr>f_from := f_from f1 + length rec\<rparr>)))"

text \<open>\<open>strncmp\<close> over 16 bytes also compares the terminating NUL of the 15-byte literal.\<close>

definition is_torn_reply :: "string \<Rightarrow> bool" where
  "is_torn_reply body \<longleftrightarrow> cstr body = ''repl error torn''"

text \<open>One poll; the reply is \<open>None\<close> when the connection fails, its body may be missing.\<close>

definition follower_poll :: "(int \<times> string option) option \<Rightarrow> (nat \<Rightarrow> world) \<Rightarrow> int \<Rightarrow> follower \<Rightarrow> follower" where
  "follower_poll reply ws now f =
     (case reply of
        None \<Rightarrow> failed_poll f
      | Some (status, body) \<Rightarrow>
          (case (if status = 200 then body else None) of
             None \<Rightarrow> (case body of
                        Some b \<Rightarrow> if is_torn_reply b then repl_resync (failed_poll f) (ws 0) else failed_poll f
                      | None \<Rightarrow> failed_poll f)
           | Some b \<Rightarrow>
               (case strtok_all (\<lambda>c. c = nl) (cstr b) of
                  [] \<Rightarrow> repl_resync (failed_poll f) (ws 0)
                | l # ls \<Rightarrow>
                    (case scan_header l of
                       None \<Rightarrow> repl_resync (failed_poll f) (ws 0)
                     | Some (pfrom, pnext, pcount) \<Rightarrow>
                         (let (f', bad) = follow_lines (nat pcount) ls ws f
                          in if bad then f'
                             else f'\<lparr>f_next := f_from f',
                                    f_lag := (if pnext > f_from f' then pnext - f_from f' else 0), f_sync := now\<rparr>)))))"

subsection \<open>The reply is read as it was meant\<close>

lemma strtoull_show_nat:
  assumes "n \<le> ULLONG_MAX" "rest = [] \<or> \<not> isdigit (hd rest)"
  shows "strtoull (show_nat n @ rest) = (n, rest)"
proof -
  obtain d ds where d: "show_nat n = d # ds" "isdigit d" using show_nat_hd_digit by blast
  have ns: "\<not> isspace d" "d \<noteq> CHR ''-''" "d \<noteq> CHR ''+''"
    using d(2) by (auto simp: isdigit_def isspace_def less_eq_char_def)
  have all: "\<forall>c \<in> set (show_nat n). isdigit c" using show_nat_digits by blast
  have tk: "takeWhile isdigit (show_nat n @ rest) = show_nat n" and dr: "dropWhile isdigit (show_nat n @ rest) = rest"
    using all assms(2) by (cases rest; simp add: takeWhile_append2 dropWhile_append2)+
  have t: "dropWhile isspace (show_nat n @ rest) = show_nat n @ rest" using d(1) ns(1) by simp
  have u: "(case show_nat n @ rest of [] \<Rightarrow> (False, [])
      | c # r \<Rightarrow> if c = CHR ''-'' then (True, r) else if c = CHR ''+'' then (False, r) else (False, show_nat n @ rest))
      = (False, show_nat n @ rest)" using d(1) ns by simp
  show ?thesis unfolding strtoull_def t Let_def u by (simp add: tk dr digits_val_show_nat assms(1) not_less)
qed

lemma show_nat_no_space: "dropWhile isspace (show_nat n @ r) = show_nat n @ r"
proof -
  obtain d ds where d: "show_nat n = d # ds" "isdigit d" using show_nat_hd_digit by blast
  then have "\<not> isspace d" by (auto simp: isdigit_def isspace_def less_eq_char_def)
  then show ?thesis using d(1) by simp
qed

lemma scan_num_show:
  assumes "n \<le> ULLONG_MAX" "rest = [] \<or> \<not> isdigit (hd rest)"
  shows "scan_num (show_nat n @ rest) = Some (n, dropWhile isspace rest)"
proof -
  have "rest \<noteq> show_nat n @ rest" by (metis append_self_conv2 show_nat_nonempty)
  then show ?thesis by (simp add: scan_num_def strtoull_show_nat [OF assms])
qed

lemma scan_header_repl:
  assumes "a \<le> ULLONG_MAX" "b \<le> ULLONG_MAX" "int c \<le> LLONG_MAX"
  shows "scan_header (repl_header a b c) = Some (a, b, int c)"
proof -
  have sp: "\<not> isspace (CHR ''r'')" "\<not> isspace (CHR ''f'')" "\<not> isspace (CHR ''n'')" "\<not> isspace (CHR ''c'')"
    "isspace (CHR '' '')" by (simp_all add: isspace_def)
  have nd: "\<not> isdigit (CHR '' '')" by (simp add: isdigit_def less_eq_char_def)
  have 1: "scan_lit ''repl'' (repl_header a b c) = Some (''from '' @ show_nat a @ '' next '' @ show_nat b @ '' count '' @ show_nat c)"
    by (simp add: scan_lit_def repl_header_def sp)
  have 2: "scan_lit ''from'' (''from '' @ r) = Some (dropWhile isspace r)" for r
    by (simp add: scan_lit_def sp)
  have 3: "scan_num (show_nat a @ '' next '' @ r) = Some (a, ''next '' @ r)" for r
    by (subst scan_num_show [OF assms(1)]) (simp_all add: nd sp)
  have 4: "scan_lit ''next'' (''next '' @ r) = Some (dropWhile isspace r)" for r
    by (simp add: scan_lit_def sp)
  have 5: "scan_num (show_nat b @ '' count '' @ r) = Some (b, ''count '' @ r)" for r
    by (subst scan_num_show [OF assms(2)]) (simp_all add: nd sp)
  have 6: "scan_lit ''count'' (''count '' @ r) = Some (dropWhile isspace r)" for r
    by (simp add: scan_lit_def sp)
  have si: "show_nat c = show_int (int c)" by (simp add: show_int_def)
  have "strtoll (show_nat c) = (int c, [])"
    using strtoll_show_int [of "int c" "[]"] assms(3) by (simp add: si LLONG_MIN_def)
  then show ?thesis
    unfolding scan_header_def 1 by (simp only: option.case 2 3 4 5 6 show_nat_no_space prod.case)
      (simp add: show_nat_no_space [of _ "[]", simplified] neq_commute [of "[]"])
qed

lemma b64_at_in: "b64_at v k \<in> set b64tab"
proof -
  have "length b64tab = 64" by (simp add: b64tab_def)
  then have "unat (drop_bit k v AND 63) < length b64tab" using unat_and_63 [of "drop_bit k v"] by simp
  then show ?thesis unfolding b64_at_def by (rule nth_mem)
qed

lemma b64_encode_chars: "c \<in> set (b64_encode s) \<Longrightarrow> c \<noteq> nl \<and> c \<noteq> nul"
proof -
  have tab: "\<forall>c \<in> set b64tab. c \<noteq> nl \<and> c \<noteq> nul" by (simp add: b64tab_def)
  have "\<forall>c \<in> set (b64_encode s). c \<in> set b64tab \<or> c = CHR ''=''"
    by (induction s rule: b64_encode.induct) (auto simp: Let_def b64_at_in)
  then show "c \<in> set (b64_encode s) \<Longrightarrow> c \<noteq> nl \<and> c \<noteq> nul" using tab by auto
qed

subsection \<open>The follower catches up\<close>

lemma repl_loop_log:
  assumes inv: "store_inv t (xs @ ys) s" and small: "\<forall>r \<in> set ys. rlen r \<le> REPL_MAX_BYTES"
  shows "\<exists>m \<le> length ys. repl_loop s k (length (log_bytes xs)) bytes =
      Some (map (\<lambda>r. b64_encode (enc_rec r)) (take m ys), length (log_bytes (xs @ take m ys))) \<and>
    m \<le> k \<and> (0 < k \<and> bytes < REPL_MAX_BYTES \<and> ys \<noteq> [] \<longrightarrow> 0 < m)"
  using assms
proof (induction k arbitrary: xs ys bytes)
  case (Suc k)
  show ?case
  proof (cases "bytes \<ge> REPL_MAX_BYTES")
    case True
    then show ?thesis by (intro exI [of _ 0]) simp
  next
    case False
    show ?thesis
    proof (cases ys)
      case Nil
      then have "ssize s \<le> length (log_bytes xs)" using Suc.prems(1) by (simp add: store_inv_def)
      then show ?thesis using store_raw_at_end [of s "length (log_bytes xs)"] Nil False by (intro exI [of _ 0]) simp
    next
      case (Cons r rs)
      have at: "store_raw_at s (length (log_bytes xs)) REPL_MAX_BYTES = (int (rlen r), enc_rec r)"
        using Suc.prems Cons by (intro store_raw_at_boundary(1)) simp_all
      have off: "length (log_bytes xs) + length (enc_rec r) = length (log_bytes (xs @ [r]))"
        by (simp add: log_bytes_append)
      obtain m where m: "m \<le> length rs" "m \<le> k" "repl_loop s k (length (log_bytes (xs @ [r]))) (bytes + length (enc_rec r)) =
          Some (map (\<lambda>r. b64_encode (enc_rec r)) (take m rs), length (log_bytes ((xs @ [r]) @ take m rs)))"
        using Suc.IH [of "xs @ [r]" rs "bytes + length (enc_rec r)"] Suc.prems Cons by auto
      show ?thesis
        using m False at rlen_pos [of r] unfolding Cons
        by (intro exI [of _ "Suc m"]) (simp add: off [simplified])
    qed
  qed
qed simp

definition in_sync :: "int \<Rightarrow> lrec list \<Rightarrow> follower \<Rightarrow> bool" where
  "in_sync t rs f \<longleftrightarrow> (\<exists>rs'. store_inv t rs' (f_store f) \<and> follows rs' t rs) \<and> f_from f = length (log_bytes rs)"

lemma in_sync_import:
  assumes "in_sync t rs f" "raw_ok r"
  shows "snd (store_import_raw (f_store f) (enc_rec r) (healthy t)) = 0"
    and "in_sync t (rs @ [r]) (f\<lparr>f_store := fst (store_import_raw (f_store f) (enc_rec r) (healthy t)),
           f_from := f_from f + length (enc_rec r)\<rparr>)"
proof -
  obtain rs' where rs': "store_inv t rs' (f_store f)" "follows rs' t rs" and frm: "f_from f = length (log_bytes rs)"
    using assms(1) by (auto simp: in_sync_def)
  note ok = store_import_ok [OF rs'(1) import_check_enc [OF assms(2)], of "healthy t", simplified]
  show "snd (store_import_raw (f_store f) (enc_rec r) (healthy t)) = 0" by (rule ok(1))
  obtain rs2 where rs2: "store_inv t rs2 (fst (store_import_raw (f_store f) (enc_rec r) (healthy t)))"
    "follows rs2 t (rs' @ [r])" using ok(2) by blast
  have "follows rs2 t (rs @ [r])" using rs2(2) rs'(2) by (simp add: follows_def log_view_snoc)
  then show "in_sync t (rs @ [r]) (f\<lparr>f_store := fst (store_import_raw (f_store f) (enc_rec r) (healthy t)),
      f_from := f_from f + length (enc_rec r)\<rparr>)"
    using rs2(1) frm by (auto simp: in_sync_def log_bytes_append)
qed

lemma follow_lines_sync:
  assumes "in_sync t rs f" "\<forall>r \<in> set ys. raw_ok r"
  shows "\<exists>f'. follow_lines (length ys) (map (\<lambda>r. b64_encode (enc_rec r)) ys) (\<lambda>_. healthy t) f = (f', False) \<and>
    in_sync t (rs @ ys) f'"
  using assms
proof (induction ys arbitrary: rs f)
  case (Cons r ys)
  obtain s' rc where i: "store_import_raw (f_store f) (enc_rec r) (healthy t) = (s', rc)" by fastforce
  have rc: "rc = 0" and sy: "in_sync t (rs @ [r]) (f\<lparr>f_store := s', f_from := f_from f + length (enc_rec r)\<rparr>)"
    using in_sync_import [OF Cons.prems(1), of r] Cons.prems(2) i by simp_all
  have "enc_rec r \<noteq> []" using rlen_pos [of r] by (metis length_enc_rec length_greater_0_conv)
  then have d: "b64_decode (b64_encode (enc_rec r)) = Some (enc_rec r)" by (rule b64_decode_encode)
  from Cons.IH [OF sy] Cons.prems(2) show ?case by (simp add: d i rc)
qed simp

lemma follower_poll_sync:
  assumes p: "store_inv tp (xs @ ys) p" and small: "\<forall>r \<in> set ys. raw_ok r \<and> rlen r \<le> REPL_MAX_BYTES"
    and big: "ssize p \<le> ULLONG_MAX" and f: "in_sync t xs f" and rep: "repl_reply p (f_from f) = (st, body)"
  shows "\<exists>m \<le> length ys. (ys \<noteq> [] \<longrightarrow> 0 < m) \<and>
    in_sync t (xs @ take m ys) (follower_poll (Some (st, Some body)) (\<lambda>_. healthy t) t f) \<and>
    f_resyncs (follower_poll (Some (st, Some body)) (\<lambda>_. healthy t) t f) = f_resyncs f"
proof -
  have frm: "f_from f = length (log_bytes xs)" using f by (simp add: in_sync_def)
  obtain m where m: "m \<le> length ys" "m \<le> REPL_MAX_RECS" "ys \<noteq> [] \<longrightarrow> 0 < m"
    "repl_loop p REPL_MAX_RECS (f_from f) 0 =
      Some (map (\<lambda>r. b64_encode (enc_rec r)) (take m ys), length (log_bytes (xs @ take m ys)))"
    using repl_loop_log [OF p, of REPL_MAX_RECS 0] small frm
    by (auto simp: REPL_MAX_BYTES_def REPL_MAX_RECS_def)
  let ?ls = "map (\<lambda>r. b64_encode (enc_rec r)) (take m ys)"
  let ?n = "length (log_bytes (xs @ take m ys))"
  define hd where "hd = repl_header (f_from f) ?n (length ?ls)"
  have st: "st = 200" and body: "body = concat (map (\<lambda>l. l @ [nl]) (hd # ?ls))"
    using rep m(4) by (auto simp: repl_reply_def hd_def)
  have sz: "ssize p = length (log_bytes (xs @ ys))" using p by (simp add: store_inv_def)
  have "log_bytes (xs @ ys) = log_bytes (xs @ take m ys) @ log_bytes (drop m ys)"
    using log_bytes_append [of "xs @ take m ys" "drop m ys"] by simp
  then have le: "?n \<le> ssize p" "f_from f \<le> ssize p" unfolding sz frm by (simp_all add: log_bytes_append)
  have dig: "c \<noteq> nl \<and> c \<noteq> nul" if "c \<in> set (show_nat k)" for c k
    using show_nat_digits [OF that] by (auto simp: isdigit_def less_eq_char_def)
  have hc: "\<forall>c \<in> set hd. c \<noteq> nl \<and> c \<noteq> nul" unfolding hd_def repl_header_def using dig by auto
  have lc: "\<forall>l \<in> set (hd # ?ls). l \<noteq> [] \<and> nl \<notin> set l \<and> nul \<notin> set l"
  proof
    fix l assume l: "l \<in> set (hd # ?ls)"
    show "l \<noteq> [] \<and> nl \<notin> set l \<and> nul \<notin> set l"
    proof (cases "l = hd")
      case True
      then show ?thesis using hc by (auto simp: hd_def repl_header_def)
    next
      case False
      then obtain r where r: "l = b64_encode (enc_rec r)" using l by auto
      have "length l \<noteq> 0" using rlen_pos [of r] by (simp add: r length_b64_encode)
      then show ?thesis using b64_encode_chars [of _ "enc_rec r"] r by auto
    qed
  qed
  have "nul \<notin> set body" unfolding body using lc by auto
  then have cs: "cstr body = body" by (rule cstr_id)
  have tok: "strtok_all (\<lambda>c. c = nl) (cstr body) = hd # ?ls"
    unfolding cs unfolding body using lc by (intro strtok_all_lines) blast
  have sc: "scan_header hd = Some (f_from f, ?n, int (length ?ls))"
    unfolding hd_def using le big m(1,2)
    by (intro scan_header_repl) (auto simp: REPL_MAX_RECS_def LLONG_MAX_def)
  obtain f' where f': "follow_lines (length (take m ys)) ?ls (\<lambda>_. healthy t) f = (f', False)" "in_sync t (xs @ take m ys) f'"
    using follow_lines_sync [OF f, of "take m ys"] small set_take_subset [of m ys] by blast
  have rs: "f_resyncs f' = f_resyncs f" if "follow_lines k ls ws f = (f', False)" for k ls ws f f'
    using that by (induction k ls ws f rule: follow_lines.induct)
      (auto split: option.split_asm prod.split_asm if_split_asm simp: Let_def)
  show ?thesis
    using m(1,3) f' rs [OF f'(1)]
    by (intro exI [of _ m]) (simp add: follower_poll_def st tok sc in_sync_def)
qed

text \<open>Polling again and again, with every reply delivered, ends with the whole log applied.\<close>

definition poll_from :: "store \<Rightarrow> int \<Rightarrow> follower \<Rightarrow> follower" where
  "poll_from p t f = (let (st, body) = repl_reply p (f_from f) in follower_poll (Some (st, Some body)) (\<lambda>_. healthy t) t f)"

lemma polls_sync:
  assumes p: "store_inv tp (xs @ ys) p" and small: "\<forall>r \<in> set ys. raw_ok r \<and> rlen r \<le> REPL_MAX_BYTES"
    and big: "ssize p \<le> ULLONG_MAX" and f: "in_sync t xs f"
  shows "in_sync t (xs @ ys) ((poll_from p t ^^ length ys) f) \<and> f_resyncs ((poll_from p t ^^ length ys) f) = f_resyncs f"
proof -
  have "\<exists>m \<le> length ys. k \<le> m \<and> in_sync t (xs @ take m ys) ((poll_from p t ^^ k) f) \<and>
      f_resyncs ((poll_from p t ^^ k) f) = f_resyncs f" if "k \<le> length ys" for k
    using that
  proof (induction k)
    case (Suc k)
    then obtain m where m: "m \<le> length ys" "k \<le> m" "in_sync t (xs @ take m ys) ((poll_from p t ^^ k) f)"
      "f_resyncs ((poll_from p t ^^ k) f) = f_resyncs f" by auto
    let ?f = "(poll_from p t ^^ k) f"
    obtain st body where rep: "repl_reply p (f_from ?f) = (st, body)" by fastforce
    have p': "store_inv tp ((xs @ take m ys) @ drop m ys) p" using p by simp
    have small': "\<forall>r \<in> set (drop m ys). raw_ok r \<and> rlen r \<le> REPL_MAX_BYTES" using small set_drop_subset [of m ys] by blast
    obtain j where j: "j \<le> length (drop m ys)" "drop m ys \<noteq> [] \<longrightarrow> 0 < j"
      "in_sync t ((xs @ take m ys) @ take j (drop m ys)) (poll_from p t ?f)" "f_resyncs (poll_from p t ?f) = f_resyncs ?f"
      using follower_poll_sync [OF p' small' big m(3) rep] rep by (auto simp: poll_from_def)
    have "take m ys @ take j (drop m ys) = take (m + j) ys" by (simp add: take_add)
    moreover have "Suc k \<le> m + j" using m(1,2) j(2) Suc.prems by (cases "drop m ys = []") auto
    ultimately show ?case using j m(1,4) by (intro exI [of _ "m + j"]) auto
  qed (use f in \<open>auto intro: exI [of _ 0]\<close>)
  from this [of "length ys"] show ?thesis by auto
qed

end
