(* ===== verification/Exo_Http.thy ===== *)
theory Exo_Http
  imports Exo_Query Exo_Repl
begin

text \<open>
  The HTTP layer of exomind below its operations (\<open>src/http.c\<close>): the token table and its file
  format, the query parameters, what a token may read and write, and the request reader, which
  scans the socket's segments for the end of the headers and then takes the body. A parameter the
  C code decodes in place and uses as a C string is the decoded string up to its first NUL.
\<close>

subsection \<open>Tokens\<close>

record tok =
  ttoken :: string
  tro :: bool                 \<comment> \<open>\<open>readonly\<close>\<close>
  tprefix :: "string option"  \<comment> \<open>\<open>prefix\<close>, NULL for a token without scope\<close>

definition MAX_TOKENS :: nat where "MAX_TOKENS = 64"
definition TOKEN_CAP :: nat where "TOKEN_CAP = 256"
definition LINE_CAP :: nat where "LINE_CAP = 1024"

fun find_tok :: "tok list \<Rightarrow> string \<Rightarrow> nat option" where
  "find_tok [] t = None"
| "find_tok (x # xs) t = (if ttoken x = t then Some 0 else map_option Suc (find_tok xs t))"

text \<open>The entry of a token, added at the end when there is none; \<open>None\<close> when the table is full.\<close>

definition put_tok :: "tok list \<Rightarrow> string \<Rightarrow> bool \<Rightarrow> string option \<Rightarrow> tok list option" where
  "put_tok toks t ro pre =
     (case find_tok toks t of
        Some i \<Rightarrow> Some (toks[i := (toks ! i)\<lparr>tro := ro, tprefix := pre\<rparr>])
      | None \<Rightarrow> if length toks \<ge> MAX_TOKENS then None
                else Some (toks @ [\<lparr>ttoken = take (TOKEN_CAP - 1) t, tro = ro, tprefix = pre\<rparr>]))"

definition http_set_token :: "tok list \<Rightarrow> string \<Rightarrow> tok list" where
  "http_set_token toks t = (case put_tok toks t False None of None \<Rightarrow> toks | Some ts \<Rightarrow> ts)"

text \<open>\<open>fgets\<close> with a buffer of \<open>n\<close> bytes: up to a newline, which it keeps, or \<open>n - 1\<close> bytes.\<close>

definition fgets :: "nat \<Rightarrow> bytes \<Rightarrow> bytes \<times> bytes" where
  "fgets n s =
     (let k = min (n - 1) (Suc (length (takeWhile (\<lambda>c. c \<noteq> nl) s))) in (take k s, drop k s))"

definition chop_eol :: "string \<Rightarrow> string" where
  "chop_eol l = rev (dropWhile (\<lambda>c. c = nl \<or> c = cr) (rev l))"

definition chop_star :: "string \<Rightarrow> string" where
  "chop_star p = (if p \<noteq> [] \<and> last p = CHR ''*'' then butlast p else p)"

text \<open>The modifiers after the first colon: read-only, the scope, and whether one was not known.\<close>

function tok_mods :: "string \<Rightarrow> bool \<Rightarrow> bool \<Rightarrow> bool \<times> string option \<times> bool" where
  "tok_mods m ro bad =
     (if m = [] then (ro, None, bad)
      else if take 6 m = ''scope='' then (ro, Some (chop_star (drop 6 m)), bad)
      else if take 7 m = ''prefix='' then (ro, Some (drop 7 m), bad)
      else (let w = takeWhile (\<lambda>c. c \<noteq> CHR '':'') m; rest = drop (Suc (length w)) m
            in if w = ''ro'' then tok_mods rest True bad else tok_mods rest ro True))"
  by pat_completeness auto
termination by (relation "measure (\<lambda>(m, ro, bad). length m)") auto

declare tok_mods.simps [simp del]

definition load_token_line :: "tok list \<times> nat \<Rightarrow> bytes \<Rightarrow> tok list \<times> nat" where
  "load_token_line st raw =
     (let (toks, added) = st; l = chop_eol (cstr raw)
      in if length l = LINE_CAP - 1 then st
         else if l = [] \<or> hd l = CHR ''#'' then st
         else (let t = takeWhile (\<lambda>c. c \<noteq> CHR '':'') l
               in if t = [] \<or> length t \<ge> TOKEN_CAP then st
                  else (let (ro, pre, bad) = tok_mods (drop (Suc (length t)) l) False False
                        in if bad then st
                           else (case put_tok toks t ro pre of
                                   None \<Rightarrow> st
                                 | Some ts \<Rightarrow> (ts, added + 1)))))"

function load_token_loop :: "bytes \<Rightarrow> tok list \<times> nat \<Rightarrow> tok list \<times> nat" where
  "load_token_loop f st =
     (if f = [] then st
      else load_token_loop (snd (fgets LINE_CAP f)) (load_token_line st (fst (fgets LINE_CAP f))))"
  by pat_completeness auto
termination
  by (relation "measure (\<lambda>(f, st). length f)") (auto simp: fgets_def LINE_CAP_def Let_def)

declare load_token_loop.simps [simp del]

text \<open>The token file's contents, \<open>None\<close> when it cannot be opened (result -1).\<close>

definition http_load_tokens :: "tok list \<Rightarrow> bytes option \<Rightarrow> tok list \<times> int" where
  "http_load_tokens toks f =
     (case f of
        None \<Rightarrow> (toks, -1)
      | Some s \<Rightarrow> (let (ts, n) = load_token_loop s (toks, 0) in (ts, int n)))"

definition tok_allows_key :: "tok option \<Rightarrow> bytes \<Rightarrow> bool" where
  "tok_allows_key t key =
     (case t of
        None \<Rightarrow> True
      | Some x \<Rightarrow> (case tprefix x of None \<Rightarrow> True | Some p \<Rightarrow> length p \<le> length key \<and> take (length p) key = p))"

definition tok_can_write :: "tok option \<Rightarrow> bytes \<Rightarrow> bool" where
  "tok_can_write t key \<longleftrightarrow> tok_allows_key t key \<and> (case t of None \<Rightarrow> True | Some x \<Rightarrow> \<not> tro x)"

definition filter_scope :: "tok option \<Rightarrow> kv list \<Rightarrow> kv list" where
  "filter_scope t kvs =
     (case t of
        None \<Rightarrow> kvs
      | Some x \<Rightarrow> (case tprefix x of
            None \<Rightarrow> kvs | Some p \<Rightarrow> filter (\<lambda>k. tok_allows_key t (kkey k)) kvs))"

subsection \<open>Parameters\<close>

definition qp_raw :: "string \<Rightarrow> string \<Rightarrow> string option" where
  "qp_raw qs nm =
     map_option (drop (Suc (length nm)))
       (find (\<lambda>seg. length seg > length nm \<and> take (length nm) seg = nm \<and> seg ! length nm = CHR ''='')
          (split_on (CHR ''&'') qs))"

definition qp_str :: "string \<Rightarrow> string \<Rightarrow> nat \<Rightarrow> string option" where
  "qp_str qs nm cap = map_option (\<lambda>v. cstr (url_decode (take (cap - 1) v))) (qp_raw qs nm)"

datatype keyparam = KMissing | KTooLong | KKey string

definition qp_key :: "string \<Rightarrow> keyparam" where
  "qp_key qs =
     (case qp_raw qs ''key'' of
        None \<Rightarrow> KMissing
      | Some v \<Rightarrow> if length v \<ge> MAX_KEY + 1 then KTooLong else KKey (cstr (url_decode v)))"

definition qp_int :: "string \<Rightarrow> string \<Rightarrow> int \<Rightarrow> int" where
  "qp_int qs nm def =
     (case qp_str qs nm 64 of
        None \<Rightarrow> def
      | Some s \<Rightarrow> (let (v, rest) = strtoll s in if rest \<noteq> [] then def else v))"

definition form_pairs :: "bytes \<Rightarrow> string list" where
  "form_pairs b = filter (\<lambda>p. CHR ''='' \<in> set p) (strtok_all (\<lambda>c. c = CHR ''&'') (cstr b))"

definition pair_name :: "string \<Rightarrow> string" where
  "pair_name p = takeWhile (\<lambda>c. c \<noteq> CHR ''='') p"

definition pair_value :: "string \<Rightarrow> string" where
  "pair_value p = drop (Suc (length (pair_name p))) p"

definition is_form_body :: "bytes \<Rightarrow> bool" where
  "is_form_body b \<longleftrightarrow>
     list_ex (\<lambda>p. pair_name p \<in> set [''key'', ''value'', ''ttl'', ''append'']) (form_pairs b)"

definition ci_prefix :: "string \<Rightarrow> string \<Rightarrow> bool" where
  "ci_prefix line pre \<longleftrightarrow> length pre \<le> length line \<and> map tolower (take (length pre) line) = map tolower pre"

text \<open>The token of a request: \<open>None\<close> is refused, \<open>Some None\<close> is a server without tokens.\<close>

definition auth_ok :: "tok list \<Rightarrow> string \<Rightarrow> tok option option" where
  "auth_ok toks auth =
     (if toks = [] then Some None
      else if \<not> ci_prefix auth ''Bearer '' then None
      else map_option (\<lambda>i. Some (toks ! i)) (find_tok toks (drop 7 auth)))"

definition SNIPPET_MAX :: nat where "SNIPPET_MAX = 120"

definition snippet :: "bytes \<Rightarrow> string" where
  "snippet v = (if length v > SNIPPET_MAX then escape_line (take SNIPPET_MAX v) @ ''...'' else escape_line v)"

text \<open>Whether a request goes to the project store: \<open>proj=1\<close> or a \<open>p:\<close> key, when there is one.\<close>

definition pick_proj :: "bool \<Rightarrow> string option \<Rightarrow> string option \<Rightarrow> bool" where
  "pick_proj attached key query =
     (attached \<and>
      ((case query of
          None \<Rightarrow> False
        | Some q \<Rightarrow> (case qp_str q ''proj'' 8 of None \<Rightarrow> False | Some p \<Rightarrow> p \<noteq> [] \<and> hd p = CHR ''1'')) \<or>
       (case key of None \<Rightarrow> False | Some k \<Rightarrow> take 2 k = ''p:'')))"

subsection \<open>Reading a request\<close>

definition MAX_HEADERS :: nat where "MAX_HEADERS = 16 * 1024"
definition MAX_BODY :: nat where "MAX_BODY = 16 * 1024 * 1024"

record req =
  rmethod :: string
  rpath :: string
  rquery :: string
  rbody :: bytes
  rauth :: string
  rjson :: bool

datatype req_result = ReqOk req | ReqMalformed | ReqTooLarge

text \<open>The socket is the list of segments still to arrive; an empty or missing one is end of input.\<close>

definition sock_read :: "bytes list \<Rightarrow> nat \<Rightarrow> (bytes \<times> bytes list) option" where
  "sock_read segs n =
     (case segs of
        [] \<Rightarrow> None
      | s # r \<Rightarrow> if s = [] then None
                 else Some (take n s, if length s \<le> n then r else drop n s # r))"

fun hdr_from :: "bytes \<Rightarrow> nat \<Rightarrow> nat option" where
  "hdr_from [] i = None"
| "hdr_from (c # r) i =
     (if take 4 (c # r) = [cr, nl, cr, nl] then Some (i + 4)
      else if take 2 (c # r) = [nl, nl] then Some (i + 2)
      else hdr_from r (i + 1))"

definition hdr_scan :: "bytes \<Rightarrow> nat \<Rightarrow> nat option" where
  "hdr_scan buf from = hdr_from (drop from buf) from"

text \<open>The read loop: what is buffered, the offset past the terminator, the segments left.\<close>

function hdr_loop :: "bytes list \<Rightarrow> bytes \<Rightarrow> (bytes \<times> nat \<times> bytes list) option" where
  "hdr_loop segs buf =
     (if length buf \<ge> MAX_HEADERS - 1 then None
      else (case sock_read segs (MAX_HEADERS - 1 - length buf) of
              None \<Rightarrow> None
            | Some (got, segs') \<Rightarrow>
                (if got = [] then None
                 else (case hdr_scan (buf @ got) (if length (buf @ got) > length got + 4
                                                  then length (buf @ got) - length got - 4 else 0) of
                         Some e \<Rightarrow> Some (buf @ got, e, segs')
                       | None \<Rightarrow> hdr_loop segs' (buf @ got)))))"
  by pat_completeness auto
termination
  by (relation "measure (\<lambda>(segs, buf). MAX_HEADERS - length buf)")
    (auto simp: MAX_HEADERS_def simp flip: length_greater_0_conv)

declare hdr_loop.simps [simp del]

text \<open>The end of a line, \<open>strstr\<close> for CRLF before \<open>strchr\<close> for LF, and where the next one starts.\<close>

fun find_crlf :: "string \<Rightarrow> nat option" where
  "find_crlf (a # b # r) = (if a = cr \<and> b = nl then Some 0 else map_option Suc (find_crlf (b # r)))"
| "find_crlf s = None"

fun find_char :: "char \<Rightarrow> string \<Rightarrow> nat option" where
  "find_char c [] = None"
| "find_char c (x # r) = (if x = c then Some 0 else map_option Suc (find_char c r))"

definition find_eol :: "string \<Rightarrow> nat option" where
  "find_eol s = (case find_crlf s of Some i \<Rightarrow> Some i | None \<Rightarrow> find_char nl s)"

definition past_eol :: "string \<Rightarrow> nat \<Rightarrow> string" where
  "past_eol s i = (let r = drop (Suc i) s in if r \<noteq> [] \<and> hd r = nl then drop 1 r else r)"

definition rstrip_blank :: "string \<Rightarrow> string" where
  "rstrip_blank s = rev (dropWhile (\<lambda>c. c = CHR '' '' \<or> c = tab) (rev s))"

fun has_sub :: "string \<Rightarrow> string \<Rightarrow> bool" where
  "has_sub [] pat = (pat = [])"
| "has_sub (c # r) pat = (take (length pat) (c # r) = pat \<or> has_sub r pat)"

text \<open>One header line: the content length so far and the request.\<close>

definition header_line :: "string \<Rightarrow> nat option \<times> req \<Rightarrow> nat option \<times> req" where
  "header_line l st =
     (let (cl, r) = st
      in if ci_prefix l ''content-length:'' then (Some (fst (strtoull (drop 15 l))), r)
         else if ci_prefix l ''authorization:'' then
           (cl, r\<lparr>rauth := rstrip_blank (take 511 (dropWhile (\<lambda>c. c = CHR '' '') (drop 14 l)))\<rparr>)
         else if ci_prefix l ''content-type:'' then
           (cl, if has_sub (drop 13 l) ''json'' then r\<lparr>rjson := True\<rparr> else r)
         else st)"

function header_lines :: "string \<Rightarrow> nat option \<times> req \<Rightarrow> nat option \<times> req" where
  "header_lines s st =
     (if s = [] then st
      else (case find_eol s of
              None \<Rightarrow> header_line s st
            | Some i \<Rightarrow> header_lines (past_eol s i) (header_line (take i s) st)))"
  by pat_completeness auto
termination
  by (relation "measure (\<lambda>(s, st). length s)") (auto simp: past_eol_def Let_def)

declare header_lines.simps [simp del]

text \<open>The request line and the headers, from the text before the terminator.\<close>

definition split_url :: "string \<Rightarrow> string \<times> string" where
  "split_url u =
     (let p = takeWhile (\<lambda>c. c \<noteq> CHR ''?'') u
      in (take 2047 p, take 8191 (drop (Suc (length p)) u)))"

definition parse_head :: "bytes \<Rightarrow> (nat option \<times> req) option" where
  "parse_head buf =
     (let h = cstr buf
      in case find_eol h of
           None \<Rightarrow> None
         | Some i \<Rightarrow>
             (let l = dropWhile (\<lambda>c. c = CHR '' '') (take i h);
                  m = takeWhile (\<lambda>c. c \<noteq> CHR '' '') l;
                  u = takeWhile (\<lambda>c. c \<noteq> CHR '' '') (dropWhile (\<lambda>c. c = CHR '' '') (drop (length m) l));
                  (p, q) = split_url u
              in Some (header_lines (past_eol h i)
                   (None, \<lparr>rmethod = take 15 m, rpath = p, rquery = q, rbody = [], rauth = [], rjson = False\<rparr>))))"

function body_loop :: "bytes list \<Rightarrow> nat \<Rightarrow> bytes \<Rightarrow> bytes option" where
  "body_loop segs len got =
     (if length got \<ge> len then Some got
      else (case sock_read segs (len - length got) of
              None \<Rightarrow> None
            | Some (g, segs') \<Rightarrow> if g = [] then None else body_loop segs' len (got @ g)))"
  by pat_completeness auto
termination
  by (relation "measure (\<lambda>(segs, len, got). len - length got)")
    (auto simp flip: length_greater_0_conv)

declare body_loop.simps [simp del]

definition read_request :: "bytes list \<Rightarrow> req_result" where
  "read_request segs =
     (case hdr_loop segs [] of
        None \<Rightarrow> ReqMalformed
      | Some (buf, e, segs') \<Rightarrow>
          (case parse_head (take (e - 2) buf) of
             None \<Rightarrow> ReqMalformed
           | Some (cl, r) \<Rightarrow>
               (case cl of
                  None \<Rightarrow> ReqOk r
                | Some n \<Rightarrow>
                    if n = 0 then ReqOk r
                    else if n > MAX_BODY then ReqTooLarge
                    else (case body_loop segs' n (take n (drop e buf)) of
                            None \<Rightarrow> ReqMalformed
                          | Some b \<Rightarrow> ReqOk (r\<lparr>rbody := b\<rparr>)))))"


subsection \<open>The segments do not matter\<close>

text \<open>What a request on a whole byte stream is: the specification of the reader.\<close>

definition request_of :: "bytes \<Rightarrow> req_result" where
  "request_of st =
     (case hdr_from (take (MAX_HEADERS - 1) st) 0 of
        None \<Rightarrow> ReqMalformed
      | Some e \<Rightarrow>
          (case parse_head (take (e - 2) st) of
             None \<Rightarrow> ReqMalformed
           | Some (cl, r) \<Rightarrow>
               (case cl of
                  None \<Rightarrow> ReqOk r
                | Some n \<Rightarrow>
                    if n = 0 then ReqOk r
                    else if n > MAX_BODY then ReqTooLarge
                    else if length (drop e st) < n then ReqMalformed
                    else ReqOk (r\<lparr>rbody := take n (drop e st)\<rparr>))))"

lemma sock_read_Cons:
  assumes "s \<noteq> []" and "[] \<notin> set r" and "0 < n"
  obtains g segs' where "sock_read (s # r) n = Some (g, segs')" and "g \<noteq> []" and "length g \<le> n"
    and "g @ concat segs' = s @ concat r" and "[] \<notin> set segs'"
  using assms by (auto simp: sock_read_def split: if_splits)

lemma hdr_from_append: "hdr_from xs i = Some e \<Longrightarrow> hdr_from (xs @ ys) i = Some e"
proof (induction xs arbitrary: i)
  case (Cons c r)
  show ?case
  proof (cases "length r < 3")
    case True
    then consider "r = []" | a where "r = [a]" | a b where "r = [a, b]"
      by (cases r; cases "tl r"; cases "tl (tl r)") auto
    then show ?thesis using Cons.prems by cases (auto split: if_splits)
  next
    case False
    then have "take 4 ((c # r) @ ys) = take 4 (c # r)" "take 2 ((c # r) @ ys) = take 2 (c # r)" by simp_all
    then show ?thesis using Cons by (auto split: if_splits)
  qed
qed simp

lemma hdr_from_skip:
  "hdr_from xs i = None \<Longrightarrow> k + 3 \<le> length xs \<or> k = 0 \<Longrightarrow>
    hdr_from (xs @ ys) i = hdr_from (drop k (xs @ ys)) (i + k)"
proof (induction k arbitrary: xs i)
  case (Suc k)
  then obtain c r where xs: "xs = c # r" by (cases xs) auto
  have "take 4 ((c # r) @ ys) = take 4 (c # r)" "take 2 ((c # r) @ ys) = take 2 (c # r)"
    using Suc.prems(2) xs by simp_all
  moreover have "hdr_from r (Suc i) = None" using Suc.prems(1) xs by (auto split: if_splits)
  moreover have "k + 3 \<le> length r \<or> k = 0" using Suc.prems(2) xs by auto
  ultimately show ?case using Suc.IH [of r "Suc i"] Suc.prems(1) xs by (auto split: if_splits)
qed simp

lemma hdr_from_le: "hdr_from xs i = Some e \<Longrightarrow> e \<le> i + length xs"
proof (induction xs arbitrary: i)
  case (Cons c r)
  have "take k (c # r) = l \<Longrightarrow> length l = k \<Longrightarrow> k \<le> Suc (length r)" for k l
    by (metis length_Cons length_take min.absorb_iff2)
  from this [of 4 "[cr, nl, cr, nl]"] this [of 2 "[nl, nl]"]
  show ?case using Cons.prems Cons.IH [of "Suc i"] by (auto split: if_splits)
qed simp

text \<open>
  Scanning for a terminator as the bytes arrive: what is needed of the scan for looking only at the
  new bytes and the four before them to be enough. The client of exomind reads replies this way too.
\<close>

definition window_from :: "bytes \<Rightarrow> bytes \<Rightarrow> nat" where
  "window_from buf got =
     (if length (buf @ got) > length got + 4 then length (buf @ got) - length got - 4 else 0)"

locale terminator =
  fixes scan :: "bytes \<Rightarrow> nat \<Rightarrow> nat option"
  assumes scan_append: "scan xs i = Some e \<Longrightarrow> scan (xs @ ys) i = Some e"
    and scan_skip: "scan xs i = None \<Longrightarrow> k + 3 \<le> length xs \<or> k = 0 \<Longrightarrow>
      scan (xs @ ys) i = scan (drop k (xs @ ys)) (i + k)"
    and scan_le: "scan xs i = Some e \<Longrightarrow> e \<le> i + length xs"
begin

lemma window:
  assumes "scan buf 0 = None"
  shows "scan (drop (window_from buf got) (buf @ got)) (window_from buf got) = scan (buf @ got) 0"
proof (cases "length buf > 4")
  case True
  then have "scan (buf @ got) 0 = scan (drop (length buf - 4) (buf @ got)) (length buf - 4)"
    using scan_skip [OF assms, of "length buf - 4" got] by simp
  then show ?thesis using True by (simp add: window_from_def)
next
  case False
  then show ?thesis by (simp add: window_from_def)
qed

end

interpretation hs: terminator hdr_from
  by unfold_locales (rule hdr_from_append hdr_from_skip hdr_from_le; assumption)+

lemma hdr_window:
  assumes "hdr_from buf 0 = None"
  shows "hdr_scan (buf @ got) (if length (buf @ got) > length got + 4
           then length (buf @ got) - length got - 4 else 0) = hdr_from (buf @ got) 0"
  using hs.window [OF assms, of got] unfolding hdr_scan_def window_from_def .

lemma hdr_loop_stream:
  assumes "hdr_from buf 0 = None" and "[] \<notin> set segs" and "length buf \<le> MAX_HEADERS - 1"
  shows "(case hdr_from (take (MAX_HEADERS - 1) (buf @ concat segs)) 0 of
            None \<Rightarrow> hdr_loop segs buf = None
          | Some e \<Rightarrow> \<exists>buf' segs'. hdr_loop segs buf = Some (buf', e, segs') \<and>
              buf' @ concat segs' = buf @ concat segs \<and> [] \<notin> set segs' \<and> e \<le> length buf')"
  using assms
proof (induction segs buf rule: hdr_loop.induct)
  case (1 segs buf)
  show ?case
  proof (cases "length buf = MAX_HEADERS - 1")
    case True
    then show ?thesis using "1.prems" by (subst hdr_loop.simps) simp
  next
    case room: False
    show ?thesis
    proof (cases segs)
      case Nil
      then show ?thesis using "1.prems" by (simp add: hdr_loop.simps [of _ buf] sock_read_def)
    next
      case (Cons s r)
      obtain g segs' where rd: "sock_read segs (MAX_HEADERS - 1 - length buf) = Some (g, segs')"
        and g: "g \<noteq> []" "length g \<le> MAX_HEADERS - 1 - length buf"
        and eq: "g @ concat segs' = s @ concat r" and ne: "[] \<notin> set segs'"
        proof -
        have "0 < MAX_HEADERS - 1 - length buf" using "1.prems"(3) room by simp
        then show ?thesis using sock_read_Cons [of s r "MAX_HEADERS - 1 - length buf"] that Cons "1.prems"(2) by auto
      qed
      note win = hdr_window [OF "1.prems"(1)]
      have fits: "length (buf @ g) \<le> MAX_HEADERS - 1" using g(2) "1.prems"(3) by simp
      have stream: "buf @ concat segs = (buf @ g) @ concat segs'" using eq Cons by simp
      have step: "hdr_loop segs buf = (case hdr_from (buf @ g) 0 of
          Some e \<Rightarrow> Some (buf @ g, e, segs') | None \<Rightarrow> hdr_loop segs' (buf @ g))"
        using rd g(1) room "1.prems"(3) unfolding hdr_loop.simps [of segs buf] win [symmetric] by simp
      show ?thesis
      proof (cases "hdr_from (buf @ g) 0")
        case (Some e)
        have "hdr_from (take (MAX_HEADERS - 1) (buf @ concat segs)) 0 = Some e"
          using hdr_from_append [OF Some] fits unfolding stream by simp
        then show ?thesis using step Some stream ne hdr_from_le [OF Some] by simp
      next
        case None
        have "\<not> MAX_HEADERS - 1 \<le> length buf" using room "1.prems"(3) by simp
        from "1.IH" [OF this rd refl g(1), unfolded win, OF None None ne fits]
        moreover have "hdr_loop segs buf = hdr_loop segs' (buf @ g)" using step None by simp
        ultimately show ?thesis unfolding stream by (simp only:)
      qed
    qed
  qed
qed

lemma body_loop_stream:
  assumes "[] \<notin> set segs" and "length got \<le> n"
  shows "body_loop segs n got =
    (if n \<le> length (got @ concat segs) then Some (take n (got @ concat segs)) else None)"
  using assms
proof (induction segs n got rule: body_loop.induct)
  case (1 segs n got)
  show ?case
  proof (cases "n \<le> length got")
    case True
    then show ?thesis using "1.prems" by (subst body_loop.simps) simp
  next
    case room: False
    show ?thesis
    proof (cases segs)
      case Nil
      then show ?thesis using room by (simp add: body_loop.simps [of _ _ got] sock_read_def)
    next
      case (Cons s r)
      obtain g segs' where rd: "sock_read segs (n - length got) = Some (g, segs')"
        and g: "g \<noteq> []" "length g \<le> n - length got"
        and eq: "g @ concat segs' = s @ concat r" and ne: "[] \<notin> set segs'"
        using sock_read_Cons [of s r "n - length got"] Cons "1.prems" room by auto
      have step: "body_loop segs n got = body_loop segs' n (got @ g)"
        using rd g(1) room by (subst body_loop.simps) simp
      have stream: "got @ concat segs = (got @ g) @ concat segs'" using eq Cons by simp
      have "length (got @ g) \<le> n" using g(2) room by simp
      from "1.IH" [OF room rd refl g(1) ne this] show ?thesis unfolding step stream .
    qed
  qed
qed

lemma read_request_stream:
  assumes ne: "[] \<notin> set segs"
  shows "read_request segs = request_of (concat segs)"
proof (cases "hdr_from (take (MAX_HEADERS - 1) (concat segs)) 0")
  case None
  then have "hdr_loop segs [] = None" using hdr_loop_stream [of "[]" segs] ne by simp
  then show ?thesis using None by (simp add: read_request_def request_of_def)
next
  case (Some e)
  then obtain buf segs' where l: "hdr_loop segs [] = Some (buf, e, segs')"
    and s: "concat segs = buf @ concat segs'" and ne': "[] \<notin> set segs'" and e: "e \<le> length buf"
    using hdr_loop_stream [of "[]" segs] ne by auto
  have h: "take (e - 2) (concat segs) = take (e - 2) buf" using s e by simp
  have b: "body_loop segs' n (take n (drop e buf)) =
      (if length (drop e (concat segs)) < n then None else Some (take n (drop e (concat segs))))" for n
    using body_loop_stream [OF ne', of "take n (drop e buf)" n] e unfolding s
    by (cases "n \<le> length (drop e buf)") (auto simp: min_def)
  show ?thesis using Some l unfolding read_request_def request_of_def
    by (auto simp: h b split: option.splits)
qed

end
