(* ===== verification/Exo_Json.thy ===== *)
theory Exo_Json
  imports Exo_Escape
begin

unbundle bit_operations_syntax

text \<open>
  The allocation-free JSON reader of \<open>src/util.c\<close> (\<open>json_parse_string\<close>, \<open>json_skip_value\<close>,
  \<open>json_field\<close>, \<open>json_array_each\<close>, \<open>json_arr_strings\<close>), exomind's own \<open>json_escape\<close> and the
  escape the client modules use (\<open>exosched/src/util.c\<close>). A pointer \<open>p\<close> below \<open>end\<close> is the
  string from \<open>p\<close> to \<open>end\<close>; NULL results are \<open>None\<close>.
\<close>

subsection \<open>UTF-8\<close>

definition utf8_encode :: "u32 \<Rightarrow> bytes" where
  "utf8_encode cp =
     (if cp < 0x80 then [byte_of cp]
      else if cp < 0x800 then [byte_of (0xC0 OR drop_bit 6 cp), byte_of (0x80 OR (cp AND 0x3F))]
      else if cp < 0x10000 then
        [byte_of (0xE0 OR drop_bit 12 cp), byte_of (0x80 OR (drop_bit 6 cp AND 0x3F)),
         byte_of (0x80 OR (cp AND 0x3F))]
      else
        [byte_of (0xF0 OR drop_bit 18 cp), byte_of (0x80 OR (drop_bit 12 cp AND 0x3F)),
         byte_of (0x80 OR (drop_bit 6 cp AND 0x3F)), byte_of (0x80 OR (cp AND 0x3F))])"

text \<open>\<open>utf8_decode\<close> of the client modules: code point and bytes read, \<open>None\<close> for result 0.\<close>

definition utf8_decode :: "bytes \<Rightarrow> (u32 \<times> nat) option" where
  "utf8_decode s =
     (let remain = length s; b = (\<lambda>i. of_char (s ! i) :: u32)
      in if remain < 1 then None
         else if b 0 < 0x80 then Some (b 0, 1)
         else if 2 \<le> remain \<and> b 0 AND 0xE0 = 0xC0 \<and> b 1 AND 0xC0 = 0x80
         then Some (push_bit 6 (b 0 AND 0x1F) OR (b 1 AND 0x3F), 2)
         else if 3 \<le> remain \<and> b 0 AND 0xF0 = 0xE0 \<and> b 1 AND 0xC0 = 0x80 \<and> b 2 AND 0xC0 = 0x80
         then Some (push_bit 12 (b 0 AND 0x0F) OR push_bit 6 (b 1 AND 0x3F) OR (b 2 AND 0x3F), 3)
         else if 4 \<le> remain \<and> b 0 AND 0xF8 = 0xF0 \<and> b 1 AND 0xC0 = 0x80 \<and>
                 b 2 AND 0xC0 = 0x80 \<and> b 3 AND 0xC0 = 0x80
         then Some (push_bit 18 (b 0 AND 0x07) OR push_bit 12 (b 1 AND 0x3F) OR
                    push_bit 6 (b 2 AND 0x3F) OR (b 3 AND 0x3F), 4)
         else None)"

subsection \<open>Reading strings\<close>

definition is_ws :: "char \<Rightarrow> bool" where
  "is_ws c \<longleftrightarrow> c = CHR '' '' \<or> c = tab \<or> c = nl \<or> c = cr"

definition json_skip_ws :: "string \<Rightarrow> string" where
  "json_skip_ws p = dropWhile is_ws p"

fun hex_loop :: "string \<Rightarrow> u32 \<Rightarrow> u32 option" where
  "hex_loop [] cp = Some cp"
| "hex_loop (c # r) cp =
     (if hexval c < 0 then None else hex_loop r (cp * 16 + of_int (hexval c)))"

text \<open>The single-character escapes of the \<open>switch\<close>; \<open>None\<close> for \<open>default\<close> and for \<open>u\<close>.\<close>

definition json_unescape :: "char \<Rightarrow> char option" where
  "json_unescape e =
     (if e = quot \<or> e = bslash \<or> e = CHR ''/'' then Some e
      else if e = CHR ''n'' then Some nl
      else if e = CHR ''t'' then Some tab
      else if e = CHR ''r'' then Some cr
      else if e = CHR ''b'' then Some (CHR 0x08)
      else if e = CHR ''f'' then Some (CHR 0x0C)
      else None)"

text \<open>A high surrogate followed by an escaped low surrogate is one code point.\<close>

definition json_surrogate :: "u32 \<Rightarrow> string \<Rightarrow> u32 \<times> string" where
  "json_surrogate cp p =
     (if 0xD800 \<le> cp \<and> cp \<le> 0xDBFF \<and> 6 \<le> length p \<and> p ! 0 = bslash \<and> p ! 1 = CHR ''u''
      then let lo = (case hex_loop (take 4 (drop 2 p)) 0 of None \<Rightarrow> 0 | Some l \<Rightarrow> l)
           in if 0xDC00 \<le> lo \<and> lo \<le> 0xDFFF
              then (0x10000 + push_bit 10 (cp - 0xD800) + (lo - 0xDC00), drop 6 p)
              else (cp, p)
      else (cp, p))"

lemma json_surrogate_length: "length (snd (json_surrogate cp p)) \<le> length p"
  by (simp add: json_surrogate_def Let_def)

text \<open>The loop of \<open>json_parse_string\<close>, past the opening quote, with the bytes read so far.\<close>

function json_str_loop :: "string \<Rightarrow> bytes \<Rightarrow> (bytes \<times> string) option" where
  "json_str_loop [] buf = Some (buf, [])"
| "json_str_loop (c # q) buf =
     (if c = quot then Some (buf, q)
      else if c \<noteq> bslash then json_str_loop q (buf @ [c])
      else (case q of
              [] \<Rightarrow> None
            | e # r \<Rightarrow>
                (case json_unescape e of
                   Some d \<Rightarrow> json_str_loop r (buf @ [d])
                 | None \<Rightarrow>
                     if e = CHR ''u'' then
                       (if length r < 4 then None
                        else (case hex_loop (take 4 r) 0 of
                                None \<Rightarrow> None
                              | Some cp \<Rightarrow>
                                  json_str_loop (snd (json_surrogate cp (drop 4 r)))
                                    (buf @ utf8_encode (fst (json_surrogate cp (drop 4 r))))))
                     else None)))"
  by pat_completeness auto
termination
  by (relation "measure (\<lambda>(p, b). length p)")
     (auto intro: le_less_trans [OF json_surrogate_length])

definition json_parse_string :: "string \<Rightarrow> (bytes \<times> string) option" where
  "json_parse_string p = json_str_loop (drop 1 p) []"

lemma json_str_loop_length: "json_str_loop p buf = Some (b, q) \<Longrightarrow> length q \<le> length p"
proof (induction p buf rule: json_str_loop.induct)
  case (2 c p buf)
  show ?case
  proof (cases "c \<noteq> quot \<and> c = bslash")
    case False
    then show ?thesis using 2(1) 2(4) by (force split: if_splits)
  next
    case True
    then obtain e r where p: "p = e # r" using 2(4) by (cases p) auto
    show ?thesis
    proof (cases "json_unescape e")
      case (Some d)
      then show ?thesis using True p 2(3) [OF _ _ p Some] 2(4) by auto
    next
      case None
      then obtain cp where cp: "\<not> length r < 4" "e = CHR ''u''" "hex_loop (take 4 r) 0 = Some cp"
        and res: "json_str_loop (snd (json_surrogate cp (drop 4 r)))
          (buf @ utf8_encode (fst (json_surrogate cp (drop 4 r)))) = Some (b, q)"
        using True p 2(4) by (auto split: if_splits option.splits)
      have "length q \<le> length (snd (json_surrogate cp (drop 4 r)))"
        using 2(2) [OF _ _ p None cp(2,1,3) res] True by simp
      then show ?thesis using json_surrogate_length [of cp "drop 4 r"] p by simp
    qed
  qed
qed simp

lemma json_parse_string_length:
  "json_parse_string p = Some (b, q) \<Longrightarrow> p \<noteq> [] \<Longrightarrow> length q < length p"
  using json_str_loop_length [of "drop 1 p" "[]" b q]
  by (cases p) (auto simp: json_parse_string_def)

subsection \<open>Skipping values\<close>

text \<open>
  The bracket-counting loop of \<open>json_skip_value\<close>. Only brackets of the kind that opened the
  value are counted; strings are skipped whole. Running off the end is NULL.
\<close>

function json_skip_nest :: "char \<Rightarrow> char \<Rightarrow> string \<Rightarrow> int \<Rightarrow> string option" where
  "json_skip_nest opn cls [] depth = None"
| "json_skip_nest opn cls (c # q) depth =
     (if c = quot then
        (case json_parse_string (c # q) of
           None \<Rightarrow> None
         | Some r \<Rightarrow> json_skip_nest opn cls (snd r) depth)
      else if c = opn then json_skip_nest opn cls q (depth + 1)
      else if c = cls then
        (if depth - 1 = 0 then Some q else json_skip_nest opn cls q (depth - 1))
      else json_skip_nest opn cls q depth)"
  by pat_completeness auto
termination
  by (relation "measure (\<lambda>(opn, cls, p, d). length p)") (auto dest: json_parse_string_length)

definition scalar_end :: "char \<Rightarrow> bool" where
  "scalar_end c \<longleftrightarrow> c = CHR '','' \<or> c = CHR ''}'' \<or> c = CHR '']'' \<or> is_ws c"

definition json_skip_value :: "string \<Rightarrow> string option" where
  "json_skip_value p0 =
     (let p = json_skip_ws p0
      in case p of
           [] \<Rightarrow> None
         | c # q \<Rightarrow>
             if c = quot then map_option snd (json_parse_string p)
             else if c = CHR ''{'' then json_skip_nest c (CHR ''}'') p 0
             else if c = CHR ''['' then json_skip_nest c (CHR '']'') p 0
             else Some (dropWhile (\<lambda>x. \<not> scalar_end x) p))"

lemma json_skip_ws_length: "length (json_skip_ws p) \<le> length p"
  by (simp add: json_skip_ws_def length_dropWhile_le)

lemma json_skip_nest_length: "json_skip_nest opn cls p d = Some q \<Longrightarrow> length q \<le> length p"
  by (induction opn cls p d rule: json_skip_nest.induct)
     (auto split: if_splits option.splits dest!: json_parse_string_length)

lemma json_skip_value_length: "json_skip_value p = Some q \<Longrightarrow> length q \<le> length p"
proof -
  assume *: "json_skip_value p = Some q"
  have "length q \<le> length (json_skip_ws p)"
  proof (cases "json_skip_ws p")
    case Nil
    then show ?thesis using * by (simp add: json_skip_value_def)
  next
    case (Cons c r)
    have eq: "Some q = (if c = quot then map_option snd (json_parse_string (c # r))
        else if c = CHR ''{'' then json_skip_nest c (CHR ''}'') (c # r) 0
        else if c = CHR ''['' then json_skip_nest c (CHR '']'') (c # r) 0
        else Some (dropWhile (\<lambda>x. \<not> scalar_end x) (c # r)))"
      using * [symmetric] unfolding json_skip_value_def Let_def Cons list.case .
    have dw: "length (dropWhile (\<lambda>x. \<not> scalar_end x) (c # r)) \<le> length (c # r)"
      by (rule length_dropWhile_le)
    show ?thesis
      unfolding Cons using eq dw
      by (auto simp del: dropWhile.simps json_skip_nest.simps list.size split: if_split_asm
          dest!: sym [of "Some q"] json_parse_string_length json_skip_nest_length)
  qed
  then show ?thesis using json_skip_ws_length [of p] by simp
qed

subsection \<open>Field lookup\<close>

text \<open>
  The loop of \<open>json_field\<close>. Keys are compared with \<open>strcmp\<close>, so up to the first NUL. A string
  value is returned unescaped, any other value as the raw characters up to a delimiter.
\<close>

function json_field_loop :: "string \<Rightarrow> string \<Rightarrow> bytes option" where
  "json_field_loop p field =
     (case json_skip_ws p of
        [] \<Rightarrow> None
      | c # r \<Rightarrow>
          if c = CHR ''}'' then None
          else if c = CHR '','' then json_field_loop r field
          else if c \<noteq> quot then None
          else (case json_parse_string (c # r) of
                  None \<Rightarrow> None
                | Some kq \<Rightarrow>
                    (case json_skip_ws (snd kq) of
                       [] \<Rightarrow> None
                     | d # v0 \<Rightarrow>
                         if d \<noteq> CHR '':'' then None
                         else (case json_skip_ws v0 of
                                 [] \<Rightarrow> None
                               | e # v \<Rightarrow>
                                   if cstr (fst kq) = cstr field then
                                     (if e = quot then map_option fst (json_parse_string (e # v))
                                      else Some (takeWhile (\<lambda>x. x \<noteq> CHR '','' \<and> x \<noteq> CHR ''}'' \<and>
                                                                 x \<noteq> CHR '']'') (e # v)))
                                   else (case json_skip_value (e # v) of
                                           None \<Rightarrow> None
                                         | Some q \<Rightarrow> json_field_loop q field)))))"
  by pat_completeness auto
termination
proof (relation "measure (\<lambda>(p, f). length p)", goal_cases)
  case (2 p field c r)
  then show ?case using json_skip_ws_length [of p] by simp
next
  case (3 p field c r kq d v0 e v q)
  have "length q \<le> length (e # v)" using 3 json_skip_value_length by blast
  also have "\<dots> \<le> length v0" using 3 json_skip_ws_length [of v0] by simp
  also have "\<dots> < length (snd kq)" using 3 json_skip_ws_length [of "snd kq"] by simp
  also have "\<dots> < length (c # r)"
    using 3 json_parse_string_length [of "c # r" "fst kq" "snd kq"] by simp
  also have "\<dots> \<le> length p" using 3 json_skip_ws_length [of p] by simp
  finally show ?case by simp
qed simp

declare json_field_loop.simps [simp del]

definition json_field :: "string \<Rightarrow> string \<Rightarrow> bytes option" where
  "json_field json field =
     (case json_skip_ws json of
        [] \<Rightarrow> None
      | c # r \<Rightarrow> if c \<noteq> CHR ''{'' then None else json_field_loop r field)"

subsection \<open>Arrays\<close>

text \<open>The \<open>for (;;)\<close> of \<open>json_array_each\<close>: white space and commas before the next element.\<close>

fun json_arr_seek :: "string \<Rightarrow> string" where
  "json_arr_seek [] = []"
| "json_arr_seek (c # r) = (if is_ws c \<or> c = CHR '','' then json_arr_seek r else c # r)"

text \<open>
  The new \<open>*pos\<close> and the element, \<open>None\<close> for result 0. Positions are offsets into \<open>json\<close>.
\<close>

definition json_array_start :: "string \<Rightarrow> nat \<Rightarrow> string option" where
  "json_array_start json pos =
     (if pos = 0 then
        (case json_skip_ws json of
           [] \<Rightarrow> None
         | c # r \<Rightarrow> if c \<noteq> CHR ''['' then None else Some r)
      else Some (drop pos json))"

definition json_array_each :: "string \<Rightarrow> nat \<Rightarrow> nat \<times> string option" where
  "json_array_each json pos =
     (case json_array_start json pos of
        None \<Rightarrow> (pos, None)
      | Some p \<Rightarrow>
          (case json_arr_seek p of
             [] \<Rightarrow> (pos, None)
           | c # r \<Rightarrow>
               if c = CHR '']'' then (length json - length (c # r), None)
               else (case json_skip_value (c # r) of
                       None \<Rightarrow> (pos, None)
                     | Some q \<Rightarrow> (length json - length q,
                                 Some (take (length (c # r) - length q) (c # r))))))"

definition json_elem_strings :: "string \<Rightarrow> bytes list" where
  "json_elem_strings e =
     (case json_skip_ws e of
        [] \<Rightarrow> []
      | c # r \<Rightarrow>
          if c \<noteq> quot then []
          else (case json_parse_string (c # r) of None \<Rightarrow> [] | Some sq \<Rightarrow> [fst sq]))"

text \<open>
  The \<open>while\<close> of \<open>json_arr_strings\<close>. Nothing in the loop forces \<open>pos\<close> to grow, so the
  function may not return; \<open>None\<close> is "does not return".
\<close>

partial_function (option) json_arr_loop :: "string \<Rightarrow> nat \<Rightarrow> bytes list \<Rightarrow> bytes list option" where
  "json_arr_loop elem pos acc =
     (case json_array_each elem pos of
        (pos', None) \<Rightarrow> Some acc
      | (pos', Some e) \<Rightarrow> json_arr_loop elem pos' (acc @ json_elem_strings e))"

definition json_arr_strings :: "string \<Rightarrow> bytes list option" where
  "json_arr_strings elem = json_arr_loop elem 0 []"

text \<open>On \<open>[}\<close> every call returns the empty element at position 1, so the loop goes on for ever.\<close>

lemma json_arr_loop_stuck:
  assumes "json_arr_loop elem pos acc = Some y"
  shows "(\<forall>k. k = pos \<or> k = 1 \<longrightarrow> json_array_each elem k = (1, Some [])) \<longrightarrow> False"
proof (rule json_arr_loop.raw_induct [OF _ assms])
  fix loop elem pos acc y
  assume 1: "\<And>e p a z. loop e p a = Some z \<Longrightarrow>
      (\<forall>k. k = p \<or> k = 1 \<longrightarrow> json_array_each e k = (1, Some [])) \<longrightarrow> False"
    "(case json_array_each elem pos of (pos', None) \<Rightarrow> Some acc
      | (pos', Some e) \<Rightarrow> loop elem pos' (acc @ json_elem_strings e)) = Some y"
  show "(\<forall>k. k = pos \<or> k = 1 \<longrightarrow> json_array_each elem k = (1, Some [])) \<longrightarrow> False"
  proof
    assume a: "\<forall>k. k = pos \<or> k = 1 \<longrightarrow> json_array_each elem k = (1, Some [])"
    then have e: "json_array_each elem pos = (1, Some [])" by blast
    have "loop elem 1 (acc @ json_elem_strings []) = Some y" using 1(2) unfolding e by simp
    from 1(1) [OF this] a show False by metis
  qed
qed

lemma json_arr_strings_stuck: "json_arr_strings ''[}'' = None"
proof -
  have each: "json_array_each ''[}'' k = (1, Some [])" if "k = 0 \<or> k = 1" for k
    using that by (auto simp: json_array_each_def json_array_start_def json_skip_ws_def json_skip_value_def is_ws_def scalar_end_def)
  have "json_arr_loop ''[}'' 0 [] \<noteq> Some y" for y
    using json_arr_loop_stuck [of "''[}''" 0 "[]" y] each by blast
  then show ?thesis unfolding json_arr_strings_def by (cases "json_arr_loop ''[}'' 0 []") auto
qed

end
