(* ===== verification/Exo_Json_Codec.thy ===== *)
theory Exo_Json_Codec
  imports Exo_Json
begin

unbundle bit_operations_syntax

text \<open>
  The two JSON escapes of the stack and what the reader makes of their output: exomind's
  \<open>json_escape\<close> (\<open>src/util.c\<close>), and the client modules' \<open>json_escape\<close>
  (\<open>exosched/src/util.c\<close>), which writes every non-ASCII code point as \<open>\uXXXX\<close>.
\<close>

subsection \<open>The escapes\<close>

definition json_escape_char :: "char \<Rightarrow> string" where
  "json_escape_char c =
     (if c = quot then [bslash, quot]
      else if c = bslash then [bslash, bslash]
      else if c = nl then [bslash, CHR ''n'']
      else if c = tab then [bslash, CHR ''t'']
      else if c = cr then [bslash, CHR ''r'']
      else if c < CHR 0x20 then
        [bslash, CHR ''u'', CHR ''0'', CHR ''0'',
         ''0123456789abcdef'' ! (of_char c div 16), ''0123456789abcdef'' ! (of_char c mod 16)]
      else [c])"

definition json_escape :: "bytes \<Rightarrow> string" where
  "json_escape s = quot # concat (map json_escape_char s) @ [quot]"

text \<open>\<open>printf\<close> with \<open>%04x\<close>, for arguments below \<open>0x10000\<close>.\<close>

definition show_hex4 :: "nat \<Rightarrow> string" where
  "show_hex4 n = map (\<lambda>d. ''0123456789abcdef'' ! d)
     [n div 4096 mod 16, n div 256 mod 16, n div 16 mod 16, n mod 16]"

definition json_u :: "u32 \<Rightarrow> string" where
  "json_u v = bslash # CHR ''u'' # show_hex4 (unat v)"

lemma utf8_decode_pos: "utf8_decode s = Some (cp, m) \<Longrightarrow> 1 \<le> m \<and> m \<le> length s"
  by (auto simp: utf8_decode_def Let_def Suc_le_eq split: if_splits)

function json_escape_u :: "bytes \<Rightarrow> string" where
  "json_escape_u [] = []"
| "json_escape_u (c # r) =
     (if c = quot then bslash # quot # json_escape_u r
      else if c = bslash then bslash # bslash # json_escape_u r
      else if c = nl then bslash # CHR ''n'' # json_escape_u r
      else if c = tab then bslash # CHR ''t'' # json_escape_u r
      else if c = cr then bslash # CHR ''r'' # json_escape_u r
      else if c = CHR 0x08 then bslash # CHR ''b'' # json_escape_u r
      else if c = CHR 0x0C then bslash # CHR ''f'' # json_escape_u r
      else if c < CHR 0x20 then json_u (of_char c) @ json_escape_u r
      else if c < CHR 0x80 then c # json_escape_u r
      else (case utf8_decode (c # r) of
              None \<Rightarrow> CHR ''?'' # json_escape_u r
            | Some (cp, m) \<Rightarrow>
                (if cp \<le> 0xFFFF then json_u cp
                 else (let v = cp - 0x10000
                       in json_u (0xD800 + drop_bit 10 v) @ json_u (0xDC00 + (v AND 0x3FF))))
                @ json_escape_u (drop m (c # r))))"
  by pat_completeness auto
termination
  by (relation "measure length") (auto dest: utf8_decode_pos)

subsection \<open>Reading an escaped string back\<close>

lemma hexval_show [exo_codec]: "d < 16 \<Longrightarrow> hexval (''0123456789abcdef'' ! d) = int d"
  unfolding less_16_iff by (auto simp: hexval_def less_eq_char_def)

lemma hex_loop_append:
  "hex_loop (xs @ ys) cp = (case hex_loop xs cp of None \<Rightarrow> None | Some v \<Rightarrow> hex_loop ys v)"
  by (induction xs arbitrary: cp) auto

lemma hex_loop_digit:
  "d < 16 \<Longrightarrow> hex_loop ((''0123456789abcdef'' ! d) # r) cp = hex_loop r (cp * 16 + of_nat d)"
  by (simp only: hex_loop.simps hexval_show) simp

lemma hex_loop_mod:
  "hex_loop ((''0123456789abcdef'' ! (m mod 16)) # r) cp = hex_loop r (cp * 16 + of_nat (m mod 16))"
  by (rule hex_loop_digit) simp

lemma hex_loop_show_hex4 [exo_codec]:
  assumes "n < 65536"
  shows "hex_loop (show_hex4 n) 0 = Some (of_nat n :: u32)"
proof -
  have split: "((n div 4096 mod 16 * 16 + n div 256 mod 16) * 16 + n div 16 mod 16) * 16 + n mod 16 = n"
  proof -
    have d: "n div 256 = n div 16 div 16" "n div 4096 mod 16 = n div 16 div 16 div 16"
      using assms by (simp_all add: less_mult_imp_div_less flip: div_mult2_eq)
    have e: "n div 16 div 16 div 16 * 16 + n div 16 div 16 mod 16 = n div 16 div 16"
      "n div 16 div 16 * 16 + n div 16 mod 16 = n div 16" "n div 16 * 16 + n mod 16 = n"
      by (rule div_mult_mod_eq)+
    show ?thesis by (simp only: d e)
  qed
  have "hex_loop (show_hex4 n) 0 =
    Some (of_nat (((n div 4096 mod 16 * 16 + n div 256 mod 16) * 16 + n div 16 mod 16) * 16 + n mod 16))"
    unfolding show_hex4_def list.map hex_loop_mod
    by (simp only: hex_loop.simps of_nat_add of_nat_mult of_nat_numeral mult_zero_left add_0)
  then show ?thesis by (simp only: split)
qed

lemma json_surrogate_plain:
  "cp < 0xD800 \<or> 0xDBFF < cp \<Longrightarrow> json_surrogate cp p = (cp, p)"
  by (auto simp: json_surrogate_def)

lemma json_unescape_u [simp]: "json_unescape (CHR ''u'') = None"
  by (simp add: json_unescape_def)

lemma length_show_hex4 [simp, exo_len]: "length (show_hex4 n) = 4"
  by (simp add: show_hex4_def)

lemma json_str_loop_u:
  assumes "unat v < 65536"
  shows "json_str_loop (json_u v @ p) buf =
    json_str_loop (snd (json_surrogate v p)) (buf @ utf8_encode (fst (json_surrogate v p)))"
  using hex_loop_show_hex4 [OF assms] by (simp add: json_u_def)

lemma json_str_loop_plain:
  "c \<noteq> quot \<Longrightarrow> c \<noteq> bslash \<Longrightarrow> json_str_loop (c # p) buf = json_str_loop p (buf @ [c])"
  by simp

lemma char_lt_iff: "c < d \<longleftrightarrow> (of_char c :: nat) < of_char d"
  by (simp add: less_char_def)

lemma utf8_encode_ascii: "(of_char c :: nat) < 128 \<Longrightarrow> utf8_encode (of_char c) = [c]"
proof -
  assume "(of_char c :: nat) < 128"
  then have "(of_char c :: u32) < 0x80"
    by (simp add: word_less_nat_alt unat_of_char)
  then show ?thesis by (simp add: utf8_encode_def byte_of_of_char)
qed

lemma json_str_loop_control:
  assumes "(of_char c :: nat) < 32"
  shows "json_str_loop (json_u (of_char c) @ p) buf = json_str_loop p (buf @ [c])"
proof -
  have u: "unat (of_char c :: u32) = of_char c" by (simp add: unat_of_char)
  have "(of_char c :: u32) < 0xD800"
    using assms by (simp add: word_less_nat_alt u)
  then have "json_surrogate (of_char c) p = (of_char c, p)"
    by (simp add: json_surrogate_plain)
  moreover have "unat (of_char c :: u32) < 65536" using assms u by simp
  ultimately show ?thesis
    using assms by (simp add: json_str_loop_u utf8_encode_ascii)
qed

lemma json_str_loop_escape_char:
  "json_str_loop (json_escape_char c @ p) buf = json_str_loop p (buf @ [c])"
proof (cases "c = quot \<or> c = bslash \<or> c = nl \<or> c = tab \<or> c = cr \<or> \<not> c < CHR 0x20")
  case True
  then show ?thesis by (auto simp: json_escape_char_def json_unescape_def)
next
  case False
  then have lt: "(of_char c :: nat) < 32" by (simp add: char_lt_iff)
  have "json_escape_char c = json_u (of_char c)"
    using False lt by (simp add: json_escape_char_def json_u_def show_hex4_def unat_of_char)
  then show ?thesis using json_str_loop_control [OF lt] by simp
qed

lemma json_str_loop_escape:
  "json_str_loop (concat (map json_escape_char s) @ quot # rest) buf = Some (buf @ s, rest)"
  by (induction s arbitrary: buf) (simp_all add: json_str_loop_escape_char)

lemma json_parse_escape [exo_codec]:
  "json_parse_string (json_escape s @ rest) = Some (s, rest)"
  by (simp add: json_parse_string_def json_escape_def json_str_loop_escape)

subsection \<open>UTF-8 round trip\<close>

text \<open>Unicode scalar values: the code points a well-formed UTF-8 text consists of.\<close>

definition scalar_value :: "u32 \<Rightarrow> bool" where
  "scalar_value cp \<longleftrightarrow> cp < 0xD800 \<or> (0xDFFF < cp \<and> cp < 0x110000)"

lemma not_ascii_byte: "bit w 7 \<Longrightarrow> \<not> (w :: u32) < 0x80"
  using bit_below [of w 7 7] by auto

text \<open>What the decoder's masks see of a lead byte with payload \<open>d\<close> and of a continuation byte.\<close>

lemma lead2:
  assumes "(d :: u32) AND 0x1F = d"
  shows "((0xC0 OR d) AND 255) AND 0xE0 = 0xC0" "((0xC0 OR d) AND 255) AND 0x1F = d"
    "\<not> (0xC0 OR d) AND 255 < 0x80"
proof -
  have "((0xC0 OR (d AND 0x1F)) AND 255) AND 0xE0 = 0xC0"
    "((0xC0 OR (d AND 0x1F)) AND 255) AND 0x1F = d AND 0x1F"
    by (rule bit_word_eqI, auto simp: bit_simps less_32_iff)+
  moreover have "bit ((0xC0 OR d) AND 255) 7" by (simp add: bit_simps)
  ultimately show "((0xC0 OR d) AND 255) AND 0xE0 = 0xC0" "((0xC0 OR d) AND 255) AND 0x1F = d"
    "\<not> (0xC0 OR d) AND 255 < 0x80" using not_ascii_byte by (simp_all add: assms)
qed

lemma lead3:
  assumes "(d :: u32) AND 0x0F = d"
  shows "((0xE0 OR d) AND 255) AND 0xF0 = 0xE0" "((0xE0 OR d) AND 255) AND 0x0F = d"
    "\<not> (0xE0 OR d) AND 255 < 0x80" "((0xE0 OR d) AND 255) AND 0xE0 = 0xE0"
proof -
  have "((0xE0 OR (d AND 0x0F)) AND 255) AND 0xF0 = 0xE0"
    "((0xE0 OR (d AND 0x0F)) AND 255) AND 0x0F = d AND 0x0F"
    "((0xE0 OR (d AND 0x0F)) AND 255) AND 0xE0 = 0xE0"
    by (rule bit_word_eqI, auto simp: bit_simps less_32_iff)+
  moreover have "bit ((0xE0 OR d) AND 255) 7" by (simp add: bit_simps)
  ultimately show "((0xE0 OR d) AND 255) AND 0xF0 = 0xE0" "((0xE0 OR d) AND 255) AND 0x0F = d"
    "\<not> (0xE0 OR d) AND 255 < 0x80" "((0xE0 OR d) AND 255) AND 0xE0 = 0xE0"
    using not_ascii_byte by (simp_all add: assms)
qed

lemma lead4:
  assumes "(d :: u32) AND 0x07 = d"
  shows "((0xF0 OR d) AND 255) AND 0xF8 = 0xF0" "((0xF0 OR d) AND 255) AND 0x07 = d"
    "\<not> (0xF0 OR d) AND 255 < 0x80" "((0xF0 OR d) AND 255) AND 0xE0 = 0xE0"
    "((0xF0 OR d) AND 255) AND 0xF0 = 0xF0"
proof -
  have "((0xF0 OR (d AND 0x07)) AND 255) AND 0xF8 = 0xF0"
    "((0xF0 OR (d AND 0x07)) AND 255) AND 0x07 = d AND 0x07"
    "((0xF0 OR (d AND 0x07)) AND 255) AND 0xE0 = 0xE0"
    "((0xF0 OR (d AND 0x07)) AND 255) AND 0xF0 = 0xF0"
    by (rule bit_word_eqI, auto simp: bit_simps less_32_iff)+
  moreover have "bit ((0xF0 OR d) AND 255) 7" by (simp add: bit_simps)
  ultimately show "((0xF0 OR d) AND 255) AND 0xF8 = 0xF0" "((0xF0 OR d) AND 255) AND 0x07 = d"
    "\<not> (0xF0 OR d) AND 255 < 0x80" "((0xF0 OR d) AND 255) AND 0xE0 = 0xE0"
    "((0xF0 OR d) AND 255) AND 0xF0 = 0xF0"
    using not_ascii_byte by (simp_all add: assms)
qed

lemma utf8_cont: "((0x80 OR (x AND 0x3F)) AND 255) AND 0xC0 = (0x80 :: u32)"
  "((0x80 OR (x AND 0x3F)) AND 255) AND 0x3F = (x :: u32) AND 0x3F"
  by (rule bit_word_eqI, auto simp: bit_simps less_32_iff)+

lemma mask6: "(0x3F :: u32) = mask 6"
  by (simp add: mask_numeral)

lemma utf8_glue2: "push_bit 6 (drop_bit 6 cp) OR (cp AND 0x3F) = (cp :: u32)"
  unfolding mask6 by (rule bit_word_eqI) (auto simp: bit_simps)

lemma utf8_glue3:
  "push_bit 12 (drop_bit 12 cp) OR push_bit 6 (drop_bit 6 cp AND 0x3F) OR (cp AND 0x3F) = (cp :: u32)"
  (is "?l = _")
proof (rule bit_word_eqI)
  fix n assume "n < LENGTH(32)"
  then show "bit ?l n = bit cp n"
    unfolding mask6 by (cases "12 \<le> n"; cases "6 \<le> n"; auto simp: bit_simps)
qed

lemma utf8_glue4:
  "push_bit 18 (drop_bit 18 cp) OR push_bit 12 (drop_bit 12 cp AND 0x3F) OR
   push_bit 6 (drop_bit 6 cp AND 0x3F) OR (cp AND 0x3F) = (cp :: u32)"
  (is "?l = _")
proof (rule bit_word_eqI)
  fix n assume "n < LENGTH(32)"
  then show "bit ?l n = bit cp n"
    unfolding mask6
    by (cases "18 \<le> n"; cases "12 \<le> n"; cases "6 \<le> n"; auto simp: bit_simps)
qed

lemma drop_bit_mask:
  assumes "(cp :: u32) < 2 ^ k" "k < 32" "n \<le> k"
  shows "drop_bit n cp AND mask (k - n) = drop_bit n cp"
proof (rule bit_word_eqI)
  fix m
  have "bit cp (n + m) \<Longrightarrow> n + m < k"
    using bit_below [of cp k "n + m"] assms by simp
  then show "bit (drop_bit n cp AND mask (k - n)) m = bit (drop_bit n cp) m"
    using assms by (auto simp: bit_simps)
qed

lemma utf8_decode_encode [exo_codec]:
  assumes "cp < 0x200000"
  shows "utf8_decode (utf8_encode cp @ r) = Some (cp, length (utf8_encode cp))"
proof -
  consider "cp < 0x80" | "\<not> cp < 0x80" "cp < 0x800" | "\<not> cp < 0x80" "\<not> cp < 0x800" "cp < 0x10000"
    | "\<not> cp < 0x80" "\<not> cp < 0x800" "\<not> cp < 0x10000" by blast
  then show ?thesis
  proof cases
    case 1
    then have "cp AND mask (8 - 0) = cp" using drop_bit_mask [of cp 8 0] less_trans [of cp "0x80" "0x100"] by simp
    with 1 show ?thesis
      by (simp add: utf8_encode_def utf8_decode_def of_char_byte_of_u32 mask_numeral)
  next
    case 2
    then have d: "drop_bit 6 cp AND 0x1F = drop_bit 6 cp"
      using drop_bit_mask [of cp 11 6] by (simp add: mask_numeral)
    show ?thesis
      using 2 lead2 [OF d]
      by (simp add: utf8_encode_def utf8_decode_def of_char_byte_of_u32 utf8_cont utf8_glue2)
  next
    case 3
    then have d: "drop_bit 12 cp AND 0x0F = drop_bit 12 cp"
      using drop_bit_mask [of cp 16 12] by (simp add: mask_numeral)
    show ?thesis
      using 3 lead3 [OF d]
      by (simp add: utf8_encode_def utf8_decode_def of_char_byte_of_u32 utf8_cont utf8_glue3 [simplified])
  next
    case 4
    then have d: "drop_bit 18 cp AND 0x07 = drop_bit 18 cp"
      using drop_bit_mask [of cp 21 18] assms by (simp add: mask_numeral)
    show ?thesis
      using 4 lead4 [OF d]
      by (simp add: utf8_encode_def utf8_decode_def of_char_byte_of_u32 utf8_cont utf8_glue4 [simplified])
  qed
qed

subsection \<open>The client escape read back by the server's parser\<close>

lemma json_surrogate_pair:
  assumes cp: "0xFFFF < cp" "cp < 0x110000" and v: "v = cp - 0x10000"
  shows "json_surrogate (0xD800 + drop_bit 10 v) (json_u (0xDC00 + (v AND 0x3FF)) @ p) = (cp, p)"
    and "unat (0xD800 + drop_bit 10 v) < 65536"
proof -
  have le: "0x10000 \<le> cp" using cp(1) by (simp add: word_le_nat_alt word_less_nat_alt)
  have vn: "unat v = unat cp - 65536" using le unfolding v by (simp add: unat_sub)
  have "unat cp < 1114112" using cp(2) by (simp add: word_less_nat_alt)
  then have v20: "unat v < 1048576" using vn by linarith
  let ?h = "drop_bit 10 v" and ?l = "v AND 0x3FF"
  have h: "unat ?h = unat v div 1024"
    by (simp only: unat_drop_bit_eq) (simp add: drop_bit_eq_div)
  have "v AND 0x3FF = take_bit 10 v" by (simp add: take_bit_eq_mask mask_numeral)
  then have l: "unat ?l = unat v mod 1024"
    by (simp only: unsigned_take_bit_eq) (simp add: take_bit_eq_mod)
  have h_lt: "unat ?h < 1024" using h v20 by (simp add: less_mult_imp_div_less)
  have l_lt: "unat ?l < 1024" using l by simp
  have hi: "unat (0xD800 + ?h) = 0xD800 + unat ?h"
    using h_lt by (simp add: unat_word_ariths)
  have lo: "unat (0xDC00 + ?l) = 0xDC00 + unat ?l"
    using l_lt by (simp add: unat_word_ariths)
  show "unat (0xD800 + ?h) < 65536" using hi h_lt by simp
  have c1: "0xD800 \<le> 0xD800 + ?h" "0xD800 + ?h \<le> 0xDBFF"
    using hi h_lt by (simp_all add: word_le_nat_alt)
  have c2: "0xDC00 \<le> 0xDC00 + ?l" "0xDC00 + ?l \<le> 0xDFFF"
    using lo l_lt by (simp_all add: word_le_nat_alt)
  have glue: "push_bit 10 ?h + ?l = v"
  proof -
    have "unat (push_bit 10 ?h) = 1024 * unat ?h"
      using h_lt by (simp only: unsigned_push_bit_eq) (simp add: push_bit_eq_mult take_bit_eq_mod)
    then have "unat (push_bit 10 ?h + ?l) = unat v"
      using h l h_lt l_lt by (simp add: unat_word_ariths)
    then show ?thesis by (simp only: word_unat_eq_iff)
  qed
  have "unat (0xDC00 + ?l) < 65536" using lo l_lt by simp
  from hex_loop_show_hex4 [OF this]
  have hx: "hex_loop (take 4 (drop 2 (json_u (0xDC00 + ?l) @ p))) 0 = Some (0xDC00 + ?l)"
    by (simp add: json_u_def)
  have "0x10000 + push_bit 10 (0xD800 + h - 0xD800) + (0xDC00 + l - 0xDC00) =
      0x10000 + (push_bit 10 h + l)" for h l :: u32 by simp
  then have "0x10000 + push_bit 10 (0xD800 + ?h - 0xD800) + (0xDC00 + ?l - 0xDC00) = cp"
    by (simp only: glue) (simp add: v)
  then show "json_surrogate (0xD800 + ?h) (json_u (0xDC00 + ?l) @ p) = (cp, p)"
    unfolding json_surrogate_def hx using c1 c2
    by (simp add: json_u_def Let_def)
qed

text \<open>The escape of one code point.\<close>

definition json_u_cp :: "u32 \<Rightarrow> string" where
  "json_u_cp cp =
     (if cp \<le> 0xFFFF then json_u cp
      else json_u (0xD800 + drop_bit 10 (cp - 0x10000)) @
           json_u (0xDC00 + ((cp - 0x10000) AND 0x3FF)))"

lemma json_str_loop_u_cp:
  assumes "scalar_value cp"
  shows "json_str_loop (json_u_cp cp @ p) buf = json_str_loop p (buf @ utf8_encode cp)"
proof (cases "cp \<le> 0xFFFF")
  case True
  then have "unat cp < 65536" by (simp add: word_le_nat_alt)
  moreover have "cp < 0xD800 \<or> 0xDBFF < cp"
    using assms less_trans [of "0xDBFF :: u32" "0xDFFF" cp] by (auto simp: scalar_value_def)
  ultimately show ?thesis
    using True by (simp add: json_u_cp_def json_str_loop_u json_surrogate_plain)
next
  case False
  then have *: "0xFFFF < cp" by simp
  moreover have "cp < 0x110000"
    using assms less_trans [of cp "0xD800" "0x110000"] by (auto simp: scalar_value_def)
  ultimately show ?thesis
    using False json_surrogate_pair [of cp "cp - 0x10000"]
    by (simp add: json_u_cp_def json_str_loop_u)
qed

lemma utf8_encode_multi:
  assumes "\<not> cp < 0x80" "cp < 0x200000"
  obtains c t where "utf8_encode cp = c # t" "\<not> c < CHR 0x80"
    "\<And>r. utf8_decode (c # t @ r) = Some (cp, Suc (length t))"
proof -
  obtain c t where ct: "utf8_encode cp = c # t"
    by (cases "utf8_encode cp") (auto simp: utf8_encode_def split: if_splits)
  have dec: "utf8_decode (c # t @ r) = Some (cp, Suc (length t))" for r
    using utf8_decode_encode [OF assms(2), of r] by (simp add: ct)
  have "\<not> c < CHR 0x80"
  proof
    assume "c < CHR 0x80"
    then have "(of_char c :: u32) < 0x80"
      by (simp add: char_lt_iff word_less_nat_alt unat_of_char)
    then have "cp = of_char c" using dec [of "[]"] by (simp add: utf8_decode_def)
    with \<open>(of_char c :: u32) < 0x80\<close> assms(1) show False by simp
  qed
  with ct dec that show ?thesis by blast
qed

lemma not_ascii_special:
  "\<not> c < CHR 0x80 \<Longrightarrow> c \<noteq> quot \<and> c \<noteq> bslash \<and> c \<noteq> nl \<and> c \<noteq> tab \<and> c \<noteq> cr \<and>
     c \<noteq> CHR 0x08 \<and> c \<noteq> CHR 0x0C \<and> \<not> c < CHR 0x20"
  by (auto simp: char_lt_iff)

lemma json_escape_u_ascii:
  assumes "c < CHR 0x80"
  shows "json_str_loop (json_escape_u (c # r) @ p) buf = json_str_loop (json_escape_u r @ p) (buf @ [c])"
proof (cases "c = quot \<or> c = bslash \<or> c = nl \<or> c = tab \<or> c = cr \<or> c = CHR 0x08 \<or> c = CHR 0x0C \<or>
      \<not> c < CHR 0x20")
  case True
  then show ?thesis using assms by (auto simp: json_unescape_def)
next
  case False
  then have "json_escape_u (c # r) = json_u (of_char c) @ json_escape_u r" by simp
  moreover have "(of_char c :: nat) < 32" using False by (simp add: char_lt_iff)
  ultimately show ?thesis by (simp add: json_str_loop_control)
qed

lemma json_str_loop_escape_u:
  "\<forall>cp \<in> set cps. scalar_value cp \<Longrightarrow>
   json_str_loop (json_escape_u (concat (map utf8_encode cps)) @ quot # rest) buf =
     Some (buf @ concat (map utf8_encode cps), rest)"
proof (induction cps arbitrary: buf)
  case Nil
  then show ?case by simp
next
  case (Cons cp cps)
  let ?r = "concat (map utf8_encode cps)"
  have sc: "scalar_value cp" using Cons.prems by simp
  have lt: "cp < 0x200000"
    using sc less_trans [of cp "0xD800" "0x200000"] less_trans [of cp "0x110000" "0x200000"]
    by (auto simp: scalar_value_def)
  have "json_str_loop (json_escape_u (utf8_encode cp @ ?r) @ quot # rest) buf =
    json_str_loop (json_escape_u ?r @ quot # rest) (buf @ utf8_encode cp)"
  proof (cases "cp < 0x80")
    case True
    then have "utf8_encode cp = [byte_of cp]" by (simp add: utf8_encode_def)
    moreover have "byte_of cp < CHR 0x80"
      using True by (simp add: char_lt_iff byte_of_def word_less_nat_alt)
    ultimately show ?thesis by (simp add: json_escape_u_ascii del: json_escape_u.simps)
  next
    case False
    obtain c t where ct: "utf8_encode cp = c # t" "\<not> c < CHR 0x80"
      "\<And>r. utf8_decode (c # t @ r) = Some (cp, Suc (length t))"
      using utf8_encode_multi [OF False lt] by blast
    have "json_escape_u (c # t @ ?r) = json_u_cp cp @ json_escape_u ?r"
      using ct(2,3) not_ascii_special [OF ct(2)] by (simp add: json_u_cp_def Let_def)
    then show ?thesis using json_str_loop_u_cp [OF sc] ct(1) by simp
  qed
  then show ?case using Cons by simp
qed

lemma json_parse_escape_u [exo_codec]:
  assumes "\<forall>cp \<in> set cps. scalar_value cp" and "v = concat (map utf8_encode cps)"
  shows "json_parse_string (quot # json_escape_u v @ quot # rest) = Some (v, rest)"
  using json_str_loop_escape_u [OF assms(1), of rest "[]"] assms(2)
  by (simp add: json_parse_string_def)

end
