(* ===== verification/Exo_Api.thy ===== *)
theory Exo_Api
  imports Exo_Http Exo_Json_Codec
begin

unbundle bit_operations_syntax

text \<open>
  The operations exomind serves (\<open>route\<close> in \<open>src/http.c\<close>): one definition per path, over the
  main store, the optional project store and the mandate text. \<open>ws i\<close> is the environment (clock,
  device) of the i-th store call of a request. \<open>store_sync\<close> leaves the modelled state alone and
  its result is ignored by the code, so it does not appear. Reads of a C string stop at its NUL.
\<close>

record srv =
  a_main :: store
  a_proj :: "store option"
  a_mandate :: string
  a_rand :: u32            \<comment> \<open>the static state of \<open>rand16\<close>\<close>

datatype ctype = Plain | Bare | Json | Markdown

record resp =
  p_status :: int
  p_ctype :: ctype
  p_body :: bytes

definition plain :: "int \<Rightarrow> bytes \<Rightarrow> resp" where
  "plain st b = \<lparr>p_status = st, p_ctype = Plain, p_body = b\<rparr>"

definition listing :: "bool \<Rightarrow> bytes \<Rightarrow> bytes \<Rightarrow> resp" where
  "listing json j t = (if json then \<lparr>p_status = 200, p_ctype = Json, p_body = j\<rparr> else plain 200 t)"

definition jname :: "string \<Rightarrow> string" where
  "jname s = quot # s @ [quot]"

subsection \<open>Calls into the stores\<close>

definition use_store :: "bool \<Rightarrow> (store \<Rightarrow> store \<times> 'a) \<Rightarrow> srv \<Rightarrow> srv \<times> 'a" where
  "use_store p f a =
     (case (if p then a_proj a else None) of
        Some ps \<Rightarrow> (let (ps', x) = f ps in (a\<lparr>a_proj := Some ps'\<rparr>, x))
      | None \<Rightarrow> (let (ms', x) = f (a_main a) in (a\<lparr>a_main := ms'\<rparr>, x)))"

definition pick_store :: "srv \<Rightarrow> string option \<Rightarrow> string option \<Rightarrow> bool" where
  "pick_store a key query = pick_proj (a_proj a \<noteq> None) key query"

definition srv_set :: "bool \<Rightarrow> bytes \<Rightarrow> bytes \<Rightarrow> int \<Rightarrow> bool \<Rightarrow> world \<Rightarrow> srv \<Rightarrow> srv \<times> int" where
  "srv_set p k v ttl app w = use_store p (\<lambda>s. store_set s k v ttl app w)"

definition srv_del :: "bool \<Rightarrow> bytes \<Rightarrow> world \<Rightarrow> srv \<Rightarrow> srv \<times> int" where
  "srv_del p k w = use_store p (\<lambda>s. store_del s k w)"

definition srv_get :: "bool \<Rightarrow> bytes \<Rightarrow> world \<Rightarrow> srv \<Rightarrow> srv \<times> bytes option" where
  "srv_get p k w = use_store p (\<lambda>s. let (s', r) = store_get s k (w_now w) in (s', map_option fst r))"

definition srv_query :: "bool \<Rightarrow> qmode \<Rightarrow> bytes option \<Rightarrow> bytes option \<Rightarrow> bool \<Rightarrow> world \<Rightarrow> srv \<Rightarrow> srv \<times> kv list" where
  "srv_query p mode pre sub desc w =
     use_store p (\<lambda>s. let (s', kvs, tr) = store_query s mode pre sub desc (w_now w) in (s', kvs))"

subsection \<open>Reading and writing a key\<close>

definition VEC_PREFIX :: string where "VEC_PREFIX = ''vec:''"
definition VEC_DIM :: nat where "VEC_DIM = 256"

text \<open>The common start of the handlers: the \<open>key\<close> parameter, its two errors.\<close>

definition with_key :: "req \<Rightarrow> srv \<Rightarrow> (string \<Rightarrow> srv \<times> resp) \<Rightarrow> srv \<times> resp" where
  "with_key r a f =
     (case qp_key (rquery r) of
        KTooLong \<Rightarrow> (a, plain 400 ''error: key too long'')
      | KMissing \<Rightarrow> (a, plain 400 ''error: missing key'')
      | KKey k \<Rightarrow> f k)"

definition do_get :: "tok option \<Rightarrow> req \<Rightarrow> (nat \<Rightarrow> world) \<Rightarrow> srv \<Rightarrow> srv \<times> resp" where
  "do_get tok r ws a =
     with_key r a (\<lambda>key.
       if \<not> tok_allows_key tok key then (a, plain 403 ''error: denied'')
       else (let (a', v) = srv_get (pick_store a (Some key) (Some (rquery r))) key (ws 0) a
             in case v of None \<Rightarrow> (a', plain 404 ''missing'') | Some v \<Rightarrow> (a', plain 200 v)))"

record set_args =
  sa_key :: "string option"
  sa_val :: bytes
  sa_ttl :: int
  sa_app :: bool

definition truth :: "string \<Rightarrow> bool" where
  "truth s \<longleftrightarrow> fst (strtoll s) \<noteq> 0 \<or> s = ''true''"

definition set_json :: "bytes \<Rightarrow> set_args option" where
  "set_json b =
     (let f = (\<lambda>n. map_option cstr (json_field b n)); jk = f ''key''
      in if (case jk of None \<Rightarrow> False | Some k \<Rightarrow> length k \<ge> MAX_KEY + 1) then None
         else Some \<lparr>sa_key = jk, sa_val = (case f ''value'' of None \<Rightarrow> [] | Some v \<Rightarrow> v),
                sa_ttl = (case f ''ttl'' of None \<Rightarrow> 0 | Some t \<Rightarrow> fst (strtoll t)),
                sa_app = (case f ''append'' of None \<Rightarrow> False | Some t \<Rightarrow> truth t)\<rparr>)"

fun set_form :: "string list \<Rightarrow> set_args \<Rightarrow> set_args option" where
  "set_form [] sa = Some sa"
| "set_form (p # ps) sa =
     (let n = cstr (url_decode (pair_name p)); v = url_decode (pair_value p)
      in if n = ''key'' then
           (if length v \<ge> MAX_KEY + 1 then None else set_form ps (sa\<lparr>sa_key := Some (cstr v)\<rparr>))
         else if n = ''value'' then set_form ps (sa\<lparr>sa_val := v\<rparr>)
         else if n = ''ttl'' then set_form ps (sa\<lparr>sa_ttl := fst (strtoll (cstr v))\<rparr>)
         else if n = ''append'' then set_form ps (sa\<lparr>sa_app := truth (cstr v)\<rparr>)
         else set_form ps sa)"

definition set_raw :: "req \<Rightarrow> set_args option" where
  "set_raw r =
     (case qp_key (rquery r) of
        KTooLong \<Rightarrow> None
      | k \<Rightarrow> Some \<lparr>sa_key = (case k of KKey s \<Rightarrow> Some s | _ \<Rightarrow> None), sa_val = rbody r,
               sa_ttl = qp_int (rquery r) ''ttl'' 0,
               sa_app = (case qp_str (rquery r) ''append'' 4096 of
                           None \<Rightarrow> False | Some s \<Rightarrow> s = ''1'' \<or> s = ''true'')\<rparr>)"

text \<open>The three body shapes; \<open>None\<close> is the key that is too long.\<close>

definition set_args_of :: "req \<Rightarrow> set_args option" where
  "set_args_of r =
     (let b = rbody r
      in if b \<noteq> [] \<and> (rjson r \<or> (hd b = CHR ''{'' \<and> json_field b ''key'' \<noteq> None)) then set_json b
         else if b \<noteq> [] \<and> is_form_body b then
           set_form (form_pairs b) \<lparr>sa_key = None, sa_val = [], sa_ttl = 0, sa_app = False\<rparr>
         else set_raw r)"

definition do_set :: "tok option \<Rightarrow> req \<Rightarrow> (nat \<Rightarrow> world) \<Rightarrow> srv \<Rightarrow> srv \<times> resp" where
  "do_set tok r ws a =
     (case set_args_of r of
        None \<Rightarrow> (a, plain 400 ''error: key too long'')
      | Some sa \<Rightarrow>
          (case sa_key sa of
             None \<Rightarrow> (a, plain 400 ''error: missing key'')
           | Some key \<Rightarrow>
               if key = [] then (a, plain 400 ''error: empty key'')
               else if length key > MAX_KEY then (a, plain 400 ''error: key too long'')
               else if \<not> tok_can_write tok key then (a, plain 403 ''error: denied'')
               else if length (sa_val sa) > MAX_VAL then (a, plain 413 ''error: value too large'')
               else (let (a', rc) = srv_set (pick_store a (Some key) (Some (rquery r))) key (sa_val sa)
                           (sa_ttl sa) (sa_app sa) (ws 0) a
                     in if rc \<noteq> 0 then (a', plain 500 ''error: store failure'') else (a', plain 200 ''ok''))))"

definition do_append :: "tok option \<Rightarrow> req \<Rightarrow> (nat \<Rightarrow> world) \<Rightarrow> srv \<Rightarrow> srv \<times> resp" where
  "do_append tok r ws a =
     with_key r a (\<lambda>key.
       if key = [] then (a, plain 400 ''error: empty key'')
       else if \<not> tok_can_write tok key then (a, plain 403 ''error: denied'')
       else (let (a', rc) = srv_set (pick_store a (Some key) (Some (rquery r))) key (rbody r) 0 True (ws 0) a
             in if rc \<noteq> 0 then (a', plain 500 ''error: store failure'') else (a', plain 200 ''ok'')))"

text \<open>Deleting a key and, when the token may write it, the vector stored for it in the main store.\<close>

definition del_key_cascade :: "tok option \<Rightarrow> bytes \<Rightarrow> string \<Rightarrow> (nat \<Rightarrow> world) \<Rightarrow> srv \<Rightarrow> srv \<times> int" where
  "del_key_cascade tok key query ws a =
     (let (a1, existed) = srv_del (pick_store a (Some key) (Some query)) key (ws 0) a
      in if length key + length VEC_PREFIX \<le> MAX_KEY \<and> tok_can_write tok (VEC_PREFIX @ key)
         then (fst (srv_del False (VEC_PREFIX @ key) (ws 1) a1), existed)
         else (a1, existed))"

definition deleted :: "int \<Rightarrow> resp" where
  "deleted existed =
     (if existed < 0 then plain 500 ''error: store failure''
      else if existed = 0 then plain 404 ''missing'' else plain 200 ''ok'')"

definition do_del :: "tok option \<Rightarrow> req \<Rightarrow> (nat \<Rightarrow> world) \<Rightarrow> srv \<Rightarrow> srv \<times> resp" where
  "do_del tok r ws a =
     (if rmethod r \<noteq> ''DELETE'' \<and> rmethod r \<noteq> ''POST'' then (a, plain 405 ''error: use DELETE'')
      else with_key r a (\<lambda>key.
        if key = [] then (a, plain 400 ''error: empty key'')
        else if \<not> tok_can_write tok key then (a, plain 403 ''error: denied'')
        else (let (a', existed) = del_key_cascade tok key (rquery r) ws a in (a', deleted existed))))"

subsection \<open>Vectors\<close>

definition http_embed :: "tok option \<Rightarrow> bytes \<Rightarrow> bytes \<Rightarrow> int \<Rightarrow> world \<Rightarrow> srv \<Rightarrow> srv \<times> int" where
  "http_embed tok k body ttl w a =
     (if k = [] \<or> length k + length VEC_PREFIX > MAX_KEY then (a, -1)
      else if \<not> tok_can_write tok (VEC_PREFIX @ k) then (a, 0)
      else (let (a', rc) = srv_set False (VEC_PREFIX @ k) (vec_encode (vec_embed body)) ttl False w a
            in (a', if rc = 0 then 1 else -1)))"

definition show_vec :: "vec \<Rightarrow> string" where
  "show_vec v = ''dim '' @ show_nat VEC_DIM @
     concat (map (\<lambda>(i, x). CHR '' '' # show_nat (unat i) @ CHR '':'' # show_nat (unat x)) v)"

definition do_embed :: "tok option \<Rightarrow> req \<Rightarrow> (nat \<Rightarrow> world) \<Rightarrow> srv \<Rightarrow> srv \<times> resp" where
  "do_embed tok r ws a =
     with_key r a (\<lambda>key.
       if key = [] then (a, plain 400 ''error: empty key'')
       else if length key + length VEC_PREFIX > MAX_KEY then (a, plain 400 ''error: key too long'')
       else if rmethod r = ''POST'' then
         (let (a', rc) = http_embed tok key (rbody r) (qp_int (rquery r) ''ttl'' 0) (ws 0) a
          in if rc = 0 then (a', plain 403 ''error: denied'')
             else if rc < 0 then (a', plain 500 ''error: store failure'')
             else (a', plain 200 (''ok '' @ key @ CHR '' '' # show_nat VEC_DIM)))
       else if rmethod r = ''DELETE'' then
         (if \<not> tok_can_write tok (VEC_PREFIX @ key) then (a, plain 403 ''error: denied'')
          else (let (a', existed) = srv_del False (VEC_PREFIX @ key) (ws 0) a in (a', deleted existed)))
       else if \<not> tok_allows_key tok (VEC_PREFIX @ key) then (a, plain 403 ''error: denied'')
       else (let (a', v) = srv_get False (VEC_PREFIX @ key) (ws 0) a
             in case v of
                  None \<Rightarrow> (a', plain 404 ''missing'')
                | Some v \<Rightarrow> (case vec_parse v of
                      None \<Rightarrow> (a', plain 500 ''error: bad vector'')
                    | Some p \<Rightarrow> (a', plain 200 (show_vec p)))))"

text \<open>
  The nearest vectors. HOL has no binary64 arithmetic: \<open>score dot q e\<close> stands for the scaled and
  truncated quotient \<open>dot / (sqrt q * sqrt e)\<close>, capped at 1, that the C code computes in doubles
  (its sums of products are exact there). The size cap counts the hits, as in the other queries.
\<close>

fun vec_hits :: "(nat \<Rightarrow> nat \<Rightarrow> nat \<Rightarrow> int) \<Rightarrow> vec \<Rightarrow> int \<Rightarrow> vec_ent list \<Rightarrow> kv list \<Rightarrow> kv list" where
  "vec_hits score q now [] acc = acc"
| "vec_hits score q now (e # es) acc =
     (if length acc \<ge> MAX_QUERY then acc
      else if vexp e \<noteq> 0 \<and> now > vexp e then vec_hits score q now es acc
      else if vec_dot q (vvec e) = 0 \<or> vec_norm2 q = 0 then vec_hits score q now es acc
      else vec_hits score q now es
             (acc @ [push_kv (vkey e) None 0 (score (vec_dot q (vvec e)) (vec_norm2 q) (vec_norm2 (vvec e)))]))"

definition store_vec_sim :: "(nat \<Rightarrow> nat \<Rightarrow> nat \<Rightarrow> int) \<Rightarrow> store \<Rightarrow> vec \<Rightarrow> int \<Rightarrow> int \<Rightarrow> kv list" where
  "store_vec_sim score s q topk now =
     (let k = (if topk \<le> 0 then 10 else topk)
      in take (nat k) (qsort cmp_search (vec_hits score q now (svecs s) [])))"

text \<open>\<open>%lld.%06lld\<close> of a score in millionths.\<close>

definition show_sim :: "int \<Rightarrow> string" where
  "show_sim x = show_int (x div 1000000) @ CHR ''.'' #
     (let d = show_nat (nat (x mod 1000000)) in replicate (6 - length d) (CHR ''0'') @ d)"

definition json_flag :: "req \<Rightarrow> bool" where
  "json_flag r \<longleftrightarrow> qp_str (rquery r) ''json'' 4096 \<noteq> None"

definition do_sim :: "(nat \<Rightarrow> nat \<Rightarrow> nat \<Rightarrow> int) \<Rightarrow> tok option \<Rightarrow> req \<Rightarrow> (nat \<Rightarrow> world) \<Rightarrow> srv \<Rightarrow> srv \<times> resp" where
  "do_sim score tok r ws a =
     (if rmethod r \<noteq> ''POST'' then (a, plain 405 ''error: use POST'')
      else (let k = qp_int (rquery r) ''k'' 10; k = (if k \<le> 0 \<or> k > 1000 then 10 else k);
                kvs = filter_scope tok (store_vec_sim score (a_main a) (vec_embed (rbody r)) k (w_now (ws 0)))
            in (a, listing (json_flag r)
                  (CHR ''{'' # jname ''results'' @ '':['' @
                   join_with (CHR '','') (map (\<lambda>e. CHR ''{'' # jname ''key'' @ CHR '':'' #
                     json_escape (drop (length VEC_PREFIX) (kkey e)) @ CHR '','' # jname ''sim'' @ CHR '':'' #
                     show_sim (kscore e) @ ''}'') kvs) @ '']}'')
                  (concat (map (\<lambda>e. cstr (drop (length VEC_PREFIX) (kkey e)) @ tab # show_sim (kscore e) @ [nl]) kvs)))))"

subsection \<open>Listings\<close>

definition lim_param :: "req \<Rightarrow> int \<Rightarrow> int \<Rightarrow> int" where
  "lim_param r def mx = (let l = qp_int (rquery r) ''limit'' def in if l < 0 \<or> l > mx then def else l)"

definition off_param :: "req \<Rightarrow> int" where
  "off_param r = (let o0 = qp_int (rquery r) ''offset'' 0 in if o0 < 0 then 0 else o0)"

definition page :: "int \<Rightarrow> int \<Rightarrow> 'a list \<Rightarrow> 'a list" where
  "page off lim xs = take (nat lim) (drop (nat off) xs)"

definition do_list :: "tok option \<Rightarrow> req \<Rightarrow> (nat \<Rightarrow> world) \<Rightarrow> srv \<Rightarrow> srv \<times> resp" where
  "do_list tok r ws a =
     (let pre = qp_str (rquery r) ''prefix'' 4096;
          desc = (qp_str (rquery r) ''sort'' 4096 = Some ''desc'');
          (a', kvs0) = srv_query (pick_store a pre (Some (rquery r))) Q_LIST pre None desc (ws 0) a;
          kvs = filter_scope tok kvs0; pg = page (off_param r) (lim_param r 100 10000) kvs
      in (a', listing (json_flag r)
            (CHR ''{'' # jname ''keys'' @ '':['' @ join_with (CHR '','') (map (\<lambda>e. json_escape (kkey e)) pg) @
             ''],'' @ jname ''count'' @ CHR '':'' # show_nat (length kvs) @ ''}'')
            (concat (map (\<lambda>e. cstr (kkey e) @ [nl]) pg))))"

text \<open>The search over both stores, main store first.\<close>

definition search_both :: "string \<Rightarrow> (nat \<Rightarrow> world) \<Rightarrow> srv \<Rightarrow> srv \<times> kv list" where
  "search_both q ws a =
     (let (a1, kvs) = srv_query False Q_SEARCH None (Some q) False (ws 0) a
      in if a_proj a \<noteq> None
         then (let (a2, kvs2) = srv_query True Q_SEARCH None (Some q) False (ws 1) a1 in (a2, kvs @ kvs2))
         else (a1, kvs))"

definition do_search :: "tok option \<Rightarrow> req \<Rightarrow> (nat \<Rightarrow> world) \<Rightarrow> srv \<Rightarrow> srv \<times> resp" where
  "do_search tok r ws a =
     (case qp_str (rquery r) ''q'' 4096 of
        None \<Rightarrow> (a, plain 400 ''error: missing q'')
      | Some q \<Rightarrow>
          if q = [] then (a, plain 400 ''error: missing q'')
          else (let (a', kvs0) = search_both q ws a;
                    pg = take (nat (lim_param r 10 200)) (filter_scope tok kvs0)
                in (a', listing (json_flag r)
                      (CHR ''{'' # jname ''results'' @ '':['' @
                       join_with (CHR '','') (map (\<lambda>e. CHR ''{'' # jname ''key'' @ CHR '':'' # json_escape (kkey e) @
                         CHR '','' # jname ''score'' @ CHR '':'' # show_int (kscore e) @
                         CHR '','' # jname ''ts'' @ CHR '':'' # show_int (kts e) @ ''}'') pg) @ '']}'')
                      (concat (map (\<lambda>e. cstr (kkey e) @ tab # snippet (kval e) @ [nl]) pg)))))"

text \<open>The 16-bit random suffix: xorshift on a static state, seeded on first use.\<close>

definition rand16 :: "u32 \<Rightarrow> u32 \<Rightarrow> u32 \<times> u32" where
  "rand16 seed st =
     (let st = (if st = 0 then seed else st); st = st XOR push_bit 13 st; st = st XOR drop_bit 17 st;
          st = st XOR push_bit 5 st
      in (st, st AND 0xFFFF))"

definition note_key :: "int \<Rightarrow> u32 \<Rightarrow> string" where
  "note_key now rnd = take 63 (''note:'' @ show_int now @ CHR '':'' # show_hex8 rnd)"

definition do_note :: "u32 \<Rightarrow> tok option \<Rightarrow> req \<Rightarrow> (nat \<Rightarrow> world) \<Rightarrow> srv \<Rightarrow> srv \<times> resp" where
  "do_note seed tok r ws a =
     (if rbody r = [] then (a, plain 400 ''error: empty note'')
      else (let (st, rnd) = rand16 seed (a_rand a); a1 = a\<lparr>a_rand := st\<rparr>; key = note_key (w_now (ws 0)) rnd
            in if \<not> tok_can_write tok key then (a1, plain 403 ''error: denied'')
               else (let (a', rc) = srv_set False key (rbody r) 0 False (ws 1) a1
                     in if rc \<noteq> 0 then (a', plain 500 ''error: store failure'')
                        else (a', plain 200 (''ok '' @ key)))))"

definition do_notes :: "tok option \<Rightarrow> req \<Rightarrow> (nat \<Rightarrow> world) \<Rightarrow> srv \<Rightarrow> srv \<times> resp" where
  "do_notes tok r ws a =
     (let q = (case qp_str (rquery r) ''q'' 4096 of None \<Rightarrow> None | Some q \<Rightarrow> if q = [] then None else Some q);
          (a', kvs0) = srv_query False Q_NOTES None q False (ws 0) a;
          kvs = filter_scope tok kvs0; pg = page (off_param r) (lim_param r 50 1000) kvs
      in (a', listing (json_flag r)
            (CHR ''{'' # jname ''notes'' @ '':['' @
             join_with (CHR '','') (map (\<lambda>e. CHR ''{'' # jname ''key'' @ CHR '':'' # json_escape (kkey e) @
               CHR '','' # jname ''value'' @ CHR '':'' # json_escape (kval e) @
               CHR '','' # jname ''ts'' @ CHR '':'' # show_int (kts e) @ ''}'') pg) @
             ''],'' @ jname ''count'' @ CHR '':'' # show_nat (length kvs) @ ''}'')
            (concat (map (\<lambda>e. cstr (kkey e) @ tab # escape_line (kval e) @ [nl]) pg))))"

subsection \<open>Batches\<close>

definition b_set :: "tok option \<Rightarrow> bytes \<Rightarrow> bytes \<Rightarrow> int \<Rightarrow> (nat \<Rightarrow> world) \<Rightarrow> srv \<Rightarrow> srv \<times> string" where
  "b_set tok k v ttl ws a =
     (if \<not> tok_can_write tok k then (a, ''set '' @ k @ '' denied'' @ [nl])
      else (let (a', rc) = srv_set False k v ttl False (ws 0) a
            in (a', ''set '' @ k @ CHR '' '' # (if rc = 0 then ''ok'' else ''error'') @ [nl])))"

definition b_append :: "tok option \<Rightarrow> bytes \<Rightarrow> bytes \<Rightarrow> (nat \<Rightarrow> world) \<Rightarrow> srv \<Rightarrow> srv \<times> string" where
  "b_append tok k v ws a =
     (if \<not> tok_can_write tok k then (a, ''append '' @ k @ '' denied'' @ [nl])
      else (let (a', rc) = srv_set False k v 0 True (ws 0) a
            in (a', ''append '' @ k @ CHR '' '' # (if rc = 0 then ''ok'' else ''error'') @ [nl])))"

definition b_get :: "tok option \<Rightarrow> bytes \<Rightarrow> (nat \<Rightarrow> world) \<Rightarrow> srv \<Rightarrow> srv \<times> string" where
  "b_get tok k ws a =
     (if \<not> tok_allows_key tok k then (a, ''get '' @ k @ '' denied'' @ [nl])
      else (let (a', v) = srv_get False k (ws 0) a
            in (a', ''get '' @ k @ CHR '' '' # (case v of None \<Rightarrow> ''missing'' | Some v \<Rightarrow> escape_line v) @ [nl])))"

definition b_del :: "tok option \<Rightarrow> bytes \<Rightarrow> string \<Rightarrow> (nat \<Rightarrow> world) \<Rightarrow> srv \<Rightarrow> srv \<times> string" where
  "b_del tok k query ws a =
     (if \<not> tok_can_write tok k then (a, ''del '' @ k @ '' denied'' @ [nl])
      else (let (a', existed) = del_key_cascade tok k query ws a
            in (a', ''del '' @ k @ CHR '' '' # (if existed > 0 then ''ok'' else ''missing'') @ [nl])))"

definition b_embed :: "tok option \<Rightarrow> bytes \<Rightarrow> bytes \<Rightarrow> int \<Rightarrow> (nat \<Rightarrow> world) \<Rightarrow> srv \<Rightarrow> srv \<times> string" where
  "b_embed tok k v ttl ws a =
     (let (a', rc) = http_embed tok k v ttl (ws 0) a
      in (a', ''embed '' @ k @ CHR '' '' #
            (if rc = 1 then ''ok '' @ show_nat VEC_DIM else if rc = 0 then ''denied'' else ''error'') @ [nl]))"

definition batch_array :: "tok option \<Rightarrow> string \<Rightarrow> string list \<Rightarrow> (nat \<Rightarrow> world) \<Rightarrow> srv \<Rightarrow> srv \<times> string" where
  "batch_array tok query strs ws a =
     (if length strs < 2 then (a, ''error: bad batch element'' @ [nl])
      else (let opn = strs ! 0; k = strs ! 1; n = length strs;
                ttl = (if n \<ge> 4 then fst (strtoll (strs ! 3)) else 0)
            in if opn = ''set'' \<and> n \<ge> 3 then b_set tok k (strs ! 2) ttl ws a
               else if opn = ''append'' \<and> n \<ge> 3 then b_append tok k (strs ! 2) ws a
               else if opn = ''get'' then b_get tok k ws a
               else if opn = ''del'' then b_del tok k query ws a
               else if opn = ''embed'' \<and> n \<ge> 3 then b_embed tok k (strs ! 2) ttl ws a
               else (a, ''error: bad batch op'' @ [nl])))"

definition batch_object :: "tok option \<Rightarrow> string \<Rightarrow> string \<Rightarrow> (nat \<Rightarrow> world) \<Rightarrow> srv \<Rightarrow> srv \<times> string" where
  "batch_object tok query elem ws a =
     (let f = (\<lambda>n. map_option cstr (json_field elem n));
          v = (case f ''value'' of None \<Rightarrow> [] | Some v \<Rightarrow> v);
          ttl = (case f ''ttl'' of None \<Rightarrow> 0 | Some t \<Rightarrow> fst (strtoll t))
      in case f ''set'' of
           Some k \<Rightarrow> b_set tok k v ttl ws a
         | None \<Rightarrow>
        (case f ''append'' of
           Some k \<Rightarrow> b_append tok k v ws a
         | None \<Rightarrow>
        (case f ''embed'' of
           Some k \<Rightarrow> b_embed tok k v ttl ws a
         | None \<Rightarrow>
        (case f ''get'' of
           Some k \<Rightarrow> b_get tok k ws a
         | None \<Rightarrow>
        (case f ''del'' of
           Some k \<Rightarrow> b_del tok k query ws a
         | None \<Rightarrow> (a, ''error: bad batch element'' @ [nl]))))))"

text \<open>\<open>None\<close>: \<open>json_arr_strings\<close> does not return on this element.\<close>

definition batch_elem :: "tok option \<Rightarrow> string \<Rightarrow> string \<Rightarrow> (nat \<Rightarrow> world) \<Rightarrow> srv \<Rightarrow> (srv \<times> string) option" where
  "batch_elem tok query elem ws a =
     (let p = dropWhile is_ws elem
      in if p \<noteq> [] \<and> hd p = CHR ''['' then
           (case json_arr_strings elem of
              None \<Rightarrow> None
            | Some strs \<Rightarrow> Some (batch_array tok query (map cstr strs) ws a))
         else if p \<noteq> [] \<and> hd p = CHR ''{'' then Some (batch_object tok query elem ws a)
         else Some (a, ''error: bad batch element'' @ [nl]))"

text \<open>The loop over the elements; the position need not grow, so it may not return. Each element
  has three environments of its own.\<close>

partial_function (option) batch_loop :: "tok option \<Rightarrow> string \<Rightarrow> bytes \<Rightarrow> (nat \<Rightarrow> world) \<Rightarrow> nat \<Rightarrow> nat \<Rightarrow> srv \<Rightarrow> string
    \<Rightarrow> (srv \<times> string \<times> nat) option" where
  "batch_loop tok query body ws pos n a out =
     (case json_array_each body pos of
        (pos', None) \<Rightarrow> Some (a, out, n)
      | (pos', Some e) \<Rightarrow>
          (case batch_elem tok query e (\<lambda>i. ws (3 * n + i)) a of
             None \<Rightarrow> None
           | Some ao \<Rightarrow> batch_loop tok query body ws pos' (Suc n) (fst ao) (out @ snd ao)))"

definition do_batch :: "tok option \<Rightarrow> req \<Rightarrow> (nat \<Rightarrow> world) \<Rightarrow> srv \<Rightarrow> (srv \<times> resp) option" where
  "do_batch tok r ws a =
     map_option (\<lambda>(a', out, n). (a', if n = 0 then plain 400 ''error: empty batch'' else plain 200 out))
       (batch_loop tok (rquery r) (rbody r) ws 0 0 a [])"

end
