(* ===== verification/Exo_Rate.thy ===== *)
theory Exo_Rate
  imports Main
begin

text \<open>
  The request rate limiter shared by the daemons (\<open>src/common/exo.c\<close>): a token bucket refilled
  from a monotonic millisecond clock. The products stay far below \<open>2 ^ 63\<close> for any rate and
  uptime in use, so they are unbounded here.
\<close>

record rate =
  rt_per :: int
  rt_bucket :: int
  rt_last :: int

definition rate_init :: "int \<Rightarrow> int \<Rightarrow> rate" where
  "rate_init per now =
     (let p = (if per > 0 then per else 0) in \<lparr>rt_per = p, rt_bucket = p, rt_last = now\<rparr>)"

definition rate_take :: "rate \<Rightarrow> int \<Rightarrow> rate \<times> bool" where
  "rate_take r now =
     (if rt_per r \<le> 0 then (r, True)
      else (let elapsed = now - rt_last r;
                r1 = (if elapsed > 0
                      then r\<lparr>rt_last := now,
                             rt_bucket := min (rt_bucket r + rt_per r * elapsed div 1000) (rt_per r * 2)\<rparr>
                      else r)
            in if rt_bucket r1 > 0 then (r1\<lparr>rt_bucket := rt_bucket r1 - 1\<rparr>, True) else (r1, False)))"

text \<open>Requests at the given clock readings: the answers.\<close>

fun rate_run :: "rate \<Rightarrow> int list \<Rightarrow> bool list" where
  "rate_run r [] = []"
| "rate_run r (t # ts) = (let (r', ok) = rate_take r t in ok # rate_run r' ts)"

definition admitted :: "rate \<Rightarrow> int list \<Rightarrow> int" where
  "admitted r ts = int (length (filter id (rate_run r ts)))"

text \<open>The readings of a monotonic clock, all at or after the last one taken.\<close>

definition clock_ok :: "rate \<Rightarrow> int list \<Rightarrow> bool" where
  "clock_ok r ts \<longleftrightarrow> sorted (rt_last r # ts)"

definition rate_ok :: "rate \<Rightarrow> bool" where
  "rate_ok r \<longleftrightarrow> 0 < rt_per r \<and> 0 \<le> rt_bucket r \<and> rt_bucket r \<le> 2 * rt_per r"

lemma rate_take_ok:
  assumes ok: "rate_ok r" and t: "rt_last r \<le> t" and step: "rate_take r t = (r', b)"
  shows "rate_ok r'" and "rt_last r' = t" and "rt_per r' = rt_per r"
    and "rt_bucket r' + (if b then 1 else 0) \<le> rt_bucket r + rt_per r * (t - rt_last r) div 1000"
proof -
  define d where "d = rt_per r * (t - rt_last r) div 1000"
  have d: "0 \<le> d" using ok t by (simp add: d_def rate_ok_def pos_imp_zdiv_nonneg_iff)
  show "rate_ok r'" "rt_last r' = t" "rt_per r' = rt_per r"
    "rt_bucket r' + (if b then 1 else 0) \<le> rt_bucket r + rt_per r * (t - rt_last r) div 1000"
    using d assms unfolding rate_take_def Let_def d_def [symmetric]
    by (auto simp: rate_ok_def min_def split: if_splits)
qed

lemma add_div_le: "0 < (c :: int) \<Longrightarrow> a div c + b div c \<le> (a + b) div c"
proof -
  assume c: "0 < c"
  have le: "x div c * c \<le> x" for x using pos_mod_sign [OF c, of x] div_mult_mod_eq [of x c] by linarith
  have "a div c + b div c = (a div c * c + b div c * c) div c" using c by (simp add: algebra_simps flip: distrib_right)
  also have "\<dots> \<le> (a + b) div c" using le [of a] le [of b] c by (intro zdiv_mono1) auto
  finally show ?thesis .
qed

lemma rate_bound:
  "rate_ok r \<Longrightarrow> clock_ok r ts \<Longrightarrow>
    admitted r ts \<le> rt_bucket r + rt_per r * (last (rt_last r # ts) - rt_last r) div 1000"
proof (induction ts arbitrary: r)
  case Nil
  then show ?case by (simp add: admitted_def rate_ok_def)
next
  case (Cons t ts)
  obtain r' b where step: "rate_take r t = (r', b)" by fastforce
  have t: "rt_last r \<le> t" and s: "sorted (t # ts)" using Cons.prems(2) by (auto simp: clock_ok_def)
  note ok = rate_take_ok [OF Cons.prems(1) t step]
  let ?l = "last (t # ts)"
  have "clock_ok r' ts" using s ok(2) by (simp add: clock_ok_def)
  from Cons.IH [OF ok(1) this]
  have ih: "admitted r' ts \<le> rt_bucket r' + rt_per r * (?l - t) div 1000" by (simp only: ok(2,3))
  have "rt_per r * (t - rt_last r) div 1000 + rt_per r * (?l - t) div 1000 \<le>
      (rt_per r * (t - rt_last r) + rt_per r * (?l - t)) div 1000" by (rule add_div_le) simp
  also have "\<dots> = rt_per r * (?l - rt_last r) div 1000" by (simp add: algebra_simps)
  finally have sum: "rt_per r * (t - rt_last r) div 1000 + rt_per r * (?l - t) div 1000 \<le>
      rt_per r * (?l - rt_last r) div 1000" .
  have "admitted r (t # ts) = (if b then 1 else 0) + admitted r' ts" by (simp add: admitted_def step)
  with ih sum ok(4) show ?case by simp
qed

text \<open>
  The fraction of a token a short interval earns is dropped with the interval: an empty bucket
  asked again within \<open>1000 / per\<close> milliseconds each time never fills.
\<close>

definition impatient :: "rate \<Rightarrow> int list \<Rightarrow> bool" where
  "impatient r ts \<longleftrightarrow> (\<forall>i < length ts. 0 \<le> ts ! i - (rt_last r # ts) ! i \<and>
     rt_per r * (ts ! i - (rt_last r # ts) ! i) < 1000)"

lemma rate_starves:
  "0 < rt_per r \<Longrightarrow> rt_bucket r \<le> 0 \<Longrightarrow> impatient r ts \<Longrightarrow> True \<notin> set (rate_run r ts)"
proof (induction ts arbitrary: r)
  case (Cons t ts)
  have t: "0 \<le> t - rt_last r" "rt_per r * (t - rt_last r) < 1000"
    using Cons.prems(3) [unfolded impatient_def, THEN spec, of 0] by auto
  then have z: "rt_per r * (t - rt_last r) div 1000 = 0" using Cons.prems(1) by (simp add: div_pos_pos_trivial)
  let ?r = "r\<lparr>rt_last := t, rt_bucket := rt_bucket r\<rparr>"
  have step: "rate_take r t = (?r, False)"
    using Cons.prems(1,2) t(1) z by (cases "t = rt_last r") (auto simp: rate_take_def Let_def)
  have "impatient ?r ts" unfolding impatient_def
  proof (intro allI impI)
    fix i assume "i < length ts"
    then show "0 \<le> ts ! i - (rt_last ?r # ts) ! i \<and> rt_per ?r * (ts ! i - (rt_last ?r # ts) ! i) < 1000"
      using Cons.prems(3) [unfolded impatient_def, THEN spec, of "Suc i"] by (cases i) auto
  qed
  from Cons.IH [OF _ _ this] Cons.prems(1,2) show ?case by (simp add: step)
qed simp

end
