(* ===== verification/Exo_Route.thy ===== *)
theory Exo_Route
  imports Exo_Api Exo_Rate
begin

text \<open>
  The rest of exomind's operations and their dispatch (\<open>src/http.c\<close>): snapshot and restore, the
  markers, histories and associations of a key, recall, the mandate, the counters, \<open>route\<close> and
  the connection handler \<open>http_handle_conn\<close>. Then: what a token can make the server write.
\<close>

subsection \<open>Snapshot and restore\<close>

definition SNAP_HDR :: string where "SNAP_HDR = ''exomind-snapshot-v1'' @ [nl]"

definition snap_rec :: "bytes \<Rightarrow> bytes \<Rightarrow> bytes" where
  "snap_rec k v = show_nat (length k) @ tab # show_nat (length v) @ tab # k @ v @ [nl]"

definition snap_emit :: "tok option \<Rightarrow> bytes \<Rightarrow> bytes \<Rightarrow> bytes \<Rightarrow> bytes \<times> bool" where
  "snap_emit tok out k v = (if tok_allows_key tok k then out @ snap_rec k v else out, True)"

definition do_snapshot :: "tok option \<Rightarrow> (nat \<Rightarrow> world) \<Rightarrow> srv \<Rightarrow> srv \<times> resp" where
  "do_snapshot tok ws a =
     (let (out, rc) = store_snapshot (a_main a) (w_now (ws 0)) (snap_emit tok) SNAP_HDR
      in (a, if rc \<noteq> 0 then plain 500 ''error: store failure'' else plain 200 out))"

lemma strtoll_length: "length (snd (strtoll s)) \<le> length s"
proof -
  have d: "length (dropWhile P xs) \<le> length xs" for P and xs :: string by (induction xs) auto
  have c: "dropWhile isspace s = x # r \<Longrightarrow> length r < length s" for x r using d [of isspace s] by simp
  show ?thesis
    using d [of isspace s] d [of isdigit] c
    by (auto simp: strtoll_def Let_def split: list.split intro: order_trans [OF d] less_imp_le le_less_trans [OF d])
qed

text \<open>A number with a tab after it; \<open>None\<close> when \<open>strtol\<close> reads nothing or stops elsewhere.\<close>

definition snap_num :: "string \<Rightarrow> (int \<times> string) option" where
  "snap_num p =
     (let (v, e) = strtoll p in if e = p \<or> e = [] \<or> hd e \<noteq> tab then None else Some (v, drop 1 e))"

lemma snap_num_length: "snap_num p = Some (v, r) \<Longrightarrow> length r < length p"
  using strtoll_length [of p]
  by (auto simp: snap_num_def split: prod.splits if_splits simp flip: length_greater_0_conv)

function snap_recs :: "bytes \<Rightarrow> (bytes \<times> bytes) list option" where
  "snap_recs p =
     (if p = [] then Some []
      else (case snap_num p of
              None \<Rightarrow> None
            | Some (kl, p1) \<Rightarrow>
                (case snap_num p1 of
                   None \<Rightarrow> None
                 | Some (vl, p2) \<Rightarrow>
                     if kl \<le> 0 \<or> kl > int MAX_KEY \<or> vl < 0 \<or> vl > int MAX_VAL then None
                     else if length p2 < nat kl + nat vl then None
                     else (let p3 = drop (nat kl + nat vl) p2
                           in if p3 = [] \<or> hd p3 \<noteq> nl then None
                              else map_option (Cons (take (nat kl) p2, take (nat vl) (drop (nat kl) p2)))
                                     (snap_recs (drop 1 p3))))))"
  by pat_completeness auto
termination
proof (relation "measure length", goal_cases)
  case (2 p x2 kl p1 y2 vl p2 p3)
  have "length p1 < length p" using 2(2) 2(3) [symmetric] snap_num_length [of p kl p1] by simp
  moreover have "length p2 < length p1" using 2(4) 2(5) [symmetric] snap_num_length [of p1 vl p2] by simp
  ultimately show ?case using 2 by simp
qed simp

declare snap_recs.simps [simp del]

definition parse_snapshot :: "bytes \<Rightarrow> (bytes \<times> bytes) list option" where
  "parse_snapshot b =
     (if length b < length SNAP_HDR \<or> take (length SNAP_HDR) b \<noteq> SNAP_HDR then None
      else snap_recs (drop (length SNAP_HDR) b))"

definition do_restore :: "tok option \<Rightarrow> req \<Rightarrow> (nat \<Rightarrow> world) \<Rightarrow> srv \<Rightarrow> srv \<times> resp" where
  "do_restore tok r ws a =
     (if rmethod r \<noteq> ''POST'' then (a, plain 405 ''error: use POST'')
      else if (case tok of None \<Rightarrow> False | Some t \<Rightarrow> tro t \<or> tprefix t \<noteq> None) then (a, plain 403 ''error: denied'')
      else (case parse_snapshot (rbody r) of
              None \<Rightarrow> (a, plain 400 ''error: bad snapshot'')
            | Some kvs \<Rightarrow>
                (let (s', rc) = store_restore (a_main a) kvs (ws 0); a' = a\<lparr>a_main := s'\<rparr>
                 in (a', if rc < 0 then plain 500 ''error: store failure'' else plain 200 (''ok '' @ show_int rc)))))"

subsection \<open>Markers, histories, associations\<close>

definition reason_text :: "req \<Rightarrow> string" where
  "reason_text r =
     (case qp_str (rquery r) ''reason'' 512 of
        None \<Rightarrow> ''(no reason)'' | Some s \<Rightarrow> if s = [] then ''(no reason)'' else s)"

definition need_key :: "req \<Rightarrow> srv \<Rightarrow> (string \<Rightarrow> srv \<times> resp) \<Rightarrow> srv \<times> resp" where
  "need_key r a f = (case qp_key (rquery r) of KKey k \<Rightarrow> f k | _ \<Rightarrow> (a, plain 400 ''error: missing key''))"

definition do_outdate :: "req \<Rightarrow> (nat \<Rightarrow> world) \<Rightarrow> (nat \<Rightarrow> int) \<Rightarrow> srv \<Rightarrow> srv \<times> resp" where
  "do_outdate r ws epoch a =
     need_key r a (\<lambda>key.
       let p = pick_store a (Some key) (Some (rquery r));
           (a1, rc) = srv_set p (''history:'' @ key) (''outdated '' @ show_int (epoch 0) @ CHR '' '' # reason_text r)
             0 True (ws 0) a
       in if rc \<noteq> 0 then (a1, plain 500 ''error: store failure'')
          else (fst (srv_set p (''outdated:'' @ key) (show_int (epoch 1) @ CHR '' '' # reason_text r) 0 False (ws 1) a1),
                plain 200 ''ok''))"

definition do_revive :: "req \<Rightarrow> (nat \<Rightarrow> world) \<Rightarrow> srv \<Rightarrow> srv \<times> resp" where
  "do_revive r ws a =
     need_key r a (\<lambda>key.
       let (a', existed) = srv_del (pick_store a (Some key) (Some (rquery r))) (''outdated:'' @ key) (ws 0) a
       in (a', plain 200 (if existed > 0 then ''ok'' else ''not outdated'')))"

definition do_outdated :: "req \<Rightarrow> (nat \<Rightarrow> world) \<Rightarrow> srv \<Rightarrow> srv \<times> resp" where
  "do_outdated r ws a =
     need_key r a (\<lambda>key.
       let p = pick_store a (Some key) (Some (rquery r));
           (a1, m) = srv_get p (''outdated:'' @ key) (ws 0) a
       in case m of
            None \<Rightarrow> (a1, plain 404 ''not outdated'')
          | Some m \<Rightarrow>
              (let (a2, h) = srv_get p (''history:'' @ key) (ws 1) a1
               in (a2, plain 200 (''key'' @ tab # key @ nl # ''marker'' @ tab # cstr m @ nl #
                        (case h of None \<Rightarrow> [] | Some h \<Rightarrow> ''history:'' @ nl # h)))))"

definition do_link :: "req \<Rightarrow> (nat \<Rightarrow> world) \<Rightarrow> srv \<Rightarrow> srv \<times> resp" where
  "do_link r ws a =
     (let q = rquery r; bad = (a, plain 400 ''error: need from=<key> and to=<key>'')
      in case (qp_str q ''from'' MAX_KEY, qp_str q ''to'' MAX_KEY) of
           (Some f, Some t) \<Rightarrow>
             if f = [] \<or> t = [] then bad
             else (let rl = (case qp_str q ''rel'' 256 of None \<Rightarrow> ''related'' | Some s \<Rightarrow> s);
                       (a', rc) = srv_set (pick_store a (Some f) (Some q)) (''assoc:'' @ f) (t @ tab # rl) 0 True (ws 0) a
                   in (a', if rc \<noteq> 0 then plain 500 ''error: store failure'' else plain 200 ''ok''))
         | _ \<Rightarrow> bad)"

text \<open>\<open>strstr\<close>: the offset of the first occurrence.\<close>

fun find_sub :: "string \<Rightarrow> string \<Rightarrow> nat option" where
  "find_sub [] pat = (if pat = [] then Some 0 else None)"
| "find_sub (c # r) pat =
     (if take (length pat) (c # r) = pat then Some 0 else map_option Suc (find_sub r pat))"

definition links_to :: "string \<Rightarrow> string \<Rightarrow> bool" where
  "links_to v key =
     (case find_sub v key of None \<Rightarrow> False | Some i \<Rightarrow> i = 0 \<or> v ! (i - 1) = tab \<or> v ! (i - 1) = nl)"

fun assoc_in :: "bool \<Rightarrow> string \<Rightarrow> kv list \<Rightarrow> (nat \<Rightarrow> world) \<Rightarrow> nat \<Rightarrow> srv \<Rightarrow> srv \<times> string" where
  "assoc_in p key [] ws n a = (a, [])"
| "assoc_in p key (e # es) ws n a =
     (let (a1, v) = srv_get p (kkey e) (ws n) a;
          l = (case v of
                 None \<Rightarrow> []
               | Some v \<Rightarrow> if links_to (cstr v) key
                           then ''in'' @ tab # cstr (drop 6 (kkey e)) @ tab # take 200 (cstr v) @ [nl] else []);
          (a2, rest) = assoc_in p key es ws (Suc n) a1
      in (a2, l @ rest))"

definition do_assoc :: "req \<Rightarrow> (nat \<Rightarrow> world) \<Rightarrow> srv \<Rightarrow> srv \<times> resp" where
  "do_assoc r ws a =
     need_key r a (\<lambda>key.
       let p = pick_store a (Some key) (Some (rquery r));
           (a1, v) = srv_get p (''assoc:'' @ key) (ws 0) a;
           out = (case v of None \<Rightarrow> [] | Some v \<Rightarrow> ''out'' @ tab # key @ nl # v);
           (a2, kvs) = srv_query p Q_LIST (Some ''assoc:'') None False (ws 1) a1;
           (a3, ins) = assoc_in p key kvs ws 2 a2
       in (a3, plain 200 (out @ ins)))"

text \<open>One hit of a recall: the snippet, then the marker, the history and the associations of the key.\<close>

definition recall_hit :: "kv \<Rightarrow> (nat \<Rightarrow> world) \<Rightarrow> nat \<Rightarrow> srv \<Rightarrow> srv \<times> string" where
  "recall_hit e ws n a =
     (let key = cstr (kkey e); p = pick_store a (Some key) None;
          (a1, m) = srv_get p (''outdated:'' @ key) (ws n) a;
          (a2, h) = srv_get p (''history:'' @ key) (ws (n + 1)) a1;
          (a3, s) = srv_get p (''assoc:'' @ key) (ws (n + 2)) a2
      in (a3, key @ tab # snippet (kval e) @ nl #
            (case m of None \<Rightarrow> [] | Some m \<Rightarrow> ''  outdated: '' @ cstr m @ [nl]) @
            (case h of None \<Rightarrow> [] | Some h \<Rightarrow> ''  history: '' @ cstr (take 400 h) @ [nl]) @
            (case s of None \<Rightarrow> [] | Some s \<Rightarrow> ''  assoc: '' @ cstr (take 300 s) @ [nl])))"

fun recall_hits :: "kv list \<Rightarrow> (nat \<Rightarrow> world) \<Rightarrow> nat \<Rightarrow> srv \<Rightarrow> srv \<times> string" where
  "recall_hits [] ws n a = (a, [])"
| "recall_hits (e # es) ws n a =
     (let (a1, l) = recall_hit e ws n a; (a2, rest) = recall_hits es ws (n + 3) a1 in (a2, l @ rest))"

definition do_recall :: "req \<Rightarrow> (nat \<Rightarrow> world) \<Rightarrow> srv \<Rightarrow> srv \<times> resp" where
  "do_recall r ws a =
     (case qp_str (rquery r) ''q'' 4096 of
        None \<Rightarrow> (a, plain 400 ''error: missing q'')
      | Some q \<Rightarrow>
          if q = [] then (a, plain 400 ''error: missing q'')
          else (let (a1, kvs) = search_both q ws a;
                    (a2, out) = recall_hits (take (nat (lim_param r 10 200)) kvs) ws 2 a1
                in (a2, plain 200 out)))"

subsection \<open>The mandate and the counters\<close>

definition http_set_mandate :: "bytes \<Rightarrow> srv \<Rightarrow> srv" where
  "http_set_mandate b a = (if b = [] then a else a\<lparr>a_mandate := take 8191 (cstr b)\<rparr>)"

definition MANDATE_ACK :: string where
  "MANDATE_ACK = nl # ''---'' @ nl # ''acknowledge by writing: set key agent:<your-id>:ready value 1'' @ [nl]"

definition do_mandate :: "tok option \<Rightarrow> req \<Rightarrow> (nat \<Rightarrow> world) \<Rightarrow> srv \<Rightarrow> srv \<times> resp" where
  "do_mandate tok r ws a =
     (if rmethod r = ''POST'' then
        (if \<not> tok_can_write tok ''mandate'' then (a, plain 403 ''error: denied'')
         else (fst (srv_set False ''mandate'' (rbody r) 0 False (ws 0) (http_set_mandate (rbody r) a)), plain 200 ''ok''))
      else if a_mandate a \<noteq> [] then (a, plain 200 (a_mandate a @ MANDATE_ACK))
      else (let (a', m) = srv_get False ''mandate'' (ws 0) a
            in (a', plain 200 ((case m of None \<Rightarrow> [] | Some m \<Rightarrow> m) @ MANDATE_ACK))))"

record repl_state =
  r_enabled :: bool
  r_primary :: string
  r_next :: nat
  r_lag :: nat
  r_sync :: int
  r_errors :: nat
  r_resyncs :: nat

definition VERSION :: string where "VERSION = ''0.4.1-alpha.1''"

definition stat_fields :: "srv \<Rightarrow> int \<Rightarrow> (string \<times> string) list" where
  "stat_fields a now =
     (let (n, sz, dead, rd, wr, dl, ms, opened) = store_stats (a_main a);
          (sz, dead, rd, wr, dl, ms) = (case a_proj a of
             None \<Rightarrow> (sz, dead, rd, wr, dl, ms)
           | Some p \<Rightarrow> (let (n2, sz2, dead2, rd2, wr2, dl2, ms2, o2) = store_stats p in (sz2, dead2, rd2, wr2, dl2, ms2)))
      in [(''uptime_s'', show_int (let d = now - opened in if d < 0 then - ((- d) div 1000) else d div 1000)),
          (''entries'', show_nat n), (''log_bytes'', show_nat sz), (''dead_bytes'', show_nat dead),
          (''reads'', show_nat rd), (''writes'', show_nat wr), (''deletes'', show_nat dl), (''misses'', show_nat ms)])"

definition repl_fields :: "repl_state \<Rightarrow> (string \<times> string) list" where
  "repl_fields g =
     [(''lag'', show_nat (r_lag g)), (''next'', show_nat (r_next g)), (''last_sync'', show_int (r_sync g)),
      (''errors'', show_nat (r_errors g)), (''resyncs'', show_nat (r_resyncs g))]"

definition do_stats :: "repl_state \<Rightarrow> req \<Rightarrow> (nat \<Rightarrow> world) \<Rightarrow> srv \<Rightarrow> srv \<times> resp" where
  "do_stats g r ws a =
     (let fs = stat_fields a (w_now (ws 0)); num = (\<lambda>(n, v). CHR '','' # jname n @ CHR '':'' # v)
      in (a, listing (json_flag r)
            (CHR ''{'' # jname ''version'' @ CHR '':'' # jname VERSION @ concat (map num fs) @
             CHR '','' # jname ''repl'' @ '':{'' @ jname ''role'' @ CHR '':'' #
             jname (if r_enabled g then ''follower'' else ''primary'') @
             (if r_enabled g then CHR '','' # jname ''primary'' @ CHR '':'' # jname (r_primary g) @
                concat (map num (repl_fields g)) else []) @ ''}}'')
            (''version: '' @ VERSION @ nl # concat (map (\<lambda>(n, v). n @ '': '' @ v @ [nl]) fs) @
             (if r_enabled g
              then ''repl: role=follower primary='' @ r_primary g @
                   concat (map (\<lambda>(n, v). CHR '' '' # n @ CHR ''='' # v) (repl_fields g)) @ [nl]
              else ''repl: role=primary'' @ [nl]))))"

subsection \<open>Dispatch\<close>

text \<open>
  What \<open>route\<close> reads besides the stores: the help text, the places of the project and backup
  directories, the result of copying the data file (\<open>None\<close> is success), the replication state, the
  seed of \<open>rand16\<close>, epoch readings and the floating-point score of \<open>store_vec_sim\<close>.
\<close>

record conf =
  c_help :: string
  c_root :: string
  c_ppath :: string
  c_bdir :: string
  c_copy :: "string option"
  c_repl :: repl_state
  c_seed :: u32
  c_epoch :: "nat \<Rightarrow> int"
  c_score :: "nat \<Rightarrow> nat \<Rightarrow> nat \<Rightarrow> int"

definition not_found :: resp where
  "not_found = plain 404 ''error: unknown path''"

definition do_repl :: "req \<Rightarrow> srv \<Rightarrow> srv \<times> resp" where
  "do_repl r a =
     (if rmethod r \<noteq> ''GET'' then (a, plain 405 ''error: use GET'')
      else (case repl_from_param (qp_str (rquery r) ''from'' 64) of
              None \<Rightarrow> (a, not_found)
            | Some n \<Rightarrow> (let (st, b) = repl_reply (a_main a) n in (a, plain st b))))"

definition do_project :: "conf \<Rightarrow> srv \<Rightarrow> srv \<times> resp" where
  "do_project c a =
     (a, plain 200 (if a_proj a \<noteq> None then ''root'' @ tab # c_root c @ nl # ''file'' @ tab # c_ppath c @ [nl]
        else ''no project store attached (no project root detected; use --project-root)'' @ [nl]))"

definition do_backup :: "conf \<Rightarrow> srv \<Rightarrow> srv \<times> resp" where
  "do_backup c a =
     (a, if c_bdir c = [] then plain 400 ''error: no backup dir (start with --backup <dir>)''
         else (case c_copy c of None \<Rightarrow> plain 200 ''ok'' | Some e \<Rightarrow> plain 500 (''error: '' @ e)))"

definition route :: "conf \<Rightarrow> tok option \<Rightarrow> req \<Rightarrow> (nat \<Rightarrow> world) \<Rightarrow> srv \<Rightarrow> (srv \<times> resp) option" where
  "route c tok r ws a =
     (let p = rpath r
      in if p = ''/'' \<or> p = ''/help'' \<or> p = ''/spec'' then
           Some (a, \<lparr>p_status = 200, p_ctype = Markdown, p_body = c_help c\<rparr>)
         else if p = ''/ping'' then Some (a, plain 200 ''pong'')
         else if p = ''/repl'' then Some (do_repl r a)
         else if p = ''/stats'' then Some (do_stats (c_repl c) r ws a)
         else if p = ''/get'' then Some (do_get tok r ws a)
         else if p = ''/set'' then Some (do_set tok r ws a)
         else if p = ''/append'' then Some (do_append tok r ws a)
         else if p = ''/del'' then Some (do_del tok r ws a)
         else if p = ''/embed'' then Some (do_embed tok r ws a)
         else if p = ''/sim'' then Some (do_sim (c_score c) tok r ws a)
         else if p = ''/list'' then Some (do_list tok r ws a)
         else if p = ''/search'' then Some (do_search tok r ws a)
         else if p = ''/note'' then Some (do_note (c_seed c) tok r ws a)
         else if p = ''/notes'' then Some (do_notes tok r ws a)
         else if p = ''/batch'' then do_batch tok r ws a
         else if p = ''/snapshot'' then Some (do_snapshot tok ws a)
         else if p = ''/restore'' then Some (do_restore tok r ws a)
         else if p = ''/project'' then Some (do_project c a)
         else if p = ''/backup'' then Some (do_backup c a)
         else if p = ''/outdate'' then Some (do_outdate r ws (c_epoch c) a)
         else if p = ''/revive'' then Some (do_revive r ws a)
         else if p = ''/outdated'' then Some (do_outdated r ws a)
         else if p = ''/link'' then Some (do_link r ws a)
         else if p = ''/assoc'' then Some (do_assoc r ws a)
         else if p = ''/recall'' then Some (do_recall r ws a)
         else if p = ''/mandate'' then Some (do_mandate tok r ws a)
         else Some (a, not_found))"

subsection \<open>A connection\<close>

text \<open>The rate limiter is \<open>None\<close> unless it is active. The lengths of the error texts are the ones the
  code passes. The result: the state, the limiter, the response, and whether only its header goes out.\<close>

definition status_text :: "int \<Rightarrow> string" where
  "status_text st =
     (if st = 200 then ''OK'' else if st = 201 then ''Created'' else if st = 204 then ''No Content''
      else if st = 400 then ''Bad Request'' else if st = 401 then ''Unauthorized''
      else if st = 403 then ''Forbidden'' else if st = 404 then ''Not Found''
      else if st = 405 then ''Method Not Allowed'' else if st = 413 then ''Payload Too Large''
      else ''Internal Server Error'')"

definition ctype_text :: "ctype \<Rightarrow> string" where
  "ctype_text c = (case c of Plain \<Rightarrow> ''text/plain; charset=utf-8'' | Bare \<Rightarrow> ''text/plain''
     | Json \<Rightarrow> ''application/json; charset=utf-8'' | Markdown \<Rightarrow> ''text/markdown; charset=utf-8'')"

abbreviation crlf :: string where "crlf \<equiv> [cr, nl]"

definition send_response :: "resp \<Rightarrow> bool \<Rightarrow> bytes" where
  "send_response rs head_only =
     ''HTTP/1.1 '' @ show_int (p_status rs) @ CHR '' '' # status_text (p_status rs) @ crlf @
     ''Content-Type: '' @ ctype_text (p_ctype rs) @ crlf @
     ''Content-Length: '' @ show_nat (length (p_body rs)) @ crlf @
     ''Connection: close'' @ crlf @
     ''Access-Control-Allow-Origin: *'' @ crlf @
     ''Access-Control-Allow-Headers: Authorization, Content-Type'' @ crlf @
     ''Access-Control-Allow-Methods: GET, POST, DELETE, OPTIONS'' @ crlf @ crlf @
     (if head_only then [] else p_body rs)"

definition strip_module :: "string \<Rightarrow> string" where
  "strip_module p =
     (if take 11 p = ''/exoexomind'' \<and> (length p = 11 \<or> p ! 11 = CHR ''/'')
      then (let q = drop 11 p in if q = [] then ''/'' else q) else p)"

definition http_handle_conn :: "conf \<Rightarrow> tok list \<Rightarrow> rate option \<Rightarrow> int \<Rightarrow> bytes list \<Rightarrow> (nat \<Rightarrow> world) \<Rightarrow> srv
    \<Rightarrow> (srv \<times> rate option \<times> resp \<times> bool) option" where
  "http_handle_conn c toks rt tick segs ws a =
     (case read_request segs of
        ReqTooLarge \<Rightarrow> Some (a, rt, plain 413 ''error: body too large'', False)
      | ReqMalformed \<Rightarrow> Some (a, rt, plain 400 (''error: bad request'' @ [nl]), False)
      | ReqOk r \<Rightarrow>
          if rmethod r = ''OPTIONS'' then Some (a, rt, \<lparr>p_status = 204, p_ctype = Bare, p_body = []\<rparr>, False)
          else if rmethod r \<notin> set [''GET'', ''POST'', ''DELETE'', ''HEAD''] then
            Some (a, rt, plain 405 ''error: method not allowed'', False)
          else (case auth_ok toks (rauth r) of
                  None \<Rightarrow> Some (a, rt, plain 401 ''error: unauthorized'', False)
                | Some tok \<Rightarrow>
                    (let (rt', ok) = (case rt of None \<Rightarrow> (None, True)
                           | Some x \<Rightarrow> (let (x', ok) = rate_take x tick in (Some x', ok)))
                     in if \<not> ok then Some (a, rt', plain 429 ''error: rate limit exceeded'', False)
                        else map_option (\<lambda>(a', rs). (a', rt', rs, rmethod r = ''HEAD''))
                               (route c tok (r\<lparr>rpath := strip_module (rpath r)\<rparr>) ws a))))"

text \<open>The MCP bridge: no token, so everything is allowed.\<close>

definition http_dispatch :: "conf \<Rightarrow> string \<Rightarrow> string \<Rightarrow> string \<Rightarrow> bytes \<Rightarrow> (nat \<Rightarrow> world) \<Rightarrow> srv \<Rightarrow> (srv \<times> resp) option" where
  "http_dispatch c meth path query body ws a =
     route c None \<lparr>rmethod = take 15 meth, rpath = take 2047 path, rquery = take 8191 query, rbody = body,
       rauth = [], rjson = False\<rparr> ws a"

subsection \<open>What a token can change\<close>

text \<open>
  Everything a request may do on behalf of a token: look things up, store or delete a key for
  which \<open>P\<close> holds, replace the mandate when \<open>P\<close> holds for its key, advance the random state.
\<close>

inductive acts :: "(bytes \<Rightarrow> bool) \<Rightarrow> srv \<Rightarrow> srv \<Rightarrow> bool" for P :: "bytes \<Rightarrow> bool" where
  acts_refl: "acts P a a"
| acts_set: "acts P a b \<Longrightarrow> P k \<Longrightarrow> acts P a (fst (srv_set p k v ttl app w b))"
| acts_del: "acts P a b \<Longrightarrow> P k \<Longrightarrow> acts P a (fst (srv_del p k w b))"
| acts_get: "acts P a b \<Longrightarrow> acts P a (fst (srv_get p k w b))"
| acts_query: "acts P a b \<Longrightarrow> acts P a (fst (srv_query p mode pre sub desc w b))"
| acts_mandate: "acts P a b \<Longrightarrow> P ''mandate'' \<Longrightarrow> acts P a (b\<lparr>a_mandate := m\<rparr>)"
| acts_rand: "acts P a b \<Longrightarrow> acts P a (b\<lparr>a_rand := x\<rparr>)"

lemma acts_trans: "acts P b c \<Longrightarrow> acts P a b \<Longrightarrow> acts P a c"
  by (induction rule: acts.induct) (auto intro: acts.intros)

lemmas acts_one =
  acts_set [OF acts_refl] acts_del [OF acts_refl] acts_get [OF acts_refl] acts_query [OF acts_refl]

text \<open>Each operation, one after the other; \<open>fst\<close> of the result is the new state.\<close>

abbreviation guarded :: "tok option \<Rightarrow> srv \<Rightarrow> srv \<Rightarrow> bool" where
  "guarded tok \<equiv> acts (tok_can_write tok)"

lemma fst_let_pair: "fst (let (x, y) = e in (x, f x y)) = fst e"
  by (simp add: case_prod_unfold)

lemma with_key_acts: "(\<And>k. acts P a (fst (f k))) \<Longrightarrow> acts P a (fst (with_key r a f))"
  by (simp add: with_key_def acts_refl split: keyparam.split)

lemma need_key_acts: "(\<And>k. acts P a (fst (f k))) \<Longrightarrow> acts P a (fst (need_key r a f))"
  by (simp add: need_key_def acts_refl split: keyparam.split)

lemma get_acts: "guarded tok a (fst (do_get tok r ws a))"
  unfolding do_get_def
  by (rule with_key_acts)
     (auto simp: case_prod_unfold Let_def split: option.split intro: acts_refl acts_one)

lemma set_acts: "guarded tok a (fst (do_set tok r ws a))"
  unfolding do_set_def
  by (auto simp: case_prod_unfold Let_def split: option.split intro: acts_refl acts_one)

lemma append_acts: "guarded tok a (fst (do_append tok r ws a))"
  unfolding do_append_def
  by (rule with_key_acts) (auto simp: case_prod_unfold Let_def intro: acts_refl acts_one)

lemma del_cascade_acts: "tok_can_write tok key \<Longrightarrow> guarded tok a (fst (del_key_cascade tok key q ws a))"
  unfolding del_key_cascade_def by (auto simp: case_prod_unfold Let_def intro: acts_one acts.intros)

lemma del_acts: "guarded tok a (fst (do_del tok r ws a))"
  unfolding do_del_def
  by (auto intro!: with_key_acts simp: case_prod_unfold Let_def intro: acts_refl del_cascade_acts)

lemma http_embed_acts: "guarded tok a (fst (http_embed tok k b ttl w a))"
  unfolding http_embed_def by (auto simp: case_prod_unfold Let_def intro: acts_refl acts_one)

lemma embed_acts: "guarded tok a (fst (do_embed tok r ws a))"
  unfolding do_embed_def
  by (rule with_key_acts)
     (auto simp: case_prod_unfold Let_def split: option.split intro: acts_refl acts_one http_embed_acts)

lemma list_acts: "guarded tok a (fst (do_list tok r ws a))"
  unfolding do_list_def by (auto simp: case_prod_unfold Let_def intro: acts_one)

lemma search_both_acts: "acts P a (fst (search_both q ws a))"
  unfolding search_both_def by (auto simp: case_prod_unfold Let_def intro: acts_one acts.intros)

lemma search_acts: "guarded tok a (fst (do_search tok r ws a))"
  unfolding do_search_def
  by (auto simp: case_prod_unfold Let_def split: option.split intro: acts_refl search_both_acts)

lemma note_acts: "guarded tok a (fst (do_note seed tok r ws a))"
  unfolding do_note_def by (auto simp: case_prod_unfold Let_def intro: acts.intros)

lemma notes_acts: "guarded tok a (fst (do_notes tok r ws a))"
  unfolding do_notes_def by (auto simp: case_prod_unfold Let_def intro: acts_one)

lemma mandate_acts: "guarded tok a (fst (do_mandate tok r ws a))"
  unfolding do_mandate_def http_set_mandate_def
  by (auto simp: case_prod_unfold Let_def intro: acts.intros)

lemma outdated_acts: "acts P a (fst (do_outdated r ws a))"
  unfolding do_outdated_def
  by (rule need_key_acts) (auto simp: case_prod_unfold Let_def split: option.split intro: acts.intros)

lemma assoc_in_acts: "acts P a (fst (assoc_in p key es ws n a))"
proof (induction es arbitrary: n a)
  case (Cons e es)
  have "acts P a (fst (srv_get p (kkey e) (ws n) a))" by (rule acts_one)
  with Cons.IH show ?case by (auto simp: case_prod_unfold Let_def intro: acts_trans)
qed (simp add: acts_refl)

lemma assoc_acts: "acts P a (fst (do_assoc r ws a))"
  unfolding do_assoc_def
  by (rule need_key_acts)
     (auto simp: case_prod_unfold Let_def intro!: acts_trans [OF assoc_in_acts] intro: acts.intros)

lemma recall_hit_acts: "acts P a (fst (recall_hit e ws n a))"
  unfolding recall_hit_def by (auto simp: case_prod_unfold Let_def intro: acts.intros)

lemma recall_hits_acts: "acts P a (fst (recall_hits es ws n a))"
proof (induction es arbitrary: n a)
  case (Cons e es)
  show ?case using acts_trans [OF Cons.IH recall_hit_acts] by (simp add: case_prod_unfold Let_def)
qed (simp add: acts_refl)

lemma recall_acts: "acts P a (fst (do_recall r ws a))"
  unfolding do_recall_def
  by (auto simp: case_prod_unfold Let_def split: option.split
        intro!: acts_trans [OF recall_hits_acts search_both_acts] intro: acts_refl)

lemma restore_acts: "tro t \<or> tprefix t \<noteq> None \<Longrightarrow> acts P a (fst (do_restore (Some t) r ws a))"
  by (auto simp: do_restore_def intro: acts_refl)

lemma batch_ops_acts:
  "guarded tok a (fst (b_set tok k v ttl ws a))" "guarded tok a (fst (b_append tok k v ws a))"
  "guarded tok a (fst (b_get tok k ws a))" "guarded tok a (fst (b_del tok k q ws a))"
  "guarded tok a (fst (b_embed tok k v ttl ws a))"
  by (auto simp: b_set_def b_append_def b_get_def b_del_def b_embed_def case_prod_unfold Let_def
      intro: acts_refl acts_one del_cascade_acts http_embed_acts)

lemma batch_elem_acts:
  assumes "batch_elem tok q e ws a = Some (b, out)"
  shows "guarded tok a b"
proof -
  have "guarded tok a (fst (batch_array tok q strs ws a))" for strs
    unfolding batch_array_def Let_def by (simp add: batch_ops_acts acts_refl)
  moreover have "guarded tok a (fst (batch_object tok q e ws a))"
    unfolding batch_object_def Let_def by (simp add: batch_ops_acts acts_refl split: option.split)
  ultimately show ?thesis
    using assms by (auto simp: batch_elem_def Let_def split: if_splits option.splits intro: acts_refl)
      (metis fst_conv)+
qed

lemma batch_loop_acts:
  assumes "batch_loop tok q body ws pos n a out = Some res"
  shows "guarded tok a (fst res)"
proof (rule batch_loop.raw_induct [OF _ assms])
  fix loop tok q body ws pos n a out res
  assume IH: "\<And>tok q body ws pos n a out res. loop tok q body ws pos n a out = Some res \<Longrightarrow> guarded tok a (fst res)"
    and eq: "(case json_array_each body pos of
        (pos', None) \<Rightarrow> Some (a, out, n)
      | (pos', Some e) \<Rightarrow>
          (case batch_elem tok q e (\<lambda>i. ws (3 * n + i)) a of
             None \<Rightarrow> None
           | Some ao \<Rightarrow> loop tok q body ws pos' (Suc n) (fst ao) (out @ snd ao))) = Some res"
  show "guarded tok a (fst res)"
    using eq by (auto split: prod.splits option.splits intro: acts_refl acts_trans [OF IH batch_elem_acts])
qed

end
