(* ===== verification/Exo_Route_Props.thy ===== *)
theory Exo_Route_Props
  imports Exo_Route
begin

text \<open>
  What the operations of exomind guarantee: a token without full access writes only keys it may
  write (but for the three marker operations, which look at no token), a snapshot holds exactly
  the live records in scope and restoring it brings their values back, and a value posted under a
  percent-encoded key comes back from a get.
\<close>

subsection \<open>Tokens\<close>

text \<open>The paths whose handlers check no token before they write.\<close>

definition unguarded :: "string list" where
  "unguarded = [''/outdate'', ''/revive'', ''/link'']"

text \<open>A handler's outcome is fine when every state it can answer with is reached by guarded acts.\<close>

definition fine :: "tok option \<Rightarrow> srv \<Rightarrow> (srv \<times> resp) option \<Rightarrow> bool" where
  "fine tok a x \<longleftrightarrow> (\<forall>b rs. x = Some (b, rs) \<longrightarrow> guarded tok a b)"

lemma fine_if: "(c \<Longrightarrow> fine tok a x) \<Longrightarrow> (\<not> c \<Longrightarrow> fine tok a y) \<Longrightarrow> fine tok a (if c then x else y)"
  by simp

lemma fine_Some: "guarded tok a (fst y) \<Longrightarrow> fine tok a (Some y)"
  by (auto simp: fine_def)

lemma fine_same: "fst y = a \<Longrightarrow> fine tok a (Some y)"
  by (auto simp: fine_def intro: acts_refl)

lemma fine_batch: "fine tok a (do_batch tok r ws a)"
  by (auto simp: fine_def do_batch_def dest: batch_loop_acts)

lemma unchanged:
  "fst (do_repl r a) = a" "fst (do_stats g r ws a) = a" "fst (do_sim sc tok r ws a) = a"
  "fst (do_snapshot tok ws a) = a" "fst (do_project c a) = a" "fst (do_backup c a) = a"
  by (auto simp: do_repl_def do_stats_def do_sim_def do_snapshot_def do_project_def do_backup_def Let_def
      case_prod_unfold split: option.split)

lemma route_acts:
  assumes "tro t \<or> tprefix t \<noteq> None" and "rpath r \<notin> set unguarded"
  shows "fine (Some t) a (route c (Some t) r ws a)"
proof -
  note acts = get_acts set_acts append_acts del_acts embed_acts list_acts search_acts note_acts notes_acts
    mandate_acts outdated_acts assoc_acts recall_acts restore_acts [OF assms(1)]
  have un: "rpath r = p \<Longrightarrow> p \<in> set unguarded \<Longrightarrow> fine (Some t) a x" for p x using assms(2) by simp
  show ?thesis
    unfolding route_def Let_def
    apply (intro fine_if)
    apply (rule fine_same, simp add: unchanged; fail |
           rule fine_Some, rule acts |
           rule fine_batch |
           rule un, assumption, simp add: unguarded_def)+
    done
qed

subsection \<open>Snapshot and restore\<close>

fun live_kvs :: "bytes \<Rightarrow> int \<Rightarrow> entry list \<Rightarrow> (bytes \<times> bytes) list" where
  "live_kvs img now [] = []"
| "live_kvs img now (e # es) =
     (if expired now e then live_kvs img now es
      else (case read_val img e of None \<Rightarrow> live_kvs img now es
            | Some v \<Rightarrow> (ekey e, v) # live_kvs img now es))"

definition snap_body :: "(bytes \<times> bytes) list \<Rightarrow> bytes" where
  "snap_body kvs = SNAP_HDR @ concat (map (\<lambda>(k, v). snap_rec k v) kvs)"

lemma snap_loop_emit:
  "snap_loop img now (snap_emit tok) out es =
    (out @ concat (map (\<lambda>(k, v). snap_rec k v) (filter (\<lambda>kv. tok_allows_key tok (fst kv)) (live_kvs img now es))), 0)"
  by (induction es arbitrary: out) (auto simp: snap_emit_def split: option.split)

lemma do_snapshot_body:
  "do_snapshot tok ws a = (a, plain 200 (snap_body (filter (\<lambda>kv. tok_allows_key tok (fst kv))
     (live_kvs (simg (a_main a)) (w_now (ws 0)) (entries (sidx (a_main a)))))))"
  by (simp add: do_snapshot_def store_snapshot_def snap_loop_emit snap_body_def entries_def)

lemma live_kvs_keys: "set (map fst (live_kvs img now es)) \<subseteq> set (map ekey es)"
  by (induction es) (auto split: option.splits)

lemma live_kvs_distinct: "distinct (map ekey es) \<Longrightarrow> distinct (map fst (live_kvs img now es))"
proof (induction es)
  case (Cons e es)
  then show ?case using live_kvs_keys [of img now es] by (auto split: option.split)
qed simp

lemma live_kvs_find:
  "distinct (map ekey es) \<Longrightarrow> map_of (live_kvs img now es) k =
    (case chain_find k es of None \<Rightarrow> None | Some e \<Rightarrow> if expired now e then None else read_val img e)"
proof (induction es)
  case (Cons e es)
  have "k \<notin> ekey ` set es \<Longrightarrow> map_of (live_kvs img now es) k = None"
    using live_kvs_keys [of img now es] by (auto simp: map_of_eq_None_iff)
  then show ?case using Cons by (auto split: option.split)
qed simp

lemma map_of_rev_distinct: "distinct (map fst xs) \<Longrightarrow> map_of (rev xs) = map_of xs"
  by (metis distinct_rev list.set_map map_of_inject_set map_of_eqI rev_map set_rev)

lemma snap_num_show: "int n \<le> LLONG_MAX \<Longrightarrow> snap_num (show_nat n @ tab # r) = Some (int n, r)"
proof -
  assume n: "int n \<le> LLONG_MAX"
  have t: "\<not> isdigit tab" by code_simp
  have "strtoll (show_int (int n) @ tab # r) = (int n, tab # r)"
    using n t by (intro strtoll_show_int) (auto simp: LLONG_MIN_def)
  then have "strtoll (show_nat n @ tab # r) = (int n, tab # r)" by (simp add: show_int_def)
  moreover have "tab # r \<noteq> show_nat n @ tab # r" using show_nat_nonempty [of n] by (metis append_self_conv2 append_Cons append_same_eq)
  ultimately show ?thesis by (simp add: snap_num_def)
qed

lemma snap_recs_emit:
  "list_all kv_ok kvs \<Longrightarrow> snap_recs (concat (map (\<lambda>(k, v). snap_rec k v) kvs)) = Some kvs"
proof (induction kvs)
  case Nil
  show ?case by (simp add: snap_recs.simps)
next
  case (Cons kv kvs)
  obtain k v where kv: "kv = (k, v)" by fastforce
  let ?rest = "concat (map (\<lambda>(k, v). snap_rec k v) kvs)"
  have ok: "k \<noteq> []" "length k \<le> MAX_KEY" "length v \<le> MAX_VAL"
    using Cons.prems kv by (auto simp: kv_ok_def)
  then have le: "int (length k) \<le> LLONG_MAX" "int (length v) \<le> LLONG_MAX"
    by (auto simp: MAX_KEY_def MAX_VAL_def LLONG_MAX_def)
  have eq: "snap_rec k v @ ?rest = show_nat (length k) @ tab # show_nat (length v) @ tab # k @ v @ nl # ?rest"
    by (simp add: snap_rec_def)
  have ne: "snap_rec k v @ ?rest \<noteq> []" by (simp add: snap_rec_def)
  have "snap_recs (snap_rec k v @ ?rest) = Some ((k, v) # kvs)"
    using ok ne Cons by (subst snap_recs.simps) (simp add: eq snap_num_show [OF le(1)] snap_num_show [OF le(2)])
  then show ?case using kv by simp
qed

lemma parse_snapshot_body: "list_all kv_ok kvs \<Longrightarrow> parse_snapshot (snap_body kvs) = Some kvs"
  by (simp add: parse_snapshot_def snap_body_def snap_recs_emit)

lemma live_kvs_ok:
  assumes inv: "store_inv t rs s" and now: "t \<le> now" and e0: "view s now [] = None"
  shows "list_all kv_ok (live_kvs (simg s) now (entries (sidx s)))"
proof -
  have ok: "index_ok (sidx s)" using inv by (simp add: store_inv_def)
  have "list_all kv_ok (live_kvs (simg s) now es)" if "set es \<subseteq> set (entries (sidx s))" for es
    using that
  proof (induction es)
    case (Cons e es)
    have "kv_ok (ekey e, v)" if live: "\<not> expired now e" "read_val (simg s) e = Some v" for v
    proof -
      have "find_slot (sidx s) (ekey e) = Some e" using entries_find [OF ok, of e] Cons.prems by simp
      then have "ekey e \<noteq> []" using e0 live by (auto simp: view_def)
      then show ?thesis using live_readable [OF inv now, of e] live Cons.prems
        by (auto simp: readable_def rec_ok_def compact_rec_def kv_ok_def)
    qed
    then show ?case using Cons by (auto split: option.split)
  qed simp
  then show ?thesis by blast
qed

lemma live_kvs_view:
  assumes "store_inv t rs s"
  shows "map_of (rev (live_kvs (simg s) now (entries (sidx s)))) k = map_option fst (view s now k)"
proof -
  have ok: "index_ok (sidx s)" using assms by (simp add: store_inv_def)
  have "map_of (rev (live_kvs (simg s) now (entries (sidx s)))) k = map_of (live_kvs (simg s) now (entries (sidx s))) k"
    using map_of_rev_distinct [OF live_kvs_distinct [OF index_ok_distinct [OF ok]]] by simp
  also have "\<dots> = map_option fst (view s now k)"
    unfolding live_kvs_find [OF index_ok_distinct [OF ok]] find_slot_entries [OF ok, symmetric] view_def
    by (auto simp: option.map_comp comp_def option.map_ident split: option.split)
  finally show ?thesis .
qed

lemma snapshot_restores:
  assumes inv: "store_inv t rs (a_main a)" and now: "t \<le> w_now (ws 0)" and e0: "view (a_main a) (w_now (ws 0)) [] = None"
    and target: "sim t0 (a_main b) m" "t0 \<le> t'" "int64 t'"
    and req: "rmethod r = ''POST''" "rbody r = p_body (snd (do_snapshot None ws a))"
  shows "\<exists>b' n. do_restore None r (\<lambda>_. healthy t') b = (b', plain 200 (''ok '' @ show_int n)) \<and>
    (\<forall>u \<ge> t'. view (a_main b') u =
      (\<lambda>k. map_option (\<lambda>(v, ts, ex). (v, t', 0)) (view (a_main a) (w_now (ws 0)) k)))"
proof -
  let ?kvs = "live_kvs (simg (a_main a)) (w_now (ws 0)) (entries (sidx (a_main a)))"
  have ok: "list_all kv_ok ?kvs" by (rule live_kvs_ok [OF inv now e0])
  have all: "filter (\<lambda>kv. tok_allows_key None (fst kv)) ?kvs = ?kvs" by (simp add: tok_allows_key_def)
  have parse: "parse_snapshot (rbody r) = Some ?kvs"
    unfolding req(2) do_snapshot_body all snd_conv plain_def resp.simps by (rule parse_snapshot_body [OF ok])
  obtain s' rc where res: "store_restore (a_main b) ?kvs (healthy t') = (s', rc)" by fastforce
  have idx: "index_ok (sidx (a_main b))" using target(1) by (auto simp: sim_def store_inv_def)
  have rc: "rc = int (length ?kvs)"
    using store_restore_ok(1) [OF ok _ idx, of "healthy t'"] target(3) res by simp
  have step: "do_restore None r (\<lambda>_. healthy t') b = (b\<lparr>a_main := s'\<rparr>, plain 200 (''ok '' @ show_int rc))"
    using rc by (simp add: do_restore_def req(1) parse res)
  have "sim t' s' (\<lambda>k. map_option (\<lambda>v. (v, t', 0)) (map_of (rev ?kvs) k))"
    using exec_sim [OF target, of "CRestore ?kvs"] ok res by simp
  then have "view s' u = (\<lambda>k. map_option (\<lambda>(v, ts, ex). (v, t', 0)) (view (a_main a) (w_now (ws 0)) k))" if "t' \<le> u" for u
    using sim_view [of t' s' _ u] that
    by (auto simp: live_kvs_view [OF inv] live_at_def option.map_comp comp_def case_prod_unfold fun_eq_iff split: option.split)
  with step show ?thesis by fastforce
qed

subsection \<open>A value posted under a percent-encoded key\<close>

lemma url_encode_no_amp: "CHR ''&'' \<notin> set (url_encode k)"
proof -
  have h: "HEX_digit d \<noteq> CHR ''&''" if "d < 16" for d using that unfolding less_16_iff HEX_digit_def by auto
  have "\<not> isalnum (CHR ''&'')" by code_simp
  moreover have "(of_char c :: nat) div 16 < 16" for c using of_char_lt_256 [of c] by linarith
  ultimately have "CHR ''&'' \<notin> set (url_encode_char c)" for c
    using h [of "of_char c div 16"] h [of "of_char c mod 16"] by (auto simp: url_encode_char_def)
  then show ?thesis by (auto simp: url_encode_def)
qed

definition key_query :: "string \<Rightarrow> string" where
  "key_query k = ''key='' @ url_encode k"

lemma key_query_raw:
  "qp_raw (key_query k) nm = (if nm = ''key'' then Some (url_encode k) else None)"
  if "length nm = 3 \<or> length nm > 3 \<and> CHR ''='' \<notin> set nm"
proof -
  have sp: "split_on (CHR ''&'') (key_query k) = [key_query k]"
    using url_encode_no_amp [of k] by (intro split_on_word) (auto simp: key_query_def)
  have t: "take (length nm) (key_query k) = nm \<Longrightarrow> length nm > 3 \<Longrightarrow> CHR ''='' \<in> set nm"
  proof -
    assume t: "take (length nm) (key_query k) = nm" and l: "length nm > 3"
    have "nm ! 3 = take (length nm) (key_query k) ! 3" using t by simp
    also have "\<dots> = CHR ''=''" using l by (simp add: key_query_def)
    finally show ?thesis using l nth_mem by metis
  qed
  show ?thesis
  proof (cases "length nm = 3")
    case True
    then have "take (length nm) (key_query k) = ''key''" by (simp add: key_query_def)
    moreover have "key_query k ! length nm = CHR ''=''" "drop (Suc (length nm)) (key_query k) = url_encode k"
      "length (key_query k) > length nm" using True by (simp_all add: key_query_def)
    ultimately show ?thesis by (auto simp: qp_raw_def sp)
  next
    case False
    then show ?thesis using that t by (auto simp: qp_raw_def sp)
  qed
qed

lemma key_query_params:
  assumes "nul \<notin> set k" and "length (url_encode k) \<le> MAX_KEY"
  shows "qp_key (key_query k) = KKey k" and "qp_int (key_query k) ''ttl'' d = d"
    and "qp_str (key_query k) ''append'' c = None"
  using assms by (simp_all add: qp_key_def qp_int_def qp_str_def key_query_raw url_decode_encode cstr_id)

definition raw_body :: "bytes \<Rightarrow> bool" where
  "raw_body b \<longleftrightarrow> \<not> (b \<noteq> [] \<and> hd b = CHR ''{'' \<and> json_field b ''key'' \<noteq> None) \<and> \<not> is_form_body b"

lemma url_encode_longer: "length k \<le> length (url_encode k)"
  by (induction k) (auto simp: url_encode_def url_encode_char_def)

lemma use_main: "use_store False f a = (let (s', x) = f (a_main a) in (a\<lparr>a_main := s'\<rparr>, x))"
  by (simp add: use_store_def)

lemma post_then_get:
  assumes sim: "sim t0 (a_main a) m" "t0 \<le> t" "int64 t" "t \<le> t'"
    and key: "k \<noteq> []" "nul \<notin> set k" "length (url_encode k) \<le> MAX_KEY"
    and body: "raw_body v" "length v \<le> MAX_VAL" and proj: "a_proj a = None" and tok: "tok_can_write tok k"
  shows "\<exists>b b2. do_set tok \<lparr>rmethod = ''POST'', rpath = ''/set'', rquery = key_query k, rbody = v,
        rauth = [], rjson = False\<rparr> (\<lambda>_. healthy t) a = (b, plain 200 ''ok'') \<and>
      do_get tok \<lparr>rmethod = ''GET'', rpath = ''/get'', rquery = key_query k, rbody = [],
        rauth = [], rjson = False\<rparr> (\<lambda>_. healthy t') b = (b2, plain 200 v)"
proof -
  note params = key_query_params [OF key(2,3)]
  let ?s = "fst (store_set (a_main a) k v 0 False (healthy t))"
  have sz: "length k \<le> MAX_KEY" using url_encode_longer [of k] key(3) by simp
  have "sim t (a_main a) m" using sim(1,2) by (rule sim_mono)
  then obtain rs where inv: "store_inv t rs (a_main a)" by (auto simp: sim_def)
  have ko: "key_ok k" using key(1) sz by (simp add: key_ok_def)
  have rc: "snd (store_set (a_main a) k v 0 False (healthy t)) = 0"
    using body(2) sim(3) by (intro store_set_ok(1) [OF inv ko]) (simp_all add: set_value_def)
  have "sim t ?s (spec_cmd t (CSet k v 0 False) m)"
    using exec_sim [OF sim(1-3), of "CSet k v 0 False"] body(2) by (simp add: spec_value_def)
  from sim_view [OF this sim(4)] have view: "view ?s t' k = Some (v, t, 0)"
    using ko body(2) by (simp add: spec_value_def clamp_ttl_def live_at_def)
  have args: "set_args_of \<lparr>rmethod = ''POST'', rpath = ''/set'', rquery = key_query k, rbody = v, rauth = [], rjson = False\<rparr>
      = Some \<lparr>sa_key = Some k, sa_val = v, sa_ttl = 0, sa_app = False\<rparr>"
    using body(1) by (auto simp: set_args_of_def Let_def set_raw_def params raw_body_def)
  have pick: "pick_store b key q = False" if "a_proj b = None" for b key q
    using that by (simp add: pick_store_def pick_proj_def)
  have set: "do_set tok \<lparr>rmethod = ''POST'', rpath = ''/set'', rquery = key_query k, rbody = v,
        rauth = [], rjson = False\<rparr> (\<lambda>_. healthy t) a = (a\<lparr>a_main := ?s\<rparr>, plain 200 ''ok'')"
    using key(1) sz tok body(2) rc by (simp add: do_set_def args pick [OF proj] srv_set_def use_main case_prod_unfold Let_def)
  have "tok_allows_key tok k" using tok by (simp add: tok_can_write_def)
  moreover have "a_proj (a\<lparr>a_main := ?s\<rparr>) = None" using proj by simp
  moreover have "snd (store_get ?s k t') = Some (v, t)" using view by (simp add: store_get_view)
  ultimately have "snd (do_get tok \<lparr>rmethod = ''GET'', rpath = ''/get'', rquery = key_query k, rbody = [],
        rauth = [], rjson = False\<rparr> (\<lambda>_. healthy t') (a\<lparr>a_main := ?s\<rparr>)) = plain 200 v"
    by (simp add: do_get_def with_key_def params pick srv_get_def use_main case_prod_unfold Let_def)
  with set show ?thesis by (metis prod.collapse)
qed

subsection \<open>The marker operations\<close>

lemma readonly_link:
  assumes "sim t0 (a_main a) m" "t0 \<le> t" "int64 t" and "a_proj a = None" and "view (a_main a) t ''assoc:a'' = None"
  shows "\<exists>b. route c (Some \<lparr>ttoken = x, tro = True, tprefix = Some p\<rparr>)
      \<lparr>rmethod = ''POST'', rpath = ''/link'', rquery = ''from=a&to=b'', rbody = [], rauth = [], rjson = False\<rparr>
      (\<lambda>_. healthy t) a = Some (b, plain 200 ''ok'') \<and>
    view (a_main b) t ''assoc:a'' = Some (''b'' @ tab # ''related'', t, 0)"
proof -
  let ?v = "''b'' @ tab # ''related''" and ?k = "''assoc:a''"
  let ?s = "fst (store_set (a_main a) ?k ?v 0 True (healthy t))"
  have st: "sim t (a_main a) m" using assms(1,2) by (rule sim_mono)
  then obtain rs where inv: "store_inv t rs (a_main a)" by (auto simp: sim_def)
  have val: "spec_value t m ?k ?v True = ?v"
    using sim_view [OF st order_refl, THEN fun_cong, of ?k] assms(5) by (simp add: spec_value_def)
  have small: "length ?v \<le> MAX_VAL" "key_ok ?k" by (simp_all add: MAX_VAL_def key_ok_def MAX_KEY_def)
  have rc: "snd (store_set (a_main a) ?k ?v 0 True (healthy t)) = 0"
    using small assms(3) by (intro store_set_ok(1) [OF inv small(2,1)]) (simp_all add: spec_value_view [OF st] val [simplified])
  have "sim t ?s (spec_cmd t (CSet ?k ?v 0 True) m)"
    using exec_sim [OF assms(1-3), of "CSet ?k ?v 0 True"] small by (simp add: val [simplified])
  from sim_view [OF this order_refl] have view: "view ?s t ?k = Some (?v, t, 0)"
    using small by (simp add: val [simplified] clamp_ttl_def live_at_def)
  have q: "qp_str ''from=a&to=b'' ''from'' MAX_KEY = Some ''a''" "qp_str ''from=a&to=b'' ''to'' MAX_KEY = Some ''b''"
    "qp_str ''from=a&to=b'' ''rel'' 256 = None"
    by (simp_all add: qp_str_def qp_raw_def cstr_def MAX_KEY_def)
  have "route c (Some \<lparr>ttoken = x, tro = True, tprefix = Some p\<rparr>)
      \<lparr>rmethod = ''POST'', rpath = ''/link'', rquery = ''from=a&to=b'', rbody = [], rauth = [], rjson = False\<rparr>
      (\<lambda>_. healthy t) a = Some (a\<lparr>a_main := ?s\<rparr>, plain 200 ''ok'')"
    using rc assms(4)
    by (simp add: route_def do_link_def q pick_store_def pick_proj_def srv_set_def use_main case_prod_unfold Let_def)
  with view show ?thesis by simp
qed

subsection \<open>A batch that is never answered\<close>

lemma each_brace: "k = 0 \<or> k = 1 \<Longrightarrow> json_array_each ''[}'' k = (1, Some [])"
  by (auto simp: json_array_each_def json_array_start_def json_skip_ws_def json_skip_value_def is_ws_def scalar_end_def)

lemma batch_brace_stuck:
  assumes "batch_loop tok q body ws pos n a out = Some res"
  shows "body = ''[}'' \<longrightarrow> pos = 0 \<or> pos = 1 \<longrightarrow> False"
proof (rule batch_loop.raw_induct [OF _ assms])
  fix loop tok q body ws pos n a out res
  assume IH: "\<And>tok q body ws pos n a out res. loop tok q body ws pos n a out = Some res \<Longrightarrow>
      body = ''[}'' \<longrightarrow> pos = 0 \<or> pos = 1 \<longrightarrow> False"
    and eq: "(case json_array_each body pos of
        (pos', None) \<Rightarrow> Some (a, out, n)
      | (pos', Some e) \<Rightarrow>
          (case batch_elem tok q e (\<lambda>i. ws (3 * n + i)) a of
             None \<Rightarrow> None
           | Some ao \<Rightarrow> loop tok q body ws pos' (Suc n) (fst ao) (out @ snd ao))) = Some res"
  show "body = ''[}'' \<longrightarrow> pos = 0 \<or> pos = 1 \<longrightarrow> False"
  proof (intro impI)
    assume b: "body = ''[}''" and p: "pos = 0 \<or> pos = 1"
    have "loop tok q body ws 1 (Suc n) a (out @ ''error: bad batch element'' @ [nl]) = Some res"
      using eq unfolding b each_brace [OF p] by (simp add: batch_elem_def)
    from IH [OF this] b show False by blast
  qed
qed

lemma do_batch_brace: "rbody r = ''[}'' \<Longrightarrow> do_batch tok r ws a = None"
  using batch_brace_stuck [of tok "rquery r" "rbody r" ws 0 0 a "[]"]
  by (cases "batch_loop tok (rquery r) (rbody r) ws 0 0 a []") (auto simp: do_batch_def)

end
