(* ===== verification/Exo_Module.thy ===== *)
theory Exo_Module
  imports Exo_Route_Props
begin

text \<open>
  The HTTP layer that exosched, exoflow and exoqms share, a copy in each
  (\<open>exosched/src/http.c\<close>, \<open>exoflow/src/http.c\<close>, \<open>exoqms/src/http.c\<close>): reading a request, the
  parameters, the token, and a connection up to the module's own routes. It is an older sibling
  of exomind's reader: four bytes must follow before a terminator is looked for, header lines
  end at CRLF only, and parameters are not percent-decoded.
\<close>

record mreq =
  mmethod :: string
  mpath :: string
  mquery :: string
  mbody :: bytes
  mauth :: string
  mhdrs :: bytes

datatype mreq_result = MOk mreq | MMalformed | MTooLarge

definition MOD_MAX_BODY :: nat where "MOD_MAX_BODY = 1024 * 1024"

fun mod_hdr_from :: "bytes \<Rightarrow> nat \<Rightarrow> nat option" where
  "mod_hdr_from [] i = None"
| "mod_hdr_from (c # r) i =
     (if length (c # r) < 4 then None
      else if take 4 (c # r) = [cr, nl, cr, nl] then Some (i + 4)
      else if take 2 (c # r) = [nl, nl] then Some (i + 2)
      else mod_hdr_from r (i + 1))"

definition mod_hdr_scan :: "bytes \<Rightarrow> nat \<Rightarrow> nat option" where
  "mod_hdr_scan buf from = mod_hdr_from (drop from buf) from"

function mod_hdr_loop :: "bytes list \<Rightarrow> bytes \<Rightarrow> (bytes \<times> nat \<times> bytes list) option" where
  "mod_hdr_loop segs buf =
     (if length buf \<ge> MAX_HEADERS - 1 then None
      else (case sock_read segs (MAX_HEADERS - 1 - length buf) of
              None \<Rightarrow> None
            | Some (got, segs') \<Rightarrow>
                (if got = [] then None
                 else (case mod_hdr_scan (buf @ got) (if length (buf @ got) > length got + 4
                                                      then length (buf @ got) - length got - 4 else 0) of
                         Some e \<Rightarrow> Some (buf @ got, e, segs')
                       | None \<Rightarrow> mod_hdr_loop segs' (buf @ got)))))"
  by pat_completeness auto
termination
  by (relation "measure (\<lambda>(segs, buf). MAX_HEADERS - length buf)")
    (auto simp: MAX_HEADERS_def simp flip: length_greater_0_conv)

declare mod_hdr_loop.simps [simp del]

definition mod_header_line :: "string \<Rightarrow> nat option \<times> mreq \<Rightarrow> nat option \<times> mreq" where
  "mod_header_line l st =
     (let (cl, r) = st
      in if ci_prefix l ''content-length:'' then (Some (fst (strtoull (drop 15 l))), r)
         else if ci_prefix l ''authorization:'' then
           (cl, r\<lparr>mauth := take 511 (dropWhile (\<lambda>c. c = CHR '' '') (drop 14 l))\<rparr>)
         else st)"

function mod_header_lines :: "string \<Rightarrow> nat option \<times> mreq \<Rightarrow> nat option \<times> mreq" where
  "mod_header_lines s st =
     (if s = [] then st
      else (case find_crlf s of
              None \<Rightarrow> mod_header_line s st
            | Some i \<Rightarrow> mod_header_lines (drop (i + 2) s) (mod_header_line (take i s) st)))"
  by pat_completeness auto
termination
  by (relation "measure (\<lambda>(s, st). length s)") auto

declare mod_header_lines.simps [simp del]

definition mod_parse_head :: "bytes \<Rightarrow> bytes \<Rightarrow> (nat option \<times> mreq) option" where
  "mod_parse_head hdrs buf =
     (let h = cstr buf
      in case find_eol h of
           None \<Rightarrow> None
         | Some i \<Rightarrow>
             (let l = dropWhile (\<lambda>c. c = CHR '' '') (take i h);
                  m = takeWhile (\<lambda>c. c \<noteq> CHR '' '') l;
                  u = takeWhile (\<lambda>c. c \<noteq> CHR '' '') (dropWhile (\<lambda>c. c = CHR '' '') (drop (length m) l));
                  (p, q) = split_url u
              in Some (mod_header_lines (past_eol h i)
                   (None, \<lparr>mmethod = take 15 m, mpath = p, mquery = q, mbody = [], mauth = [], mhdrs = hdrs\<rparr>))))"

definition mod_read_request :: "bytes list \<Rightarrow> mreq_result" where
  "mod_read_request segs =
     (case mod_hdr_loop segs [] of
        None \<Rightarrow> MMalformed
      | Some (buf, e, segs') \<Rightarrow>
          (case mod_parse_head (take e buf) (take (e - 2) buf) of
             None \<Rightarrow> MMalformed
           | Some (cl, r) \<Rightarrow>
               (case cl of
                  None \<Rightarrow> MOk r
                | Some n \<Rightarrow>
                    if n = 0 then MOk r
                    else if n > MOD_MAX_BODY then MTooLarge
                    else (case body_loop segs' n (take n (drop e buf)) of
                            None \<Rightarrow> MMalformed
                          | Some b \<Rightarrow> MOk (r\<lparr>mbody := b\<rparr>)))))"

text \<open>\<open>hdr_value\<close>: the value of the first header with a name, trailing blanks cut off.\<close>

definition hdr_value :: "mreq \<Rightarrow> string \<Rightarrow> string option" where
  "hdr_value r nm =
     (let strip = (\<lambda>h. rev (dropWhile (\<lambda>c. c = cr \<or> c = CHR '' '') (rev h)))
      in map_option (\<lambda>h. dropWhile (\<lambda>c. c = CHR '' '') (drop (length nm) h))
           (find (\<lambda>h. ci_prefix h nm) (map strip (drop 1 (strtok_all (\<lambda>c. c = nl) (cstr (mhdrs r)))))))"

definition plus_blank :: "char \<Rightarrow> char" where
  "plus_blank c = (if c = CHR ''+'' then CHR '' '' else c)"

definition mod_qp_str :: "string \<Rightarrow> string \<Rightarrow> nat \<Rightarrow> string option" where
  "mod_qp_str qs nm cap = map_option (\<lambda>v. map plus_blank (take (cap - 1) v)) (qp_raw qs nm)"

text \<open>
  The token: lengths are compared, then the bytes of the common part, into an int that keeps
  every difference.
\<close>

definition mod_auth_ok :: "string \<Rightarrow> string \<Rightarrow> bool" where
  "mod_auth_ok token auth \<longleftrightarrow>
     token = [] \<or>
     ci_prefix auth ''Bearer '' \<and>
     (let got = drop 7 auth
      in (word_of_nat (length token) XOR word_of_nat (length got) :: u32) = 0 \<and>
         list_all (\<lambda>(a, b). a = b) (zip token got))"

definition mod_status_text :: "int \<Rightarrow> string" where
  "mod_status_text st =
     (if st = 200 then ''OK'' else if st = 201 then ''Created'' else if st = 204 then ''No Content''
      else if st = 400 then ''Bad Request'' else if st = 401 then ''Unauthorized''
      else if st = 404 then ''Not Found''
      else if st = 405 then ''Method Not Allowed'' else if st = 413 then ''Payload Too Large''
      else ''Internal Server Error'')"

definition mod_send_response :: "resp \<Rightarrow> bool \<Rightarrow> bytes" where
  "mod_send_response rs head_only =
     ''HTTP/1.1 '' @ show_int (p_status rs) @ CHR '' '' # mod_status_text (p_status rs) @ crlf @
     ''Content-Type: '' @ ctype_text (p_ctype rs) @ crlf @
     ''Content-Length: '' @ show_nat (length (p_body rs)) @ crlf @
     ''Connection: close'' @ crlf @
     ''Access-Control-Allow-Origin: *'' @ crlf @
     ''Access-Control-Allow-Headers: Authorization, Content-Type'' @ crlf @
     ''Access-Control-Allow-Methods: GET, POST, DELETE, OPTIONS'' @ crlf @ crlf @
     (if head_only then [] else p_body rs)"

definition mod_strip :: "string \<Rightarrow> string \<Rightarrow> string" where
  "mod_strip pre p =
     (if take (length pre) p = pre \<and> (length p = length pre \<or> p ! length pre = CHR ''/'')
      then (let q = drop (length pre) p in if q = [] then ''/'' else q) else p)"

text \<open>
  A connection up to the routes: a reply of the layer itself, or the request to be routed. The
  lengths written are those of the source, one short of the texts but for the bad request.
\<close>

definition mod_gate :: "string \<Rightarrow> string \<Rightarrow> rate option \<Rightarrow> int \<Rightarrow> bytes list \<Rightarrow> rate option \<times> (resp + mreq)" where
  "mod_gate pre token rt tick segs =
     (case mod_read_request segs of
        MTooLarge \<Rightarrow> (rt, Inl (plain 413 ''error: body too large''))
      | MMalformed \<Rightarrow> (rt, Inl (plain 400 (''error: bad request'' @ [nl])))
      | MOk r \<Rightarrow>
          if mmethod r = ''OPTIONS'' then (rt, Inl \<lparr>p_status = 204, p_ctype = Bare, p_body = []\<rparr>)
          else if mmethod r \<notin> set [''GET'', ''POST'', ''DELETE'', ''HEAD''] then
            (rt, Inl (plain 405 ''error: method not allowed''))
          else if \<not> mod_auth_ok token (mauth r) then (rt, Inl (plain 401 ''error: unauthorized''))
          else (let (rt', ok) = (case rt of None \<Rightarrow> (None, True)
                  | Some x \<Rightarrow> (let (x', ok) = rate_take x tick in (Some x', ok)))
                in (rt', if \<not> ok then Inl (plain 429 ''error: rate limit exceeded'')
                         else Inr (r\<lparr>mpath := mod_strip pre (mpath r)\<rparr>))))"

subsection \<open>The token check\<close>

lemma zip_eq: "length a = length b \<Longrightarrow> list_all (\<lambda>(x, y). x = y) (zip a b) \<longleftrightarrow> a = b"
  by (induction a b rule: list_induct2) auto

lemma auth_exact:
  assumes "length token < 2 ^ 32" and "length auth < 2 ^ 32" and "token \<noteq> []"
  shows "mod_auth_ok token auth \<longleftrightarrow> ci_prefix auth ''Bearer '' \<and> drop 7 auth = token"
proof -
  have x: "(word_of_nat a XOR word_of_nat b :: u32) = 0 \<longleftrightarrow> a = b" if "a < 2 ^ 32" "b < 2 ^ 32" for a b
  proof -
    have "(word_of_nat a XOR word_of_nat b :: u32) = 0 \<longleftrightarrow> (word_of_nat a :: u32) = word_of_nat b"
      by (metis bit.xor_self xor.right_neutral bit.xor_left_self)
    also have "\<dots> \<longleftrightarrow> a = b"
      using that unfolding word_of_nat_eq_iff by (simp add: take_bit_nat_eq_self)
    finally show ?thesis .
  qed
  have "length (drop 7 auth) < 2 ^ 32" using assms(2) by (auto simp: less_imp_diff_less)
  note l = x [OF assms(1) this]
  show ?thesis
    using assms(3) zip_eq [of token "drop 7 auth"] unfolding mod_auth_ok_def Let_def l by metis
qed

text \<open>A request ended by two bare newlines waits for more bytes.\<close>

lemma bare_newlines_malformed: "mod_read_request [''GET /ping HTTP/1.1'' @ [nl, nl]] = MMalformed"
proof -
  let ?b = "''GET /ping HTTP/1.1'' @ [nl, nl]"
  have "mod_hdr_from ?b 0 = None" by code_simp
  moreover have "sock_read [?b] (MAX_HEADERS - 1) = Some (?b, [])" by (simp add: sock_read_def MAX_HEADERS_def)
  ultimately have "mod_hdr_loop [?b] [] = mod_hdr_loop [] ?b"
    by (subst mod_hdr_loop.simps) (simp add: mod_hdr_scan_def MAX_HEADERS_def)
  also have "\<dots> = None" by (subst mod_hdr_loop.simps) (simp add: sock_read_def)
  finally show ?thesis by (simp add: mod_read_request_def)
qed

end
