(* ===== verification/Exo_Client.thy ===== *)
theory Exo_Client
  imports Exo_Route_Props
begin

text \<open>
  exosched's client of exomind (\<open>exosched/src/exomind.c\<close>; exoflow's is the same code) and its
  delivery counters (\<open>delivery.c\<close>). The network is a function from the bytes of a request and the
  state of what is behind it to the segments of the reply, or the text of a failed connection or write,
  and the new state; every operation is total over it.
\<close>

record exo =
  x_host :: string
  x_port :: int

text \<open>\<open>atoi\<close>: \<open>strtol\<close> converted to a 32-bit int.\<close>

definition atoi :: "string \<Rightarrow> int" where
  "atoi s = sint (word_of_int (fst (strtoll s)) :: u32)"

definition exo_init :: "string \<Rightarrow> exo option" where
  "exo_init url =
     (if take 7 url \<noteq> ''http://'' then None
      else (let p = drop 7 url; h = takeWhile (\<lambda>c. c \<noteq> CHR '':'' \<and> c \<noteq> CHR ''/'') p; r = drop (length h) p
            in if h = [] \<or> length h \<ge> 256 then None
               else if r \<noteq> [] \<and> hd r = CHR '':'' then
                 (let port = atoi (take 15 (takeWhile (\<lambda>c. c \<noteq> CHR ''/'') (drop 1 r)))
                  in if port \<le> 0 \<or> port > 65535 then None else Some \<lparr>x_host = h, x_port = port\<rparr>)
               else Some \<lparr>x_host = h, x_port = 7654\<rparr>))"

definition EXO_MAX_BODY :: nat where "EXO_MAX_BODY = 8 * 1024 * 1024"

subsection \<open>Requests and replies\<close>

definition request_bytes :: "exo \<Rightarrow> string \<Rightarrow> string \<Rightarrow> bytes \<Rightarrow> bool \<Rightarrow> bytes" where
  "request_bytes e meth target body json_ct =
     meth @ CHR '' '' # target @ '' HTTP/1.1'' @ crlf @
     ''Host: '' @ x_host e @ CHR '':'' # show_int (x_port e) @ crlf @
     ''Connection: close'' @ crlf @
     (if body \<noteq> [] then ''Content-Length: '' @ show_nat (length body) @ crlf @
        (if json_ct then ''Content-Type: application/json'' @ crlf else []) else []) @ crlf @ body"

fun crlf4_from :: "bytes \<Rightarrow> nat \<Rightarrow> nat option" where
  "crlf4_from [] i = None"
| "crlf4_from (c # r) i = (if take 4 (c # r) = [cr, nl, cr, nl] then Some (i + 4) else crlf4_from r (i + 1))"

text \<open>What has been read when the loop stops, the end of the headers when found, the rest.\<close>

function rsp_loop :: "bytes list \<Rightarrow> bytes \<Rightarrow> bytes \<times> nat option \<times> bytes list" where
  "rsp_loop segs h =
     (if length h \<ge> 65536 then (h, None, segs)
      else (case sock_read segs 4096 of
              None \<Rightarrow> (h, None, segs)
            | Some (got, segs') \<Rightarrow>
                (if got = [] then (h, None, segs)
                 else (let b = h @ got; from = (if length b > length got + 4 then length b - length got - 4 else 0)
                       in case crlf4_from (drop from b) from of
                            Some e \<Rightarrow> (b, Some e, segs')
                          | None \<Rightarrow> rsp_loop segs' b))))"
  by pat_completeness auto
termination
  by (relation "measure (\<lambda>(segs, h). 65536 - length h)") (auto simp flip: length_greater_0_conv)

declare rsp_loop.simps [simp del]

text \<open>The lines of the header block; the last \<open>content-length\<close> counts.\<close>

definition rsp_line :: "string \<Rightarrow> int \<Rightarrow> int" where
  "rsp_line l clen =
     (let l = cstr (if l \<noteq> [] \<and> last l = cr then butlast l else l)
      in if ci_prefix l ''content-length:'' then fst (strtoll (drop 15 l)) else clen)"

definition rsp_clen :: "bytes \<Rightarrow> int" where
  "rsp_clen hdr = fold rsp_line (butlast (split_on nl hdr)) (-1)"

text \<open>The rest of a body of known length, and of one that ends with the connection.\<close>

function rsp_body :: "bytes list \<Rightarrow> int \<Rightarrow> bytes \<Rightarrow> bytes" where
  "rsp_body segs need b =
     (if need \<le> 0 then b
      else (case sock_read segs (min (nat need) 4096) of
              None \<Rightarrow> b
            | Some (got, segs') \<Rightarrow> if got = [] then b else rsp_body segs' (need - int (length got)) (b @ got)))"
  by pat_completeness auto
termination
  by (relation "measure (\<lambda>(segs, need, b). nat need)") (auto simp flip: length_greater_0_conv)

function rsp_rest :: "bytes list \<Rightarrow> bytes \<Rightarrow> bytes" where
  "rsp_rest segs b =
     (case sock_read segs 4096 of
        None \<Rightarrow> b
      | Some (got, segs') \<Rightarrow>
          if got = [] \<or> length b + length got > EXO_MAX_BODY then b else rsp_rest segs' (b @ got))"
  by pat_completeness auto
termination
  by (relation "measure (\<lambda>(segs, b). Suc EXO_MAX_BODY - length b)") (auto simp flip: length_greater_0_conv)

declare rsp_body.simps [simp del] rsp_rest.simps [simp del]

text \<open>A failure is the text left in \<open>err\<close>, which has room for 255 characters.\<close>

definition err255 :: "string \<Rightarrow> string" where
  "err255 s = take 255 s"

definition read_response :: "bytes list \<Rightarrow> string + int \<times> bytes" where
  "read_response segs =
     (case rsp_loop segs [] of
        (h, None, segs') \<Rightarrow> Inl ''exomind: bad response''
      | (h, Some e, segs') \<Rightarrow>
          if length h < 16 then Inl ''exomind: bad response''
          else (let eol = length (takeWhile (\<lambda>c. c \<noteq> nl) h);
                    status = (if eol > 9 \<and> take 9 h = ''HTTP/1.1 '' then atoi (drop 9 h) else 500);
                    clen = rsp_clen (take e h); b0 = drop e h;
                    b = (if clen > 0 then rsp_body segs' (clen - int (length b0)) b0
                         else if clen < 0 \<and> length b0 < EXO_MAX_BODY then rsp_rest segs' b0 else b0)
                in if length b > EXO_MAX_BODY then Inl ''exomind: response too large'' else Inr (status, b)))"

text \<open>
  One request over the network, whose state is handed on. What it answers when the connection or
  the write fails is the text that \<open>connect_exo\<close> or \<open>exo_request\<close> makes of \<open>errno\<close>.
\<close>

type_synonym 'w net = "bytes \<Rightarrow> 'w \<Rightarrow> (string + bytes list) \<times> 'w"

definition exo_request :: "'w net \<Rightarrow> exo \<Rightarrow> string \<Rightarrow> string \<Rightarrow> bytes \<Rightarrow> bool \<Rightarrow> 'w \<Rightarrow> (string + int \<times> bytes) \<times> 'w" where
  "exo_request net e meth target body json_ct w =
     (case net (request_bytes e meth target body json_ct) w of
        (Inl err, w') \<Rightarrow> (Inl (err255 err), w') | (Inr segs, w') \<Rightarrow> (read_response segs, w'))"

subsection \<open>The operations\<close>

definition status_err :: "string \<Rightarrow> int \<Rightarrow> string" where
  "status_err what st = err255 (what @ '' failed (status '' @ show_int st @ '')'')"

definition status_err_body :: "string \<Rightarrow> int \<Rightarrow> bytes \<Rightarrow> string" where
  "status_err_body what st b = err255 (what @ '' failed (status '' @ show_int st @ '': '' @ cstr b @ '')'')"

definition persist_body :: "string \<Rightarrow> bytes \<Rightarrow> int \<Rightarrow> string" where
  "persist_body key v ttl =
     CHR ''{'' # jname ''key'' @ CHR '':'' # jname key @ CHR '','' # jname ''value'' @ CHR '':'' #
     jname (json_escape_u v) @ CHR '','' # jname ''ttl'' @ CHR '':'' # show_int ttl @ ''}''"

text \<open>\<open>None\<close> is success for the operations without a result.\<close>

definition client_persist :: "'w net \<Rightarrow> exo \<Rightarrow> string \<Rightarrow> bytes \<Rightarrow> int \<Rightarrow> 'w \<Rightarrow> string option \<times> 'w" where
  "client_persist net e key v ttl w =
     (case exo_request net e ''POST'' (take 511 (''/set?key='' @ key)) (persist_body key v ttl) True w of
        (Inl err, w') \<Rightarrow> (Some err, w')
      | (Inr (st, b), w') \<Rightarrow>
          (if st \<noteq> 200 then Some (status_err_body (''exomind set '' @ key) st b) else None, w'))"

text \<open>Whether the key existed.\<close>

definition client_del :: "'w net \<Rightarrow> exo \<Rightarrow> string \<Rightarrow> 'w \<Rightarrow> (string + bool) \<times> 'w" where
  "client_del net e key w =
     (case exo_request net e ''DELETE'' (take 511 (''/del?key='' @ key)) [] False w of
        (Inl err, w') \<Rightarrow> (Inl err, w')
      | (Inr (st, b), w') \<Rightarrow>
          (if st \<noteq> 200 \<and> st \<noteq> 404 then Inl (status_err (''exomind del '' @ key) st) else Inr (st = 200), w'))"

definition client_note :: "'w net \<Rightarrow> exo \<Rightarrow> string \<Rightarrow> 'w \<Rightarrow> string option \<times> 'w" where
  "client_note net e t w =
     (case exo_request net e ''POST'' ''/note'' t False w of
        (Inl err, w') \<Rightarrow> (Some err, w')
      | (Inr (st, b), w') \<Rightarrow> (if st \<noteq> 200 then Some (status_err_body ''exomind note'' st b) else None, w'))"

definition resp_lines :: "bytes \<Rightarrow> string list" where
  "resp_lines b = map chop_eol (strtok_all (\<lambda>c. c = nl) (cstr b))"

definition client_list :: "'w net \<Rightarrow> exo \<Rightarrow> string \<Rightarrow> 'w \<Rightarrow> (string + string list) \<times> 'w" where
  "client_list net e pre w =
     (case exo_request net e ''GET'' (take 1023 (''/list?prefix='' @ pre @ ''&limit=10000'')) [] False w of
        (Inl err, w') \<Rightarrow> (Inl err, w')
      | (Inr (st, b), w') \<Rightarrow>
          (if st \<noteq> 200 then Inl (status_err ''exomind list'' st) else Inr (filter (\<lambda>l. l \<noteq> []) (resp_lines b)), w'))"

definition batch_body :: "string list \<Rightarrow> string" where
  "batch_body keys = CHR ''['' # join_with (CHR '','')
     (map (\<lambda>k. CHR ''{'' # jname ''get'' @ CHR '':'' # jname k @ ''}'') keys) @ '']''"

text \<open>The lines that answer the keys still wanted, in order; a line that does not match is skipped.\<close>

fun match_gets :: "string list \<Rightarrow> string list \<Rightarrow> bytes list" where
  "match_gets [] ls = []"
| "match_gets ks [] = []"
| "match_gets (k # ks) (l # ls) =
     (let v = drop 4 l; nm = takeWhile (\<lambda>c. c \<noteq> CHR '' '') v
      in if take 4 l \<noteq> ''get '' \<or> CHR '' '' \<notin> set v \<or> nm \<noteq> k then match_gets (k # ks) ls
         else unesc_line (drop (Suc (length nm)) v) # match_gets ks ls)"

definition client_batch_get :: "'w net \<Rightarrow> exo \<Rightarrow> string list \<Rightarrow> 'w \<Rightarrow> (string + bytes list) \<times> 'w" where
  "client_batch_get net e keys w =
     (case exo_request net e ''POST'' ''/batch'' (batch_body keys) True w of
        (Inl err, w') \<Rightarrow> (Inl err, w')
      | (Inr (st, b), w') \<Rightarrow>
          (if st \<noteq> 200 then Inl (status_err ''exomind batch'' st)
           else (let vs = match_gets keys (resp_lines b)
                 in if length vs \<noteq> length keys then
                      Inl (err255 (''exomind batch get: got '' @ show_nat (length vs) @ '' of '' @ show_nat (length keys)))
                    else Inr vs), w'))"

subsection \<open>Delivery counters\<close>

record dstats =
  ds_fired :: int
  ds_acked :: int
  ds_unacked :: int
  ds_last_acked :: int
  ds_last_unacked :: int

definition no_stats :: dstats where
  "no_stats = \<lparr>ds_fired = 0, ds_acked = 0, ds_unacked = 0, ds_last_acked = 0, ds_last_unacked = 0\<rparr>"

definition DELIVERY_KEY :: string where "DELIVERY_KEY = ''exosched:delivery''"

definition stats_value :: "dstats \<Rightarrow> string" where
  "stats_value s =
     ''fired: '' @ show_int (ds_fired s) @ nl # ''acked: '' @ show_int (ds_acked s) @ nl #
     ''unacked: '' @ show_int (ds_unacked s) @ nl # ''last_acked_ts: '' @ show_int (ds_last_acked s) @ nl #
     ''last_unacked_ts: '' @ show_int (ds_last_unacked s) @ [nl]"

definition kv_num :: "string \<Rightarrow> string \<Rightarrow> int" where
  "kv_num v key =
     (case find_sub v key of
        None \<Rightarrow> 0
      | Some i \<Rightarrow> fst (strtoll (dropWhile (\<lambda>c. c = CHR '' '') (drop (i + length key) v))))"

definition stats_parse :: "string \<Rightarrow> dstats" where
  "stats_parse v =
     \<lparr>ds_fired = kv_num v ''fired:'', ds_acked = kv_num v ''acked:'', ds_unacked = kv_num v ''unacked:'',
      ds_last_acked = kv_num v ''last_acked_ts:'', ds_last_unacked = kv_num v ''last_unacked_ts:''\<rparr>"

definition stats_read :: "'w net \<Rightarrow> exo \<Rightarrow> 'w \<Rightarrow> dstats option \<times> 'w" where
  "stats_read net e w =
     (case exo_request net e ''GET'' (''/get?key='' @ DELIVERY_KEY) [] False w of
        (Inl err, w') \<Rightarrow> (None, w')
      | (Inr (st, b), w') \<Rightarrow>
          (if st = 200 then Some (stats_parse (cstr b)) else if st = 404 then Some no_stats else None, w'))"

text \<open>The state: the counters and whether they were read from exomind (\<open>g_loaded\<close>).\<close>

type_synonym counters = "dstats \<times> bool"

definition delivery_load :: "'w net \<Rightarrow> exo \<Rightarrow> counters \<Rightarrow> 'w \<Rightarrow> bool \<times> counters \<times> 'w" where
  "delivery_load net e st w =
     (if snd st then (True, st, w)
      else (case stats_read net e w of
              (None, w') \<Rightarrow> (False, st, w') | (Some s, w') \<Rightarrow> (True, (s, True), w')))"

definition next_stats :: "dstats \<Rightarrow> int \<Rightarrow> int \<Rightarrow> dstats" where
  "next_stats s acked now =
     (let s1 = s\<lparr>ds_fired := ds_fired s + 1\<rparr>
      in if acked > 0 then s1\<lparr>ds_acked := ds_acked s1 + 1, ds_last_acked := now\<rparr>
         else s1\<lparr>ds_unacked := ds_unacked s1 + 1, ds_last_unacked := now\<rparr>)"

definition delivery_record :: "'w net \<Rightarrow> exo \<Rightarrow> int \<Rightarrow> int \<Rightarrow> counters \<Rightarrow> 'w \<Rightarrow> bool \<times> counters \<times> 'w" where
  "delivery_record net e acked now st w =
     (case delivery_load net e st w of
        (False, st1, w1) \<Rightarrow> (False, st1, w1)
      | (True, st1, w1) \<Rightarrow>
          (let nxt = next_stats (fst st1) acked now
           in case client_persist net e DELIVERY_KEY (stats_value nxt) 0 w1 of
                (None, w2) \<Rightarrow> (True, (nxt, True), w2)
              | (Some err, w2) \<Rightarrow> (False, (fst st1, True), w2)))"

text \<open>One line of the receipts: the key without its prefix is the id and, after the last colon, the
  epoch; the value that \<open>exo_batch_get\<close> has unescaped is unescaped again.\<close>

definition receipt_line :: "string \<Rightarrow> bytes \<Rightarrow> string" where
  "receipt_line key v =
     (let base = drop (length ''delivery:'') key; r = rev base; ep = rev (takeWhile (\<lambda>c. c \<noteq> CHR '':'') r);
          has = CHR '':'' \<in> set base
      in ''timer '' @ (if has then take (length base - length ep - 1) base else base) @ CHR '' '' #
         (if has then ep else []) @ CHR '' '' # cstr (unesc_line v) @ [nl])"

definition delivery_detail :: "'w net \<Rightarrow> exo \<Rightarrow> 'w \<Rightarrow> string \<times> 'w" where
  "delivery_detail net e w =
     (case client_list net e ''delivery:'' w of
        (Inl err, w1) \<Rightarrow> ([], w1)
      | (Inr keys, w1) \<Rightarrow>
          if keys = [] then ([], w1)
          else (case client_batch_get net e keys w1 of
                  (Inl err, w2) \<Rightarrow> ([], w2)
                | (Inr vs, w2) \<Rightarrow> (concat (map (\<lambda>(k, v). receipt_line k v) (zip keys vs)), w2)))"

end
