(* ===== verification/Exo_Wire.thy ===== *)
theory Exo_Wire
  imports Exo_Client
begin

text \<open>
  Client and server over the wire: what \<open>exo_request\<close> writes is what \<open>read_request\<close> understands,
  what \<open>send_response\<close> writes is what \<open>read_response\<close> understands, in whatever segments either
  arrives; and so a persist that exosched or exoflow reports as done is in exomind's store.
\<close>

subsection \<open>Header blocks\<close>

definition clean_line :: "string \<Rightarrow> bool" where
  "clean_line l \<longleftrightarrow> l \<noteq> [] \<and> cr \<notin> set l \<and> nl \<notin> set l \<and> nul \<notin> set l"

definition hdr_block :: "string list \<Rightarrow> bytes" where
  "hdr_block ls = concat (map (\<lambda>l. l @ crlf) ls)"

lemma msg_simps [simp]: "hdr_block [] = []" "hdr_block (l # ls) = l @ crlf @ hdr_block ls"
  by (simp_all add: hdr_block_def)

lemma hdr_from_clean: "cr \<notin> set l \<Longrightarrow> nl \<notin> set l \<Longrightarrow> hdr_from (l @ s) i = hdr_from s (i + length l)"
  by (induction l arbitrary: i) auto

lemma hdr_from_crlf: "s = [] \<or> hd s \<notin> {cr, nl} \<Longrightarrow> hdr_from (crlf @ s) i = hdr_from s (i + 2)"
  by (cases s) auto

lemma msg_hd: "\<forall>l \<in> set ls. clean_line l \<Longrightarrow> ls \<noteq> [] \<Longrightarrow> hd (hdr_block ls @ s) \<notin> {cr, nl} \<and> hdr_block ls @ s \<noteq> []"
  by (cases ls; cases "hd ls") (auto simp: clean_line_def)

lemma hdr_from_msg:
  "\<forall>l \<in> set ls. clean_line l \<Longrightarrow> ls \<noteq> [] \<Longrightarrow>
    hdr_from (hdr_block ls @ crlf @ s) i = Some (i + length (hdr_block ls) + 2)"
proof (induction ls arbitrary: i)
  case (Cons l ls)
  have l: "hdr_from (l @ crlf @ hdr_block ls @ crlf @ s) i = hdr_from (crlf @ hdr_block ls @ crlf @ s) (i + length l)"
    using Cons.prems(1) by (intro hdr_from_clean) (auto simp: clean_line_def)
  show ?case
  proof (cases "ls = []")
    case True
    then show ?thesis using l by simp
  next
    case False
    have "hdr_from (crlf @ hdr_block ls @ crlf @ s) (i + length l) = hdr_from (hdr_block ls @ crlf @ s) (i + length l + 2)"
      using msg_hd [OF _ False, of "crlf @ s"] Cons.prems(1) by (intro hdr_from_crlf) simp
    then show ?thesis using Cons.IH [OF _ False] Cons.prems(1) l by simp
  qed
qed simp

lemma crlf4_from_clean: "cr \<notin> set l \<Longrightarrow> crlf4_from (l @ s) i = crlf4_from s (i + length l)"
  by (induction l arbitrary: i) auto

lemma crlf4_from_crlf: "s = [] \<or> hd s \<notin> {cr, nl} \<Longrightarrow> crlf4_from (crlf @ s) i = crlf4_from s (i + 2)"
  by (cases s) auto

lemma crlf4_from_msg:
  "\<forall>l \<in> set ls. clean_line l \<Longrightarrow> ls \<noteq> [] \<Longrightarrow>
    crlf4_from (hdr_block ls @ crlf @ s) i = Some (i + length (hdr_block ls) + 2)"
proof (induction ls arbitrary: i)
  case (Cons l ls)
  have l: "crlf4_from (l @ crlf @ hdr_block ls @ crlf @ s) i = crlf4_from (crlf @ hdr_block ls @ crlf @ s) (i + length l)"
    using Cons.prems(1) by (intro crlf4_from_clean) (auto simp: clean_line_def)
  show ?case
  proof (cases "ls = []")
    case True
    then show ?thesis using l by simp
  next
    case False
    have "crlf4_from (crlf @ hdr_block ls @ crlf @ s) (i + length l) = crlf4_from (hdr_block ls @ crlf @ s) (i + length l + 2)"
      using msg_hd [OF _ False, of "crlf @ s"] Cons.prems(1) by (intro crlf4_from_crlf) simp
    then show ?thesis using Cons.IH [OF _ False] Cons.prems(1) l by simp
  qed
qed simp

lemma find_crlf_line: "cr \<notin> set l \<Longrightarrow> find_crlf (l @ crlf @ s) = Some (length l)"
proof (induction l)
  case (Cons c l)
  then obtain d r where "l @ crlf @ s = d # r" by (cases l) auto
  with Cons show ?case by auto
qed simp

lemma find_eol_line: "cr \<notin> set l \<Longrightarrow> find_eol (l @ crlf @ s) = Some (length l)"
  unfolding find_eol_def find_crlf_line by simp

lemma past_eol_line: "past_eol (l @ crlf @ s) (length l) = s"
  by (simp add: past_eol_def Let_def)

lemma header_lines_msg:
  "\<forall>l \<in> set ls. clean_line l \<Longrightarrow> header_lines (hdr_block ls) st = fold header_line ls st"
proof (induction ls arbitrary: st)
  case Nil
  show ?case by (simp add: header_lines.simps)
next
  case (Cons l ls)
  have c: "cr \<notin> set l" "l \<noteq> []" using Cons.prems by (auto simp: clean_line_def)
  have "header_lines (l @ crlf @ hdr_block ls) st = header_lines (hdr_block ls) (header_line l st)"
    using c(2) find_eol_line [OF c(1), of "hdr_block ls"] past_eol_line [of l "hdr_block ls"]
    by (subst header_lines.simps) simp
  then show ?case using Cons by simp
qed

subsection \<open>Requests\<close>

text \<open>A method and a target of printable characters without spaces, and a clean host.\<close>

definition word_ok :: "string \<Rightarrow> bool" where
  "word_ok w \<longleftrightarrow> w \<noteq> [] \<and> (\<forall>c \<in> set w. c \<noteq> CHR '' '' \<and> c \<noteq> cr \<and> c \<noteq> nl \<and> c \<noteq> nul)"

definition head_lines :: "exo \<Rightarrow> string \<Rightarrow> string \<Rightarrow> bytes \<Rightarrow> bool \<Rightarrow> string list" where
  "head_lines e meth target body json_ct =
     [meth @ CHR '' '' # target @ '' HTTP/1.1'', ''Host: '' @ x_host e @ CHR '':'' # show_int (x_port e), ''Connection: close''] @
     (if body \<noteq> [] then (''Content-Length: '' @ show_nat (length body)) #
        (if json_ct then [''Content-Type: application/json''] else []) else [])"

lemma request_bytes_lines: "request_bytes e meth target body json_ct = hdr_block (head_lines e meth target body json_ct) @ crlf @ body"
  by (simp add: request_bytes_def head_lines_def)

lemma show_nat_clean: "c \<in> set (show_nat n) \<Longrightarrow> c \<noteq> cr \<and> c \<noteq> nl \<and> c \<noteq> nul \<and> c \<noteq> CHR '' ''"
proof -
  assume "c \<in> set (show_nat n)"
  then have "isdigit c" using show_nat_digits by blast
  moreover have "\<not> isdigit cr" "\<not> isdigit nl" "\<not> isdigit nul" "\<not> isdigit (CHR '' '')" by code_simp+
  ultimately show ?thesis by auto
qed

lemma show_int_clean: "c \<in> set (show_int n) \<Longrightarrow> c \<noteq> cr \<and> c \<noteq> nl \<and> c \<noteq> nul \<and> c \<noteq> CHR '' ''"
  using show_nat_clean by (auto simp: show_int_def split: if_splits)

lemma head_lines_clean:
  assumes "word_ok meth" "word_ok target" "word_ok (x_host e)"
  shows "\<forall>l \<in> set (head_lines e meth target body json_ct). clean_line l"
proof -
  have n: "cr \<notin> set (show_nat k)" "nl \<notin> set (show_nat k)" "nul \<notin> set (show_nat k)" for k
    using show_nat_clean by blast+
  have i: "cr \<notin> set (show_int k)" "nl \<notin> set (show_int k)" "nul \<notin> set (show_int k)" for k
    using show_int_clean by blast+
  have w: "cr \<notin> set x" "nl \<notin> set x" "nul \<notin> set x" if "word_ok x" for x
    using that by (auto simp: word_ok_def)
  show ?thesis
    using w [OF assms(1)] w [OF assms(2)] w [OF assms(3)] n i by (auto simp: head_lines_def clean_line_def)
qed

lemma word_drop: "word_ok w \<Longrightarrow> dropWhile (\<lambda>c. c = CHR '' '') (w @ s) = w @ s"
  by (cases w) (auto simp: word_ok_def)

lemma word_take: "word_ok w \<Longrightarrow> takeWhile (\<lambda>c. c \<noteq> CHR '' '') (w @ CHR '' '' # s) = w"
  by (induction w) (auto simp: word_ok_def takeWhile_append)

lemma ci_prefix_simp: "ci_prefix (pre @ s) pre" "length pre = length pre' \<Longrightarrow> ci_prefix (pre @ s) pre' \<longleftrightarrow> map tolower pre = map tolower pre'"
  by (auto simp: ci_prefix_def)

lemma header_line_host: "header_line (''Host: '' @ s) st = st"
  and header_line_conn: "header_line ''Connection: close'' st = st"
  and header_line_len: "n \<le> ULLONG_MAX \<Longrightarrow> header_line (''Content-Length: '' @ show_nat n) (cl, r) = (Some n, r)"
  and header_line_json: "header_line ''Content-Type: application/json'' (cl, r) = (cl, r\<lparr>rjson := True\<rparr>)"
proof -
  have h: "tolower (CHR ''H'') = CHR ''h''" "tolower (CHR ''a'') = CHR ''a''" "tolower (CHR ''c'') = CHR ''c''" by code_simp+
  show "header_line (''Host: '' @ s) st = st"
    using h by (cases st) (auto simp: header_line_def ci_prefix_def)
  show "header_line ''Connection: close'' st = st"
  proof -
    have "\<not> ci_prefix ''Connection: close'' ''content-length:''" "\<not> ci_prefix ''Connection: close'' ''authorization:''"
      "\<not> ci_prefix ''Connection: close'' ''content-type:''" by code_simp+
    then show ?thesis by (cases st) (simp add: header_line_def)
  qed
  have "isspace (CHR '' '')" by code_simp
  then have "strtoull (CHR '' '' # show_nat n) = (n, [])" if "n \<le> ULLONG_MAX"
    using strtoull_show_nat [OF that, of "[]"] show_nat_nonempty [of n]
    by (auto simp: strtoull_def Let_def split: prod.splits if_splits)
  moreover have "ci_prefix (''Content-Length: '' @ show_nat n) ''content-length:''"
  proof -
    have "map tolower ''Content-Length:'' = map tolower ''content-length:''" by code_simp
    then show ?thesis using ci_prefix_simp(2) [of "''Content-Length:''" "''content-length:''" "CHR '' '' # show_nat n"] by simp
  qed
  ultimately show "n \<le> ULLONG_MAX \<Longrightarrow> header_line (''Content-Length: '' @ show_nat n) (cl, r) = (Some n, r)"
    by (simp add: header_line_def)
  show "header_line ''Content-Type: application/json'' (cl, r) = (cl, r\<lparr>rjson := True\<rparr>)"
  proof -
    have "\<not> ci_prefix ''Content-Type: application/json'' ''content-length:''"
      "\<not> ci_prefix ''Content-Type: application/json'' ''authorization:''"
      "ci_prefix ''Content-Type: application/json'' ''content-type:''"
      "has_sub (drop 13 ''Content-Type: application/json'') ''json''" by code_simp+
    then show ?thesis by (simp add: header_line_def)
  qed
qed

text \<open>The request as the server sees it.\<close>

definition sent_request :: "string \<Rightarrow> string \<Rightarrow> bytes \<Rightarrow> bool \<Rightarrow> req" where
  "sent_request meth target body json_ct =
     \<lparr>rmethod = meth, rpath = fst (split_url target), rquery = snd (split_url target), rbody = body,
      rauth = [], rjson = (body \<noteq> [] \<and> json_ct)\<rparr>"

lemma msg_no_nul: "\<forall>l \<in> set ls. clean_line l \<Longrightarrow> nul \<notin> set (hdr_block ls)"
  by (induction ls) (auto simp: clean_line_def)

lemma parse_head_lines:
  assumes ok: "word_ok meth" "word_ok target" "word_ok (x_host e)" and m: "length meth \<le> 15"
    and b: "length body \<le> ULLONG_MAX"
  shows "parse_head (hdr_block (head_lines e meth target body json_ct)) =
    Some (if body \<noteq> [] then Some (length body) else None, sent_request meth target [] False\<lparr>rjson := body \<noteq> [] \<and> json_ct\<rparr>)"
proof -
  define l where "l = meth @ CHR '' '' # target @ '' HTTP/1.1''"
  let ?ls = "tl (head_lines e meth target body json_ct)"
  have clean: "\<forall>l \<in> set (head_lines e meth target body json_ct). clean_line l"
    by (rule head_lines_clean [OF ok])
  have hl: "head_lines e meth target body json_ct = l # ?ls" by (simp add: head_lines_def l_def)
  have m0: "hdr_block (head_lines e meth target body json_ct) = l @ crlf @ hdr_block ?ls" by (subst hl) simp
  have cs: "cstr (l @ crlf @ hdr_block ?ls) = l @ crlf @ hdr_block ?ls"
    using msg_no_nul [OF clean] unfolding m0 by (rule cstr_id)
  have ncr: "cr \<notin> set l" using clean hl by (metis clean_line_def list.set_intros(1))
  have tl: "\<forall>l \<in> set ?ls. clean_line l" using clean hl by (metis list.set_intros(2))
  have tk: "take (length l) (l @ crlf @ hdr_block ?ls) = l" by simp
  have meth: "takeWhile (\<lambda>c. c \<noteq> CHR '' '') l = meth" unfolding l_def by (rule word_take [OF ok(1)])
  have drop1: "dropWhile (\<lambda>c. c = CHR '' '') l = l" unfolding l_def by (rule word_drop [OF ok(1)])
  have tgt: "takeWhile (\<lambda>c. c \<noteq> CHR '' '') (dropWhile (\<lambda>c. c = CHR '' '') (drop (length meth) l)) = target"
    using word_drop [OF ok(2), of "CHR '' '' # ''HTTP/1.1''"] word_take [OF ok(2), of "''HTTP/1.1''"]
    by (simp add: l_def)
  have fold: "fold header_line ?ls (None, r) =
      (if body \<noteq> [] then Some (length body) else None, r\<lparr>rjson := body \<noteq> [] \<and> json_ct\<rparr>)"
    if "\<not> rjson r" for r
    using that header_line_len [OF b] header_line_host [of "x_host e @ CHR '':'' # show_int (x_port e)"]
    by (simp add: head_lines_def header_line_conn header_line_json)
  show ?thesis
    unfolding m0 parse_head_def Let_def cs find_eol_line [OF ncr] past_eol_line option.case tk drop1 meth tgt
      header_lines_msg [OF tl] prod.case_eq_if
    using m by (simp add: fold sent_request_def)
qed

lemma request_of_sent:
  assumes ok: "word_ok meth" "word_ok target" "word_ok (x_host e)" and m: "length meth \<le> 15"
    and b: "length body \<le> MAX_BODY"
    and h: "length (hdr_block (head_lines e meth target body json_ct)) + 2 \<le> MAX_HEADERS - 1"
  shows "request_of (request_bytes e meth target body json_ct) = ReqOk (sent_request meth target body json_ct)"
proof -
  let ?m = "hdr_block (head_lines e meth target body json_ct)"
  have clean: "\<forall>l \<in> set (head_lines e meth target body json_ct). clean_line l"
    by (rule head_lines_clean [OF ok])
  have ne: "head_lines e meth target body json_ct \<noteq> []" by (simp add: head_lines_def)
  obtain k where k: "MAX_HEADERS - 1 = length ?m + 2 + k" using h le_Suc_ex by blast
  have tk: "take (MAX_HEADERS - 1) (?m @ crlf @ body) = ?m @ crlf @ take k body"
    unfolding k by (simp add: numeral_2_eq_2)
  have e: "hdr_from (take (MAX_HEADERS - 1) (?m @ crlf @ body)) 0 = Some (length ?m + 2)"
    unfolding tk using hdr_from_msg [OF clean ne, of _ 0] by simp
  have ub: "length body \<le> ULLONG_MAX" using b by (simp add: MAX_BODY_def ULLONG_MAX_def)
  have tm: "take (length ?m + 2 - 2) (?m @ crlf @ body) = ?m" by simp
  have db: "drop (length ?m + 2) (?m @ crlf @ body) = body" by simp
  show ?thesis
    using b unfolding request_of_def request_bytes_lines e option.case tm db parse_head_lines [OF ok m ub]
    by (auto simp: sent_request_def)
qed

subsection \<open>Replies\<close>

lemma crlf4_append: "crlf4_from xs i = Some e \<Longrightarrow> crlf4_from (xs @ ys) i = Some e"
proof (induction xs arbitrary: i)
  case (Cons c r)
  show ?case
  proof (cases "length r < 3")
    case True
    then consider "r = []" | a where "r = [a]" | a b where "r = [a, b]"
      by (cases r; cases "tl r"; cases "tl (tl r)") auto
    then show ?thesis using Cons.prems by cases (auto split: if_splits)
  next
    case False
    then have "take 4 ((c # r) @ ys) = take 4 (c # r)" by simp
    then show ?thesis using Cons by (auto split: if_splits)
  qed
qed simp

lemma crlf4_skip:
  "crlf4_from xs i = None \<Longrightarrow> k + 3 \<le> length xs \<or> k = 0 \<Longrightarrow>
    crlf4_from (xs @ ys) i = crlf4_from (drop k (xs @ ys)) (i + k)"
proof (induction k arbitrary: xs i)
  case (Suc k)
  then obtain c r where xs: "xs = c # r" by (cases xs) auto
  have "take 4 ((c # r) @ ys) = take 4 (c # r)" using Suc.prems(2) xs by simp
  moreover have "crlf4_from r (Suc i) = None" using Suc.prems(1) xs by (auto split: if_splits)
  moreover have "k + 3 \<le> length r \<or> k = 0" using Suc.prems(2) xs by auto
  ultimately show ?case using Suc.IH [of r "Suc i"] Suc.prems(1) xs by (auto split: if_splits)
qed simp

lemma crlf4_le: "crlf4_from xs i = Some e \<Longrightarrow> e \<le> i + length xs"
proof (induction xs arbitrary: i)
  case (Cons c r)
  have "take 4 (c # r) = [cr, nl, cr, nl] \<Longrightarrow> 3 \<le> length r"
    by (metis One_nat_def add.commute add_le_cancel_left length_Cons length_take list.size(3) min.absorb_iff2
        min.cobounded1 numeral_3_eq_3 numeral_Bit0 plus_1_eq_Suc Suc_le_mono eval_nat_numeral(3) nat_le_linear take_all)
  then show ?case using Cons.prems Cons.IH [of "Suc i"] by (auto split: if_splits)
qed simp

interpretation rs: terminator crlf4_from
  by unfold_locales (rule crlf4_append crlf4_skip crlf4_le; assumption)+

lemma crlf4_prefix: "crlf4_from (xs @ ys) i = Some e \<Longrightarrow> e \<le> i + length xs \<Longrightarrow> crlf4_from xs i = Some e"
proof (induction xs arbitrary: i)
  case Nil
  then show ?case
  proof (cases ys)
    case (Cons c r)
    have "i < e" if "crlf4_from zs i = Some e" for zs i
      using that by (induction zs arbitrary: i) (auto split: if_splits dest: Suc_lessD)
    then show ?thesis using Nil by fastforce
  qed simp
next
  case (Cons c r)
  show ?case
  proof (cases "take 4 ((c # r) @ ys) = [cr, nl, cr, nl]")
    case True
    then have "e = i + 4" using Cons.prems(1) by simp
    then have "3 \<le> length r" using Cons.prems(2) by simp
    then have "take 4 (c # r) = take 4 ((c # r) @ ys)" by simp
    then have "take 4 (c # r) = [cr, nl, cr, nl]" using True by (simp only:)
    then show ?thesis unfolding crlf4_from.simps \<open>e = i + 4\<close> by (simp only: simp_thms if_True)
  next
    case False
    then have "crlf4_from (r @ ys) (i + 1) = Some e"
      using Cons.prems(1) by (simp only: append_Cons crlf4_from.simps if_False)
    then have r: "crlf4_from r (i + 1) = Some e" using Cons.IH Cons.prems(2) by simp
    have "take 4 (c # r) \<noteq> [cr, nl, cr, nl]"
    proof
      assume t: "take 4 (c # r) = [cr, nl, cr, nl]"
      then have "length (take 4 (c # r)) = 4" by simp
      then have "4 \<le> length (c # r)" by simp
      then show False using False t by simp
    qed
    then show ?thesis using r by (simp only: crlf4_from.simps if_False)
  qed
qed

lemma rsp_loop_stream:
  assumes "crlf4_from buf 0 = None" and "[] \<notin> set segs"
    and "crlf4_from (buf @ concat segs) 0 = Some e" and "e \<le> 65536"
  shows "\<exists>h segs'. rsp_loop segs buf = (h, Some e, segs') \<and> h @ concat segs' = buf @ concat segs \<and>
    [] \<notin> set segs' \<and> e \<le> length h"
  using assms
proof (induction segs buf rule: rsp_loop.induct)
  case (1 segs buf)
  have room: "\<not> 65536 \<le> length buf"
    using crlf4_prefix [OF "1.prems"(3)] "1.prems"(1,4) by fastforce
  show ?case
  proof (cases segs)
    case Nil
    then show ?thesis using "1.prems" by simp
  next
    case (Cons s r)
    obtain g segs' where rd: "sock_read segs 4096 = Some (g, segs')" and g: "g \<noteq> []" and "length g \<le> 4096"
      and eq: "g @ concat segs' = s @ concat r" and ne: "[] \<notin> set segs'"
      using sock_read_Cons [of s r 4096] Cons "1.prems"(2) by auto
    note win = rs.window [OF "1.prems"(1), of g, unfolded window_from_def]
    have stream: "buf @ concat segs = (buf @ g) @ concat segs'" using eq Cons by simp
    have step: "rsp_loop segs buf = (case crlf4_from (buf @ g) 0 of
        Some e \<Rightarrow> (buf @ g, Some e, segs') | None \<Rightarrow> rsp_loop segs' (buf @ g))"
      using rd g room unfolding rsp_loop.simps [of segs buf] win [symmetric] by (simp add: Let_def)
    show ?thesis
    proof (cases "crlf4_from (buf @ g) 0")
      case (Some e')
      then have "e' = e" using crlf4_append [OF Some] "1.prems"(3) unfolding stream by simp
      then show ?thesis using step Some stream ne crlf4_le [OF Some] by auto
    next
      case None
      have s3: "crlf4_from ((buf @ g) @ concat segs') 0 = Some e" using "1.prems"(3) unfolding stream .
      from "1.IH" [OF room rd refl g refl refl, unfolded win, OF None None ne s3 "1.prems"(4)]
      have "\<exists>h segs''. rsp_loop segs' (buf @ g) = (h, Some e, segs'') \<and> h @ concat segs'' = (buf @ g) @ concat segs' \<and>
          [] \<notin> set segs'' \<and> e \<le> length h" .
      moreover have "rsp_loop segs buf = rsp_loop segs' (buf @ g)" using step None by simp
      ultimately show ?thesis unfolding stream by (simp only:)
    qed
  qed
qed

lemma rsp_body_stream: "[] \<notin> set segs \<Longrightarrow> rsp_body segs need b = b @ take (nat need) (concat segs)"
proof (induction segs need b rule: rsp_body.induct)
  case (1 segs need b)
  show ?case
  proof (cases "need \<le> 0")
    case True
    then show ?thesis by (simp add: rsp_body.simps)
  next
    case need: False
    show ?thesis
    proof (cases segs)
      case Nil
      then show ?thesis by (simp add: rsp_body.simps [of _ need] sock_read_def)
    next
      case (Cons s r)
      obtain g segs' where rd: "sock_read segs (min (nat need) 4096) = Some (g, segs')"
        and g: "g \<noteq> []" "length g \<le> min (nat need) 4096"
        and eq: "g @ concat segs' = s @ concat r" and ne: "[] \<notin> set segs'"
        using sock_read_Cons [of s r "min (nat need) 4096"] Cons "1.prems" need by auto
      have step: "rsp_body segs need b = rsp_body segs' (need - int (length g)) (b @ g)"
        using rd g(1) need by (subst rsp_body.simps) simp
      have "take (nat need) (concat segs) = g @ take (nat need - length g) (concat segs')"
        using eq Cons g(2) by (simp flip: eq)
      moreover have "nat (need - int (length g)) = nat need - length g" by arith
      ultimately show ?thesis using "1.IH" [OF need rd refl g(1) ne] step by simp
    qed
  qed
qed

text \<open>The header block of a reply, and the reply as the client sees it.\<close>

definition reply_lines :: "resp \<Rightarrow> string list" where
  "reply_lines rs =
     [''HTTP/1.1 '' @ show_int (p_status rs) @ CHR '' '' # status_text (p_status rs),
      ''Content-Type: '' @ ctype_text (p_ctype rs), ''Content-Length: '' @ show_nat (length (p_body rs)),
      ''Connection: close'', ''Access-Control-Allow-Origin: *'',
      ''Access-Control-Allow-Headers: Authorization, Content-Type'',
      ''Access-Control-Allow-Methods: GET, POST, DELETE, OPTIONS'']"

lemma send_response_lines: "send_response rs False = hdr_block (reply_lines rs) @ crlf @ p_body rs"
  by (simp add: send_response_def reply_lines_def)

lemma reply_lines_clean: "\<forall>l \<in> set (reply_lines rs). clean_line l"
proof -
  have n: "cr \<notin> set (show_nat k)" "nl \<notin> set (show_nat k)" "nul \<notin> set (show_nat k)" for k
    using show_nat_clean by blast+
  have i: "cr \<notin> set (show_int k)" "nl \<notin> set (show_int k)" "nul \<notin> set (show_int k)" for k
    using show_int_clean by blast+
  have "cr \<notin> set (status_text k) \<and> nl \<notin> set (status_text k) \<and> nul \<notin> set (status_text k)" for k
    by (simp add: status_text_def)
  moreover have "cr \<notin> set (ctype_text k) \<and> nl \<notin> set (ctype_text k) \<and> nul \<notin> set (ctype_text k)" for k
    by (simp add: ctype_text_def split: ctype.split)
  ultimately show ?thesis using n i by (simp add: reply_lines_def clean_line_def)
qed

lemma split_msg:
  "\<forall>l \<in> set ls. clean_line l \<Longrightarrow> split_on nl (hdr_block ls @ crlf) = map (\<lambda>l. l @ [cr]) ls @ [[cr], []]"
proof (induction ls)
  case (Cons l ls)
  have "nl \<notin> set (l @ [cr])" using Cons.prems by (simp add: clean_line_def)
  from split_on_append [OF this, of "hdr_block ls @ crlf"] Cons show ?case by simp
qed simp

lemma rsp_line_clean: "clean_line l \<Longrightarrow> rsp_line (l @ [cr]) c =
    (if ci_prefix l ''content-length:'' then fst (strtoll (drop 15 l)) else c)"
  by (simp add: rsp_line_def cstr_id clean_line_def)

lemma rsp_clen_reply:
  assumes "int (length (p_body rs)) \<le> LLONG_MAX"
  shows "rsp_clen (hdr_block (reply_lines rs) @ crlf) = int (length (p_body rs))"
proof -
  have t: "tolower (CHR ''H'') = CHR ''h''" "tolower (CHR ''c'') = CHR ''c''" "tolower (CHR ''T'') = CHR ''t''"
    "tolower (CHR ''l'') = CHR ''l''" by code_simp+
  have n1: "\<not> ci_prefix (''HTTP/1.1 '' @ x) ''content-length:''" for x using t by (simp add: ci_prefix_def)
  have n2: "\<not> ci_prefix (''Content-Type: '' @ x) ''content-length:''" for x
    using t by (cases x) (simp_all add: ci_prefix_def)
  have n3: "\<not> ci_prefix ''Connection: close'' ''content-length:''"
    "\<not> ci_prefix ''Access-Control-Allow-Origin: *'' ''content-length:''"
    "\<not> ci_prefix ''Access-Control-Allow-Headers: Authorization, Content-Type'' ''content-length:''"
    "\<not> ci_prefix ''Access-Control-Allow-Methods: GET, POST, DELETE, OPTIONS'' ''content-length:''" by code_simp+
  have y: "ci_prefix (''Content-Length: '' @ x) ''content-length:''" for x
  proof -
    have "map tolower ''Content-Length:'' = map tolower ''content-length:''" by code_simp
    then show ?thesis using ci_prefix_simp(2) [of "''Content-Length:''" "''content-length:''" "CHR '' '' # x"] by simp
  qed
  have v: "fst (strtoll (CHR '' '' # show_nat n)) = int n" if "int n \<le> LLONG_MAX" for n
  proof -
    have "isspace (CHR '' '')" by code_simp
    then have "strtoll (CHR '' '' # show_nat n) = strtoll (show_nat n) \<or> fst (strtoll (show_nat n)) = 0 \<and>
        fst (strtoll (CHR '' '' # show_nat n)) = 0"
      by (auto simp: strtoll_def Let_def split: prod.splits)
    moreover have "strtoll (show_int (int n) @ []) = (int n, [])"
      using that by (intro strtoll_show_int) (auto simp: LLONG_MIN_def)
    ultimately show ?thesis by (auto simp: show_int_def)
  qed
  let ?p = "\<lambda>l. rsp_line (l @ [cr])"
  have p: "?p l c = (if ci_prefix l ''content-length:'' then fst (strtoll (drop 15 l)) else c)"
    if "l \<in> set (reply_lines rs)" for l c using reply_lines_clean that rsp_line_clean by blast
  have "rsp_line [cr] c = c" for c by (simp add: rsp_line_def cstr_def ci_prefix_def)
  then have "rsp_clen (hdr_block (reply_lines rs) @ crlf) = fold ?p (reply_lines rs) (-1)"
    by (simp add: rsp_clen_def split_msg [OF reply_lines_clean] butlast_append fold_map comp_def)
  also have "\<dots> = fold (\<lambda>l c. if ci_prefix l ''content-length:'' then fst (strtoll (drop 15 l)) else c) (reply_lines rs) (-1)"
    using p by (intro fold_cong) auto
  also have "\<dots> = int (length (p_body rs))"
    using v [OF assms] y [of "show_nat (length (p_body rs))"] n1 [of "show_int (p_status rs) @ CHR '' '' # status_text (p_status rs)"]
      n2 [of "ctype_text (p_ctype rs)"]
    by (simp add: reply_lines_def n3)
  finally show ?thesis .
qed

lemma atoi_show:
  assumes "0 \<le> i" and "i < 2 ^ 31" and "rest \<noteq> []" and "\<not> isdigit (hd rest)"
  shows "atoi (show_int i @ rest) = i"
proof -
  have "strtoll (show_int i @ rest) = (i, rest)"
    using assms by (intro strtoll_show_int) (auto simp: LLONG_MIN_def LLONG_MAX_def)
  moreover have "sint (word_of_int i :: u32) = i"
    using assms by (simp add: signed_of_int signed_take_bit_int_eq_self)
  ultimately show ?thesis by (simp add: atoi_def)
qed

lemma read_response_sent:
  assumes ne: "[] \<notin> set segs" and s: "concat segs = send_response rs False"
    and st: "0 \<le> p_status rs" "p_status rs < 2 ^ 31" and b: "length (p_body rs) \<le> EXO_MAX_BODY"
    and h: "length (hdr_block (reply_lines rs)) + 2 \<le> 65536"
  shows "read_response segs = Inr (p_status rs, p_body rs)"
proof -
  let ?m = "hdr_block (reply_lines rs)" and ?b = "p_body rs"
  define e where "e = length ?m + 2"
  have stream: "concat segs = (?m @ crlf) @ ?b" using s send_response_lines by simp
  have "crlf4_from (concat segs) 0 = Some e"
    using crlf4_from_msg [OF reply_lines_clean, of rs ?b 0] unfolding stream e_def by (simp add: reply_lines_def del: msg_simps)
  then obtain hd' segs' where l: "rsp_loop segs [] = (hd', Some e, segs')" and cat: "hd' @ concat segs' = (?m @ crlf) @ ?b"
    and ne': "[] \<notin> set segs'" and le: "e \<le> length hd'"
    using rsp_loop_stream [of "[]" segs e] ne h by (auto simp: stream e_def)
  have tk: "take e hd' = ?m @ crlf"
  proof -
    have "take e (hd' @ concat segs') = take e ((?m @ crlf) @ ?b)" using cat by simp
    then show ?thesis using le by (simp add: e_def)
  qed
  have dr: "drop e hd' @ concat segs' = ?b"
  proof -
    have "drop e (hd' @ concat segs') = drop e ((?m @ crlf) @ ?b)" using cat by simp
    then show ?thesis using le by (simp add: e_def)
  qed
  obtain x where x: "hd' = ''HTTP/1.1 '' @ show_int (p_status rs) @ CHR '' '' # x"
  proof -
    have "hd' = (?m @ crlf) @ drop e hd'" using tk by (metis append_take_drop_id)
    then show ?thesis using that by (simp add: reply_lines_def)
  qed
  have status: "atoi (drop 9 hd') = p_status rs"
  proof -
    have "\<not> isdigit (CHR '' '')" by code_simp
    then show ?thesis using atoi_show [OF st, of "CHR '' '' # x"] by (simp add: x)
  qed
  have eol: "length (takeWhile (\<lambda>c. c \<noteq> nl) hd') > 9" "take 9 hd' = ''HTTP/1.1 ''"
  proof -
    have "nl \<notin> set (show_int (p_status rs))" using show_int_clean by blast
    then have "takeWhile (\<lambda>c. c \<noteq> nl) hd' = ''HTTP/1.1 '' @ show_int (p_status rs) @ CHR '' '' # takeWhile (\<lambda>c. c \<noteq> nl) x"
      by (simp add: x) (subst takeWhile_append2, auto)
    then show "length (takeWhile (\<lambda>c. c \<noteq> nl) hd') > 9" by simp
    show "take 9 hd' = ''HTTP/1.1 ''" by (simp add: x)
  qed
  have len: "\<not> length hd' < 16"
    using le by (simp add: e_def reply_lines_def)
  have clen: "rsp_clen (?m @ crlf) = int (length ?b)"
    using b by (intro rsp_clen_reply) (simp add: EXO_MAX_BODY_def LLONG_MAX_def)
  have body: "(if int (length ?b) > 0 then rsp_body segs' (int (length ?b) - int (length (drop e hd'))) (drop e hd')
      else if int (length ?b) < 0 \<and> length (drop e hd') < EXO_MAX_BODY then rsp_rest segs' (drop e hd') else drop e hd') = ?b"
  proof (cases "?b = []")
    case True
    then show ?thesis using dr by simp
  next
    case False
    have "length ?b = length (drop e hd') + length (concat segs')" using arg_cong [OF dr, of length] by simp
    then have "nat (int (length ?b) - int (length (drop e hd'))) = length (concat segs')" by simp
    then show ?thesis using False dr rsp_body_stream [OF ne'] by simp
  qed
  show ?thesis
    using len eol b unfolding read_response_def l prod.case option.case tk clen body Let_def status by simp
qed

subsection \<open>Reading a JSON object field by field\<close>

definition plain_text :: "string \<Rightarrow> bool" where
  "plain_text s \<longleftrightarrow> (\<forall>c \<in> set s. c \<noteq> quot \<and> c \<noteq> bslash \<and> c \<noteq> nul)"

lemma json_str_loop_text: "plain_text s \<Longrightarrow> json_str_loop (s @ quot # rest) buf = Some (buf @ s, rest)"
proof (induction s arbitrary: buf)
  case (Cons c s)
  then have "json_str_loop (c # (s @ quot # rest)) buf = json_str_loop (s @ quot # rest) (buf @ [c])"
    by (intro json_str_loop_plain) (auto simp: plain_text_def)
  then show ?case using Cons by (simp add: plain_text_def del: json_str_loop.simps)
qed simp

lemma json_parse_text: "plain_text s \<Longrightarrow> json_parse_string (jname s @ rest) = Some (s, rest)"
  by (simp add: json_parse_string_def jname_def json_str_loop_text)

lemma json_skip_ws_at: "c \<noteq> CHR '' '' \<Longrightarrow> c \<noteq> tab \<Longrightarrow> c \<noteq> nl \<Longrightarrow> c \<noteq> cr \<Longrightarrow> json_skip_ws (c # r) = c # r"
  by (simp add: json_skip_ws_def is_ws_def)

text \<open>A field with a string value, and one with a number, in front of the rest.\<close>

lemma field_string:
  assumes n: "plain_text n" and v: "json_parse_string (quot # w) = Some (v, rest)" and f: "plain_text f"
  shows "json_field_loop (jname n @ CHR '':'' # quot # w) f = (if n = f then Some v else json_field_loop rest f)"
proof -
  have cs: "cstr n = n" "cstr f = f" using n f by (auto simp: plain_text_def intro!: cstr_id)
  have p: "json_parse_string (quot # n @ quot # CHR '':'' # quot # w) = Some (n, CHR '':'' # quot # w)"
    using json_parse_text [OF n, of "CHR '':'' # quot # w"] by (simp add: jname_def)
  have sk: "json_skip_value (quot # w) = Some rest"
    using v by (simp add: json_skip_value_def json_skip_ws_at Let_def)
  show ?thesis
    unfolding jname_def append_Cons append_assoc append_Nil
    by (subst json_field_loop.simps) (simp add: json_skip_ws_at p cs v sk)
qed

lemma field_comma: "json_field_loop (CHR '','' # r) f = json_field_loop r f"
  by (subst json_field_loop.simps) (simp add: json_skip_ws_at)

lemma field_end: "json_field_loop (CHR ''}'' # r) f = None"
  by (subst json_field_loop.simps) (simp add: json_skip_ws_at)

lemma show_int_chars': "c \<in> set (show_int i) \<Longrightarrow> isdigit c \<or> c = CHR ''-''"
  using show_nat_digits by (auto simp: show_int_def split: if_splits)

lemma field_number:
  assumes n: "plain_text n" and f: "plain_text f"
  shows "json_field_loop (jname n @ CHR '':'' # show_int i @ ''}'') f = (if n = f then Some (show_int i) else None)"
proof -
  have cs: "cstr n = n" "cstr f = f" using n f by (auto simp: plain_text_def intro!: cstr_id)
  obtain c r where c: "show_int i = c # r" using show_int_nonempty by (cases "show_int i") auto
  have ne: "x \<noteq> quot" "x \<noteq> CHR ''{''" "x \<noteq> CHR ''[''" "x \<noteq> CHR '' ''" "x \<noteq> tab" "x \<noteq> nl" "x \<noteq> cr"
    "x \<noteq> CHR '',''" "x \<noteq> CHR ''}''" "x \<noteq> CHR '']''" if "x \<in> set (show_int i)" for x
    using show_int_chars' [OF that] by (auto simp: isdigit_def less_eq_char_def)
  have p: "json_parse_string (quot # n @ quot # CHR '':'' # c # r @ ''}'') = Some (n, CHR '':'' # c # r @ ''}'')"
    using json_parse_text [OF n, of "CHR '':'' # c # r @ ''}''"] by (simp add: jname_def)
  have tw: "takeWhile (\<lambda>x. x \<noteq> CHR '','' \<and> x \<noteq> CHR ''}'' \<and> x \<noteq> CHR '']'') (show_int i @ ''}'') = show_int i"
    using ne by (subst takeWhile_append2) auto
  have "dropWhile (\<lambda>x. \<not> scalar_end x) (show_int i @ ''}'') = ''}''"
    using ne by (subst dropWhile_append2) (auto simp: scalar_end_def is_ws_def)
  then have sk: "json_skip_value (c # r @ ''}'') = Some ''}''"
    using ne c by (simp add: json_skip_value_def json_skip_ws_at Let_def)
  have ws: "json_skip_ws (c # r @ ''}'') = c # r @ ''}''" using ne c by (intro json_skip_ws_at) auto
  have q: "c \<noteq> quot" using ne c by auto
  have tw': "takeWhile (\<lambda>x. x \<noteq> CHR '','' \<and> x \<noteq> CHR ''}'' \<and> x \<noteq> CHR '']'') (c # r @ ''}'') = show_int i"
    using tw c by simp
  show ?thesis
    unfolding jname_def append_Cons append_assoc append_Nil c
    by (subst json_field_loop.simps)
      (simp add: json_skip_ws_at p cs ws q sk field_end tw' [unfolded c] del: takeWhile.simps)
qed

lemma persist_fields:
  assumes key: "plain_text key" and v: "\<forall>cp \<in> set cps. scalar_value cp" "v = concat (map utf8_encode cps)"
  shows "json_field (persist_body key v ttl) ''key'' = Some key"
    and "json_field (persist_body key v ttl) ''value'' = Some v"
    and "json_field (persist_body key v ttl) ''ttl'' = Some (show_int ttl)"
    and "json_field (persist_body key v ttl) ''append'' = None"
proof -
  let ?num = "jname ''ttl'' @ CHR '':'' # show_int ttl @ ''}''"
  let ?val = "jname ''value'' @ CHR '':'' # quot # json_escape_u v @ quot # CHR '','' # ?num"
  have names: "plain_text ''key''" "plain_text ''value''" "plain_text ''ttl''" "plain_text ''append''"
    by (simp_all add: plain_text_def)
  have body: "persist_body key v ttl =
      CHR ''{'' # jname ''key'' @ CHR '':'' # quot # key @ quot # CHR '','' # ?val"
    by (simp add: persist_body_def jname_def)
  have kp: "json_parse_string (quot # key @ quot # CHR '','' # ?val) = Some (key, CHR '','' # ?val)"
    using json_parse_text [OF key, of "CHR '','' # ?val"] by (simp add: jname_def)
  have vp: "json_parse_string (quot # json_escape_u v @ quot # CHR '','' # ?num) = Some (v, CHR '','' # ?num)"
    by (rule json_parse_escape_u [OF v])
  have f: "json_field (persist_body key v ttl) g =
      (if g = ''key'' then Some key else if g = ''value'' then Some v
       else if g = ''ttl'' then Some (show_int ttl) else None)" if "plain_text g" for g
    unfolding body json_field_def
    using field_string [OF names(1) kp that] field_string [OF names(2) vp that] field_number [OF names(3) that, of ttl]
    by (simp add: json_skip_ws_at field_comma eq_commute [of _ g])
  show "json_field (persist_body key v ttl) ''key'' = Some key" "json_field (persist_body key v ttl) ''value'' = Some v"
    "json_field (persist_body key v ttl) ''ttl'' = Some (show_int ttl)" "json_field (persist_body key v ttl) ''append'' = None"
    using f [OF names(1)] f [OF names(2)] f [OF names(3)] f [OF names(4)] by simp_all
qed

subsection \<open>A persist, end to end\<close>

text \<open>The server as a network: requests and replies arrive cut into segments in any way.\<close>

definition segmentation :: "(bytes \<Rightarrow> bytes list) \<Rightarrow> bool" where
  "segmentation segs \<longleftrightarrow> (\<forall>b. [] \<notin> set (segs b) \<and> concat (segs b) = b)"

definition wire_net :: "conf \<Rightarrow> (nat \<Rightarrow> world) \<Rightarrow> (bytes \<Rightarrow> bytes list) \<Rightarrow> (bytes \<Rightarrow> bytes list) \<Rightarrow> srv net" where
  "wire_net c ws segs segs' req a =
     (case http_handle_conn c [] None 0 (segs req) ws a of
        None \<Rightarrow> (Inr [], a)
      | Some (a', rt, rs, head) \<Rightarrow> (Inr (segs' (send_response rs head)), a'))"

definition key_word :: "string \<Rightarrow> bool" where
  "key_word k \<longleftrightarrow> k \<noteq> [] \<and> length k \<le> 400 \<and>
     (\<forall>c \<in> set k. c \<noteq> CHR '' '' \<and> c \<noteq> cr \<and> c \<noteq> nl \<and> c \<noteq> nul \<and> c \<noteq> quot \<and> c \<noteq> bslash)"

lemma key_word_plain: "key_word k \<Longrightarrow> plain_text k"
  by (auto simp: key_word_def plain_text_def)

lemma split_set: "key_word k \<Longrightarrow> split_url (''/set?key='' @ k) = (''/set'', ''key='' @ k)"
  by (auto simp: split_url_def key_word_def)

lemma show_nat_len: "n < 10 ^ d \<Longrightarrow> 0 < d \<Longrightarrow> length (show_nat n) \<le> d"
proof (induction d arbitrary: n)
  case (Suc d)
  show ?case
  proof (cases "n < 10")
    case True
    then show ?thesis by (subst show_nat.simps) simp
  next
    case False
    then have "d \<noteq> 0" using Suc.prems(1) by (cases d) auto
    moreover have "n div 10 < 10 ^ d" using Suc.prems(1) by (simp add: less_mult_imp_div_less mult.commute)
    ultimately have "length (show_nat (n div 10)) \<le> d" using Suc.IH by simp
    then show ?thesis using False by (subst show_nat.simps) simp
  qed
qed simp

lemma show_int_len: "\<bar>i\<bar> < 10 ^ d \<Longrightarrow> 0 < d \<Longrightarrow> length (show_int i) \<le> Suc d"
  using show_nat_len [of "nat \<bar>i\<bar>" d] by (auto simp: show_int_def nat_less_iff abs_if split: if_splits)

text \<open>A request that a client sends reaches the routes and their reply reaches the client.\<close>

lemma wire_request:
  assumes host: "word_ok (x_host e)" "length (x_host e) \<le> 255" "0 \<le> x_port e" "x_port e \<le> 65535"
    and meth: "meth \<in> set [''GET'', ''POST'', ''DELETE'']"
    and tg: "word_ok target" "length target \<le> 1024" "strip_module (fst (split_url target)) = fst (split_url target)"
    and b: "length body \<le> MAX_BODY"
    and rt: "route c None (sent_request meth target body j) ws a = Some (a', rs)"
    and rs: "0 \<le> p_status rs" "p_status rs < 1000" "length (p_body rs) \<le> EXO_MAX_BODY"
    and sg: "segmentation segs" "segmentation segs'"
  shows "exo_request (wire_net c ws segs segs') e meth target body j a = (Inr (p_status rs, p_body rs), a')"
proof -
  let ?rq = "request_bytes e meth target body j"
  have words: "word_ok meth" "length meth \<le> 15" using meth by (auto simp: word_ok_def)
  have "length (show_nat (length body)) \<le> 8"
    using b by (intro show_nat_len) (simp_all add: MAX_BODY_def)
  moreover have "length (show_int (x_port e)) \<le> 6" using host(3,4) show_int_len [of "x_port e" 5] by simp
  ultimately have "length (hdr_block (head_lines e meth target body j)) + 2 \<le> MAX_HEADERS - 1"
    using host(2) tg(2) words(2) by (simp add: head_lines_def MAX_HEADERS_def)
  note ro = request_of_sent [OF words(1) tg(1) host(1) words(2) b this]
  have sq: "[] \<notin> set (segs q)" "concat (segs q) = q" "[] \<notin> set (segs' q)" "concat (segs' q) = q" for q
    using sg by (auto simp: segmentation_def)
  have req: "read_request (segs ?rq) = ReqOk (sent_request meth target body j)"
    by (simp only: read_request_stream [OF sq(1)] sq(2) ro)
  obtain rq where rq: "rq = sent_request meth target body j" by simp
  have sr: "rmethod rq = meth" "rpath rq = fst (split_url target)" "rauth rq = []"
    by (simp_all add: rq sent_request_def)
  have same: "rq\<lparr>rpath := strip_module (rpath rq)\<rparr> = rq" using sr(2) tg(3) by (cases rq) simp
  have conn: "http_handle_conn c [] None 0 (segs ?rq) ws a = Some (a', None, rs, False)"
    unfolding http_handle_conn_def req [folded rq] using rt [folded rq] meth sr same
    by (auto simp: auth_ok_def)
  have "length (show_nat (length (p_body rs))) \<le> 8"
    using rs(3) by (intro show_nat_len) (simp_all add: EXO_MAX_BODY_def)
  moreover have "length (show_int (p_status rs)) \<le> 4" using rs(1,2) show_int_len [of "p_status rs" 3] by simp
  moreover have "length (status_text (p_status rs)) \<le> 30" by (simp add: status_text_def)
  moreover have "length (ctype_text (p_ctype rs)) \<le> 40" by (simp add: ctype_text_def split: ctype.split)
  ultimately have "length (hdr_block (reply_lines rs)) + 2 \<le> 65536" by (simp add: reply_lines_def)
  then have "read_response (segs' (send_response rs False)) = Inr (p_status rs, p_body rs)"
    using rs by (intro read_response_sent sq) simp_all
  then show ?thesis by (simp add: exo_request_def wire_net_def conn)
qed

lemma persist_served:
  assumes host: "word_ok (x_host e)" "length (x_host e) \<le> 255" "0 \<le> x_port e" "x_port e \<le> 65535"
    and key: "key_word key" and v: "\<forall>cp \<in> set cps. scalar_value cp" "v = concat (map utf8_encode cps)" "nul \<notin> set v"
    and sz: "length v \<le> MAX_VAL" "length (persist_body key v ttl) \<le> MAX_BODY"
    and ttl: "LLONG_MIN \<le> ttl" "ttl \<le> LLONG_MAX"
    and sim: "sim t0 (a_main a) m" "t0 \<le> t" "int64 t" and proj: "a_proj a = None"
    and sg: "segmentation segs" "segmentation segs'"
  shows "\<exists>a'. client_persist (wire_net c (\<lambda>_. healthy t) segs segs') e key v ttl a = (None, a') \<and>
      sim t (a_main a') (m(key \<mapsto> (v, t, if clamp_ttl ttl \<noteq> 0 then t + clamp_ttl ttl * 1000 else 0))) \<and>
      a' = a\<lparr>a_main := a_main a'\<rparr>"
proof -
  let ?b = "persist_body key v ttl" and ?tg = "''/set?key='' @ key"
  let ?s = "fst (store_set (a_main a) key v ttl False (healthy t))"
  let ?a = "a\<lparr>a_main := ?s\<rparr>"
  have tk: "take 511 ?tg = ?tg" using key by (simp add: key_word_def)
  have tg: "word_ok ?tg" "length ?tg \<le> 1024" using key by (auto simp: word_ok_def key_word_def)
  have bne: "?b \<noteq> []" by (simp add: persist_body_def)
  obtain rq where rq: "rq = sent_request ''POST'' ?tg ?b True" by simp
  have sr: "rmethod rq = ''POST''" "rpath rq = ''/set''" "rquery rq = ''key='' @ key" "rbody rq = ?b" "rauth rq = []" "rjson rq"
    unfolding rq sent_request_def split_set [OF key] using bne by simp_all
  have "strtoll (show_int ttl @ []) = (ttl, [])" using ttl by (intro strtoll_show_int) auto
  then have st: "strtoll (show_int ttl) = (ttl, [])" by simp
  have ni: "nul \<notin> set (show_int ttl)" using show_int_clean by blast
  have nk: "nul \<notin> set key" using key by (auto simp: key_word_def)
  note fields = persist_fields [OF key_word_plain [OF key] v(1,2), of ttl]
  have args: "set_args_of rq = Some \<lparr>sa_key = Some key, sa_val = v, sa_ttl = ttl, sa_app = False\<rparr>"
    using key bne by (simp add: set_args_of_def set_json_def sr fields cstr_id ni nk v(3) st key_word_def MAX_KEY_def Let_def)
  have ko: "key_ok key" using key by (simp add: key_word_def key_ok_def MAX_KEY_def)
  have "sim t (a_main a) m" using sim(1,2) by (rule sim_mono)
  then obtain rs where inv: "store_inv t rs (a_main a)" by (auto simp: sim_def)
  have rc: "snd (store_set (a_main a) key v ttl False (healthy t)) = 0"
    using sz(1) sim(3) by (intro store_set_ok(1) [OF inv ko]) (simp_all add: set_value_def)
  have "key \<noteq> []" "\<not> MAX_KEY < length key" using ko by (auto simp: key_ok_def)
  then have set: "do_set None rq (\<lambda>_. healthy t) a = (?a, plain 200 ''ok'')"
    using sz(1) rc proj
    by (simp add: do_set_def sr args tok_can_write_def tok_allows_key_def pick_store_def pick_proj_def srv_set_def use_main
        case_prod_unfold Let_def)
  have "route c None rq (\<lambda>_. healthy t) a = Some (?a, plain 200 ''ok'')"
    by (simp add: route_def sr set)
  from wire_request [OF host _ tg _ sz(2) this [unfolded rq] _ _ _ sg]
  have "exo_request (wire_net c (\<lambda>_. healthy t) segs segs') e ''POST'' ?tg ?b True a = (Inr (200, ''ok''), ?a)"
    by (simp only: split_set [OF key]) (simp add: plain_def EXO_MAX_BODY_def strip_module_def)
  then have "client_persist (wire_net c (\<lambda>_. healthy t) segs segs') e key v ttl a = (None, ?a)"
    unfolding client_persist_def tk by simp
  moreover have "sim t ?s (spec_cmd t (CSet key v ttl False) m)"
    using exec_sim [OF sim, of "CSet key v ttl False"] sz(1) by (simp add: spec_value_def)
  then have "sim t (a_main ?a) (m(key \<mapsto> (v, t, if clamp_ttl ttl \<noteq> 0 then t + clamp_ttl ttl * 1000 else 0)))"
    using ko sz(1) by (simp add: spec_value_def)
  ultimately show ?thesis by auto
qed

text \<open>A get over the wire: the bytes of the value, or the status 404.\<close>

lemma get_served:
  assumes host: "word_ok (x_host e)" "length (x_host e) \<le> 255" "0 \<le> x_port e" "x_port e \<le> 65535"
    and tg: "word_ok target" "length target \<le> 1024" "split_url target = (''/get'', q)" "qp_key q = KKey key"
    and key: "take 2 key \<noteq> ''p:''" "key \<noteq> []" and sim: "sim t0 (a_main a) m" "t0 \<le> t" "int64 t"
    and live: "view (a_main a) t key = Some (v, x)"
    and sz: "length v \<le> EXO_MAX_BODY" and proj: "a_proj a = None"
    and sg: "segmentation segs" "segmentation segs'"
  shows "\<exists>a'. exo_request (wire_net c (\<lambda>_. healthy t) segs segs') e ''GET'' target [] False a = (Inr (200, v), a') \<and>
      sim t (a_main a') m \<and> a' = a\<lparr>a_main := a_main a'\<rparr>"
proof -
  obtain rq where rq: "rq = sent_request ''GET'' target [] False" by simp
  have sr: "rmethod rq = ''GET''" "rpath rq = ''/get''" "rquery rq = q" by (simp_all add: rq sent_request_def tg(3))
  let ?a = "a\<lparr>a_main := fst (store_get (a_main a) key t)\<rparr>"
  have g: "snd (store_get (a_main a) key t) = Some (v, fst x)"
    using live by (simp add: store_get_view split: prod.split)
  have "do_get None rq (\<lambda>_. healthy t) a = (?a, plain 200 v)"
    using g proj by (simp add: do_get_def with_key_def sr tg(4) key tok_allows_key_def pick_store_def pick_proj_def srv_get_def
        use_main case_prod_unfold Let_def)
  then have "route c None rq (\<lambda>_. healthy t) a = Some (?a, plain 200 v)" by (simp add: route_def sr)
  from wire_request [OF host _ tg(1,2) _ _ this [unfolded rq] _ _ _ sg]
  have r: "exo_request (wire_net c (\<lambda>_. healthy t) segs segs') e ''GET'' target [] False a = (Inr (200, v), ?a)"
    using sz by (simp add: tg(3) plain_def MAX_BODY_def strip_module_def)
  have "sim t (fst (store_get (a_main a) key t)) m" using exec_sim [OF sim, of "CGet key"] by simp
  then show ?thesis using r by auto
qed

end
