(* ===== verification/Exo_Schedule.thy ===== *)
theory Exo_Schedule
  imports Exo_Text
begin

unbundle bit_operations_syntax

text \<open>
  The plain-text schedule parser of exosched (\<open>exosched/src/schedule.c\<close>). The cursor \<open>p\<close> and
  the limit \<open>end\<close> are the rest of the body; the body is NUL-terminated after its \<open>len\<close> bytes.
  \<open>now_epoch\<close> is read at most once in a parse and is an argument. Each error message of the
  source is a constructor of \<open>sched_err\<close>. The product of count and unit is computed in 64 bits;
  where it overflows, which C leaves undefined, the model wraps around.
\<close>

datatype sched_err =
    ExpectedNumber | MissingUnit | UnknownUnit char | DurationRange
  | ExpectedEpoch | EpochRange | InPast
  | ExpectedUntilEpoch | UntilRange
  | BadForm | TooLong | Unterminated | GarbageAfterUntil | GarbageAfterQuote
  | UntilNeedsQuote | MissingMessage | UntilBeforeFire

record sched =
  s_fire :: int
  s_repeat :: int
  s_until :: int
  s_receipt :: bool
  s_msg :: bytes

definition MAX_DURATION :: int where "MAX_DURATION = 315360000"
definition MAX_EPOCH :: int where "MAX_EPOCH = 4102444800"
definition MAX_MSG :: nat where "MAX_MSG = 64 * 1024"

definition wrap64 :: "int \<Rightarrow> int" where
  "wrap64 i = sint (word_of_int i :: u64)"

definition sws :: "char \<Rightarrow> bool" where
  "sws c \<longleftrightarrow> c = CHR '' '' \<or> c = tab \<or> c = cr \<or> c = nl"

definition skip_ws :: "string \<Rightarrow> string" where
  "skip_ws p = dropWhile sws p"

definition trim_tail :: "string \<Rightarrow> string" where
  "trim_tail s = rev (dropWhile sws (rev (cstr s)))"

definition unit_mult :: "char \<Rightarrow> int option" where
  "unit_mult u =
     (if u = CHR ''s'' then Some 1 else if u = CHR ''m'' then Some 60
      else if u = CHR ''h'' then Some 3600 else if u = CHR ''d'' then Some 86400 else None)"

definition parse_duration :: "string \<Rightarrow> sched_err + int \<times> string" where
  "parse_duration p =
     (let ds = takeWhile isdigit p
      in if ds = [] then Inl ExpectedNumber
         else (case dropWhile isdigit p of
                 [] \<Rightarrow> Inl MissingUnit
               | u # r \<Rightarrow>
                   (case unit_mult u of
                      None \<Rightarrow> Inl (UnknownUnit u)
                    | Some mul \<Rightarrow>
                        let n = fst (strtoll p)
                        in if n \<le> 0 \<or> wrap64 (n * mul) > MAX_DURATION then Inl DurationRange
                           else Inr (wrap64 (n * mul), r))))"

definition parse_in :: "string \<Rightarrow> int \<Rightarrow> sched_err + int \<times> string" where
  "parse_in p now =
     (case parse_duration p of Inl e \<Rightarrow> Inl e | Inr (secs, r) \<Rightarrow> Inr (now + secs, r))"

definition at_span :: "string \<Rightarrow> string" where
  "at_span p = (case p of [] \<Rightarrow> [] | c # r \<Rightarrow> if c = CHR ''-'' then c # takeWhile isdigit r else takeWhile isdigit p)"

definition parse_at :: "string \<Rightarrow> int \<Rightarrow> sched_err + int \<times> string" where
  "parse_at p now =
     (let sp = at_span p
      in if sp = [] then Inl ExpectedEpoch
         else let epoch = fst (strtoll p)
              in if epoch < 0 \<or> epoch > MAX_EPOCH then Inl EpochRange
                 else if epoch < now then Inl InPast
                 else Inr (epoch, drop (length sp) p))"

text \<open>Interval, first fire and the rest.\<close>

definition parse_every :: "string \<Rightarrow> int \<Rightarrow> sched_err + int \<times> int \<times> string" where
  "parse_every p now =
     (case parse_duration p of Inl e \<Rightarrow> Inl e | Inr (secs, r) \<Rightarrow> Inr (secs, now + secs, r))"

definition parse_until :: "string \<Rightarrow> int \<Rightarrow> sched_err + int \<times> string" where
  "parse_until p0 until0 =
     (let p = skip_ws p0
      in if take 5 p = ''until'' then
           let q = skip_ws (drop 5 p); ds = takeWhile isdigit q
           in if ds = [] then Inl ExpectedUntilEpoch
              else let epoch = fst (strtoll q)
                   in if epoch \<le> 0 \<or> epoch > MAX_EPOCH then Inl UntilRange
                      else Inr (epoch, dropWhile isdigit q)
         else Inr (until0, p))"

text \<open>\<open>None\<close>: something else follows; otherwise the receipt flag.\<close>

definition trailing_receipt :: "string \<Rightarrow> bool option" where
  "trailing_receipt p0 =
     (let p = skip_ws p0
      in if p = [] then Some False else if p = ''receipt=1'' then Some True else None)"

text \<open>The loop over the quoted message, past the opening quote.\<close>

fun quoted_loop :: "string \<Rightarrow> bytes \<Rightarrow> sched_err + bytes \<times> string" where
  "quoted_loop [] b = Inl Unterminated"
| "quoted_loop (c # r) b =
     (if c = quot then Inr (b, r)
      else (case r of
              e # r' \<Rightarrow>
                if c = bslash then
                  (if e = quot \<or> e = bslash then quoted_loop r' (b @ [e]) else quoted_loop r' (b @ [c, e]))
                else if length b + 1 > MAX_MSG then Inl TooLong
                else quoted_loop r (b @ [c])
            | [] \<Rightarrow> if length b + 1 > MAX_MSG then Inl TooLong else quoted_loop r (b @ [c])))"

text \<open>The three forms: interval, fire time and the rest.\<close>

definition sched_head :: "string \<Rightarrow> int \<Rightarrow> sched_err + int \<times> int \<times> string" where
  "sched_head p now =
     (if take 5 p = ''every'' \<and> (length p = 5 \<or> p ! 5 = CHR '' '' \<or> p ! 5 = tab)
      then parse_every (skip_ws (drop 5 p)) now
      else if take 2 p = ''in'' then
        (case parse_in (skip_ws (drop 2 p)) now of Inl e \<Rightarrow> Inl e | Inr (f, r) \<Rightarrow> Inr (0, f, r))
      else if take 2 p = ''at'' then
        (case parse_at (skip_ws (drop 2 p)) now of Inl e \<Rightarrow> Inl e | Inr (f, r) \<Rightarrow> Inr (0, f, r))
      else Inl BadForm)"

text \<open>What follows the closing quote: the until epoch and the receipt flag.\<close>

definition parse_tail :: "string \<Rightarrow> int \<Rightarrow> sched_err + int \<times> bool" where
  "parse_tail p0 repeat =
     (let p = skip_ws p0
      in if p = [] then Inr (0, False)
         else if repeat > 0 \<and> take 5 p = ''until'' \<and> (length p = 5 \<or> p ! 5 = CHR '' '' \<or> p ! 5 = tab) then
           (case parse_until p 0 of
              Inl e \<Rightarrow> Inl e
            | Inr (u, r) \<Rightarrow> (case trailing_receipt r of None \<Rightarrow> Inl GarbageAfterUntil | Some rc \<Rightarrow> Inr (u, rc)))
         else (case trailing_receipt p of None \<Rightarrow> Inl GarbageAfterQuote | Some rc \<Rightarrow> Inr (0, rc)))"

definition parse_plain :: "string \<Rightarrow> int \<Rightarrow> sched_err + bytes \<times> bool" where
  "parse_plain p repeat =
     (if repeat > 0 \<and> take 5 p = ''until'' then Inl UntilNeedsQuote
      else if p = [] then Inl MissingMessage
      else if length p > MAX_MSG then Inl TooLong
      else let m = trim_tail p
           in if m = [] then Inl MissingMessage
              else Inr (m, dropWhile isspace p = ''receipt=1''))"

definition parse_schedule :: "string \<Rightarrow> int \<Rightarrow> sched_err + sched" where
  "parse_schedule body now =
     (case sched_head (skip_ws body) now of
        Inl e \<Rightarrow> Inl e
      | Inr (repeat, fire, r) \<Rightarrow>
          (let p = skip_ws r;
               res = (if p \<noteq> [] \<and> hd p = quot then
                        (case quoted_loop (tl p) [] of
                           Inl e \<Rightarrow> Inl e
                         | Inr (b, q) \<Rightarrow>
                             (case parse_tail q repeat of
                                Inl e \<Rightarrow> Inl e
                              | Inr (u, rc) \<Rightarrow> Inr (cstr b, u, rc)))
                      else (case parse_plain p repeat of
                              Inl e \<Rightarrow> Inl e
                            | Inr (m, rc) \<Rightarrow> Inr (m, 0, rc)))
           in (case res of
                 Inl e \<Rightarrow> Inl e
               | Inr (m, u, rc) \<Rightarrow>
                   if repeat > 0 \<and> u > 0 \<and> u < fire then Inl UntilBeforeFire
                   else Inr \<lparr>s_fire = fire, s_repeat = repeat, s_until = u, s_receipt = rc, s_msg = m\<rparr>)))"

subsection \<open>What an accepted schedule satisfies\<close>

lemma strtoll_bounds: "fst (strtoll s) \<le> LLONG_MAX" "LLONG_MIN \<le> fst (strtoll s)"
  using clamp_ll_bounds by (auto simp: strtoll_def Let_def split_beta LLONG_MIN_def LLONG_MAX_def split: list.split)

lemma wrap64_id: "- (2 ^ 63) \<le> i \<Longrightarrow> i < 2 ^ 63 \<Longrightarrow> wrap64 i = i"
  by (simp add: wrap64_def sint_sbintrunc' signed_take_bit_int_eq_self_iff)

lemma unit_mult_bounds: "unit_mult u = Some m \<Longrightarrow> 1 \<le> m \<and> m \<le> 86400"
  by (auto simp: unit_mult_def split: if_split_asm)

text \<open>Counts of up to fourteen digits cannot overflow with any unit.\<close>

lemma parse_duration_range:
  assumes d: "parse_duration p = Inr (secs, r)" and small: "fst (strtoll p) < 10 ^ 14"
  shows "1 \<le> secs \<and> secs \<le> MAX_DURATION"
proof -
  let ?n = "fst (strtoll p)"
  obtain u m where m: "unit_mult u = Some m" "0 < ?n" "secs = wrap64 (?n * m)" "wrap64 (?n * m) \<le> MAX_DURATION"
    using d by (auto simp: parse_duration_def Let_def split: if_split_asm list.split_asm option.split_asm)
  have b: "1 \<le> m" "m \<le> 86400" using unit_mult_bounds [OF m(1)] by auto
  have lo: "1 * 1 \<le> ?n * m" using m(2) b(1) by (intro mult_mono) auto
  have hi: "?n * m \<le> 10 ^ 14 * 86400" using small m(2) b by (intro mult_mono) auto
  have "wrap64 (?n * m) = ?n * m" using lo hi by (intro wrap64_id) auto
  then show ?thesis using m lo by simp
qed

lemma sched_head_shape:
  assumes "sched_head p now = Inr (repeat, fire, r)"
  shows "(\<exists>q. parse_duration q = Inr (repeat, r) \<and> fire = now + repeat) \<or>
    (repeat = 0 \<and> (\<exists>q secs. parse_duration q = Inr (secs, r) \<and> fire = now + secs)) \<or>
    (repeat = 0 \<and> now \<le> fire \<and> 0 \<le> fire \<and> fire \<le> MAX_EPOCH)"
  using assms
  by (auto simp: sched_head_def parse_every_def parse_in_def parse_at_def Let_def
      split: if_split_asm sum.split_asm prod.split_asm)

lemma parse_tail_until:
  assumes "parse_tail p repeat = Inr (u, rc)"
  shows "u = 0 \<or> (0 < repeat \<and> 0 < u \<and> u \<le> MAX_EPOCH)"
proof -
  have "parse_until q 0 = Inr (v, r) \<Longrightarrow> v = 0 \<or> (0 < v \<and> v \<le> MAX_EPOCH)" for q v r
    by (auto simp: parse_until_def Let_def split: if_split_asm)
  then show ?thesis
    using assms
    by (auto simp: parse_tail_def Let_def split: if_split_asm sum.split_asm prod.split_asm option.split_asm)
qed

lemma parse_schedule_until:
  assumes "parse_schedule body now = Inr s"
  shows "s_until s = 0 \<or> (0 < s_repeat s \<and> s_fire s \<le> s_until s \<and> s_until s \<le> MAX_EPOCH)"
  using assms
  by (auto simp: parse_schedule_def Let_def split: sum.split_asm prod.split_asm if_split_asm
      dest!: parse_tail_until)

lemma parse_schedule_head:
  assumes "parse_schedule body now = Inr s"
  shows "\<exists>r. sched_head (skip_ws body) now = Inr (s_repeat s, s_fire s, r)"
  using assms
  by (auto simp: parse_schedule_def Let_def split: sum.split_asm prod.split_asm if_split_asm)

lemma parse_duration_repeat_nonneg_count: "parse_duration p = Inr (secs, r) \<Longrightarrow> 0 < fst (strtoll p)"
  by (auto simp: parse_duration_def Let_def split: if_split_asm list.split_asm option.split_asm)

subsection \<open>Round trip through the quoted form\<close>

definition quote_char :: "char \<Rightarrow> string" where
  "quote_char c = (if c = quot \<or> c = bslash then [bslash, c] else [c])"

lemma quoted_loop_plain:
  "c \<noteq> quot \<Longrightarrow> c \<noteq> bslash \<Longrightarrow> length b < MAX_MSG \<Longrightarrow> quoted_loop (c # r) b = quoted_loop r (b @ [c])"
  by (cases r) auto

lemma quoted_loop_quote:
  "length b + length m \<le> MAX_MSG \<Longrightarrow>
   quoted_loop (concat (map quote_char m) @ quot # rest) b = Inr (b @ m, rest)"
proof (induction m arbitrary: b)
  case (Cons c m)
  show ?case
  proof (cases "c = quot \<or> c = bslash")
    case False
    then have "quoted_loop (concat (map quote_char (c # m)) @ quot # rest) b =
        quoted_loop (c # concat (map quote_char m) @ quot # rest) b"
      by (simp add: quote_char_def del: quoted_loop.simps)
    also have "\<dots> = quoted_loop (concat (map quote_char m) @ quot # rest) (b @ [c])"
      using False Cons.prems by (intro quoted_loop_plain) auto
    finally show ?thesis using Cons by simp
  qed (use Cons in \<open>auto simp: quote_char_def\<close>)
qed simp

definition format_every :: "nat \<Rightarrow> bytes \<Rightarrow> int \<Rightarrow> bool \<Rightarrow> string" where
  "format_every n msg until receipt =
     ''every '' @ show_nat n @ ''s '' @ [quot] @ concat (map quote_char msg) @ [quot] @
     (if until > 0 then '' until '' @ show_int until else []) @ (if receipt then '' receipt=1'' else [])"

lemma skip_ws_no: "\<not> sws c \<Longrightarrow> skip_ws (c # r) = c # r"
  by (simp add: skip_ws_def)

lemma digit_not_sws: "isdigit c \<Longrightarrow> \<not> sws c"
  by (auto simp: isdigit_def sws_def less_eq_char_def)

lemma skip_ws_digits: "skip_ws (show_nat n @ r) = show_nat n @ r"
  using show_nat_hd_digit [of n] digit_not_sws by (auto simp: skip_ws_def)

lemma strtoll_nat:
  assumes "int n \<le> LLONG_MAX" "r = [] \<or> \<not> isdigit (hd r)"
  shows "strtoll (show_nat n @ r) = (int n, r)"
  using strtoll_show_int [of "int n" r] assms by (simp add: show_int_def LLONG_MIN_def)

lemma parse_duration_secs:
  assumes n: "0 < n" "int n \<le> MAX_DURATION"
  shows "parse_duration (show_nat n @ CHR ''s'' # r) = Inr (int n, r)"
proof -
  have nd: "\<not> isdigit (CHR ''s'')" by code_simp
  have t: "takeWhile isdigit (show_nat n @ CHR ''s'' # r) = show_nat n"
    "dropWhile isdigit (show_nat n @ CHR ''s'' # r) = CHR ''s'' # r"
    by (rule take_digits; simp add: nd)+
  have s: "strtoll (show_nat n @ CHR ''s'' # r) = (int n, CHR ''s'' # r)"
    using n by (intro strtoll_nat) (simp_all add: nd MAX_DURATION_def LLONG_MAX_def)
  have w: "wrap64 (int n) = int n" using n by (intro wrap64_id) (simp_all add: MAX_DURATION_def)
  show ?thesis using n by (simp add: parse_duration_def Let_def t s unit_mult_def w)
qed

lemma sched_head_every:
  assumes n: "0 < n" "int n \<le> MAX_DURATION"
  shows "sched_head (''every '' @ show_nat n @ CHR ''s'' # r) now = Inr (int n, now + int n, r)"
proof -
  have "skip_ws (CHR '' '' # show_nat n @ CHR ''s'' # r) = show_nat n @ CHR ''s'' # r"
    using skip_ws_digits [of n] by (simp add: skip_ws_def sws_def)
  then show ?thesis using parse_duration_secs [OF n] by (simp add: sched_head_def parse_every_def)
qed

lemma parse_tail_format:
  assumes u: "0 \<le> until" "until \<le> MAX_EPOCH" and rep: "0 < repeat"
  shows "parse_tail ((if until > 0 then '' until '' @ show_int until else []) @
      (if receipt then '' receipt=1'' else [])) repeat = Inr (until, receipt)"
proof -
  let ?rc = "if receipt then '' receipt=1'' else []"
  have rc: "trailing_receipt ?rc = Some receipt"
    by (cases receipt) (simp_all add: trailing_receipt_def Let_def skip_ws_def sws_def)
  have nd: "?rc = [] \<or> \<not> isdigit (hd ?rc)" by (simp add: isdigit_def)
  show ?thesis
  proof (cases "until > 0")
    case False
    then show ?thesis using u
      by (cases receipt) (simp_all add: parse_tail_def Let_def skip_ws_def sws_def trailing_receipt_def)
  next
    case True
    have si: "show_int until = show_nat (nat until)" using True by (simp add: show_int_def)
    have st: "strtoll (show_nat (nat until) @ ?rc) = (until, ?rc)"
      using strtoll_nat [of "nat until" ?rc] True u nd by (simp add: MAX_EPOCH_def LLONG_MAX_def)
    have td: "takeWhile isdigit (show_nat (nat until) @ ?rc) = show_nat (nat until)"
      "dropWhile isdigit (show_nat (nat until) @ ?rc) = ?rc"
      using take_digits [OF nd] by blast+
    have sk: "skip_ws (CHR '' '' # show_nat (nat until) @ ?rc) = show_nat (nat until) @ ?rc"
      using skip_ws_digits [of "nat until" ?rc] by (simp add: skip_ws_def sws_def)
    have sk0: "skip_ws ('' until '' @ show_nat (nat until) @ ?rc) = ''until '' @ show_nat (nat until) @ ?rc"
      "skip_ws (''until '' @ show_nat (nat until) @ ?rc) = ''until '' @ show_nat (nat until) @ ?rc"
      by (simp_all add: skip_ws_def sws_def)
    have pu: "parse_until (''until '' @ show_nat (nat until) @ ?rc) 0 = Inr (until, ?rc)"
      unfolding parse_until_def Let_def sk0(2) using sk st td True u by simp
    show ?thesis
      unfolding parse_tail_def Let_def si using True rep sk0(1) pu rc by simp
  qed
qed

lemma parse_format_every:
  assumes n: "0 < n" "int n \<le> MAX_DURATION" and m: "length msg \<le> MAX_MSG" "nul \<notin> set msg"
    and u: "until = 0 \<or> (now + int n \<le> until \<and> 0 < until \<and> until \<le> MAX_EPOCH)"
  shows "parse_schedule (format_every n msg until receipt) now =
    Inr \<lparr>s_fire = now + int n, s_repeat = int n, s_until = until, s_receipt = receipt, s_msg = msg\<rparr>"
proof -
  let ?t = "(if until > 0 then '' until '' @ show_int until else []) @ (if receipt then '' receipt=1'' else [])"
  let ?q = "concat (map quote_char msg) @ quot # ?t"
  have f: "format_every n msg until receipt = ''every '' @ show_nat n @ CHR ''s'' # CHR '' '' # quot # ?q"
    by (simp add: format_every_def)
  have h: "sched_head (skip_ws (format_every n msg until receipt)) now =
      Inr (int n, now + int n, CHR '' '' # quot # ?q)"
    using sched_head_every [OF n] by (simp add: f skip_ws_def sws_def)
  have sk: "skip_ws (CHR '' '' # quot # ?q) = quot # ?q" by (simp add: skip_ws_def sws_def)
  have ql: "quoted_loop ?q [] = Inr (msg, ?t)" using quoted_loop_quote [of "[]" msg] m by simp
  have pt: "parse_tail ?t (int n) = Inr (until, receipt)"
    using u n by (intro parse_tail_format) (auto simp: MAX_EPOCH_def)
  have c: "cstr msg = msg" using m by (simp add: cstr_id)
  have "\<not> (int n > 0 \<and> until > 0 \<and> until < now + int n)" using u by auto
  then show ?thesis
    unfolding parse_schedule_def h Let_def sum.case prod.case sk list.sel ql pt c by simp
qed

end
