(* ===== verification/Exo_Timers.thy ===== *)
theory Exo_Timers
  imports Exo_Schedule Exo_Escape
begin

text \<open>
  The timer registry of exosched and its one timer thread (\<open>exosched/src/timers.c\<close>). The
  registry is the list behind \<open>g_head\<close>; every function that holds \<open>g_mu\<close> is one step on it.
  The thread works in three steps that requests can come between: it unlinks a due timer,
  does the bookkeeping in exomind without the lock, and puts the timer back or drops it. What
  exomind answers is a function of the request; \<open>fire_timer\<close> returns the requests it made.
  Times are integers: epochs the schedule parser accepts stay below \<open>2^63\<close> nanoseconds.
\<close>

record timer =
  tid :: string
  twall :: int
  tmono :: int
  trepeat :: int
  tuntil :: int
  tretry :: int
  treceipt :: int
  tmsg :: bytes

record registry =
  rtimers :: "timer list"
  rgen :: int

definition EXO_KEY_PREFIX :: string where "EXO_KEY_PREFIX = ''exosched:timer:''"
definition TIMER_ID_MAX :: nat where "TIMER_ID_MAX = 40"
definition RETRY_DELAY_NS :: int where "RETRY_DELAY_NS = 5 * 1000000000"

definition eff_due :: "timer \<Rightarrow> int" where
  "eff_due t = (if tretry t \<noteq> 0 then tretry t else tmono t)"

fun insert_locked :: "timer \<Rightarrow> timer list \<Rightarrow> timer list" where
  "insert_locked t [] = [t]"
| "insert_locked t (x # xs) = (if eff_due x \<le> eff_due t then x # insert_locked t xs else t # x # xs)"

definition timer_find :: "registry \<Rightarrow> string \<Rightarrow> timer option" where
  "timer_find r i = find (\<lambda>t. tid t = i) (rtimers r)"

definition timer_count :: "registry \<Rightarrow> nat" where
  "timer_count r = length (rtimers r)"

text \<open>\<open>xcalloc\<close> zeroes the copies and the receipt flag is not copied.\<close>

definition timers_snapshot :: "registry \<Rightarrow> timer list" where
  "timers_snapshot r = map (\<lambda>t. t\<lparr>treceipt := 0\<rparr>) (rtimers r)"

definition mk_timer :: "string \<Rightarrow> int \<Rightarrow> int \<Rightarrow> int \<Rightarrow> int \<Rightarrow> bytes \<Rightarrow> int \<Rightarrow> int \<Rightarrow> timer" where
  "mk_timer i wall rep until receipt msg now mns =
     \<lparr>tid = take (TIMER_ID_MAX - 1) i, twall = wall, tmono = mns + (wall - now) * 1000000000,
      trepeat = rep, tuntil = until, tretry = 0, treceipt = receipt, tmsg = msg\<rparr>"

definition timer_add :: "registry \<Rightarrow> string \<Rightarrow> int \<Rightarrow> int \<Rightarrow> int \<Rightarrow> int \<Rightarrow> bytes \<Rightarrow> int \<Rightarrow> int \<Rightarrow> registry \<times> int" where
  "timer_add r i wall rep until receipt msg now mns =
     (if timer_find r i \<noteq> None then (r, -1)
      else (\<lparr>rtimers = insert_locked (mk_timer i wall rep until receipt msg now mns) (rtimers r),
             rgen = rgen r + 1\<rparr>, 0))"

fun unlink_id :: "string \<Rightarrow> timer list \<Rightarrow> timer list" where
  "unlink_id i [] = []"
| "unlink_id i (t # ts) = (if tid t = i then ts else t # unlink_id i ts)"

definition timer_cancel :: "registry \<Rightarrow> string \<Rightarrow> registry \<times> bool" where
  "timer_cancel r i =
     (if timer_find r i = None then (r, False)
      else (\<lparr>rtimers = unlink_id i (rtimers r), rgen = rgen r + 1\<rparr>, True))"

subsection \<open>Bookkeeping of a fired timer\<close>

definition timer_value :: "int \<Rightarrow> int \<Rightarrow> int \<Rightarrow> bytes \<Rightarrow> string" where
  "timer_value fire rep until msg =
     (if rep > 0 then show_int fire @ tab # show_int rep @ tab # show_int until @ tab # esc_line msg
      else show_int fire @ tab # esc_line msg)"

definition timer_ttl :: "int \<Rightarrow> int \<Rightarrow> int" where
  "timer_ttl fire now =
     (let ttl = fire - now + 300; ttl1 = (if ttl < 60 then 60 else ttl)
      in if ttl1 > 315360000 then 315360000 else ttl1)"

datatype bookreq =
    Note bytes
  | Persist string bytes int
  | Stats int int
  | Del string

definition fire_note :: "timer \<Rightarrow> bool \<Rightarrow> int \<Rightarrow> int \<Rightarrow> int \<Rightarrow> bytes" where
  "fire_note t final acked tot now =
     ''fired timer '' @ tid t @ '': '' @ tmsg t @ '' at '' @ show_int (twall t) @
     (if final then '' (last fire, until '' @ show_int (tuntil t) @ '')''
      else if trepeat t > 0 then '' (repeat '' @ show_int (trepeat t) @ ''s)'' else []) @
     '' [delivery: acked '' @ show_int acked @ ''/'' @ show_int tot @ '' at '' @ show_int now @ '']''"

definition receipt_req :: "timer \<Rightarrow> int \<Rightarrow> int \<Rightarrow> int \<Rightarrow> bookreq" where
  "receipt_req t acked tot now =
     Persist (take 575 (''receipt:'' @ tid t))
       (take 1151 (''fired:'' @ show_int (twall t) @ '':'' @ tmsg t @ '';acked:'' @ show_int acked @ '':'' @
                   show_int tot @ ''@'' @ show_int now)) (3600 * 24)"

definition delivery_req :: "timer \<Rightarrow> int \<Rightarrow> int \<Rightarrow> int \<Rightarrow> bookreq" where
  "delivery_req t acked tot now =
     Persist (take 575 (''delivery:'' @ tid t @ '':'' @ show_int (twall t)))
       (take 127 (''acked '' @ show_int acked @ ''/'' @ show_int tot @ '' at '' @ show_int now)) (3600 * 24)"

definition timer_key :: "string \<Rightarrow> string" where
  "timer_key i = take 511 (EXO_KEY_PREFIX @ i)"

definition last_fire :: "timer \<Rightarrow> bool" where
  "last_fire t \<longleftrightarrow> trepeat t > 0 \<and> tuntil t > 0 \<and> twall t + trepeat t > tuntil t"

text \<open>
  \<open>now\<close> is the reading at the start, \<open>tnow\<close> the one \<open>timer_ttl\<close> takes, \<open>dnow\<close> and \<open>mns\<close> the
  ones for the next deadline. The result: the requests, the code 0, 1 or 2, and the timer.
\<close>

definition fire_timer :: "(bookreq \<Rightarrow> bool) \<Rightarrow> timer \<Rightarrow> int \<Rightarrow> int \<Rightarrow> int \<Rightarrow> int \<Rightarrow> int \<Rightarrow> int \<Rightarrow> bookreq list \<times> nat \<times> timer" where
  "fire_timer ok t acked tot now tnow dnow mns =
     (let final = last_fire t;
          note = Note (fire_note t final acked tot now);
          rcpt = (if treceipt t \<noteq> 0 then [receipt_req t acked tot now] else []);
          dlv = delivery_req t acked tot now;
          st = Stats acked tot
      in if \<not> ok note then ([note], 2, t)
         else if rcpt \<noteq> [] \<and> \<not> ok (hd rcpt) then (note # rcpt, 2, t)
         else if \<not> ok dlv then (note # rcpt @ [dlv], 2, t)
         else if \<not> ok st then (note # rcpt @ [dlv, st], 2, t)
         else if \<not> final \<and> trepeat t > 0 then
           (let nxt = twall t + trepeat t;
                p = Persist (timer_key (tid t)) (timer_value nxt (trepeat t) (tuntil t) (tmsg t)) (timer_ttl nxt tnow)
            in if \<not> ok p then (note # rcpt @ [dlv, st, p], 2, t)
               else (note # rcpt @ [dlv, st, p], 1,
                     t\<lparr>twall := nxt, tmono := mns + (nxt - dnow) * 1000000000, tretry := 0\<rparr>))
         else (let d = Del (timer_key (tid t))
               in if \<not> ok d then (note # rcpt @ [dlv, st, d], 2, t) else (note # rcpt @ [dlv, st, d], 0, t)))"

subsection \<open>The timer thread\<close>

text \<open>One round: unlink the head when it is due.\<close>

definition loop_pop :: "registry \<Rightarrow> int \<Rightarrow> (timer \<times> registry) option" where
  "loop_pop r now =
     (case rtimers r of
        [] \<Rightarrow> None
      | t # ts \<Rightarrow> if eff_due t \<le> now then Some (t, r\<lparr>rtimers := ts\<rparr>) else None)"

text \<open>A retry is not pushed to the clients again; it reports no acknowledgements.\<close>

definition loop_acks :: "timer \<Rightarrow> int \<times> int \<Rightarrow> int \<times> int" where
  "loop_acks t pushed = (if tretry t = 0 then pushed else (0, 0))"

definition loop_done :: "registry \<Rightarrow> timer \<Rightarrow> nat \<Rightarrow> int \<Rightarrow> registry" where
  "loop_done r t keep mns =
     (if keep = 2 then r\<lparr>rtimers := insert_locked (t\<lparr>tretry := mns + RETRY_DELAY_NS\<rparr>) (rtimers r)\<rparr>
      else if keep = 1 then r\<lparr>rtimers := insert_locked (t\<lparr>tretry := 0\<rparr>) (rtimers r)\<rparr>
      else r)"

definition loop_wait :: "registry \<Rightarrow> int \<Rightarrow> int" where
  "loop_wait r now =
     (case rtimers r of
        [] \<Rightarrow> 100 * 1000000
      | t # _ \<Rightarrow> let to_next = eff_due t - now
                 in if to_next < 100 * 1000000 then (if to_next < 0 then 0 else to_next) else 100 * 1000000)"

subsection \<open>Reload\<close>

datatype reason = UntilReached | UntilWhileDown | OverdueOneShot

definition missed_text :: "reason \<Rightarrow> string option" where
  "missed_text x = (case x of
      UntilReached \<Rightarrow> Some ''recurring: until already reached''
    | UntilWhileDown \<Rightarrow> Some ''recurring: until reached while down''
    | OverdueOneShot \<Rightarrow> None)"

definition drop_missed :: "string \<Rightarrow> bytes \<Rightarrow> int \<Rightarrow> reason \<Rightarrow> int \<Rightarrow> bookreq list" where
  "drop_missed i msg fire why now =
     [Note (''missed timer '' @ i @ '': '' @ msg @ '' (was at '' @ show_int fire @ '', now '' @ show_int now @
        (case missed_text why of Some x \<Rightarrow> ''; '' @ x | None \<Rightarrow> []) @ '')''),
      Del (timer_key i)]"

record item =
  iid :: string
  ifire :: int
  irepeat :: int
  iuntil :: int
  imsg :: bytes

definition reload_parse :: "string \<Rightarrow> string \<Rightarrow> item option" where
  "reload_parse key value =
     (let (fire, e1) = strtoll value
      in if e1 = value \<or> e1 = [] \<or> hd e1 \<noteq> tab \<or> fire \<le> 0 then None
         else let p = tl e1; (r2, e2) = strtoll p;
                  i = take (TIMER_ID_MAX - 1) (drop (length EXO_KEY_PREFIX) key)
              in if e2 \<noteq> p \<and> e2 \<noteq> [] \<and> hd e2 = tab \<and> r2 > 0 then
                   (let q = tl e2; (until, e3) = strtoll q
                    in if e3 = q \<or> e3 = [] \<or> hd e3 \<noteq> tab \<or> until < 0 then None
                       else Some \<lparr>iid = i, ifire = fire, irepeat = r2, iuntil = until, imsg = unesc_line (tl e3)\<rparr>)
                 else Some \<lparr>iid = i, ifire = fire, irepeat = 0, iuntil = 0, imsg = unesc_line p\<rparr>)"

text \<open>The catch-up loop of a recurring timer; it is entered with a positive interval only.\<close>

function catch_up :: "int \<Rightarrow> int \<Rightarrow> int \<Rightarrow> int \<Rightarrow> int" where
  "catch_up fire rep until now =
     (if 0 < rep \<and> fire \<le> now \<and> (until = 0 \<or> fire + rep \<le> until)
      then catch_up (fire + rep) rep until now else fire)"
  by pat_completeness auto
termination
  by (relation "measure (\<lambda>(f, r, u, n). nat (n + 1 - f))") auto

declare catch_up.simps [simp del]

definition reload_classify :: "item \<Rightarrow> int \<Rightarrow> item \<times> reason option" where
  "reload_classify it now =
     (if irepeat it > 0 then
        (if iuntil it > 0 \<and> ifire it \<ge> iuntil it then (it, Some UntilReached)
         else let f = catch_up (ifire it) (irepeat it) (iuntil it) now
              in (it\<lparr>ifire := f\<rparr>, if f \<le> now then Some UntilWhileDown else None))
      else (it, if ifire it \<le> now then Some OverdueOneShot else None))"

definition reload_plan :: "(string \<times> string) list \<Rightarrow> int \<Rightarrow> (item \<times> reason option) list" where
  "reload_plan kvs now =
     map (\<lambda>it. reload_classify it now) (List.map_filter (\<lambda>(k, v). reload_parse k v) kvs)"

definition reload_drops :: "(item \<times> reason option) list \<Rightarrow> int \<Rightarrow> bookreq list" where
  "reload_drops plan now =
     concat (map (\<lambda>(it, why). case why of None \<Rightarrow> []
                   | Some x \<Rightarrow> drop_missed (iid it) (imsg it) (ifire it) x now) plan)"

text \<open>0 added, 1 present, -1 stale. \<open>junk\<close> is what the uninitialised receipt field holds.\<close>

definition reload_add_locked :: "registry \<Rightarrow> item \<Rightarrow> int \<Rightarrow> int \<Rightarrow> int \<Rightarrow> int \<Rightarrow> registry \<times> int" where
  "reload_add_locked r it gen now mns junk =
     (if gen \<noteq> rgen r then (r, -1)
      else if timer_find r (iid it) \<noteq> None then (r, 1)
      else (r\<lparr>rtimers := insert_locked (mk_timer (iid it) (ifire it) (irepeat it) (iuntil it) junk (imsg it) now mns)
                (rtimers r)\<rparr>, 0))"

fun reload_apply :: "(item \<times> reason option) list \<Rightarrow> int \<Rightarrow> int \<Rightarrow> int \<Rightarrow> int \<Rightarrow> registry \<Rightarrow> registry \<times> bool" where
  "reload_apply [] gen now mns junk r = (r, False)"
| "reload_apply ((it, Some why) # ps) gen now mns junk r = reload_apply ps gen now mns junk r"
| "reload_apply ((it, None) # ps) gen now mns junk r =
     (let (r', rc) = reload_add_locked r it gen now mns junk
      in if rc = -1 then (r', True) else reload_apply ps gen now mns junk r')"

text \<open>
  \<open>timers_reload\<close>: the generation is read before the listing, the registry after it is the
  argument. \<open>listed\<close> and \<open>fetched\<close> are the answers of exomind, \<open>None\<close> for a failure. The
  result: the registry, the requests of the drop phase, the return code.
\<close>

definition timers_reload :: "int \<Rightarrow> string list option \<Rightarrow> string list option \<Rightarrow> registry \<Rightarrow> int \<Rightarrow> int \<Rightarrow> int
    \<Rightarrow> registry \<times> bookreq list \<times> int" where
  "timers_reload gen listed fetched r now mns junk =
     (case listed of
        None \<Rightarrow> (r, [], -1)
      | Some keys \<Rightarrow>
          if keys = [] then (r, [], 0)
          else (case fetched of
                  None \<Rightarrow> (r, [], -1)
                | Some vals \<Rightarrow>
                    let plan = reload_plan (zip keys vals) now;
                        (r', stale) = reload_apply plan gen now mns junk r
                    in (r', reload_drops plan now, if stale then -1 else 0)))"

subsection \<open>The registry stays sorted\<close>

definition due_sorted :: "timer list \<Rightarrow> bool" where
  "due_sorted ts \<longleftrightarrow> sorted_wrt (\<lambda>a b. eff_due a \<le> eff_due b) ts"

lemma set_insert_locked [simp]: "set (insert_locked t ts) = insert t (set ts)"
  by (induction ts) auto

lemma mset_insert_locked [simp]: "mset (insert_locked t ts) = add_mset t (mset ts)"
  by (induction ts) auto

lemma insert_locked_sorted: "due_sorted ts \<Longrightarrow> due_sorted (insert_locked t ts)"
  by (induction ts) (auto simp: due_sorted_def)

lemma unlink_subset: "set (unlink_id i ts) \<subseteq> set ts"
  by (induction ts) auto

lemma unlink_sorted: "due_sorted ts \<Longrightarrow> due_sorted (unlink_id i ts)"
  using unlink_subset by (induction ts) (fastforce simp: due_sorted_def)+

lemma unlink_ids: "distinct (map tid ts) \<Longrightarrow> tid ` set (unlink_id i ts) = tid ` set ts - {i}"
  by (induction ts) (auto simp: image_iff)

lemma unlink_distinct: "distinct (map tid ts) \<Longrightarrow> distinct (map tid (unlink_id i ts))"
  by (induction ts) (auto simp: unlink_ids)

lemma timer_find_None: "timer_find r i = None \<longleftrightarrow> i \<notin> tid ` set (rtimers r)"
  by (auto simp: timer_find_def find_None_iff)

lemma distinct_insert_locked:
  "distinct (map tid (insert_locked t ts)) \<longleftrightarrow> tid t \<notin> tid ` set ts \<and> distinct (map tid ts)"
proof -
  have "mset (map tid (insert_locked t ts)) = mset (map tid (t # ts))" by simp
  then have "distinct (map tid (insert_locked t ts)) = distinct (map tid (t # ts))"
    by (rule mset_eq_imp_distinct_iff)
  then show ?thesis by simp
qed

subsection \<open>The stored value\<close>

lemma tab_not_digit: "\<not> isdigit tab"
  by code_simp

lemma strtoll_tab:
  assumes "LLONG_MIN \<le> i" "i \<le> LLONG_MAX"
  shows "strtoll (show_int i @ tab # r) = (i, tab # r)"
  using strtoll_show_int [OF assms, of "tab # r"] tab_not_digit by simp

lemma esc_line_no_tab: "tab \<notin> set (esc_line m)"
  using esc_line_safe by blast

lemma strtoll_rest_suffix: "\<exists>pre. s = pre @ snd (strtoll s)"
proof -
  let ?t = "dropWhile isspace s"
  have s: "\<exists>a. s = a @ ?t" by (metis takeWhile_dropWhile_id)
  obtain neg u where nu: "(case ?t of [] \<Rightarrow> (False, []) | c # r \<Rightarrow> if c = CHR ''-'' then (True, r)
      else if c = CHR ''+'' then (False, r) else (False, ?t)) = (neg, u)" by fastforce
  then have "\<exists>b. ?t = b @ u"
    by (cases ?t) (auto split: if_split_asm intro: exI [of _ "[_]"])
  then obtain a b where ab: "s = a @ b @ u" using s by metis
  have u: "u = takeWhile isdigit u @ dropWhile isdigit u" by simp
  show ?thesis
  proof (cases "takeWhile isdigit u = []")
    case True
    then show ?thesis unfolding strtoll_def Let_def nu by simp
  next
    case False
    then have "snd (strtoll s) = dropWhile isdigit u" unfolding strtoll_def Let_def nu by simp
    then show ?thesis using ab u by (metis append.assoc)
  qed
qed

lemma reload_parse_value:
  assumes fire: "0 < fire" "fire \<le> LLONG_MAX" and rep: "0 \<le> rep" "rep \<le> LLONG_MAX"
    and until: "0 \<le> until" "until \<le> LLONG_MAX" and ids: "length i < TIMER_ID_MAX"
  shows "reload_parse (EXO_KEY_PREFIX @ i) (timer_value fire rep until msg) =
    Some \<lparr>iid = i, ifire = fire, irepeat = rep, iuntil = (if rep > 0 then until else 0), imsg = msg\<rparr>"
proof -
  have b: "LLONG_MIN \<le> fire" "LLONG_MIN \<le> rep" "LLONG_MIN \<le> until"
    using assms by (auto simp: LLONG_MIN_def)
  have idt: "take (TIMER_ID_MAX - 1) (drop (length EXO_KEY_PREFIX) (EXO_KEY_PREFIX @ i)) = i"
    using ids by (simp add: TIMER_ID_MAX_def)
  have ne: "tab # r \<noteq> show_int j @ tab # r" for j r by simp
  show ?thesis
  proof (cases "rep > 0")
    case True
    have v: "timer_value fire rep until msg =
        show_int fire @ tab # show_int rep @ tab # show_int until @ tab # esc_line msg"
      using True by (simp add: timer_value_def)
    have s1: "strtoll (timer_value fire rep until msg) =
        (fire, tab # show_int rep @ tab # show_int until @ tab # esc_line msg)"
      unfolding v by (rule strtoll_tab [OF b(1) fire(2)])
    have s2: "strtoll (show_int rep @ tab # show_int until @ tab # esc_line msg) =
        (rep, tab # show_int until @ tab # esc_line msg)"
      by (rule strtoll_tab [OF b(2) rep(2)])
    have s3: "strtoll (show_int until @ tab # esc_line msg) = (until, tab # esc_line msg)"
      by (rule strtoll_tab [OF b(3) until(2)])
    show ?thesis
      unfolding reload_parse_def s1 Let_def prod.case list.sel s2 s3 idt
      using True fire until by (simp add: v unesc_esc_line)
  next
    case False
    have v: "timer_value fire rep until msg = show_int fire @ tab # esc_line msg"
      using False by (simp add: timer_value_def)
    have s1: "strtoll (timer_value fire rep until msg) = (fire, tab # esc_line msg)"
      unfolding v by (rule strtoll_tab [OF b(1) fire(2)])
    obtain r2 e2 where s2: "strtoll (esc_line msg) = (r2, e2)" by fastforce
    have nt: "e2 = [] \<or> hd e2 \<noteq> tab"
    proof (rule ccontr)
      assume "\<not> ?thesis"
      then have "tab \<in> set e2" by (metis hd_in_set)
      then have "tab \<in> set (esc_line msg)"
        using strtoll_rest_suffix [of "esc_line msg"] s2 by (metis Un_iff set_append snd_conv)
      then show False using esc_line_no_tab by blast
    qed
    have vne: "tab # esc_line msg \<noteq> timer_value fire rep until msg" by (simp add: v)
    have c: "\<not> (e2 \<noteq> esc_line msg \<and> e2 \<noteq> [] \<and> hd e2 = tab \<and> r2 > 0)" using nt by auto
    show ?thesis
      unfolding reload_parse_def s1 Let_def prod.case list.sel s2 idt
      using vne False rep fire by (simp add: if_not_P [OF c] unesc_esc_line)
  qed
qed

subsection \<open>Catching up\<close>

lemma catch_up_ge: "0 < rep \<Longrightarrow> fire \<le> catch_up fire rep until now"
proof (induction fire rep until now rule: catch_up.induct)
  case (1 fire rep until now)
  then show ?case by (subst catch_up.simps) (auto dest: 1(1))
qed

lemma catch_up_mod: "0 < rep \<Longrightarrow> rep dvd (catch_up fire rep until now - fire)"
proof (induction fire rep until now rule: catch_up.induct)
  case (1 fire rep until now)
  show ?case
  proof (cases "0 < rep \<and> fire \<le> now \<and> (until = 0 \<or> fire + rep \<le> until)")
    case True
    then have "rep dvd (catch_up (fire + rep) rep until now - (fire + rep)) + rep"
      using 1(1) by (intro dvd_add) auto
    moreover have "catch_up fire rep until now = catch_up (fire + rep) rep until now"
      using True by (subst catch_up.simps) simp
    ultimately show ?thesis by (simp add: algebra_simps)
  next
    case False
    then have "catch_up fire rep until now = fire" by (subst catch_up.simps) auto
    then show ?thesis by simp
  qed
qed

lemma catch_up_until: "fire \<le> until \<Longrightarrow> until \<noteq> 0 \<Longrightarrow> catch_up fire rep until now \<le> until"
proof (induction fire rep until now rule: catch_up.induct)
  case (1 fire rep until now)
  then show ?case by (subst catch_up.simps) auto
qed

lemma catch_up_next: "0 < rep \<Longrightarrow> fire \<le> now \<Longrightarrow> catch_up fire rep until now \<le> now + rep"
proof (induction fire rep until now rule: catch_up.induct)
  case (1 fire rep until now)
  show ?case
  proof (cases "until = 0 \<or> fire + rep \<le> until")
    case True
    then have eq: "catch_up fire rep until now = catch_up (fire + rep) rep until now"
      using 1(2,3) by (subst catch_up.simps) simp
    show ?thesis
    proof (cases "fire + rep \<le> now")
      case False
      then show ?thesis unfolding eq using 1(3) by (subst catch_up.simps) simp
    qed (use 1 True eq in auto)
  qed (use 1 in \<open>subst catch_up.simps, simp\<close>)
qed

text \<open>It stops in the future unless the next fire would be past \<open>until\<close>.\<close>

lemma catch_up_stop:
  "0 < rep \<Longrightarrow> catch_up fire rep until now \<le> now \<Longrightarrow> until \<noteq> 0 \<and> until < catch_up fire rep until now + rep"
proof (induction fire rep until now rule: catch_up.induct)
  case (1 fire rep until now)
  show ?case
  proof (cases "0 < rep \<and> fire \<le> now \<and> (until = 0 \<or> fire + rep \<le> until)")
    case True
    then have "catch_up fire rep until now = catch_up (fire + rep) rep until now"
      by (subst catch_up.simps) simp
    then show ?thesis using 1 True by auto
  next
    case False
    then have "catch_up fire rep until now = fire" by (subst catch_up.simps) auto
    then show ?thesis using 1(2,3) False by auto
  qed
qed

subsection \<open>A fire\<close>

lemma fire_timer_note: "fst (fire_timer ok t acked tot now tnow dnow mns) \<noteq> [] \<and>
    hd (fst (fire_timer ok t acked tot now tnow dnow mns)) = Note (fire_note t (last_fire t) acked tot now)"
  by (simp add: fire_timer_def Let_def)

text \<open>Code 2 exactly when a request failed, and then the timer is unchanged.\<close>

lemma fire_timer_retry:
  assumes "fire_timer ok t acked tot now tnow dnow mns = (rs, code, t')"
  shows "code = 2 \<longleftrightarrow> (\<exists>r \<in> set rs. \<not> ok r)" and "code = 2 \<Longrightarrow> t' = t"
  using assms by (auto simp: fire_timer_def Let_def split: if_split_asm)

lemma fire_timer_codes:
  assumes "fire_timer ok t acked tot now tnow dnow mns = (rs, code, t')"
  shows "code = 1 \<Longrightarrow> trepeat t > 0 \<and> \<not> last_fire t \<and>
      last rs = Persist (timer_key (tid t)) (timer_value (twall t') (trepeat t) (tuntil t) (tmsg t)) (timer_ttl (twall t') tnow) \<and>
      t' = t\<lparr>twall := twall t + trepeat t, tmono := mns + (twall t' - dnow) * 1000000000, tretry := 0\<rparr>"
    and "code = 0 \<Longrightarrow> last rs = Del (timer_key (tid t)) \<and> (trepeat t \<le> 0 \<or> last_fire t)"
    and "code \<in> {0, 1, 2}"
  using assms by (auto simp: fire_timer_def Let_def split: if_split_asm)

subsection \<open>The running daemon\<close>

record daemon =
  dreg :: registry
  dflight :: "timer option"

text \<open>The steps: requests that add or cancel, the thread's two, and a reload's add phase.\<close>

inductive dstep :: "daemon \<Rightarrow> daemon \<Rightarrow> bool" where
  d_add: "dstep d (d\<lparr>dreg := fst (timer_add (dreg d) i wall rep until rc msg now mns)\<rparr>)"
| d_cancel: "dstep d (d\<lparr>dreg := fst (timer_cancel (dreg d) i)\<rparr>)"
| d_pop: "dflight d = None \<Longrightarrow> loop_pop (dreg d) now = Some (t, r) \<Longrightarrow>
    dstep d (d\<lparr>dreg := r, dflight := Some t\<rparr>)"
| d_fire: "dflight d = Some t \<Longrightarrow> fire_timer ok t acked tot now tnow dnow m1 = (rs, keep, t') \<Longrightarrow>
    dstep d (d\<lparr>dreg := loop_done (dreg d) t' keep mns, dflight := None\<rparr>)"
| d_reload: "dstep d (d\<lparr>dreg := fst (reload_apply plan gen now mns junk (dreg d))\<rparr>)"

inductive_cases dstep_cases: "dstep d d'"

inductive reaches :: "daemon \<Rightarrow> daemon \<Rightarrow> bool" where
  r_refl: "reaches d d"
| r_step: "reaches d d' \<Longrightarrow> dstep d' d'' \<Longrightarrow> reaches d d''"

lemma reload_apply_sorted:
  "due_sorted (rtimers r) \<Longrightarrow> due_sorted (rtimers (fst (reload_apply plan gen now mns junk r)))"
  by (induction plan gen now mns junk r rule: reload_apply.induct)
     (auto simp: reload_add_locked_def Let_def split_beta insert_locked_sorted)

lemma registry_sorted:
  assumes "due_sorted (rtimers r)"
  shows "due_sorted (rtimers (fst (timer_add r i wall rep until rc msg now mns)))"
    and "due_sorted (rtimers (fst (timer_cancel r i)))"
    and "loop_pop r now = Some (t, r') \<Longrightarrow> due_sorted (rtimers r')"
    and "due_sorted (rtimers (loop_done r t keep mns))"
  using assms
  by (auto simp: timer_add_def timer_cancel_def loop_done_def insert_locked_sorted unlink_sorted)
     (auto simp: loop_pop_def due_sorted_def split: list.split_asm if_split_asm)

lemma dstep_sorted: "dstep d d' \<Longrightarrow> due_sorted (rtimers (dreg d)) \<Longrightarrow> due_sorted (rtimers (dreg d'))"
  by (cases rule: dstep.cases, assumption) (simp_all add: registry_sorted reload_apply_sorted)

lemma reaches_sorted: "reaches d d' \<Longrightarrow> due_sorted (rtimers (dreg d)) \<Longrightarrow> due_sorted (rtimers (dreg d'))"
  by (induction rule: reaches.induct) (auto intro: dstep_sorted)

text \<open>The thread takes the timer with the earliest deadline.\<close>

lemma loop_pop_min:
  "due_sorted (rtimers r) \<Longrightarrow> loop_pop r now = Some (t, r') \<Longrightarrow>
   eff_due t \<le> now \<and> (\<forall>u \<in> set (rtimers r'). eff_due t \<le> eff_due u)"
  by (auto simp: loop_pop_def due_sorted_def split: list.split_asm if_split_asm)

lemma loop_pop_none:
  "due_sorted (rtimers r) \<Longrightarrow> loop_pop r now = None \<Longrightarrow> \<forall>u \<in> set (rtimers r). now < eff_due u"
  by (fastforce simp: loop_pop_def due_sorted_def split: list.split_asm if_split_asm)

subsection \<open>Reload adds what was persisted\<close>

lemma reload_apply_stale:
  "gen \<noteq> rgen r \<Longrightarrow> fst (reload_apply plan gen now mns junk r) = r \<and>
   (snd (reload_apply plan gen now mns junk r) \<longleftrightarrow> (\<exists>it. (it, None) \<in> set plan))"
  by (induction plan gen now mns junk r rule: reload_apply.induct)
     (auto simp: reload_add_locked_def Let_def)

lemma reload_apply_ids:
  assumes "gen = rgen r" "distinct (map tid (rtimers r))"
    "\<forall>p \<in> set plan. length (iid (fst p)) < TIMER_ID_MAX"
  shows "\<not> snd (reload_apply plan gen now mns junk r)"
    and "distinct (map tid (rtimers (fst (reload_apply plan gen now mns junk r))))"
    and "tid ` set (rtimers (fst (reload_apply plan gen now mns junk r))) =
      tid ` set (rtimers r) \<union> {iid it | it. (it, None) \<in> set plan}"
proof -
  have "\<not> snd (reload_apply plan gen now mns junk r) \<and>
    distinct (map tid (rtimers (fst (reload_apply plan gen now mns junk r)))) \<and>
    tid ` set (rtimers (fst (reload_apply plan gen now mns junk r))) =
      tid ` set (rtimers r) \<union> {iid it | it. (it, None) \<in> set plan}"
    using assms
  proof (induction plan gen now mns junk r rule: reload_apply.induct)
    case (3 it ps gen now mns junk r)
    have ti: "take (TIMER_ID_MAX - 1) (iid it) = iid it" using 3(4) by (simp add: TIMER_ID_MAX_def)
    show ?case
    proof (cases "timer_find r (iid it) = None")
      case True
      let ?t = "mk_timer (iid it) (ifire it) (irepeat it) (iuntil it) junk (imsg it) now mns"
      let ?r = "r\<lparr>rtimers := insert_locked ?t (rtimers r)\<rparr>"
      have add: "reload_add_locked r it gen now mns junk = (?r, 0)"
        using 3(2) True by (simp add: reload_add_locked_def)
      have t: "tid ?t = iid it" using ti by (simp add: mk_timer_def)
      have "distinct (map tid (rtimers ?r))"
        using True 3(3) t by (simp add: distinct_insert_locked timer_find_None)
      moreover have "{iid x | x. (x, None) \<in> set ((it, None) # ps)} = insert (iid it) {iid x | x. (x, None) \<in> set ps}"
        by auto
      ultimately show ?thesis
        using 3(1) [OF add [symmetric] refl] 3(2,4) t by (simp add: add [unfolded 3(2)])
    next
      case False
      then have add: "reload_add_locked r it gen now mns junk = (r, 1)"
        using 3(2) by (simp add: reload_add_locked_def)
      have "iid it \<in> tid ` set (rtimers r)" using False by (simp add: timer_find_None)
      moreover have "{iid x | x. (x, None) \<in> set ((it, None) # ps)} = insert (iid it) {iid x | x. (x, None) \<in> set ps}"
        by auto
      ultimately show ?thesis using 3(1) [OF add [symmetric] refl] 3(2-4) by (simp add: add [unfolded 3(2)] insert_absorb)
    qed
  qed auto
  then show "\<not> snd (reload_apply plan gen now mns junk r)"
    and "distinct (map tid (rtimers (fst (reload_apply plan gen now mns junk r))))"
    and "tid ` set (rtimers (fst (reload_apply plan gen now mns junk r))) =
      tid ` set (rtimers r) \<union> {iid it | it. (it, None) \<in> set plan}" by auto
qed

text \<open>The key of a timer outlives its fire time by at least a minute, up to the ttl cap.\<close>

lemma timer_ttl_bounds:
  "60 \<le> timer_ttl fire now" "timer_ttl fire now \<le> 315360000"
  "fire - now \<le> 315360000 - 60 \<Longrightarrow> fire - now + 60 \<le> timer_ttl fire now"
  by (auto simp: timer_ttl_def Let_def)

end
