(* ===== verification/Exo_Ws.thy ===== *)
theory Exo_Ws
  imports Exo_B64 Exo_Text
begin

unbundle bit_operations_syntax

text \<open>
  The WebSocket push channel of exosched (\<open>exosched/src/ws.c\<close>): SHA-1 and the handshake
  accept key, the frames sent and received, and the acknowledgement count of a broadcast. What
  a client has sent is a byte string; a read that asks for more than it holds fails. Offsets
  and counts below \<open>2^61\<close> bytes keep the bit count of SHA-1 in 64 bits.
\<close>

subsection \<open>SHA-1\<close>

record sha1_ctx =
  sh :: "u32 list"
  slen :: u64
  sbuf :: bytes

definition sha1_rol :: "u32 \<Rightarrow> nat \<Rightarrow> u32" where
  "sha1_rol v n = push_bit n v OR drop_bit (32 - n) v"

definition be32 :: "bytes \<Rightarrow> nat \<Rightarrow> u32" where
  "be32 p i = push_bit 24 (of_char (p ! i)) OR push_bit 16 (of_char (p ! (i + 1))) OR
              push_bit 8 (of_char (p ! (i + 2))) OR of_char (p ! (i + 3))"

text \<open>The message schedule, grown to 80 words.\<close>

fun sha1_extend :: "nat \<Rightarrow> u32 list \<Rightarrow> u32 list" where
  "sha1_extend 0 w = w"
| "sha1_extend (Suc n) w =
     (let i = length w
      in sha1_extend n (w @ [sha1_rol (w ! (i - 3) XOR w ! (i - 8) XOR w ! (i - 14) XOR w ! (i - 16)) 1]))"

definition sha1_w :: "bytes \<Rightarrow> u32 list" where
  "sha1_w p = sha1_extend 64 (map (\<lambda>i. be32 p (i * 4)) [0..<16])"

definition sha1_f :: "nat \<Rightarrow> u32 \<Rightarrow> u32 \<Rightarrow> u32 \<Rightarrow> u32" where
  "sha1_f i b c d =
     (if i < 20 then (b AND c) OR (NOT b AND d)
      else if i < 40 then b XOR c XOR d
      else if i < 60 then (b AND c) OR (b AND d) OR (c AND d)
      else b XOR c XOR d)"

definition sha1_k :: "nat \<Rightarrow> u32" where
  "sha1_k i = (if i < 20 then 0x5A827999 else if i < 40 then 0x6ED9EBA1
               else if i < 60 then 0x8F1BBCDC else 0xCA62C1D6)"

fun sha1_rounds :: "nat \<Rightarrow> u32 list \<Rightarrow> u32 \<times> u32 \<times> u32 \<times> u32 \<times> u32 \<Rightarrow> u32 \<times> u32 \<times> u32 \<times> u32 \<times> u32" where
  "sha1_rounds i [] st = st"
| "sha1_rounds i (w # ws) (a, b, c, d, e) =
     sha1_rounds (Suc i) ws (sha1_rol a 5 + sha1_f i b c d + e + sha1_k i + w, a, sha1_rol b 30, c, d)"

definition sha1_block :: "u32 list \<Rightarrow> bytes \<Rightarrow> u32 list" where
  "sha1_block h p =
     (case sha1_rounds 0 (sha1_w p) (h ! 0, h ! 1, h ! 2, h ! 3, h ! 4) of
        (a, b, c, d, e) \<Rightarrow> [h ! 0 + a, h ! 1 + b, h ! 2 + c, h ! 3 + d, h ! 4 + e])"

definition sha1_init :: sha1_ctx where
  "sha1_init = \<lparr>sh = [0x67452301, 0xEFCDAB89, 0x98BADCFE, 0x10325476, 0xC3D2E1F0], slen = 0, sbuf = []\<rparr>"

text \<open>The copy loop of \<open>sha1_update\<close>; the buffer holds fewer than 64 bytes between calls.\<close>

function sha1_feed :: "sha1_ctx \<Rightarrow> bytes \<Rightarrow> sha1_ctx" where
  "sha1_feed c p =
     (if p = [] \<or> 64 \<le> length (sbuf c) then c
      else let n = min (64 - length (sbuf c)) (length p); buf = sbuf c @ take n p
           in if length buf = 64 then sha1_feed (c\<lparr>sh := sha1_block (sh c) buf, sbuf := []\<rparr>) (drop n p)
              else sha1_feed (c\<lparr>sbuf := buf\<rparr>) (drop n p))"
  by pat_completeness auto
termination
  by (relation "measure (\<lambda>(c, p). length p)") auto

declare sha1_feed.simps [simp del]

definition sha1_update :: "sha1_ctx \<Rightarrow> bytes \<Rightarrow> sha1_ctx" where
  "sha1_update c data = sha1_feed (c\<lparr>slen := slen c + of_nat (length data)\<rparr>) data"

text \<open>The zero padding up to byte 56; at most 64 rounds are needed.\<close>

fun sha1_pad :: "nat \<Rightarrow> sha1_ctx \<Rightarrow> sha1_ctx" where
  "sha1_pad 0 c = c"
| "sha1_pad (Suc n) c = (if length (sbuf c) = 56 then c else sha1_pad n (sha1_update c [nul]))"

definition be_bytes32 :: "u32 \<Rightarrow> bytes" where
  "be_bytes32 v = [byte_of (drop_bit 24 v), byte_of (drop_bit 16 v), byte_of (drop_bit 8 v), byte_of v]"

definition be_bytes64 :: "u64 \<Rightarrow> bytes" where
  "be_bytes64 v = map (\<lambda>i. byte_of (drop_bit (8 * i) v)) [7, 6, 5, 4, 3, 2, 1, 0]"

definition sha1_final :: "sha1_ctx \<Rightarrow> bytes" where
  "sha1_final c =
     (let bits = slen c * 8;
          c1 = sha1_update c [CHR 0x80];
          c2 = sha1_pad 64 c1;
          c3 = sha1_update c2 (be_bytes64 bits)
      in concat (map be_bytes32 (sh c3)))"

definition WS_GUID :: string where "WS_GUID = ''258EAFA5-E914-47DA-95CA-C5AB0DC85B11''"

definition ws_make_accept :: "string \<Rightarrow> nat \<Rightarrow> string option" where
  "ws_make_accept key cap =
     (let c = sha1_update (sha1_update sha1_init key) WS_GUID; b64 = b64_encode (sha1_final c)
      in if length b64 \<ge> cap then None else Some b64)"

subsection \<open>Frames\<close>

definition WS_MAX_FRAME :: nat where "WS_MAX_FRAME = 64 * 1024 * 1024"

definition send_frame :: "nat \<Rightarrow> bytes \<Rightarrow> bytes" where
  "send_frame opcode payload =
     (let n = length payload
      in [char_of (128 + opcode)] @
         (if n < 126 then [char_of n]
          else if n \<le> 0xFFFF then [char_of (126 :: nat), char_of (n div 256), char_of n]
          else char_of (127 :: nat) # map (\<lambda>i. char_of (n div 256 ^ i)) [7, 6, 5, 4, 3, 2, 1, 0]) @
         payload)"

definition recv_full :: "bytes \<Rightarrow> nat \<Rightarrow> (bytes \<times> bytes) option" where
  "recv_full s n = (if n \<le> length s then Some (take n s, drop n s) else None)"

definition unmask :: "bytes \<Rightarrow> bytes \<Rightarrow> bytes" where
  "unmask key p = map (\<lambda>i. byte_of ((of_char (p ! i) :: u8) XOR of_char (key ! (i mod 4)))) [0..<length p]"

definition big_endian :: "bytes \<Rightarrow> nat" where
  "big_endian s = foldl (\<lambda>n c. n * 256 + of_char c) 0 s"

text \<open>One frame off the stream: opcode, payload and what is left; \<open>None\<close> where the loop breaks.\<close>

definition recv_len :: "nat \<Rightarrow> bytes \<Rightarrow> (nat \<times> bytes) option" where
  "recv_len n s =
     (if n = 126 then map_option (\<lambda>(e, r). (big_endian e, r)) (recv_full s 2)
      else if n = 127 then map_option (\<lambda>(e, r). (big_endian e, r)) (recv_full s 8)
      else Some (n, s))"

definition recv_frame :: "bytes \<Rightarrow> (nat \<times> bytes \<times> bytes) option" where
  "recv_frame s0 =
     (case recv_full s0 2 of
        None \<Rightarrow> None
      | Some (hdr, s1) \<Rightarrow>
          let h0 = of_char (hdr ! 0) :: nat; h1 = of_char (hdr ! 1) :: nat;
              opcode = h0 mod 16; masked = (128 \<le> h1)
          in (case recv_len (h1 mod 128) s1 of
                None \<Rightarrow> None
              | Some (n, s2) \<Rightarrow>
                  if n > WS_MAX_FRAME then None
                  else (case (if masked then recv_full s2 4 else Some ([], s2)) of
                          None \<Rightarrow> None
                        | Some (key, s3) \<Rightarrow>
                            (case (if n \<noteq> 0 then recv_full s3 n else Some ([], s3)) of
                               None \<Rightarrow> None
                             | Some (payload, s4) \<Rightarrow>
                                 Some (opcode, if masked then unmask key payload else payload, s4)))))"

subsection \<open>The client loop\<close>

text \<open>\<open>sscanf(s, "%39s %lld", id, &ep) == 2\<close>.\<close>

definition scan_ack :: "string \<Rightarrow> (string \<times> int) option" where
  "scan_ack s =
     (let t = dropWhile isspace s; w = take 39 (takeWhile (\<lambda>c. \<not> isspace c) t)
      in if w = [] then None
         else let u = drop (length w) t; (v, r) = strtoll (dropWhile isspace u)
              in if r = dropWhile isspace u then None else Some (w, v))"

datatype action = Sent bytes | Ack string int

text \<open>What the loop does with a frame: the actions, and whether it goes on.\<close>

definition client_frame :: "nat \<Rightarrow> bytes \<Rightarrow> action list \<times> bool" where
  "client_frame opcode payload =
     (if opcode = 8 then ([Sent (send_frame 8 payload)], False)
      else if opcode = 9 then ([Sent (send_frame 10 payload)], True)
      else if opcode = 10 \<or> opcode = 0 then ([], True)
      else if opcode = 1 then
        ((if length payload > 4 \<and> take 4 payload = ''ack '' then
            (case scan_ack (drop 4 (cstr (take 255 payload))) of
               None \<Rightarrow> []
             | Some (i, ep) \<Rightarrow> [Ack i ep])
          else []), True)
      else ([], False))"

lemma recv_frame_shorter: "recv_frame s = Some (op, p, r) \<Longrightarrow> length r < length s"
proof -
  have full: "length b \<le> length s" if "recv_full s n = Some (a, b)" for s n a b
    using that by (auto simp: recv_full_def split: if_split_asm)
  have len: "length b \<le> length s" if "recv_len n s = Some (k, b)" for n s k b
    using that full by (fastforce simp: recv_len_def split: if_split_asm)
  assume a: "recv_frame s = Some (op, p, r)"
  then obtain h s1 where h: "recv_full s 2 = Some (h, s1)"
    by (auto simp: recv_frame_def split: option.split_asm)
  then have s1: "length s1 < length s" by (auto simp: recv_full_def split: if_split_asm)
  from a h obtain k s2 where k: "recv_len (of_char (h ! 1) mod 128) s1 = Some (k, s2)"
    by (auto simp: recv_frame_def Let_def split: option.split_asm)
  from a h k obtain m s3 where m: "(if 128 \<le> (of_char (h ! 1) :: nat) then recv_full s2 4 else Some ([], s2)) = Some (m, s3)"
    by (cases "recv_full s2 4") (auto simp: recv_frame_def Let_def split: if_split_asm option.split_asm)
  from a h k m obtain q where "(if k \<noteq> 0 then recv_full s3 k else Some ([], s3)) = Some (q, r)"
    by (auto simp: recv_frame_def Let_def split: if_split_asm option.split_asm)
  then have "length r \<le> length s3" using full by (auto split: if_split_asm)
  also have "\<dots> \<le> length s2" using m full by (auto split: if_split_asm)
  also have "\<dots> \<le> length s1" by (rule len [OF k])
  finally show "length r < length s" using s1 by simp
qed

function client_loop :: "bytes \<Rightarrow> action list" where
  "client_loop s =
     (case recv_frame s of
        None \<Rightarrow> []
      | Some (op, p, r) \<Rightarrow>
          (let (acts, go) = client_frame op p in acts @ (if go then client_loop r else [])))"
  by pat_completeness auto
termination
  by (relation "measure length") (auto dest: recv_frame_shorter)

declare client_loop.simps [simp del]

text \<open>Joining puts the client in front; leaving reports whether the broadcaster had purged it.\<close>

definition client_join :: "int \<Rightarrow> int list \<Rightarrow> int list" where
  "client_join fd clients = fd # clients"

definition client_leave :: "int \<Rightarrow> int list \<Rightarrow> int list \<times> bool" where
  "client_leave fd clients = (remove1 fd clients, fd \<in> set clients)"

subsection \<open>Acknowledgements\<close>

record ackrec =
  p_id :: string
  p_epoch :: int
  p_acked :: int
  p_total :: int
  p_fds :: "int list"

definition ws_note_ack :: "ackrec \<Rightarrow> int \<Rightarrow> string \<Rightarrow> int \<Rightarrow> ackrec" where
  "ws_note_ack p fd i epoch =
     (if p_id p \<noteq> [] \<and> p_id p = i \<and> p_epoch p = epoch \<and> fd \<notin> set (p_fds p)
      then p\<lparr>p_fds := p_fds p @ [fd], p_acked := p_acked p + 1\<rparr> else p)"

text \<open>
  The sending phase of \<open>ws_broadcast\<close>: the clients that took the frame stay. \<open>sends\<close> says for
  which clients \<open>send_frame\<close> succeeds.
\<close>

definition broadcast_line :: "string \<Rightarrow> int \<Rightarrow> bytes \<Rightarrow> bytes" where
  "broadcast_line i epoch msg = ''timer '' @ i @ '' '' @ show_int epoch @ '' '' @ msg"

definition broadcast_send :: "string \<Rightarrow> int \<Rightarrow> int list \<Rightarrow> (int \<Rightarrow> bool) \<Rightarrow> int list \<times> ackrec" where
  "broadcast_send i epoch clients sends =
     (let live = filter sends clients
      in (live, \<lparr>p_id = (if live = [] then [] else take 39 i), p_epoch = epoch, p_acked = 0,
                 p_total = int (length live), p_fds = []\<rparr>))"

text \<open>Acks that arrive in the window, in order; \<open>ws_broadcast\<close> reports the final counts.\<close>

definition broadcast_acks :: "ackrec \<Rightarrow> (int \<times> string \<times> int) list \<Rightarrow> ackrec" where
  "broadcast_acks p acks = fold (\<lambda>(fd, i, ep) p. ws_note_ack p fd i ep) acks p"

definition ws_broadcast :: "string \<Rightarrow> int \<Rightarrow> int list \<Rightarrow> (int \<Rightarrow> bool) \<Rightarrow> (int \<times> string \<times> int) list
    \<Rightarrow> int list \<times> int \<times> int" where
  "ws_broadcast i epoch clients sends acks =
     (let (live, p) = broadcast_send i epoch clients sends
      in if p_total p = 0 then (live, 0, 0)
         else let p' = broadcast_acks p acks in (live, p_acked p', p_total p'))"

subsection \<open>SHA-1 can be fed in pieces\<close>

definition ctx_ok :: "sha1_ctx \<Rightarrow> bool" where
  "ctx_ok c \<longleftrightarrow> length (sbuf c) < 64"

lemma sha1_feed_ok: "ctx_ok c \<Longrightarrow> ctx_ok (sha1_feed c p)"
proof (induction c p rule: sha1_feed.induct)
  case (1 c p)
  then show ?case by (subst sha1_feed.simps) (auto simp: ctx_ok_def Let_def)
qed

lemma sha1_feed_slen: "slen (sha1_feed c p) = slen c"
proof (induction c p rule: sha1_feed.induct)
  case (1 c p)
  then show ?case by (subst sha1_feed.simps) (auto simp: Let_def)
qed

text \<open>One byte at a time is the reference.\<close>

definition sha1_byte :: "char \<Rightarrow> sha1_ctx \<Rightarrow> sha1_ctx" where
  "sha1_byte x c =
     (if length (sbuf c @ [x]) = 64 then c\<lparr>sh := sha1_block (sh c) (sbuf c @ [x]), sbuf := []\<rparr>
      else c\<lparr>sbuf := sbuf c @ [x]\<rparr>)"

lemma fold_bytes_short:
  "length (sbuf c) + length p < 64 \<Longrightarrow> fold sha1_byte p c = c\<lparr>sbuf := sbuf c @ p\<rparr>"
  by (induction p arbitrary: c) (auto simp: sha1_byte_def)

lemma fold_bytes_full:
  assumes "length (sbuf c) + length p = 64" "p \<noteq> []"
  shows "fold sha1_byte p c = c\<lparr>sh := sha1_block (sh c) (sbuf c @ p), sbuf := []\<rparr>"
proof -
  obtain q x where p: "p = q @ [x]" using assms(2) by (metis rev_exhaust)
  have "fold sha1_byte q c = c\<lparr>sbuf := sbuf c @ q\<rparr>" using assms p by (intro fold_bytes_short) simp
  then show ?thesis using assms p by (simp add: sha1_byte_def)
qed

lemma sha1_feed_bytes: "ctx_ok c \<Longrightarrow> sha1_feed c p = fold sha1_byte p c"
proof (induction c p rule: sha1_feed.induct)
  case (1 c p)
  let ?n = "min (64 - length (sbuf c)) (length p)"
  show ?case
  proof (cases "p = []")
    case False
    have len: "length (sbuf c) < 64" using 1(3) by (simp add: ctx_ok_def)
    then have g: "\<not> (p = [] \<or> 64 \<le> length (sbuf c))" using False by simp
    have split: "fold sha1_byte p c = fold sha1_byte (drop ?n p) (fold sha1_byte (take ?n p) c)"
      by (metis append_take_drop_id fold_append o_apply)
    show ?thesis
    proof (cases "length (sbuf c @ take ?n p) = 64")
      case True
      have "fold sha1_byte (take ?n p) c = c\<lparr>sh := sha1_block (sh c) (sbuf c @ take ?n p), sbuf := []\<rparr>"
        using True False len by (intro fold_bytes_full) auto
      then show ?thesis
        using 1(1) [OF g refl refl True] True g split
        by (subst sha1_feed.simps) (simp add: Let_def ctx_ok_def)
    next
      case short: False
      have "fold sha1_byte (take ?n p) c = c\<lparr>sbuf := sbuf c @ take ?n p\<rparr>"
        using short len by (intro fold_bytes_short) auto
      moreover have "length (sbuf c @ take ?n p) < 64" using short len by auto
      ultimately show ?thesis
        using 1(2) [OF g refl refl short] short g split
        by (subst sha1_feed.simps) (simp add: Let_def ctx_ok_def)
    qed
  qed (subst sha1_feed.simps, simp)
qed

lemma fold_byte_slen: "fold sha1_byte p (c\<lparr>slen := n\<rparr>) = (fold sha1_byte p c)\<lparr>slen := n\<rparr>"
proof (induction p arbitrary: c)
  case (Cons x p)
  have "sha1_byte x (c\<lparr>slen := n\<rparr>) = (sha1_byte x c)\<lparr>slen := n\<rparr>"
    by (cases c) (simp add: sha1_byte_def)
  then show ?case using Cons.IH by simp
qed simp

lemma sha1_update_append:
  assumes "ctx_ok c"
  shows "sha1_update c (a @ b) = sha1_update (sha1_update c a) b"
proof -
  have ok: "ctx_ok (c\<lparr>slen := n\<rparr>)" for n using assms by (simp add: ctx_ok_def)
  have ok2: "ctx_ok (fold sha1_byte a c\<lparr>slen := m\<rparr>)" for m
    using sha1_feed_ok [OF assms, of a] sha1_feed_bytes [OF assms, of a] by (simp add: ctx_ok_def)
  have l: "slen (fold sha1_byte a c\<lparr>slen := m\<rparr>) = m" for m by simp
  show ?thesis
    by (simp add: sha1_update_def sha1_feed_bytes [OF ok] sha1_feed_bytes [OF ok2] fold_byte_slen add.assoc)
qed

text \<open>
  The digest of a message in the words of RFC 3174: pad with a one bit, zeros and the bit count to
  a whole number of blocks, then fold the block function over them.
\<close>

definition sha1_zeros :: "nat \<Rightarrow> nat" where
  "sha1_zeros n = (119 - n mod 64) mod 64"

definition sha1_padded :: "bytes \<Rightarrow> bytes" where
  "sha1_padded m = m @ [CHR 0x80] @ replicate (sha1_zeros (length m)) nul @ be_bytes64 (of_nat (length m) * 8)"

fun blocks :: "nat \<Rightarrow> bytes \<Rightarrow> bytes list" where
  "blocks 0 p = []"
| "blocks (Suc n) p = take 64 p # blocks n (drop 64 p)"

definition sha1_spec :: "bytes \<Rightarrow> bytes" where
  "sha1_spec m = concat (map be_bytes32
     (foldl sha1_block (sh sha1_init) (blocks (length (sha1_padded m) div 64) (sha1_padded m))))"

lemma fold_bytes_blocks:
  "length p = 64 * k \<Longrightarrow> sbuf c = [] \<Longrightarrow>
   fold sha1_byte p c = c\<lparr>sh := foldl sha1_block (sh c) (blocks k p)\<rparr>"
proof (induction k arbitrary: p c)
  case (Suc k)
  have t: "fold sha1_byte (take 64 p) c = c\<lparr>sh := sha1_block (sh c) (take 64 p), sbuf := []\<rparr>"
    using Suc.prems fold_bytes_full [of c "take 64 p"] by fastforce
  have "fold sha1_byte p c = fold sha1_byte (drop 64 p) (fold sha1_byte (take 64 p) c)"
    by (metis append_take_drop_id fold_append o_apply)
  then show ?case using t Suc by simp
qed simp

lemma sbuf_byte: "ctx_ok c \<Longrightarrow> ctx_ok (sha1_byte x c) \<and> length (sbuf (sha1_byte x c)) = Suc (length (sbuf c)) mod 64"
  by (auto simp: ctx_ok_def sha1_byte_def)

lemma sbuf_bytes:
  "ctx_ok c \<Longrightarrow> length (sbuf (fold sha1_byte p c)) = (length (sbuf c) + length p) mod 64"
proof (induction p arbitrary: c)
  case (Cons x p)
  then show ?case using sbuf_byte [OF Cons.prems, of x] by (simp add: mod_simps)
qed (simp add: ctx_ok_def)

lemma sha1_update_fold: "ctx_ok c \<Longrightarrow>
    sha1_update c p = (fold sha1_byte p c)\<lparr>slen := slen c + of_nat (length p)\<rparr>"
  using sha1_feed_bytes [of "c\<lparr>slen := slen c + of_nat (length p)\<rparr>" p]
  by (simp add: sha1_update_def ctx_ok_def fold_byte_slen)

lemma sha1_update_ok: "ctx_ok c \<Longrightarrow> ctx_ok (sha1_update c p)"
  using sha1_feed_ok [of "c\<lparr>slen := slen c + of_nat (length p)\<rparr>" p]
  by (simp add: sha1_update_def ctx_ok_def)

text \<open>The padding loop stops: at most 63 zeros are written.\<close>

lemma sha1_pad_zeros:
  "ctx_ok c \<Longrightarrow> (120 - length (sbuf c)) mod 64 \<le> n \<Longrightarrow>
   sha1_pad n c = sha1_update c (replicate ((120 - length (sbuf c)) mod 64) nul)"
proof (induction n arbitrary: c)
  case 0
  then show ?case by (simp add: sha1_update_fold)
next
  case (Suc n)
  have l: "length (sbuf c) < 64" using Suc.prems(1) by (simp add: ctx_ok_def)
  show ?case
  proof (cases "length (sbuf c) = 56")
    case True
    then show ?thesis using Suc.prems(1) by (simp add: sha1_update_fold)
  next
    case False
    let ?c = "sha1_update c [nul]"
    have c: "length (sbuf ?c) = Suc (length (sbuf c)) mod 64"
      using sbuf_bytes [OF Suc.prems(1), of "[nul]"] Suc.prems(1) by (simp add: sha1_update_fold)
    have z: "(120 - length (sbuf c)) mod 64 = Suc ((120 - length (sbuf ?c)) mod 64)"
      using l False c by (cases "length (sbuf c) = 63") (auto simp: mod_if)
    have "sha1_pad (Suc n) c = sha1_pad n ?c" using False by simp
    also have "\<dots> = sha1_update ?c (replicate ((120 - length (sbuf ?c)) mod 64) nul)"
      using Suc z sha1_update_ok by simp
    also have "\<dots> = sha1_update c ([nul] @ replicate ((120 - length (sbuf ?c)) mod 64) nul)"
      by (rule sha1_update_append [OF Suc.prems(1), symmetric])
    finally show ?thesis by (simp add: z)
  qed
qed

lemma sha1_zeros_le: "sha1_zeros n \<le> 64"
  by (simp add: sha1_zeros_def less_imp_le)

lemma sha1_zeros_fill: "(n + 1 + sha1_zeros n + 8) mod 64 = 0"
proof -
  define k where "k = n mod 64"
  have "k < 64" by (simp add: k_def)
  then have "(k + 1 + (119 - k) mod 64 + 8) mod 64 = 0" by (cases "k \<le> 55") (auto simp: mod_if)
  moreover have shift: "(n + c) mod 64 = (k + c) mod 64" for c
    by (simp add: k_def mod_add_left_eq)
  ultimately show ?thesis
    using shift [of "1 + (119 - k) mod 64 + 8"] unfolding sha1_zeros_def k_def [symmetric]
    by (simp only: add.assoc)
qed

lemma sha1_digest: "sha1_final (sha1_update sha1_init m) = sha1_spec m"
proof -
  let ?c = "sha1_update sha1_init m"
  have i: "ctx_ok sha1_init" "sbuf sha1_init = []" "slen sha1_init = 0"
    by (simp_all add: ctx_ok_def sha1_init_def)
  have bits: "slen ?c * 8 = of_nat (length m) * 8" using i by (simp add: sha1_update_fold)
  let ?c1 = "sha1_update ?c [CHR 0x80]"
  have c1: "?c1 = sha1_update sha1_init (m @ [CHR 0x80])" by (rule sha1_update_append [OF i(1), symmetric])
  have l1: "length (sbuf ?c1) = Suc (length m) mod 64"
    unfolding c1 using sbuf_bytes [OF i(1), of "m @ [CHR 0x80]"] i by (simp add: sha1_update_fold)
  have z: "(120 - length (sbuf ?c1)) mod 64 = sha1_zeros (length m)"
    unfolding l1 sha1_zeros_def by (simp add: mod_Suc)
  have "ctx_ok ?c1" unfolding c1 by (rule sha1_update_ok [OF i(1)])
  then have "sha1_pad 64 ?c1 = sha1_update ?c1 (replicate (sha1_zeros (length m)) nul)"
    using sha1_pad_zeros [of ?c1 64] sha1_zeros_le [of "length m"] by (simp add: z)
  then have "sha1_update (sha1_pad 64 ?c1) (be_bytes64 (slen ?c * 8)) = sha1_update sha1_init (sha1_padded m)"
    unfolding c1 bits by (simp add: sha1_padded_def sha1_update_append [OF i(1), symmetric])
  moreover have "sh (sha1_update sha1_init (sha1_padded m)) =
      foldl sha1_block (sh sha1_init) (blocks (length (sha1_padded m) div 64) (sha1_padded m))"
  proof -
    have "(length m + 1 + sha1_zeros (length m) + 8) mod 64 = 0"
      by (rule sha1_zeros_fill)
    moreover have "length (sha1_padded m) = length m + 1 + sha1_zeros (length m) + 8"
      by (simp add: sha1_padded_def be_bytes64_def)
    ultimately have "length (sha1_padded m) = 64 * (length (sha1_padded m) div 64)"
      by (metis add_0_right mult_div_mod_eq)
    then show ?thesis using fold_bytes_blocks [OF _ i(2)] by (simp add: sha1_update_fold [OF i(1)])
  qed
  ultimately show ?thesis by (simp add: sha1_final_def sha1_spec_def Let_def)
qed

lemma length_sha1_block: "length (sha1_block h p) = 5"
  by (simp add: sha1_block_def split: prod.split)

lemma length_sha1_spec: "length (sha1_spec m) = 20"
proof -
  have five: "length h = 5 \<Longrightarrow> length (foldl sha1_block h bs) = 5" for h bs
    by (induction bs arbitrary: h) (simp_all add: length_sha1_block)
  have "length (concat (map be_bytes32 ws)) = 4 * length ws" for ws
    by (induction ws) (simp_all add: be_bytes32_def)
  moreover have "length (sh sha1_init) = 5" by (simp add: sha1_init_def)
  ultimately show ?thesis by (simp only: sha1_spec_def five)
qed

text \<open>The handshake answer is the base64 of the digest of key and GUID, 28 characters long.\<close>

lemma ws_make_accept_spec:
  "ws_make_accept k cap = (if cap \<le> 28 then None else Some (b64_encode (sha1_spec (k @ WS_GUID))))"
proof -
  have i: "ctx_ok sha1_init" by (simp add: ctx_ok_def sha1_init_def)
  have "length (b64_encode (sha1_spec (k @ WS_GUID))) = 28"
    using length_sha1_spec by (simp add: length_b64_encode)
  then show ?thesis
    by (simp add: ws_make_accept_def Let_def sha1_update_append [OF i, symmetric] sha1_digest)
qed

subsection \<open>Frames round trip\<close>

lemma big_endian_append: "big_endian (a @ [c]) = big_endian a * 256 + of_char c"
  by (simp add: big_endian_def)

lemma of_char_char_of_nat: "(of_char (char_of (n :: nat)) :: nat) = n mod 256"
  by simp

lemma big_endian2: "n \<le> 0xFFFF \<Longrightarrow> big_endian [char_of (n div 256), char_of n] = n"
  by (simp add: big_endian_def)

lemma big_endian8:
  assumes "n < 256 ^ 8"
  shows "big_endian (map (\<lambda>i. char_of (n div 256 ^ i)) [7, 6, 5, 4, 3, 2, 1, 0]) = n"
proof -
  have step: "(n div 256 ^ Suc i) * 256 + n div 256 ^ i mod 256 = n div 256 ^ i" for i
  proof -
    have "n div 256 ^ Suc i = n div 256 ^ i div 256" by (metis div_mult2_eq mult.commute power_Suc)
    then show ?thesis by (metis div_mult_mod_eq)
  qed
  have top: "n div 256 ^ 7 mod 256 = n div 256 ^ 7"
    using assms by (simp add: less_mult_imp_div_less)
  show ?thesis
    using step [of 0] step [of 1] step [of 2] step [of 3] step [of 4] step [of 5] step [of 6] top
    by (simp add: big_endian_def)
qed

lemma recv_full_append: "length a = n \<Longrightarrow> recv_full (a @ b) n = Some (a, b)"
  by (auto simp: recv_full_def)

text \<open>The extended length that \<open>send_frame\<close> writes, and the seven bits before it.\<close>

definition len_code :: "nat \<Rightarrow> nat \<times> bytes" where
  "len_code n = (if n < 126 then (n, [])
     else if n \<le> 0xFFFF then (126, [char_of (n div 256), char_of n])
     else (127, map (\<lambda>i. char_of (n div 256 ^ i)) [7, 6, 5, 4, 3, 2, 1, 0]))"

lemma recv_len_code:
  assumes "n < 256 ^ 8"
  shows "recv_len (fst (len_code n)) (snd (len_code n) @ s) = Some (n, s)" and "fst (len_code n) < 128"
  using assms big_endian2 [of n] big_endian8 [of n]
  by (auto simp: len_code_def recv_len_def recv_full_def)

lemma send_frame_code:
  "send_frame op p = char_of (128 + op) # char_of (fst (len_code (length p))) # snd (len_code (length p)) @ p"
  by (simp add: send_frame_def Let_def len_code_def)

text \<open>A masked client frame as RFC 6455 lays it out.\<close>

definition masked_frame :: "nat \<Rightarrow> bytes \<Rightarrow> bytes \<Rightarrow> bytes" where
  "masked_frame op key p =
     char_of (128 + op) # char_of (128 + fst (len_code (length p))) # snd (len_code (length p)) @
     key @ unmask key p"

lemma unmask_unmask: "unmask key (unmask key p) = p"
proof -
  have "byte_of ((of_char (byte_of ((of_char c :: u8) XOR m)) :: u8) XOR m) = c" for c m
  proof -
    have "(of_char (byte_of ((of_char c :: u8) XOR m)) :: u8) = of_char c XOR m"
      by (simp add: of_char_byte_of)
    moreover have "(of_char c XOR m) XOR m = (of_char c :: u8)" by (simp add: xor.assoc)
    ultimately show ?thesis by (simp add: byte_of_of_char)
  qed
  then show ?thesis by (intro nth_equalityI) (simp_all add: unmask_def)
qed

lemma length_unmask [simp]: "length (unmask key p) = length p"
  by (simp add: unmask_def)

lemma recv_frame_any:
  assumes op: "op < 16" and len: "length p \<le> WS_MAX_FRAME"
    and m: "masked \<longrightarrow> length key = 4" "\<not> masked \<longrightarrow> key = []"
  shows "recv_frame (char_of (128 + op) # char_of ((if masked then 128 else 0) + fst (len_code (length p))) #
      snd (len_code (length p)) @ key @ p @ rest) =
    Some (op, if masked then unmask key p else p, rest)"
proof -
  have n: "length p < 256 ^ 8" using len by (simp add: WS_MAX_FRAME_def)
  let ?l = "fst (len_code (length p))"
  have l: "?l < 128" and rl: "recv_len ?l (snd (len_code (length p)) @ s) = Some (length p, s)" for s
    using recv_len_code [OF n] by auto
  have h: "recv_full (char_of (128 + op) # char_of ((if masked then 128 else 0) + ?l) # s) 2 =
      Some ([char_of (128 + op), char_of ((if masked then 128 else 0) + ?l)], s)" for s
    by (simp add: recv_full_def)
  have o: "(of_char (char_of (128 + op)) :: nat) mod 16 = op"
  proof -
    have "(128 + op) mod 256 mod 16 = (128 + op) mod (16::nat)" by (simp add: mod_mod_cancel)
    also have "\<dots> = op" using op by presburger
    finally show ?thesis by (simp only: of_char_char_of_nat)
  qed
  have c: "(of_char (char_of ((if masked then 128 else 0) + ?l)) :: nat) = (if masked then 128 else 0) + ?l"
    using l by simp
  have pr: "(if length p \<noteq> 0 then recv_full (p @ rest) (length p) else Some ([], p @ rest)) = Some (p, rest)"
    by (simp add: recv_full_def)
  have mr: "(if masked then recv_full (key @ p @ rest) 4 else Some ([], key @ p @ rest)) = Some (key, p @ rest)"
    using m by (simp add: recv_full_append)
  have md: "((if masked then 128 else 0) + ?l) mod 128 = ?l" using l by simp
  have mk: "128 \<le> (if masked then 128 else 0) + ?l \<longleftrightarrow> masked" using l by simp
  show ?thesis
    unfolding recv_frame_def h option.case prod.case Let_def nth_Cons_0 One_nat_def nth_Cons_Suc o c md rl mk mr pr
    using len by simp
qed

lemma recv_send_frame:
  "op < 16 \<Longrightarrow> length p \<le> WS_MAX_FRAME \<Longrightarrow> recv_frame (send_frame op p @ rest) = Some (op, p, rest)"
  using recv_frame_any [of op p False "[]" rest] by (simp add: send_frame_code)

lemma recv_masked_frame:
  "op < 16 \<Longrightarrow> length p \<le> WS_MAX_FRAME \<Longrightarrow> length key = 4 \<Longrightarrow>
   recv_frame (masked_frame op key p @ rest) = Some (op, p, rest)"
  using recv_frame_any [of op "unmask key p" True key rest]
  by (simp add: masked_frame_def unmask_unmask)

subsection \<open>Counting acknowledgements\<close>

definition ack_ok :: "ackrec \<Rightarrow> bool" where
  "ack_ok p \<longleftrightarrow> distinct (p_fds p) \<and> p_acked p = int (length (p_fds p))"

lemma ws_note_ack_ok: "ack_ok p \<Longrightarrow> ack_ok (ws_note_ack p fd i ep)"
  by (simp add: ack_ok_def ws_note_ack_def)

lemma broadcast_acks_spec:
  assumes "ack_ok p" "p_id p \<noteq> []"
  shows "ack_ok (broadcast_acks p acks) \<and> p_id (broadcast_acks p acks) = p_id p \<and>
    p_epoch (broadcast_acks p acks) = p_epoch p \<and> p_total (broadcast_acks p acks) = p_total p \<and>
    set (p_fds (broadcast_acks p acks)) = set (p_fds p) \<union> {fd. (fd, p_id p, p_epoch p) \<in> set acks}"
  using assms
proof (induction acks arbitrary: p)
  case (Cons a acks)
  obtain fd i ep where a: "a = (fd, i, ep)" by (cases a)
  let ?q = "ws_note_ack p fd i ep"
  have q: "p_id ?q = p_id p" "p_epoch ?q = p_epoch p" "p_total ?q = p_total p"
    "set (p_fds ?q) = set (p_fds p) \<union> (if i = p_id p \<and> ep = p_epoch p then {fd} else {})"
    using Cons.prems(2) by (auto simp: ws_note_ack_def)
  have "broadcast_acks p (a # acks) = broadcast_acks ?q acks" by (simp add: broadcast_acks_def a)
  then show ?case
    using Cons.IH [of ?q] ws_note_ack_ok [OF Cons.prems(1)] Cons.prems(2) q a by auto
qed (simp add: broadcast_acks_def)

text \<open>The reported count is the number of distinct clients that acknowledged this push.\<close>

lemma ws_broadcast_count:
  assumes "i \<noteq> []" "length i \<le> 39" "filter sends clients \<noteq> []"
  shows "ws_broadcast i epoch clients sends acks =
    (filter sends clients, int (card {fd. (fd, i, epoch) \<in> set acks}), int (length (filter sends clients)))"
proof -
  let ?live = "filter sends clients"
  let ?p = "\<lparr>p_id = i, p_epoch = epoch, p_acked = 0, p_total = int (length ?live), p_fds = []\<rparr>"
  have s: "broadcast_send i epoch clients sends = (?live, ?p)"
    using assms by (simp add: broadcast_send_def Let_def)
  have b: "ack_ok (broadcast_acks ?p acks)" "p_total (broadcast_acks ?p acks) = int (length ?live)"
    "set (p_fds (broadcast_acks ?p acks)) = {fd. (fd, i, epoch) \<in> set acks}"
    using broadcast_acks_spec [of ?p acks] assms(1) by (auto simp: ack_ok_def)
  have "p_acked (broadcast_acks ?p acks) = int (card {fd. (fd, i, epoch) \<in> set acks})"
    using b(1) b(3) distinct_card by (metis ack_ok_def)
  then show ?thesis using b(2) assms(3) by (simp add: ws_broadcast_def s Let_def)
qed

end
