(* ===== verification/Exo_Sched_Http.thy ===== *)
theory Exo_Sched_Http
  imports Exo_Module Exo_Wire Exo_Timers Exo_Ws
begin

text \<open>
  The requests exosched answers (\<open>exosched/src/http.c\<close>) and its console mode (\<open>main.c\<close>). The state
  is the timer registry, the delivery counters, the generator behind \<open>rand32\<close> and what is behind
  the network, exomind; each handler returns it with the reply. The clocks are readings: the epoch
  as \<open>now_epoch\<close> gives it in the order a handler asks, and the monotonic clock.
\<close>

record 'w sched_st =
  q_reg :: registry
  q_cnt :: counters
  q_rng :: u32
  q_net :: 'w

text \<open>
  The surroundings of a request: the clocks, the seed \<open>rand32\<close> takes when its state is 0, what other
  threads do to the registry while the handler of \<open>/remind\<close> talks to exomind, the help text.
\<close>

record sched_env =
  k_parse :: int            \<comment> \<open>\<open>now_epoch\<close> in the schedule parser\<close>
  k_id :: "nat \<Rightarrow> int"      \<comment> \<open>in the attempts of \<open>make_timer_id\<close>\<close>
  k_ttl :: int              \<comment> \<open>in \<open>timer_ttl\<close>\<close>
  k_now :: int              \<comment> \<open>in \<open>timer_add\<close> and the listing\<close>
  k_mono :: int
  k_seed :: u32
  k_others :: "registry \<Rightarrow> registry"
  k_spec :: string

definition sched_rand32 :: "u32 \<Rightarrow> u32 \<Rightarrow> u32" where
  "sched_rand32 seed g =
     (let g0 = (if g = 0 then seed else g); g1 = g0 XOR push_bit 13 g0; g2 = g1 XOR drop_bit 17 g1
      in g2 XOR push_bit 5 g2)"

definition timer_id_of :: "int \<Rightarrow> u32 \<Rightarrow> string" where
  "timer_id_of now r = take (TIMER_ID_MAX - 1) (show_int now @ CHR '':'' # show_hex8 r)"

text \<open>Up to four attempts: the generator after them, the identifier.\<close>

fun make_timer_id :: "nat \<Rightarrow> sched_env \<Rightarrow> registry \<Rightarrow> u32 \<Rightarrow> u32 \<times> string option" where
  "make_timer_id 0 k reg g = (g, None)"
| "make_timer_id (Suc n) k reg g =
     (let g' = sched_rand32 (k_seed k) g; i = timer_id_of (k_id k n) g'
      in if timer_find reg i = None then (g', Some i) else make_timer_id n k reg g')"

text \<open>Only \<open>detail=1\<close> is accepted: the flag, or \<open>None\<close>.\<close>

fun detail_segs :: "string list \<Rightarrow> bool \<Rightarrow> bool option" where
  "detail_segs [] d = Some d"
| "detail_segs (s # ss) d = (if s = ''detail=1'' then detail_segs ss True else None)"

text \<open>A trailing ampersand ends the loop like the end of the query.\<close>

definition delivery_params_ok :: "string \<Rightarrow> bool option" where
  "delivery_params_ok qs =
     (let ss = split_on (CHR ''&'') qs in detail_segs (if last ss = [] then butlast ss else ss) False)"

definition apos :: char where "apos = CHR 0x27"

definition in_apos :: "string \<Rightarrow> string" where
  "in_apos s = apos # s @ [apos]"

definition sched_err_text :: "sched_err \<Rightarrow> string" where
  "sched_err_text e = cstr (''bad schedule: '' @
     (case e of
        ExpectedNumber \<Rightarrow> ''expected a number''
      | MissingUnit \<Rightarrow> ''missing unit (s/m/h/d)''
      | UnknownUnit c \<Rightarrow> ''unknown unit '' @ in_apos [c] @ '' (use s/m/h/d)''
      | DurationRange \<Rightarrow> ''duration out of range''
      | ExpectedEpoch \<Rightarrow> ''expected an epoch number after '' @ in_apos ''at''
      | EpochRange \<Rightarrow> ''epoch out of range''
      | InPast \<Rightarrow> in_apos ''at'' @ '' is in the past''
      | ExpectedUntilEpoch \<Rightarrow> ''expected an epoch after '' @ in_apos ''until''
      | UntilRange \<Rightarrow> ''until epoch out of range''
      | BadForm \<Rightarrow> ''expected '' @ in_apos (''in <n><s|m|h|d> '' @ jname ''msg'') @ '', '' @
          in_apos (''at <epoch> '' @ jname ''msg'') @ '' or '' @ in_apos (''every <n><s|m|h|d> '' @ jname ''msg'')
      | TooLong \<Rightarrow> ''message too long''
      | Unterminated \<Rightarrow> ''unterminated quote''
      | GarbageAfterUntil \<Rightarrow> ''trailing garbage after '' @ in_apos ''until''
      | GarbageAfterQuote \<Rightarrow> ''trailing garbage after quote''
      | UntilNeedsQuote \<Rightarrow> in_apos ''until'' @ '' requires a quoted message''
      | MissingMessage \<Rightarrow> ''missing message''
      | UntilBeforeFire \<Rightarrow> in_apos ''until'' @ '' is before the first fire''))"

subsection \<open>The routes\<close>

definition sched_delivery :: "'w net \<Rightarrow> exo \<Rightarrow> mreq \<Rightarrow> 'w sched_st \<Rightarrow> 'w sched_st \<times> resp" where
  "sched_delivery net e r s =
     (if mmethod r \<noteq> ''GET'' then (s, plain 405 ''error: use GET'')
      else (case delivery_params_ok (mquery r) of
              None \<Rightarrow> (s, plain 400 ''error: bad params (only ?detail=1 is accepted)'')
            | Some False \<Rightarrow> (s, plain 200 (stats_value (fst (q_cnt s))))
            | Some True \<Rightarrow>
                (let (lines, w) = delivery_detail net e (q_net s)
                 in (s\<lparr>q_net := w\<rparr>, plain 200 (stats_value (fst (q_cnt s)) @ lines)))))"

text \<open>
  A schedule is parsed, gets an identifier, is persisted and only then enters the registry. When
  another thread has taken the identifier meanwhile, the key is deleted again.
\<close>

definition sched_remind :: "'w net \<Rightarrow> exo \<Rightarrow> sched_env \<Rightarrow> mreq \<Rightarrow> 'w sched_st \<Rightarrow> 'w sched_st \<times> resp" where
  "sched_remind net e k r s =
     (if mmethod r \<noteq> ''POST'' then (s, plain 405 ''error: use POST'')
      else if mbody r = [] then (s, plain 400 ''error: empty body'')
      else (case parse_schedule (mbody r) (k_parse k) of
              Inl err \<Rightarrow> (s, plain 400 (''error: '' @ sched_err_text err))
            | Inr p \<Rightarrow>
                (case make_timer_id 4 k (q_reg s) (q_rng s) of
                   (g, None) \<Rightarrow> (s\<lparr>q_rng := g\<rparr>, plain 500 ''error: cannot allocate timer id'')
                 | (g, Some i) \<Rightarrow>
                     (let s1 = s\<lparr>q_rng := g\<rparr>; v = timer_value (s_fire p) (s_repeat p) (s_until p) (s_msg p)
                      in if length v + 64 > 4096 then (s1, plain 413 ''error: message too large'')
                         else (case client_persist net e (timer_key i) v (timer_ttl (s_fire p) (k_ttl k)) (q_net s1) of
                                 (Some err, w) \<Rightarrow>
                                   (s1\<lparr>q_reg := k_others k (q_reg s1), q_net := w\<rparr>,
                                    plain 500 (''error: exomind unavailable: '' @ err))
                               | (None, w) \<Rightarrow>
                                   (case timer_add (k_others k (q_reg s1)) i (s_fire p) (s_repeat p) (s_until p)
                                           (if s_receipt p then 1 else 0) (s_msg p) (k_now k) (k_mono k) of
                                      (reg, rc) \<Rightarrow>
                                        if rc \<noteq> 0 then
                                          (s1\<lparr>q_reg := reg, q_net := snd (client_del net e (timer_key i) w)\<rparr>,
                                           plain 500 ''error: timer already exists'')
                                        else (s1\<lparr>q_reg := reg, q_net := w\<rparr>,
                                              plain 200 (''ok '' @ i @ CHR '' '' # show_int (s_fire p)))))))))"

definition timer_json :: "int \<Rightarrow> timer \<Rightarrow> string" where
  "timer_json now t =
     CHR ''{'' # jname ''id'' @ CHR '':'' # jname (tid t) @ CHR '','' # jname ''epoch'' @ CHR '':'' # show_int (twall t) @
     CHR '','' # jname ''remaining_s'' @ CHR '':'' # show_int (twall t - now) @ CHR '','' # jname ''repeat_s'' @ CHR '':'' #
     show_int (trepeat t) @ CHR '','' # jname ''until'' @ CHR '':'' # show_int (tuntil t) @ CHR '','' #
     jname ''message'' @ CHR '':'' # jname (json_escape_u (tmsg t)) @ ''}''"

definition timer_line :: "int \<Rightarrow> timer \<Rightarrow> string" where
  "timer_line now t =
     tid t @ tab # show_int (twall t) @ tab # show_int (twall t - now) @ tab # esc_line (tmsg t) @
     (if trepeat t > 0 then tab # show_int (trepeat t) @ tab # show_int (tuntil t) else []) @ [nl]"

definition sched_timers :: "sched_env \<Rightarrow> mreq \<Rightarrow> 'w sched_st \<Rightarrow> resp" where
  "sched_timers k r s =
     (if mmethod r \<noteq> ''GET'' then plain 405 ''error: use GET''
      else (let ts = timers_snapshot (q_reg s)
            in if mod_qp_str (mquery r) ''json'' 4096 \<noteq> None then
                 \<lparr>p_status = 200, p_ctype = Json,
                  p_body = CHR ''['' # join_with (CHR '','') (map (timer_json (k_now k)) ts) @ '']''\<rparr>
               else plain 200 (concat (map (timer_line (k_now k)) ts))))"

definition sched_timer :: "'w net \<Rightarrow> exo \<Rightarrow> mreq \<Rightarrow> 'w sched_st \<Rightarrow> 'w sched_st \<times> resp" where
  "sched_timer net e r s =
     (if mmethod r \<noteq> ''DELETE'' \<and> mmethod r \<noteq> ''POST'' then (s, plain 405 ''error: use DELETE'')
      else (case mod_qp_str (mquery r) ''id'' TIMER_ID_MAX of
              None \<Rightarrow> (s, plain 400 ''error: missing id'')
            | Some i \<Rightarrow>
                (case timer_cancel (q_reg s) i of
                   (reg, False) \<Rightarrow> (s\<lparr>q_reg := reg\<rparr>, plain 404 ''missing'')
                 | (reg, True) \<Rightarrow>
                     (s\<lparr>q_reg := reg, q_net := snd (client_del net e (timer_key i) (q_net s))\<rparr>, plain 200 ''ok''))))"

definition sched_route :: "'w net \<Rightarrow> exo \<Rightarrow> sched_env \<Rightarrow> mreq \<Rightarrow> 'w sched_st \<Rightarrow> 'w sched_st \<times> resp" where
  "sched_route net e k r s =
     (let p = mpath r
      in if p \<in> set [''/'', ''/help'', ''/spec''] then
           (s, \<lparr>p_status = 200, p_ctype = Markdown, p_body = k_spec k\<rparr>)
         else if p = ''/ping'' then (s, plain 200 ''pong'')
         else if p = ''/delivery'' then sched_delivery net e r s
         else if p = ''/remind'' then sched_remind net e k r s
         else if p = ''/timers'' then (s, sched_timers k r s)
         else if p = ''/timer'' then sched_timer net e r s
         else (s, plain 404 ''error: unknown path''))"

subsection \<open>Connections and the console\<close>

fun ci_strstr :: "string \<Rightarrow> string \<Rightarrow> bool" where
  "ci_strstr [] pat = (pat = [])"
| "ci_strstr (c # r) pat = (ci_prefix (c # r) pat \<or> ci_strstr r pat)"

text \<open>The bytes of the upgrade, \<open>None\<close> when the request is none.\<close>

definition ws_handshake :: "mreq \<Rightarrow> bytes option" where
  "ws_handshake r =
     (case (hdr_value r ''upgrade:'', hdr_value r ''connection:'', hdr_value r ''sec-websocket-key:'') of
        (Some u, Some c, Some key) \<Rightarrow>
          if ci_strstr u ''websocket'' \<and> ci_strstr c ''upgrade'' \<and> key \<noteq> [] then
            map_option (\<lambda>acc. ''HTTP/1.1 101 Switching Protocols'' @ crlf @ ''Upgrade: websocket'' @ crlf @
              ''Connection: Upgrade'' @ crlf @ ''Sec-WebSocket-Accept: '' @ acc @ crlf @ crlf) (ws_make_accept key 64)
          else None
      | _ \<Rightarrow> None)"

datatype conn_end = Replied resp bool | Upgraded bytes

definition sched_handle_conn :: "'w net \<Rightarrow> exo \<Rightarrow> sched_env \<Rightarrow> string \<Rightarrow> rate option \<Rightarrow> int \<Rightarrow> bytes list \<Rightarrow> 'w sched_st
    \<Rightarrow> 'w sched_st \<times> rate option \<times> conn_end" where
  "sched_handle_conn net e k token rt tick segs s =
     (case mod_gate ''/exoexosched'' token rt tick segs of
        (rt', Inl rs) \<Rightarrow> (s, rt', Replied rs False)
      | (rt', Inr r) \<Rightarrow>
          if mpath r = ''/ws'' then
            (if mmethod r \<noteq> ''GET'' then (s, rt', Replied (plain 405 ''error: use GET'') False)
             else (case ws_handshake r of
                     None \<Rightarrow> (s, rt', Replied (plain 400 ''error: not a websocket upgrade'') False)
                   | Some h \<Rightarrow> (s, rt', Upgraded h)))
          else (let (s', rs) = sched_route net e k r s in (s', rt', Replied rs (mmethod r = ''HEAD''))))"

definition sched_dispatch :: "'w net \<Rightarrow> exo \<Rightarrow> sched_env \<Rightarrow> string \<Rightarrow> string \<Rightarrow> string \<Rightarrow> bytes \<Rightarrow> 'w sched_st \<Rightarrow> 'w sched_st \<times> resp" where
  "sched_dispatch net e k meth path query body s =
     sched_route net e k \<lparr>mmethod = take 15 meth, mpath = take 2047 path, mquery = take 8191 query, mbody = body,
       mauth = [], mhdrs = []\<rparr> s"

text \<open>
  A console operation: \<open>input\<close> is what standard input holds (nothing at a terminal). The exit code,
  and what is printed.
\<close>

definition console_run :: "'w net \<Rightarrow> exo \<Rightarrow> sched_env \<Rightarrow> string \<Rightarrow> string \<Rightarrow> bytes \<Rightarrow> 'w sched_st \<Rightarrow> 'w sched_st \<times> nat \<times> bytes" where
  "console_run net e k path body_arg input s =
     (let pq = take 511 path; p0 = takeWhile (\<lambda>c. c \<noteq> CHR ''?'') pq; q = take 1535 (drop (Suc (length p0)) pq);
          p = mod_strip ''/exoexosched'' p0; meth = (if p = ''/remind'' \<or> p = ''/timer'' then ''POST'' else ''GET'');
          body = (if body_arg \<noteq> [] then take 65535 body_arg else if meth \<noteq> ''GET'' then take 65535 input else []);
          (s', rs) = sched_dispatch net e k meth p q body s
      in (s', if p_status rs \<ge> 400 then (if p = ''/delivery'' \<and> p_status rs = 400 then (2, []) else (1, []))
              else (0, cstr (p_body rs))))"

end
