(* ===== verification/Exo_Wire_Ops.thy ===== *)
theory Exo_Wire_Ops
  imports Exo_Wire
begin

text \<open>
  What the operations of a client achieve over the wire: a persist of a short text is a set, a get
  reads the value or finds none, a listing returns exactly the live keys with the prefix.
\<close>

subsection \<open>UTF-8 text\<close>

definition utf8_text :: "bytes \<Rightarrow> bool" where
  "utf8_text s \<longleftrightarrow> (\<exists>cps. (\<forall>cp \<in> set cps. scalar_value cp) \<and> s = concat (map utf8_encode cps))"

lemma utf8_text_append: "utf8_text a \<Longrightarrow> utf8_text b \<Longrightarrow> utf8_text (a @ b)"
proof -
  assume "utf8_text a" "utf8_text b"
  then obtain ca cb where "\<forall>cp \<in> set ca. scalar_value cp" "a = concat (map utf8_encode ca)"
    "\<forall>cp \<in> set cb. scalar_value cp" "b = concat (map utf8_encode cb)" by (auto simp: utf8_text_def)
  then show ?thesis by (auto simp: utf8_text_def intro!: exI [of _ "ca @ cb"])
qed

lemma utf8_text_char: "(of_char c :: nat) < 128 \<Longrightarrow> utf8_text [c]"
proof -
  assume c: "(of_char c :: nat) < 128"
  then have "(of_char c :: u32) < 0xD800" by (simp add: word_less_nat_alt unat_of_char)
  then show ?thesis
    using utf8_encode_ascii [OF c] by (auto simp: utf8_text_def scalar_value_def intro!: exI [of _ "[of_char c]"])
qed

lemma utf8_text_Nil: "utf8_text []"
  by (auto simp: utf8_text_def intro: exI [of _ "[]"])

lemma utf8_text_ascii: "\<forall>c \<in> set s. (of_char c :: nat) < 128 \<Longrightarrow> utf8_text s"
proof (induction s)
  case (Cons c s)
  then show ?case using utf8_text_append [OF utf8_text_char, of c s] by simp
qed (rule utf8_text_Nil)

lemma byte_of_high:
  assumes "bit (w :: u32) 7" and "(of_char c :: nat) < 128"
  shows "byte_of w \<noteq> c"
proof
  assume "byte_of w = c"
  then have e: "(of_char c :: u32) = w AND 255" using of_char_byte_of_u32 [of w] by simp
  have "bit (w AND 255) 7" using assms(1) by (simp add: bit_and_iff bit_numeral_rec)
  then have "bit (of_char c :: u32) 7" using e by simp
  moreover have "(of_char c :: u32) < 2 ^ 7" using assms(2) by (simp add: word_less_nat_alt unat_of_char)
  then have "\<not> bit (of_char c :: u32) 7" by (simp add: bit_iff_odd word_arith_nat_div word_less_nat_alt)
  ultimately show False by blast
qed

lemma utf8_encode_high:
  assumes "\<not> cp < 0x80" and "c \<in> set (utf8_encode cp)" shows "\<not> (of_char c :: nat) < 128"
proof -
  have "bit (0xC0 OR x) 7 \<and> bit (0x80 OR x) 7 \<and> bit (0xE0 OR x) 7 \<and> bit (0xF0 OR x) 7" for x :: u32
    by (simp add: bit_or_iff bit_numeral_rec)
  then show ?thesis
    using assms byte_of_high by (auto simp: utf8_encode_def split: if_split_asm)
qed

lemma utf8_text_scalar: "scalar_value cp \<Longrightarrow> utf8_text (utf8_encode cp)"
  by (auto simp: utf8_text_def intro!: exI [of _ "[cp]"])

lemma esc_char_ascii: "(of_char c :: nat) < 128 \<Longrightarrow> d \<in> set (esc_char c) \<Longrightarrow> (of_char d :: nat) < 128"
  by (auto simp: esc_char_def split: if_split_asm)

lemma esc_char_high: "\<not> (of_char c :: nat) < 128 \<Longrightarrow> esc_char c = [c]"
  by (auto simp: esc_char_def)

lemma utf8_text_esc_cp: "scalar_value cp \<Longrightarrow> utf8_text (esc_line (utf8_encode cp))"
proof (cases "cp < 0x80")
  case True
  then have "utf8_encode cp = [byte_of cp]" by (simp add: utf8_encode_def)
  moreover have "(of_char (byte_of cp) :: nat) < 128"
    using True by (simp add: byte_of_def word_less_nat_alt)
  ultimately show ?thesis
    using esc_char_ascii by (auto simp: esc_line_def intro!: utf8_text_ascii)
next
  case False
  have "concat (map esc_char xs) = xs" if "\<forall>c \<in> set xs. \<not> (of_char c :: nat) < 128" for xs
    using that by (induction xs) (auto simp: esc_char_high)
  then have "esc_line (utf8_encode cp) = utf8_encode cp"
    using utf8_encode_high [OF False] by (simp add: esc_line_def)
  then show "scalar_value cp \<Longrightarrow> ?thesis" by (simp add: utf8_text_scalar)
qed

lemma utf8_text_esc_line: "utf8_text s \<Longrightarrow> utf8_text (esc_line s)"
proof -
  assume "utf8_text s"
  then obtain cps where c: "\<forall>cp \<in> set cps. scalar_value cp" "s = concat (map utf8_encode cps)"
    by (auto simp: utf8_text_def)
  have "utf8_text (esc_line (concat (map utf8_encode cps)))" using c(1)
  proof (induction cps)
    case (Cons cp cps)
    have "esc_line (utf8_encode cp @ r) = esc_line (utf8_encode cp) @ esc_line r" for r
      by (simp add: esc_line_def)
    then show ?case using Cons utf8_text_append [OF utf8_text_esc_cp] by simp
  qed (simp add: esc_line_def utf8_text_Nil)
  then show ?thesis using c(2) by simp
qed

lemma digits_ascii: "isdigit c \<Longrightarrow> (of_char c :: nat) < 128"
  by (auto simp: isdigit_def less_eq_char_def)

lemma show_int_ascii: "c \<in> set (show_int i) \<Longrightarrow> (of_char c :: nat) < 128"
  using show_int_chars' [of c i] digits_ascii by auto

lemma utf8_text_show_int: "utf8_text (show_int i)"
  using show_int_ascii by (intro utf8_text_ascii) blast

lemma json_escape_u_step:
  obtains p m where "json_escape_u (c # r) = p @ json_escape_u (drop m (c # r))" "1 \<le> m" "length p \<le> 12"
proof -
  have u: "length (json_u x) = 6" for x by (simp add: json_u_def show_hex4_def)
  show ?thesis
  proof (cases "c < CHR 0x80")
    case True
    define p where "p = (if c = quot then [bslash, quot] else if c = bslash then [bslash, bslash]
      else if c = nl then [bslash, CHR ''n''] else if c = tab then [bslash, CHR ''t'']
      else if c = cr then [bslash, CHR ''r''] else if c = CHR 0x08 then [bslash, CHR ''b'']
      else if c = CHR 0x0C then [bslash, CHR ''f''] else if c < CHR 0x20 then json_u (of_char c) else [c])"
    have "json_escape_u (c # r) = p @ json_escape_u r" using True by (simp add: p_def)
    moreover have "length p \<le> 12" using u by (simp add: p_def)
    ultimately show ?thesis using that [of p 1] by simp
  next
    case False
    note n = not_ascii_special [OF False]
    show ?thesis
    proof (cases "utf8_decode (c # r)")
      case None
      then show ?thesis using n False by (intro that [of "''?''" 1]) simp_all
    next
      case (Some q)
      obtain cp m where q: "q = (cp, m)" by (cases q)
      have m: "1 \<le> m" using utf8_decode_pos Some q by blast
      have "json_escape_u (c # r) = json_u_cp cp @ json_escape_u (drop m (c # r))"
        using n False Some q by (simp add: json_u_cp_def Let_def)
      then show ?thesis using m u by (intro that [of "json_u_cp cp" m]) (simp_all add: json_u_cp_def)
    qed
  qed
qed

lemma json_escape_u_len: "length (json_escape_u v) \<le> 12 * length v"
proof (induction v rule: length_induct)
  case (1 v)
  show ?case
  proof (cases v)
    case (Cons c r)
    obtain p m where p: "json_escape_u (c # r) = p @ json_escape_u (drop m (c # r))" "1 \<le> m" "length p \<le> 12"
      by (rule json_escape_u_step)
    have l: "length (drop m (c # r)) < length v" using p(2) Cons by simp
    then have "length (json_escape_u (drop m (c # r))) \<le> 12 * length (drop m (c # r))" using 1 by blast
    then show ?thesis using p l Cons by (simp del: json_escape_u.simps drop.simps)
  qed simp
qed

subsection \<open>Persisting a short text\<close>

definition exo_ok :: "exo \<Rightarrow> bool" where
  "exo_ok e \<longleftrightarrow> word_ok (x_host e) \<and> length (x_host e) \<le> 255 \<and> 0 \<le> x_port e \<and> x_port e \<le> 65535"

lemma persist_text:
  assumes e: "exo_ok e" and key: "key_word key" and v: "utf8_text v" "nul \<notin> set v" "length v \<le> 1048576"
    and ttl: "0 \<le> ttl" "ttl \<le> 315360000"
    and sim: "sim t0 (a_main a) m" "t0 \<le> t" "int64 t" and proj: "a_proj a = None"
    and sg: "segmentation segs" "segmentation segs'"
  shows "\<exists>a'. client_persist (wire_net c (\<lambda>_. healthy t) segs segs') e key v ttl a = (None, a') \<and>
      sim t (a_main a') (m(key \<mapsto> (v, t, if ttl \<noteq> 0 then t + ttl * 1000 else 0))) \<and>
      a' = a\<lparr>a_main := a_main a'\<rparr>"
proof -
  obtain cps where cps: "\<forall>cp \<in> set cps. scalar_value cp" "v = concat (map utf8_encode cps)"
    using v(1) by (auto simp: utf8_text_def)
  have "length (json_escape_u v) \<le> 12 * 1048576" using json_escape_u_len [of v] v(3) by linarith
  moreover have "length (show_int ttl) \<le> 11" using show_int_len [of ttl 10] ttl by simp
  moreover have "length key \<le> 400" using key by (simp add: key_word_def)
  ultimately have sz: "length (persist_body key v ttl) \<le> MAX_BODY"
    by (simp add: persist_body_def jname_def MAX_BODY_def)
  have cl: "clamp_ttl ttl = ttl" using ttl by (simp add: clamp_ttl_def)
  have "LLONG_MIN \<le> ttl" "ttl \<le> LLONG_MAX" using ttl by (simp_all add: LLONG_MIN_def LLONG_MAX_def)
  moreover have "length v \<le> MAX_VAL" using v(3) by (simp add: MAX_VAL_def)
  ultimately show ?thesis
    using persist_served [OF _ _ _ _ key cps v(2) _ sz _ _ sim proj sg, of e c] e
    unfolding cl exo_ok_def by blast
qed

lemma persist_short:
  assumes "exo_ok e" "key_word key" "utf8_text v" "nul \<notin> set v" "length v \<le> 4096" "0 \<le> ttl" "ttl \<le> 315360000"
    "sim t0 (a_main a) m" "t0 \<le> t" "int64 t" "a_proj a = None" "segmentation segs" "segmentation segs'"
  shows "\<exists>a'. client_persist (wire_net c (\<lambda>_. healthy t) segs segs') e key v ttl a = (None, a') \<and>
      sim t (a_main a') (m(key \<mapsto> (v, t, if ttl \<noteq> 0 then t + ttl * 1000 else 0))) \<and>
      a' = a\<lparr>a_main := a_main a'\<rparr>"
  using assms by (intro persist_text) simp_all

subsection \<open>Reading a key, leaving a note\<close>

text \<open>A key that needs no encoding in a query.\<close>

definition raw_key :: "string \<Rightarrow> bool" where
  "raw_key k \<longleftrightarrow> key_word k \<and> take 2 k \<noteq> ''p:'' \<and>
     (\<forall>c \<in> set k. c \<noteq> CHR ''&'' \<and> c \<noteq> CHR ''%'' \<and> c \<noteq> CHR ''+'' \<and> c \<noteq> CHR ''?'')"

lemma url_decode_id: "CHR ''%'' \<notin> set p \<Longrightarrow> CHR ''+'' \<notin> set p \<Longrightarrow> url_decode p = p"
  by (induction p) (auto simp: url_decode_plain)

lemma raw_key_target:
  assumes "raw_key k"
  shows "split_url (''/get?key='' @ k) = (''/get'', ''key='' @ k)" "qp_key (''key='' @ k) = KKey k"
    "word_ok (''/get?key='' @ k)" "length (''/get?key='' @ k) \<le> 1023"
proof -
  have k: "length k \<le> 400" "nul \<notin> set k" "CHR ''&'' \<notin> set k" "CHR ''%'' \<notin> set k" "CHR ''+'' \<notin> set k"
    using assms by (auto simp: raw_key_def key_word_def)
  obtain q where q: "q = ''key='' @ k" by simp
  have "take 8191 q = q" using k(1) by (simp add: q)
  moreover have "take 2047 ''/get'' = ''/get''" by simp
  ultimately show "split_url (''/get?key='' @ k) = (''/get'', ''key='' @ k)"
    unfolding q [symmetric] by (simp add: split_url_def) (simp add: q)
  have "CHR ''&'' \<notin> set q" using k(3) by (simp add: q)
  then have "split_on (CHR ''&'') q = [q]" by (rule split_on_word)
  then have "qp_raw q ''key'' = Some k" unfolding qp_raw_def by (simp only:) (use assms in \<open>simp add: q raw_key_def key_word_def\<close>)
  then show "qp_key (''key='' @ k) = KKey k"
    unfolding q [symmetric] using url_decode_id [OF k(4,5)] cstr_id [OF k(2)] k(1) by (simp add: qp_key_def MAX_KEY_def)
  show "word_ok (''/get?key='' @ k)" "length (''/get?key='' @ k) \<le> 1023"
    using assms k(1) by (auto simp: word_ok_def raw_key_def key_word_def)
qed

lemma get_missing:
  assumes e: "exo_ok e" and key: "raw_key key" and sim: "sim t0 (a_main a) m" "t0 \<le> t" "int64 t"
    and miss: "view (a_main a) t key = None" and proj: "a_proj a = None"
    and sg: "segmentation segs" "segmentation segs'"
  shows "\<exists>a'. exo_request (wire_net c (\<lambda>_. healthy t) segs segs') e ''GET'' (''/get?key='' @ key) [] False a = (Inr (404, ''missing''), a') \<and>
      sim t (a_main a') m \<and> a' = a\<lparr>a_main := a_main a'\<rparr>"
proof -
  note tg = raw_key_target [OF key]
  obtain rq where rq: "rq = sent_request ''GET'' (''/get?key='' @ key) [] False" by simp
  have sr: "rmethod rq = ''GET''" "rpath rq = ''/get''" "rquery rq = ''key='' @ key"
    unfolding rq sent_request_def tg(1) by simp_all
  let ?a = "a\<lparr>a_main := fst (store_get (a_main a) key t)\<rparr>"
  have g: "snd (store_get (a_main a) key t) = None"
    using miss by (simp add: store_get_view split: prod.split)
  have k: "take 2 key \<noteq> ''p:''" "key \<noteq> []" using key by (auto simp: raw_key_def key_word_def)
  have "do_get None rq (\<lambda>_. healthy t) a = (?a, plain 404 ''missing'')"
    unfolding do_get_def with_key_def sr tg(2)
    using g proj by (simp add: k tok_allows_key_def pick_store_def pick_proj_def srv_get_def use_main case_prod_unfold Let_def)
  then have "route c None rq (\<lambda>_. healthy t) a = Some (?a, plain 404 ''missing'')" by (simp add: route_def sr)
  from wire_request [OF _ _ _ _ _ tg(3) _ _ _ this [unfolded rq] _ _ _ sg, of e]
  have r: "exo_request (wire_net c (\<lambda>_. healthy t) segs segs') e ''GET'' (''/get?key='' @ key) [] False a = (Inr (404, ''missing''), ?a)"
    unfolding tg(1) using e tg(4) by (simp add: exo_ok_def plain_def MAX_BODY_def EXO_MAX_BODY_def strip_module_def)
  have "sim t (fst (store_get (a_main a) key t)) m" using exec_sim [OF sim, of "CGet key"] by simp
  then show ?thesis using r by auto
qed

lemma note_served:
  assumes e: "exo_ok e" and b: "b \<noteq> []" "length b \<le> MAX_VAL" and sim: "sim t0 (a_main a) m" "t0 \<le> t" "int64 t"
    and proj: "a_proj a = None" and sg: "segmentation segs" "segmentation segs'"
  shows "\<exists>a' nk. client_note (wire_net c (\<lambda>_. healthy t) segs segs') e b a = (None, a') \<and> take 5 nk = ''note:'' \<and>
      sim t (a_main a') (m(nk \<mapsto> (b, t, 0))) \<and> a_proj a' = None"
proof -
  obtain st rnd where rnd: "rand16 (c_seed c) (a_rand a) = (st, rnd)" by fastforce
  let ?k = "note_key t rnd" and ?a1 = "a\<lparr>a_rand := st\<rparr>"
  let ?a = "?a1\<lparr>a_main := fst (store_set (a_main a) ?k b 0 False (healthy t))\<rparr>"
  have n: "take 5 ?k = ''note:''" by (simp add: note_key_def)
  have "?k \<noteq> []" "length ?k \<le> MAX_KEY" by (simp_all add: note_key_def MAX_KEY_def)
  then have ko: "key_ok ?k" by (simp add: key_ok_def)
  have "sim t (a_main a) m" using sim(1,2) by (rule sim_mono)
  then obtain rs where inv: "store_inv t rs (a_main a)" by (auto simp: sim_def)
  have rc: "snd (store_set (a_main a) ?k b 0 False (healthy t)) = 0"
    using b(2) sim(3) by (intro store_set_ok(1) [OF inv ko]) (simp_all add: set_value_def)
  obtain rq where rq: "rq = sent_request ''POST'' ''/note'' b False" by simp
  have su: "split_url ''/note'' = (''/note'', [])" by (simp add: split_url_def)
  have sr: "rmethod rq = ''POST''" "rpath rq = ''/note''" "rbody rq = b"
    unfolding rq sent_request_def su using b(1) by simp_all
  have "do_note (c_seed c) None rq (\<lambda>_. healthy t) a = (?a, plain 200 (''ok '' @ ?k))"
    using rc b(1) by (simp add: do_note_def sr rnd tok_can_write_def tok_allows_key_def srv_set_def use_main case_prod_unfold Let_def)
  then have "route c None rq (\<lambda>_. healthy t) a = Some (?a, plain 200 (''ok '' @ ?k))" by (simp add: route_def sr)
  from wire_request [OF _ _ _ _ _ _ _ _ _ this [unfolded rq] _ _ _ sg, of e]
  have "exo_request (wire_net c (\<lambda>_. healthy t) segs segs') e ''POST'' ''/note'' b False a = (Inr (200, ''ok '' @ ?k), ?a)"
    unfolding su using e b(2) by (simp add: exo_ok_def plain_def MAX_BODY_def MAX_VAL_def EXO_MAX_BODY_def strip_module_def word_ok_def note_key_def)
  then have "client_note (wire_net c (\<lambda>_. healthy t) segs segs') e b a = (None, ?a)"
    by (simp add: client_note_def)
  moreover have "sim t (a_main ?a) (m(?k \<mapsto> (b, t, 0)))"
    using exec_sim [OF sim, of "CSet ?k b 0 False"] ko b(2) by (simp add: spec_value_def clamp_ttl_def)
  ultimately show ?thesis using n proj by auto
qed

subsection \<open>Listing keys\<close>

lemma live_slot:
  assumes "store_inv t rs s" "t \<le> now"
  shows "(\<exists>e. find_slot (sidx s) k = Some e \<and> \<not> expired now e) \<longleftrightarrow> view s now k \<noteq> None"
proof
  assume "\<exists>e. find_slot (sidx s) k = Some e \<and> \<not> expired now e"
  then obtain e where e: "find_slot (sidx s) k = Some e" "\<not> expired now e" by blast
  have "index_ok (sidx s)" using assms(1) by (simp add: store_inv_def)
  then have "e \<in> set (entries (sidx s))" using e(1) entries_find find_slot_key [OF e(1)] by blast
  then have "readable (simg s) e" using live_readable [OF assms _ e(2)] by blast
  then show "view s now k \<noteq> None" using e by (auto simp: view_def readable_def)
qed (auto simp: view_def split: option.split_asm if_split_asm)

lemma walk_not_full:
  "length acc + length (List.map_filter (list_hit ix now) (takeWhile (has_prefix p) cs)) < MAX_QUERY \<Longrightarrow>
    \<not> snd (list_walk ix now p cs acc)"
proof (induction ix now p cs acc rule: list_walk.induct)
  case (2 ix now p c cs acc)
  show ?case
  proof (cases "has_prefix p c \<and> length acc < MAX_QUERY")
    case True
    then show ?thesis
      using 2 by (auto simp: list_hit_def List.map_filter_simps split: option.splits if_split_asm)
  next
    case False
    then show ?thesis using 2 by auto
  qed
qed simp

lemma query_list_sim:
  assumes sim: "sim t0 s m" "t0 \<le> t" and p: "nul \<notin> set p"
    and few: "card {k. take (length p) k = p \<and> live_at t (m k) \<noteq> None} < MAX_QUERY"
  shows "\<exists>s' arr. store_query s Q_LIST (Some p) sub desc t = (s', arr, False) \<and> distinct (map kkey arr) \<and>
    set (map kkey arr) = {k. take (length p) k = p \<and> live_at t (m k) \<noteq> None} \<and> sim t s' m"
proof -
  have st: "sim t s m" using sim by (rule sim_mono)
  then obtain rs where inv: "store_inv t rs s" "clean s" "aux_inv s" "\<forall>u \<ge> t. \<forall>k. log_view rs u k = live_at u (m k)"
    by (auto simp: sim_def)
  have ok: "index_ok (sidx s)" using inv(1) by (simp add: store_inv_def)
  have cp: "cstr p = p" using p by (rule cstr_id)
  have live: "(\<exists>e. find_slot (sidx s) k = Some e \<and> \<not> expired t e) \<longleftrightarrow> live_at t (m k) \<noteq> None" for k
    using live_slot [OF inv(1) order_refl] sim_view [OF st order_refl] by simp
  let ?s = "kix_ensure s"
  note ke = kix_ensure_ok [OF inv(3) ok]
  let ?hits = "List.map_filter (list_hit (sidx s) t) (kix_range (skix ?s) p)"
  have ks: "ksorted (skix ?s)" and comp: "dom (find_slot (sidx s)) \<subseteq> set (skix ?s)"
    using ke by (auto simp: aux_inv_def)
  have kk: "map kkey ?hits = filter (\<lambda>k. live_at t (m k) \<noteq> None) (kix_range (skix ?s) p)"
  proof -
    have "map kkey (List.map_filter (list_hit (sidx s) t) xs) = filter (\<lambda>k. live_at t (m k) \<noteq> None) xs" for xs
    proof (induction xs)
      case (Cons x xs)
      have "list_hit (sidx s) t x \<noteq> None \<longleftrightarrow> live_at t (m x) \<noteq> None"
        using live [of x] by (auto simp: list_hit_def split: option.split)
      moreover have "list_hit (sidx s) t x = Some y \<Longrightarrow> kkey y = x" for y
        by (auto simp: list_hit_Some push_kv_def)
      ultimately show ?case using Cons by (cases "list_hit (sidx s) t x") (auto simp: List.map_filter_simps)
    qed (simp add: List.map_filter_simps)
    then show ?thesis .
  qed
  have dist: "distinct (map kkey ?hits)"
    unfolding kk using ksorted_distinct [OF kix_range_set(2) [OF ks]] by simp
  have mem: "k \<in> set (kix_range (skix ?s) p) \<longleftrightarrow> k \<in> set (skix ?s) \<and> take (length p) k = p" for k
    by (simp add: kix_range_set(1) [OF ks])
  have set: "set (map kkey ?hits) = {k. take (length p) k = p \<and> live_at t (m k) \<noteq> None}"
  proof -
    have "k \<in> set (skix ?s)" if "live_at t (m k) \<noteq> None" for k using live [of k] that comp by blast
    then show ?thesis unfolding kk using mem by auto
  qed
  have "length ?hits < MAX_QUERY"
    using few distinct_card [OF dist] unfolding set by simp
  then have nf: "\<not> snd (list_walk (sidx ?s) t p (drop (kix_range_lo (skix ?s) p) (skix ?s)) [])"
    by (intro walk_not_full) (simp add: kix_range_def ke)
  obtain s' arr tr where q: "store_query s Q_LIST (Some p) sub desc t = (s', arr, tr)" by (rule prod_cases3)
  have tr: "\<not> tr" and s': "s' = ?s"
    and arr: "arr = qsort (if desc then cmp_list_desc else cmp_list_asc)
      (fst (list_walk (sidx ?s) t p (drop (kix_range_lo (skix ?s) p) (skix ?s)) []))"
    using q nf by (auto simp: store_query_def Let_def split_beta cp)
  have "fst (list_walk (sidx ?s) t p (drop (kix_range_lo (skix ?s) p) (skix ?s)) []) = ?hits"
    using list_walk_filter [OF nf] by (simp add: kix_range_def ke)
  then have ms: "mset arr = mset ?hits" unfolding arr by simp
  have "mset (map kkey arr) = mset (map kkey ?hits)" using ms by (metis mset_map)
  then have "distinct (map kkey arr)" "set (map kkey arr) = set (map kkey ?hits)"
    using dist mset_eq_imp_distinct_iff mset_eq_setD by blast+
  moreover have "sim t ?s m"
  proof -
    have "store_inv t rs ?s" "clean ?s"
      using inv(1,2) ke by (auto simp: store_inv_def clean_def kix_ensure_def)
    then show ?thesis using inv(4) ke(1) by (auto simp: sim_def)
  qed
  ultimately show ?thesis using q tr s' set by auto
qed

text \<open>A prefix that needs no encoding.\<close>

definition plain_pre :: "string \<Rightarrow> bool" where
  "plain_pre p \<longleftrightarrow> p \<noteq> [] \<and> length p \<le> 400 \<and>
     (\<forall>c \<in> set p. c \<notin> {CHR ''&'', CHR ''%'', CHR ''+'', CHR ''?'', CHR '' '', cr, nl, nul})"

lemma list_params:
  assumes "plain_pre p"
  defines "q \<equiv> ''prefix='' @ p @ ''&limit=10000''"
  shows "split_url (''/list?'' @ q) = (''/list'', q)" "qp_str q ''prefix'' 4096 = Some p" "qp_str q ''sort'' 4096 = None"
    "qp_str q ''json'' 4096 = None" "qp_str q ''proj'' 8 = None" "qp_int q ''offset'' 0 = 0" "qp_int q ''limit'' 100 = 10000"
proof -
  have s: "split_on (CHR ''&'') q = [''prefix='' @ p, ''limit=10000'']"
  proof -
    obtain w where w: "w = ''prefix='' @ p" by simp
    have "CHR ''&'' \<notin> set p" using assms(1) by (auto simp: plain_pre_def)
    then have "CHR ''&'' \<notin> set w" by (simp add: w)
    moreover have "q = w @ CHR ''&'' # ''limit=10000''" by (simp add: q_def w)
    moreover have "split_on (CHR ''&'') ''limit=10000'' = [''limit=10000'']" by code_simp
    ultimately show ?thesis unfolding w [symmetric] by (simp only: split_on_append not_False_eq_True)
  qed
  have raw: "qp_raw q ''prefix'' = Some p" "qp_raw q ''sort'' = None" "qp_raw q ''json'' = None" "qp_raw q ''proj'' = None"
    "qp_raw q ''offset'' = None" "qp_raw q ''limit'' = Some ''10000''"
    unfolding qp_raw_def s by simp_all
  have p: "cstr (url_decode (take 4095 p)) = p"
  proof -
    have c: "CHR ''%'' \<notin> set p" "CHR ''+'' \<notin> set p" "nul \<notin> set p" "length p \<le> 4095"
      using assms(1) by (fastforce simp: plain_pre_def)+
    show ?thesis using url_decode_id [OF c(1,2)] cstr_id [OF c(3)] c(4) by simp
  qed
  have n: "strtoll ''10000'' = (10000, [])" by code_simp
  have d: "url_decode ''10000'' = ''10000''" "cstr ''10000'' = ''10000''" by code_simp+
  show "qp_str q ''prefix'' 4096 = Some p" "qp_str q ''sort'' 4096 = None"
    "qp_str q ''json'' 4096 = None" "qp_str q ''proj'' 8 = None" "qp_int q ''offset'' 0 = 0" "qp_int q ''limit'' 100 = 10000"
    using p n d by (simp_all add: qp_str_def qp_int_def raw)
  show "split_url (''/list?'' @ q) = (''/list'', q)"
  proof -
    have "length p \<le> 400" using assms(1) by (simp add: plain_pre_def)
    then have "take 8191 q = q" by (simp add: q_def)
    then show ?thesis by (simp add: split_url_def)
  qed
qed

lemma chop_eol_id: "k \<noteq> [] \<Longrightarrow> cr \<notin> set k \<Longrightarrow> nl \<notin> set k \<Longrightarrow> chop_eol k = k"
  by (cases k rule: rev_cases) (auto simp: chop_eol_def)

lemma resp_lines_keys:
  assumes "\<forall>k \<in> set ks. key_word k"
  shows "resp_lines (concat (map (\<lambda>k. k @ [nl]) ks)) = ks"
proof -
  have "nul \<notin> set (concat (map (\<lambda>k. k @ [nl]) ks))" using assms by (auto simp: key_word_def)
  then have c: "cstr (concat (map (\<lambda>k. k @ [nl]) ks)) = concat (map (\<lambda>k. k @ [nl]) ks)" by (rule cstr_id)
  have "\<forall>k \<in> set ks. k \<noteq> [] \<and> nl \<notin> set k" using assms by (auto simp: key_word_def)
  then have "strtok_all (\<lambda>c. c = nl) (concat (map (\<lambda>k. k @ [nl]) ks)) = ks" by (rule strtok_all_lines)
  moreover have "map chop_eol ks = ks"
    using assms by (intro map_idI chop_eol_id) (auto simp: key_word_def)
  ultimately show ?thesis by (simp add: resp_lines_def c)
qed

lemma list_served:
  assumes e: "exo_ok e" and p: "plain_pre p" "take 2 p \<noteq> ''p:''" and sim: "sim t0 (a_main a) m" "t0 \<le> t"
    and few: "card {k. take (length p) k = p \<and> live_at t (m k) \<noteq> None} < MAX_QUERY"
    and keys: "\<And>k. take (length p) k = p \<Longrightarrow> live_at t (m k) \<noteq> None \<Longrightarrow> key_word k"
    and proj: "a_proj a = None" and sg: "segmentation segs" "segmentation segs'"
  shows "\<exists>ks a'. client_list (wire_net c (\<lambda>_. healthy t) segs segs') e p a = (Inr ks, a') \<and> distinct ks \<and>
    set ks = {k. take (length p) k = p \<and> live_at t (m k) \<noteq> None} \<and> sim t (a_main a') m \<and> a' = a\<lparr>a_main := a_main a'\<rparr>"
proof -
  let ?q = "''prefix='' @ p @ ''&limit=10000''" and ?L = "{k. take (length p) k = p \<and> live_at t (m k) \<noteq> None}"
  note lp = list_params [OF p(1)]
  have nn: "nul \<notin> set p" using p(1) by (auto simp: plain_pre_def)
  obtain s' arr where qy: "store_query (a_main a) Q_LIST (Some p) None False t = (s', arr, False)"
    and arr: "distinct (map kkey arr)" "set (map kkey arr) = ?L" and s': "sim t s' m"
    using query_list_sim [OF sim nn few] by blast
  let ?ks = "map kkey arr" and ?a = "a\<lparr>a_main := s'\<rparr>"
  let ?b = "concat (map (\<lambda>k. k @ [nl]) ?ks)"
  have kw: "\<forall>k \<in> set ?ks. key_word k" using arr(2) keys by auto
  have len: "length ?ks < MAX_QUERY" using few distinct_card [OF arr(1)] arr(2) by simp
  obtain rq where rq: "rq = sent_request ''GET'' (''/list?'' @ ?q) [] False" by simp
  have sr: "rmethod rq = ''GET''" "rpath rq = ''/list''" "rquery rq = ?q"
    unfolding rq sent_request_def lp(1) by simp_all
  have pk: "pick_store a (Some p) (Some ?q) = False" using proj by (simp add: pick_store_def pick_proj_def)
  have pg: "page 0 10000 arr = arr" using len by (simp add: page_def MAX_QUERY_def)
  have body: "concat (map (\<lambda>e. cstr (kkey e) @ [nl]) arr) = ?b"
  proof -
    have "cstr (kkey x) = kkey x" if "x \<in> set arr" for x
      using kw that by (intro cstr_id) (auto simp: key_word_def)
    then show ?thesis by (induction arr) auto
  qed
  have "do_list None rq (\<lambda>_. healthy t) a = (?a, plain 200 ?b)"
  proof -
    obtain q where q: "q = ?q" by simp
    note l = lp [folded q] and sr' = sr [folded q] and pk' = pk [folded q]
    have o: "off_param rq = 0" "lim_param rq 100 10000 = 10000" "\<not> json_flag rq"
      unfolding off_param_def lim_param_def json_flag_def sr' l by simp_all
    show ?thesis
      unfolding do_list_def sr' l Let_def
      by (simp add: pk' srv_query_def use_main qy filter_scope_def o pg listing_def body [unfolded comp_def map_map] comp_def)
  qed
  then have rt: "route c None rq (\<lambda>_. healthy t) a = Some (?a, plain 200 ?b)" by (simp add: route_def sr)
  have "length ?b \<le> length ?ks * 401"
  proof -
    have "length (concat (map (\<lambda>k. k @ [nl]) ks)) \<le> length ks * 401" if "\<forall>k \<in> set ks. key_word k" for ks
      using that by (induction ks) (auto simp: key_word_def)
    then show ?thesis using kw by blast
  qed
  then have bl: "length ?b \<le> EXO_MAX_BODY" using len by (simp add: EXO_MAX_BODY_def MAX_QUERY_def)
  have tg: "word_ok (''/list?'' @ ?q)" "length (''/list?'' @ ?q) \<le> 1023"
    using p(1) by (auto simp: word_ok_def plain_pre_def)
  have st: "strip_module ''/list'' = ''/list''" by (simp add: strip_module_def)
  have "exo_request (wire_net c (\<lambda>_. healthy t) segs segs') e ''GET'' (''/list?'' @ ?q) [] False a = (Inr (200, ?b), ?a)"
    using wire_request [OF _ _ _ _ _ tg(1) _ _ _ rt [unfolded rq] _ _ _ sg] e tg(2) bl lp(1) st
    by (simp add: exo_ok_def plain_def MAX_BODY_def)
  moreover have "take 1023 (''/list?prefix='' @ p @ ''&limit=10000'') = ''/list?'' @ ?q" using tg(2) by simp
  ultimately have "client_list (wire_net c (\<lambda>_. healthy t) segs segs') e p a = (Inr (filter (\<lambda>l. l \<noteq> []) (resp_lines ?b)), ?a)"
    unfolding client_list_def by simp
  then have "client_list (wire_net c (\<lambda>_. healthy t) segs segs') e p a = (Inr (filter (\<lambda>l. l \<noteq> []) ?ks), ?a)"
    unfolding resp_lines_keys [OF kw] .
  moreover have "filter (\<lambda>l. l \<noteq> []) ?ks = ?ks" using kw by (intro filter_True) (auto simp: key_word_def)
  ultimately show ?thesis using arr s' by auto
qed

end
