(* ===== verification/Exo_Sched_Props.thy ===== *)
theory Exo_Sched_Props
  imports Exo_Sched_Http Exo_Wire_Ops
begin

text \<open>
  What exosched's requests achieve together with exomind: an accepted schedule is in exomind's store
  and would be reloaded, the delivery counters agree with their persisted form.
\<close>

subsection \<open>An accepted schedule\<close>

lemma utf8_text_timer_value: "utf8_text mg \<Longrightarrow> utf8_text (timer_value fire rep until mg)"
proof -
  assume m: "utf8_text mg"
  have t: "utf8_text (tab # s)" if "utf8_text s" for s
    using utf8_text_append [OF utf8_text_char that, of tab] by simp
  show ?thesis
    using utf8_text_esc_line [OF m] utf8_text_show_int t utf8_text_append by (simp add: timer_value_def)
qed

lemma timer_ttl_range: "60 \<le> timer_ttl f now \<and> timer_ttl f now \<le> 315360000"
  by (simp add: timer_ttl_def Let_def)

lemma show_hex8_chars: "c \<in> set (show_hex8 w) \<Longrightarrow> c \<in> set ''0123456789abcdef''"
proof -
  have h: "''0123456789abcdef'' ! (x mod 16) \<in> set ''0123456789abcdef''" for x :: nat by (rule nth_mem) simp
  assume "c \<in> set (show_hex8 w)"
  then obtain j where "c = ''0123456789abcdef'' ! (unat w div 16 ^ j mod 16)"
    unfolding show_hex8_def set_map by blast
  then show ?thesis using h by simp
qed

lemma timer_id_word:
  assumes "i = timer_id_of now r" shows "key_word (timer_key i)" "length i < TIMER_ID_MAX"
    "timer_key i = EXO_KEY_PREFIX @ i"
proof -
  have c: "x \<noteq> CHR '' '' \<and> x \<noteq> cr \<and> x \<noteq> nl \<and> x \<noteq> nul \<and> x \<noteq> quot \<and> x \<noteq> bslash" if "x \<in> set i" for x
  proof -
    have "x \<in> set (show_int now) \<or> x = CHR '':'' \<or> x \<in> set (show_hex8 r)"
      using that assms by (auto simp: timer_id_of_def dest: in_set_takeD)
    then show ?thesis
      using show_int_clean [of x now] show_int_chars' [of x now] show_hex8_chars [of x r]
      by (auto simp: isdigit_def)
  qed
  show l: "length i < TIMER_ID_MAX" using assms by (simp add: timer_id_of_def TIMER_ID_MAX_def)
  then show k: "timer_key i = EXO_KEY_PREFIX @ i" by (simp add: timer_key_def EXO_KEY_PREFIX_def TIMER_ID_MAX_def)
  have p: "\<forall>x \<in> set EXO_KEY_PREFIX. x \<noteq> CHR '' '' \<and> x \<noteq> cr \<and> x \<noteq> nl \<and> x \<noteq> nul \<and> x \<noteq> quot \<and> x \<noteq> bslash"
    by (simp add: EXO_KEY_PREFIX_def)
  show "key_word (timer_key i)"
    unfolding key_word_def k using c p l by (auto simp: EXO_KEY_PREFIX_def TIMER_ID_MAX_def)
qed

lemma make_timer_id_fresh:
  "make_timer_id n k reg g = (g', Some i) \<Longrightarrow> timer_find reg i = None \<and> (\<exists>now r. i = timer_id_of now r)"
proof (induction n arbitrary: g)
  case (Suc n)
  let ?g = "sched_rand32 (k_seed k) g" and ?i = "timer_id_of (k_id k n) (sched_rand32 (k_seed k) g)"
  show ?case
  proof (cases "timer_find reg ?i = None")
    case True
    then show ?thesis using Suc.prems by (auto simp: Let_def)
  next
    case False
    then have "make_timer_id n k reg ?g = (g', Some i)"
      using Suc.prems by (simp only: make_timer_id.simps Let_def if_False)
    then show ?thesis by (rule Suc.IH)
  qed
qed simp

lemma timer_value_nul: "nul \<notin> set mg \<Longrightarrow> nul \<notin> set (timer_value fire rep until mg)"
proof -
  assume n: "nul \<notin> set mg"
  have e: "nul \<in> set (esc_char c) \<longleftrightarrow> nul = c" for c by (simp add: esc_char_def)
  have "nul \<notin> set (esc_line mg)" using n by (simp add: esc_line_def e)
  moreover have "nul \<notin> set (show_int j)" for j using show_int_clean by blast
  ultimately show ?thesis by (simp add: timer_value_def)
qed

lemma find_insert:
  "find (\<lambda>t. tid t = i) ts = None \<Longrightarrow> tid x = i \<Longrightarrow> find (\<lambda>t. tid t = i) (insert_locked x ts) = Some x"
  by (induction ts) (auto split: if_split_asm)

lemma accepted_reminder:
  assumes r: "mmethod r = ''POST''" "mbody r \<noteq> []" "parse_schedule (mbody r) (k_parse k) = Inr p"
    and i: "make_timer_id 4 k (q_reg s) (q_rng s) = (g, Some i)" "timer_find (k_others k (q_reg s)) i = None"
    and p: "0 < s_fire p" "s_fire p \<le> LLONG_MAX" "0 \<le> s_repeat p" "s_repeat p \<le> LLONG_MAX" "0 \<le> s_until p" "s_until p \<le> LLONG_MAX"
    and mg: "utf8_text (s_msg p)" "nul \<notin> set (s_msg p)"
    and len: "length (timer_value (s_fire p) (s_repeat p) (s_until p) (s_msg p)) + 64 \<le> 4096"
    and e: "exo_ok e" and sim: "sim t0 (a_main (q_net s)) m" "t0 \<le> t" "int64 t" and proj: "a_proj (q_net s) = None"
    and sg: "segmentation segs" "segmentation segs'"
  defines "v \<equiv> timer_value (s_fire p) (s_repeat p) (s_until p) (s_msg p)"
  shows "\<exists>s'. sched_remind (wire_net c (\<lambda>_. healthy t) segs segs') e k r s =
        (s', plain 200 (''ok '' @ i @ CHR '' '' # show_int (s_fire p))) \<and>
      timer_find (q_reg s') i = Some (mk_timer i (s_fire p) (s_repeat p) (s_until p) (if s_receipt p then 1 else 0)
        (s_msg p) (k_now k) (k_mono k)) \<and>
      sim t (a_main (q_net s')) (m(timer_key i \<mapsto> (v, t, t + timer_ttl (s_fire p) (k_ttl k) * 1000))) \<and>
      reload_parse (timer_key i) v = Some \<lparr>iid = i, ifire = s_fire p, irepeat = s_repeat p,
        iuntil = (if s_repeat p > 0 then s_until p else 0), imsg = s_msg p\<rparr>"
proof -
  obtain now w where iw: "i = timer_id_of now w" using make_timer_id_fresh [OF i(1)] by blast
  note tw = timer_id_word [OF iw]
  have vt: "utf8_text v" "nul \<notin> set v" "length v \<le> 4096"
    using utf8_text_timer_value [OF mg(1)] timer_value_nul [OF mg(2)] len by (simp_all add: v_def)
  note tr = timer_ttl_range [of "s_fire p" "k_ttl k"]
  obtain a' where a': "client_persist (wire_net c (\<lambda>_. healthy t) segs segs') e (timer_key i) v
        (timer_ttl (s_fire p) (k_ttl k)) (q_net s) = (None, a')"
    "sim t (a_main a') (m(timer_key i \<mapsto> (v, t, t + timer_ttl (s_fire p) (k_ttl k) * 1000)))"
    using persist_short [OF e tw(1) vt _ _ sim proj sg, of "timer_ttl (s_fire p) (k_ttl k)" c] tr by auto
  let ?t = "mk_timer i (s_fire p) (s_repeat p) (s_until p) (if s_receipt p then 1 else 0) (s_msg p) (k_now k) (k_mono k)"
  let ?reg = "\<lparr>rtimers = insert_locked ?t (rtimers (k_others k (q_reg s))), rgen = rgen (k_others k (q_reg s)) + 1\<rparr>"
  have tid: "tid ?t = i" using tw(2) by (simp add: mk_timer_def)
  have "timer_find ?reg i = Some ?t"
    using i(2) find_insert [of i "rtimers (k_others k (q_reg s))" ?t] tid by (simp add: timer_find_def)
  moreover have "sched_remind (wire_net c (\<lambda>_. healthy t) segs segs') e k r s =
      (s\<lparr>q_rng := g, q_reg := ?reg, q_net := a'\<rparr>, plain 200 (''ok '' @ i @ CHR '' '' # show_int (s_fire p)))"
    using r len i a'(1) by (simp add: sched_remind_def Let_def v_def timer_add_def)
  moreover have "reload_parse (timer_key i) v = Some \<lparr>iid = i, ifire = s_fire p, irepeat = s_repeat p,
        iuntil = (if s_repeat p > 0 then s_until p else 0), imsg = s_msg p\<rparr>"
    unfolding v_def tw(3) using p tw(2) by (intro reload_parse_value)
  ultimately show ?thesis using a'(2) by auto
qed

subsection \<open>Delivery counters\<close>

definition stats_range :: "dstats \<Rightarrow> bool" where
  "stats_range s \<longleftrightarrow>
     list_all (\<lambda>i. LLONG_MIN \<le> i \<and> i \<le> LLONG_MAX)
       [ds_fired s, ds_acked s, ds_unacked s, ds_last_acked s, ds_last_unacked s]"

text \<open>What follows the first occurrence of a key.\<close>

definition after_key :: "string \<Rightarrow> string \<Rightarrow> string option" where
  "after_key v k = map_option (\<lambda>i. drop (i + length k) v) (find_sub v k)"

lemma after_key_Cons:
  "after_key (c # r) k = (if take (length k) (c # r) = k then Some (drop (length k) (c # r)) else after_key r k)"
  by (simp add: after_key_def option.map_comp o_def)

lemma after_key_skip: "(\<forall>c \<in> set d. c \<noteq> p) \<Longrightarrow> after_key (d @ s) (p # ps) = after_key s (p # ps)"
  by (induction d) (auto simp: after_key_Cons)

lemma after_key_show_int:
  "\<not> isdigit p \<Longrightarrow> p \<noteq> CHR ''-'' \<Longrightarrow> after_key (show_int i @ s) (p # ps) = after_key s (p # ps)"
  using show_int_chars' by (intro after_key_skip) blast

lemma kv_num_after:
  "kv_num v k = (case after_key v k of None \<Rightarrow> 0 | Some r \<Rightarrow> fst (strtoll (dropWhile (\<lambda>c. c = CHR '' '') r)))"
  by (simp add: kv_num_def after_key_def split: option.split)

lemma value_after: "LLONG_MIN \<le> i \<Longrightarrow> i \<le> LLONG_MAX \<Longrightarrow>
    fst (strtoll (dropWhile (\<lambda>c. c = CHR '' '') (CHR '' '' # show_int i @ nl # r))) = i"
proof -
  assume b: "LLONG_MIN \<le> i" "i \<le> LLONG_MAX"
  obtain c cs where c: "show_int i = c # cs" using show_int_nonempty by (cases "show_int i") auto
  then have "c \<noteq> CHR '' ''" using show_int_clean [of c i] by simp
  then have "dropWhile (\<lambda>c. c = CHR '' '') (CHR '' '' # show_int i @ nl # r) = show_int i @ nl # r" using c by simp
  moreover have "strtoll (show_int i @ nl # r) = (i, nl # r)" using b by (intro strtoll_show_int) (auto simp: isdigit_def)
  ultimately show ?thesis by simp
qed

lemma stats_roundtrip: "stats_range s \<Longrightarrow> stats_parse (stats_value s) = s"
proof -
  assume b: "stats_range s"
  have k: "\<not> isdigit (CHR ''f'')" "\<not> isdigit (CHR ''a'')" "\<not> isdigit (CHR ''u'')" "\<not> isdigit (CHR ''l'')"
    by code_simp+
  note sk = after_key_show_int [OF k(1)] after_key_show_int [OF k(2)] after_key_show_int [OF k(3)] after_key_show_int [OF k(4)]
  note kv = kv_num_after stats_value_def after_key_Cons sk value_after [simplified]
  have r: "LLONG_MIN \<le> ds_fired s" "ds_fired s \<le> LLONG_MAX" "LLONG_MIN \<le> ds_acked s" "ds_acked s \<le> LLONG_MAX"
    "LLONG_MIN \<le> ds_unacked s" "ds_unacked s \<le> LLONG_MAX" "LLONG_MIN \<le> ds_last_acked s" "ds_last_acked s \<le> LLONG_MAX"
    "LLONG_MIN \<le> ds_last_unacked s" "ds_last_unacked s \<le> LLONG_MAX"
    using b by (simp_all add: stats_range_def)
  have "kv_num (stats_value s) ''fired:'' = ds_fired s" using r by (simp add: kv)
  moreover have "kv_num (stats_value s) ''acked:'' = ds_acked s" using r by (simp add: kv)
  moreover have "kv_num (stats_value s) ''unacked:'' = ds_unacked s" using r by (simp add: kv)
  moreover have "kv_num (stats_value s) ''last_acked_ts:'' = ds_last_acked s" using r by (simp add: kv)
  moreover have "kv_num (stats_value s) ''last_unacked_ts:'' = ds_last_unacked s" using r by (simp add: kv)
  ultimately show ?thesis by (simp add: stats_parse_def)
qed

lemma stats_value_text: "utf8_text (stats_value s)" "nul \<notin> set (stats_value s)"
proof -
  have "\<forall>c \<in> set (stats_value s). (of_char c :: nat) < 128"
    using show_int_ascii by (auto simp: stats_value_def)
  then show "utf8_text (stats_value s)" by (rule utf8_text_ascii)
  have "nul \<notin> set (show_int j)" for j using show_int_clean by blast
  then show "nul \<notin> set (stats_value s)" by (simp add: stats_value_def)
qed

lemma stats_value_len: "stats_range s \<Longrightarrow> length (stats_value s) \<le> 200"
proof -
  assume r: "stats_range s"
  have l: "length (show_int i) \<le> 20" if "LLONG_MIN \<le> i" "i \<le> LLONG_MAX" for i
    using show_int_len [of i 19] that by (simp add: LLONG_MIN_def LLONG_MAX_def)
  show ?thesis
    using r l [of "ds_fired s"] l [of "ds_acked s"] l [of "ds_unacked s"] l [of "ds_last_acked s"] l [of "ds_last_unacked s"]
    by (simp add: stats_range_def stats_value_def)
qed

definition balanced :: "dstats \<Rightarrow> bool" where
  "balanced s \<longleftrightarrow> ds_fired s = ds_acked s + ds_unacked s"

lemma next_balanced: "balanced (next_stats s acked now) \<longleftrightarrow> balanced s"
  by (simp add: balanced_def next_stats_def Let_def)

lemma delivery_key_word: "key_word DELIVERY_KEY"
  by (simp add: key_word_def DELIVERY_KEY_def)

lemma delivery_get:
  "word_ok (''/get?key='' @ DELIVERY_KEY)" "split_url (''/get?key='' @ DELIVERY_KEY) = (''/get'', ''key='' @ DELIVERY_KEY)"
  "qp_key (''key='' @ DELIVERY_KEY) = KKey DELIVERY_KEY"
  by (code_simp)+

text \<open>
  A recorded fire is in exomind under the counter key; a daemon that starts later on that server
  reads the same counters.
\<close>

lemma recorded_counters:
  assumes st: "st = (s, True)" and r: "stats_range (next_stats s acked now)"
    and e: "exo_ok e" and sim: "sim t0 (a_main a) m" "t0 \<le> t" "int64 t" "t \<le> t'" "int64 t'"
    and proj: "a_proj a = None" and sg: "segmentation segs" "segmentation segs'"
  shows "\<exists>a' a''. delivery_record (wire_net c (\<lambda>_. healthy t) segs segs') e acked now st a =
        (True, (next_stats s acked now, True), a') \<and>
      delivery_load (wire_net c (\<lambda>_. healthy t') segs segs') e (no_stats, False) a' =
        (True, (next_stats s acked now, True), a'')"
proof -
  let ?n = "next_stats s acked now"
  let ?v = "stats_value ?n"
  have v: "length ?v \<le> 4096" using stats_value_len [OF r] by simp
  obtain a' where a': "client_persist (wire_net c (\<lambda>_. healthy t) segs segs') e DELIVERY_KEY ?v 0 a = (None, a')"
    "sim t (a_main a') (m(DELIVERY_KEY \<mapsto> (?v, t, 0)))" "a' = a\<lparr>a_main := a_main a'\<rparr>"
    using persist_short [OF e delivery_key_word stats_value_text v _ _ sim(1-3) proj sg, of 0 c] by auto
  have rec: "delivery_record (wire_net c (\<lambda>_. healthy t) segs segs') e acked now st a = (True, (?n, True), a')"
    using a'(1) by (simp add: delivery_record_def delivery_load_def st Let_def)
  have "a_proj a' = None" using a'(3) proj by (metis srv.select_convs(2) srv.surjective srv.update_convs(1))
  moreover have "view (a_main a') t' DELIVERY_KEY = Some (?v, t, 0)"
    using sim_view [OF a'(2) sim(4)] by (simp add: live_at_def)
  moreover have "length ?v \<le> EXO_MAX_BODY" using v by (simp add: EXO_MAX_BODY_def)
  moreover have "take 2 DELIVERY_KEY \<noteq> ''p:''" "DELIVERY_KEY \<noteq> []" by (simp_all add: DELIVERY_KEY_def)
  moreover have "length (''/get?key='' @ DELIVERY_KEY) \<le> 1024" by (simp add: DELIVERY_KEY_def)
  ultimately obtain a'' where "exo_request (wire_net c (\<lambda>_. healthy t') segs segs') e ''GET'' (''/get?key='' @ DELIVERY_KEY)
      [] False a' = (Inr (200, ?v), a'')"
    using get_served [of e "''/get?key='' @ DELIVERY_KEY" "''key='' @ DELIVERY_KEY" DELIVERY_KEY t a' _ t' ?v "(t, 0)" segs segs' c]
      e a'(2) sim(4,5) sg delivery_get unfolding exo_ok_def by blast
  then have "delivery_load (wire_net c (\<lambda>_. healthy t') segs segs') e (no_stats, False) a' = (True, (?n, True), a'')"
    by (simp add: delivery_load_def stats_read_def cstr_id [OF stats_value_text(2)] stats_roundtrip [OF r])
  with rec show ?thesis by blast
qed

text \<open>Whatever the network does, the counters in memory move only with a successful write.\<close>

lemma record_moves:
  assumes "delivery_record net e acked now (s, True) w = (ok, st', w')"
  shows "st' = (if ok then (next_stats s acked now, True) else (s, True))"
  using assms by (auto simp: delivery_record_def delivery_load_def Let_def split: prod.split_asm option.split_asm)

end
