(* ===== verification/Exo_Flow.thy ===== *)
theory Exo_Flow
  imports Exo_Escape Exo_Schedule
begin

text \<open>
  The flow model of exoflow (\<open>exoflow/src/flows.c\<close>): steps with dependencies, their states,
  the status of a flow, the TSV document a flow is persisted as, and the specification of a loop.
  Documents and tokens are C strings, without a NUL byte. The fixed buffers of \<open>flow_t\<close> hold
  what \<open>safe_token\<close> and \<open>flow_id_ok\<close> admit, so nothing is cut.
\<close>

definition FLOW_KEY_PREFIX :: string where "FLOW_KEY_PREFIX = ''exoflow:flow:''"
definition FLOW_ID_MAX :: nat where "FLOW_ID_MAX = 40"
definition STEP_ID_MAX :: nat where "STEP_ID_MAX = 64"
definition OWNER_MAX :: nat where "OWNER_MAX = 64"

datatype step_state = Pending | Claimed | Done | Failed | Overdue | Cancelled

record flow_step =
  sid :: string
  sdesc :: string
  sdeps :: "string list"
  sstate :: step_state
  sowner :: string
  sdeadline :: int
  stimeout :: int

record flow =
  fid :: string
  fname :: string
  fsteps :: "flow_step list"
  loop_active :: bool
  loop_interval :: int
  loop_max :: int
  loop_until :: int
  loop_iter :: int
  loop_budget :: int
  loop_next :: int
  loop_parent :: string
  loop_stopped :: bool

datatype flow_err =
    CorruptDocument | BadHeader | BadVersion | BadStepLine | BadStepId | BadDepId | BadDeadline
  | BadTimeout | BadStepState | BadOwner | LoopNotLast | BadLoopLine | EmptyBody | EmptyName | NoSteps
  | BadLoopSpec | DuplicateStep string | UnknownDep string | CyclicDeps | NoFlowId | IdCollision
  | Unavailable | NoSuchFlow | NoSuchStep | AlreadyDone | StepCancelled | DepsPending | NotClaimed
  | BadAction | BadWorker | NotALoop

subsection \<open>Status\<close>

definition step_active :: "flow_step \<Rightarrow> bool" where
  "step_active s \<longleftrightarrow> sstate s = Pending \<or> sstate s = Claimed \<or> sstate s = Overdue"

datatype status = SDone | SCancelled | SFailed | SActive

definition flow_status :: "flow \<Rightarrow> status" where
  "flow_status f =
     (let all_done = list_all (\<lambda>s. sstate s = Done) (fsteps f);
          any_cancelled = list_ex (\<lambda>s. sstate s = Cancelled) (fsteps f);
          any_active = list_ex step_active (fsteps f);
          any_failed = list_ex (\<lambda>s. sstate s = Failed) (fsteps f)
      in if all_done then SDone else if any_cancelled then SCancelled
         else if \<not> any_active \<and> any_failed then SFailed else SActive)"

subsection \<open>Tokens\<close>

definition token_char :: "char \<Rightarrow> bool" where
  "token_char c \<longleftrightarrow> isalnum c \<or> c = CHR ''.'' \<or> c = CHR ''_'' \<or> c = CHR ''-''"

definition safe_token :: "string \<Rightarrow> nat \<Rightarrow> bool" where
  "safe_token s maxlen \<longleftrightarrow> s \<noteq> [] \<and> length s < maxlen \<and> list_all token_char s"

definition flow_id_ok :: "string \<Rightarrow> bool" where
  "flow_id_ok s \<longleftrightarrow> s \<noteq> [] \<and> length s < FLOW_ID_MAX \<and>
     list_all (\<lambda>c. \<not> (c = tab \<or> c = nl \<or> c = cr \<or> c = CHR '' '' \<or> c = CHR '','')) s"

subsection \<open>The persisted document\<close>

fun state_text :: "step_state \<Rightarrow> string" where
  "state_text Pending = ''pending''"
| "state_text Claimed = ''claimed''"
| "state_text Done = ''done''"
| "state_text Failed = ''failed''"
| "state_text Overdue = ''overdue''"
| "state_text Cancelled = ''cancelled''"

definition state_of :: "string \<Rightarrow> step_state option" where
  "state_of s = find (\<lambda>st. state_text st = s) [Pending, Claimed, Done, Failed, Overdue, Cancelled]"

definition tsv :: "string list \<Rightarrow> string" where
  "tsv cols = join_with tab cols"

definition step_line :: "flow_step \<Rightarrow> string" where
  "step_line s = tsv [''step'', sid s, esc_line (sdesc s), join_with (CHR '','') (sdeps s),
     state_text (sstate s), sowner s, show_int (sdeadline s), show_int (stimeout s)]"

definition loop_line :: "flow \<Rightarrow> string" where
  "loop_line f = tsv [''loop'', show_int (loop_interval f), show_int (loop_max f), show_int (loop_until f),
     show_int (loop_iter f), show_int (loop_budget f), show_int (loop_next f), loop_parent f,
     (if loop_stopped f then ''1'' else ''0'')]"

definition flow_lines :: "flow \<Rightarrow> string list" where
  "flow_lines f = tsv [''exoflow'', ''2'', esc_line (fname f)] # map step_line (fsteps f) @
     (if loop_active f then [loop_line f] else [])"

definition flow_serialize :: "flow \<Rightarrow> string" where
  "flow_serialize f = concat (map (\<lambda>l. l @ [nl]) (flow_lines f))"

text \<open>\<open>strtok_r\<close> on newlines; each line loses trailing carriage returns.\<close>

definition strip_eol :: "string \<Rightarrow> string" where
  "strip_eol l = rev (dropWhile (\<lambda>c. c = cr \<or> c = nl) (rev l))"

definition text_lines :: "string \<Rightarrow> string list" where
  "text_lines doc = map strip_eol (strtok_all (\<lambda>x. x = nl) doc)"

text \<open>The dependency column: tokens between commas, a trailing comma is accepted.\<close>

function parse_deps :: "string \<Rightarrow> string list option" where
  "parse_deps s =
     (if s = [] then Some []
      else let d = takeWhile (\<lambda>c. c \<noteq> CHR '','') s
           in if \<not> safe_token d STEP_ID_MAX then None
              else (case dropWhile (\<lambda>c. c \<noteq> CHR '','') s of
                      [] \<Rightarrow> Some [d]
                    | _ # r \<Rightarrow> map_option ((#) d) (parse_deps r)))"
  by pat_completeness auto
termination
proof (relation "measure length", goal_cases)
  case (2 s d c r)
  have "length (c # r) \<le> length s" using 2(4) length_dropWhile_le by metis
  then show ?case by simp
qed simp

declare parse_deps.simps [simp del]

definition fresh_step :: "string \<Rightarrow> string \<Rightarrow> string list \<Rightarrow> flow_step" where
  "fresh_step i desc deps = \<lparr>sid = i, sdesc = desc, sdeps = deps, sstate = Pending, sowner = [],
     sdeadline = 0, stimeout = 0\<rparr>"

text \<open>The state, owner, deadline and timeout columns of a stored step.\<close>

definition parse_step_state :: "flow_step \<Rightarrow> string list \<Rightarrow> flow_err + flow_step" where
  "parse_step_state s cols =
     (case state_of (cols ! 3) of
        None \<Rightarrow> Inl BadStepState
      | Some st \<Rightarrow>
          if cols ! 4 \<noteq> [] \<and> \<not> safe_token (cols ! 4) OWNER_MAX then Inl BadOwner
          else if atoll (cols ! 5) < 0 then Inl BadDeadline
          else let s' = s\<lparr>sstate := st, sowner := cols ! 4, sdeadline := atoll (cols ! 5)\<rparr>
               in if length cols = 7 then
                    (if atoll (cols ! 6) < 0 then Inl BadTimeout else Inr (s'\<lparr>stimeout := atoll (cols ! 6)\<rparr>))
                  else Inr s')"

definition parse_step_line :: "string \<Rightarrow> flow_err + flow_step" where
  "parse_step_line rest =
     (let cols = split_on tab rest; nc = length cols
      in if nc > 8 \<or> nc \<notin> {3, 4, 6, 7} then Inl BadStepLine
         else if \<not> safe_token (cols ! 0) STEP_ID_MAX then Inl BadStepId
         else (case parse_deps (cols ! 2) of
                 None \<Rightarrow> Inl BadDepId
               | Some deps \<Rightarrow>
                   let s = fresh_step (cols ! 0) (unesc_line (cols ! 1)) deps
                   in if nc = 4 then
                        (if atoll (cols ! 3) < 0 then Inl BadDeadline else Inr (s\<lparr>sdeadline := atoll (cols ! 3)\<rparr>))
                      else if nc = 6 \<or> nc = 7 then parse_step_state s cols
                      else Inr s))"

definition parse_loop_line :: "string \<Rightarrow> flow \<Rightarrow> flow_err + flow" where
  "parse_loop_line rest f =
     (let cols = split_on tab rest
      in if length cols \<noteq> 8 then Inl BadLoopLine
         else let iv = atoll (cols ! 0); mx = atoll (cols ! 1); un = atoll (cols ! 2);
                  it = atoll (cols ! 3); bd = atoll (cols ! 4); nx = atoll (cols ! 5)
              in if iv < 1 \<or> mx < 0 \<or> un < 0 \<or> it < 1 \<or> bd < 1 \<or> nx < 0 \<or>
                    (cols ! 6 \<noteq> [] \<and> \<not> flow_id_ok (cols ! 6)) \<or>
                    (cols ! 7 \<noteq> ''0'' \<and> cols ! 7 \<noteq> ''1'') then Inl BadLoopLine
                 else Inr (f\<lparr>loop_active := True, loop_interval := iv, loop_max := mx, loop_until := un,
                            loop_iter := it, loop_budget := bd, loop_next := nx,
                            loop_parent := cols ! 6, loop_stopped := (cols ! 7 = ''1'')\<rparr>))"

fun parse_lines :: "string list \<Rightarrow> flow \<Rightarrow> flow_err + flow" where
  "parse_lines [] f = Inr f"
| "parse_lines (ln # rest) f =
     (if take 5 ln = ''step'' @ [tab] then
        (case parse_step_line (drop 5 ln) of
           Inl e \<Rightarrow> Inl e
         | Inr s \<Rightarrow> parse_lines rest (f\<lparr>fsteps := fsteps f @ [s]\<rparr>))
      else if take 5 ln = ''loop'' @ [tab] then
        (if rest \<noteq> [] then Inl LoopNotLast
         else (case parse_loop_line (drop 5 ln) f of Inl e \<Rightarrow> Inl e | Inr f' \<Rightarrow> parse_lines rest f'))
      else Inl BadStepLine)"

definition empty_flow :: flow where
  "empty_flow = \<lparr>fid = [], fname = [], fsteps = [], loop_active = False, loop_interval = 0, loop_max = 0,
     loop_until = 0, loop_iter = 0, loop_budget = 0, loop_next = 0, loop_parent = [], loop_stopped = False\<rparr>"

definition flow_parse :: "string \<Rightarrow> flow_err + flow" where
  "flow_parse doc =
     (case text_lines doc of
        h # (l # ls) \<Rightarrow>
          if take 8 h \<noteq> ''exoflow'' @ [tab] then Inl BadHeader
          else (let ver = drop 8 h; v = takeWhile (\<lambda>c. c \<noteq> tab) ver
                in (case dropWhile (\<lambda>c. c \<noteq> tab) ver of
                      [] \<Rightarrow> Inl BadHeader
                    | _ # nm \<Rightarrow>
                        if v \<noteq> ''1'' \<and> v \<noteq> ''2'' then Inl BadVersion
                        else parse_lines (l # ls) (empty_flow\<lparr>fname := unesc_line nm\<rparr>)))
      | _ \<Rightarrow> Inl CorruptDocument)"

subsection \<open>Loop specifications\<close>

fun units_loop :: "int \<Rightarrow> string \<Rightarrow> int" where
  "units_loop n [] = 0"
| "units_loop n (c # r) =
     (if \<not> isdigit c then
        (if r \<noteq> [] then 0
         else if c = CHR ''s'' then n
         else if c = CHR ''m'' then wrap64 (n * 60)
         else if c = CHR ''h'' then wrap64 (n * 3600)
         else 0)
      else let n' = wrap64 (n * 10 + int (digit_val c)) in if n' < 0 then 0 else units_loop n' r)"

definition parse_units :: "string \<Rightarrow> int" where
  "parse_units s = (case s of c # _ # _ \<Rightarrow> if isdigit c then units_loop 0 s else 0 | _ \<Rightarrow> 0)"

fun loop_args :: "string list \<Rightarrow> int \<Rightarrow> int \<Rightarrow> (int \<times> int) option" where
  "loop_args [] mx un = Some (mx, un)"
| "loop_args [tok] mx un = None"
| "loop_args (tok # arg # r) mx un =
     (let v = atoll arg
      in if tok = ''max'' then (if v < 1 then None else loop_args r v un)
         else if tok = ''until'' then (if v < 0 then None else loop_args r mx v)
         else None)"

text \<open>Interval, bound on the counted iterations and end of the loop.\<close>

definition parse_loop_spec :: "string \<Rightarrow> (int \<times> int \<times> int) option" where
  "parse_loop_spec line =
     (case strtok_all (\<lambda>c. c = CHR '' '' \<or> c = tab) line of
        a # b # c # r \<Rightarrow>
          if a \<noteq> ''loop'' \<or> b \<noteq> ''every'' \<or> parse_units c < 1 then None
          else map_option (\<lambda>(mx, un). (parse_units c, mx, un)) (loop_args r 0 0)
      | _ \<Rightarrow> None)"

subsection \<open>Well-formed flows\<close>

definition step_ok :: "flow_step \<Rightarrow> bool" where
  "step_ok s \<longleftrightarrow> safe_token (sid s) STEP_ID_MAX \<and> list_all (\<lambda>d. safe_token d STEP_ID_MAX) (sdeps s) \<and>
     (sowner s = [] \<or> safe_token (sowner s) OWNER_MAX) \<and>
     0 \<le> sdeadline s \<and> sdeadline s \<le> LLONG_MAX \<and> 0 \<le> stimeout s \<and> stimeout s \<le> LLONG_MAX"

definition loop_ok :: "flow \<Rightarrow> bool" where
  "loop_ok f \<longleftrightarrow>
     (if loop_active f then
        1 \<le> loop_interval f \<and> loop_interval f \<le> LLONG_MAX \<and> 0 \<le> loop_max f \<and> loop_max f \<le> LLONG_MAX \<and>
        0 \<le> loop_until f \<and> loop_until f \<le> LLONG_MAX \<and> 1 \<le> loop_iter f \<and> loop_iter f \<le> LLONG_MAX \<and>
        1 \<le> loop_budget f \<and> loop_budget f \<le> LLONG_MAX \<and> 0 \<le> loop_next f \<and> loop_next f \<le> LLONG_MAX \<and>
        (loop_parent f = [] \<or> flow_id_ok (loop_parent f))
      else loop_interval f = 0 \<and> loop_max f = 0 \<and> loop_until f = 0 \<and> loop_iter f = 0 \<and>
           loop_budget f = 0 \<and> loop_next f = 0 \<and> loop_parent f = [] \<and> \<not> loop_stopped f)"

definition flow_ok :: "flow \<Rightarrow> bool" where
  "flow_ok f \<longleftrightarrow> (fsteps f \<noteq> [] \<or> loop_active f) \<and> list_all step_ok (fsteps f) \<and> loop_ok f"

subsection \<open>The document is read back\<close>

lemma token_char_safe: "token_char c \<Longrightarrow> c \<noteq> tab \<and> c \<noteq> nl \<and> c \<noteq> cr \<and> c \<noteq> CHR '','' \<and> c \<noteq> CHR '' ''"
  by (auto simp: token_char_def isalnum_def isupper_def islower_def isdigit_def less_eq_char_def)

lemma safe_token_chars: "safe_token s n \<Longrightarrow> c \<in> set s \<Longrightarrow> token_char c"
  by (auto simp: safe_token_def list_all_iff)

lemma parse_deps_join:
  "list_all (\<lambda>d. safe_token d STEP_ID_MAX) ds \<Longrightarrow> parse_deps (join_with (CHR '','') ds) = Some ds"
proof (induction ds rule: induct_list012)
  case 1
  show ?case by (subst parse_deps.simps) simp
next
  case (2 d)
  then have "\<forall>c \<in> set d. c \<noteq> CHR '',''" using safe_token_chars token_char_safe by fastforce
  then show ?case using 2 by (subst parse_deps.simps) (simp add: safe_token_def takeWhile_eq_all_conv [THEN iffD2] dropWhile_eq_Nil_conv [THEN iffD2])
next
  case (3 d e ds)
  have nc: "\<forall>c \<in> set d. c \<noteq> CHR '',''" using 3(3) safe_token_chars token_char_safe by fastforce
  have ih: "parse_deps (join_with (CHR '','') (e # ds)) = Some (e # ds)" using 3(2,3) by simp
  have tk: "takeWhile (\<lambda>c. c \<noteq> CHR '','') (d @ CHR '','' # r) = d"
    and dr: "dropWhile (\<lambda>c. c \<noteq> CHR '','') (d @ CHR '','' # r) = CHR '','' # r" for r
    using nc by (simp_all add: takeWhile_append2 dropWhile_append2)
  show ?case using 3(3) by (subst parse_deps.simps) (simp add: tk dr ih Let_def)
qed

lemma state_of_text: "state_of (state_text st) = Some st"
  by (cases st) (simp_all add: state_of_def)

lemma state_text_chars: "c \<in> set (state_text st) \<Longrightarrow> c \<noteq> tab \<and> c \<noteq> nl \<and> c \<noteq> cr"
  by (cases st) auto

lemma join_chars: "c \<in> set (join_with s ws) \<Longrightarrow> c = s \<or> (\<exists>w \<in> set ws. c \<in> set w)"
  by (induction s ws rule: join_with.induct) auto

lemma show_int_safe: "c \<in> set (show_int i) \<Longrightarrow> c \<noteq> tab \<and> c \<noteq> nl \<and> c \<noteq> cr"
  using show_int_chars [of c i] by (auto simp: isdigit_def less_eq_char_def)

lemma split_tsv: "ws \<noteq> [] \<Longrightarrow> \<forall>w \<in> set ws. tab \<notin> set w \<Longrightarrow> split_on tab (tsv ws) = ws"
  unfolding tsv_def by (rule split_on_join)

lemma tsv_Cons: "ws \<noteq> [] \<Longrightarrow> tsv (w # ws) = w @ tab # tsv ws"
  by (cases ws) (simp_all add: tsv_def)

lemma atoll_nonneg: "0 \<le> i \<Longrightarrow> i \<le> LLONG_MAX \<Longrightarrow> atoll (show_int i) = i"
  by (rule atoll_show_int) (simp_all add: LLONG_MIN_def)

text \<open>The columns of a stored step contain no separator.\<close>

definition step_cols :: "flow_step \<Rightarrow> string list" where
  "step_cols s = [sid s, esc_line (sdesc s), join_with (CHR '','') (sdeps s), state_text (sstate s), sowner s,
     show_int (sdeadline s), show_int (stimeout s)]"

lemma step_line_cols: "step_line s = ''step'' @ tab # tsv (step_cols s)"
  by (simp add: step_line_def step_cols_def tsv_Cons)

lemma safe_token_sep: "safe_token w n \<Longrightarrow> c \<in> set w \<Longrightarrow> c \<noteq> tab \<and> c \<noteq> nl \<and> c \<noteq> cr"
  using safe_token_chars token_char_safe by blast

lemma step_cols_safe:
  assumes "step_ok s" "w \<in> set (step_cols s)" "c \<in> set w"
  shows "c \<noteq> tab \<and> c \<noteq> nl \<and> c \<noteq> cr"
proof -
  have deps: "c \<noteq> tab \<and> c \<noteq> nl \<and> c \<noteq> cr" if "c \<in> set (join_with (CHR '','') (sdeps s))" for c
    using join_chars [OF that] assms(1) safe_token_sep by (auto simp: step_ok_def list_all_iff)
  have tok: "safe_token (sid s) STEP_ID_MAX" "sowner s = [] \<or> safe_token (sowner s) OWNER_MAX"
    using assms(1) by (auto simp: step_ok_def)
  have "c \<in> set (sid s) \<or> c \<in> set (esc_line (sdesc s)) \<or> c \<in> set (join_with (CHR '','') (sdeps s)) \<or>
      c \<in> set (state_text (sstate s)) \<or> c \<in> set (sowner s) \<or> c \<in> set (show_int (sdeadline s)) \<or>
      c \<in> set (show_int (stimeout s))"
    using assms(2,3) by (auto simp: step_cols_def)
  then show ?thesis
    using deps esc_line_safe state_text_chars show_int_safe tok safe_token_sep
    by (metis empty_iff list.set(1))
qed

lemma parse_step_cols:
  assumes "step_ok s"
  shows "parse_step_line (tsv (step_cols s)) = Inr s"
proof -
  have sp: "split_on tab (tsv (step_cols s)) = step_cols s"
    using step_cols_safe [OF assms] by (intro split_tsv) (auto simp: step_cols_def)
  have at: "atoll (show_int (sdeadline s)) = sdeadline s" "atoll (show_int (stimeout s)) = stimeout s"
    using assms by (auto simp: step_ok_def atoll_nonneg)
  have dp: "parse_deps (join_with (CHR '','') (sdeps s)) = Some (sdeps s)"
    using assms by (simp add: step_ok_def parse_deps_join)
  have st: "parse_step_state (fresh_step (sid s) (sdesc s) (sdeps s)) (step_cols s) = Inr s"
    using assms by (cases s) (simp add: parse_step_state_def step_cols_def state_of_text at [simplified]
        fresh_step_def step_ok_def atoll_nonneg)
  have nth: "step_cols s ! 0 = sid s" "step_cols s ! 1 = esc_line (sdesc s)"
    "step_cols s ! 2 = join_with (CHR '','') (sdeps s)" "length (step_cols s) = 7"
    by (simp_all add: step_cols_def)
  show ?thesis
    using assms unfolding parse_step_line_def sp Let_def nth dp unesc_esc_line
    by (simp add: st step_ok_def)
qed

definition loop_cols :: "flow \<Rightarrow> string list" where
  "loop_cols f = [show_int (loop_interval f), show_int (loop_max f), show_int (loop_until f),
     show_int (loop_iter f), show_int (loop_budget f), show_int (loop_next f), loop_parent f,
     (if loop_stopped f then ''1'' else ''0'')]"

lemma loop_line_cols: "loop_line f = ''loop'' @ tab # tsv (loop_cols f)"
  by (simp add: loop_line_def loop_cols_def tsv_Cons)

lemma loop_cols_safe:
  assumes "loop_ok f" "loop_active f" "w \<in> set (loop_cols f)" "c \<in> set w"
  shows "c \<noteq> tab \<and> c \<noteq> nl \<and> c \<noteq> cr"
proof -
  have "c \<in> set (loop_parent f) \<Longrightarrow> c \<noteq> tab \<and> c \<noteq> nl \<and> c \<noteq> cr"
    using assms(1,2) by (auto simp: loop_ok_def flow_id_ok_def list_all_iff)
  moreover have "c \<in> set (if loop_stopped f then ''1'' else ''0'') \<Longrightarrow> c \<noteq> tab \<and> c \<noteq> nl \<and> c \<noteq> cr"
    by (auto split: if_split_asm)
  ultimately show ?thesis
    using assms(3,4) show_int_safe unfolding loop_cols_def set_simps by blast
qed

lemma parse_loop_cols:
  assumes "loop_ok f" "loop_active f"
  shows "parse_loop_line (tsv (loop_cols f)) g =
    Inr (g\<lparr>loop_active := True, loop_interval := loop_interval f, loop_max := loop_max f,
           loop_until := loop_until f, loop_iter := loop_iter f, loop_budget := loop_budget f,
           loop_next := loop_next f, loop_parent := loop_parent f, loop_stopped := loop_stopped f\<rparr>)"
proof -
  have sp: "split_on tab (tsv (loop_cols f)) = loop_cols f"
    using loop_cols_safe [OF assms] by (intro split_tsv) (auto simp: loop_cols_def)
  show ?thesis
    using assms unfolding parse_loop_line_def sp
    by (simp add: loop_cols_def loop_ok_def atoll_nonneg Let_def)
qed

lemma parse_lines_steps:
  "list_all step_ok ss \<Longrightarrow> parse_lines (map step_line ss @ ls) f = parse_lines ls (f\<lparr>fsteps := fsteps f @ ss\<rparr>)"
  by (induction ss arbitrary: f) (simp_all add: step_line_cols parse_step_cols)

lemma strip_eol_id: "\<forall>c \<in> set l. c \<noteq> cr \<and> c \<noteq> nl \<Longrightarrow> strip_eol l = l"
  by (cases l rule: rev_cases) (auto simp: strip_eol_def)

lemma tsv_chars: "c \<in> set (tsv ws) \<Longrightarrow> c = tab \<or> (\<exists>w \<in> set ws. c \<in> set w)"
  unfolding tsv_def by (rule join_chars)

lemma flow_lines_clean:
  assumes "flow_ok f" "l \<in> set (flow_lines f)"
  shows "l \<noteq> [] \<and> (\<forall>c \<in> set l. c \<noteq> cr \<and> c \<noteq> nl)"
proof -
  consider (h) "l = tsv [''exoflow'', ''2'', esc_line (fname f)]"
    | (s) s where "s \<in> set (fsteps f)" "l = step_line s" | (l) "loop_active f" "l = loop_line f"
    using assms(2) by (auto simp: flow_lines_def split: if_split_asm)
  then show ?thesis
  proof cases
    case h
    have "c \<noteq> cr \<and> c \<noteq> nl" if "c \<in> set l" for c
      using that h tsv_chars [of c "[''exoflow'', ''2'', esc_line (fname f)]"] esc_line_safe by auto
    then show ?thesis using h by (simp add: tsv_def)
  next
    case s
    have ok: "step_ok s" using assms(1) s(1) by (auto simp: flow_ok_def list_all_iff)
    have "c \<noteq> cr \<and> c \<noteq> nl" if "c \<in> set l" for c
      using that tsv_chars [of c "step_cols s"] step_cols_safe [OF ok] by (auto simp: s(2) step_line_cols)
    then show ?thesis by (simp add: s(2) step_line_cols)
  next
    case l
    have ok: "loop_ok f" using assms(1) by (simp add: flow_ok_def)
    have "c \<noteq> cr \<and> c \<noteq> nl" if "c \<in> set l" for c
      using that tsv_chars [of c "loop_cols f"] loop_cols_safe [OF ok l(1)] by (auto simp: l(2) loop_line_cols)
    then show ?thesis by (simp add: l(2) loop_line_cols)
  qed
qed

lemma text_lines_serialize: "flow_ok f \<Longrightarrow> text_lines (flow_serialize f) = flow_lines f"
proof -
  assume ok: "flow_ok f"
  have "strtok_all (\<lambda>x. x = nl) (flow_serialize f) = flow_lines f"
    unfolding flow_serialize_def using flow_lines_clean [OF ok] by (intro strtok_all_lines) blast
  then show ?thesis
    using flow_lines_clean [OF ok] by (simp add: text_lines_def map_idI strip_eol_id)
qed

text \<open>Reading a persisted flow gives the flow back, apart from its id, which is the key.\<close>

lemma flow_parse_serialize:
  assumes "flow_ok f"
  shows "flow_parse (flow_serialize f) = Inr (f\<lparr>fid := []\<rparr>)"
proof -
  obtain l ls where l: "map step_line (fsteps f) @ (if loop_active f then [loop_line f] else []) = l # ls"
    using assms by (cases "fsteps f") (auto simp: flow_ok_def)
  let ?g = "empty_flow\<lparr>fname := fname f\<rparr>"
  have "parse_lines (l # ls) ?g = Inr (f\<lparr>fid := []\<rparr>)"
  proof (cases "loop_active f")
    case True
    have "parse_lines [loop_line f] (?g\<lparr>fsteps := fsteps f\<rparr>) = Inr (f\<lparr>fid := []\<rparr>)"
      using assms True parse_loop_cols [of f] by (cases f) (simp add: flow_ok_def loop_line_cols empty_flow_def)
    then show ?thesis
      using True assms parse_lines_steps [of "fsteps f" "[loop_line f]" ?g]
      by (simp add: l [symmetric] flow_ok_def empty_flow_def)
  next
    case False
    have "?g\<lparr>fsteps := fsteps f\<rparr> = f\<lparr>fid := []\<rparr>"
      using assms False by (cases f) (simp add: flow_ok_def loop_ok_def empty_flow_def)
    then show ?thesis
      using False assms parse_lines_steps [of "fsteps f" "[]" ?g]
      by (simp add: l [symmetric] flow_ok_def empty_flow_def)
  qed
  then show ?thesis
    using text_lines_serialize [OF assms] l
    by (simp add: flow_parse_def flow_lines_def tsv_def unesc_esc_line)
qed

end
