(* ===== verification/Exo_Flow_Graph.thy ===== *)
theory Exo_Flow_Graph
  imports Exo_Flow
begin

text \<open>
  The dependency graph of a flow (\<open>step_find\<close> and \<open>detect_cycle\<close> of \<open>exoflow/src/flows.c\<close>). The
  colours of the search are 0 (unseen), 1 (on the stack) and 2 (finished); the stack is a list
  with the current step at its head. The search answers exactly whether some step depends, through
  others, on itself; it always ends, since a round either colours an unseen step or pops one.
\<close>

text \<open>The C function's -1 is \<open>None\<close>.\<close>

fun find_from :: "nat \<Rightarrow> string \<Rightarrow> flow_step list \<Rightarrow> nat option" where
  "find_from i x [] = None"
| "find_from i x (s # ss) = (if sid s = x then Some i else find_from (Suc i) x ss)"

definition step_find :: "flow_step list \<Rightarrow> string \<Rightarrow> nat option" where
  "step_find ss x = find_from 0 x ss"

datatype dep_scan = Cyclic | Push nat | Pop

fun scan_deps :: "flow_step list \<Rightarrow> nat list \<Rightarrow> string list \<Rightarrow> dep_scan" where
  "scan_deps ss color [] = Pop"
| "scan_deps ss color (d # ds) =
     (case step_find ss d of
        None \<Rightarrow> scan_deps ss color ds
      | Some j \<Rightarrow> if color ! j = 1 then Cyclic
                  else if color ! j = 0 then Push j
                  else scan_deps ss color ds)"

definition unseen :: "nat list \<Rightarrow> nat" where
  "unseen color = length (filter (\<lambda>c. c = 0) color)"

lemma find_from_range: "find_from i x ss = Some j \<Longrightarrow> i \<le> j \<and> j < i + length ss \<and> sid (ss ! (j - i)) = x"
proof (induction ss arbitrary: i)
  case (Cons s ss)
  show ?case
  proof (cases "sid s = x")
    case False
    have h: "Suc i \<le> j \<and> j < Suc i + length ss \<and> sid (ss ! (j - Suc i)) = x"
      using Cons.IH [of "Suc i"] Cons.prems False by simp
    then have "j - i = Suc (j - Suc i)" by arith
    then show ?thesis using h by simp
  qed (use Cons in auto)
qed simp

lemma step_find_range: "step_find ss x = Some j \<Longrightarrow> j < length ss \<and> sid (ss ! j) = x"
  using find_from_range [of 0 x ss j] by (simp add: step_find_def)

lemma scan_push: "scan_deps ss color ds = Push j \<Longrightarrow> color ! j = 0 \<and> (\<exists>d \<in> set ds. step_find ss d = Some j)"
  by (induction ss color ds rule: scan_deps.induct) (auto split: option.split_asm if_split_asm)

lemma scan_cyclic: "scan_deps ss color ds = Cyclic \<Longrightarrow> \<exists>d \<in> set ds. \<exists>j. step_find ss d = Some j \<and> color ! j = 1"
  by (induction ss color ds rule: scan_deps.induct) (auto split: option.split_asm if_split_asm)

lemma scan_pop:
  "scan_deps ss color ds = Pop \<Longrightarrow> d \<in> set ds \<Longrightarrow> step_find ss d = Some j \<Longrightarrow> color ! j \<noteq> 0 \<and> color ! j \<noteq> 1"
  by (induction ss color ds rule: scan_deps.induct) (auto split: option.split_asm if_split_asm)

lemma unseen_update_less: "j < length color \<Longrightarrow> color ! j = 0 \<Longrightarrow> unseen (color[j := Suc k]) < unseen color"
proof (induction color arbitrary: j)
  case (Cons c color)
  then show ?case by (cases j) (auto simp: unseen_def)
qed simp

lemma unseen_update_le: "unseen (color[j := Suc k]) \<le> unseen color"
proof (induction color arbitrary: j)
  case (Cons c color)
  then show ?case by (cases j) (auto simp: unseen_def)
qed (simp add: unseen_def)

text \<open>One search from the stack: the colours it leaves and whether it met a cycle.\<close>

function dfs :: "flow_step list \<Rightarrow> nat list \<Rightarrow> nat list \<Rightarrow> nat list \<times> bool" where
  "dfs ss color [] = (color, False)"
| "dfs ss color (cur # st) =
     (case scan_deps ss color (sdeps (ss ! cur)) of
        Cyclic \<Rightarrow> (color, True)
      | Push j \<Rightarrow> if j < length color then dfs ss (color[j := 1]) (j # cur # st) else (color, False)
      | Pop \<Rightarrow> dfs ss (color[cur := 2]) st)"
  by pat_completeness auto
termination
proof (relation "measures [\<lambda>(ss, color, st). unseen color, \<lambda>(ss, color, st). length st]", goal_cases)
  case (2 ss color cur st j)
  then show ?case using unseen_update_less [of j color 0] scan_push [of ss color _ j] by simp
next
  case (3 ss color cur st)
  show ?case using unseen_update_le [of color cur 1] by (auto simp: numeral_2_eq_2)
qed simp

declare dfs.simps(2) [simp del]

fun dfs_all :: "flow_step list \<Rightarrow> nat list \<Rightarrow> nat list \<Rightarrow> bool" where
  "dfs_all ss color [] = False"
| "dfs_all ss color (i # is) =
     (if color ! i \<noteq> 0 then dfs_all ss color is
      else (let (color', cyclic) = dfs ss (color[i := 1]) [i]
            in if cyclic then True else dfs_all ss color' is))"

definition detect_cycle :: "flow_step list \<Rightarrow> bool" where
  "detect_cycle ss = dfs_all ss (replicate (length ss) 0) [0..<length ss]"

subsection \<open>The relation searched\<close>

definition dep_rel :: "flow_step list \<Rightarrow> (nat \<times> nat) set" where
  "dep_rel ss = {(i, j). i < length ss \<and> (\<exists>d \<in> set (sdeps (ss ! i)). step_find ss d = Some j)}"

lemma dep_rel_range: "(i, j) \<in> dep_rel ss \<Longrightarrow> i < length ss \<and> j < length ss"
  by (auto simp: dep_rel_def dest: step_find_range)

text \<open>
  What the search keeps: the stack is exactly the colour-1 steps and every step on it depends on
  the one above; finished steps have only finished dependencies and are on no cycle.
\<close>

definition dfs_inv :: "flow_step list \<Rightarrow> nat list \<Rightarrow> nat list \<Rightarrow> bool" where
  "dfs_inv ss color st \<longleftrightarrow>
     length color = length ss \<and> (\<forall>c \<in> set color. c \<le> 2) \<and>
     set st = {j. j < length ss \<and> color ! j = 1} \<and>
     sorted_wrt (\<lambda>a b. (b, a) \<in> (dep_rel ss)\<^sup>+) st \<and> distinct st \<and>
     (\<forall>i j. i < length ss \<longrightarrow> color ! i = 2 \<longrightarrow> (i, j) \<in> dep_rel ss \<longrightarrow> color ! j = 2) \<and>
     (\<forall>i. i < length ss \<longrightarrow> color ! i = 2 \<longrightarrow> (i, i) \<notin> (dep_rel ss)\<^sup>+)"

lemma closed_reach:
  assumes "(i, j) \<in> r\<^sup>*" "P i" "\<And>a b. P a \<Longrightarrow> (a, b) \<in> r \<Longrightarrow> P b"
  shows "P j"
  using assms by (induction rule: rtrancl_induct) auto

lemma dfs_inv_push:
  assumes inv: "dfs_inv ss color (cur # st)" and p: "(cur, j) \<in> dep_rel ss" and c: "color ! j = 0"
  shows "dfs_inv ss (color[j := 1]) (j # cur # st)"
proof -
  have j: "j < length ss" using p dep_rel_range by blast
  have len: "length color = length ss" using inv by (simp add: dfs_inv_def)
  have nth: "color[j := 1] ! i = (if i = j then 1 else color ! i)" if "i < length ss" for i
    using that len by simp
  have path: "(b, j) \<in> (dep_rel ss)\<^sup>+" if "b \<in> set (cur # st)" for b
  proof (cases "b = cur")
    case True
    then show ?thesis using p by blast
  next
    case False
    then have "(b, cur) \<in> (dep_rel ss)\<^sup>+" using that inv by (auto simp: dfs_inv_def)
    then show ?thesis using p by (rule trancl_into_trancl)
  qed
  have s: "set (cur # st) = {k. k < length ss \<and> color ! k = 1}" using inv by (simp add: dfs_inv_def)
  have st: "set (j # cur # st) = {k. k < length ss \<and> color[j := 1] ! k = 1}"
  proof -
    have "set (j # cur # st) = insert j {k. k < length ss \<and> color ! k = 1}" using s by simp
    then show ?thesis using j nth by auto
  qed
  have black: "color[j := 1] ! k = 2" if "i < length ss" "color[j := 1] ! i = 2" "(i, k) \<in> dep_rel ss" for i k
  proof -
    have "color ! i = 2" using that nth by (auto split: if_split_asm)
    then have "color ! k = 2" using inv that unfolding dfs_inv_def by blast
    then show ?thesis using c nth dep_rel_range [OF that(3)] by auto
  qed
  have nocyc: "(i, i) \<notin> (dep_rel ss)\<^sup>+" if "i < length ss" "color[j := 1] ! i = 2" for i
  proof -
    have "color ! i = 2" using that nth by (auto split: if_split_asm)
    then show ?thesis using inv that(1) unfolding dfs_inv_def by blast
  qed
  have "\<forall>x \<in> set (color[j := 1]). x \<le> 2"
    using inv set_update_subset_insert [of color j 1] unfolding dfs_inv_def by fastforce
  moreover have "j \<notin> set (cur # st)" using s c by auto
  ultimately show ?thesis
    using inv path st black nocyc len unfolding dfs_inv_def by (auto simp del: nth_list_update)
qed

lemma dfs_inv_pop:
  assumes inv: "dfs_inv ss color (cur # st)" and p: "scan_deps ss color (sdeps (ss ! cur)) = Pop"
  shows "dfs_inv ss (color[cur := 2]) st"
proof -
  have len: "length color = length ss" and s: "set (cur # st) = {k. k < length ss \<and> color ! k = 1}"
    and d: "distinct (cur # st)" and two: "\<forall>c \<in> set color. c \<le> 2"
    using inv by (auto simp: dfs_inv_def)
  have cur: "cur < length ss" "color ! cur = 1" using s by auto
  have nth: "color[cur := 2] ! i = (if i = cur then 2 else color ! i)" if "i < length ss" for i
    using that len by simp
  have succ: "color ! k = 2" if e: "(cur, k) \<in> dep_rel ss" for k
  proof -
    obtain dn where dn: "dn \<in> set (sdeps (ss ! cur))" "step_find ss dn = Some k"
      using e by (auto simp: dep_rel_def)
    have "color ! k \<noteq> 0" "color ! k \<noteq> 1" using scan_pop [OF p dn] by auto
    moreover have "color ! k \<le> 2" using two len dep_rel_range [OF e] by auto
    ultimately show ?thesis by linarith
  qed
  have old: "color ! k = 2" if "i < length ss" "color ! i = 2" "(i, k) \<in> dep_rel ss" for i k
    using inv that unfolding dfs_inv_def by blast
  have curc: "(cur, cur) \<notin> (dep_rel ss)\<^sup>+"
  proof
    assume "(cur, cur) \<in> (dep_rel ss)\<^sup>+"
    then obtain k where k: "(cur, k) \<in> dep_rel ss" "(k, cur) \<in> (dep_rel ss)\<^sup>*" by (metis tranclD)
    have "color ! cur = 2 \<and> cur < length ss"
      by (rule closed_reach [OF k(2)]) (use succ [OF k(1)] old dep_rel_range k(1) in blast)+
    then show False using cur by simp
  qed
  have st: "set st = {k. k < length ss \<and> color[cur := 2] ! k = 1}"
  proof -
    have "set st = {k. k < length ss \<and> color ! k = 1} - {cur}" using s d by auto
    then show ?thesis using nth by (auto split: if_split_asm)
  qed
  have black: "color[cur := 2] ! k = 2" if "i < length ss" "color[cur := 2] ! i = 2" "(i, k) \<in> dep_rel ss" for i k
  proof -
    have "color ! k = 2" using that nth succ old by (cases "i = cur") auto
    then show ?thesis using nth dep_rel_range [OF that(3)] by simp
  qed
  have nocyc: "(i, i) \<notin> (dep_rel ss)\<^sup>+" if "i < length ss" "color[cur := 2] ! i = 2" for i
  proof (cases "i = cur")
    case False
    then have "color ! i = 2" using that nth by simp
    then show ?thesis using inv that(1) unfolding dfs_inv_def by blast
  qed (simp add: curc)
  have "\<forall>x \<in> set (color[cur := 2]). x \<le> 2"
    using two set_update_subset_insert [of color cur 2] by fastforce
  then show ?thesis
    using inv st black nocyc len unfolding dfs_inv_def by (auto simp del: nth_list_update)
qed

lemma dfs_correct:
  "dfs_inv ss color st \<Longrightarrow> dfs ss color st = (color', cyc) \<Longrightarrow>
   (if cyc then \<exists>i. (i, i) \<in> (dep_rel ss)\<^sup>+
    else dfs_inv ss color' [] \<and> (\<forall>i < length ss. color ! i \<noteq> 0 \<longrightarrow> color' ! i \<noteq> 0))"
proof (induction ss color st rule: dfs.induct)
  case (1 ss color)
  then show ?case by auto
next
  case (2 ss color cur st)
  have len: "length color = length ss" and s: "set (cur # st) = {k. k < length ss \<and> color ! k = 1}"
    using 2(3) by (auto simp: dfs_inv_def)
  have cur: "cur < length ss" using s by auto
  show ?case
  proof (cases "scan_deps ss color (sdeps (ss ! cur))")
    case Cyclic
    then have cyc: "cyc" using 2(4) by (simp add: dfs.simps(2))
    from scan_cyclic [OF Cyclic] obtain d j
      where d: "d \<in> set (sdeps (ss ! cur))" "step_find ss d = Some j" "color ! j = 1" by blast
    have e: "(cur, j) \<in> dep_rel ss" using d cur by (auto simp: dep_rel_def)
    have "j \<in> set (cur # st)" using s d(3) dep_rel_range [OF e] by auto
    then have "(j, cur) \<in> (dep_rel ss)\<^sup>*" using 2(3) by (auto simp: dfs_inv_def)
    then have "(cur, cur) \<in> (dep_rel ss)\<^sup>+" using e by (rule rtrancl_into_trancl2 [rotated])
    then show ?thesis using cyc by auto
  next
    case (Push j)
    have j: "color ! j = 0" "(cur, j) \<in> dep_rel ss" using scan_push [OF Push] cur by (auto simp: dep_rel_def)
    have jl: "j < length color" using dep_rel_range [OF j(2)] len by simp
    have eq: "dfs ss (color[j := 1]) (j # cur # st) = (color', cyc)"
      using 2(4) Push jl by (simp add: dfs.simps(2))
    have "color[j := 1] ! i \<noteq> 0" if "i < length ss" "color ! i \<noteq> 0" for i
      using that len by (cases "i = j") auto
    then show ?thesis
      using 2(1) [OF Push jl dfs_inv_push [OF 2(3) j(2,1)] eq] by (auto split: if_split_asm)
  next
    case Pop
    have eq: "dfs ss (color[cur := 2]) st = (color', cyc)" using 2(4) Pop by (simp add: dfs.simps(2))
    have "color[cur := 2] ! i \<noteq> 0" if "i < length ss" "color ! i \<noteq> 0" for i
      using that len by (cases "i = cur") auto
    then show ?thesis
      using 2(2) [OF Pop dfs_inv_pop [OF 2(3) Pop] eq] by (auto split: if_split_asm)
  qed
qed

lemma dfs_inv_start: "dfs_inv ss color [] \<Longrightarrow> i < length ss \<Longrightarrow> color ! i = 0 \<Longrightarrow> dfs_inv ss (color[i := 1]) [i]"
proof -
  assume a: "dfs_inv ss color []" "i < length ss" "color ! i = 0"
  have len: "length color = length ss" using a(1) by (simp add: dfs_inv_def)
  have inv: "\<forall>c \<in> set color. c \<le> 2" "{j. j < length ss \<and> color ! j = 1} = {}"
    "\<And>k j. k < length ss \<Longrightarrow> color ! k = 2 \<Longrightarrow> (k, j) \<in> dep_rel ss \<Longrightarrow> color ! j = 2"
    "\<And>k. k < length ss \<Longrightarrow> color ! k = 2 \<Longrightarrow> (k, k) \<notin> (dep_rel ss)\<^sup>+"
    using a(1) unfolding dfs_inv_def by (blast, simp, blast, blast)
  have nth: "color[i := 1] ! k = (if k = i then 1 else color ! k)" if "k < length ss" for k
    using that len by simp
  have "\<forall>x \<in> set (color[i := 1]). x \<le> 2"
    using inv(1) set_update_subset_insert [of color i 1] by fastforce
  moreover have "set [i] = {j. j < length ss \<and> color[i := 1] ! j = 1}" 
  proof -
    have "color[i := 1] ! k = 1 \<longleftrightarrow> k = i" if "k < length ss" for k using that nth [OF that] inv(2) by auto
    then show ?thesis using a(2) by auto
  qed
  moreover have "color[i := 1] ! j = 2" if "k < length ss" "color[i := 1] ! k = 2" "(k, j) \<in> dep_rel ss" for k j
  proof -
    have "color ! j = 2" using that nth inv(3) by (metis numeral_eq_one_iff semiring_norm(85))
    then show ?thesis using nth dep_rel_range [OF that(3)] a(3) by auto
  qed
  moreover have "(k, k) \<notin> (dep_rel ss)\<^sup>+" if "k < length ss" "color[i := 1] ! k = 2" for k
    using that nth inv(4) by (metis numeral_eq_one_iff semiring_norm(85))
  ultimately show ?thesis unfolding dfs_inv_def using len by simp
qed

lemma dfs_all_correct:
  assumes "dfs_inv ss color []" "\<forall>i < length ss. color ! i = 0 \<longrightarrow> i \<in> set is" "set is \<subseteq> {..<length ss}"
  shows "dfs_all ss color is \<longleftrightarrow> (\<exists>i. (i, i) \<in> (dep_rel ss)\<^sup>+)"
  using assms
proof (induction "is" arbitrary: color)
  case Nil
  have "color ! i = 2" if "i < length ss" for i
  proof -
    have "color ! i \<noteq> 0" using Nil(2) that by auto
    moreover have "color ! i \<noteq> 1" using Nil(1) that by (auto simp: dfs_inv_def)
    moreover have "color ! i \<le> 2" using Nil(1) that by (auto simp: dfs_inv_def)
    ultimately show ?thesis by linarith
  qed
  then have "(i, i) \<notin> (dep_rel ss)\<^sup>+" if "i < length ss" for i using Nil(1) that by (auto simp: dfs_inv_def)
  moreover have "i < length ss" if "(i, i) \<in> (dep_rel ss)\<^sup>+" for i
    using that by (metis dep_rel_range tranclD)
  ultimately show ?case by auto
next
  case (Cons i "is")
  show ?case
  proof (cases "color ! i = 0")
    case False
    have "\<forall>k < length ss. color ! k = 0 \<longrightarrow> k \<in> set is" using Cons.prems(2) False by (metis set_ConsD)
    then show ?thesis using Cons.IH [OF Cons.prems(1)] Cons.prems(3) False by simp
  next
    case True
    have i: "i < length ss" using Cons.prems(3) by auto
    obtain color' cyc where d: "dfs ss (color[i := 1]) [i] = (color', cyc)" by fastforce
    note c = dfs_correct [OF dfs_inv_start [OF Cons.prems(1) i True] d]
    show ?thesis
    proof (cases cyc)
      case True
      then show ?thesis using c d \<open>color ! i = 0\<close> by auto
    next
      case False
      have inv: "dfs_inv ss color' []"
        and mono: "\<And>k. k < length ss \<Longrightarrow> color[i := 1] ! k \<noteq> 0 \<Longrightarrow> color' ! k \<noteq> 0"
        using c False by auto
      have len: "length color = length ss" using Cons.prems(1) by (simp add: dfs_inv_def)
      have keep: "color ! k \<noteq> 0 \<Longrightarrow> color' ! k \<noteq> 0" if "k < length ss" for k
        using mono [OF that] that len by (cases "k = i") auto
      have ci: "color' ! i \<noteq> 0" using mono [OF i] i len by simp
      have rest: "\<forall>k < length ss. color' ! k = 0 \<longrightarrow> k \<in> set is"
      proof (intro allI impI)
        fix k assume k: "k < length ss" "color' ! k = 0"
        then have "color ! k = 0" using keep by blast
        then have "k \<in> set (i # is)" using Cons.prems(2) k(1) by blast
        moreover have "k \<noteq> i" using ci k(2) by auto
        ultimately show "k \<in> set is" by simp
      qed
      have "dfs_all ss color (i # is) = dfs_all ss color' is" using d \<open>color ! i = 0\<close> False by simp
      also have "\<dots> \<longleftrightarrow> (\<exists>i. (i, i) \<in> (dep_rel ss)\<^sup>+)"
        using Cons.IH [OF inv rest] Cons.prems(3) by simp
      finally show ?thesis .
    qed
  qed
qed

lemma detect_cycle_iff: "detect_cycle ss \<longleftrightarrow> \<not> acyclic (dep_rel ss)"
proof -
  have "dfs_inv ss (replicate (length ss) 0) []" by (auto simp: dfs_inv_def)
  then show ?thesis unfolding detect_cycle_def by (subst dfs_all_correct) (auto simp: acyclic_def)
qed

end
