(* ===== verification/Exo_Flow_Ops.thy ===== *)
theory Exo_Flow_Ops
  imports Exo_Flow_Graph
begin

text \<open>
  The operations on one flow (\<open>exoflow/src/flows.c\<close>): the deadline sweep, \<open>step_do\<close>, \<open>flow_next\<close>
  and \<open>flow_cancel\<close>, with what they send to exomind. The exomind server is reached over HTTP: a
  record of the environment holds what it stores, the note feed and, for each request in turn,
  whether it succeeds; a failed request changes nothing there. Clock readings are arguments.
\<close>

record env =
  e_store :: "string \<Rightarrow> string option"
  e_notes :: "string list"
  e_reminders :: "(int \<times> string) list"
  e_ok :: "nat \<Rightarrow> bool"
  e_seq :: nat

definition exo_persist :: "env \<Rightarrow> string \<Rightarrow> string \<Rightarrow> env \<times> bool" where
  "exo_persist e k v =
     (if e_ok e (e_seq e) then (e\<lparr>e_seq := Suc (e_seq e), e_store := (e_store e)(k := Some v)\<rparr>, True)
      else (e\<lparr>e_seq := Suc (e_seq e)\<rparr>, False))"

definition exo_del :: "env \<Rightarrow> string \<Rightarrow> env \<times> bool" where
  "exo_del e k =
     (if e_ok e (e_seq e) then (e\<lparr>e_seq := Suc (e_seq e), e_store := (e_store e)(k := None)\<rparr>, True)
      else (e\<lparr>e_seq := Suc (e_seq e)\<rparr>, False))"

definition exo_note :: "env \<Rightarrow> string \<Rightarrow> env" where
  "exo_note e t =
     (if e_ok e (e_seq e) then e\<lparr>e_seq := Suc (e_seq e), e_notes := e_notes e @ [t]\<rparr>
      else e\<lparr>e_seq := Suc (e_seq e)\<rparr>)"

definition xs_remind :: "env \<Rightarrow> int \<Rightarrow> string \<Rightarrow> env" where
  "xs_remind e at msg =
     (if e_ok e (e_seq e) then e\<lparr>e_seq := Suc (e_seq e), e_reminders := e_reminders e @ [(at, msg)]\<rparr>
      else e\<lparr>e_seq := Suc (e_seq e)\<rparr>)"

definition flow_key :: "string \<Rightarrow> string" where
  "flow_key i = FLOW_KEY_PREFIX @ i"

definition persist_flow :: "env \<Rightarrow> flow \<Rightarrow> env \<times> bool" where
  "persist_flow e f = exo_persist e (flow_key (fid f)) (flow_serialize f)"

definition audit_note :: "env \<Rightarrow> string \<Rightarrow> string \<Rightarrow> string \<Rightarrow> string \<Rightarrow> string \<Rightarrow> env" where
  "audit_note e i x state by suffix =
     exo_note e (''flow '' @ i @ '' step '' @ x @ '' -> '' @ state @ '' by '' @ by @
       (if suffix \<noteq> [] then '': '' @ suffix else []))"

subsection \<open>The deadline sweep\<close>

definition deadline_passed :: "int \<Rightarrow> flow_step \<Rightarrow> bool" where
  "deadline_passed now s \<longleftrightarrow> sdeadline s > 0 \<and> sdeadline s < now \<and> (sstate s = Pending \<or> sstate s = Claimed)"

fun sweep_steps :: "env \<Rightarrow> string \<Rightarrow> int \<Rightarrow> flow_step list \<Rightarrow> env \<times> flow_step list \<times> bool" where
  "sweep_steps e i now [] = (e, [], False)"
| "sweep_steps e i now (s # ss) =
     (if deadline_passed now s then
        (let e1 = audit_note e i (sid s) ''overdue'' (if sowner s \<noteq> [] then sowner s else ''exoflow'') [];
             (e2, ss', ch) = sweep_steps e1 i now ss
         in (e2, s\<lparr>sstate := Overdue\<rparr> # ss', True))
      else (let (e2, ss', ch) = sweep_steps e i now ss in (e2, s # ss', ch)))"

definition flow_sweep :: "env \<Rightarrow> flow \<Rightarrow> int \<Rightarrow> env \<times> flow \<times> bool" where
  "flow_sweep e f now =
     (let (e1, ss, changed) = sweep_steps e (fid f) now (fsteps f); f1 = f\<lparr>fsteps := ss\<rparr>
      in if changed then (let (e2, ok) = persist_flow e1 f1 in (e2, f1, ok)) else (e1, f1, True))"

subsection \<open>Acting on a step\<close>

definition set_state :: "step_state \<Rightarrow> string \<Rightarrow> flow_step \<Rightarrow> flow_step" where
  "set_state st owner s = s\<lparr>sstate := st, sowner := take (OWNER_MAX - 1) owner\<rparr>"

definition deps_done :: "flow_step list \<Rightarrow> flow_step \<Rightarrow> bool" where
  "deps_done ss s = list_all (\<lambda>d. case step_find ss d of None \<Rightarrow> False | Some j \<Rightarrow> sstate (ss ! j) = Done) (sdeps s)"

definition do_target :: "flow_step list \<Rightarrow> flow_step \<Rightarrow> string \<Rightarrow> flow_err + step_state" where
  "do_target ss s action =
     (if action = ''done'' then
        (if sstate s = Done then Inl AlreadyDone
         else if sstate s = Cancelled then Inl StepCancelled
         else if \<not> deps_done ss s then Inl DepsPending else Inr Done)
      else if action = ''failed'' then
        (if sstate s = Done then Inl AlreadyDone
         else if sstate s = Cancelled then Inl StepCancelled else Inr Failed)
      else if action = ''unclaim'' then
        (if sstate s \<noteq> Claimed then Inl NotClaimed else Inr Pending)
      else Inl BadAction)"

text \<open>
  \<open>by\<close> in the code is a pointer to the owner field, so the audit note shows the owner after the
  change. The deadline cleared by \<open>unclaim\<close> is not restored when the write fails.
\<close>

definition step_do :: "env \<Rightarrow> flow \<Rightarrow> string \<Rightarrow> string \<Rightarrow> string \<Rightarrow> env \<times> flow \<times> (flow_err + unit)" where
  "step_do e f x action note =
     (case step_find (fsteps f) x of
        None \<Rightarrow> (e, f, Inl NoSuchStep)
      | Some i \<Rightarrow>
          let s = fsteps f ! i
          in (case do_target (fsteps f) s action of
                Inl err \<Rightarrow> (e, f, Inl err)
              | Inr to \<Rightarrow>
                  let s0 = (if to = Pending then s\<lparr>sdeadline := 0\<rparr> else s);
                      s1 = set_state to (if to = Pending then [] else sowner s) s0;
                      f1 = f\<lparr>fsteps := (fsteps f)[i := s1]\<rparr>;
                      (e1, ok) = persist_flow e f1
                  in if \<not> ok then (e1, f\<lparr>fsteps := (fsteps f)[i := s0]\<rparr>, Inl Unavailable)
                     else (audit_note e1 (fid f) x (state_text to)
                             (if sowner s \<noteq> [] then sowner s1 else ''api'') note, f1, Inr ())))"

subsection \<open>Claiming the next step\<close>

fun first_ready :: "flow_step list \<Rightarrow> nat \<Rightarrow> flow_step list \<Rightarrow> nat option" where
  "first_ready ss i [] = None"
| "first_ready ss i (s # rest) =
     (if sstate s = Pending \<and> deps_done ss s then Some i else first_ready ss (Suc i) rest)"

definition flow_next :: "env \<Rightarrow> flow \<Rightarrow> string \<Rightarrow> int \<Rightarrow> int \<Rightarrow> env \<times> flow \<times> (flow_err + string option)" where
  "flow_next e f worker now1 now2 =
     (if \<not> safe_token worker OWNER_MAX then (e, f, Inl BadWorker)
      else let (e1, f1, ok) = flow_sweep e f now1
      in if \<not> ok then (e1, f1, Inl Unavailable)
      else (case first_ready (fsteps f1) 0 (fsteps f1) of
              None \<Rightarrow> (e1, f1, Inr None)
            | Some i \<Rightarrow>
                let s = fsteps f1 ! i;
                    s0 = (if stimeout s > 0 \<and> sdeadline s = 0 then s\<lparr>sdeadline := wrap64 (now2 + stimeout s)\<rparr> else s);
                    s1 = set_state Claimed worker s0;
                    f2 = f1\<lparr>fsteps := (fsteps f1)[i := s1]\<rparr>;
                    (e2, ok2) = persist_flow e1 f2
                in if \<not> ok2 then (e2, f1\<lparr>fsteps := (fsteps f1)[i := set_state Pending [] s0]\<rparr>, Inl Unavailable)
                   else (audit_note e2 (fid f) (sid s) ''claimed'' worker [], f2, Inr (Some (sid s)))))"

subsection \<open>Cancelling\<close>

fun cancel_steps :: "env \<Rightarrow> string \<Rightarrow> flow_step list \<Rightarrow> env \<times> flow_step list \<times> bool" where
  "cancel_steps e i [] = (e, [], False)"
| "cancel_steps e i (s # ss) =
     (if step_active s then
        (let e1 = audit_note e i (sid s) ''cancelled'' ''api'' [];
             (e2, ss', ch) = cancel_steps e1 i ss
         in (e2, set_state Cancelled [] s # ss', True))
      else (let (e2, ss', ch) = cancel_steps e i ss in (e2, s # ss', ch)))"

definition flow_cancel1 :: "env \<Rightarrow> flow \<Rightarrow> env \<times> flow \<times> (flow_err + unit)" where
  "flow_cancel1 e f =
     (let (e1, ss, changed) = cancel_steps e (fid f) (fsteps f); f1 = f\<lparr>fsteps := ss\<rparr>
      in if changed then
           (let (e2, ok) = persist_flow e1 f1 in if ok then (e2, f1, Inr ()) else (e2, f, Inl Unavailable))
         else (e1, f1, Inr ()))"

subsection \<open>How a step moves\<close>

inductive moves :: "step_state \<Rightarrow> step_state \<Rightarrow> bool" where
  claim: "moves Pending Claimed"
| unclaim: "moves Claimed Pending"
| expire: "st = Pending \<or> st = Claimed \<Longrightarrow> moves st Overdue"
| finish: "st \<noteq> Done \<Longrightarrow> st \<noteq> Cancelled \<Longrightarrow> moves st Done"
| fail: "st \<noteq> Done \<Longrightarrow> st \<noteq> Cancelled \<Longrightarrow> moves st Failed"
| cancel: "st = Pending \<or> st = Claimed \<or> st = Overdue \<Longrightarrow> moves st Cancelled"
| stay: "moves st st"

code_pred moves .

inductive_simps moves_from [simp]: "moves Done st" "moves Cancelled st"

text \<open>The same steps, each moved at most once; ids and dependencies never change.\<close>

definition step_moved :: "flow_step \<Rightarrow> flow_step \<Rightarrow> bool" where
  "step_moved s s' \<longleftrightarrow> sid s' = sid s \<and> sdesc s' = sdesc s \<and> sdeps s' = sdeps s \<and> stimeout s' = stimeout s \<and>
     moves (sstate s) (sstate s')"

definition steps_moved :: "flow_step list \<Rightarrow> flow_step list \<Rightarrow> bool" where
  "steps_moved = list_all2 step_moved"

text \<open>What every flow in the registry satisfies once created.\<close>

definition flow_inv :: "flow_step list \<Rightarrow> bool" where
  "flow_inv ss \<longleftrightarrow> distinct (map sid ss) \<and> (\<forall>s \<in> set ss. \<forall>d \<in> set (sdeps s). step_find ss d \<noteq> None) \<and>
     acyclic (dep_rel ss) \<and> (\<forall>s \<in> set ss. sstate s = Done \<longrightarrow> deps_done ss s)"

lemma step_moved_refl [simp]: "step_moved s s"
  by (simp add: step_moved_def moves.stay)

lemma steps_moved_refl [simp]: "steps_moved ss ss"
  by (simp add: steps_moved_def list_all2_refl)

lemma steps_moved_update: "i < length ss \<Longrightarrow> step_moved (ss ! i) s' \<Longrightarrow> steps_moved ss (ss[i := s'])"
  by (auto simp: steps_moved_def list_all2_conv_all_nth nth_list_update)

lemma steps_moved_length: "steps_moved ss ss' \<Longrightarrow> length ss' = length ss"
  by (auto simp: steps_moved_def list_all2_lengthD)

lemma steps_moved_nth: "steps_moved ss ss' \<Longrightarrow> i < length ss \<Longrightarrow> step_moved (ss ! i) (ss' ! i)"
  by (auto simp: steps_moved_def list_all2_conv_all_nth)

lemma steps_moved_ids: "steps_moved ss ss' \<Longrightarrow> map sid ss' = map sid ss"
  by (auto simp: steps_moved_def list_all2_conv_all_nth step_moved_def intro!: nth_equalityI)

lemma find_from_ids: "map sid ss' = map sid ss \<Longrightarrow> find_from i x ss' = find_from i x ss"
proof (induction ss arbitrary: ss' i)
  case (Cons s ss)
  then obtain s' rest where c: "ss' = s' # rest" "sid s' = sid s" "map sid rest = map sid ss" by auto
  show ?case using Cons.IH [OF c(3)] by (simp add: c(1,2))
qed simp

lemma steps_moved_find: "steps_moved ss ss' \<Longrightarrow> step_find ss' = step_find ss"
  using find_from_ids [OF steps_moved_ids] by (auto simp: step_find_def fun_eq_iff)

lemma steps_moved_rel: "steps_moved ss ss' \<Longrightarrow> dep_rel ss' = dep_rel ss"
proof -
  assume m: "steps_moved ss ss'"
  have "sdeps (ss' ! i) = sdeps (ss ! i)" if "i < length ss" for i
    using steps_moved_nth [OF m that] by (simp add: step_moved_def)
  then show ?thesis
    unfolding dep_rel_def steps_moved_find [OF m] steps_moved_length [OF m]
    by (intro Collect_cong) (auto split: prod.split)
qed

lemma step_moved_done: "step_moved s s' \<Longrightarrow> sstate s = Done \<Longrightarrow> sstate s' = Done"
  by (auto simp: step_moved_def)

text \<open>Since done is final, dependencies that were done stay done.\<close>

lemma steps_moved_deps:
  assumes "steps_moved ss ss'" "deps_done ss s" "sdeps s' = sdeps s"
  shows "deps_done ss' s'"
proof -
  have "sstate (ss' ! j) = Done" if "step_find ss d = Some j" "sstate (ss ! j) = Done" for d j
    using that step_moved_done steps_moved_nth [OF assms(1)] step_find_range [OF that(1)] by blast
  then show ?thesis
    using assms(2) unfolding deps_done_def assms(3) steps_moved_find [OF assms(1)]
    by (auto simp: list_all_iff split: option.splits)
qed

lemma flow_inv_deps: "flow_inv ss \<Longrightarrow> s \<in> set ss \<Longrightarrow> d \<in> set (sdeps s) \<Longrightarrow> step_find ss d \<noteq> None"
  by (simp add: flow_inv_def)

lemma flow_inv_done: "flow_inv ss \<Longrightarrow> s \<in> set ss \<Longrightarrow> sstate s = Done \<Longrightarrow> deps_done ss s"
  by (simp add: flow_inv_def)

lemma flow_inv_moved:
  assumes inv: "flow_inv ss" and m: "steps_moved ss ss'"
    and d: "\<And>i. i < length ss \<Longrightarrow> sstate (ss ! i) \<noteq> Done \<Longrightarrow> sstate (ss' ! i) = Done \<Longrightarrow> deps_done ss (ss ! i)"
  shows "flow_inv ss'"
proof -
  have "deps_done ss' s'" if s': "s' \<in> set ss'" "sstate s' = Done" for s'
  proof -
    obtain i where i: "i < length ss" "s' = ss' ! i"
      using s'(1) steps_moved_length [OF m] by (metis in_set_conv_nth)
    have sd: "sdeps s' = sdeps (ss ! i)" using steps_moved_nth [OF m i(1)] i(2) by (simp add: step_moved_def)
    have "deps_done ss (ss ! i)"
      using d [OF i(1)] flow_inv_done [OF inv nth_mem [OF i(1)]] s'(2) i(2) by blast
    then show ?thesis using steps_moved_deps [OF m _ sd] by blast
  qed
  moreover have "step_find ss' d \<noteq> None" if s': "s' \<in> set ss'" and dd: "d \<in> set (sdeps s')" for s' d
  proof -
    obtain i where "i < length ss" "s' = ss' ! i"
      using s' steps_moved_length [OF m] by (metis in_set_conv_nth)
    then have "d \<in> set (sdeps (ss ! i))" "ss ! i \<in> set ss"
      using dd steps_moved_nth [OF m, of i] by (simp_all add: step_moved_def)
    then have "step_find ss d \<noteq> None" by (rule flow_inv_deps [OF inv, rotated])
    then show ?thesis using steps_moved_find [OF m] by simp
  qed
  moreover have "distinct (map sid ss')" "acyclic (dep_rel ss')"
    using inv unfolding flow_inv_def steps_moved_ids [OF m] steps_moved_rel [OF m] by blast+
  ultimately show ?thesis unfolding flow_inv_def by blast
qed

subsection \<open>What the operations do\<close>

lemma sweep_steps_map:
  "sweep_steps e i now ss = (e', ss', ch) \<Longrightarrow>
   ss' = map (\<lambda>s. if deadline_passed now s then s\<lparr>sstate := Overdue\<rparr> else s) ss \<and>
   ch = list_ex (deadline_passed now) ss"
  by (induction ss arbitrary: e e' ss' ch) (auto simp: Let_def split: prod.split_asm if_split_asm)

lemma sweep_moved: "deadline_passed now s \<Longrightarrow> step_moved s (s\<lparr>sstate := Overdue\<rparr>)"
  by (auto simp: deadline_passed_def step_moved_def intro: moves.expire)

lemma steps_moved_map:
  "(\<And>s. s \<in> set ss \<Longrightarrow> step_moved s (g s)) \<Longrightarrow> steps_moved ss (map g ss)"
  by (auto simp: steps_moved_def list_all2_conv_all_nth)

lemma flow_sweep_steps:
  "flow_sweep e f now = (e', f', ok) \<Longrightarrow>
   f' = f\<lparr>fsteps := map (\<lambda>s. if deadline_passed now s then s\<lparr>sstate := Overdue\<rparr> else s) (fsteps f)\<rparr>"
  using sweep_steps_map [of e "fid f" now "fsteps f"]
  by (auto simp: flow_sweep_def Let_def split: prod.split_asm if_split_asm)

lemma sweep_steps_moved:
  "steps_moved ss (map (\<lambda>s. if deadline_passed now s then s\<lparr>sstate := Overdue\<rparr> else s) ss)"
  by (rule steps_moved_map) (simp add: sweep_moved)

lemma flow_sweep_inv:
  assumes "flow_sweep e f now = (e', f', ok)" "flow_inv (fsteps f)"
  shows "flow_inv (fsteps f') \<and> steps_moved (fsteps f) (fsteps f')"
proof -
  have f': "fsteps f' = map (\<lambda>s. if deadline_passed now s then s\<lparr>sstate := Overdue\<rparr> else s) (fsteps f)"
    using flow_sweep_steps [OF assms(1)] by simp
  have m: "steps_moved (fsteps f) (fsteps f')" unfolding f' by (rule sweep_steps_moved)
  have "flow_inv (fsteps f')" by (rule flow_inv_moved [OF assms(2) m]) (auto simp: f' split: if_split_asm)
  then show ?thesis using m by blast
qed

lemma do_target_moves: "do_target ss s act = Inr to \<Longrightarrow> moves (sstate s) to"
  by (auto simp: do_target_def split: if_split_asm intro: moves.intros)

lemma do_target_done: "do_target ss s act = Inr Done \<Longrightarrow> deps_done ss s"
  by (auto simp: do_target_def split: if_split_asm)

text \<open>The three ways \<open>step_do\<close> ends.\<close>

lemma step_do_cases:
  assumes "step_do e f x act note = (e', f', r)"
  obtains (refused) err where "e' = e" "f' = f" "r = Inl err"
  | (unsaved) i s0 where "step_find (fsteps f) x = Some i" "s0 = fsteps f ! i \<or> s0 = (fsteps f ! i)\<lparr>sdeadline := 0\<rparr>"
      "f' = f\<lparr>fsteps := (fsteps f)[i := s0]\<rparr>" "r = Inl Unavailable" "e_store e' = e_store e"
  | (saved) i to s0 own e1 who where "step_find (fsteps f) x = Some i" "do_target (fsteps f) (fsteps f ! i) act = Inr to"
      "s0 = (if to = Pending then (fsteps f ! i)\<lparr>sdeadline := 0\<rparr> else fsteps f ! i)"
      "own = (if to = Pending then [] else sowner (fsteps f ! i))"
      "f' = f\<lparr>fsteps := (fsteps f)[i := set_state to own s0]\<rparr>"
      "persist_flow e f' = (e1, True)" "e' = audit_note e1 (fid f) x (state_text to) who note" "r = Inr ()"
proof (cases "step_find (fsteps f) x")
  case None
  then show ?thesis using assms refused by (auto simp: step_do_def)
next
  case (Some i)
  show ?thesis
  proof (cases "do_target (fsteps f) (fsteps f ! i) act")
    case (Inl err)
    then show ?thesis using assms Some refused by (auto simp: step_do_def)
  next
    case (Inr to)
    let ?s0 = "if to = Pending then (fsteps f ! i)\<lparr>sdeadline := 0\<rparr> else fsteps f ! i"
    let ?s1 = "set_state to (if to = Pending then [] else sowner (fsteps f ! i)) ?s0"
    obtain e1 ok where p: "persist_flow e (f\<lparr>fsteps := (fsteps f)[i := ?s1]\<rparr>) = (e1, ok)" by fastforce
    have eq: "step_do e f x act note =
        (if \<not> ok then (e1, f\<lparr>fsteps := (fsteps f)[i := ?s0]\<rparr>, Inl Unavailable)
         else (audit_note e1 (fid f) x (state_text to)
                 (if sowner (fsteps f ! i) \<noteq> [] then sowner ?s1 else ''api'') note,
               f\<lparr>fsteps := (fsteps f)[i := ?s1]\<rparr>, Inr ()))"
      using Some Inr p by (simp add: step_do_def Let_def)
    show ?thesis
    proof (cases ok)
      case True
      then show ?thesis using saved [OF Some Inr refl refl _ _ _ _] eq assms p by auto
    next
      case False
      have "e_store e1 = e_store e"
        using p False by (auto simp: persist_flow_def exo_persist_def split: if_split_asm)
      moreover have "?s0 = fsteps f ! i \<or> ?s0 = (fsteps f ! i)\<lparr>sdeadline := 0\<rparr>" by simp
        ultimately show ?thesis using unsaved [OF Some, of ?s0] eq assms False by auto
    qed
  qed
qed

lemma set_state_moved:
  "moves (sstate s) to \<Longrightarrow> s0 = s \<or> s0 = s\<lparr>sdeadline := d\<rparr> \<Longrightarrow> step_moved s (set_state to own s0)"
  by (auto simp: step_moved_def set_state_def)

lemma step_do_moved:
  assumes "step_do e f x act note = (e', f', r)"
  shows "steps_moved (fsteps f) (fsteps f') \<and> (flow_inv (fsteps f) \<longrightarrow> flow_inv (fsteps f'))"
  using assms
proof (cases rule: step_do_cases)
  case (unsaved i s0)
  have i: "i < length (fsteps f)" using step_find_range [OF unsaved(1)] by simp
  have mv: "step_moved (fsteps f ! i) s0" and st: "sstate s0 = sstate (fsteps f ! i)"
    using unsaved(2) by (auto simp: step_moved_def moves.stay)
  have m: "steps_moved (fsteps f) (fsteps f')" using steps_moved_update [OF i mv] unsaved(3) by simp
  moreover have "flow_inv (fsteps f')" if "flow_inv (fsteps f)"
    by (rule flow_inv_moved [OF that m]) (use unsaved(3) st i in \<open>auto simp: nth_list_update split: if_split_asm\<close>)
  ultimately show ?thesis by blast
next
  case (saved i to s0 own e1 who)
  have i: "i < length (fsteps f)" using step_find_range [OF saved(1)] by simp
  have mv: "step_moved (fsteps f ! i) (set_state to own s0)"
    by (rule set_state_moved [OF do_target_moves [OF saved(2)], where d = 0]) (simp add: saved(3))
  have m: "steps_moved (fsteps f) (fsteps f')" using steps_moved_update [OF i mv] saved(5) by simp
  moreover have "flow_inv (fsteps f')" if "flow_inv (fsteps f)"
  proof (rule flow_inv_moved [OF that m])
    fix j assume j: "j < length (fsteps f)" "sstate (fsteps f ! j) \<noteq> Done" "sstate (fsteps f' ! j) = Done"
    then have "j = i" "to = Done"
      using saved(5) i by (auto simp: nth_list_update set_state_def split: if_split_asm)
    then show "deps_done (fsteps f) (fsteps f ! j)" using do_target_done saved(2) by blast
  qed
  ultimately show ?thesis by blast
qed simp

lemma first_ready_Some:
  "first_ready ss k rest = Some i \<Longrightarrow> k \<le> i \<and> i < k + length rest \<and> sstate (rest ! (i - k)) = Pending \<and>
     deps_done ss (rest ! (i - k)) \<and>
     (\<forall>j < i - k. \<not> (sstate (rest ! j) = Pending \<and> deps_done ss (rest ! j)))"
proof (induction rest arbitrary: k)
  case (Cons s rest)
  show ?case
  proof (cases "sstate s = Pending \<and> deps_done ss s")
    case False
    then have fr: "first_ready ss (Suc k) rest = Some i" using Cons.prems by auto
    have ih: "Suc k \<le> i \<and> i < Suc k + length rest \<and> sstate (rest ! (i - Suc k)) = Pending \<and>
        deps_done ss (rest ! (i - Suc k)) \<and>
        (\<forall>j < i - Suc k. \<not> (sstate (rest ! j) = Pending \<and> deps_done ss (rest ! j)))"
      by (rule Cons.IH [OF fr])
    then have ik: "i - k = Suc (i - Suc k)" by arith
    have "\<not> (sstate ((s # rest) ! j) = Pending \<and> deps_done ss ((s # rest) ! j))" if "j < i - k" for j
      using that ih ik False by (cases j) auto
    then show ?thesis using ih ik by simp
  qed (use Cons in auto)
qed simp

lemma first_ready_None:
  "first_ready ss k rest = None \<longleftrightarrow> \<not> (\<exists>s \<in> set rest. sstate s = Pending \<and> deps_done ss s)"
  by (induction rest arbitrary: k) auto

text \<open>The ways \<open>flow_next\<close> ends, after the sweep.\<close>

definition swept :: "int \<Rightarrow> flow_step list \<Rightarrow> flow_step list" where
  "swept now ss = map (\<lambda>s. if deadline_passed now s then s\<lparr>sstate := Overdue\<rparr> else s) ss"

definition claim_start :: "int \<Rightarrow> flow_step \<Rightarrow> flow_step" where
  "claim_start now s = (if stimeout s > 0 \<and> sdeadline s = 0 then s\<lparr>sdeadline := wrap64 (now + stimeout s)\<rparr> else s)"

lemma flow_next_cases:
  assumes "flow_next e f w now1 now2 = (e', f', r)"
  obtains (bad_worker) "\<not> safe_token w OWNER_MAX" "e' = e" "f' = f" "r = Inl BadWorker"
  | (sweep_unsaved) "safe_token w OWNER_MAX" "f' = f\<lparr>fsteps := swept now1 (fsteps f)\<rparr>" "r = Inl Unavailable"
  | (nothing) "safe_token w OWNER_MAX" "f' = f\<lparr>fsteps := swept now1 (fsteps f)\<rparr>" "r = Inr None"
      "flow_sweep e f now1 = (e', f', True)"
      "\<And>s. s \<in> set (fsteps f') \<Longrightarrow> \<not> (sstate s = Pending \<and> deps_done (fsteps f') s)"
  | (unsaved) i ss where "safe_token w OWNER_MAX" "ss = swept now1 (fsteps f)" "i < length ss" "sstate (ss ! i) = Pending"
      "f' = f\<lparr>fsteps := ss[i := set_state Pending [] (claim_start now2 (ss ! i))]\<rparr>" "r = Inl Unavailable"
  | (claimed) i ss e1 e2 where "safe_token w OWNER_MAX" "ss = swept now1 (fsteps f)" "i < length ss"
      "sstate (ss ! i) = Pending" "deps_done ss (ss ! i)"
      "\<And>j. j < i \<Longrightarrow> \<not> (sstate (ss ! j) = Pending \<and> deps_done ss (ss ! j))"
      "f' = f\<lparr>fsteps := ss[i := set_state Claimed w (claim_start now2 (ss ! i))]\<rparr>"
      "persist_flow e1 f' = (e2, True)" "e' = audit_note e2 (fid f) (sid (ss ! i)) ''claimed'' w []"
      "r = Inr (Some (sid (ss ! i)))"
proof (cases "safe_token w OWNER_MAX")
  case False
  then show ?thesis using assms bad_worker by (auto simp: flow_next_def)
next
  case True
  let ?ss = "swept now1 (fsteps f)"
  obtain e1 f1 ok where sw: "flow_sweep e f now1 = (e1, f1, ok)" by (rule prod_cases3)
  have f1: "f1 = f\<lparr>fsteps := ?ss\<rparr>" using flow_sweep_steps [OF sw] by (simp add: swept_def)
  show ?thesis
  proof (cases ok)
    case False
    then show ?thesis using assms True sw f1 sweep_unsaved by (auto simp: flow_next_def)
  next
    case ok: True
    show ?thesis
    proof (cases "first_ready ?ss 0 ?ss")
      case None
      then have end1: "e' = e1" "f' = f1" "r = Inr None"
        using assms True sw ok f1 by (auto simp: flow_next_def)
      have nr: "\<not> (sstate s = Pending \<and> deps_done ?ss s)" if "s \<in> set ?ss" for s
        using None that by (auto simp: first_ready_None)
      show ?thesis by (rule nothing) (use True sw ok f1 end1 nr in auto)
    next
      case (Some i)
      note fr = first_ready_Some [OF Some]
      let ?s0 = "claim_start now2 (?ss ! i)"
      obtain e2 ok2 where p: "persist_flow e1 (f1\<lparr>fsteps := ?ss[i := set_state Claimed w ?s0]\<rparr>) = (e2, ok2)" by fastforce
      have eq: "(e', f', r) = (if \<not> ok2 then (e2, f1\<lparr>fsteps := ?ss[i := set_state Pending [] ?s0]\<rparr>, Inl Unavailable)
          else (audit_note e2 (fid f) (sid (?ss ! i)) ''claimed'' w [], f1\<lparr>fsteps := ?ss[i := set_state Claimed w ?s0]\<rparr>,
                Inr (Some (sid (?ss ! i)))))"
      proof -
        have "fsteps f1 = ?ss" by (simp add: f1)
        then have "flow_next e f w now1 now2 = (if \<not> ok2 then (e2, f1\<lparr>fsteps := ?ss[i := set_state Pending [] ?s0]\<rparr>, Inl Unavailable)
          else (audit_note e2 (fid f) (sid (?ss ! i)) ''claimed'' w [], f1\<lparr>fsteps := ?ss[i := set_state Claimed w ?s0]\<rparr>,
                Inr (Some (sid (?ss ! i)))))"
          unfolding flow_next_def claim_start_def [symmetric] using True sw ok Some p by (simp add: Let_def)
        then show ?thesis using assms by simp
      qed
      show ?thesis
      proof (cases ok2)
        case False
        then show ?thesis using unsaved [OF True refl] fr eq f1 by auto
      next
        case saved: True
        have f': "f' = f\<lparr>fsteps := ?ss[i := set_state Claimed w ?s0]\<rparr>"
          and env: "e' = audit_note e2 (fid f) (sid (?ss ! i)) ''claimed'' w []"
          and res: "r = Inr (Some (sid (?ss ! i)))"
          using eq saved f1 by auto
        have h: "i < length ?ss" "sstate (?ss ! i) = Pending" "deps_done ?ss (?ss ! i)"
          "\<And>j. j < i \<Longrightarrow> \<not> (sstate (?ss ! j) = Pending \<and> deps_done ?ss (?ss ! j))"
          using fr by auto
        have "persist_flow e1 f' = (e2, True)" using p saved f1 f' by simp
        from claimed [OF True refl h f' this env res] show ?thesis by blast
      qed
    qed
  qed
qed

lemma swept_moved: "steps_moved ss (swept now ss)"
  unfolding swept_def by (rule sweep_steps_moved)

lemma swept_inv: "flow_inv ss \<Longrightarrow> flow_inv (swept now ss)"
  by (rule flow_inv_moved [OF _ swept_moved]) (auto simp: swept_def split: if_split_asm)

lemma claim_start_fields [simp]:
  "sid (claim_start now s) = sid s" "sdesc (claim_start now s) = sdesc s" "sdeps (claim_start now s) = sdeps s"
  "stimeout (claim_start now s) = stimeout s" "sstate (claim_start now s) = sstate s" "sowner (claim_start now s) = sowner s"
  by (simp_all add: claim_start_def)

lemma steps_moved_compose_swept:
  assumes "i < length ss" "ss = swept now (fsteps f)" "sstate (ss ! i) = Pending"
    and s': "sid s' = sid (ss ! i)" "sdesc s' = sdesc (ss ! i)" "sdeps s' = sdeps (ss ! i)" "stimeout s' = stimeout (ss ! i)"
    "moves Pending (sstate s')"
  shows "steps_moved (fsteps f) (ss[i := s'])"
proof -
  have m: "steps_moved (fsteps f) ss" using swept_moved assms(2) by simp
  have l: "length ss = length (fsteps f)" by (rule steps_moved_length [OF m])
  have p: "sstate (fsteps f ! i) = Pending"
    using assms(1,3) l unfolding assms(2) swept_def by (auto split: if_split_asm)
  have "step_moved (fsteps f ! j) (ss[i := s'] ! j)" if "j < length (fsteps f)" for j
    using steps_moved_nth [OF m that] that s' p l by (cases "j = i") (auto simp: step_moved_def)
  then show ?thesis using l by (simp add: steps_moved_def list_all2_conv_all_nth)
qed

lemma flow_inv_set_not_done:
  assumes "flow_inv ss" "i < length ss" "step_moved (ss ! i) s'" "sstate s' \<noteq> Done"
  shows "flow_inv (ss[i := s'])"
  by (rule flow_inv_moved [OF assms(1) steps_moved_update [OF assms(2,3)]])
    (use assms(2,4) in \<open>auto simp: nth_list_update split: if_split_asm\<close>)

lemma flow_next_moved:
  assumes "flow_next e f w now1 now2 = (e', f', r)"
  shows "steps_moved (fsteps f) (fsteps f') \<and> (flow_inv (fsteps f) \<longrightarrow> flow_inv (fsteps f'))"
  using assms
proof (cases rule: flow_next_cases)
  case (unsaved i ss)
  let ?s = "set_state Pending [] (claim_start now2 (ss ! i))"
  have "steps_moved (fsteps f) (fsteps f')"
    using steps_moved_compose_swept [OF unsaved(3,2,4), of ?s] unsaved(5) by (simp add: set_state_def moves.stay)
  moreover have "flow_inv (fsteps f')" if "flow_inv (fsteps f)"
    using flow_inv_set_not_done [OF _ unsaved(3), of ?s] swept_inv [OF that] unsaved(2,4,5)
    by (simp add: step_moved_def set_state_def moves.stay)
  ultimately show ?thesis by blast
next
  case (claimed i ss e1 e2)
  let ?s = "set_state Claimed w (claim_start now2 (ss ! i))"
  have "steps_moved (fsteps f) (fsteps f')"
    using steps_moved_compose_swept [OF claimed(3,2,4), of ?s] claimed(7) by (simp add: set_state_def moves.claim)
  moreover have "flow_inv (fsteps f')" if "flow_inv (fsteps f)"
    using flow_inv_set_not_done [OF _ claimed(3), of ?s] swept_inv [OF that] claimed(2,4,7)
    by (simp add: step_moved_def set_state_def moves.claim)
  ultimately show ?thesis by blast
qed (auto simp: swept_moved swept_inv)

lemma cancel_steps_map:
  "cancel_steps e i ss = (e', ss', ch) \<Longrightarrow>
   ss' = map (\<lambda>s. if step_active s then set_state Cancelled [] s else s) ss \<and> ch = list_ex step_active ss \<and>
   e_store e' = e_store e"
proof (induction ss arbitrary: e e' ss' ch)
  case (Cons s ss)
  have st: "e_store (audit_note e i x a b c) = e_store e" for e x a b c
    by (simp add: audit_note_def exo_note_def)
  show ?case
    using Cons.prems Cons.IH st
    by (fastforce simp: Let_def split: prod.split_asm if_split_asm)
qed simp

lemma flow_cancel1_cases:
  assumes "flow_cancel1 e f = (e', f', r)"
  shows "(r = Inl Unavailable \<and> f' = f \<and> e_store e' = e_store e) \<or>
    (r = Inr () \<and> f' = f\<lparr>fsteps := map (\<lambda>s. if step_active s then set_state Cancelled [] s else s) (fsteps f)\<rparr>)"
  using assms cancel_steps_map [of e "fid f" "fsteps f"]
  by (auto simp: flow_cancel1_def Let_def persist_flow_def exo_persist_def split: prod.split_asm if_split_asm)

lemma flow_cancel1_moved:
  assumes "flow_cancel1 e f = (e', f', r)"
  shows "steps_moved (fsteps f) (fsteps f') \<and> (flow_inv (fsteps f) \<longrightarrow> flow_inv (fsteps f'))"
proof -
  let ?g = "\<lambda>s. if step_active s then set_state Cancelled [] s else s"
  have m: "steps_moved (fsteps f) (map ?g (fsteps f))"
    by (rule steps_moved_map) (auto simp: step_moved_def set_state_def step_active_def intro: moves.intros)
  have "flow_inv (map ?g (fsteps f))" if "flow_inv (fsteps f)"
    by (rule flow_inv_moved [OF that m]) (auto simp: set_state_def split: if_split_asm)
  then show ?thesis using flow_cancel1_cases [OF assms] m by auto
qed

subsection \<open>A flow that is not stuck makes progress\<close>

lemma acyclic_minimal:
  assumes "acyclic (dep_rel ss)" "i < length ss" "P i"
  obtains m where "m < length ss" "P m" "\<And>j. (m, j) \<in> dep_rel ss \<Longrightarrow> \<not> P j"
proof -
  have "dep_rel ss \<subseteq> {..<length ss} \<times> {..<length ss}" using dep_rel_range by auto
  then have "finite (dep_rel ss)" by (rule finite_subset) simp
  then have "wf ((dep_rel ss)\<inverse>)" using assms(1) by (rule finite_acyclic_wf_converse)
  moreover have "i \<in> {k. k < length ss \<and> P k}" using assms by simp
  ultimately obtain m where "m \<in> {k. k < length ss \<and> P k}"
    "\<And>j. (j, m) \<in> (dep_rel ss)\<inverse> \<Longrightarrow> j \<notin> {k. k < length ss \<and> P k}"
    using wfE_min [of "(dep_rel ss)\<inverse>" i "{k. k < length ss \<and> P k}"] by blast
  then show ?thesis using that [of m] dep_rel_range by blast
qed

text \<open>A step that is not done has, among its unfinished dependencies, one whose own are all done.\<close>

lemma ready_exists:
  assumes inv: "flow_inv ss" and nd: "s \<in> set ss" "sstate s \<noteq> Done"
  obtains m where "m < length ss" "sstate (ss ! m) \<noteq> Done" "deps_done ss (ss ! m)"
proof -
  obtain i where i: "i < length ss" "sstate (ss ! i) \<noteq> Done" using nd by (metis in_set_conv_nth)
  obtain m where m: "m < length ss" "sstate (ss ! m) \<noteq> Done"
    "\<And>j. (m, j) \<in> dep_rel ss \<Longrightarrow> \<not> sstate (ss ! j) \<noteq> Done"
    using acyclic_minimal [of ss i "\<lambda>k. sstate (ss ! k) \<noteq> Done"] inv i by (auto simp: flow_inv_def)
  have "deps_done ss (ss ! m)"
    unfolding deps_done_def list_all_iff
  proof
    fix d assume d: "d \<in> set (sdeps (ss ! m))"
    then obtain j where j: "step_find ss d = Some j" using flow_inv_deps [OF inv nth_mem [OF m(1)] d] by blast
    then have "(m, j) \<in> dep_rel ss" using d m(1) by (auto simp: dep_rel_def)
    then show "case step_find ss d of None \<Rightarrow> False | Some j \<Rightarrow> sstate (ss ! j) = Done" using m(3) j by auto
  qed
  then show ?thesis using that m(1,2) by blast
qed

lemma sweep_steps_ok: "sweep_steps e i now ss = (e', ss', ch) \<Longrightarrow> e_ok e' = e_ok e"
proof (induction ss arbitrary: e e' ss' ch)
  case (Cons s ss)
  let ?a = "audit_note e i (sid s) ''overdue'' (if sowner s \<noteq> [] then sowner s else ''exoflow'') []"
  obtain e2 s2 c2 where r1: "sweep_steps ?a i now ss = (e2, s2, c2)" by (rule prod_cases3)
  obtain e3 s3 c3 where r2: "sweep_steps e i now ss = (e3, s3, c3)" by (rule prod_cases3)
  have "e_ok ?a = e_ok e" by (simp add: audit_note_def exo_note_def)
  then show ?case
    using Cons.prems Cons.IH [OF r1] Cons.IH [OF r2] r1 r2
    by (cases "deadline_passed now s"; cases "sowner s = []") auto
qed simp

lemma flow_next_progress:
  assumes inv: "flow_inv (fsteps f)" and w: "safe_token w OWNER_MAX" and ok: "\<And>n. e_ok e n"
    and s: "s \<in> set (swept now1 (fsteps f))" "sstate s \<noteq> Done"
    and free: "\<And>s. s \<in> set (swept now1 (fsteps f)) \<Longrightarrow> sstate s = Pending \<or> sstate s = Done"
  shows "\<exists>e' f' x. flow_next e f w now1 now2 = (e', f', Inr (Some x))"
proof -
  let ?ss = "swept now1 (fsteps f)"
  obtain m where m: "m < length ?ss" "sstate (?ss ! m) \<noteq> Done" "deps_done ?ss (?ss ! m)"
    using ready_exists [OF swept_inv [OF inv] s] by blast
  then have p: "sstate (?ss ! m) = Pending" using free nth_mem by blast
  have ch: "\<not> list_ex (deadline_passed now1) (fsteps f)"
  proof
    assume "list_ex (deadline_passed now1) (fsteps f)"
    then obtain s0 where "s0 \<in> set (fsteps f)" "deadline_passed now1 s0" by (auto simp: list_ex_iff)
    then have "s0\<lparr>sstate := Overdue\<rparr> \<in> set ?ss" by (force simp: swept_def)
    then show False using free by fastforce
  qed
  obtain e1 ss' c where sw0: "sweep_steps e (fid f) now1 (fsteps f) = (e1, ss', c)" by (rule prod_cases3)
  have c: "ss' = ?ss" "\<not> c" using sweep_steps_map [OF sw0] ch by (auto simp: swept_def)
  have e1: "e_ok e1 = e_ok e" by (rule sweep_steps_ok [OF sw0])
  have sw: "flow_sweep e f now1 = (e1, f\<lparr>fsteps := ?ss\<rparr>, True)" using sw0 c by (simp add: flow_sweep_def)
  have "first_ready ?ss 0 ?ss \<noteq> None" using m p nth_mem [OF m(1)] by (auto simp: first_ready_None)
  then obtain i where "first_ready ?ss 0 ?ss = Some i" by blast
  then show ?thesis
    using w sw ok by (auto simp: flow_next_def Let_def persist_flow_def exo_persist_def e1 split: prod.split)
qed

end
