(* ===== verification/Exo_Flow_Reg.thy ===== *)
theory Exo_Flow_Reg
  imports Exo_Flow_Ops
begin

text \<open>
  The registry of exoflow (\<open>exoflow/src/flows.c\<close>): creating, deleting and looking up flows, and
  stopping a loop. A loop is a chain of records; every later iteration names the first one as its
  parent. The registry is the linked list \<open>g_flows\<close> with its count and generation.
\<close>

record freg =
  g_flows :: "flow list"
  g_nflows :: nat
  g_gen :: u64

fun find_index :: "('a \<Rightarrow> bool) \<Rightarrow> 'a list \<Rightarrow> nat option" where
  "find_index P [] = None"
| "find_index P (x # xs) = (if P x then Some 0 else map_option Suc (find_index P xs))"

definition flow_find :: "flow list \<Rightarrow> string \<Rightarrow> nat option" where
  "flow_find fs i = find_index (\<lambda>f. fid f = i) fs"

definition flow_count :: "freg \<Rightarrow> nat" where
  "flow_count r = g_nflows r"

text \<open>Linking a record in front of the list.\<close>

definition link_flow :: "freg \<Rightarrow> flow \<Rightarrow> freg" where
  "link_flow r f = \<lparr>g_flows = f # g_flows r, g_nflows = g_nflows r + 1, g_gen = g_gen r + 1\<rparr>"

subsection \<open>Flow ids\<close>

definition flow_id_text :: "int \<Rightarrow> u32 \<Rightarrow> string" where
  "flow_id_text now rnd = show_int now @ '':'' @ show_hex8 rnd"

text \<open>
  Eight attempts, each with a clock reading and a random number. \<open>make_flow_id\<close> takes the lock
  for each attempt anew, so each sees a list of its own.
\<close>

definition make_flow_id_locked :: "flow list \<Rightarrow> (int \<times> u32) list \<Rightarrow> string option" where
  "make_flow_id_locked fs tries =
     find (\<lambda>i. flow_find fs i = None) (map (\<lambda>(now, rnd). flow_id_text now rnd) (take 8 tries))"

definition make_flow_id :: "(flow list \<times> int \<times> u32) list \<Rightarrow> string option" where
  "make_flow_id tries =
     map_option (\<lambda>(fs, now, rnd). flow_id_text now rnd)
       (find (\<lambda>(fs, now, rnd). flow_find fs (flow_id_text now rnd) = None) (take 8 tries))"

subsection \<open>Creating a flow\<close>

definition is_loop_line :: "string \<Rightarrow> bool" where
  "is_loop_line ln \<longleftrightarrow> take 5 ln = ''loop'' @ [tab]"

definition create_step :: "flow_step list \<Rightarrow> string \<Rightarrow> flow_err + flow_step" where
  "create_step acc ln =
     (let cols = split_on tab ln; nc = length cols
      in if nc < 3 \<or> nc > 5 then Inl BadStepLine
         else if \<not> safe_token (cols ! 0) STEP_ID_MAX then Inl BadStepId
         else if step_find acc (cols ! 0) \<noteq> None then Inl (DuplicateStep (cols ! 0))
         else (case parse_deps (cols ! 2) of
                 None \<Rightarrow> Inl BadDepId
               | Some deps \<Rightarrow>
                   let s = fresh_step (cols ! 0) (unesc_line (cols ! 1)) deps
                   in if nc = 3 then Inr s
                      else if atoll (cols ! 3) < 0 then Inl BadDeadline
                      else if nc = 4 then Inr (s\<lparr>sdeadline := atoll (cols ! 3)\<rparr>)
                      else if atoll (cols ! 4) < 0 then Inl BadTimeout
                      else Inr (s\<lparr>sdeadline := atoll (cols ! 3), stimeout := atoll (cols ! 4)\<rparr>)))"

fun create_steps :: "flow_step list \<Rightarrow> string list \<Rightarrow> flow_err + flow_step list" where
  "create_steps acc [] = Inr acc"
| "create_steps acc (ln # rest) =
     (case create_step acc ln of Inl x \<Rightarrow> Inl x | Inr s \<Rightarrow> create_steps (acc @ [s]) rest)"

definition first_unknown :: "flow_step list \<Rightarrow> string option" where
  "first_unknown ss = find (\<lambda>d. step_find ss d = None) (concat (map sdeps ss))"

definition start_loop :: "(int \<times> int \<times> int) option \<Rightarrow> int \<Rightarrow> flow \<Rightarrow> flow" where
  "start_loop spec now f =
     (case spec of
        None \<Rightarrow> f
      | Some (iv, mx, un) \<Rightarrow> f\<lparr>loop_active := True, loop_interval := iv, loop_max := mx, loop_until := un,
          loop_iter := 1, loop_budget := 1, loop_next := wrap64 (now + iv)\<rparr>)"

text \<open>The body up to the id: name line, step lines, an optional loop line at the end.\<close>

definition create_flow :: "bytes \<Rightarrow> int \<Rightarrow> flow_err + flow" where
  "create_flow body now =
     (case text_lines (cstr body) of
        [] \<Rightarrow> Inl EmptyBody
      | h # rest \<Rightarrow>
          let name = dropWhile (\<lambda>c. c = CHR '' '' \<or> c = tab) h
          in if name = [] then Inl EmptyName
             else if rest = [] then Inl NoSteps
             else if length rest = 1 \<and> is_loop_line (hd rest) then Inl NoSteps
             else let lp = is_loop_line (last rest); spec = (if lp then parse_loop_spec (last rest) else None)
             in if lp \<and> spec = None then Inl BadLoopSpec
             else (case create_steps [] (if lp then butlast rest else rest) of
                     Inl x \<Rightarrow> Inl x
                   | Inr ss \<Rightarrow>
                       (case first_unknown ss of
                          Some d \<Rightarrow> Inl (UnknownDep d)
                        | None \<Rightarrow>
                            if detect_cycle ss then Inl CyclicDeps
                            else Inr (start_loop spec now (empty_flow\<lparr>fname := unesc_line name, fsteps := ss\<rparr>)))))"

definition create_reminders :: "env \<Rightarrow> flow \<Rightarrow> env" where
  "create_reminders e f =
     (let e1 = fold (\<lambda>s e. if sdeadline s > 0 then xs_remind e (sdeadline s) (''exoflow '' @ fid f @ '' '' @ sid s) else e)
                 (fsteps f) e
      in if loop_active f then xs_remind e1 (loop_next f) (''exoflow:loop:'' @ fid f) else e1)"

text \<open>\<open>r\<close> is the registry after the write. On a collision the code deletes the bare id, not the key.\<close>

definition flow_create :: "env \<Rightarrow> freg \<Rightarrow> bytes \<Rightarrow> int \<Rightarrow> (flow list \<times> int \<times> u32) list \<Rightarrow>
    env \<times> freg \<times> (flow_err + string \<times> nat)" where
  "flow_create e r body now tries =
     (case create_flow body now of
        Inl x \<Rightarrow> (e, r, Inl x)
      | Inr f0 \<Rightarrow>
          (case make_flow_id tries of
             None \<Rightarrow> (e, r, Inl NoFlowId)
           | Some i \<Rightarrow>
               let f = f0\<lparr>fid := i\<rparr>; (e1, ok) = persist_flow e f
               in if \<not> ok then (e1, r, Inl Unavailable)
                  else if flow_find (g_flows r) i \<noteq> None then (fst (exo_del e1 i), r, Inl IdCollision)
                  else (create_reminders e1 f, link_flow r f, Inr (i, length (fsteps f)))))"

subsection \<open>Stopping a loop, deleting a flow\<close>

definition loop_root_id :: "flow \<Rightarrow> string" where
  "loop_root_id f = (if loop_parent f \<noteq> [] then loop_parent f else fid f)"

definition in_loop :: "string \<Rightarrow> flow \<Rightarrow> bool" where
  "in_loop rid f \<longleftrightarrow> loop_active f \<and> (fid f = rid \<or> loop_parent f = rid)"

definition halt :: "flow \<Rightarrow> flow" where
  "halt f = f\<lparr>loop_stopped := True, loop_next := 0\<rparr>"

text \<open>The walk over the list: the environment, the list, whether a record changed, success.\<close>

fun stop_records :: "env \<Rightarrow> string \<Rightarrow> flow list \<Rightarrow> env \<times> flow list \<times> bool \<times> bool" where
  "stop_records e rid [] = (e, [], False, True)"
| "stop_records e rid (f # fs) =
     (if in_loop rid f \<and> (\<not> loop_stopped f \<or> loop_next f \<noteq> 0) then
        (let f' = halt f; (e1, ok) = persist_flow e f'
         in if \<not> ok then (e1, f' # fs, False, False)
            else (let (e2, fs', ch, ok2) = stop_records e1 rid fs in (e2, f' # fs', True, ok2)))
      else (let (e2, fs', ch, ok2) = stop_records e rid fs in (e2, f # fs', ch, ok2)))"

definition loop_stop_all :: "env \<Rightarrow> flow list \<Rightarrow> flow \<Rightarrow> string \<Rightarrow> env \<times> flow list \<times> bool" where
  "loop_stop_all e fs f reason =
     (let rid = loop_root_id f; (e1, fs', ch, ok) = stop_records e rid fs
      in if \<not> ok then (e1, fs', False)
         else if ch then (exo_note e1 (''flow loop '' @ rid @ '' stopped ('' @ reason @ '')''), fs', True)
         else (e1, fs', True))"

definition flow_stop_loop :: "env \<Rightarrow> freg \<Rightarrow> string \<Rightarrow> env \<times> freg \<times> (flow_err + unit)" where
  "flow_stop_loop e r i =
     (case flow_find (g_flows r) i of
        None \<Rightarrow> (e, r, Inl NoSuchFlow)
      | Some j \<Rightarrow>
          if \<not> loop_active (g_flows r ! j) then (e, r, Inl NotALoop)
          else (let (e1, fs, ok) = loop_stop_all e (g_flows r) (g_flows r ! j) ''stop-loop''
                in (e1, r\<lparr>g_flows := fs\<rparr>, if ok then Inr () else Inl Unavailable)))"

text \<open>The result tells whether the flow existed.\<close>

definition flow_delete :: "env \<Rightarrow> freg \<Rightarrow> string \<Rightarrow> env \<times> freg \<times> (flow_err + bool)" where
  "flow_delete e r i =
     (case flow_find (g_flows r) i of
        None \<Rightarrow> (e, r, Inr False)
      | Some j \<Rightarrow>
          let f = g_flows r ! j;
              (e1, fs, ok) = (if loop_active f then loop_stop_all e (g_flows r) f ''flow deleted''
                              else (e, g_flows r, True))
          in if \<not> ok then (e1, r\<lparr>g_flows := fs\<rparr>, Inl Unavailable)
             else (fst (exo_del e1 (flow_key i)),
                   \<lparr>g_flows = take j fs @ drop (Suc j) fs, g_nflows = g_nflows r - 1, g_gen = g_gen r + 1\<rparr>,
                   Inr True))"

definition flow_cancel :: "env \<Rightarrow> freg \<Rightarrow> string \<Rightarrow> env \<times> freg \<times> (flow_err + unit)" where
  "flow_cancel e r i =
     (case flow_find (g_flows r) i of
        None \<Rightarrow> (e, r, Inl NoSuchFlow)
      | Some j \<Rightarrow> (let (e1, f', res) = flow_cancel1 e (g_flows r ! j)
                   in (e1, r\<lparr>g_flows := (g_flows r)[j := f']\<rparr>, res)))"

subsection \<open>What a registry keeps\<close>

definition within_budget :: "flow \<Rightarrow> bool" where
  "within_budget f \<longleftrightarrow> (loop_active f \<and> loop_max f > 0 \<longrightarrow> loop_budget f \<le> loop_max f)"

definition flow_good :: "flow \<Rightarrow> bool" where
  "flow_good f \<longleftrightarrow> flow_inv (fsteps f) \<and> within_budget f"

definition reg_ok :: "freg \<Rightarrow> bool" where
  "reg_ok r \<longleftrightarrow> g_nflows r = length (g_flows r) \<and> distinct (map fid (g_flows r)) \<and> list_all flow_good (g_flows r)"

lemma find_index_None: "find_index P xs = None \<longleftrightarrow> (\<forall>x \<in> set xs. \<not> P x)"
  by (induction xs) auto

lemma find_index_Some: "find_index P xs = Some i \<Longrightarrow> i < length xs \<and> P (xs ! i) \<and> (\<forall>j < i. \<not> P (xs ! j))"
proof (induction xs arbitrary: i)
  case (Cons x xs)
  then show ?case by (cases i) (auto split: if_split_asm simp: less_Suc_eq_0_disj)
qed simp

lemma flow_find_None [simp]: "flow_find fs i = None \<longleftrightarrow> i \<notin> fid ` set fs"
  by (auto simp: flow_find_def find_index_None)

lemma flow_find_Some: "flow_find fs i = Some j \<Longrightarrow> j < length fs \<and> fid (fs ! j) = i"
  using find_index_Some [of "\<lambda>f. fid f = i" fs j] by (simp add: flow_find_def)

text \<open>An operation that changes records in place, keeping ids, keeps the registry.\<close>

definition records_kept :: "flow list \<Rightarrow> flow list \<Rightarrow> bool" where
  "records_kept = list_all2 (\<lambda>f f'. fid f' = fid f \<and> (flow_good f \<longrightarrow> flow_good f'))"

lemma records_kept_refl [simp]: "records_kept fs fs"
  by (simp add: records_kept_def list_all2_refl)

lemma records_kept_Cons [simp]:
  "records_kept (f # fs) (f' # fs') \<longleftrightarrow> fid f' = fid f \<and> (flow_good f \<longrightarrow> flow_good f') \<and> records_kept fs fs'"
  by (simp add: records_kept_def)

lemma records_kept_update:
  "j < length fs \<Longrightarrow> fid f' = fid (fs ! j) \<Longrightarrow> (flow_good (fs ! j) \<Longrightarrow> flow_good f') \<Longrightarrow> records_kept fs (fs[j := f'])"
  by (auto simp: records_kept_def list_all2_conv_all_nth nth_list_update)

lemma records_kept_ids: "records_kept fs fs' \<Longrightarrow> map fid fs' = map fid fs"
  by (auto simp: records_kept_def list_all2_conv_all_nth intro!: nth_equalityI)

lemma records_kept_good: "records_kept fs fs' \<Longrightarrow> list_all flow_good fs \<Longrightarrow> list_all flow_good fs'"
  by (auto simp: records_kept_def list_all2_conv_all_nth list_all_length)

lemma records_kept_length: "records_kept fs fs' \<Longrightarrow> length fs' = length fs"
  by (simp add: records_kept_def list_all2_lengthD)

lemma reg_ok_kept: "reg_ok r \<Longrightarrow> records_kept (g_flows r) fs \<Longrightarrow> reg_ok (r\<lparr>g_flows := fs\<rparr>)"
  using records_kept_ids records_kept_good records_kept_length by (auto simp: reg_ok_def)

lemma reg_ok_link: "reg_ok r \<Longrightarrow> flow_good f \<Longrightarrow> fid f \<notin> fid ` set (g_flows r) \<Longrightarrow> reg_ok (link_flow r f)"
  by (simp add: reg_ok_def link_flow_def)

lemma reg_ok_nth: "reg_ok r \<Longrightarrow> j < length (g_flows r) \<Longrightarrow> flow_good (g_flows r ! j)"
  by (simp add: reg_ok_def list_all_length)

subsection \<open>What is created\<close>

lemma wrap64_range: "LLONG_MIN \<le> wrap64 i \<and> wrap64 i \<le> LLONG_MAX"
  using sint_greater_eq [of "word_of_int i :: 64 word"] sint_less [of "word_of_int i :: 64 word"]
  by (simp add: wrap64_def LLONG_MIN_def LLONG_MAX_def)

lemma atoll_le: "atoll s \<le> LLONG_MAX"
  by (auto simp: atoll_def strtoll_def Let_def clamp_ll_def LLONG_MIN_def LLONG_MAX_def split: list.split)

lemma parse_deps_tokens: "parse_deps s = Some ds \<Longrightarrow> list_all (\<lambda>d. safe_token d STEP_ID_MAX) ds"
proof (induction s arbitrary: ds rule: parse_deps.induct)
  case (1 s)
  let ?d = "takeWhile (\<lambda>c. c \<noteq> CHR '','') s"
  have eq: "(if s = [] then Some [] else if \<not> safe_token ?d STEP_ID_MAX then None
      else (case dropWhile (\<lambda>c. c \<noteq> CHR '','') s of [] \<Rightarrow> Some [?d] | _ # r \<Rightarrow> map_option ((#) ?d) (parse_deps r))) = Some ds"
    using 1(2) by (subst (asm) parse_deps.simps) (unfold Let_def, assumption)
  show ?case
  proof (cases "s = [] \<or> \<not> safe_token ?d STEP_ID_MAX")
    case True
    then show ?thesis using eq by (auto split: if_split_asm)
  next
    case False
    show ?thesis
    proof (cases "dropWhile (\<lambda>c. c \<noteq> CHR '','') s")
      case Nil
      have "ds = [?d]" using eq False unfolding Nil by simp
      then show ?thesis using False by simp
    next
      case (Cons c r)
      obtain ds' where ds: "parse_deps r = Some ds'" "ds = ?d # ds'" using eq False unfolding Cons by auto
      show ?thesis using 1(1) [OF _ refl _ Cons ds(1)] False ds(2) by simp
    qed
  qed
qed

lemma step_find_None: "step_find ss x = None \<longleftrightarrow> x \<notin> sid ` set ss"
proof -
  have "find_from i x ss = None \<longleftrightarrow> x \<notin> sid ` set ss" for i
    by (induction ss arbitrary: i) auto
  then show ?thesis by (simp add: step_find_def)
qed

definition newborn :: "flow_step \<Rightarrow> bool" where
  "newborn s \<longleftrightarrow> step_ok s \<and> sstate s = Pending \<and> sowner s = []"

lemma create_step_new:
  assumes "create_step acc ln = Inr s"
  shows "newborn s \<and> step_find acc (sid s) = None"
proof -
  let ?cols = "split_on tab ln"
  obtain deps where id: "safe_token (?cols ! 0) STEP_ID_MAX" and nf: "step_find acc (?cols ! 0) = None"
    and d: "parse_deps (?cols ! 2) = Some deps"
    using assms by (auto simp: create_step_def Let_def split: if_split_asm option.split_asm)
  note td = parse_deps_tokens [OF d]
  show ?thesis
    using assms id nf d td atoll_le [of "?cols ! 3"] atoll_le [of "?cols ! 4"]
    by (auto simp: create_step_def Let_def newborn_def step_ok_def fresh_step_def LLONG_MAX_def split: if_split_asm)
qed

lemma create_steps_new:
  "create_steps acc lns = Inr ss \<Longrightarrow> list_all newborn acc \<Longrightarrow> distinct (map sid acc) \<Longrightarrow>
   list_all newborn ss \<and> distinct (map sid ss) \<and> length ss = length acc + length lns"
proof (induction lns arbitrary: acc)
  case (Cons ln lns)
  then obtain s where s: "create_step acc ln = Inr s" "create_steps (acc @ [s]) lns = Inr ss"
    by (auto split: sum.split_asm)
  have "step_find acc (sid s) = None" "newborn s" using create_step_new [OF s(1)] by simp_all
  then have "sid s \<notin> sid ` set acc" using step_find_None by blast
  then show ?case using Cons.IH [OF s(2)] Cons.prems(2,3) \<open>newborn s\<close> by auto
qed simp

lemma units_loop_le: "n \<le> LLONG_MAX \<Longrightarrow> units_loop n s \<le> LLONG_MAX"
proof (induction n s rule: units_loop.induct)
  case (2 n c r)
  then show ?case using wrap64_range by (auto simp: Let_def LLONG_MAX_def)
qed (simp add: LLONG_MAX_def)

lemma parse_units_le: "parse_units s \<le> LLONG_MAX"
  using units_loop_le [of 0 s] by (auto simp: parse_units_def LLONG_MAX_def split: list.split)

lemma loop_args_range:
  "loop_args ts m u = Some (mx, un) \<Longrightarrow> 0 \<le> m \<Longrightarrow> m \<le> LLONG_MAX \<Longrightarrow> 0 \<le> u \<Longrightarrow> u \<le> LLONG_MAX \<Longrightarrow>
   0 \<le> mx \<and> mx \<le> LLONG_MAX \<and> 0 \<le> un \<and> un \<le> LLONG_MAX"
proof (induction ts m u rule: loop_args.induct)
  case (3 tok arg r m u)
  then show ?case using atoll_le [of arg] by (auto simp: Let_def split: if_split_asm)
qed auto

lemma parse_loop_spec_range:
  assumes "parse_loop_spec ln = Some (iv, mx, un)"
  shows "1 \<le> iv \<and> iv \<le> LLONG_MAX \<and> 0 \<le> mx \<and> mx \<le> LLONG_MAX \<and> 0 \<le> un \<and> un \<le> LLONG_MAX"
proof -
  obtain a b c r where t: "strtok_all (\<lambda>c. c = CHR '' '' \<or> c = tab) ln = a # b # c # r"
    using assms by (auto simp: parse_loop_spec_def split: list.split_asm)
  have iv: "iv = parse_units c" "\<not> parse_units c < 1" and la: "loop_args r 0 0 = Some (mx, un)"
    using assms t by (auto simp: parse_loop_spec_def split: if_split_asm)
  show ?thesis using iv parse_units_le [of c] loop_args_range [OF la] by (simp add: LLONG_MAX_def)
qed

text \<open>A flow that passes the checks can be stored and read back, and satisfies the invariant.\<close>

lemma flow_inv_newborn:
  assumes "list_all newborn ss" "distinct (map sid ss)" "first_unknown ss = None" "\<not> detect_cycle ss"
  shows "flow_inv ss"
proof -
  have "acyclic (dep_rel ss)" using assms(4) by (simp add: detect_cycle_iff)
  moreover have "step_find ss d \<noteq> None" if "s \<in> set ss" "d \<in> set (sdeps s)" for s d
    using assms(3) that by (auto simp: first_unknown_def find_None_iff)
  ultimately show ?thesis using assms(1,2) by (auto simp: flow_inv_def newborn_def list_all_iff)
qed

lemma create_flow_good:
  assumes "create_flow body now = Inr f"
  shows "flow_inv (fsteps f)" and "within_budget f" and "fsteps f \<noteq> []"
    and "list_all newborn (fsteps f)" and "fid f = []" and "loop_parent f = []"
    and "loop_active f \<Longrightarrow> loop_iter f = 1 \<and> loop_budget f = 1 \<and> 1 \<le> loop_interval f \<and>
      loop_next f = wrap64 (now + loop_interval f)"
    and "loop_active f \<Longrightarrow> 0 \<le> loop_next f \<Longrightarrow> flow_ok f" and "\<not> loop_active f \<Longrightarrow> flow_ok f"
proof -
  obtain h rest where tl: "text_lines (cstr body) = h # rest"
    using assms by (auto simp: create_flow_def split: list.split_asm)
  define name where "name = dropWhile (\<lambda>c. c = CHR '' '' \<or> c = tab) h"
  define lp where "lp = is_loop_line (last rest)"
  define spec where "spec = (if lp then parse_loop_spec (last rest) else None)"
  define lns where "lns = (if lp then butlast rest else rest)"
  have r: "rest \<noteq> []" "\<not> (length rest = 1 \<and> is_loop_line (hd rest))" "\<not> (lp \<and> spec = None)"
    using assms tl by (auto simp: create_flow_def name_def lp_def spec_def Let_def split: if_split_asm)
  obtain ss where ss: "create_steps [] lns = Inr ss" "first_unknown ss = None" "\<not> detect_cycle ss"
    and f: "f = start_loop spec now (empty_flow\<lparr>fname := unesc_line name, fsteps := ss\<rparr>)"
    using assms tl by (auto simp: create_flow_def name_def lp_def spec_def lns_def Let_def
        split: if_split_asm sum.split_asm option.split_asm)
  note new = create_steps_new [OF ss(1), simplified]
  have "lns \<noteq> []"
  proof (cases lp)
    case True
    then have "length rest \<noteq> 1" using r(1,2) by (cases rest) (auto simp: lp_def)
    then show ?thesis using True r(1) by (cases rest) (auto simp: lns_def)
  qed (simp add: lns_def r(1))
  then have ne: "ss \<noteq> []" using new by auto
  have fs: "fsteps f = ss" by (simp add: f start_loop_def split: option.split prod.split)
  show "flow_inv (fsteps f)" using flow_inv_newborn new ss(2,3) fs by simp
  show "fsteps f \<noteq> []" "list_all newborn (fsteps f)" using ne new fs by simp_all
  show "fid f = []" "loop_parent f = []"
    by (simp_all add: f start_loop_def empty_flow_def split: option.split prod.split)
  have rng: "1 \<le> iv \<and> iv \<le> LLONG_MAX \<and> 0 \<le> mx \<and> mx \<le> LLONG_MAX \<and> 0 \<le> un \<and> un \<le> LLONG_MAX"
    if "spec = Some (iv, mx, un)" for iv mx un
    using that parse_loop_spec_range by (auto simp: spec_def split: if_split_asm)
  show "within_budget f" using rng
    by (auto simp: f start_loop_def within_budget_def empty_flow_def split: option.split prod.split)
  show "loop_active f \<Longrightarrow> loop_iter f = 1 \<and> loop_budget f = 1 \<and> 1 \<le> loop_interval f \<and>
      loop_next f = wrap64 (now + loop_interval f)"
    using rng by (auto simp: f start_loop_def empty_flow_def split: option.split_asm prod.split_asm)
  have ok: "list_all step_ok ss" using new by (auto simp: newborn_def list_all_iff)
  show "loop_active f \<Longrightarrow> 0 \<le> loop_next f \<Longrightarrow> flow_ok f"
    using rng ok wrap64_range [of "now + loop_interval f"]
    by (auto simp: f start_loop_def empty_flow_def flow_ok_def loop_ok_def LLONG_MAX_def
        split: option.split_asm prod.split_asm)
  show "\<not> loop_active f \<Longrightarrow> flow_ok f"
    using ok ne by (auto simp: f start_loop_def empty_flow_def flow_ok_def loop_ok_def split: option.split_asm prod.split_asm)
qed

end
