(* ===== verification/Exo_Flow_Loops.thy ===== *)
theory Exo_Flow_Loops
  imports Exo_Flow_Reg
begin

text \<open>
  The lazy loop scheduler and the reload of exoflow (\<open>exoflow/src/flows.c\<close>). Every read of a looping
  record runs \<open>loop_tick\<close>, which starts the next iteration when the newest record is finished and due.
  Records are named by their place in the list; the caller holds the registry lock throughout.
\<close>

subsection \<open>The loop tick\<close>

text \<open>The first record with the highest iteration label.\<close>

fun driver_scan :: "string \<Rightarrow> nat \<Rightarrow> flow list \<Rightarrow> (nat \<times> int) option \<Rightarrow> (nat \<times> int) option" where
  "driver_scan rid k [] best = best"
| "driver_scan rid k (f # fs) best =
     driver_scan rid (Suc k) fs
       (if in_loop rid f \<and> (case best of None \<Rightarrow> True | Some (_, it) \<Rightarrow> loop_iter f > it) then Some (k, loop_iter f) else best)"

definition loop_driver :: "flow list \<Rightarrow> flow \<Rightarrow> nat option" where
  "loop_driver fs f = map_option fst (driver_scan (loop_root_id f) 0 fs None)"

definition loop_is_terminal :: "flow \<Rightarrow> bool" where
  "loop_is_terminal f \<longleftrightarrow> flow_status f \<noteq> SActive"

definition clone_step :: "flow_step \<Rightarrow> flow_step" where
  "clone_step s = (fresh_step (sid s) (sdesc s) (sdeps s))\<lparr>sdeadline := sdeadline s\<rparr>"

definition loop_clone_steps :: "flow \<Rightarrow> string \<Rightarrow> flow" where
  "loop_clone_steps f name = empty_flow\<lparr>fname := name, fsteps := map clone_step (fsteps f)\<rparr>"

definition next_iteration :: "flow \<Rightarrow> string \<Rightarrow> int \<Rightarrow> int \<Rightarrow> flow" where
  "next_iteration f i budget nxt =
     (loop_clone_steps f (''iter '' @ show_int (wrap64 (loop_iter f + 1))))
       \<lparr>fid := i, loop_active := True, loop_interval := loop_interval f, loop_max := loop_max f,
        loop_until := loop_until f, loop_iter := wrap64 (loop_iter f + 1), loop_budget := budget,
        loop_next := nxt, loop_parent := loop_root_id f\<rparr>"

text \<open>The other records of the loop get the new time; their writes may fail without effect.\<close>

fun propagate :: "env \<Rightarrow> string \<Rightarrow> nat \<Rightarrow> int \<Rightarrow> nat \<Rightarrow> flow list \<Rightarrow> env \<times> flow list" where
  "propagate e rid i nxt k [] = (e, [])"
| "propagate e rid i nxt k (f # fs) =
     (if k \<noteq> i \<and> in_loop rid f then
        (let f' = f\<lparr>loop_next := nxt\<rparr>; (e2, fs') = propagate (fst (persist_flow e f')) rid i nxt (Suc k) fs
         in (e2, f' # fs'))
      else (let (e2, fs') = propagate e rid i nxt (Suc k) fs in (e2, f # fs')))"

definition loop_finish :: "env \<Rightarrow> freg \<Rightarrow> nat \<Rightarrow> string \<Rightarrow> env \<times> freg \<times> (flow_err + unit)" where
  "loop_finish e r i why =
     (let f = g_flows r ! i; (e1, ok) = persist_flow e (f\<lparr>loop_next := 0\<rparr>)
      in if \<not> ok then (e1, r, Inl Unavailable)
         else (exo_note e1 (''flow loop '' @ loop_root_id f @ '' finished ('' @ why @ '' reached)''),
               r\<lparr>g_flows := (g_flows r)[i := f\<lparr>loop_next := 0\<rparr>]\<rparr>, Inr ()))"

definition loop_spawn :: "env \<Rightarrow> freg \<Rightarrow> nat \<Rightarrow> int \<Rightarrow> int \<Rightarrow> (int \<times> u32) list \<Rightarrow> bool \<Rightarrow> env \<times> freg \<times> (flow_err + unit)" where
  "loop_spawn e r i now budget tries xs =
     (let f = g_flows r ! i; rid = loop_root_id f;
          nxt = wrap64 (loop_next f + loop_interval f);
          f1 = f\<lparr>loop_next := nxt\<rparr>; (e1, ok1) = persist_flow e f1
      in if \<not> ok1 then (e1, r, Inl Unavailable)
      else (case make_flow_id_locked (g_flows r) tries of
              None \<Rightarrow> (e1, r, Inl NoFlowId)
            | Some j \<Rightarrow>
                let nf = next_iteration f j budget nxt; (e2, ok2) = persist_flow e1 nf
                in if \<not> ok2 then (fst (persist_flow e2 f), r, Inl Unavailable)
                   else let (e3, fs) = propagate e2 rid i nxt 0 ((g_flows r)[i := f1]);
                            e4 = exo_note e3 (''flow loop '' @ rid @ '' -> iter '' @ show_int (loop_iter nf) @ '' at '' @ show_int now);
                            e5 = (if xs \<and> nxt > now then xs_remind e4 nxt (''exoflow:loop:'' @ rid) else e4)
                        in (e5, link_flow (r\<lparr>g_flows := fs\<rparr>) nf, Inr ())))"

definition loop_tick :: "env \<Rightarrow> freg \<Rightarrow> nat \<Rightarrow> int \<Rightarrow> (int \<times> u32) list \<Rightarrow> bool \<Rightarrow> env \<times> freg \<times> (flow_err + unit)" where
  "loop_tick e r i now tries xs =
     (let f = g_flows r ! i
      in if \<not> loop_active f \<or> \<not> loop_is_terminal f \<or> loop_stopped f then (e, r, Inr ())
         else if loop_driver (g_flows r) f \<noteq> Some i then (e, r, Inr ())
         else if loop_next f \<le> 0 \<or> loop_next f > now then (e, r, Inr ())
         else let budget = wrap64 (loop_budget f + (if flow_status f = SCancelled then 0 else 1))
              in if loop_max f > 0 \<and> budget > loop_max f then loop_finish e r i ''max''
                 else if loop_until f > 0 \<and> now \<ge> loop_until f then loop_finish e r i ''until''
                 else loop_spawn e r i now budget tries xs)"

subsection \<open>Reload\<close>

definition reload_parse_flow :: "string \<Rightarrow> string \<Rightarrow> flow option" where
  "reload_parse_flow key val =
     (let i = drop (length FLOW_KEY_PREFIX) key
      in if i = [] \<or> length i \<ge> FLOW_ID_MAX then None
         else if list_ex (\<lambda>c. c = tab \<or> c = nl \<or> c = CHR '' '') i then None
         else (case flow_parse val of Inl _ \<Rightarrow> None | Inr f \<Rightarrow> Some (f\<lparr>fid := i\<rparr>)))"

text \<open>Each new record is linked in front and swept; a failed write of the sweep is only reported.\<close>

fun reload_add :: "env \<Rightarrow> freg \<Rightarrow> (nat \<Rightarrow> int) \<Rightarrow> flow list \<Rightarrow> env \<times> freg" where
  "reload_add e r clock [] = (e, r)"
| "reload_add e r clock (f # fs) =
     (if flow_find (g_flows r) (fid f) \<noteq> None then reload_add e r clock fs
      else (let (e1, f', ok) = flow_sweep e f (clock (length fs))
            in reload_add e1 \<lparr>g_flows = f' # g_flows r, g_nflows = g_nflows r + 1, g_gen = g_gen r\<rparr> clock fs))"

text \<open>
  The tick of every record from the front; records linked meanwhile stand before the current one,
  so the walk counts the records still to come. \<open>clock\<close> and \<open>tries\<close> are what each tick reads.
\<close>

fun reload_ticks :: "env \<Rightarrow> freg \<Rightarrow> (nat \<Rightarrow> int) \<Rightarrow> (nat \<Rightarrow> (int \<times> u32) list) \<Rightarrow> bool \<Rightarrow> nat \<Rightarrow> env \<times> freg" where
  "reload_ticks e r clock tries xs 0 = (e, r)"
| "reload_ticks e r clock tries xs (Suc k) =
     (let i = length (g_flows r) - Suc k;
          (e1, r1, res) = (if loop_active (g_flows r ! i) then loop_tick e r i (clock k) (tries k) xs else (e, r, Inr ()))
      in reload_ticks e1 r1 clock tries xs k)"

text \<open>
  \<open>gen\<close> is the generation read before the listing, \<open>r\<close> the registry after it; \<open>listed\<close> and
  \<open>fetched\<close> are the answers of exomind, \<open>None\<close> when it does not answer.
\<close>

definition flows_reload :: "u64 \<Rightarrow> string list option \<Rightarrow> string list option \<Rightarrow> env \<Rightarrow> freg \<Rightarrow> (nat \<Rightarrow> int) \<Rightarrow> (nat \<Rightarrow> int) \<Rightarrow>
    (nat \<Rightarrow> (int \<times> u32) list) \<Rightarrow> bool \<Rightarrow> env \<times> freg \<times> bool" where
  "flows_reload gen listed fetched e r clock1 clock2 tries xs =
     (case listed of
        None \<Rightarrow> (e, r, False)
      | Some keys \<Rightarrow>
          if keys = [] then (e, r, True)
          else (case fetched of
                  None \<Rightarrow> (e, r, False)
                | Some vals \<Rightarrow>
                    if g_gen r \<noteq> gen then (e, r, False)
                    else let parsed = List.map_filter (\<lambda>(k, v). reload_parse_flow k v) (zip keys vals);
                             (e1, r1) = reload_add e r clock1 parsed;
                             (e2, r2) = reload_ticks e1 r1 clock2 tries xs (length (g_flows r1))
                         in (e2, r2, True)))"

subsection \<open>The driver\<close>

lemma driver_scan_max:
  "driver_scan rid k fs best = Some (i, it) \<Longrightarrow>
   (best = Some (i, it) \<or> (k \<le> i \<and> i < k + length fs \<and> in_loop rid (fs ! (i - k)) \<and> loop_iter (fs ! (i - k)) = it)) \<and>
   (\<forall>f \<in> set fs. in_loop rid f \<longrightarrow> loop_iter f \<le> it) \<and> (\<forall>b c. best = Some (b, c) \<longrightarrow> c \<le> it)"
proof (induction fs arbitrary: k best)
  case (Cons f fs)
  define best' where
    "best' = (if in_loop rid f \<and> (case best of None \<Rightarrow> True | Some (_, it) \<Rightarrow> loop_iter f > it) then Some (k, loop_iter f) else best)"
  have d: "driver_scan rid (Suc k) fs best' = Some (i, it)" using Cons.prems by (simp add: best'_def)
  note ih = Cons.IH [OF d]
  have up: "c \<le> it" if "best = Some (b, c)" for b c
    using ih that by (auto simp: best'_def split: if_split_asm)
  have hd: "loop_iter f \<le> it" if "in_loop rid f"
    using ih that up by (cases best) (force simp: best'_def split: if_split_asm)+
  have pos: "best = Some (i, it) \<or> (k \<le> i \<and> i < k + length (f # fs) \<and>
      in_loop rid ((f # fs) ! (i - k)) \<and> loop_iter ((f # fs) ! (i - k)) = it)"
  proof (cases "best' = Some (i, it)")
    case True
    then show ?thesis by (auto simp: best'_def split: if_split_asm)
  next
    case False
    then have h: "Suc k \<le> i" "i < Suc k + length fs" "in_loop rid (fs ! (i - Suc k))" "loop_iter (fs ! (i - Suc k)) = it"
      using ih by auto
    then have "i - k = Suc (i - Suc k)" by arith
    then show ?thesis using h by simp
  qed
  show ?case using pos ih hd up by auto
qed simp

lemma loop_driver_max:
  assumes "loop_driver fs f = Some i"
  shows "i < length fs \<and> in_loop (loop_root_id f) (fs ! i) \<and>
    (\<forall>g \<in> set fs. in_loop (loop_root_id f) g \<longrightarrow> loop_iter g \<le> loop_iter (fs ! i))"
proof -
  obtain it where "driver_scan (loop_root_id f) 0 fs None = Some (i, it)"
    using assms by (auto simp: loop_driver_def)
  from driver_scan_max [OF this] show ?thesis by auto
qed

subsection \<open>What a tick does\<close>

definition tick_due :: "flow list \<Rightarrow> nat \<Rightarrow> int \<Rightarrow> bool" where
  "tick_due fs i now \<longleftrightarrow> (let f = fs ! i in loop_active f \<and> loop_is_terminal f \<and> \<not> loop_stopped f \<and>
     loop_driver fs f = Some i \<and> 0 < loop_next f \<and> loop_next f \<le> now)"

definition rescheduled :: "int \<Rightarrow> flow \<Rightarrow> flow \<Rightarrow> bool" where
  "rescheduled nxt f f' \<longleftrightarrow> f' = f \<or> f' = f\<lparr>loop_next := nxt\<rparr>"

lemma propagate_moves: "propagate e rid i nxt k fs = (e', fs') \<Longrightarrow> list_all2 (rescheduled nxt) fs fs'"
proof (induction fs arbitrary: e e' k fs')
  case (Cons f fs)
  show ?case
  proof (cases "k \<noteq> i \<and> in_loop rid f")
    case True
    obtain e2 fs2 where p: "propagate (fst (persist_flow e (f\<lparr>loop_next := nxt\<rparr>))) rid i nxt (Suc k) fs = (e2, fs2)"
      by fastforce
    show ?thesis using Cons.prems True p Cons.IH [OF p] by (auto simp: rescheduled_def)
  next
    case False
    obtain e2 fs2 where p: "propagate e rid i nxt (Suc k) fs = (e2, fs2)" by fastforce
    show ?thesis using Cons.prems False p Cons.IH [OF p] by (auto simp: rescheduled_def)
  qed
qed simp

lemma good_next [simp]: "flow_good (f\<lparr>loop_next := nxt\<rparr>) \<longleftrightarrow> flow_good f"
  by (simp add: flow_good_def within_budget_def)

lemma rescheduled_kept: "list_all2 (rescheduled nxt) fs fs' \<Longrightarrow> records_kept fs fs'"
  unfolding records_kept_def by (erule list_all2_mono) (auto simp: rescheduled_def)

lemma loop_tick_cases:
  assumes "loop_tick e r i now tries xs = (e', r', res)"
  defines "f \<equiv> g_flows r ! i"
  obtains (idle) "e' = e" "r' = r" "res = Inr ()"
  | (refused) x where "r' = r" "res = Inl x" "tick_due (g_flows r) i now"
  | (finished) "tick_due (g_flows r) i now" "res = Inr ()"
      "r' = r\<lparr>g_flows := (g_flows r)[i := f\<lparr>loop_next := 0\<rparr>]\<rparr>"
  | (spawned) j budget nxt fs where "tick_due (g_flows r) i now" "res = Inr ()"
      "budget = wrap64 (loop_budget f + (if flow_status f = SCancelled then 0 else 1))"
      "nxt = wrap64 (loop_next f + loop_interval f)" "loop_max f > 0 \<Longrightarrow> budget \<le> loop_max f"
      "loop_until f > 0 \<Longrightarrow> now < loop_until f" "j \<notin> fid ` set (g_flows r)"
      "list_all2 (rescheduled nxt) ((g_flows r)[i := f\<lparr>loop_next := nxt\<rparr>]) fs"
      "r' = link_flow (r\<lparr>g_flows := fs\<rparr>) (next_iteration f j budget nxt)"
proof (cases "tick_due (g_flows r) i now")
  case False
  then have "loop_tick e r i now tries xs = (e, r, Inr ())"
    by (auto simp: loop_tick_def tick_due_def Let_def not_le not_less)
  then show ?thesis using idle assms(1) by simp
next
  case due: True
  define budget where "budget = wrap64 (loop_budget f + (if flow_status f = SCancelled then 0 else 1))"
  have t: "loop_tick e r i now tries xs =
      (if loop_max f > 0 \<and> budget > loop_max f then loop_finish e r i ''max''
       else if loop_until f > 0 \<and> now \<ge> loop_until f then loop_finish e r i ''until''
       else loop_spawn e r i now budget tries xs)"
    using due by (simp add: loop_tick_def tick_due_def Let_def f_def budget_def)
  have fin: ?thesis if "loop_finish e r i why = (e', r', res)" for why
    using that refused [OF _ _ due] finished [OF due]
    by (auto simp: loop_finish_def f_def Let_def split: prod.split_asm if_split_asm)
  show ?thesis
  proof (cases "loop_max f > 0 \<and> budget > loop_max f \<or> loop_until f > 0 \<and> now \<ge> loop_until f")
    case True
    then show ?thesis using t assms(1) fin by (metis (full_types))
  next
    case False
    then have sp: "loop_spawn e r i now budget tries xs = (e', r', res)" using t assms(1) by auto
    define nxt where "nxt = wrap64 (loop_next f + loop_interval f)"
    obtain e1 ok1 where p1: "persist_flow e (f\<lparr>loop_next := nxt\<rparr>) = (e1, ok1)" by fastforce
    show ?thesis
    proof (cases ok1)
      case False
      then show ?thesis using sp p1 refused [OF _ _ due] by (auto simp: loop_spawn_def Let_def f_def nxt_def)
    next
      case ok1: True
      show ?thesis
      proof (cases "make_flow_id_locked (g_flows r) tries")
        case None
        then show ?thesis using sp p1 ok1 refused [OF _ _ due] by (auto simp: loop_spawn_def Let_def f_def nxt_def)
      next
        case (Some j)
        then have j: "j \<notin> fid ` set (g_flows r)"
          using find_Some_iff [of "\<lambda>i. flow_find (g_flows r) i = None" "map (\<lambda>(now, rnd). flow_id_text now rnd) (take 8 tries)" j]
          by (auto simp: make_flow_id_locked_def)
        obtain e2 ok2 where p2: "persist_flow e1 (next_iteration f j budget nxt) = (e2, ok2)" by fastforce
        obtain e3 fs where p3: "propagate e2 (loop_root_id f) i nxt 0 ((g_flows r)[i := f\<lparr>loop_next := nxt\<rparr>]) = (e3, fs)"
          by fastforce
        have eq: "(r', res) = (if \<not> ok2 then (r, Inl Unavailable)
            else (link_flow (r\<lparr>g_flows := fs\<rparr>) (next_iteration f j budget nxt), Inr ()))"
          using sp p1 p2 p3 ok1 Some by (auto simp: loop_spawn_def Let_def f_def nxt_def)
        show ?thesis
        proof (cases ok2)
          case True
          have rr: "res = Inr ()" "r' = link_flow (r\<lparr>g_flows := fs\<rparr>) (next_iteration f j budget nxt)"
            using eq True by simp_all
          have lim: "loop_max f > 0 \<Longrightarrow> budget \<le> loop_max f" "loop_until f > 0 \<Longrightarrow> now < loop_until f"
            using False by auto
          show ?thesis by (rule spawned [OF due rr(1) budget_def nxt_def lim j propagate_moves [OF p3] rr(2)])
        qed (use eq refused [OF _ _ due] in auto)
      qed
    qed
  qed
qed

text \<open>The copy has the same steps with the same dependencies, all to be done again.\<close>

lemma dep_rel_same:
  assumes "map sid ss' = map sid ss" "map sdeps ss' = map sdeps ss"
  shows "dep_rel ss' = dep_rel ss" and "step_find ss' = step_find ss"
proof -
  show f: "step_find ss' = step_find ss" using find_from_ids [OF assms(1)] by (auto simp: step_find_def fun_eq_iff)
  have l: "length ss' = length ss" using assms(1) by (rule map_eq_imp_length_eq)
  have d: "sdeps (ss' ! i) = sdeps (ss ! i)" if "i < length ss" for i
    using that l arg_cong [OF assms(2), of "\<lambda>xs. xs ! i"] by simp
  show "dep_rel ss' = dep_rel ss"
    unfolding dep_rel_def f l using d by (intro Collect_cong) (auto split: prod.split)
qed

lemma clone_inv: "flow_inv ss \<Longrightarrow> flow_inv (map clone_step ss)"
proof -
  assume inv: "flow_inv ss"
  have m: "map sid (map clone_step ss) = map sid ss" "map sdeps (map clone_step ss) = map sdeps ss"
    by (simp_all add: clone_step_def fresh_step_def)
  have "\<forall>s \<in> set (map clone_step ss). sstate s = Pending" by (simp add: clone_step_def fresh_step_def)
  moreover have "step_find ss d \<noteq> None" if "s \<in> set (map clone_step ss)" "d \<in> set (sdeps s)" for s d
    using that flow_inv_deps [OF inv] by (auto simp: clone_step_def fresh_step_def)
  ultimately show ?thesis using inv unfolding flow_inv_def dep_rel_same [OF m] m(1) by auto
qed

lemma next_iteration_fields [simp]:
  "fid (next_iteration f j b n) = j" "fsteps (next_iteration f j b n) = map clone_step (fsteps f)"
  "loop_active (next_iteration f j b n)" "loop_max (next_iteration f j b n) = loop_max f"
  "loop_until (next_iteration f j b n) = loop_until f" "loop_interval (next_iteration f j b n) = loop_interval f"
  "loop_iter (next_iteration f j b n) = wrap64 (loop_iter f + 1)" "loop_budget (next_iteration f j b n) = b"
  "loop_next (next_iteration f j b n) = n" "loop_parent (next_iteration f j b n) = loop_root_id f"
  "\<not> loop_stopped (next_iteration f j b n)"
  by (simp_all add: next_iteration_def loop_clone_steps_def empty_flow_def)

lemma next_iteration_good:
  "flow_good f \<Longrightarrow> (loop_max f > 0 \<Longrightarrow> b \<le> loop_max f) \<Longrightarrow> flow_good (next_iteration f j b n)"
  by (simp add: flow_good_def within_budget_def clone_inv)

lemma loop_tick_reg_ok:
  assumes ok: "reg_ok r" and i: "i < length (g_flows r)" and t: "loop_tick e r i now tries xs = (e', r', res)"
  shows "reg_ok r'"
  using t
proof (cases rule: loop_tick_cases)
  case finished
  then show ?thesis using reg_ok_kept [OF ok records_kept_update [OF i]] by simp
next
  case (spawned j budget nxt fs)
  let ?f = "g_flows r ! i"
  have k1: "records_kept (g_flows r) ((g_flows r)[i := ?f\<lparr>loop_next := nxt\<rparr>])"
    by (rule records_kept_update [OF i]) simp_all
  have k2: "records_kept ((g_flows r)[i := ?f\<lparr>loop_next := nxt\<rparr>]) fs" by (rule rescheduled_kept [OF spawned(8)])
  have ok2: "reg_ok (r\<lparr>g_flows := fs\<rparr>)"
    using reg_ok_kept [OF reg_ok_kept [OF ok k1]] k2 by simp
  have ids: "map fid fs = map fid (g_flows r)" using records_kept_ids [OF k1] records_kept_ids [OF k2] by simp
  then have nf: "j \<notin> fid ` set fs" using spawned(7) by (metis image_set)
  have "flow_good (next_iteration ?f j budget nxt)"
    using next_iteration_good [OF reg_ok_nth [OF ok i]] spawned(5) by blast
  then show ?thesis using reg_ok_link [OF ok2] nf spawned(9) by simp
qed (use ok in auto)

subsection \<open>Stopping\<close>

lemma halt_good [simp]: "flow_good (halt f) \<longleftrightarrow> flow_good f" "fid (halt f) = fid f" "loop_active (halt f) = loop_active f"
  "loop_parent (halt f) = loop_parent f" "loop_stopped (halt f)" "loop_next (halt f) = 0"
  by (simp_all add: halt_def flow_good_def within_budget_def)

lemma in_loop_halt [simp]: "in_loop rid (halt f) = in_loop rid f"
  by (simp add: in_loop_def)

lemma stop_records_halts:
  "stop_records e rid fs = (e', fs', ch, ok) \<Longrightarrow> records_kept fs fs' \<and>
   (ok \<longrightarrow> (\<forall>f \<in> set fs'. in_loop rid f \<longrightarrow> loop_stopped f \<and> loop_next f = 0))"
proof (induction fs arbitrary: e e' fs' ch ok)
  case (Cons f fs)
  show ?case
  proof (cases "in_loop rid f \<and> (\<not> loop_stopped f \<or> loop_next f \<noteq> 0)")
    case True
    obtain e1 ok1 where p: "persist_flow e (halt f) = (e1, ok1)" by fastforce
    obtain e2 fs2 ch2 ok2 where s: "stop_records e1 rid fs = (e2, fs2, ch2, ok2)" by (rule prod_cases4)
    show ?thesis using Cons.prems True p s Cons.IH [OF s] by (auto simp: Let_def split: if_split_asm)
  next
    case False
    obtain e2 fs2 ch2 ok2 where s: "stop_records e rid fs = (e2, fs2, ch2, ok2)" by (rule prod_cases4)
    show ?thesis using Cons.prems False s Cons.IH [OF s] by auto
  qed
qed simp

lemma loop_stop_all_halts:
  assumes "loop_stop_all e fs f why = (e', fs', ok)"
  shows "records_kept fs fs'"
    and "ok \<Longrightarrow> \<forall>g \<in> set fs'. in_loop (loop_root_id f) g \<longrightarrow> loop_stopped g \<and> loop_next g = 0"
proof -
  obtain e1 fs1 ch ok1 where s: "stop_records e (loop_root_id f) fs = (e1, fs1, ch, ok1)" by (rule prod_cases4)
  have "fs' = fs1" "ok = ok1" using assms s by (auto simp: loop_stop_all_def split: if_split_asm)
  then show "records_kept fs fs'"
    and "ok \<Longrightarrow> \<forall>g \<in> set fs'. in_loop (loop_root_id f) g \<longrightarrow> loop_stopped g \<and> loop_next g = 0"
    using stop_records_halts [OF s] by auto
qed

lemma flow_stop_loop_halts:
  assumes "flow_stop_loop e r i = (e', r', Inr ())"
  obtains j where "j < length (g_flows r)" "fid (g_flows r ! j) = i" "loop_active (g_flows r ! j)"
    "\<forall>g \<in> set (g_flows r'). in_loop (loop_root_id (g_flows r ! j)) g \<longrightarrow> loop_stopped g \<and> loop_next g = 0"
proof -
  obtain j where j: "flow_find (g_flows r) i = Some j" "loop_active (g_flows r ! j)"
    using assms by (auto simp: flow_stop_loop_def split: option.split_asm if_split_asm)
  obtain e1 fs ok where s: "loop_stop_all e (g_flows r) (g_flows r ! j) ''stop-loop'' = (e1, fs, ok)" by (rule prod_cases3)
  have "ok" "g_flows r' = fs" using assms j s by (auto simp: flow_stop_loop_def split: if_split_asm)
  then show ?thesis using that [of j] flow_find_Some [OF j(1)] j(2) loop_stop_all_halts(2) [OF s] by simp
qed

lemma stopped_never_due: "loop_stopped (g_flows r ! i) \<Longrightarrow> loop_tick e r i now tries xs = (e, r, Inr ())"
  by (simp add: loop_tick_def Let_def)

subsection \<open>The registry through all operations\<close>

lemma good_steps: "flow_good f \<Longrightarrow> flow_inv ss \<Longrightarrow> flow_good (f\<lparr>fsteps := ss\<rparr>)"
  by (simp add: flow_good_def within_budget_def)

lemma good_inv: "flow_good f \<Longrightarrow> flow_inv (fsteps f)"
  by (simp add: flow_good_def)

lemma flow_sweep_good:
  assumes "flow_sweep e f now = (e', f', ok)"
  shows "fid f' = fid f \<and> (flow_good f \<longrightarrow> flow_good f')"
  using flow_sweep_steps [OF assms] flow_sweep_inv [OF assms] good_steps good_inv by auto

lemma step_do_good:
  assumes "step_do e f x act n = (e', f', res)"
  shows "fid f' = fid f \<and> (flow_good f \<longrightarrow> flow_good f')"
proof -
  have "\<exists>ss. f' = f\<lparr>fsteps := ss\<rparr>"
    using assms
  proof (cases rule: step_do_cases)
    case refused
    then have "f' = f\<lparr>fsteps := fsteps f\<rparr>" by simp
    then show ?thesis by blast
  qed auto
  then obtain ss where "f' = f\<lparr>fsteps := ss\<rparr>" by blast
  then show ?thesis using step_do_moved [OF assms] good_steps good_inv by auto
qed

lemma flow_next_good:
  assumes "flow_next e f w now1 now2 = (e', f', res)"
  shows "fid f' = fid f \<and> (flow_good f \<longrightarrow> flow_good f')"
proof -
  have "\<exists>ss. f' = f\<lparr>fsteps := ss\<rparr>"
    using assms
  proof (cases rule: flow_next_cases)
    case bad_worker
    then have "f' = f\<lparr>fsteps := fsteps f\<rparr>" by simp
    then show ?thesis by blast
  qed auto
  then obtain ss where "f' = f\<lparr>fsteps := ss\<rparr>" by blast
  then show ?thesis using flow_next_moved [OF assms] good_steps good_inv by auto
qed

lemma flow_cancel1_good:
  assumes "flow_cancel1 e f = (e', f', res)"
  shows "fid f' = fid f \<and> (flow_good f \<longrightarrow> flow_good f')"
  using flow_cancel1_cases [OF assms] flow_cancel1_moved [OF assms] good_steps good_inv by auto

lemma flow_create_reg_ok:
  assumes ok: "reg_ok r" and c: "flow_create e r body now tries = (e', r', res)"
  shows "reg_ok r'"
proof -
  have "r' = r \<or> (\<exists>f0 i. create_flow body now = Inr f0 \<and> i \<notin> fid ` set (g_flows r) \<and> r' = link_flow r (f0\<lparr>fid := i\<rparr>))"
    using c by (auto simp: flow_create_def Let_def split: sum.split_asm option.split_asm prod.split_asm if_split_asm)
  then show ?thesis
  proof (elim disjE exE conjE)
    fix f0 i assume h: "create_flow body now = Inr f0" "i \<notin> fid ` set (g_flows r)" "r' = link_flow r (f0\<lparr>fid := i\<rparr>)"
    have "flow_good (f0\<lparr>fid := i\<rparr>)"
      using create_flow_good(1,2) [OF h(1)] by (simp add: flow_good_def within_budget_def)
    then show ?thesis using reg_ok_link [OF ok] h(2,3) by simp
  qed (simp add: ok)
qed

lemma reg_ok_remove:
  assumes "reg_ok r" "j < length (g_flows r)"
  shows "reg_ok \<lparr>g_flows = take j (g_flows r) @ drop (Suc j) (g_flows r), g_nflows = g_nflows r - 1, g_gen = g\<rparr>"
proof -
  let ?fs = "g_flows r"
  have eq: "?fs = take j ?fs @ ?fs ! j # drop (Suc j) ?fs" using assms(2) by (rule id_take_nth_drop)
  have d: "distinct (map fid ?fs)" and g: "list_all flow_good ?fs" using assms(1) by (simp_all add: reg_ok_def)
  have "distinct (map fid (take j ?fs @ drop (Suc j) ?fs))" using d by (subst (asm) eq) auto
  moreover have "list_all flow_good (take j ?fs @ drop (Suc j) ?fs)" using g by (subst (asm) eq) auto
  ultimately show ?thesis using assms by (auto simp: reg_ok_def)
qed

lemma flow_delete_reg_ok:
  assumes ok: "reg_ok r" and d: "flow_delete e r i = (e', r', res)"
  shows "reg_ok r'"
proof (cases "flow_find (g_flows r) i")
  case None
  then show ?thesis using ok d unfolding flow_delete_def None by simp
next
  case (Some j)
  define f where "f = g_flows r ! j"
  obtain e1 fs k where s: "(if loop_active f then loop_stop_all e (g_flows r) f ''flow deleted'' else (e, g_flows r, True)) = (e1, fs, k)"
    by (rule prod_cases3)
  have kept: "records_kept (g_flows r) fs"
    using s loop_stop_all_halts(1) by (auto split: if_split_asm)
  have ok1: "reg_ok (r\<lparr>g_flows := fs\<rparr>)" by (rule reg_ok_kept [OF ok kept])
  have j: "j < length fs" using flow_find_Some [OF Some] records_kept_length [OF kept] by simp
  have "r' = r\<lparr>g_flows := fs\<rparr> \<or> r' = \<lparr>g_flows = take j fs @ drop (Suc j) fs, g_nflows = g_nflows r - 1, g_gen = g_gen r + 1\<rparr>"
    using d Some s by (auto simp: flow_delete_def f_def Let_def split: if_split_asm)
  then show ?thesis using ok1 reg_ok_remove [OF ok1, of j] j by auto
qed

lemma flow_stop_reg_ok:
  assumes ok: "reg_ok r" and c: "flow_stop_loop e r i = (e', r', res)"
  shows "reg_ok r'"
proof (cases "flow_find (g_flows r) i")
  case None
  then show ?thesis using ok c unfolding flow_stop_loop_def None by simp
next
  case (Some j)
  obtain e1 fs k where s: "loop_stop_all e (g_flows r) (g_flows r ! j) ''stop-loop'' = (e1, fs, k)" by (rule prod_cases3)
  have "r' = r \<or> r' = r\<lparr>g_flows := fs\<rparr>" using c s unfolding flow_stop_loop_def Some by (simp split: if_split_asm)
  then show ?thesis using ok reg_ok_kept [OF ok loop_stop_all_halts(1) [OF s]] by blast
qed

lemma reg_ok_one:
  assumes "reg_ok r" "j < length (g_flows r)" "fid f' = fid (g_flows r ! j) \<and> (flow_good (g_flows r ! j) \<longrightarrow> flow_good f')"
  shows "reg_ok (r\<lparr>g_flows := (g_flows r)[j := f']\<rparr>)"
  using reg_ok_kept [OF assms(1) records_kept_update [OF assms(2)]] assms(3) by blast

lemma flow_cancel_reg_ok:
  assumes ok: "reg_ok r" and c: "flow_cancel e r i = (e', r', res)"
  shows "reg_ok r'"
proof (cases "flow_find (g_flows r) i")
  case None
  then show ?thesis using ok c unfolding flow_cancel_def None by simp
next
  case (Some j)
  obtain e1 f' a where f: "flow_cancel1 e (g_flows r ! j) = (e1, f', a)" by (rule prod_cases3)
  have "r' = r\<lparr>g_flows := (g_flows r)[j := f']\<rparr>" using c f unfolding flow_cancel_def Some by simp
  moreover have "j < length (g_flows r)" using flow_find_Some [OF Some] by simp
  ultimately show ?thesis using reg_ok_one [OF ok _ flow_cancel1_good [OF f]] by blast
qed

lemma reload_add_reg_ok:
  "reload_add e r clock fs = (e', r') \<Longrightarrow> reg_ok r \<Longrightarrow> list_all flow_good fs \<Longrightarrow> reg_ok r'"
proof (induction fs arbitrary: e r)
  case (Cons f fs)
  show ?case
  proof (cases "flow_find (g_flows r) (fid f)")
    case None
    obtain e1 f' ok where s: "flow_sweep e f (clock (length fs)) = (e1, f', ok)" by (rule prod_cases3)
    let ?r = "\<lparr>g_flows = f' # g_flows r, g_nflows = g_nflows r + 1, g_gen = g_gen r\<rparr>"
    have "reg_ok ?r" using Cons.prems(2,3) flow_sweep_good [OF s] None by (simp add: reg_ok_def)
    then show ?thesis using Cons.IH [of e1 ?r] Cons.prems None s by simp
  qed (use Cons in auto)
qed simp

lemma loop_tick_length:
  assumes "loop_tick e r i now tries xs = (e', r', res)"
  shows "length (g_flows r) \<le> length (g_flows r')"
  using assms by (cases rule: loop_tick_cases) (auto simp: link_flow_def dest: list_all2_lengthD)

lemma reload_ticks_reg_ok:
  "reload_ticks e r clock tries xs k = (e', r') \<Longrightarrow> reg_ok r \<Longrightarrow> k \<le> length (g_flows r) \<Longrightarrow> reg_ok r'"
proof (induction k arbitrary: e r)
  case (Suc k)
  let ?i = "length (g_flows r) - Suc k"
  obtain e1 r1 res where t: "(if loop_active (g_flows r ! ?i) then loop_tick e r ?i (clock k) (tries k) xs else (e, r, Inr ())) = (e1, r1, res)"
    by (rule prod_cases3)
  have i: "?i < length (g_flows r)" using Suc.prems(3) by simp
  have ok1: "reg_ok r1" using t loop_tick_reg_ok [OF Suc.prems(2) i] Suc.prems(2) by (auto split: if_split_asm)
  have l: "k \<le> length (g_flows r1)" using t loop_tick_length Suc.prems(3) by (force split: if_split_asm)
  have "reload_ticks e1 r1 clock tries xs k = (e', r')" using Suc.prems(1) t by simp
  then show ?case by (rule Suc.IH [OF _ ok1 l])
qed simp

definition docs_good :: "string list \<Rightarrow> string list \<Rightarrow> bool" where
  "docs_good keys vals \<longleftrightarrow> list_all flow_good (List.map_filter (\<lambda>(k, v). reload_parse_flow k v) (zip keys vals))"

lemma flows_reload_reg_ok:
  assumes ok: "reg_ok r" and t: "flows_reload gen listed fetched e r clock1 clock2 tries xs = (e', r', res)"
    and g: "\<And>keys vals. listed = Some keys \<Longrightarrow> fetched = Some vals \<Longrightarrow> docs_good keys vals"
  shows "reg_ok r'"
proof (cases "\<exists>keys vals. listed = Some keys \<and> fetched = Some vals \<and> keys \<noteq> [] \<and> g_gen r = gen")
  case True
  then obtain keys vals where l: "listed = Some keys" "fetched = Some vals" "keys \<noteq> []" "g_gen r = gen" by blast
  define parsed where "parsed = List.map_filter (\<lambda>(k, v). reload_parse_flow k v) (zip keys vals)"
  obtain e1 r1 where a: "reload_add e r clock1 parsed = (e1, r1)" by fastforce
  obtain e2 r2 where b: "reload_ticks e1 r1 clock2 tries xs (length (g_flows r1)) = (e2, r2)" by fastforce
  have "list_all flow_good parsed" using g [OF l(1,2)] by (simp add: docs_good_def parsed_def)
  then have "reg_ok r1" by (rule reload_add_reg_ok [OF a ok])
  moreover have "r' = r2" using t l a b by (simp add: flows_reload_def parsed_def)
  ultimately show ?thesis using reload_ticks_reg_ok [OF b] by simp
next
  case False
  then have "r' = r" using t by (auto simp: flows_reload_def split: option.split_asm if_split_asm)
  then show ?thesis using ok by simp
qed

text \<open>The requests a daemon serves, each under the registry lock, and the reload at its start.\<close>

inductive reg_step :: "freg \<Rightarrow> freg \<Rightarrow> bool" where
  r_create: "flow_create e r body now tries = (e', r', a) \<Longrightarrow> reg_step r r'"
| r_delete: "flow_delete e r i = (e', r', b) \<Longrightarrow> reg_step r r'"
| r_stop: "flow_stop_loop e r i = (e', r', c) \<Longrightarrow> reg_step r r'"
| r_cancel: "flow_cancel e r i = (e', r', c) \<Longrightarrow> reg_step r r'"
| r_sweep: "j < length (g_flows r) \<Longrightarrow> flow_sweep e (g_flows r ! j) now = (e', f, ok) \<Longrightarrow>
    reg_step r (r\<lparr>g_flows := (g_flows r)[j := f]\<rparr>)"
| r_do: "j < length (g_flows r) \<Longrightarrow> step_do e (g_flows r ! j) x act n = (e', f, c) \<Longrightarrow>
    reg_step r (r\<lparr>g_flows := (g_flows r)[j := f]\<rparr>)"
| r_next: "j < length (g_flows r) \<Longrightarrow> flow_next e (g_flows r ! j) w now1 now2 = (e', f, d) \<Longrightarrow>
    reg_step r (r\<lparr>g_flows := (g_flows r)[j := f]\<rparr>)"
| r_tick: "j < length (g_flows r) \<Longrightarrow> loop_tick e r j now ids xs = (e', r', c) \<Longrightarrow> reg_step r r'"
| r_reload: "flows_reload gen (Some keys) (Some vals) e r clock1 clock2 idss xs = (e', r', ok) \<Longrightarrow>
    docs_good keys vals \<Longrightarrow> reg_step r r'"

inductive reg_reaches :: "freg \<Rightarrow> freg \<Rightarrow> bool" where
  rr_refl: "reg_reaches r r"
| rr_step: "reg_reaches r r' \<Longrightarrow> reg_step r' r'' \<Longrightarrow> reg_reaches r r''"

lemma reg_step_ok: "reg_step r r' \<Longrightarrow> reg_ok r \<Longrightarrow> reg_ok r'"
proof (induction rule: reg_step.induct)
  case (r_reload gen keys vals e r clock1 clock2 idss xs e' r' ok)
  show ?case by (rule flows_reload_reg_ok [OF r_reload(3,1)]) (use r_reload(2) in auto)
next
  case (r_sweep j r e now e' f ok)
  then show ?case using reg_ok_one flow_sweep_good by blast
next
  case (r_do j r e x act n e' f c)
  then show ?case using reg_ok_one step_do_good by blast
next
  case (r_next j r e w now1 now2 e' f d)
  then show ?case using reg_ok_one flow_next_good by blast
next
  case (r_create e r body now tries e' r' a)
  show ?case by (rule flow_create_reg_ok [OF r_create(2,1)])
next
  case (r_delete e r i e' r' b)
  show ?case by (rule flow_delete_reg_ok [OF r_delete(2,1)])
next
  case (r_stop e r i e' r' c)
  show ?case by (rule flow_stop_reg_ok [OF r_stop(2,1)])
next
  case (r_cancel e r i e' r' c)
  show ?case by (rule flow_cancel_reg_ok [OF r_cancel(2,1)])
next
  case (r_tick j r e now ids xs e' r' c)
  show ?case by (rule loop_tick_reg_ok [OF r_tick(3,1,2)])
qed

lemma reg_reaches_ok: "reg_reaches r r' \<Longrightarrow> reg_ok r \<Longrightarrow> reg_ok r'"
  by (induction rule: reg_reaches.induct) (auto intro: reg_step_ok)

lemma reg_ok_empty: "reg_ok \<lparr>g_flows = [], g_nflows = 0, g_gen = g\<rparr>"
  by (simp add: reg_ok_def)

subsection \<open>What is stored is reloaded\<close>

lemma length_show_nat: "0 < k \<Longrightarrow> n < 10 ^ k \<Longrightarrow> length (show_nat n) \<le> k"
proof (induction n arbitrary: k rule: show_nat.induct)
  case (1 n)
  show ?case
  proof (cases "n < 10")
    case False
    then obtain j where k: "k = Suc j" "0 < j" using 1(2,3) by (cases k; cases "k - 1") auto
    then have "n div 10 < 10 ^ j" using 1(3) by auto
    then show ?thesis using 1(1) [OF False k(2)] k(1) False by (simp add: show_nat.simps [of n])
  qed (use 1 in \<open>simp add: show_nat.simps [of n]\<close>)
qed

lemma length_show_int: "\<bar>i\<bar> < 10 ^ 19 \<Longrightarrow> length (show_int i) \<le> 20"
proof -
  assume b: "\<bar>i\<bar> < 10 ^ 19"
  have "nat j < 10 ^ 19" if "j = i \<or> j = - i" for j
    using that b by (cases "0 \<le> j") (auto simp: nat_less_iff)
  then show ?thesis using length_show_nat [of 19 "nat (- i)"] length_show_nat [of 19 "nat i"] by (simp add: show_int_def)
qed

lemma flow_id_text_ok: "\<bar>now\<bar> < 10 ^ 19 \<Longrightarrow> flow_id_ok (flow_id_text now rnd)"
proof -
  assume b: "\<bar>now\<bar> < 10 ^ 19"
  have hex: "c \<noteq> tab \<and> c \<noteq> nl \<and> c \<noteq> cr \<and> c \<noteq> CHR '' '' \<and> c \<noteq> CHR '',''" if m: "c \<in> set (show_hex8 rnd)" for c
  proof -
    obtain k :: nat where "c = ''0123456789abcdef'' ! (unat rnd div 16 ^ k mod 16)"
      using m unfolding show_hex8_def set_map by (elim imageE)
    then have "c \<in> set ''0123456789abcdef''" by (simp only:) (rule nth_mem, simp)
    then show ?thesis by auto
  qed
  have "c \<noteq> tab \<and> c \<noteq> nl \<and> c \<noteq> cr \<and> c \<noteq> CHR '' '' \<and> c \<noteq> CHR '',''" if "c \<in> set (show_int now)" for c
    using show_int_chars [OF that] by (auto simp: isdigit_def less_eq_char_def)
  then show ?thesis
    using hex length_show_int [OF b] by (auto simp: flow_id_ok_def flow_id_text_def FLOW_ID_MAX_def list_all_iff show_hex8_def)
qed

lemma reload_parse_stored:
  assumes "flow_ok f" "flow_id_ok (fid f)"
  shows "reload_parse_flow (flow_key (fid f)) (flow_serialize f) = Some f"
  using assms by (auto simp: reload_parse_flow_def flow_key_def flow_parse_serialize flow_id_ok_def list_all_iff list_ex_iff Let_def)

lemma flow_ok_id [simp]: "flow_ok (f\<lparr>fid := i\<rparr>) = flow_ok f"
  by (simp add: flow_ok_def loop_ok_def)

lemma xs_remind_store [simp]: "e_store (xs_remind e t m) = e_store e"
  by (simp add: xs_remind_def)

lemma create_reminders_store [simp]: "e_store (create_reminders e f) = e_store e"
proof -
  have "e_store (fold (\<lambda>s e. if sdeadline s > 0 then xs_remind e (sdeadline s) (m s) else e) ss e) = e_store e" for ss m e
    by (induction ss arbitrary: e) auto
  then show ?thesis by (simp add: create_reminders_def Let_def)
qed

lemma persist_store: "persist_flow e f = (e', True) \<Longrightarrow> e_store e' = (e_store e)(flow_key (fid f) \<mapsto> flow_serialize f)"
  by (auto simp: persist_flow_def exo_persist_def split: if_split_asm)

text \<open>A created flow is in the registry, stored, and a restart would load it as it is.\<close>

lemma flow_create_stored:
  assumes c: "flow_create e r body now tries = (e', r', Inr (i, n))"
    and t: "\<And>fs t rnd. (fs, t, rnd) \<in> set tries \<Longrightarrow> \<bar>t\<bar> < 10 ^ 19" and now: "0 \<le> now" "now < 2 ^ 62"
    and iv: "\<And>f. create_flow body now = Inr f \<Longrightarrow> loop_interval f \<le> 2 ^ 62"
  obtains f where "g_flows r' = f # g_flows r" "fid f = i" "n = length (fsteps f)" "list_all newborn (fsteps f)"
    "e_store e' (flow_key i) = Some (flow_serialize f)" "reload_parse_flow (flow_key i) (flow_serialize f) = Some f"
    "flow_good f" "i \<notin> fid ` set (g_flows r)"
proof -
  obtain f0 where f0: "create_flow body now = Inr f0"
    using c by (auto simp: flow_create_def split: sum.split_asm)
  obtain i' where i': "make_flow_id tries = Some i'"
    using c f0 by (auto simp: flow_create_def split: option.split_asm)
  define f where "f = f0\<lparr>fid := i'\<rparr>"
  obtain e1 ok where p: "persist_flow e f = (e1, ok)" by fastforce
  have k: "ok" "i' \<notin> fid ` set (g_flows r)" "e' = create_reminders e1 f" "r' = link_flow r f" "i = i'" "n = length (fsteps f)"
    using c f0 i' p by (auto simp: flow_create_def f_def Let_def split: if_split_asm)
  note g = create_flow_good [OF f0]
  have "0 \<le> loop_next f0" if a: "loop_active f0"
    using g(7) [OF a] now iv [OF f0] wrap64_id [of "now + loop_interval f0"] by simp
  then have "flow_ok f0" using g(8,9) by blast
  moreover have "flow_id_ok i'"
    using i' t by (auto simp: make_flow_id_def find_Some_iff intro!: flow_id_text_ok dest!: nth_mem in_set_takeD)
  ultimately have rp: "reload_parse_flow (flow_key i') (flow_serialize f) = Some f"
    using reload_parse_stored [of f] by (simp add: f_def)
  have st: "e_store e' (flow_key i') = Some (flow_serialize f)"
    using persist_store [of e f e1] p k(1,3) by (simp add: f_def)
  have "flow_good f" using g(1,2) by (simp add: flow_good_def within_budget_def f_def)
  then show ?thesis using that [of f] k g(4) st rp by (simp add: link_flow_def f_def)
qed

text \<open>A restart with the documents of loop-free flows brings them all back, swept.\<close>

definition swept_to :: "flow \<Rightarrow> flow \<Rightarrow> bool" where
  "swept_to f f' \<longleftrightarrow> (\<exists>now. f' = f\<lparr>fsteps := swept now (fsteps f)\<rparr>)"

lemma reload_add_fresh:
  "reload_add e r clock fs = (e', r') \<Longrightarrow> distinct (map fid fs) \<Longrightarrow> fid ` set fs \<inter> fid ` set (g_flows r) = {} \<Longrightarrow>
   \<exists>gs. g_flows r' = gs @ g_flows r \<and> list_all2 swept_to (rev fs) gs \<and> g_gen r' = g_gen r \<and>
     g_nflows r' = g_nflows r + length fs"
proof (induction fs arbitrary: e r)
  case (Cons f fs)
  obtain e1 f' ok where s: "flow_sweep e f (clock (length fs)) = (e1, f', ok)" by (rule prod_cases3)
  let ?r = "\<lparr>g_flows = f' # g_flows r, g_nflows = g_nflows r + 1, g_gen = g_gen r\<rparr>"
  have nf: "flow_find (g_flows r) (fid f) = None" using Cons.prems(3) by auto
  have f': "swept_to f f'" using flow_sweep_steps [OF s] by (auto simp: swept_to_def swept_def)
  have fi: "fid f' = fid f" using flow_sweep_good [OF s] by simp
  have a: "reload_add e1 ?r clock fs = (e', r')" using Cons.prems(1) nf s by simp
  have d: "distinct (map fid fs)" "fid ` set fs \<inter> fid ` set (g_flows ?r) = {}" using Cons.prems(2,3) fi by auto
  obtain gs where gs: "g_flows r' = gs @ f' # g_flows r" "list_all2 swept_to (rev fs) gs" "g_gen r' = g_gen r"
    "g_nflows r' = g_nflows r + 1 + length fs"
    using Cons.IH [OF a d] by auto
  have "list_all2 swept_to (rev (f # fs)) (gs @ [f'])" using gs(2) f' by (simp add: list_all2_appendI)
  then show ?case using gs by (intro exI [of _ "gs @ [f']"]) simp
qed simp

lemma reload_ticks_idle:
  "\<forall>f \<in> set (g_flows r). \<not> loop_active f \<Longrightarrow> k \<le> length (g_flows r) \<Longrightarrow> reload_ticks e r clock tries xs k = (e, r)"
  by (induction k) auto

lemma reload_restores_flows:
  assumes ok: "\<And>f. f \<in> set fs \<Longrightarrow> flow_ok f \<and> flow_id_ok (fid f) \<and> \<not> loop_active f" and d: "distinct (map fid fs)"
    and t: "flows_reload gen (Some (map (\<lambda>f. flow_key (fid f)) fs)) (Some (map flow_serialize fs)) e
      \<lparr>g_flows = [], g_nflows = 0, g_gen = gen\<rparr> clock1 clock2 tries xs = (e', r', res)"
  shows "res \<and> list_all2 swept_to (rev fs) (g_flows r') \<and> g_nflows r' = length fs"
proof (cases "fs = []")
  case True
  then show ?thesis using t by (auto simp: flows_reload_def)
next
  case False
  let ?r = "\<lparr>g_flows = [], g_nflows = 0, g_gen = gen\<rparr>"
  have p: "List.map_filter (\<lambda>(k, v). reload_parse_flow k v) (zip (map (\<lambda>f. flow_key (fid f)) gs) (map flow_serialize gs)) = gs"
    if "\<And>f. f \<in> set gs \<Longrightarrow> flow_ok f \<and> flow_id_ok (fid f)" for gs
    using that by (induction gs) (auto simp: List.map_filter_simps reload_parse_stored)
  obtain e1 r1 where a: "reload_add e ?r clock1 fs = (e1, r1)" by fastforce
  obtain e2 r2 where b: "reload_ticks e1 r1 clock2 tries xs (length (g_flows r1)) = (e2, r2)" by fastforce
  have r2: "res" "r' = r2" using t False a b p [of fs] ok by (auto simp: flows_reload_def)
  have add: "list_all2 swept_to (rev fs) (g_flows r1)" "g_nflows r1 = length fs"
    using reload_add_fresh [OF a d] by auto
  have "\<not> loop_active g" if m: "g \<in> set (g_flows r1)" for g
  proof -
    obtain j where j: "j < length (g_flows r1)" "g = g_flows r1 ! j" using m by (auto simp: in_set_conv_nth)
    then have "swept_to (rev fs ! j) g" "rev fs ! j \<in> set fs"
      using add(1) list_all2_nthD2 [OF add(1) j(1)] nth_mem [of j "rev fs"] by (auto dest: list_all2_lengthD)
    then show ?thesis using ok [of "rev fs ! j"] by (auto simp: swept_to_def)
  qed
  then have "r2 = r1" using reload_ticks_idle [of r1 "length (g_flows r1)" e1 clock2 tries xs] b by simp
  then show ?thesis using r2 add by simp
qed

subsection \<open>When an iteration starts\<close>

lemma loop_tick_rules:
  assumes i: "i < length (g_flows r)" and t: "loop_tick e r i now tries xs = (e', r', res)"
    and it: "0 \<le> loop_iter (g_flows r ! i)" "loop_iter (g_flows r ! i) < LLONG_MAX"
  defines "f \<equiv> g_flows r ! i"
  shows "res \<noteq> Inr () \<Longrightarrow> r' = r"
    and "length (g_flows r') = length (g_flows r) \<or>
      (\<exists>nf fs. g_flows r' = nf # fs \<and> map fid fs = map fid (g_flows r) \<and> map fsteps fs = map fsteps (g_flows r) \<and>
        loop_is_terminal f \<and> \<not> loop_stopped f \<and> loop_next f \<le> now \<and> (0 < loop_until f \<longrightarrow> now < loop_until f) \<and>
        in_loop (loop_root_id f) nf \<and> fid nf \<notin> fid ` set (g_flows r) \<and>
        (\<forall>g \<in> set (g_flows r). in_loop (loop_root_id f) g \<longrightarrow> loop_iter g < loop_iter nf) \<and>
        (0 < loop_max f \<longrightarrow> loop_budget nf \<le> loop_max f) \<and> list_all (\<lambda>s. sstate s = Pending) (fsteps nf))"
proof -
  show "res \<noteq> Inr () \<Longrightarrow> r' = r" using t by (cases rule: loop_tick_cases) auto
  show "length (g_flows r') = length (g_flows r) \<or> (\<exists>nf fs. g_flows r' = nf # fs \<and> map fid fs = map fid (g_flows r) \<and>
      map fsteps fs = map fsteps (g_flows r) \<and>
      loop_is_terminal f \<and> \<not> loop_stopped f \<and> loop_next f \<le> now \<and> (0 < loop_until f \<longrightarrow> now < loop_until f) \<and>
      in_loop (loop_root_id f) nf \<and> fid nf \<notin> fid ` set (g_flows r) \<and>
      (\<forall>g \<in> set (g_flows r). in_loop (loop_root_id f) g \<longrightarrow> loop_iter g < loop_iter nf) \<and>
      (0 < loop_max f \<longrightarrow> loop_budget nf \<le> loop_max f) \<and> list_all (\<lambda>s. sstate s = Pending) (fsteps nf))"
    using t
  proof (cases rule: loop_tick_cases)
    case (spawned j budget nxt fs)
    let ?nf = "next_iteration f j budget nxt"
    have due: "loop_is_terminal f" "\<not> loop_stopped f" "loop_next f \<le> now" "loop_driver (g_flows r) f = Some i"
      using spawned(1) by (simp_all add: tick_due_def Let_def f_def)
    have drv: "\<forall>g \<in> set (g_flows r). in_loop (loop_root_id f) g \<longrightarrow> loop_iter g \<le> loop_iter f"
      using loop_driver_max [OF due(4)] by (simp add: f_def)
    have nit: "loop_iter ?nf = loop_iter f + 1" using it by (simp add: wrap64_id f_def LLONG_MAX_def)
    have inl: "in_loop (loop_root_id f) ?nf" by (simp add: in_loop_def)
    have pend: "list_all (\<lambda>s. sstate s = Pending) (fsteps ?nf)"
      by (simp add: list_all_iff clone_step_def fresh_step_def)
    let ?ys = "(g_flows r)[i := f\<lparr>loop_next := nxt\<rparr>]"
    have l2: "list_all2 (rescheduled nxt) ?ys fs" using spawned(8) by (simp add: f_def)
    have len: "length fs = length (g_flows r)" using list_all2_lengthD [OF l2] by simp
    have nth: "fid (fs ! k) = fid (g_flows r ! k) \<and> fsteps (fs ! k) = fsteps (g_flows r ! k)" if "k < length (g_flows r)" for k
      using list_all2_nthD [OF l2, of k] that by (cases "k = i") (auto simp: rescheduled_def f_def)
    have same: "map fid fs = map fid (g_flows r)" "map fsteps fs = map fsteps (g_flows r)"
      using len nth by (auto intro!: nth_equalityI)
    have r': "g_flows r' = ?nf # fs" using spawned(9) by (simp add: link_flow_def f_def)
    have "\<forall>g \<in> set (g_flows r). in_loop (loop_root_id f) g \<longrightarrow> loop_iter g < loop_iter ?nf"
      using drv nit by fastforce
    moreover have "0 < loop_max f \<longrightarrow> loop_budget ?nf \<le> loop_max f" "0 < loop_until f \<longrightarrow> now < loop_until f"
      using spawned(5,6) by (simp_all add: f_def)
    moreover have "fid ?nf \<notin> fid ` set (g_flows r)" using spawned(7) by simp
    ultimately show ?thesis using r' same due inl pend by (intro disjI2 exI [of _ ?nf] exI [of _ fs]) blast
  qed simp_all
qed

text \<open>The next iteration does start when it is due, the limits allow it and exomind answers.\<close>

lemma persist_flow_ok: "(\<And>n. e_ok e n) \<Longrightarrow> \<exists>e1. persist_flow e f = (e1, True) \<and> e_ok e1 = e_ok e"
  by (simp add: persist_flow_def exo_persist_def)

lemma loop_tick_progress:
  assumes due: "tick_due (g_flows r) i now" and ok: "\<And>n. e_ok e n"
    and id: "make_flow_id_locked (g_flows r) tries \<noteq> None"
  defines "f \<equiv> g_flows r ! i"
  assumes mx: "0 < loop_max f \<Longrightarrow> 0 \<le> loop_budget f \<and> loop_budget f < loop_max f \<and> loop_max f \<le> LLONG_MAX"
    and un: "0 < loop_until f \<Longrightarrow> now < loop_until f"
  shows "\<exists>e' r'. loop_tick e r i now tries xs = (e', r', Inr ()) \<and> length (g_flows r') = Suc (length (g_flows r))"
proof -
  let ?b = "wrap64 (loop_budget f + (if flow_status f = SCancelled then 0 else 1))"
  let ?n = "wrap64 (loop_next f + loop_interval f)"
  have b: "\<not> (loop_max f > 0 \<and> ?b > loop_max f)"
    using mx by (auto simp: wrap64_id LLONG_MAX_def)
  have t: "loop_tick e r i now tries xs = loop_spawn e r i now ?b tries xs"
    using due b un by (auto simp: loop_tick_def tick_due_def Let_def f_def)
  obtain j where j: "make_flow_id_locked (g_flows r) tries = Some j" using id by blast
  obtain e1 where p1: "persist_flow e (f\<lparr>loop_next := ?n\<rparr>) = (e1, True)" "e_ok e1 = e_ok e"
    using persist_flow_ok [OF ok] by blast
  obtain e2 where p2: "persist_flow e1 (next_iteration f j ?b ?n) = (e2, True)"
    using persist_flow_ok [of e1] p1(2) ok by auto
  obtain e3 fs where p3: "propagate e2 (loop_root_id f) i ?n 0 ((g_flows r)[i := f\<lparr>loop_next := ?n\<rparr>]) = (e3, fs)"
    by fastforce
  have "length fs = length (g_flows r)" using list_all2_lengthD [OF propagate_moves [OF p3]] by simp
  then show ?thesis
    using t j p1 p2 p3 by (simp add: loop_spawn_def Let_def f_def link_flow_def)
qed

end
