(* ===== verification/Exo_Flow_Http.thy ===== *)
theory Exo_Flow_Http
  imports Exo_Flow_Loops Exo_Module Exo_Client
begin

text \<open>
  The routes of exoflow over its registry (\<open>exoflow/src/http.c\<close>, and the console of \<open>main.c\<close>):
  what each request answers and does to the registry and to exomind. A request holds the registry
  lock while it works. \<open>flow_env\<close> is what it reads of the world: the clock, one reading for each
  call, the random numbers and lists that the choice of a flow id sees, and the text the client
  leaves for a failed request.
\<close>

record flow_env =
  fe_clock :: "nat \<Rightarrow> int"
  fe_tries :: "nat \<Rightarrow> (int \<times> u32) list"
  fe_ids :: "(flow list \<times> int \<times> u32) list"
  fe_xs :: bool
  fe_why :: string
  fe_spec :: bytes

record flow_st =
  fs_env :: env
  fs_reg :: freg

subsection \<open>Texts\<close>

definition flow_status_text :: "status \<Rightarrow> string" where
  "flow_status_text st = (case st of SDone \<Rightarrow> ''done'' | SCancelled \<Rightarrow> ''cancelled'' | SFailed \<Rightarrow> ''failed'' | SActive \<Rightarrow> ''active'')"

definition flow_err_text :: "string \<Rightarrow> flow_err \<Rightarrow> string" where
  "flow_err_text why x = err255
     (case x of
        CorruptDocument \<Rightarrow> ''corrupt flow document'' | BadHeader \<Rightarrow> ''bad flow header''
      | BadVersion \<Rightarrow> ''unsupported flow format version'' | BadStepLine \<Rightarrow> ''bad step line''
      | BadStepId \<Rightarrow> ''bad step id'' | BadDepId \<Rightarrow> ''bad dep id'' | BadDeadline \<Rightarrow> ''bad deadline''
      | BadTimeout \<Rightarrow> ''bad timeout'' | BadStepState \<Rightarrow> ''bad step state'' | BadOwner \<Rightarrow> ''bad step owner''
      | LoopNotLast \<Rightarrow> ''loop line must be last'' | BadLoopLine \<Rightarrow> ''bad loop line''
      | EmptyBody \<Rightarrow> ''empty body'' | EmptyName \<Rightarrow> ''empty flow name'' | NoSteps \<Rightarrow> ''no steps''
      | BadLoopSpec \<Rightarrow> ''bad loop spec'' | DuplicateStep d \<Rightarrow> ''duplicate step '' @ d
      | UnknownDep d \<Rightarrow> ''unknown dep '' @ d | CyclicDeps \<Rightarrow> ''cyclic deps''
      | NoFlowId \<Rightarrow> ''cannot allocate flow id'' | IdCollision \<Rightarrow> ''flow id collision''
      | Unavailable \<Rightarrow> ''exomind unavailable: '' @ err255 why | NoSuchFlow \<Rightarrow> ''no such flow''
      | NoSuchStep \<Rightarrow> ''no such step'' | AlreadyDone \<Rightarrow> ''already done'' | StepCancelled \<Rightarrow> ''step is cancelled''
      | DepsPending \<Rightarrow> ''deps pending'' | NotClaimed \<Rightarrow> ''not claimed'' | BadAction \<Rightarrow> ''bad action''
      | BadWorker \<Rightarrow> ''bad worker'' | NotALoop \<Rightarrow> ''not a loop'')"

text \<open>The sweep and the tick hand the text of the client on as it is.\<close>

definition raw_err_text :: "string \<Rightarrow> flow_err \<Rightarrow> string" where
  "raw_err_text why x = (if x = Unavailable then err255 why else flow_err_text why x)"

definition flow_tsv_step :: "flow_step \<Rightarrow> string" where
  "flow_tsv_step s = tsv [''step'', sid s, state_text (sstate s), sowner s,
     show_int (if sdeadline s > 0 then sdeadline s else 0), show_int (stimeout s), esc_line (sdesc s)] @ [nl]"

definition flow_head :: "flow \<Rightarrow> string" where
  "flow_head f = tsv [''flow'', fid f, esc_line (fname f), flow_status_text (flow_status f)] @ [nl]"

definition flow_tsv :: "flow \<Rightarrow> string" where
  "flow_tsv f = flow_head f @ concat (map flow_tsv_step (fsteps f)) @
     (if loop_active f then
        tsv [''loop'', ''every '' @ show_int (loop_interval f) @ ''s'', ''max '' @ show_int (loop_max f),
             ''until '' @ show_int (loop_until f), ''iter '' @ show_int (loop_iter f),
             ''budget '' @ show_int (loop_budget f), ''next '' @ show_int (loop_next f),
             ''parent '' @ (if loop_parent f \<noteq> [] then loop_parent f else ''-''),
             ''stopped '' @ (if loop_stopped f then ''1'' else ''0'')] @ [nl]
      else [])"

definition jfield :: "string \<Rightarrow> string \<Rightarrow> string" where
  "jfield nm v = jname nm @ CHR '':'' # v"

definition jobj :: "string list \<Rightarrow> string" where
  "jobj xs = CHR ''{'' # join_with (CHR '','') xs @ ''}''"

definition jarr :: "string list \<Rightarrow> string" where
  "jarr items = CHR ''['' # join_with (CHR '','') items @ '']''"

definition flow_json_step :: "flow_step \<Rightarrow> string" where
  "flow_json_step s = jobj [jfield ''id'' (jname (sid s)), jfield ''desc'' (jname (json_escape_u (sdesc s))),
     jfield ''deps'' (jarr (map jname (sdeps s))), jfield ''state'' (jname (state_text (sstate s))),
     jfield ''owner'' (jname (sowner s)), jfield ''deadline'' (show_int (sdeadline s))]"

definition loop_json :: "flow \<Rightarrow> string" where
  "loop_json f = jobj [jfield ''interval'' (show_int (loop_interval f)), jfield ''max'' (show_int (loop_max f)),
     jfield ''until'' (show_int (loop_until f)), jfield ''iter'' (show_int (loop_iter f)),
     jfield ''budget'' (show_int (loop_budget f)), jfield ''next'' (show_int (loop_next f)),
     jfield ''parent'' (jname (loop_parent f)), jfield ''stopped'' (if loop_stopped f then ''1'' else ''0'')]"

text \<open>For a loop the list of steps is closed twice, once before the loop and once at the end.\<close>

definition flow_json :: "flow \<Rightarrow> string" where
  "flow_json f =
     CHR ''{'' # join_with (CHR '','') [jfield ''id'' (jname (fid f)), jfield ''name'' (jname (json_escape_u (fname f))),
       jfield ''status'' (jname (flow_status_text (flow_status f)))] @ CHR '','' # jname ''steps'' @ CHR '':'' # CHR ''['' #
     join_with (CHR '','') (map flow_json_step (fsteps f)) @
     (if loop_active f then CHR '']'' # CHR '','' # jfield ''loop'' (loop_json f) else []) @ '']}''"

subsection \<open>/flow\<close>

definition flow_tick :: "flow_env \<Rightarrow> env \<Rightarrow> freg \<Rightarrow> nat \<Rightarrow> nat \<Rightarrow> env \<times> freg \<times> (flow_err + unit)" where
  "flow_tick k e r i n = loop_tick e r i (fe_clock k n) (fe_tries k n) (fe_xs k)"

text \<open>A tick links what it starts in front, so a record is found again by its distance from the end.\<close>

definition moved_to :: "freg \<Rightarrow> freg \<Rightarrow> nat \<Rightarrow> nat" where
  "moved_to r r' i = length (g_flows r') - (length (g_flows r) - i)"

definition flow_json_reply :: "string \<Rightarrow> resp" where
  "flow_json_reply s = \<lparr>p_status = 200, p_ctype = Json, p_body = s\<rparr>"

definition asks_json :: "mreq \<Rightarrow> bool" where
  "asks_json q \<longleftrightarrow> mod_qp_str (mquery q) ''json'' 4096 \<noteq> None"

definition flow_st_of :: "env \<Rightarrow> freg \<Rightarrow> flow_st" where
  "flow_st_of e r = \<lparr>fs_env = e, fs_reg = r\<rparr>"

definition flow_action :: "flow_env \<Rightarrow> mreq \<Rightarrow> string \<Rightarrow> flow_st \<Rightarrow> flow_st \<times> resp" where
  "flow_action k q action s =
     (if action \<noteq> ''cancel'' \<and> action \<noteq> ''stop-loop'' then (s, plain 400 (''error: bad action '' @ action))
      else (case mod_qp_str (mquery q) ''id'' FLOW_ID_MAX of
              None \<Rightarrow> (s, plain 400 ''error: missing id'')
            | Some i \<Rightarrow>
                (case flow_find (g_flows (fs_reg s)) i of
                   None \<Rightarrow> (s, plain 404 ''missing'')
                 | Some j \<Rightarrow>
                     if action = ''stop-loop'' \<and> \<not> loop_active (g_flows (fs_reg s) ! j) then (s, plain 400 ''error: not a loop'')
                     else (case (if action = ''cancel'' then flow_cancel else flow_stop_loop) (fs_env s) (fs_reg s) i of
                             (e1, r1, Inl x) \<Rightarrow> (flow_st_of e1 r1, plain 500 (''error: '' @ flow_err_text (fe_why k) x))
                           | (e1, r1, Inr _) \<Rightarrow> (flow_st_of e1 r1, plain 200 ''ok'')))))"

definition flow_post :: "flow_env \<Rightarrow> mreq \<Rightarrow> flow_st \<Rightarrow> flow_st \<times> resp" where
  "flow_post k q s =
     (case mod_qp_str (mquery q) ''action'' 32 of
        Some action \<Rightarrow> flow_action k q action s
      | None \<Rightarrow>
          if mbody q = [] then (s, plain 400 ''error: empty body'')
          else (case flow_create (fs_env s) (fs_reg s) (mbody q) (fe_clock k 0) (fe_ids k) of
                  (e1, r1, Inl x) \<Rightarrow> (flow_st_of e1 r1, plain 400 (''error: '' @ flow_err_text (fe_why k) x))
                | (e1, r1, Inr (i, n)) \<Rightarrow> (flow_st_of e1 r1, plain 200 (''ok '' @ i @ CHR '' '' # show_nat n))))"

definition flow_remove :: "flow_env \<Rightarrow> string \<Rightarrow> flow_st \<Rightarrow> flow_st \<times> resp" where
  "flow_remove k i s =
     (case flow_find (g_flows (fs_reg s)) i of
        None \<Rightarrow> (s, plain 404 ''missing'')
      | Some _ \<Rightarrow>
          (case flow_delete (fs_env s) (fs_reg s) i of
             (e1, r1, Inl x) \<Rightarrow> (flow_st_of e1 r1, plain 500 (''error: '' @ flow_err_text (fe_why k) x))
           | (e1, r1, Inr _) \<Rightarrow> (flow_st_of e1 r1, plain 200 ''ok'')))"

definition flow_read :: "flow_env \<Rightarrow> mreq \<Rightarrow> string \<Rightarrow> flow_st \<Rightarrow> flow_st \<times> resp" where
  "flow_read k q i s =
     (case flow_find (g_flows (fs_reg s)) i of
        None \<Rightarrow> (s, plain 404 ''missing'')
      | Some j \<Rightarrow>
          (let (e1, f1, ok) = flow_sweep (fs_env s) (g_flows (fs_reg s) ! j) (fe_clock k 0);
               r1 = (fs_reg s)\<lparr>g_flows := (g_flows (fs_reg s))[j := f1]\<rparr>
           in if \<not> ok then (flow_st_of e1 r1, plain 500 (''error: exomind unavailable: '' @ raw_err_text (fe_why k) Unavailable))
              else (case flow_tick k e1 r1 j 1 of
                      (e2, r2, Inl x) \<Rightarrow> (flow_st_of e2 r2, plain 500 (''error: exomind unavailable: '' @ raw_err_text (fe_why k) x))
                    | (e2, r2, Inr _) \<Rightarrow>
                        (let f = g_flows r2 ! moved_to r1 r2 j
                         in (flow_st_of e2 r2, if asks_json q then flow_json_reply (flow_json f) else plain 200 (flow_tsv f))))))"

definition flow_one :: "flow_env \<Rightarrow> mreq \<Rightarrow> flow_st \<Rightarrow> flow_st \<times> resp" where
  "flow_one k q s =
     (if mmethod q = ''POST'' then flow_post k q s
      else if mmethod q = ''GET'' \<or> mmethod q = ''DELETE'' then
        (case mod_qp_str (mquery q) ''id'' FLOW_ID_MAX of
           None \<Rightarrow> (s, plain 400 ''error: missing id'')
         | Some i \<Rightarrow> if mmethod q = ''DELETE'' then flow_remove k i s else flow_read k q i s)
      else (s, plain 405 ''error: use GET/POST/DELETE''))"

subsection \<open>/flows and /loops\<close>

definition mod_qp_long :: "string \<Rightarrow> string \<Rightarrow> int \<Rightarrow> int" where
  "mod_qp_long qs nm def = (case mod_qp_str qs nm 32 of None \<Rightarrow> def | Some t \<Rightarrow> atoi t)"

text \<open>The lazy check of every loop before a listing; a failure is only logged.\<close>

definition all_ticks :: "flow_env \<Rightarrow> flow_st \<Rightarrow> flow_st" where
  "all_ticks k s =
     (let (e, r) = reload_ticks (fs_env s) (fs_reg s) (fe_clock k) (fe_tries k) (fe_xs k) (length (g_flows (fs_reg s)))
      in flow_st_of e r)"

fun flows_page :: "(flow \<Rightarrow> bool) \<Rightarrow> int \<Rightarrow> int \<Rightarrow> int \<Rightarrow> int \<Rightarrow> flow list \<Rightarrow> flow list" where
  "flows_page P limit offset seen emitted [] = []"
| "flows_page P limit offset seen emitted (f # fs) =
     (if emitted \<ge> limit then []
      else if \<not> P f then flows_page P limit offset seen emitted fs
      else if seen < offset then flows_page P limit offset (seen + 1) emitted fs
      else f # flows_page P limit offset (seen + 1) (emitted + 1) fs)"

definition flow_json_head :: "flow \<Rightarrow> string" where
  "flow_json_head f = jobj [jfield ''id'' (jname (fid f)), jfield ''name'' (jname (json_escape_u (fname f))),
     jfield ''status'' (jname (flow_status_text (flow_status f)))]"

definition flows_list :: "flow_env \<Rightarrow> mreq \<Rightarrow> flow_st \<Rightarrow> flow_st \<times> resp" where
  "flows_list k q s =
     (if mmethod q \<noteq> ''GET'' then (s, plain 405 ''error: use GET'')
      else (let filt = (case mod_qp_str (mquery q) ''status'' 16 of None \<Rightarrow> [] | Some t \<Rightarrow> t);
                l = mod_qp_long (mquery q) ''limit'' 100; o0 = mod_qp_long (mquery q) ''offset'' 0;
                limit = (if l < 0 then 100 else l); offset = (if o0 < 0 then 0 else o0);
                s1 = all_ticks k s;
                fs = flows_page (\<lambda>f. filt = [] \<or> flow_status_text (flow_status f) = filt) limit offset 0 0 (g_flows (fs_reg s1))
            in (s1, if asks_json q then flow_json_reply (jarr (map flow_json_head fs)) else plain 200 (concat (map flow_head fs)))))"

definition loop_row :: "flow \<Rightarrow> string" where
  "loop_row f = tsv [''loop'', fid f, ''iter '' @ show_int (loop_iter f), ''next '' @ show_int (loop_next f),
     ''interval '' @ show_int (loop_interval f)] @ [nl]"

definition loop_json_row :: "flow \<Rightarrow> string" where
  "loop_json_row f = jobj [jfield ''id'' (jname (fid f)), jfield ''iter'' (show_int (loop_iter f)),
     jfield ''next'' (show_int (loop_next f)), jfield ''interval'' (show_int (loop_interval f))]"

definition loops_list :: "flow_env \<Rightarrow> mreq \<Rightarrow> flow_st \<Rightarrow> flow_st \<times> resp" where
  "loops_list k q s =
     (if mmethod q \<noteq> ''GET'' then (s, plain 405 ''error: use GET'')
      else (let s1 = all_ticks k s; fs = filter loop_active (g_flows (fs_reg s1))
            in (s1, if asks_json q then flow_json_reply (jarr (map loop_json_row fs)) else plain 200 (concat (map loop_row fs)))))"

subsection \<open>/next and /step\<close>

text \<open>
  \<open>none\<close> stands for no step, in the answer as in \<open>flow_next\<close>. A failed write of the claim says
  twice that exomind is not available; a failed sweep once.
\<close>

definition next_answer :: "mreq \<Rightarrow> string \<Rightarrow> string option \<Rightarrow> resp" where
  "next_answer q i x =
     (let sid = (case x of None \<Rightarrow> ''none'' | Some t \<Rightarrow> t)
      in if asks_json q then
           flow_json_reply (jobj [jfield ''flow'' (jname i), jfield ''step'' (if sid = ''none'' then ''null'' else jname sid)])
         else plain 200 (if sid = ''none'' then ''none'' else ''ok '' @ sid))"

definition flow_claim :: "flow_env \<Rightarrow> mreq \<Rightarrow> flow_st \<Rightarrow> flow_st \<times> resp" where
  "flow_claim k q s =
     (if mmethod q \<noteq> ''GET'' then (s, plain 405 ''error: use GET'')
      else (case mod_qp_str (mquery q) ''flow'' FLOW_ID_MAX of
              None \<Rightarrow> (s, plain 400 ''error: missing flow'')
            | Some i \<Rightarrow>
                (case mod_qp_str (mquery q) ''worker'' OWNER_MAX of
                   None \<Rightarrow> (s, plain 400 ''error: missing worker'')
                 | Some w \<Rightarrow>
                     if w = [] then (s, plain 400 ''error: missing worker'')
                     else (case flow_find (g_flows (fs_reg s)) i of
                             None \<Rightarrow> (s, plain 404 ''missing'')
                           | Some j \<Rightarrow>
                               (case flow_tick k (fs_env s) (fs_reg s) j 0 of
                                  (e1, r1, Inl x) \<Rightarrow>
                                    (flow_st_of e1 r1, plain 500 (''error: exomind unavailable: '' @ raw_err_text (fe_why k) x))
                                | (e1, r1, Inr _) \<Rightarrow>
                                    (let j1 = moved_to (fs_reg s) r1 j; f = g_flows r1 ! j1;
                                         (e2, f2, res) = flow_next e1 f w (fe_clock k 1) (fe_clock k 2);
                                         s2 = flow_st_of e2 (r1\<lparr>g_flows := (g_flows r1)[j1 := f2]\<rparr>)
                                     in (s2, case res of
                                               Inl x \<Rightarrow>
                                                 if x = BadWorker then plain 400 (''error: '' @ flow_err_text (fe_why k) x)
                                                 else plain 500 (''error: exomind unavailable: '' @
                                                   (if snd (snd (flow_sweep e1 f (fe_clock k 1))) then flow_err_text (fe_why k) x
                                                    else raw_err_text (fe_why k) x))
                                             | Inr x \<Rightarrow> next_answer q i x)))))))"

definition blank4 :: "char \<Rightarrow> bool" where
  "blank4 c \<longleftrightarrow> c = CHR '' '' \<or> c = tab \<or> c = nl \<or> c = cr"

text \<open>The action is the first word of the body, the note what follows it.\<close>

definition step_act :: "flow_env \<Rightarrow> mreq \<Rightarrow> flow_st \<Rightarrow> flow_st \<times> resp" where
  "step_act k q s =
     (if mmethod q \<noteq> ''POST'' then (s, plain 405 ''error: use POST'')
      else (case (mod_qp_str (mquery q) ''flow'' FLOW_ID_MAX, mod_qp_str (mquery q) ''id'' STEP_ID_MAX) of
              (Some i, Some x) \<Rightarrow>
                if mbody q = [] then (s, plain 400 ''error: empty body'')
                else (let b = cstr (mbody q); action = takeWhile (\<lambda>c. \<not> blank4 c) b;
                          rest = dropWhile blank4 (drop (length action) b)
                      in case flow_find (g_flows (fs_reg s)) i of
                           None \<Rightarrow> (s, plain 404 ''missing'')
                         | Some j \<Rightarrow>
                             (let (e1, f1, res) = step_do (fs_env s) (g_flows (fs_reg s) ! j) x action rest;
                                  s1 = flow_st_of e1 ((fs_reg s)\<lparr>g_flows := (g_flows (fs_reg s))[j := f1]\<rparr>)
                              in (s1, case res of
                                        Inr _ \<Rightarrow> plain 200 ''ok''
                                      | Inl err \<Rightarrow>
                                          let t = ''error: '' @ flow_err_text (fe_why k) err
                                          in if err = NoSuchStep then plain 404 t
                                             else if err = Unavailable then plain 500 t else plain 400 t)))
            | _ \<Rightarrow> (s, plain 400 ''error: missing flow or id'')))"

subsection \<open>The router, connections and the console\<close>

definition flow_route :: "flow_env \<Rightarrow> mreq \<Rightarrow> flow_st \<Rightarrow> flow_st \<times> resp" where
  "flow_route k q s =
     (let p = mpath q
      in if p \<in> set [''/'', ''/help'', ''/spec''] then (s, \<lparr>p_status = 200, p_ctype = Markdown, p_body = fe_spec k\<rparr>)
         else if p = ''/ping'' then (s, plain 200 ''pong'')
         else if p = ''/flow'' then flow_one k q s
         else if p = ''/flows'' then flows_list k q s
         else if p = ''/loops'' then loops_list k q s
         else if p = ''/next'' then flow_claim k q s
         else if p = ''/step'' then step_act k q s
         else (s, plain 404 ''error: unknown path''))"

text \<open>A connection: the state, the bucket and the bytes of the reply.\<close>

definition flow_handle_conn :: "flow_env \<Rightarrow> string \<Rightarrow> rate option \<Rightarrow> int \<Rightarrow> bytes list \<Rightarrow> flow_st \<Rightarrow> flow_st \<times> rate option \<times> bytes" where
  "flow_handle_conn k token rt tick segs s =
     (case mod_gate ''/exoexoflow'' token rt tick segs of
        (rt', Inl rs) \<Rightarrow> (s, rt', mod_send_response rs False)
      | (rt', Inr q) \<Rightarrow> (let (s', rs) = flow_route k q s in (s', rt', mod_send_response rs (mmethod q = ''HEAD''))))"

definition flow_dispatch :: "flow_env \<Rightarrow> string \<Rightarrow> string \<Rightarrow> string \<Rightarrow> bytes \<Rightarrow> flow_st \<Rightarrow> flow_st \<times> resp" where
  "flow_dispatch k meth path query body s =
     flow_route k \<lparr>mmethod = take 15 meth, mpath = take 2047 path, mquery = take 8191 query, mbody = body,
       mauth = [], mhdrs = []\<rparr> s"

text \<open>A console operation: the exit code and what is printed; \<open>input\<close> is what standard input holds.\<close>

definition flow_console_method :: "string \<Rightarrow> string \<Rightarrow> string" where
  "flow_console_method path query =
     (if path = ''/step'' then ''POST''
      else if path = ''/flow'' \<and> (has_sub query ''action='' \<or> \<not> has_sub query ''id='') then ''POST'' else ''GET'')"

definition flow_console :: "flow_env \<Rightarrow> string \<Rightarrow> string \<Rightarrow> bytes \<Rightarrow> flow_st \<Rightarrow> flow_st \<times> nat \<times> bytes" where
  "flow_console k path body_arg input s =
     (let pq = take 511 path; p0 = takeWhile (\<lambda>c. c \<noteq> CHR ''?'') pq; q = take 1535 (drop (Suc (length p0)) pq);
          p = mod_strip ''/exoexoflow'' p0; meth = flow_console_method p q;
          body = (if body_arg \<noteq> [] then take 65535 body_arg else if meth \<noteq> ''GET'' then take 65535 input else []);
          (s', rs) = flow_dispatch k meth p q body s
      in (s', if p_status rs \<ge> 400 then (1, []) else (0, cstr (p_body rs))))"

end
