(* ===== verification/Exo_Flow_Cli.thy ===== *)
theory Exo_Flow_Cli
  imports Exo_Flow_Http
begin

text \<open>
  exoflow's clients of exomind and exosched (\<open>exoflow/src/cli.c\<close>), over a network as in
  \<open>Exo_Client\<close>: where exosched's client names exomind in an error this one names a backend, a
  value is posted to the bare \<open>/set\<close>, and reminders go to exosched. The loops over the reply are
  the same text in both programs and are shared.
\<close>

definition cli_init :: "string \<Rightarrow> string + exo" where
  "cli_init url =
     (if take 7 url \<noteq> ''http://'' then Inl ''bad url (only http://host[:port])''
      else (let p = drop 7 url; h = takeWhile (\<lambda>c. c \<noteq> CHR '':'' \<and> c \<noteq> CHR ''/'') p; r = drop (length h) p
            in if h = [] \<or> length h \<ge> 256 then Inl ''bad url host''
               else if r \<noteq> [] \<and> hd r = CHR '':'' then
                 (let port = atoi (take 15 (takeWhile (\<lambda>c. c \<noteq> CHR ''/'') (drop 1 r)))
                  in if port \<le> 0 \<or> port > 65535 then Inl ''bad url port'' else Inr \<lparr>x_host = h, x_port = port\<rparr>)
               else Inr \<lparr>x_host = h, x_port = 7654\<rparr>))"

definition cli_response :: "bytes list \<Rightarrow> string + int \<times> bytes" where
  "cli_response segs =
     (case rsp_loop segs [] of
        (h, None, segs') \<Rightarrow> Inl ''backend: bad response''
      | (h, Some e, segs') \<Rightarrow>
          if length h < 16 then Inl ''backend: bad response''
          else (let eol = length (takeWhile (\<lambda>c. c \<noteq> nl) h);
                    status = (if eol > 9 \<and> take 9 h = ''HTTP/1.1 '' then atoi (drop 9 h) else 500);
                    clen = rsp_clen (take e h); b0 = drop e h;
                    b = (if clen > 0 then rsp_body segs' (clen - int (length b0)) b0
                         else if clen < 0 \<and> length b0 < EXO_MAX_BODY then rsp_rest segs' b0 else b0)
                in if length b > EXO_MAX_BODY then Inl ''backend: response too large'' else Inr (status, b)))"

definition cli_request :: "'w net \<Rightarrow> exo \<Rightarrow> string \<Rightarrow> string \<Rightarrow> bytes \<Rightarrow> bool \<Rightarrow> 'w \<Rightarrow> (string + int \<times> bytes) \<times> 'w" where
  "cli_request net e meth target body json_ct w =
     (case net (request_bytes e meth target body json_ct) w of
        (Inl err, w') \<Rightarrow> (Inl (err255 err), w') | (Inr segs, w') \<Rightarrow> (cli_response segs, w'))"

text \<open>\<open>None\<close> is success for the operations without a result.\<close>

definition cli_persist :: "'w net \<Rightarrow> exo \<Rightarrow> string \<Rightarrow> bytes \<Rightarrow> int \<Rightarrow> 'w \<Rightarrow> string option \<times> 'w" where
  "cli_persist net e key v ttl w =
     (case cli_request net e ''POST'' ''/set'' (persist_body key v ttl) True w of
        (Inl err, w') \<Rightarrow> (Some err, w')
      | (Inr (st, b), w') \<Rightarrow>
          (if st \<noteq> 200 then Some (status_err_body (''exomind set '' @ key) st b) else None, w'))"

definition cli_del :: "'w net \<Rightarrow> exo \<Rightarrow> string \<Rightarrow> 'w \<Rightarrow> (string + bool) \<times> 'w" where
  "cli_del net e key w =
     (case cli_request net e ''DELETE'' (take 511 (''/del?key='' @ key)) [] False w of
        (Inl err, w') \<Rightarrow> (Inl err, w')
      | (Inr (st, b), w') \<Rightarrow>
          (if st \<noteq> 200 \<and> st \<noteq> 404 then Inl (status_err (''exomind del '' @ key) st) else Inr (st = 200), w'))"

definition cli_note :: "'w net \<Rightarrow> exo \<Rightarrow> string \<Rightarrow> 'w \<Rightarrow> string option \<times> 'w" where
  "cli_note net e t w =
     (case cli_request net e ''POST'' ''/note'' t False w of
        (Inl err, w') \<Rightarrow> (Some err, w')
      | (Inr (st, b), w') \<Rightarrow> (if st \<noteq> 200 then Some (status_err_body ''exomind note'' st b) else None, w'))"

definition cli_list :: "'w net \<Rightarrow> exo \<Rightarrow> string \<Rightarrow> 'w \<Rightarrow> (string + string list) \<times> 'w" where
  "cli_list net e pre w =
     (case cli_request net e ''GET'' (take 1023 (''/list?prefix='' @ pre @ ''&limit=10000'')) [] False w of
        (Inl err, w') \<Rightarrow> (Inl err, w')
      | (Inr (st, b), w') \<Rightarrow>
          (if st \<noteq> 200 then Inl (status_err ''exomind list'' st) else Inr (filter (\<lambda>l. l \<noteq> []) (resp_lines b)), w'))"

definition cli_batch_get :: "'w net \<Rightarrow> exo \<Rightarrow> string list \<Rightarrow> 'w \<Rightarrow> (string + bytes list) \<times> 'w" where
  "cli_batch_get net e keys w =
     (case cli_request net e ''POST'' ''/batch'' (batch_body keys) True w of
        (Inl err, w') \<Rightarrow> (Inl err, w')
      | (Inr (st, b), w') \<Rightarrow>
          (if st \<noteq> 200 then Inl (status_err ''exomind batch'' st)
           else (let vs = match_gets keys (resp_lines b)
                 in if length vs \<noteq> length keys then
                      Inl (err255 (''exomind batch get: got '' @ show_nat (length vs) @ '' of '' @ show_nat (length keys)))
                    else Inr vs), w'))"

text \<open>The message is escaped for one line but stands between quotes of the schedule grammar.\<close>

definition remind_body :: "int \<Rightarrow> string \<Rightarrow> string" where
  "remind_body at msg = ''at '' @ show_int at @ CHR '' '' # quot # esc_line msg @ [quot]"

definition cli_remind :: "'w net \<Rightarrow> exo \<Rightarrow> int \<Rightarrow> string \<Rightarrow> 'w \<Rightarrow> string option \<times> 'w" where
  "cli_remind net x at msg w =
     (case cli_request net x ''POST'' ''/remind'' (remind_body at msg) False w of
        (Inl err, w') \<Rightarrow> (Some err, w')
      | (Inr (st, b), w') \<Rightarrow> (if st \<noteq> 200 then Some (status_err_body ''exosched remind'' st b) else None, w'))"

subsection \<open>A reminder in exosched's grammar\<close>

definition quotable :: "string \<Rightarrow> bool" where
  "quotable s \<longleftrightarrow> (\<forall>c \<in> set s. c \<notin> {quot, bslash, nl, tab, cr, nul})"

lemma quotable_simps [simp]: "quotable []" "quotable (c # s) \<longleftrightarrow> c \<notin> {quot, bslash, nl, tab, cr, nul} \<and> quotable s"
  "quotable (s @ t) \<longleftrightarrow> quotable s \<and> quotable t"
  by (auto simp: quotable_def)

lemma quotable_esc: "quotable s \<Longrightarrow> esc_line s = s"
  by (induction s) (auto simp: esc_line_def esc_char_def)

lemma quotable_quote: "quotable s \<Longrightarrow> concat (map quote_char s) = s"
  by (induction s) (auto simp: quote_char_def)

lemma quotable_digits: "quotable (show_nat n)"
proof -
  have "c \<notin> {quot, bslash, nl, tab, cr, nul}" if "isdigit c" for c
    using that by (auto simp: isdigit_def less_eq_char_def)
  then show ?thesis using show_nat_digits unfolding quotable_def by blast
qed

lemma parse_at_epoch:
  assumes "0 \<le> at" "at \<le> MAX_EPOCH" "now \<le> at"
  shows "sched_head (skip_ws (''at '' @ show_int at @ CHR '' '' # r)) now = Inr (0, at, CHR '' '' # r)"
proof -
  let ?d = "show_nat (nat at)"
  have si: "show_int at = ?d" using assms(1) by (simp add: show_int_def)
  have sk: "skip_ws (''at '' @ ?d @ CHR '' '' # r) = ''at '' @ ?d @ CHR '' '' # r"
    "skip_ws (CHR '' '' # ?d @ CHR '' '' # r) = ?d @ CHR '' '' # r"
    using skip_ws_digits [of "nat at"] by (simp_all add: skip_ws_def sws_def)
  have nd: "\<not> isdigit (CHR '' '')" by code_simp
  obtain c ds where c: "?d = c # ds" "isdigit c" using show_nat_hd_digit [of "nat at"] by (cases "?d") auto
  have "c \<noteq> CHR ''-''" using c(2) by (auto simp: isdigit_def less_eq_char_def)
  moreover have tw: "takeWhile isdigit (?d @ CHR '' '' # r) = ?d"
    using take_digits(1) [of "CHR '' '' # r" "nat at"] nd by simp
  ultimately have sp: "at_span (?d @ CHR '' '' # r) = ?d" using c by (simp add: at_span_def)
  have st: "strtoll (?d @ CHR '' '' # r) = (at, CHR '' '' # r)"
    using strtoll_nat [of "nat at" "CHR '' '' # r"] assms nd by (simp add: MAX_EPOCH_def LLONG_MAX_def)
  have pa: "parse_at (?d @ CHR '' '' # r) now = Inr (at, CHR '' '' # r)"
    unfolding parse_at_def Let_def sp st using assms c by simp
  have h: "take 5 (''at '' @ ?d @ CHR '' '' # r) \<noteq> ''every''" by simp
  show ?thesis
    unfolding si sk(1) sched_head_def using sk(2) pa by simp
qed

lemma remind_parsed:
  assumes "0 \<le> at" "at \<le> MAX_EPOCH" "now \<le> at" "quotable msg" "length msg \<le> MAX_MSG"
  shows "parse_schedule (remind_body at msg) now =
    Inr \<lparr>s_fire = at, s_repeat = 0, s_until = 0, s_receipt = False, s_msg = msg\<rparr>"
proof -
  have b: "remind_body at msg = ''at '' @ show_int at @ CHR '' '' # quot # msg @ [quot]"
    using quotable_esc [OF assms(4)] by (simp add: remind_body_def)
  have h: "sched_head (skip_ws (remind_body at msg)) now = Inr (0, at, CHR '' '' # quot # msg @ [quot])"
    unfolding b by (rule parse_at_epoch [OF assms(1-3)])
  have sk: "skip_ws (CHR '' '' # quot # msg @ [quot]) = quot # msg @ [quot]" by (simp add: skip_ws_def sws_def)
  have ql: "quoted_loop (msg @ [quot]) [] = Inr (msg, [])"
    using quoted_loop_quote [of "[]" msg "[]"] quotable_quote [OF assms(4)] assms(5) by simp
  have c: "cstr msg = msg" using assms(4) by (intro cstr_id) (auto simp: quotable_def)
  have pt: "parse_tail [] 0 = Inr (0, False)" by (simp add: parse_tail_def skip_ws_def)
  show ?thesis unfolding parse_schedule_def h Let_def sum.case prod.case sk list.sel ql pt c by simp
qed

lemma token_quotable: "list_all token_char s \<Longrightarrow> quotable s"
proof -
  have "c \<notin> {quot, bslash, nl, tab, cr, nul}" if "token_char c" for c
    using that by (auto simp: token_char_def isalnum_def isupper_def islower_def isdigit_def less_eq_char_def)
  then show "list_all token_char s \<Longrightarrow> quotable s" by (auto simp: quotable_def list_all_iff)
qed

end
