(* ===== verification/Exo_Flow_Http_Props.thy ===== *)
theory Exo_Flow_Http_Props
  imports Exo_Flow_Cli
begin

text \<open>
  What a client of exoflow can bring about: every request is a sequence of the steps of the
  registry, so whatever arrives on a connection keeps its invariant; the pages of a listing; the
  answers that mislead.
\<close>

subsection \<open>Requests are steps of the registry\<close>

lemma reaches_trans: "reg_reaches r' r'' \<Longrightarrow> reg_reaches r r' \<Longrightarrow> reg_reaches r r''"
  by (induction rule: reg_reaches.induct) (auto intro: rr_step)

lemma reaches_step: "reg_step r r' \<Longrightarrow> reg_reaches r r'"
  by (rule rr_step [OF rr_refl])

lemma tick_reaches: "j < length (g_flows r) \<Longrightarrow> loop_tick e r j now ids xs = (e', r', c) \<Longrightarrow> reg_reaches r r'"
  by (rule reaches_step, rule r_tick)

lemma ticks_reach:
  "reload_ticks e r clock tries xs k = (e', r') \<Longrightarrow> k \<le> length (g_flows r) \<Longrightarrow> reg_reaches r r'"
proof (induction k arbitrary: e r)
  case (Suc k)
  let ?i = "length (g_flows r) - Suc k"
  obtain e1 r1 res where t: "(if loop_active (g_flows r ! ?i) then loop_tick e r ?i (clock k) (tries k) xs else (e, r, Inr ())) = (e1, r1, res)"
    by (rule prod_cases3)
  have i: "?i < length (g_flows r)" using Suc.prems(2) by simp
  have s: "reg_reaches r r1" using t tick_reaches [OF i] by (auto split: if_split_asm intro: rr_refl)
  have l: "k \<le> length (g_flows r1)" using t loop_tick_length Suc.prems(2) by (force split: if_split_asm)
  have "reload_ticks e1 r1 clock tries xs k = (e', r')" using Suc.prems(1) t by simp
  from Suc.IH [OF this l] show ?case by (rule reaches_trans [OF _ s])
qed (auto intro: rr_refl)

lemma all_ticks_reach: "reg_reaches (fs_reg s) (fs_reg (all_ticks k s))"
  using ticks_reach [OF _ le_refl] by (auto simp: all_ticks_def flow_st_of_def split: prod.split)

lemma st_of [simp]: "fs_reg (flow_st_of e r) = r" "fs_env (flow_st_of e r) = e"
  by (simp_all add: flow_st_of_def)

lemma flow_find_len: "flow_find fs i = Some j \<Longrightarrow> j < length fs"
  using flow_find_Some by blast

lemma action_reaches: "reg_reaches (fs_reg s) (fs_reg (fst (flow_action k q action s)))"
proof -
  have c: "flow_cancel e r i = (e1, r1, res) \<Longrightarrow> reg_reaches r r1" for e r i e1 r1 res
    by (rule reaches_step, rule r_cancel)
  have t: "flow_stop_loop e r i = (e1, r1, res) \<Longrightarrow> reg_reaches r r1" for e r i e1 r1 res
    by (rule reaches_step, rule r_stop)
  show ?thesis
  proof (cases "action = ''cancel''")
    case True
    then show ?thesis
      unfolding flow_action_def True by (auto simp: rr_refl split: option.split prod.split sum.split intro: c)
  next
    case False
    then show ?thesis
      unfolding flow_action_def by (auto simp: rr_refl split: option.split prod.split sum.split intro: t)
  qed
qed

lemma post_reaches: "reg_reaches (fs_reg s) (fs_reg (fst (flow_post k q s)))"
  by (auto simp: flow_post_def rr_refl action_reaches split: option.split prod.split sum.split
      intro: reaches_step r_create)

lemma remove_reaches: "reg_reaches (fs_reg s) (fs_reg (fst (flow_remove k i s)))"
  by (auto simp: flow_remove_def rr_refl split: option.split prod.split sum.split intro: reaches_step r_delete)

lemma read_reaches: "reg_reaches (fs_reg s) (fs_reg (fst (flow_read k q i s)))"
proof (cases "flow_find (g_flows (fs_reg s)) i")
  case (Some j)
  define r where "r = fs_reg s"
  obtain e1 f1 ok where sw: "flow_sweep (fs_env s) (g_flows r ! j) (fe_clock k 0) = (e1, f1, ok)" by (rule prod_cases3)
  define r1 where "r1 = r\<lparr>g_flows := (g_flows r)[j := f1]\<rparr>"
  have j: "j < length (g_flows r)" using flow_find_len [OF Some] by (simp add: r_def)
  have s1: "reg_reaches r r1" unfolding r1_def by (rule reaches_step, rule r_sweep [OF j sw])
  obtain e2 r2 res where t: "flow_tick k e1 r1 j 1 = (e2, r2, res)" by (rule prod_cases3)
  have "reg_reaches r1 r2" using tick_reaches t j by (simp add: flow_tick_def r1_def)
  then have "reg_reaches r r2" by (rule reaches_trans [OF _ s1])
  then show ?thesis
    using Some sw t s1 by (auto simp: flow_read_def r_def [symmetric] r1_def [symmetric] Let_def split: sum.split)
next
  case None
  show ?thesis unfolding flow_read_def None by (simp add: rr_refl)
qed

lemma moved_to_less:
  assumes "loop_tick e r j now ids xs = (e', r', c)" "j < length (g_flows r)"
  shows "moved_to r r' j < length (g_flows r')"
  using loop_tick_length [OF assms(1)] assms(2) by (simp add: moved_to_def)

lemma claim_reaches: "reg_reaches (fs_reg s) (fs_reg (fst (flow_claim k q s)))"
proof -
  have "reg_reaches (fs_reg s) (r1\<lparr>g_flows := (g_flows r1)[moved_to (fs_reg s) r1 j := f2]\<rparr>)"
    if f: "flow_find (g_flows (fs_reg s)) i = Some j" and t: "flow_tick k (fs_env s) (fs_reg s) j 0 = (e1, r1, c)"
      and n: "flow_next e1 (g_flows r1 ! moved_to (fs_reg s) r1 j) w n1 n2 = (e2, f2, res)"
    for i j e1 r1 c w n1 n2 e2 f2 res
  proof -
    have j: "j < length (g_flows (fs_reg s))" by (rule flow_find_len [OF f])
    note t' = t [unfolded flow_tick_def]
    show ?thesis
      by (rule rr_step [OF tick_reaches [OF j t']], rule r_next [OF moved_to_less [OF t' j] n])
  qed
  moreover have "reg_reaches (fs_reg s) r1"
    if "flow_find (g_flows (fs_reg s)) i = Some j" "flow_tick k (fs_env s) (fs_reg s) j 0 = (e1, r1, c)" for i j e1 r1 c
    using tick_reaches [OF flow_find_len [OF that(1)]] that(2) unfolding flow_tick_def by blast
  ultimately show ?thesis
    by (auto simp: flow_claim_def rr_refl Let_def split: option.split prod.split sum.split)
qed

lemma act_reaches: "reg_reaches (fs_reg s) (fs_reg (fst (step_act k q s)))"
proof -
  have "reg_reaches r (r\<lparr>g_flows := (g_flows r)[j := f1]\<rparr>)"
    if "flow_find (g_flows r) i = Some j" "step_do e (g_flows r ! j) x a n = (e1, f1, res)" for r i j e x a n e1 f1 res
    using that flow_find_len by (intro reaches_step r_do) auto
  then show ?thesis
    by (auto simp: step_act_def rr_refl Let_def split: option.split prod.split sum.split)
qed

lemma one_reaches: "reg_reaches (fs_reg s) (fs_reg (fst (flow_one k q s)))"
  by (auto simp: flow_one_def rr_refl post_reaches remove_reaches read_reaches split: option.split)

lemma lists_reach:
  "reg_reaches (fs_reg s) (fs_reg (fst (flows_list k q s)))" "reg_reaches (fs_reg s) (fs_reg (fst (loops_list k q s)))"
  by (simp_all add: flows_list_def loops_list_def rr_refl all_ticks_reach Let_def)

lemma route_reaches: "reg_reaches (fs_reg s) (fs_reg (fst (flow_route k q s)))"
  by (simp add: flow_route_def Let_def rr_refl one_reaches lists_reach claim_reaches act_reaches)

lemma conn_reaches:
  assumes "flow_handle_conn k token rt tick segs s = (s', rt', b)"
  shows "reg_reaches (fs_reg s) (fs_reg s')"
  using assms by (auto simp: flow_handle_conn_def rr_refl split: prod.splits sum.splits) (metis fst_conv route_reaches)

subsection \<open>The pages of a listing\<close>

lemma flows_page_take:
  "flows_page P limit offset seen emitted fs =
   (if seen < offset then take (nat (limit - emitted)) (drop (nat (offset - seen)) (filter P fs))
    else take (nat (limit - emitted)) (filter P fs))"
proof (induction P limit offset seen emitted fs rule: flows_page.induct)
  case (2 P limit offset seen emitted f fs)
  show ?case
  proof (cases "emitted \<ge> limit \<or> \<not> P f")
    case True
    then show ?thesis using 2 by auto
  next
    case False
    then have n: "nat (limit - emitted) = Suc (nat (limit - (emitted + 1)))"
      using Suc_nat_eq_nat_zadd1 [of "limit - (emitted + 1)"] by auto
    show ?thesis
    proof (cases "seen < offset")
      case True
      then have "nat (offset - seen) = Suc (nat (offset - (seen + 1)))"
        using Suc_nat_eq_nat_zadd1 [of "offset - (seen + 1)"] by auto
      then show ?thesis using 2 False True n by auto
    next
      case f: False
      then show ?thesis using 2 False n by auto
    qed
  qed
qed simp

lemma page_is_slice:
  assumes "0 \<le> offset"
  shows "flows_page P limit offset 0 0 fs = take (nat limit) (drop (nat offset) (filter P fs))"
  using assms by (auto simp: flows_page_take)

subsection \<open>The JSON of a loop\<close>

definition bracket :: "char \<Rightarrow> int" where
  "bracket c = (if c = CHR ''['' then 1 else if c = CHR '']'' then - 1 else 0)"

definition depth :: "string \<Rightarrow> int" where
  "depth s = sum_list (map bracket s)"

lemma depth_simps [simp]: "depth [] = 0" "depth (c # s) = bracket c + depth s" "depth (s @ t) = depth s + depth t"
  by (simp_all add: depth_def)

definition flat :: "string \<Rightarrow> bool" where
  "flat s \<longleftrightarrow> CHR ''['' \<notin> set s \<and> CHR '']'' \<notin> set s"

lemma depth_flat: "flat s \<Longrightarrow> depth s = 0"
  by (induction s) (auto simp: flat_def bracket_def)

lemma depth_join: "bracket c = 0 \<Longrightarrow> \<forall>s \<in> set ss. depth s = 0 \<Longrightarrow> depth (join_with c ss) = 0"
  by (induction c ss rule: join_with.induct) auto

lemma bracket_values [simp]: "bracket quot = 0" "bracket (CHR '','') = 0" "bracket (CHR '':'') = 0"
    "bracket (CHR ''{'') = 0" "bracket (CHR ''}'') = 0" "bracket (CHR ''['') = 1" "bracket (CHR '']'') = - 1" "bracket (CHR ''-'') = 0"
  by (simp_all add: bracket_def)

lemma depth_jname [simp]: "depth (jname s) = depth s"
  by (simp add: jname_def)

lemma flat_number: "flat (show_int i)"
proof -
  have "c \<noteq> CHR ''['' \<and> c \<noteq> CHR '']''" if "isdigit c" for c
    using that by (auto simp: isdigit_def less_eq_char_def)
  then have "flat (show_nat n)" for n using show_nat_digits unfolding flat_def by blast
  then show ?thesis by (auto simp: show_int_def flat_def)
qed

lemma depth_number [simp]: "depth (show_int i) = 0"
  by (rule depth_flat [OF flat_number])

lemma depth_jfield [simp]: "flat nm \<Longrightarrow> depth (jfield nm v) = depth v"
  by (simp add: jfield_def depth_flat)

lemma depth_jobj: "\<forall>s \<in> set ss. depth s = 0 \<Longrightarrow> depth (jobj ss) = 0"
  by (simp add: jobj_def depth_join)

lemma depth_jarr: "\<forall>s \<in> set ss. depth s = 0 \<Longrightarrow> depth (jarr ss) = 0"
  by (simp add: jarr_def depth_join)

lemma flat_words [simp]: "flat ''id''" "flat ''desc''" "flat ''deps''" "flat ''state''" "flat ''owner''" "flat ''deadline''"
    "flat ''interval''" "flat ''max''" "flat ''until''" "flat ''iter''" "flat ''budget''" "flat ''next''" "flat ''parent''"
    "flat ''stopped''" "flat ''name''" "flat ''status''" "flat ''loop''" "flat ''steps''" "flat ''1''" "flat ''0''"
  by (simp_all add: flat_def)

lemma flat_states: "flat (state_text st)" "flat (flow_status_text x)"
  by (cases st; simp add: flat_def) (cases x; simp add: flat_def flow_status_text_def)

text \<open>No bracket in the texts the flow carries.\<close>

definition flat_flow :: "flow \<Rightarrow> bool" where
  "flat_flow f \<longleftrightarrow> flat (fid f) \<and> flat (json_escape_u (fname f)) \<and> flat (loop_parent f) \<and>
     list_all (\<lambda>s. flat (sid s) \<and> flat (json_escape_u (sdesc s)) \<and> flat (sowner s) \<and> list_all flat (sdeps s)) (fsteps f)"

lemma depth_step:
  assumes "flat (sid s)" "flat (json_escape_u (sdesc s))" "flat (sowner s)" "list_all flat (sdeps s)"
  shows "depth (flow_json_step s) = 0"
proof -
  have d: "depth (jarr (map jname (sdeps s))) = 0"
    using assms(4) by (intro depth_jarr) (auto simp: list_all_iff depth_flat)
  show ?thesis unfolding flow_json_step_def using assms d by (intro depth_jobj) (auto simp: depth_flat flat_states)
qed

lemma depth_flow_json:
  assumes "flat_flow f"
  shows "depth (flow_json f) = (if loop_active f then - 1 else 0)"
proof -
  have h: "depth (join_with (CHR '','') [jfield ''id'' (jname (fid f)), jfield ''name'' (jname (json_escape_u (fname f))),
      jfield ''status'' (jname (flow_status_text (flow_status f)))]) = 0"
    using assms by (intro depth_join) (auto simp: flat_flow_def depth_flat flat_states)
  have ss: "depth (join_with (CHR '','') (map flow_json_step (fsteps f))) = 0"
    using assms by (intro depth_join) (auto simp: flat_flow_def list_all_iff intro!: depth_step)
  have l: "depth (loop_json f) = 0"
    unfolding loop_json_def using assms by (intro depth_jobj) (auto simp: flat_flow_def depth_flat)
  have w: "depth ''steps'' = 0" by (rule depth_flat) simp
  show ?thesis unfolding flow_json_def using h ss l w by simp
qed

subsection \<open>A step whose name is the answer for no step\<close>

lemma none_step_hidden: "next_answer q i (Some ''none'') = next_answer q i None"
  by (simp add: next_answer_def)

subsection \<open>Reminders\<close>

lemma flow_id_quotable: "quotable (flow_id_text now rnd)"
proof -
  have "c \<notin> {quot, bslash, nl, tab, cr, nul}" if m: "c \<in> set (show_hex8 rnd)" for c
  proof -
    obtain k :: nat where "c = ''0123456789abcdef'' ! (unat rnd div 16 ^ k mod 16)"
      using m unfolding show_hex8_def set_map by (elim imageE)
    then have "c \<in> set ''0123456789abcdef''" by (simp only:) (rule nth_mem, simp)
    then show ?thesis by auto
  qed
  then have "quotable (show_hex8 rnd)" unfolding quotable_def by blast
  moreover have "quotable (show_int now)" using quotable_digits by (simp add: show_int_def)
  ultimately show ?thesis by (simp add: flow_id_text_def)
qed

text \<open>The reminders a new flow may leave: one for each deadline, one for the loop.\<close>

definition reminder_of :: "flow \<Rightarrow> int \<Rightarrow> string \<Rightarrow> bool" where
  "reminder_of f at msg \<longleftrightarrow>
     (\<exists>s \<in> set (fsteps f). at = sdeadline s \<and> msg = ''exoflow '' @ fid f @ '' '' @ sid s) \<or>
     (loop_active f \<and> at = loop_next f \<and> msg = ''exoflow:loop:'' @ fid f)"

lemma remind_list: "set (e_reminders (xs_remind e at msg)) \<subseteq> insert (at, msg) (set (e_reminders e))"
  by (auto simp: xs_remind_def)

lemma reminders_fold:
  "x \<in> set (e_reminders (fold (\<lambda>s e. if sdeadline s > 0 then xs_remind e (sdeadline s) (g s) else e) ss e)) \<Longrightarrow>
   x \<in> set (e_reminders e) \<or> (\<exists>s \<in> set ss. x = (sdeadline s, g s))"
proof (induction ss arbitrary: e)
  case (Cons s ss)
  let ?e = "if sdeadline s > 0 then xs_remind e (sdeadline s) (g s) else e"
  have "x \<in> set (e_reminders ?e) \<or> (\<exists>s \<in> set ss. x = (sdeadline s, g s))"
    using Cons.prems by (intro Cons.IH) simp
  moreover have "x \<in> set (e_reminders ?e) \<Longrightarrow> x \<in> set (e_reminders e) \<or> x = (sdeadline s, g s)"
    using remind_list by (auto split: if_split_asm)
  ultimately show ?case by auto
qed simp

lemma create_reminders_of:
  assumes "(at, msg) \<in> set (e_reminders (create_reminders e f))"
  shows "(at, msg) \<in> set (e_reminders e) \<or> reminder_of f at msg"
proof -
  let ?e1 = "fold (\<lambda>s e. if sdeadline s > 0 then xs_remind e (sdeadline s) (''exoflow '' @ fid f @ '' '' @ sid s) else e) (fsteps f) e"
  have "(at, msg) \<in> set (e_reminders ?e1) \<or> (loop_active f \<and> (at, msg) = (loop_next f, ''exoflow:loop:'' @ fid f))"
    using assms remind_list [of ?e1 "loop_next f" "''exoflow:loop:'' @ fid f"]
    by (auto simp: create_reminders_def Let_def split: if_split_asm)
  then show ?thesis using reminders_fold [of "(at, msg)" "\<lambda>s. ''exoflow '' @ fid f @ '' '' @ sid s"] unfolding reminder_of_def by fast
qed

lemma reminder_quotable:
  assumes "reminder_of f at msg" "quotable (fid f)" "length (fid f) < FLOW_ID_MAX" "list_all newborn (fsteps f)"
  shows "quotable msg \<and> length msg \<le> MAX_MSG"
proof -
  have s: "quotable (sid s) \<and> length (sid s) < 64" if "s \<in> set (fsteps f)" for s
    using assms(4) that token_quotable by (auto simp: list_all_iff newborn_def step_ok_def safe_token_def STEP_ID_MAX_def)
  have l: "length (fid f) < 40" using assms(3) by (simp add: FLOW_ID_MAX_def)
  have w: "quotable ''exoflow ''" "quotable ''exoflow:loop:''" "quotable '' ''" by simp_all
  have b: "(200 :: nat) \<le> MAX_MSG" by (simp add: MAX_MSG_def)
  from assms(1) consider (step) t where "t \<in> set (fsteps f)" "msg = ''exoflow '' @ fid f @ '' '' @ sid t"
    | (loop) "msg = ''exoflow:loop:'' @ fid f" unfolding reminder_of_def by blast
  then show ?thesis
  proof cases
    case step
    have "length msg \<le> 200" using s [OF step(1)] l unfolding step(2) by simp
    moreover have "quotable msg" unfolding step(2) quotable_simps(3) using s [OF step(1)] w assms(2) by blast
    ultimately show ?thesis using b by simp
  next
    case loop
    have "length msg \<le> 200" using l unfolding loop by simp
    moreover have "quotable msg" unfolding loop quotable_simps(3) using w assms(2) by blast
    ultimately show ?thesis using b by simp
  qed
qed

lemma created_reminders_parsed:
  assumes c: "flow_create e r body now tries = (e', r', Inr (i, n))" and m: "(at, msg) \<in> set (e_reminders e')"
    and new: "(at, msg) \<notin> set (e_reminders e)" and t: "\<forall>(fs, t, rnd) \<in> set tries. \<bar>t\<bar> < 10 ^ 19"
    and w: "0 \<le> snow" "snow \<le> at" "at \<le> MAX_EPOCH"
  shows "parse_schedule (remind_body at msg) snow =
    Inr \<lparr>s_fire = at, s_repeat = 0, s_until = 0, s_receipt = False, s_msg = msg\<rparr>"
proof -
  obtain f0 e1 where f0: "create_flow body now = Inr f0" "make_flow_id tries = Some i"
    and e': "e' = create_reminders e1 (f0\<lparr>fid := i\<rparr>)" and p: "persist_flow e (f0\<lparr>fid := i\<rparr>) = (e1, True)"
    using c by (auto simp: flow_create_def Let_def split: sum.split_asm option.split_asm prod.split_asm if_split_asm)
  have "e_reminders e1 = e_reminders e"
    using p by (auto simp: persist_flow_def exo_persist_def split: if_split_asm)
  then have rem: "reminder_of (f0\<lparr>fid := i\<rparr>) at msg" using create_reminders_of [of at msg e1] m new unfolding e' by auto
  obtain fs t0 rnd where i: "i = flow_id_text t0 rnd" "(fs, t0, rnd) \<in> set tries"
    using f0(2) by (auto simp: make_flow_id_def find_Some_iff dest!: nth_mem in_set_takeD)
  have "quotable i" "length i < FLOW_ID_MAX"
    using i t flow_id_quotable flow_id_text_ok by (auto simp: flow_id_ok_def)
  then have "quotable msg \<and> length msg \<le> MAX_MSG"
    using create_flow_good(4) [OF f0(1)] by (intro reminder_quotable [OF rem]) simp_all
  then show ?thesis using w by (intro remind_parsed) auto
qed

end
