(* ===== verification/Exo_Qms_Json.thy ===== *)
theory Exo_Qms_Json
  imports Exo_Json_Codec
begin

text \<open>
  Where exoqms's copy of the JSON code (\<open>exoqms/src/util.c\<close>) differs from the others: the second
  byte of a two-byte sequence is only asked for its top bit, and a field that is an object or an
  array is copied up to the bracket that balances it, brackets in strings included.
\<close>

definition qms_utf8_decode :: "bytes \<Rightarrow> (u32 \<times> nat) option" where
  "qms_utf8_decode s =
     (let remain = length s; b = (\<lambda>i. of_char (s ! i) :: u32)
      in if remain < 1 then None
         else if b 0 < 0x80 then Some (b 0, 1)
         else if 2 \<le> remain \<and> b 0 AND 0xE0 = 0xC0 \<and> b 1 AND 0x80 = 0x80
         then Some (push_bit 6 (b 0 AND 0x1F) OR (b 1 AND 0x3F), 2)
         else if 3 \<le> remain \<and> b 0 AND 0xF0 = 0xE0 \<and> b 1 AND 0xC0 = 0x80 \<and> b 2 AND 0xC0 = 0x80
         then Some (push_bit 12 (b 0 AND 0x0F) OR push_bit 6 (b 1 AND 0x3F) OR (b 2 AND 0x3F), 3)
         else if 4 \<le> remain \<and> b 0 AND 0xF8 = 0xF0 \<and> b 1 AND 0xC0 = 0x80 \<and>
                 b 2 AND 0xC0 = 0x80 \<and> b 3 AND 0xC0 = 0x80
         then Some (push_bit 18 (b 0 AND 0x07) OR push_bit 12 (b 1 AND 0x3F) OR
                    push_bit 6 (b 2 AND 0x3F) OR (b 3 AND 0x3F), 4)
         else None)"

lemma qms_utf8_decode_pos: "qms_utf8_decode s = Some (cp, m) \<Longrightarrow> 1 \<le> m \<and> m \<le> length s"
  by (auto simp: qms_utf8_decode_def Let_def Suc_le_eq split: if_splits)

function qms_json_escape :: "bytes \<Rightarrow> string" where
  "qms_json_escape [] = []"
| "qms_json_escape (c # r) =
     (if c = quot then bslash # quot # qms_json_escape r
      else if c = bslash then bslash # bslash # qms_json_escape r
      else if c = nl then bslash # CHR ''n'' # qms_json_escape r
      else if c = tab then bslash # CHR ''t'' # qms_json_escape r
      else if c = cr then bslash # CHR ''r'' # qms_json_escape r
      else if c = CHR 0x08 then bslash # CHR ''b'' # qms_json_escape r
      else if c = CHR 0x0C then bslash # CHR ''f'' # qms_json_escape r
      else if c < CHR 0x20 then json_u (of_char c) @ qms_json_escape r
      else if c < CHR 0x80 then c # qms_json_escape r
      else (case qms_utf8_decode (c # r) of
              None \<Rightarrow> CHR ''?'' # qms_json_escape r
            | Some (cp, m) \<Rightarrow>
                (if cp \<le> 0xFFFF then json_u cp
                 else (let v = cp - 0x10000
                       in json_u (0xD800 + drop_bit 10 v) @ json_u (0xDC00 + (v AND 0x3FF))))
                @ qms_json_escape (drop m (c # r))))"
  by pat_completeness auto
termination
  by (relation "measure length") (auto dest: qms_utf8_decode_pos)

subsection \<open>Well-formed text is escaped alike\<close>

lemma two_byte_class: "(w :: u32) AND 0xE0 = 0xC0 \<Longrightarrow> w AND 0xF0 \<noteq> 0xE0 \<and> w AND 0xF8 \<noteq> 0xF0"
proof -
  assume w: "w AND 0xE0 = 0xC0"
  have "\<not> bit (w AND 0xE0) 5" unfolding w by (simp add: bit_numeral_rec)
  then have b: "\<not> bit w 5" by (simp add: bit_and_iff bit_numeral_rec)
  have "bit (0xE0 :: u32) 5" "bit (0xF0 :: u32) 5" by (simp_all add: bit_numeral_rec)
  then show ?thesis using b by (metis bit_and_iff)
qed

lemma and_c0_80: "(w :: u32) AND 0xC0 = 0x80 \<Longrightarrow> w AND 0x80 = 0x80"
proof -
  assume w: "w AND 0xC0 = 0x80"
  have "w AND 0x80 = (w AND 0xC0) AND 0x80" by (simp add: and.assoc)
  then show ?thesis by (simp add: w)
qed

lemma qms_utf8_decode_eq: "utf8_decode s = Some x \<Longrightarrow> qms_utf8_decode s = Some x"
  unfolding utf8_decode_def qms_utf8_decode_def Let_def
  using two_byte_class [of "of_char (s ! 0)"] and_c0_80 [of "of_char (s ! 1)"]
  by (auto split: if_split_asm)

lemma qms_json_escape_eq:
  "\<forall>cp \<in> set cps. scalar_value cp \<Longrightarrow>
    qms_json_escape (concat (map utf8_encode cps)) = json_escape_u (concat (map utf8_encode cps))"
proof (induction cps)
  case (Cons cp cps)
  let ?r = "concat (map utf8_encode cps)"
  have sc: "scalar_value cp" using Cons.prems by simp
  have lt: "cp < 0x200000"
    using sc less_trans [of cp "0xD800" "0x200000"] less_trans [of cp "0x110000" "0x200000"]
    by (auto simp: scalar_value_def)
  have ih: "qms_json_escape ?r = json_escape_u ?r" using Cons by simp
  show ?case
  proof (cases "cp < 0x80")
    case True
    then have "utf8_encode cp = [byte_of cp]" by (simp add: utf8_encode_def)
    moreover have "byte_of cp < CHR 0x80"
      using True by (simp add: char_lt_iff byte_of_def word_less_nat_alt)
    ultimately show ?thesis using ih by simp
  next
    case False
    obtain c t where ct: "utf8_encode cp = c # t" "\<not> c < CHR 0x80"
      "\<And>r. utf8_decode (c # t @ r) = Some (cp, Suc (length t))"
      using utf8_encode_multi [OF False lt] by blast
    show ?thesis
      using ct(1,2) ct(3) [of ?r] qms_utf8_decode_eq [OF ct(3) [of ?r]] not_ascii_special [OF ct(2)] ih by simp
  qed
qed simp

subsection \<open>Fields\<close>

fun bracket_copy :: "string \<Rightarrow> int \<Rightarrow> string" where
  "bracket_copy [] d = []"
| "bracket_copy (c # r) d =
     (if c = CHR ''['' \<or> c = CHR ''{'' then c # bracket_copy r (d + 1)
      else if c = CHR '']'' \<or> c = CHR ''}'' then (if d - 1 = 0 then [c] else c # bracket_copy r (d - 1))
      else c # bracket_copy r d)"

definition field_token :: "string \<Rightarrow> string" where
  "field_token v =
     (if v \<noteq> [] \<and> (hd v = CHR ''['' \<or> hd v = CHR ''{'') then bracket_copy v 0
      else takeWhile (\<lambda>x. x \<noteq> CHR '','' \<and> x \<noteq> CHR ''}'' \<and> x \<noteq> CHR '']'') v)"

function qms_field_loop :: "string \<Rightarrow> string \<Rightarrow> bytes option" where
  "qms_field_loop p fld =
     (case json_skip_ws p of
        [] \<Rightarrow> None
      | c # r \<Rightarrow>
          if c = CHR ''}'' then None
          else if c = CHR '','' then qms_field_loop r fld
          else if c \<noteq> quot then None
          else (case json_parse_string (c # r) of
                  None \<Rightarrow> None
                | Some kq \<Rightarrow>
                    (case json_skip_ws (snd kq) of
                       [] \<Rightarrow> None
                     | d # v0 \<Rightarrow>
                         if d \<noteq> CHR '':'' then None
                         else (case json_skip_ws v0 of
                                 [] \<Rightarrow> None
                               | e # v \<Rightarrow>
                                   if cstr (fst kq) = cstr fld then
                                     (if e = quot then map_option fst (json_parse_string (e # v))
                                      else Some (field_token (e # v)))
                                   else (case json_skip_value (e # v) of
                                           None \<Rightarrow> None
                                         | Some q \<Rightarrow> qms_field_loop q fld)))))"
  by pat_completeness auto
termination
proof (relation "measure (\<lambda>(p, f). length p)", goal_cases)
  case (2 p fld c r)
  then show ?case using json_skip_ws_length [of p] by simp
next
  case (3 p fld c r kq d v0 e v q)
  have "length q \<le> length (e # v)" using 3 json_skip_value_length by blast
  also have "\<dots> \<le> length v0" using 3 json_skip_ws_length [of v0] by simp
  also have "\<dots> < length (snd kq)" using 3 json_skip_ws_length [of "snd kq"] by simp
  also have "\<dots> < length (c # r)"
    using 3 json_parse_string_length [of "c # r" "fst kq" "snd kq"] by simp
  also have "\<dots> \<le> length p" using 3 json_skip_ws_length [of p] by simp
  finally show ?case by simp
qed simp

declare qms_field_loop.simps [simp del]

text \<open>The value as a C string.\<close>

definition qms_field :: "string \<Rightarrow> string \<Rightarrow> string option" where
  "qms_field json fld =
     (case json_skip_ws json of
        [] \<Rightarrow> None
      | c # r \<Rightarrow> if c \<noteq> CHR ''{'' then None else map_option cstr (qms_field_loop r fld))"

end
