(* ===== verification/Exo_Qms.thy ===== *)
theory Exo_Qms
  imports Exo_Wire Exo_Qms_Json
begin

text \<open>
  The durable model of exoqms (\<open>exoqms/src/model.c\<close>): quality objectives, non-conformities with
  their lifecycle, audit records and the registry of detected issues, all kept in exomind and
  reloaded at the start. A record in exomind is a line of columns. exoqms's client of exomind is
  exosched's code but for the escape of the value and the time to live 0; \<open>qms_get\<close> is the operation it adds.
\<close>

definition OBJ_KEY_PREFIX :: string where "OBJ_KEY_PREFIX = ''exoqms:obj:''"
definition NC_KEY_PREFIX :: string where "NC_KEY_PREFIX = ''exoqms:nc:''"
definition AUDIT_KEY_PREFIX :: string where "AUDIT_KEY_PREFIX = ''exoqms:audit:''"
definition AGENTS_KEY :: string where "AGENTS_KEY = ''exoqms:config:agents''"
definition NOTES24_KEY :: string where "NOTES24_KEY = ''exoqms:config:notes24h''"
definition QID_MAX :: nat where "QID_MAX = 48"
definition STATUS_MAX :: nat where "STATUS_MAX = 16"
definition SEV_MAX :: nat where "SEV_MAX = 8"
definition MAX_FIELD :: nat where "MAX_FIELD = 64 * 1024"

record obj =
  o_id :: string
  o_desc :: string
  o_metric :: string
  o_target :: string
  o_period :: string
  o_created :: int

record nc =
  n_id :: string
  n_title :: string
  n_desc :: string
  n_sev :: string
  n_source :: string
  n_detected :: int
  n_status :: string
  n_caction :: string
  n_evidence :: string
  n_closed :: int
  n_closed_by :: string

record audit =
  a_id :: string
  a_name :: string
  a_criteria :: string
  a_sched :: int
  a_status :: string
  a_score :: int
  a_findings :: string

record qms =
  qm_objs :: "obj list"
  qm_ncs :: "nc list"
  qm_audits :: "audit list"

definition qms_init :: qms where
  "qms_init = \<lparr>qm_objs = [], qm_ncs = [], qm_audits = []\<rparr>"

text \<open>A buffer of \<open>n\<close> characters filled by \<open>snprintf\<close>.\<close>

definition fit :: "nat \<Rightarrow> string \<Rightarrow> string" where
  "fit n s = take (n - 1) s"

definition make_id :: "int \<Rightarrow> u32 \<Rightarrow> string" where
  "make_id now r = fit QID_MAX (show_int now @ CHR '':'' # show_hex8 r)"

definition tab_split :: "string \<Rightarrow> nat \<Rightarrow> string list" where
  "tab_split s maxf = take maxf (split_on tab s)"

definition join_tabs :: "string list \<Rightarrow> string" where
  "join_tabs fs = join_with tab fs"

subsection \<open>The client\<close>

definition qms_persist_body :: "string \<Rightarrow> string \<Rightarrow> string" where
  "qms_persist_body key v =
     CHR ''{'' # jname ''key'' @ CHR '':'' # jname key @ CHR '','' # jname ''value'' @ CHR '':'' #
     jname (qms_json_escape v) @ CHR '','' # jname ''ttl'' @ '':0}''"

definition qms_persist :: "'w net \<Rightarrow> exo \<Rightarrow> string \<Rightarrow> string \<Rightarrow> 'w \<Rightarrow> string option \<times> 'w" where
  "qms_persist net e key v w =
     (case exo_request net e ''POST'' (take 511 (''/set?key='' @ key)) (qms_persist_body key v) True w of
        (Inl err, w') \<Rightarrow> (Some err, w')
      | (Inr (st, b), w') \<Rightarrow>
          (if st \<noteq> 200 then Some (status_err_body (''exomind set '' @ key) st b) else None, w'))"

text \<open>The value, \<open>Inr None\<close> when the key is missing.\<close>

definition qms_get :: "'w net \<Rightarrow> exo \<Rightarrow> string \<Rightarrow> 'w \<Rightarrow> (string + bytes option) \<times> 'w" where
  "qms_get net e key w =
     (case exo_request net e ''GET'' (take 1023 (''/get?key='' @ key)) [] False w of
        (Inl err, w') \<Rightarrow> (Inl err, w')
      | (Inr (st, b), w') \<Rightarrow>
          (if st = 404 then Inr None
           else if st \<noteq> 200 then Inl (status_err (''exomind get '' @ key) st)
           else Inr (Some (cstr b)), w'))"

text \<open>The values of the keys that can be read, in order.\<close>

fun fetch_all :: "'w net \<Rightarrow> exo \<Rightarrow> string list \<Rightarrow> 'w \<Rightarrow> (string \<times> bytes) list \<times> 'w" where
  "fetch_all net e [] w = ([], w)"
| "fetch_all net e (k # ks) w =
     (case qms_get net e k w of
        (Inr (Some v), w1) \<Rightarrow> (let (r, w2) = fetch_all net e ks w1 in ((k, v) # r, w2))
      | (_, w1) \<Rightarrow> fetch_all net e ks w1)"

subsection \<open>Records\<close>

definition obj_value :: "obj \<Rightarrow> string" where
  "obj_value o1 = join_tabs [o_id o1, o_desc o1, o_metric o1, o_target o1, o_period o1, show_int (o_created o1)]"

definition nc_value :: "nc \<Rightarrow> string" where
  "nc_value c = join_tabs [n_id c, n_title c, n_desc c, n_sev c, n_source c, show_int (n_detected c), n_status c,
     n_caction c, n_evidence c, show_int (n_closed c), n_closed_by c]"

definition audit_value :: "audit \<Rightarrow> string" where
  "audit_value a = join_tabs [a_id a, a_name a, a_criteria a, show_int (a_sched a), ''done'', show_int (a_score a), a_findings a]"

definition field :: "string list \<Rightarrow> nat \<Rightarrow> string" where
  "field fs i = (if i < length fs then fs ! i else [])"

definition obj_parse :: "int \<Rightarrow> bytes \<Rightarrow> obj option" where
  "obj_parse now v =
     (let f = tab_split (unesc_line v) 8
      in if length f < 5 then None
         else Some \<lparr>o_id = fit QID_MAX (f ! 0), o_desc = f ! 1, o_metric = f ! 2, o_target = f ! 3,
                o_period = (if f ! 4 \<noteq> [] then f ! 4 else ''iter''),
                o_created = (if length f > 5 then fst (strtoll (f ! 5)) else now)\<rparr>)"

definition nc_parse :: "bytes \<Rightarrow> nc option" where
  "nc_parse v =
     (let f = tab_split (unesc_line v) 12
      in if length f < 6 then None
         else Some \<lparr>n_id = fit QID_MAX (f ! 0), n_title = f ! 1, n_desc = f ! 2, n_sev = fit SEV_MAX (f ! 3),
                n_source = f ! 4, n_detected = fst (strtoll (f ! 5)),
                n_status = fit STATUS_MAX (if field f 6 \<noteq> [] then f ! 6 else ''open''), n_caction = field f 7,
                n_evidence = field f 8, n_closed = (if length f > 9 then fst (strtoll (f ! 9)) else 0),
                n_closed_by = field f 10\<rparr>)"

text \<open>Up to six header fields, the number of them, and the tail with its tabs.\<close>

definition audit_fields :: "string \<Rightarrow> string list \<times> string" where
  "audit_fields u =
     (let fs = split_on tab u in if length fs > 6 then (take 6 fs, join_tabs (drop 6 fs)) else (fs, last fs))"

definition audit_parse :: "bytes \<Rightarrow> audit option" where
  "audit_parse v =
     (let (f, tail) = audit_fields (unesc_line v)
      in if length f < 6 then None
         else Some \<lparr>a_id = fit QID_MAX (f ! 0), a_name = f ! 1, a_criteria = f ! 2, a_sched = fst (strtoll (f ! 3)),
                a_status = fit STATUS_MAX (f ! 4), a_score = atoi (f ! 5), a_findings = tail\<rparr>)"

text \<open>The persistent configuration: the agents and the expected notes a day.\<close>

definition reload_conf :: "'w net \<Rightarrow> exo \<Rightarrow> string \<Rightarrow> int \<Rightarrow> 'w \<Rightarrow> string \<times> int \<times> 'w" where
  "reload_conf net e agents notes w =
     (let (ra, w1) = qms_get net e AGENTS_KEY w; (rn, w2) = qms_get net e NOTES24_KEY w1
      in (case ra of Inr (Some v) \<Rightarrow> v | _ \<Rightarrow> agents,
          case rn of Inr (Some v) \<Rightarrow> (if atoi v > 0 then atoi v else notes) | _ \<Rightarrow> notes, w2))"

text \<open>
  The registries are replaced only when the three listings succeed. A record whose value cannot be
  fetched is left out.
\<close>

definition qms_reload :: "'w net \<Rightarrow> exo \<Rightarrow> int \<Rightarrow> qms \<Rightarrow> string \<Rightarrow> int \<Rightarrow> 'w
    \<Rightarrow> string option \<times> qms \<times> string \<times> int \<times> 'w" where
  "qms_reload net e now q agents notes w =
     (case client_list net e OBJ_KEY_PREFIX w of
        (Inl err, w1) \<Rightarrow> (Some err, q, agents, notes, w1)
      | (Inr ko, w1) \<Rightarrow>
          (let (vo, w2) = fetch_all net e ko w1
           in case client_list net e NC_KEY_PREFIX w2 of
                (Inl err, w3) \<Rightarrow> (Some err, q, agents, notes, w3)
              | (Inr kn, w3) \<Rightarrow>
                  (let (vn, w4) = fetch_all net e kn w3
                   in case client_list net e AUDIT_KEY_PREFIX w4 of
                        (Inl err, w5) \<Rightarrow> (Some err, q, agents, notes, w5)
                      | (Inr ka, w5) \<Rightarrow>
                          (let (va, w6) = fetch_all net e ka w5; (ag, nt, w7) = reload_conf net e agents notes w6
                           in (None,
                               \<lparr>qm_objs = List.map_filter (obj_parse now) (map snd vo),
                                qm_ncs = List.map_filter nc_parse (map snd vn),
                                qm_audits = List.map_filter audit_parse (map snd va)\<rparr>, ag, nt, w7)))))"

subsection \<open>Objectives\<close>

definition obj_find :: "qms \<Rightarrow> string \<Rightarrow> obj option" where
  "obj_find q i = find (\<lambda>x. o_id x = i) (qm_objs q)"

definition qkey :: "string \<Rightarrow> string \<Rightarrow> string" where
  "qkey pre i = take 511 (pre @ i)"

text \<open>
  \<open>now\<close> gives the clock readings in order, \<open>r\<close> is what \<open>rand32\<close> returned. The record is persisted
  before it enters the registry, which other threads may have changed meanwhile (\<open>others\<close>).
\<close>

definition obj_create :: "'w net \<Rightarrow> exo \<Rightarrow> (nat \<Rightarrow> int) \<Rightarrow> u32 \<Rightarrow> (qms \<Rightarrow> qms) \<Rightarrow> qms \<Rightarrow> string \<Rightarrow> string \<Rightarrow> string \<Rightarrow> string
    \<Rightarrow> 'w \<Rightarrow> (string + string) \<times> qms \<times> 'w" where
  "obj_create net e now r others q desc metric target period w =
     (if desc = [] \<or> metric = [] \<or> target = [] then (Inl ''objective needs title, metric_key and target'', q, w)
      else (let i = make_id (now 0) r;
                x = \<lparr>o_id = i, o_desc = desc, o_metric = metric, o_target = target, o_period = period, o_created = now 1\<rparr>
            in case qms_persist net e (qkey OBJ_KEY_PREFIX i) (obj_value x) w of
                 (Some err, w1) \<Rightarrow> (Inl err, others q, w1)
               | (None, w1) \<Rightarrow>
                   (let q1 = others q in (Inr i, q1\<lparr>qm_objs := qm_objs q1 @ [x\<lparr>o_created := now 2\<rparr>]\<rparr>, w1))))"

subsection \<open>Non-conformities\<close>

definition nc_find :: "qms \<Rightarrow> string \<Rightarrow> nc option" where
  "nc_find q i = find (\<lambda>x. n_id x = i) (qm_ncs q)"

definition new_nc :: "string \<Rightarrow> string \<Rightarrow> string \<Rightarrow> string \<Rightarrow> string \<Rightarrow> int \<Rightarrow> nc" where
  "new_nc i title desc sev source now =
     \<lparr>n_id = i, n_title = title, n_desc = desc, n_sev = fit SEV_MAX sev, n_source = source, n_detected = now,
      n_status = ''open'', n_caction = [], n_evidence = [], n_closed = 0, n_closed_by = []\<rparr>"

definition nc_create :: "'w net \<Rightarrow> exo \<Rightarrow> (nat \<Rightarrow> int) \<Rightarrow> u32 \<Rightarrow> (qms \<Rightarrow> qms) \<Rightarrow> qms \<Rightarrow> string \<Rightarrow> string \<Rightarrow> string \<Rightarrow> string
    \<Rightarrow> 'w \<Rightarrow> (string + string) \<times> qms \<times> 'w" where
  "nc_create net e now r others q title sev desc source w =
     (if title = [] \<or> desc = [] then (Inl ''nc needs title and description'', q, w)
      else if sev \<noteq> ''major'' \<and> sev \<noteq> ''minor'' then (Inl ''severity must be major or minor'', q, w)
      else (let i = make_id (now 0) r
            in case qms_persist net e (qkey NC_KEY_PREFIX i) (nc_value (new_nc i title desc sev source (now 1))) w of
                 (Some err, w1) \<Rightarrow> (Inl err, others q, w1)
               | (None, w1) \<Rightarrow>
                   (let q1 = others q
                    in (Inr i, q1\<lparr>qm_ncs := qm_ncs q1 @ [new_nc i title desc sev source (now 2)]\<rparr>, w1))))"

text \<open>What an action makes of a record, or the error.\<close>

definition bad_step :: "string \<Rightarrow> string \<Rightarrow> string \<Rightarrow> string" where
  "bad_step act cur want = ''invalid transition: '' @ act @ '' from '' @ cur @ '' (expected '' @ want @ '')''"

definition nc_apply :: "nc \<Rightarrow> string \<Rightarrow> string \<Rightarrow> int \<Rightarrow> string + nc" where
  "nc_apply c act body now =
     (let cur = n_status c
      in if act = ''analyse'' then
           (if cur \<noteq> ''open'' then Inl (bad_step act cur ''open'') else Inr (c\<lparr>n_status := ''analysis''\<rparr>))
         else if act = ''correct'' then
           (if cur \<noteq> ''analysis'' then Inl (bad_step act cur ''analysis'') else Inr (c\<lparr>n_status := ''corrective''\<rparr>))
         else if act = ''verify'' then
           (if cur \<noteq> ''corrective'' then Inl (bad_step act cur ''corrective'') else Inr (c\<lparr>n_status := ''verify''\<rparr>))
         else if act = ''close'' then
           (let f = tab_split body 8; ca = field f 0; ev = field f 1
            in if cur \<noteq> ''verify'' \<and> (ca = [] \<or> ev = []) then
                 Inl ''close requires status verify or a body of corrective_action<TAB>evidence''
               else Inr (c\<lparr>n_status := ''closed'', n_caction := (if ca \<noteq> [] then ca else n_caction c),
                           n_evidence := (if ev \<noteq> [] then ev else n_evidence c),
                           n_closed := (if now \<noteq> 0 then now else n_closed c),
                           n_closed_by := (if field f 3 \<noteq> [] then field f 3 else ''api'')\<rparr>))
         else Inl ''unknown action (analyse|correct|verify|close)'')"

text \<open>The copy that is persisted goes through buffers of fixed size.\<close>

definition nc_snapshot :: "nc \<Rightarrow> nc" where
  "nc_snapshot c = c\<lparr>n_title := fit 1024 (n_title c), n_desc := fit MAX_FIELD (n_desc c), n_source := fit 1024 (n_source c)\<rparr>"

fun update_first :: "string \<Rightarrow> (nc \<Rightarrow> nc) \<Rightarrow> nc list \<Rightarrow> nc list" where
  "update_first i f [] = []"
| "update_first i f (c # cs) = (if n_id c = i then f c # cs else c # update_first i f cs)"

definition nc_commit :: "nc \<Rightarrow> nc \<Rightarrow> nc" where
  "nc_commit n c = c\<lparr>n_status := n_status n, n_caction := n_caction n, n_evidence := n_evidence n,
     n_closed_by := n_closed_by n, n_closed := n_closed n\<rparr>"

text \<open>
  The note names the status twice: \<open>cur\<close> points into the record, which has been updated by then. The
  body is printed up to its first tab after \<open>tab_split\<close> has cut it.
\<close>

definition transition_note :: "string \<Rightarrow> string \<Rightarrow> string \<Rightarrow> string \<Rightarrow> string" where
  "transition_note i act nst body =
     (let b = (if act = ''close'' then takeWhile (\<lambda>c. c \<noteq> tab) body else body)
      in ''nc '' @ i @ '' transition: '' @ nst @ '' -> '' @ nst @ (if b \<noteq> [] then '' ('' @ b @ '')'' else []))"

definition nc_transition :: "'w net \<Rightarrow> exo \<Rightarrow> int \<Rightarrow> (qms \<Rightarrow> qms) \<Rightarrow> qms \<Rightarrow> string \<Rightarrow> string \<Rightarrow> string \<Rightarrow> 'w
    \<Rightarrow> (string + string) \<times> qms \<times> 'w" where
  "nc_transition net e now others q i act body w =
     (case nc_find q i of
        None \<Rightarrow> (Inl ''no such nc'', q, w)
      | Some c \<Rightarrow>
          (case nc_apply c act body now of
             Inl err \<Rightarrow> (Inl err, q, w)
           | Inr n \<Rightarrow>
               (case qms_persist net e (qkey NC_KEY_PREFIX i) (nc_value (nc_snapshot n)) w of
                  (Some err, w1) \<Rightarrow> (Inl err, others q, w1)
                | (None, w1) \<Rightarrow>
                    (let q1 = others q; q2 = q1\<lparr>qm_ncs := update_first i (nc_commit n) (qm_ncs q1)\<rparr>
                     in (Inr (n_status n), q2,
                         snd (client_note net e (transition_note i act (n_status n) body) w1))))))"

subsection \<open>Audits and issues\<close>

definition audit_find :: "qms \<Rightarrow> string \<Rightarrow> audit option" where
  "audit_find q i = find (\<lambda>x. a_id x = i) (qm_audits q)"

definition audit_save :: "'w net \<Rightarrow> exo \<Rightarrow> (nat \<Rightarrow> int) \<Rightarrow> (qms \<Rightarrow> qms) \<Rightarrow> qms \<Rightarrow> string \<Rightarrow> string \<Rightarrow> string \<Rightarrow> string \<Rightarrow> int
    \<Rightarrow> 'w \<Rightarrow> string option \<times> qms \<times> 'w" where
  "audit_save net e now others q i name criteria findings score w =
     (let a = \<lparr>a_id = i, a_name = name, a_criteria = criteria, a_sched = now 0, a_status = ''done'', a_score = score,
               a_findings = findings\<rparr>
      in case qms_persist net e (qkey AUDIT_KEY_PREFIX i) (esc_line (audit_value a)) w of
           (Some err, w1) \<Rightarrow> (Some err, others q, w1)
         | (None, w1) \<Rightarrow>
             (let q1 = others q
              in (None, q1\<lparr>qm_audits := qm_audits q1 @ [a\<lparr>a_id := fit QID_MAX i, a_sched := now 1\<rparr>]\<rparr>, w1)))"

record issue =
  i_status :: string
  i_fails :: int
  i_consec :: int
  i_first :: int
  i_last :: int
  i_reopens :: int
  i_evidence :: string

definition issue_read :: "int \<Rightarrow> bytes \<Rightarrow> issue" where
  "issue_read now v =
     (let f = strtok_all (\<lambda>c. c = tab) v; num = (\<lambda>i d. if i < length f then fst (strtoll (f ! i)) else d)
      in \<lparr>i_status = (if f \<noteq> [] then fit 32 (f ! 0) else ''open''), i_fails = num 1 0, i_consec = num 2 0,
          i_first = num 3 now, i_last = num 4 now, i_reopens = num 5 0, i_evidence = fit 240 (field f 6)\<rparr>)"

definition issue_value :: "issue \<Rightarrow> string" where
  "issue_value s = fit 2048 (join_tabs [i_status s, show_int (i_fails s), show_int (i_consec s), show_int (i_first s),
     show_int (i_last s), show_int (i_reopens s), i_evidence s])"

text \<open>\<open>long\<close> counters are integers here: they grow by one per audit.\<close>

definition issue_step :: "issue \<Rightarrow> bool \<Rightarrow> string \<Rightarrow> int \<Rightarrow> issue" where
  "issue_step s is_fail evidence now =
     (let s1 = (if is_fail then
                  s\<lparr>i_fails := i_fails s + 1,
                    i_reopens := (if i_status s = ''closed'' then i_reopens s + 1 else i_reopens s),
                    i_consec := (if i_status s = ''closed'' then 1 else i_consec s + 1), i_status := ''open''\<rparr>
                else s\<lparr>i_status := (if i_status s = ''open'' then ''closed'' else i_status s), i_consec := 0\<rparr>);
          es = esc_line evidence
      in s1\<lparr>i_last := now, i_evidence := fit 240 (if es \<noteq> [] then es else ''(no evidence)'')\<rparr>)"

definition no_issue :: "int \<Rightarrow> issue" where
  "no_issue now = \<lparr>i_status = ''open'', i_fails = 0, i_consec = 0, i_first = now, i_last = now, i_reopens = 0, i_evidence = []\<rparr>"

definition issue_key :: "string \<Rightarrow> string" where
  "issue_key check = take 511 (''issue:'' @ check)"

text \<open>A registry entry that cannot be fetched counts as none. The first reading of the clock is \<open>now 0\<close>.\<close>

definition issue_register :: "'w net \<Rightarrow> exo \<Rightarrow> (nat \<Rightarrow> int) \<Rightarrow> string \<Rightarrow> bool \<Rightarrow> string \<Rightarrow> 'w \<Rightarrow> string option \<times> 'w" where
  "issue_register net e now check is_fail evidence w =
     (let (r, w1) = qms_get net e (issue_key check) w;
          old = (case r of Inr (Some v) \<Rightarrow> Some v | _ \<Rightarrow> None)
      in if \<not> is_fail \<and> old = None then (None, w1)
         else (let s = (case old of None \<Rightarrow> no_issue (now 0) | Some v \<Rightarrow> issue_read (now 0) v)
               in qms_persist net e (issue_key check) (issue_value (issue_step s is_fail evidence (now 1))) w1))"

end
