(* ===== verification/Exo_Link.thy ===== *)
theory Exo_Link
  imports Exo_Qms Exo_Wire_Ops
begin

text \<open>
  What a client of exomind relies on, as a locale over any network and any state behind it: a persist
  is a set of the map of keys, a get reads it, a listing gives its live keys, a note adds a key of its
  own. The model of exomind behind the wire is an instance.
\<close>

definition in_family :: "string \<Rightarrow> string \<Rightarrow> bool" where
  "in_family p k \<longleftrightarrow> take (length p) k = p"

locale exomind_link =
  fixes net :: "int \<Rightarrow> 'w net" and e :: exo and serves :: "int \<Rightarrow> 'w \<Rightarrow> smap \<Rightarrow> bool"
  assumes persist: "\<lbrakk>serves t0 w m; t0 \<le> t; int64 t; key_word k; utf8_text v; nul \<notin> set v; length v \<le> 1048576\<rbrakk> \<Longrightarrow>
      \<exists>w'. qms_persist (net t) e k v w = (None, w') \<and> serves t w' (m(k \<mapsto> (v, t, 0)))"
    and get: "\<lbrakk>serves t0 w m; t0 \<le> t; int64 t; raw_key k\<rbrakk> \<Longrightarrow>
      \<exists>w'. qms_get (net t) e k w = (Inr (map_option (\<lambda>x. cstr (fst x)) (live_at t (m k))), w') \<and> serves t w' m"
    and list: "\<lbrakk>serves t0 w m; t0 \<le> t; int64 t; plain_pre p; take 2 p \<noteq> ''p:'';
      card {k. in_family p k \<and> live_at t (m k) \<noteq> None} < MAX_QUERY;
      \<And>k. in_family p k \<Longrightarrow> live_at t (m k) \<noteq> None \<Longrightarrow> key_word k\<rbrakk> \<Longrightarrow>
      \<exists>ks w'. client_list (net t) e p w = (Inr ks, w') \<and> distinct ks \<and>
        set ks = {k. in_family p k \<and> live_at t (m k) \<noteq> None} \<and> serves t w' m"
    and note_: "\<lbrakk>serves t0 w m; t0 \<le> t; int64 t; b \<noteq> []; length b \<le> MAX_VAL\<rbrakk> \<Longrightarrow>
      \<exists>w' nk. client_note (net t) e b w = (None, w') \<and> in_family ''note:'' nk \<and> serves t w' (m(nk \<mapsto> (b, t, 0)))"

definition served :: "exo \<Rightarrow> (bytes \<Rightarrow> bytes list) \<Rightarrow> (bytes \<Rightarrow> bytes list) \<Rightarrow> int \<Rightarrow> srv \<Rightarrow> smap \<Rightarrow> bool" where
  "served e segs segs' t a m \<longleftrightarrow> exo_ok e \<and> segmentation segs \<and> segmentation segs' \<and> sim t (a_main a) m \<and> a_proj a = None"

text \<open>On UTF-8 text the escape of exoqms is that of the other daemons.\<close>

lemma qms_persist_text: "utf8_text v \<Longrightarrow> qms_persist net e k v w = client_persist net e k v 0 w"
proof -
  assume "utf8_text v"
  then have "qms_json_escape v = json_escape_u v" using qms_json_escape_eq by (auto simp: utf8_text_def)
  moreover have "show_int 0 = ''0''" by code_simp
  ultimately have "qms_persist_body k v = persist_body k v 0" by (simp add: qms_persist_body_def persist_body_def)
  then show ?thesis by (simp add: qms_persist_def client_persist_def)
qed

text \<open>No stored value is longer than the client's bound on a body.\<close>

lemma log_view_value: "log_view rs now k = Some x \<Longrightarrow> \<exists>r \<in> set rs. fst x = lval r"
  by (induction rs) (auto simp: live_rec_def Let_def split: if_split_asm)

lemma sim_value_len:
  assumes "sim t s m" "t \<le> u" "live_at u (m k) = Some x" shows "length (fst x) \<le> EXO_MAX_BODY"
proof -
  obtain rs where "store_inv t rs s" "log_view rs u k = live_at u (m k)" using assms(1,2) by (auto simp: sim_def)
  then show ?thesis
    using log_view_value [of rs u k x] assms(3) by (auto simp: store_inv_def rec_ok_def MAX_VAL_def EXO_MAX_BODY_def)
qed

lemma qms_get_served:
  assumes s: "served e segs segs' t0 a m" "t0 \<le> t" "int64 t" and k: "raw_key k"
  shows "\<exists>a'. qms_get (wire_net c (\<lambda>_. healthy t) segs segs') e k a =
      (Inr (map_option (\<lambda>x. cstr (fst x)) (live_at t (m k))), a') \<and> served e segs segs' t a' m"
proof -
  note tg = raw_key_target [OF k]
  have sv: "exo_ok e" "segmentation segs" "segmentation segs'" "sim t0 (a_main a) m" "a_proj a = None"
    using s(1) by (simp_all add: served_def)
  have v: "view (a_main a) t k = live_at t (m k)" using sim_view [OF sv(4) s(2)] by simp
  have tk: "take 1023 (''/get?key='' @ k) = ''/get?key='' @ k" using tg(4) by simp
  have k2: "take 2 k \<noteq> ''p:''" "k \<noteq> []" using k by (auto simp: raw_key_def key_word_def)
  show ?thesis
  proof (cases "live_at t (m k)")
    case None
    obtain a' where a': "exo_request (wire_net c (\<lambda>_. healthy t) segs segs') e ''GET'' (''/get?key='' @ k) [] False a = (Inr (404, ''missing''), a')"
        "sim t (a_main a') m" "a' = a\<lparr>a_main := a_main a'\<rparr>"
      using get_missing [OF sv(1) k sv(4) s(2,3) _ sv(5,2,3), of c] v None by auto
    have "a_proj a' = None" using a'(3) sv(5) by (metis srv.simps(2) srv.surjective srv.update_convs(1))
    then show ?thesis unfolding qms_get_def tk a'(1) using None sv a'(2) by (simp add: served_def)
  next
    case (Some x)
    obtain val y where x: "x = (val, y)" by (cases x)
    have lt: "length (''/get?key='' @ k) \<le> 1024" using tg(4) by simp
    obtain a' where a': "exo_request (wire_net c (\<lambda>_. healthy t) segs segs') e ''GET'' (''/get?key='' @ k) [] False a = (Inr (200, val), a')"
        "sim t (a_main a') m" "a' = a\<lparr>a_main := a_main a'\<rparr>"
      using get_served [where v = val and x = y and e = e and c = c, OF _ _ _ _ tg(3) lt tg(1,2) k2 sv(4) s(2,3) _ _ sv(5,2,3)] v Some x sv(1) sim_value_len [OF sv(4) s(2) Some]
      unfolding exo_ok_def by auto
    have "a_proj a' = None" using a'(3) sv(5) by (metis srv.simps(2) srv.surjective srv.update_convs(1))
    then show ?thesis unfolding qms_get_def tk a'(1) using Some x sv a'(2) by (simp add: served_def)
  qed
qed

interpretation wire: exomind_link "\<lambda>t. wire_net c (\<lambda>_. healthy t) segs segs'" e "served e segs segs'" for c segs segs' e
proof (unfold_locales, goal_cases)
  case (1 t0 w m t k v)
  then have sv: "exo_ok e" "segmentation segs" "segmentation segs'" "sim t0 (a_main w) m" "a_proj w = None"
    by (simp_all add: served_def)
  obtain a' where a': "client_persist (wire_net c (\<lambda>_. healthy t) segs segs') e k v 0 w = (None, a')"
      "sim t (a_main a') (m(k \<mapsto> (v, t, 0)))" "a' = w\<lparr>a_main := a_main a'\<rparr>"
    using persist_text [OF sv(1) 1(4-7) _ _ sv(4) 1(2,3) sv(5,2,3), of 0 c] by auto
  have "a_proj a' = None" using a'(3) sv(5) by (metis srv.simps(2) srv.surjective srv.update_convs(1))
  then show ?case unfolding qms_persist_text [OF 1(5)] using a' sv by (auto simp: served_def)
next
  case (2 t0 w m t k)
  then show ?case by (intro qms_get_served)
next
  case (3 t0 w m t p)
  then have sv: "exo_ok e" "segmentation segs" "segmentation segs'" "sim t0 (a_main w) m" "a_proj w = None"
    by (simp_all add: served_def)
  obtain ks a' where a': "client_list (wire_net c (\<lambda>_. healthy t) segs segs') e p w = (Inr ks, a')" "distinct ks"
      "set ks = {k. in_family p k \<and> live_at t (m k) \<noteq> None}" "sim t (a_main a') m" "a' = w\<lparr>a_main := a_main a'\<rparr>"
    using list_served [OF sv(1) 3(4,5) sv(4) 3(2) 3(6,7) [unfolded in_family_def] sv(5,2,3), of c] unfolding in_family_def by auto
  have "a_proj a' = None" using a'(5) sv(5) by (metis srv.simps(2) srv.surjective srv.update_convs(1))
  then show ?case using a' sv by (auto simp: served_def)
next
  case (4 t0 w m t b)
  then have sv: "exo_ok e" "segmentation segs" "segmentation segs'" "sim t0 (a_main w) m" "a_proj w = None"
    by (simp_all add: served_def)
  have l: "length ''note:'' = 5" by simp
  show ?case
    using note_served [OF sv(1) 4(4,5) sv(4) 4(2,3) sv(5,2,3), of c] sv unfolding served_def in_family_def l by blast
qed

end
