(* ===== verification/Exo_Qms_Props.thy ===== *)
theory Exo_Qms_Props
  imports Exo_Link
begin

text \<open>
  What exoqms keeps: the lifecycle of a non-conformity, the history of a detected issue, the records
  of exomind and the registry they are reloaded into.
\<close>

subsection \<open>The lifecycle of a non-conformity\<close>

type_synonym nc_request = "string \<times> string \<times> int"

text \<open>A run of requests on one record: a refused request leaves it alone.\<close>

fun nc_run :: "nc \<Rightarrow> nc_request list \<Rightarrow> nc" where
  "nc_run c [] = c"
| "nc_run c ((act, body, now) # rs) =
     (case nc_apply c act body now of Inl _ \<Rightarrow> nc_run c rs | Inr n \<Rightarrow> nc_run n rs)"

fun nc_accepted :: "nc \<Rightarrow> nc_request list \<Rightarrow> string list" where
  "nc_accepted c [] = []"
| "nc_accepted c ((act, body, now) # rs) =
     (case nc_apply c act body now of Inl _ \<Rightarrow> nc_accepted c rs | Inr n \<Rightarrow> act # nc_accepted n rs)"

text \<open>The actions a status stands for.\<close>

definition nc_path :: "string \<Rightarrow> string list" where
  "nc_path s = (if s = ''open'' then [] else if s = ''analysis'' then [''analyse'']
     else if s = ''corrective'' then [''analyse'', ''correct''] else [''analyse'', ''correct'', ''verify''])"

definition nc_history :: "string list \<Rightarrow> nc \<Rightarrow> bool" where
  "nc_history path c \<longleftrightarrow>
     n_status c \<in> {''open'', ''analysis'', ''corrective'', ''verify'', ''closed''} \<and>
     (n_status c \<noteq> ''closed'' \<longrightarrow> path = nc_path (n_status c) \<and> n_closed_by c = []) \<and>
     (n_status c = ''closed'' \<longrightarrow>
        n_closed_by c \<noteq> [] \<and> ''close'' \<in> set path \<and>
        (take 4 path = [''analyse'', ''correct'', ''verify'', ''close''] \<or> n_caction c \<noteq> [] \<and> n_evidence c \<noteq> []))"

lemma nc_history_new: "nc_history [] (new_nc i title desc sev source now)"
  by (simp add: nc_history_def nc_path_def new_nc_def)

lemma nc_apply_cases:
  assumes "nc_apply c act body now = Inr n"
  obtains (analyse) "act = ''analyse''" "n_status c = ''open''" "n = c\<lparr>n_status := ''analysis''\<rparr>"
  | (correct) "act = ''correct''" "n_status c = ''analysis''" "n = c\<lparr>n_status := ''corrective''\<rparr>"
  | (verify) "act = ''verify''" "n_status c = ''corrective''" "n = c\<lparr>n_status := ''verify''\<rparr>"
  | (close) ca ev who ctm where "act = ''close''" "n_status c = ''verify'' \<or> ca \<noteq> [] \<and> ev \<noteq> []" "who \<noteq> []"
      "n = c\<lparr>n_status := ''closed'', n_caction := (if ca \<noteq> [] then ca else n_caction c),
        n_evidence := (if ev \<noteq> [] then ev else n_evidence c), n_closed := ctm, n_closed_by := who\<rparr>"
        "ca = field (tab_split body 8) 0" "ev = field (tab_split body 8) 1"
        "who = (if field (tab_split body 8) 3 \<noteq> [] then field (tab_split body 8) 3 else ''api'')"
        "ctm = (if now \<noteq> 0 then now else n_closed c)"
proof -
  have "act = ''analyse'' \<or> act = ''correct'' \<or> act = ''verify'' \<or> act = ''close''"
    using assms by (simp add: nc_apply_def Let_def split: if_split_asm)
  then consider "act = ''analyse''" | "act = ''correct''" | "act = ''verify''" | (cl) "act = ''close''" by blast
  then show thesis
  proof cases
    case cl
    have c: "n_status c = ''verify'' \<or> field (tab_split body 8) 0 \<noteq> [] \<and> field (tab_split body 8) 1 \<noteq> []"
      using assms cl by (simp add: nc_apply_def Let_def split: if_split_asm)
    then show ?thesis
      using assms cl
      by (intro close [OF cl c, of "if field (tab_split body 8) 3 \<noteq> [] then field (tab_split body 8) 3 else ''api''" "if now \<noteq> 0 then now else n_closed c"])
        (simp_all add: nc_apply_def Let_def split: if_split_asm)
  qed (use assms that(1-3) in \<open>simp_all add: nc_apply_def Let_def split: if_split_asm\<close>)
qed

lemma nc_apply_history:
  assumes "nc_history path c" "nc_apply c act body now = Inr n"
  shows "nc_history (path @ [act]) n"
  using assms(2)
proof (cases rule: nc_apply_cases)
  case (close ca ev who ctm)

  show ?thesis
  proof (cases "n_status c = ''verify''")
    case True
    then have "path = [''analyse'', ''correct'', ''verify'']" using assms(1) by (simp add: nc_history_def nc_path_def)
    then show ?thesis using close by (simp add: nc_history_def)
  next
    case False
    then show ?thesis using close by (simp add: nc_history_def)
  qed
qed (use assms(1) in \<open>simp_all add: nc_history_def nc_path_def\<close>)

lemma nc_run_history: "nc_history path c \<Longrightarrow> nc_history (path @ nc_accepted c rs) (nc_run c rs)"
proof (induction rs arbitrary: path c)
  case (Cons r rs)
  obtain act body now where r: "r = (act, body, now)" by (rule prod_cases3)
  show ?case
  proof (cases "nc_apply c act body now")
    case (Inr n)
    then show ?thesis using Cons.IH [OF nc_apply_history [OF Cons.prems Inr]] by (simp add: r)
  qed (use Cons r in simp)
qed simp

text \<open>The fields that no request changes.\<close>

lemma nc_apply_keeps:
  "nc_apply c act body now = Inr n \<Longrightarrow>
    n_id n = n_id c \<and> n_title n = n_title c \<and> n_desc n = n_desc c \<and> n_sev n = n_sev c \<and> n_source n = n_source c \<and>
    n_detected n = n_detected c"
  by (auto simp: nc_apply_def Let_def split: if_split_asm)

lemma nc_commit_apply: "nc_apply c act body now = Inr n \<Longrightarrow> nc_commit n c = n"
  using nc_apply_keeps [of c act body now n] by (cases c; cases n) (simp add: nc_commit_def)

subsection \<open>The history of an issue\<close>

text \<open>A detection: whether it failed, its evidence, its time.\<close>

type_synonym detection = "bool \<times> string \<times> int"

definition issue_run :: "issue \<Rightarrow> detection list \<Rightarrow> issue" where
  "issue_run s ds = foldl (\<lambda>s (f, ev, now). issue_step s f ev now) s ds"

text \<open>How often a failing detection follows a passing one.\<close>

fun reopenings :: "bool list \<Rightarrow> nat" where
  "reopenings (a # b # r) = (if \<not> a \<and> b then 1 else 0) + reopenings (b # r)"
| "reopenings _ = 0"

lemma reopenings_snoc: "xs \<noteq> [] \<Longrightarrow> reopenings (xs @ [b]) = reopenings xs + (if \<not> last xs \<and> b then 1 else 0)"
  by (induction xs rule: reopenings.induct) auto

definition shown_evidence :: "string \<Rightarrow> string" where
  "shown_evidence ev = fit 240 (if esc_line ev \<noteq> [] then esc_line ev else ''(no evidence)'')"

definition issue_of :: "int \<Rightarrow> detection list \<Rightarrow> issue" where
  "issue_of first ds =
     (let fs = map fst ds
      in \<lparr>i_status = (if last fs then ''open'' else ''closed''), i_fails = int (length (filter id fs)),
          i_consec = int (length (takeWhile id (rev fs))), i_first = first, i_last = snd (snd (last ds)),
          i_reopens = int (reopenings fs), i_evidence = shown_evidence (fst (snd (last ds)))\<rparr>)"

lemma issue_of_first: "issue_step (no_issue first) True ev now = issue_of first [(True, ev, now)]"
  by (simp add: issue_of_def issue_step_def no_issue_def shown_evidence_def Let_def)

lemma issue_of_step:
  assumes "ds \<noteq> []"
  shows "issue_step (issue_of first ds) f ev now = issue_of first (ds @ [(f, ev, now)])"
proof -
  obtain ds' f' e' n' where ds: "ds = ds' @ [(f', e', n')]"
    using assms by (metis prod_cases3 rev_exhaust)
  have "reopenings (map fst (ds' @ [(f', e', n'), (f, ev, now)])) =
      reopenings (map fst ds' @ [f']) + (if \<not> f' \<and> f then 1 else 0)"
    using reopenings_snoc [of "map fst ds' @ [f']" f] by simp
  then show ?thesis
    unfolding ds by (cases f; cases f') (auto simp: issue_of_def issue_step_def shown_evidence_def Let_def)
qed

lemma issue_run_history:
  "ds \<noteq> [] \<Longrightarrow> fst (hd ds) \<Longrightarrow> issue_run (no_issue first) ds = issue_of first ds"
proof (induction ds rule: rev_induct)
  case (snoc d ds)
  obtain f ev now where d: "d = (f, ev, now)" by (rule prod_cases3)
  show ?case
  proof (cases "ds = []")
    case True
    then show ?thesis using snoc.prems d issue_of_first by (simp add: issue_run_def)
  next
    case False
    then show ?thesis using snoc issue_of_step [OF False] d by (simp add: issue_run_def)
  qed
qed simp

text \<open>The record survives its line of columns.\<close>

definition issue_ok :: "issue \<Rightarrow> bool" where
  "issue_ok s \<longleftrightarrow> i_status s \<in> {''open'', ''closed''} \<and> LLONG_MIN \<le> i_fails s \<and> i_fails s \<le> LLONG_MAX \<and>
     LLONG_MIN \<le> i_consec s \<and> i_consec s \<le> LLONG_MAX \<and> LLONG_MIN \<le> i_first s \<and> i_first s \<le> LLONG_MAX \<and>
     LLONG_MIN \<le> i_last s \<and> i_last s \<le> LLONG_MAX \<and> LLONG_MIN \<le> i_reopens s \<and> i_reopens s \<le> LLONG_MAX \<and>
     i_evidence s \<noteq> [] \<and> length (i_evidence s) \<le> 239 \<and> tab \<notin> set (i_evidence s) \<and> nul \<notin> set (i_evidence s) \<and>
     utf8_text (i_evidence s)"

definition issue_cols :: "issue \<Rightarrow> string list" where
  "issue_cols s = [i_status s, show_int (i_fails s), show_int (i_consec s), show_int (i_first s), show_int (i_last s),
     show_int (i_reopens s), i_evidence s]"

lemma show_int_len64: "LLONG_MIN \<le> i \<Longrightarrow> i \<le> LLONG_MAX \<Longrightarrow> length (show_int i) \<le> 20"
  using show_int_len [of i 19] by (simp add: LLONG_MIN_def LLONG_MAX_def)

lemma show_int_no: "\<not> isdigit c \<Longrightarrow> c \<noteq> CHR ''-'' \<Longrightarrow> c \<notin> set (show_int i)"
  using show_int_chars by blast

lemma strtoll_int: "LLONG_MIN \<le> i \<Longrightarrow> i \<le> LLONG_MAX \<Longrightarrow> strtoll (show_int i) = (i, [])"
  using strtoll_show_int [of i "[]"] by simp

lemma strtok_all_join:
  "\<forall>w \<in> set ws. w \<noteq> [] \<and> c \<notin> set w \<Longrightarrow> strtok_all (\<lambda>x. x = c) (join_with c ws) = ws"
proof (induction c ws rule: join_with.induct)
  case (2 c w)
  then obtain a r where w: "w = a # r" by (cases w) auto
  have tw: "takeWhile (\<lambda>x. \<not> x = c) r = r" "dropWhile (\<lambda>x. \<not> x = c) r = []"
    using 2 w by (auto simp: takeWhile_eq_all_conv dropWhile_eq_Nil_conv)
  have "a \<noteq> c" using 2 w by auto
  then show ?case unfolding join_with.simps by (subst strtok_all.simps) (simp add: w tw del: dropWhile_eq_Nil_conv)
next
  case (3 c w v ws)
  then have "\<forall>x \<in> set w. x \<noteq> c" by auto
  then show ?case using 3 strtok_all_line [of w c "join_with c (v # ws)"] by simp
qed simp

lemma issue_value_cols:
  assumes "issue_ok s" shows "issue_value s = join_with tab (issue_cols s)" "length (issue_value s) \<le> 400"
proof -
  have "length (i_status s) \<le> 6" using assms by (auto simp: issue_ok_def)
  moreover have "length (show_int (i_fails s)) \<le> 20" "length (show_int (i_consec s)) \<le> 20" "length (show_int (i_first s)) \<le> 20"
    "length (show_int (i_last s)) \<le> 20" "length (show_int (i_reopens s)) \<le> 20" "length (i_evidence s) \<le> 239"
    using assms by (simp_all add: issue_ok_def show_int_len64)
  ultimately have l: "length (join_with tab (issue_cols s)) \<le> 400" by (simp add: issue_cols_def)
  then show "issue_value s = join_with tab (issue_cols s)"
    by (simp add: issue_value_def issue_cols_def fit_def join_tabs_def)
  then show "length (issue_value s) \<le> 400" using l by simp
qed

lemma issue_roundtrip:
  assumes "issue_ok s" shows "issue_read now (issue_value s) = s"
proof -
  have "tab \<notin> set (show_int i)" for i by (rule show_int_no) (simp_all add: isdigit_def less_eq_char_def)
  then have "\<forall>w \<in> set (issue_cols s). w \<noteq> [] \<and> tab \<notin> set w"
    using assms show_int_nonempty by (auto simp: issue_cols_def issue_ok_def)
  then have c: "strtok_all (\<lambda>c. c = tab) (issue_value s) = issue_cols s"
    unfolding issue_value_cols [OF assms] by (rule strtok_all_join)
  obtain cs where cs: "cs = issue_cols s" by simp
  have n: "cs ! 1 = show_int (i_fails s)" "cs ! 2 = show_int (i_consec s)" "cs ! 3 = show_int (i_first s)"
    "cs ! 4 = show_int (i_last s)" "cs ! 5 = show_int (i_reopens s)" "cs ! 6 = i_evidence s"
    "cs ! 0 = i_status s" "length cs = 7" "cs \<noteq> []"
    by (simp_all add: cs issue_cols_def)
  show ?thesis
    unfolding issue_read_def c cs [symmetric] Let_def field_def using n assms
    by (cases s) (auto simp: issue_ok_def strtoll_int fit_def)
qed

definition evidence_ok :: "string \<Rightarrow> bool" where
  "evidence_ok ev \<longleftrightarrow> nul \<notin> set ev \<and> utf8_text (shown_evidence ev)"

lemma shown_evidence_ok:
  assumes "evidence_ok ev"
  shows "shown_evidence ev \<noteq> []" "length (shown_evidence ev) \<le> 239" "tab \<notin> set (shown_evidence ev)" "nul \<notin> set (shown_evidence ev)"
proof -
  have t: "set (take n xs) \<subseteq> set xs" for n and xs :: string by (rule set_take_subset)
  show "shown_evidence ev \<noteq> []" "length (shown_evidence ev) \<le> 239"
    by (simp_all add: shown_evidence_def fit_def)
  show "tab \<notin> set (shown_evidence ev)"
    using t [of 239 "esc_line ev"] esc_line_safe [of tab ev] by (auto simp: shown_evidence_def fit_def)
  show "nul \<notin> set (shown_evidence ev)"
    using t [of 239 "esc_line ev"] esc_line_nul [of ev] assms by (auto simp: shown_evidence_def fit_def evidence_ok_def)
qed

lemma reopenings_le: "reopenings xs \<le> length xs"
  by (induction xs rule: reopenings.induct) auto

definition detection_ok :: "detection \<Rightarrow> bool" where
  "detection_ok d \<longleftrightarrow> evidence_ok (fst (snd d)) \<and> int64 (snd (snd d))"

lemma issue_of_ok:
  assumes "ds \<noteq> []" "\<forall>d \<in> set ds. detection_ok d" "int64 first" "int (length ds) \<le> LLONG_MAX"
  shows "issue_ok (issue_of first ds)"
proof -
  have "last ds \<in> set ds" using assms(1) by simp
  then have l: "evidence_ok (fst (snd (last ds)))" "int64 (snd (snd (last ds)))" using assms(2) by (auto simp: detection_ok_def)
  have "length (filter id (map fst ds)) \<le> length ds" "length (takeWhile id (rev (map fst ds))) \<le> length ds"
    using length_filter_le [of id "map fst ds"] length_takeWhile_le [of id "rev (map fst ds)"] by simp_all
  moreover have "reopenings (map fst ds) \<le> length ds" using reopenings_le [of "map fst ds"] by simp
  moreover have "LLONG_MIN \<le> 0" by (simp add: LLONG_MIN_def)
  ultimately have "int (length (filter id (map fst ds))) \<le> LLONG_MAX" "int (length (takeWhile id (rev (map fst ds)))) \<le> LLONG_MAX"
    "int (reopenings (map fst ds)) \<le> LLONG_MAX" "\<And>n. LLONG_MIN \<le> int n"
    using assms(4) by linarith+
  moreover have "\<And>i. int64 i \<Longrightarrow> LLONG_MIN \<le> i \<and> i \<le> LLONG_MAX" by (simp add: int64_def LLONG_MIN_def LLONG_MAX_def)
  ultimately show ?thesis
    using l shown_evidence_ok [OF l(1)] assms(3) by (auto simp: issue_ok_def issue_of_def evidence_ok_def Let_def)
qed

subsection \<open>Detections over the wire\<close>

text \<open>One after the other, each with the time of exomind, the clock of exoqms and its result.\<close>

fun detect_all :: "(int \<Rightarrow> 'w net) \<Rightarrow> exo \<Rightarrow> string \<Rightarrow> (int \<times> detection) list \<Rightarrow> 'w \<Rightarrow> 'w" where
  "detect_all net e check [] w = w"
| "detect_all net e check ((t, f, ev, now) # ds) w =
     detect_all net e check ds (snd (issue_register (net t) e (\<lambda>_. now) check f ev w))"

text \<open>What the detections leave in exomind: nothing before the first failure.\<close>

definition issue_entry :: "detection list \<Rightarrow> issue option" where
  "issue_entry ds = (case dropWhile (\<lambda>d. \<not> fst d) ds of [] \<Rightarrow> None | d # r \<Rightarrow> Some (issue_of (snd (snd d)) (d # r)))"

definition entry_at :: "smap \<Rightarrow> string \<Rightarrow> issue option \<Rightarrow> bool" where
  "entry_at m k s \<longleftrightarrow> (case s of None \<Rightarrow> m k = None | Some s \<Rightarrow> \<exists>t. m k = Some (issue_value s, t, 0))"

lemma issue_entry_snoc:
  "issue_entry (ds @ [(f, ev, now)]) =
     (case issue_entry ds of None \<Rightarrow> (if f then Some (issue_step (no_issue now) True ev now) else None)
      | Some s \<Rightarrow> Some (issue_step s f ev now))"
proof (cases "dropWhile (\<lambda>d. \<not> fst d) ds")
  case Nil
  then have "\<forall>d \<in> set ds. \<not> fst d" by (simp add: dropWhile_eq_Nil_conv)
  moreover have "issue_entry ds = None" unfolding issue_entry_def Nil by simp
  ultimately show ?thesis by (simp add: issue_of_first) (simp add: issue_entry_def dropWhile_append)
next
  case (Cons d r)
  then have "dropWhile (\<lambda>d. \<not> fst d) (ds @ [(f, ev, now)]) = d # r @ [(f, ev, now)]"
    using dropWhile_eq_Nil_conv [of "\<lambda>d. \<not> fst d" ds] by (simp add: dropWhile_append)
  then show ?thesis using Cons issue_of_step [of "d # r" "snd (snd d)" f ev now] by (simp add: issue_entry_def)
qed

lemma issue_entry_ok:
  assumes "issue_entry ds = Some s" "\<forall>d \<in> set ds. detection_ok d" "int (length ds) \<le> LLONG_MAX"
  shows "issue_ok s"
proof -
  obtain d r where d: "dropWhile (\<lambda>d. \<not> fst d) ds = d # r" "s = issue_of (snd (snd d)) (d # r)"
    using assms(1) by (auto simp: issue_entry_def split: list.split_asm)
  have sub: "set (d # r) \<subseteq> set ds" "length (d # r) \<le> length ds"
    using set_dropWhileD [of _ "\<lambda>d. \<not> fst d" ds] length_dropWhile_le [of "\<lambda>d. \<not> fst d" ds] d(1) by auto
  moreover have "int64 (snd (snd d))" using sub(1) assms(2) by (auto simp: detection_ok_def)
  ultimately show ?thesis unfolding d(2) using assms(2,3) by (intro issue_of_ok) auto
qed

lemma issue_value_text:
  assumes "issue_ok s" shows "utf8_text (issue_value s)" "nul \<notin> set (issue_value s)"
proof -
  have n: "nul \<notin> set (show_int i)" "utf8_text (show_int i)" for i
    by (rule show_int_no, simp_all add: isdigit_def less_eq_char_def utf8_text_show_int)
  have t: "utf8_text (tab # s)" if "utf8_text s" for s
    using utf8_text_append [OF utf8_text_char [of tab], of s] that by simp
  have st: "utf8_text (i_status s)" "nul \<notin> set (i_status s)" using assms by (auto simp: issue_ok_def intro!: utf8_text_ascii)
  show "nul \<notin> set (issue_value s)"
    unfolding issue_value_cols(1) [OF assms] using assms n st by (simp add: issue_cols_def issue_ok_def)
  show "utf8_text (issue_value s)"
    unfolding issue_value_cols(1) [OF assms] using assms n st by (simp add: issue_cols_def issue_ok_def utf8_text_append t)
qed

context exomind_link
begin

lemma register_served:
  assumes w: "serves t0 w m" "t0 \<le> t" "int64 t" and k: "raw_key (issue_key check)"
    and ds: "entry_at m (issue_key check) (issue_entry ds)" "\<forall>d \<in> set (ds @ [(f, ev, now)]). detection_ok d"
    "int (length (ds @ [(f, ev, now)])) \<le> LLONG_MAX"
  shows "\<exists>w' m'. issue_register (net t) e (\<lambda>_. now) check f ev w = (None, w') \<and> serves t w' m' \<and>
    entry_at m' (issue_key check) (issue_entry (ds @ [(f, ev, now)])) \<and> (\<forall>j. j \<noteq> issue_key check \<longrightarrow> m' j = m j)"
proof -
  let ?k = "issue_key check"
  have ok: "issue_ok s" if "issue_entry ds = Some s" for s
    using issue_entry_ok [OF that] ds(2,3) by simp
  have ok': "issue_ok s" if "issue_entry (ds @ [(f, ev, now)]) = Some s" for s
    using issue_entry_ok [OF that ds(2,3)] .
  have kw: "key_word ?k" using k by (simp add: raw_key_def)
  have put: "\<exists>w'. qms_persist (net t) e ?k (issue_value s) v = (None, w') \<and> serves t w' (m(?k \<mapsto> (issue_value s, t, 0)))"
    if "serves t v m" "issue_ok s" for v s
    using issue_value_cols(2) [OF that(2)] issue_value_text [OF that(2)]
    by (intro persist [OF that(1) order_refl w(3) kw]) simp_all
  show ?thesis
  proof (cases "issue_entry ds")
    case None
    then have n: "m ?k = None" using ds(1) by (simp add: entry_at_def)
    obtain w1 where g: "qms_get (net t) e ?k w = (Inr None, w1)" "serves t w1 m"
      using get [OF w k] n by (auto simp: live_at_def)
    show ?thesis
    proof (cases f)
      case False
      then show ?thesis
        using None n g by (intro exI [of _ w1] exI [of _ m]) (simp add: issue_register_def issue_entry_snoc entry_at_def)
    next
      case True
      have s: "issue_entry (ds @ [(f, ev, now)]) = Some (issue_step (no_issue now) True ev now)"
        using True None by (simp add: issue_entry_snoc)
      obtain w' where w': "qms_persist (net t) e ?k (issue_value (issue_step (no_issue now) True ev now)) w1 = (None, w')"
          "serves t w' (m(?k \<mapsto> (issue_value (issue_step (no_issue now) True ev now), t, 0)))"
        using put [OF g(2) ok' [OF s]] by blast
      then show ?thesis unfolding s using True g(1) by (auto simp: issue_register_def entry_at_def Let_def)
    qed
  next
    case (Some s)
    then obtain ts where n: "m ?k = Some (issue_value s, ts, 0)" using ds(1) by (auto simp: entry_at_def)
    have cs: "cstr (issue_value s) = issue_value s" using issue_value_text(2) [OF ok [OF Some]] by (rule cstr_id)
    obtain w1 where g: "qms_get (net t) e ?k w = (Inr (Some (issue_value s)), w1)" "serves t w1 m"
      using get [OF w k] n cs by (auto simp: live_at_def)
    have s: "issue_entry (ds @ [(f, ev, now)]) = Some (issue_step s f ev now)"
      using Some by (simp add: issue_entry_snoc)
    obtain w' where w': "qms_persist (net t) e ?k (issue_value (issue_step s f ev now)) w1 = (None, w')"
        "serves t w' (m(?k \<mapsto> (issue_value (issue_step s f ev now), t, 0)))"
      using put [OF g(2) ok' [OF s]] by blast
    then show ?thesis
      unfolding s using g(1) issue_roundtrip [OF ok [OF Some]] by (auto simp: issue_register_def entry_at_def Let_def)
  qed
qed

lemma detections_served:
  assumes "serves t0 w m" "raw_key (issue_key check)" "entry_at m (issue_key check) (issue_entry ds0)"
    and "\<forall>d \<in> set (ds0 @ map snd ds). detection_ok d" "int (length (ds0 @ map snd ds)) \<le> LLONG_MAX"
    and "sorted (t0 # map fst ds)" "\<forall>d \<in> set ds. int64 (fst d)"
  shows "\<exists>m' t'. serves t' (detect_all net e check ds w) m' \<and> entry_at m' (issue_key check) (issue_entry (ds0 @ map snd ds)) \<and>
    (\<forall>j. j \<noteq> issue_key check \<longrightarrow> m' j = m j)"
  using assms
proof (induction ds arbitrary: t0 w m ds0)
  case (Cons d ds)
  obtain t f ev now where d: "d = (t, f, ev, now)" by (rule prod_cases4)
  have t: "t0 \<le> t" "int64 t" "sorted (t # map fst ds)" using Cons.prems(6,7) by (auto simp: d)
  have l: "int (length (ds0 @ [(f, ev, now)])) \<le> LLONG_MAX" using Cons.prems(5) by (simp add: d)
  obtain w' m' where w': "issue_register (net t) e (\<lambda>_. now) check f ev w = (None, w')" "serves t w' m'"
      "entry_at m' (issue_key check) (issue_entry (ds0 @ [(f, ev, now)]))" "\<forall>j. j \<noteq> issue_key check \<longrightarrow> m' j = m j"
    using register_served [OF Cons.prems(1) t(1,2) Cons.prems(2,3) _ l] Cons.prems(4) by (auto simp: d)
  have "\<forall>d \<in> set ((ds0 @ [(f, ev, now)]) @ map snd ds). detection_ok d"
    "int (length ((ds0 @ [(f, ev, now)]) @ map snd ds)) \<le> LLONG_MAX" "\<forall>d \<in> set ds. int64 (fst d)"
    using Cons.prems(4,5,7) by (simp_all add: d)
  from Cons.IH [OF w'(2) Cons.prems(2) w'(3) this(1,2) t(3) this(3)]
  obtain m'' t' where "serves t' (detect_all net e check ds w') m''"
      "entry_at m'' (issue_key check) (issue_entry ((ds0 @ [(f, ev, now)]) @ map snd ds))"
      "\<forall>j. j \<noteq> issue_key check \<longrightarrow> m'' j = m' j"
    by blast
  then show ?case using w'(1,4) d by (intro exI [of _ m''] exI [of _ t']) simp
qed auto

end

end
