(* ===== verification/Exo_Qms_Registry.thy ===== *)
theory Exo_Qms_Registry
  imports Exo_Qms_Props
begin

text \<open>
  The registries of exoqms and their records in exomind: a record read back is the record written, every
  operation writes exomind before it changes the registry, and a restart reads the registry back.
\<close>

subsection \<open>Records\<close>

definition clean_text :: "string \<Rightarrow> bool" where
  "clean_text s \<longleftrightarrow> utf8_text s \<and> tab \<notin> set s \<and> bslash \<notin> set s \<and> nul \<notin> set s"

text \<open>Identifiers as \<open>make_id\<close> builds them.\<close>

definition id_char :: "char \<Rightarrow> bool" where
  "id_char c \<longleftrightarrow> c \<in> set ''0123456789abcdef:-''"

definition id_ok :: "string \<Rightarrow> bool" where
  "id_ok i \<longleftrightarrow> length i \<le> 47 \<and> list_all id_char i"

lemma id_clean: "id_ok i \<Longrightarrow> clean_text i"
proof -
  assume "id_ok i"
  then have c: "\<forall>c \<in> set i. id_char c" by (simp add: id_ok_def list_all_iff)
  have "(of_char c :: nat) < 128 \<and> c \<noteq> tab \<and> c \<noteq> bslash \<and> c \<noteq> nul" if "id_char c" for c
    using that by (auto simp: id_char_def)
  then show ?thesis using c by (auto simp: clean_text_def intro: utf8_text_ascii)
qed

lemma isdigit_chars: "isdigit c \<Longrightarrow> c \<in> set ''0123456789''"
proof -
  assume "isdigit c"
  then have "(of_char c :: nat) \<in> {48 ..< 58}" by (simp add: isdigit_def less_eq_char_def)
  then have "c \<in> char_of ` {48 ..< 58 :: nat}" by (metis char_of_char image_eqI)
  moreover have "map char_of [48 ..< 58 :: nat] = ''0123456789''" by code_simp
  then have "char_of ` {48 ..< 58 :: nat} = set ''0123456789''" by (metis set_map set_upt)
  ultimately show ?thesis by (simp only:)
qed

lemma show_int_id: "list_all id_char (show_int i)"
proof -
  have "id_char c" if "isdigit c" for c using isdigit_chars [OF that] by (auto simp: id_char_def)
  moreover have "id_char (CHR ''-'')" by (simp add: id_char_def)
  ultimately show ?thesis using show_int_chars unfolding list_all_iff by blast
qed

definition int_ok :: "int \<Rightarrow> bool" where
  "int_ok i \<longleftrightarrow> LLONG_MIN \<le> i \<and> i \<le> LLONG_MAX"

definition text_ok :: "nat \<Rightarrow> string \<Rightarrow> bool" where
  "text_ok n s \<longleftrightarrow> clean_text s \<and> length s \<le> n"

definition obj_ok :: "obj \<Rightarrow> bool" where
  "obj_ok x \<longleftrightarrow> id_ok (o_id x) \<and> text_ok 65535 (o_desc x) \<and> text_ok 65535 (o_metric x) \<and> text_ok 65535 (o_target x) \<and>
     text_ok 65535 (o_period x) \<and> o_period x \<noteq> [] \<and> int_ok (o_created x)"

definition nc_ok :: "nc \<Rightarrow> bool" where
  "nc_ok c \<longleftrightarrow> id_ok (n_id c) \<and> text_ok 1023 (n_title c) \<and> text_ok 65535 (n_desc c) \<and> text_ok 7 (n_sev c) \<and>
     text_ok 1023 (n_source c) \<and> int_ok (n_detected c) \<and> text_ok 15 (n_status c) \<and> n_status c \<noteq> [] \<and>
     text_ok 65535 (n_caction c) \<and> text_ok 65535 (n_evidence c) \<and> int_ok (n_closed c) \<and> text_ok 65535 (n_closed_by c)"

definition audit_ok :: "audit \<Rightarrow> bool" where
  "audit_ok a \<longleftrightarrow> id_ok (a_id a) \<and> text_ok 65535 (a_name a) \<and> text_ok 65535 (a_criteria a) \<and> int_ok (a_sched a) \<and>
     a_status a = ''done'' \<and> - (2 ^ 31) \<le> a_score a \<and> a_score a < 2 ^ 31 \<and>
     utf8_text (a_findings a) \<and> nul \<notin> set (a_findings a) \<and> length (a_findings a) \<le> 65535"

lemma unesc_clean: "bslash \<notin> set s \<Longrightarrow> unesc_line s = s"
  by (induction s rule: unesc_line.induct) auto

lemma join_clean:
  assumes "\<forall>f \<in> set fs. clean_text f"
  shows "utf8_text (join_with tab fs)" "nul \<notin> set (join_with tab fs)" "bslash \<notin> set (join_with tab fs)"
    "fs \<noteq> [] \<Longrightarrow> split_on tab (join_with tab fs) = fs"
proof -
  have t: "utf8_text (tab # s)" if "utf8_text s" for s
    using utf8_text_append [OF utf8_text_char [of tab], of s] that by simp
  show "utf8_text (join_with tab fs)" "nul \<notin> set (join_with tab fs)" "bslash \<notin> set (join_with tab fs)"
    using assms by (induction tab fs rule: join_with.induct) (auto simp: clean_text_def utf8_text_Nil intro: utf8_text_append t)
  show "fs \<noteq> [] \<Longrightarrow> split_on tab (join_with tab fs) = fs"
    using assms by (intro split_on_join) (auto simp: clean_text_def)
qed

lemma int_clean: "clean_text (show_int i)"
proof -
  have "(of_char c :: nat) < 128 \<and> c \<noteq> tab \<and> c \<noteq> bslash \<and> c \<noteq> nul" if "id_char c" for c
    using that by (auto simp: id_char_def)
  then show ?thesis using show_int_id [of i] by (auto simp: clean_text_def list_all_iff intro: utf8_text_ascii)
qed

definition obj_cols :: "obj \<Rightarrow> string list" where
  "obj_cols x = [o_id x, o_desc x, o_metric x, o_target x, o_period x, show_int (o_created x)]"

definition nc_cols :: "nc \<Rightarrow> string list" where
  "nc_cols c = [n_id c, n_title c, n_desc c, n_sev c, n_source c, show_int (n_detected c), n_status c, n_caction c,
     n_evidence c, show_int (n_closed c), n_closed_by c]"

lemma cols_clean:
  "obj_ok x \<Longrightarrow> \<forall>f \<in> set (obj_cols x). clean_text f" "nc_ok c \<Longrightarrow> \<forall>f \<in> set (nc_cols c). clean_text f"
  by (simp_all add: obj_cols_def nc_cols_def obj_ok_def nc_ok_def text_ok_def id_clean int_clean)

lemma obj_roundtrip:
  assumes "obj_ok x" shows "obj_parse now (obj_value x) = Some x"
proof -
  note j = join_clean [OF cols_clean(1) [OF assms]]
  have v: "obj_value x = join_with tab (obj_cols x)" by (simp add: obj_value_def obj_cols_def join_tabs_def)
  have f: "tab_split (unesc_line (obj_value x)) 8 = obj_cols x"
    unfolding v unesc_clean [OF j(3)] tab_split_def using j(4) by (simp add: obj_cols_def)
  obtain cs where cs: "cs = obj_cols x" by simp
  have n: "cs ! 0 = o_id x" "cs ! 1 = o_desc x" "cs ! 2 = o_metric x" "cs ! 3 = o_target x" "cs ! 4 = o_period x"
    "cs ! 5 = show_int (o_created x)" "length cs = 6"
    by (simp_all add: cs obj_cols_def)
  show ?thesis
    unfolding obj_parse_def f Let_def cs [symmetric] using n assms
    by (cases x) (simp add: obj_ok_def fit_def QID_MAX_def id_ok_def strtoll_int int_ok_def)
qed

lemma nc_roundtrip:
  assumes "nc_ok c" shows "nc_parse (nc_value c) = Some c"
proof -
  note j = join_clean [OF cols_clean(2) [OF assms]]
  have v: "nc_value c = join_with tab (nc_cols c)" by (simp add: nc_value_def nc_cols_def join_tabs_def)
  have f: "tab_split (unesc_line (nc_value c)) 12 = nc_cols c"
    unfolding v unesc_clean [OF j(3)] tab_split_def using j(4) by (simp add: nc_cols_def)
  obtain cs where cs: "cs = nc_cols c" by simp
  have n: "cs ! 0 = n_id c" "cs ! 1 = n_title c" "cs ! 2 = n_desc c" "cs ! 3 = n_sev c" "cs ! 4 = n_source c"
    "cs ! 5 = show_int (n_detected c)" "cs ! 6 = n_status c" "cs ! 7 = n_caction c" "cs ! 8 = n_evidence c"
    "cs ! 9 = show_int (n_closed c)" "cs ! 10 = n_closed_by c" "length cs = 11"
    by (simp_all add: cs nc_cols_def)
  show ?thesis
    unfolding nc_parse_def f Let_def cs [symmetric] field_def using n assms
    by (cases c) (simp add: nc_ok_def text_ok_def fit_def QID_MAX_def SEV_MAX_def STATUS_MAX_def id_ok_def strtoll_int int_ok_def)
qed

definition audit_cols :: "audit \<Rightarrow> string list" where
  "audit_cols a = [a_id a, a_name a, a_criteria a, show_int (a_sched a), ''done'', show_int (a_score a)]"

lemma atoi_int:
  assumes "- (2 ^ 31) \<le> i" "i < 2 ^ 31" shows "atoi (show_int i) = i"
proof -
  have "strtoll (show_int i) = (i, [])" using assms by (intro strtoll_int) (simp_all add: LLONG_MIN_def LLONG_MAX_def)
  moreover have "sint (word_of_int i :: u32) = i"
    using assms by (simp add: signed_of_int signed_take_bit_int_eq_self)
  ultimately show ?thesis by (simp add: atoi_def)
qed

lemma split_on_join_append:
  "ws \<noteq> [] \<Longrightarrow> \<forall>w \<in> set ws. c \<notin> set w \<Longrightarrow> split_on c (join_with c ws @ c # s) = ws @ split_on c s"
  by (induction c ws rule: join_with.induct) (auto simp: split_on_append)

lemma join_split: "join_with c (split_on c s) = s"
proof (induction s)
  case (Cons a s)
  obtain w ws where w: "split_on c s = w # ws" using split_on_nonempty by (metis list.exhaust)
  then show ?case using Cons by (cases ws) auto
qed simp

lemma audit_roundtrip:
  assumes "audit_ok a" shows "audit_parse (esc_line (audit_value a)) = Some a"
proof -
  obtain cs fs where cs: "cs = audit_cols a" and fs: "fs = split_on tab (a_findings a)" by simp
  have c: "\<forall>f \<in> set cs. tab \<notin> set f"
    using assms id_clean [of "a_id a"] int_clean by (auto simp: cs audit_cols_def audit_ok_def text_ok_def clean_text_def)
  have v: "audit_value a = join_with tab cs @ tab # a_findings a"
    by (simp add: audit_value_def cs audit_cols_def join_tabs_def)
  have l: "length cs = 6" by (simp add: cs audit_cols_def)
  then have "split_on tab (audit_value a) = cs @ fs" unfolding v fs using c by (intro split_on_join_append) auto
  moreover have "length (cs @ fs) > 6" using l by (simp add: fs)
  moreover have "join_tabs fs = a_findings a" by (simp add: join_tabs_def fs join_split)
  ultimately have f: "audit_fields (unesc_line (esc_line (audit_value a))) = (cs, a_findings a)"
    unfolding unesc_esc_line using l by (simp add: audit_fields_def Let_def)
  have n: "cs ! 0 = a_id a" "cs ! 1 = a_name a" "cs ! 2 = a_criteria a" "cs ! 3 = show_int (a_sched a)" "cs ! 4 = ''done''"
    "cs ! 5 = show_int (a_score a)"
    by (simp_all add: cs audit_cols_def)
  show ?thesis
    unfolding audit_parse_def f Let_def prod.case using n l assms
    by (cases a) (simp add: audit_ok_def fit_def QID_MAX_def STATUS_MAX_def id_ok_def strtoll_int int_ok_def atoi_int)
qed

subsection \<open>A registry and its family of keys\<close>

text \<open>The keys of the family are exactly the records, and none expires.\<close>

definition backed :: "smap \<Rightarrow> string \<Rightarrow> ('a \<Rightarrow> string) \<Rightarrow> ('a \<Rightarrow> bytes) \<Rightarrow> 'a list \<Rightarrow> bool" where
  "backed m pre key val rs \<longleftrightarrow> distinct (map key rs) \<and> (\<forall>r \<in> set rs. \<exists>ts. m (pre @ key r) = Some (val r, ts, 0)) \<and>
     (\<forall>k. in_family pre k \<and> m k \<noteq> None \<longrightarrow> (\<exists>r \<in> set rs. k = pre @ key r))"

lemma in_family_append [simp]: "in_family p (p @ k)"
  by (simp add: in_family_def)

lemma backed_live:
  assumes "backed m pre key val rs"
  shows "{k. in_family pre k \<and> live_at t (m k) \<noteq> None} = (\<lambda>r. pre @ key r) ` set rs"
    "r \<in> set rs \<Longrightarrow> \<exists>ts. live_at t (m (pre @ key r)) = Some (val r, ts, 0)"
proof -
  have l: "m k = Some (v, ts, 0) \<Longrightarrow> live_at t (m k) = Some (v, ts, 0)" for k v ts by (simp add: live_at_def)
  have r: "\<exists>ts. live_at t (m (pre @ key r)) = Some (val r, ts, 0)" if r: "r \<in> set rs" for r
    using assms r l unfolding backed_def by blast
  have n: "live_at t (m k) \<noteq> None \<Longrightarrow> m k \<noteq> None" for k by (cases "m k") (auto simp: live_at_def)
  show "{k. in_family pre k \<and> live_at t (m k) \<noteq> None} = (\<lambda>r. pre @ key r) ` set rs"
  proof (intro set_eqI iffI; clarify)
    fix k y assume k: "in_family pre k" "live_at t (m k) = Some y"
    then have "m k \<noteq> None" using n by blast
    then show "k \<in> (\<lambda>r. pre @ key r) ` set rs" using assms k(1) unfolding backed_def by blast
  next
    fix r assume "r \<in> set rs"
    then show "in_family pre (pre @ key r) \<and> live_at t (m (pre @ key r)) \<noteq> None" using r by fastforce
  qed
  show "r \<in> set rs \<Longrightarrow> \<exists>ts. live_at t (m (pre @ key r)) = Some (val r, ts, 0)" by (rule r)
qed

lemma backed_other:
  "backed m pre key val rs \<Longrightarrow> (\<And>k. in_family pre k \<Longrightarrow> m' k = m k) \<Longrightarrow> backed m' pre key val rs"
  unfolding backed_def by (metis in_family_append)

lemma backed_snoc:
  assumes "backed m pre key val rs" "key r \<notin> key ` set rs"
  shows "backed (m(pre @ key r \<mapsto> (val r, t, 0))) pre key val (rs @ [r])"
proof -
  have n: "\<And>x. x \<in> set rs \<Longrightarrow> key x \<noteq> key r" using assms(2) by (metis imageI)
  show ?thesis using assms n unfolding backed_def by (auto 0 3)
qed

lemma backed_update:
  assumes "backed m pre key val (xs @ r # ys)" "key r' = key r"
  shows "backed (m(pre @ key r \<mapsto> (val r', t, 0))) pre key val (xs @ r' # ys)"
proof -
  have "key r \<notin> key ` (set xs \<union> set ys)" using assms(1) unfolding backed_def by auto
  then have n: "\<And>x. x \<in> set xs \<union> set ys \<Longrightarrow> key x \<noteq> key r" by (metis imageI)
  show ?thesis using assms n unfolding backed_def by (auto 0 3)
qed

definition recs_ok :: "string \<Rightarrow> ('a \<Rightarrow> string) \<Rightarrow> ('a \<Rightarrow> bytes) \<Rightarrow> 'a list \<Rightarrow> bool" where
  "recs_ok pre key val rs \<longleftrightarrow> (\<forall>r \<in> set rs. raw_key (pre @ key r) \<and> nul \<notin> set (val r) \<and> length (val r) \<le> 1048576)"

context exomind_link
begin

lemma fetch_served:
  assumes "serves t w m" "int64 t" "\<forall>k \<in> set ks. raw_key k \<and> (\<exists>v ts. live_at t (m k) = Some (v, ts, 0) \<and> f k = v \<and> nul \<notin> set v \<and> length v \<le> 1048576)"
  shows "\<exists>w'. fetch_all (net t) e ks w = (map (\<lambda>k. (k, f k)) ks, w') \<and> serves t w' m"
  using assms
proof (induction ks arbitrary: w)
  case (Cons k ks)
  obtain v ts where v: "live_at t (m k) = Some (v, ts, 0)" "f k = v" "nul \<notin> set v" "length v \<le> 1048576" and k: "raw_key k"
    using Cons.prems(3) by auto
  obtain w1 where w1: "qms_get (net t) e k w = (Inr (Some v), w1)" "serves t w1 m"
    using get [OF Cons.prems(1) order_refl Cons.prems(2) k] v cstr_id [OF v(3)] by auto
  have "\<forall>k \<in> set ks. raw_key k \<and> (\<exists>v ts. live_at t (m k) = Some (v, ts, 0) \<and> f k = v \<and> nul \<notin> set v \<and> length v \<le> 1048576)"
    using Cons.prems(3) by simp
  from Cons.IH [OF w1(2) Cons.prems(2) this] obtain w' where "fetch_all (net t) e ks w1 = (map (\<lambda>k. (k, f k)) ks, w')" "serves t w' m"
    by blast
  then show ?case using w1(1) v(2) by simp
qed simp

lemma family_served:
  assumes w: "serves t0 w m" "t0 \<le> t" "int64 t" and p: "plain_pre pre" "take 2 pre \<noteq> ''p:''"
    and b: "backed m pre key val rs" "recs_ok pre key val rs" "length rs < MAX_QUERY"
  shows "\<exists>ks w1 vs w2. client_list (net t) e pre w = (Inr ks, w1) \<and> fetch_all (net t) e ks w1 = (vs, w2) \<and>
    serves t w2 m \<and> mset (map snd vs) = mset (map val rs)"
proof -
  note bl = backed_live [OF b(1), where t = t]
  have d: "distinct (map (\<lambda>r. pre @ key r) rs)"
    using b(1) unfolding backed_def by (simp add: distinct_map inj_on_def)
  have "card {k. in_family pre k \<and> live_at t (m k) \<noteq> None} \<le> length rs"
    unfolding bl(1) by (metis card_image_le card_length finite_set order_trans)
  then have c: "card {k. in_family pre k \<and> live_at t (m k) \<noteq> None} < MAX_QUERY" using b(3) by simp
  have kw: "key_word k" if "in_family pre k" "live_at t (m k) \<noteq> None" for k
  proof -
    have "k \<in> (\<lambda>r. pre @ key r) ` set rs" using that bl(1) by blast
    then show ?thesis using b(2) by (auto simp: recs_ok_def raw_key_def)
  qed
  obtain ks w1 where ks: "client_list (net t) e pre w = (Inr ks, w1)" "distinct ks" "serves t w1 m"
      "set ks = (\<lambda>r. pre @ key r) ` set rs"
    using list [OF w p c kw] bl(1) by auto
  define f where "f k = (case live_at t (m k) of Some (v, x) \<Rightarrow> v | None \<Rightarrow> [])" for k
  have fv: "f (pre @ key r) = val r" if "r \<in> set rs" for r using bl(2) [OF that] by (auto simp: f_def)
  have "\<forall>k \<in> set ks. raw_key k \<and> (\<exists>v ts. live_at t (m k) = Some (v, ts, 0) \<and> f k = v \<and> nul \<notin> set v \<and> length v \<le> 1048576)"
  proof
    fix k assume "k \<in> set ks"
    then obtain r where r: "r \<in> set rs" "k = pre @ key r" using ks(4) by auto
    obtain ts where "live_at t (m k) = Some (val r, ts, 0)" using bl(2) [OF r(1)] r(2) by auto
    then show "raw_key k \<and> (\<exists>v ts. live_at t (m k) = Some (v, ts, 0) \<and> f k = v \<and> nul \<notin> set v \<and> length v \<le> 1048576)"
      using b(2) r fv [OF r(1)] by (auto simp: recs_ok_def)
  qed
  from fetch_served [OF ks(3) w(3) this] obtain w2 where w2: "fetch_all (net t) e ks w1 = (map (\<lambda>k. (k, f k)) ks, w2)" "serves t w2 m"
    by blast
  have "mset ks = mset (map (\<lambda>r. pre @ key r) rs)"
    using ks(2,4) d by (intro set_eq_iff_mset_eq_distinct [THEN iffD1]) simp_all
  then have "mset (map f ks) = mset (map f (map (\<lambda>r. pre @ key r) rs))" by (metis mset_map)
  also have "map f (map (\<lambda>r. pre @ key r) rs) = map val rs" using fv by simp
  finally have "mset (map snd (map (\<lambda>k. (k, f k)) ks)) = mset (map val rs)" by (simp add: comp_def)
  then show ?thesis using ks(1) w2 by blast
qed

end

subsection \<open>A restart\<close>

text \<open>The clock is read once for the record and once more for the registry: the dates may differ.\<close>

definition obj_undated :: "obj \<Rightarrow> obj" where "obj_undated x = x\<lparr>o_created := 0\<rparr>"
definition nc_undated :: "nc \<Rightarrow> nc" where "nc_undated c = c\<lparr>n_detected := 0\<rparr>"
definition audit_undated :: "audit \<Rightarrow> audit" where "audit_undated a = a\<lparr>a_sched := 0\<rparr>"

definition tracks :: "smap \<Rightarrow> string \<Rightarrow> ('a \<Rightarrow> string) \<Rightarrow> ('a \<Rightarrow> bytes) \<Rightarrow> ('a \<Rightarrow> bool) \<Rightarrow> ('a \<Rightarrow> 'a) \<Rightarrow> 'a list \<Rightarrow> bool" where
  "tracks m pre key val ok und rs \<longleftrightarrow> list_all ok rs \<and>
     (\<exists>sts. backed m pre key val sts \<and> list_all2 (\<lambda>r s. und r = und s) rs sts \<and> list_all ok sts)"

definition audit_line :: "audit \<Rightarrow> bytes" where "audit_line a = esc_line (audit_value a)"

definition qms_backed :: "smap \<Rightarrow> qms \<Rightarrow> bool" where
  "qms_backed m q \<longleftrightarrow> tracks m OBJ_KEY_PREFIX o_id obj_value obj_ok obj_undated (qm_objs q) \<and>
     tracks m NC_KEY_PREFIX n_id nc_value nc_ok nc_undated (qm_ncs q) \<and>
     tracks m AUDIT_KEY_PREFIX a_id audit_line audit_ok audit_undated (qm_audits q)"

lemma raw_key_family:
  assumes "id_ok i" shows "raw_key (OBJ_KEY_PREFIX @ i)" "raw_key (NC_KEY_PREFIX @ i)" "raw_key (AUDIT_KEY_PREFIX @ i)"
proof -
  have c: "\<forall>c \<in> set i. id_char c" and l: "length i \<le> 47" using assms by (simp_all add: id_ok_def list_all_iff)
  define good where "good c \<longleftrightarrow> c \<noteq> CHR '' '' \<and> c \<noteq> cr \<and> c \<noteq> nl \<and> c \<noteq> nul \<and> c \<noteq> quot \<and> c \<noteq> bslash \<and>
    c \<noteq> CHR ''&'' \<and> c \<noteq> CHR ''%'' \<and> c \<noteq> CHR ''+'' \<and> c \<noteq> CHR ''?''" for c
  have "id_char c \<Longrightarrow> good c" for c by (auto simp: id_char_def good_def)
  then have i: "\<forall>c \<in> set i. good c" using c by blast
  have r: "raw_key (p @ i)" if "p \<noteq> []" "length p \<le> 100" "\<forall>c \<in> set p. good c" "take 2 (p @ i) \<noteq> ''p:''" for p
    using that i l by (auto simp: raw_key_def key_word_def good_def)
  have g: "list_all good OBJ_KEY_PREFIX" "list_all good NC_KEY_PREFIX" "list_all good AUDIT_KEY_PREFIX"
    by (simp_all add: OBJ_KEY_PREFIX_def NC_KEY_PREFIX_def AUDIT_KEY_PREFIX_def good_def)
  have n: "OBJ_KEY_PREFIX \<noteq> []" "NC_KEY_PREFIX \<noteq> []" "AUDIT_KEY_PREFIX \<noteq> []" "length OBJ_KEY_PREFIX \<le> 100"
    "length NC_KEY_PREFIX \<le> 100" "length AUDIT_KEY_PREFIX \<le> 100" "take 2 (OBJ_KEY_PREFIX @ i) \<noteq> ''p:''"
    "take 2 (NC_KEY_PREFIX @ i) \<noteq> ''p:''" "take 2 (AUDIT_KEY_PREFIX @ i) \<noteq> ''p:''"
    by (simp_all add: OBJ_KEY_PREFIX_def NC_KEY_PREFIX_def AUDIT_KEY_PREFIX_def)
  show "raw_key (OBJ_KEY_PREFIX @ i)" "raw_key (NC_KEY_PREFIX @ i)" "raw_key (AUDIT_KEY_PREFIX @ i)"
    using r [OF n(1,4) _ n(7)] r [OF n(2,5) _ n(8)] r [OF n(3,6) _ n(9)] g by (simp_all add: list_all_iff)
qed

lemma value_sizes:
  "obj_ok x \<Longrightarrow> utf8_text (obj_value x) \<and> nul \<notin> set (obj_value x) \<and> length (obj_value x) \<le> 1048576"
  "nc_ok c \<Longrightarrow> utf8_text (nc_value c) \<and> nul \<notin> set (nc_value c) \<and> length (nc_value c) \<le> 1048576"
  "audit_ok a \<Longrightarrow> utf8_text (audit_line a) \<and> nul \<notin> set (audit_line a) \<and> length (audit_line a) \<le> 1048576"
proof -
  assume ok: "obj_ok x"
  have v: "obj_value x = join_with tab (obj_cols x)" by (simp add: obj_value_def obj_cols_def join_tabs_def)
  have "length (show_int (o_created x)) \<le> 20" using ok by (simp add: obj_ok_def int_ok_def show_int_len64)
  then have "length (obj_value x) \<le> 1048576" using ok unfolding v by (simp add: obj_cols_def obj_ok_def text_ok_def id_ok_def)
  then show "utf8_text (obj_value x) \<and> nul \<notin> set (obj_value x) \<and> length (obj_value x) \<le> 1048576"
    using join_clean(1,2) [OF cols_clean(1) [OF ok]] v by simp
next
  assume ok: "nc_ok c"
  have v: "nc_value c = join_with tab (nc_cols c)" by (simp add: nc_value_def nc_cols_def join_tabs_def)
  have "length (show_int (n_detected c)) \<le> 20" "length (show_int (n_closed c)) \<le> 20"
    using ok by (simp_all add: nc_ok_def int_ok_def show_int_len64)
  then have "length (nc_value c) \<le> 1048576" using ok unfolding v by (simp add: nc_cols_def nc_ok_def text_ok_def id_ok_def)
  then show "utf8_text (nc_value c) \<and> nul \<notin> set (nc_value c) \<and> length (nc_value c) \<le> 1048576"
    using join_clean(1,2) [OF cols_clean(2) [OF ok]] v by simp
next
  assume ok: "audit_ok a"
  have v: "audit_value a = join_with tab (audit_cols a) @ tab # a_findings a"
    by (simp add: audit_value_def audit_cols_def join_tabs_def)
  have "clean_text ''done''" by (simp add: clean_text_def utf8_text_ascii)
  then have cl: "\<forall>f \<in> set (audit_cols a). clean_text f"
    using ok by (simp add: audit_cols_def audit_ok_def text_ok_def id_clean int_clean)
  note j = join_clean(1,2) [OF cl]
  have "utf8_text (audit_value a)" "nul \<notin> set (audit_value a)"
    unfolding v using j ok utf8_text_append [OF utf8_text_char [of tab], of "a_findings a"]
    by (auto simp: audit_ok_def intro!: utf8_text_append)
  moreover have "length (show_int (a_sched a)) \<le> 20" "length (show_int (a_score a)) \<le> 20"
    using ok by (simp_all add: audit_ok_def int_ok_def show_int_len64 LLONG_MIN_def LLONG_MAX_def)
  then have "length (audit_value a) \<le> 400000" using ok unfolding v by (simp add: audit_cols_def audit_ok_def text_ok_def id_ok_def)
  ultimately show "utf8_text (audit_line a) \<and> nul \<notin> set (audit_line a) \<and> length (audit_line a) \<le> 1048576"
    using esc_line_length [of "audit_value a"] by (simp add: audit_line_def utf8_text_esc_line esc_line_nul)
qed

lemma recs_ok_families:
  "list_all obj_ok xs \<Longrightarrow> recs_ok OBJ_KEY_PREFIX o_id obj_value xs"
  "list_all nc_ok cs \<Longrightarrow> recs_ok NC_KEY_PREFIX n_id nc_value cs"
  "list_all audit_ok as \<Longrightarrow> recs_ok AUDIT_KEY_PREFIX a_id audit_line as"
  using value_sizes raw_key_family
  by (auto simp: recs_ok_def list_all_iff obj_ok_def nc_ok_def audit_ok_def)

lemma plain_prefixes:
  "plain_pre OBJ_KEY_PREFIX" "plain_pre NC_KEY_PREFIX" "plain_pre AUDIT_KEY_PREFIX"
  "take 2 OBJ_KEY_PREFIX \<noteq> ''p:''" "take 2 NC_KEY_PREFIX \<noteq> ''p:''" "take 2 AUDIT_KEY_PREFIX \<noteq> ''p:''"
  by (simp_all add: plain_pre_def OBJ_KEY_PREFIX_def NC_KEY_PREFIX_def AUDIT_KEY_PREFIX_def)

lemma map_filter_mset: "mset xs = mset ys \<Longrightarrow> mset (List.map_filter f xs) = mset (List.map_filter f ys)"
  by (simp add: List.map_filter_def)

lemma map_filter_parse: "\<forall>s \<in> set sts. parse (val s) = Some s \<Longrightarrow> List.map_filter parse (map val sts) = sts"
  by (induction sts) (auto simp: List.map_filter_simps)

lemma undated_mset: "list_all2 (\<lambda>r s. und r = und s) rs sts \<Longrightarrow> mset (map und sts) = mset (map und rs)"
  by (induction rule: list_all2_induct) simp_all

context exomind_link
begin

lemma tracks_served:
  assumes w: "serves t0 w m" "t0 \<le> t" "int64 t" and p: "plain_pre pre" "take 2 pre \<noteq> ''p:''"
    and tr: "tracks m pre key val ok und rs" "length rs < MAX_QUERY"
    and ok: "\<And>sts. list_all ok sts \<Longrightarrow> recs_ok pre key val sts" "\<And>s. ok s \<Longrightarrow> parse (val s) = Some s"
  shows "\<exists>ks w1 vs w2. client_list (net t) e pre w = (Inr ks, w1) \<and> fetch_all (net t) e ks w1 = (vs, w2) \<and>
    serves t w2 m \<and> mset (map und (List.map_filter parse (map snd vs))) = mset (map und rs)"
proof -
  obtain sts where s: "backed m pre key val sts" "list_all2 (\<lambda>r s. und r = und s) rs sts" "list_all ok sts"
    using tr(1) by (auto simp: tracks_def)
  have "length sts < MAX_QUERY" using tr(2) list_all2_lengthD [OF s(2)] by simp
  from family_served [OF w p s(1) ok(1) [OF s(3)] this]
  obtain ks w1 vs w2 where v: "client_list (net t) e pre w = (Inr ks, w1)" "fetch_all (net t) e ks w1 = (vs, w2)"
      "serves t w2 m" "mset (map snd vs) = mset (map val sts)"
    by blast
  have "mset (List.map_filter parse (map snd vs)) = mset sts"
    using map_filter_mset [OF v(4), of parse] map_filter_parse [of sts parse val] s(3) ok(2) by (simp add: list_all_iff)
  then have "mset (map und (List.map_filter parse (map snd vs))) = mset (map und rs)"
    using undated_mset [OF s(2)] by (metis mset_map)
  then show ?thesis using v by blast
qed

lemma reload_served:
  assumes w: "serves t0 w m" "t0 \<le> t" "int64 t" and q: "qms_backed m q"
    and few: "length (qm_objs q) < MAX_QUERY" "length (qm_ncs q) < MAX_QUERY" "length (qm_audits q) < MAX_QUERY"
  shows "\<exists>q' ag nt w'. qms_reload (net t) e now q0 agents notes w = (None, q', ag, nt, w') \<and> serves t w' m \<and>
    mset (map obj_undated (qm_objs q')) = mset (map obj_undated (qm_objs q)) \<and>
    mset (map nc_undated (qm_ncs q')) = mset (map nc_undated (qm_ncs q)) \<and>
    mset (map audit_undated (qm_audits q')) = mset (map audit_undated (qm_audits q))"
proof -
  have tr: "tracks m OBJ_KEY_PREFIX o_id obj_value obj_ok obj_undated (qm_objs q)"
    "tracks m NC_KEY_PREFIX n_id nc_value nc_ok nc_undated (qm_ncs q)"
    "tracks m AUDIT_KEY_PREFIX a_id audit_line audit_ok audit_undated (qm_audits q)"
    using q by (simp_all add: qms_backed_def)
  note pp = plain_prefixes
  obtain ko w1 vo w2 where o1: "client_list (net t) e OBJ_KEY_PREFIX w = (Inr ko, w1)" "fetch_all (net t) e ko w1 = (vo, w2)" "serves t w2 m"
      "mset (map obj_undated (List.map_filter (obj_parse now) (map snd vo))) = mset (map obj_undated (qm_objs q))"
    using tracks_served [where parse = "obj_parse now", OF w pp(1,4) tr(1) few(1) recs_ok_families(1) obj_roundtrip] by blast
  obtain kn w3 vn w4 where n1: "client_list (net t) e NC_KEY_PREFIX w2 = (Inr kn, w3)" "fetch_all (net t) e kn w3 = (vn, w4)" "serves t w4 m"
      "mset (map nc_undated (List.map_filter nc_parse (map snd vn))) = mset (map nc_undated (qm_ncs q))"
    using tracks_served [OF o1(3) order_refl w(3) pp(2,5) tr(2) few(2) recs_ok_families(2) nc_roundtrip] by blast
  obtain ka w5 va w6 where a1: "client_list (net t) e AUDIT_KEY_PREFIX w4 = (Inr ka, w5)" "fetch_all (net t) e ka w5 = (va, w6)" "serves t w6 m"
      "mset (map audit_undated (List.map_filter audit_parse (map snd va))) = mset (map audit_undated (qm_audits q))"
    using tracks_served [OF n1(3) order_refl w(3) pp(3,6) tr(3) few(3) recs_ok_families(3) audit_roundtrip [folded audit_line_def]] by blast
  have k: "raw_key AGENTS_KEY" "raw_key NOTES24_KEY"
    by (simp_all add: raw_key_def key_word_def AGENTS_KEY_def NOTES24_KEY_def)
  obtain w7 where c1: "qms_get (net t) e AGENTS_KEY w6 = (Inr (map_option (\<lambda>x. cstr (fst x)) (live_at t (m AGENTS_KEY))), w7)" "serves t w7 m"
    using get [OF a1(3) order_refl w(3) k(1)] by blast
  obtain w8 where c2: "qms_get (net t) e NOTES24_KEY w7 = (Inr (map_option (\<lambda>x. cstr (fst x)) (live_at t (m NOTES24_KEY))), w8)" "serves t w8 m"
    using get [OF c1(2) order_refl w(3) k(2)] by blast
  obtain ag nt where rc: "reload_conf (net t) e agents notes w6 = (ag, nt, w8)"
    by (simp add: reload_conf_def c1(1) c2(1))
  have "qms_reload (net t) e now q0 agents notes w =
      (None, \<lparr>qm_objs = List.map_filter (obj_parse now) (map snd vo), qm_ncs = List.map_filter nc_parse (map snd vn),
        qm_audits = List.map_filter audit_parse (map snd va)\<rparr>, ag, nt, w8)"
    unfolding qms_reload_def by (simp add: o1(1,2) n1(1,2) a1(1,2) rc)
  then show ?thesis using c2(2) o1(4) n1(4) a1(4) by auto
qed

end

subsection \<open>The operations\<close>

lemma family_hd: "in_family p k \<Longrightarrow> p \<noteq> [] \<Longrightarrow> k \<noteq> [] \<and> hd k = hd p"
  by (cases p; cases k) (auto simp: in_family_def)

lemma note_family: "in_family ''note:'' nk \<Longrightarrow>
    \<not> in_family OBJ_KEY_PREFIX nk \<and> \<not> in_family NC_KEY_PREFIX nk \<and> \<not> in_family AUDIT_KEY_PREFIX nk"
  using family_hd [of "''note:''" nk] family_hd [of OBJ_KEY_PREFIX nk] family_hd [of NC_KEY_PREFIX nk] family_hd [of AUDIT_KEY_PREFIX nk]
  by (auto simp: OBJ_KEY_PREFIX_def NC_KEY_PREFIX_def AUDIT_KEY_PREFIX_def)

lemma families_apart:
  "\<not> in_family NC_KEY_PREFIX (OBJ_KEY_PREFIX @ i)" "\<not> in_family AUDIT_KEY_PREFIX (OBJ_KEY_PREFIX @ i)"
  "\<not> in_family OBJ_KEY_PREFIX (NC_KEY_PREFIX @ i)" "\<not> in_family AUDIT_KEY_PREFIX (NC_KEY_PREFIX @ i)"
  "\<not> in_family OBJ_KEY_PREFIX (AUDIT_KEY_PREFIX @ i)" "\<not> in_family NC_KEY_PREFIX (AUDIT_KEY_PREFIX @ i)"
  by (simp_all add: in_family_def OBJ_KEY_PREFIX_def NC_KEY_PREFIX_def AUDIT_KEY_PREFIX_def)

lemma tracks_other:
  "tracks m pre key val ok und rs \<Longrightarrow> \<not> in_family pre k \<Longrightarrow> tracks (m(k \<mapsto> x)) pre key val ok und rs"
proof -
  assume t: "tracks m pre key val ok und rs" and k: "\<not> in_family pre k"
  have "(m(k \<mapsto> x)) j = m j" if "in_family pre j" for j using k that by auto
  then show ?thesis using t unfolding tracks_def by (metis backed_other)
qed

lemma tracks_snoc:
  assumes "tracks m pre key val ok und rs" "key r \<notin> key ` set rs" "ok r" "ok s" "und r = und s" "key s = key r"
    and "\<And>x y. und x = und y \<Longrightarrow> key x = key y"
  shows "tracks (m(pre @ key r \<mapsto> (val s, t, 0))) pre key val ok und (rs @ [r])"
proof -
  obtain sts where s: "backed m pre key val sts" "list_all2 (\<lambda>r s. und r = und s) rs sts" "list_all ok sts"
    using assms(1) by (auto simp: tracks_def)
  have "list_all2 (\<lambda>r s. key r = key s) rs sts" using s(2) by (rule list_all2_mono) (rule assms(7))
  then have "map key sts = map key rs" by (induction rule: list_all2_induct) simp_all
  then have "key ` set sts = key ` set rs" by (metis set_map)
  then have "backed (m(pre @ key s \<mapsto> (val s, t, 0))) pre key val (sts @ [s])"
    using backed_snoc [OF s(1), of s t] assms(2,6) by simp
  moreover have "list_all2 (\<lambda>r s. und r = und s) (rs @ [r]) (sts @ [s])"
    using s(2) assms(5) by (simp add: list_all2_appendI)
  ultimately show ?thesis using assms(1,3,4,6) s(3) unfolding tracks_def by fastforce
qed

lemma tracks_update:
  assumes "tracks m pre key val ok und (xs @ r # ys)" "ok r'" "key r' = key r"
    and "\<And>x y. und x = und y \<Longrightarrow> key x = key y"
  shows "tracks (m(pre @ key r \<mapsto> (val r', t, 0))) pre key val ok und (xs @ r' # ys)"
proof -
  obtain sts where s: "backed m pre key val sts" "list_all2 (\<lambda>r s. und r = und s) (xs @ r # ys) sts" "list_all ok sts"
    using assms(1) by (auto simp: tracks_def)
  then obtain us v vs where p: "sts = us @ v # vs" "list_all2 (\<lambda>r s. und r = und s) xs us" "und r = und v"
      "list_all2 (\<lambda>r s. und r = und s) ys vs"
    by (auto simp: list_all2_append1 list_all2_Cons1)
  have "key v = key r" using assms(4) [OF p(3)] by simp
  then have "backed (m(pre @ key r \<mapsto> (val r', t, 0))) pre key val (us @ r' # vs)"
    using backed_update [of m pre key val us v vs r' t] s(1) p(1) assms(3) by simp
  moreover have "list_all2 (\<lambda>r s. und r = und s) (xs @ r' # ys) (us @ r' # vs)"
    using p(2,4) by (simp add: list_all2_appendI)
  ultimately show ?thesis using assms(1,2) s(3) p(1) unfolding tracks_def by auto
qed

lemma undated_key:
  "obj_undated x = obj_undated y \<Longrightarrow> o_id x = o_id y" "nc_undated c = nc_undated d \<Longrightarrow> n_id c = n_id d"
  "audit_undated a = audit_undated b \<Longrightarrow> a_id a = a_id b"
  by (simp_all add: obj_undated_def nc_undated_def audit_undated_def obj.defs nc.defs audit.defs)
    (metis obj.select_convs(1) obj.surjective obj.update_convs(6) nc.select_convs(1) nc.surjective nc.update_convs(6)
      audit.select_convs(1) audit.surjective audit.update_convs(4))+

lemma make_id_ok: "int_ok now \<Longrightarrow> id_ok (make_id now r)"
proof -
  assume now: "int_ok now"
  have h: "list_all id_char (show_hex8 r)" "length (show_hex8 r) = 8"
  proof -
    have "id_char (''0123456789abcdef'' ! n)" if "n < 16" for n
    proof -
      have "list_all id_char ''0123456789abcdef''" by code_simp
      then show ?thesis using that by (simp add: list_all_length)
    qed
    then show "list_all id_char (show_hex8 r)" "length (show_hex8 r) = 8"
      unfolding show_hex8_def by (simp_all add: list_all_iff del: nth_Cons_numeral)
  qed
  have "id_char (CHR '':'')" by (simp add: id_char_def)
  moreover have "length (show_int now) \<le> 20" using now by (simp add: int_ok_def show_int_len64)
  ultimately show ?thesis using h show_int_id [of now] by (simp add: make_id_def id_ok_def fit_def QID_MAX_def)
qed

lemma qkey_id:
  assumes "id_ok i"
  shows "qkey OBJ_KEY_PREFIX i = OBJ_KEY_PREFIX @ i" "qkey NC_KEY_PREFIX i = NC_KEY_PREFIX @ i" "qkey AUDIT_KEY_PREFIX i = AUDIT_KEY_PREFIX @ i"
  using assms by (simp_all add: qkey_def id_ok_def OBJ_KEY_PREFIX_def NC_KEY_PREFIX_def AUDIT_KEY_PREFIX_def)

lemma nc_find_split:
  assumes "nc_find q i = Some c"
  obtains xs ys where "qm_ncs q = xs @ c # ys" "n_id c = i" "\<forall>x \<in> set xs. n_id x \<noteq> i"
proof -
  have "\<exists>xs ys. ns = xs @ c # ys \<and> n_id c = i \<and> (\<forall>x \<in> set xs. n_id x \<noteq> i)" if "find (\<lambda>x. n_id x = i) ns = Some c" for ns
    using that
  proof (induction ns)
    case (Cons a ns)
    show ?case
    proof (cases "n_id a = i")
      case True
      then show ?thesis using Cons.prems by (intro exI [of _ "[]"] exI [of _ ns]) simp
    next
      case False
      then obtain xs ys where "ns = xs @ c # ys" "n_id c = i" "\<forall>x \<in> set xs. n_id x \<noteq> i" using Cons by auto
      then show ?thesis using False by (intro exI [of _ "a # xs"] exI [of _ ys]) simp
    qed
  qed simp
  then show thesis using assms that unfolding nc_find_def by blast
qed

definition body_ok :: "string \<Rightarrow> bool" where
  "body_ok body \<longleftrightarrow> length body \<le> 65535 \<and> (\<forall>f \<in> set (tab_split body 8). text_ok 65535 f)"

lemma nc_apply_ok:
  assumes "nc_ok c" "nc_apply c act body now = Inr n" "body_ok body" "int_ok now"
  shows "nc_ok n"
proof -
  have lit: "text_ok 15 ''analysis''" "text_ok 15 ''corrective''" "text_ok 15 ''verify''" "text_ok 15 ''closed''" "text_ok 65535 ''api''"
    "text_ok 65535 []"
    by (auto simp: text_ok_def clean_text_def intro!: utf8_text_ascii)
  have fld: "text_ok 65535 (field (tab_split body 8) j)" for j
    using assms(3) lit(6) unfolding field_def body_ok_def by (metis nth_mem)
  show ?thesis
    using assms(2)
  proof (cases rule: nc_apply_cases)
    case (close ca ev who ctm)
    have "int_ok ctm" "text_ok 65535 who" unfolding close(7,8) using assms(1,4) fld [of 3] lit(5) by (simp_all add: nc_ok_def)
    moreover have "text_ok 65535 ca" "text_ok 65535 ev" unfolding close(5,6) by (rule fld)+
    ultimately show ?thesis using assms(1) lit(4) unfolding close(4) by (simp add: nc_ok_def)
  qed (use assms(1) lit in \<open>simp_all add: nc_ok_def\<close>)
qed

lemma update_first_split:
  "\<forall>x \<in> set xs. n_id x \<noteq> n_id c \<Longrightarrow> update_first (n_id c) f (xs @ c # ys) = xs @ f c # ys"
  by (induction xs) auto

context exomind_link
begin

lemma objective_served:
  assumes w: "serves t0 w m" "t0 \<le> t" "int64 t" and q: "qms_backed m q"
    and i: "make_id (now 0) r \<notin> o_id ` set (qm_objs q)" "\<forall>j. int_ok (now j)"
    and x: "text_ok 65535 desc" "text_ok 65535 metric" "text_ok 65535 target" "text_ok 65535 period" "period \<noteq> []"
    and run: "obj_create (net t) e now r id q desc metric target period w = (res, q', w')"
  shows "\<exists>m' t'. serves t' w' m' \<and> t' \<le> t \<and> qms_backed m' q'"
proof (cases "desc = [] \<or> metric = [] \<or> target = []")
  case True
  then have "q' = q" "w' = w" using run by (auto simp: obj_create_def)
  then show ?thesis using w q by blast
next
  case False
  let ?i = "make_id (now 0) r"
  define x where "x j = \<lparr>o_id = ?i, o_desc = desc, o_metric = metric, o_target = target, o_period = period, o_created = now j\<rparr>" for j
  have ok: "obj_ok (x j)" for j using i(2) x make_id_ok by (simp add: x_def obj_ok_def)
  have id: "id_ok ?i" "o_id (x j) = ?i" for j using i(2) make_id_ok by (simp_all add: x_def)
  have kw: "key_word (OBJ_KEY_PREFIX @ ?i)" using raw_key_family(1) [OF id(1)] by (simp add: raw_key_def)
  have v: "utf8_text (obj_value (x 1))" "nul \<notin> set (obj_value (x 1))" "length (obj_value (x 1)) \<le> 1048576"
    using value_sizes(1) [OF ok] by blast+
  obtain w1 where w1: "qms_persist (net t) e (OBJ_KEY_PREFIX @ ?i) (obj_value (x 1)) w = (None, w1)"
      "serves t w1 (m(OBJ_KEY_PREFIX @ ?i \<mapsto> (obj_value (x 1), t, 0)))"
    using persist [OF w kw v] by blast
  have "q' = q\<lparr>qm_objs := qm_objs q @ [x 2]\<rparr>" "w' = w1"
    using run False w1(1) qkey_id(1) [OF id(1)] by (auto simp: obj_create_def x_def Let_def)
  moreover have "tracks (m(OBJ_KEY_PREFIX @ ?i \<mapsto> (obj_value (x 1), t, 0))) OBJ_KEY_PREFIX o_id obj_value obj_ok obj_undated (qm_objs q @ [x 2])"
  proof -
    have "obj_undated (x 2) = obj_undated (x 1)" by (simp add: x_def obj_undated_def)
    moreover have "o_id (x 2) \<notin> o_id ` set (qm_objs q)" "o_id (x 1) = o_id (x 2)" using i(1) by (simp_all add: id)
    ultimately show ?thesis
      using tracks_snoc [where m = m and pre = OBJ_KEY_PREFIX and key = o_id and val = obj_value and ok = obj_ok and und = obj_undated and rs = "qm_objs q" and
          r = "x 2" and s = "x 1" and t = t, OF _ _ ok ok _ _ undated_key(1)] q
      unfolding qms_backed_def id by blast
  qed
  ultimately show ?thesis
    using w1(2) q families_apart by (intro exI [of _ "m(OBJ_KEY_PREFIX @ ?i \<mapsto> (obj_value (x 1), t, 0))"] exI [of _ t])
      (simp add: qms_backed_def tracks_other)
qed

lemma raise_served:
  assumes w: "serves t0 w m" "t0 \<le> t" "int64 t" and q: "qms_backed m q"
    and i: "make_id (now 0) r \<notin> n_id ` set (qm_ncs q)" "\<forall>j. int_ok (now j)"
    and x: "text_ok 1023 title" "text_ok 65535 desc" "text_ok 1023 source"
    and run: "nc_create (net t) e now r id q title sev desc source w = (res, q', w')"
  shows "\<exists>m' t'. serves t' w' m' \<and> t' \<le> t \<and> qms_backed m' q'"
proof (cases "title = [] \<or> desc = [] \<or> sev \<noteq> ''major'' \<and> sev \<noteq> ''minor''")
  case True
  then have "q' = q" "w' = w" using run by (auto simp: nc_create_def split: if_split_asm)
  then show ?thesis using w q by blast
next
  case False
  let ?i = "make_id (now 0) r"
  define x where "x j = new_nc ?i title desc sev source (now j)" for j
  have "sev = ''major'' \<or> sev = ''minor''" using False by blast
  then have "text_ok 7 (fit SEV_MAX sev)" by (auto simp: fit_def SEV_MAX_def text_ok_def clean_text_def intro!: utf8_text_ascii)
  moreover have "text_ok 15 ''open''" "text_ok 65535 []" by (auto simp: text_ok_def clean_text_def intro!: utf8_text_ascii)
  ultimately have ok: "nc_ok (x j)" for j
    using i(2) x make_id_ok by (simp add: x_def nc_ok_def new_nc_def int_ok_def LLONG_MIN_def LLONG_MAX_def)
  have id: "id_ok ?i" "n_id (x j) = ?i" for j using i(2) make_id_ok by (simp_all add: x_def new_nc_def)
  have kw: "key_word (NC_KEY_PREFIX @ ?i)" using raw_key_family(2) [OF id(1)] by (simp add: raw_key_def)
  have v: "utf8_text (nc_value (x 1))" "nul \<notin> set (nc_value (x 1))" "length (nc_value (x 1)) \<le> 1048576"
    using value_sizes(2) [OF ok] by blast+
  obtain w1 where w1: "qms_persist (net t) e (NC_KEY_PREFIX @ ?i) (nc_value (x 1)) w = (None, w1)"
      "serves t w1 (m(NC_KEY_PREFIX @ ?i \<mapsto> (nc_value (x 1), t, 0)))"
    using persist [OF w kw v] by blast
  have "q' = q\<lparr>qm_ncs := qm_ncs q @ [x 2]\<rparr>" "w' = w1"
    using run False w1(1) qkey_id(2) [OF id(1)] by (auto simp: nc_create_def x_def Let_def)
  moreover have "tracks (m(NC_KEY_PREFIX @ ?i \<mapsto> (nc_value (x 1), t, 0))) NC_KEY_PREFIX n_id nc_value nc_ok nc_undated (qm_ncs q @ [x 2])"
  proof -
    have "nc_undated (x 2) = nc_undated (x 1)" by (simp add: x_def nc_undated_def new_nc_def)
    moreover have "n_id (x 2) \<notin> n_id ` set (qm_ncs q)" "n_id (x 1) = n_id (x 2)" using i(1) by (simp_all add: id)
    ultimately show ?thesis
      using tracks_snoc [where m = m and pre = NC_KEY_PREFIX and key = n_id and val = nc_value and ok = nc_ok and und = nc_undated and rs = "qm_ncs q" and
          r = "x 2" and s = "x 1" and t = t, OF _ _ ok ok _ _ undated_key(2)] q
      unfolding qms_backed_def id by blast
  qed
  ultimately show ?thesis
    using w1(2) q families_apart by (intro exI [of _ "m(NC_KEY_PREFIX @ ?i \<mapsto> (nc_value (x 1), t, 0))"] exI [of _ t])
      (simp add: qms_backed_def tracks_other)
qed

lemma save_served:
  assumes w: "serves t0 w m" "t0 \<le> t" "int64 t" and q: "qms_backed m q"
    and i: "i \<notin> a_id ` set (qm_audits q)" "id_ok i" "\<forall>j. int_ok (now j)"
    and x: "text_ok 65535 name" "text_ok 65535 criteria" "utf8_text findings" "nul \<notin> set findings" "length findings \<le> 65535"
      "- (2 ^ 31) \<le> score" "score < 2 ^ 31"
    and run: "audit_save (net t) e now id q i name criteria findings score w = (res, q', w')"
  shows "\<exists>m' t'. serves t' w' m' \<and> t' \<le> t \<and> qms_backed m' q'"
proof -
  define x where "x j = \<lparr>a_id = i, a_name = name, a_criteria = criteria, a_sched = now j, a_status = ''done'', a_score = score,
    a_findings = findings\<rparr>" for j
  have ok: "audit_ok (x j)" for j using i x by (simp add: x_def audit_ok_def)
  have id: "a_id (x j) = i" for j by (simp add: x_def)
  have kw: "key_word (AUDIT_KEY_PREFIX @ i)" using raw_key_family(3) [OF i(2)] by (simp add: raw_key_def)
  have v: "utf8_text (audit_line (x 0))" "nul \<notin> set (audit_line (x 0))" "length (audit_line (x 0)) \<le> 1048576"
    using value_sizes(3) [OF ok] by blast+
  obtain w1 where w1: "qms_persist (net t) e (AUDIT_KEY_PREFIX @ i) (audit_line (x 0)) w = (None, w1)"
      "serves t w1 (m(AUDIT_KEY_PREFIX @ i \<mapsto> (audit_line (x 0), t, 0)))"
    using persist [OF w kw v] by blast
  have "fit QID_MAX i = i" using i(2) by (simp add: fit_def QID_MAX_def id_ok_def)
  then have "q' = q\<lparr>qm_audits := qm_audits q @ [x 1]\<rparr>" "w' = w1"
    using run w1(1) qkey_id(3) [OF i(2)] by (auto simp: audit_save_def x_def Let_def audit_line_def)
  moreover have "tracks (m(AUDIT_KEY_PREFIX @ i \<mapsto> (audit_line (x 0), t, 0))) AUDIT_KEY_PREFIX a_id audit_line audit_ok audit_undated (qm_audits q @ [x 1])"
  proof -
    have "audit_undated (x 1) = audit_undated (x 0)" by (simp add: x_def audit_undated_def)
    moreover have "a_id (x 1) \<notin> a_id ` set (qm_audits q)" "a_id (x 0) = a_id (x 1)" using i(1) by (simp_all add: id)
    ultimately show ?thesis
      using tracks_snoc [where m = m and pre = AUDIT_KEY_PREFIX and key = a_id and val = audit_line and ok = audit_ok and und = audit_undated and rs = "qm_audits q" and
          r = "x 1" and s = "x 0" and t = t, OF _ _ ok ok _ _ undated_key(3)] q
      unfolding qms_backed_def id by blast
  qed
  ultimately show ?thesis
    using w1(2) q families_apart by (intro exI [of _ "m(AUDIT_KEY_PREFIX @ i \<mapsto> (audit_line (x 0), t, 0))"] exI [of _ t])
      (simp add: qms_backed_def tracks_other)
qed

lemma transition_served:
  assumes w: "serves t0 w m" "t0 \<le> t" "int64 t" and q: "qms_backed m q"
    and x: "body_ok body" "int_ok now"
    and run: "nc_transition (net t) e now id q i act body w = (res, q', w')"
  shows "\<exists>m' t'. serves t' w' m' \<and> t' \<le> t \<and> qms_backed m' q'"
proof (cases "\<exists>c n. nc_find q i = Some c \<and> nc_apply c act body now = Inr n")
  case False
  then have "q' = q" "w' = w" using run by (auto simp: nc_transition_def split: option.split_asm sum.split_asm)
  then show ?thesis using w q by blast
next
  case True
  then obtain c n where c: "nc_find q i = Some c" and n: "nc_apply c act body now = Inr n" by blast
  obtain xs ys where s: "qm_ncs q = xs @ c # ys" "n_id c = i" "\<forall>x \<in> set xs. n_id x \<noteq> i"
    by (rule nc_find_split [OF c])
  have tr: "tracks m NC_KEY_PREFIX n_id nc_value nc_ok nc_undated (xs @ c # ys)" using q s(1) by (simp add: qms_backed_def)
  then have "nc_ok c" by (simp add: tracks_def)
  then have ok: "nc_ok n" by (rule nc_apply_ok [OF _ n x])
  have id: "id_ok i" "n_id n = i" using ok nc_apply_keeps [OF n] s(2) by (simp_all add: nc_ok_def)
  have sn: "nc_snapshot n = n"
    using ok by (cases n) (simp add: nc_snapshot_def fit_def nc_ok_def text_ok_def MAX_FIELD_def)
  have kw: "key_word (NC_KEY_PREFIX @ i)" using raw_key_family(2) [OF id(1)] by (simp add: raw_key_def)
  have v: "utf8_text (nc_value n)" "nul \<notin> set (nc_value n)" "length (nc_value n) \<le> 1048576"
    using value_sizes(2) [OF ok] by blast+
  let ?m = "m(NC_KEY_PREFIX @ i \<mapsto> (nc_value n, t, 0))"
  obtain w1 where w1: "qms_persist (net t) e (NC_KEY_PREFIX @ i) (nc_value n) w = (None, w1)" "serves t w1 ?m"
    using persist [OF w kw v] by blast
  let ?b = "transition_note i act (n_status n) body"
  have "length (takeWhile (\<lambda>c. c \<noteq> tab) body) \<le> length body" by (rule length_takeWhile_le)
  then have "?b \<noteq> []" "length ?b \<le> MAX_VAL"
    using id(1) ok x(1) by (auto simp: transition_note_def MAX_VAL_def id_ok_def nc_ok_def text_ok_def body_ok_def Let_def)
  then obtain w2 nk where w2: "client_note (net t) e ?b w1 = (None, w2)" "in_family ''note:'' nk" "serves t w2 (?m(nk \<mapsto> (?b, t, 0)))"
    using note_ [OF w1(2) order_refl w(3)] by blast
  have "update_first i (nc_commit n) (xs @ c # ys) = xs @ n # ys"
    using update_first_split [of xs c "nc_commit n" ys] s(2,3) nc_commit_apply [OF n] by simp
  then have "q' = q\<lparr>qm_ncs := xs @ n # ys\<rparr>" "w' = w2"
    using run c n w1(1) w2(1) sn qkey_id(2) [OF id(1)] s(1) by (auto simp: nc_transition_def Let_def)
  moreover have "tracks ?m NC_KEY_PREFIX n_id nc_value nc_ok nc_undated (xs @ n # ys)"
    using tracks_update [OF tr ok _ undated_key(2)] id(2) s(2) by simp
  ultimately show ?thesis
    using w2(3) q families_apart note_family [OF w2(2)] by (intro exI [of _ "?m(nk \<mapsto> (?b, t, 0))"] exI [of _ t])
      (simp add: qms_backed_def tracks_other)
qed

end

subsection \<open>Runs\<close>

text \<open>
  The states that requests lead to, one after the other; \<open>now\<close> is the clock of exoqms, \<open>r\<close> what its generator gives,
  \<open>t\<close> the clock of exomind. A generated identifier is assumed new.
\<close>

inductive qms_run :: "(int \<Rightarrow> 'w net) \<Rightarrow> exo \<Rightarrow> int \<Rightarrow> qms \<Rightarrow> 'w \<Rightarrow> int \<Rightarrow> qms \<Rightarrow> 'w \<Rightarrow> bool"
  for net e t0 q0 w0 where
  start: "qms_run net e t0 q0 w0 t0 q0 w0"
| objective: "qms_run net e t0 q0 w0 t q w \<Longrightarrow> t \<le> u \<Longrightarrow> int64 u \<Longrightarrow>
    make_id (now 0) r \<notin> o_id ` set (qm_objs q) \<Longrightarrow> \<forall>j. int_ok (now j) \<Longrightarrow>
    text_ok 65535 desc \<Longrightarrow> text_ok 65535 metric \<Longrightarrow> text_ok 65535 target \<Longrightarrow> text_ok 65535 period \<Longrightarrow> period \<noteq> [] \<Longrightarrow>
    obj_create (net u) e now r id q desc metric target period w = (res, q', w') \<Longrightarrow> qms_run net e t0 q0 w0 u q' w'"
| raise: "qms_run net e t0 q0 w0 t q w \<Longrightarrow> t \<le> u \<Longrightarrow> int64 u \<Longrightarrow>
    make_id (now 0) r \<notin> n_id ` set (qm_ncs q) \<Longrightarrow> \<forall>j. int_ok (now j) \<Longrightarrow>
    text_ok 1023 title \<Longrightarrow> text_ok 65535 desc \<Longrightarrow> text_ok 1023 source \<Longrightarrow>
    nc_create (net u) e now r id q title sev desc source w = (res, q', w') \<Longrightarrow> qms_run net e t0 q0 w0 u q' w'"
| transition: "qms_run net e t0 q0 w0 t q w \<Longrightarrow> t \<le> u \<Longrightarrow> int64 u \<Longrightarrow> body_ok body \<Longrightarrow> int_ok clk \<Longrightarrow>
    nc_transition (net u) e clk id q i act body w = (res, q', w') \<Longrightarrow> qms_run net e t0 q0 w0 u q' w'"
| audit: "qms_run net e t0 q0 w0 t q w \<Longrightarrow> t \<le> u \<Longrightarrow> int64 u \<Longrightarrow>
    i \<notin> a_id ` set (qm_audits q) \<Longrightarrow> id_ok i \<Longrightarrow> \<forall>j. int_ok (now j) \<Longrightarrow>
    text_ok 65535 name \<Longrightarrow> text_ok 65535 criteria \<Longrightarrow> utf8_text findings \<Longrightarrow> nul \<notin> set findings \<Longrightarrow>
    length findings \<le> 65535 \<Longrightarrow> - (2 ^ 31) \<le> score \<Longrightarrow> score < 2 ^ 31 \<Longrightarrow>
    audit_save (net u) e now id q i name criteria findings score w = (aerr, q', w') \<Longrightarrow> qms_run net e t0 q0 w0 u q' w'"

context exomind_link
begin

lemma run_served:
  assumes "qms_run net e t0 q0 w0 t q w" "serves t0 w0 m0" "qms_backed m0 q0"
  shows "\<exists>m t'. serves t' w m \<and> t' \<le> t \<and> qms_backed m q"
  using assms
proof (induction rule: qms_run.induct)
  case (objective t q w u)
  then obtain m t' where m: "serves t' w m" "t' \<le> t" "qms_backed m q" by blast
  have "t' \<le> u" using m(2) objective.hyps(2) by simp
  then show ?case by (rule objective_served [OF m(1) _ objective.hyps(3) m(3) objective.hyps(4) objective.hyps(5) objective.hyps(6) objective.hyps(7) objective.hyps(8) objective.hyps(9) objective.hyps(10) objective.hyps(11)])
next
  case (raise t q w u)
  then obtain m t' where m: "serves t' w m" "t' \<le> t" "qms_backed m q" by blast
  have "t' \<le> u" using m(2) raise.hyps(2) by simp
  then show ?case by (rule raise_served [OF m(1) _ raise.hyps(3) m(3) raise.hyps(4) raise.hyps(5) raise.hyps(6) raise.hyps(7) raise.hyps(8) raise.hyps(9)])
next
  case (transition t q w u)
  then obtain m t' where m: "serves t' w m" "t' \<le> t" "qms_backed m q" by blast
  have "t' \<le> u" using m(2) transition.hyps(2) by simp
  then show ?case by (rule transition_served [OF m(1) _ transition.hyps(3) m(3) transition.hyps(4) transition.hyps(5) transition.hyps(6)])
next
  case (audit t q w u)
  then obtain m t' where m: "serves t' w m" "t' \<le> t" "qms_backed m q" by blast
  have "t' \<le> u" using m(2) audit.hyps(2) by simp
  then show ?case by (rule save_served [OF m(1) _ audit.hyps(3) m(3) audit.hyps(4) audit.hyps(5) audit.hyps(6) audit.hyps(7) audit.hyps(8) audit.hyps(9) audit.hyps(10) audit.hyps(11) audit.hyps(12) audit.hyps(13) audit.hyps(14)])
qed blast

end

lemma fresh_backed: "qms_backed Map.empty qms_init"
  by (simp add: qms_backed_def qms_init_def tracks_def backed_def)

end
