(* ===== verification/Exo_Qms_Checks.thy ===== *)
theory Exo_Qms_Checks
  imports Exo_Qms
begin

text \<open>
  The audit checks of exoqms (\<open>exoqms/src/checks.c\<close>, \<open>project.c\<close>). Their surroundings are a record of
  functions: the network to a daemon, the outcome of a child process (\<open>run_child\<close>), the file system, the clock.
  Loops over the JSON that a child prints need not end, then a check gives \<open>None\<close>; so does one that dereferences NULL.
\<close>

datatype res = RPass | RFail | RSkip

datatype fkind = Regular | Directory | Special

record finding =
  f_id :: string
  f_res :: res
  f_ev :: string

record pcfg =
  pc_debt :: bool
  pc_hygiene :: bool
  pc_secrets :: bool
  pc_codesafety :: bool
  pc_threshold :: int
  pc_test :: "string list"
  pc_docs :: "string list"
  pc_ignore :: "string list"
  pc_languages :: "string list"
  pc_allow :: "string list"

record cfg =
  cf_exodoc :: string
  cf_ui :: string
  cf_code :: string
  cf_kit :: string
  cf_svg :: string
  cf_rules :: string
  cf_repo :: string
  cf_agents :: string
  cf_notes :: int
  cf_sched :: string
  cf_proj :: pcfg

text \<open>The context of one audit; \<open>ck_memo\<close> is the output of the rules scan once it has run.\<close>

record ctx =
  ck_target :: "string option"
  ck_agents :: "string option"
  ck_memo :: "bytes option"

text \<open>
  \<open>e_child\<close> gives the return code of \<open>run_child\<close>, the output and the error text. \<open>e_rework\<close> is the
  threshold \<open>strtod\<close> makes of the environment, in per mille, when it is in range.
\<close>

record 'w qenv =
  e_net :: "exo \<Rightarrow> 'w net"
  e_child :: "string list \<Rightarrow> string option \<Rightarrow> 'w \<Rightarrow> (int \<times> bytes \<times> string) \<times> 'w"
  e_kind :: "string \<Rightarrow> fkind option"
  e_file :: "string \<Rightarrow> bytes option"
  e_now :: int
  e_day :: string
  e_rework :: "int option"

definition EVID_MAX :: nat where "EVID_MAX = 4096"
definition CHECK_TIMEOUT_S :: int where "CHECK_TIMEOUT_S = 5"

definition no_project :: pcfg where
  "no_project = \<lparr>pc_debt = False, pc_hygiene = False, pc_secrets = False, pc_codesafety = False, pc_threshold = 0,
     pc_test = [], pc_docs = [], pc_ignore = [], pc_languages = [], pc_allow = []\<rparr>"

definition cfg_defaults :: cfg where
  "cfg_defaults = \<lparr>cf_exodoc = ''exodoc'', cf_ui = [], cf_code = [], cf_kit = [], cf_svg = [], cf_rules = [], cf_repo = ''.'',
     cf_agents = ''a,b,b1,b2,b3'', cf_notes = 5, cf_sched = ''http://127.0.0.1:7655'', cf_proj = no_project\<rparr>"

subsection \<open>The project file\<close>

definition pcfg_defaults :: pcfg where
  "pcfg_defaults = no_project\<lparr>pc_debt := True, pc_hygiene := True, pc_secrets := True, pc_codesafety := True, pc_threshold := 10\<rparr>"

definition obj_bool :: "string \<Rightarrow> string \<Rightarrow> bool \<Rightarrow> bool" where
  "obj_bool json fld dflt = (case qms_field json fld of None \<Rightarrow> dflt | Some v \<Rightarrow> cstr v \<noteq> ''false'')"

definition read_str_array :: "string option \<Rightarrow> string list option" where
  "read_str_array json = (case json of None \<Rightarrow> Some [] | Some j \<Rightarrow> map_option (map cstr) (json_arr_strings (cstr j)))"

definition load_rules :: "string \<Rightarrow> pcfg \<Rightarrow> pcfg" where
  "load_rules buf p =
     (case qms_field buf ''rules'' of
        None \<Rightarrow> p
      | Some x \<Rightarrow>
          (let j = cstr x
           in p\<lparr>pc_debt := obj_bool j ''debt'' (pc_debt p), pc_hygiene := obj_bool j ''hygiene'' (pc_hygiene p),
               pc_secrets := obj_bool j ''secrets'' (pc_secrets p),
               pc_codesafety := obj_bool j ''code-safety'' (pc_codesafety p)\<rparr>))"

definition load_thresholds :: "string \<Rightarrow> pcfg \<Rightarrow> pcfg" where
  "load_thresholds buf p =
     (case qms_field buf ''thresholds'' of
        None \<Rightarrow> p
      | Some j \<Rightarrow>
          (case qms_field (cstr j) ''debt'' of
             None \<Rightarrow> p
           | Some x \<Rightarrow> (let d = cstr x; (v, rest) = strtoll d
                        in if d \<noteq> [] \<and> rest = [] \<and> 0 \<le> v \<and> v < 1000000 then p\<lparr>pc_threshold := v\<rparr> else p)))"

text \<open>The return code and the configuration; \<open>None\<close> when a string array never ends.\<close>

definition pcfg_load :: "'w qenv \<Rightarrow> string \<Rightarrow> (int \<times> pcfg) option" where
  "pcfg_load v repo =
     (case e_file v (fit 2048 (repo @ ''/.exoqms.json'')) of
        None \<Rightarrow> Some (1, pcfg_defaults)
      | Some buf \<Rightarrow>
          if buf = [] then Some (-1, pcfg_defaults)
          else (let p = load_thresholds buf (load_rules buf pcfg_defaults);
                    arr = (\<lambda>n. read_str_array (qms_field buf n))
                in case (arr ''test'', arr ''docs'', arr ''ignore'', arr ''languages'', arr ''secrets_allow'') of
                     (Some t, Some d, Some i, Some l, Some a) \<Rightarrow>
                       Some (0, p\<lparr>pc_test := t, pc_docs := d, pc_ignore := i, pc_languages := l, pc_allow := a\<rparr>)
                   | _ \<Rightarrow> None))"

subsection \<open>Findings\<close>

definition set_finding :: "string \<Rightarrow> res \<Rightarrow> string \<Rightarrow> finding" where
  "set_finding i r ev = \<lparr>f_id = fit 32 i, f_res = r, f_ev = fit EVID_MAX ev\<rparr>"

text \<open>\<open>strncat\<close> up to the end of the buffer.\<close>

definition ev_cat :: "finding \<Rightarrow> string \<Rightarrow> finding" where
  "ev_cat f s = f\<lparr>f_ev := fit EVID_MAX (f_ev f @ s)\<rparr>"

definition ev_block :: "finding \<Rightarrow> string \<Rightarrow> finding" where
  "ev_block f ev = (if length ev + length (f_ev f) + 2 < EVID_MAX then ev_cat (ev_cat f [nl]) ev else f)"

definition finding_append_lines :: "finding \<Rightarrow> string \<Rightarrow> finding" where
  "finding_append_lines f ev = (if ev = [] then f else ev_block f ev)"

definition finding_snippet :: "finding \<Rightarrow> bytes \<Rightarrow> finding" where
  "finding_snippet f out =
     (let s = cstr out; o1 = chop_eol (take 200 s)
      in if s = [] then f
         else if length (f_ev f) + length o1 + 2 < EVID_MAX then ev_cat (ev_cat f '' '') o1 else f)"

text \<open>What follows each occurrence of a non-empty pattern, searched from the end of the one before.\<close>

function after_subs :: "string \<Rightarrow> string \<Rightarrow> string list" where
  "after_subs pat s =
     (if pat = [] then []
      else (case find_sub s pat of None \<Rightarrow> [] | Some i \<Rightarrow> drop (i + length pat) s # after_subs pat (drop (i + length pat) s)))"
  by pat_completeness auto
termination
proof (relation "measure (\<lambda>(pat, s). length s)", goal_cases)
  case (2 pat s i)
  have "find_sub s pat = Some i \<Longrightarrow> i + length pat \<le> length s" for s i
    by (induction s pat arbitrary: i rule: find_sub.induct) (auto split: if_split_asm dest: arg_cong [where f = length])
  then show ?case using 2 by (cases s) (auto simp: Suc_le_eq split: if_split_asm)
qed simp

declare after_subs.simps [simp del]

text \<open>The numbers of major and of minor findings.\<close>

definition json_severity_count :: "bytes \<Rightarrow> nat \<times> nat" where
  "json_severity_count out =
     (let vs = after_subs (jname ''severity'' @ '':'') (cstr out)
      in (length (filter (\<lambda>v. take 7 v = jname ''major'') vs), length (filter (\<lambda>v. take 7 v = jname ''minor'') vs)))"

subsection \<open>Child processes\<close>

text \<open>
  One round of the loop of \<open>run_child\<close>: what the child has written before the read, whether the read
  fails (other than with \<open>EAGAIN\<close> or \<open>EINTR\<close>), what is written before \<open>waitpid\<close>, whose answer is the
  way the child ended, the seconds since the start, whether \<open>poll\<close> fails.
\<close>

datatype ended = Exited int | Signaled int

record round =
  rd_before :: bytes
  rd_fails :: bool
  rd_after :: bytes
  rd_wait :: "ended option"
  rd_elapsed :: int
  rd_poll_fails :: bool

definition OUT_CAP :: nat where "OUT_CAP = 1024 * 1024"

text \<open>
  How the child ended, \<open>None\<close> when it was killed, the output, and what is read and thrown away after
  the end. \<open>status\<close> is 0 when the loop is left early. \<open>None\<close> when the rounds do not reach an end.
\<close>

fun child_loop :: "int \<Rightarrow> round list \<Rightarrow> bytes \<Rightarrow> bytes \<Rightarrow> (ended option \<times> bytes \<times> bytes) option" where
  "child_loop tmo [] pipe b = None"
| "child_loop tmo (r # rs) pipe b =
     (let p = pipe @ rd_before r; got = take 8192 p; q = drop 8192 p @ rd_after r;
          b1 = (if length b + length got \<le> OUT_CAP then b @ got else b)
      in if rd_fails r then Some (Some (Exited 0), b, [])
         else case rd_wait r of
                Some st \<Rightarrow> Some (Some st, b1, q)
              | None \<Rightarrow> if rd_elapsed r > tmo then Some (None, b1, q)
                        else if rd_poll_fails r then Some (Some (Exited 0), b1, [])
                        else child_loop tmo rs q b1)"

definition run_child :: "string \<Rightarrow> int \<Rightarrow> round list \<Rightarrow> (int \<times> bytes \<times> string) option" where
  "run_child cmd tmo rs =
     (case child_loop tmo rs [] [] of
        None \<Rightarrow> None
      | Some (None, b, q) \<Rightarrow> Some (-2, b, fit 256 (''child timed out after '' @ show_int tmo @ ''s and was killed''))
      | Some (Some (Exited c), b, q) \<Rightarrow>
          Some (if c = 127 then (-1, b, fit 256 (''exec failed: '' @ cmd)) else if c = 0 then (0, b, []) else (1, b, []))
      | Some (Some (Signaled g), b, q) \<Rightarrow> Some (-1, b, fit 256 (''child killed by signal '' @ show_int g)))"

text \<open>What the child writes up to its end is the output and then what is thrown away.\<close>

lemma child_loop_Cons:
  assumes "length b + length (take 8192 (pipe @ rd_before r)) \<le> OUT_CAP" "\<not> rd_fails r" "\<not> rd_poll_fails r"
  shows "child_loop tmo (r # rs) pipe b =
    (let got = take 8192 (pipe @ rd_before r); q = drop 8192 (pipe @ rd_before r) @ rd_after r
     in case rd_wait r of Some st \<Rightarrow> Some (Some st, b @ got, q)
        | None \<Rightarrow> if rd_elapsed r > tmo then Some (None, b @ got, q) else child_loop tmo rs q (b @ got))"
  by (subst child_loop.simps) (simp only: Let_def assms if_True if_False)

lemma child_loop_output:
  assumes "child_loop tmo rs pipe b = Some (Some st, out, lost)"
    and "length (b @ pipe @ concat (map (\<lambda>r. rd_before r @ rd_after r) rs)) \<le> OUT_CAP"
    and "\<forall>r \<in> set rs. \<not> rd_fails r \<and> \<not> rd_poll_fails r"
  shows "\<exists>n < length rs. rd_wait (rs ! n) = Some st \<and>
    out @ lost = b @ pipe @ concat (map (\<lambda>r. rd_before r @ rd_after r) (take (Suc n) rs))"
  using assms
proof (induction rs arbitrary: pipe b)
  case (Cons r rs)
  obtain got q where gq: "got = take 8192 (pipe @ rd_before r)" "q = drop 8192 (pipe @ rd_before r) @ rd_after r"
    by blast
  have cat: "got @ q = pipe @ rd_before r @ rd_after r"
    unfolding gq by (metis append.assoc append_take_drop_id)
  have len: "length got + length q = length pipe + length (rd_before r) + length (rd_after r)"
    using arg_cong [OF cat, of length] by simp
  have le: "length b + length (take 8192 (pipe @ rd_before r)) \<le> OUT_CAP" using Cons.prems(2) by simp
  have ok: "\<not> rd_fails r" "\<not> rd_poll_fails r" using Cons.prems(3) by auto
  note step = Cons.prems(1) [unfolded child_loop_Cons [OF le ok] Let_def, folded gq]
  show ?case
  proof (cases "rd_wait r")
    case None
    then have rec: "child_loop tmo rs q (b @ got) = Some (Some st, out, lost)" using step by (simp split: if_split_asm)
    have "length ((b @ got) @ q @ concat (map (\<lambda>r. rd_before r @ rd_after r) rs)) \<le> OUT_CAP"
      using Cons.prems(2) len by simp
    then obtain n where n: "n < length rs" "rd_wait (rs ! n) = Some st"
      "out @ lost = (b @ got) @ q @ concat (map (\<lambda>r. rd_before r @ rd_after r) (take (Suc n) rs))"
      using Cons.IH [OF rec] Cons.prems(3) by auto
    have "out @ lost = b @ (got @ q) @ concat (map (\<lambda>r. rd_before r @ rd_after r) (take (Suc n) rs))"
      using n(3) by simp
    then show ?thesis unfolding cat using n by (intro exI [of _ "Suc n"]) simp
  next
    case (Some x)
    then have "x = st" "out = b @ got" "lost = q" using step by auto
    then show ?thesis using Some cat by (intro exI [of _ 0]) simp
  qed
qed simp

subsection \<open>Component tests\<close>

record component =
  cp_name :: string
  cp_dir :: string
  cp_test :: string

function file_lines :: "bytes \<Rightarrow> string list" where
  "file_lines s = (if s = [] then [] else chop_eol (cstr (fst (fgets 4096 s))) # file_lines (snd (fgets 4096 s)))"
  by pat_completeness auto
termination
  by (relation "measure length") (auto simp: fgets_def Let_def)

declare file_lines.simps [simp del]

definition data_lines :: "bytes \<Rightarrow> string list" where
  "data_lines s = filter (\<lambda>l. l \<noteq> [] \<and> hd l \<noteq> CHR ''#'') (file_lines s)"

definition manifest_line :: "string \<Rightarrow> component option" where
  "manifest_line l =
     (let c = tab_split l 8
      in if length c < 5 \<or> c ! 4 = [] then None
         else Some \<lparr>cp_name = fit 128 (c ! 0), cp_dir = fit 256 (c ! 1), cp_test = fit 512 (c ! 4)\<rparr>)"

definition manifest_parse :: "bytes \<Rightarrow> component list" where
  "manifest_parse s = List.map_filter manifest_line (data_lines s)"

definition manifest_path :: "cfg \<Rightarrow> string" where
  "manifest_path c = fit 2048 (cf_repo c @ ''/docs/stack.tsv'')"

definition summary_line :: "bytes \<Rightarrow> string option" where
  "summary_line out = (case strtok_all (\<lambda>c. c = nl) (cstr out) of [] \<Rightarrow> None | l # ls \<Rightarrow> Some (take 200 (last (l # ls))))"

definition or_else :: "string option \<Rightarrow> string \<Rightarrow> string" where
  "or_else s d = (case s of None \<Rightarrow> d | Some x \<Rightarrow> if x = [] then d else x)"

definition test_line :: "string \<Rightarrow> int \<times> bytes \<times> string \<Rightarrow> string" where
  "test_line name r =
     (case r of (rc, out, err) \<Rightarrow>
        name @ (if rc = 0 then '': pass ('' @ or_else (summary_line out) ''exit 0'' @ '')''
                else if rc = -2 then '': FAIL timed out (killed)''
                else if rc = 1 then '': FAIL exit '' @ or_else (summary_line out) ''nonzero''
                else '': FAIL '' @ err) @ [nl])"

text \<open>Each test is its label, the directory it runs in and the command. The number that passed, and the lines.\<close>

fun run_tests :: "'w qenv \<Rightarrow> (string \<times> string \<times> string) list \<Rightarrow> 'w \<Rightarrow> nat \<times> string \<times> 'w" where
  "run_tests v [] w = (0, [], w)"
| "run_tests v ((name, cwd, cmd) # ts) w =
     (let (r, w1) = e_child v [''sh'', ''-c'', cmd] (Some cwd) w; (p, ev, w2) = run_tests v ts w1
      in ((if fst r = 0 then Suc p else p), test_line name r @ ev, w2))"

definition tests_finding :: "string \<Rightarrow> nat \<Rightarrow> nat \<Rightarrow> string \<Rightarrow> finding" where
  "tests_finding what nr passed ev =
     ev_block (set_finding ''component-tests'' (if nr = passed then RPass else RFail)
       (show_nat passed @ CHR ''/'' # show_nat nr @ CHR '' '' # what @ '' test commands passed'')) ev"

definition component_dir :: "'w qenv \<Rightarrow> cfg \<Rightarrow> component \<Rightarrow> string" where
  "component_dir v c x =
     (let sub = fit 2048 (cf_repo c @ CHR ''/'' # cp_dir x)
      in if cp_dir x \<noteq> [] \<and> e_kind v sub = Some Directory then sub else cf_repo c)"

definition check_component_tests :: "'w qenv \<Rightarrow> cfg \<Rightarrow> 'w \<Rightarrow> finding \<times> 'w" where
  "check_component_tests v c w =
     (let m = manifest_path c; cmds = pc_test (cf_proj c)
      in case e_file v m of
           None \<Rightarrow>
             if cmds = [] then
               (set_finding ''component-tests'' RSkip
                 (''stack manifest not found: '' @ m @ '' (no .exoqms.json test commands either)''), w)
             else (let ts = map (\<lambda>i. (''test['' @ show_nat i @ '']'', cf_repo c, cmds ! i)) [0..<length cmds];
                       (p, ev, w1) = run_tests v ts w
                   in (tests_finding ''project'' (length ts) p ev, w1))
         | Some s \<Rightarrow>
             (let cs = manifest_parse s
              in if cs = [] then
                   (set_finding ''component-tests'' RSkip (''no component in '' @ m @ '' declares a test command''), w)
                 else (let ts = map (\<lambda>x. (cp_name x, component_dir v c x, cp_test x)) cs; (p, ev, w1) = run_tests v ts w
                       in (tests_finding ''component'' (length ts) p ev, w1))))"

subsection \<open>Documentation\<close>

text \<open>\<open>sscanf\<close>: white space in the format, a literal, and \<open>%d\<close>.\<close>

definition fmt_lit :: "string \<Rightarrow> string \<Rightarrow> string option" where
  "fmt_lit lit s = (if take (length lit) s = lit then Some (drop (length lit) s) else None)"

definition fmt_ws :: "string \<Rightarrow> string" where
  "fmt_ws s = dropWhile isspace s"

definition fmt_int :: "string \<Rightarrow> (int \<times> string) option" where
  "fmt_int s = (if snd (strtoll s) = s then None else Some (atoi s, snd (strtoll s)))"

text \<open>The numbers of \<open>=== audit: %d pass, %d fail (score %d%%)\<close>, -1 for those that are not reached.\<close>

definition scan_summary :: "string \<Rightarrow> int \<times> int \<times> int" where
  "scan_summary p =
     (case fmt_int (drop 10 p) of
        None \<Rightarrow> (-1, -1, -1)
      | Some (a, r) \<Rightarrow>
          (case Option.bind (fmt_lit ''pass,'' (fmt_ws r)) fmt_int of
             None \<Rightarrow> (a, -1, -1)
           | Some (b, r) \<Rightarrow>
               (case Option.bind (fmt_lit ''fail'' (fmt_ws r)) (\<lambda>r. Option.bind (fmt_lit ''(score'' (fmt_ws r)) fmt_int) of
                  None \<Rightarrow> (a, b, -1)
                | Some (c, _) \<Rightarrow> (a, b, c))))"

definition audit_summary :: "bytes \<Rightarrow> int \<times> int \<times> int" where
  "audit_summary out =
     (case find_sub (cstr out) ''=== audit:'' of None \<Rightarrow> (-1, -1, -1) | Some i \<Rightarrow> scan_summary (drop i (cstr out)))"

definition doc_line :: "'w qenv \<Rightarrow> cfg \<Rightarrow> string \<Rightarrow> bool" where
  "doc_line v c d = (e_kind v (fit 2048 (cf_repo c @ CHR ''/'' # d)) \<noteq> None)"

definition check_doc_compliance :: "'w qenv \<Rightarrow> cfg \<Rightarrow> exo \<Rightarrow> 'w \<Rightarrow> finding \<times> 'w" where
  "check_doc_compliance v c e w =
     (let m = manifest_path c; docs = pc_docs (cf_proj c)
      in if e_kind v m = None \<and> docs \<noteq> [] then
           (let ok = filter (doc_line v c) docs;
                ev = concat (map (\<lambda>d. (if doc_line v c d then ''present '' else ''missing '') @ d @ [nl]) docs)
            in (ev_block (set_finding ''doc-compliance'' (if length ok = length docs then RPass else RFail)
                  (show_nat (length ok) @ CHR ''/'' # show_nat (length docs) @ '' required docs present (.exoqms.json)'')) ev, w))
         else
           (let url = fit 512 (''http://'' @ x_host e @ CHR '':'' # show_int (x_port e));
                ((rc, out, err), w1) = e_child v [cf_exodoc c, ''audit'', ''--live'', ''--stack'', m, ''--base'', cf_repo c,
                  ''--exomind'', url] (Some (cf_repo c)) w;
                (p, fl, sc) = audit_summary out
            in (if p < 0 then
                  set_finding ''doc-compliance'' RFail (''no audit summary line (exit '' @
                    (if rc = -2 then ''timed out'' else if rc = -1 then err else if rc = 0 then ''0'' else ''nonzero'') @ '')'')
                else set_finding ''doc-compliance'' (if fl = 0 then RPass else RFail)
                    (show_int p @ '' pass, '' @ show_int fl @ '' fail (score '' @ show_int sc @ ''%)''), w1)))"

subsection \<open>Agents\<close>

definition agent_names :: "cfg \<Rightarrow> ctx \<Rightarrow> string list" where
  "agent_names c k =
     filter (\<lambda>a. a \<noteq> [])
       (map (dropWhile (\<lambda>x. x = CHR '' '')) (strtok_all (\<lambda>x. x = CHR '','') (or_else (ck_agents k) (cf_agents c))))"

text \<open>The number of agents without a status and the lines, or the error of the request that failed.\<close>

fun status_scan :: "'w net \<Rightarrow> exo \<Rightarrow> string list \<Rightarrow> 'w \<Rightarrow> (string + nat \<times> string) \<times> 'w" where
  "status_scan net e [] w = (Inr (0, []), w)"
| "status_scan net e (a # as) w =
     (let key = ''agent:'' @ a @ '':status''
      in case qms_get net e (fit 512 key) w of
           (Inl err, w1) \<Rightarrow> (Inl err, w1)
         | (Inr r, w1) \<Rightarrow>
             (case status_scan net e as w1 of
                (Inl err, w2) \<Rightarrow> (Inl err, w2)
              | (Inr (n, ev), w2) \<Rightarrow>
                  (Inr (if r = None then (Suc n, ''missing '' @ key @ nl # ev) else (n, key @ '' ok'' @ nl # ev)), w2)))"

definition note_fresh :: "int \<Rightarrow> string \<Rightarrow> bool" where
  "note_fresh cutoff l \<longleftrightarrow>
     take 5 l = ''note:'' \<and> CHR '':'' \<in> set (drop 5 l) \<and>
     fst (strtoll (takeWhile (\<lambda>x. x \<noteq> CHR '':'') (drop 5 l))) \<ge> cutoff"

definition fresh_notes :: "int \<Rightarrow> bytes \<Rightarrow> nat" where
  "fresh_notes cutoff body = length (filter (note_fresh cutoff) (strtok_all (\<lambda>x. x = nl) (cstr body)))"

text \<open>The line on exosched, none when its URL cannot be parsed.\<close>

definition sched_line :: "'w qenv \<Rightarrow> cfg \<Rightarrow> 'w \<Rightarrow> string \<times> 'w" where
  "sched_line v c w =
     (case exo_init (cf_sched c) of
        None \<Rightarrow> ([], w)
      | Some e \<Rightarrow>
          (case exo_request (e_net v e) e ''GET'' ''/ping'' [] False w of
             (Inr (st, b), w1) \<Rightarrow> (if st = 200 then ''exosched pong'' @ [nl] else ''exosched unreachable'' @ [nl], w1)
           | (Inl err, w1) \<Rightarrow> (''exosched unreachable'' @ [nl], w1)))"

definition check_dogfood :: "'w qenv \<Rightarrow> cfg \<Rightarrow> exo \<Rightarrow> ctx \<Rightarrow> 'w \<Rightarrow> finding \<times> 'w" where
  "check_dogfood v c e k w =
     (let as = agent_names c k
      in case status_scan (e_net v e) e as w of
           (Inl err, w1) \<Rightarrow> (set_finding ''dogfood'' RFail (''exomind unreachable: '' @ err), w1)
         | (Inr (missing, ev), w1) \<Rightarrow>
             (case exo_request (e_net v e) e ''GET'' ''/notes?limit=200'' [] False w1 of
                (Inl err, w2) \<Rightarrow> (set_finding ''dogfood'' RFail (''exomind unreachable: '' @ err), w2)
              | (Inr (st, b), w2) \<Rightarrow>
                  (let fresh = fresh_notes (e_now v * 1000 - 86400000) b;
                       need = (if cf_notes c > 0 then cf_notes c else 5);
                       nts = show_nat fresh @ '' notes in last 24h (need '' @ show_int need @ '')'';
                       (sl, w3) = sched_line v c w2
                   in (ev_block (set_finding ''dogfood'' (if missing > 0 \<or> int fresh < need then RFail else RPass)
                         (show_nat (length as - missing) @ CHR ''/'' # show_nat (length as) @ '' agents active, '' @ nts))
                         (ev @ nts @ nl # sl), w3))))"

subsection \<open>The user interface\<close>

definition check_ui_audit :: "'w qenv \<Rightarrow> cfg \<Rightarrow> ctx \<Rightarrow> 'w \<Rightarrow> finding \<times> 'w" where
  "check_ui_audit v c k w =
     (let t = or_else (ck_target k) []
      in if cf_ui c = [] then (set_finding ''ui-audit'' RSkip ''no ui binary configured (--ui)'', w)
         else if t = [] then (set_finding ''ui-audit'' RSkip ''no target given (audit ?target=)'', w)
         else (let ((rc, out, err), w1) = e_child v [cf_ui c, t, ''--json''] None w; s = cstr out
               in (if rc = 0 then set_finding ''ui-audit'' RPass (''0 findings on '' @ t)
                   else if rc = 1 then
                     (let f = set_finding ''ui-audit'' RFail (show_nat (length (after_subs (jname ''check'') s)) @ '' finding(s) on '' @
                            t @ (if s \<noteq> [] then '': '' else []));
                          o1 = chop_eol (take 200 s)
                      in if s \<noteq> [] \<and> length (f_ev f) + length o1 + 2 < EVID_MAX then ev_cat f o1 else f)
                   else if rc = -2 then set_finding ''ui-audit'' RFail (''timed out after '' @ show_int CHECK_TIMEOUT_S @ ''s on '' @ t)
                   else set_finding ''ui-audit'' RFail err, w1)))"

end
