(* ===== verification/Exo_Qms_Rework.thy ===== *)
theory Exo_Qms_Rework
  imports Exo_Qms_Checks
begin

text \<open>
  The two checks of exoqms on derived metrics (\<open>exoqms/src/checks.c\<close>): the trend of the passing
  tests over the iterations, and the rework rate over the audit records; the exchange sort they share.
\<close>

subsection \<open>The exchange sort\<close>

text \<open>The inner loop: the least element so far moves to the front and the one it replaces takes its place.\<close>

fun exchange_pass :: "('a \<Rightarrow> int) \<Rightarrow> 'a \<Rightarrow> 'a list \<Rightarrow> 'a \<times> 'a list" where
  "exchange_pass key x [] = (x, [])"
| "exchange_pass key x (y # ys) =
     (if key y < key x then (let (m, r) = exchange_pass key y ys in (m, x # r))
      else (let (m, r) = exchange_pass key x ys in (m, y # r)))"

lemma exchange_pass_length: "length (snd (exchange_pass key x ys)) = length ys"
  by (induction key x ys rule: exchange_pass.induct) (auto split: prod.split)

function exchange_sort :: "('a \<Rightarrow> int) \<Rightarrow> 'a list \<Rightarrow> 'a list" where
  "exchange_sort key [] = []"
| "exchange_sort key (x # xs) = fst (exchange_pass key x xs) # exchange_sort key (snd (exchange_pass key x xs))"
  by pat_completeness auto
termination
  by (relation "measure (\<lambda>(key, xs). length xs)") (simp_all add: exchange_pass_length)

lemma exchange_pass_min:
  "exchange_pass key x ys = (m, r) \<Longrightarrow> mset (m # r) = mset (x # ys) \<and> (\<forall>z \<in> set (x # ys). key m \<le> key z)"
proof (induction key x ys arbitrary: m r rule: exchange_pass.induct)
  case (2 key x y ys)
  show ?case
  proof (cases "key y < key x")
    case True
    then obtain r' where "exchange_pass key y ys = (m, r')" "r = x # r'"
      using "2.prems" by (auto split: prod.splits)
    then show ?thesis using "2.IH"(1) [OF True] True by force
  next
    case False
    then obtain r' where "exchange_pass key x ys = (m, r')" "r = y # r'"
      using "2.prems" by (auto split: prod.splits)
    then show ?thesis using "2.IH"(2) [OF False] False by force
  qed
qed simp

lemma exchange_sort_mset: "mset (exchange_sort key xs) = mset xs"
proof (induction key xs rule: exchange_sort.induct)
  case (2 key x xs)
  then show ?case using exchange_pass_min [of key x xs] by (cases "exchange_pass key x xs") auto
qed simp

lemma exchange_sort_set [simp]: "set (exchange_sort key xs) = set xs"
  by (metis exchange_sort_mset set_mset_mset)

lemma exchange_sort_length [simp]: "length (exchange_sort key xs) = length xs"
  by (metis exchange_sort_mset size_mset)

lemma exchange_sort_sorted: "sorted (map key (exchange_sort key xs))"
proof (induction key xs rule: exchange_sort.induct)
  case (2 key x xs)
  obtain m r where mr: "exchange_pass key x xs = (m, r)" by fastforce
  have "set (m # r) = set (x # xs)" using exchange_pass_min [OF mr] by (metis set_mset_mset)
  then have "\<forall>z \<in> set r. key m \<le> key z" using exchange_pass_min [OF mr] by (metis list.set_intros(2))
  then show ?case using "2.IH" mr by simp
qed simp

text \<open>Equal keys do not keep their order.\<close>

lemma exchange_sort_unstable:
  "exchange_sort fst [(2, ''a''), (2, ''b''), (1, ''c'')] = [(1, ''c''), (2, ''b''), (2, ''a'')]"
  by (simp add: Let_def)

subsection \<open>The trend\<close>

definition key_has_suffix :: "string \<Rightarrow> string \<Rightarrow> bool" where
  "key_has_suffix s suf \<longleftrightarrow> length suf \<le> length s \<and> drop (length s - length suf) s = suf"

text \<open>The iteration of a key \<open>metric:iter<N>:tests_passing\<close>.\<close>

definition trend_key :: "string \<Rightarrow> int option" where
  "trend_key k =
     (let d = drop 11 k; rest = snd (strtoll d)
      in if length k > 14 \<and> key_has_suffix k '':tests_passing'' \<and> take 11 k = ''metric:iter'' \<and> d \<noteq> [] \<and> isdigit (hd d) \<and>
            rest \<noteq> [] \<and> hd rest = CHR '':'' then Some (atoi d) else None)"

text \<open>The values that can be read as numbers, in the order of the iterations, and their lines.\<close>

fun trend_fetch :: "'w net \<Rightarrow> exo \<Rightarrow> string list \<Rightarrow> 'w \<Rightarrow> int list \<times> string \<times> 'w" where
  "trend_fetch net e [] w = ([], [], w)"
| "trend_fetch net e (k # ks) w =
     (let (r, w1) = qms_get net e k w; (vs, ls, w2) = trend_fetch net e ks w1
      in case r of
           Inr (Some x) \<Rightarrow>
             (let s = chop_eol x; n = fst (strtoll s)
              in if snd (strtoll s) = s then (vs, ls, w2) else (n # vs, k @ tab # show_int n @ nl # ls, w2))
         | _ \<Rightarrow> (vs, ls, w2))"

definition trend_values :: "'w net \<Rightarrow> exo \<Rightarrow> 'w \<Rightarrow> (int list \<times> string) option \<times> 'w" where
  "trend_values net e w =
     (case client_list net e ''metric:iter'' w of
        (Inl err, w1) \<Rightarrow> (None, w1)
      | (Inr ks, w1) \<Rightarrow>
          (let es = List.map_filter (\<lambda>k. map_option (\<lambda>n. (n, k)) (trend_key k)) ks;
               (vs, ls, w2) = trend_fetch net e (map snd (exchange_sort fst es)) w1
           in (Some (vs, ls), w2)))"

text \<open>The verdict on the two last values and the stagnation flag.\<close>

definition trend_verdict :: "int list \<Rightarrow> string \<times> bool" where
  "trend_verdict vals =
     (let n = length vals; a = vals ! (n - 2); b = vals ! (n - 1);
          v = (if b < a then ''down'' else if b > a then ''up'' else ''flat'')
      in if n < 2 then (''flat'', False) else (v, v \<noteq> ''up''))"

text \<open>The lines as \<open>key=value\<close> in a buffer of 1024, until less than 32 are left: the offset and the text.\<close>

fun metric_seq :: "string list \<Rightarrow> nat \<Rightarrow> string \<Rightarrow> nat \<times> string" where
  "metric_seq [] off s = (off, s)"
| "metric_seq (l # ls) off s =
     (if off \<ge> 1024 - 32 then (off, s)
      else if tab \<notin> set l then metric_seq ls off s
      else (let k = takeWhile (\<lambda>x. x \<noteq> tab) l; t = k @ CHR ''='' # drop (Suc (length k)) l @ '' ''
            in metric_seq ls (off + length t) (s @ fit (1024 - off) t)))"

definition velocity_key :: "string \<Rightarrow> string option" where
  "velocity_key k =
     (if take 16 k = ''metric:velocity:'' \<and> drop 16 k \<noteq> [] \<and> isdigit (hd (drop 16 k)) then Some (drop 16 k) else None)"

text \<open>The newest date so far and the keys of the rate and of the cycles.\<close>

definition velocity_step :: "string \<Rightarrow> int \<times> string \<times> string \<Rightarrow> int \<times> string \<times> string" where
  "velocity_step k st =
     (case (velocity_key k, st) of
        (None, _) \<Rightarrow> st
      | (Some d, (best, rk, ck)) \<Rightarrow>
          (let date = fst (strtoll d)
           in if date < best then st
              else (date, if key_has_suffix k '':rework_rate'' then fit 512 k else rk,
                    if key_has_suffix k '':rework_cycles'' then fit 512 k else ck)))"

text \<open>The rate, when there is one, and the cycles.\<close>

definition rework_latest :: "'w net \<Rightarrow> exo \<Rightarrow> 'w \<Rightarrow> (string + int option \<times> int) \<times> 'w" where
  "rework_latest net e w =
     (case client_list net e ''metric:velocity:'' w of
        (Inl err, w1) \<Rightarrow> (Inl err, w1)
      | (Inr ks, w1) \<Rightarrow>
          (let (best, rk, ck) = fold velocity_step ks (-1, [], []);
               (r, w2) = (if rk = [] then (Inr None, w1) else qms_get net e rk w1);
               (c, w3) = (if ck = [] then (Inr None, w2) else qms_get net e ck w2)
           in (Inr (case r of Inr (Some x) \<Rightarrow> Some (atoi x) | _ \<Rightarrow> None, case c of Inr (Some x) \<Rightarrow> atoi x | _ \<Rightarrow> 0), w3)))"

text \<open>Division and remainder of C, towards zero; a rate in tenths of a per cent.\<close>

definition tenths :: "int \<Rightarrow> string" where
  "tenths r = (let q = (if r < 0 then - ((- r) div 10) else r div 10) in show_int q @ CHR ''.'' # show_int (r - 10 * q) @ ''%'')"

definition check_metrics :: "'w qenv \<Rightarrow> exo \<Rightarrow> 'w \<Rightarrow> finding \<times> 'w" where
  "check_metrics v e w =
     (case trend_values (e_net v e) e w of
        (None, w1) \<Rightarrow> (set_finding ''metrics'' RFail ''exomind unreachable'', w1)
      | (Some (vals, ls), w1) \<Rightarrow>
          if length vals < 2 then
            (set_finding ''metrics'' RSkip (''need at least 2 iterations of metric:iterN:tests_passing (found '' @
               show_nat (length vals) @ '')''), w1)
          else
            (let (tv, flag) = trend_verdict vals; (off, s) = metric_seq (strtok_all (\<lambda>x. x = nl) ls) 0 [];
                 (r, w2) = rework_latest (e_net v e) e w1;
                 s1 = (case r of
                         Inr (Some rate, cyc) \<Rightarrow>
                           (let t = fit 128 (''rework_rate='' @ tenths rate @ '' rework_cycles='' @ show_int cyc @ '' '')
                            in if off + length t < 1023 then s @ t else s)
                       | _ \<Rightarrow> s)
             in (if tv = ''down'' then set_finding ''metrics'' RFail (''trend '' @ tv @ '' (stagnation flag set): '' @ s1)
                 else set_finding ''metrics'' RPass
                   (''trend '' @ tv @ '' (stagnation flag '' @ (if flag then ''set'' else ''none'') @ ''): '' @ s1), w2)))"

subsection \<open>Rework\<close>

datatype rwstate = Unknown | Failed | Passed

record rwchk =
  rk_id :: string
  rk_cycles :: nat
  rk_state :: rwstate

text \<open>The check id and whether it failed, of a line of findings that carries a signal.\<close>

definition verdict_line :: "string \<Rightarrow> (string \<times> bool) option" where
  "verdict_line l =
     (let f = tab_split l 3
      in if length f < 2 \<or> (f ! 1 \<noteq> ''fail'' \<and> f ! 1 \<noteq> ''pass'') then None else Some (f ! 0, f ! 1 = ''fail''))"

text \<open>One verdict on a check, and whether it ends a cycle.\<close>

definition rw_step :: "bool \<Rightarrow> rwchk \<Rightarrow> rwchk" where
  "rw_step is_fail c =
     (if is_fail then c\<lparr>rk_cycles := (if rk_state c = Passed then Suc (rk_cycles c) else rk_cycles c), rk_state := Failed\<rparr>
      else if rk_state c = Failed then c\<lparr>rk_state := Passed\<rparr> else c)"

definition rw_reopens :: "bool \<Rightarrow> rwchk \<Rightarrow> nat" where
  "rw_reopens is_fail c = (if is_fail \<and> rk_state c = Passed then 1 else 0)"

text \<open>
  The entry of a check, made when no entry has its id; an entry keeps 63 characters of it, so longer
  ids are never found again. The second component is the cycles over all checks.
\<close>

fun rw_update :: "string \<Rightarrow> bool \<Rightarrow> rwchk list \<Rightarrow> rwchk list \<times> nat" where
  "rw_update i is_fail [] =
     (let c = \<lparr>rk_id = fit 64 i, rk_cycles = 0, rk_state = Unknown\<rparr> in ([rw_step is_fail c], rw_reopens is_fail c))"
| "rw_update i is_fail (c # cs) =
     (if rk_id c = i then (rw_step is_fail c # cs, rw_reopens is_fail c)
      else (let (cs', n) = rw_update i is_fail cs in (c # cs', n)))"

definition rw_verdict :: "string \<times> bool \<Rightarrow> rwchk list \<times> nat \<Rightarrow> rwchk list \<times> nat" where
  "rw_verdict x st = (case (x, st) of ((i, f), (cs, n)) \<Rightarrow> (let (cs', m) = rw_update i f cs in (cs', n + m)))"

definition verdicts :: "audit \<Rightarrow> (string \<times> bool) list" where
  "verdicts a = List.map_filter verdict_line (strtok_all (\<lambda>x. x = nl) (a_findings a))"

definition rw_run :: "audit list \<Rightarrow> rwchk list \<times> nat" where
  "rw_run as = fold rw_verdict (concat (map verdicts as)) ([], 0)"

text \<open>The seconds from the first audit of a name to the first with score 100, for the names that reach one.\<close>

definition slug_of :: "string \<Rightarrow> string" where
  "slug_of nm = map (\<lambda>c. if isalnum c \<or> c = CHR ''-'' \<or> c = CHR ''_'' then c else CHR ''_'') (take 255 nm)"

definition merge_time :: "string \<Rightarrow> audit list \<Rightarrow> int" where
  "merge_time nm as = (case find (\<lambda>a. a_name a = nm \<and> a_score a = 100) as of None \<Rightarrow> -1 | Some a \<Rightarrow> a_sched a)"

fun ttm_lines :: "audit list \<Rightarrow> string list \<Rightarrow> (string \<times> int) list" where
  "ttm_lines [] seen = []"
| "ttm_lines (a # as) seen =
     (let nm = a_name a; m = merge_time nm (a # as)
      in if nm = [] \<or> nm \<in> set seen \<or> m < 0 then ttm_lines as (nm # seen)
         else (slug_of nm, m - a_sched a) # ttm_lines as (nm # seen))"

text \<open>The metrics are stored one after the other; a failure is only printed.\<close>

fun persist_all :: "'w net \<Rightarrow> exo \<Rightarrow> (string \<times> string) list \<Rightarrow> 'w \<Rightarrow> 'w" where
  "persist_all net e [] w = w"
| "persist_all net e ((k, x) # r) w = persist_all net e r (snd (qms_persist net e (fit 512 k) x w))"

definition rework_metrics :: "string \<Rightarrow> int \<Rightarrow> nat \<Rightarrow> rwchk list \<Rightarrow> (string \<times> int) list \<Rightarrow> (string \<times> string) list" where
  "rework_metrics day rate cycles cs ttm =
     (let d = ''metric:velocity:'' @ day
      in [(d @ '':rework_rate'', show_int rate), (d @ '':rework_cycles'', show_nat cycles)] @
         map (\<lambda>c. (d @ '':rework:'' @ rk_id c, show_nat (rk_cycles c))) (filter (\<lambda>c. rk_cycles c > 0) cs) @
         map (\<lambda>(sl, n). (d @ '':ttm:'' @ sl, show_int n)) ttm)"

definition REWORK_THRESHOLD_DEFAULT_PERMILLE :: int where "REWORK_THRESHOLD_DEFAULT_PERMILLE = 100"

definition rework_finding :: "int \<Rightarrow> int \<Rightarrow> nat \<Rightarrow> nat \<Rightarrow> rwchk list \<Rightarrow> finding" where
  "rework_finding thr rate cycles n cs =
     (let off = join_with (CHR '' '') (map (\<lambda>c. rk_id c @ CHR ''='' # show_nat (rk_cycles c)) (filter (\<lambda>c. rk_cycles c > 0) cs));
          head = ''rework rate '' @ tenths rate @ '' ('' @ show_nat cycles @ '' cycle(s) over '' @ show_nat n @ '' audits''
      in if rate > thr then
           set_finding ''rework'' RFail (head @ '') > threshold '' @ show_int (thr div 10) @ ''%'' @ (if off = [] then [] else '': '' @ off))
         else set_finding ''rework'' RPass (head @ '', threshold '' @ show_int (thr div 10) @ ''%): '' @ off))"

text \<open>
  With no line of merge times the buffer that \<open>strtok_r\<close> is called on is NULL, and so is its save
  pointer: the process dies, after the other metrics are stored.
\<close>

definition check_rework :: "'w qenv \<Rightarrow> exo \<Rightarrow> 'w \<Rightarrow> (finding \<times> 'w) option" where
  "check_rework v e w =
     (let net = e_net v e
      in case client_list net e AUDIT_KEY_PREFIX w of
           (Inl err, w1) \<Rightarrow> Some (set_finding ''rework'' RFail (''exomind unreachable: '' @ err), w1)
         | (Inr ks, w1) \<Rightarrow>
             (let (vs, w2) = fetch_all net e ks w1; as = List.map_filter audit_parse (map snd vs)
              in if as = [] then Some (set_finding ''rework'' RSkip ''no audit records yet (exoqms:audit:*)'', w2)
                 else (let as = exchange_sort a_sched as; (cs, cycles) = rw_run as; ttm = ttm_lines as [];
                           rate = int (cycles * 1000 div length as);
                           thr = (case e_rework v of None \<Rightarrow> REWORK_THRESHOLD_DEFAULT_PERMILLE | Some t \<Rightarrow> t)
                       in if ttm = [] then None
                          else Some (rework_finding thr rate cycles (length as) cs,
                                     persist_all net e (rework_metrics (e_day v) rate cycles cs ttm) w2))))"

subsection \<open>What a cycle is\<close>

text \<open>The fails at which a check that had failed before and passed since fails again.\<close>

definition reopened :: "bool list \<Rightarrow> nat set" where
  "reopened vs = {i. i < length vs \<and> vs ! i \<and> i > 0 \<and> \<not> vs ! (i - 1) \<and> (\<exists>j < i - 1. vs ! j)}"

definition rw_after :: "bool list \<Rightarrow> rwstate" where
  "rw_after vs = (if True \<notin> set vs then Unknown else if last vs then Failed else Passed)"

lemma reopened_snoc:
  "reopened (vs @ [f]) = reopened vs \<union> (if f \<and> rw_after vs = Passed then {length vs} else {})"
proof -
  have ex: "(\<exists>j < length vs - 1. vs ! j) \<longleftrightarrow> True \<in> set vs" if "vs \<noteq> []" "\<not> vs ! (length vs - 1)"
  proof
    assume "True \<in> set vs"
    then obtain j where j: "j < length vs" "vs ! j" by (auto simp: in_set_conv_nth)
    then have "j \<noteq> length vs - 1" using that by auto
    then show "\<exists>j < length vs - 1. vs ! j" using j by (intro exI [of _ j]) linarith
  next
    assume "\<exists>j < length vs - 1. vs ! j"
    then obtain j where "j < length vs - 1" "vs ! j" by blast
    moreover have "j < length vs" using \<open>j < length vs - 1\<close> by linarith
    ultimately show "True \<in> set vs" using nth_mem [of j vs] by simp
  qed
  show ?thesis
  proof (intro set_eqI)
    fix i
    show "i \<in> reopened (vs @ [f]) \<longleftrightarrow> i \<in> reopened vs \<union> (if f \<and> rw_after vs = Passed then {length vs} else {})"
    proof (cases "i < length vs")
      case True
      then have "\<And>j. j \<le> i \<Longrightarrow> (vs @ [f]) ! j = vs ! j" by (simp add: nth_append)
      then have "(\<exists>j < i - 1. (vs @ [f]) ! j) \<longleftrightarrow> (\<exists>j < i - 1. vs ! j)"
        "(vs @ [f]) ! i = vs ! i" "(vs @ [f]) ! (i - 1) = vs ! (i - 1)" by auto
      then show ?thesis using True unfolding reopened_def by (simp only: Un_iff mem_Collect_eq length_append) auto
    next
      case False
      have "(vs @ [f]) ! j = vs ! j" if "j < length vs - 1" for j
      proof -
        have "j < length vs" using that by linarith
        then show ?thesis by (simp add: nth_append)
      qed
      then have j: "(\<exists>j < length vs - 1. (vs @ [f]) ! j) \<longleftrightarrow> (\<exists>j < length vs - 1. vs ! j)"
        by (intro ex_cong1 conj_cong refl) simp
      have "i = length vs" if "i \<in> reopened (vs @ [f])" using that False by (simp add: reopened_def)
      then have "i \<in> reopened (vs @ [f]) \<longleftrightarrow> i = length vs \<and> length vs \<in> reopened (vs @ [f])" by blast
      also have "length vs \<in> reopened (vs @ [f]) \<longleftrightarrow> f \<and> vs \<noteq> [] \<and> \<not> vs ! (length vs - 1) \<and> (\<exists>j < length vs - 1. vs ! j)"
        unfolding reopened_def mem_Collect_eq j by (cases "vs = []") (simp_all add: nth_append)
      also have "\<dots> \<longleftrightarrow> f \<and> rw_after vs = Passed"
      proof (cases "vs = []")
        case False
        then show ?thesis using ex [OF False] unfolding rw_after_def last_conv_nth [OF False] by (simp split del: if_split) (cases "vs ! (length vs - 1)"; cases "True \<in> set vs"; simp)
      qed (simp add: rw_after_def)
      finally show ?thesis using False by (auto simp: reopened_def)
    qed
  qed
qed

lemma reopened_finite [simp]: "finite (reopened vs)" and reopened_length: "length vs \<notin> reopened vs"
  by (auto simp: reopened_def)

lemma rw_after_snoc: "rw_after (vs @ [f]) = (if f then Failed else if rw_after vs = Unknown then Unknown else Passed)"
  by (auto simp: rw_after_def)

text \<open>The verdicts on one check, and its entry after them.\<close>

definition verdicts_on :: "string \<Rightarrow> (string \<times> bool) list \<Rightarrow> bool list" where
  "verdicts_on i xs = map snd (filter (\<lambda>x. fst x = i) xs)"

definition rw_entry :: "string \<Rightarrow> (string \<times> bool) list \<Rightarrow> rwchk" where
  "rw_entry i xs = \<lparr>rk_id = i, rk_cycles = card (reopened (verdicts_on i xs)), rk_state = rw_after (verdicts_on i xs)\<rparr>"

lemma rw_step_entry:
  "rw_step f (rw_entry i xs) = rw_entry i (xs @ [(i, f)]) \<and>
   rk_cycles (rw_entry i (xs @ [(i, f)])) = rk_cycles (rw_entry i xs) + rw_reopens f (rw_entry i xs)"
  using reopened_length [of "verdicts_on i xs"]
  by (cases "rw_after (verdicts_on i xs)")
     (auto simp: rw_entry_def rw_step_def rw_reopens_def verdicts_on_def reopened_snoc rw_after_snoc)

lemma rw_entry_other: "i \<noteq> k \<Longrightarrow> rw_entry i (xs @ [(k, f)]) = rw_entry i xs"
  by (simp add: rw_entry_def verdicts_on_def)

definition first_seen :: "(string \<times> bool) list \<Rightarrow> string list" where
  "first_seen xs = rev (remdups (rev (map fst xs)))"

lemma first_seen_snoc:
  "first_seen (xs @ [(i, f)]) = (if i \<in> fst ` set xs then first_seen xs else first_seen xs @ [i])"
  by (auto simp: first_seen_def)

lemma first_seen_distinct: "distinct (first_seen xs)" and first_seen_set: "set (first_seen xs) = fst ` set xs"
  by (auto simp: first_seen_def)

lemma rw_update_map:
  assumes "distinct is" "\<forall>k \<in> set is. rk_id (g k) = k" "length i < 64"
  shows "rw_update i f (map g is) =
    (if i \<in> set is then (map (\<lambda>k. if k = i then rw_step f (g k) else g k) is, rw_reopens f (g i))
     else (map g is @ [rw_step f \<lparr>rk_id = i, rk_cycles = 0, rk_state = Unknown\<rparr>], 0))"
  using assms
proof (induction "is")
  case Nil
  then show ?case by (simp add: fit_def rw_reopens_def Let_def)
next
  case (Cons k ks)
  show ?case
  proof (cases "k = i")
    case True
    then have "map (\<lambda>k. if k = i then rw_step f (g k) else g k) ks = map g ks" using Cons.prems(1) by auto
    then show ?thesis using True Cons.prems(2) by simp
  next
    case False
    then show ?thesis using Cons by auto
  qed
qed

lemma rw_entry_new:
  assumes "i \<notin> fst ` set xs"
  shows "rw_entry i xs = \<lparr>rk_id = i, rk_cycles = 0, rk_state = Unknown\<rparr>"
proof -
  have "filter (\<lambda>x. fst x = i) xs = []" using assms by (auto simp: filter_empty_conv)
  then have "verdicts_on i xs = []" by (simp add: verdicts_on_def)
  then show ?thesis by (simp add: rw_entry_def reopened_def rw_after_def)
qed

lemma rw_verdict_entries:
  assumes "length i < 64"
  shows "rw_verdict (i, f) (map (\<lambda>k. rw_entry k xs) (first_seen xs), \<Sum>k\<leftarrow>first_seen xs. rk_cycles (rw_entry k xs)) =
    (map (\<lambda>k. rw_entry k (xs @ [(i, f)])) (first_seen (xs @ [(i, f)])),
     \<Sum>k\<leftarrow>first_seen (xs @ [(i, f)]). rk_cycles (rw_entry k (xs @ [(i, f)])))"
proof -
  let ?g = "\<lambda>k. rw_entry k xs" and ?h = "\<lambda>k. rw_entry k (xs @ [(i, f)])"
  have d: "distinct (first_seen xs)" by (rule first_seen_distinct)
  have h: "?h k = (if k = i then rw_step f (?g i) else ?g k)" for k
    using rw_step_entry [of f i xs] rw_entry_other [of k i xs f] by auto
  have c: "rk_cycles (?h k) = rk_cycles (?g k) + (if k = i then rw_reopens f (?g i) else 0)" for k
    using rw_step_entry [of f i xs] rw_entry_other [of k i xs f] by auto
  have ids: "\<forall>k \<in> set (first_seen xs). rk_id (?g k) = k" by (simp add: rw_entry_def)
  note u = rw_update_map [OF d ids assms, of f]
  show ?thesis
  proof (cases "i \<in> set (first_seen xs)")
    case True
    then have m: "i \<in> fst ` set xs" by (simp add: first_seen_set)
    have "(\<Sum>k\<leftarrow>first_seen xs. if k = i then rw_reopens f (?g i) else 0) = rw_reopens f (?g i)"
      using d True by (simp add: sum_list_distinct_conv_sum_set)
    then have "(\<Sum>k\<leftarrow>first_seen xs. rk_cycles (?h k)) = (\<Sum>k\<leftarrow>first_seen xs. rk_cycles (?g k)) + rw_reopens f (?g i)"
      by (simp only: c sum_list_addf)
    moreover have "map ?h (first_seen xs) = map (\<lambda>k. if k = i then rw_step f (?g k) else ?g k) (first_seen xs)"
      using h by auto
    ultimately show ?thesis
      unfolding rw_verdict_def prod.case u using True m by (simp only: if_True first_seen_snoc Let_def prod.case)
  next
    case False
    then have m: "i \<notin> fst ` set xs" by (simp add: first_seen_set)
    then have n: "?g i = \<lparr>rk_id = i, rk_cycles = 0, rk_state = Unknown\<rparr>" by (rule rw_entry_new)
    have "k \<noteq> i" if "k \<in> set (first_seen xs)" for k using that False by blast
    then have o1: "map ?h (first_seen xs) = map ?g (first_seen xs)"
      and o2: "map (\<lambda>k. rk_cycles (?h k)) (first_seen xs) = map (\<lambda>k. rk_cycles (?g k)) (first_seen xs)"
      using h by auto
    have z: "rk_cycles (rw_step f \<lparr>rk_id = i, rk_cycles = 0, rk_state = Unknown\<rparr>) = 0" by (simp add: rw_step_def)
    show ?thesis
      unfolding rw_verdict_def prod.case u using False m
      by (simp only: if_False first_seen_snoc Let_def prod.case map_append o1 o2 list.map sum_list_append sum_list.Cons
          sum_list.Nil z add_0_right h [of i] refl if_True n)
  qed
qed

text \<open>With ids that fit, every check has its entry, with its verdicts counted.\<close>

lemma rw_run_entries:
  assumes "\<forall>x \<in> set (concat (map verdicts as)). length (fst x) < 64"
  shows "rw_run as =
    (let xs = concat (map verdicts as)
     in (map (\<lambda>k. rw_entry k xs) (first_seen xs), \<Sum>k\<leftarrow>first_seen xs. rk_cycles (rw_entry k xs)))"
proof -
  have "fold rw_verdict xs ([], 0) = (map (\<lambda>k. rw_entry k xs) (first_seen xs), \<Sum>k\<leftarrow>first_seen xs. rk_cycles (rw_entry k xs))"
    if "\<forall>x \<in> set xs. length (fst x) < 64" for xs
    using that
  proof (induction xs rule: rev_induct)
    case Nil
    show ?case by (simp add: first_seen_def)
  next
    case (snoc x xs)
    then show ?case using rw_verdict_entries [of "fst x" "snd x" xs] by simp
  qed
  then show ?thesis using assms by (simp add: rw_run_def Let_def)
qed

end
