(* ===== verification/Exo_Qms_Rules.thy ===== *)
theory Exo_Qms_Rules
  imports Exo_Qms_Rework
begin

text \<open>
  The checks of exoqms that run the static analysers and the rule engine, those on agents, issues and
  the documentation of the modules, and \<open>check_run\<close> (\<open>exoqms/src/checks.c\<close>).
\<close>

subsection \<open>The analysers\<close>

text \<open>The verdict on the findings of an analyser: only the major ones fail.\<close>

definition severity_finding :: "string \<Rightarrow> string \<Rightarrow> string \<Rightarrow> string \<Rightarrow> int \<times> bytes \<times> string \<Rightarrow> finding" where
  "severity_finding i how target tail r =
     (case r of (rc, out, err) \<Rightarrow>
        (let (maj, mnr) = json_severity_count out; nf = maj + mnr; s = cstr out
         in if rc = -2 then set_finding i RFail (''timed out after '' @ show_int CHECK_TIMEOUT_S @ ''s '' @ how @ target)
            else if rc = -1 then set_finding i RFail err
            else if maj > 0 then
              finding_snippet (set_finding i RFail (show_nat maj @ '' major, '' @ show_nat mnr @ '' minor finding(s) on '' @ target)) out
            else if nf = 0 \<and> rc \<noteq> 0 then
              set_finding i RFail (''no severity-parsable findings but exit '' @ show_int rc @ '' on '' @ target @ '': '' @
                (if s \<noteq> [] then s else ''(no output)''))
            else (let f = set_finding i RPass (show_nat nf @ '' finding(s), 0 major on '' @ target @ tail)
                  in if nf > 0 then finding_snippet f out else f)))"

text \<open>The ignore globs that go into the argument vector, which has \<open>n\<close> entries, while it has less than \<open>lim\<close>.\<close>

fun ignore_args :: "nat \<Rightarrow> nat \<Rightarrow> string list \<Rightarrow> string list" where
  "ignore_args lim n [] = []"
| "ignore_args lim n (g # gs) = (if n < lim then ''--ignore'' # g # ignore_args lim (n + 2) gs else [])"

definition code_safety_argv :: "'w qenv \<Rightarrow> cfg \<Rightarrow> string \<Rightarrow> string list" where
  "code_safety_argv v c target =
     (let a = cf_code c # take 35 (strtok_all (\<lambda>x. x = CHR '' '') target);
          lang = (case pc_languages (cf_proj c) of [] \<Rightarrow> ''auto'' | l # ls \<Rightarrow> if l \<noteq> [] then l else ''auto'');
          b = a @ [''--lang'', lang]; d = b @ ignore_args 38 (length b) (pc_ignore (cf_proj c));
          p = fit 2048 (cf_repo c @ ''/.exoqms-allow'')
      in d @ (if e_file v p = None then [] else [''--allow'', p]) @ [''--json''])"

text \<open>\<open>argv\<close> has room for 40 pointers, the last one NULL; \<open>None\<close> when they do not fit.\<close>

definition check_code_safety :: "'w qenv \<Rightarrow> cfg \<Rightarrow> ctx \<Rightarrow> 'w \<Rightarrow> (finding \<times> 'w) option" where
  "check_code_safety v c k w =
     (if cf_code c = [] then Some (set_finding ''code-safety'' RSkip ''no code binary configured (--code)'', w)
      else if \<not> pc_codesafety (cf_proj c) then
        Some (set_finding ''code-safety'' RSkip ''disabled by .exoqms.json (rules.code-safety=false)'', w)
      else (let target = or_else (ck_target k) (cf_repo c); argv = code_safety_argv v c target
            in if length argv \<ge> 40 then None
               else (let (r, w1) = e_child v argv (Some (cf_repo c)) w
                     in Some (severity_finding ''code-safety'' ''scanning '' target '' (minor non-fatal)'' r, w1))))"

definition check_asset_logic :: "'w qenv \<Rightarrow> cfg \<Rightarrow> ctx \<Rightarrow> 'w \<Rightarrow> finding \<times> 'w" where
  "check_asset_logic v c k w =
     (if cf_svg c = [] then (set_finding ''asset-logic'' RSkip ''no svg binary configured (--svg)'', w)
      else (let target = or_else (ck_target k) (cf_repo c);
                (r, w1) = e_child v [cf_svg c, target, ''--shape'', ''auto'', ''--json''] (Some (cf_repo c)) w
            in (severity_finding ''asset-logic'' ''on '' target [] r, w1)))"

subsection \<open>The rule engine\<close>

definition is_dir :: "'w qenv \<Rightarrow> string \<Rightarrow> bool" where
  "is_dir v p \<longleftrightarrow> e_kind v p = Some Directory"

text \<open>A path up to its last slash.\<close>

definition upto_slash :: "string \<Rightarrow> string option" where
  "upto_slash p = (if CHR ''/'' \<in> set p then Some (rev (dropWhile (\<lambda>x. x \<noteq> CHR ''/'') (rev p))) else None)"

text \<open>Next to the binary, in the parent directory, or what is left of the path when there is no parent.\<close>

definition rules_near :: "'w qenv \<Rightarrow> string \<Rightarrow> string" where
  "rules_near v code =
     (case upto_slash (fit 2048 code) of
        None \<Rightarrow> ''rules''
      | Some d \<Rightarrow>
          (let p = fit 2048 (d @ ''rules'')
           in if is_dir v p then p
              else case upto_slash (butlast d) of None \<Rightarrow> butlast d | Some d2 \<Rightarrow> fit 2048 (d2 @ ''rules'')))"

definition rules_dir :: "'w qenv \<Rightarrow> cfg \<Rightarrow> string option" where
  "rules_dir v c =
     (let rp = fit 2048 (cf_rules c); near = rules_near v (cf_code c); own = fit 2048 (cf_repo c @ ''/exoqms/code/rules'')
      in if cf_rules c \<noteq> [] then (if is_dir v (cf_rules c) then Some rp else None)
         else if cf_code c \<noteq> [] \<and> is_dir v near then Some near
         else if is_dir v own then Some own else None)"

text \<open>
  The output of the scan, run once per audit. The output of a scan that failed is remembered as well.
  The result code, the output and the error.
\<close>

definition rules_scan :: "'w qenv \<Rightarrow> cfg \<Rightarrow> ctx \<Rightarrow> 'w \<Rightarrow> (int \<times> bytes \<times> string) \<times> ctx \<times> 'w" where
  "rules_scan v c k w =
     (case ck_memo k of
        Some out \<Rightarrow> ((0, out, []), k, w)
      | None \<Rightarrow>
          if cf_code c = [] then ((-1, [], ''no code binary configured (--code)''), k, w)
          else (case rules_dir v c of
                  None \<Rightarrow> ((-1, [], ''no rules dir (--rules, next to --code, or <repo>/exoqms/code/rules)''), k, w)
                | Some d \<Rightarrow>
                    (let a = [cf_code c, cf_repo c, ''--rules'', d];
                         ((rc, out, err), w1) =
                           e_child v (a @ ignore_args 36 (length a) (pc_ignore (cf_proj c)) @ [''--json'']) (Some (cf_repo c)) w;
                         e2 = ''rules scan timed out after '' @ show_int CHECK_TIMEOUT_S @ ''s and was killed''
                     in ((rc, out, if rc = -2 then e2 else err), k\<lparr>ck_memo := Some out\<rparr>, w1))))"

definition opt_field :: "string \<Rightarrow> string \<Rightarrow> string" where
  "opt_field el fld = (case qms_field el fld of None \<Rightarrow> ''?'' | Some x \<Rightarrow> cstr x)"

text \<open>The evidence line of an element of the array, when it counts.\<close>

definition rule_line :: "string \<Rightarrow> bool \<Rightarrow> string list \<Rightarrow> string \<Rightarrow> string option" where
  "rule_line pre masked allow el =
     (case qms_field el ''check'' of
        None \<Rightarrow> None
      | Some ck \<Rightarrow>
          if take (length pre) (cstr ck) \<noteq> pre then None
          else if (case qms_field el ''file'' of None \<Rightarrow> False | Some fl \<Rightarrow> \<exists>a \<in> set allow. has_sub (cstr fl) a) then None
          else Some (opt_field el ''file'' @ CHR '':'' # opt_field el ''line'' @ CHR '' '' # (if masked then ''***'' else cstr ck) @ [nl]))"

partial_function (option) rule_loop :: "string \<Rightarrow> bool \<Rightarrow> string list \<Rightarrow> bytes \<Rightarrow> nat \<Rightarrow> string list \<Rightarrow> string list option" where
  "rule_loop pre masked allow out pos acc =
     (case json_array_each out pos of
        (p, None) \<Rightarrow> Some acc
      | (p, Some el) \<Rightarrow>
          rule_loop pre masked allow out p (case rule_line pre masked allow el of None \<Rightarrow> acc | Some l \<Rightarrow> acc @ [l]))"

text \<open>The lines of the findings that count, or the result and the reason why there are none; \<open>None\<close>: it hangs.\<close>

definition universal_count :: "'w qenv \<Rightarrow> cfg \<Rightarrow> string \<Rightarrow> bool \<Rightarrow> string list \<Rightarrow> ctx \<Rightarrow> 'w
    \<Rightarrow> ((res \<times> string + string list) \<times> ctx \<times> 'w) option" where
  "universal_count v c pre masked allow k w =
     (let ((rc, out, err), k1, w1) = rules_scan v c k w; s = cstr out
      in if rc = -2 then Some (Inl (RFail, fit 256 err), k1, w1)
         else if rc = -1 then Some (Inl (RSkip, fit 256 err), k1, w1)
         else if rc > 1 then
           Some (Inl (RFail, fit 256 (''rules engine exited '' @ show_int rc @ '': '' @ (if s \<noteq> [] then s else ''(no output)''))), k1, w1)
         else map_option (\<lambda>ls. (Inr ls, k1, w1)) (rule_loop pre masked allow out 0 []))"

text \<open>What the three rule checks share: \<open>verdict\<close> makes the finding of the number that counts.\<close>

definition rule_check :: "'w qenv \<Rightarrow> cfg \<Rightarrow> string \<Rightarrow> bool \<Rightarrow> bool \<Rightarrow> string list \<Rightarrow> (nat \<Rightarrow> finding) \<Rightarrow> ctx \<Rightarrow> 'w
    \<Rightarrow> (finding \<times> ctx \<times> 'w) option" where
  "rule_check v c i enabled masked allow verdict k w =
     (if cf_code c = [] then Some (set_finding i RSkip ''no code binary configured (--code)'', k, w)
      else if \<not> enabled then Some (set_finding i RSkip (''disabled by .exoqms.json (rules.'' @ i @ ''=false)''), k, w)
      else map_option (\<lambda>(r, k1, w1).
             (case r of Inl (rs, err) \<Rightarrow> set_finding i rs err | Inr ls \<Rightarrow> finding_append_lines (verdict (length ls)) (concat ls), k1, w1))
           (universal_count v c (i @ ''-'') masked allow k w))"

definition check_debt :: "'w qenv \<Rightarrow> cfg \<Rightarrow> ctx \<Rightarrow> 'w \<Rightarrow> (finding \<times> ctx \<times> 'w) option" where
  "check_debt v c = rule_check v c ''debt'' (pc_debt (cf_proj c)) False []
     (\<lambda>n. let thr = pc_threshold (cf_proj c)
          in if int n \<le> thr then set_finding ''debt'' RPass (show_nat n @ '' debt finding(s), threshold '' @ show_int thr)
             else set_finding ''debt'' RFail (show_nat n @ '' debt finding(s) > threshold '' @ show_int thr))"

definition check_hygiene :: "'w qenv \<Rightarrow> cfg \<Rightarrow> ctx \<Rightarrow> 'w \<Rightarrow> (finding \<times> ctx \<times> 'w) option" where
  "check_hygiene v c = rule_check v c ''hygiene'' (pc_hygiene (cf_proj c)) False []
     (\<lambda>n. set_finding ''hygiene'' (if n = 0 then RPass else RFail) (show_nat n @ '' hygiene finding(s)''))"

definition check_secrets :: "'w qenv \<Rightarrow> cfg \<Rightarrow> ctx \<Rightarrow> 'w \<Rightarrow> (finding \<times> ctx \<times> 'w) option" where
  "check_secrets v c = rule_check v c ''secrets'' (pc_secrets (cf_proj c)) True (pc_allow (cf_proj c))
     (\<lambda>n. if n = 0 then set_finding ''secrets'' RPass ''0 secrets finding(s)''
          else set_finding ''secrets'' RFail (show_nat n @ '' secrets finding(s) (matched lines masked)''))"

subsection \<open>Agents\<close>

text \<open>What follows the first \<open>agent:\<close> that starts a word.\<close>

fun agent_token :: "bool \<Rightarrow> string \<Rightarrow> string option" where
  "agent_token start [] = None"
| "agent_token start (x # r) =
     (if start \<and> take 6 (x # r) = ''agent:'' then Some (drop 6 (x # r)) else agent_token (x = CHR '' '' \<or> x = tab) r)"

definition note_epoch :: "string \<Rightarrow> int" where
  "note_epoch l = (if take 5 l = ''note:'' then fst (strtoll (drop 5 l)) else 0)"

text \<open>The agent that a note on a fired timer names, and its time.\<close>

definition fired_note :: "string \<Rightarrow> (string \<times> int) option" where
  "fired_note l =
     (if \<not> has_sub l ''fired timer'' then None
      else case agent_token True l of
             None \<Rightarrow> None
           | Some r \<Rightarrow>
               (let i = take 127 (takeWhile (\<lambda>x. x \<noteq> CHR '':'' \<and> x \<noteq> CHR '' '' \<and> x \<noteq> tab) r)
                in if i = [] then None else Some (i, note_epoch l)))"

definition body_lines :: "bytes \<Rightarrow> string list" where
  "body_lines b = strtok_all (\<lambda>x. x = nl) (cstr b)"

definition latest :: "int list \<Rightarrow> int" where
  "latest xs = fold max xs 0"

definition last_activity :: "(string + int \<times> bytes) \<Rightarrow> int" where
  "last_activity r =
     (case r of Inl err \<Rightarrow> 0
      | Inr (st, b) \<Rightarrow> latest (map note_epoch (filter (\<lambda>l. \<not> has_sub l ''fired timer'') (body_lines b))))"

text \<open>The lines of the agents that look frozen.\<close>

fun frozen_agents :: "'w net \<Rightarrow> exo \<Rightarrow> (string \<times> int) list \<Rightarrow> string list \<Rightarrow> 'w \<Rightarrow> string list \<times> 'w" where
  "frozen_agents net e fired [] w = ([], w)"
| "frozen_agents net e fired (a # as) w =
     (let fire = latest (map snd (filter (\<lambda>x. fst x = a) fired));
          (r, w1) = exo_request net e ''GET'' (fit 1024 (''/notes?limit=100&q=agent%3A'' @ a)) [] False w;
          act = last_activity r;
          (d, w2) = qms_get net e (fit 512 (''agent:'' @ a @ '':done'')) w1;
          (ls, w3) = frozen_agents net e fired as w2
      in (if fire > 0 \<and> fire > act \<and> \<not> (case d of Inr (Some x) \<Rightarrow> True | _ \<Rightarrow> False) then
            (''agent '' @ a @ '': reminder fired '' @ show_int fire @ '', last activity '' @ show_int act @
             '' (--likely frozen: no response, no deliverable)'' @ [nl]) # ls
          else ls, w3))"

definition check_agent_health :: "'w qenv \<Rightarrow> cfg \<Rightarrow> exo \<Rightarrow> ctx \<Rightarrow> 'w \<Rightarrow> finding \<times> 'w" where
  "check_agent_health v c e k w =
     (case exo_request (e_net v e) e ''GET'' ''/notes?limit=500&q=fired'' [] False w of
        (Inl err, w1) \<Rightarrow> (set_finding ''agent-health'' RFail (''exomind unreachable: '' @ err), w1)
      | (Inr (st, b), w1) \<Rightarrow>
          (let fired = take 64 (List.map_filter fired_note (body_lines b)); as = agent_names c k; n = show_nat (length as);
               (ls, w2) = frozen_agents (e_net v e) e fired as w1
           in (if as = [] then set_finding ''agent-health'' RSkip ''no agents configured''
               else if ls \<noteq> [] then
                 set_finding ''agent-health'' RFail (show_nat (length ls) @ CHR ''/'' # n @ '' agents frozen:'' @ nl # concat ls)
               else set_finding ''agent-health'' RPass
                 (n @ CHR ''/'' # n @ '' agents responsive (reminders answered or none fired)''), w2)))"

subsection \<open>Issues and the mandate\<close>

text \<open>The line of an open issue, and whether it is recurring.\<close>

definition issue_line :: "string \<Rightarrow> bytes \<Rightarrow> (bool \<times> string) option" where
  "issue_line key x =
     (let f = strtok_all (\<lambda>c. c = tab) x; num = (\<lambda>i. if i < length f then fst (strtoll (f ! i)) else 0); chk = drop 6 key
      in if f = [] \<or> f ! 0 \<noteq> ''open'' then None
         else if num 2 \<ge> 2 then
           Some (True, ''RECURRING '' @ chk @ '' (failed '' @ show_int (num 2) @ '' audits in a row, '' @ show_int (num 1) @ '' total)'' @ [nl])
         else Some (False, ''open '' @ chk @ '' (failed '' @ show_int (num 1) @ '' total)'' @ [nl]))"

definition check_issue_tracking :: "'w qenv \<Rightarrow> exo \<Rightarrow> 'w \<Rightarrow> finding \<times> 'w" where
  "check_issue_tracking v e w =
     (case client_list (e_net v e) e ''issue:'' w of
        (Inl err, w1) \<Rightarrow> (set_finding ''issue-tracking'' RFail (''exomind unreachable: '' @ err), w1)
      | (Inr ks, w1) \<Rightarrow>
          (let (vs, w2) = fetch_all (e_net v e) e ks w1; ls = List.map_filter (\<lambda>(k, x). issue_line k x) vs;
               rec = length (filter fst ls); ev = esc_line (concat (map snd ls)); n = show_nat (length ls)
           in (if rec > 0 then
                 set_finding ''issue-tracking'' RFail (show_nat rec @ '' recurring issue(s), '' @ n @ '' open: '' @ ev)
               else (let f = set_finding ''issue-tracking'' RPass (n @ '' open issue(s), 0 recurring'')
                     in if ls \<noteq> [] then ev_cat f ev else f), w2)))"

fun ready_scan :: "'w net \<Rightarrow> exo \<Rightarrow> string list \<Rightarrow> 'w \<Rightarrow> nat \<times> string \<times> 'w" where
  "ready_scan net e [] w = (0, [], w)"
| "ready_scan net e (a # as) w =
     (let key = ''agent:'' @ a @ '':ready''; (r, w1) = qms_get net e (fit 512 key) w; (n, ev, w2) = ready_scan net e as w1
      in case r of
           Inr (Some x) \<Rightarrow> (Suc n, key @ '' ok'' @ nl # ev, w2)
         | _ \<Rightarrow> (n, ''agent:'' @ a @ '' MISSING '' @ key @ '' (has not acknowledged the mandate)'' @ nl # ev, w2))"

definition check_memory_awareness :: "'w qenv \<Rightarrow> cfg \<Rightarrow> exo \<Rightarrow> ctx \<Rightarrow> 'w \<Rightarrow> finding \<times> 'w" where
  "check_memory_awareness v c e k w =
     (if or_else (ck_agents k) (cf_agents c) = [] then (set_finding ''memory-awareness'' RSkip ''no agents configured'', w)
      else case qms_get (e_net v e) e ''mandate'' w of
             (Inl err, w1) \<Rightarrow> (set_finding ''memory-awareness'' RSkip ''exomind unreachable'', w1)
           | (Inr None, w1) \<Rightarrow> (set_finding ''memory-awareness'' RSkip ''no mandate set (exomind --mandate ...)'', w1)
           | (Inr (Some m), w1) \<Rightarrow>
               (let as = agent_names c k; (n, ev, w2) = ready_scan (e_net v e) e as w1;
                    txt = show_nat n @ CHR ''/'' # show_nat (length as) @ '' agents acknowledged the mandate''
                in (if as \<noteq> [] \<and> n = length as then set_finding ''memory-awareness'' RPass txt
                    else ev_cat (set_finding ''memory-awareness'' RFail txt) (esc_line ev), w2)))"

subsection \<open>The kit and the modules\<close>

definition check_kit_fidelity :: "'w qenv \<Rightarrow> cfg \<Rightarrow> 'w \<Rightarrow> finding \<times> 'w" where
  "check_kit_fidelity v c w =
     (let kit = fit 2048 (cf_repo c @ ''/kit'')
      in if cf_kit c = [] then (set_finding ''kit-fidelity'' RSkip ''no kit binary configured (--kit)'', w)
         else if e_kind v kit = None then
           (set_finding ''kit-fidelity'' RSkip ''no kit/ directory in the repo (nothing to verify)'', w)
         else (let ((rc, out, err), w1) = e_child v [cf_kit c, ''audit'', ''--kit'', kit] (Some (cf_repo c)) w;
                   maj = fst (json_severity_count out); s = cstr out
               in (if rc = -2 then
                     set_finding ''kit-fidelity'' RFail (''timed out after '' @ show_int CHECK_TIMEOUT_S @ ''s auditing the kit'')
                   else if rc = -1 then set_finding ''kit-fidelity'' RFail err
                   else if maj > 0 then
                     finding_snippet (set_finding ''kit-fidelity'' RFail (show_nat maj @ '' major finding(s) in the kit ledger'')) out
                   else if rc \<noteq> 0 then
                     set_finding ''kit-fidelity'' RFail (''kit audit exit '' @ show_int rc @ '' on '' @ kit @ '': '' @
                       (if s \<noteq> [] then s else ''(no output)''))
                   else set_finding ''kit-fidelity'' RPass ''kit ledger green: every contract entry exemplified and verified'', w1)))"

definition dir_has :: "'w qenv \<Rightarrow> string \<Rightarrow> string \<Rightarrow> fkind \<Rightarrow> bool" where
  "dir_has v dir name kind \<longleftrightarrow> e_kind v (fit 4096 (dir @ CHR ''/'' # name)) = Some kind"

definition module_gaps :: "'w qenv \<Rightarrow> string \<Rightarrow> string \<Rightarrow> string list" where
  "module_gaps v name dir =
     (if \<not> dir_has v dir ''README.md'' Regular \<and> \<not> dir_has v dir ''README'' Regular then [name @ '': no README'' @ [nl]] else []) @
     (if \<not> dir_has v dir ''test/test.sh'' Regular then [name @ '': no test/test.sh'' @ [nl]] else []) @
     (if \<not> dir_has v dir ''standard.md'' Regular \<and> \<not> dir_has v dir ''docs'' Directory
      then [name @ '': no standard.md or docs/'' @ [nl]] else [])"

definition module_line :: "cfg \<Rightarrow> string \<Rightarrow> (string \<times> string) option" where
  "module_line c l =
     (let f = tab_split l 8
      in if length f < 2 \<or> f ! 0 = [] \<or> f ! 1 = [] then None
         else Some (f ! 0, fit 2048 (if hd (f ! 1) = CHR ''/'' then f ! 1 else cf_repo c @ CHR ''/'' # f ! 1)))"

definition check_docs_coverage :: "'w qenv \<Rightarrow> cfg \<Rightarrow> finding" where
  "check_docs_coverage v c =
     (let ms = (case e_file v (manifest_path c) of
                  None \<Rightarrow> [(cf_repo c, cf_repo c)] | Some s \<Rightarrow> List.map_filter (module_line c) (data_lines s));
          gaps = concat (map (\<lambda>(n, d). module_gaps v n d) ms); total = show_nat (length ms)
      in if ms = [] then set_finding ''docs-coverage'' RSkip ''empty manifest''
         else if gaps \<noteq> [] then
           set_finding ''docs-coverage'' RFail (show_nat (length gaps) @ CHR ''/'' # total @
             '' modules miss a README, test suite or standards reference:'' @ nl # concat gaps)
         else set_finding ''docs-coverage'' RPass
           (total @ CHR ''/'' # total @ '' modules carry README + test/test.sh + standard.md (or docs/)''))"

subsection \<open>Dispatch\<close>

text \<open>\<open>None\<close>: the check does not come back, or its behaviour is undefined.\<close>

definition check_run :: "'w qenv \<Rightarrow> cfg \<Rightarrow> exo \<Rightarrow> string \<Rightarrow> ctx \<Rightarrow> 'w \<Rightarrow> (finding \<times> ctx \<times> 'w) option" where
  "check_run v c e i k w =
     (let keep = (\<lambda>(f, w1). (f, k, w1))
      in if i = ''component-tests'' \<or> i = ''build-warnings'' then Some (keep (check_component_tests v c w))
         else if i = ''doc-compliance'' then Some (keep (check_doc_compliance v c e w))
         else if i = ''dogfood'' then Some (keep (check_dogfood v c e k w))
         else if i = ''ui-audit'' then Some (keep (check_ui_audit v c k w))
         else if i = ''metrics'' then Some (keep (check_metrics v e w))
         else if i = ''rework'' then map_option keep (check_rework v e w)
         else if i = ''code-safety'' then map_option keep (check_code_safety v c k w)
         else if i = ''debt'' then check_debt v c k w
         else if i = ''hygiene'' then check_hygiene v c k w
         else if i = ''secrets'' then check_secrets v c k w
         else if i = ''asset-logic'' then Some (keep (check_asset_logic v c k w))
         else if i = ''agent-health'' then Some (keep (check_agent_health v c e k w))
         else if i = ''docs-coverage'' then Some (keep (check_docs_coverage v c, w))
         else if i = ''kit-fidelity'' then Some (keep (check_kit_fidelity v c w))
         else if i = ''memory-awareness'' then Some (keep (check_memory_awareness v c e k w))
         else if i = ''issue-tracking'' then Some (keep (check_issue_tracking v e w))
         else Some (set_finding i RSkip ''unknown check id'', k, w))"

end
