(* ===== verification/Exo_Qms_Http.thy ===== *)
theory Exo_Qms_Http
  imports Exo_Qms_Rules Exo_Module
begin

text \<open>
  The requests exoqms answers (\<open>exoqms/src/http.c\<close>) and its console mode (\<open>main.c\<close>). The state is the
  registry, the generator behind \<open>rand32\<close> and what is behind the network. A handler that crashes, hangs
  or leaves the bounds of an array gives \<open>None\<close>.
\<close>

record 'w qms_st =
  s_reg :: qms
  s_rng :: u32
  s_net :: 'w

text \<open>
  The surroundings of a request: those of the checks, the readings of \<open>now_epoch\<close> in the order the handler
  asks, the seed of \<open>rand32\<close>, what other threads do to the registry meanwhile, the help text.
\<close>

record 'w qms_env =
  h_env :: "'w qenv"
  h_now :: "nat \<Rightarrow> int"
  h_seed :: u32
  h_others :: "qms \<Rightarrow> qms"
  h_spec :: string

definition qms_rand32 :: "u32 \<Rightarrow> u32 \<Rightarrow> u32" where
  "qms_rand32 seed g =
     (let g0 = (if g = 0 then seed else g); g1 = g0 XOR push_bit 13 g0; g2 = g1 XOR drop_bit 17 g1
      in g2 XOR push_bit 5 g2)"

definition json_obj :: "(string \<times> string) list \<Rightarrow> string" where
  "json_obj fs = CHR ''{'' # join_with (CHR '','') (map (\<lambda>(k, x). jname k @ CHR '':'' # x) fs) @ ''}''"

definition json_text :: "string \<Rightarrow> string" where
  "json_text s = jname (qms_json_escape s)"

definition json_list :: "string list \<Rightarrow> string" where
  "json_list xs = CHR ''['' # join_with (CHR '','') xs @ '']''"

definition json_reply :: "string \<Rightarrow> resp" where
  "json_reply b = \<lparr>p_status = 200, p_ctype = Json, p_body = b\<rparr>"

definition tab_line :: "string list \<Rightarrow> string" where
  "tab_line fs = join_tabs fs @ [nl]"

definition wants_json :: "mreq \<Rightarrow> bool" where
  "wants_json r \<longleftrightarrow> mod_qp_str (mquery r) ''json'' 4096 \<noteq> None"

definition is_read :: "mreq \<Rightarrow> bool" where
  "is_read r \<longleftrightarrow> mmethod r = ''GET'' \<or> mmethod r = ''HEAD''"

subsection \<open>Objectives\<close>

definition obj_json :: "obj \<Rightarrow> string" where
  "obj_json x = json_obj [(''id'', jname (o_id x)), (''title'', json_text (o_desc x)), (''metric_key'', json_text (o_metric x)),
     (''target'', json_text (o_target x)), (''period'', json_text (o_period x)), (''created'', show_int (o_created x))]"

definition obj_line :: "obj \<Rightarrow> string" where
  "obj_line x = tab_line [o_id x, esc_line (o_desc x), esc_line (o_metric x), esc_line (o_target x), esc_line (o_period x),
     show_int (o_created x)]"

definition objective_note :: "string \<Rightarrow> string \<Rightarrow> string \<Rightarrow> string \<Rightarrow> string \<Rightarrow> string" where
  "objective_note i desc metric target period =
     ''objective '' @ i @ CHR '' '' # desc @ '': '' @ metric @ '' target '' @ target @ '' (period '' @ period @ '')''"

definition qms_objectives_post :: "'w net \<Rightarrow> exo \<Rightarrow> 'w qms_env \<Rightarrow> mreq \<Rightarrow> 'w qms_st \<Rightarrow> 'w qms_st \<times> resp" where
  "qms_objectives_post net e v r s =
     (let f = tab_split (cstr (mbody r)) 4
      in if mbody r = [] then (s, plain 400 ''error: empty body'')
         else if length f < 3 then (s, plain 400 (''error: body must be title<TAB>metric_key<TAB>target''))
         else (let period = (if field f 3 \<noteq> [] then f ! 3 else ''iter'');
                   bad = (f ! 0 = [] \<or> f ! 1 = [] \<or> f ! 2 = []); g = qms_rand32 (h_seed v) (s_rng s);
                   (res, q1, w1) = obj_create net e (h_now v) g (h_others v) (s_reg s) (f ! 0) (f ! 1) (f ! 2) period (s_net s);
                   s1 = \<lparr>s_reg = q1, s_rng = (if bad then s_rng s else g), s_net = w1\<rparr>
               in case res of
                    Inl err \<Rightarrow> (s1, plain 400 (''error: '' @ err))
                  | Inr i \<Rightarrow> (s1\<lparr>s_net := snd (client_note net e (objective_note i (f ! 0) (f ! 1) (f ! 2) period) w1)\<rparr>,
                             plain 200 (''ok '' @ i))))"

definition qms_objectives :: "'w net \<Rightarrow> exo \<Rightarrow> 'w qms_env \<Rightarrow> mreq \<Rightarrow> 'w qms_st \<Rightarrow> 'w qms_st \<times> resp" where
  "qms_objectives net e v r s =
     (if mmethod r = ''POST'' then qms_objectives_post net e v r s
      else if \<not> is_read r then (s, plain 405 ''error: use GET'')
      else if wants_json r then (s, json_reply (json_list (map obj_json (qm_objs (s_reg s)))))
      else (s, plain 200 (concat (map obj_line (qm_objs (s_reg s))))))"

subsection \<open>Non-conformities\<close>

definition nc_json :: "nc \<Rightarrow> string" where
  "nc_json c = json_obj [(''id'', jname (n_id c)), (''title'', json_text (n_title c)), (''description'', json_text (n_desc c)),
     (''severity'', jname (n_sev c)), (''status'', jname (n_status c)), (''source'', json_text (n_source c)),
     (''detected_at'', show_int (n_detected c)), (''corrective_action'', json_text (n_caction c)),
     (''evidence'', json_text (n_evidence c)), (''closed_at'', show_int (n_closed c)), (''closed_by'', json_text (n_closed_by c))]"

definition nc_text :: "nc \<Rightarrow> string" where
  "nc_text c = tab_line [n_id c, esc_line (n_title c), n_sev c, n_status c, show_int (n_detected c), esc_line (n_source c),
     esc_line (n_caction c), esc_line (n_evidence c), show_int (n_closed c), esc_line (n_closed_by c), esc_line (n_desc c)]"

definition nc_item_json :: "nc \<Rightarrow> string" where
  "nc_item_json c = json_obj [(''id'', jname (n_id c)), (''title'', json_text (n_title c)), (''severity'', jname (n_sev c)),
     (''status'', jname (n_status c)), (''detected_at'', show_int (n_detected c)), (''source'', json_text (n_source c))]"

definition nc_item_line :: "nc \<Rightarrow> string" where
  "nc_item_line c = tab_line [n_id c, esc_line (n_title c), n_sev c, n_status c, show_int (n_detected c), esc_line (n_source c)]"

definition qms_nc_action :: "'w net \<Rightarrow> exo \<Rightarrow> 'w qms_env \<Rightarrow> mreq \<Rightarrow> string \<Rightarrow> 'w qms_st \<Rightarrow> 'w qms_st \<times> resp" where
  "qms_nc_action net e v r i s =
     (case mod_qp_str (mquery r) ''action'' 32 of
        None \<Rightarrow> (s, plain 400 ''error: missing action (analyse|correct|verify|close)'')
      | Some act \<Rightarrow>
          (case nc_transition net e (h_now v 0) (h_others v) (s_reg s) i act (cstr (mbody r)) (s_net s) of
             (Inl err, q1, w1) \<Rightarrow> (s\<lparr>s_reg := q1, s_net := w1\<rparr>, plain 400 (''error: '' @ err))
           | (Inr st, q1, w1) \<Rightarrow> (s\<lparr>s_reg := q1, s_net := w1\<rparr>, plain 200 (''ok '' @ i @ CHR '' '' # st))))"

definition qms_nc_post :: "'w net \<Rightarrow> exo \<Rightarrow> 'w qms_env \<Rightarrow> mreq \<Rightarrow> 'w qms_st \<Rightarrow> 'w qms_st \<times> resp" where
  "qms_nc_post net e v r s =
     (let f = tab_split (cstr (mbody r)) 4
      in if mbody r = [] then (s, plain 400 ''error: empty body'')
         else if length f < 3 then (s, plain 400 ''error: body must be title<TAB>severity<TAB>description'')
         else (let bad = (f ! 0 = [] \<or> f ! 2 = [] \<or> (f ! 1 \<noteq> ''major'' \<and> f ! 1 \<noteq> ''minor''));
                   g = qms_rand32 (h_seed v) (s_rng s);
                   (res, q1, w1) = nc_create net e (h_now v) g (h_others v) (s_reg s) (f ! 0) (f ! 1) (f ! 2) ''api'' (s_net s);
                   s1 = \<lparr>s_reg = q1, s_rng = (if bad then s_rng s else g), s_net = w1\<rparr>
               in case res of
                    Inl err \<Rightarrow> (s1, plain 400 (''error: '' @ err))
                  | Inr i \<Rightarrow>
                      (s1\<lparr>s_net := snd (client_note net e (''nc '' @ i @ CHR '' '' # f ! 0 @ CHR '' '' # f ! 1 @ '' open (source api)'') w1)\<rparr>,
                       plain 200 (''ok '' @ i))))"

definition qms_nc_list :: "mreq \<Rightarrow> qms \<Rightarrow> resp" where
  "qms_nc_list r q =
     (let cs = (case mod_qp_str (mquery r) ''status'' 64 of
                  None \<Rightarrow> qm_ncs q | Some st \<Rightarrow> filter (\<lambda>c. n_status c = st) (qm_ncs q))
      in case mod_qp_str (mquery r) ''id'' QID_MAX of
           Some i \<Rightarrow>
             (case nc_find q i of
                None \<Rightarrow> plain 404 ''error: no such nc''
              | Some c \<Rightarrow> if wants_json r then json_reply (nc_json c) else plain 200 (nc_text c))
         | None \<Rightarrow> if wants_json r then json_reply (json_list (map nc_item_json cs))
                   else plain 200 (concat (map nc_item_line cs)))"

definition qms_ncs :: "'w net \<Rightarrow> exo \<Rightarrow> 'w qms_env \<Rightarrow> mreq \<Rightarrow> 'w qms_st \<Rightarrow> 'w qms_st \<times> resp" where
  "qms_ncs net e v r s =
     (if mmethod r = ''POST'' then
        (case mod_qp_str (mquery r) ''id'' QID_MAX of
           Some i \<Rightarrow> qms_nc_action net e v r i s | None \<Rightarrow> qms_nc_post net e v r s)
      else if \<not> is_read r then (s, plain 405 ''error: use GET'')
      else (s, qms_nc_list r (s_reg s)))"

subsection \<open>Issues and audit records\<close>

text \<open>The check and the columns of an issue, missing numbers as 0.\<close>

definition issue_columns :: "string \<times> bytes \<Rightarrow> string list" where
  "issue_columns kx =
     (let f = strtok_all (\<lambda>c. c = tab) (snd kx); num = (\<lambda>i. if i < length f then f ! i else ''0'')
      in [drop 6 (fst kx), field f 0, num 1, num 2, num 3, num 4, num 5, field f 6])"

text \<open>In the JSON form the check and the evidence stand without quotes.\<close>

definition issue_json :: "string list \<Rightarrow> string" where
  "issue_json c = json_obj [(''check'', qms_json_escape (c ! 0)), (''status'', jname (c ! 1)), (''fails'', c ! 2),
     (''consecutive'', c ! 3), (''first_seen'', c ! 4), (''last_seen'', c ! 5), (''reopens'', c ! 6),
     (''evidence'', qms_json_escape (c ! 7))]"

definition issue_text :: "string list \<Rightarrow> string" where
  "issue_text c = tab_line [c ! 0, c ! 1, ''fails='' @ c ! 2, ''consec='' @ c ! 3, ''first='' @ c ! 4, ''last='' @ c ! 5,
     ''reopens='' @ c ! 6, c ! 7]"

definition qms_issues :: "'w net \<Rightarrow> exo \<Rightarrow> mreq \<Rightarrow> 'w qms_st \<Rightarrow> 'w qms_st \<times> resp" where
  "qms_issues net e r s =
     (case client_list net e ''issue:'' (s_net s) of
        (Inl err, w1) \<Rightarrow> (s\<lparr>s_net := w1\<rparr>, plain 500 ''error: exomind unavailable'')
      | (Inr ks, w1) \<Rightarrow>
          (let (vs, w2) = fetch_all net e ks w1; cs = map issue_columns vs
           in (s\<lparr>s_net := w2\<rparr>,
               if wants_json r then json_reply (json_obj [(''issues'', json_list (map issue_json cs))])
               else plain 200 (concat (map issue_text cs)))))"

definition audit_item_json :: "audit \<Rightarrow> string" where
  "audit_item_json a = json_obj [(''id'', jname (a_id a)), (''name'', json_text (a_name a)), (''criteria'', json_text (a_criteria a)),
     (''status'', jname (a_status a)), (''score'', show_int (a_score a)), (''scheduled_at'', show_int (a_sched a))]"

definition audit_item_line :: "audit \<Rightarrow> string" where
  "audit_item_line a = tab_line [a_id a, a_name a, a_status a, show_int (a_score a), show_int (a_sched a)]"

definition qms_audits_get :: "mreq \<Rightarrow> qms \<Rightarrow> resp" where
  "qms_audits_get r q =
     (if \<not> is_read r then plain 405 ''error: use GET''
      else if wants_json r then json_reply (json_list (map audit_item_json (qm_audits q)))
      else plain 200 (concat (map audit_item_line (qm_audits q))))"

definition finding_columns :: "audit \<Rightarrow> string list list" where
  "finding_columns a = map (\<lambda>l. let f = tab_split l 3 in [f ! 0, field f 1, field f 2]) (strtok_all (\<lambda>c. c = nl) (a_findings a))"

definition audit_json :: "audit \<Rightarrow> string" where
  "audit_json a = json_obj [(''id'', jname (a_id a)), (''name'', json_text (a_name a)), (''criteria'', json_text (a_criteria a)),
     (''scheduled_at'', show_int (a_sched a)), (''status'', jname (a_status a)), (''score'', show_int (a_score a)),
     (''findings'', json_list (map (\<lambda>f. json_obj [(''check'', json_text (f ! 0)), (''result'', json_text (f ! 1)),
        (''evidence'', json_text (f ! 2))]) (finding_columns a)))]"

definition audit_text :: "audit \<Rightarrow> string" where
  "audit_text a = tab_line [a_id a, a_name a, a_criteria a, show_int (a_sched a), a_status a, show_int (a_score a)] @
     concat (map tab_line (finding_columns a))"

definition qms_audit_get :: "mreq \<Rightarrow> qms \<Rightarrow> resp" where
  "qms_audit_get r q =
     (case mod_qp_str (mquery r) ''id'' QID_MAX of
        None \<Rightarrow> plain 400 ''error: missing id''
      | Some i \<Rightarrow>
          (case audit_find q i of
             None \<Rightarrow> plain 404 ''error: no such audit''
           | Some a \<Rightarrow> if wants_json r then json_reply (audit_json a) else plain 200 (audit_text a)))"

subsection \<open>Running an audit\<close>

definition known_checks :: "string list" where
  "known_checks = [''component-tests'', ''doc-compliance'', ''dogfood'', ''ui-audit'', ''metrics'', ''rework'', ''code-safety'',
     ''asset-logic'', ''debt'', ''hygiene'', ''secrets'', ''agent-health'', ''docs-coverage'', ''kit-fidelity'',
     ''memory-awareness'', ''issue-tracking'']"

definition standard_checks :: "string list" where
  "standard_checks = [''component-tests'', ''doc-compliance'', ''dogfood'', ''ui-audit'', ''metrics'', ''rework'', ''code-safety'',
     ''asset-logic'', ''docs-coverage'', ''kit-fidelity'']"

text \<open>
  The checks a list of criteria names, or the first unknown one. The array holds 16; \<open>None\<close> when one
  more is stored.
\<close>

fun criteria_ids :: "nat \<Rightarrow> string list \<Rightarrow> (string + string list) option" where
  "criteria_ids n [] = Some (Inr [])"
| "criteria_ids n (c # cs) =
     (let i = dropWhile (\<lambda>x. x = CHR '' '') c
      in if i \<notin> set known_checks then Some (Inl i)
         else if n \<ge> 16 then None
         else (case criteria_ids (Suc n) cs of Some (Inr ids) \<Rightarrow> Some (Inr (i # ids)) | x \<Rightarrow> x))"

definition audit_ids :: "string \<Rightarrow> (string + string list) option" where
  "audit_ids criteria =
     (if criteria = [] \<or> criteria = ''detect'' then Some (Inr standard_checks)
      else criteria_ids 0 (strtok_all (\<lambda>x. x = CHR '','') criteria))"

fun run_checks :: "'w qenv \<Rightarrow> cfg \<Rightarrow> exo \<Rightarrow> string list \<Rightarrow> ctx \<Rightarrow> 'w \<Rightarrow> (finding list \<times> 'w) option" where
  "run_checks v c e [] k w = Some ([], w)"
| "run_checks v c e (i # is) k w =
     (case check_run v c e i k w of
        None \<Rightarrow> None
      | Some (f, k1, w1) \<Rightarrow> map_option (\<lambda>(fs, w2). (f # fs, w2)) (run_checks v c e is k1 w1))"

definition res_text :: "res \<Rightarrow> string" where
  "res_text r = (case r of RPass \<Rightarrow> ''pass'' | RFail \<Rightarrow> ''fail'' | RSkip \<Rightarrow> ''skip'')"

definition finding_line :: "finding \<Rightarrow> string" where
  "finding_line f = tab_line [f_id f, res_text (f_res f), esc_line (f_ev f)]"

text \<open>Each finding is registered as an issue, with its own readings of the clock.\<close>

fun register_findings :: "'w net \<Rightarrow> exo \<Rightarrow> (nat \<Rightarrow> int) \<Rightarrow> nat \<Rightarrow> finding list \<Rightarrow> 'w \<Rightarrow> 'w" where
  "register_findings net e now n [] w = w"
| "register_findings net e now n (f # fs) w =
     register_findings net e now (n + 2) fs
       (snd (issue_register net e (\<lambda>i. now (n + i)) (f_id f) (f_res f = RFail) (f_ev f) w))"

definition count_res :: "res \<Rightarrow> finding list \<Rightarrow> nat" where
  "count_res r fs = length (filter (\<lambda>f. f_res f = r) fs)"

definition audit_score :: "finding list \<Rightarrow> nat" where
  "audit_score fs =
     (let p = count_res RPass fs; n = p + count_res RFail fs in if n > 0 then (100 * p) div n else 0)"

text \<open>The checks that failed now and in the previous audit, and the bookkeeping in exomind.\<close>

definition failing_ids :: "finding list \<Rightarrow> string" where
  "failing_ids fs = join_with (CHR '' '') (map f_id (filter (\<lambda>f. f_res f = RFail) fs))"

definition rework_count :: "string \<Rightarrow> bytes option \<Rightarrow> nat" where
  "rework_count cur prev =
     (case prev of
        None \<Rightarrow> 0
      | Some p \<Rightarrow> length (filter (\<lambda>x. has_sub (CHR '' '' # cur @ '' '') (CHR '' '' # x @ '' '')) (strtok_all (\<lambda>c. c = CHR '' '') p)))"

definition rework_record :: "'w net \<Rightarrow> exo \<Rightarrow> string \<Rightarrow> string \<Rightarrow> finding list \<Rightarrow> 'w \<Rightarrow> 'w" where
  "rework_record net e name i fs w =
     (let cur = failing_ids fs; (r, w1) = qms_get net e ''exoqms:last_fails'' w;
          n = rework_count cur (case r of Inr x \<Rightarrow> x | Inl err \<Rightarrow> None);
          w2 = snd (qms_persist net e ''exoqms:last_fails'' cur w1);
          w3 = snd (qms_persist net e ''metric:exoqms:rework:last'' (show_nat n) w2)
      in snd (exo_request net e ''POST'' ''/append?key=metric:exoqms:rework:history''
           (fit 2048 (name @ CHR '' '' # i @ tab # show_nat n @ [nl])) False w3))"

text \<open>
  What follows once the checks have run. With no finding the text of the findings is NULL, which
  \<open>audit_save\<close> measures: \<open>None\<close>.
\<close>

definition audit_finish :: "'w net \<Rightarrow> exo \<Rightarrow> 'w qms_env \<Rightarrow> string \<Rightarrow> string \<Rightarrow> string \<Rightarrow> finding list \<Rightarrow> 'w qms_st
    \<Rightarrow> ('w qms_st \<times> resp) option" where
  "audit_finish net e v i name criteria fs s =
     (if fs = [] then None
      else (let w1 = register_findings net e (h_now v) 1 fs (s_net s); score = int (audit_score fs); n = 1 + 2 * length fs;
                txt = concat (map finding_line fs);
                (err, q1, w2) = audit_save net e (\<lambda>j. h_now v (n + j)) (h_others v) (s_reg s) i name criteria txt score w1;
                s1 = s\<lparr>s_reg := q1, s_net := w2\<rparr>;
                cnt = (\<lambda>r. show_nat (count_res r fs));
                note = ''exoqms audit '' @ i @ CHR '' '' # name @ '': '' @ cnt RPass @ '' pass, '' @ cnt RFail @ '' fail, '' @
                  cnt RSkip @ '' skip (score '' @ show_int score @ ''%)''
            in case err of
                 Some x \<Rightarrow> Some (s1, plain 500 (''error: exomind unavailable: '' @ x))
               | None \<Rightarrow>
                   (let w3 = snd (client_note net e note w2)
                    in Some (s1\<lparr>s_net := rework_record net e name i fs w3\<rparr>,
                         plain 200 (''ok '' @ i @ CHR '' '' # show_int score @ ''%'')))))"

definition qms_audit_post :: "'w net \<Rightarrow> exo \<Rightarrow> 'w qms_env \<Rightarrow> cfg \<Rightarrow> mreq \<Rightarrow> 'w qms_st \<Rightarrow> ('w qms_st \<times> resp) option" where
  "qms_audit_post net e v c r s =
     (let f = tab_split (cstr (mbody r)) 4; name = f ! 0; criteria = field f 1;
          agents = (case mod_qp_str (mquery r) ''agents'' 1024 of
                      Some (x # xs) \<Rightarrow> Some (x # xs) | _ \<Rightarrow> if field f 2 \<noteq> [] then Some (f ! 2) else None)
      in if mbody r = [] then Some (s, plain 400 ''error: empty body'')
         else if name = [] then Some (s, plain 400 ''error: body must be name<TAB>criteria'')
         else (case audit_ids criteria of
                 None \<Rightarrow> None
               | Some (Inl x) \<Rightarrow> Some (s, plain 400 (''error: unknown check '' @ [CHR 0x27] @ x @ [CHR 0x27]))
               | Some (Inr ids) \<Rightarrow>
                   (let g = qms_rand32 (h_seed v) (s_rng s); i = make_id (h_now v 0) g;
                        k = \<lparr>ck_target = mod_qp_str (mquery r) ''target'' 4096, ck_agents = agents, ck_memo = None\<rparr>
                    in case run_checks (h_env v) c e ids k (s_net s) of
                         None \<Rightarrow> None
                       | Some (fs, w1) \<Rightarrow> audit_finish net e v i name criteria fs (s\<lparr>s_rng := g, s_net := w1\<rparr>))))"

definition qms_audit :: "'w net \<Rightarrow> exo \<Rightarrow> 'w qms_env \<Rightarrow> cfg \<Rightarrow> mreq \<Rightarrow> 'w qms_st \<Rightarrow> ('w qms_st \<times> resp) option" where
  "qms_audit net e v c r s =
     (if mmethod r = ''POST'' then qms_audit_post net e v c r s
      else if \<not> is_read r then Some (s, plain 405 ''error: use GET or POST'')
      else Some (s, qms_audit_get r (s_reg s)))"

subsection \<open>The report and the trends\<close>

text \<open>The value of an objective as text and whether it is met, \<open>None\<close> when there is none.\<close>

definition obj_status :: "obj \<Rightarrow> bytes option \<Rightarrow> string \<times> bool option" where
  "obj_status x val =
     (case val of
        None \<Rightarrow> (''no-data'', None)
      | Some b \<Rightarrow>
          (let t = dropWhile isspace (chop_eol b)
           in if t \<noteq> [] \<and> (isdigit (hd t) \<or> hd t = CHR ''-'') then
                (show_int (fst (strtoll t)), Some (fst (strtoll t) \<ge> fst (strtoll (o_target x))))
              else (fit 128 t, Some (t = o_target x))))"

fun report_objs :: "'w net \<Rightarrow> exo \<Rightarrow> obj list \<Rightarrow> 'w \<Rightarrow> (obj \<times> string \<times> bool option) list \<times> 'w" where
  "report_objs net e [] w = ([], w)"
| "report_objs net e (x # xs) w =
     (let (r, w1) = qms_get net e (o_metric x) w; (ys, w2) = report_objs net e xs w1
      in ((x, obj_status x (case r of Inr v \<Rightarrow> v | Inl err \<Rightarrow> None)) # ys, w2))"

definition report_obj_json :: "obj \<times> string \<times> bool option \<Rightarrow> string" where
  "report_obj_json y =
     (case y of (x, val, m) \<Rightarrow>
        json_obj [(''id'', jname (o_id x)), (''title'', json_text (o_desc x)), (''metric_key'', json_text (o_metric x)),
          (''target'', json_text (o_target x)), (''value'', jname val),
          (''met'', case m of None \<Rightarrow> ''null'' | Some b \<Rightarrow> if b then ''true'' else ''false'')])"

definition report_obj_line :: "obj \<times> string \<times> bool option \<Rightarrow> string" where
  "report_obj_line y =
     (case y of (x, val, m) \<Rightarrow>
        tab_line [''objective'', o_id x, esc_line (o_desc x), esc_line (o_metric x), esc_line (o_target x), val,
          case m of None \<Rightarrow> ''no-data'' | Some b \<Rightarrow> if b then ''met'' else ''not''])"

fun last_audit :: "audit list \<Rightarrow> audit option \<Rightarrow> audit option" where
  "last_audit [] best = best"
| "last_audit (a # as) best =
     last_audit as (case best of None \<Rightarrow> Some a | Some b \<Rightarrow> if a_sched a > a_sched b then Some a else Some b)"

definition qms_trend :: "'w net \<Rightarrow> exo \<Rightarrow> 'w \<Rightarrow> (string \<times> bool) \<times> 'w" where
  "qms_trend net e w =
     (case trend_values net e w of
        (None, w1) \<Rightarrow> ((''unknown'', False), w1) | (Some (vals, ls), w1) \<Rightarrow> (trend_verdict vals, w1))"

definition bool_text :: "bool \<Rightarrow> string" where
  "bool_text b = (if b then ''true'' else ''false'')"

text \<open>The registry is locked while the metrics are fetched; \<open>total\<close> counts the objectives.\<close>

definition qms_report :: "'w net \<Rightarrow> exo \<Rightarrow> mreq \<Rightarrow> 'w qms_st \<Rightarrow> 'w qms_st \<times> resp" where
  "qms_report net e r s =
     (if \<not> is_read r then (s, plain 405 ''error: use GET'')
      else (let q = s_reg s; (ys, w1) = report_objs net e (qm_objs q) (s_net s); total = length (qm_objs q);
                met = length (filter (\<lambda>y. snd (snd y) = Some True) ys); nd = length (filter (\<lambda>y. snd (snd y) = None) ys);
                open_n = show_nat (length (filter (\<lambda>c. n_status c \<noteq> ''closed'') (qm_ncs q)));
                la = last_audit (qm_audits q) None; ((tv, flag), w2) = qms_trend net e w1; (rw, w3) = rework_latest net e w2;
                s1 = s\<lparr>s_net := w3\<rparr>
            in (s1,
                if wants_json r then
                  json_reply (json_obj ([(''objectives'', json_list (map report_obj_json ys)),
                    (''objectives_summary'', json_obj [(''met'', show_nat met), (''total'', show_nat total), (''no_data'', show_nat nd)]),
                    (''open_ncs'', open_n),
                    (''last_audit'', case la of None \<Rightarrow> ''null''
                       | Some a \<Rightarrow> json_obj [(''id'', jname (a_id a)), (''score'', show_int (a_score a)), (''status'', jname (a_status a))]),
                    (''trend'', jname tv), (''stagnation'', bool_text flag)] @
                    (case rw of Inr (Some rate, cyc) \<Rightarrow> [(''rework_rate'', show_int rate), (''rework_cycles'', show_int cyc)] | _ \<Rightarrow> [])))
                else plain 200 (concat (map report_obj_line ys) @
                  tab_line [''objectives_summary'', show_nat met @ CHR ''/'' # show_nat total @ '' met'', show_nat nd @ '' no-data''] @
                  tab_line [''open_ncs'', open_n] @
                  (case la of None \<Rightarrow> tab_line [''last_audit'', ''none'']
                   | Some a \<Rightarrow> tab_line [''last_audit'', a_id a, show_int (a_score a), a_status a]) @
                  tab_line [''trend'', tv] @ tab_line [''stagnation'', if flag then ''1'' else ''0''] @
                  (case rw of Inr (Some rate, cyc) \<Rightarrow> tab_line [''rework_rate'', show_int rate] | _ \<Rightarrow> [])))))"

definition trend_json :: "string \<Rightarrow> string" where
  "trend_json l =
     (let k = takeWhile (\<lambda>c. c \<noteq> tab) l
      in json_obj [(''key'', jname k), (''value'', if tab \<in> set l then drop (Suc (length k)) l else ''null'')])"

definition qms_trends :: "'w net \<Rightarrow> exo \<Rightarrow> mreq \<Rightarrow> 'w qms_st \<Rightarrow> 'w qms_st \<times> resp" where
  "qms_trends net e r s =
     (if \<not> is_read r then (s, plain 405 ''error: use GET'')
      else case trend_values net e (s_net s) of
             (None, w1) \<Rightarrow> (s\<lparr>s_net := w1\<rparr>, plain 500 ''error: exomind unreachable'')
           | (Some (vals, ls), w1) \<Rightarrow>
               (case rework_latest net e w1 of
                  (Inl err, w2) \<Rightarrow> (s\<lparr>s_net := w2\<rparr>, plain 500 ''error: exomind unreachable'')
                | (Inr rw, w2) \<Rightarrow>
                    (let (tv, flag) = trend_verdict vals
                     in (s\<lparr>s_net := w2\<rparr>,
                         if wants_json r then
                           json_reply (json_obj ([(''values'', json_list (map trend_json (strtok_all (\<lambda>c. c = nl) ls))),
                             (''trend'', jname tv), (''stagnation'', bool_text flag)] @
                             (case rw of (Some rate, cyc) \<Rightarrow> [(''rework_rate'', show_int rate), (''rework_cycles'', show_int cyc)] | _ \<Rightarrow> [])))
                         else plain 200 (ls @
                           (case rw of (Some rate, cyc) \<Rightarrow> tab_line [''rework_rate'', show_int rate] @ tab_line [''rework_cycles'', show_int cyc]
                            | _ \<Rightarrow> []) @ ''trend '' @ tv @ [nl])))))"

subsection \<open>Routes, connections and the console\<close>

definition qms_route :: "'w net \<Rightarrow> exo \<Rightarrow> 'w qms_env \<Rightarrow> cfg \<Rightarrow> mreq \<Rightarrow> 'w qms_st \<Rightarrow> ('w qms_st \<times> resp) option" where
  "qms_route net e v c r s =
     (let p = mpath r
      in if p \<in> set [''/'', ''/help'', ''/spec''] then Some (s, \<lparr>p_status = 200, p_ctype = Markdown, p_body = h_spec v\<rparr>)
         else if p = ''/ping'' then Some (s, plain 200 ''pong'')
         else if p = ''/objectives'' then Some (qms_objectives net e v r s)
         else if p = ''/nc'' then Some (qms_ncs net e v r s)
         else if p = ''/issues'' then Some (qms_issues net e r s)
         else if p = ''/audits'' then Some (s, qms_audits_get r (s_reg s))
         else if p = ''/audit'' then qms_audit net e v c r s
         else if p = ''/report'' then Some (qms_report net e r s)
         else if p = ''/trends'' then Some (qms_trends net e r s)
         else Some (s, plain 404 ''error: unknown path''))"

definition qms_handle_conn :: "'w net \<Rightarrow> exo \<Rightarrow> 'w qms_env \<Rightarrow> cfg \<Rightarrow> string \<Rightarrow> rate option \<Rightarrow> int \<Rightarrow> bytes list \<Rightarrow> 'w qms_st
    \<Rightarrow> ('w qms_st \<times> rate option \<times> bytes) option" where
  "qms_handle_conn net e v c token rt tick segs s =
     (case mod_gate ''/exoexoqms'' token rt tick segs of
        (rt', Inl rs) \<Rightarrow> Some (s, rt', mod_send_response rs False)
      | (rt', Inr r) \<Rightarrow>
          map_option (\<lambda>(s', rs). (s', rt', mod_send_response rs (mmethod r = ''HEAD''))) (qms_route net e v c r s))"

definition qms_dispatch :: "'w net \<Rightarrow> exo \<Rightarrow> 'w qms_env \<Rightarrow> cfg \<Rightarrow> string \<Rightarrow> string \<Rightarrow> string \<Rightarrow> bytes \<Rightarrow> 'w qms_st
    \<Rightarrow> ('w qms_st \<times> resp) option" where
  "qms_dispatch net e v c meth path query body s =
     qms_route net e v c \<lparr>mmethod = fit 16 meth, mpath = mod_strip ''/exoexoqms'' (fit 2048 path), mquery = fit 8192 query,
       mbody = body, mauth = [], mhdrs = []\<rparr> s"

text \<open>The body of a console operation: the argument, or what standard input holds, line ends cut off.\<close>

definition console_body :: "string \<Rightarrow> bytes option \<Rightarrow> bytes" where
  "console_body body_arg input =
     (if body_arg \<noteq> [] then fit 65536 body_arg else case input of None \<Rightarrow> [] | Some i \<Rightarrow> chop_eol (fit 65536 i))"

text \<open>The exit code and what is printed; \<open>input\<close> is \<open>None\<close> at a terminal.\<close>

definition qms_console :: "'w net \<Rightarrow> exo \<Rightarrow> 'w qms_env \<Rightarrow> cfg \<Rightarrow> string \<Rightarrow> string \<Rightarrow> bytes option \<Rightarrow> 'w qms_st
    \<Rightarrow> ('w qms_st \<times> nat \<times> bytes) option" where
  "qms_console net e v c path body_arg input s =
     (let pq = fit 2048 path; p0 = takeWhile (\<lambda>x. x \<noteq> CHR ''?'') pq; q = fit 8192 (drop (Suc (length p0)) pq);
          p = mod_strip ''/exoexoqms'' p0; postable = (p \<in> set [''/objectives'', ''/nc'', ''/audit'']);
          b = (if postable then console_body body_arg input else []);
          crit = (if p = ''/audit'' \<and> b = [] then mod_qp_str q ''criteria'' 512 else None);
          name = (case mod_qp_str q ''name'' 128 of Some (x # xs) \<Rightarrow> x # xs | _ \<Rightarrow> ''console'');
          body = (case crit of Some (x # xs) \<Rightarrow> name @ tab # x # xs | _ \<Rightarrow> b)
      in if p \<notin> set [''/'', ''/help'', ''/spec'', ''/ping'', ''/objectives'', ''/nc'', ''/audit'', ''/audits'', ''/issues'',
             ''/report'', ''/trends''] then Some (s, 2, [])
         else map_option (\<lambda>(s', rs). (s', if p_status rs \<ge> 400 then 1 else 0, if p_status rs \<ge> 400 then [] else cstr (p_body rs)))
                (qms_dispatch net e v c (if body \<noteq> [] then ''POST'' else ''GET'') p q body s))"

text \<open>
  The start: up to \<open>n\<close> attempts to load the registry (10 of the daemon, 5 of the console). The agents that
  were loaded stay in a variable of \<open>main\<close>; only the expected notes reach the configuration.
\<close>

fun qms_startup :: "'w net \<Rightarrow> exo \<Rightarrow> int \<Rightarrow> nat \<Rightarrow> cfg \<Rightarrow> qms \<Rightarrow> 'w \<Rightarrow> bool \<times> cfg \<times> qms \<times> 'w" where
  "qms_startup net e now 0 c q w = (False, c, q, w)"
| "qms_startup net e now (Suc n) c q w =
     (case qms_reload net e now q (cf_agents c) (cf_notes c) w of
        (None, q1, ag, nt, w1) \<Rightarrow> (True, c\<lparr>cf_notes := nt\<rparr>, q1, w1)
      | (Some err, q1, ag, nt, w1) \<Rightarrow> qms_startup net e now n (c\<lparr>cf_notes := nt\<rparr>) q1 w1)"

end
