(* ===== verification/Exo_Qms_Checks_Props.thy ===== *)
theory Exo_Qms_Checks_Props
  imports Exo_Qms_Rules
begin

text \<open>
  What holds of every check of exoqms: its finding fits its buffers. And what the rule engine's memory
  does: a failed scan is remembered as an empty one. Lemmas for the properties of the root theory.
\<close>

subsection \<open>Findings fit their buffers\<close>

definition finding_fits :: "finding \<Rightarrow> bool" where
  "finding_fits f \<longleftrightarrow> length (f_id f) < 32 \<and> length (f_ev f) < EVID_MAX"

named_theorems fits_intro

lemma fit_length: "0 < n \<Longrightarrow> length (fit n s) < n"
  by (cases n) (simp_all add: fit_def)

lemma set_finding_fits [fits_intro]: "finding_fits (set_finding i r ev)"
  by (simp add: finding_fits_def set_finding_def fit_length EVID_MAX_def)

lemma ev_cat_fits [fits_intro]: "finding_fits f \<Longrightarrow> finding_fits (ev_cat f s)"
  by (simp add: finding_fits_def ev_cat_def fit_length EVID_MAX_def)

lemma ev_block_fits [fits_intro]: "finding_fits f \<Longrightarrow> finding_fits (ev_block f s)"
  by (simp add: ev_block_def ev_cat_fits)

lemma finding_append_lines_fits [fits_intro]: "finding_fits f \<Longrightarrow> finding_fits (finding_append_lines f s)"
  by (simp add: finding_append_lines_def ev_block_fits)

lemma finding_snippet_fits [fits_intro]: "finding_fits f \<Longrightarrow> finding_fits (finding_snippet f s)"
  by (simp add: finding_snippet_def Let_def ev_cat_fits)

lemma tests_finding_fits [fits_intro]: "finding_fits (tests_finding s n m ev)"
  by (simp add: tests_finding_def fits_intro)

lemma severity_finding_fits [fits_intro]: "finding_fits (severity_finding i h t u r)"
  by (simp add: severity_finding_def Let_def fits_intro split: prod.split)

lemma component_tests_fits [fits_intro]: "finding_fits (fst (check_component_tests v c w))"
  by (simp add: check_component_tests_def Let_def fits_intro split: prod.split option.split)

lemma doc_compliance_fits [fits_intro]: "finding_fits (fst (check_doc_compliance v c e w))"
  by (simp add: check_doc_compliance_def Let_def fits_intro split: prod.split)

lemma dogfood_fits [fits_intro]: "finding_fits (fst (check_dogfood v c e k w))"
  by (simp add: check_dogfood_def Let_def fits_intro split: prod.split sum.split)

lemma ui_audit_fits [fits_intro]: "finding_fits (fst (check_ui_audit v c k w))"
  by (simp add: check_ui_audit_def Let_def fits_intro split: prod.split)

lemma metrics_fits [fits_intro]: "finding_fits (fst (check_metrics v e w))"
  by (simp add: check_metrics_def Let_def fits_intro split: prod.split option.split)

lemma rework_fits [fits_intro]: "check_rework v e w = Some r \<Longrightarrow> finding_fits (fst r)"
  by (auto simp: check_rework_def rework_finding_def Let_def fits_intro split: prod.splits sum.splits if_splits)

lemma code_safety_fits [fits_intro]: "check_code_safety v c k w = Some r \<Longrightarrow> finding_fits (fst r)"
  by (auto simp: check_code_safety_def Let_def fits_intro split: prod.splits if_splits)

lemma asset_logic_fits [fits_intro]: "finding_fits (fst (check_asset_logic v c k w))"
  by (simp add: check_asset_logic_def Let_def fits_intro split: prod.split)

lemma rule_check_fits:
  assumes "rule_check v c i en m al verdict k w = Some r" "\<And>n. finding_fits (verdict n)"
  shows "finding_fits (fst r)"
proof -
  have "finding_fits (case x of Inl (rs, err) \<Rightarrow> set_finding i rs err | Inr ls \<Rightarrow> finding_append_lines (verdict (length ls)) (concat ls))"
    for x using assms(2) by (auto intro: fits_intro split: sum.split)
  then show ?thesis
    using assms(1) set_finding_fits by (auto simp: rule_check_def split: if_split_asm)
qed

lemma debt_fits [fits_intro]: "check_debt v c k w = Some r \<Longrightarrow> finding_fits (fst r)"
  unfolding check_debt_def by (erule rule_check_fits) (simp add: Let_def fits_intro)

lemma hygiene_fits [fits_intro]: "check_hygiene v c k w = Some r \<Longrightarrow> finding_fits (fst r)"
  unfolding check_hygiene_def by (erule rule_check_fits) (simp add: fits_intro)

lemma secrets_fits [fits_intro]: "check_secrets v c k w = Some r \<Longrightarrow> finding_fits (fst r)"
  unfolding check_secrets_def by (erule rule_check_fits) (simp add: fits_intro)

lemma agent_health_fits [fits_intro]: "finding_fits (fst (check_agent_health v c e k w))"
  by (simp add: check_agent_health_def Let_def fits_intro split: prod.split sum.split)

lemma issue_tracking_fits [fits_intro]: "finding_fits (fst (check_issue_tracking v e w))"
  by (simp add: check_issue_tracking_def Let_def fits_intro split: prod.split sum.split)

lemma memory_awareness_fits [fits_intro]: "finding_fits (fst (check_memory_awareness v c e k w))"
  by (simp add: check_memory_awareness_def Let_def fits_intro split: prod.split sum.split option.split)

lemma kit_fidelity_fits [fits_intro]: "finding_fits (fst (check_kit_fidelity v c w))"
  by (simp add: check_kit_fidelity_def Let_def fits_intro split: prod.split)

lemma docs_coverage_fits [fits_intro]: "finding_fits (check_docs_coverage v c)"
  by (simp add: check_docs_coverage_def Let_def fits_intro)

lemma check_run_fits: "check_run v c e i k w = Some r \<Longrightarrow> finding_fits (fst r)"
  unfolding check_run_def Let_def
  by (auto simp: split_beta dest: debt_fits hygiene_fits secrets_fits rework_fits code_safety_fits intro: fits_intro
      split: if_split_asm)

subsection \<open>The memory of the rule engine\<close>

lemma rule_loop_empty: "rule_loop pre m al [] 0 acc = Some acc"
  by (subst rule_loop.simps) (simp add: json_array_each_def json_array_start_def json_skip_ws_def)

text \<open>A scan that the timeout or a failing \<open>exec\<close> ends leaves its output in the context.\<close>

lemma rules_scan_first:
  assumes "ck_memo k = None" "cf_code c \<noteq> []" "rules_dir v c = Some d"
    and "e_child v ([cf_code c, cf_repo c, ''--rules'', d] @ ignore_args 36 4 (pc_ignore (cf_proj c)) @ [''--json''])
      (Some (cf_repo c)) w = ((rc, out, err), w1)"
  shows "\<exists>e2. rules_scan v c k w = ((rc, out, e2), k\<lparr>ck_memo := Some out\<rparr>, w1)"
  using assms by (simp add: rules_scan_def Let_def numeral_eq_Suc)

lemma universal_count_memo:
  "ck_memo k = Some [] \<Longrightarrow> universal_count v c pre m al k w = Some (Inr [], k, w)"
  by (simp add: universal_count_def rules_scan_def rule_loop_empty)

lemma universal_count_failed:
  assumes "rules_scan v c k w = ((rc, out, err), k1, w1)" "rc = -1 \<or> rc = -2"
  shows "\<exists>rs. rs \<noteq> RPass \<and> universal_count v c pre m al k w = Some (Inl (rs, fit 256 err), k1, w1)"
  using assms by (auto simp: universal_count_def Let_def)

subsection \<open>Masked evidence\<close>

text \<open>The lines for secrets are of places only.\<close>

definition masked_line :: "string \<Rightarrow> bool" where
  "masked_line l \<longleftrightarrow> (\<exists>a b. l = a @ CHR '':'' # b @ '' ***'' @ [nl])"

lemma rule_loop_masked:
  assumes "rule_loop pre m al out pos acc = Some ls"
  shows "m \<longrightarrow> (\<forall>l \<in> set acc. masked_line l) \<longrightarrow> (\<forall>l \<in> set ls. masked_line l)"
proof (rule rule_loop.raw_induct [OF _ assms])
  fix loop pre m al out pos acc y
  assume ih: "\<And>pre m al out pos acc y. loop pre m al out pos acc = Some y \<Longrightarrow>
      m \<longrightarrow> (\<forall>l \<in> set acc. masked_line l) \<longrightarrow> (\<forall>l \<in> set y. masked_line l)"
    and eq: "(case json_array_each out pos of (p, None) \<Rightarrow> Some acc
      | (p, Some el) \<Rightarrow> loop pre m al out p (case rule_line pre m al el of None \<Rightarrow> acc | Some l \<Rightarrow> acc @ [l])) = Some y"
  show "m \<longrightarrow> (\<forall>l \<in> set acc. masked_line l) \<longrightarrow> (\<forall>l \<in> set y. masked_line l)"
  proof (intro impI)
    assume m: m and acc: "\<forall>l \<in> set acc. masked_line l"
    have "masked_line l" if "rule_line pre True al el = Some l" for l el
    proof -
      have "\<exists>a b. l = a @ CHR '':'' # b @ '' ***'' @ [nl]"
        using that by (auto simp: rule_line_def split: option.split_asm if_split_asm)
      then show ?thesis by (simp add: masked_line_def)
    qed
    then have step: "\<forall>l \<in> set (case rule_line pre m al el of None \<Rightarrow> acc | Some l \<Rightarrow> acc @ [l]). masked_line l" for el
      using acc m by (auto split: option.split)
    obtain p r where pr: "json_array_each out pos = (p, r)" by fastforce
    show "\<forall>l \<in> set y. masked_line l"
    proof (cases r)
      case None
      then show ?thesis using eq acc pr by simp
    next
      case (Some el)
      then show ?thesis using ih [OF eq [unfolded pr Some prod.case option.case(2)]] m step [of el] by blast
    qed
  qed
qed

subsection \<open>Termination\<close>

lemma child_loop_ends:
  "length b \<le> OUT_CAP \<Longrightarrow> (\<exists>r \<in> set rs. rd_elapsed r > tmo) \<Longrightarrow>
    \<exists>st out lost. child_loop tmo rs p b = Some (st, out, lost) \<and> length out \<le> OUT_CAP"
proof (induction rs arbitrary: p b)
  case (Cons r rs)
  obtain got q where gq: "got = take 8192 (p @ rd_before r)" "q = drop 8192 (p @ rd_before r) @ rd_after r" by blast
  let ?b = "if length b + length got \<le> OUT_CAP then b @ got else b"
  have le: "length ?b \<le> OUT_CAP" using Cons.prems(1) by simp
  note step = child_loop.simps(2) [of tmo r rs p b, unfolded Let_def, folded gq]
  show ?case
  proof (cases "rd_fails r \<or> rd_wait r \<noteq> None \<or> rd_elapsed r > tmo \<or> rd_poll_fails r")
    case True
    then show ?thesis unfolding step using le Cons.prems(1) by (auto split: option.split)
  next
    case False
    then obtain st out lost where "child_loop tmo rs q ?b = Some (st, out, lost)" "length out \<le> OUT_CAP"
      using Cons.IH [OF le, of q] Cons.prems(2) by auto
    then show ?thesis unfolding step using False by auto
  qed
qed simp

lemma run_child_ends:
  assumes "\<exists>r \<in> set rs. rd_elapsed r > tmo"
  shows "\<exists>rc out err. run_child cmd tmo rs = Some (rc, out, err) \<and> rc \<in> {0, 1, -1, -2} \<and> length out \<le> OUT_CAP \<and> length err < 256"
proof -
  obtain st out lost where "child_loop tmo rs [] [] = Some (st, out, lost)" "length out \<le> OUT_CAP"
    using child_loop_ends [OF _ assms, of "[]" "[]"] by auto
  then show ?thesis
    unfolding run_child_def by (cases st) (simp_all add: fit_length split: ended.split)
qed

text \<open>The loop over the findings does not end when an element of the array is empty.\<close>

lemma rule_loop_stuck:
  assumes "rule_loop pre m al out pos acc = Some ls"
  shows "(\<forall>k. k = pos \<or> k = 1 \<longrightarrow> json_array_each out k = (1, Some [])) \<longrightarrow> False"
proof (rule rule_loop.raw_induct [OF _ assms])
  fix loop pre m al out pos acc y
  assume ih: "\<And>pre m al out pos acc y. loop pre m al out pos acc = Some y \<Longrightarrow>
      (\<forall>k. k = pos \<or> k = 1 \<longrightarrow> json_array_each out k = (1, Some [])) \<longrightarrow> False"
    and eq: "(case json_array_each out pos of (p, None) \<Rightarrow> Some acc
      | (p, Some el) \<Rightarrow> loop pre m al out p (case rule_line pre m al el of None \<Rightarrow> acc | Some l \<Rightarrow> acc @ [l])) = Some y"
  show "(\<forall>k. k = pos \<or> k = 1 \<longrightarrow> json_array_each out k = (1, Some [])) \<longrightarrow> False"
  proof
    assume a: "\<forall>k. k = pos \<or> k = 1 \<longrightarrow> json_array_each out k = (1, Some [])"
    then have e: "json_array_each out pos = (1, Some [])" by blast
    from ih [OF eq [unfolded e prod.case option.case(2)]] a show False by blast
  qed
qed

lemma rule_loop_brace: "rule_loop pre m al ''[}'' 0 acc = None"
proof -
  have "json_array_each ''[}'' k = (1, Some [])" if "k = 0 \<or> k = 1" for k
    using that by (auto simp: json_array_each_def json_array_start_def json_skip_ws_def json_skip_value_def is_ws_def scalar_end_def)
  then have "rule_loop pre m al ''[}'' 0 acc \<noteq> Some ls" for ls
    using rule_loop_stuck [of pre m al "''[}''" 0 acc ls] by blast
  then show ?thesis by (cases "rule_loop pre m al ''[}'' 0 acc") auto
qed

text \<open>No audit with score 100: the rework check does not return.\<close>

lemma findSomeD: "find P xs = Some x \<Longrightarrow> x \<in> set xs \<and> P x"
  by (metis find_Some_iff nth_mem)

lemma ttm_none: "\<forall>a \<in> set as. a_score a \<noteq> 100 \<Longrightarrow> ttm_lines as seen = []"
proof (induction as seen rule: ttm_lines.induct)
  case (2 a as seen)
  have "merge_time (a_name a) (a # as) = -1"
    using 2(3) by (auto simp: merge_time_def dest: findSomeD split: option.split)
  then show ?case using 2 by (simp add: Let_def)
qed simp

lemma check_rework_dies:
  assumes "client_list (e_net v e) e AUDIT_KEY_PREFIX w = (Inr ks, w1)"
    and "fetch_all (e_net v e) e ks w1 = (vs, w2)"
    and "List.map_filter audit_parse (map snd vs) \<noteq> []"
    and "\<forall>a \<in> set (List.map_filter audit_parse (map snd vs)). a_score a \<noteq> 100"
  shows "check_rework v e w = None"
proof -
  let ?as = "List.map_filter audit_parse (map snd vs)"
  have "ttm_lines (exchange_sort a_sched ?as) [] = []" using assms(4) by (intro ttm_none) simp
  then show ?thesis using assms(1-3) by (simp add: check_rework_def Let_def split_beta)
qed

end
