(* ===== verification/Exo_Qms_Http_Props.thy ===== *)
theory Exo_Qms_Http_Props
  imports Exo_Qms_Http Exo_Qms_Checks_Props
begin

text \<open>
  What an audit over HTTP leaves behind: lemmas on the criteria, the score and the record, and the requests
  that exoqms does not survive.
\<close>

subsection \<open>Criteria\<close>

lemma criteria_ids_known:
  "criteria_ids n cs = Some (Inr ids) \<Longrightarrow>
    ids = map (dropWhile (\<lambda>x. x = CHR '' '')) cs \<and> set ids \<subseteq> set known_checks \<and> (ids \<noteq> [] \<longrightarrow> n + length ids \<le> 16)"
proof (induction n cs arbitrary: ids rule: criteria_ids.induct)
  case (2 n c cs)
  obtain ids' where "criteria_ids (Suc n) cs = Some (Inr ids')" "n < 16"
      "ids = dropWhile (\<lambda>x. x = CHR '' '') c # ids'" "dropWhile (\<lambda>x. x = CHR '' '') c \<in> set known_checks"
    using 2(2) by (auto simp: Let_def split: if_split_asm option.split_asm sum.split_asm)
  then show ?case using 2(1) [of "dropWhile (\<lambda>x. x = CHR '' '') c" ids'] by (cases "ids' = []") auto
qed auto

lemma standard_known: "set standard_checks \<subseteq> set known_checks \<and> length standard_checks \<le> 16"
  by (simp add: standard_checks_def known_checks_def)

lemma audit_ids_known:
  assumes "audit_ids c = Some (Inr ids)" shows "set ids \<subseteq> set known_checks \<and> length ids \<le> 16"
  using assms standard_known criteria_ids_known [of 0 "strtok_all (\<lambda>x. x = CHR '','') c" ids]
  by (cases "ids = []") (auto simp: audit_ids_def split: if_split_asm)

text \<open>Criteria of commas only name no check at all.\<close>

lemma audit_ids_commas:
  assumes "criteria \<noteq> []" "\<forall>x \<in> set criteria. x = CHR '',''"
  shows "audit_ids criteria = Some (Inr [])"
proof -
  have "strtok_all (\<lambda>x. x = CHR '','') criteria = []"
  proof -
    have "dropWhile (\<lambda>x. x = CHR '','') criteria = []" using assms(2) by (subst dropWhile_eq_Nil_conv)
    then show ?thesis unfolding strtok_all.simps [of _ criteria] by (simp only: list.case)
  qed
  moreover have "criteria \<noteq> ''detect''"
  proof
    assume "criteria = ''detect''"
    then have "CHR ''d'' \<in> set criteria" by simp
    then have "CHR ''d'' = CHR '',''" using assms(2) by blast
    then show False by simp
  qed
  ultimately show ?thesis using assms(1) by (simp add: audit_ids_def)
qed

lemma criteria_ids_overflow:
  "set cs \<subseteq> set known_checks \<Longrightarrow> n \<le> 16 \<Longrightarrow> n + length cs > 16 \<Longrightarrow> criteria_ids n cs = None"
proof (induction n cs rule: criteria_ids.induct)
  case (2 n c cs)
  have "dropWhile (\<lambda>x. x = CHR '' '') c = c" using 2(2) by (auto simp: known_checks_def)
  then show ?case using 2 by (cases "n = 16") (auto simp: Let_def)
qed simp

subsection \<open>The run\<close>

lemma run_checks_length: "run_checks v c e is k w = Some (fs, w1) \<Longrightarrow> length fs = length is"
  by (induction "is" arbitrary: k w fs w1) (auto split: option.split_asm prod.split_asm)

lemma run_checks_fit: "run_checks v c e is k w = Some (fs, w1) \<Longrightarrow> \<forall>f \<in> set fs. finding_fits f"
proof (induction "is" arbitrary: k w fs w1)
  case (Cons i "is")
  obtain f k1 w2 fs' where "check_run v c e i k w = Some (f, k1, w2)" "run_checks v c e is k1 w2 = Some (fs', w1)" "fs = f # fs'"
    using Cons.prems by (auto split: option.split_asm prod.split_asm)
  then show ?case using Cons.IH check_run_fits by fastforce
qed simp

lemma audit_score_le: "audit_score fs \<le> 100"
proof -
  have "(100 * p) div (p + q) \<le> 100" if "p + q > 0" for p q :: nat
  proof -
    have "100 * p \<le> 100 * (p + q)" by simp
    then have "(100 * p) div (p + q) \<le> (100 * (p + q)) div (p + q)" by (rule div_le_mono)
    also have "(100 * (p + q)) div (p + q) = 100" using that by (intro nonzero_mult_div_cancel_right) simp
    finally show ?thesis .
  qed
  then show ?thesis by (simp add: audit_score_def Let_def)
qed

lemma audit_score_perfect: "audit_score fs = 100 \<longleftrightarrow> count_res RFail fs = 0 \<and> count_res RPass fs > 0"
proof -
  have "(100 * p) div (p + q) = 100 \<longleftrightarrow> q = 0 \<and> p > 0" for p q :: nat
  proof (cases "q = 0")
    case False
    then have "100 * p < 100 * (p + q)" by simp
    then have "(100 * p) div (p + q) < 100" by (simp add: div_less_iff_less_mult)
    then show ?thesis using False by simp
  qed (cases "p = 0"; simp)
  then show ?thesis by (auto simp: audit_score_def Let_def)
qed

subsection \<open>The record\<close>

lemma audit_finish_ok:
  assumes "audit_finish net e v i name criteria fs s = Some (s', rs)" "p_status rs = 200"
  shows "\<exists>t. qm_audits (s_reg s') = qm_audits (h_others v (s_reg s)) @
      [\<lparr>a_id = fit QID_MAX i, a_name = name, a_criteria = criteria, a_sched = t, a_status = ''done'',
        a_score = int (audit_score fs), a_findings = concat (map finding_line fs)\<rparr>] \<and>
    p_body rs = ''ok '' @ i @ CHR '' '' # show_int (int (audit_score fs)) @ ''%''"
proof -
  obtain w1 where w1: "w1 = register_findings net e (h_now v) 1 fs (s_net s)" by blast
  obtain err q1 w2 where sv: "audit_save net e (\<lambda>j. h_now v (1 + 2 * length fs + j)) (h_others v) (s_reg s) i name criteria
      (concat (map finding_line fs)) (int (audit_score fs)) w1 = (err, q1, w2)"
    by (metis prod_cases3)
  have e: "fs \<noteq> []" "err = None" "s_reg s' = q1" "p_body rs = ''ok '' @ i @ CHR '' '' # show_int (int (audit_score fs)) @ ''%''"
    using assms sv w1 by (auto simp: audit_finish_def Let_def plain_def split: if_split_asm option.split_asm)
  show ?thesis
    using sv e(2,4) unfolding e(3) audit_save_def Let_def
    by (auto split: prod.split_asm option.split_asm)
qed

subsection \<open>A daemon that always answers the same\<close>

definition always :: "int \<Rightarrow> bytes \<Rightarrow> 'w net" where
  "always st b = (\<lambda>_ w. (Inr [send_response (plain st b) False], w))"

lemma always_request:
  assumes "0 \<le> st" "st < 1000" "length b \<le> EXO_MAX_BODY"
  shows "exo_request (always st b) e m t body j w = (Inr (st, b), w)"
proof -
  let ?r = "plain st b"
  have "length (show_nat (length b)) \<le> 8" using assms(3) by (intro show_nat_len) (simp_all add: EXO_MAX_BODY_def)
  moreover have "length (show_int st) \<le> 4" using assms(1,2) show_int_len [of st 3] by simp
  moreover have "length (status_text st) \<le> 30" by (simp add: status_text_def)
  moreover have "length (ctype_text Plain) \<le> 40" by (simp add: ctype_text_def)
  ultimately have "length (hdr_block (reply_lines ?r)) + 2 \<le> 65536" by (simp add: reply_lines_def plain_def)
  moreover have "[] \<noteq> send_response ?r False" by (simp add: send_response_lines)
  ultimately have "read_response [send_response ?r False] = Inr (p_status ?r, p_body ?r)"
    using assms by (intro read_response_sent) (simp_all add: plain_def)
  then show ?thesis by (simp add: exo_request_def always_def plain_def)
qed

end
