(* ===== verification/Exo_Keys.thy ===== *)
theory Exo_Keys
  imports Exo_Client
begin

text \<open>
  The key file of the daemons (\<open>common/exo.c\<close>): adding, removing and listing keys, over the files
  by their names and the paths that cannot be opened or renamed, with what \<open>strerror\<close> says of them.
  What \<open>http_load_tokens\<close> makes of the file is in \<open>Exo_Http\<close>.
\<close>

record kfs =
  k_files :: "string \<Rightarrow> bytes option"
  k_noopen :: "string \<Rightarrow> string option"
  k_noread :: "string \<Rightarrow> string"
  k_norename :: "string option"

definition KEY_LINE :: nat where "KEY_LINE = 4096"

text \<open>The buffers that successive \<open>fgets\<close> calls fill.\<close>

function fgets_all :: "nat \<Rightarrow> bytes \<Rightarrow> bytes list" where
  "fgets_all n s = (if s = [] \<or> n < 2 then [] else fst (fgets n s) # fgets_all n (snd (fgets n s)))"
  by pat_completeness auto
termination by (relation "measure (\<lambda>(n, s). length s)") (auto simp: fgets_def Let_def)

declare fgets_all.simps [simp del]

definition key_span :: "bytes \<Rightarrow> string" where
  "key_span l = takeWhile (\<lambda>c. c \<noteq> nl \<and> c \<noteq> CHR '':'') (cstr l)"

definition file_has_line :: "kfs \<Rightarrow> string \<Rightarrow> string \<Rightarrow> bool" where
  "file_has_line fs path nm =
     (case k_files fs path of
        None \<Rightarrow> False
      | Some s \<Rightarrow> list_ex (\<lambda>l. \<not> (cstr l \<noteq> [] \<and> (hd (cstr l) = CHR ''#'' \<or> hd (cstr l) = nl)) \<and> key_span l = nm)
                    (fgets_all KEY_LINE s))"

definition no_keys_file :: string where
  "no_keys_file = ''no keys file (use --keys <file>)''"

definition cannot_open :: "string \<Rightarrow> string \<Rightarrow> string" where
  "cannot_open path why = err255 (''cannot open '' @ path @ '': '' @ why)"

definition keys_add :: "kfs \<Rightarrow> string \<Rightarrow> string \<Rightarrow> kfs \<times> (string + unit)" where
  "keys_add fs path entry =
     (let nm = takeWhile (\<lambda>c. c \<noteq> CHR '':'') entry
      in if path = [] then (fs, Inl no_keys_file)
         else if nm = [] then (fs, Inl ''empty key name'')
         else if file_has_line fs path nm then (fs, Inl (err255 (''key '' @ CHR 0x27 # entry @ CHR 0x27 # '' already present'')))
         else (case k_noopen fs path of
                 Some why \<Rightarrow> (fs, Inl (cannot_open path why))
               | None \<Rightarrow>
                   (let old = (case k_files fs path of None \<Rightarrow> [] | Some s \<Rightarrow> s)
                    in (fs\<lparr>k_files := (k_files fs)(path \<mapsto> old @ entry @ [nl])\<rparr>, Inr ()))))"

text \<open>
  The kept lines go to a temporary file beside it, which replaces the file when a line was removed.
  Opening it for writing empties it, before anything is read, when a long path is cut to itself.
\<close>

definition keys_remove :: "kfs \<Rightarrow> string \<Rightarrow> string \<Rightarrow> kfs \<times> (string + bool)" where
  "keys_remove fs path nm =
     (if path = [] then (fs, Inl no_keys_file)
      else (case k_files fs path of
              None \<Rightarrow> (fs, Inl (cannot_open path (k_noread fs path)))
            | Some s0 \<Rightarrow>
                (let tmp = take 4095 (path @ ''.tmp'')
                 in case k_noopen fs tmp of
                      Some why \<Rightarrow> (fs, Inl (err255 (''cannot write '' @ tmp @ '': '' @ why)))
                    | None \<Rightarrow>
                        (let ls = fgets_all KEY_LINE (if tmp = path then [] else s0);
                             kept = concat (map cstr (filter (\<lambda>l. key_span l \<noteq> nm) ls))
                         in if list_ex (\<lambda>l. key_span l = nm) ls then
                              (case k_norename fs of
                                 Some why \<Rightarrow> (fs\<lparr>k_files := (k_files fs)(tmp \<mapsto> kept)\<rparr>, Inl (err255 (''rename: '' @ why)))
                               | None \<Rightarrow> (fs\<lparr>k_files := ((k_files fs)(tmp := None))(path \<mapsto> kept)\<rparr>, Inr True))
                            else (fs\<lparr>k_files := (k_files fs)(tmp := None)\<rparr>, Inr False)))))"

text \<open>What is printed: the keys, numbered, with their modifiers.\<close>

fun number_keys :: "nat \<Rightarrow> string list \<Rightarrow> string" where
  "number_keys n [] = []"
| "number_keys n (l # ls) =
     (if l = [] \<or> hd l = CHR ''#'' then number_keys n ls
      else show_nat (Suc n) @ CHR '' '' # l @ nl # number_keys (Suc n) ls)"

definition keys_list :: "kfs \<Rightarrow> string \<Rightarrow> string + string" where
  "keys_list fs path =
     (if path = [] then Inl no_keys_file
      else (case k_files fs path of
              None \<Rightarrow> Inl (cannot_open path (k_noread fs path))
            | Some s \<Rightarrow> Inr (number_keys 0 (map (\<lambda>l. chop_eol (cstr l)) (fgets_all KEY_LINE s)))))"

subsection \<open>Files of whole lines\<close>

definition key_line :: "string \<Rightarrow> bool" where
  "key_line l \<longleftrightarrow> length l < LINE_CAP - 1 \<and> nl \<notin> set l \<and> cr \<notin> set l \<and> nul \<notin> set l"

definition key_text :: "string list \<Rightarrow> bytes" where
  "key_text ls = concat (map (\<lambda>l. l @ [nl]) ls)"

lemma key_text_simps [simp]: "key_text [] = []" "key_text (l # ls) = l @ nl # key_text ls" "key_text (ls @ ms) = key_text ls @ key_text ms"
  by (simp_all add: key_text_def)

lemma fgets_line: "nl \<notin> set l \<Longrightarrow> Suc (length l) < n \<Longrightarrow> fgets n (l @ nl # r) = (l @ [nl], r)"
proof -
  assume a: "nl \<notin> set l" "Suc (length l) < n"
  have "takeWhile (\<lambda>c. c \<noteq> nl) (l @ nl # r) = l" using a(1) by (induction l) auto
  then have "min (n - 1) (Suc (length (takeWhile (\<lambda>c. c \<noteq> nl) (l @ nl # r)))) = Suc (length l)" using a(2) by simp
  then show ?thesis by (simp add: fgets_def)
qed

lemma fgets_all_text: "\<forall>l \<in> set ls. key_line l \<Longrightarrow> fgets_all KEY_LINE (key_text ls) = map (\<lambda>l. l @ [nl]) ls"
proof (induction ls)
  case (Cons l ls)
  then have "fgets KEY_LINE (l @ nl # key_text ls) = (l @ [nl], key_text ls)"
    by (intro fgets_line) (auto simp: key_line_def KEY_LINE_def LINE_CAP_def)
  then show ?case using Cons by (subst fgets_all.simps) (simp add: KEY_LINE_def)
qed (simp add: fgets_all.simps)

lemma load_loop_text: "\<forall>l \<in> set ls. key_line l \<Longrightarrow> load_token_loop (key_text ls) st = fold (\<lambda>l st. load_token_line st (l @ [nl])) ls st"
proof (induction ls arbitrary: st)
  case (Cons l ls)
  then have "fgets LINE_CAP (l @ nl # key_text ls) = (l @ [nl], key_text ls)"
    by (intro fgets_line) (auto simp: key_line_def LINE_CAP_def)
  then show ?case using Cons by (subst load_token_loop.simps) simp
qed (simp add: load_token_loop.simps)

definition key_name :: "string \<Rightarrow> string" where
  "key_name l = takeWhile (\<lambda>c. c \<noteq> CHR '':'') l"

lemma cstr_line: "key_line l \<Longrightarrow> cstr (l @ [nl]) = l @ [nl]"
  by (intro cstr_id) (auto simp: key_line_def)

lemma span_line: "key_line l \<Longrightarrow> key_span (l @ [nl]) = key_name l"
proof -
  assume k: "key_line l"
  then have "nl \<notin> set l" by (simp add: key_line_def)
  then have "takeWhile (\<lambda>c. c \<noteq> nl \<and> c \<noteq> CHR '':'') (l @ [nl]) = takeWhile (\<lambda>c. c \<noteq> CHR '':'') l"
    by (induction l) auto
  then show ?thesis unfolding key_span_def cstr_line [OF k] key_name_def .
qed

lemma chop_line: "key_line l \<Longrightarrow> chop_eol (cstr (l @ [nl])) = l"
proof -
  assume k: "key_line l"
  have "l = [] \<or> last l \<noteq> nl \<and> last l \<noteq> cr" using k last_in_set by (fastforce simp: key_line_def)
  then have "dropWhile (\<lambda>c. c = nl \<or> c = cr) (rev l) = rev l" by (cases l rule: rev_cases) auto
  then show ?thesis unfolding cstr_line [OF k] chop_eol_def by simp
qed

text \<open>A line of the file as the loader sees it.\<close>

lemma load_line:
  assumes "key_line l"
  shows "load_token_line (toks, n) (l @ [nl]) =
    (if l = [] \<or> hd l = CHR ''#'' \<or> key_name l = [] \<or> length (key_name l) \<ge> TOKEN_CAP then (toks, n)
     else (let (ro, pre, bad) = tok_mods (drop (Suc (length (key_name l))) l) False False
           in if bad then (toks, n) else (case put_tok toks (key_name l) ro pre of None \<Rightarrow> (toks, n) | Some ts \<Rightarrow> (ts, n + 1))))"
proof -
  have "length l \<noteq> LINE_CAP - 1" using assms by (simp add: key_line_def)
  then show ?thesis
    unfolding load_token_line_def chop_line [OF assms] key_name_def [symmetric] Let_def prod.case by auto
qed

lemma find_tok_None: "find_tok toks t = None \<longleftrightarrow> t \<notin> ttoken ` set toks"
  by (induction toks) auto

lemma put_tok_names:
  assumes "put_tok toks t ro pre = Some ts" "length t < TOKEN_CAP"
  shows "ttoken ` set ts = insert t (ttoken ` set toks) \<and> length ts \<le> Suc (length toks)"
proof (cases "find_tok toks t")
  case None
  then show ?thesis using assms by (auto simp: put_tok_def split: if_split_asm)
next
  case (Some i)
  have i: "i < length toks \<and> ttoken (toks ! i) = t" using Some
    by (induction toks arbitrary: i) (auto split: if_split_asm simp: nth_Cons')
  have ts: "ts = toks[i := (toks ! i)\<lparr>tro := ro, tprefix := pre\<rparr>]" using assms(1) Some by (simp add: put_tok_def)
  have "map ttoken ts = map ttoken toks"
    unfolding ts map_update using i by (metis (no_types, lifting) list_update_id nth_map tok.select_convs(1) tok.surjective tok.update_convs(2,3))
  then have "set (map ttoken ts) = set (map ttoken toks)" by simp
  then have "ttoken ` set ts = ttoken ` set toks" by (simp only: set_map)
  moreover have "t \<in> ttoken ` set toks" using i by force
  ultimately show ?thesis by (auto simp: ts)
qed

lemma load_line_names:
  assumes k: "key_line l" and l: "load_token_line (toks, n) (l @ [nl]) = (ts, m)"
  shows "ttoken ` set ts \<subseteq> insert (key_name l) (ttoken ` set toks) \<and> ttoken ` set toks \<subseteq> ttoken ` set ts \<and>
    length ts \<le> Suc (length toks) \<and> (hd l = CHR ''#'' \<longrightarrow> ts = toks)"
  using l unfolding load_line [OF k]
  by (auto split: if_split_asm prod.split_asm option.split_asm dest!: put_tok_names)

lemma load_fold_names:
  "\<forall>l \<in> set ls. key_line l \<Longrightarrow> fold (\<lambda>l st. load_token_line st (l @ [nl])) ls (toks, n) = (ts, m) \<Longrightarrow>
   ttoken ` set ts \<subseteq> key_name ` {l \<in> set ls. hd l \<noteq> CHR ''#''} \<union> ttoken ` set toks \<and>
   ttoken ` set toks \<subseteq> ttoken ` set ts \<and> length ts \<le> length ls + length toks"
proof (induction ls arbitrary: toks n)
  case (Cons l ls)
  obtain t1 n1 where s: "load_token_line (toks, n) (l @ [nl]) = (t1, n1)" by fastforce
  have k: "key_line l" using Cons.prems(1) by simp
  note h = load_line_names [OF k s]
  have f: "fold (\<lambda>l st. load_token_line st (l @ [nl])) ls (t1, n1) = (ts, m)" using Cons.prems(2) s by simp
  have kl: "\<forall>l \<in> set ls. key_line l" using Cons.prems(1) by simp
  note ih = Cons.IH [OF kl f]
  define B where "B = key_name ` {x \<in> set (l # ls). hd x \<noteq> CHR ''#''}"
  define A where "A = key_name ` {x \<in> set ls. hd x \<noteq> CHR ''#''}"
  have ab: "A \<subseteq> B" by (auto simp: A_def B_def)
  have t1: "ttoken ` set t1 \<subseteq> B \<union> ttoken ` set toks"
  proof (cases "hd l = CHR ''#''")
    case True
    then show ?thesis using h by simp
  next
    case False
    then have "key_name l \<in> B" unfolding B_def by (intro imageI) simp
    then have "insert (key_name l) (ttoken ` set toks) \<subseteq> B \<union> ttoken ` set toks" by (intro insert_subsetI) simp_all
    then show ?thesis by (rule order_trans [OF conjunct1 [OF h]])
  qed
  have t: "ttoken ` set ts \<subseteq> A \<union> ttoken ` set t1" "ttoken ` set t1 \<subseteq> ttoken ` set ts" "length ts \<le> length ls + length t1"
    unfolding A_def by (rule ih [THEN conjunct1] ih [THEN conjunct2, THEN conjunct1] ih [THEN conjunct2, THEN conjunct2])+
  have u: "ttoken ` set toks \<subseteq> ttoken ` set t1" "length t1 \<le> Suc (length toks)" by (rule h [THEN conjunct2, THEN conjunct1] h [THEN conjunct2, THEN conjunct2, THEN conjunct1])+
  have "ttoken ` set ts \<subseteq> B \<union> ttoken ` set toks"
    by (rule order_trans [OF t(1)]) (rule Un_least [OF le_supI1 [OF ab] t1])
  moreover have "ttoken ` set toks \<subseteq> ttoken ` set ts" by (rule order_trans [OF u(1) t(2)])
  moreover have "length ts \<le> length (l # ls) + length toks" using t(3) u(2) by simp
  ultimately show ?case unfolding B_def by (intro conjI)
qed simp

lemma put_tok_room: "length toks < MAX_TOKENS \<Longrightarrow> \<exists>ts. put_tok toks t ro pre = Some ts"
  by (auto simp: put_tok_def split: option.split)

subsection \<open>Granting and revoking\<close>

lemma load_text:
  assumes "\<forall>l \<in> set ls. key_line l" and "http_load_tokens toks (Some (key_text ls)) = (ts, k)"
  shows "ttoken ` set ts \<subseteq> key_name ` {l \<in> set ls. hd l \<noteq> CHR ''#''} \<union> ttoken ` set toks \<and>
    ttoken ` set toks \<subseteq> ttoken ` set ts \<and> length ts \<le> length ls + length toks"
proof -
  obtain t n where f: "fold (\<lambda>l st. load_token_line st (l @ [nl])) ls (toks, 0) = (t, n)" by fastforce
  have "ts = t" using assms(2) load_loop_text [OF assms(1)] f by (simp add: http_load_tokens_def)
  then show ?thesis using load_fold_names [OF assms(1) f] by simp
qed

lemma has_line_text:
  assumes "\<forall>l \<in> set ls. key_line l" "k_files fs path = Some (key_text ls)" "nm \<noteq> []" "hd nm \<noteq> CHR ''#''"
  shows "file_has_line fs path nm \<longleftrightarrow> nm \<in> key_name ` set ls"
proof -
  have c: "(\<not> (cstr (l @ [nl]) \<noteq> [] \<and> (hd (cstr (l @ [nl])) = CHR ''#'' \<or> hd (cstr (l @ [nl])) = nl)) \<and> key_span (l @ [nl]) = nm) \<longleftrightarrow> key_name l = nm"
    if "key_line l" for l
  proof -
    have "hd l \<noteq> CHR ''#'' \<and> hd l \<noteq> nl" if "key_name l = nm" "l \<noteq> []"
      using that assms(3,4) \<open>key_line l\<close> by (cases l) (auto simp: key_name_def key_line_def split: if_split_asm)
    then show ?thesis using span_line [OF that] cstr_line [OF that] assms(3) by (cases l) (auto simp: key_name_def)
  qed
  have "file_has_line fs path nm = list_ex (\<lambda>l. \<not> (cstr (l @ [nl]) \<noteq> [] \<and> (hd (cstr (l @ [nl])) = CHR ''#'' \<or> hd (cstr (l @ [nl])) = nl)) \<and> key_span (l @ [nl]) = nm) ls"
    unfolding file_has_line_def assms(2) option.case fgets_all_text [OF assms(1)] by (simp add: list_ex_iff del: append_is_Nil_conv)
  also have "\<dots> = list_ex (\<lambda>l. key_name l = nm) ls"
    using c assms(1) by (auto simp: list_ex_iff)
  finally show ?thesis by (auto simp: list_ex_iff)
qed

text \<open>The entry: a line whose name is not empty, fits the table and whose modifiers are known.\<close>

definition key_entry :: "string \<Rightarrow> bool" where
  "key_entry e \<longleftrightarrow> key_line e \<and> key_name e \<noteq> [] \<and> hd e \<noteq> CHR ''#'' \<and> length (key_name e) < TOKEN_CAP \<and>
     \<not> snd (snd (tok_mods (drop (Suc (length (key_name e))) e) False False))"

lemma entry_hd: "key_name e \<noteq> [] \<Longrightarrow> hd (key_name e) = hd e \<and> e \<noteq> []"
  by (cases e) (auto simp: key_name_def split: if_split_asm)

lemma keys_add_text:
  assumes ls: "\<forall>l \<in> set ls. key_line l" and f: "k_files fs path = Some (key_text ls)" and e: "key_entry e"
    and a: "keys_add fs path e = (fs1, Inr ())"
  shows "k_files fs1 path = Some (key_text (ls @ [e])) \<and> key_name e \<notin> key_name ` set ls \<and>
    k_norename fs1 = k_norename fs \<and> k_noopen fs1 = k_noopen fs"
proof -
  have n: "key_name e \<noteq> []" "hd (key_name e) \<noteq> CHR ''#''" using e entry_hd by (auto simp: key_entry_def)
  have "\<not> file_has_line fs path (key_name e)" using a by (auto simp: keys_add_def key_name_def Let_def split: if_split_asm)
  then have "key_name e \<notin> key_name ` set ls" using has_line_text [OF ls f n] by simp
  moreover have "fs1 = fs\<lparr>k_files := (k_files fs)(path \<mapsto> key_text ls @ e @ [nl])\<rparr>"
    using a f by (auto simp: keys_add_def Let_def split: if_split_asm option.split_asm)
  ultimately show ?thesis by simp
qed

lemma granted:
  assumes ls: "\<forall>l \<in> set ls. key_line l" and e: "key_entry e" and new: "key_name e \<notin> key_name ` set ls"
    and room: "length ls < MAX_TOKENS" and l: "http_load_tokens [] (Some (key_text (ls @ [e]))) = (ts, k)"
  shows "\<exists>x \<in> set ts. ttoken x = key_name e \<and>
    (tro x, tprefix x) = (let (ro, pre, bad) = tok_mods (drop (Suc (length (key_name e))) e) False False in (ro, pre))"
proof -
  obtain t n where f: "fold (\<lambda>l st. load_token_line st (l @ [nl])) ls ([], 0) = (t, n)" by fastforce
  have kl: "\<forall>l \<in> set (ls @ [e]). key_line l" using ls e by (simp add: key_entry_def)
  note h = load_fold_names [OF ls f]
  have len: "length t < MAX_TOKENS" using h room by simp
  have nt: "key_name e \<notin> ttoken ` set t" using h new by auto
  obtain ro pre bad where m: "tok_mods (drop (Suc (length (key_name e))) e) False False = (ro, pre, bad)" by (rule prod_cases3)
  have nb: "\<not> bad" using e m by (simp add: key_entry_def)
  have put: "put_tok t (key_name e) ro pre = Some (t @ [\<lparr>ttoken = key_name e, tro = ro, tprefix = pre\<rparr>])"
    using len nt [unfolded find_tok_None [symmetric]] e by (simp add: put_tok_def key_entry_def TOKEN_CAP_def)
  have "load_token_line (t, n) (e @ [nl]) = (t @ [\<lparr>ttoken = key_name e, tro = ro, tprefix = pre\<rparr>], n + 1)"
    using e entry_hd [of e] m nb put by (subst load_line) (auto simp: key_entry_def)
  then have "ts = t @ [\<lparr>ttoken = key_name e, tro = ro, tprefix = pre\<rparr>]"
    using l load_loop_text [OF kl] f by (simp add: http_load_tokens_def)
  then show ?thesis using m by simp
qed

lemma keys_remove_text:
  assumes ls: "\<forall>l \<in> set ls. key_line l" and f: "k_files fs path = Some (key_text ls)" and p: "length path < 4092" "path \<noteq> []"
    and r: "keys_remove fs path nm = (fs1, Inr ex)"
  shows "k_files fs1 path = Some (key_text (filter (\<lambda>l. key_name l \<noteq> nm) ls)) \<and> ex = (nm \<in> key_name ` set ls)"
proof -
  have tmp: "take 4095 (path @ ''.tmp'') = path @ ''.tmp''" "path @ ''.tmp'' \<noteq> path" using p by simp_all
  have k: "concat (map cstr (filter (\<lambda>l. key_span l \<noteq> nm) (map (\<lambda>l. l @ [nl]) ls))) = key_text (filter (\<lambda>l. key_name l \<noteq> nm) ls)"
    using ls by (induction ls) (auto simp: span_line cstr_line)
  have x: "list_ex (\<lambda>l. key_span l = nm) (map (\<lambda>l. l @ [nl]) ls) \<longleftrightarrow> nm \<in> key_name ` set ls"
    using ls by (auto simp: list_ex_iff span_line)
  have same: "nm \<notin> key_name ` set ls \<Longrightarrow> filter (\<lambda>l. key_name l \<noteq> nm) ls = ls" by (rule filter_True) auto
  show ?thesis
    using r p(2) unfolding keys_remove_def f option.case Let_def tmp if_not_P [OF tmp(2)] fgets_all_text [OF ls] k x
    using tmp(2) f same by (auto split: option.split_asm if_split_asm)
qed

lemma filter_last: "key_name e \<notin> key_name ` set ls \<Longrightarrow> filter (\<lambda>l. key_name l \<noteq> key_name e) (ls @ [e]) = ls"
  by (simp add: filter_id_conv) (metis imageI)

text \<open>Adding a key grants it, removing it restores the file as it was and revokes it.\<close>

lemma key_lifecycle:
  assumes "\<forall>l \<in> set ls. key_line l" "length ls < MAX_TOKENS" "k_files fs path = Some (key_text ls)" "key_entry e"
    and "length path < 4092" "path \<noteq> []"
    and "keys_add fs path e = (fs1, Inr ())" "keys_remove fs1 path (key_name e) = (fs2, Inr ex)"
  shows "(\<exists>x \<in> set (fst (http_load_tokens [] (k_files fs1 path))). ttoken x = key_name e \<and>
      (tro x, tprefix x) = (let (ro, pre, bad) = tok_mods (drop (Suc (length (key_name e))) e) False False in (ro, pre))) \<and>
    ex \<and> k_files fs2 path = k_files fs path \<and>
    key_name e \<notin> ttoken ` set (fst (http_load_tokens [] (k_files fs2 path)))"
proof -
  note a = keys_add_text [OF assms(1,3,4,7)]
  have kl: "\<forall>l \<in> set (ls @ [e]). key_line l" using assms(1,4) by (simp add: key_entry_def)
  have f1: "k_files fs1 path = Some (key_text (ls @ [e]))" and new: "key_name e \<notin> key_name ` set ls" using a by blast+
  note r = keys_remove_text [OF kl f1 assms(5,6,8)]
  have f2: "k_files fs2 path = Some (key_text ls)" and ex: ex using r filter_last [OF new] by simp_all
  obtain ts k where l1: "http_load_tokens [] (Some (key_text (ls @ [e]))) = (ts, k)" by fastforce
  obtain ts2 k2 where l2: "http_load_tokens [] (Some (key_text ls)) = (ts2, k2)" by fastforce
  have "key_name e \<notin> ttoken ` set ts2" using load_text [OF assms(1) l2] new by auto
  then show ?thesis
    unfolding f1 f2 assms(3) l1 l2 fst_conv using granted [OF assms(1,4) new assms(2) l1] ex by blast
qed

text \<open>A file whose last line is not ended glues the new key to it: neither works any more.\<close>

lemma unended_line_glued:
  "fst (http_load_tokens [] (k_files (fst (keys_add \<lparr>k_files = [''f'' \<mapsto> ''old''], k_noopen = (\<lambda>_. None),
     k_noread = (\<lambda>_. []), k_norename = None\<rparr> ''f'' ''new'')) ''f'')) = [\<lparr>ttoken = ''oldnew'', tro = False, tprefix = None\<rparr>]"
  by code_simp

text \<open>A carriage return before the newline hides a key from \<open>keys remove\<close>, not from the loader.\<close>

lemma crlf_key_not_removed:
  "snd (keys_remove \<lparr>k_files = [''f'' \<mapsto> ''abc'' @ [cr, nl]], k_noopen = (\<lambda>_. None),
     k_noread = (\<lambda>_. []), k_norename = None\<rparr> ''f'' ''abc'') = Inr False"
  "ttoken ` set (fst (http_load_tokens [] (Some (''abc'' @ [cr, nl])))) = {''abc''}"
  by (code_simp, code_simp)

end
