(* ===== verification/Exo_Mcp.thy ===== *)
theory Exo_Mcp
  imports Exo_Keys
begin

text \<open>
  The Model Context Protocol layer that every server shares (\<open>common/exo.c\<close>): the minimal JSON
  lookup, the decoder of string values into a fixed buffer, and the loop over the lines of standard
  input. Texts are C strings; a step of the code without a defined meaning, reading past the end of
  a text, using a length that was not set, or writing past a buffer, makes the result \<open>None\<close>.
\<close>

subsection \<open>Looking up a key\<close>

definition jws :: "char \<Rightarrow> bool" where
  "jws c \<longleftrightarrow> c = CHR '' '' \<or> c = tab \<or> c = nl \<or> c = cr"

definition jskip :: "string \<Rightarrow> string" where
  "jskip p = dropWhile jws p"

text \<open>Past the opening quote: what starts with the closing one, empty when there is none.\<close>

fun str_end :: "string \<Rightarrow> string" where
  "str_end [] = []"
| "str_end (c # r) =
     (if c = quot then c # r
      else if c = bslash then (case r of [] \<Rightarrow> [] | _ # r' \<Rightarrow> str_end r') else str_end r)"

lemma str_end_length: "length (str_end s) \<le> length s"
proof (induction s rule: str_end.induct)
  case (2 c r)
  show ?case
  proof (cases "c = quot")
    case False
    show ?thesis
    proof (cases "c = bslash")
      case True
      show ?thesis
      proof (cases r)
        case (Cons x r')
        have "length (str_end r') \<le> length r'" using 2(1) [OF False True Cons] .
        then show ?thesis using False True Cons by simp
      qed (simp add: True)
    next
      case b: False
      then show ?thesis using 2(2) [OF False b] False by simp
    qed
  qed simp
qed simp

text \<open>
  The end of an object or array, as the rest after it. A string that is not closed makes the loop
  step over the terminator.
\<close>

function nest_end :: "int \<Rightarrow> string \<Rightarrow> string option" where
  "nest_end d [] = Some []"
| "nest_end d (c # r) =
     (if c = quot then (case str_end r of [] \<Rightarrow> None | _ # r' \<Rightarrow> nest_end d r')
      else if c = CHR ''{'' \<or> c = CHR ''['' then nest_end (d + 1) r
      else if c = CHR ''}'' \<or> c = CHR '']'' then (if d = 1 then Some r else nest_end (d - 1) r)
      else nest_end d r)"
  by pat_completeness auto
termination
proof (relation "measure (\<lambda>(d, s). length s)", goal_cases)
  case (2 d c r x r')
  then show ?case using str_end_length [of r] by simp
qed auto

text \<open>What follows a value that is skipped: the text after the comma, or nothing more to find.\<close>

datatype skipped = SkipMiss | SkipTo string | SkipBad

function skip_value :: "int \<Rightarrow> string \<Rightarrow> skipped" where
  "skip_value d [] = SkipMiss"
| "skip_value d (c # r) =
     (if c = quot then (case str_end r of [] \<Rightarrow> SkipBad | _ # r' \<Rightarrow> skip_value d r')
      else if c = CHR ''{'' \<or> c = CHR ''['' then skip_value (d + 1) r
      else if c = CHR ''}'' \<or> c = CHR '']'' then (if d - 1 < 0 then SkipMiss else skip_value (d - 1) r)
      else if c = CHR '','' \<and> d = 0 then SkipTo r
      else skip_value d r)"
  by pat_completeness auto
termination
proof (relation "measure (\<lambda>(d, s). length s)", goal_cases)
  case (2 d c r x r')
  then show ?case using str_end_length [of r] by simp
qed auto

lemma skip_value_length: "skip_value d s = SkipTo t \<Longrightarrow> length t < length s"
proof (induction d s rule: skip_value.induct)
  case (2 d c r)
  show ?case
  proof (cases "c = quot")
    case True
    then obtain x r' where e: "str_end r = x # r'" "skip_value d r' = SkipTo t"
      using 2(5) by (auto split: list.split_asm)
    then show ?thesis using 2(1) [OF True e] str_end_length [of r] by simp
  qed (use 2 in \<open>auto split: if_split_asm\<close>)
qed simp

text \<open>The slice of a value: the text from its start, and its length.\<close>

definition raw_end :: "char \<Rightarrow> bool" where
  "raw_end c \<longleftrightarrow> c = CHR '','' \<or> c = CHR ''}'' \<or> c = CHR '']'' \<or> jws c"

definition value_len :: "string \<Rightarrow> nat option" where
  "value_len v =
     (case v of
        [] \<Rightarrow> Some 0
      | c # r \<Rightarrow>
          if c = quot then (case str_end r of [] \<Rightarrow> None | _ # r' \<Rightarrow> Some (length v - length r'))
          else if c = CHR ''{'' \<or> c = CHR ''['' then map_option (\<lambda>e. length v - length e) (nest_end 0 v)
          else Some (length (takeWhile (\<lambda>c. \<not> raw_end c) v)))"

text \<open>\<open>Some None\<close>: there is no such key.\<close>

function find_loop :: "string \<Rightarrow> string \<Rightarrow> string option option" where
  "find_loop key p0 =
     (let p = jskip p0
      in if p = [] \<or> hd p \<noteq> quot then Some None
         else let q = str_end (tl p); name = take (length (tl p) - length q) (tl p); w = jskip (tl q); v = jskip (tl w)
         in if q = [] \<or> w = [] \<or> hd w \<noteq> CHR '':'' then Some None
         else if name = key then map_option (\<lambda>n. Some (take n v)) (value_len v)
         else (case skip_value 0 v of SkipMiss \<Rightarrow> Some None | SkipBad \<Rightarrow> None | SkipTo t \<Rightarrow> find_loop key t))"
  by pat_completeness auto
termination
proof (relation "measure (\<lambda>(key, s). length s)", goal_cases)
  case (2 key p0 p q name w v t)
  have "length t < length v" using 2(9) by (rule skip_value_length)
  also have "length v \<le> length w" unfolding 2(6) jskip_def using length_dropWhile_le [of jws "tl w"] by simp
  also have "length w \<le> length q" unfolding 2(5) jskip_def using length_dropWhile_le [of jws "tl q"] by simp
  also have "length q \<le> length p" unfolding 2(3) using str_end_length [of "tl p"] by simp
  also have "length p \<le> length p0" unfolding 2(1) jskip_def by (rule length_dropWhile_le)
  finally show ?case by simp
qed simp

declare find_loop.simps [simp del]

definition json_find :: "string \<Rightarrow> string \<Rightarrow> string option option" where
  "json_find doc key = (let p = jskip doc in if p = [] \<or> hd p \<noteq> CHR ''{'' then Some None else find_loop key (tl p))"

subsection \<open>Decoding a string value\<close>

definition json_unesc :: "char \<Rightarrow> string" where
  "json_unesc e =
     (if e = CHR ''n'' then [nl] else if e = CHR ''t'' then [tab] else if e = CHR ''r'' then [cr]
      else if e = quot \<or> e = bslash \<or> e = CHR ''/'' then [e] else [bslash, e])"

fun dec_loop :: "nat \<Rightarrow> string \<Rightarrow> string \<Rightarrow> string" where
  "dec_loop cap [] out = out"
| "dec_loop cap (c # r) out =
     (if c = quot \<or> length out + 1 \<ge> cap then out
      else (case r of
              e # r' \<Rightarrow> if c = bslash then dec_loop cap r' (out @ json_unesc e) else dec_loop cap r (out @ [c])
            | [] \<Rightarrow> dec_loop cap r (out @ [c])))"

text \<open>
  The decoded text of a value that is a string; the terminator is written after it, so a text as
  long as the buffer is written past it.
\<close>

definition json_str_decode :: "string \<Rightarrow> nat \<Rightarrow> string option option" where
  "json_str_decode v cap =
     (if v = [] \<or> hd v \<noteq> quot then Some None
      else (let out = dec_loop cap (tl v) [] in if length out \<ge> cap then None else Some (Some out)))"

definition json_str :: "string \<Rightarrow> string \<Rightarrow> nat \<Rightarrow> string option option" where
  "json_str doc key cap =
     (case json_find doc key of
        None \<Rightarrow> None | Some None \<Rightarrow> Some None | Some (Some v) \<Rightarrow> json_str_decode v cap)"

text \<open>The buffer after the call, when it held \<open>old\<close> before.\<close>

definition json_str_into :: "string \<Rightarrow> string \<Rightarrow> string \<Rightarrow> nat \<Rightarrow> string option" where
  "json_str_into old doc key cap = map_option (\<lambda>x. case x of None \<Rightarrow> old | Some t \<Rightarrow> t) (json_str doc key cap)"

subsection \<open>Replies\<close>

text \<open>\<open>json_esc_append\<close> to a buffer that holds \<open>out\<close>: it stops when fewer than nine bytes are left.\<close>

definition hex_digit :: "nat \<Rightarrow> char" where
  "hex_digit n = ''0123456789abcdef'' ! n"

definition esc_json_char :: "char \<Rightarrow> string" where
  "esc_json_char c =
     (if c = quot then [bslash, quot] else if c = bslash then [bslash, bslash]
      else if c = nl then [bslash, CHR ''n''] else if c = cr then [bslash, CHR ''r'']
      else if c = tab then [bslash, CHR ''t'']
      else if of_char c < (0x20 :: nat) then
        [bslash, CHR ''u'', CHR ''0'', CHR ''0'', hex_digit (of_char c div 16), hex_digit (of_char c mod 16)]
      else [c])"

fun json_esc_append :: "nat \<Rightarrow> string \<Rightarrow> string \<Rightarrow> string" where
  "json_esc_append cap out [] = out"
| "json_esc_append cap out (c # s) =
     (if length out + 8 < cap then json_esc_append cap (out @ esc_json_char c) s else out)"

definition quoted_json :: "nat \<Rightarrow> string \<Rightarrow> string" where
  "quoted_json cap s =
     (let t = json_esc_append cap [quot] s in if length t + 1 < cap then t @ [quot] else t)"

definition mcp_id :: "string \<Rightarrow> string" where
  "mcp_id i = (if i \<noteq> [] then i else ''null'')"

definition mcp_head :: "string \<Rightarrow> string" where
  "mcp_head i = CHR ''{'' # jname ''jsonrpc'' @ CHR '':'' # jname ''2.0'' @ CHR '','' # jname ''id'' @ CHR '':'' # mcp_id i @ '',''"

definition mcp_reply :: "string \<Rightarrow> string \<Rightarrow> string" where
  "mcp_reply i body = mcp_head i @ jname ''result'' @ CHR '':'' # body @ CHR ''}'' # [nl]"

definition mcp_error :: "string \<Rightarrow> int \<Rightarrow> string \<Rightarrow> string" where
  "mcp_error i code msg =
     mcp_head i @ jname ''error'' @ CHR '':'' # CHR ''{'' # jname ''code'' @ CHR '':'' # show_int code @ CHR '','' #
     jname ''message'' @ CHR '':'' # jname msg @ CHR ''}'' # CHR ''}'' # [nl]"

subsection \<open>The server\<close>

record mcp_tool =
  t_name :: string
  t_desc :: string
  t_schema :: string

record 'w mcp =
  m_tools :: "mcp_tool list"
  m_name :: string
  m_ver :: string
  m_call :: "string \<Rightarrow> string \<Rightarrow> 'w \<Rightarrow> ((bool \<times> string) \<times> 'w) option"

definition MCP_MAX_TOOLS :: nat where "MCP_MAX_TOOLS = 64"

definition mcp_register :: "mcp_tool list \<Rightarrow> string \<Rightarrow> string \<Rightarrow> (string \<Rightarrow> string \<Rightarrow> 'w \<Rightarrow> ((bool \<times> string) \<times> 'w) option) \<Rightarrow> 'w mcp \<Rightarrow> 'w mcp" where
  "mcp_register ts nm ver call m =
     \<lparr>m_tools = m_tools m @ take (MCP_MAX_TOOLS - length (m_tools m)) ts, m_name = take 127 nm, m_ver = take 63 ver, m_call = call\<rparr>"

definition tool_json :: "mcp_tool \<Rightarrow> string" where
  "tool_json t = CHR ''{'' # jname ''name'' @ CHR '':'' # jname (t_name t) @ CHR '','' # jname ''description'' @ CHR '':'' #
     quoted_json 2048 (t_desc t) @ CHR '','' # jname ''inputSchema'' @ CHR '':'' # t_schema t @ ''}''"

text \<open>The buffer of the list has 65536 bytes; nothing checks that the tools fit.\<close>

definition tools_list :: "mcp_tool list \<Rightarrow> string option" where
  "tools_list ts =
     (let b = CHR ''{'' # jname ''tools'' @ CHR '':'' # CHR ''['' # join_with (CHR '','') (map tool_json ts) @ '']}''
      in if length b < 65536 then Some b else None)"

text \<open>
  The id as it goes into a reply: a string is decoded and loses its quotes. Numbers and others are
  taken over as they stand.
\<close>

definition request_id :: "string \<Rightarrow> string option" where
  "request_id doc =
     (case json_find doc ''id'' of
        None \<Rightarrow> None
      | Some None \<Rightarrow> Some []
      | Some (Some v) \<Rightarrow>
          if v \<noteq> [] \<and> hd v = quot then map_option (\<lambda>x. case x of None \<Rightarrow> [] | Some t \<Rightarrow> t) (json_str_decode v 64)
          else Some (take 63 v))"

text \<open>A slice that is copied into a buffer, \<open>{}\<close> when there is none.\<close>

definition slice_or_empty :: "string \<Rightarrow> string \<Rightarrow> nat \<Rightarrow> bool \<Rightarrow> string option" where
  "slice_or_empty doc key cap obj =
     map_option (\<lambda>x. case x of None \<Rightarrow> ''{}'' | Some v \<Rightarrow> if v = [] \<or> (obj \<and> hd v \<noteq> CHR ''{'') then ''{}'' else take (cap - 1) v)
       (json_find doc key)"

definition call_failed :: "string \<Rightarrow> string" where
  "call_failed result =
     take 69999 (CHR ''{'' # jname ''content'' @ CHR '':'' # CHR ''['' # CHR ''{'' # jname ''type'' @ CHR '':'' # jname ''text'' @
       CHR '','' # jname ''text'' @ CHR '':'' # jname (if result \<noteq> [] then result else ''tool call failed'') @ ''}],'' @
       jname ''isError'' @ '':true}'')"

text \<open>
  The object that holds the text is not closed. When the text alone is longer than the buffer, the
  end is written behind it.
\<close>

definition call_done :: "string \<Rightarrow> string option" where
  "call_done text =
     (let b = CHR ''{'' # jname ''content'' @ CHR '':'' # CHR ''['' # CHR ''{'' # jname ''type'' @ CHR '':'' # jname ''text'' @
            CHR '','' # jname ''text'' @ CHR '':'' # text
      in if length b > 70000 then None
         else Some (take 69999 (b @ CHR '']'' # CHR '','' # jname ''isError'' @ '':false}'')))"

definition tools_call :: "'w mcp \<Rightarrow> string \<Rightarrow> string \<Rightarrow> 'w \<Rightarrow> (string \<times> 'w) option" where
  "tools_call m i doc w =
     (case slice_or_empty doc ''params'' 16384 True of
        None \<Rightarrow> None
      | Some params \<Rightarrow>
          (case json_str_into [] params ''name'' 256 of
             None \<Rightarrow> None
           | Some nm \<Rightarrow>
               if nm = [] then Some (mcp_error i (-32602) ''missing tool name'', w)
               else if nm \<notin> t_name ` set (m_tools m) then Some (mcp_error i (-32602) (take 511 (''unknown tool: '' @ nm)), w)
               else (case slice_or_empty params ''arguments'' 8192 False of
                       None \<Rightarrow> None
                     | Some args \<Rightarrow>
                         (case m_call m nm args w of
                            None \<Rightarrow> None
                          | Some ((ok, result), w') \<Rightarrow>
                              let res = take 65535 result
                              in if \<not> ok then Some (mcp_reply i (call_failed res), w')
                                 else map_option (\<lambda>b. (mcp_reply i b, w')) (call_done (quoted_json 70000 res))))))"

definition mcp_method :: "'w mcp \<Rightarrow> string \<Rightarrow> string \<Rightarrow> string \<Rightarrow> 'w \<Rightarrow> (string \<times> 'w) option" where
  "mcp_method m i meth doc w =
     (if meth = [] then Some (mcp_error i (-32600) ''missing method'', w)
      else if meth = ''initialize'' then
        Some (mcp_reply i (CHR ''{'' # jname ''protocolVersion'' @ CHR '':'' # jname ''2024-11-05'' @ CHR '','' #
          jname ''capabilities'' @ CHR '':'' # CHR ''{'' # jname ''tools'' @ '':{}},'' @ jname ''serverInfo'' @ CHR '':'' # CHR ''{'' #
          jname ''name'' @ CHR '':'' # jname (m_name m) @ CHR '','' # jname ''version'' @ CHR '':'' # jname (m_ver m) @ ''}}''), w)
      else if meth = ''notifications/initialized'' \<or> meth = ''notifications/cancelled'' then Some ([], w)
      else if meth = ''ping'' then Some (mcp_reply i ''{}'', w)
      else if meth = ''tools/list'' then map_option (\<lambda>b. (mcp_reply i b, w)) (tools_list (m_tools m))
      else if meth = ''tools/call'' then tools_call m i doc w
      else Some (mcp_error i (-32601) (take 511 (''method not found: '' @ meth)), w))"

text \<open>One line as \<open>getline\<close> reads it: a newline and a carriage return are cut off its end.\<close>

definition mcp_doc :: "bytes \<Rightarrow> string" where
  "mcp_doc l0 =
     (let l1 = (if l0 \<noteq> [] \<and> last l0 = nl then butlast l0 else l0);
          l2 = (if l1 \<noteq> [] \<and> last l1 = cr then butlast l1 else l1)
      in dropWhile (\<lambda>c. c = CHR '' '' \<or> c = tab) (cstr l2))"

definition mcp_line :: "'w mcp \<Rightarrow> bytes \<Rightarrow> 'w \<Rightarrow> (string \<times> 'w) option" where
  "mcp_line m l w =
     (let doc = mcp_doc l
      in if doc = [] then Some ([], w)
         else (case request_id doc of
                 None \<Rightarrow> None
               | Some i \<Rightarrow>
                   (case json_str_into [] doc ''method'' 128 of
                      None \<Rightarrow> None | Some meth \<Rightarrow> mcp_method m i meth doc w)))"

fun mcp_lines :: "'w mcp \<Rightarrow> bytes list \<Rightarrow> 'w \<Rightarrow> (string \<times> 'w) option" where
  "mcp_lines m [] w = Some ([], w)"
| "mcp_lines m (l # ls) w =
     (case mcp_line m l w of
        None \<Rightarrow> None
      | Some (out, w1) \<Rightarrow> map_option (\<lambda>(o2, w2). (out @ o2, w2)) (mcp_lines m ls w1))"

text \<open>The lines of the input, each with its newline; the last may lack it.\<close>

definition input_lines :: "bytes \<Rightarrow> bytes list" where
  "input_lines s =
     (let ws = split_on nl s in map (\<lambda>l. l @ [nl]) (butlast ws) @ (if last ws = [] then [] else [last ws]))"

definition mcp_stdio :: "'w mcp \<Rightarrow> bytes \<Rightarrow> 'w \<Rightarrow> (string \<times> 'w) option" where
  "mcp_stdio m input w = mcp_lines m (input_lines input) w"

end
