(* ===== verification/Exo_Cli.thy ===== *)
theory Exo_Cli
  imports Exo_Keys
begin

text \<open>
  The shared console utilities (\<open>common/exo_cli.c\<close>, the help registry and log levels of
  \<open>common/exo.c\<close>) and the command line that exomind saves (\<open>src/main.c\<close>). A write past a buffer
  makes the result \<open>None\<close>. Files are their contents, \<open>None\<close> when there is none.
\<close>

subsection \<open>Levels and guides\<close>

definition parse_log_level :: "string \<Rightarrow> int" where
  "parse_log_level s =
     (if s = ''error'' then 0 else if s = ''warn'' \<or> s = ''warning'' then 1
      else if s = ''info'' then 2 else if s = ''debug'' then 3 else -1)"

definition MAX_HELP_MODULES :: nat where "MAX_HELP_MODULES = 16"

text \<open>A guide replaces the one of the same name; a full table takes no new ones.\<close>

fun help_replace :: "(string \<times> string) list \<Rightarrow> string \<times> string \<Rightarrow> (string \<times> string) list option" where
  "help_replace [] h = None"
| "help_replace (x # xs) h = (if fst x = fst h then Some (h # xs) else map_option ((#) x) (help_replace xs h))"

definition help_put :: "(string \<times> string) list \<Rightarrow> string \<times> string \<Rightarrow> (string \<times> string) list" where
  "help_put hs h =
     (case help_replace hs h of
        Some hs' \<Rightarrow> hs' | None \<Rightarrow> if length hs < MAX_HELP_MODULES then hs @ [h] else hs)"

definition help_add :: "(string \<times> string) list \<Rightarrow> (string \<times> string) list \<Rightarrow> (string \<times> string) list" where
  "help_add hs new = foldl help_put hs new"

definition help_one :: "(string \<times> string) list \<Rightarrow> string \<Rightarrow> string" where
  "help_one hs nm =
     (case find (\<lambda>x. fst x = nm) hs of
        Some h \<Rightarrow> snd h | None \<Rightarrow> ''## '' @ nm @ nl # ''(no usage guide registered)'' @ [nl])"

definition help_all :: "(string \<times> string) list \<Rightarrow> string" where
  "help_all hs = concat (map (\<lambda>h. nl # replicate 64 (CHR ''='') @ nl # ''## '' @ fst h @ nl #
     replicate 64 (CHR ''='') @ nl # snd h) hs)"

subsection \<open>Completion\<close>

definition common_flags :: "string list" where
  "common_flags = [''--help'', ''-h'', ''--version'', ''-v'', ''--body'', ''--host'', ''--port'', ''--token'',
     ''--tokens'', ''--keys'', ''--rate-limit'', ''--log-level'', ''--serve'', ''--completion'', ''--tutorial'',
     ''--getting-started'']"

definition starts_with :: "string \<Rightarrow> string \<Rightarrow> bool" where
  "starts_with s pre \<longleftrightarrow> take (length pre) s = pre"

text \<open>\<open>None\<close> when completion was not asked for. Only the first twelve flags are offered.\<close>

fun completion_arg :: "string list \<Rightarrow> string option option" where
  "completion_arg [] = None"
| "completion_arg (a # r) =
     (if a = ''--completion'' then Some (case r of [] \<Rightarrow> None | p # _ \<Rightarrow> Some p) else completion_arg r)"

definition completions :: "(string \<times> string list) list \<Rightarrow> string list \<Rightarrow> string option" where
  "completions mods args =
     map_option (\<lambda>x. case x of None \<Rightarrow> []
       | Some p \<Rightarrow> concat (map (\<lambda>w. w @ [nl]) (filter (\<lambda>w. starts_with w p)
           (concat (map (\<lambda>(nm, cs). nm # take 16 cs) mods) @ take 12 common_flags)))) (completion_arg args)"

subsection \<open>The history of commands\<close>

text \<open>Whether the temporary file can be opened; else the command is appended to the file itself.\<close>

definition history_write :: "bool \<Rightarrow> bytes option \<Rightarrow> string \<Rightarrow> bytes" where
  "history_write tmp_ok old cmd =
     (let ls = (case old of None \<Rightarrow> [] | Some s \<Rightarrow> map cstr (fgets_all 4096 s))
      in if tmp_ok then concat (drop (length ls - 10000) ls) @ cmd @ [nl]
         else (case old of None \<Rightarrow> [] | Some s \<Rightarrow> s) @ cmd @ [nl])"

text \<open>The line saved for a subcommand: the arguments that fit. A program name of 4096 characters does not.\<close>

fun history_args :: "string \<Rightarrow> string list \<Rightarrow> string" where
  "history_args cmd [] = cmd"
| "history_args cmd (a # r) =
     (if length cmd + 1 + length a < 4096 then history_args (cmd @ CHR '' '' # a) r else history_args cmd r)"

definition history_line :: "string list \<Rightarrow> string option" where
  "history_line argv =
     (case argv of [] \<Rightarrow> None | a # r \<Rightarrow> if length a \<ge> 4096 then None else Some (history_args a r))"

text \<open>
  The line saved for an operation. The check allows for eight characters where ten are written, so
  the terminator of a line that just fits is written past the end.
\<close>

definition console_line :: "string \<Rightarrow> string \<Rightarrow> string \<Rightarrow> string option" where
  "console_line argv0 path body =
     (if length argv0 \<ge> 4096 then None
      else (let c1 = (if length argv0 + 1 + length path < 4096 then argv0 @ CHR '' '' # path else argv0)
            in if body \<noteq> [] \<and> length c1 + 8 + length body < 4096 then
                 (let c2 = c1 @ '' -- boby '' @ [quot];
                      c3 = (if length c2 + length body < 4096 then c2 @ body else c2);
                      c4 = (if length c3 < 4096 then c3 @ [quot] else c3)
                  in if length c4 \<ge> 4096 then None else Some c4)
               else Some c1))"

subsection \<open>The cache\<close>

text \<open>Characters are signed on the target.\<close>

definition cache_key :: "string \<Rightarrow> string \<Rightarrow> string" where
  "cache_key op ps =
     show_hex8 (foldl (\<lambda>(h :: u32) c. h * 31 + scast (of_char c :: u8)) 0 (take 4095 (op @ CHR ''_'' # ps)))"

text \<open>\<open>time\<close> returns the epoch, not a status, so the first test fails at every date.\<close>

definition cache_check :: "int option \<Rightarrow> int \<Rightarrow> int \<Rightarrow> bool" where
  "cache_check ctime now max_age =
     (case ctime of None \<Rightarrow> False | Some t \<Rightarrow> if now \<noteq> 0 then False else \<not> (now - t > max_age))"

text \<open>The terminator is written behind the last of the chunks, of which each counts in full.\<close>

definition cache_get :: "bytes option \<Rightarrow> bytes option option" where
  "cache_get f = (case f of None \<Rightarrow> Some None | Some s \<Rightarrow> if s = [] then Some None else None)"

subsection \<open>Properties\<close>

lemma history_args_room: "length cmd < 4096 \<Longrightarrow> length (history_args cmd as) < 4096"
  by (induction cmd as rule: history_args.induct) auto

lemma history_line_fits: "history_line argv = Some l \<Longrightarrow> length l < 4096"
  by (auto simp: history_line_def history_args_room split: list.split_asm if_split_asm)

end
