(* ===== verification/Exo_Main.thy ===== *)
theory Exo_Main
  imports Exo_Mcp Exo_Cli
begin

text \<open>
  The command line of exomind (\<open>src/main.c\<close>): one-shot operations, the positional \<open>mem\<close> front-end,
  the bridge from the tools of the Model Context Protocol to the routes, the flags, the search for
  the project root, and the address of a primary.
\<close>

subsection \<open>One-shot operations\<close>

definition post_paths :: "string list" where
  "post_paths = [''/set'', ''/append'', ''/embed'', ''/sim'', ''/note'', ''/batch'', ''/restore'', ''/backup'',
     ''/outdate'', ''/revive'', ''/link'', ''/mandate'']"

definition console_method :: "string \<Rightarrow> string \<Rightarrow> string" where
  "console_method path override =
     (if override \<noteq> [] then override
      else if path = ''/del'' then ''DELETE'' else if path \<in> set post_paths then ''POST'' else ''GET'')"

text \<open>\<open>input\<close> is what standard input holds, \<open>None\<close> at a terminal; the exit code and what is printed.\<close>

definition main_console :: "conf \<Rightarrow> (nat \<Rightarrow> world) \<Rightarrow> string \<Rightarrow> string \<Rightarrow> string \<Rightarrow> bytes option \<Rightarrow> srv \<Rightarrow> (srv \<times> nat \<times> bytes) option" where
  "main_console c ws path body_arg override input a =
     (let pq = take 511 path; p0 = takeWhile (\<lambda>c. c \<noteq> CHR ''?'') pq; q = take 1535 (drop (Suc (length p0)) pq);
          p = strip_module p0; meth = console_method p override;
          body = (if body_arg \<noteq> [] then take 65535 body_arg
                  else if meth \<noteq> ''GET'' then (case input of None \<Rightarrow> [] | Some s \<Rightarrow> take 65535 s) else [])
      in map_option (\<lambda>(a', rs).
           (a', if p_status rs \<ge> 400 then ((if cstr (p_body rs) = ''error: unknown path'' then 2 else 1), [])
                else (0, cstr (p_body rs)))) (http_dispatch c meth p q body ws a))"

subsection \<open>The mem subcommand\<close>

text \<open>What follows \<open>mem\<close>: the path and the body of the operation, \<open>None\<close> for the usage text.\<close>

definition mem_target :: "string list \<Rightarrow> (string \<times> string) option" where
  "mem_target as =
     map_option (\<lambda>(p, b). (take 2047 p, b))
       (case as of
          [] \<Rightarrow> None
        | sub # r \<Rightarrow>
            if sub = ''set'' \<and> length r \<ge> 2 then Some (''/set?key='' @ r ! 0, r ! 1)
            else if sub = ''get'' \<and> r \<noteq> [] then Some (''/get?key='' @ r ! 0, [])
            else if sub = ''del'' \<and> r \<noteq> [] then Some (''/del?key='' @ r ! 0, [])
            else if sub = ''link'' \<and> length r \<ge> 2 then Some (''/link?from='' @ r ! 0 @ ''&to='' @ r ! 1, [])
            else if sub = ''search'' \<and> r \<noteq> [] then Some (''/search?q='' @ r ! 0, [])
            else if sub = ''list'' then Some (''/list'' @ (if r \<noteq> [] then ''?prefix='' @ r ! 0 else []), [])
            else if sub = ''embed'' \<and> length r \<ge> 2 then Some (''/embed?key='' @ r ! 0, r ! 1)
            else if sub = ''note'' \<and> r \<noteq> [] then Some (''/note'', r ! 0)
            else None)"

record mem_opts =
  mo_data :: string
  mo_method :: string
  mo_root :: "string option"

fun mem_flags :: "string list \<Rightarrow> mem_opts \<Rightarrow> mem_opts" where
  "mem_flags [] o1 = o1"
| "mem_flags [a] o1 = o1"
| "mem_flags (a # v # r) o1 =
     (if a = ''--data'' then mem_flags r (o1\<lparr>mo_data := v\<rparr>)
      else if a = ''--method'' then mem_flags r (o1\<lparr>mo_method := v\<rparr>)
      else if a = ''--project-root'' then mem_flags r (o1\<lparr>mo_root := Some v\<rparr>)
      else mem_flags (v # r) o1)"

text \<open>The store behind \<open>a\<close> is the one of \<open>mo_data\<close>, opened; code 1 is the usage text.\<close>

definition main_mem :: "conf \<Rightarrow> (nat \<Rightarrow> world) \<Rightarrow> string \<Rightarrow> string list \<Rightarrow> bytes option \<Rightarrow> (mem_opts \<Rightarrow> srv) \<Rightarrow> (srv option \<times> nat \<times> bytes) option" where
  "main_mem c ws data as input open_srv =
     (case mem_target as of
        None \<Rightarrow> Some (None, 1, [])
      | Some (path, body) \<Rightarrow>
          let o1 = mem_flags (drop 1 as) \<lparr>mo_data = data, mo_method = [], mo_root = None\<rparr>
          in map_option (\<lambda>(a', rc, out). (Some a', rc, out)) (main_console c ws path body (mo_method o1) input (open_srv o1)))"

subsection \<open>The tools\<close>

text \<open>
  What a tool call becomes: method, path, query and body. \<open>Inl\<close> is the text of a refusal; the whole
  is \<open>None\<close> where the code looks at a buffer that nothing has written: the prefix of \<open>list\<close> and the
  query of \<open>notes\<close> when they are not given.
\<close>

type_synonym call_req = "string \<times> string \<times> string \<times> bytes"

definition tool_body :: "string \<Rightarrow> string \<Rightarrow> string option" where
  "tool_body args nm = json_str_into [] args nm 4096"

definition missing_arg :: "string \<Rightarrow> string + call_req" where
  "missing_arg nm = Inl (''error: missing '' @ nm)"

definition with_arg :: "string \<Rightarrow> string \<Rightarrow> (string \<Rightarrow> (string + call_req) option) \<Rightarrow> (string + call_req) option" where
  "with_arg args nm f =
     (case json_str args nm 4096 of None \<Rightarrow> None | Some None \<Rightarrow> Some (missing_arg nm) | Some (Some v) \<Rightarrow> f v)"

definition store_call :: "string \<Rightarrow> string \<Rightarrow> string \<Rightarrow> (string + call_req) option" where
  "store_call tool args v =
     (case (json_str_into [] args ''ttl'' 32, tool_body args ''value'') of
        (Some ttl, Some b) \<Rightarrow>
          let q = take 8191 (''key='' @ v @ (if ttl \<noteq> [] then ''&ttl='' @ ttl else []))
          in if b \<noteq> [] then Some (Inr (''POST'', CHR ''/'' # tool, q, b))
             else map_option (\<lambda>b2. Inr (''POST'', CHR ''/'' # tool, q, b2)) (tool_body args ''body'')
      | _ \<Rightarrow> None)"

definition text_call :: "string \<Rightarrow> string \<Rightarrow> string \<Rightarrow> (string + call_req) option" where
  "text_call path args nm = map_option (\<lambda>b. Inr (''POST'', path, [], b)) (tool_body args nm)"

definition filter_call :: "string \<Rightarrow> string \<Rightarrow> string \<Rightarrow> string \<Rightarrow> (string + call_req) option" where
  "filter_call path par args nm =
     (case json_str args nm 4096 of
        Some (Some v) \<Rightarrow> Some (Inr (''GET'', path, if v \<noteq> [] then take 8191 (par @ v) else [], []))
      | _ \<Rightarrow> None)"

definition tool_request :: "string \<Rightarrow> string \<Rightarrow> (string + call_req) option" where
  "tool_request tool args =
     (if tool = ''ping'' then Some (Inr (''GET'', ''/ping'', [], []))
      else if tool = ''set'' \<or> tool = ''append'' then with_arg args ''key'' (store_call tool args)
      else if tool = ''get'' then with_arg args ''key'' (\<lambda>v. Some (Inr (''GET'', ''/get'', take 8191 (''key='' @ v), [])))
      else if tool = ''del'' then with_arg args ''key'' (\<lambda>v. Some (Inr (''DELETE'', ''/del'', take 8191 (''key='' @ v), [])))
      else if tool = ''list'' then filter_call ''/list'' ''prefix='' args ''prefix''
      else if tool = ''search'' then with_arg args ''q'' (\<lambda>v. Some (Inr (''GET'', ''/search'', take 8191 (''q='' @ v), [])))
      else if tool = ''note'' then text_call ''/note'' args ''text''
      else if tool = ''notes'' then filter_call ''/notes'' ''q='' args ''q''
      else if tool = ''batch'' then text_call ''/batch'' args ''ops''
      else if tool = ''stats'' then Some (Inr (''GET'', ''/stats'', [], []))
      else if tool = ''snapshot'' then Some (Inr (''GET'', ''/snapshot'', [], []))
      else if tool = ''sim'' then text_call ''/sim'' args ''text''
      else Some (Inl (''error: no such tool '' @ tool)))"

text \<open>
  The call on the server's state and the number of calls before, which the world of each call
  depends on. Every answer of a route counts as a success, whatever its status.
\<close>

definition mcp_call :: "conf \<Rightarrow> (nat \<Rightarrow> nat \<Rightarrow> world) \<Rightarrow> string \<Rightarrow> string \<Rightarrow> srv \<times> nat \<Rightarrow> ((bool \<times> string) \<times> (srv \<times> nat)) option" where
  "mcp_call c wss tool args st =
     (case tool_request tool args of
        None \<Rightarrow> None
      | Some (Inl t) \<Rightarrow> Some ((False, take 65535 t), st)
      | Some (Inr (meth, path, query, body)) \<Rightarrow>
          map_option (\<lambda>(a', rs). ((True, if p_status rs = 404 then ''missing'' else take 65535 (cstr (p_body rs))), (a', Suc (snd st))))
            (http_dispatch c meth path query body (wss (snd st)) (fst st)))"

definition tool_names :: "string list" where
  "tool_names = [''ping'', ''set'', ''get'', ''append'', ''del'', ''list'', ''search'', ''note'', ''notes'', ''batch'',
     ''stats'', ''snapshot'', ''sim'']"

text \<open>The dispatcher of \<open>exomind-server\<close>; \<open>router\<close> is \<open>exo_router_call\<close>.\<close>

definition stack_call ::
    "(string \<Rightarrow> string \<Rightarrow> srv \<times> nat \<Rightarrow> ((bool \<times> string) \<times> (srv \<times> nat)) option) \<Rightarrow> conf \<Rightarrow> (nat \<Rightarrow> nat \<Rightarrow> world) \<Rightarrow>
     string \<Rightarrow> string \<Rightarrow> srv \<times> nat \<Rightarrow> ((bool \<times> string) \<times> (srv \<times> nat)) option" where
  "stack_call router c wss tool args st =
     (if tool \<in> set tool_names then mcp_call c wss tool args st else router tool args st)"

subsection \<open>Starting up\<close>

definition base_name :: "string \<Rightarrow> string" where
  "base_name p = rev (takeWhile (\<lambda>c. c \<noteq> CHR ''/'') (rev p))"

definition invoked_as_server :: "string \<Rightarrow> bool" where
  "invoked_as_server argv0 \<longleftrightarrow> (let b = base_name argv0 in length b > 7 \<and> drop (length b - 7) b = ''-server'')"

text \<open>The directories that are made, each in turn; false when the path is too long or one fails.\<close>

definition dir_prefixes :: "string \<Rightarrow> string list" where
  "dir_prefixes p = map (\<lambda>i. take i p) (filter (\<lambda>i. p ! i = CHR ''/'') [1 ..< length p]) @ [p]"

fun make_dirs :: "(string \<Rightarrow> bool) \<Rightarrow> string list \<Rightarrow> string list \<times> bool" where
  "make_dirs ok [] = ([], True)"
| "make_dirs ok (d # ds) = (if ok d then (let (ms, r) = make_dirs ok ds in (d # ms, r)) else ([d], False))"

definition mkdir_p :: "(string \<Rightarrow> bool) \<Rightarrow> string \<Rightarrow> string list \<times> bool" where
  "mkdir_p ok p = (if length p \<ge> 4096 then ([], False) else make_dirs ok (dir_prefixes p))"

text \<open>From the working directory upwards; the root directory itself is not looked at.\<close>

definition parent_dir :: "string \<Rightarrow> string option" where
  "parent_dir d =
     (if CHR ''/'' \<notin> set d then None
      else (let p = rev (drop 1 (dropWhile (\<lambda>c. c \<noteq> CHR ''/'') (rev d))) in if p = [] then None else Some p))"

lemma parent_dir_shorter: "parent_dir d = Some p \<Longrightarrow> length p < length d"
proof -
  assume a: "parent_dir d = Some p"
  have "length (dropWhile (\<lambda>c. c \<noteq> CHR ''/'') (rev d)) \<le> length d"
    using length_dropWhile_le [of _ "rev d"] by simp
  then show ?thesis using a by (auto simp: parent_dir_def Let_def split: if_split_asm)
qed

function project_dir :: "(string \<Rightarrow> bool) \<Rightarrow> string \<Rightarrow> string option" where
  "project_dir there d =
     (if there (take 4103 (d @ ''/.git'')) \<or> there (take 4103 (d @ ''/.exo'')) then Some d
      else (case parent_dir d of None \<Rightarrow> None | Some p \<Rightarrow> project_dir there p))"
  by pat_completeness auto
termination by (relation "measure (\<lambda>(there, d). length d)") (auto dest: parent_dir_shorter)

declare project_dir.simps [simp del]

text \<open>Host and port of a primary, \<open>None\<close> when the program exits.\<close>

definition repl_addr :: "string \<Rightarrow> (string \<times> int) option" where
  "repl_addr s =
     (let port = rev (takeWhile (\<lambda>c. c \<noteq> CHR '':'') (rev s)); h = take (length s - length port - 1) s
      in if CHR '':'' \<notin> set s \<or> h = [] then None
         else if atoi port \<le> 0 \<or> atoi port > 65535 then None else Some (take 255 h, atoi port))"

subsection \<open>The flags\<close>

definition val_flags :: "string list" where
  "val_flags = [''--host'', ''--port'', ''--data'', ''--token'', ''--tokens'', ''--keys'', ''--backup'', ''--project-root'',
     ''--mandate'', ''--mandate-file'', ''--rate-limit'', ''--replicate'', ''--body'', ''--method'', ''--log-level'',
     ''--completion'', ''--tutorial'']"

text \<open>The operation: the first argument that starts with a slash and is not the value of a flag; its place.\<close>

fun console_arg :: "nat \<Rightarrow> string list \<Rightarrow> nat option" where
  "console_arg i [] = None"
| "console_arg i (a # r) =
     (if a \<in> set val_flags then console_arg (i + 2) (drop 1 r)
      else if a \<noteq> [] \<and> hd a = CHR ''/'' then Some i else console_arg (Suc i) r)"

record opts =
  o_host :: string
  o_port :: int
  o_server :: bool
  o_data :: string
  o_token :: "string option"
  o_tokens :: "string option"
  o_backup :: "string option"
  o_root :: "string option"
  o_mandate :: "string option"
  o_rate :: int
  o_primary :: "string option"
  o_update :: bool
  o_prebuilt :: bool
  o_body :: string
  o_method :: string
  o_level :: int
  o_mcp :: bool

datatype ended = Usage nat | Guide "string option" | Version | Tutorial string | Started | NoMandate

text \<open>A flag with a value. \<open>files\<close> are the texts that the mandate can be read from.\<close>

definition val_flag :: "(string \<Rightarrow> bytes option) \<Rightarrow> string \<Rightarrow> string \<Rightarrow> opts \<Rightarrow> (ended + opts) option" where
  "val_flag files a v o1 =
     (if a = ''--host'' then Some (Inr (o1\<lparr>o_host := v\<rparr>))
      else if a = ''--port'' then Some (Inr (o1\<lparr>o_port := atoi v, o_server := True\<rparr>))
      else if a = ''--data'' then Some (Inr (o1\<lparr>o_data := v\<rparr>))
      else if a = ''--token'' then Some (Inr (o1\<lparr>o_token := Some v\<rparr>))
      else if a = ''--tokens'' \<or> a = ''--keys'' then Some (Inr (o1\<lparr>o_tokens := Some v\<rparr>))
      else if a = ''--backup'' then Some (Inr (o1\<lparr>o_backup := Some v\<rparr>))
      else if a = ''--project-root'' then Some (Inr (o1\<lparr>o_root := Some v\<rparr>))
      else if a = ''--mandate'' then Some (Inr (o1\<lparr>o_mandate := Some v\<rparr>))
      else if a = ''--mandate-file'' then
        Some (case files v of None \<Rightarrow> Inl NoMandate | Some t \<Rightarrow> if t = [] then Inl NoMandate else Inr (o1\<lparr>o_mandate := Some (take 8191 (cstr t))\<rparr>))
      else if a = ''--rate-limit'' then Some (Inr (o1\<lparr>o_rate := fst (strtoll v)\<rparr>))
      else if a = ''--replicate'' then Some (Inr (o1\<lparr>o_primary := Some (take 511 v)\<rparr>))
      else if a = ''--body'' then Some (Inr (o1\<lparr>o_body := v\<rparr>))
      else if a = ''--method'' then
        Some (if v \<in> set [''GET'', ''POST'', ''DELETE''] then Inr (o1\<lparr>o_method := v\<rparr>) else Inl (Usage 1))
      else if a = ''--log-level'' then
        Some (if parse_log_level v < 0 then Inl (Usage 1) else Inr (o1\<lparr>o_level := parse_log_level v\<rparr>))
      else if a = ''--tutorial'' then Some (Inl (Tutorial v))
      else None)"

definition bare_flag :: "string \<Rightarrow> string list \<Rightarrow> opts \<Rightarrow> ended + opts" where
  "bare_flag a r o1 =
     (if a = ''--serve'' then Inr (o1\<lparr>o_server := True\<rparr>)
      else if a = ''--update'' then Inr (o1\<lparr>o_update := True\<rparr>)
      else if a = ''--update-prebuilt'' then Inr (o1\<lparr>o_prebuilt := True\<rparr>)
      else if a = ''--mcp'' then Inr (o1\<lparr>o_mcp := True\<rparr>)
      else if a = ''--help'' \<or> a = ''-h'' then Inl (Guide (case r of [] \<Rightarrow> None | x # _ \<Rightarrow> Some x))
      else if a = ''--version'' \<or> a = ''-v'' then Inl Version
      else if a = ''--getting-started'' then Inl Started
      else Inl (Usage 1))"

text \<open>\<open>i\<close> counts the arguments, so that the operation at \<open>op\<close> is passed over.\<close>

function parse_args :: "(string \<Rightarrow> bytes option) \<Rightarrow> nat option \<Rightarrow> nat \<Rightarrow> string list \<Rightarrow> opts \<Rightarrow> ended + opts" where
  "parse_args files op i [] o1 = Inr o1"
| "parse_args files op i (a # r) o1 =
     (if op = Some i then parse_args files op (Suc i) r o1
      else (case (case r of [] \<Rightarrow> None | v # _ \<Rightarrow> val_flag files a v o1) of
              Some (Inl e) \<Rightarrow> Inl e
            | Some (Inr o2) \<Rightarrow> parse_args files op (i + 2) (drop 1 r) o2
            | None \<Rightarrow> (case bare_flag a r o1 of Inl e \<Rightarrow> Inl e | Inr o2 \<Rightarrow> parse_args files op (Suc i) r o2)))"
  by pat_completeness auto
termination by (relation "measure (\<lambda>(files, op, i, as, o1). length as)") auto

definition main_args :: "(string \<Rightarrow> bytes option) \<Rightarrow> string list \<Rightarrow> opts \<Rightarrow> (ended + opts) \<times> string option" where
  "main_args files as o1 =
     (let op = console_arg 0 as in (parse_args files op 0 as o1, map_option ((!) as) op))"

subsection \<open>The keys subcommand\<close>

text \<open>What follows \<open>keys\<close>: the files afterwards, the exit code and what is printed.\<close>

fun keys_flag :: "string \<Rightarrow> string list \<Rightarrow> string" where
  "keys_flag path (a # v # r) = (if a = ''--keys'' then keys_flag v r else keys_flag path (v # r))"
| "keys_flag path as = path"

definition keys_cmd :: "kfs \<Rightarrow> string list \<Rightarrow> kfs \<times> nat \<times> string" where
  "keys_cmd fs as =
     (let path = keys_flag [] as
      in case as of
           [] \<Rightarrow> (fs, 1, [])
         | sub # r \<Rightarrow>
             if sub = ''add'' \<and> r \<noteq> [] then
               (case keys_add fs path (hd r) of (fs1, Inl e) \<Rightarrow> (fs1, 1, []) | (fs1, Inr _) \<Rightarrow> (fs1, 0, ''ok key added'' @ [nl]))
             else if sub = ''remove'' \<and> r \<noteq> [] then
               (case keys_remove fs path (hd r) of
                  (fs1, Inl e) \<Rightarrow> (fs1, 1, [])
                | (fs1, Inr b) \<Rightarrow> (fs1, 0, if b then ''ok key removed'' @ [nl] else ''missing key'' @ [nl]))
             else if sub = ''list'' then (case keys_list fs path of Inl e \<Rightarrow> (fs, 1, []) | Inr t \<Rightarrow> (fs, 0, t))
             else (fs, 1, []))"

subsection \<open>What is run\<close>

datatype run_mode = SelfUpdate | Prebuilt | Stdio bool | OneShot string | ShowHelp | Daemon

text \<open>\<open>local\<close>: the variable that makes a server keep to its own tools. \<open>Stdio\<close> says whether the router is there.\<close>

definition main_mode :: "string \<Rightarrow> bool \<Rightarrow> opts \<Rightarrow> string option \<Rightarrow> run_mode" where
  "main_mode argv0 local o1 op =
     (if o_update o1 then SelfUpdate
      else if o_prebuilt o1 then Prebuilt
      else if o_mcp o1 \<or> invoked_as_server argv0 then Stdio (invoked_as_server argv0 \<and> \<not> local)
      else if o_primary o1 = None \<and> \<not> o_server o1 then (case op of Some p \<Rightarrow> OneShot p | None \<Rightarrow> ShowHelp)
      else Daemon)"

text \<open>
  The start of the daemon up to its socket: the stores, the mandate and the tokens, \<open>None\<close> when it
  gives up. \<open>ok\<close> says which directories can be made or are there, \<open>there\<close> which paths exist, \<open>files\<close> what
  they hold. The worlds are those of opening the two stores and of storing the mandate.
\<close>

definition data_dir :: "string \<Rightarrow> string option" where
  "data_dir d = (if CHR ''/'' \<in> set d then Some (rev (drop 1 (dropWhile (\<lambda>c. c \<noteq> CHR ''/'') (rev d)))) else None)"

definition daemon_root :: "(string \<Rightarrow> bool) \<Rightarrow> string option \<Rightarrow> opts \<Rightarrow> string option" where
  "daemon_root there cwd o1 =
     (case o_root o1 of
        Some r \<Rightarrow> Some (take 4095 r)
      | None \<Rightarrow> (case cwd of None \<Rightarrow> None | Some d \<Rightarrow> project_dir there d))"

definition daemon_tokens :: "(string \<Rightarrow> bytes option) \<Rightarrow> opts \<Rightarrow> tok list option" where
  "daemon_tokens files o1 =
     (let toks = (case o_token o1 of None \<Rightarrow> [] | Some t \<Rightarrow> http_set_token [] t)
      in case o_tokens o1 of
           None \<Rightarrow> Some toks
         | Some f \<Rightarrow> (let (ts, n) = http_load_tokens toks (files f) in if n < 0 then None else Some ts))"

definition daemon_start ::
    "(string \<Rightarrow> bool) \<Rightarrow> (string \<Rightarrow> bool) \<Rightarrow> (string \<Rightarrow> bytes option) \<Rightarrow> string option \<Rightarrow> (nat \<Rightarrow> world) \<Rightarrow> u32 \<Rightarrow> opts
     \<Rightarrow> (srv \<times> tok list) option" where
  "daemon_start ok there files cwd ws rnd o1 =
     (if (case o_primary o1 of None \<Rightarrow> False | Some p \<Rightarrow> repl_addr p = None) then None
      else if (case data_dir (o_data o1) of None \<Rightarrow> False | Some d \<Rightarrow> \<not> snd (mkdir_p ok d)) then None
      else
        (let content = (\<lambda>f. case files f of None \<Rightarrow> [] | Some b \<Rightarrow> b);
             proj = map_option (\<lambda>r. store_open (content (r @ ''/.exo/project.dat'')) (ws 1)) (daemon_root there cwd o1);
             a = \<lparr>a_main = store_open (content (o_data o1)) (ws 0), a_proj = proj, a_mandate = [], a_rand = rnd\<rparr>;
             a1 = (case o_mandate o1 of
                     None \<Rightarrow> a
                   | Some m \<Rightarrow> fst (srv_set False ''mandate'' m 0 False (ws 2) (http_set_mandate m a)))
         in map_option (\<lambda>ts. (a1, ts)) (daemon_tokens files o1)))"

end
