(* ===== verification/Exo_Router.thy ===== *)
theory Exo_Router
  imports Exo_Main Exo_Flow_Http_Props
begin

text \<open>
  The router of \<open>exomind-server\<close> (\<open>src/router.c\<close>): a tool call runs a sibling program with a path and
  a body, its result is noted in exomind, and claims in it are looked up. \<open>'w\<close> is the state of
  everything behind the programs; \<open>run\<close> is what a program run does: \<open>None\<close> when it cannot be
  started, else all it writes and its exit code. A read past the end of a text, and of the output of a search
  that could not be started, makes the result \<open>None\<close>.
\<close>

type_synonym 'w runner = "string \<Rightarrow> string \<Rightarrow> string \<Rightarrow> 'w \<Rightarrow> (bytes \<times> int) option \<times> 'w"

definition module_tools :: "(string \<times> string) list" where
  "module_tools = [(''exosched'', ''exosched''), (''exoflow'', ''exoflow''), (''exoqms'', ''exoqms''), (''exocrawl'', ''exocrawl''),
     (''exocontext'', ''exocontext''), (''exodoc'', ''exodoc''), (''exokit'', ''exokit''), (''spawn'', ''exoflow'')]"

text \<open>The output as the C string that a buffer of \<open>cap\<close> bytes holds.\<close>

definition run_binary :: "'w runner \<Rightarrow> string \<Rightarrow> string \<Rightarrow> string \<Rightarrow> nat \<Rightarrow> 'w \<Rightarrow> (string \<times> int) option \<times> 'w" where
  "run_binary run b path body cap w =
     (case run b path body w of
        (None, w') \<Rightarrow> (None, w') | (Some (out, rc), w') \<Rightarrow> (Some (cstr (take (cap - 1) out), rc), w'))"

definition load_context :: "'w runner \<Rightarrow> string \<Rightarrow> 'w \<Rightarrow> 'w" where
  "load_context run agent w =
     (if agent = [] then w else snd (run_binary run ''exocontext'' ''/context'' agent 65536 w))"

subsection \<open>Claims\<close>

definition repo_char :: "char \<Rightarrow> bool" where
  "repo_char c \<longleftrightarrow> c \<noteq> CHR ''/'' \<and> c \<noteq> CHR '' '' \<and> c \<noteq> nl \<and> c \<noteq> CHR '')'' \<and> c \<noteq> CHR '']'' \<and> c \<noteq> quot"

definition claim_note :: "string \<Rightarrow> string \<Rightarrow> string" where
  "claim_note claim detail =
     take 8191 (CHR ''{'' # jname ''claim'' @ CHR '':'' # jname claim @ CHR '','' # jname ''verified'' @ '':true,'' @
       jname ''detail'' @ CHR '':'' # take 4000 detail @ ''}'')"

definition note_run :: "'w runner \<Rightarrow> string \<Rightarrow> 'w \<Rightarrow> 'w" where
  "note_run run body w = snd (run_binary run ''exomind'' ''/note'' body 4096 w)"

text \<open>One occurrence of a repository, at the text that follows \<open>github.com/\<close>.\<close>

definition check_repo :: "'w runner \<Rightarrow> string \<Rightarrow> 'w \<Rightarrow> 'w option" where
  "check_repo run p w =
     (let repo = take 511 (takeWhile repo_char p)
      in if repo = [] \<or> CHR ''/'' \<notin> set p then Some w
         else (case run_binary run ''exogit'' (take 2047 (''/repo?url=https://github.com/'' @ repo)) [] 8192 w of
                 (Some (vout, rc), w1) \<Rightarrow>
                   Some (if rc = 0 \<and> vout \<noteq> [] then note_run run (claim_note (''github repo '' @ repo) vout) w1 else w1)
               | (None, w1) \<Rightarrow> None))"

function check_repos :: "'w runner \<Rightarrow> string \<Rightarrow> 'w \<Rightarrow> 'w option" where
  "check_repos run p w =
     (case find_sub p ''github.com/'' of
        None \<Rightarrow> Some w
      | Some i \<Rightarrow> if p = [] then Some w
                  else (case check_repo run (drop (i + 11) p) w of
                          None \<Rightarrow> None | Some w1 \<Rightarrow> check_repos run (drop (i + 11) p) w1))"
  by pat_completeness auto
termination by (relation "measure (\<lambda>(run, p, w). length p)") auto

declare check_repos.simps [simp del]

definition ver_start :: "char \<Rightarrow> bool" where
  "ver_start c \<longleftrightarrow> c = CHR ''v'' \<or> isdigit c"

definition ver_char :: "char \<Rightarrow> bool" where
  "ver_char c \<longleftrightarrow> isdigit c \<or> c = CHR ''.''"

text \<open>
  The first text that looks like a version. Digits at the very end that are too few leave the
  pointer at the terminator, and the loop steps over it: \<open>None\<close>.
\<close>

function first_version :: "string \<Rightarrow> string option option" where
  "first_version s =
     (case dropWhile (\<lambda>c. \<not> ver_start c) s of
        [] \<Rightarrow> Some None
      | c # r \<Rightarrow>
          if isdigit c \<or> (r \<noteq> [] \<and> isdigit (hd r)) then
            (let v = c # takeWhile ver_char r;
                 rest = drop (length v) (c # r)
             in if length v \<ge> 3 \<and> length v < 32 then Some (Some v)
                else (case rest of [] \<Rightarrow> None | _ # r' \<Rightarrow> first_version r'))
          else first_version r)"
  by pat_completeness auto
termination
proof (relation "measure length", goal_cases)
  case (2 s c r v rest x r')
  have "length rest \<le> length (c # r)" unfolding 2(4) by simp
  also have "\<dots> \<le> length s" unfolding 2(1) [symmetric] by (rule length_dropWhile_le)
  finally show ?case using 2(6) by simp
next
  case (3 s c r)
  have "length (c # r) \<le> length s" unfolding 3(1) [symmetric] by (rule length_dropWhile_le)
  then show ?case by simp
qed simp

declare first_version.simps [simp del]

definition check_version :: "'w runner \<Rightarrow> string \<Rightarrow> 'w \<Rightarrow> 'w option" where
  "check_version run result w =
     (case first_version result of
        None \<Rightarrow> None
      | Some None \<Rightarrow> Some w
      | Some (Some v) \<Rightarrow>
          (case run_binary run ''exocrawl'' (take 1023 (''/search?q='' @ v @ ''+version'')) [] 8192 w of
             (Some (vout, rc), w1) \<Rightarrow>
               Some (if rc = 0 \<and> vout \<noteq> [] \<and> has_sub vout v then note_run run (claim_note (''version '' @ v) vout) w1 else w1)
           | (None, w1) \<Rightarrow> None))"

definition verify_claims :: "'w runner \<Rightarrow> string \<Rightarrow> 'w \<Rightarrow> 'w option" where
  "verify_claims run result w =
     (case check_repos run result w of None \<Rightarrow> None | Some w1 \<Rightarrow> check_version run result w1)"

subsection \<open>Calls\<close>

definition result_note :: "string \<Rightarrow> string \<Rightarrow> string \<Rightarrow> bool \<Rightarrow> string" where
  "result_note tool args result ok =
     take 8191 (CHR ''{'' # jname ''tool'' @ CHR '':'' # jname tool @ CHR '','' # jname ''args'' @ CHR '':'' #
       (if args \<noteq> [] then args else ''{}'') @ CHR '','' # jname ''result'' @ CHR '':'' # take 4000 result @ CHR '','' #
       jname ''success'' @ CHR '':'' # (if ok then ''1'' else ''0'') @ ''}'')"

definition store_result :: "'w runner \<Rightarrow> string \<Rightarrow> string \<Rightarrow> string \<Rightarrow> bool \<Rightarrow> 'w \<Rightarrow> 'w option" where
  "store_result run tool args result ok w =
     (if result = [] then Some w else verify_claims run result (note_run run (result_note tool args result ok) w))"

text \<open>What \<open>spawn\<close> posts to exoflow.\<close>

definition spawn_body :: "int \<Rightarrow> string \<Rightarrow> string" where
  "spawn_body now body =
     take 8191 (CHR ''{'' # jname ''name'' @ CHR '':'' # jname (''spawn-'' @ show_int now) @ CHR '','' # jname ''task'' @ CHR '':'' #
       take 4000 (if body \<noteq> [] then body else ''{}'') @ CHR '','' # jname ''tools'' @ '':}'')"

text \<open>The path, body and agent of the arguments; \<open>Some None\<close> when the path is missing.\<close>

definition call_args :: "string \<Rightarrow> (string \<times> string \<times> string) option option" where
  "call_args args =
     (case json_str args ''path'' 4096 of
        None \<Rightarrow> None
      | Some None \<Rightarrow> Some None
      | Some (Some p) \<Rightarrow>
          if p = [] then Some None
          else (case (json_str_into [] args ''body'' 4096, json_str_into [] args ''agent'' 256) of
                  (Some b, Some g) \<Rightarrow> Some (Some (p, b, if g \<noteq> [] then g else ''opencode'')) | _ \<Rightarrow> None))"

definition run_tool :: "'w runner \<Rightarrow> string \<Rightarrow> string \<Rightarrow> string \<Rightarrow> string \<Rightarrow> string \<Rightarrow> string \<Rightarrow> 'w \<Rightarrow> ((bool \<times> string) \<times> 'w) option" where
  "run_tool run failed tool b path body args w =
     (case run_binary run b path body 65536 w of
        (None, w1) \<Rightarrow> Some ((False, failed), w1)
      | (Some (out, rc), w1) \<Rightarrow> map_option (\<lambda>w2. ((rc = 0, out), w2)) (store_result run tool args out (rc = 0) w1))"

definition router_call :: "'w runner \<Rightarrow> int \<Rightarrow> string \<Rightarrow> string \<Rightarrow> 'w \<Rightarrow> ((bool \<times> string) \<times> 'w) option" where
  "router_call run now tool args w =
     (case map_of module_tools tool of
        None \<Rightarrow> Some ((False, ''error: no such module tool '' @ tool), w)
      | Some b \<Rightarrow>
          (case call_args args of
             None \<Rightarrow> None
           | Some None \<Rightarrow>
               Some ((False, ''error: missing path (e.g. '' @ jname (if tool = ''spawn'' then ''/spawn?task=...'' else ''/list'') @ '')''), w)
           | Some (Some (path, body, agent)) \<Rightarrow>
               if tool = ''spawn'' then
                 run_tool run ''error: cannot run exoflow'' tool ''exoflow'' ''/flow'' (spawn_body now body) args (load_context run agent w)
               else run_tool run (''error: cannot run '' @ b @ '' (is it installed?)'') tool b path body args (load_context run agent w)))"

subsection \<open>What spawning does\<close>

text \<open>
  exoflow reads a flow from lines: what \<open>spawn\<close> posts is one line unless the text of the task has a
  newline, so it has a name and no steps.
\<close>

lemma one_line:
  assumes "nl \<notin> set s" "s \<noteq> []"
  shows "strtok_all (\<lambda>c. c = nl) s = [s]"
proof -
  obtain a r where s: "s = a # r" using assms(2) by (cases s) auto
  have n: "a \<noteq> nl" "nl \<notin> set r" using assms(1) s by auto
  have "takeWhile (\<lambda>c. c \<noteq> nl) r = r" "dropWhile (\<lambda>c. c \<noteq> nl) r = []" using n(2) by (simp_all add: takeWhile_eq_all_conv) (metis n(2))+
  then show ?thesis unfolding s using n(1) by (subst strtok_all.simps) (simp add: strtok_all.simps del: dropWhile_eq_Nil_conv)
qed

lemma create_one_line:
  assumes "nl \<notin> set s" "nul \<notin> set s" "strip_eol s \<noteq> []" "dropWhile (\<lambda>c. c = CHR '' '' \<or> c = tab) (strip_eol s) \<noteq> []"
  shows "create_flow s now = Inl NoSteps"
proof -
  have "s \<noteq> []" using assms(3) by (auto simp: strip_eol_def)
  then have "text_lines (cstr s) = [strip_eol s]" using one_line [OF assms(1)] assms(2) by (simp add: text_lines_def cstr_id)
  then show ?thesis using assms(4) by (simp add: create_flow_def Let_def)
qed

end
