(* ===== verification/Exo_Mcp_Props.thy ===== *)
theory Exo_Mcp_Props
  imports Exo_Router
begin

text \<open>
  What the MCP layer of \<open>common/exo.c\<close> does with a request that is well-formed JSON without blanks:
  the scan for a key finds the value of the first field of that name, a string comes back as the text
  that was written, and a call reaches its tool. The lines of exomind's own server then store a value
  and read it back.
\<close>

subsection \<open>JSON values and how they are written\<close>

datatype jval = JText string | JRaw string | JArr "jval list" | JObj "(string \<times> jval) list"

definition esc_all :: "string \<Rightarrow> string" where
  "esc_all s = concat (map esc_json_char s)"

definition jtext :: "string \<Rightarrow> string" where
  "jtext s = quot # esc_all s @ [quot]"

fun jprint :: "jval \<Rightarrow> string" and jitems :: "jval list \<Rightarrow> string" and jfields :: "(string \<times> jval) list \<Rightarrow> string" where
  "jprint (JText s) = jtext s"
| "jprint (JRaw s) = s"
| "jprint (JArr vs) = CHR ''['' # jitems vs @ '']''"
| "jprint (JObj kvs) = CHR ''{'' # jfields kvs @ ''}''"
| "jitems [] = []"
| "jitems (v # vs) = jprint v @ (if vs = [] then [] else CHR '','' # jitems vs)"
| "jfields [] = []"
| "jfields ((k, v) # kvs) = quot # k @ quot # CHR '':'' # jprint v @ (if kvs = [] then [] else CHR '','' # jfields kvs)"

text \<open>
  Texts whose control characters are newline, carriage return and tab, names that need no escape,
  and tokens without a character that ends or nests them.
\<close>

definition jsonable :: "char \<Rightarrow> bool" where
  "jsonable c \<longleftrightarrow> c = nl \<or> c = cr \<or> c = tab \<or> (0x20 :: nat) \<le> of_char c"

definition name_char :: "char \<Rightarrow> bool" where
  "name_char c \<longleftrightarrow> c \<noteq> quot \<and> c \<noteq> bslash \<and> (0x20 :: nat) \<le> of_char c"

definition raw_char :: "char \<Rightarrow> bool" where
  "raw_char c \<longleftrightarrow> \<not> raw_end c \<and> c \<noteq> quot \<and> c \<noteq> CHR ''{'' \<and> c \<noteq> CHR ''['' \<and> (0x20 :: nat) \<le> of_char c"

fun jwf :: "jval \<Rightarrow> bool" and jwf_items :: "jval list \<Rightarrow> bool" and jwf_fields :: "(string \<times> jval) list \<Rightarrow> bool" where
  "jwf (JText s) \<longleftrightarrow> list_all jsonable s"
| "jwf (JRaw s) \<longleftrightarrow> s \<noteq> [] \<and> list_all raw_char s"
| "jwf (JArr vs) \<longleftrightarrow> jwf_items vs"
| "jwf (JObj kvs) \<longleftrightarrow> jwf_fields kvs"
| "jwf_items [] \<longleftrightarrow> True"
| "jwf_items (v # vs) \<longleftrightarrow> jwf v \<and> jwf_items vs"
| "jwf_fields [] \<longleftrightarrow> True"
| "jwf_fields ((k, v) # kvs) \<longleftrightarrow> list_all name_char k \<and> jwf v \<and> jwf_fields kvs"

lemma jwf_fields_of: "jwf_fields kvs \<Longrightarrow> map_of kvs k = Some v \<Longrightarrow> jwf v"
  by (induction kvs) (auto split: if_split_asm)

subsection \<open>Strings\<close>

lemma esc_all_simps [simp]: "esc_all [] = []" "esc_all (c # s) = esc_json_char c @ esc_all s"
  by (simp_all add: esc_all_def)

text \<open>An escape is one plain character, or a backslash, a second character and plain ones.\<close>

lemma hex_digit_plain: "n < 16 \<Longrightarrow> hex_digit n \<noteq> quot \<and> hex_digit n \<noteq> bslash \<and> (0x20 :: nat) \<le> of_char (hex_digit n)"
  unfolding less_16_iff by (auto simp: hex_digit_def)

lemma esc_char_cases:
  obtains (plain) "esc_json_char c = [c]" "c \<noteq> quot" "c \<noteq> bslash" "(0x20 :: nat) \<le> of_char c"
  | (short) e where "esc_json_char c = [bslash, e]" "json_unesc e = [c]" "(0x20 :: nat) \<le> of_char e"
  | (ctrl) a b where "esc_json_char c = [bslash, CHR ''u'', CHR ''0'', CHR ''0'', a, b]" "\<not> jsonable c"
      "a \<noteq> quot" "a \<noteq> bslash" "b \<noteq> quot" "b \<noteq> bslash" "(0x20 :: nat) \<le> of_char a" "(0x20 :: nat) \<le> of_char b"
proof -
  consider "c = quot" | "c = bslash" | "c = nl" | "c = cr" | "c = tab" | "(0x20 :: nat) \<le> of_char c" "c \<noteq> quot" "c \<noteq> bslash"
    | "\<not> jsonable c" "c \<noteq> quot" "c \<noteq> bslash" "c \<noteq> nl" "c \<noteq> cr" "c \<noteq> tab" "of_char c < (0x20 :: nat)"
    using le_less_linear [of "0x20 :: nat" "of_char c"] unfolding jsonable_def by auto
  then show ?thesis
  proof cases
    case 7
    define n where "n = (of_char c :: nat)"
    have "n div 16 < 16" "n mod 16 < 16" using 7 by (auto simp: n_def)
    note h = this [THEN hex_digit_plain]
    show ?thesis
      by (rule ctrl [of "hex_digit (n div 16)" "hex_digit (n mod 16)"]) (use 7 h in \<open>simp_all add: esc_json_char_def n_def\<close>)
  next
    case 6
    then show ?thesis by (intro plain) (auto simp: esc_json_char_def)
  next
    case 1
    then show ?thesis by (intro short [of "quot"]) (simp_all add: esc_json_char_def json_unesc_def)
  next
    case 2
    then show ?thesis by (intro short [of "bslash"]) (simp_all add: esc_json_char_def json_unesc_def)
  next
    case 3
    then show ?thesis by (intro short [of "CHR ''n''"]) (simp_all add: esc_json_char_def json_unesc_def)
  next
    case 4
    then show ?thesis by (intro short [of "CHR ''r''"]) (simp_all add: esc_json_char_def json_unesc_def)
  next
    case 5
    then show ?thesis by (intro short [of "CHR ''t''"]) (simp_all add: esc_json_char_def json_unesc_def)
  qed
qed

lemma str_end_esc: "str_end (esc_all s @ quot # r) = quot # r"
proof (induction s)
  case (Cons c s)
  show ?case by (cases c rule: esc_char_cases) (use Cons in simp_all)
qed simp

lemma str_end_name: "list_all name_char k \<Longrightarrow> str_end (k @ quot # r) = quot # r"
  by (induction k) (auto simp: name_char_def)

lemma dec_esc:
  "list_all jsonable s \<Longrightarrow> length out + length s < cap \<Longrightarrow> dec_loop cap (esc_all s @ quot # r) out = out @ s"
proof (induction s arbitrary: out)
  case (Cons c s)
  have ih: "dec_loop cap (esc_all s @ quot # r) (out @ [c]) = (out @ [c]) @ s" using Cons by simp
  obtain x y where xy: "esc_all s @ quot # r = x # y" by (cases "esc_all s @ quot # r") auto
  show ?case
  proof (cases c rule: esc_char_cases)
    case plain
    then show ?thesis using ih Cons.prems xy by simp
  next
    case (short e)
    then show ?thesis using ih Cons.prems by simp
  qed (use Cons.prems in simp)
qed simp

lemma decode_jtext: "list_all jsonable s \<Longrightarrow> length s < cap \<Longrightarrow> json_str_decode (jtext s) cap = Some (Some s)"
  using dec_esc [of s "[]" cap "[]"] by (simp add: json_str_decode_def jtext_def)

lemma esc_append: "length out + length (esc_all s) + 8 \<le> cap \<Longrightarrow> json_esc_append cap out s = out @ esc_all s"
proof (induction s arbitrary: out)
  case (Cons c s)
  have "1 \<le> length (esc_json_char c)" by (simp add: esc_json_char_def)
  then show ?case using Cons by simp
qed simp

lemma quoted_jtext: "length (esc_all s) + 9 \<le> cap \<Longrightarrow> quoted_json cap s = jtext s"
  using esc_append [of "[quot]" s cap] by (simp add: quoted_json_def jtext_def)

subsection \<open>Passing over values\<close>

lemma raw_char_simps:
  "raw_char c \<Longrightarrow> c \<noteq> quot \<and> c \<noteq> CHR ''{'' \<and> c \<noteq> CHR ''['' \<and> c \<noteq> CHR ''}'' \<and> c \<noteq> CHR '']'' \<and> c \<noteq> CHR '','' \<and> \<not> jws c"
  by (simp add: raw_char_def raw_end_def)

lemma skip_raw: "list_all raw_char s \<Longrightarrow> skip_value d (s @ r) = skip_value d r"
proof (induction s)
  case (Cons c s)
  then show ?case using raw_char_simps [of c] by simp
qed simp

lemma nest_raw: "list_all raw_char s \<Longrightarrow> nest_end d (s @ r) = nest_end d r"
proof (induction s)
  case (Cons c s)
  then show ?case using raw_char_simps [of c] by simp
qed simp

lemma skip_quoted: "str_end (s @ quot # r) = quot # r \<Longrightarrow> skip_value d (quot # s @ quot # r) = skip_value d r"
  by simp

lemma nest_quoted: "str_end (s @ quot # r) = quot # r \<Longrightarrow> nest_end d (quot # s @ quot # r) = nest_end d r"
  by simp

lemma skip_printed:
  "jwf v \<Longrightarrow> 0 \<le> d \<Longrightarrow> skip_value d (jprint v @ r) = skip_value d r"
  "jwf_items vs \<Longrightarrow> 1 \<le> d \<Longrightarrow> skip_value d (jitems vs @ r) = skip_value d r"
  "jwf_fields kvs \<Longrightarrow> 1 \<le> d \<Longrightarrow> skip_value d (jfields kvs @ r) = skip_value d r"
proof (induction v and vs and kvs arbitrary: d r and d r and d r rule: jprint_jitems_jfields.induct)
  case (1 s)
  show ?case using skip_quoted [OF str_end_esc] by (simp add: jtext_def)
next
  case (8 k v kvs)
  have "skip_value d (quot # k @ quot # t) = skip_value d t" for t using 8(3) by (intro skip_quoted str_end_name) simp
  then show ?case using 8 by simp
qed (simp_all add: skip_raw)

lemma nest_printed:
  "jwf v \<Longrightarrow> 1 \<le> d \<Longrightarrow> nest_end d (jprint v @ r) = nest_end d r"
  "jwf_items vs \<Longrightarrow> 1 \<le> d \<Longrightarrow> nest_end d (jitems vs @ r) = nest_end d r"
  "jwf_fields kvs \<Longrightarrow> 1 \<le> d \<Longrightarrow> nest_end d (jfields kvs @ r) = nest_end d r"
proof (induction v and vs and kvs arbitrary: d r and d r and d r rule: jprint_jitems_jfields.induct)
  case (1 s)
  show ?case using nest_quoted [OF str_end_esc] by (simp add: jtext_def)
next
  case (8 k v kvs)
  have "nest_end d (quot # k @ quot # t) = nest_end d t" for t using 8(3) by (intro nest_quoted str_end_name) simp
  then show ?case using 8 by simp
qed (simp_all add: nest_raw)

text \<open>The slice that the scan cuts out is the value; what follows it is a comma or a closing brace.\<close>

lemma value_printed:
  assumes "jwf v" "e = CHR '','' \<or> e = CHR ''}''"
  shows "value_len (jprint v @ e # r) = Some (length (jprint v)) \<and> jskip (jprint v @ e # r) = jprint v @ e # r"
proof (cases v)
  case (JText s)
  have "str_end (esc_all s @ quot # e # r) = quot # e # r" by (rule str_end_esc)
  then show ?thesis using JText by (simp add: value_len_def jtext_def jskip_def jws_def)
next
  case (JRaw s)
  then have s: "s \<noteq> []" "list_all raw_char s" using assms(1) by simp_all
  have "takeWhile (\<lambda>c. \<not> raw_end c) (s @ e # r) = s"
    using s(2) assms(2) by (induction s) (auto simp: raw_char_def raw_end_def)
  then show ?thesis using s JRaw raw_char_simps [of "hd s"]
    by (cases s) (auto simp: value_len_def jskip_def)
next
  case (JArr vs)
  have "nest_end 0 (jprint v @ e # r) = Some (e # r)" using nest_printed(2) [of vs 1] assms(1) JArr by simp
  then show ?thesis using JArr by (simp add: value_len_def jskip_def jws_def)
next
  case (JObj kvs)
  have "nest_end 0 (jprint v @ e # r) = Some (e # r)" using nest_printed(3) [of kvs 1] assms(1) JObj by simp
  then show ?thesis using JObj by (simp add: value_len_def jskip_def jws_def)
qed

subsection \<open>Finding a field\<close>

lemma name_chars: "list_all name_char k \<Longrightarrow> quot \<notin> set k"
  by (auto simp: list_all_iff name_char_def)

lemma find_step:
  assumes "list_all name_char k" "jwf v" "e = CHR '','' \<or> e = CHR ''}''"
  shows "find_loop key (quot # k @ quot # CHR '':'' # jprint v @ e # r) =
    (if k = key then Some (Some (jprint v)) else if e = CHR '','' then find_loop key r else Some None)"
proof -
  note q = str_end_name [OF assms(1), of "CHR '':'' # jprint v @ e # r"] and v = value_printed [OF assms(2,3), of r]
  have s: "skip_value 0 (jprint v @ e # r) = (if e = CHR '','' then SkipTo r else SkipMiss)"
    using skip_printed(1) [OF assms(2), of 0] assms(3) by auto
  have j: "jskip (quot # x) = quot # x" "jskip (CHR '':'' # x) = CHR '':'' # x" for x by (simp_all add: jskip_def jws_def)
  show ?thesis
    by (subst find_loop.simps) (simp add: Let_def j q v s)
qed

lemma find_printed:
  "jwf_fields kvs \<Longrightarrow> find_loop key (jfields kvs @ CHR ''}'' # r) = Some (map_option jprint (map_of kvs key))"
proof (induction kvs)
  case Nil
  show ?case by (subst find_loop.simps) (simp add: jskip_def jws_def)
next
  case (Cons kv kvs)
  obtain k v where kv: "kv = (k, v)" by fastforce
  have w: "list_all name_char k" "jwf v" using Cons.prems kv by simp_all
  show ?case
  proof (cases kvs)
    case Nil
    then show ?thesis using find_step [OF w, of "CHR ''}''" key r] kv by simp
  next
    case (Cons a l)
    then show ?thesis using find_step [OF w, of "CHR '',''" key "jfields kvs @ CHR ''}'' # r"] kv Cons.IH Cons.prems by simp
  qed
qed

lemma json_find_printed:
  "jwf_fields kvs \<Longrightarrow> json_find (jprint (JObj kvs)) key = Some (map_option jprint (map_of kvs key))"
  using find_printed [of kvs key "[]"] by (simp add: json_find_def jskip_def jws_def)

subsection \<open>Reading the fields of a request\<close>

text \<open>What \<open>exo_json_str\<close> reads from a field: a text that fits the buffer, nothing from other values.\<close>

lemma jprint_hd: "jwf v \<Longrightarrow> jprint v \<noteq> [] \<and> (hd (jprint v) = quot \<longleftrightarrow> (\<exists>s. v = JText s)) \<and> (hd (jprint v) = CHR ''{'' \<longleftrightarrow> (\<exists>f. v = JObj f))"
  by (cases v) (auto simp: jtext_def raw_char_def hd_in_set list_all_iff neq_Nil_conv)

lemma json_str_printed:
  assumes "jwf_fields kvs"
  shows "map_of kvs key = Some (JText s) \<Longrightarrow> length s < cap \<Longrightarrow> json_str (jprint (JObj kvs)) key cap = Some (Some s)"
    and "\<forall>s. map_of kvs key \<noteq> Some (JText s) \<Longrightarrow> json_str (jprint (JObj kvs)) key cap = Some None"
proof -
  note f = json_find_printed [OF assms, of key]
  assume a: "map_of kvs key = Some (JText s)" "length s < cap"
  have "list_all jsonable s" using jwf_fields_of [OF assms a(1)] by simp
  then show "json_str (jprint (JObj kvs)) key cap = Some (Some s)"
    using f a decode_jtext [of s cap] by (simp add: json_str_def del: jprint.simps(4))
next
  note f = json_find_printed [OF assms, of key]
  assume a: "\<forall>s. map_of kvs key \<noteq> Some (JText s)"
  show "json_str (jprint (JObj kvs)) key cap = Some None"
  proof (cases "map_of kvs key")
    case None
    then show ?thesis using f by (simp add: json_str_def del: jprint.simps(4))
  next
    case (Some v)
    have "jprint v \<noteq> []" "hd (jprint v) \<noteq> quot" using jprint_hd [OF jwf_fields_of [OF assms Some]] a Some by auto
    then show ?thesis using f Some by (simp add: json_str_def json_str_decode_def del: jprint.simps(4))
  qed
qed

lemma str_into_printed:
  "jwf_fields kvs \<Longrightarrow> map_of kvs key = Some (JText s) \<Longrightarrow> length s < cap \<Longrightarrow> json_str_into old (jprint (JObj kvs)) key cap = Some s"
  "jwf_fields kvs \<Longrightarrow> map_of kvs key = None \<Longrightarrow> json_str_into old (jprint (JObj kvs)) key cap = Some old"
  by (simp_all add: json_str_into_def json_str_printed del: jprint.simps(4))

lemma slice_printed:
  assumes "jwf_fields kvs" "map_of kvs key = Some (JObj f)" "length (jprint (JObj f)) < cap"
  shows "slice_or_empty (jprint (JObj kvs)) key cap o1 = Some (jprint (JObj f))"
  using assms by (simp add: slice_or_empty_def json_find_printed del: jprint.simps(4)) simp

lemma id_printed:
  assumes "jwf_fields kvs" "map_of kvs ''id'' = Some (JRaw i)" "length i < 64"
  shows "request_id (jprint (JObj kvs)) = Some i"
proof -
  have "jwf (JRaw i)" using jwf_fields_of [OF assms(1,2)] .
  then have "i \<noteq> []" "hd i \<noteq> quot" using jprint_hd [of "JRaw i"] by auto
  then show ?thesis using assms by (simp add: request_id_def json_find_printed del: jprint.simps(4))
qed

text \<open>A printed value has no control character, so it is one line.\<close>

definition printable :: "string \<Rightarrow> bool" where
  "printable s \<longleftrightarrow> list_all (\<lambda>c. (0x20 :: nat) \<le> of_char c) s"

lemma printable_simps [simp]:
  "printable []" "printable (c # s) \<longleftrightarrow> (0x20 :: nat) \<le> of_char c \<and> printable s" "printable (s @ t) \<longleftrightarrow> printable s \<and> printable t"
  by (simp_all add: printable_def)

lemma printable_esc: "list_all jsonable s \<Longrightarrow> printable (esc_all s)"
proof (induction s)
  case (Cons c s)
  then show ?case by (cases c rule: esc_char_cases) simp_all
qed simp

lemma printable_name: "list_all name_char k \<Longrightarrow> printable k"
  by (simp add: printable_def name_char_def list_all_iff)

lemma printable_raw: "list_all raw_char k \<Longrightarrow> printable k"
  by (simp add: printable_def raw_char_def list_all_iff)

lemma printable_printed:
  "jwf v \<Longrightarrow> printable (jprint v)"
  "jwf_items vs \<Longrightarrow> printable (jitems vs)"
  "jwf_fields kvs \<Longrightarrow> printable (jfields kvs)"
proof (induction v and vs and kvs rule: jprint_jitems_jfields.induct)
qed (simp_all add: jtext_def printable_esc printable_name printable_raw)

lemma printable_ctrl: "printable s \<Longrightarrow> nl \<notin> set s \<and> cr \<notin> set s \<and> nul \<notin> set s"
  unfolding printable_def by (induction s) auto

lemma doc_printed: "jwf_fields kvs \<Longrightarrow> mcp_doc (jprint (JObj kvs) @ [nl]) = jprint (JObj kvs)"
proof -
  assume a: "jwf_fields kvs"
  have "nul \<notin> set (jprint (JObj kvs))" using printable_printed(1) [of "JObj kvs"] a printable_ctrl by simp
  then have "cstr (jprint (JObj kvs)) = jprint (JObj kvs)" by (rule cstr_id)
  moreover have "last (jprint (JObj kvs)) \<noteq> cr" "jprint (JObj kvs) \<noteq> []" by simp_all
  moreover have "dropWhile (\<lambda>c. c = CHR '' '' \<or> c = tab) (jprint (JObj kvs)) = jprint (JObj kvs)" by simp
  ultimately show ?thesis by (simp add: mcp_doc_def del: jprint.simps)
qed

subsection \<open>Calls\<close>

text \<open>The reply to a call, from what its tool answers.\<close>

definition tool_reply :: "string \<Rightarrow> bool \<times> string \<Rightarrow> string option" where
  "tool_reply i r =
     (let res = take 65535 (snd r)
      in if \<not> fst r then Some (mcp_reply i (call_failed res)) else map_option (mcp_reply i) (call_done (quoted_json 70000 res)))"

text \<open>
  A request for a call that is written like this, its fields in any order and with others among
  them, reaches the tool with the arguments as they were written.
\<close>

lemma call_reaches_tool:
  assumes w: "jwf_fields kvs" and i: "map_of kvs ''id'' = Some (JRaw i)" "length i < 64"
    and me: "map_of kvs ''method'' = Some (JText ''tools/call'')"
    and pa: "map_of kvs ''params'' = Some (JObj ps)" "length (jprint (JObj ps)) < 16384"
    and na: "map_of ps ''name'' = Some (JText nm)" "nm \<noteq> []" "length nm < 256" "nm \<in> t_name ` set (m_tools m)"
    and ar: "map_of ps ''arguments'' = Some (JObj args)" "length (jprint (JObj args)) < 8192"
  shows "mcp_line m (jprint (JObj kvs) @ [nl]) st =
    (case m_call m nm (jprint (JObj args)) st of
       None \<Rightarrow> None | Some (r, st') \<Rightarrow> map_option (\<lambda>t. (t, st')) (tool_reply i r))"
proof -
  have ps: "jwf_fields ps" using jwf_fields_of [OF w pa(1)] by simp
  have doc: "jprint (JObj kvs) \<noteq> []" by simp
  note facts = id_printed [OF w i] str_into_printed(1) [OF w me] slice_printed [OF w pa] str_into_printed(1) [OF ps na(1,3)]
    slice_printed [OF ps ar] doc_printed [OF w]
  have "mcp_line m (jprint (JObj kvs) @ [nl]) st = tools_call m i (jprint (JObj kvs)) st"
    unfolding mcp_line_def Let_def facts(6) if_not_P [OF doc] facts(1) by (simp add: facts(2) mcp_method_def del: jprint.simps)
  also have "\<dots> = (case m_call m nm (jprint (JObj args)) st of
       None \<Rightarrow> None | Some (r, st') \<Rightarrow> map_option (\<lambda>t. (t, st')) (tool_reply i r))"
    unfolding tools_call_def facts(3) option.case facts(4) if_not_P [OF na(2)] facts(5) Let_def tool_reply_def
    using na(4) by (auto simp: map_option_case simp del: jprint.simps split: option.splits prod.splits if_splits)
  finally show ?thesis .
qed

text \<open>A call as a client writes it, and the answer to one that succeeds.\<close>

definition call_json :: "string \<Rightarrow> string \<Rightarrow> (string \<times> jval) list \<Rightarrow> jval" where
  "call_json i nm args =
     JObj [(''jsonrpc'', JText ''2.0''), (''id'', JRaw i), (''method'', JText ''tools/call''),
       (''params'', JObj [(''name'', JText nm), (''arguments'', JObj args)])]"

definition done_reply :: "string \<Rightarrow> string \<Rightarrow> string" where
  "done_reply i text =
     mcp_reply i (CHR ''{'' # jname ''content'' @ CHR '':'' # CHR ''['' # CHR ''{'' # jname ''type'' @ CHR '':'' # jname ''text'' @
       CHR '','' # jname ''text'' @ CHR '':'' # jtext text @ CHR '']'' # CHR '','' # jname ''isError'' @ '':false}'')"

lemma esc_longer: "length s \<le> length (esc_all s) \<and> length (esc_all s) \<le> 6 * length s"
proof (induction s)
  case (Cons c s)
  have "1 \<le> length (esc_json_char c) \<and> length (esc_json_char c) \<le> 6" by (simp add: esc_json_char_def)
  then show ?case using Cons by simp
qed simp

lemma tool_reply_done: "length (esc_all s) < 65536 \<Longrightarrow> tool_reply i (True, s) = Some (done_reply i s)"
  using esc_longer [of s] by (simp add: tool_reply_def quoted_jtext call_done_def done_reply_def jtext_def jname_def)

lemma call_json_line:
  assumes "jwf (JRaw i)" "length i < 64" "list_all jsonable nm" "nm \<noteq> []" "length nm < 256" "nm \<in> t_name ` set (m_tools m)"
    and "jwf_fields args" "length (jfields args) < 8000" "length (esc_all nm) < 2000"
  shows "mcp_line m (jprint (call_json i nm args) @ [nl]) st =
    (case m_call m nm (jprint (JObj args)) st of
       None \<Rightarrow> None | Some (r, st') \<Rightarrow> map_option (\<lambda>t. (t, st')) (tool_reply i r))"
  unfolding call_json_def
proof (rule call_reaches_tool [where ps = "[(''name'', JText nm), (''arguments'', JObj args)]"])
  show "jwf_fields [(''jsonrpc'', JText ''2.0''), (''id'', JRaw i), (''method'', JText ''tools/call''),
       (''params'', JObj [(''name'', JText nm), (''arguments'', JObj args)])]"
    using assms by (simp add: name_char_def jsonable_def)
qed (use assms in \<open>simp_all add: jtext_def\<close>)

lemma call_json_no_nl: "jwf (JRaw i) \<Longrightarrow> list_all jsonable nm \<Longrightarrow> jwf_fields args \<Longrightarrow> nl \<notin> set (jprint (call_json i nm args))"
proof -
  assume a: "jwf (JRaw i)" "list_all jsonable nm" "jwf_fields args"
  have "jwf (call_json i nm args)" using a by (simp add: call_json_def name_char_def jsonable_def)
  then show ?thesis using printable_ctrl printable_printed(1) by blast
qed

lemma input_two: "nl \<notin> set a \<Longrightarrow> nl \<notin> set b \<Longrightarrow> input_lines (a @ nl # b @ [nl]) = [a @ [nl], b @ [nl]]"
  using split_on_append [of nl a "b @ [nl]"] split_on_append [of nl b "[]"] by (simp add: input_lines_def)

subsection \<open>Storing and reading through the tools\<close>

text \<open>Keys of characters that need no percent sign, which the calls do not write either.\<close>

definition unreserved :: "char \<Rightarrow> bool" where
  "unreserved c \<longleftrightarrow> isalnum c \<or> c = CHR ''-'' \<or> c = CHR ''_'' \<or> c = CHR ''.'' \<or> c = CHR ''~''"

lemma unreserved_key:
  "list_all unreserved k \<Longrightarrow> url_encode k = k \<and> list_all jsonable k \<and> nul \<notin> set k \<and> esc_all k = k"
proof (induction k)
  case (Cons c k)
  have u: "unreserved c" using Cons.prems by simp
  then have "(0x20 :: nat) \<le> of_char c" by (auto simp: unreserved_def ctype_defs less_eq_char_def)
  moreover have "c \<noteq> quot" "c \<noteq> bslash" using u by (auto simp: unreserved_def ctype_defs less_eq_char_def)
  ultimately have "jsonable c" "c \<noteq> nul" "esc_json_char c = [c]" by (auto simp: jsonable_def esc_json_char_def)
  moreover have "url_encode_char c = [c]" using u by (simp add: unreserved_def url_encode_char_def)
  ultimately show ?case using Cons by (simp add: url_encode_def)
qed (simp add: url_encode_def)

lemma jsonable_no_nul: "list_all jsonable v \<Longrightarrow> nul \<notin> set v"
proof (induction v)
  case (Cons c v)
  then show ?case by (auto simp: jsonable_def)
qed simp

lemma set_request:
  assumes "list_all unreserved k" "length k < 4096" "list_all jsonable v" "v \<noteq> []" "length v < 4096"
  shows "tool_request ''set'' (jprint (JObj [(''key'', JText k), (''value'', JText v)])) =
    Some (Inr (''POST'', ''/set'', key_query k, v))"
proof -
  have w: "jwf_fields [(''key'', JText k), (''value'', JText v)]"
    using assms(3) unreserved_key [OF assms(1)] by (simp add: name_char_def)
  have "json_str (jprint (JObj [(''key'', JText k), (''value'', JText v)])) ''key'' 4096 = Some (Some k)"
    by (rule json_str_printed(1) [OF w]) (use assms in simp_all)
  moreover have "json_str_into [] (jprint (JObj [(''key'', JText k), (''value'', JText v)])) ''ttl'' 32 = Some []"
    by (rule str_into_printed(2) [OF w]) simp
  moreover have "json_str_into [] (jprint (JObj [(''key'', JText k), (''value'', JText v)])) ''value'' 4096 = Some v"
    by (rule str_into_printed(1) [OF w]) (use assms in simp_all)
  ultimately show ?thesis
    using assms(2,4) unreserved_key [OF assms(1)]
    by (simp add: tool_request_def with_arg_def store_call_def tool_body_def key_query_def del: jprint.simps)
qed

lemma get_request:
  assumes "list_all unreserved k" "length k < 4096"
  shows "tool_request ''get'' (jprint (JObj [(''key'', JText k)])) = Some (Inr (''GET'', ''/get'', key_query k, []))"
proof -
  have w: "jwf_fields [(''key'', JText k)]" using unreserved_key [OF assms(1)] by (simp add: name_char_def)
  have "json_str (jprint (JObj [(''key'', JText k)])) ''key'' 4096 = Some (Some k)"
    by (rule json_str_printed(1) [OF w]) (use assms in simp_all)
  then show ?thesis
    using assms(2) unreserved_key [OF assms(1)] by (simp add: tool_request_def with_arg_def key_query_def del: jprint.simps)
qed

lemma calls_store_and_read:
  assumes sim: "sim t0 (a_main a) m" "t0 \<le> t" "int64 t" "t \<le> t'"
    and key: "k \<noteq> []" "list_all unreserved k" "length k < 4096"
    and val: "list_all jsonable v" "v \<noteq> []" "length v < 4096" "raw_body v" and proj: "a_proj a = None"
    and wss: "wss 0 = (\<lambda>_. healthy t)" "wss 1 = (\<lambda>_. healthy t')"
  shows "\<exists>b b2. mcp_call c wss ''set'' (jprint (JObj [(''key'', JText k), (''value'', JText v)])) (a, 0) = Some ((True, ''ok''), (b, 1)) \<and>
    mcp_call c wss ''get'' (jprint (JObj [(''key'', JText k)])) (b, 1) = Some ((True, v), (b2, 2))"
proof -
  note u = unreserved_key [OF key(2)]
  have q: "length (key_query k) < 4200" "take 8191 (key_query k) = key_query k" using u key(3) by (simp_all add: key_query_def)
  obtain b b2 where s: "do_set None \<lparr>rmethod = ''POST'', rpath = ''/set'', rquery = key_query k, rbody = v, rauth = [], rjson = False\<rparr>
      (\<lambda>_. healthy t) a = (b, plain 200 ''ok'')"
    and g: "do_get None \<lparr>rmethod = ''GET'', rpath = ''/get'', rquery = key_query k, rbody = [], rauth = [], rjson = False\<rparr>
      (\<lambda>_. healthy t') b = (b2, plain 200 v)"
    using post_then_get [OF sim key(1), of v None] u key(3) val proj
    by (auto simp: MAX_KEY_def MAX_VAL_def tok_can_write_def tok_allows_key_def)
  have "http_dispatch c ''POST'' ''/set'' (key_query k) v (wss 0) a = Some (b, plain 200 ''ok'')"
    using s q wss(1) by (simp add: http_dispatch_def route_def)
  moreover have "http_dispatch c ''GET'' ''/get'' (key_query k) [] (wss 1) b = Some (b2, plain 200 v)"
    using g q wss(2) by (simp add: http_dispatch_def route_def)
  ultimately show ?thesis
    using set_request [OF key(2,3) val(1-3)] get_request [OF key(2,3)] cstr_id [OF jsonable_no_nul [OF val(1)]] val(3)
      cstr_id [of "''ok''"]
    by (simp add: mcp_call_def plain_def numeral_2_eq_2 del: jprint.simps)
qed

lemma session_stores_and_reads:
  assumes sim: "sim t0 (a_main a) mp" "t0 \<le> t" "int64 t" "t \<le> t'"
    and key: "k \<noteq> []" "list_all unreserved k" "length k < 2000"
    and val: "list_all jsonable v" "v \<noteq> []" "length (esc_all v) < 4096" "raw_body v" and proj: "a_proj a = None"
    and wss: "wss 0 = (\<lambda>_. healthy t)" "wss 1 = (\<lambda>_. healthy t')"
    and m: "m_call m = mcp_call c wss" "t_name ` set (m_tools m) = set tool_names"
    and ids: "jwf (JRaw i)" "length i < 64" "jwf (JRaw j)" "length j < 64"
  shows "\<exists>st. mcp_stdio m (jprint (call_json i ''set'' [(''key'', JText k), (''value'', JText v)]) @ nl #
      jprint (call_json j ''get'' [(''key'', JText k)]) @ [nl]) (a, 0) = Some (done_reply i ''ok'' @ done_reply j v, st)"
proof -
  note u = unreserved_key [OF key(2)]
  have lv: "length v < 4096" using esc_longer [of v] val(3) by simp
  have w: "jwf_fields [(''key'', JText k), (''value'', JText v)]" "jwf_fields [(''key'', JText k)]"
    using u val(1) by (simp_all add: name_char_def)
  have nms: "list_all jsonable ''set''" "list_all jsonable ''get''" by (simp_all add: jsonable_def)
  obtain b b2 where s: "mcp_call c wss ''set'' (jprint (JObj [(''key'', JText k), (''value'', JText v)])) (a, 0) = Some ((True, ''ok''), (b, 1))"
    and g: "mcp_call c wss ''get'' (jprint (JObj [(''key'', JText k)])) (b, 1) = Some ((True, v), (b2, 2))"
    using calls_store_and_read [OF sim key(1,2) _ val(1,2) lv val(4) proj wss] key(3) by fastforce
  have "mcp_line m (jprint (call_json i ''set'' [(''key'', JText k), (''value'', JText v)]) @ [nl]) (a, 0) = Some (done_reply i ''ok'', (b, 1))"
    by (subst call_json_line)
      (use ids w nms m u key(3) val(3) s in \<open>simp_all add: jtext_def tool_names_def tool_reply_done esc_json_char_def del: jprint.simps(4) jwf.simps(2)\<close>)
  moreover have "mcp_line m (jprint (call_json j ''get'' [(''key'', JText k)]) @ [nl]) (b, 1) = Some (done_reply j v, (b2, 2))"
    by (subst call_json_line)
      (use ids w nms m u key(3) val(3) g in \<open>simp_all add: jtext_def tool_names_def tool_reply_done esc_json_char_def del: jprint.simps(4) jwf.simps(2)\<close>)
  ultimately show ?thesis
    using input_two [OF call_json_no_nl [OF ids(1) nms(1) w(1)] call_json_no_nl [OF ids(3) nms(2) w(2)]]
    by (simp add: mcp_stdio_def del: jprint.simps)
qed

subsection \<open>What does not work\<close>

text \<open>
  The reply of a call that succeeds opens one brace more than it closes, so it is not JSON; the
  replies that report an error are closed.
\<close>

definition braces :: "string \<Rightarrow> int" where
  "braces s = int (count_list s (CHR ''{'')) - int (count_list s (CHR ''}''))"

lemma braces_simps [simp]:
  "braces [] = 0" "braces (c # s) = (if c = CHR ''{'' then 1 else if c = CHR ''}'' then - 1 else 0) + braces s"
  "braces (s @ t) = braces s + braces t"
  by (simp_all add: braces_def)

lemma braces_jname [simp]: "braces (jname s) = braces s"
  by (simp add: jname_def)

lemma braces_hex: "n < 16 \<Longrightarrow> braces [hex_digit n] = 0"
  unfolding less_16_iff by (auto simp: hex_digit_def)

lemma braces_esc: "braces (esc_all s) = braces s"
proof (induction s)
  case (Cons c s)
  have "braces (esc_json_char c) = braces [c]"
  proof (cases "of_char c < (0x20 :: nat)")
    case True
    define n where "n = (of_char c :: nat)"
    have "n div 16 < 16" "n mod 16 < 16" using True by (auto simp: n_def)
    note h = this [THEN braces_hex]
    have "c \<noteq> CHR ''{''" "c \<noteq> CHR ''}''" using True by auto
    then show ?thesis using h by (simp add: esc_json_char_def n_def)
  qed (simp add: esc_json_char_def)
  then show ?case using Cons by simp
qed simp

lemma braces_done_reply: "braces (done_reply i t) = braces (mcp_id i) + braces t + 1"
  by (simp add: done_reply_def mcp_reply_def mcp_head_def jtext_def braces_esc)

lemma braces_failed_reply:
  "result \<noteq> [] \<Longrightarrow> length result < 60000 \<Longrightarrow> braces (mcp_reply i (call_failed result)) = braces (mcp_id i) + braces result"
  by (simp add: call_failed_def mcp_reply_def mcp_head_def jname_def)

text \<open>An unknown escape at the end of a buffer: two characters where there is room for one.\<close>

lemma unknown_escape_overflows:
  "json_str_decode (quot # replicate (n - 2) CHR ''a'' @ [bslash, CHR ''u'', quot]) n = (if n < 2 then json_str_decode [quot, bslash, CHR ''u'', quot] n else None)"
proof (cases "n < 2")
  case False
  have d: "dec_loop n (replicate k CHR ''a'' @ [bslash, CHR ''u'', quot]) out = out @ replicate k CHR ''a'' @ [bslash, CHR ''u'']"
    if "length out + k + 2 = n" for k out
    using that
  proof (induction k arbitrary: out)
    case (Suc k)
    then show ?case by (cases k) (simp_all add: json_unesc_def)
  qed (simp add: json_unesc_def)
  show ?thesis using d [of "[]" "n - 2"] False by (simp add: json_str_decode_def)
qed (cases n; simp)

text \<open>The flow that \<open>spawn\<close> posts has a name and no steps.\<close>

lemma spawn_makes_no_flow:
  assumes "nl \<notin> set body" "nul \<notin> set body"
  shows "create_flow (spawn_body now body) t = Inl NoSteps"
proof -
  define s where "s = spawn_body now body"
  obtain r where s: "s = CHR ''{'' # r" by (simp add: s_def spawn_body_def)
  have d: "c \<noteq> nl \<and> c \<noteq> nul" if "c \<in> set (show_int now)" for c
    using that quotable_digits [of "nat now"] quotable_digits [of "nat (- now)"] by (auto simp: show_int_def quotable_def split: if_split_asm)
  then have n: "nl \<notin> set (show_int now)" "nul \<notin> set (show_int now)" by blast+
  let ?l = "CHR ''{'' # jname ''name'' @ CHR '':'' # jname (''spawn-'' @ show_int now) @ CHR '','' # jname ''task'' @ CHR '':'' #
       take 4000 (if body \<noteq> [] then body else ''{}'') @ CHR '','' # jname ''tools'' @ '':}''"
  have "nl \<notin> set (take 4000 body)" "nul \<notin> set (take 4000 body)" using assms by (auto dest: in_set_takeD)
  then have "nl \<notin> set ?l" "nul \<notin> set ?l" using n by (auto simp: jname_def)
  moreover have "set s \<subseteq> set ?l" unfolding s_def spawn_body_def by (rule set_take_subset)
  ultimately have "nl \<notin> set s" "nul \<notin> set s" by blast+
  moreover have "strip_eol s = CHR ''{'' # strip_eol r" unfolding s strip_eol_def by (simp add: dropWhile_append3)
  ultimately show ?thesis unfolding s_def [symmetric] by (intro create_one_line) auto
qed

end
