(* ===== verification/Exo_Context.thy ===== *)
theory Exo_Context
  imports Exo_Qms_Http
begin

text \<open>
  exocontext (\<open>exocontext/src/main.c\<close>): the digest of what an agent has stored, the compression of a
  log that outgrew its budget, the routes, the connection and the console operation. Its client of
  exomind is the one of exosched, file for file. A read past the end of a key makes the result \<open>None\<close>.
\<close>

definition MAX_CONTEXT_BUDGET :: nat where "MAX_CONTEXT_BUDGET = 256 * 1024"
definition CTX_SUMMARY_SUFFIX :: string where "CTX_SUMMARY_SUFFIX = '':summary''"
definition CTX_BUDGET_DEFAULT :: nat where "CTX_BUDGET_DEFAULT = 16 * 1024"
definition CTX_SUMMARY_MAX_LINES :: nat where "CTX_SUMMARY_MAX_LINES = 64"
definition MAX_AGENT :: nat where "MAX_AGENT = 256"

definition ctx_prefix :: "string \<Rightarrow> string" where
  "ctx_prefix agent = take 511 (''agent:'' @ agent @ '':'')"

text \<open>
  The place of the summary among the keys, each of which is compared from the length of the prefix
  on: exomind decodes the prefix, so a key may be shorter. \<open>Some None\<close>: there is none.
\<close>

fun summary_at :: "nat \<Rightarrow> string list \<Rightarrow> nat option option" where
  "summary_at n [] = Some None"
| "summary_at n (k # ks) =
     (if length k < n then None
      else if drop n k = tl CTX_SUMMARY_SUFFIX then Some (Some 0) else map_option (map_option Suc) (summary_at n ks))"

subsection \<open>The digest\<close>

text \<open>Lines are added while the text is shorter than the budget, so the last may cross it.\<close>

fun put_lines :: "nat \<Rightarrow> string list \<Rightarrow> string \<Rightarrow> string" where
  "put_lines b [] out = out"
| "put_lines b (l # ls) out = (if length out \<ge> b then out else put_lines b ls (out @ l @ [nl]))"

definition state_row :: "string \<Rightarrow> string \<Rightarrow> string" where
  "state_row k v = k @ tab # take 400 (takeWhile (\<lambda>c. c \<noteq> nl) v) @ [nl]"

text \<open>The keys with their values but the summary; what was seen, and the text.\<close>

fun put_state :: "nat \<Rightarrow> (string \<times> string) list \<Rightarrow> string list \<times> string \<Rightarrow> string list \<times> string" where
  "put_state b [] st = st"
| "put_state b ((k, v) # kvs) st =
     (let (seen, out) = st
      in if length out \<ge> b then st
         else if k \<in> set seen then put_state b kvs st
         else put_state b kvs (seen @ [k], out @ state_row k v))"

fun put_notes :: "nat \<Rightarrow> string list \<Rightarrow> string list \<times> string \<Rightarrow> string list \<times> string" where
  "put_notes b [] st = st"
| "put_notes b (l # ls) st =
     (let (seen, out) = st
      in if length out \<ge> b then st
         else if l \<in> set seen then put_notes b ls st
         else put_notes b ls (seen @ [l], out @ l @ [nl]))"

definition without :: "nat option \<Rightarrow> 'a list \<Rightarrow> 'a list" where
  "without i xs = (case i of None \<Rightarrow> xs | Some j \<Rightarrow> take j xs @ drop (Suc j) xs)"

definition value_lines :: "string \<Rightarrow> string list" where
  "value_lines v = strtok_all (\<lambda>c. c = nl) v"

definition ctx_header :: "string \<Rightarrow> nat \<Rightarrow> string" where
  "ctx_header agent budget = ''# context for '' @ agent @ '' (budget '' @ show_nat budget @ '' chars)'' @ [nl]"

definition ctx_sections :: "nat \<Rightarrow> nat option \<Rightarrow> string list \<Rightarrow> string list \<Rightarrow> string \<Rightarrow> string list \<times> string" where
  "ctx_sections budget sx keys vals out =
     (let seen = (case sx of None \<Rightarrow> [] | Some i \<Rightarrow> [keys ! i]);
          out1 = (case sx of
                    None \<Rightarrow> out
                  | Some i \<Rightarrow> if vals ! i = [] then out
                              else put_lines budget (value_lines (vals ! i)) (out @ nl # ''## summary (compressed history)'' @ [nl]))
      in put_state budget (without sx (zip keys vals)) (seen, out1 @ nl # ''## state (agent:<id>:* keys)'' @ [nl]))"

definition ctx_notes :: "'w net \<Rightarrow> exo \<Rightarrow> string \<Rightarrow> nat \<Rightarrow> string list \<times> string \<Rightarrow> 'w \<Rightarrow> string \<times> 'w" where
  "ctx_notes net e agent budget st w =
     (case exo_request net e ''GET'' (take 1023 (''/notes?limit=200&q=agent%3A'' @ agent)) [] False w of
        (Inr (status, b), w1) \<Rightarrow>
          (if status = 200 then
             snd (put_notes budget (strtok_all (\<lambda>c. c = nl) (cstr b)) (fst st, snd st @ nl # ''## notes (newest first)'' @ [nl]))
           else snd st, w1)
      | (Inl err, w1) \<Rightarrow> (snd st, w1))"

definition ctx_build :: "'w net \<Rightarrow> exo \<Rightarrow> string \<Rightarrow> nat \<Rightarrow> 'w \<Rightarrow> (string \<times> 'w) option" where
  "ctx_build net e agent budget w =
     (let out = ctx_header agent budget; pf = ctx_prefix agent; (r, w1) = client_list net e pf w;
          keys = (case r of Inl err \<Rightarrow> [] | Inr ks \<Rightarrow> ks)
      in if keys = [] then Some (ctx_notes net e agent budget ([], out) w1)
         else (case client_batch_get net e keys w1 of
                 (Inl err, w2) \<Rightarrow> Some (out, w2)
               | (Inr vs, w2) \<Rightarrow>
                   map_option (\<lambda>sx. ctx_notes net e agent budget (ctx_sections budget sx keys (map cstr vs) out) w2)
                     (summary_at (length pf) keys)))"

subsection \<open>Compression\<close>

text \<open>The value of \<open>EXO_CTX_BUDGET\<close>.\<close>

definition ctx_storage_budget :: "string option \<Rightarrow> nat" where
  "ctx_storage_budget v =
     (case v of None \<Rightarrow> CTX_BUDGET_DEFAULT
      | Some s \<Rightarrow> (let n = fst (strtoll s) in if s \<noteq> [] \<and> n > 0 then nat n else CTX_BUDGET_DEFAULT))"

definition strlist_add :: "string list \<Rightarrow> string \<Rightarrow> string list" where
  "strlist_add ls s = (if s \<in> set ls then ls else ls @ [s])"

definition state_line :: "string \<Rightarrow> bool" where
  "state_line l \<longleftrightarrow> ci_prefix l ''decided:'' \<or> ci_prefix l ''state:''"

definition summary_state_lines :: "string \<Rightarrow> string list \<Rightarrow> string list" where
  "summary_state_lines v ls = foldl strlist_add ls (filter state_line (map chop_eol (value_lines v)))"

text \<open>\<open>%zu\<close> after the words; 0 when they do not match.\<close>

definition summary_count_of :: "string \<Rightarrow> nat" where
  "summary_count_of v =
     (case fmt_lit ''#'' v of None \<Rightarrow> 0 | Some r \<Rightarrow>
     (case fmt_lit ''summary'' (fmt_ws r) of None \<Rightarrow> 0 | Some r2 \<Rightarrow> fst (strtoull r2)))"

definition summary_head :: "string \<Rightarrow> bool" where
  "summary_head l \<longleftrightarrow> take 9 l = ''# summary'' \<or> take 2 l = ''(+''"

definition summary_lines_of :: "string \<Rightarrow> string list" where
  "summary_lines_of v = foldl strlist_add [] (filter (\<lambda>l. \<not> summary_head l) (value_lines v))"

definition entry_size :: "string \<times> string \<Rightarrow> nat" where
  "entry_size kv = length (fst kv) + length (snd kv) + 2"

text \<open>The entries that are folded, from a log of size \<open>t\<close>: from the first on, never the last.\<close>

fun fold_oldest :: "nat \<Rightarrow> nat \<Rightarrow> (string \<times> string) list \<Rightarrow> (string \<times> string) list" where
  "fold_oldest b t (x # y # r) = (if t > b then x # fold_oldest b (t - entry_size x) (y # r) else [])"
| "fold_oldest b t xs = []"

definition summary_text :: "nat \<Rightarrow> nat \<Rightarrow> string list \<Rightarrow> string list \<Rightarrow> int \<Rightarrow> string" where
  "summary_text oldcount folded lines old now =
     ''# summary '' @ show_nat ((oldcount + folded) mod 2 ^ 64) @ '' entries (compressed at '' @ show_int now @ '')'' @ nl #
     concat (map (\<lambda>l. l @ [nl]) (take CTX_SUMMARY_MAX_LINES (lines @ old))) @
     ''(+'' @ show_nat folded @ '' entries compressed)'' @ [nl]"

text \<open>The new summary and the keys to delete, when anything is folded.\<close>

definition ctx_plan :: "nat \<Rightarrow> int \<Rightarrow> nat option \<Rightarrow> (string \<times> string) list \<Rightarrow> (string \<times> string list) option" where
  "ctx_plan budget now sx kvs =
     (let live = without sx kvs; fs = fold_oldest budget (sum_list (map entry_size live)) live;
          lines = fold (\<lambda>(k, v). summary_state_lines v) fs [];
          (oldcount, old) = (case sx of None \<Rightarrow> (0, []) | Some i \<Rightarrow> (let v = snd (kvs ! i) in (summary_count_of v, summary_lines_of v)))
      in if fs = [] then None else Some (summary_text oldcount (length fs) lines old now, map fst fs))"

text \<open>A failed deletion is only logged.\<close>

fun del_keys :: "'w net \<Rightarrow> exo \<Rightarrow> string list \<Rightarrow> 'w \<Rightarrow> 'w" where
  "del_keys net e [] w = w"
| "del_keys net e (k # ks) w = del_keys net e ks (snd (client_del net e k w))"

definition ctx_compress :: "'w net \<Rightarrow> exo \<Rightarrow> string \<Rightarrow> nat \<Rightarrow> int \<Rightarrow> int \<Rightarrow> 'w \<Rightarrow> (nat \<times> 'w) option" where
  "ctx_compress net e agent budget now now2 w =
     (case client_list net e (ctx_prefix agent) w of
        (Inl err, w1) \<Rightarrow> Some (0, w1)
      | (Inr keys, w1) \<Rightarrow>
          if keys = [] then Some (0, w1)
          else (case client_batch_get net e keys w1 of
                  (Inl err, w2) \<Rightarrow> Some (0, w2)
                | (Inr vs, w2) \<Rightarrow>
                    (case summary_at (length (ctx_prefix agent)) keys of
                       None \<Rightarrow> None
                     | Some sx \<Rightarrow>
                         (case ctx_plan budget now sx (zip keys (map cstr vs)) of
                            None \<Rightarrow> Some (0, w2)
                          | Some (txt, del) \<Rightarrow>
                              (case client_persist net e (take 511 (''agent:'' @ agent @ CTX_SUMMARY_SUFFIX)) txt 0 w2 of
                                 (Some err, w3) \<Rightarrow> Some (length del, w3)
                               | (None, w3) \<Rightarrow>
                                   (let w4 = snd (client_persist net e (take 511 (''ctx:summary:'' @ agent)) (show_int now2) 0 w3)
                                    in Some (length del, del_keys net e del w4)))))))"

subsection \<open>Requests\<close>

record 'w ctx_env =
  x_net :: "'w net"
  x_exo :: exo
  x_budget :: "string option"
  x_now :: int
  x_now2 :: int
  x_spec :: string

definition ctx_resp :: "int \<Rightarrow> bytes \<Rightarrow> resp" where
  "ctx_resp st b = \<lparr>p_status = st, p_ctype = Bare, p_body = b\<rparr>"

definition ctx_budget :: "string option \<Rightarrow> nat" where
  "ctx_budget v =
     (case v of None \<Rightarrow> 4000
      | Some s \<Rightarrow> (let n = fst (strtoll s)
                   in if n < 0 \<or> n > int MAX_CONTEXT_BUDGET then MAX_CONTEXT_BUDGET else if n < 256 then 256 else nat n))"

definition ctx_args :: "string \<Rightarrow> string \<Rightarrow> string \<times> nat" where
  "ctx_args qs body =
     (let a1 = (case mod_qp_str qs ''agent'' MAX_AGENT of None \<Rightarrow> [] | Some a \<Rightarrow> a); b1 = mod_qp_str qs ''budget'' 16
      in if a1 = [] \<and> body \<noteq> [] then
           (case mod_qp_str body ''agent'' MAX_AGENT of None \<Rightarrow> [] | Some a \<Rightarrow> a,
            ctx_budget (case mod_qp_str body ''budget'' 16 of None \<Rightarrow> b1 | Some b \<Rightarrow> Some b))
         else (a1, ctx_budget b1))"

definition ctx_dispatch :: "'w ctx_env \<Rightarrow> string \<Rightarrow> string \<Rightarrow> string \<Rightarrow> string \<Rightarrow> 'w \<Rightarrow> (resp \<times> 'w) option" where
  "ctx_dispatch x meth path0 qs body w =
     (let path = mod_strip ''/exoexocontext'' path0
      in if path = ''/ping'' then
           Some (if meth \<noteq> ''GET'' \<and> meth \<noteq> ''HEAD'' then ctx_resp 405 (''error: use GET'' @ [nl]) else ctx_resp 200 (''pong'' @ [nl]), w)
         else if path = ''/'' then Some (ctx_resp 200 (x_spec x), w)
         else if path = ''/context'' then
           (let (agent, budget) = ctx_args qs body
            in if agent = [] then Some (ctx_resp 400 (''error: missing agent'' @ [nl]), w)
               else (case ctx_compress (x_net x) (x_exo x) agent (ctx_storage_budget (x_budget x)) (x_now x) (x_now2 x) w of
                       None \<Rightarrow> None
                     | Some (n, w1) \<Rightarrow>
                         map_option (\<lambda>(out, w2). (ctx_resp 200 out, w2)) (ctx_build (x_net x) (x_exo x) agent budget w1)))
         else Some (ctx_resp 400 (''error: unknown path'' @ [nl]), w))"

text \<open>Reading: until the body the first length header promises is there, the buffer is full or no more comes.\<close>

definition ctx_complete :: "bytes \<Rightarrow> bool" where
  "ctx_complete b =
     (let s = cstr b
      in case find_sub s (crlf @ crlf) of
           None \<Rightarrow> False
         | Some he \<Rightarrow>
             (let cl = (case find_sub s ''Content-Length:'' of None \<Rightarrow> 0 | Some i \<Rightarrow> fst (strtoll (drop (i + 15) s)))
              in 0 \<le> cl \<and> nat cl \<le> length b - (he + 4)))"

function ctx_read :: "bytes list \<Rightarrow> bytes \<Rightarrow> bytes" where
  "ctx_read segs b =
     (if length b \<ge> 65535 then b
      else (case sock_read segs (65535 - length b) of
              None \<Rightarrow> b
            | Some (got, segs') \<Rightarrow>
                if got = [] \<or> ctx_complete (b @ got) then b @ got else ctx_read segs' (b @ got)))"
  by pat_completeness auto
termination by (relation "measure (\<lambda>(segs, b). 65535 - length b)") (auto simp flip: length_greater_0_conv)

declare ctx_read.simps [simp del]

definition scan_word :: "nat \<Rightarrow> string \<Rightarrow> (string \<times> string) option" where
  "scan_word n s =
     (let t = dropWhile isspace s; u = take n (takeWhile (\<lambda>c. \<not> isspace c) t)
      in if u = [] then None else Some (u, drop (length u) t))"

text \<open>Method and target of the request line; \<open>None\<close> closes the connection without an answer.\<close>

definition ctx_line :: "string \<Rightarrow> (string \<times> string) option" where
  "ctx_line s =
     (if nl \<notin> set s then None
      else (let l0 = take 1199 (takeWhile (\<lambda>c. c \<noteq> nl) s); l = (if l0 \<noteq> [] \<and> last l0 = cr then butlast l0 else l0)
            in case scan_word 15 l of
                 None \<Rightarrow> None
               | Some (meth, r1) \<Rightarrow>
                   (case scan_word 1023 r1 of
                      None \<Rightarrow> None
                    | Some (target, r2) \<Rightarrow> map_option (\<lambda>_. (meth, target)) (scan_word 15 r2))))"

text \<open>The first place that reads like the header counts, also in the body.\<close>

definition ctx_auth :: "string option \<Rightarrow> string \<Rightarrow> bool" where
  "ctx_auth token s =
     (case token of
        None \<Rightarrow> True
      | Some t \<Rightarrow>
          (case find_sub s ''Authorization:'' of
             None \<Rightarrow> False
           | Some i \<Rightarrow>
               (case fmt_lit ''Bearer'' (fmt_ws (drop (i + 14) s)) of
                  None \<Rightarrow> False
                | Some r \<Rightarrow> (case scan_word 255 r of None \<Rightarrow> False | Some (u, _) \<Rightarrow> u = t))))"

definition ctx_conn :: "'w ctx_env \<Rightarrow> string option \<Rightarrow> rate option \<Rightarrow> int \<Rightarrow> bytes list \<Rightarrow> 'w
    \<Rightarrow> (resp option \<times> rate option \<times> 'w) option" where
  "ctx_conn x token rt tick segs w =
     (let b = ctx_read segs []; s = cstr b
      in if b = [] then Some (None, rt, w)
         else (case ctx_line s of
                 None \<Rightarrow> Some (None, rt, w)
               | Some (meth, target) \<Rightarrow>
                   if \<not> ctx_auth token s then Some (Some (ctx_resp 401 (''error: unauthorized'' @ [nl])), rt, w)
                   else (let (rt', ok) = (case rt of None \<Rightarrow> (None, True)
                               | Some r \<Rightarrow> (let (r', ok) = rate_take r tick in (Some r', ok)));
                             path = takeWhile (\<lambda>c. c \<noteq> CHR ''?'') target; qs = drop (Suc (length path)) target;
                             body = (case find_sub s (crlf @ crlf) of None \<Rightarrow> [] | Some he \<Rightarrow> drop (he + 4) s)
                         in if \<not> ok then Some (Some (ctx_resp 429 (''error: rate limit exceeded'' @ [nl])), rt', w)
                            else map_option (\<lambda>(rs, w'). (Some rs, rt', w')) (ctx_dispatch x meth path qs body w))))"

definition ctx_status_text :: "int \<Rightarrow> string" where
  "ctx_status_text st =
     (if st = 200 then ''OK'' else if st = 401 then ''Unauthorized'' else if st = 400 then ''Bad Request''
      else if st = 405 then ''Method Not Allowed'' else if st = 503 then ''Service Unavailable'' else ''Error'')"

definition ctx_out :: "resp \<Rightarrow> bytes" where
  "ctx_out r =
     (let b = cstr (p_body r)
      in ''HTTP/1.1 '' @ show_int (p_status r) @ CHR '' '' # ctx_status_text (p_status r) @ crlf @
         ''Content-Type: '' @ ctype_text (p_ctype r) @ crlf @ ''Content-Length: '' @ show_nat (length b) @ crlf @
         ''Connection: close'' @ crlf @ crlf @ b)"

text \<open>\<open>input\<close> is what standard input holds, \<open>None\<close> at a terminal. Exit code and what is printed.\<close>

definition ctx_console :: "'w ctx_env \<Rightarrow> string \<Rightarrow> string \<Rightarrow> bytes option \<Rightarrow> 'w \<Rightarrow> (nat \<times> bytes \<times> 'w) option" where
  "ctx_console x path_arg body_arg input w =
     (let pq = take 511 path_arg; path = takeWhile (\<lambda>c. c \<noteq> CHR ''?'') pq; qs = take 1535 (drop (Suc (length path)) pq);
          body = (if body_arg \<noteq> [] then take 65535 body_arg
                  else if mod_qp_str qs ''agent'' 65536 = None then (case input of None \<Rightarrow> [] | Some s \<Rightarrow> cstr (take 65535 s))
                  else [])
      in if path \<notin> set [''/context'', ''/ping'', ''/''] then Some (2, [], w)
         else map_option (\<lambda>(rs, w'). if p_status rs \<ge> 400 then (1, [], w') else (0, cstr (p_body rs), w'))
                (ctx_dispatch x ''GET'' path qs body w))"

end
