(* ===== verification/Exo_Context_Props.thy ===== *)
theory Exo_Context_Props
  imports Exo_Context
begin

text \<open>
  exocontext: what a compression folds, that decisions survive any number of compressions, and how
  far a digest can exceed its budget.
\<close>

subsection \<open>What is folded\<close>

abbreviation log_size :: "(string \<times> string) list \<Rightarrow> nat" where
  "log_size kvs \<equiv> sum_list (map entry_size kvs)"

lemma fold_oldest_split:
  "t = log_size xs \<Longrightarrow> \<exists>tail. xs = fold_oldest b t xs @ tail \<and> (fold_oldest b t xs \<noteq> [] \<longrightarrow> tail \<noteq> []) \<and>
     (log_size tail \<le> b \<or> length tail \<le> 1) \<and>
     (fold_oldest b t xs \<noteq> [] \<longrightarrow> b < log_size (last (fold_oldest b t xs) # tail))"
proof (induction b t xs rule: fold_oldest.induct)
  case (1 b t x y r)
  show ?case
  proof (cases "t > b")
    case True
    have "t - entry_size x = log_size (y # r)" using 1(2) by simp
    then obtain tail where h: "y # r = fold_oldest b (t - entry_size x) (y # r) @ tail"
        "fold_oldest b (t - entry_size x) (y # r) \<noteq> [] \<longrightarrow> tail \<noteq> []" "log_size tail \<le> b \<or> length tail \<le> 1"
        "fold_oldest b (t - entry_size x) (y # r) \<noteq> [] \<longrightarrow> b < log_size (last (fold_oldest b (t - entry_size x) (y # r)) # tail)"
      using 1(1) [OF True] by blast
    have "tail \<noteq> []" using h(1,2) by (cases "fold_oldest b (t - entry_size x) (y # r)") auto
    moreover have "b < log_size (last (x # fold_oldest b (t - entry_size x) (y # r)) # tail)"
    proof (cases "fold_oldest b (t - entry_size x) (y # r) = []")
      case e: True
      then have "tail = y # r" using h(1) by simp
      then show ?thesis using e True 1(2) by simp
    qed (use h(4) in simp)
    ultimately show ?thesis using True h by (intro exI [of _ tail]) simp
  next
    case False
    then show ?thesis using 1(2) by (intro exI [of _ "x # y # r"]) simp
  qed
qed simp_all

lemma plan_folds:
  assumes "ctx_plan b now sx kvs = Some (txt, del)"
  obtains fs tail where "without sx kvs = fs @ tail" "del = map fst fs" "fs \<noteq> []" "tail \<noteq> []"
    "log_size tail \<le> b \<or> length tail = 1" "b < log_size (last fs # tail)"
    "txt = summary_text (case sx of None \<Rightarrow> 0 | Some i \<Rightarrow> summary_count_of (snd (kvs ! i))) (length fs)
       (fold (\<lambda>(k, v). summary_state_lines v) fs []) (case sx of None \<Rightarrow> [] | Some i \<Rightarrow> summary_lines_of (snd (kvs ! i))) now"
proof -
  let ?l = "without sx kvs"
  define fs where "fs = fold_oldest b (log_size ?l) ?l"
  obtain tail where t: "?l = fs @ tail" "fs \<noteq> [] \<longrightarrow> tail \<noteq> []" "log_size tail \<le> b \<or> length tail \<le> 1"
      "fs \<noteq> [] \<longrightarrow> b < log_size (last fs # tail)"
    using fold_oldest_split [OF refl, of ?l b] unfolding fs_def by blast
  have "fs \<noteq> []" "del = map fst fs" using assms by (auto simp: ctx_plan_def Let_def fs_def split: if_split_asm prod.split_asm)
  moreover have "log_size tail \<le> b \<or> length tail = 1" using t(2,3) calculation(1) by (cases tail) auto
  moreover have "txt = summary_text (case sx of None \<Rightarrow> 0 | Some i \<Rightarrow> summary_count_of (snd (kvs ! i))) (length fs)
       (fold (\<lambda>(k, v). summary_state_lines v) fs []) (case sx of None \<Rightarrow> [] | Some i \<Rightarrow> summary_lines_of (snd (kvs ! i))) now"
    using assms by (cases sx) (auto simp: ctx_plan_def Let_def fs_def split: if_split_asm)
  ultimately show ?thesis using t that by simp
qed

subsection \<open>Lines of a summary\<close>

definition decisions :: "string \<Rightarrow> string set" where
  "decisions v = {l \<in> set (map chop_eol (value_lines v)). state_line l}"

definition carried :: "string option \<Rightarrow> string set" where
  "carried s = (case s of None \<Rightarrow> {} | Some v \<Rightarrow> set (summary_lines_of v))"

definition line_ok :: "string \<Rightarrow> bool" where
  "line_ok l \<longleftrightarrow> l \<noteq> [] \<and> nl \<notin> set l"

lemma add_lines: "set (foldl strlist_add ls xs) = set ls \<union> set xs \<and> (distinct ls \<longrightarrow> distinct (foldl strlist_add ls xs))"
proof (induction xs arbitrary: ls)
  case (Cons x xs)
  show ?case using Cons [of "strlist_add ls x"] by (auto simp: strlist_add_def)
qed simp

lemma state_lines_set:
  "set (summary_state_lines v ls) = set ls \<union> decisions v \<and> (distinct ls \<longrightarrow> distinct (summary_state_lines v ls))"
  using add_lines [of ls] by (auto simp: summary_state_lines_def decisions_def)

lemma folded_lines:
  "set (fold (\<lambda>(k, v). summary_state_lines v) fs ls) = set ls \<union> (\<Union>(k, v) \<in> set fs. decisions v) \<and>
   (distinct ls \<longrightarrow> distinct (fold (\<lambda>(k, v). summary_state_lines v) fs ls))"
proof (induction fs arbitrary: ls)
  case (Cons f fs)
  obtain k v where f: "f = (k, v)" by fastforce
  show ?case using Cons [of "summary_state_lines v ls"] state_lines_set [of v ls] f by auto
qed simp

lemma tokens_ok: "l \<in> set (strtok_all (\<lambda>c. c = nl) s) \<Longrightarrow> line_ok l"
proof (induction "\<lambda>c. c = nl" s rule: strtok_all.induct)
  case (1 s)
  have "strtok_all (\<lambda>c. c = nl) s \<noteq> []" using 1(2) by auto
  then obtain a r where d: "dropWhile (\<lambda>c. c = nl) s = a # r"
    by (subst (asm) strtok_all.simps) (auto split: list.split_asm)
  have a: "a \<noteq> nl" using hd_dropWhile [of "\<lambda>c. c = nl" s] d by simp
  have t: "nl \<notin> set (takeWhile (\<lambda>x. x \<noteq> nl) r)" by (auto dest: set_takeWhileD)
  show ?case
  proof (cases "l = a # takeWhile (\<lambda>x. x \<noteq> nl) r")
    case True
    then show ?thesis using a t by (simp add: line_ok_def)
  next
    case False
    then have "l \<in> set (strtok_all (\<lambda>c. c = nl) (dropWhile (\<lambda>x. x \<noteq> nl) r))"
      using 1(2) d by (subst (asm) strtok_all.simps) simp
    then show ?thesis using 1(1) [OF d] by blast
  qed
qed

lemma chop_eol_sub: "set (chop_eol l) \<subseteq> set l"
proof -
  have "set (dropWhile (\<lambda>c. c = nl \<or> c = cr) (rev l)) \<subseteq> set l" using set_dropWhileD by fastforce
  then show ?thesis by (simp add: chop_eol_def)
qed

lemma state_line_hd: "state_line l \<Longrightarrow> l \<noteq> [] \<and> tolower (hd l) \<in> {CHR ''d'', CHR ''s''}"
proof -
  assume s: "state_line l"
  have w: "map tolower ''decided:'' = ''decided:''" "map tolower ''state:'' = ''state:''" by code_simp+
  obtain c r where l: "l = c # r" using s by (cases l) (auto simp: state_line_def ci_prefix_def)
  then show ?thesis using s w by (auto simp: state_line_def ci_prefix_def)
qed

lemma state_line_no_head: "state_line l \<Longrightarrow> \<not> summary_head l"
proof -
  assume s: "state_line l"
  note h = state_line_hd [OF s]
  have t: "tolower (CHR ''#'') = CHR ''#''" "tolower (CHR ''('') = CHR ''(''" by code_simp+
  have "hd l \<noteq> CHR ''#'' \<and> hd l \<noteq> CHR ''(''" using h t by auto
  then show ?thesis using h by (cases l) (auto simp: summary_head_def)
qed

lemma decisions_ok: "l \<in> decisions v \<Longrightarrow> line_ok l \<and> \<not> summary_head l"
proof -
  assume a: "l \<in> decisions v"
  then obtain u where u: "u \<in> set (value_lines v)" "l = chop_eol u" "state_line l" by (auto simp: decisions_def)
  have "nl \<notin> set l" using tokens_ok u(1,2) chop_eol_sub by (fastforce simp: value_lines_def line_ok_def)
  then show ?thesis using state_line_hd [OF u(3)] state_line_no_head [OF u(3)] by (simp add: line_ok_def)
qed

lemma summary_lines_set: "set (summary_lines_of v) = {l \<in> set (value_lines v). \<not> summary_head l} \<and> distinct (summary_lines_of v)"
  using add_lines [of "[]" "filter (\<lambda>l. \<not> summary_head l) (value_lines v)"] by (auto simp: summary_lines_of_def)

lemma carried_ok: "l \<in> set (summary_lines_of v) \<Longrightarrow> line_ok l \<and> \<not> summary_head l"
  using summary_lines_set tokens_ok by (auto simp: value_lines_def)

subsection \<open>Reading a summary back\<close>

lemma show_int_no_nl: "nl \<notin> set (show_int i)"
  using show_nat_clean [of nl] by (auto simp: show_int_def)

lemma summary_read:
  assumes "\<forall>l \<in> set lines \<union> set old. line_ok l \<and> \<not> summary_head l"
  shows "set (summary_lines_of (summary_text c n lines old now)) = set (take CTX_SUMMARY_MAX_LINES (lines @ old))"
    and "summary_count_of (summary_text c n lines old now) = (c + n) mod 2 ^ 64"
proof -
  define h where "h = ''# summary '' @ show_nat ((c + n) mod 2 ^ 64) @ '' entries (compressed at '' @ show_int now @ '')''"
  define f where "f = ''(+'' @ show_nat n @ '' entries compressed)''"
  let ?xs = "take CTX_SUMMARY_MAX_LINES (lines @ old)"
  have tx: "summary_text c n lines old now = concat (map (\<lambda>l. l @ [nl]) (h # ?xs @ [f]))"
    by (simp add: summary_text_def h_def f_def)
  have sub: "set ?xs \<subseteq> set lines \<union> set old" using set_take_subset by fastforce
  have hf: "line_ok h" "line_ok f" using show_nat_clean show_int_no_nl by (auto simp: h_def f_def line_ok_def)
  have hh: "summary_head h" "summary_head f" by (simp_all add: h_def f_def summary_head_def)
  have "value_lines (summary_text c n lines old now) = h # ?xs @ [f]"
    unfolding tx value_lines_def using assms sub hf by (intro strtok_all_lines) (auto simp: line_ok_def)
  then show "set (summary_lines_of (summary_text c n lines old now)) = set ?xs"
    using summary_lines_set [of "summary_text c n lines old now"] hh assms sub by auto
  have u: "strtoull (CHR '' '' # show_nat m @ CHR '' '' # r) = (m, CHR '' '' # r)" if "m < 2 ^ 64" for m r
  proof -
    have s: "strtoull (show_nat m @ CHR '' '' # r) = (m, CHR '' '' # r)"
      using that by (intro strtoull_show_nat) (simp_all add: ULLONG_MAX_def isdigit_def less_eq_char_def)
    have "show_nat m @ CHR '' '' # r \<noteq> CHR '' '' # show_nat m @ CHR '' '' # r" by (metis list.distinct(1) not_Cons_self2)
    then show ?thesis using s show_nat_no_space [of m "CHR '' '' # r"]
      by (auto simp: strtoull_def Let_def isspace_def split: if_split_asm prod.split_asm)
  qed
  have "\<exists>r. summary_text c n lines old now = CHR ''#'' # CHR '' '' # ''summary'' @ CHR '' '' # show_nat ((c + n) mod 2 ^ 64) @ CHR '' '' # r"
    by (simp add: summary_text_def)
  then obtain r where r: "summary_text c n lines old now = CHR ''#'' # CHR '' '' # ''summary'' @ CHR '' '' # show_nat ((c + n) mod 2 ^ 64) @ CHR '' '' # r"
    by blast
  have lt: "(c + n) mod 2 ^ 64 < 2 ^ 64" by simp
  show "summary_count_of (summary_text c n lines old now) = (c + n) mod 2 ^ 64"
    unfolding r summary_count_of_def using u [OF lt, of r] by (simp add: fmt_lit_def fmt_ws_def isspace_def)
qed

subsection \<open>Any number of compressions\<close>

text \<open>
  A session: entries are written, each under a new key, and compressions run. The state is the live
  log and the summary; \<open>D\<close> are the decisions written so far, \<open>N\<close> is the number of folded entries.
\<close>

inductive ctx_session :: "nat \<Rightarrow> (string \<times> string) list \<Rightarrow> string option \<Rightarrow> string set \<Rightarrow> nat \<Rightarrow> bool" for b where
  session_start: "ctx_session b [] None {} 0"
| session_write: "ctx_session b (xs @ ys) s D N \<Longrightarrow> ctx_session b (xs @ (k, v) # ys) s (D \<union> decisions v) N"
| session_compress: "ctx_session b (without sx kvs) s D N \<Longrightarrow> s = map_option (\<lambda>i. snd (kvs ! i)) sx \<Longrightarrow>
    ctx_plan b now sx kvs = Some (t, del) \<Longrightarrow>
    ctx_session b (drop (length del) (without sx kvs)) (Some t) D (N + length del)"

definition log_decisions :: "(string \<times> string) list \<Rightarrow> string set" where
  "log_decisions kvs = (\<Union>(k, v) \<in> set kvs. decisions v)"

lemma log_decisions_simps [simp]:
  "log_decisions [] = {}" "log_decisions (kv # kvs) = decisions (snd kv) \<union> log_decisions kvs"
  "log_decisions (xs @ ys) = log_decisions xs \<union> log_decisions ys"
  by (auto simp: log_decisions_def case_prod_unfold)

definition summary_count :: "string option \<Rightarrow> nat" where
  "summary_count s = (case s of None \<Rightarrow> 0 | Some v \<Rightarrow> summary_count_of v)"

lemma finite_decisions: "finite (decisions v)"
  by (simp add: decisions_def)

lemma session_finite: "ctx_session b xs s D N \<Longrightarrow> finite D"
  by (induction rule: ctx_session.induct) (auto simp: finite_decisions)

lemma carried_after:
  assumes plan: "ctx_plan b now sx kvs = Some (t, del)" and s: "s = map_option (\<lambda>i. snd (kvs ! i)) sx"
    and sub: "log_decisions (without sx kvs) \<subseteq> D" "carried s \<subseteq> D" and few: "finite D" "card D \<le> 32"
  shows "carried (Some t) = log_decisions (take (length del) (without sx kvs)) \<union> carried s \<and>
    summary_count (Some t) = (summary_count s + length del) mod 2 ^ 64"
proof -
  obtain fs tail where p: "without sx kvs = fs @ tail" "del = map fst fs"
    "t = summary_text (case sx of None \<Rightarrow> 0 | Some i \<Rightarrow> summary_count_of (snd (kvs ! i))) (length fs)
       (fold (\<lambda>(k, v). summary_state_lines v) fs []) (case sx of None \<Rightarrow> [] | Some i \<Rightarrow> summary_lines_of (snd (kvs ! i))) now"
    using plan by (rule plan_folds)
  define ls where "ls = fold (\<lambda>(k, v). summary_state_lines v) fs []"
  define old where "old = (case sx of None \<Rightarrow> [] | Some i \<Rightarrow> summary_lines_of (snd (kvs ! i)))"
  have l: "set ls = log_decisions fs" "distinct ls" using folded_lines [of fs "[]"] by (auto simp: ls_def log_decisions_def)
  have o1: "set old = carried s" "distinct old" using summary_lines_set by (auto simp: old_def s carried_def split: option.split)
  have "line_ok x \<and> \<not> summary_head x" if "x \<in> set ls" for x
    using that decisions_ok unfolding l(1) log_decisions_def by auto
  moreover have "line_ok x \<and> \<not> summary_head x" if "x \<in> set old" for x
    using that carried_ok unfolding old_def by (cases sx) auto
  ultimately have ok: "\<forall>l \<in> set ls \<union> set old. line_ok l \<and> \<not> summary_head l" by blast
  have "set ls \<subseteq> D" "set old \<subseteq> D" using l(1) o1(1) sub p(1) by auto
  then have "card (set ls) \<le> card D" "card (set old) \<le> card D" using card_mono [OF few(1)] by simp_all
  then have "length (ls @ old) \<le> CTX_SUMMARY_MAX_LINES"
    using distinct_card [OF l(2)] distinct_card [OF o1(2)] few(2) by (simp add: CTX_SUMMARY_MAX_LINES_def)
  then have tk: "take CTX_SUMMARY_MAX_LINES (ls @ old) = ls @ old" by simp
  have "take (length del) (without sx kvs) = fs" using p(1,2) by simp
  moreover have "(case sx of None \<Rightarrow> 0 | Some i \<Rightarrow> summary_count_of (snd (kvs ! i))) = summary_count s"
    by (simp add: s summary_count_def split: option.split)
  ultimately show ?thesis
    using summary_read [OF ok] l(1) o1(1) p(2,3) unfolding tk ls_def [symmetric] old_def [symmetric]
    by (simp add: carried_def summary_count_def)
qed

lemma session_keeps_decisions:
  "ctx_session b xs s D N \<Longrightarrow> card D \<le> 32 \<Longrightarrow>
   log_decisions xs \<union> carried s = D \<and> summary_count s = N mod 2 ^ 64"
proof (induction rule: ctx_session.induct)
  case (session_write xs ys s D N k v)
  have "finite (D \<union> decisions v)" using session_finite [OF session_write(1)] finite_decisions by simp
  then have "card D \<le> 32" using session_write(3) card_mono [of "D \<union> decisions v" D] by simp
  then have "log_decisions (xs @ ys) \<union> carried s = D \<and> summary_count s = N mod 2 ^ 64" by (rule session_write(2))
  then show ?case by auto
next
  case (session_compress sx kvs s D N now t del)
  have h: "log_decisions (without sx kvs) \<union> carried s = D" "summary_count s = N mod 2 ^ 64"
    using session_compress(4) [OF session_compress(5)] by blast+
  have "log_decisions (without sx kvs) \<subseteq> D" "carried s \<subseteq> D" using h(1) by auto
  note c = carried_after [OF session_compress(3,2) this session_finite [OF session_compress(1)] session_compress(5)]
  have "log_decisions (without sx kvs) = log_decisions (take (length del) (without sx kvs)) \<union> log_decisions (drop (length del) (without sx kvs))"
    by (metis append_take_drop_id log_decisions_simps(3))
  then show ?case using c h by (auto simp: mod_simps)
qed (simp_all add: carried_def summary_count_def)

subsection \<open>The size of a digest\<close>

lemma put_lines_size: "\<forall>l \<in> set ls. length l \<le> m \<Longrightarrow> length (put_lines b ls out) \<le> max (length out) (b + m)"
  by (induction b ls out rule: put_lines.induct) fastforce+

lemma put_notes_size: "\<forall>l \<in> set ls. length l \<le> m \<Longrightarrow> length (snd (put_notes b ls st)) \<le> max (length (snd st)) (b + m)"
  by (induction b ls st rule: put_notes.induct) (auto simp: Let_def split: prod.splits)

lemma put_state_size:
  "\<forall>(k, v) \<in> set kvs. length k \<le> m \<Longrightarrow> length (snd (put_state b kvs st)) \<le> max (length (snd st)) (b + m + 401)"
  by (induction b kvs st rule: put_state.induct) (auto simp: Let_def state_row_def split: prod.splits)

text \<open>The prefix of an agent whose name is percent-encoded is longer than its keys.\<close>

lemma encoded_agent_reads_past_its_keys:
  "summary_at (length (ctx_prefix ''a%3Ab'')) [''agent:a:b:x''] = None"
  by code_simp

end
