(* ===== verification/Exo_Crawl_Html.thy ===== *)
theory Exo_Crawl_Html
  imports Exo_Context
begin

text \<open>
  exocrawl's reduction of HTML to text: entities and URLs (\<open>exocrawl/src/util.c\<close>) and the extractor
  (\<open>exocrawl/src/html.c\<close>). The document is a byte string with a terminator behind it; \<open>strstr\<close> and
  \<open>strchr\<close> stop at a byte 0 before that.
\<close>

subsection \<open>Entities\<close>

definition hex_val :: "char \<Rightarrow> int" where
  "hex_val c = (if isdigit c then of_char c - 48 else of_char (tolower c) - 97 + 10)"

text \<open>The digits up to the semicolon; the value and how many characters were taken.\<close>

fun entity_num :: "bool \<Rightarrow> int \<Rightarrow> nat \<Rightarrow> bytes \<Rightarrow> (int \<times> nat) option" where
  "entity_num hex v k [] = None"
| "entity_num hex v k (c # r) =
     (if c = CHR '';'' then Some (v, k)
      else (let d = (if hex then hex_val c else of_char c - 48); v' = v * (if hex then 16 else 10) + d
            in if \<not> hex \<and> \<not> isdigit c then None
               else if d < 0 \<or> d \<ge> (if hex then 16 else 10) then None
               else if v' > 0x10FFFF then None else entity_num hex v' (Suc k) r))"

definition entity_names :: "(string \<times> nat) list" where
  "entity_names = [(''amp;'', 38), (''lt;'', 60), (''gt;'', 62), (''quot;'', 34), (''apos;'', 39), (''nbsp;'', 32),
     (''copy;'', 0xC2), (''reg;'', 0xC2), (''hellip;'', 0xE2), (''mdash;'', 0xE2), (''ndash;'', 0xE2),
     (''lsquo;'', 0xE2), (''rsquo;'', 0xE2), (''ldquo;'', 0xE2), (''rdquo;'', 0xE2), (''bull;'', 0xE2), (''middot;'', 0xC2),
     (''sect;'', 0xC2), (''para;'', 0xC2), (''laquo;'', 0xC2), (''raquo;'', 0xC2), (''deg;'', 0xC2), (''plusmn;'', 0xC2),
     (''frac12;'', 0xC2), (''frac14;'', 0xC2), (''frac34;'', 0xC2), (''times;'', 0xC2), (''divide;'', 0xC2), (''eacute;'', 0xC3),
     (''egrave;'', 0xC3), (''ecirc;'', 0xC3), (''euml;'', 0xC3), (''agrave;'', 0xC3), (''aacute;'', 0xC3), (''acirc;'', 0xC3),
     (''ccedil;'', 0xC3), (''igrave;'', 0xC3), (''iacute;'', 0xC3), (''ocirc;'', 0xC3), (''ouml;'', 0xC3), (''ugrave;'', 0xC3),
     (''uacute;'', 0xC3), (''ntilde;'', 0xC3), (''szlig;'', 0xC3)]"

text \<open>The bytes are chosen by the first or the second letter of the name.\<close>

definition entity_text :: "string \<Rightarrow> nat \<Rightarrow> bytes" where
  "entity_text nm ch =
     (let a = nm ! 0; b = nm ! 1
      in if ch = 0xC2 then
           [CHR 0xC2, char_of (0x80 + (if a = CHR ''c'' then 0x29 else if a = CHR ''n'' then 0x20 else if a = CHR ''m'' then 0x37
             else if a = CHR ''s'' then 0x27 else if a = CHR ''p'' then 0x31 else if a = CHR ''d'' then 0x30 else 0x26 :: nat))]
         else if ch = 0xC3 then
           [CHR 0xC3, char_of (0x80 + (if b = CHR ''a'' then 0x20 else if b = CHR ''e'' then 0x29 else if b = CHR ''i'' then 0x29
             else if b = CHR ''o'' then 0x34 else if b = CHR ''u'' then 0x39 else if b = CHR ''c'' then 0x27 else 0x1F :: nat))]
         else if ch = 0xE2 then
           [CHR 0xE2, CHR 0x80, char_of (if a = CHR ''m'' then 0x94 else if a = CHR ''n'' then 0x93 else if a = CHR ''l'' then 0x98
             else if a = CHR ''r'' then 0x99 else if a = CHR ''b'' then 0xA2 else if a = CHR ''h'' then 0xA6 else 0x9C :: nat)]
         else [if a = CHR ''a'' then CHR ''&'' else if a = CHR ''l'' then CHR ''<'' else if a = CHR ''g'' then CHR ''>''
               else if a = CHR ''q'' then quot else CHR 0x27])"

text \<open>The text of the entity at the start, as the C string the code copies, and its length in the source.\<close>

definition entity_one :: "bytes \<Rightarrow> (bytes \<times> nat) option" where
  "entity_one s =
     (if length s < 3 \<or> hd s \<noteq> CHR ''&'' then None
      else if s ! 1 = CHR ''#'' then
        (let hex = s ! 2 = CHR ''x'' \<or> s ! 2 = CHR ''X''; st = (if hex then 3 else 2)
         in case entity_num hex 0 st (drop st s) of
              None \<Rightarrow> None
            | Some (v, k) \<Rightarrow> if k = st then None else Some (cstr (utf8_encode (word_of_int v)), Suc k))
      else map_option (\<lambda>(nm, ch). (entity_text nm ch, Suc (length nm)))
             (find (\<lambda>(nm, ch). take (length nm) (tl s) = nm) entity_names))"

lemma entity_one_length: "entity_one s = Some (t, k) \<Longrightarrow> 0 < k"
  by (auto simp: entity_one_def Let_def split: if_split_asm option.split_asm prod.split_asm)

function entity_loop :: "nat \<Rightarrow> bytes \<Rightarrow> bytes \<Rightarrow> bytes" where
  "entity_loop cap [] out = out"
| "entity_loop cap (c # r) out =
     (if length out + 8 \<ge> cap then out
      else (case (if c = CHR ''&'' then entity_one (c # r) else None) of
              Some (t, k) \<Rightarrow> if length out + length t \<ge> cap then out else entity_loop cap (drop k (c # r)) (out @ t)
            | None \<Rightarrow> entity_loop cap r (out @ [c])))"
  by pat_completeness auto
termination by (relation "measure (\<lambda>(cap, s, out). length s)") (auto dest: entity_one_length split: if_split_asm)

definition html_entity_decode :: "bytes \<Rightarrow> nat \<Rightarrow> bytes" where
  "html_entity_decode s cap = entity_loop cap s []"

subsection \<open>URLs\<close>

definition after_scheme :: "string \<Rightarrow> string option" where
  "after_scheme url = map_option (\<lambda>i. drop (i + 3) url) (find_sub url ''://'')"

definition url_host :: "string \<Rightarrow> nat \<Rightarrow> string option" where
  "url_host url cap =
     map_option (\<lambda>p. take (cap - 1) (takeWhile (\<lambda>c. c \<notin> {CHR ''/'', CHR '':'', CHR ''?'', CHR ''#''}) p)) (after_scheme url)"

text \<open>When the query starts before the first slash, that slash counts; without a slash the host does.\<close>

definition url_path :: "string \<Rightarrow> nat \<Rightarrow> string option" where
  "url_path url cap =
     map_option (\<lambda>p.
       let sl = dropWhile (\<lambda>c. c \<noteq> CHR ''/'') p; q = dropWhile (\<lambda>c. c \<noteq> CHR ''?'') p;
           e = (if sl \<noteq> [] then sl else if q \<noteq> [] then p else [])
       in if e = [] then ''/'' else take (cap - 1) e) (after_scheme url)"

definition url_is_http :: "string \<Rightarrow> bool" where
  "url_is_http url \<longleftrightarrow> take 7 url = ''http://'' \<or> take 8 url = ''https://''"

subsection \<open>Tags\<close>

definition SKIP_TAGS :: "string list" where
  "SKIP_TAGS = [''script'', ''style'', ''noscript'', ''template'', ''svg'', ''head'', ''iframe'', ''form'', ''nav'', ''footer'',
     ''aside'', ''select'', ''option'', ''button'', ''canvas'', ''video'', ''audio'', ''dialog'']"

definition BLOCK_TAGS :: "string list" where
  "BLOCK_TAGS = [''p'', ''div'', ''section'', ''article'', ''main'', ''h1'', ''h2'', ''h3'', ''h4'', ''h5'', ''h6'', ''li'', ''pre'',
     ''blockquote'', ''br'', ''tr'', ''table'', ''ul'', ''ol'', ''header'', ''hr'', ''figure'']"

definition HEADING_TAGS :: "string list" where
  "HEADING_TAGS = [''h1'', ''h2'', ''h3'', ''h4'', ''h5'', ''h6'']"

definition INLINE_TAGS :: "string list" where
  "INLINE_TAGS = [''b'', ''i'', ''em'', ''strong'', ''span'', ''a'', ''u'', ''s'', ''del'', ''ins'', ''small'', ''sub'', ''sup'', ''mark'',
     ''code'', ''abbr'', ''cite'', ''q'', ''label'', ''button'', ''font'', ''kbd'', ''samp'', ''var'']"

definition BOILER_ATTR :: "string list" where
  "BOILER_ATTR = [''nav'', ''menu'', ''sidebar'', ''footer'', ''header'', ''ads'', ''advert'', ''sponsor'', ''cookie'', ''banner'',
     ''popup'', ''modal'', ''overlay'', ''comment'', ''share'', ''social'', ''related'', ''recommend'', ''subscribe'', ''newsletter'',
     ''promo'', ''breadcrumb'', ''pagination'', ''toolbar'', ''widget'']"

definition ci_eq :: "string \<Rightarrow> string \<Rightarrow> bool" where
  "ci_eq a b \<longleftrightarrow> map tolower a = map tolower b"

definition in_tags :: "string \<Rightarrow> string list \<Rightarrow> bool" where
  "in_tags tag ls \<longleftrightarrow> list_ex (ci_eq tag) ls"

definition attr_has_boiler :: "string \<Rightarrow> bool" where
  "attr_has_boiler a \<longleftrightarrow> list_ex (has_sub a) BOILER_ATTR"

record attrs =
  at_class :: string
  at_id :: string
  at_href :: string
  at_src :: string
  at_alt :: string

definition no_attrs :: attrs where
  "no_attrs = \<lparr>at_class = [], at_id = [], at_href = [], at_src = [], at_alt = []\<rparr>"

definition put_attr :: "bytes \<Rightarrow> bytes \<Rightarrow> attrs \<Rightarrow> attrs" where
  "put_attr nm v a =
     (if ci_eq nm ''class'' then a\<lparr>at_class := cstr (take 511 v)\<rparr>
      else if ci_eq nm ''id'' then a\<lparr>at_id := cstr (take 511 v)\<rparr>
      else if ci_eq nm ''href'' then a\<lparr>at_href := cstr (take 2047 v)\<rparr>
      else if ci_eq nm ''src'' then a\<lparr>at_src := cstr (take 2047 v)\<rparr>
      else if ci_eq nm ''alt'' then a\<lparr>at_alt := cstr (take 511 v)\<rparr>
      else a)"

definition name_char_tag :: "char \<Rightarrow> bool" where
  "name_char_tag c \<longleftrightarrow> isalnum c \<or> c = CHR ''-''"

text \<open>One attribute: what follows it, and its name and value when it has one.\<close>

definition attr_value :: "bytes \<Rightarrow> bytes \<times> bytes" where
  "attr_value r =
     (if r \<noteq> [] \<and> (hd r = quot \<or> hd r = CHR 0x27) then
        (let v = takeWhile (\<lambda>c. c \<noteq> hd r) (tl r) in (v, drop (Suc (length v)) (tl r)))
      else (let v = takeWhile (\<lambda>c. c \<noteq> CHR '' '' \<and> c \<noteq> CHR ''>'') r in (v, drop (length v) r)))"

definition attr_step :: "bytes \<Rightarrow> attrs \<Rightarrow> bytes \<times> attrs" where
  "attr_step s a =
     (let nm = takeWhile (\<lambda>c. c \<noteq> CHR ''='' \<and> c \<noteq> CHR '' '' \<and> c \<noteq> CHR ''>'') s; r = drop (length nm) s
      in if r \<noteq> [] \<and> hd r = CHR ''='' then
           (let (v, r2) = attr_value (tl r) in (dropWhile isspace r2, put_attr nm v a))
         else (dropWhile isspace r, a))"

lemma attr_value_length: "attr_value r = (v, r2) \<Longrightarrow> length r2 \<le> length r"
  by (auto simp: attr_value_def Let_def split: if_split_asm)

lemma attr_step_length:
  assumes "s \<noteq> []" "hd s \<noteq> CHR ''>''" "attr_step s a = (r, b)" shows "length r < length s"
proof -
  define nm where "nm = takeWhile (\<lambda>c. c \<noteq> CHR ''='' \<and> c \<noteq> CHR '' '' \<and> c \<noteq> CHR ''>'') s"
  have d: "length (dropWhile isspace x) \<le> length x" for x by (rule length_dropWhile_le)
  show ?thesis
  proof (cases "drop (length nm) s \<noteq> [] \<and> hd (drop (length nm) s) = CHR ''=''")
    case True
    obtain v r2 where v: "attr_value (tl (drop (length nm) s)) = (v, r2)" by fastforce
    have "r = dropWhile isspace r2" using assms(3) True v by (simp add: attr_step_def Let_def nm_def [symmetric])
    moreover have "length (tl (drop (length nm) s)) < length s" using True by (cases s) auto
    ultimately show ?thesis using attr_value_length [OF v] d [of r2] by simp
  next
    case False
    then have r: "r = dropWhile isspace (drop (length nm) s)" using assms(3) by (auto simp: attr_step_def Let_def nm_def [symmetric])
    show ?thesis
    proof (cases nm)
      case Nil
      then have "hd s = CHR ''='' \<or> hd s = CHR '' ''" using assms(1,2) by (cases s) (auto simp: nm_def split: if_split_asm)
      then have "hd s = CHR '' ''" using False Nil assms(1) by simp
      then obtain t where "s = CHR '' '' # t" using assms(1) by (cases s) auto
      then show ?thesis using r Nil d [of t] by (simp add: isspace_def)
    next
      case (Cons x l)
      then have "length (drop (length nm) s) < length s" using assms(1) by (cases s) auto
      then show ?thesis using r d [of "drop (length nm) s"] by simp
    qed
  qed
qed

function attr_loop :: "bytes \<Rightarrow> attrs \<Rightarrow> attrs" where
  "attr_loop s a =
     (if s = [] \<or> hd s = CHR ''>'' then a else (case attr_step s a of (r, b) \<Rightarrow> attr_loop r b))"
  by pat_completeness auto
termination
proof (relation "measure (\<lambda>(s, a). length s)", goal_cases)
  case (2 s a r b)
  note st = 2(2) [symmetric]
  show ?case using 2 attr_step_length [OF _ _ st] by (simp add: st)
qed simp

declare attr_loop.simps [simp del]

text \<open>\<open>s\<close> starts with the angle bracket.\<close>

definition tag_attrs :: "bytes \<Rightarrow> attrs" where
  "tag_attrs s =
     (let q = tl s; q1 = (if q \<noteq> [] \<and> hd q = CHR ''/'' then tl q else q) in attr_loop (dropWhile name_char_tag q1) no_attrs)"

definition last_slash :: "string \<Rightarrow> nat option" where
  "last_slash s = (if CHR ''/'' \<in> set s then Some (length s - Suc (length (takeWhile (\<lambda>c. c \<noteq> CHR ''/'') (rev s)))) else None)"

definition resolve_url :: "string \<Rightarrow> string \<Rightarrow> nat \<Rightarrow> string" where
  "resolve_url base href cap =
     (if href = [] then []
      else if has_sub href ''://'' then take (cap - 1) href
      else if hd href = CHR ''/'' then
        (case find_sub base ''://'' of
           None \<Rightarrow> take (cap - 1) href
         | Some i \<Rightarrow>
             (let b = take (cap - 1) (take (i + 3) base @ takeWhile (\<lambda>c. c \<noteq> CHR ''/'') (drop (i + 3) base))
              in b @ take (cap - length b - 1) href))
      else (case last_slash (takeWhile (\<lambda>c. c \<noteq> CHR ''?'') base) of
              None \<Rightarrow> take (cap - 1) (base @ CHR ''/'' # href)
            | Some i \<Rightarrow> (let b = take (cap - 1) (take (Suc i) base) in b @ take (cap - length b - 1) href)))"

subsection \<open>The extractor\<close>

record page_rec =
  pg_title :: "string option"
  pg_text :: bytes
  pg_links :: "string list"
  pg_images :: "string list"

text \<open>
  The text so far, the flags of the sink, the open link and its text: the C string in the buffer and
  how much of it counts. Resetting the length leaves the string.
\<close>

record walker =
  k_out :: bytes
  k_pre :: bool
  k_head :: int
  k_li :: bool
  k_skip :: bool
  k_depth :: nat
  k_link :: string
  k_ltext :: string
  k_llen :: nat
  k_page :: page_rec

definition sink_text :: "nat \<Rightarrow> bytes \<Rightarrow> bytes \<Rightarrow> bytes" where
  "sink_text m t out =
     out @ map (\<lambda>c. if c = nl \<or> c = cr \<or> c = tab then CHR '' '' else c) (take (m - length out) t)"

definition sink_newline :: "nat \<Rightarrow> bytes \<Rightarrow> bytes" where
  "sink_newline m out = (if out \<noteq> [] \<and> last out \<noteq> nl \<and> length out < m then out @ [nl] else out)"

definition inline_separate :: "nat \<Rightarrow> walker \<Rightarrow> walker" where
  "inline_separate m k =
     (let out = k_out k
      in if \<not> k_pre k \<and> out \<noteq> [] \<and> last out \<noteq> CHR '' '' \<and> last out \<noteq> nl \<and> length out < m then k\<lparr>k_out := out @ [CHR '' '']\<rparr>
         else k)"

text \<open>A run of text is decoded into 1024 bytes, whatever its length.\<close>

definition walk_text :: "nat \<Rightarrow> bytes \<Rightarrow> walker \<Rightarrow> walker" where
  "walk_text m t k =
     (if k_skip k then k
      else (let dec = html_entity_decode t 1024;
                k1 = (if k_link k \<noteq> [] \<and> k_llen k + length dec + 1 < 4096 then
                        (let sep = (if k_llen k > 0 then '' '' else []); new = sep @ cstr dec; out = k_out k;
                             out1 = (if k_llen k = 0 \<and> out \<noteq> [] \<and> last out \<noteq> CHR '' '' \<and> length out < m then out @ [CHR '' ''] else out)
                         in k\<lparr>k_ltext := take (k_llen k) (k_ltext k) @ new, k_llen := k_llen k + length new, k_out := out1\<rparr>)
                      else k)
            in k1\<lparr>k_out := sink_text m dec (k_out k1)\<rparr>))"

definition close_tag :: "nat \<Rightarrow> string \<Rightarrow> walker \<Rightarrow> walker" where
  "close_tag m tag k0 =
     (let k = (if in_tags tag INLINE_TAGS then inline_separate m k0 else k0);
          k1 = (if k_skip k \<and> k_depth k > 0 then k\<lparr>k_depth := k_depth k - 1\<rparr> else k);
          k2 = (if k_depth k1 = 0 \<and> k_skip k1 then k1\<lparr>k_skip := False\<rparr> else k1);
          k3 = (if ci_eq tag ''pre'' \<or> ci_eq tag ''code'' then k2\<lparr>k_pre := False\<rparr> else k2)
      in if ci_eq tag ''a'' \<and> k_link k3 \<noteq> [] then
           (let p = k_page k3; line = take 8191 (k_ltext k3 @ tab # k_link k3)
            in k3\<lparr>k_page := (if length (pg_links p) < 200 then p\<lparr>pg_links := pg_links p @ [line]\<rparr> else p), k_link := [], k_llen := 0\<rparr>)
         else k3)"

text \<open>The title: up to the closing tag, or to seven characters before the end.\<close>

fun title_end :: "bytes \<Rightarrow> bytes" where
  "title_end [] = []"
| "title_end (c # r) = (if length r \<ge> 7 \<and> map tolower (take 7 (c # r)) \<noteq> ''</title'' then c # title_end r else [])"

definition page_title :: "bytes \<Rightarrow> string" where
  "page_title q = cstr (html_entity_decode (title_end (drop 1 (dropWhile (\<lambda>c. c \<noteq> CHR ''>'') q))) 1024)"

definition link_ok :: "string \<Rightarrow> bool" where
  "link_ok h \<longleftrightarrow> h \<noteq> [] \<and> hd h \<noteq> CHR ''#'' \<and> \<not> has_sub h ''javascript:'' \<and> \<not> has_sub h ''mailto:''"

definition open_tag :: "nat \<Rightarrow> string \<Rightarrow> string \<Rightarrow> bytes \<Rightarrow> bytes \<Rightarrow> walker \<Rightarrow> walker" where
  "open_tag m base tag s q k =
     (let a = tag_attrs s; skip_tag = in_tags tag SKIP_TAGS
      in if skip_tag \<or> attr_has_boiler (at_class a) \<or> attr_has_boiler (at_id a) then
           k\<lparr>k_depth := Suc (if k_skip k then k_depth k else 0), k_skip := True\<rparr>
         else
           (let k1 = (if ci_eq tag ''a'' \<and> link_ok (at_href a) then k\<lparr>k_link := resolve_url base (at_href a) 4096, k_llen := 0\<rparr> else k);
                p = k_page k1;
                k2 = (if ci_eq tag ''img'' \<and> at_src a \<noteq> [] \<and> length (pg_images p) < 100 then
                        k1\<lparr>k_page := p\<lparr>pg_images := pg_images p @ [take 4607 (at_alt a @ tab # resolve_url base (at_src a) 4096)]\<rparr>\<rparr> else k1)
            in if ci_eq tag ''title'' then k2\<lparr>k_page := (k_page k2)\<lparr>pg_title := Some (page_title q)\<rparr>\<rparr>
               else
                 (let k3 = (if ci_eq tag ''pre'' \<or> ci_eq tag ''code'' then k2\<lparr>k_pre := True\<rparr> else k2);
                      k4 = (if in_tags tag INLINE_TAGS then inline_separate m k3 else k3)
                  in if in_tags tag HEADING_TAGS then k4\<lparr>k_head := of_char (tag ! 1) - 48\<rparr>
                     else if ci_eq tag ''li'' then k4\<lparr>k_li := True\<rparr>
                     else if in_tags tag BLOCK_TAGS \<and> \<not> k_pre k4 then k4\<lparr>k_out := sink_newline m (k_out k4)\<rparr>
                     else k4)))"

definition walk_tag :: "nat \<Rightarrow> string \<Rightarrow> bytes \<Rightarrow> walker \<Rightarrow> walker" where
  "walk_tag m base s k =
     (let q0 = tl s; closing = q0 \<noteq> [] \<and> hd q0 = CHR ''/''; q = (if closing then tl q0 else q0);
          nm = takeWhile name_char_tag q; tag = take 16 nm
      in if nm = [] then k else if closing then close_tag m tag k else open_tag m base tag s (drop (length nm) q) k)"

definition trim_left :: "bytes \<Rightarrow> nat" where
  "trim_left t = length (takeWhile isspace t)"

definition trimmed :: "bytes \<Rightarrow> bytes" where
  "trimmed t = rev (dropWhile isspace (rev (dropWhile isspace t)))"

text \<open>A heading: number signs while there is room, a blank, the text.\<close>

definition put_heading :: "nat \<Rightarrow> int \<Rightarrow> bytes \<Rightarrow> walker \<Rightarrow> walker" where
  "put_heading m lvl t k =
     (let o1 = sink_newline m (k_out k); o2 = o1 @ replicate (min (nat lvl) (m - 2 - length o1)) (CHR ''#'') @ '' '';
          k1 = walk_text m t (k\<lparr>k_out := o2\<rparr>)
      in k1\<lparr>k_out := sink_newline m (k_out k1)\<rparr>)"

definition put_item :: "nat \<Rightarrow> bytes \<Rightarrow> walker \<Rightarrow> walker" where
  "put_item m t k =
     (let o1 = sink_newline m (k_out k); o2 = (if length o1 + 3 < m then o1 @ ''- '' else o1); k1 = walk_text m t (k\<lparr>k_out := o2\<rparr>)
      in k1\<lparr>k_out := sink_newline m (k_out k1)\<rparr>)"

text \<open>A run of text, what is left of it, and the state.\<close>

definition walk_run :: "nat \<Rightarrow> bytes \<Rightarrow> walker \<Rightarrow> nat \<times> walker" where
  "walk_run m t k =
     (let x = trimmed t; used = trim_left t + length x
      in if k_skip k then (length t, k)
         else if k_head k \<noteq> 0 \<and> x \<noteq> [] then (used, put_heading m (k_head k) x (k\<lparr>k_head := 0\<rparr>))
         else (let k1 = k\<lparr>k_head := 0\<rparr>
               in if k_li k1 \<and> x \<noteq> [] then (used, put_item m x (k1\<lparr>k_li := False\<rparr>))
                  else (let k2 = k1\<lparr>k_li := False\<rparr> in (length t, if x \<noteq> [] then walk_text m x k2 else k2))))"

lemma walk_run_used: "t \<noteq> [] \<Longrightarrow> 0 < fst (walk_run m t k)"
  by (auto simp: walk_run_def Let_def)

text \<open>The end of a comment or a tag: what follows, \<open>None\<close> when there is none.\<close>

definition after_text :: "string \<Rightarrow> bytes \<Rightarrow> bytes option" where
  "after_text pat s = map_option (\<lambda>i. drop (i + length pat) s) (find_sub (cstr s) pat)"

lemma after_text_length: "after_text pat s = Some r \<Longrightarrow> length r \<le> length s"
  by (auto simp: after_text_def)

lemma after_text_shorter: "after_text [c] (a # s) = Some r \<Longrightarrow> length r < length (a # s)"
  by (auto simp: after_text_def)

function walk :: "nat \<Rightarrow> string \<Rightarrow> bytes \<Rightarrow> walker \<Rightarrow> walker" where
  "walk m base [] k = k"
| "walk m base (c # r) k =
     (if length (k_out k) \<ge> m then k
      else if c = CHR ''<'' then
        (if take 4 (c # r) = ''<!--'' then
           (case after_text ''-->'' (drop 4 (c # r)) of None \<Rightarrow> k | Some s \<Rightarrow> walk m base s k)
         else if r \<noteq> [] \<and> (hd r = CHR ''!'' \<or> hd r = CHR ''?'') then
           (case after_text ''>'' (c # r) of None \<Rightarrow> k | Some s \<Rightarrow> walk m base s k)
         else (case after_text ''>'' (c # r) of None \<Rightarrow> walk_tag m base (c # r) k | Some s \<Rightarrow> walk m base s (walk_tag m base (c # r) k)))
      else (let (n, k') = walk_run m (takeWhile (\<lambda>x. x \<noteq> CHR ''<'') (c # r)) k in walk m base (drop n (c # r)) k'))"
  by pat_completeness auto
termination
proof (relation "measure (\<lambda>(m, base, s, k). length s)", goal_cases)
  case (2 m base c r k s)
  then have "length s \<le> length (drop 4 (c # r))" using after_text_length by blast
  then show ?case by simp
next
  case (5 m base c r k x n k')
  have "0 < fst (walk_run m (takeWhile (\<lambda>x. x \<noteq> CHR ''<'') (c # r)) k)" using 5(2) by (intro walk_run_used) simp
  then have "0 < n" using 5(3,4) by (metis fst_conv)
  then show ?case by simp
qed (auto dest: after_text_shorter)

declare walk.simps [simp del]

definition sink_flush :: "bytes \<Rightarrow> bytes" where
  "sink_flush out = rev (dropWhile (\<lambda>c. c = nl \<or> c = CHR '' '' \<or> c = tab) (rev out))"

definition page_extract :: "bytes \<Rightarrow> string \<Rightarrow> nat \<Rightarrow> page_rec" where
  "page_extract html base mx =
     (let m = (if mx = 0 then 8192 else mx);
          k = walk m base html \<lparr>k_out = [], k_pre = False, k_head = 0, k_li = False, k_skip = False, k_depth = 0, k_link = [],
                k_ltext = [], k_llen = 0, k_page = \<lparr>pg_title = None, pg_text = [], pg_links = [], pg_images = []\<rparr>\<rparr>
      in (k_page k)\<lparr>pg_text := sink_flush (k_out k)\<rparr>)"

end
