(* ===== verification/Exo_Crawl_Search.thy ===== *)
theory Exo_Crawl_Search
  imports Exo_Crawl_Html
begin

text \<open>
  exocrawl's adapters (\<open>exocrawl/src/search.c\<close>): the results in a page of DuckDuckGo, Mojeek, Marginalia,
  Bing or Wikipedia. A page is a C string and pointers into it are offsets; a pointer that is NULL makes the
  length of a tag or a title wrap to a number no buffer has. The loops over a page are
  \<open>partial_function (option)\<close>; that they end is \<open>parse_returns\<close>.
\<close>

record hit =
  h_title :: string
  h_url :: string
  h_snip :: string

fun strip_html :: "bool \<Rightarrow> string \<Rightarrow> string" where
  "strip_html t [] = []"
| "strip_html t (c # r) =
     (if c = CHR ''<'' then strip_html True r
      else if c = CHR ''>'' then strip_html False r
      else if t then strip_html t r else c # strip_html t r)"

definition html_unescape :: "string \<Rightarrow> string" where
  "html_unescape s = cstr (html_entity_decode s 2048)"

definition sponsored :: "string \<Rightarrow> bool" where
  "sponsored url \<longleftrightarrow> list_ex (has_sub url) [''ad_domain'', ''aclick'', ''y.js?ad'', ''sponsored'', ''advert'']"

definition rb_add :: "nat \<Rightarrow> hit \<Rightarrow> hit list \<Rightarrow> hit list" where
  "rb_add limit h rs =
     (if h_url h = [] \<or> length rs \<ge> limit \<or> sponsored (h_url h) then rs
      else rs @ [\<lparr>h_title = html_unescape (strip_html False (take 1023 (h_title h))), h_url = h_url h,
                  h_snip = html_unescape (strip_html False (take 2047 (h_snip h)))\<rparr>])"

definition rb_merge :: "nat \<Rightarrow> hit list \<Rightarrow> hit list \<Rightarrow> hit list" where
  "rb_merge limit dst src = dst @ take (limit - length dst) src"

text \<open>An attribute of a tag, found after the start or a blank; \<open>ok\<close> says that the place is one.\<close>

fun tag_attr_from :: "string \<Rightarrow> bool \<Rightarrow> string \<Rightarrow> string option" where
  "tag_attr_from nm ok [] = None"
| "tag_attr_from nm ok (c # r) =
     (if length nm + 1 < length (c # r) \<and> ok \<and> take (length nm + 1) (c # r) = nm @ ''=''
      then Some (fst (attr_value (drop (length nm + 1) (c # r))))
      else tag_attr_from nm (isspace c) r)"

definition tag_href :: "string \<Rightarrow> string" where
  "tag_href tag = (case tag_attr_from ''href'' True tag of None \<Rightarrow> [] | Some v \<Rightarrow> take 4095 v)"

subsection \<open>Places in a page\<close>

text \<open>\<open>strstr\<close> from an offset on.\<close>

definition seek :: "string \<Rightarrow> bytes \<Rightarrow> nat \<Rightarrow> nat option" where
  "seek pat b i = map_option (\<lambda>k. i + k) (find_sub (drop i b) pat)"

definition page_slice :: "bytes \<Rightarrow> nat \<Rightarrow> nat \<Rightarrow> bytes" where
  "page_slice b i j = take (j - i) (drop i b)"

text \<open>Back from before \<open>i\<close> to an angle bracket, not beyond \<open>low\<close>.\<close>

definition back_lt :: "bytes \<Rightarrow> nat \<Rightarrow> nat \<Rightarrow> nat" where
  "back_lt b low i =
     (let k = length (takeWhile (\<lambda>c. c \<noteq> CHR ''<'') (rev (page_slice b low i))) in if k < i - low then i - 1 - k else low)"

definition or_end :: "bytes \<Rightarrow> nat option \<Rightarrow> nat" where
  "or_end b x = (case x of None \<Rightarrow> length b | Some i \<Rightarrow> i)"

text \<open>The text of an anchor whose tag ends at \<open>gt\<close>, and what follows the first of some words in an item.\<close>

definition anchor_text :: "bytes \<Rightarrow> nat \<Rightarrow> nat \<Rightarrow> string" where
  "anchor_text b se gt =
     (case seek ''</a>'' b (gt + 1) of
        None \<Rightarrow> [] | Some te \<Rightarrow> if te < se \<and> te - gt - 1 < 2048 then page_slice b (gt + 1) te else [])"

fun seek_first :: "string list \<Rightarrow> bytes \<Rightarrow> nat \<Rightarrow> nat option" where
  "seek_first [] b i = None"
| "seek_first (p # ps) b i = (case seek p b i of None \<Rightarrow> seek_first ps b i | Some j \<Rightarrow> Some j)"

definition page_snippet :: "bytes \<Rightarrow> nat \<Rightarrow> nat \<Rightarrow> string \<Rightarrow> string list \<Rightarrow> string" where
  "page_snippet b se start pat ends =
     (case seek pat b start of
        None \<Rightarrow> []
      | Some sn \<Rightarrow>
          if sn \<ge> se then []
          else (case seek ''>'' b sn of
                  None \<Rightarrow> []
                | Some sgt \<Rightarrow>
                    (case seek_first ends b (sgt + 1) of
                       None \<Rightarrow> [] | Some st \<Rightarrow> if st < se \<and> st - sgt - 1 < 2048 then page_slice b (sgt + 1) st else [])))"

lemma find_sub_less: "find_sub s pat = Some k \<Longrightarrow> pat \<noteq> [] \<Longrightarrow> k < length s"
  by (induction s arbitrary: k) (auto split: if_split_asm)

lemma seek_bounds: "seek pat b i = Some j \<Longrightarrow> pat \<noteq> [] \<Longrightarrow> i \<le> j \<and> j < length b"
  by (auto simp: seek_def dest!: find_sub_less)

subsection \<open>DuckDuckGo\<close>

text \<open>\<open>strtol\<close> of two characters, base 16.\<close>

definition hex_pair :: "char \<Rightarrow> char \<Rightarrow> int" where
  "hex_pair a c =
     (let x = hexval a; y = hexval c
      in if x \<ge> 0 then (if y \<ge> 0 then x * 16 + y else x)
         else if y \<ge> 0 \<and> (isspace a \<or> a = CHR ''+'') then y
         else if y \<ge> 0 \<and> a = CHR ''-'' then - y else 0)"

fun uddg_text :: "string \<Rightarrow> bytes" where
  "uddg_text [] = []"
| "uddg_text (v # r) =
     (if v = CHR ''&'' then []
      else if v = CHR ''%'' \<and> length r \<ge> 2 then char_of (hex_pair (r ! 0) (r ! 1) mod 256) # uddg_text (drop 2 r)
      else v # uddg_text r)"

text \<open>The target of a redirect, else the link itself.\<close>

definition uddg_decode :: "string \<Rightarrow> string" where
  "uddg_decode href = (case find_sub href ''uddg='' of None \<Rightarrow> href | Some i \<Rightarrow> cstr (take 2047 (uddg_text (drop (i + 5) href))))"

text \<open>
  One result from \<open>p\<close> on and where the search goes on. The byte before the page, which the code copies when
  the page starts with the class name, is a 0 here; it is never part of an attribute.
\<close>

definition ddg_step :: "bytes \<Rightarrow> nat \<Rightarrow> (nat \<times> hit) option" where
  "ddg_step b p =
     map_option (\<lambda>res.
       case seek ''>'' b res of
         None \<Rightarrow> (res + 1, \<lparr>h_title = [], h_url = [], h_snip = []\<rparr>)
       | Some gt \<Rightarrow>
           (let tag = (if res = 0 then nul # page_slice b 0 (gt + 1) else page_slice b (back_lt b 0 res) (gt + 1));
                href = (if length tag < 8192 then uddg_decode (tag_href tag) else [])
            in (case seek ''result__snippet'' b gt of None \<Rightarrow> gt + 1 | Some sn \<Rightarrow> sn + 1,
                \<lparr>h_title = anchor_text b (length b) gt, h_url = href,
                 h_snip = page_snippet b (length b) gt ''result__snippet'' [''</a>'', ''</div>'']\<rparr>)))
       (seek ''result__a'' b p)"

subsection \<open>The engines with items\<close>

definition next_item :: "bytes \<Rightarrow> nat \<Rightarrow> nat" where
  "next_item b se = (if se < length b then se + 5 else length b)"

definition mojeek_step :: "bytes \<Rightarrow> nat \<Rightarrow> (nat \<times> hit) option" where
  "mojeek_step b p =
     map_option (\<lambda>li.
       let se = or_end b (seek ''</li>'' b li);
           (url, title) =
             (case seek (''class='' @ quot # ''title'' @ [quot]) b li of
                None \<Rightarrow> ([], [])
              | Some a \<Rightarrow>
                  if a \<ge> se then ([], [])
                  else (case seek ''>'' b a of
                          None \<Rightarrow> ([], [])
                        | Some ag \<Rightarrow>
                            (let tag = page_slice b (back_lt b li a) (ag + 1)
                             in (if length tag < 4096 then tag_href tag else [], if ag + 1 < se then anchor_text b se ag else []))))
       in (next_item b se,
           \<lparr>h_title = title, h_url = url, h_snip = page_snippet b se li (''class='' @ quot # ''s'' @ [quot]) [''</p>'']\<rparr>))
       (seek (''class='' @ quot # ''result'' @ [quot]) b p)"

text \<open>The first anchor of an item, whose tag starts in one of the given ways.\<close>

function first_anchor :: "bytes \<Rightarrow> nat \<Rightarrow> string list \<Rightarrow> nat option \<Rightarrow> string \<times> string" where
  "first_anchor b se pres a =
     (case a of
        None \<Rightarrow> ([], [])
      | Some i \<Rightarrow>
          if i \<ge> se then ([], [])
          else (case seek ''>'' b i of
                  None \<Rightarrow> ([], [])
                | Some ag \<Rightarrow>
                    if ag \<ge> se then ([], [])
                    else (let tag = page_slice b i (ag + 1)
                          in if length tag < 4096 \<and> list_ex (\<lambda>p. take 3 tag = p) pres then (tag_href tag, anchor_text b se ag)
                             else first_anchor b se pres (seek ''<'' b (ag + 1)))))"
  by pat_completeness auto
termination
  by (relation "measure (\<lambda>(b, se, pres, a). case a of None \<Rightarrow> 0 | Some i \<Rightarrow> Suc (length b) - i)")
    (auto dest!: seek_bounds split: option.split)

declare first_anchor.simps [simp del]

definition marginalia_step :: "bytes \<Rightarrow> nat \<Rightarrow> (nat \<times> hit) option" where
  "marginalia_step b p =
     map_option (\<lambda>li.
       let se = or_end b (seek ''</li>'' b li); (url, title) = first_anchor b se [''<a '', ''<a>''] (seek ''<'' b li)
       in (next_item b se, \<lparr>h_title = title, h_url = url, h_snip = page_snippet b se li ''description'' [''</p>'', ''</div>'']\<rparr>))
       (seek ''results-item'' b p)"

definition bing_step :: "bytes \<Rightarrow> nat \<Rightarrow> (nat \<times> hit) option" where
  "bing_step b p =
     map_option (\<lambda>algo.
       let se = or_end b (seek ''</li>'' b algo);
           (url, title) = (case seek ''<h2'' b algo of
                             None \<Rightarrow> ([], []) | Some h2 \<Rightarrow> if h2 < se then first_anchor b se [''<a ''] (Some h2) else ([], []))
       in (next_item b se, \<lparr>h_title = title, h_url = url, h_snip = page_snippet b se algo ''<p'' [''</p>'']\<rparr>))
       (seek ''b_algo'' b p)"

text \<open>The loop of each of these engines.\<close>

partial_function (option) page_hits ::
  "(bytes \<Rightarrow> nat \<Rightarrow> (nat \<times> hit) option) \<Rightarrow> bytes \<Rightarrow> nat \<Rightarrow> nat \<Rightarrow> hit list \<Rightarrow> hit list option" where
  "page_hits step b limit p rs =
     (if p \<ge> length b \<or> length rs \<ge> limit then Some rs
      else (case step b p of None \<Rightarrow> Some rs | Some (p', h) \<Rightarrow> page_hits step b limit p' (rb_add limit h rs)))"

declare page_hits.simps [code]

subsection \<open>Wikipedia\<close>

text \<open>A string from \<open>i\<close> on: where it starts and where its quote is.\<close>

definition quoted_at :: "bytes \<Rightarrow> nat \<Rightarrow> (nat \<times> nat) option" where
  "quoted_at b i = (case seek [quot] b i of None \<Rightarrow> None | Some q \<Rightarrow> map_option (\<lambda>e. (q + 1, e)) (seek [quot] b (q + 1)))"

fun wiki_loop :: "nat \<Rightarrow> bytes \<Rightarrow> nat \<Rightarrow> nat \<Rightarrow> nat \<Rightarrow> nat \<Rightarrow> hit list \<Rightarrow> hit list" where
  "wiki_loop 0 b limit t u d rs = rs"
| "wiki_loop (Suc n) b limit t u d rs =
     (if length rs \<ge> limit then rs
      else (case quoted_at b t of
              None \<Rightarrow> rs
            | Some (ts, te) \<Rightarrow>
                (case quoted_at b u of
                   None \<Rightarrow> rs
                 | Some (us, ue) \<Rightarrow>
                     (let (snip, d') = (case quoted_at b d of
                            None \<Rightarrow> ([], d) | Some (ds, de) \<Rightarrow> if de - ds < 2048 then (page_slice b ds de, de + 1) else ([], d))
                      in wiki_loop n b limit (te + 1) (ue + 1) d'
                           (rb_add limit \<lparr>h_title = take 2047 (page_slice b ts te), h_url = take 4095 (page_slice b us ue), h_snip = snip\<rparr> rs)))))"

definition wiki_parse :: "bytes \<Rightarrow> nat \<Rightarrow> hit list" where
  "wiki_parse b limit =
     (case seek ''['' b 0 of
        None \<Rightarrow> []
      | Some a0 \<Rightarrow>
          (case seek ''['' b (a0 + 1) of
             None \<Rightarrow> []
           | Some a1 \<Rightarrow>
               (case seek ''['' b (a1 + 1) of
                  None \<Rightarrow> []
                | Some a2 \<Rightarrow> (case seek ''['' b (a2 + 1) of None \<Rightarrow> [] | Some a3 \<Rightarrow> wiki_loop 10 b limit a1 a3 a2 []))))"

subsection \<open>The engines\<close>

definition ENGINES :: "(string \<times> string \<times> int) list" where
  "ENGINES =
     [(''ddg'', ''https://html.duckduckgo.com/html/?q='', 800), (''mojeek'', ''https://www.mojeek.com/search?q='', 400),
      (''marginalia'', ''https://search.marginalia.nu/search?query='', 700), (''bing'', ''https://www.bing.com/search?q='', 900),
      (''wikipedia'', ''https://en.wikipedia.org/w/api.php?action=opensearch&format=json&limit=10&search='', 300)]"

definition engine_parse :: "string \<Rightarrow> bytes \<Rightarrow> nat \<Rightarrow> hit list option" where
  "engine_parse nm body limit =
     (let b = cstr body
      in if nm = ''ddg'' then page_hits ddg_step b limit 0 []
         else if nm = ''mojeek'' then page_hits mojeek_step b limit 0 []
         else if nm = ''marginalia'' then page_hits marginalia_step b limit 0 []
         else if nm = ''bing'' then page_hits bing_step b limit 0 []
         else Some (wiki_parse b limit))"

definition engine_wanted :: "string option \<Rightarrow> string \<Rightarrow> bool" where
  "engine_wanted engines nm \<longleftrightarrow> (case engines of None \<Rightarrow> True | Some e \<Rightarrow> e = [] \<or> has_sub e nm \<or> has_sub e ''all'')"

definition engine_url :: "string option \<Rightarrow> string \<Rightarrow> string \<Rightarrow> string \<Rightarrow> string" where
  "engine_url base nm pre enc =
     (let url = take 8191 (pre @ enc); sl = dropWhile (\<lambda>c. c \<noteq> CHR ''/'') (case after_scheme url of None \<Rightarrow> [] | Some p \<Rightarrow> p)
      in case base of None \<Rightarrow> url | Some e \<Rightarrow> if e = [] \<or> sl = [] then url else take 8191 (e @ CHR ''/'' # nm @ sl))"

subsection \<open>The parsers return\<close>

lemma seek_from: "seek pat b i = Some j \<Longrightarrow> pat \<noteq> [] \<Longrightarrow> i \<le> j"
  by (simp add: seek_bounds)

lemma page_hits_total:
  assumes "\<And>p p' h. step b p = Some (p', h) \<Longrightarrow> p < length b \<Longrightarrow> p < p'"
  shows "\<exists>rs'. page_hits step b limit p rs = Some rs'"
proof (induction "length b - p" arbitrary: p rs rule: less_induct)
  case less
  show ?case
  proof (cases "p \<ge> length b \<or> length rs \<ge> limit \<or> step b p = None")
    case True
    then show ?thesis by (subst page_hits.simps) auto
  next
    case False
    then obtain p' h where s: "step b p = Some (p', h)" by auto
    then have "length b - p' < length b - p" using False assms [OF s] by auto
    then show ?thesis using less s False by (subst page_hits.simps) auto
  qed
qed

lemma ddg_step_on: "ddg_step b p = Some (p', h) \<Longrightarrow> p < p'"
proof -
  assume st: "ddg_step b p = Some (p', h)"
  then obtain res where res: "seek ''result__a'' b p = Some res" by (auto simp: ddg_step_def)
  then have "p \<le> res" by (simp add: seek_from)
  moreover have "res < p'"
  proof (cases "seek ''>'' b res")
    case None
    then show ?thesis using st by (simp add: ddg_step_def res)
  next
    case (Some gt)
    then have "res \<le> gt" by (simp add: seek_from)
    moreover have "gt < p'" using st Some
      by (cases "seek ''result__snippet'' b gt") (auto simp: ddg_step_def res Let_def dest: seek_from)
    ultimately show ?thesis by simp
  qed
  ultimately show ?thesis by simp
qed

lemma next_item_on: "seek pat b p = Some li \<Longrightarrow> pat \<noteq> [] \<Longrightarrow> p < next_item b (or_end b (seek ''</li>'' b li))"
  using seek_bounds [of pat b p li] by (auto simp: next_item_def or_end_def split: option.split dest!: seek_bounds)

lemma item_steps_on:
  "mojeek_step b p = Some (p', h) \<Longrightarrow> p < p'" "marginalia_step b p = Some (p', h) \<Longrightarrow> p < p'"
  "bing_step b p = Some (p', h) \<Longrightarrow> p < p'"
  by (auto simp: mojeek_step_def marginalia_step_def bing_step_def Let_def case_prod_unfold dest: next_item_on)

lemma parse_returns: "\<exists>rs. engine_parse nm body limit = Some rs"
  by (simp add: engine_parse_def Let_def)
    (intro conjI impI page_hits_total; erule ddg_step_on item_steps_on)

end
