(* ===== verification/Exo_Crawl_Net.thy ===== *)
theory Exo_Crawl_Net
  imports Exo_Crawl_Search
begin

text \<open>
  exocrawl's transport (\<open>exocrawl/src/http.c\<close>: the curl command, identities, retries), the pacing of
  requests per host (\<open>pool.c\<close>) and the search over all engines (\<open>search_run\<close> of \<open>search.c\<close>). The
  surroundings are a record of functions on a state: the shell, temporary files, the clock, the network to
  exomind, the file system. Undefined behaviour is \<open>None\<close>.
\<close>

record 'w cenv =
  v_sh :: "string \<Rightarrow> 'w \<Rightarrow> (int \<times> bytes option \<times> bytes option) \<times> 'w"
  v_tmp :: "'w \<Rightarrow> string option \<times> 'w"
  v_now :: "'w \<Rightarrow> int \<times> 'w"
  v_sleep :: "int \<Rightarrow> 'w \<Rightarrow> 'w"
  v_net :: "exo \<Rightarrow> 'w net"
  v_file :: "string \<Rightarrow> 'w \<Rightarrow> bytes option"
  v_mkdir :: "string \<Rightarrow> 'w \<Rightarrow> 'w"
  v_write :: "string \<Rightarrow> bytes \<Rightarrow> 'w \<Rightarrow> 'w"
  v_dir :: "string \<Rightarrow> 'w \<Rightarrow> string list option"
  v_delay :: "string \<Rightarrow> int"
  v_order :: "nat \<Rightarrow> 'w \<Rightarrow> nat list"
  v_room :: nat

record net_cfg =
  n_uas :: "string list"
  n_proxy :: "string option"
  n_base :: "string option"
  n_timeout :: int

text \<open>What is known of a host's robots file.\<close>

record rob =
  rb_host :: string
  rb_fetched :: bool
  rb_delay :: int
  rb_rules :: "string list"
  rb_pace :: int

text \<open>The state of the process: the surroundings, the identity counter, the pacing and robots lists, the counters.\<close>

record 'w cst =
  cw :: 'w
  cw_ua :: u64
  cw_paces :: "(string \<times> int) list"
  cw_robs :: "rob list"
  cw_fetches :: u64
  cw_errors :: u64
  cw_hits :: u64
  cw_bytes :: u64

definition CRAWL_MAX_BODY :: nat where "CRAWL_MAX_BODY = 32 * 1024 * 1024"

subsection \<open>Transport\<close>

definition DEFAULT_UAS :: "string list" where
  "DEFAULT_UAS =
     [''Mozilla/5.0 (X11; Linux x86_64) AppleWebKit/537.36 (KHTML, like Gecko) Chrome/126.0 Safari/537.36'',
      ''Mozilla/5.0 (X11; Linux x86_64; rv:128.0) Gecko/20100101 Firefox/128.0'',
      ''Mozilla/5.0 (Macintosh; Intel Mac OS X 10_15_7) AppleWebKit/605.1.15 (KHTML, like Gecko) Version/17.5 Safari/605.1.15'',
      ''Mozilla/5.0 (Windows NT 10.0; Win64; x64) AppleWebKit/537.36 (KHTML, like Gecko) Chrome/125.0 Safari/537.36'',
      ''Mozilla/5.0 (X11; Ubuntu; Linux x86_64; rv:127.0) Gecko/20100101 Firefox/127.0'', ''wget/1.21.4'', ''curl/8.5.0'']"

definition net_init :: net_cfg where
  "net_init = \<lparr>n_uas = DEFAULT_UAS, n_proxy = None, n_base = None, n_timeout = 20000\<rparr>"

definition net_next_ua :: "net_cfg \<Rightarrow> 'w cst \<Rightarrow> string \<times> 'w cst" where
  "net_next_ua n s =
     (if n_uas n = [] then (''exocrawl/0.1'', s)
      else (n_uas n ! (unat (cw_ua s) mod length (n_uas n)), s\<lparr>cw_ua := cw_ua s + 1\<rparr>))"

definition in_quotes :: "string \<Rightarrow> string" where
  "in_quotes s = CHR 0x27 # s @ [CHR 0x27]"

text \<open>The line given to the shell; what does not fit is cut.\<close>

definition curl_cmd :: "net_cfg \<Rightarrow> string \<Rightarrow> string \<Rightarrow> string \<Rightarrow> string" where
  "curl_cmd n tmpl ua url =
     take 8191 (''curl -sS -m '' @ show_int (n_timeout n div 1000) @ '' --connect-timeout 10 -o '' @ in_quotes tmpl @
       '' -w '' @ in_quotes ''%{http_code}'' @ '' -A '' @ in_quotes ua @ '' --no-keepalive -H '' @
       in_quotes ''Accept: text/html,application/json'' @ '' -H '' @ in_quotes ''Accept-Language: en'' @ '' -e '' @ in_quotes [] @
       (case n_proxy n of None \<Rightarrow> [] | Some p \<Rightarrow> if p = [] then [] else '' -x '' @ in_quotes p) @
       CHR '' '' # in_quotes url @ '' > '' @ in_quotes (tmpl @ ''.code'') @ '' 2>/dev/null'')"

text \<open>\<open>fscanf\<close> with \<open>%d\<close>.\<close>

definition scan_int :: "bytes \<Rightarrow> int option" where
  "scan_int s =
     (let t = dropWhile isspace s; u = (if t \<noteq> [] \<and> (hd t = CHR ''-'' \<or> hd t = CHR ''+'') then tl t else t)
      in if u \<noteq> [] \<and> isdigit (hd u) then Some (atoi t) else None)"

text \<open>One run of curl: the text of an error, or the status and the body when it is not empty.\<close>

definition curl_get :: "'w cenv \<Rightarrow> net_cfg \<Rightarrow> string \<Rightarrow> string \<Rightarrow> 'w cst \<Rightarrow> (string + int \<times> bytes option) \<times> 'w cst" where
  "curl_get x n url ua s =
     (case v_tmp x (cw s) of
        (None, w1) \<Rightarrow> (Inl ''mkstemp failed'', s\<lparr>cw := w1\<rparr>)
      | (Some tmpl, w1) \<Rightarrow>
          (let ((rc, code, out), w2) = v_sh x (curl_cmd n tmpl ua url) w1;
               st = (case code of None \<Rightarrow> 0 | Some t \<Rightarrow> (case scan_int t of None \<Rightarrow> 0 | Some i \<Rightarrow> i));
               body = (case out of None \<Rightarrow> None | Some b \<Rightarrow> if b = [] then None else Some (take CRAWL_MAX_BODY b))
           in (if rc \<noteq> 0 \<and> body = None then Inl (''curl transport error (rc='' @ show_int rc @ '')'') else Inr (st, body),
               s\<lparr>cw := w2\<rparr>)))"

text \<open>
  Two more attempts. The second response is not cleared first: without a body in it the code reads
  and frees an indeterminate pointer.
\<close>

fun net_retry :: "'w cenv \<Rightarrow> net_cfg \<Rightarrow> string \<Rightarrow> int list \<Rightarrow> int \<times> bytes option \<Rightarrow> 'w cst \<Rightarrow> ((int \<times> bytes option) \<times> 'w cst) option" where
  "net_retry x n url [] r s = Some (r, s)"
| "net_retry x n url (a # as) r s =
     (let (ua, s1) = net_next_ua n s
      in case curl_get x n url ua s1 of
           (Inl e, s2) \<Rightarrow> Some (r, s2)
         | (Inr (st, None), s2) \<Rightarrow> None
         | (Inr (st, Some b), s2) \<Rightarrow>
             if st = 200 \<or> st = 404 then Some ((st, Some b), s2)
             else net_retry x n url as (st, Some b) (s2\<lparr>cw := v_sleep x (500 * (a + 1)) (cw s2)\<rparr>))"

definition net_fetch :: "'w cenv \<Rightarrow> net_cfg \<Rightarrow> string \<Rightarrow> 'w cst \<Rightarrow> ((string + int \<times> bytes option) \<times> 'w cst) option" where
  "net_fetch x n url s =
     (let (ua, s1) = net_next_ua n s
      in case curl_get x n url ua s1 of
           (Inl e, s2) \<Rightarrow> Some (Inl e, s2)
         | (Inr (st, b), s2) \<Rightarrow>
             if st = 429 \<or> st \<ge> 500 then map_option (\<lambda>(r, s3). (Inr r, s3)) (net_retry x n url [0, 1] (st, b) s2)
             else Some (Inr (st, b), s2))"

subsection \<open>Pacing\<close>

fun pace_put :: "string \<Rightarrow> int \<Rightarrow> (string \<times> int) list \<Rightarrow> (string \<times> int) list" where
  "pace_put h t [] = []"
| "pace_put h t (p # ps) = (if fst p = h then (h, t) # ps else p # pace_put h t ps)"

text \<open>The time to wait and the list; an entry holds the time at which the last request starts.\<close>

definition pace_calc :: "(string \<times> int) list \<Rightarrow> string \<Rightarrow> int \<Rightarrow> int \<Rightarrow> int \<times> (string \<times> int) list" where
  "pace_calc ps host min_ms now =
     (let last = (case map_of ps host of None \<Rightarrow> 0 | Some t \<Rightarrow> t);
          wait = (if last > 0 \<and> now < last + min_ms then last + min_ms - now else 0)
      in (wait, case map_of ps host of None \<Rightarrow> (take 255 host, now + wait) # ps | Some t \<Rightarrow> pace_put host (now + wait) ps))"

definition pace_wait :: "'w cenv \<Rightarrow> string \<Rightarrow> int \<Rightarrow> 'w cst \<Rightarrow> 'w cst" where
  "pace_wait x host min_ms s =
     (let (now, w1) = v_now x (cw s); (wait, ps) = pace_calc (cw_paces s) host min_ms now
      in s\<lparr>cw := (if wait > 0 then v_sleep x wait w1 else w1), cw_paces := ps\<rparr>)"

subsection \<open>Search\<close>

fun search_engines :: "'w cenv \<Rightarrow> net_cfg \<Rightarrow> string \<Rightarrow> string option \<Rightarrow> nat \<Rightarrow> (string \<times> string \<times> int) list \<Rightarrow> hit list \<Rightarrow> 'w cst
    \<Rightarrow> (hit list \<times> 'w cst) option" where
  "search_engines x n enc engines limit [] all s = Some (all, s)"
| "search_engines x n enc engines limit ((nm, pre, ms) # es) all s =
     (if \<not> engine_wanted engines nm then search_engines x n enc engines limit es all s
      else (case net_fetch x n (engine_url (n_base n) nm pre enc) (pace_wait x nm ms s) of
              None \<Rightarrow> None
            | Some (Inr (st, Some b), s2) \<Rightarrow>
                if st \<noteq> 200 then search_engines x n enc engines limit es all s2
                else (case engine_parse nm b limit of
                        None \<Rightarrow> None
                      | Some rs \<Rightarrow>
                          (let all' = rb_merge limit all rs
                           in if length all' \<ge> limit then Some (all', s2) else search_engines x n enc engines limit es all' s2))
            | Some (r, s2) \<Rightarrow> search_engines x n enc engines limit es all s2))"

definition search_run :: "'w cenv \<Rightarrow> net_cfg \<Rightarrow> string \<Rightarrow> string option \<Rightarrow> nat \<Rightarrow> 'w cst \<Rightarrow> ((string + hit list) \<times> 'w cst) option" where
  "search_run x n q engines limit s =
     map_option (\<lambda>(all, s'). (if all = [] then Inl ''no results from any engine'' else Inr all, s'))
       (search_engines x n (url_encode q) engines limit ENGINES [] s)"

end
