(* ===== verification/Exo_Crawl.thy ===== *)
theory Exo_Crawl
  imports Exo_Crawl_Net Exo_Cli
begin

text \<open>
  exocrawl (\<open>exocrawl/src/main.c\<close>): the cache in exomind, robots files, the fetch of a page, the routes, the
  connection, the console operation and the command line. The jobs of one scrape run one after the other
  in an order the surroundings give; the pool that runs them is \<open>Exo_Crawl_Pool\<close>.
\<close>

record cconf =
  cc_pace :: int
  cc_cache :: bool
  cc_robots :: bool
  cc_dir :: string
  cc_host :: string
  cc_port :: int
  cc_token :: "string option"
  cc_jobs :: int
  cc_listen :: int

definition MAX_EXTRACT :: nat where "MAX_EXTRACT = 1024 * 1024"

subsection \<open>Query parameters\<close>

fun crawl_qp_text :: "string \<Rightarrow> bytes" where
  "crawl_qp_text [] = []"
| "crawl_qp_text (v # r) =
     (if v = CHR ''%'' \<and> length r \<ge> 2 \<and> hexval (r ! 0) \<ge> 0 \<and> hexval (r ! 1) \<ge> 0
      then char_of (hexval (r ! 0) * 16 + hexval (r ! 1)) # crawl_qp_text (drop 2 r)
      else (if v = CHR ''+'' then CHR '' '' else v) # crawl_qp_text r)"

function crawl_query_param :: "string \<Rightarrow> string \<Rightarrow> nat \<Rightarrow> string option" where
  "crawl_query_param q nm cap =
     (let k = takeWhile (\<lambda>c. c \<noteq> CHR ''='') q; p = takeWhile (\<lambda>c. c \<noteq> CHR ''&'') q
      in if CHR ''='' \<notin> set q then None
         else if k = nm then
           Some (cstr (take (cap - 1) (crawl_qp_text (takeWhile (\<lambda>c. c \<noteq> CHR ''&'') (drop (Suc (length k)) q)))))
         else if CHR ''&'' \<notin> set q then None else crawl_query_param (drop (Suc (length p)) q) nm cap)"
  by pat_completeness auto
termination by (relation "measure (\<lambda>(q, nm, cap). length q)") (auto intro!: diff_less simp: length_pos_if_in_set)

declare crawl_query_param.simps [simp del]

definition flag_on :: "string \<Rightarrow> string \<Rightarrow> char \<Rightarrow> bool" where
  "flag_on q nm c \<longleftrightarrow> (case crawl_query_param q nm 8 of None \<Rightarrow> False | Some v \<Rightarrow> v \<noteq> [] \<and> hd v = c)"

subsection \<open>The cache in exomind\<close>

text \<open>\<open>--cache\<close>: host and port.\<close>

definition crawl_cache_parse :: "string \<Rightarrow> string \<times> int" where
  "crawl_cache_parse arg =
     (let p0 = (if take 7 arg = ''http://'' then drop 7 arg else if take 8 arg = ''https://'' then drop 8 arg else arg);
          p = take 255 (if p0 = [] \<or> p0 = ''exomind'' then ''127.0.0.1'' else p0);
          h = takeWhile (\<lambda>c. c \<noteq> CHR '':'') p; r = drop (Suc (length h)) p
      in (h, if r \<noteq> [] then atoi r else 7654))"

text \<open>\<open>inet_pton\<close>: four decimal numbers without leading zeros.\<close>

definition octet_ok :: "string \<Rightarrow> bool" where
  "octet_ok d \<longleftrightarrow> d \<noteq> [] \<and> length d \<le> 3 \<and> list_all isdigit d \<and> (hd d = CHR ''0'' \<longrightarrow> length d = 1) \<and> digits_val d \<le> 255"

definition inet_ok :: "string \<Rightarrow> bool" where
  "inet_ok h \<longleftrightarrow> (let ps = split_on (CHR ''.'') h in length ps = 4 \<and> list_all octet_ok ps)"

definition cache_request :: "string \<Rightarrow> string \<Rightarrow> string \<Rightarrow> bytes" where
  "cache_request meth path body =
     take 8191 (meth @ CHR '' '' # path @ '' HTTP/1.1'' @ crlf @ ''Host: localhost'' @ crlf @ ''Connection: close'' @ crlf @
       ''Content-Length: '' @ show_nat (length body) @ crlf @ crlf @ body)"

text \<open>The body of the reply as a C string, whatever its status.\<close>

definition exomind_req :: "'w cenv \<Rightarrow> cconf \<Rightarrow> string \<Rightarrow> string \<Rightarrow> string \<Rightarrow> 'w \<Rightarrow> string option \<times> 'w" where
  "exomind_req x c meth path body w =
     (if \<not> inet_ok (cc_host c) then (None, w)
      else (case v_net x \<lparr>x_host = cc_host c, x_port = cc_port c mod 65536\<rparr> (cache_request meth path body) w of
              (Inl e, w1) \<Rightarrow> (None, w1)
            | (Inr segs, w1) \<Rightarrow>
                (let b = take 65535 (concat (takeWhile (\<lambda>g. g \<noteq> []) segs))
                 in (if b = [] then None else map_option (\<lambda>he. cstr (drop (he + 4) b)) (find_sub (cstr b) (crlf @ crlf)), w1))))"

definition fnv64 :: "string \<Rightarrow> u64" where
  "fnv64 s = foldl (\<lambda>h c. (h XOR of_char c) * 1099511628211) 1469598103934665603 s"

fun show_hexn :: "nat \<Rightarrow> string" where
  "show_hexn n = (if n < 16 then [''0123456789abcdef'' ! n] else show_hexn (n div 16) @ [''0123456789abcdef'' ! (n mod 16)])"

declare show_hexn.simps [simp del]

definition crawl_cache_key :: "string \<Rightarrow> string" where
  "crawl_cache_key url = ''exocrawl:cache:'' @ show_hexn (unat (fnv64 url))"

definition crawl_cache_get :: "'w cenv \<Rightarrow> cconf \<Rightarrow> string \<Rightarrow> 'w cst \<Rightarrow> string option \<times> 'w cst" where
  "crawl_cache_get x c url s =
     (if \<not> cc_cache c then (None, s)
      else (case exomind_req x c ''GET'' (''/get?key='' @ crawl_cache_key url) [] (cw s) of
              (None, w1) \<Rightarrow> (None, s\<lparr>cw := w1\<rparr>)
            | (Some out, w1) \<Rightarrow>
                if take 7 out = ''missing'' then (None, s\<lparr>cw := w1\<rparr>) else (Some out, s\<lparr>cw := w1, cw_hits := cw_hits s + 1\<rparr>)))"

definition crawl_cache_put :: "'w cenv \<Rightarrow> cconf \<Rightarrow> string \<Rightarrow> string \<Rightarrow> 'w cst \<Rightarrow> 'w cst" where
  "crawl_cache_put x c url txt s =
     (if \<not> cc_cache c then s
      else s\<lparr>cw := snd (exomind_req x c ''POST'' (''/set?key='' @ crawl_cache_key url @ ''&ttl=86400'') txt (cw s))\<rparr>)"

subsection \<open>Robots files\<close>

definition url_authority :: "string \<Rightarrow> nat \<Rightarrow> string" where
  "url_authority url cap =
     (case after_scheme url of
        None \<Rightarrow> [] | Some p \<Rightarrow> take (cap - 1) (takeWhile (\<lambda>c. c \<notin> {CHR ''/'', CHR ''?'', CHR ''#''}) p))"

definition rule_of :: "bytes \<Rightarrow> string" where
  "rule_of v =
     cstr ((if hd v \<noteq> CHR ''/'' then ''/'' else []) @ filter (\<lambda>c. c \<noteq> CHR ''*'') (if last v = CHR ''$'' then butlast v else v))"

text \<open>
  After an empty rule the loop looks at the same line again, until there are sixteen. The delay is what
  \<open>strtod\<close> reads, in milliseconds, or 0.
\<close>

function robots_loop :: "(string \<Rightarrow> int) \<Rightarrow> bytes \<Rightarrow> rob \<Rightarrow> rob" where
  "robots_loop dl b r =
     (if b = [] \<or> length (rb_rules r) \<ge> 16 then r
      else (let l = takeWhile (\<lambda>c. c \<noteq> nl) b; line = dropWhile isspace l; rest = drop (Suc (length l)) b
            in if ci_prefix line ''disallow:'' then
                 (let v = trimmed (drop 9 line)
                  in if v = [] \<or> v = ''*'' then robots_loop dl b (r\<lparr>rb_rules := rb_rules r @ [''/'']\<rparr>)
                     else robots_loop dl rest (r\<lparr>rb_rules := rb_rules r @ [rule_of v]\<rparr>))
               else if ci_prefix line ''crawl-delay:'' then
                 robots_loop dl rest (r\<lparr>rb_delay := max (rb_delay r) (dl (cstr (drop (length l - length line + 12) b)))\<rparr>)
               else robots_loop dl rest r))"
  by pat_completeness auto
termination by (relation "measures [\<lambda>(dl, b, r). length b, \<lambda>(dl, b, r). 16 - length (rb_rules r)]") auto

declare robots_loop.simps [simp del]

definition robots_name :: "cconf \<Rightarrow> string \<Rightarrow> string \<Rightarrow> string" where
  "robots_name c host ext = take 1199 (cc_dir c @ CHR ''/'' # host @ ext)"

definition robots_cache_save :: "'w cenv \<Rightarrow> cconf \<Rightarrow> string \<Rightarrow> bytes \<Rightarrow> 'w \<Rightarrow> 'w" where
  "robots_cache_save x c host b w =
     (if cc_dir c = [] then w else v_write x (robots_name c host ''.txt'') b (v_mkdir x (cc_dir c) w))"

text \<open>An empty file counts as none.\<close>

definition robots_cache_load :: "'w cenv \<Rightarrow> cconf \<Rightarrow> string \<Rightarrow> 'w \<Rightarrow> bytes option" where
  "robots_cache_load x c host w =
     (if cc_dir c = [] then None
      else (case v_file x (robots_name c host ''.txt'') w of None \<Rightarrow> None | Some b \<Rightarrow> if b = [] then None else Some b))"

definition robots_pace_file :: "'w cenv \<Rightarrow> cconf \<Rightarrow> string \<Rightarrow> 'w \<Rightarrow> int" where
  "robots_pace_file x c host w =
     (if cc_dir c = [] then -1
      else (case v_file x (robots_name c host ''.pace'') w of
              None \<Rightarrow> -1 | Some b \<Rightarrow> (case scan_int b of None \<Rightarrow> -1 | Some i \<Rightarrow> i)))"

definition robots_fetch :: "'w cenv \<Rightarrow> net_cfg \<Rightarrow> cconf \<Rightarrow> string \<Rightarrow> string \<Rightarrow> rob \<Rightarrow> 'w cst \<Rightarrow> (rob \<times> 'w cst) option" where
  "robots_fetch x n c host url r s =
     (let rurl = take 2303 ((if take 8 url = ''https://'' then ''https'' else ''http'') @ ''://'' @ host @ ''/robots.txt'');
          base = (if rb_pace r \<ge> 0 \<and> rb_pace r > cc_pace c then rb_pace r else cc_pace c)
      in case url_host url 256 of
           None \<Rightarrow> None
         | Some pkey \<Rightarrow>
             (case net_fetch x n rurl (pace_wait x pkey base s) of
                None \<Rightarrow> None
              | Some (Inr (st, Some b), s2) \<Rightarrow> Some (robots_loop (v_delay x) b r, s2\<lparr>cw := robots_cache_save x c host b (cw s2)\<rparr>)
              | Some (_, s2) \<Rightarrow> Some (r, s2)))"

fun rob_put :: "rob \<Rightarrow> rob list \<Rightarrow> rob list" where
  "rob_put r [] = [r]"
| "rob_put r (q # qs) = (if rb_host q = rb_host r then r # qs else q # rob_put r qs)"

definition new_rob :: "string \<Rightarrow> rob" where
  "new_rob host = \<lparr>rb_host = host, rb_fetched = False, rb_delay = 0, rb_rules = [], rb_pace = -1\<rparr>"

text \<open>The policy of a host, fetched when it is not known; without a URL nothing is fetched, and that is remembered.\<close>

definition robots_get :: "'w cenv \<Rightarrow> net_cfg \<Rightarrow> cconf \<Rightarrow> string \<Rightarrow> string option \<Rightarrow> 'w cst \<Rightarrow> (rob \<times> 'w cst) option" where
  "robots_get x n c host url s =
     (let known = find (\<lambda>r. rb_host r = host) (cw_robs s); r0 = (case known of None \<Rightarrow> new_rob host | Some r \<Rightarrow> r);
          s0 = (if known = None then s\<lparr>cw_robs := r0 # cw_robs s\<rparr> else s)
      in if rb_fetched r0 then Some (r0, s0)
         else (let r1 = (if rb_pace r0 < 0 then r0\<lparr>rb_pace := robots_pace_file x c host (cw s0)\<rparr> else r0);
                   got = (case robots_cache_load x c host (cw s0) of
                            Some b \<Rightarrow> Some (robots_loop (v_delay x) b r1, s0)
                          | None \<Rightarrow> (case url of
                                      Some u \<Rightarrow> if u = [] then Some (r1, s0) else robots_fetch x n c host u r1 s0
                                    | None \<Rightarrow> Some (r1, s0)))
               in map_option (\<lambda>(r2, s2). let r3 = r2\<lparr>rb_fetched := True\<rparr> in (r3, s2\<lparr>cw_robs := rob_put r3 (cw_robs s2)\<rparr>)) got))"

definition covers :: "string \<Rightarrow> string \<Rightarrow> bool" where
  "covers pth rule \<longleftrightarrow> length rule \<le> 1 \<or> take (length rule) pth = rule"

text \<open>The rule that forbids the URL.\<close>

definition robots_denied :: "'w cenv \<Rightarrow> net_cfg \<Rightarrow> cconf \<Rightarrow> string \<Rightarrow> string \<Rightarrow> 'w cst \<Rightarrow> (string option \<times> 'w cst) option" where
  "robots_denied x n c host url s =
     (case robots_get x n c host (Some url) s of
        None \<Rightarrow> None
      | Some (r, s1) \<Rightarrow>
          map_option (\<lambda>pth. (map_option (\<lambda>u. if length u \<le> 1 then ''/'' else take 1023 u) (find (covers pth) (rb_rules r)), s1))
            (url_path url 1024))"

definition robots_effective_pace :: "'w cenv \<Rightarrow> net_cfg \<Rightarrow> cconf \<Rightarrow> string \<Rightarrow> 'w cst \<Rightarrow> (int \<times> 'w cst) option" where
  "robots_effective_pace x n c host s =
     map_option (\<lambda>(r, s1).
       let ms = (if rb_pace r \<ge> 0 \<and> rb_pace r > cc_pace c then rb_pace r else cc_pace c)
       in (if rb_delay r > ms then rb_delay r else ms, s1)) (robots_get x n c host None s)"

subsection \<open>A page\<close>

record fjob =
  j_url :: string
  j_max :: nat
  j_links :: bool
  j_images :: bool
  j_polite :: bool

definition text_line :: "string \<Rightarrow> string" where
  "text_line l = ''- '' @ l @ [nl]"

definition page_head :: "page_rec \<Rightarrow> string" where
  "page_head p = (case pg_title p of None \<Rightarrow> [] | Some t \<Rightarrow> if t = [] then [] else ''# '' @ t @ [nl, nl]) @ cstr (pg_text p)"

definition page_doc :: "page_rec \<Rightarrow> bool \<Rightarrow> bool \<Rightarrow> string" where
  "page_doc p links images =
     page_head p @ (if links \<and> pg_links p \<noteq> [] then nl # ''## links'' @ nl # concat (map text_line (pg_links p)) else []) @
     (if images \<and> pg_images p \<noteq> [] then nl # ''## images'' @ nl # concat (map text_line (pg_images p)) else [])"

definition no_page :: page_rec where
  "no_page = \<lparr>pg_title = None, pg_text = [], pg_links = [], pg_images = []\<rparr>"

text \<open>
  The text of a page within \<open>mx\<close>. The sink has \<open>mx + 1\<close> bytes modulo \<open>2 ^ 64\<close>: with the largest number it has
  none and everything is written behind it. \<open>Some None\<close>: there was no room for the result.
\<close>

definition page_result :: "nat \<Rightarrow> bytes \<Rightarrow> fjob \<Rightarrow> string option option" where
  "page_result room html j =
     (let mx = j_max j; sink = (if mx = 0 then 8192 else mx); p = (if Suc sink > room then no_page else page_extract html (j_url j) mx)
      in if mx = ULLONG_MAX then None
         else if (mx + 4096) mod 2 ^ 64 > room then Some None
         else Some (Some (take mx (page_doc p (j_links j) (j_images j)))))"

text \<open>What a job ends with: the text of an error, or the result, which may be NULL.\<close>

type_synonym outcome = "string + string option"

definition fetch_page :: "'w cenv \<Rightarrow> net_cfg \<Rightarrow> cconf \<Rightarrow> fjob \<Rightarrow> 'w cst \<Rightarrow> (outcome \<times> 'w cst) option" where
  "fetch_page x n c j s =
     (case crawl_cache_get x c (j_url j) s of
        (Some txt, s1) \<Rightarrow> Some (Inr (Some txt), s1)
      | (None, s1) \<Rightarrow>
          (case net_fetch x n (j_url j) s1 of
             None \<Rightarrow> None
           | Some (Inl e, s2) \<Rightarrow> Some (Inl (take 255 e), s2\<lparr>cw_errors := cw_errors s2 + 1\<rparr>)
           | Some (Inr (st, b), s2) \<Rightarrow>
               if st \<noteq> 200 \<or> b = None then Some (Inl (''http '' @ show_int st), s2\<lparr>cw_errors := cw_errors s2 + 1\<rparr>)
               else (let html = the b; s3 = s2\<lparr>cw_fetches := cw_fetches s2 + 1, cw_bytes := cw_bytes s2 + of_nat (length html)\<rparr>
                     in map_option (\<lambda>r. (Inr r, crawl_cache_put x c (j_url j) (case r of None \<Rightarrow> [] | Some t \<Rightarrow> t) s3))
                          (page_result (v_room x) html j))))"

text \<open>The policy first, then the pause, then the page.\<close>

definition fetch_worker :: "'w cenv \<Rightarrow> net_cfg \<Rightarrow> cconf \<Rightarrow> fjob \<Rightarrow> 'w cst \<Rightarrow> (outcome \<times> 'w cst) option" where
  "fetch_worker x n c j s =
     (let auth = url_authority (j_url j) 256;
          checked = (if cc_robots c \<and> \<not> j_polite j then
                       (case robots_get x n c auth (Some (j_url j)) s of
                          None \<Rightarrow> None | Some (r, s1) \<Rightarrow> robots_denied x n c auth (j_url j) s1)
                     else Some (None, s))
      in case url_host (j_url j) 256 of
           None \<Rightarrow> None
         | Some host \<Rightarrow>
             (case checked of
                None \<Rightarrow> None
              | Some (Some rule, s1) \<Rightarrow> Some (Inl (take 255 (''robots.txt disallows '' @ take 200 rule)), s1)
              | Some (None, s1) \<Rightarrow>
                  (case (if cc_robots c then robots_effective_pace x n c auth s1 else Some (cc_pace c, s1)) of
                     None \<Rightarrow> None | Some (ms, s2) \<Rightarrow> fetch_page x n c j (pace_wait x host ms s2))))"

subsection \<open>Routes\<close>

record dout =
  d_status :: int
  d_ctype :: string
  d_body :: bytes

definition dout_of :: "int \<Rightarrow> bytes \<Rightarrow> dout" where
  "dout_of st b = \<lparr>d_status = st, d_ctype = ''text/plain'', d_body = b\<rparr>"

definition crawl_err :: "int \<Rightarrow> string \<Rightarrow> dout" where
  "crawl_err st e = dout_of st (''error: '' @ e @ [nl])"

definition UTF8_TEXT :: string where "UTF8_TEXT = ''text/plain; charset=utf-8''"

definition fetch_max :: "string option \<Rightarrow> nat" where
  "fetch_max v = (let m = (case v of None \<Rightarrow> 8000 | Some s \<Rightarrow> fst (strtoull s)) in if m = 0 \<or> m > MAX_EXTRACT then MAX_EXTRACT else m)"

definition handle_fetch :: "'w cenv \<Rightarrow> net_cfg \<Rightarrow> cconf \<Rightarrow> string \<Rightarrow> 'w cst \<Rightarrow> (dout \<times> 'w cst) option" where
  "handle_fetch x n c q s =
     (case crawl_query_param q ''url'' 4096 of
        None \<Rightarrow> Some (crawl_err 400 ''missing url'', s)
      | Some url \<Rightarrow>
          if \<not> url_is_http url then Some (crawl_err 400 ''url must be http(s)'', s)
          else map_option (\<lambda>(r, s1). (case r of Inl e \<Rightarrow> crawl_err 502 e
                 | Inr t \<Rightarrow> \<lparr>d_status = 200, d_ctype = UTF8_TEXT, d_body = (case t of None \<Rightarrow> [] | Some u \<Rightarrow> u)\<rparr>, s1))
                 (fetch_worker x n c \<lparr>j_url = url, j_max = fetch_max (crawl_query_param q ''max'' 32), j_links = flag_on q ''links'' (CHR ''1''),
                    j_images = flag_on q ''images'' (CHR ''1''), j_polite = flag_on q ''polite'' (CHR ''0'')\<rparr> s))"

text \<open>Titles, addresses and snippets are printed as they are, also into JSON.\<close>

definition hit_json :: "nat \<Rightarrow> hit \<Rightarrow> string" where
  "hit_json i h =
     (if i = 0 then [] else '','') @ CHR ''{'' # quot # ''title'' @ quot # CHR '':'' # quot # h_title h @ quot # CHR '','' # quot # ''url'' @
     quot # CHR '':'' # quot # h_url h @ quot # CHR '','' # quot # ''snippet'' @ quot # CHR '':'' # quot # h_snip h @ quot # ''}''"

definition hit_row :: "nat \<Rightarrow> hit \<Rightarrow> string" where
  "hit_row i h = show_nat (i + 1) @ tab # h_title h @ tab # h_url h @ tab # h_snip h @ [nl]"

definition handle_search :: "'w cenv \<Rightarrow> net_cfg \<Rightarrow> string \<Rightarrow> 'w cst \<Rightarrow> (dout \<times> 'w cst) option" where
  "handle_search x n query s =
     (case crawl_query_param query ''q'' 4096 of
        None \<Rightarrow> Some (crawl_err 400 ''missing q'', s)
      | Some q \<Rightarrow>
          if q = [] then Some (crawl_err 400 ''missing q'', s)
          else (let k0 = (case crawl_query_param query ''n'' 16 of None \<Rightarrow> 10 | Some v \<Rightarrow> atoi v);
                    k = (if k0 < 1 \<or> k0 > 50 then 10 else nat k0); json = flag_on query ''json'' (CHR ''1'')
                in map_option (\<lambda>(r, s1). (case r of Inl e \<Rightarrow> crawl_err 502 e
                     | Inr hs \<Rightarrow>
                         \<lparr>d_status = 200, d_ctype = (if json then ''application/json'' else UTF8_TEXT),
                          d_body = (if json then CHR ''['' # concat (map2 hit_json [0..<length hs] hs) @ '']'' @ [nl]
                                    else concat (map2 hit_row [0..<length hs] hs))\<rparr>, s1))
                     (search_run x n q (crawl_query_param query ''engines'' 64) k s)))"

subsection \<open>Scrape\<close>

text \<open>
  The jobs of a body, at most 64; a number behind a tab is the limit, however large. What is cut off a long last line
  is the next line.
\<close>

function scrape_jobs :: "nat \<Rightarrow> string \<Rightarrow> fjob list" where
  "scrape_jobs k b =
     (let b1 = dropWhile (\<lambda>c. c = nl) b; l = takeWhile (\<lambda>c. c \<noteq> nl) b1; line = take 8191 l;
          rest = (if nl \<in> set b1 then drop (Suc (length l)) b1 else drop (length line) b1);
          u = takeWhile (\<lambda>c. c \<noteq> tab) line; mx = (if tab \<in> set line then fst (strtoull (drop (Suc (length u)) line)) else 8000)
      in if k \<ge> 64 \<or> b1 = [] then []
         else if url_is_http u then
           \<lparr>j_url = u, j_max = mx, j_links = False, j_images = False, j_polite = False\<rparr> # scrape_jobs (Suc k) rest
         else scrape_jobs k rest)"
  by pat_completeness auto
termination
proof (relation "measure (\<lambda>(k, b). length b)")
  have rest: "length (if nl \<in> set b1 then drop (Suc (length (takeWhile (\<lambda>c. c \<noteq> nl) b1))) b1
      else drop (length (take 8191 (takeWhile (\<lambda>c. c \<noteq> nl) b1))) b1) < length b"
    if "b1 = dropWhile (\<lambda>c. c = nl) b" "b1 \<noteq> []" for b b1
  proof -
    have "length b1 \<le> length b" unfolding that(1) by (rule length_dropWhile_le)
    moreover have "hd b1 \<noteq> nl" using hd_dropWhile [of "\<lambda>c. c = nl" b] that by simp
    ultimately show ?thesis using that(2) by (cases b1) auto
  qed
  fix k mx :: nat and b b1 l line rest u :: string
  assume e: "b1 = dropWhile (\<lambda>c. c = nl) b" "l = takeWhile (\<lambda>c. c \<noteq> nl) b1" "line = take 8191 l"
      "rest = (if nl \<in> set b1 then drop (Suc (length l)) b1 else drop (length line) b1)" "\<not> (64 \<le> k \<or> b1 = [])"
  have "b1 \<noteq> []" using e(5) by blast
  from rest [OF e(1) this] have "length rest < length b" unfolding e(4) e(3) e(2) .
  then show "((Suc k, rest), k, b) \<in> measure (\<lambda>(k, b). length b)" "((k, rest), k, b) \<in> measure (\<lambda>(k, b). length b)"
    by simp_all
qed simp

declare scrape_jobs.simps [simp del]

text \<open>The jobs in the order in which the pool takes them.\<close>

fun run_jobs :: "'w cenv \<Rightarrow> net_cfg \<Rightarrow> cconf \<Rightarrow> fjob list \<Rightarrow> nat list \<Rightarrow> 'w cst \<Rightarrow> ((nat \<times> outcome) list \<times> 'w cst) option" where
  "run_jobs x n c js [] s = Some ([], s)"
| "run_jobs x n c js (i # is) s =
     (if i \<ge> length js then None
      else (case fetch_worker x n c (js ! i) s of
              None \<Rightarrow> None
            | Some (r, s1) \<Rightarrow> map_option (\<lambda>(rs, s2). ((i, r) # rs, s2)) (run_jobs x n c js is s1)))"

text \<open>The line of a job; the length of a result that is NULL is undefined.\<close>

definition scrape_line :: "fjob \<Rightarrow> outcome option \<Rightarrow> string option" where
  "scrape_line j r =
     (case r of
        Some (Inl e) \<Rightarrow> Some (''fetch '' @ j_url j @ '' error: '' @ e @ [nl])
      | Some (Inr (Some t)) \<Rightarrow> Some (''fetch '' @ j_url j @ CHR '' '' # show_nat (length t) @ '' ok'' @ [nl])
      | _ \<Rightarrow> None)"

definition handle_scrape :: "'w cenv \<Rightarrow> net_cfg \<Rightarrow> cconf \<Rightarrow> string \<Rightarrow> 'w cst \<Rightarrow> (dout \<times> 'w cst) option" where
  "handle_scrape x n c body s =
     (let js = scrape_jobs 0 body
      in if body = [] then Some (crawl_err 400 ''empty body'', s)
         else if js = [] then Some (crawl_err 400 ''no valid urls'', s)
         else (case run_jobs x n c js (v_order x (length js) (cw s)) s of
                 None \<Rightarrow> None
               | Some (rs, s1) \<Rightarrow>
                   (let ls = map2 (\<lambda>i j. scrape_line j (map_of rs i)) [0..<length js] js
                    in if None \<in> set ls then None
                       else Some (dout_of 200 (''ok '' @ show_nat (length js) @ nl # concat (map the ls)), s1))))"

definition handle_stats :: "'w cst \<Rightarrow> dout" where
  "handle_stats s =
     dout_of 200 (''fetches: '' @ show_nat (unat (cw_fetches s)) @ nl # ''errors: '' @ show_nat (unat (cw_errors s)) @ nl #
       ''cache_hits: '' @ show_nat (unat (cw_hits s)) @ nl # ''bytes: '' @ show_nat (unat (cw_bytes s)) @ [nl])"

subsection \<open>Extraction quality\<close>

definition qline :: "string \<Rightarrow> string" where
  "qline l = rev (dropWhile (\<lambda>c. c = CHR '' '' \<or> c = tab \<or> c = cr) (rev l))"

definition qlines :: "string list \<Rightarrow> string list" where
  "qlines ls = filter (\<lambda>l. l \<noteq> []) (map qline ls)"

text \<open>A fixture: the lines that match, how many were extracted and expected, the lines too many.\<close>

definition score_fixture :: "bytes \<Rightarrow> bytes \<Rightarrow> nat \<times> nat \<times> nat \<times> nat" where
  "score_fixture html gold =
     (let el = qlines (map (\<lambda>l. chop_eol (cstr l)) (fgets_all 8192 gold));
          al = qlines (strtok_all (\<lambda>c. c = nl) (page_head (page_extract html ''https://fixture.local/'' 1048576)))
      in (length (filter (\<lambda>e. e \<in> set al) el), length al, length el, length (filter (\<lambda>a. a \<notin> set el) al)))"

definition is_fooled :: "nat \<times> nat \<times> nat \<times> nat \<Rightarrow> bool" where
  "is_fooled r = (case r of (m, an, en, extra) \<Rightarrow> (an > 0 \<and> m < an) \<or> (en > 0 \<and> m < en))"

definition html_files :: "string list \<Rightarrow> string list" where
  "html_files ns =
     qsort (\<lambda>a b. if lex_lt a b then -1 else if a = b then 0 else 1) (filter (\<lambda>n. length n > 5 \<and> drop (length n - 5) n = ''.html'') ns)"

text \<open>The fixtures with both files, with their names.\<close>

definition fixtures :: "'w cenv \<Rightarrow> string \<Rightarrow> string list \<Rightarrow> 'w \<Rightarrow> (string \<times> nat \<times> nat \<times> nat \<times> nat) list" where
  "fixtures x dir ns w =
     List.map_filter (\<lambda>n.
       let base = take (length n - 5) n
       in case (v_file x (take 3071 (dir @ CHR ''/'' # base @ ''.txt'')) w, v_file x (take 2047 (dir @ CHR ''/'' # n)) w) of
            (Some gold, Some html) \<Rightarrow> Some (base, score_fixture html gold)
          | _ \<Rightarrow> None) ns"

text \<open>\<open>scores\<close> prints precision, recall and their mean for a list of fixtures: floating-point arithmetic.\<close>

definition fixture_row :: "((nat \<times> nat \<times> nat) list \<Rightarrow> string) \<Rightarrow> string \<times> nat \<times> nat \<times> nat \<times> nat \<Rightarrow> string" where
  "fixture_row scores f =
     (case f of (base, m, an, en, extra) \<Rightarrow>
        ''fixture '' @ base @ '': '' @ scores [(m, an, en)] @ '' lines='' @ show_nat m @ CHR ''/'' # show_nat en @ '' extra='' @ show_nat extra @
        (if is_fooled (m, an, en, extra) then '' fooled=yes'' else '' fooled=no'') @ [nl])"

definition handle_extract_quality :: "'w cenv \<Rightarrow> ((nat \<times> nat \<times> nat) list \<Rightarrow> string) \<Rightarrow> string \<Rightarrow> 'w \<Rightarrow> dout" where
  "handle_extract_quality x scores q w =
     (case crawl_query_param q ''dir'' 1024 of
        None \<Rightarrow> crawl_err 400 ''missing dir''
      | Some dir \<Rightarrow>
          if dir = [] then crawl_err 400 ''missing dir''
          else (case v_dir x dir w of
                  None \<Rightarrow> crawl_err 400 (''cannot open dir '' @ dir)
                | Some ns \<Rightarrow>
                    (let hs = html_files ns; fs = fixtures x dir hs w; rs = map snd fs
                     in if hs = [] then crawl_err 400 ''no html fixtures in dir''
                        else if fs = [] then crawl_err 400 ''no fixtures with goldfiles in dir''
                        else dout_of 200 (concat (map (fixture_row scores) fs) @ ''overall: fixtures='' @ show_nat (length fs) @ CHR '' '' #
                          scores (map (\<lambda>(m, an, en, extra). (m, an, en)) rs) @ '' lines='' @ show_nat (sum_list (map fst rs)) @ CHR ''/'' #
                          show_nat (sum_list (map (\<lambda>(m, an, en, extra). en) rs)) @ '' fooled='' @ show_nat (length (filter is_fooled rs)) @ [nl]))))"

subsection \<open>Requests\<close>

record 'w crawl_srv =
  y_env :: "'w cenv"
  y_net :: net_cfg
  y_conf :: cconf
  y_scores :: "(nat \<times> nat \<times> nat) list \<Rightarrow> string"
  y_spec :: string

definition strip_crawl :: "string \<Rightarrow> string" where
  "strip_crawl p =
     (if take 12 p = ''/exoexocrawl'' \<and> (length p = 12 \<or> p ! 12 = CHR ''/'') then drop 12 p else p)"

definition crawl_dispatch :: "'w crawl_srv \<Rightarrow> string \<Rightarrow> string \<Rightarrow> string \<Rightarrow> string \<Rightarrow> 'w cst \<Rightarrow> (dout \<times> 'w cst) option" where
  "crawl_dispatch y meth path0 query body s =
     (let path = strip_crawl path0
      in if path = ''/'' then Some (dout_of 200 (y_spec y), s)
         else if path = ''/ping'' then Some (dout_of 200 (''pong'' @ [nl]), s)
         else if path = ''/search'' then handle_search (y_env y) (y_net y) query s
         else if path = ''/fetch'' then handle_fetch (y_env y) (y_net y) (y_conf y) query s
         else if path = ''/scrape'' \<and> meth = ''POST'' then handle_scrape (y_env y) (y_net y) (y_conf y) body s
         else if path = ''/stats'' then Some (handle_stats s, s)
         else if path = ''/extract-quality'' then Some (handle_extract_quality (y_env y) (y_scores y) query (cw s), s)
         else Some (crawl_err 404 ''unknown path'', s))"

definition crawl_auth_ok :: "string option \<Rightarrow> string \<Rightarrow> bool" where
  "crawl_auth_ok token auth \<longleftrightarrow> (case token of None \<Rightarrow> True | Some t \<Rightarrow> t = [] \<or> auth = ''Bearer '' @ t)"

definition crawl_out :: "dout \<Rightarrow> bytes" where
  "crawl_out d =
     (let b = cstr (d_body d)
      in ''HTTP/1.1 '' @ show_int (d_status d) @ CHR '' '' # (if d_status d = 200 then ''OK'' else ''Error'') @ crlf @
         ''Content-Type: '' @ d_ctype d @ crlf @ ''Content-Length: '' @ show_nat (length b) @ crlf @
         ''Connection: close'' @ crlf @ ''Access-Control-Allow-Origin: *'' @ crlf @ crlf @ b)"

definition crawl_route :: "'w crawl_srv \<Rightarrow> rate option \<Rightarrow> int \<Rightarrow> string \<Rightarrow> string \<Rightarrow> string \<Rightarrow> string \<Rightarrow> string \<Rightarrow> 'w cst
    \<Rightarrow> (dout \<times> rate option \<times> 'w cst) option" where
  "crawl_route y rt tick meth path query body auth s =
     (if \<not> crawl_auth_ok (cc_token (y_conf y)) auth then Some (crawl_err 401 ''unauthorized'', rt, s)
      else (let (rt', ok) = (case rt of None \<Rightarrow> (None, True) | Some r \<Rightarrow> (let (r', ok) = rate_take r tick in (Some r', ok)))
            in if \<not> ok then Some (crawl_err 429 ''rate limit exceeded'', rt', s)
               else map_option (\<lambda>(d, s1). (d, rt', s1)) (crawl_dispatch y meth path query body s)))"

text \<open>
  Reading goes on until the buffer shows the end of the headers; it is searched before a terminator is
  written, so \<open>junk\<close>, what the stack held, counts behind what was received.
\<close>

definition headers_seen :: "bytes \<Rightarrow> bytes \<Rightarrow> bool" where
  "headers_seen junk b =
     (let v = cstr (b @ drop (length b) junk) in has_sub v (crlf @ crlf) \<or> (length b > 4 \<and> has_sub v [nl, nl]))"

function crawl_read :: "bytes \<Rightarrow> bytes list \<Rightarrow> bytes \<Rightarrow> bytes" where
  "crawl_read junk segs b =
     (if length b \<ge> 65535 then b
      else (case sock_read segs (65535 - length b) of
              None \<Rightarrow> b
            | Some (got, segs') \<Rightarrow>
                if got = [] \<or> headers_seen junk (b @ got) then b @ got else crawl_read junk segs' (b @ got)))"
  by pat_completeness auto
termination by (relation "measure (\<lambda>(junk, segs, b). 65535 - length b)") (auto simp flip: length_greater_0_conv)

declare crawl_read.simps [simp del]

text \<open>The last authorization line of the headers.\<close>

definition auth_line :: "string \<Rightarrow> string \<Rightarrow> string" where
  "auth_line l a =
     (if ci_prefix l ''authorization:'' then
        rev (dropWhile (\<lambda>c. c = cr \<or> c = nl \<or> c = CHR '' '' \<or> c = tab) (rev (take 511 (dropWhile (\<lambda>c. c = CHR '' '') (drop 14 l)))))
      else a)"

definition crawl_auth :: "string \<Rightarrow> string" where
  "crawl_auth hdrs = fold auth_line (split_on nl hdrs) []"

text \<open>Headers and body. The body starts four bytes after the end of the headers, whichever ended them.\<close>

definition crawl_split :: "bytes \<Rightarrow> string \<times> string" where
  "crawl_split b =
     (let s = cstr b
      in case find_sub s (crlf @ crlf) of
           Some i \<Rightarrow> (take i s, cstr (drop (i + 4) b))
         | None \<Rightarrow> (case find_sub s [nl, nl] of
                      Some i \<Rightarrow> (take (i + 1) s, cstr (drop (i + 5) b))
                    | None \<Rightarrow> (s, [])))"

definition crawl_line :: "string \<Rightarrow> string \<times> string" where
  "crawl_line s =
     (case scan_word 15 s of
        None \<Rightarrow> ([], [])
      | Some (meth, r) \<Rightarrow> (meth, case scan_word 2047 r of None \<Rightarrow> [] | Some (target, r2) \<Rightarrow> target))"

definition crawl_conn :: "'w crawl_srv \<Rightarrow> rate option \<Rightarrow> int \<Rightarrow> bytes \<Rightarrow> bytes list \<Rightarrow> 'w cst \<Rightarrow> (bytes \<times> rate option \<times> 'w cst) option" where
  "crawl_conn y rt tick junk segs s =
     (let (hdrs, body) = crawl_split (crawl_read junk segs []); (meth, target) = crawl_line hdrs;
          path = takeWhile (\<lambda>c. c \<noteq> CHR ''?'') target; query = drop (Suc (length path)) target
      in map_option (\<lambda>(d, rt', s'). (crawl_out d, rt', s')) (crawl_route y rt tick meth path query body (crawl_auth hdrs) s))"

text \<open>\<open>input\<close> is what standard input holds, \<open>None\<close> at a terminal. Exit code and what is printed.\<close>

definition crawl_console :: "'w crawl_srv \<Rightarrow> string \<Rightarrow> string \<Rightarrow> bytes option \<Rightarrow> 'w cst \<Rightarrow> (nat \<times> bytes \<times> 'w cst) option" where
  "crawl_console y path_arg body_arg input s =
     (let pq = take 511 path_arg; p0 = takeWhile (\<lambda>c. c \<noteq> CHR ''?'') pq; query = take 1535 (drop (Suc (length p0)) pq);
          path = (let p = strip_crawl p0 in if p = [] then ''/'' else p); meth = (if path = ''/scrape'' then ''POST'' else ''GET'');
          body = (if body_arg \<noteq> [] then take 65535 body_arg
                  else if meth = ''POST'' then (case input of None \<Rightarrow> [] | Some b \<Rightarrow> cstr (take 65535 b)) else [])
      in map_option (\<lambda>(d, s'). if d_status d = 404 then (2, [], s') else if d_status d \<ge> 400 then (1, [], s')
                               else (0, cstr (d_body d), s')) (crawl_dispatch y meth path query body s))"

subsection \<open>The command line\<close>

record copts =
  co_conf :: cconf
  co_net :: net_cfg
  co_serve :: bool
  co_path :: "string option"
  co_body :: string
  co_rate :: "int option"
  co_level :: int

text \<open>What ends the parsing: the exit code and the text on standard output, or a guide.\<close>

datatype crawl_end = CExit nat string | CHelp "string option"

definition crawl_defaults :: copts where
  "crawl_defaults =
     \<lparr>co_conf = \<lparr>cc_pace = 200, cc_cache = False, cc_robots = False, cc_dir = [], cc_host = [], cc_port = 7654, cc_token = None,
        cc_jobs = 16, cc_listen = 7658\<rparr>, co_net = net_init, co_serve = False, co_path = None, co_body = [], co_rate = None, co_level = 2\<rparr>"

text \<open>The environment variable: off, on, or on with a directory.\<close>

definition robots_env :: "string option \<Rightarrow> cconf \<Rightarrow> cconf" where
  "robots_env v c =
     (case v of
        None \<Rightarrow> c
      | Some e \<Rightarrow>
          (let l = map tolower e
           in if e = [] \<or> e = ''0'' \<or> l = ''false'' \<or> l = ''off'' then c
              else c\<lparr>cc_robots := True, cc_dir := (if e = ''1'' \<or> l = ''true'' \<or> l = ''on'' then cc_dir c else take 1023 e)\<rparr>))"

text \<open>An option with its value.\<close>

definition crawl_option :: "('w \<Rightarrow> string \<Rightarrow> bytes option) \<Rightarrow> 'w \<Rightarrow> string \<Rightarrow> string \<Rightarrow> copts \<Rightarrow> (crawl_end + copts) option" where
  "crawl_option fl w a v r =
     (let c = co_conf r
      in if a = ''--port'' then Some (Inr (r\<lparr>co_conf := c\<lparr>cc_listen := atoi v\<rparr>, co_serve := True\<rparr>))
         else if a = ''--body'' then Some (Inr (r\<lparr>co_body := v\<rparr>))
         else if a = ''--token'' \<or> a = ''--keys'' then Some (Inr (r\<lparr>co_conf := c\<lparr>cc_token := Some v\<rparr>\<rparr>))
         else if a = ''--rate-limit'' then Some (Inr (r\<lparr>co_rate := Some (fst (strtoll v))\<rparr>))
         else if a = ''--log-level'' then
           Some (if parse_log_level v < 0 then Inl (CExit 1 []) else Inr (r\<lparr>co_level := parse_log_level v\<rparr>))
         else if a = ''--concurrency'' then Some (Inr (r\<lparr>co_conf := c\<lparr>cc_jobs := atoi v\<rparr>\<rparr>))
         else if a = ''--pace-ms'' then Some (Inr (r\<lparr>co_conf := c\<lparr>cc_pace := atoi v\<rparr>\<rparr>))
         else if a = ''--cache'' then
           Some (Inr (r\<lparr>co_conf := c\<lparr>cc_host := fst (crawl_cache_parse v), cc_port := snd (crawl_cache_parse v), cc_cache := True\<rparr>\<rparr>))
         else if a = ''--extract'' then
           Some (Inl (case fl w v of None \<Rightarrow> CExit 1 []
                      | Some html \<Rightarrow> CExit 0 (page_head (page_extract html ''https://corpus.local/'' 1048576))))
         else if a = ''--proxy'' then Some (Inr (r\<lparr>co_net := (co_net r)\<lparr>n_proxy := Some v\<rparr>\<rparr>))
         else if a = ''--engine-base'' then Some (Inr (r\<lparr>co_net := (co_net r)\<lparr>n_base := Some v\<rparr>\<rparr>))
         else None)"

function crawl_args :: "('w \<Rightarrow> string \<Rightarrow> bytes option) \<Rightarrow> 'w \<Rightarrow> string list \<Rightarrow> copts \<Rightarrow> crawl_end + copts" where
  "crawl_args fl w [] r = Inr r"
| "crawl_args fl w (a # as) r =
     (if a = ''--serve'' then crawl_args fl w as (r\<lparr>co_serve := True\<rparr>)
      else if a = ''--version'' then Inl (CExit 0 (''exocrawl v0.4.1'' @ [nl]))
      else if a = ''--help'' \<or> a = ''-h'' then Inl (CHelp (case as of [] \<Rightarrow> None | v # _ \<Rightarrow> Some v))
      else if a = ''--robots'' then
        (let r1 = r\<lparr>co_conf := (co_conf r)\<lparr>cc_robots := True\<rparr>\<rparr>
         in if as \<noteq> [] \<and> (hd as = [] \<or> hd (hd as) \<noteq> CHR ''-'') then
              crawl_args fl w (tl as) (r1\<lparr>co_conf := (co_conf r1)\<lparr>cc_dir := take 1023 (hd as)\<rparr>\<rparr>)
            else crawl_args fl w as r1)
      else (case (if as = [] then None else crawl_option fl w a (hd as) r) of
              Some (Inl e) \<Rightarrow> Inl e
            | Some (Inr r1) \<Rightarrow> crawl_args fl w (tl as) r1
            | None \<Rightarrow>
                if a \<noteq> [] \<and> hd a = CHR ''/'' \<and> co_path r = None then crawl_args fl w as (r\<lparr>co_path := Some a\<rparr>)
                else Inl (CExit 1 [])))"
  by pat_completeness auto
termination by (relation "measure (\<lambda>(fl, w, as, r). length as)") (auto simp: less_Suc_eq_le)

declare crawl_args.simps [simp del]

definition crawl_setup :: "('w \<Rightarrow> string \<Rightarrow> bytes option) \<Rightarrow> 'w \<Rightarrow> string option \<Rightarrow> string list \<Rightarrow> crawl_end + copts" where
  "crawl_setup fl w env_robots args =
     (let r = crawl_defaults\<lparr>co_conf := robots_env env_robots (co_conf crawl_defaults)\<rparr>
      in if args \<noteq> [] \<and> hd args \<noteq> [] \<and> hd (hd args) = CHR ''/'' then crawl_args fl w (tl args) (r\<lparr>co_path := Some (hd args)\<rparr>)
         else crawl_args fl w args r)"

text \<open>
  Without a server one operation or the guide. A negative number of workers cannot be allocated. \<open>None\<close>: the
  operation is undefined; \<open>Some None\<close>: the server starts.
\<close>

definition crawl_start :: "'w crawl_srv \<Rightarrow> copts \<Rightarrow> bytes option \<Rightarrow> 'w cst \<Rightarrow> (nat \<times> bytes \<times> 'w cst) option option" where
  "crawl_start y r input s =
     (if co_serve r then Some (if cc_jobs (co_conf r) < 0 then Some (1, [], s) else None)
      else (case co_path r of
              None \<Rightarrow> Some (Some (0, y_spec y, s))
            | Some p \<Rightarrow>
                if cc_jobs (co_conf r) < 0 then Some (Some (1, [], s))
                else map_option Some (crawl_console (y\<lparr>y_net := co_net r, y_conf := co_conf r\<rparr>) p (co_body r) input s)))"

end
