(* ===== verification/Exo_Crawl_Cache.thy ===== *)
theory Exo_Crawl_Cache
  imports Exo_Crawl Exo_Wire_Ops Exo_Qms_Props
begin

text \<open>
  exocrawl's cache over the wire: the far end of its requests is exomind's \<open>http_handle_conn\<close>. What is put is
  read back for a day when it fits the request buffer; text that reads like a form is taken as one.
\<close>

subsection \<open>Requests and replies\<close>

definition cache_lines :: "string \<Rightarrow> string \<Rightarrow> bytes \<Rightarrow> string list" where
  "cache_lines meth path body =
     [meth @ CHR '' '' # path @ '' HTTP/1.1'', ''Host: localhost'', ''Connection: close'', ''Content-Length: '' @ show_nat (length body)]"

lemma cache_request_lines: "cache_request meth path body = take 8191 (hdr_block (cache_lines meth path body) @ crlf @ body)"
  by (simp add: cache_request_def cache_lines_def)

lemma cache_lines_clean:
  assumes "word_ok meth" "word_ok path"
  shows "\<forall>l \<in> set (cache_lines meth path body). clean_line l"
proof -
  have n: "cr \<notin> set (show_nat k)" "nl \<notin> set (show_nat k)" "nul \<notin> set (show_nat k)" for k using show_nat_clean by blast+
  have w: "cr \<notin> set x" "nl \<notin> set x" "nul \<notin> set x" if "word_ok x" for x using that by (auto simp: word_ok_def)
  show ?thesis using w [OF assms(1)] w [OF assms(2)] n by (auto simp: cache_lines_def clean_line_def)
qed

lemma parse_head_cache:
  assumes ok: "word_ok meth" "word_ok path" and m: "length meth \<le> 15" and b: "length body \<le> ULLONG_MAX"
  shows "parse_head (hdr_block (cache_lines meth path body)) = Some (Some (length body), sent_request meth path [] False)"
proof -
  define l where "l = meth @ CHR '' '' # path @ '' HTTP/1.1''"
  let ?ls = "tl (cache_lines meth path body)"
  have clean: "\<forall>l \<in> set (cache_lines meth path body). clean_line l" by (rule cache_lines_clean [OF ok])
  have hl: "cache_lines meth path body = l # ?ls" by (simp add: cache_lines_def l_def)
  have m0: "hdr_block (cache_lines meth path body) = l @ crlf @ hdr_block ?ls" by (subst hl) simp
  have cs: "cstr (l @ crlf @ hdr_block ?ls) = l @ crlf @ hdr_block ?ls" using msg_no_nul [OF clean] unfolding m0 by (rule cstr_id)
  have ncr: "cr \<notin> set l" using clean hl by (metis clean_line_def list.set_intros(1))
  have tl: "\<forall>l \<in> set ?ls. clean_line l" using clean hl by (metis list.set_intros(2))
  have tk: "take (length l) (l @ crlf @ hdr_block ?ls) = l" by simp
  have meth: "takeWhile (\<lambda>c. c \<noteq> CHR '' '') l = meth" unfolding l_def by (rule word_take [OF ok(1)])
  have drop1: "dropWhile (\<lambda>c. c = CHR '' '') l = l" unfolding l_def by (rule word_drop [OF ok(1)])
  have tgt: "takeWhile (\<lambda>c. c \<noteq> CHR '' '') (dropWhile (\<lambda>c. c = CHR '' '') (drop (length meth) l)) = path"
    using word_drop [OF ok(2), of "CHR '' '' # ''HTTP/1.1''"] word_take [OF ok(2), of "''HTTP/1.1''"] by (simp add: l_def)
  have fold: "fold header_line ?ls (None, r) = (Some (length body), r)" for r
    using header_line_len [OF b] header_line_host [of "''localhost''"] by (simp add: cache_lines_def header_line_conn)
  show ?thesis
    unfolding m0 parse_head_def Let_def cs find_eol_line [OF ncr] past_eol_line option.case tk drop1 meth tgt
      header_lines_msg [OF tl] prod.case_eq_if
    using m by (simp add: fold sent_request_def)
qed

lemma request_of_cache:
  assumes ok: "word_ok meth" "word_ok path" and m: "length meth \<le> 15" and b: "length body \<le> MAX_BODY"
    and h: "length (hdr_block (cache_lines meth path body)) + 2 \<le> MAX_HEADERS - 1"
  shows "request_of (hdr_block (cache_lines meth path body) @ crlf @ take k body) =
    (if k \<ge> length body then ReqOk (sent_request meth path body False) else ReqMalformed)"
proof -
  let ?m = "hdr_block (cache_lines meth path body)" and ?b = "take k body"
  have clean: "\<forall>l \<in> set (cache_lines meth path body). clean_line l" by (rule cache_lines_clean [OF ok])
  have ne: "cache_lines meth path body \<noteq> []" by (simp add: cache_lines_def)
  obtain j where j: "MAX_HEADERS - 1 = length ?m + 2 + j" using h le_Suc_ex by blast
  have tk: "take (MAX_HEADERS - 1) (?m @ crlf @ ?b) = ?m @ crlf @ take j ?b" unfolding j by (simp add: numeral_2_eq_2)
  have e: "hdr_from (take (MAX_HEADERS - 1) (?m @ crlf @ ?b)) 0 = Some (length ?m + 2)"
    unfolding tk using hdr_from_msg [OF clean ne, of _ 0] by simp
  have ub: "length body \<le> ULLONG_MAX" using b by (simp add: MAX_BODY_def ULLONG_MAX_def)
  have tm: "take (length ?m + 2 - 2) (?m @ crlf @ ?b) = ?m" by simp
  have db: "drop (length ?m + 2) (?m @ crlf @ ?b) = ?b" by simp
  show ?thesis
    using b unfolding request_of_def e option.case tm db parse_head_cache [OF ok m ub]
    by (auto simp: sent_request_def)
qed

lemma crlf4_find: "crlf4_from s i = map_option (\<lambda>k. i + k + 4) (find_sub s (crlf @ crlf))"
  by (induction s arbitrary: i) (auto simp: option.map_comp comp_def numeral_3_eq_3)

lemma find_reply_end: "find_sub (hdr_block (reply_lines rs) @ crlf @ b) (crlf @ crlf) = Some (length (hdr_block (reply_lines rs)) - 2)"
proof -
  have ne: "reply_lines rs \<noteq> []" by (simp add: reply_lines_def)
  have "map_option (\<lambda>k. 0 + k + 4) (find_sub (hdr_block (reply_lines rs) @ crlf @ b) (crlf @ crlf)) =
      Some (0 + length (hdr_block (reply_lines rs)) + 2)"
    unfolding crlf4_find [symmetric] by (rule crlf4_from_msg [OF reply_lines_clean ne])
  then show ?thesis by auto
qed

lemma reply_size:
  assumes "0 \<le> p_status rs" "p_status rs < 1000" "length (p_body rs) \<le> 60000"
  shows "length (send_response rs False) \<le> 65535"
proof -
  have "length (show_nat (length (p_body rs))) \<le> 5" using assms(3) by (intro show_nat_len) simp_all
  moreover have "length (show_int (p_status rs)) \<le> 4" using assms(1,2) show_int_len [of "p_status rs" 3] by simp
  moreover have "length (status_text (p_status rs)) \<le> 30" by (simp add: status_text_def)
  moreover have "length (ctype_text (p_ctype rs)) \<le> 40" by (simp add: ctype_text_def split: ctype.split)
  ultimately show ?thesis using assms(3) unfolding send_response_lines by (simp add: reply_lines_def)
qed

text \<open>A request of the cache: what the reader of exomind makes of it decides the reply.\<close>

lemma cache_wire:
  assumes net: "v_net x = (\<lambda>e. wire_net c ws segs segs')" and h: "inet_ok (cc_host cf)"
    and sg: "segmentation segs" "segmentation segs'"
    and conn: "http_handle_conn c [] None 0 (segs (cache_request meth path body)) ws a = Some (a', rt, rs, False)"
    and rs: "0 \<le> p_status rs" "p_status rs < 1000" "length (p_body rs) \<le> 60000" "nul \<notin> set (p_body rs)"
  shows "exomind_req x cf meth path body a = (Some (p_body rs), a')"
proof -
  let ?r = "send_response rs False" and ?m = "hdr_block (reply_lines rs)"
  have sq: "[] \<notin> set (segs' ?r)" "concat (segs' ?r) = ?r" using sg(2) by (auto simp: segmentation_def)
  have tw: "takeWhile (\<lambda>g. g \<noteq> []) (segs' ?r) = segs' ?r" using sq(1) by (auto simp: takeWhile_eq_all_conv)
  have t: "take 65535 ?r = ?r" using reply_size [OF rs(1-3)] by (rule take_all)
  have b: "take 65535 (concat (takeWhile (\<lambda>g. g \<noteq> []) (segs' ?r))) = ?m @ crlf @ p_body rs"
    unfolding tw sq(2) t by (rule send_response_lines)
  have "nul \<notin> set (?m @ crlf @ p_body rs)" using msg_no_nul [OF reply_lines_clean, of rs] rs(4) by simp
  then have cs: "cstr (?m @ crlf @ p_body rs) = ?m @ crlf @ p_body rs" by (rule cstr_id)
  have two: "2 \<le> length ?m" by (simp add: reply_lines_def)
  then have "drop (length ?m - 2 + 4) (?m @ crlf @ p_body rs) = p_body rs" by (simp add: numeral_2_eq_2)
  then have d: "cstr (drop (length ?m - 2 + 4) (?m @ crlf @ p_body rs)) = p_body rs" using cstr_id [OF rs(4)] by simp
  have ne: "?m @ crlf @ p_body rs \<noteq> []" by simp
  show ?thesis
    unfolding exomind_req_def net wire_net_def conn option.case prod.case sum.case b Let_def cs find_reply_end option.map d
    using h ne by simp
qed

text \<open>A request that fits reaches the routes; one that was cut is malformed for exomind.\<close>

lemma cache_conn:
  assumes meth: "meth \<in> set [''GET'', ''POST'']" and path: "word_ok path" "length path \<le> 100" "strip_module (fst (split_url path)) = fst (split_url path)"
    and b: "length body \<le> MAX_BODY" and sg: "segmentation segs"
    and fits: "length (hdr_block (cache_lines meth path body)) + 2 + length body \<le> 8191"
    and rt: "route c None (sent_request meth path body False) ws a = Some (a', rs)"
  shows "http_handle_conn c [] None 0 (segs (cache_request meth path body)) ws a = Some (a', None, rs, False)"
proof -
  let ?q = "cache_request meth path body"
  have words: "word_ok meth" "length meth \<le> 15" using meth by (auto simp: word_ok_def)
  have "length (hdr_block (cache_lines meth path body)) + 2 \<le> MAX_HEADERS - 1" using fits by (simp add: MAX_HEADERS_def)
  from request_of_cache [OF words(1) path(1) words(2) b this, of "length body"]
  have ro: "request_of ?q = ReqOk (sent_request meth path body False)" using fits by (simp add: cache_request_lines)
  have sq: "[] \<notin> set (segs q)" "concat (segs q) = q" for q using sg by (auto simp: segmentation_def)
  have req: "read_request (segs ?q) = ReqOk (sent_request meth path body False)" by (simp only: read_request_stream [OF sq(1)] sq(2) ro)
  obtain rq where rq: "rq = sent_request meth path body False" by simp
  have sr: "rmethod rq = meth" "rpath rq = fst (split_url path)" "rauth rq = []" by (simp_all add: rq sent_request_def)
  have same: "rq\<lparr>rpath := strip_module (rpath rq)\<rparr> = rq" using sr(2) path(3) by (cases rq) simp
  show ?thesis unfolding http_handle_conn_def req [folded rq] using rt [folded rq] meth sr same by (auto simp: auth_ok_def)
qed

lemma cache_conn_cut:
  assumes meth: "word_ok meth" "length meth \<le> 15" and path: "word_ok path" "length path \<le> 100" and b: "length body \<le> MAX_BODY"
    and sg: "segmentation segs" and long: "8191 < length (hdr_block (cache_lines meth path body)) + 2 + length body"
  shows "http_handle_conn c [] None 0 (segs (cache_request meth path body)) ws a =
    Some (a, None, plain 400 (''error: bad request'' @ [nl]), False)"
proof -
  let ?q = "cache_request meth path body" and ?m = "hdr_block (cache_lines meth path body)"
  have "length (show_nat (length body)) \<le> 8" using b by (intro show_nat_len) (simp_all add: MAX_BODY_def)
  then have sz: "length ?m + 2 \<le> 300" using meth path by (simp add: cache_lines_def)
  then have h: "length ?m + 2 \<le> MAX_HEADERS - 1" by (simp add: MAX_HEADERS_def)
  obtain j where j: "8191 = length ?m + 2 + j" using sz le_Suc_ex [of "length ?m + 2" 8191] by auto
  have q: "?q = ?m @ crlf @ take j body" unfolding cache_request_lines j by (simp add: numeral_2_eq_2)
  have ro: "request_of ?q = ReqMalformed" unfolding q using request_of_cache [OF meth(1) path(1) meth(2) b h, of j] long j by simp
  have sq: "[] \<notin> set (segs v)" "concat (segs v) = v" for v using sg by (auto simp: segmentation_def)
  have "read_request (segs ?q) = ReqMalformed" by (simp only: read_request_stream [OF sq(1)] sq(2) ro)
  then show ?thesis by (simp add: http_handle_conn_def)
qed

subsection \<open>Keys\<close>

lemma hexn_chars: "c \<in> set (show_hexn n) \<Longrightarrow> c \<in> set ''0123456789abcdef''"
proof (induction n rule: show_hexn.induct)
  case (1 n)
  have "''0123456789abcdef'' ! (k mod 16) \<in> set ''0123456789abcdef''" for k by (rule nth_mem) simp
  note d = this [of n]
  show ?case
  proof (cases "n < 16")
    case True
    then have "c = ''0123456789abcdef'' ! (n mod 16)" using 1(2) by (subst (asm) show_hexn.simps) simp
    then show ?thesis using d by blast
  next
    case False
    then have "c \<in> set (show_hexn (n div 16)) \<or> c = ''0123456789abcdef'' ! (n mod 16)"
      using 1(2) by (subst (asm) show_hexn.simps) (simp, blast)
    then show ?thesis using 1(1) [OF False] d by blast
  qed
qed

lemma hexn_length: "n < 16 ^ Suc k \<Longrightarrow> length (show_hexn n) \<le> Suc k"
proof (induction k arbitrary: n)
  case 0
  then show ?case by (subst show_hexn.simps) simp
next
  case (Suc k)
  have "n div 16 < 16 ^ Suc k" using Suc.prems by (simp add: less_mult_imp_div_less mult.commute)
  from Suc.IH [OF this] show ?case by (subst show_hexn.simps) auto
qed

lemma crawl_cache_key_ok: "raw_key (crawl_cache_key url)" "length (crawl_cache_key url) \<le> 31"
proof -
  have "unat (fnv64 url) < 2 ^ 64" using unsigned_less [of "fnv64 url"] by simp
  then have "length (show_hexn (unat (fnv64 url))) \<le> 16" using hexn_length [of _ 15] by simp
  then show l: "length (crawl_cache_key url) \<le> 31" by (simp add: crawl_cache_key_def)
  show "raw_key (crawl_cache_key url)"
    using l hexn_chars unfolding raw_key_def key_word_def by (auto simp: crawl_cache_key_def dest!: hexn_chars)
qed

subsection \<open>What exomind does with a page\<close>

definition put_target :: "string \<Rightarrow> string" where
  "put_target k = ''/set?key='' @ k @ ''&ttl=86400''"

lemma put_target_params:
  assumes "raw_key k" "length k \<le> 31"
  shows "split_url (put_target k) = (''/set'', ''key='' @ k @ ''&ttl=86400'')" "qp_key (''key='' @ k @ ''&ttl=86400'') = KKey k"
    "qp_int (''key='' @ k @ ''&ttl=86400'') ''ttl'' 0 = 86400" "qp_str (''key='' @ k @ ''&ttl=86400'') ''append'' n = None"
    "qp_str (''key='' @ k @ ''&ttl=86400'') ''proj'' 8 = None" "word_ok (put_target k)" "length (put_target k) \<le> 100"
proof -
  have k: "nul \<notin> set k" "CHR ''&'' \<notin> set k" "CHR ''%'' \<notin> set k" "CHR ''+'' \<notin> set k" "CHR ''?'' \<notin> set k"
    using assms by (auto simp: raw_key_def key_word_def)
  obtain q where q: "q = ''key='' @ k @ ''&ttl=86400''" by simp
  have "take 8191 q = q" "take 2047 ''/set'' = ''/set''" using assms(2) by (simp_all add: q)
  then show "split_url (put_target k) = (''/set'', ''key='' @ k @ ''&ttl=86400'')"
    unfolding q [symmetric] by (simp add: split_url_def put_target_def) (simp add: q)
  have "CHR ''&'' \<notin> set (''key='' @ k)" using k(2) by simp
  from split_on_append [OF this, of "''ttl=86400''"]
  have sp: "split_on (CHR ''&'') (''key='' @ k @ ''&ttl=86400'') = [''key='' @ k, ''ttl=86400'']" by simp
  have raw: "qp_raw (''key='' @ k @ ''&ttl=86400'') ''key'' = Some k" "qp_raw (''key='' @ k @ ''&ttl=86400'') ''ttl'' = Some ''86400''"
    "qp_raw (''key='' @ k @ ''&ttl=86400'') ''append'' = None" "qp_raw (''key='' @ k @ ''&ttl=86400'') ''proj'' = None"
    unfolding qp_raw_def sp using assms by (simp_all add: raw_key_def key_word_def)
  show "qp_key (''key='' @ k @ ''&ttl=86400'') = KKey k"
    unfolding qp_key_def raw using url_decode_id [OF k(3,4)] cstr_id [OF k(1)] assms(2) by (simp add: MAX_KEY_def)
  show "qp_str (''key='' @ k @ ''&ttl=86400'') ''append'' n = None" "qp_str (''key='' @ k @ ''&ttl=86400'') ''proj'' 8 = None"
    unfolding qp_str_def raw by simp_all
  have "url_decode ''86400'' = ''86400''" by (rule url_decode_id) simp_all
  moreover have "strtoll ''86400'' = (86400, [])"
  proof -
    have "show_int 86400 = ''86400''" by (simp add: show_int_def show_nat.simps) code_simp
    moreover have "strtoll (show_int 86400 @ []) = (86400, [])" by (intro strtoll_show_int) (auto simp: LLONG_MIN_def LLONG_MAX_def)
    ultimately show ?thesis by simp
  qed
  ultimately show "qp_int (''key='' @ k @ ''&ttl=86400'') ''ttl'' 0 = 86400"
    unfolding qp_int_def qp_str_def raw by (simp add: cstr_def)
  show "word_ok (put_target k)" "length (put_target k) \<le> 100"
    using assms by (auto simp: put_target_def word_ok_def raw_key_def key_word_def)
qed

text \<open>A set whose arguments are known, through the routes.\<close>

lemma route_set:
  assumes sim: "sim t0 (a_main a) m" "t0 \<le> t" "int64 t" and proj: "a_proj a = None" and key: "key_ok key" and v: "length v \<le> MAX_VAL"
    and args: "set_args_of rq = Some \<lparr>sa_key = Some key, sa_val = v, sa_ttl = ttl, sa_app = False\<rparr>"
    and rq: "rmethod rq = ''POST''" "rpath rq = ''/set''"
  shows "\<exists>a'. route c None rq (\<lambda>_. healthy t) a = Some (a', plain 200 ''ok'') \<and> a_proj a' = None \<and>
      sim t (a_main a') (m(key \<mapsto> (v, t, if clamp_ttl ttl \<noteq> 0 then t + clamp_ttl ttl * 1000 else 0)))"
proof -
  let ?s = "fst (store_set (a_main a) key v ttl False (healthy t))"
  have "sim t (a_main a) m" using sim(1,2) by (rule sim_mono)
  then obtain rs where inv: "store_inv t rs (a_main a)" by (auto simp: sim_def)
  have rc: "snd (store_set (a_main a) key v ttl False (healthy t)) = 0"
    using v sim(3) by (intro store_set_ok(1) [OF inv key]) (simp_all add: set_value_def)
  have "key \<noteq> []" "\<not> MAX_KEY < length key" using key by (auto simp: key_ok_def)
  then have "do_set None rq (\<lambda>_. healthy t) a = (a\<lparr>a_main := ?s\<rparr>, plain 200 ''ok'')"
    using v rc proj
    by (simp add: do_set_def args tok_can_write_def tok_allows_key_def pick_store_def pick_proj_def srv_set_def use_main
        case_prod_unfold Let_def)
  then have "route c None rq (\<lambda>_. healthy t) a = Some (a\<lparr>a_main := ?s\<rparr>, plain 200 ''ok'')" by (simp add: route_def rq)
  moreover have "sim t ?s (spec_cmd t (CSet key v ttl False) m)" using exec_sim [OF sim, of "CSet key v ttl False"] v by (simp add: spec_value_def)
  ultimately show ?thesis using key v proj by (simp add: spec_value_def)
qed

definition cache_fits :: "bytes \<Rightarrow> bool" where
  "cache_fits txt \<longleftrightarrow> length txt \<le> 8065"

lemma put_size:
  assumes "raw_key k" "length k \<le> 31" "cache_fits txt"
  shows "length (hdr_block (cache_lines ''POST'' (put_target k) txt)) + 2 + length txt \<le> 8191"
proof -
  have "length (show_nat (length txt)) \<le> 4" using assms(3) by (intro show_nat_len) (simp_all add: cache_fits_def)
  then show ?thesis using assms by (simp add: cache_lines_def put_target_def cache_fits_def)
qed

text \<open>Whatever exomind takes the text for: the arguments of its set decide.\<close>

lemma put_stores:
  assumes net: "v_net x = (\<lambda>e. wire_net c (\<lambda>_. healthy t) segs segs')" "inet_ok (cc_host cf)" "cc_cache cf"
    and sg: "segmentation segs" "segmentation segs'"
    and sim: "sim t0 (a_main (cw s)) m" "t0 \<le> t" "int64 t" and proj: "a_proj (cw s) = None"
    and key: "key_ok key" and v: "length v \<le> MAX_VAL" and fits: "cache_fits txt"
    and args: "set_args_of (sent_request ''POST'' (put_target (crawl_cache_key url)) txt False) =
      Some \<lparr>sa_key = Some key, sa_val = v, sa_ttl = ttl, sa_app = False\<rparr>"
  shows "\<exists>a'. crawl_cache_put x cf url txt s = s\<lparr>cw := a'\<rparr> \<and> a_proj a' = None \<and>
      sim t (a_main a') (m(key \<mapsto> (v, t, if clamp_ttl ttl \<noteq> 0 then t + clamp_ttl ttl * 1000 else 0)))"
proof -
  note k = crawl_cache_key_ok [of url]
  let ?p = "put_target (crawl_cache_key url)"
  note tg = put_target_params [OF k]
  have sr: "rmethod (sent_request ''POST'' ?p txt False) = ''POST''" "rpath (sent_request ''POST'' ?p txt False) = ''/set''"
    by (simp_all add: sent_request_def tg(1))
  obtain a' where rt: "route c None (sent_request ''POST'' ?p txt False) (\<lambda>_. healthy t) (cw s) = Some (a', plain 200 ''ok'')"
    and a': "a_proj a' = None" "sim t (a_main a') (m(key \<mapsto> (v, t, if clamp_ttl ttl \<noteq> 0 then t + clamp_ttl ttl * 1000 else 0)))"
    using route_set [OF sim proj key v args sr] by blast
  have sm: "strip_module (fst (split_url ?p)) = fst (split_url ?p)" by (simp add: tg(1) strip_module_def)
  have b: "length txt \<le> MAX_BODY" using fits by (simp add: cache_fits_def MAX_BODY_def)
  have "http_handle_conn c [] None 0 (segs (cache_request ''POST'' ?p txt)) (\<lambda>_. healthy t) (cw s) = Some (a', None, plain 200 ''ok'', False)"
    by (rule cache_conn [OF _ tg(6,7) sm b sg(1) put_size [OF k fits] rt]) simp
  from cache_wire [OF net(1,2) sg this]
  have "exomind_req x cf ''POST'' ?p txt (cw s) = (Some ''ok'', a')" by (simp add: plain_def)
  then have "crawl_cache_put x cf url txt s = s\<lparr>cw := a'\<rparr>" using net(3) by (simp add: crawl_cache_put_def put_target_def)
  then show ?thesis using a' by blast
qed

lemma get_cached:
  assumes net: "v_net x = (\<lambda>e. wire_net c (\<lambda>_. healthy t) segs segs')" "inet_ok (cc_host cf)" "cc_cache cf"
    and sg: "segmentation segs" "segmentation segs'" and proj: "a_proj (cw s) = None"
    and v: "view (a_main (cw s)) t (crawl_cache_key url) = Some (v, y)" "length v \<le> 60000" "nul \<notin> set v" "take 7 v \<noteq> ''missing''"
  shows "\<exists>s'. crawl_cache_get x cf url s = (Some v, s')"
proof -
  note k = crawl_cache_key_ok [of url]
  let ?tg = "''/get?key='' @ crawl_cache_key url" and ?a = "(cw s)\<lparr>a_main := fst (store_get (a_main (cw s)) (crawl_cache_key url) t)\<rparr>"
  note tg = raw_key_target [OF k(1)]
  obtain rq where rq: "rq = sent_request ''GET'' ?tg [] False" by simp
  obtain q where q: "q = ''key='' @ crawl_cache_key url" by simp
  have qk: "qp_key q = KKey (crawl_cache_key url)" unfolding q by (rule tg(2))
  have sr: "rmethod rq = ''GET''" "rpath rq = ''/get''" "rquery rq = q"
    unfolding rq sent_request_def tg(1) q by simp_all
  have kp: "take 2 (crawl_cache_key url) \<noteq> ''p:''" "crawl_cache_key url \<noteq> []" by (simp_all add: crawl_cache_key_def)
  have "snd (store_get (a_main (cw s)) (crawl_cache_key url) t) = Some (v, fst y)" using v(1) by (simp add: store_get_view split: prod.split)
  then have "do_get None rq (\<lambda>_. healthy t) (cw s) = (?a, plain 200 v)"
    using proj kp by (simp add: do_get_def with_key_def sr qk tok_allows_key_def pick_store_def pick_proj_def srv_get_def use_main
        case_prod_unfold Let_def)
  then have rt: "route c None (sent_request ''GET'' ?tg [] False) (\<lambda>_. healthy t) (cw s) = Some (?a, plain 200 v)"
    unfolding rq [symmetric] by (simp add: route_def sr)
  have sm: "strip_module (fst (split_url ?tg)) = fst (split_url ?tg)" unfolding tg(1) by (simp add: strip_module_def)
  have n0: "show_nat 0 = ''0''" by (simp add: show_nat.simps) code_simp
  have tl: "length ?tg \<le> 100" using k(2) by simp
  have sz: "length (hdr_block (cache_lines ''GET'' ?tg [])) + 2 + length ([] :: bytes) \<le> 8191"
    using k(2) by (simp add: cache_lines_def n0)
  have "http_handle_conn c [] None 0 (segs (cache_request ''GET'' ?tg [])) (\<lambda>_. healthy t) (cw s) = Some (?a, None, plain 200 v, False)"
    by (rule cache_conn [OF _ tg(3) tl sm _ sg(1) sz rt]) simp_all
  from cache_wire [OF net(1,2) sg this]
  have "exomind_req x cf ''GET'' ?tg [] (cw s) = (Some v, ?a)" using v(2,3) by (simp add: plain_def)
  then show ?thesis using net(3) v(4) by (simp add: crawl_cache_get_def)
qed

text \<open>A page that fits is answered from the cache for a day, whatever the new request asks for.\<close>

lemma cached_for_a_day:
  assumes nets: "v_net x = (\<lambda>e. wire_net c (\<lambda>_. healthy t) segs segs')" "v_net x' = (\<lambda>e. wire_net c (\<lambda>_. healthy t') segs segs')"
    and cf: "inet_ok (cc_host cf)" "cc_cache cf" and sg: "segmentation segs" "segmentation segs'"
    and sim: "sim t0 (a_main (cw s)) m" "t0 \<le> t" "int64 t" and later: "t \<le> t'" "t' < t + 86400000" and proj: "a_proj (cw s) = None"
    and page: "raw_body txt" "cache_fits txt" "nul \<notin> set txt" "take 7 txt \<noteq> ''missing''"
  shows "\<exists>s'. crawl_cache_get x' cf url (crawl_cache_put x cf url txt s) = (Some txt, s')"
proof -
  let ?k = "crawl_cache_key url"
  note k = crawl_cache_key_ok [of url]
  note tg = put_target_params [OF k]
  have ko: "key_ok ?k" using k(2) by (simp add: key_ok_def MAX_KEY_def crawl_cache_key_def)
  have mv: "length txt \<le> MAX_VAL" using page(2) by (simp add: cache_fits_def MAX_VAL_def)
  have args: "set_args_of (sent_request ''POST'' (put_target ?k) txt False) =
      Some \<lparr>sa_key = Some ?k, sa_val = txt, sa_ttl = 86400, sa_app = False\<rparr>"
  proof -
    obtain rq where rq: "rq = sent_request ''POST'' (put_target ?k) txt False" by simp
    have sr: "rquery rq = ''key='' @ ?k @ ''&ttl=86400''" "rbody rq = txt" "\<not> rjson rq"
      unfolding rq sent_request_def tg(1) by simp_all
    have "set_args_of rq = set_raw rq" using page(1) sr(3) by (auto simp: set_args_of_def Let_def raw_body_def sr(2))
    also have "\<dots> = Some \<lparr>sa_key = Some ?k, sa_val = txt, sa_ttl = 86400, sa_app = False\<rparr>"
      unfolding set_raw_def sr tg by simp
    finally show ?thesis by (simp only: rq)
  qed
  from put_stores [OF nets(1) cf sg sim proj ko mv page(2) args] obtain a' where
    a': "crawl_cache_put x cf url txt s = s\<lparr>cw := a'\<rparr>" "a_proj a' = None"
    "sim t (a_main a') (m(?k \<mapsto> (txt, t, t + 86400000)))" by (auto simp: clamp_ttl_def)
  have "view (a_main a') t' ?k = Some (txt, t, t + 86400000)"
    using sim_view [OF a'(3) later(1), THEN fun_cong, of ?k] later by (simp add: live_at_def)
  moreover have "length txt \<le> 60000" using page(2) by (simp add: cache_fits_def)
  ultimately show ?thesis unfolding a'(1) using a'(2) page(3,4) by (intro get_cached [OF nets(2) cf sg]) simp_all
qed

text \<open>A longer page never reaches the store: the request is cut in front of its end.\<close>

lemma long_page_not_cached:
  assumes net: "v_net x = (\<lambda>e. wire_net c ws segs segs')" and cf: "inet_ok (cc_host cf)"
    and sg: "segmentation segs" "segmentation segs'" and long: "8100 \<le> length txt" "length txt \<le> MAX_BODY"
  shows "crawl_cache_put x cf url txt s = s"
proof -
  note k = crawl_cache_key_ok [of url]
  note tg = put_target_params [OF k]
  let ?p = "put_target (crawl_cache_key url)"
  have "8191 < length (hdr_block (cache_lines ''POST'' ?p txt)) + 2 + length txt"
    using long(1) by (simp add: cache_lines_def put_target_def crawl_cache_key_def)
  from cache_conn_cut [OF _ _ tg(6,7) long(2) sg(1) this, of c ws "cw s"]
  have cn: "http_handle_conn c [] None 0 (segs (cache_request ''POST'' ?p txt)) ws (cw s) =
      Some (cw s, None, plain 400 (''error: bad request'' @ [nl]), False)" by (simp add: word_ok_def)
  have "snd (exomind_req x cf ''POST'' ?p txt (cw s)) = cw s"
    using cache_wire [OF net cf sg cn] by (simp add: plain_def)
  then show ?thesis by (simp add: crawl_cache_put_def put_target_def)
qed

text \<open>A page whose text contains a key and a value as a form would: exomind sets that key.\<close>

definition plain_word :: "string \<Rightarrow> bool" where
  "plain_word k \<longleftrightarrow>
     k \<noteq> [] \<and> CHR ''&'' \<notin> set k \<and> CHR ''='' \<notin> set k \<and> CHR ''%'' \<notin> set k \<and> CHR ''+'' \<notin> set k \<and> nul \<notin> set k"

definition form_page :: "string \<Rightarrow> string \<Rightarrow> string \<Rightarrow> string" where
  "form_page pre k v = pre @ ''&key='' @ k @ ''&value='' @ v"

lemma form_page_args:
  assumes pre: "plain_word pre" "hd pre \<noteq> CHR ''{''" and k: "plain_word k" "length k \<le> MAX_KEY" and v: "plain_word v"
    and rq: "rbody rq = form_page pre k v" "\<not> rjson rq"
  shows "set_args_of rq = Some \<lparr>sa_key = Some k, sa_val = v, sa_ttl = 0, sa_app = False\<rparr>"
proof -
  have nz: "nul \<notin> set (form_page pre k v)" using pre(1) k(1) v by (simp add: form_page_def plain_word_def)
  have amp: "CHR ''&'' \<notin> set pre" "CHR ''&'' \<notin> set k" "CHR ''&'' \<notin> set v" "CHR ''='' \<notin> set pre" "pre \<noteq> []"
    using pre(1) k(1) v by (simp_all add: plain_word_def)
  have "strtok_all (\<lambda>x. x = CHR ''&'') (join_with (CHR ''&'') [pre, ''key='' @ k, ''value='' @ v]) = [pre, ''key='' @ k, ''value='' @ v]"
    using amp by (intro strtok_all_join) simp
  then have tk: "strtok_all (\<lambda>x. x = CHR ''&'') (form_page pre k v) = [pre, ''key='' @ k, ''value='' @ v]" by (simp add: form_page_def)
  have pairs: "form_pairs (form_page pre k v) = [''key='' @ k, ''value='' @ v]"
    unfolding form_pairs_def cstr_id [OF nz] tk using amp(4) by simp
  have form: "is_form_body (form_page pre k v)" by (simp add: is_form_body_def pairs pair_name_def)
  have ne: "form_page pre k v \<noteq> []" "hd (form_page pre k v) \<noteq> CHR ''{''" using pre(2) amp(5) by (simp_all add: form_page_def)
  have d: "url_decode k = k" "url_decode v = v" "cstr k = k"
    using k(1) v by (simp_all add: plain_word_def url_decode_id cstr_id)
  have nm: "url_decode ''key'' = ''key''" "url_decode ''value'' = ''value''" "cstr ''key'' = ''key''" "cstr ''value'' = ''value''"
    by (simp_all add: url_decode_id cstr_def)
  have pn: "pair_name (''key='' @ k) = ''key''" "pair_name (''value='' @ v) = ''value''"
    "pair_value (''key='' @ k) = k" "pair_value (''value='' @ v) = v" by (simp_all add: pair_name_def pair_value_def)
  obtain pk pv where p: "pk = ''key='' @ k" "pv = ''value='' @ v" by simp
  note ps = pairs [folded p] pn [folded p]
  show ?thesis using ne rq k(2) by (simp add: set_args_of_def form ps set_form.simps nm d Let_def)
qed

lemma page_sets_key:
  assumes net: "v_net x = (\<lambda>e. wire_net c (\<lambda>_. healthy t) segs segs')" "inet_ok (cc_host cf)" "cc_cache cf"
    and sg: "segmentation segs" "segmentation segs'"
    and sim: "sim t0 (a_main (cw s)) m" "t0 \<le> t" "int64 t" and proj: "a_proj (cw s) = None"
    and pre: "plain_word pre" "hd pre \<noteq> CHR ''{''" and k: "plain_word k" "length k \<le> MAX_KEY" and v: "plain_word v"
    and fits: "cache_fits (form_page pre k v)"
  shows "\<exists>a'. crawl_cache_put x cf url (form_page pre k v) s = s\<lparr>cw := a'\<rparr> \<and> sim t (a_main a') (m(k \<mapsto> (v, t, 0)))"
proof -
  let ?rq = "sent_request ''POST'' (put_target (crawl_cache_key url)) (form_page pre k v) False"
  have rb: "rbody ?rq = form_page pre k v" "\<not> rjson ?rq" by (simp_all add: sent_request_def)
  have ko: "key_ok k" using k by (auto simp: key_ok_def plain_word_def)
  have "length v \<le> MAX_VAL" using fits by (simp add: cache_fits_def MAX_VAL_def form_page_def)
  from put_stores [OF net sg sim proj ko this fits form_page_args [OF pre k v rb]] show ?thesis by (auto simp: clamp_ttl_def)
qed

end
