(* ===== verification/Exo_Crawl_Pool.thy ===== *)
theory Exo_Crawl_Pool
  imports Exo_Prelude "HOL-Library.Multiset"
begin

text \<open>
  The worker pool of exocrawl (\<open>exocrawl/src/pool.c\<close>) as a step relation: every step is one critical
  section of its mutex. Workers and callers of \<open>pool_wait\<close> sleep on the same condition variable, so the
  signal of a submission may wake either.
\<close>

text \<open>
  The queue, the jobs that run, the workers that are about to take the mutex and those that sleep, the
  callers that are about to test and those that sleep, the jobs that are finished, and all that were submitted.
\<close>

record 'j pool =
  q_jobs :: "'j list"
  q_busy :: "'j list"
  q_ready :: nat
  q_asleep :: nat
  q_callers :: nat
  q_waiting :: nat
  q_done :: "'j list"
  q_all :: "'j list"

definition pool_init :: "nat \<Rightarrow> 'j pool" where
  "pool_init n =
     \<lparr>q_jobs = [], q_busy = [], q_ready = (if n = 0 then 8 else n), q_asleep = 0, q_callers = 0, q_waiting = 0, q_done = [], q_all = []\<rparr>"

definition pool_idle :: "'j pool \<Rightarrow> bool" where
  "pool_idle p \<longleftrightarrow> q_jobs p = [] \<and> q_busy p = []"

text \<open>The worker: takes the first job or goes to sleep; at the end of a job the last one wakes everybody.\<close>

definition worker_take :: "'j pool \<Rightarrow> 'j pool" where
  "worker_take p = p\<lparr>q_jobs := tl (q_jobs p), q_busy := hd (q_jobs p) # q_busy p, q_ready := q_ready p - 1\<rparr>"

definition worker_sleep :: "'j pool \<Rightarrow> 'j pool" where
  "worker_sleep p = p\<lparr>q_ready := q_ready p - 1, q_asleep := q_asleep p + 1\<rparr>"

definition worker_finish :: "'j \<Rightarrow> 'j pool \<Rightarrow> 'j pool" where
  "worker_finish j p =
     (let p1 = p\<lparr>q_busy := remove1 j (q_busy p), q_done := q_done p @ [j], q_ready := q_ready p + 1\<rparr>
      in if pool_idle p1 then
           p1\<lparr>q_ready := q_ready p1 + q_asleep p1, q_asleep := 0, q_callers := q_callers p1 + q_waiting p1, q_waiting := 0\<rparr>
         else p1)"

definition pool_enqueue :: "'j \<Rightarrow> 'j pool \<Rightarrow> 'j pool" where
  "pool_enqueue j p = p\<lparr>q_jobs := q_jobs p @ [j], q_all := q_all p @ [j]\<rparr>"

definition wake_worker :: "'j pool \<Rightarrow> 'j pool" where
  "wake_worker p = p\<lparr>q_asleep := q_asleep p - 1, q_ready := q_ready p + 1\<rparr>"

definition wake_caller :: "'j pool \<Rightarrow> 'j pool" where
  "wake_caller p = p\<lparr>q_waiting := q_waiting p - 1, q_callers := q_callers p + 1\<rparr>"

text \<open>\<open>pool_wait\<close>: a caller that finds work sleeps, otherwise it returns.\<close>

definition caller_sleep :: "'j pool \<Rightarrow> 'j pool" where
  "caller_sleep p = p\<lparr>q_callers := q_callers p - 1, q_waiting := q_waiting p + 1\<rparr>"

inductive pool_step :: "'j pool \<Rightarrow> 'j pool \<Rightarrow> bool" where
  take_job: "0 < q_ready p \<Longrightarrow> q_jobs p \<noteq> [] \<Longrightarrow> pool_step p (worker_take p)"
| no_job: "0 < q_ready p \<Longrightarrow> q_jobs p = [] \<Longrightarrow> pool_step p (worker_sleep p)"
| finish_job: "j \<in> set (q_busy p) \<Longrightarrow> pool_step p (worker_finish j p)"
| submit_worker: "0 < q_asleep p \<Longrightarrow> pool_step p (wake_worker (pool_enqueue j p))"
| submit_caller: "0 < q_waiting p \<Longrightarrow> pool_step p (wake_caller (pool_enqueue j p))"
| submit_none: "q_asleep p = 0 \<Longrightarrow> q_waiting p = 0 \<Longrightarrow> pool_step p (pool_enqueue j p)"
| enter: "pool_step p (p\<lparr>q_callers := q_callers p + 1\<rparr>)"
| wait_more: "0 < q_callers p \<Longrightarrow> \<not> pool_idle p \<Longrightarrow> pool_step p (caller_sleep p)"
| leave: "0 < q_callers p \<Longrightarrow> pool_idle p \<Longrightarrow> pool_step p (p\<lparr>q_callers := q_callers p - 1\<rparr>)"
| spurious_worker: "0 < q_asleep p \<Longrightarrow> pool_step p (wake_worker p)"
| spurious_caller: "0 < q_waiting p \<Longrightarrow> pool_step p (wake_caller p)"

lemmas pool_defs = worker_take_def worker_sleep_def worker_finish_def pool_enqueue_def wake_worker_def wake_caller_def
  caller_sleep_def pool_idle_def

text \<open>
  There are workers; nobody waits for an idle pool; a queued job has a worker that is awake; no job is
  lost or doubled.
\<close>

definition pool_ok :: "'j pool \<Rightarrow> bool" where
  "pool_ok p \<longleftrightarrow>
     0 < q_ready p + q_asleep p + length (q_busy p) \<and>
     (0 < q_waiting p \<longrightarrow> \<not> pool_idle p) \<and>
     (q_jobs p \<noteq> [] \<longrightarrow> 0 < q_ready p \<or> q_busy p \<noteq> []) \<and>
     mset (q_all p) = mset (q_jobs p) + mset (q_busy p) + mset (q_done p)"

lemma pool_ok_init: "pool_ok (pool_init n)"
  by (simp add: pool_ok_def pool_init_def)

lemma pool_ok_finish:
  assumes ok: "pool_ok p" and j: "j \<in> set (q_busy p)"
  shows "pool_ok (worker_finish j p)"
proof -
  define B where "B = remove1 j (q_busy p)"
  have "mset (q_busy p) = add_mset j (mset B)" using j by (simp add: B_def)
  then show ?thesis using ok by (auto simp: pool_ok_def pool_defs Let_def B_def [symmetric])
qed

lemma pool_ok_step: "pool_step p p' \<Longrightarrow> pool_ok p \<Longrightarrow> pool_ok p'"
proof (induction rule: pool_step.induct)
  case (take_job p)
  then show ?case by (cases "q_jobs p") (auto simp: pool_ok_def pool_defs)
next
  case (finish_job j p)
  then show ?case by (simp add: pool_ok_finish)
qed (auto simp: pool_ok_def pool_defs)

lemma pool_ok_reachable: "pool_step\<^sup>*\<^sup>* (pool_init n) p \<Longrightarrow> pool_ok p"
  by (induction rule: rtranclp_induct) (auto intro: pool_ok_init pool_ok_step)

text \<open>The workers alone finish everything: a measure on what is left.\<close>

lemma pool_drains:
  assumes "pool_ok p"
  shows "\<exists>p'. pool_step\<^sup>*\<^sup>* p p' \<and> pool_idle p' \<and> q_all p' = q_all p"
  using assms
proof (induction "2 * length (q_jobs p) + length (q_busy p)" arbitrary: p rule: less_induct)
  case less
  show ?case
  proof (cases "q_busy p = []")
    case busy: True
    show ?thesis
    proof (cases "q_jobs p = []")
      case True
      then show ?thesis using busy by (intro exI [of _ p]) (simp add: pool_idle_def)
    next
      case False
      then have st: "pool_step p (worker_take p)" using less.prems busy by (auto simp: pool_ok_def intro: take_job)
      have "2 * length (q_jobs (worker_take p)) + length (q_busy (worker_take p)) < 2 * length (q_jobs p) + length (q_busy p)"
        using False by (cases "q_jobs p") (auto simp: worker_take_def)
      from less.hyps [OF this pool_ok_step [OF st less.prems]] obtain p' where
        "pool_step\<^sup>*\<^sup>* (worker_take p) p'" "pool_idle p'" "q_all p' = q_all (worker_take p)" by blast
      then show ?thesis using st by (intro exI [of _ p']) (auto simp: worker_take_def)
    qed
  next
    case False
    then obtain j where j: "j \<in> set (q_busy p)" by (meson last_in_set)
    have st: "pool_step p (worker_finish j p)" using j by (rule finish_job)
    have "length (q_busy p) \<noteq> 0" using False by simp
    then have "2 * length (q_jobs (worker_finish j p)) + length (q_busy (worker_finish j p)) < 2 * length (q_jobs p) + length (q_busy p)"
      using j by (simp add: worker_finish_def Let_def length_remove1)
    from less.hyps [OF this pool_ok_step [OF st less.prems]] obtain p' where
      "pool_step\<^sup>*\<^sup>* (worker_finish j p) p'" "pool_idle p'" "q_all p' = q_all (worker_finish j p)" by blast
    then show ?thesis using st by (intro exI [of _ p']) (auto simp: worker_finish_def Let_def)
  qed
qed

end
