(* ===== verification/Exo_Crawl_Props.thy ===== *)
theory Exo_Crawl_Props
  imports Exo_Crawl_Cache Exo_Crawl_Pool
begin

text \<open>
  exocrawl: the pauses between requests to a host, what a robots file forbids, how much a page can give, and
  which results a search can return.
\<close>

subsection \<open>Pacing\<close>

text \<open>Calls of \<open>pace_wait\<close> in the order of its mutex: host, least distance, time of the call. The start of each request.\<close>

fun pace_run :: "(string \<times> int) list \<Rightarrow> (string \<times> int \<times> int) list \<Rightarrow> int list" where
  "pace_run ps [] = []"
| "pace_run ps ((h, m, now) # cs) = (now + fst (pace_calc ps h m now)) # pace_run (snd (pace_calc ps h m now)) cs"

definition call_ok :: "string \<times> int \<times> int \<Rightarrow> bool" where
  "call_ok c \<longleftrightarrow> (case c of (h, m, now) \<Rightarrow> length h \<le> 255 \<and> 0 \<le> m \<and> 0 < now)"

lemma pace_put_map: "map_of ps h \<noteq> None \<Longrightarrow> map_of (pace_put h t ps) = (map_of ps)(h \<mapsto> t)"
proof (induction ps)
  case (Cons p ps)
  then show ?case by (cases p) (auto simp: fun_eq_iff)
qed simp

lemma pace_calc_map:
  "length h \<le> 255 \<Longrightarrow> map_of (snd (pace_calc ps h m now)) = (map_of ps)(h \<mapsto> now + fst (pace_calc ps h m now))"
  by (auto simp: pace_calc_def Let_def pace_put_map split: option.split)

lemma pace_calc_start:
  "now \<le> now + fst (pace_calc ps h m now)"
  "map_of ps h = Some t \<Longrightarrow> 0 < t \<Longrightarrow> t + m \<le> now + fst (pace_calc ps h m now)"
  by (auto simp: pace_calc_def Let_def)

lemma pace_run_length [simp]: "length (pace_run ps cs) = length cs"
  by (induction ps cs rule: pace_run.induct) auto

lemma pace_run_after:
  "\<forall>c \<in> set cs. call_ok c \<Longrightarrow> map_of ps h = Some t \<Longrightarrow> 0 < t \<Longrightarrow> i < length cs \<Longrightarrow> fst (cs ! i) = h \<Longrightarrow>
    t + fst (snd (cs ! i)) \<le> pace_run ps cs ! i"
proof (induction cs arbitrary: ps t i)
  case (Cons c cs)
  obtain g m now where c: "c = (g, m, now)" by (cases c)
  have ok: "length g \<le> 255" "0 \<le> m" "0 < now" using Cons.prems(1) by (auto simp: c call_ok_def)
  let ?ps = "snd (pace_calc ps g m now)" and ?st = "now + fst (pace_calc ps g m now)"
  note mp = pace_calc_map [OF ok(1), of ps m now]
  show ?case
  proof (cases i)
    case 0
    then show ?thesis using Cons.prems pace_calc_start(2) [of ps h t m now] by (simp add: c)
  next
    case (Suc k)
    obtain u where u: "map_of ?ps h = Some u" "t \<le> u"
    proof (cases "g = h")
      case True
      then have "t + m \<le> ?st" using pace_calc_start(2) Cons.prems(2,3) by simp
      then have "t \<le> ?st" using ok(2) by linarith
      moreover have "map_of ?ps h = Some ?st" unfolding mp using True by simp
      ultimately show ?thesis using that by blast
    next
      case False
      then show ?thesis using that [of t] Cons.prems(2) by (simp add: mp)
    qed
    then have "u + fst (snd (cs ! k)) \<le> pace_run ?ps cs ! k" using Cons.prems Suc by (intro Cons.IH) auto
    then show ?thesis using u(2) by (simp add: c Suc)
  qed
qed simp

lemma pace_run_spaced:
  "\<forall>c \<in> set cs. call_ok c \<Longrightarrow> i < j \<Longrightarrow> j < length cs \<Longrightarrow> fst (cs ! i) = fst (cs ! j) \<Longrightarrow>
    pace_run ps cs ! i + fst (snd (cs ! j)) \<le> pace_run ps cs ! j"
proof (induction cs arbitrary: ps i j)
  case (Cons c cs)
  obtain g m now where c: "c = (g, m, now)" by (cases c)
  have ok: "length g \<le> 255" "0 < now" using Cons.prems(1) by (auto simp: c call_ok_def)
  obtain l where j: "j = Suc l" using Cons.prems(2) by (cases j) auto
  show ?case
  proof (cases i)
    case 0
    have "0 < now + fst (pace_calc ps g m now)" using ok(2) pace_calc_start(1) [of now ps g m] by simp
    then show ?thesis using Cons.prems pace_calc_map [OF ok(1), of ps m now]
      by (simp add: c 0 j) (rule pace_run_after; simp)
  next
    case (Suc k)
    then show ?thesis using Cons.prems Cons.IH [of k l] by (simp add: c j)
  qed
qed simp

lemma pace_run_not_early: "i < length cs \<Longrightarrow> snd (snd (cs ! i)) \<le> pace_run ps cs ! i"
proof (induction ps cs arbitrary: i rule: pace_run.induct)
  case (2 ps h m now cs)
  then show ?case using pace_calc_start(1) [of now ps h m] by (cases i) auto
qed simp

subsection \<open>Robots files\<close>

definition policy :: "'w cst \<Rightarrow> string \<Rightarrow> rob option" where
  "policy s host = find (\<lambda>r. rb_host r = host) (cw_robs s)"

lemma rob_put_find: "find (\<lambda>q. rb_host q = rb_host r) (rob_put r qs) = Some r"
  by (induction qs) auto

lemma robots_loop_host: "rb_host (robots_loop dl b r) = rb_host r"
proof (induction dl b r rule: robots_loop.induct)
  case (1 dl b r)
  show ?case by (subst robots_loop.simps) (use 1 in \<open>auto simp: Let_def\<close>)
qed

lemma pace_robs [simp]: "cw_robs (pace_wait x h m s) = cw_robs s"
  by (simp add: pace_wait_def Let_def split: prod.split)

lemma next_ua_robs: "net_next_ua n s = (ua, s1) \<Longrightarrow> cw_robs s1 = cw_robs s"
  by (auto simp: net_next_ua_def split: if_split_asm)

lemma curl_robs: "curl_get x n url ua s = (r, s1) \<Longrightarrow> cw_robs s1 = cw_robs s"
  by (auto simp: curl_get_def Let_def split: prod.split_asm option.split_asm)

lemma retry_robs: "net_retry x n url as r s = Some (r', s') \<Longrightarrow> cw_robs s' = cw_robs s"
proof (induction as arbitrary: r s)
  case (Cons a as)
  obtain ua s1 where u: "net_next_ua n s = (ua, s1)" by fastforce
  obtain g s2 where g: "curl_get x n url ua s1 = (g, s2)" by fastforce
  have e: "cw_robs s2 = cw_robs s" using next_ua_robs [OF u] curl_robs [OF g] by simp
  then show ?case using Cons.prems
    by (auto simp: u g split: sum.split_asm option.split_asm if_split_asm) (drule Cons.IH, simp)
qed simp

lemma fetch_robs: "net_fetch x n url s = Some (r, s') \<Longrightarrow> cw_robs s' = cw_robs s"
proof -
  assume f: "net_fetch x n url s = Some (r, s')"
  obtain ua s1 where u: "net_next_ua n s = (ua, s1)" by fastforce
  obtain g s2 where g: "curl_get x n url ua s1 = (g, s2)" by fastforce
  have "cw_robs s2 = cw_robs s" using next_ua_robs [OF u] curl_robs [OF g] by simp
  then show ?thesis using f
    by (auto simp: net_fetch_def u g simp del: net_retry.simps split: sum.split_asm if_split_asm) (drule retry_robs, simp)+
qed

lemma cache_robs: "crawl_cache_get x c url s = (r, s') \<Longrightarrow> cw_robs s' = cw_robs s" "cw_robs (crawl_cache_put x c url t s) = cw_robs s"
  by (auto simp: crawl_cache_get_def crawl_cache_put_def split: prod.split_asm option.split_asm if_split_asm)

lemma page_robs: "fetch_page x n c j s = Some (r, s') \<Longrightarrow> cw_robs s' = cw_robs s"
proof -
  assume f: "fetch_page x n c j s = Some (r, s')"
  obtain o1 s1 where g: "crawl_cache_get x c (j_url j) s = (o1, s1)" by fastforce
  note e = cache_robs(1) [OF g]
  show ?thesis
  proof (cases o1)
    case None
    then obtain q s2 where q: "net_fetch x n (j_url j) s1 = Some (q, s2)"
      using f by (auto simp: fetch_page_def g split: option.split_asm)
    show ?thesis using f fetch_robs [OF q] e None
      by (auto simp: fetch_page_def g q cache_robs(2) Let_def split: sum.split_asm prod.split_asm if_split_asm)
  qed (use f e in \<open>simp add: fetch_page_def g\<close>)
qed

lemma robots_fetch_host: "robots_fetch x n c host url r s = Some (r', s') \<Longrightarrow> rb_host r' = rb_host r"
  by (auto simp: robots_fetch_def Let_def robots_loop_host split: option.split_asm sum.split_asm prod.split_asm)

text \<open>Afterwards the policy of the host is known, and it is the one returned; a known policy is not asked for again.\<close>

lemma robots_get_known:
  assumes "policy s host = Some r" "rb_fetched r" shows "robots_get x n c host u s = Some (r, s)"
  using assms by (simp add: robots_get_def policy_def)

lemma robots_get_policy:
  assumes "robots_get x n c host u s = Some (r, s')"
  shows "policy s' host = Some r \<and> rb_fetched r"
proof -
  define k where "k = find (\<lambda>r. rb_host r = host) (cw_robs s)"
  define r0 where "r0 = (case k of None \<Rightarrow> new_rob host | Some r \<Rightarrow> r)"
  define s0 where "s0 = (if k = None then s\<lparr>cw_robs := r0 # cw_robs s\<rparr> else s)"
  have h0: "rb_host r0 = host"
  proof (cases k)
    case (Some q)
    then have "rb_host q = host" unfolding k_def by (auto simp: find_Some_iff)
    then show ?thesis by (simp add: r0_def Some)
  qed (simp add: r0_def new_rob_def)
  show ?thesis
  proof (cases "rb_fetched r0")
    case True
    then have "robots_get x n c host u s = Some (r0, s0)" by (simp add: robots_get_def k_def r0_def s0_def Let_def)
    moreover have "k \<noteq> None" using True by (cases k) (auto simp: r0_def new_rob_def)
    ultimately show ?thesis using assms True by (auto simp: policy_def k_def r0_def s0_def)
  next
    case False
    define r1 where "r1 = (if rb_pace r0 < 0 then r0\<lparr>rb_pace := robots_pace_file x c host (cw s0)\<rparr> else r0)"
    define got where "got = (case robots_cache_load x c host (cw s0) of
        Some b \<Rightarrow> Some (robots_loop (v_delay x) b r1, s0)
      | None \<Rightarrow> (case u of Some u \<Rightarrow> if u = [] then Some (r1, s0) else robots_fetch x n c host u r1 s0 | None \<Rightarrow> Some (r1, s0)))"
    have eq: "robots_get x n c host u s =
        map_option (\<lambda>(r2, s2). let r3 = r2\<lparr>rb_fetched := True\<rparr> in (r3, s2\<lparr>cw_robs := rob_put r3 (cw_robs s2)\<rparr>)) got"
      using False unfolding robots_get_def k_def [symmetric] r0_def [symmetric] s0_def [symmetric] r1_def got_def Let_def by simp
    then obtain r2 s2 where g: "got = Some (r2, s2)" "r = r2\<lparr>rb_fetched := True\<rparr>" "s' = s2\<lparr>cw_robs := rob_put r (cw_robs s2)\<rparr>"
      using assms by (cases got) (auto simp: Let_def)
    have "rb_host r1 = host" using h0 by (simp add: r1_def)
    then have "rb_host r2 = host" using g(1)
      by (auto simp: got_def robots_loop_host dest: robots_fetch_host split: option.split_asm if_split_asm)
    then have "rb_host r = host" using g(2) by simp
    then show ?thesis using g rob_put_find [of r "cw_robs s2"] by (simp add: policy_def)
  qed
qed

lemma url_parts: "url_is_http u \<Longrightarrow> \<exists>p h. url_path u k = Some p \<and> url_host u l = Some h"
proof -
  assume h: "url_is_http u"
  have "\<exists>i. find_sub u ''://'' = Some i"
  proof -
    have "has_sub u ''://''" if "take n u = y @ ''://''" for n y
    proof -
      have "u = y @ ''://'' @ drop n u" using that append_take_drop_id [of n u] by (metis append.assoc)
      moreover have "has_sub (y @ ''://'' @ z) ''://''" for z by (induction y) auto
      ultimately show ?thesis by metis
    qed
    from this [of 7 "''http''"] this [of 8 "''https''"] have "has_sub u ''://''" using h by (auto simp: url_is_http_def)
    moreover have "has_sub v ''://'' \<Longrightarrow> find_sub v ''://'' \<noteq> None" for v by (induction v) auto
    ultimately show ?thesis by blast
  qed
  then show ?thesis by (auto simp: url_path_def url_host_def after_scheme_def)
qed

definition forbids :: "rob \<Rightarrow> string \<Rightarrow> bool" where
  "forbids r url \<longleftrightarrow> (\<exists>u \<in> set (rb_rules r). covers (the (url_path url 1024)) u)"

lemma robots_denied_known:
  assumes "policy s host = Some r" "rb_fetched r" "url_is_http url"
  shows "\<exists>d. robots_denied x n c host url s = Some (d, s) \<and> (d \<noteq> None \<longleftrightarrow> forbids r url)"
proof -
  obtain p where p: "url_path url 1024 = Some p" using url_parts [OF assms(3)] by blast
  have "(find (covers p) (rb_rules r) \<noteq> None) = forbids r url" by (auto simp: forbids_def p find_None_iff)
  then show ?thesis by (simp add: robots_denied_def robots_get_known [OF assms(1,2)] p)
qed

text \<open>A polite job ends with a known policy, and with an error when the policy forbids its page.\<close>

lemma robots_decide:
  assumes on: "cc_robots c" "\<not> j_polite j" and u: "url_is_http (j_url j)" and run: "fetch_worker x n c j s = Some (r, s')"
  shows "\<exists>p. policy s' (url_authority (j_url j) 256) = Some p \<and> rb_fetched p \<and>
    (forbids p (j_url j) \<longrightarrow> (\<exists>e. r = Inl (take 255 (''robots.txt disallows '' @ e))))"
proof -
  let ?h = "url_authority (j_url j) 256"
  obtain p s1 where g: "robots_get x n c ?h (Some (j_url j)) s = Some (p, s1)"
    using run on by (auto simp: fetch_worker_def Let_def split: option.split_asm)
  note pol = robots_get_policy [OF g]
  obtain d where d: "robots_denied x n c ?h (j_url j) s1 = Some (d, s1)" "d \<noteq> None \<longleftrightarrow> forbids p (j_url j)"
    using robots_denied_known [of s1 ?h p "j_url j"] pol u by blast
  obtain host where host: "url_host (j_url j) 256 = Some host" using url_parts [OF u] by blast
  show ?thesis
  proof (cases d)
    case (Some e)
    then have "r = Inl (take 255 (''robots.txt disallows '' @ take 200 e))" "s' = s1"
      using run on by (auto simp: fetch_worker_def Let_def g d(1) host)
    then show ?thesis using pol by blast
  next
    case None
    have "robots_get x n c ?h None s1 = Some (p, s1)" using pol by (intro robots_get_known) auto
    then obtain ms where "robots_effective_pace x n c ?h s1 = Some (ms, s1)" by (simp add: robots_effective_pace_def Let_def)
    then have "fetch_page x n c j (pace_wait x host ms s1) = Some (r, s')"
      using run on None by (simp add: fetch_worker_def Let_def g d(1) host)
    from page_robs [OF this] have "policy s' ?h = Some p" using pol by (simp add: policy_def)
    then show ?thesis using pol d(2) None by blast
  qed
qed

text \<open>A job that skips the check asks for the pace without a URL; an unknown host then counts as known, without rules.\<close>

lemma skip_forgets:
  assumes on: "cc_robots c" "j_polite j" "cc_dir c = []" and u: "url_is_http (j_url j)"
    and new: "policy s (url_authority (j_url j) 256) = None" and run: "fetch_worker x n c j s = Some (r, s')"
  shows "\<exists>p. policy s' (url_authority (j_url j) 256) = Some p \<and> rb_fetched p \<and> rb_rules p = []"
proof -
  let ?h = "url_authority (j_url j) 256"
  obtain host where host: "url_host (j_url j) 256 = Some host" using url_parts [OF u] by blast
  have k: "find (\<lambda>r. rb_host r = ?h) (cw_robs s) = None" using new by (simp add: policy_def)
  define s1 where "s1 = s\<lparr>cw_robs := rob_put (new_rob ?h\<lparr>rb_fetched := True\<rparr>) (new_rob ?h # cw_robs s)\<rparr>"
  have g: "robots_get x n c ?h None s = Some (new_rob ?h\<lparr>rb_fetched := True\<rparr>, s1)"
    using on(3) by (simp add: robots_get_def k s1_def new_rob_def robots_cache_load_def robots_pace_file_def Let_def)
  then obtain ms where "robots_effective_pace x n c ?h s = Some (ms, s1)" by (simp add: robots_effective_pace_def Let_def)
  then have "fetch_page x n c j (pace_wait x host ms s1) = Some (r, s')"
    using run on by (simp add: fetch_worker_def Let_def host)
  from page_robs [OF this] have "policy s' ?h = policy s1 ?h" by (simp add: policy_def)
  moreover have "policy s1 ?h = Some (new_rob ?h\<lparr>rb_fetched := True\<rparr>)" using robots_get_policy [OF g] by blast
  ultimately show ?thesis by (simp add: new_rob_def)
qed

subsection \<open>The size of a page\<close>

text \<open>The sink holds \<open>m\<close> bytes; a heading at the limit may add one blank, which the last flush removes.\<close>

definition sink_ok :: "nat \<Rightarrow> bytes \<Rightarrow> bool" where
  "sink_ok m out \<longleftrightarrow> length out \<le> m \<or> (length out = Suc m \<and> last out = CHR '' '')"

definition walker_ok :: "nat \<Rightarrow> walker \<Rightarrow> bool" where
  "walker_ok m k \<longleftrightarrow> sink_ok m (k_out k) \<and> length (pg_links (k_page k)) \<le> 200 \<and> length (pg_images (k_page k)) \<le> 100"

lemma sink_text_ok: "sink_ok m out \<Longrightarrow> sink_ok m (sink_text m t out)"
  by (auto simp: sink_ok_def sink_text_def)

lemma sink_newline_ok: "sink_ok m out \<Longrightarrow> sink_ok m (sink_newline m out)"
  by (auto simp: sink_ok_def sink_newline_def)

lemma blank_ok: "length out < m \<Longrightarrow> sink_ok m (out @ [x])"
  by (simp add: sink_ok_def)

lemma walker_ok_out [simp]:
  "walker_ok m (k\<lparr>k_out := x\<rparr>) \<longleftrightarrow> sink_ok m x \<and> length (pg_links (k_page k)) \<le> 200 \<and> length (pg_images (k_page k)) \<le> 100"
  by (simp add: walker_ok_def)

lemma walker_ok_flags [simp]:
  "walker_ok m (k\<lparr>k_pre := b\<rparr>) = walker_ok m k" "walker_ok m (k\<lparr>k_head := i\<rparr>) = walker_ok m k" "walker_ok m (k\<lparr>k_li := b\<rparr>) = walker_ok m k"
  "walker_ok m (k\<lparr>k_skip := b\<rparr>) = walker_ok m k" "walker_ok m (k\<lparr>k_depth := d\<rparr>) = walker_ok m k"
  "walker_ok m (k\<lparr>k_link := s\<rparr>) = walker_ok m k" "walker_ok m (k\<lparr>k_ltext := s\<rparr>) = walker_ok m k" "walker_ok m (k\<lparr>k_llen := d\<rparr>) = walker_ok m k"
  by (simp_all add: walker_ok_def)

lemma separate_ok: "walker_ok m k \<Longrightarrow> walker_ok m (inline_separate m k)"
  by (auto simp: inline_separate_def Let_def blank_ok) (simp_all add: walker_ok_def)

lemma walk_text_ok: "walker_ok m k \<Longrightarrow> walker_ok m (walk_text m t k)"
proof -
  assume ok: "walker_ok m k"
  define dec where "dec = html_entity_decode t 1024"
  define k1 where "k1 = (if k_link k \<noteq> [] \<and> k_llen k + length dec + 1 < 4096 then
      (let sep = (if k_llen k > 0 then '' '' else []); new = sep @ cstr dec; out = k_out k;
           out1 = (if k_llen k = 0 \<and> out \<noteq> [] \<and> last out \<noteq> CHR '' '' \<and> length out < m then out @ [CHR '' ''] else out)
       in k\<lparr>k_ltext := take (k_llen k) (k_ltext k) @ new, k_llen := k_llen k + length new, k_out := out1\<rparr>)
     else k)"
  have "walker_ok m k1" using ok by (auto simp: k1_def Let_def walker_ok_def blank_ok)
  moreover have "walk_text m t k = (if k_skip k then k else k1\<lparr>k_out := sink_text m dec (k_out k1)\<rparr>)"
    unfolding walk_text_def dec_def [symmetric] Let_def k1_def by simp
  ultimately show ?thesis using ok by (simp add: walker_ok_def sink_text_ok)
qed

lemma close_tag_ok: "walker_ok m k \<Longrightarrow> walker_ok m (close_tag m tag k)"
proof -
  assume ok: "walker_ok m k"
  define k0 where "k0 = (if in_tags tag INLINE_TAGS then inline_separate m k else k)"
  have "walker_ok m k0" using ok separate_ok by (simp add: k0_def)
  then show ?thesis unfolding close_tag_def k0_def [symmetric] Let_def
    by (auto simp: walker_ok_def)
qed

lemma open_tag_ok: "walker_ok m k \<Longrightarrow> walker_ok m (open_tag m base tag s q k)"
proof -
  assume ok: "walker_ok m k"
  define a where "a = tag_attrs s"
  define k1 where "k1 = (if ci_eq tag ''a'' \<and> link_ok (at_href a) then k\<lparr>k_link := resolve_url base (at_href a) 4096, k_llen := 0\<rparr> else k)"
  define k2 where "k2 = (if ci_eq tag ''img'' \<and> at_src a \<noteq> [] \<and> length (pg_images (k_page k1)) < 100 then
      k1\<lparr>k_page := (k_page k1)\<lparr>pg_images := pg_images (k_page k1) @ [take 4607 (at_alt a @ tab # resolve_url base (at_src a) 4096)]\<rparr>\<rparr> else k1)"
  define k3 where "k3 = (if ci_eq tag ''pre'' \<or> ci_eq tag ''code'' then k2\<lparr>k_pre := True\<rparr> else k2)"
  define k4 where "k4 = (if in_tags tag INLINE_TAGS then inline_separate m k3 else k3)"
  have "walker_ok m k1" using ok by (simp add: k1_def)
  then have o2: "walker_ok m k2" by (auto simp: k2_def walker_ok_def)
  then have "walker_ok m k3" by (simp add: k3_def)
  then have o4: "walker_ok m k4" using separate_ok by (simp add: k4_def)
  show ?thesis using ok o2 o4 sink_newline_ok [of m "k_out k4"]
    unfolding open_tag_def a_def [symmetric] Let_def k1_def [symmetric] k2_def [symmetric] k3_def [symmetric] k4_def [symmetric]
    by (simp add: walker_ok_def)
qed

lemma walk_tag_ok: "walker_ok m k \<Longrightarrow> walker_ok m (walk_tag m base s k)"
  by (simp add: walk_tag_def Let_def close_tag_ok open_tag_ok)

lemma heading_ok: "walker_ok m k \<Longrightarrow> length (k_out k) < m \<Longrightarrow> walker_ok m (put_heading m l t k)"
proof -
  assume ok: "walker_ok m k" and lt: "length (k_out k) < m"
  let ?o1 = "sink_newline m (k_out k)"
  have "length ?o1 \<le> m" using lt by (simp add: sink_newline_def)
  then have "sink_ok m (?o1 @ replicate (min (nat l) (m - 2 - length ?o1)) (CHR ''#'') @ '' '')" by (auto simp: sink_ok_def)
  then have "walker_ok m (walk_text m t (k\<lparr>k_out := ?o1 @ replicate (min (nat l) (m - 2 - length ?o1)) (CHR ''#'') @ '' ''\<rparr>))"
    using ok by (intro walk_text_ok) (simp add: walker_ok_def)
  then show ?thesis unfolding put_heading_def Let_def by (simp add: walker_ok_def sink_newline_ok)
qed

lemma item_ok: "walker_ok m k \<Longrightarrow> length (k_out k) < m \<Longrightarrow> walker_ok m (put_item m t k)"
proof -
  assume ok: "walker_ok m k" and lt: "length (k_out k) < m"
  let ?o1 = "sink_newline m (k_out k)"
  have "length ?o1 \<le> m" using lt by (simp add: sink_newline_def)
  then have "sink_ok m (if length ?o1 + 3 < m then ?o1 @ ''- '' else ?o1)" by (auto simp: sink_ok_def)
  then have "walker_ok m (walk_text m t (k\<lparr>k_out := if length ?o1 + 3 < m then ?o1 @ ''- '' else ?o1\<rparr>))"
    using ok by (intro walk_text_ok) (simp add: walker_ok_def)
  then show ?thesis unfolding put_item_def Let_def by (simp add: walker_ok_def sink_newline_ok)
qed

lemma walk_run_ok: "walker_ok m k \<Longrightarrow> length (k_out k) < m \<Longrightarrow> walk_run m t k = (n, k') \<Longrightarrow> walker_ok m k'"
  by (auto simp: walk_run_def Let_def walk_text_ok heading_ok item_ok split: if_split_asm)

lemma walk_ok: "walker_ok m k \<Longrightarrow> walker_ok m (walk m base s k)"
proof (induction m base s k rule: walk.induct)
  case (1 m base k)
  then show ?case by (simp add: walk.simps)
next
  case (2 m base c r k)
  show ?case
  proof (cases "length (k_out k) \<ge> m")
    case False
    obtain n k' where w: "walk_run m (takeWhile (\<lambda>x. x \<noteq> CHR ''<'') (c # r)) k = (n, k')" by fastforce
    have "walker_ok m k'" using walk_run_ok [OF 2(5) _ w] False by simp
    then show ?thesis using 2 False w walk_tag_ok by (auto simp: walk.simps split: option.split)
  qed (use 2 in \<open>simp add: walk.simps\<close>)
qed

lemma page_bounds:
  "length (pg_text (page_extract html base mx)) \<le> (if mx = 0 then 8192 else mx) \<and>
   length (pg_links (page_extract html base mx)) \<le> 200 \<and> length (pg_images (page_extract html base mx)) \<le> 100"
proof -
  define m where "m = (if mx = 0 then 8192 else mx)"
  define k where "k = walk m base html \<lparr>k_out = [], k_pre = False, k_head = 0, k_li = False, k_skip = False, k_depth = 0, k_link = [],
      k_ltext = [], k_llen = 0, k_page = \<lparr>pg_title = None, pg_text = [], pg_links = [], pg_images = []\<rparr>\<rparr>"
  have ok: "walker_ok m k" unfolding k_def by (rule walk_ok) (simp add: walker_ok_def sink_ok_def)
  have pe: "page_extract html base mx = (k_page k)\<lparr>pg_text := sink_flush (k_out k)\<rparr>"
    unfolding page_extract_def Let_def m_def [symmetric] k_def by simp
  have "length (sink_flush (k_out k)) \<le> m"
  proof (cases "length (k_out k) \<le> m")
    case True
    then show ?thesis using length_dropWhile_le [of _ "rev (k_out k)"] order_trans by (fastforce simp: sink_flush_def)
  next
    case False
    then have l: "length (k_out k) = Suc m" "last (k_out k) = CHR '' ''" using ok by (auto simp: walker_ok_def sink_ok_def)
    then obtain xs where "k_out k = xs @ [CHR '' '']" by (cases "k_out k" rule: rev_cases) auto
    then show ?thesis using l(1) length_dropWhile_le [of "\<lambda>c. c = nl \<or> c = CHR '' '' \<or> c = tab" "rev xs"] by (simp add: sink_flush_def)
  qed
  then show ?thesis using ok unfolding pe m_def [symmetric] by (simp add: walker_ok_def)
qed

subsection \<open>Results of a search\<close>

definition hit_ok :: "hit \<Rightarrow> bool" where
  "hit_ok h \<longleftrightarrow> h_url h \<noteq> [] \<and> \<not> sponsored (h_url h)"

definition hits_ok :: "nat \<Rightarrow> hit list \<Rightarrow> bool" where
  "hits_ok limit rs \<longleftrightarrow> length rs \<le> limit \<and> (\<forall>h \<in> set rs. hit_ok h)"

lemma rb_add_ok: "hits_ok limit rs \<Longrightarrow> hits_ok limit (rb_add limit h rs)"
  by (auto simp: hits_ok_def rb_add_def hit_ok_def)

lemma rb_merge_ok: "hits_ok limit rs \<Longrightarrow> hits_ok limit qs \<Longrightarrow> hits_ok limit (rb_merge limit rs qs)"
  by (auto simp: hits_ok_def rb_merge_def dest: in_set_takeD)

lemma page_hits_ok:
  assumes "page_hits step b limit p rs = Some rs'"
  shows "hits_ok limit rs \<longrightarrow> hits_ok limit rs'"
proof (rule page_hits.raw_induct [OF _ assms])
  fix ph step b limit p rs y
  assume ih: "\<And>step b limit p rs y. ph step b limit p rs = Some y \<Longrightarrow> hits_ok limit rs \<longrightarrow> hits_ok limit y"
    and eq: "(if length b \<le> p \<or> limit \<le> length rs then Some rs
      else case step b p of None \<Rightarrow> Some rs | Some (p', h) \<Rightarrow> ph step b limit p' (rb_add limit h rs)) = Some y"
  show "hits_ok limit rs \<longrightarrow> hits_ok limit y"
    using eq ih rb_add_ok [of limit rs] by (auto split: if_split_asm option.split_asm prod.split_asm)
qed

lemma wiki_loop_ok: "hits_ok limit rs \<Longrightarrow> hits_ok limit (wiki_loop n b limit t u d rs)"
proof (induction n b limit t u d rs rule: wiki_loop.induct)
  case (2 n b limit t u d rs)
  then show ?case using rb_add_ok by (auto simp: Let_def split: option.split prod.split if_split)
qed simp

lemma engine_parse_ok: "engine_parse nm body limit = Some rs \<Longrightarrow> hits_ok limit rs"
proof -
  assume p: "engine_parse nm body limit = Some rs"
  have e: "hits_ok limit []" by (simp add: hits_ok_def)
  then have "hits_ok limit (wiki_parse (cstr body) limit)" by (auto simp: wiki_parse_def wiki_loop_ok split: option.split)
  then show ?thesis using p e by (auto simp: engine_parse_def Let_def dest: page_hits_ok split: if_split_asm)
qed

lemma search_engines_ok:
  "hits_ok limit all \<Longrightarrow> search_engines x n enc engines limit es all s = Some (hs, s') \<Longrightarrow> hits_ok limit hs"
proof (induction es arbitrary: all s)
  case (Cons e es)
  obtain nm pre ms where e: "e = (nm, pre, ms)" by (cases e)
  show ?case
  proof (cases "engine_wanted engines nm")
    case False
    then show ?thesis using Cons by (simp add: e)
  next
    case True
    obtain r s2 where f: "net_fetch x n (engine_url (n_base n) nm pre enc) (pace_wait x nm ms s) = Some (r, s2)"
      using Cons.prems(2) True by (auto simp: e split: option.split_asm)
    show ?thesis
    proof (cases "\<exists>st b. r = Inr (st, Some b) \<and> st = 200")
      case False
      then have "search_engines x n enc engines limit es all s2 = Some (hs, s')"
        using Cons.prems(2) True f by (auto simp: e split: sum.split_asm prod.split_asm option.split_asm)
      then show ?thesis using Cons by blast
    next
      case True': True
      then obtain b where b: "r = Inr (200, Some b)" by blast
      obtain rs where rs: "engine_parse nm b limit = Some rs" using parse_returns by blast
      have m: "hits_ok limit (rb_merge limit all rs)" by (rule rb_merge_ok [OF Cons.prems(1) engine_parse_ok [OF rs]])
      show ?thesis using Cons.prems(2) True f b rs m Cons.IH [OF m] by (auto simp: e Let_def split: if_split_asm)
    qed
  qed
qed simp

text \<open>A search that succeeds returns between one and the wanted number of results, each with an address and none an advertisement.\<close>

lemma search_ok:
  assumes "search_run x n q engines limit s = Some (Inr hs, s')"
  shows "hs \<noteq> [] \<and> length hs \<le> limit \<and> (\<forall>h \<in> set hs. hit_ok h)"
proof -
  have r: "search_engines x n (url_encode q) engines limit ENGINES [] s = Some (hs, s')" "hs \<noteq> []"
    using assms by (auto simp: search_run_def split: if_split_asm)
  have "hits_ok limit hs" by (rule search_engines_ok [OF _ r(1)]) (simp add: hits_ok_def)
  then show ?thesis using r(2) by (auto simp: hits_ok_def)
qed

end
