(* ===== verification/Spec2Isabelle.thy ===== *)
theory Spec2Isabelle
  imports Exo_Sched_Props Exo_Flow_Http_Props Exo_Qms_Registry Exo_Qms_Http_Props Exo_Mcp_Props Exo_Context_Props Exo_Crawl_Props
begin

text \<open>
  exomind is a key-value store for agents with an HTTP interface; exosched (reminders), exoflow
  (task graphs) and exoqms (quality records) are daemons that keep their state in it. This development
  models the store, the logic of the three daemons, the HTTP between them and the codecs, and proves
  what makes each of them correct, up to statements that go through the bytes of both HTTP messages.

  Components, theories and code (paths under src/).

  \<^item> \<open>Exo_Prelude\<close>: the C library functions the code uses (decimal parsing and printing, comparison,
    \<open>qsort\<close>, \<open>strtok\<close>), word types, binary search. \<open>Exo_Text\<close>: lines and columns.
  \<^item> \<open>Exo_Escape\<close>, \<open>Exo_Json\<close>, \<open>Exo_Json_Codec\<close>, \<open>Exo_Bytes\<close>, \<open>Exo_B64\<close>: the codecs of
    \<open>src/util.c\<close> and \<open>exosched/src/util.c\<close> with their round trips. Loops that may not end are
    \<open>partial_function (option)\<close>, so that not returning is \<open>None\<close>.
  \<^item> \<open>Exo_Index\<close>: the chained hash table of \<open>src/store.c\<close> (\<open>find_slot\<close>, \<open>grow\<close>, \<open>upsert\<close>); the locale
    there states a finite map and is interpreted on the table.
  \<^item> \<open>Exo_Log\<close>: the record format and the loader's checks. \<open>Exo_Store\<close>: the record \<open>store\<close> and its
    operations, with a \<open>world\<close> of clock readings and of the bytes the device still accepts.
    \<open>Exo_Replay\<close>, \<open>Exo_Store_Inv\<close>, \<open>Exo_Store_Ops\<close>: what a log means (\<open>log_view\<close>), the
    invariant \<open>store_inv\<close> and that every operation keeps it, crash and failure cases.
  \<^item> \<open>Exo_Replication\<close>: raw records, read by offset and imported. \<open>Exo_History\<close>: the specification
    (a map with times to live) and the refinement for whole histories.
  \<^item> \<open>Exo_Repl\<close>: the batch a primary sends (\<open>/repl\<close> in \<open>src/http.c\<close>) and the poll of a follower
    (\<open>repl_thread\<close> in \<open>src/main.c\<close>), with the reply as a parameter of the poll.
  \<^item> \<open>Exo_Http\<close>: tokens and their file, query parameters, access checks and the request reader of
    \<open>src/http.c\<close>, over the segments a socket delivers. \<open>Exo_Api\<close>, \<open>Exo_Route\<close>: one definition per path
    of \<open>route\<close>, over the main store, the project store and the mandate, and \<open>http_handle_conn\<close>.
    \<open>Exo_Route_Props\<close>: what a token can make the server write (\<open>acts\<close>), the snapshot round trip, and
    reading back a posted value. \<open>Exo_Rate\<close>: the rate limiter of \<open>common/exo.c\<close>.
  \<^item> \<open>Exo_Kix\<close>, \<open>Exo_Query\<close>: the sorted key array and the queries. \<open>Exo_Vec\<close>: the embedding.
  \<^item> \<open>Exo_Schedule\<close>, \<open>Exo_Timers\<close>, \<open>Exo_Ws\<close>: exosched (\<open>schedule.c\<close>, \<open>timers.c\<close>, \<open>ws.c\<close>). The
    daemon is a step relation whose steps are the critical sections of its mutex.
  \<^item> \<open>Exo_Flow\<close>, \<open>Exo_Flow_Graph\<close>, \<open>Exo_Flow_Ops\<close>: exoflow (\<open>flows.c\<close>): documents, the cycle check, the
    step operations. \<open>Exo_Flow_Reg\<close>, \<open>Exo_Flow_Loops\<close>: the registry (create, delete, cancel, stop), the
    lazy loop scheduler and the reload, as a step relation with its invariant. exomind is an
    environment that answers or refuses each request in turn.

  \<^item> \<open>Exo_Client\<close>: the client of exomind that the daemons share (\<open>exosched/src/exomind.c\<close>), over a
    network that is a function of the request bytes and a state, and the delivery counters
    (\<open>delivery.c\<close>). \<open>Exo_Wire\<close>: the network whose far end is \<open>http_handle_conn\<close> of exomind
    (\<open>wire_net\<close>): what the client writes the server reads, and the other way round. \<open>Exo_Wire_Ops\<close>:
    what persist, get, list and note achieve there. \<open>Exo_Link\<close>: these as the locale \<open>exomind_link\<close>,
    interpreted on the wire.
  \<^item> \<open>Exo_Module\<close>: the HTTP reader and gate the daemons have in identical copies. \<open>Exo_Sched_Http\<close>:
    every path of exosched's \<open>http.c\<close>. \<open>Exo_Sched_Props\<close>: a reminder that was accepted survives.
  \<^item> \<open>Exo_Qms\<close>: the registries of exoqms (\<open>model.c\<close>). \<open>Exo_Qms_Props\<close>: the lifecycle of a
    non-conformity and the history of an issue. \<open>Exo_Qms_Registry\<close>: the records survive a restart; runs of
    requests are the relation \<open>qms_run\<close>. \<open>Exo_Qms_Json\<close>: where its JSON code (\<open>util.c\<close>) differs.
  \<^item> \<open>Exo_Qms_Checks\<close>, \<open>Exo_Qms_Rework\<close>, \<open>Exo_Qms_Rules\<close>: the checks of an audit (\<open>checks.c\<close>, \<open>project.c\<close>) over a
    record of surroundings: the network, what a child process prints, the files, the clock. A check that hangs
    or whose behaviour is undefined is \<open>None\<close>. \<open>Exo_Qms_Http\<close>: every path of exoqms's \<open>http.c\<close>, the console and
    the start. \<open>Exo_Qms_Checks_Props\<close>, \<open>Exo_Qms_Http_Props\<close>: bounds of findings, termination, the rework
    cycles, the record of an audit.
  \<^item> \<open>Exo_Flow_Http\<close>, \<open>Exo_Flow_Cli\<close>: every path of exoflow's \<open>http.c\<close>, its console, and its client of exomind and
    exosched (\<open>cli.c\<close>). \<open>Exo_Flow_Http_Props\<close>: whatever bytes arrive keep the registry consistent; what is sent to
    exosched is understood there.
  \<^item> \<open>Exo_Keys\<close>, \<open>Exo_Mcp\<close>, \<open>Exo_Cli\<close>: the key file, the Model Context Protocol over standard input and the console
    utilities of \<open>common/\<close>. \<open>Exo_Main\<close>, \<open>Exo_Router\<close>: exomind's command line, tools and start (\<open>src/main.c\<close>) and the
    router (\<open>src/router.c\<close>). \<open>Exo_Mcp_Props\<close>: printed requests are read back, and a session stores and reads a value.
  \<^item> \<open>Exo_Context\<close>: the digest of an agent's plans, decisions and state, its compression by the window budget, and
    the HTTP and console of \<open>exocontext/src/main.c\<close>. \<open>Exo_Context_Props\<close>: what compression keeps and what it saves.
  \<^item> \<open>Exo_Crawl_Html\<close>, \<open>Exo_Crawl_Search\<close>, \<open>Exo_Crawl_Net\<close>, \<open>Exo_Crawl_Pool\<close>, \<open>Exo_Crawl\<close>: exocrawl, from the reduction
    of HTML to text and the parsers of the search engines over curl, pacing and the workers to the page cache, the robots
    policy, the operations and the command line (\<open>exocrawl/src\<close>). The pool is a step relation, the rest passes a state
    with the surroundings as a record of functions. \<open>Exo_Crawl_Cache\<close>: the cache over exomind's own HTTP layer;
    \<open>Exo_Crawl_Props\<close>: pacing, the robots policy, the limits of pages and searches.

  Conventions. Byte strings are lists of characters; a C string argument is the part before its first
  NUL where the code uses \<open>strlen\<close>. Machine integers are words where they wrap and integers with an
  explicit range or \<open>wrap64\<close> elsewhere. Errors are values of \<open>option\<close>, sums or the code's return
  codes. Clock readings, random numbers and answers of other processes are arguments.

  The properties start with the store, its replication and the HTTP operations over it, then come the
  flows, the queries, the timers, and the codecs and network formats. Every one with a hypothesis is
  followed by a witness at concrete values.

  Not modelled: the sockets themselves, threads beyond the atomic steps above, the argument parsing of the
  daemons other than exomind, the self-update, and the tools exodoc, exogit,
  exogpl and exokit (apart from the percent encoder of exogit). HOL has no binary64 arithmetic, so the quotient that
  ranks similar vectors is a function parameter; the help text and the copy a backup makes are
  parameters too. Locks do not appear: each store call is one step.
  Memory exhaustion ends the process in the code (\<open>xmalloc\<close>) and has no branch here.
\<close>

text \<open>
  C1. The log store refines a map. Any history of sets (plain or appending, with a time to live), deletes, reads,
  replicated records, restores, resets and restarts of the process, run from an empty file by a clock that does not run
  backwards, leaves a store whose live contents at every later time are those of the same history on a map from keys to
  values. Excluded is an append whose merged value exceeds the limit of the log reader.
\<close>

theorem store_refines_map:
  assumes "history_ok t0 cs Map.empty" and "last_time t0 cs \<le> u"
  shows "view (run_cmds cs (store_open [] (healthy t0))) u = (\<lambda>k. live_at u (spec_cmds cs Map.empty k))"
  using assms by (rule history_refines)

theorem store_refines_map_witness:
  "view (run_cmds [(5, CSet ''k'' ''v'' 1 False), (6, CReopen)] (store_open [] (healthy 0))) 7 ''k'' = Some (''v'', 5, 1005)"
proof -
  have h: "history_ok 0 [(5, CSet ''k'' ''v'' 1 False), (6, CReopen)] Map.empty"
    by (simp add: int64_def spec_value_def MAX_VAL_def)
  have "view (run_cmds [(5, CSet ''k'' ''v'' 1 False), (6, CReopen)] (store_open [] (healthy 0))) 7 =
      (\<lambda>k. live_at 7 (spec_cmds [(5, CSet ''k'' ''v'' 1 False), (6, CReopen)] Map.empty k))"
    by (rule store_refines_map [OF h]) simp
  then show ?thesis
    by (simp add: key_ok_def MAX_KEY_def MAX_VAL_def spec_value_def clamp_ttl_def live_at_def)
qed



text \<open>
  C3. Crash recovery. If the process died at any byte of the last write, opening the file gives exactly the records
  written before, and the torn bytes are truncated away.
\<close>

theorem torn_write_recovers:
  assumes "\<forall>r \<in> set rs. rec_ok r" and "rec_ok r" and "k < rlen r"
  shows "store_inv t rs (store_open (log_bytes rs @ take k (enc_rec r)) (healthy t)) \<and>
    store_close (store_open (log_bytes rs @ take k (enc_rec r)) (healthy t)) = log_bytes rs"
proof -
  have torn: "rec_at (log_bytes rs @ take k (enc_rec r)) (length (log_bytes rs @ take k (enc_rec r)))
      (length (log_bytes rs)) = None"
    using rec_at_torn [of r k "log_bytes rs"] assms(2,3) by (simp add: rec_ok_def key_ok_def MAX_VAL_def)
  have inv: "store_inv t rs (store_open (log_bytes rs @ take k (enc_rec r)) (healthy t))"
    and cl: "clean (store_open (log_bytes rs @ take k (enc_rec r)) (healthy t))"
    using store_open_log [OF assms(1) torn] by simp_all
  show ?thesis using inv clean_img [OF inv cl] by (simp add: store_close_def)
qed

theorem torn_write_recovers_witness:
  "store_close (store_open (log_bytes [set_rec ''a'' ''1'' 0 5] @ take 20 (enc_rec (set_rec ''b'' ''2'' 0 6))) (healthy 7)) =
     log_bytes [set_rec ''a'' ''1'' 0 5]"
proof -
  have ok: "rec_ok (set_rec k v 0 t)" if "k = ''a'' \<or> k = ''b''" "v = ''1'' \<or> v = ''2''" "t = 5 \<or> t = 6" for k v t
    using that by (intro rec_ok_set) (auto simp: key_ok_def MAX_KEY_def MAX_VAL_def int64_def)
  show ?thesis
    using torn_write_recovers [of "[set_rec ''a'' ''1'' 0 5]" "set_rec ''b'' ''2'' 0 6" 20 7] ok
    by (simp add: HDR_SIZE_def)
qed

text \<open>
  C4. A write that the device cuts short is reported, changes nothing a reader sees, and the file that stays behind
  opens with the records that were there before.
\<close>

theorem failed_set_is_harmless:
  assumes "store_inv t rs s" and "clean s" and "key_ok key" and "length val \<le> MAX_VAL"
    and "length (set_value s key val app w) < 2 ^ 32"
    and "\<not> fits (w_write w) (HDR_SIZE + length key + length (set_value s key val app w))"
  shows "snd (store_set s key val ttl app w) = -1 \<and>
    (\<forall>u \<ge> t. view (fst (store_set s key val ttl app w)) u = view s u) \<and>
    store_inv t rs (store_open (store_close (fst (store_set s key val ttl app w))) (healthy t))"
  using assms by (rule store_set_fails_reopen)

theorem failed_set_is_harmless_witness:
  "snd (store_set (store_open (log_bytes [set_rec ''a'' ''1'' 0 5]) (healthy 7)) ''b'' ''2'' 0 False
      (healthy 8\<lparr>w_write := Some 3\<rparr>)) = -1"
proof -
  let ?s = "store_open (log_bytes [set_rec ''a'' ''1'' 0 5]) (healthy 7)"
  let ?w = "healthy 8\<lparr>w_write := Some 3\<rparr>"
  have ok: "\<forall>r \<in> set [set_rec ''a'' ''1'' 0 5]. rec_ok r"
    using rec_ok_set [of "''a''" "''1''" 5 0] by (simp add: key_ok_def MAX_KEY_def MAX_VAL_def int64_def)
  have inv: "store_inv 7 [set_rec ''a'' ''1'' 0 5] ?s" and cl: "clean ?s" using store_open_clean [OF ok] by simp_all
  have key: "key_ok ''b''" and val: "length ''2'' \<le> MAX_VAL" by (simp_all add: key_ok_def MAX_KEY_def MAX_VAL_def)
  have sv: "set_value ?s ''b'' ''2'' False ?w = ''2''" by (simp add: set_value_def)
  have nofit: "\<not> fits (w_write ?w) (HDR_SIZE + length ''b'' + length (set_value ?s ''b'' ''2'' False ?w))"
    unfolding sv by (simp add: fits_def HDR_SIZE_def)
  show ?thesis using failed_set_is_harmless [OF inv cl key val _ nofit] unfolding sv by simp
qed

text \<open>
  C5. Compaction, when its file system calls succeed (or the temporary file cannot be opened), leaves a log that shows
  the same live keys, values, write times and expiries at every later time.
\<close>

theorem compaction_keeps_contents:
  assumes "store_inv t rs s" and "t \<le> w_cnow w" and "compact_fine w"
  shows "\<exists>rs'. store_inv (w_cnow w) rs' (compact s w) \<and> (\<forall>u \<ge> w_cnow w. log_view rs' u = log_view rs u)"
  using assms by (rule compact_inv)

theorem compaction_keeps_contents_witness:
  "\<exists>rs'. store_inv 9 rs' (compact (store_open (log_bytes [set_rec ''a'' ''1'' 0 5]) (healthy 7)) (healthy 9)) \<and>
     log_view rs' 10 = log_view [set_rec ''a'' ''1'' 0 5] 10"
proof -
  have ok: "\<forall>r \<in> set [set_rec ''a'' ''1'' 0 5]. rec_ok r"
    using rec_ok_set [of "''a''" "''1''" 5 0] by (simp add: key_ok_def MAX_KEY_def MAX_VAL_def int64_def)
  have "store_inv 7 [set_rec ''a'' ''1'' 0 5] (store_open (log_bytes [set_rec ''a'' ''1'' 0 5]) (healthy 7))"
    using store_open_clean [OF ok] by simp
  from compaction_keeps_contents [OF this, of "healthy 9"] show ?thesis by auto
qed

text \<open>
  C6. Replication. A follower that starts with an empty store and polls a primary whose log stays the same reaches the end of
  the log after at most one answered poll per record, without ever starting over, and then shows at every later time the
  primary's live keys, values, write times and expiries, although its own log may have been compacted meanwhile. No record
  may exceed the batch buffer of one MiB.
\<close>

theorem follower_catches_up:
  assumes "store_inv tp rs p" and "tp \<le> t" and "\<forall>r \<in> set rs. raw_ok r \<and> rlen r \<le> REPL_MAX_BYTES"
    and "ssize p \<le> ULLONG_MAX" and "f_store f = store_open [] (healthy t)" and "f_from f = 0"
  shows "f_from ((poll_from p t ^^ length rs) f) = ssize p \<and>
    f_resyncs ((poll_from p t ^^ length rs) f) = f_resyncs f \<and>
    (\<forall>u \<ge> t. view (f_store ((poll_from p t ^^ length rs) f)) u = view p u)"
proof -
  let ?f = "(poll_from p t ^^ length rs) f"
  have "store_inv t [] (store_open [] (healthy t))" using store_open_clean [of "[]"] by simp
  then have "in_sync t [] f" using assms(5,6) by (auto simp: in_sync_def follows_def)
  from polls_sync [of tp "[]" rs p t f, simplified, OF assms(1,3,4) this]
  have s: "in_sync t rs ?f" "f_resyncs ?f = f_resyncs f" by auto
  then obtain rs' where rs': "store_inv t rs' (f_store ?f)" "follows rs' t rs" by (auto simp: in_sync_def)
  have "view (f_store ?f) u = view p u" if "t \<le> u" for u
    using view_log [OF rs'(1) that] view_log [OF assms(1), of u] rs'(2) assms(2) that by (simp add: follows_def fun_eq_iff)
  then show ?thesis using s assms(1) by (simp add: in_sync_def store_inv_def)
qed

theorem follower_catches_up_witness:
  "view (f_store (poll_from (store_open (log_bytes [set_rec ''a'' ''1'' 0 5]) (healthy 7)) 8
      \<lparr>f_store = store_open [] (healthy 8), f_from = 0, f_next = 0, f_lag = 0, f_sync = 0, f_errors = 0, f_resyncs = 0\<rparr>)) 9 =
    view (store_open (log_bytes [set_rec ''a'' ''1'' 0 5]) (healthy 7)) 9"
proof -
  let ?p = "store_open (log_bytes [set_rec ''a'' ''1'' 0 5]) (healthy 7)"
  let ?f = "\<lparr>f_store = store_open [] (healthy 8), f_from = 0, f_next = 0, f_lag = 0, f_sync = 0, f_errors = 0, f_resyncs = 0\<rparr>"
  have ok: "rec_ok (set_rec ''a'' ''1'' 0 5)"
    using rec_ok_set [of "''a''" "''1''" 5 0] by (simp add: key_ok_def MAX_KEY_def MAX_VAL_def int64_def)
  then have inv: "store_inv 7 [set_rec ''a'' ''1'' 0 5] ?p" using store_open_clean [of "[set_rec ''a'' ''1'' 0 5]"] by simp
  have len: "rlen (set_rec ''a'' ''1'' 0 5) = 35" by (simp add: rlen_def set_rec_def HDR_SIZE_def)
  have raw: "\<forall>r \<in> set [set_rec ''a'' ''1'' 0 5]. raw_ok r \<and> rlen r \<le> REPL_MAX_BYTES"
    using ok len by (simp add: raw_ok_def REPL_MAX_BYTES_def)
  have sz: "ssize ?p \<le> ULLONG_MAX" using inv len by (simp add: store_inv_def ULLONG_MAX_def)
  show ?thesis using follower_catches_up [OF inv _ raw sz, of 8 ?f] by simp
qed

text \<open>
  C7. A request with a read-only or prefix-scoped token, on any path of the server but the three marker operations,
  with any body, query, clock and failing device, changes the stores only by storing or deleting keys the token may write
  (and by lookups); this covers every element of a batch and the vector deleted along with a key.
\<close>

theorem restricted_token_writes_in_scope:
  assumes "tro t \<or> tprefix t \<noteq> None" and "rpath r \<notin> set unguarded"
    and "route c (Some t) r ws a = Some (b, rs)"
  shows "acts (tok_can_write (Some t)) a b"
  using route_acts [OF assms(1,2)] assms(3) unfolding fine_def by blast

theorem restricted_token_writes_in_scope_witness:
  "\<exists>b rs. route \<lparr>c_help = [], c_root = [], c_ppath = [], c_bdir = [], c_copy = None, c_repl = \<lparr>r_enabled = False, r_primary = [], r_next = 0, r_lag = 0, r_sync = 0, r_errors = 0, r_resyncs = 0\<rparr>, c_seed = 1, c_epoch = (\<lambda>_. 0), c_score = (\<lambda>_ _ _. 0)\<rparr> (Some \<lparr>ttoken = ''t'', tro = True, tprefix = None\<rparr>)
      \<lparr>rmethod = ''DELETE'', rpath = ''/del'', rquery = ''key=a'', rbody = [], rauth = [], rjson = False\<rparr> (\<lambda>_. healthy 5)
      \<lparr>a_main = store_open [] (healthy 0), a_proj = None, a_mandate = [], a_rand = 1\<rparr> = Some (b, rs) \<and>
    acts (tok_can_write (Some \<lparr>ttoken = ''t'', tro = True, tprefix = None\<rparr>)) \<lparr>a_main = store_open [] (healthy 0), a_proj = None, a_mandate = [], a_rand = 1\<rparr> b"
proof -
  let ?c = "\<lparr>c_help = [], c_root = [], c_ppath = [], c_bdir = [], c_copy = None, c_repl = \<lparr>r_enabled = False, r_primary = [], r_next = 0, r_lag = 0, r_sync = 0, r_errors = 0, r_resyncs = 0\<rparr>, c_seed = 1, c_epoch = (\<lambda>_. 0), c_score = (\<lambda>_ _ _. 0)\<rparr>" and ?a = "\<lparr>a_main = store_open [] (healthy 0), a_proj = None, a_mandate = [], a_rand = 1\<rparr>" and ?t = "\<lparr>ttoken = ''t'', tro = True, tprefix = None\<rparr>"
  let ?r = "\<lparr>rmethod = ''DELETE'', rpath = ''/del'', rquery = ''key=a'', rbody = [], rauth = [], rjson = False\<rparr>"
  obtain b rs where "do_del (Some ?t) ?r (\<lambda>_. healthy 5) ?a = (b, rs)" by fastforce
  then have "route ?c (Some ?t) ?r (\<lambda>_. healthy 5) ?a = Some (b, rs)" by (simp add: route_def)
  with restricted_token_writes_in_scope [OF _ _ this] show ?thesis by (auto simp: unguarded_def)
qed

text \<open>
  C8. A value that a daemon persists is a set in exomind: the request is printed, cut into segments in any way, read, dispatched,
  its JSON body parsed, the record written, the reply printed, cut and parsed, and at the end the client reports success and
  the store shows the map with the key set to exactly the value, with the time to live asked for.
\<close>

theorem persist_reaches_the_store:
  assumes "word_ok (x_host e)" and "length (x_host e) \<le> 255" and "0 \<le> x_port e" and "x_port e \<le> 65535"
    and "key_word key" and "\<forall>cp \<in> set cps. scalar_value cp" and "v = concat (map utf8_encode cps)" and "nul \<notin> set v"
    and "length v \<le> MAX_VAL" and "length (persist_body key v ttl) \<le> MAX_BODY"
    and "LLONG_MIN \<le> ttl" and "ttl \<le> LLONG_MAX"
    and "sim t0 (a_main a) m" and "t0 \<le> t" and "int64 t" and "a_proj a = None"
    and "segmentation segs" and "segmentation segs'"
  shows "\<exists>a'. client_persist (wire_net c (\<lambda>_. healthy t) segs segs') e key v ttl a = (None, a') \<and>
      sim t (a_main a') (m(key \<mapsto> (v, t, if clamp_ttl ttl \<noteq> 0 then t + clamp_ttl ttl * 1000 else 0)))"
  using persist_served [OF assms, of c] by blast

theorem persist_reaches_the_store_witness:
  "\<exists>a'. client_persist (wire_net \<lparr>c_help = [], c_root = [], c_ppath = [], c_bdir = [], c_copy = None, c_repl = \<lparr>r_enabled = False, r_primary = [], r_next = 0, r_lag = 0, r_sync = 0, r_errors = 0, r_resyncs = 0\<rparr>, c_seed = 1, c_epoch = (\<lambda>_. 0), c_score = (\<lambda>_ _ _. 0)\<rparr> (\<lambda>_. healthy 5) (\<lambda>b. if b = [] then [] else [b]) (\<lambda>b. if b = [] then [] else [b])) \<lparr>x_host = ''127.0.0.1'', x_port = 7654\<rparr> ''k'' ''v'' 7 \<lparr>a_main = store_open [] (healthy 0), a_proj = None, a_mandate = [], a_rand = 1\<rparr> = (None, a') \<and>
      sim 5 (a_main a') ([''k'' \<mapsto> (''v'', 5, if clamp_ttl 7 \<noteq> 0 then 5 + clamp_ttl 7 * 1000 else 0)])"
proof (rule persist_reaches_the_store [where cps = "[0x76]" and ?t0.0 = 0])
  show "sim 0 (a_main \<lparr>a_main = store_open [] (healthy 0), a_proj = None, a_mandate = [], a_rand = 1\<rparr>) Map.empty" using sim_open [of 0] by simp
  show "''v'' = concat (map utf8_encode [0x76])" by code_simp
  show "\<forall>cp \<in> set [0x76]. scalar_value cp" by (simp add: scalar_value_def)
  show "length (persist_body ''k'' ''v'' 7) \<le> MAX_BODY"
    using json_escape_u_len [of "''v''"] show_int_len [of 7 1] by (simp add: persist_body_def jname_def MAX_BODY_def)
qed (simp_all add: word_ok_def key_word_def MAX_VAL_def LLONG_MIN_def LLONG_MAX_def int64_def segmentation_def)



text \<open>
  C10. Acting on a step, claiming the next one and cancelling, whether or not exomind accepts the writes, keep the invariant
  of a flow (distinct ids, resolved acyclic dependencies, and every done step has all its dependencies done), and move each
  step along its state machine: done and cancelled are final.
\<close>

theorem done_needs_dependencies:
  assumes "flow_inv (fsteps f)"
    and "step_do e f x act note = (e', f', r) \<or> flow_next e f w now1 now2 = (e', f', r2) \<or> flow_cancel1 e f = (e', f', r)"
  shows "flow_inv (fsteps f') \<and> steps_moved (fsteps f) (fsteps f')"
  using assms(2) step_do_moved [of e f x act "note" e' f' r] flow_next_moved [of e f w now1 now2 e' f' r2]
    flow_cancel1_moved [of e f e' f' r] assms(1) by (elim disjE) simp_all

theorem done_needs_dependencies_witness:
  "flow_inv (fsteps (fst (snd (step_do \<lparr>e_store = Map.empty, e_notes = [], e_reminders = [], e_ok = (\<lambda>_. True), e_seq = 0\<rparr>
     (empty_flow\<lparr>fsteps := [fresh_step ''a'' ''d'' []]\<rparr>) ''a'' ''done'' []))))"
proof -
  let ?f = "empty_flow\<lparr>fsteps := [fresh_step ''a'' ''d'' []]\<rparr>"
  let ?e = "\<lparr>e_store = Map.empty, e_notes = [], e_reminders = [], e_ok = (\<lambda>_. True), e_seq = 0\<rparr>"
  have "dep_rel (fsteps ?f) = {}" by (auto simp: dep_rel_def fresh_step_def)
  then have inv: "flow_inv (fsteps ?f)" by (simp add: flow_inv_def acyclic_def fresh_step_def)
  obtain e' f' r where s: "step_do ?e ?f ''a'' ''done'' [] = (e', f', r)" by (rule prod_cases3)
  show ?thesis using done_needs_dependencies [OF inv, of ?e "''a''" "''done''" "[]" e' f' r] s by simp
qed

text \<open>
  C11. The body of a full-access snapshot, posted to the restore operation of a server (any history, same or another), is
  accepted and replaces that server's contents by exactly the values live when the snapshot was taken, with a fresh write
  time and no expiry.
\<close>

theorem snapshot_restores_contents:
  assumes "store_inv t rs (a_main a)" and "t \<le> w_now (ws 0)" and "view (a_main a) (w_now (ws 0)) [] = None"
    and "sim t0 (a_main b) m" and "t0 \<le> t'" and "int64 t'"
    and "rmethod r = ''POST''" and "rbody r = p_body (snd (do_snapshot None ws a))"
  shows "\<exists>b' n. do_restore None r (\<lambda>_. healthy t') b = (b', plain 200 (''ok '' @ show_int n)) \<and>
    (\<forall>u \<ge> t'. view (a_main b') u =
      (\<lambda>k. map_option (\<lambda>(v, ts, ex). (v, t', 0)) (view (a_main a) (w_now (ws 0)) k)))"
  by (rule snapshot_restores [OF assms])

theorem snapshot_restores_contents_witness:
  "\<exists>b' n. do_restore None \<lparr>rmethod = ''POST'', rpath = ''/restore'', rquery = [],
        rbody = p_body (snd (do_snapshot None (\<lambda>_. healthy 8) \<lparr>a_main = store_open (log_bytes [set_rec ''a'' ''1'' 0 5]) (healthy 7),
          a_proj = None, a_mandate = [], a_rand = 1\<rparr>)), rauth = [], rjson = False\<rparr>
        (\<lambda>_. healthy 9) \<lparr>a_main = store_open [] (healthy 0), a_proj = None, a_mandate = [], a_rand = 1\<rparr> = (b', plain 200 (''ok '' @ show_int n)) \<and>
    view (a_main b') 9 ''a'' = Some (''1'', 9, 0)"
proof -
  let ?rs = "[set_rec ''a'' ''1'' 0 5]" and ?s = "store_open (log_bytes [set_rec ''a'' ''1'' 0 5]) (healthy 7)"
  let ?a = "\<lparr>a_main = ?s, a_proj = None, a_mandate = [], a_rand = 1\<rparr>"
  let ?r = "\<lparr>rmethod = ''POST'', rpath = ''/restore'', rquery = [],
    rbody = p_body (snd (do_snapshot None (\<lambda>_. healthy 8) ?a)), rauth = [], rjson = False\<rparr>"
  have ok: "\<forall>r \<in> set ?rs. rec_ok r"
    using rec_ok_set [of "''a''" "''1''" 5 0] by (simp add: key_ok_def MAX_KEY_def MAX_VAL_def int64_def)
  have inv: "store_inv 7 ?rs ?s" using store_open_clean(1) [OF ok] by simp
  have "live_rec 8 (set_rec ''a'' ''1'' 0 5) = Some (''1'', 5, 0)"
    by (simp add: live_rec_def Let_def) (simp add: set_rec_def clamp_ttl_def)
  then have v: "view ?s 8 = [''a'' \<mapsto> (''1'', 5, 0)]"
    using view_log [OF inv, of 8] log_view_snoc [of "[]" "set_rec ''a'' ''1'' 0 5" 8]
    by (simp add: fun_eq_iff) (simp add: set_rec_def)
  have "\<exists>b' n. do_restore None ?r (\<lambda>_. healthy 9) \<lparr>a_main = store_open [] (healthy 0), a_proj = None, a_mandate = [], a_rand = 1\<rparr> = (b', plain 200 (''ok '' @ show_int n)) \<and>
      (\<forall>u \<ge> 9. view (a_main b') u =
        (\<lambda>k. map_option (\<lambda>(v, ts, ex). (v, 9, 0)) (view (a_main ?a) (w_now ((\<lambda>_. healthy 8) 0)) k)))"
  proof (rule snapshot_restores_contents [where t = 7 and rs = ?rs and m = Map.empty and ?t0.0 = 0])
    show "store_inv 7 ?rs (a_main ?a)" using inv by (simp only: srv.simps)
    show "view (a_main ?a) (w_now ((\<lambda>_. healthy 8) 0)) [] = None" using v by (simp only: srv.simps healthy_simps) simp
    show "sim 0 (a_main \<lparr>a_main = store_open [] (healthy 0), a_proj = None, a_mandate = [], a_rand = 1\<rparr>) Map.empty" using sim_open [of 0] by simp
  qed (simp_all add: int64_def)
  moreover have "view (a_main ?a) (w_now ((\<lambda>_. healthy 8) 0)) ''a'' = Some (''1'', 5, 0)"
    using v by (simp only: srv.simps healthy_simps) simp
  ultimately show ?thesis by (elim exE conjE) (intro exI conjI, assumption, simp)
qed

text \<open>
  C12. The hash index is a map: after \<open>upsert\<close>, which may double the table and rehash every entry, a lookup finds the
  new entry under its key and the old ones under every other key, the table is still well formed; deletion removes one key;
  growth alone changes no lookup.
\<close>

theorem index_is_a_finite_map:
  assumes "index_ok ix"
  shows "find_slot (fst (upsert ix key off vlen ts ttl)) k =
      (if k = key then Some (mk_entry key off vlen ts ttl) else find_slot ix k) \<and>
    index_ok (fst (upsert ix key off vlen ts ttl)) \<and>
    find_slot (del_entry ix key) k = (if k = key then None else find_slot ix k) \<and>
    find_slot (grow ix) k = find_slot ix k"
  using assms by (simp add: find_slot_upsert index_ok_upsert find_slot_del find_slot_grow)

theorem index_is_a_finite_map_witness:
  "find_slot (fst (upsert empty_index ''a'' 0 1 5 0)) ''a'' = Some (mk_entry ''a'' 0 1 5 0)"
  using index_is_a_finite_map [OF index_ok_empty, of "''a''" 0 1 5 0 "''a''"] by simp

text \<open>
  C13. From an empty registry exoflow may serve any operations and reload sound documents; then any bytes arrive on a connection,
  in any segments, with any token and any failures of its own requests. The registry afterwards keeps its count, unique
  ids, flows whose dependencies resolve without cycles, done steps only with done dependencies, and counted loop
  iterations within the loop's maximum.
\<close>

theorem registry_stays_consistent:
  assumes "reg_reaches \<lparr>g_flows = [], g_nflows = 0, g_gen = g\<rparr> (fs_reg s)"
    and "flow_handle_conn k token rt tick segs s = (s', rt', b)"
  shows "g_nflows (fs_reg s') = length (g_flows (fs_reg s')) \<and> distinct (map fid (g_flows (fs_reg s'))) \<and>
    (\<forall>f \<in> set (g_flows (fs_reg s')). flow_inv (fsteps f) \<and> (loop_active f \<and> loop_max f > 0 \<longrightarrow> loop_budget f \<le> loop_max f))"
  using reg_reaches_ok [OF reaches_trans [OF conn_reaches [OF assms(2)] assms(1)] reg_ok_empty]
  by (auto simp: reg_ok_def list_all_iff flow_good_def within_budget_def)

theorem registry_stays_consistent_witness:
  "g_nflows (fs_reg (fst (flow_handle_conn \<lparr>fe_clock = (\<lambda>_. 5), fe_tries = (\<lambda>_. []), fe_ids = [], fe_xs = True, fe_why = [], fe_spec = []\<rparr>
      [] None 0 [''GET /flows HTTP/1.1'' @ crlf @ crlf]
      \<lparr>fs_env = \<lparr>e_store = Map.empty, e_notes = [], e_reminders = [], e_ok = (\<lambda>_. True), e_seq = 0\<rparr>,
       fs_reg = \<lparr>g_flows = [], g_nflows = 0, g_gen = 3\<rparr>\<rparr>))) =
    length (g_flows (fs_reg (fst (flow_handle_conn \<lparr>fe_clock = (\<lambda>_. 5), fe_tries = (\<lambda>_. []), fe_ids = [], fe_xs = True, fe_why = [], fe_spec = []\<rparr>
      [] None 0 [''GET /flows HTTP/1.1'' @ crlf @ crlf]
      \<lparr>fs_env = \<lparr>e_store = Map.empty, e_notes = [], e_reminders = [], e_ok = (\<lambda>_. True), e_seq = 0\<rparr>,
       fs_reg = \<lparr>g_flows = [], g_nflows = 0, g_gen = 3\<rparr>\<rparr>))))"
proof -
  let ?k = "\<lparr>fe_clock = (\<lambda>_. 5), fe_tries = (\<lambda>_. []), fe_ids = [], fe_xs = True, fe_why = [], fe_spec = []\<rparr>"
  let ?s = "\<lparr>fs_env = \<lparr>e_store = Map.empty, e_notes = [], e_reminders = [], e_ok = (\<lambda>_. True), e_seq = 0\<rparr>,
       fs_reg = \<lparr>g_flows = [], g_nflows = 0, g_gen = 3\<rparr>\<rparr>"
  obtain s' rt' b where c: "flow_handle_conn ?k [] None 0 [''GET /flows HTTP/1.1'' @ crlf @ crlf] ?s = (s', rt', b)" by (rule prod_cases3)
  have "reg_reaches \<lparr>g_flows = [], g_nflows = 0, g_gen = 3\<rparr> (fs_reg ?s)" by (simp add: rr_refl)
  then show ?thesis using registry_stays_consistent [OF _ c] unfolding c by simp
qed



text \<open>
  C15. What exocrawl puts into its cache reaches exomind through the bytes of the HTTP messages, and for a day every fetch of the same URL,
  whatever limit or sections it asks for, is answered with that text. The page must fit the request buffer (8065 bytes), must
  not read like a form and must not start with the word missing.
\<close>

theorem cached_page_lasts_a_day:
  assumes "v_net x = (\<lambda>e. wire_net c (\<lambda>_. healthy t) segs segs')" and "v_net x' = (\<lambda>e. wire_net c (\<lambda>_. healthy t') segs segs')"
    and "inet_ok (cc_host cf)" and "cc_cache cf" and "segmentation segs" and "segmentation segs'"
    and "sim t0 (a_main (cw s)) m" and "t0 \<le> t" and "int64 t" and "t \<le> t'" and "t' < t + 86400000" and "a_proj (cw s) = None"
    and "raw_body v" and "cache_fits v" and "nul \<notin> set v" and "take 7 v \<noteq> ''missing''"
  shows "\<exists>s'. fetch_page x' n cf j (crawl_cache_put x cf (j_url j) v s) = Some (Inr (Some v), s')"
  using cached_for_a_day [OF assms, of "j_url j"] by (auto simp: fetch_page_def)

theorem cached_page_lasts_a_day_witness:
  "\<exists>s'. fetch_page \<lparr>v_sh = (\<lambda>c w. ((1, None, None), w)), v_tmp = (\<lambda>w. (None, w)), v_now = (\<lambda>w. (5, w)), v_sleep = (\<lambda>i w. w), v_net = (\<lambda>e. wire_net \<lparr>c_help = [], c_root = [], c_ppath = [], c_bdir = [], c_copy = None, c_repl = \<lparr>r_enabled = False, r_primary = [], r_next = 0, r_lag = 0, r_sync = 0, r_errors = 0, r_resyncs = 0\<rparr>, c_seed = 1, c_epoch = (\<lambda>_. 0), c_score = (\<lambda>_ _ _. 0)\<rparr> (\<lambda>_. healthy 6) (\<lambda>b. if b = [] then [] else [b]) (\<lambda>b. if b = [] then [] else [b])), v_file = (\<lambda>f w. None), v_mkdir = (\<lambda>d w. w), v_write = (\<lambda>f b w. w), v_dir = (\<lambda>d w. None), v_delay = (\<lambda>s. 0), v_order = (\<lambda>n w. [0..<n]), v_room = 1099511627776\<rparr> net_init \<lparr>cc_pace = 200, cc_cache = True, cc_robots = False, cc_dir = [], cc_host = ''127.0.0.1'', cc_port = 7654, cc_token = None, cc_jobs = 16, cc_listen = 7658\<rparr> \<lparr>j_url = ''http://h/'', j_max = 10, j_links = False, j_images = False, j_polite = False\<rparr> (crawl_cache_put \<lparr>v_sh = (\<lambda>c w. ((1, None, None), w)), v_tmp = (\<lambda>w. (None, w)), v_now = (\<lambda>w. (5, w)), v_sleep = (\<lambda>i w. w), v_net = (\<lambda>e. wire_net \<lparr>c_help = [], c_root = [], c_ppath = [], c_bdir = [], c_copy = None, c_repl = \<lparr>r_enabled = False, r_primary = [], r_next = 0, r_lag = 0, r_sync = 0, r_errors = 0, r_resyncs = 0\<rparr>, c_seed = 1, c_epoch = (\<lambda>_. 0), c_score = (\<lambda>_ _ _. 0)\<rparr> (\<lambda>_. healthy 5) (\<lambda>b. if b = [] then [] else [b]) (\<lambda>b. if b = [] then [] else [b])), v_file = (\<lambda>f w. None), v_mkdir = (\<lambda>d w. w), v_write = (\<lambda>f b w. w), v_dir = (\<lambda>d w. None), v_delay = (\<lambda>s. 0), v_order = (\<lambda>n w. [0..<n]), v_room = 1099511627776\<rparr> \<lparr>cc_pace = 200, cc_cache = True, cc_robots = False, cc_dir = [], cc_host = ''127.0.0.1'', cc_port = 7654, cc_token = None, cc_jobs = 16, cc_listen = 7658\<rparr> ''http://h/'' ''news'' \<lparr>cw = \<lparr>a_main = store_open [] (healthy 0), a_proj = None, a_mandate = [], a_rand = 1\<rparr>, cw_ua = 0, cw_paces = [], cw_robs = [], cw_fetches = 0, cw_errors = 0, cw_hits = 0, cw_bytes = 0\<rparr>) = Some (Inr (Some ''news''), s')"
proof -
  let ?x1 = "\<lparr>v_sh = (\<lambda>c w. ((1, None, None), w)), v_tmp = (\<lambda>w. (None, w)), v_now = (\<lambda>w. (5, w)), v_sleep = (\<lambda>i w. w), v_net = (\<lambda>e. wire_net \<lparr>c_help = [], c_root = [], c_ppath = [], c_bdir = [], c_copy = None, c_repl = \<lparr>r_enabled = False, r_primary = [], r_next = 0, r_lag = 0, r_sync = 0, r_errors = 0, r_resyncs = 0\<rparr>, c_seed = 1, c_epoch = (\<lambda>_. 0), c_score = (\<lambda>_ _ _. 0)\<rparr> (\<lambda>_. healthy 5) (\<lambda>b. if b = [] then [] else [b]) (\<lambda>b. if b = [] then [] else [b])), v_file = (\<lambda>f w. None), v_mkdir = (\<lambda>d w. w), v_write = (\<lambda>f b w. w), v_dir = (\<lambda>d w. None), v_delay = (\<lambda>s. 0), v_order = (\<lambda>n w. [0..<n]), v_room = 1099511627776\<rparr>" and ?x2 = "\<lparr>v_sh = (\<lambda>c w. ((1, None, None), w)), v_tmp = (\<lambda>w. (None, w)), v_now = (\<lambda>w. (5, w)), v_sleep = (\<lambda>i w. w), v_net = (\<lambda>e. wire_net \<lparr>c_help = [], c_root = [], c_ppath = [], c_bdir = [], c_copy = None, c_repl = \<lparr>r_enabled = False, r_primary = [], r_next = 0, r_lag = 0, r_sync = 0, r_errors = 0, r_resyncs = 0\<rparr>, c_seed = 1, c_epoch = (\<lambda>_. 0), c_score = (\<lambda>_ _ _. 0)\<rparr> (\<lambda>_. healthy 6) (\<lambda>b. if b = [] then [] else [b]) (\<lambda>b. if b = [] then [] else [b])), v_file = (\<lambda>f w. None), v_mkdir = (\<lambda>d w. w), v_write = (\<lambda>f b w. w), v_dir = (\<lambda>d w. None), v_delay = (\<lambda>s. 0), v_order = (\<lambda>n w. [0..<n]), v_room = 1099511627776\<rparr>" and ?cf = "\<lparr>cc_pace = 200, cc_cache = True, cc_robots = False, cc_dir = [], cc_host = ''127.0.0.1'', cc_port = 7654, cc_token = None, cc_jobs = 16, cc_listen = 7658\<rparr>" and ?st = "\<lparr>cw = \<lparr>a_main = store_open [] (healthy 0), a_proj = None, a_mandate = [], a_rand = 1\<rparr>, cw_ua = 0, cw_paces = [], cw_robs = [], cw_fetches = 0, cw_errors = 0, cw_hits = 0, cw_bytes = 0\<rparr>" and ?j = "\<lparr>j_url = ''http://h/'', j_max = 10, j_links = False, j_images = False, j_polite = False\<rparr>"
  have sim: "sim 0 (a_main (cw ?st)) Map.empty" using sim_open [of 0] by simp
  have raw: "raw_body ''news''" by (simp add: raw_body_def is_form_body_def form_pairs_def cstr_def strtok_all.simps)
  have i: "inet_ok (cc_host ?cf)" by (simp add: inet_ok_def octet_ok_def digits_val_def) code_simp
  show ?thesis
    using cached_page_lasts_a_day [of ?x1 "\<lparr>c_help = [], c_root = [], c_ppath = [], c_bdir = [], c_copy = None, c_repl = \<lparr>r_enabled = False, r_primary = [], r_next = 0, r_lag = 0, r_sync = 0, r_errors = 0, r_resyncs = 0\<rparr>, c_seed = 1, c_epoch = (\<lambda>_. 0), c_score = (\<lambda>_ _ _. 0)\<rparr>" 5 "(\<lambda>b. if b = [] then [] else [b])" "(\<lambda>b. if b = [] then [] else [b])" ?x2 6 ?cf 0 ?st Map.empty "''news''" net_init ?j] sim raw i
    by (simp add: segmentation_def int64_def LLONG_MIN_def LLONG_MAX_def cache_fits_def)
qed

text \<open>
  C16. exocrawl posts the text of a page without a content type, and exomind reads a body with a parameter named key as a form: a page whose
  text ends with such parameters sets an arbitrary key of the store to an arbitrary value when it is cached, without expiry,
  and the cache entry itself is not written.
\<close>

theorem page_text_sets_any_key:
  assumes "v_net x = (\<lambda>e. wire_net c (\<lambda>_. healthy t) segs segs')" and "inet_ok (cc_host cf)" and "cc_cache cf"
    and "segmentation segs" and "segmentation segs'"
    and "sim t0 (a_main (cw s)) m" and "t0 \<le> t" and "int64 t" and "a_proj (cw s) = None"
    and "plain_word text" and "hd text \<noteq> CHR ''{''" and "plain_word k" and "length k \<le> MAX_KEY" and "plain_word v"
    and "cache_fits (form_page text k v)"
  shows "\<exists>a'. crawl_cache_put x cf url (form_page text k v) s = s\<lparr>cw := a'\<rparr> \<and> sim t (a_main a') (m(k \<mapsto> (v, t, 0)))"
  by (rule page_sets_key [OF assms])

theorem page_text_sets_any_key_witness:
  "\<exists>a'. crawl_cache_put \<lparr>v_sh = (\<lambda>c w. ((1, None, None), w)), v_tmp = (\<lambda>w. (None, w)), v_now = (\<lambda>w. (5, w)), v_sleep = (\<lambda>i w. w), v_net = (\<lambda>e. wire_net \<lparr>c_help = [], c_root = [], c_ppath = [], c_bdir = [], c_copy = None, c_repl = \<lparr>r_enabled = False, r_primary = [], r_next = 0, r_lag = 0, r_sync = 0, r_errors = 0, r_resyncs = 0\<rparr>, c_seed = 1, c_epoch = (\<lambda>_. 0), c_score = (\<lambda>_ _ _. 0)\<rparr> (\<lambda>_. healthy 5) (\<lambda>b. if b = [] then [] else [b]) (\<lambda>b. if b = [] then [] else [b])), v_file = (\<lambda>f w. None), v_mkdir = (\<lambda>d w. w), v_write = (\<lambda>f b w. w), v_dir = (\<lambda>d w. None), v_delay = (\<lambda>s. 0), v_order = (\<lambda>n w. [0..<n]), v_room = 1099511627776\<rparr> \<lparr>cc_pace = 200, cc_cache = True, cc_robots = False, cc_dir = [], cc_host = ''127.0.0.1'', cc_port = 7654, cc_token = None, cc_jobs = 16, cc_listen = 7658\<rparr> ''http://h/'' (form_page ''news'' ''mandate'' ''evil'') \<lparr>cw = \<lparr>a_main = store_open [] (healthy 0), a_proj = None, a_mandate = [], a_rand = 1\<rparr>, cw_ua = 0, cw_paces = [], cw_robs = [], cw_fetches = 0, cw_errors = 0, cw_hits = 0, cw_bytes = 0\<rparr> = \<lparr>cw = \<lparr>a_main = store_open [] (healthy 0), a_proj = None, a_mandate = [], a_rand = 1\<rparr>, cw_ua = 0, cw_paces = [], cw_robs = [], cw_fetches = 0, cw_errors = 0, cw_hits = 0, cw_bytes = 0\<rparr>\<lparr>cw := a'\<rparr> \<and>
      sim 5 (a_main a') [''mandate'' \<mapsto> (''evil'', 5, 0)]"
proof (rule page_text_sets_any_key [where ?t0.0 = 0 and c = "\<lparr>c_help = [], c_root = [], c_ppath = [], c_bdir = [], c_copy = None, c_repl = \<lparr>r_enabled = False, r_primary = [], r_next = 0, r_lag = 0, r_sync = 0, r_errors = 0, r_resyncs = 0\<rparr>, c_seed = 1, c_epoch = (\<lambda>_. 0), c_score = (\<lambda>_ _ _. 0)\<rparr>" and segs = "(\<lambda>b. if b = [] then [] else [b])" and segs' = "(\<lambda>b. if b = [] then [] else [b])"])
  show "sim 0 (a_main (cw \<lparr>cw = \<lparr>a_main = store_open [] (healthy 0), a_proj = None, a_mandate = [], a_rand = 1\<rparr>, cw_ua = 0, cw_paces = [], cw_robs = [], cw_fetches = 0, cw_errors = 0, cw_hits = 0, cw_bytes = 0\<rparr>)) Map.empty" using sim_open [of 0] by simp
  show "inet_ok (cc_host \<lparr>cc_pace = 200, cc_cache = True, cc_robots = False, cc_dir = [], cc_host = ''127.0.0.1'', cc_port = 7654, cc_token = None, cc_jobs = 16, cc_listen = 7658\<rparr>)" by (simp add: inet_ok_def octet_ok_def digits_val_def) code_simp
qed (simp_all add: segmentation_def int64_def LLONG_MIN_def LLONG_MAX_def cache_fits_def form_page_def plain_word_def MAX_KEY_def)

text \<open>
  C17. Progress. In a flow with resolved acyclic dependencies in which some step is unfinished and every unfinished step is
  pending, a worker with a valid name always gets a step to work on, provided exomind accepts the writes.
\<close>

theorem next_step_progress:
  assumes "flow_inv (fsteps f)" and "safe_token w OWNER_MAX" and "\<And>n. e_ok e n"
    and "s \<in> set (swept now1 (fsteps f))" and "sstate s \<noteq> Done"
    and "\<And>s. s \<in> set (swept now1 (fsteps f)) \<Longrightarrow> sstate s = Pending \<or> sstate s = Done"
  shows "\<exists>e' f' x. flow_next e f w now1 now2 = (e', f', Inr (Some x))"
  using assms by (rule flow_next_progress)

theorem next_step_progress_witness:
  "\<exists>e' f' x. flow_next \<lparr>e_store = Map.empty, e_notes = [], e_reminders = [], e_ok = (\<lambda>_. True), e_seq = 0\<rparr>
     (empty_flow\<lparr>fsteps := [fresh_step ''a'' ''d'' []]\<rparr>) ''w1'' 5 6 = (e', f', Inr (Some x))"
proof -
  let ?f = "empty_flow\<lparr>fsteps := [fresh_step ''a'' ''d'' []]\<rparr>"
  have "dep_rel (fsteps ?f) = {}" by (auto simp: dep_rel_def fresh_step_def)
  then have inv: "flow_inv (fsteps ?f)" by (simp add: flow_inv_def acyclic_def fresh_step_def)
  have w: "safe_token ''w1'' OWNER_MAX" by code_simp
  have sw: "swept 5 (fsteps ?f) = [fresh_step ''a'' ''d'' []]"
    by (simp add: swept_def deadline_passed_def fresh_step_def)
  show ?thesis
    by (rule next_step_progress [OF inv w, of _ "fresh_step ''a'' ''d'' []"]) (unfold sw, simp_all add: fresh_step_def)
qed

text \<open>
  C18. However a request arrives, in whatever non-empty segments, the reader (which looks for the end of the headers only in the
  newly arrived bytes and the four before them, and takes body bytes that came along with the headers) reads exactly what the
  plain definition reads from the whole byte stream, including what it rejects.
\<close>

theorem request_independent_of_segments:
  assumes "[] \<notin> set segs"
  shows "read_request segs = request_of (concat segs)"
  by (rule read_request_stream [OF assms])

theorem request_independent_of_segments_witness:
  "read_request [''GET /ping HTTP/1.1'' @ [cr, nl, cr], [nl]] = read_request [''GET /pi'', ''ng HTTP/1.1'' @ [cr, nl, cr, nl]]"
  using request_independent_of_segments [of "[''GET /ping HTTP/1.1'' @ [cr, nl, cr], [nl]]"]
    request_independent_of_segments [of "[''GET /pi'', ''ng HTTP/1.1'' @ [cr, nl, cr, nl]]"] by simp



text \<open>
  C20. Over a key file of whole lines: after keys add succeeds, what the server loads from the file holds a token of that name with the
  modifiers of the entry; after keys remove of that name the file is what it was before and no loaded token has the name.
\<close>

theorem key_grant_and_revoke:
  assumes "\<forall>l \<in> set ls. key_line l" and "length ls < MAX_TOKENS" and "k_files fs path = Some (key_text ls)" and "key_entry e"
    and "length path < 4092" and "path \<noteq> []"
    and "keys_add fs path e = (fs1, Inr ())" and "keys_remove fs1 path (key_name e) = (fs2, Inr ex)"
  shows "(\<exists>x \<in> set (fst (http_load_tokens [] (k_files fs1 path))). ttoken x = key_name e \<and>
      (tro x, tprefix x) = (let (ro, pre, bad) = tok_mods (drop (Suc (length (key_name e))) e) False False in (ro, pre))) \<and>
    ex \<and> k_files fs2 path = k_files fs path \<and>
    key_name e \<notin> ttoken ` set (fst (http_load_tokens [] (k_files fs2 path)))"
  by (rule key_lifecycle [OF assms])

theorem key_grant_and_revoke_witness:
  "\<exists>ex fs2. keys_remove (fst (keys_add \<lparr>k_files = [''f'' \<mapsto> ''old:ro'' @ [nl]], k_noopen = (\<lambda>_. None), k_noread = (\<lambda>_. []), k_norename = None\<rparr>
       ''f'' ''new:ro'')) ''f'' ''new'' = (fs2, Inr ex) \<and> ex \<and> k_files fs2 ''f'' = Some (''old:ro'' @ [nl])"
proof -
  let ?fs = "\<lparr>k_files = [''f'' \<mapsto> ''old:ro'' @ [nl]], k_noopen = (\<lambda>_. None), k_noread = (\<lambda>_. []), k_norename = None\<rparr>"
  define fs1 where "fs1 = fst (keys_add ?fs ''f'' ''new:ro'')"
  have n: "key_name ''new:ro'' = ''new''" by (simp add: key_name_def)
  have t: "[nl] @ [] = [nl]" "key_text [''old:ro''] = ''old:ro'' @ [nl]" by simp_all
  have "\<not> file_has_line ?fs ''f'' ''new''" by code_simp
  then have a: "keys_add ?fs ''f'' ''new:ro'' = (fs1, Inr ())" "k_norename fs1 = None" "k_noopen fs1 = (\<lambda>_. None)" "k_files fs1 ''f'' \<noteq> None"
    by (simp_all add: fs1_def keys_add_def)
  obtain ex fs2 where r: "keys_remove fs1 ''f'' ''new'' = (fs2, Inr ex)"
    using a(2-4) by (cases "keys_remove fs1 ''f'' ''new''") (auto simp: keys_remove_def Let_def split: if_split_asm)
  have "key_line ''old:ro''" "key_entry ''new:ro''" by code_simp+
  then show ?thesis
    using key_grant_and_revoke [of "[''old:ro'']" ?fs "''f''" "''new:ro''" fs1 fs2 ex] a(1) r n t
    by (auto simp: fs1_def [symmetric] MAX_TOKENS_def)
qed





text \<open>
  C23. A listing by prefix through the sorted key array that does not report truncation returns exactly the live keys that
  start with the prefix, once each, in the order asked for, although the array may hold keys that were deleted or expired.
\<close>

theorem prefix_query_exact:
  assumes "index_ok (sidx s)" and "aux_inv s" and "store_query s Q_LIST (Some p) sub desc now = (s', arr, False)"
  shows "set arr = {push_kv k None (ets e) 0 | k e. take (length (cstr p)) k = cstr p \<and>
      find_slot (sidx s) k = Some e \<and> \<not> expired now e} \<and>
    sorted_wrt (\<lambda>a b. (if desc then cmp_list_desc else cmp_list_asc) a b \<le> 0) arr \<and> distinct arr \<and> aux_inv s'"
  using query_list_prefix [OF assms] by blast

theorem prefix_query_exact_witness:
  "fst (snd (store_query (store_open [] (healthy 0)) Q_LIST (Some ''a'') None False 1)) = []"
proof -
  let ?s = "store_open [] (healthy 0)"
  have s: "index_ok (sidx ?s)" "aux_inv ?s" "find_slot (sidx ?s) = Map.empty" using open_empty by auto
  obtain s' arr tr where q: "store_query ?s Q_LIST (Some ''a'') None False 1 = (s', arr, tr)" by (rule prod_cases3)
  have "\<not> tr" using query_empty_index [OF s q] by simp
  then have q': "store_query ?s Q_LIST (Some ''a'') None False 1 = (s', arr, False)" using q by simp
  have "set arr = {}" using prefix_query_exact [OF s(1,2) q'] s(3) by auto
  then show ?thesis using q by simp
qed



text \<open>
  C25. The iterative three-colour search reports a cycle exactly when some step depends, through others, on itself.
\<close>

theorem cycle_check_exact:
  "detect_cycle ss \<longleftrightarrow> \<not> acyclic (dep_rel ss)"
  by (rule detect_cycle_iff)

text \<open>
  C26. From the bytes of standard input to those of standard output: of the two lines of a client that calls the tools set and get,
  with a key of unreserved characters and a value without other control characters, the first is answered with ok and the second with
  that value, escaped, through the JSON scan, the decoder, the tool table, the HTTP routes and the store.
\<close>

theorem mcp_session_reads_what_it_stored:
  assumes "sim t0 (a_main a) mp" and "t0 \<le> t" and "int64 t" and "t \<le> t'"
    and "k \<noteq> []" and "list_all unreserved k" and "length k < 2000"
    and "list_all jsonable v" and "v \<noteq> []" and "length (esc_all v) < 4096" and "raw_body v" and "a_proj a = None"
    and "wss 0 = (\<lambda>_. healthy t)" and "wss 1 = (\<lambda>_. healthy t')"
    and "m_call m = mcp_call c wss" and "t_name ` set (m_tools m) = set tool_names"
    and "jwf (JRaw i)" and "length i < 64" and "jwf (JRaw j)" and "length j < 64"
  shows "\<exists>st. mcp_stdio m (jprint (call_json i ''set'' [(''key'', JText k), (''value'', JText v)]) @ nl #
      jprint (call_json j ''get'' [(''key'', JText k)]) @ [nl]) (a, 0) = Some (done_reply i ''ok'' @ done_reply j v, st)"
  by (rule session_stores_and_reads [OF assms])

theorem mcp_session_reads_what_it_stored_witness:
  "\<forall>c. \<exists>st. mcp_stdio \<lparr>m_tools = map (\<lambda>n. \<lparr>t_name = n, t_desc = [], t_schema = ''{}''\<rparr>) tool_names, m_name = ''exomind'', m_ver = ''1'',
        m_call = mcp_call c (\<lambda>n _. if n = 0 then healthy 5 else healthy 6)\<rparr>
      (jprint (call_json ''1'' ''set'' [(''key'', JText ''a-b''), (''value'', JText (''say '' @ [quot, CHR ''x'', quot, nl]))]) @ nl #
       jprint (call_json ''2'' ''get'' [(''key'', JText ''a-b'')]) @ [nl])
      (\<lparr>a_main = store_open [] (healthy 0), a_proj = None, a_mandate = [], a_rand = 1\<rparr>, 0) =
      Some (done_reply ''1'' ''ok'' @ done_reply ''2'' (''say '' @ [quot, CHR ''x'', quot, nl]), st)"
proof (intro allI, rule mcp_session_reads_what_it_stored [where mp = Map.empty and ?t0.0 = 0 and t = 5 and t' = 6])
  show "sim 0 (a_main \<lparr>a_main = store_open [] (healthy 0), a_proj = None, a_mandate = [], a_rand = 1\<rparr>) Map.empty" using sim_open [of 0] by simp
  show "raw_body (''say '' @ [quot, CHR ''x'', quot, nl])" by code_simp
  show "list_all unreserved ''a-b''" by code_simp
  show "list_all jsonable (''say '' @ [quot, CHR ''x'', quot, nl])" by code_simp
  show "length (esc_all (''say '' @ [quot, CHR ''x'', quot, nl])) < 4096" by code_simp
  show "jwf (JRaw ''1'')" by code_simp
  show "jwf (JRaw ''2'')" by code_simp
qed (simp_all add: int64_def image_image)

text \<open>
  C27. When \<open>stop-loop\<close> reports success, every record of the loop is stopped with no next run, and a tick of any of them does
  nothing, whatever the clock.
\<close>

theorem stopped_loop_never_runs_again:
  assumes "flow_stop_loop e r i = (e', r', Inr ())"
  shows "\<exists>j < length (g_flows r). fid (g_flows r ! j) = i \<and> loop_active (g_flows r ! j) \<and>
    (\<forall>k < length (g_flows r'). in_loop (loop_root_id (g_flows r ! j)) (g_flows r' ! k) \<longrightarrow>
      loop_stopped (g_flows r' ! k) \<and> loop_next (g_flows r' ! k) = 0 \<and>
      (\<forall>e now tries xs. loop_tick e r' k now tries xs = (e, r', Inr ())))"
proof -
  obtain j where j: "j < length (g_flows r)" "fid (g_flows r ! j) = i" "loop_active (g_flows r ! j)"
    "\<forall>g \<in> set (g_flows r'). in_loop (loop_root_id (g_flows r ! j)) g \<longrightarrow> loop_stopped g \<and> loop_next g = 0"
    using flow_stop_loop_halts [OF assms] by blast
  then show ?thesis using stopped_never_due nth_mem by blast
qed

theorem stopped_loop_never_runs_again_witness:
  "\<exists>e' r'. flow_stop_loop \<lparr>e_store = Map.empty, e_notes = [], e_reminders = [], e_ok = (\<lambda>_. True), e_seq = 0\<rparr>
      \<lparr>g_flows = [empty_flow\<lparr>fid := ''a'', loop_active := True, loop_next := 5\<rparr>], g_nflows = 1, g_gen = 0\<rparr> ''a'' = (e', r', Inr ()) \<and>
    loop_tick e' r' 0 9 [] True = (e', r', Inr ())"
proof -
  let ?e = "\<lparr>e_store = Map.empty, e_notes = [], e_reminders = [], e_ok = (\<lambda>_. True), e_seq = 0\<rparr>"
  let ?f = "empty_flow\<lparr>fid := ''a'', loop_active := True, loop_next := 5\<rparr>"
  let ?r = "\<lparr>g_flows = [?f], g_nflows = 1, g_gen = 0\<rparr>"
  obtain e' r' where s: "flow_stop_loop ?e ?r ''a'' = (e', r', Inr ())" and f: "g_flows r' = [halt ?f]"
    by (simp add: flow_stop_loop_def flow_find_def loop_stop_all_def in_loop_def loop_root_id_def empty_flow_def
        persist_flow_def exo_persist_def Let_def)
  have "in_loop (loop_root_id ?f) (halt ?f)" by (simp add: in_loop_def loop_root_id_def empty_flow_def)
  then have "loop_tick e' r' 0 9 [] True = (e', r', Inr ())"
    using stopped_loop_never_runs_again [OF s] f by auto
  then show ?thesis using s by blast
qed

text \<open>
  C28. The document a flow is persisted as parses back to the flow: name, steps with their dependencies, states, owners,
  deadlines and timeouts, and the loop line; the id is the key.
\<close>

theorem flow_document_roundtrip:
  assumes "flow_ok f"
  shows "flow_parse (flow_serialize f) = Inr (f\<lparr>fid := []\<rparr>)"
  using assms by (rule flow_parse_serialize)

theorem flow_document_roundtrip_witness:
  "flow_parse (flow_serialize (empty_flow\<lparr>fname := ''n'', fsteps := [fresh_step ''a'' ''d'' []]\<rparr>)) =
     Inr (empty_flow\<lparr>fname := ''n'', fsteps := [fresh_step ''a'' ''d'' []]\<rparr>)"
  using flow_document_roundtrip [of "empty_flow\<lparr>fname := ''n'', fsteps := [fresh_step ''a'' ''d'' []]\<rparr>"]
  by (simp add: flow_ok_def empty_flow_def fresh_step_def step_ok_def loop_ok_def safe_token_def token_char_def isalnum_def
      islower_def less_eq_char_def STEP_ID_MAX_def LLONG_MAX_def)

text \<open>
  C29. Through the HTTP exchange with exomind, any sequence of detections of a check leaves under its key: nothing while no
  detection has failed; afterwards the record of the history since the first failure, open exactly when the last detection
  failed, with the number of failed detections, of failures since the last success and of failures that follow a success, the
  time of the first failure and of the last detection, and the last evidence. No other key changes.
\<close>

theorem issue_history_is_exact:
  assumes "served e segs segs' t0 a m" and "raw_key (issue_key check)" and "m (issue_key check) = None"
    and "\<forall>d \<in> set ds. detection_ok (snd d) \<and> int64 (fst d)" and "int (length ds) \<le> LLONG_MAX" and "sorted (t0 # map fst ds)"
  shows "\<exists>m' t'. served e segs segs' t' (detect_all (\<lambda>t. wire_net c (\<lambda>_. healthy t) segs segs') e check ds a) m' \<and>
    (case dropWhile (\<lambda>d. \<not> fst d) (map snd ds) of
       [] \<Rightarrow> m' (issue_key check) = None
     | d # r \<Rightarrow> \<exists>ts. m' (issue_key check) = Some (issue_value (issue_of (snd (snd d)) (d # r)), ts, 0)) \<and>
    (\<forall>j. j \<noteq> issue_key check \<longrightarrow> m' j = m j)"
proof -
  have "entry_at m (issue_key check) (issue_entry [])" using assms(3) by (simp add: entry_at_def issue_entry_def)
  from wire.detections_served [OF assms(1,2) this, of ds c] obtain m' t' where
    m: "served e segs segs' t' (detect_all (\<lambda>t. wire_net c (\<lambda>_. healthy t) segs segs') e check ds a) m'" "entry_at m' (issue_key check) (issue_entry (map snd ds))"
      "\<forall>j. j \<noteq> issue_key check \<longrightarrow> m' j = m j"
    using assms(4-6) by (auto simp del: detect_all.simps)
  show ?thesis
    using m by (intro exI [of _ m'] exI [of _ t'])
      (cases "dropWhile (\<lambda>d. \<not> fst d) (map snd ds)", simp_all add: entry_at_def issue_entry_def del: dropWhile_eq_Nil_conv)
qed

theorem issue_history_is_exact_witness:
  "\<exists>m' t'. served \<lparr>x_host = ''127.0.0.1'', x_port = 7654\<rparr> (\<lambda>b. if b = [] then [] else [b]) (\<lambda>b. if b = [] then [] else [b]) t' (detect_all (\<lambda>t. wire_net \<lparr>c_help = [], c_root = [], c_ppath = [], c_bdir = [], c_copy = None, c_repl = \<lparr>r_enabled = False, r_primary = [], r_next = 0, r_lag = 0, r_sync = 0, r_errors = 0, r_resyncs = 0\<rparr>, c_seed = 1, c_epoch = (\<lambda>_. 0), c_score = (\<lambda>_ _ _. 0)\<rparr> (\<lambda>_. healthy t) (\<lambda>b. if b = [] then [] else [b]) (\<lambda>b. if b = [] then [] else [b])) \<lparr>x_host = ''127.0.0.1'', x_port = 7654\<rparr> ''debt'' [(1, True, ''x'', 7), (2, False, ''y'', 8), (3, True, ''z'', 9)] \<lparr>a_main = store_open [] (healthy 0), a_proj = None, a_mandate = [], a_rand = 1\<rparr>) m' \<and>
    (\<exists>ts. m' ''issue:debt'' = Some (issue_value \<lparr>i_status = ''open'', i_fails = 2, i_consec = 1, i_first = 7, i_last = 9,
      i_reopens = 1, i_evidence = ''z''\<rparr>, ts, 0))"
proof -
  let ?ds = "[(1, True, ''x'', 7), (2, False, ''y'', 8), (3, True, ''z'', 9)] :: (int \<times> detection) list"
  have k: "issue_key ''debt'' = ''issue:debt''" by (simp add: issue_key_def)
  have s: "served \<lparr>x_host = ''127.0.0.1'', x_port = 7654\<rparr> (\<lambda>b. if b = [] then [] else [b]) (\<lambda>b. if b = [] then [] else [b]) 0 \<lparr>a_main = store_open [] (healthy 0), a_proj = None, a_mandate = [], a_rand = 1\<rparr> Map.empty"
    using sim_open [of 0] by (simp add: served_def exo_ok_def word_ok_def segmentation_def)
  have r: "raw_key (issue_key ''debt'')" unfolding k by (simp add: raw_key_def key_word_def)
  have sh: "shown_evidence ''x'' = ''x''" "shown_evidence ''y'' = ''y''" "shown_evidence ''z'' = ''z''"
    by (simp_all add: shown_evidence_def fit_def esc_line_def esc_char_def)
  have d: "\<forall>d \<in> set ?ds. detection_ok (snd d) \<and> int64 (fst d)"
    using utf8_text_ascii [of "''x''"] utf8_text_ascii [of "''y''"] utf8_text_ascii [of "''z''"]
    by (simp add: detection_ok_def evidence_ok_def sh int64_def)
  have i: "issue_of 7 (map snd ?ds) = \<lparr>i_status = ''open'', i_fails = 2, i_consec = 1, i_first = 7, i_last = 9, i_reopens = 1, i_evidence = ''z''\<rparr>"
    by (simp add: issue_of_def sh)
  have w: "dropWhile (\<lambda>d. \<not> fst d) (map snd ?ds) = (True, ''x'', 7) # [(False, ''y'', 8), (True, ''z'', 9)]" by simp
  have l: "int (length ?ds) \<le> LLONG_MAX" "sorted (0 # map fst ?ds)" by (simp_all add: LLONG_MAX_def)
  from issue_history_is_exact [where c = "\<lparr>c_help = [], c_root = [], c_ppath = [], c_bdir = [], c_copy = None, c_repl = \<lparr>r_enabled = False, r_primary = [], r_next = 0, r_lag = 0, r_sync = 0, r_errors = 0, r_resyncs = 0\<rparr>, c_seed = 1, c_epoch = (\<lambda>_. 0), c_score = (\<lambda>_ _ _. 0)\<rparr>", OF s r _ d l]
  obtain m' t' where m: "served \<lparr>x_host = ''127.0.0.1'', x_port = 7654\<rparr> (\<lambda>b. if b = [] then [] else [b]) (\<lambda>b. if b = [] then [] else [b]) t' (detect_all (\<lambda>t. wire_net \<lparr>c_help = [], c_root = [], c_ppath = [], c_bdir = [], c_copy = None, c_repl = \<lparr>r_enabled = False, r_primary = [], r_next = 0, r_lag = 0, r_sync = 0, r_errors = 0, r_resyncs = 0\<rparr>, c_seed = 1, c_epoch = (\<lambda>_. 0), c_score = (\<lambda>_ _ _. 0)\<rparr> (\<lambda>_. healthy t) (\<lambda>b. if b = [] then [] else [b]) (\<lambda>b. if b = [] then [] else [b])) \<lparr>x_host = ''127.0.0.1'', x_port = 7654\<rparr> ''debt'' ?ds \<lparr>a_main = store_open [] (healthy 0), a_proj = None, a_mandate = [], a_rand = 1\<rparr>) m'"
      "\<exists>ts. m' (issue_key ''debt'') = Some (issue_value (issue_of (snd (snd (True, ''x'', 7))) ((True, ''x'', 7) # [(False, ''y'', 8), (True, ''z'', 9)])), ts, 0)"
    unfolding w list.case by blast
  have i': "issue_of (snd (snd (True, ''x'', 7))) ((True, ''x'', 7) # [(False, ''y'', 8), (True, ''z'', 9)]) =
      \<lparr>i_status = ''open'', i_fails = 2, i_consec = 1, i_first = 7, i_last = 9, i_reopens = 1, i_evidence = ''z''\<rparr>"
    using i by simp
  show ?thesis using m(1) m(2) [unfolded i' k] by blast
qed

text \<open>
  C30. Whatever requests a non-conformity receives, refused ones included: it is closed only if the accepted actions begin with
  analyse, correct, verify, close, or if it carries a corrective action and evidence; and while it is not closed its status
  names exactly the actions accepted so far.
\<close>

theorem closed_nonconformity_was_worked_off:
  "n_status (nc_run (new_nc i title desc sev source now) rs) \<in> {''open'', ''analysis'', ''corrective'', ''verify'', ''closed''} \<and>
    (n_status (nc_run (new_nc i title desc sev source now) rs) \<noteq> ''closed'' \<longrightarrow> nc_accepted (new_nc i title desc sev source now) rs = nc_path (n_status (nc_run (new_nc i title desc sev source now) rs))) \<and>
    (n_status (nc_run (new_nc i title desc sev source now) rs) = ''closed'' \<longrightarrow>
       take 4 (nc_accepted (new_nc i title desc sev source now) rs) = [''analyse'', ''correct'', ''verify'', ''close''] \<or>
       n_caction (nc_run (new_nc i title desc sev source now) rs) \<noteq> [] \<and> n_evidence (nc_run (new_nc i title desc sev source now) rs) \<noteq> [])"
  using nc_run_history [OF nc_history_new, of i title desc sev source now rs] unfolding nc_history_def by auto

theorem closed_nonconformity_was_worked_off_witness:
  "take 4 (nc_accepted (new_nc ''1:00000001'' ''t'' ''d'' ''major'' ''s'' 3) [(''verify'', [], 4), (''analyse'', [], 5), (''correct'', [], 6), (''verify'', [], 7), (''close'', [], 8)]) = [''analyse'', ''correct'', ''verify'', ''close'']"
proof -
  let ?c = "(new_nc ''1:00000001'' ''t'' ''d'' ''major'' ''s'' 3)" and ?r = "[(''verify'', [], 4), (''analyse'', [], 5), (''correct'', [], 6), (''verify'', [], 7), (''close'', [], 8)]"
  have r: "n_status (nc_run ?c ?r) = ''closed''" "n_caction (nc_run ?c ?r) = []"
    by (simp_all add: new_nc_def nc_apply_def tab_split_def field_def bad_step_def)
  show ?thesis
    using closed_nonconformity_was_worked_off [of "''1:00000001''" "''t''" "''d''" "''major''" "''s''" 3 ?r] r by simp
qed

text \<open>
  C31. The workers and the callers of pool_wait sleep on one condition variable, so a submission may wake a caller instead of a worker.
  Still, in every reachable state a queued job has a worker that is awake or at work, and the workers alone can bring
  the pool to rest with exactly the submitted jobs done.
\<close>

theorem queued_jobs_are_all_done:
  assumes "pool_step\<^sup>*\<^sup>* (pool_init n) p"
  shows "(q_jobs p \<noteq> [] \<longrightarrow> 0 < q_ready p \<or> q_busy p \<noteq> []) \<and>
    (\<exists>p'. pool_step\<^sup>*\<^sup>* p p' \<and> pool_idle p' \<and> q_all p' = q_all p \<and> mset (q_done p') = mset (q_all p))"
proof -
  note ok = pool_ok_reachable [OF assms]
  obtain p' where p: "pool_step\<^sup>*\<^sup>* p p'" "pool_idle p'" "q_all p' = q_all p" using pool_drains [OF ok] by blast
  then have "pool_ok p'" using pool_ok_reachable assms rtranclp_trans by metis
  then have "mset (q_done p') = mset (q_all p)" using p(2,3) by (simp add: pool_ok_def pool_idle_def)
  then show ?thesis using ok p by (auto simp: pool_ok_def)
qed

theorem queued_jobs_are_all_done_witness:
  "\<exists>p'. pool_step\<^sup>*\<^sup>* (pool_enqueue (7 :: nat) (pool_init 1)) p' \<and> pool_idle p' \<and> q_done p' = [7]"
proof -
  have "pool_step (pool_init 1) (pool_enqueue (7 :: nat) (pool_init 1))" by (rule submit_none) (simp_all add: pool_init_def)
  then have "pool_step\<^sup>*\<^sup>* (pool_init 1) (pool_enqueue (7 :: nat) (pool_init 1))" by simp
  from queued_jobs_are_all_done [OF this] obtain p' where "pool_step\<^sup>*\<^sup>* (pool_enqueue (7 :: nat) (pool_init 1)) p'" "pool_idle p'"
    "mset (q_done p') = mset (q_all (pool_enqueue (7 :: nat) (pool_init 1)))" by blast
  then show ?thesis by (auto simp: pool_enqueue_def pool_init_def)
qed



text \<open>
  C33. For every JSON value that is printed with the escapes of json_esc_append, nested to any depth: exo_json_find on the object returns
  exactly the text of the first field of that name, nothing when there is none, never runs past the end, and exo_json_str returns the
  text that was escaped when it fits the buffer.
\<close>

theorem request_fields_are_found:
  assumes "jwf_fields kvs"
  shows "json_find (jprint (JObj kvs)) key = Some (map_option jprint (map_of kvs key)) \<and>
    (\<forall>s cap. map_of kvs key = Some (JText s) \<longrightarrow> length s < cap \<longrightarrow> json_str (jprint (JObj kvs)) key cap = Some (Some s)) \<and>
    (\<forall>s cap. length (esc_all s) + 9 \<le> cap \<longrightarrow> quoted_json cap s = jprint (JText s))"
  using json_find_printed [OF assms] json_str_printed(1) [OF assms] quoted_jtext by (simp del: jprint.simps(4))

theorem request_fields_are_found_witness:
  "json_find (jprint (JObj [(''a'', JObj [(''b'', JText [quot])]), (''b'', JArr [JRaw ''1'', JText '','']), (''c'', JText ''x'')])) ''b'' =
     Some (Some (CHR ''['' # ''1,'' @ jtext '','' @ '']''))"
  using request_fields_are_found [of "[(''a'', JObj [(''b'', JText [quot])]), (''b'', JArr [JRaw ''1'', JText '','']), (''c'', JText ''x'')]"]
  by (simp add: name_char_def raw_char_def raw_end_def jws_def jsonable_def del: jprint.simps(4))

text \<open>
  C34. For every document, however broken, the extractor returns (walk is total), its text is at most as long as the limit, 8192
  when that is 0, and it collects at most 200 links and 100 images.
\<close>

theorem page_keeps_its_limits:
  "length (pg_text (page_extract html base mx)) \<le> (if mx = 0 then 8192 else mx) \<and>
   length (pg_links (page_extract html base mx)) \<le> 200 \<and> length (pg_images (page_extract html base mx)) \<le> 100"
  by (rule page_bounds)

text \<open>
  C35. When \<open>POST /audit\<close> answers 200, every requested check was a known one and has run, in order; exactly one audit record was
  appended, with the line of every finding; the score is a percentage, 100 exactly when no check failed and one passed; and the
  answer names the record and the score.
\<close>

theorem accepted_audit_is_recorded:
  assumes "qms_audit_post net e v c r s = Some (s', rs)" and "p_status rs = 200"
  shows "\<exists>ids k fs w1 i a. audit_ids (field (tab_split (cstr (mbody r)) 4) 1) = Some (Inr ids) \<and> set ids \<subseteq> set known_checks \<and>
    run_checks (h_env v) c e ids k (s_net s) = Some (fs, w1) \<and> length fs = length ids \<and>
    qm_audits (s_reg s') = qm_audits (h_others v (s_reg s)) @ [a] \<and> a_id a = fit QID_MAX i \<and>
    a_findings a = concat (map finding_line fs) \<and> 0 \<le> a_score a \<and> a_score a \<le> 100 \<and>
    (a_score a = 100 \<longleftrightarrow> (\<forall>f \<in> set fs. f_res f \<noteq> RFail) \<and> (\<exists>f \<in> set fs. f_res f = RPass)) \<and>
    p_body rs = ''ok '' @ i @ CHR '' '' # show_int (a_score a) @ ''%''"
proof -
  let ?f = "tab_split (cstr (mbody r)) 4"
  obtain ids k fs w1 g i where ids: "audit_ids (field ?f 1) = Some (Inr ids)" "run_checks (h_env v) c e ids k (s_net s) = Some (fs, w1)"
      "audit_finish net e v i (?f ! 0) (field ?f 1) fs (s\<lparr>s_rng := g, s_net := w1\<rparr>) = Some (s', rs)"
    using assms by (auto simp: qms_audit_post_def Let_def plain_def split: if_split_asm option.split_asm sum.split_asm prod.split_asm)
  obtain t where a: "qm_audits (s_reg s') = qm_audits (h_others v (s_reg s)) @
      [\<lparr>a_id = fit QID_MAX i, a_name = ?f ! 0, a_criteria = field ?f 1, a_sched = t, a_status = ''done'',
        a_score = int (audit_score fs), a_findings = concat (map finding_line fs)\<rparr>]"
      "p_body rs = ''ok '' @ i @ CHR '' '' # show_int (int (audit_score fs)) @ ''%''"
    using audit_finish_ok [OF ids(3) assms(2)] by auto
  have "count_res RFail fs = 0 \<longleftrightarrow> (\<forall>f \<in> set fs. f_res f \<noteq> RFail)" "count_res RPass fs > 0 \<longleftrightarrow> (\<exists>f \<in> set fs. f_res f = RPass)"
    by (auto simp: count_res_def filter_empty_conv)
  then have "int (audit_score fs) = 100 \<longleftrightarrow> (\<forall>f \<in> set fs. f_res f \<noteq> RFail) \<and> (\<exists>f \<in> set fs. f_res f = RPass)"
    "int (audit_score fs) \<le> 100" using audit_score_perfect [of fs] audit_score_le [of fs] by linarith+
  then show ?thesis
    using a audit_ids_known [OF ids(1)] run_checks_length [OF ids(2)] ids(1,2)
    by (intro exI [of _ ids] exI [of _ k] exI [of _ fs] exI [of _ w1] exI [of _ i]) auto
qed

theorem accepted_audit_is_recorded_witness:
  "\<exists>s' rs a. qms_audit_post (always 200 ''1'') \<lparr>x_host = ''h'', x_port = 1\<rparr>
      \<lparr>h_env = \<lparr>e_net = (\<lambda>_. always 200 ''1''), e_child = (\<lambda>_ _ u. ((0, [], []), u)), e_kind = (\<lambda>_. None), e_file = (\<lambda>_. None), e_now = 0,
         e_day = [], e_rework = None\<rparr>, h_now = (\<lambda>_. 7), h_seed = 1, h_others = id, h_spec = []\<rparr>
      (cfg_defaults\<lparr>cf_ui := ''ui''\<rparr>)
      \<lparr>mmethod = ''POST'', mpath = ''/audit'', mquery = ''target=x'', mbody = ''n'' @ tab # ''ui-audit'', mauth = [], mhdrs = []\<rparr>
      \<lparr>s_reg = qms_init, s_rng = 1, s_net = ()\<rparr> = Some (s', rs) \<and>
    qm_audits (s_reg s') = [a] \<and> (\<exists>fs. length fs = 1 \<and> a_findings a = concat (map finding_line fs))"
proof -
  let ?n = "always 200 ''1'' :: unit net" and ?e = "\<lparr>x_host = ''h'', x_port = 1\<rparr>"
  let ?q = "\<lparr>e_net = (\<lambda>_. ?n), e_child = (\<lambda>_ _ u. ((0, [], []), u)), e_kind = (\<lambda>_. None), e_file = (\<lambda>_. None), e_now = 0,
         e_day = [], e_rework = None\<rparr> :: unit qenv"
  let ?v = "\<lparr>h_env = ?q, h_now = (\<lambda>_. 7), h_seed = 1, h_others = id, h_spec = []\<rparr>"
    and ?c = "cfg_defaults\<lparr>cf_ui := ''ui''\<rparr>"
    and ?r = "\<lparr>mmethod = ''POST'', mpath = ''/audit'', mquery = ''target=x'', mbody = ''n'' @ tab # ''ui-audit'', mauth = [], mhdrs = []\<rparr>"
    and ?s = "\<lparr>s_reg = qms_init, s_rng = 1, s_net = ()\<rparr>"
  have rq: "exo_request ?n ?e m t b j w = (Inr (200, ''1''), w)" for m t b j w
    by (rule always_request) (simp_all add: EXO_MAX_BODY_def)
  have per: "qms_persist ?n ?e k x w = (None, w)" and nt: "client_note ?n ?e k w = (None, w)" for k x w
    by (simp_all add: qms_persist_def client_note_def rq)
  have body: "tab_split (cstr (CHR ''n'' # tab # ''ui-audit'')) 4 = [''n'', ''ui-audit'']" by (simp add: tab_split_def cstr_def)
  have ids: "audit_ids ''ui-audit'' = Some (Inr [''ui-audit''])"
    by (simp add: audit_ids_def strtok_all.simps known_checks_def)
  have tg: "mod_qp_str ''target=x'' ''target'' 4096 = Some ''x''" "mod_qp_str ''target=x'' ''agents'' 1024 = None"
    by (simp_all add: mod_qp_str_def qp_raw_def plus_blank_def)
  let ?f = "set_finding ''ui-audit'' RPass ''0 findings on x''"
  have run: "run_checks ?q ?c ?e [''ui-audit''] \<lparr>ck_target = Some ''x'', ck_agents = None, ck_memo = None\<rparr> () = Some ([?f], ())"
    by (simp add: check_run_def check_ui_audit_def or_else_def)
  have post: "qms_audit_post ?n ?e ?v ?c ?r ?s = Some (s', rs) \<longrightarrow> p_status rs = 200" for s' rs
    by (auto simp: qms_audit_post_def body field_def ids tg run audit_finish_def audit_save_def per nt plain_def Let_def
        split: prod.split simp del: run_checks.simps)
  have fin: "qms_audit_post ?n ?e ?v ?c ?r ?s \<noteq> None"
    by (simp add: qms_audit_post_def body field_def ids tg run audit_finish_def audit_save_def per nt Let_def
        split: prod.split del: run_checks.simps)
  then obtain s' rs where p: "qms_audit_post ?n ?e ?v ?c ?r ?s = Some (s', rs)" by force
  then have "p_status rs = 200" using post by blast
  from accepted_audit_is_recorded [OF p this]
  obtain ids' fs a where a: "audit_ids (field (tab_split (cstr (mbody ?r)) 4) 1) = Some (Inr ids')" "length fs = length ids'"
      "qm_audits (s_reg s') = qm_audits (h_others ?v (s_reg ?s)) @ [a]" "a_findings a = concat (map finding_line fs)" by blast
  have "ids' = [''ui-audit'']" using a(1) ids body by (simp add: field_def)
  moreover have "qm_audits (s_reg s') = [a]" using a(3) by (simp add: qms_init_def)
  ultimately show ?thesis using p a(2,4) by auto
qed

text \<open>
  C36. Whatever check is run, whatever the other programs print, the files hold and exomind answers: when it comes back, the id
  of its finding fits 32 bytes and its evidence 4096, terminators included.
\<close>

theorem findings_fit_their_buffers:
  "case check_run v c e i k w of None \<Rightarrow> True | Some (f, k1, w1) \<Rightarrow> length (f_id f) < 32 \<and> length (f_ev f) < 4096"
  using check_run_fits [of v c e i k w] by (auto simp: finding_fits_def EVID_MAX_def split: option.split)





text \<open>
  C39. A request that skips the robots check still asks for the pace of its host, and that marks the host as known without having
  fetched its robots file. Without a cache directory every later request to the host, whatever its path, passes the check.
\<close>

theorem skipping_once_disables_robots:
  assumes "cc_robots c" and "j_polite j" and "cc_dir c = []" and "url_is_http (j_url j)"
    and "policy s (url_authority (j_url j) 256) = None" and "fetch_worker x n c j s = Some (r, s')"
    and "url_is_http url"
  shows "robots_denied x n c (url_authority (j_url j) 256) url s' = Some (None, s')"
proof -
  obtain p where p: "policy s' (url_authority (j_url j) 256) = Some p" "rb_fetched p" "rb_rules p = []"
    using skip_forgets [OF assms(1-6)] by blast
  then have "\<not> forbids p url" by (simp add: forbids_def)
  then show ?thesis using robots_denied_known [OF p(1,2) assms(7), of x n c] by auto
qed

theorem skipping_once_disables_robots_witness:
  "\<exists>s'. robots_denied \<lparr>v_sh = (\<lambda>c w. ((1, None, None), w)), v_tmp = (\<lambda>w. (None, w)), v_now = (\<lambda>w. (5, w)), v_sleep = (\<lambda>i w :: unit. w), v_net = (\<lambda>e b w. (Inl [], w)), v_file = (\<lambda>f w. None), v_mkdir = (\<lambda>d w. w), v_write = (\<lambda>f b w. w), v_dir = (\<lambda>d w. None), v_delay = (\<lambda>s. 0), v_order = (\<lambda>n w. [0..<n]), v_room = 1099511627776\<rparr> net_init \<lparr>cc_pace = 200, cc_cache = False, cc_robots = True, cc_dir = [], cc_host = ''127.0.0.1'', cc_port = 7654, cc_token = None, cc_jobs = 16, cc_listen = 7658\<rparr> ''h'' ''http://h/private'' s' = Some (None, s')"
proof -
  let ?s = "\<lparr>cw = (), cw_ua = 0, cw_paces = [], cw_robs = [], cw_fetches = 0, cw_errors = 0, cw_hits = 0, cw_bytes = 0\<rparr>" and ?c = "\<lparr>cc_pace = 200, cc_cache = False, cc_robots = True, cc_dir = [], cc_host = ''127.0.0.1'', cc_port = 7654, cc_token = None, cc_jobs = 16, cc_listen = 7658\<rparr>" and ?j = "\<lparr>j_url = ''http://h/a/b'', j_max = 10, j_links = False, j_images = False, j_polite = True\<rparr>" and ?x = "\<lparr>v_sh = (\<lambda>c w. ((1, None, None), w)), v_tmp = (\<lambda>w. (None, w)), v_now = (\<lambda>w. (5, w)), v_sleep = (\<lambda>i w :: unit. w), v_net = (\<lambda>e b w. (Inl [], w)), v_file = (\<lambda>f w. None), v_mkdir = (\<lambda>d w. w), v_write = (\<lambda>f b w. w), v_dir = (\<lambda>d w. None), v_delay = (\<lambda>s. 0), v_order = (\<lambda>n w. [0..<n]), v_room = 1099511627776\<rparr>"
  have u: "url_authority ''http://h/a/b'' 256 = ''h''" "url_host ''http://h/a/b'' 256 = Some ''h''"
    "url_is_http ''http://h/a/b''" "url_is_http ''http://h/private''" by code_simp+
  have "\<exists>r s'. fetch_worker ?x net_init ?c ?j ?s = Some (r, s')"
    by (simp add: fetch_worker_def u robots_effective_pace_def robots_get_def new_rob_def robots_pace_file_def robots_cache_load_def pace_wait_def
        pace_calc_def fetch_page_def crawl_cache_get_def net_fetch_def net_next_ua_def curl_get_def Let_def split: prod.split)
  then obtain r s' where f: "fetch_worker ?x net_init ?c ?j ?s = Some (r, s')" by blast
  have "robots_denied ?x net_init ?c ''h'' ''http://h/private'' s' = Some (None, s')"
    using skipping_once_disables_robots [OF _ _ _ _ _ f u(4)] by (simp add: u policy_def)
  then show ?thesis by blast
qed



end
